(* ===== verification/Lyre_Prelude.thy ===== *)
theory Lyre_Prelude
  imports Complex_Main
begin

text \<open>
  Shared vocabulary of the development.

  \<^item> Python exceptions: \<open>exn\<close>, a type name and a message, plus the simulated kill
    (a \<open>BaseException\<close> that \<open>except Exception\<close> does not catch).
  \<^item> Effects: \<open>exec\<close>, a function from a state to a result or an exception together with
    the state reached (an exception keeps the writes that were made before it).
  \<^item> Tables: lists of rows in rowid order, with \<open>UPDATE ... WHERE\<close>, \<open>ORDER BY\<close>
    and \<open>LIMIT\<close> as list functions.
  \<^item> \<open>keeps\<close>, the preservation calculus the invariants of the components use.
\<close>

named_theorems exec_simps \<open>unfolding of the state-and-exception operations\<close>
named_theorems keeps_intros \<open>preservation of a state predicate, one rule per operation\<close>
named_theorems plain_intros \<open>raising nothing but ordinary exceptions\<close>
named_theorems row_simps \<open>table rows after an update\<close>

section \<open>Exceptions and the state-and-exception functions\<close>

datatype exn =
    Exn (exn_type: string) (exn_msg: string)
  | SimulatedKill (kill_point: string)

abbreviation value_error :: "string \<Rightarrow> exn" where
  "value_error m \<equiv> Exn ''ValueError'' m"

abbreviation foreign_key_failed :: exn where
  "foreign_key_failed \<equiv> Exn ''IntegrityError'' ''FOREIGN KEY constraint failed''"

abbreviation unique_failed :: "string \<Rightarrow> exn" where
  "unique_failed c \<equiv> Exn ''IntegrityError'' (''UNIQUE constraint failed: '' @ c)"

type_synonym ('s, 'a) exec = "'s \<Rightarrow> (exn + 'a) \<times> 's"

definition ret :: "'a \<Rightarrow> ('s, 'a) exec" where
  "ret a = (\<lambda>s. (Inr a, s))"

definition throw :: "exn \<Rightarrow> ('s, 'a) exec" where
  "throw e = (\<lambda>s. (Inl e, s))"

definition bnd :: "('s, 'a) exec \<Rightarrow> ('a \<Rightarrow> ('s, 'b) exec) \<Rightarrow> ('s, 'b) exec" where
  "bnd m f = (\<lambda>s. case m s of (Inl e, s') \<Rightarrow> (Inl e, s') | (Inr a, s') \<Rightarrow> f a s')"

definition seqn :: "('s, 'a) exec \<Rightarrow> ('s, 'b) exec \<Rightarrow> ('s, 'b) exec" where
  "seqn m k = bnd m (\<lambda>_. k)"

definition query :: "('s \<Rightarrow> 'a) \<Rightarrow> ('s, 'a) exec" where
  "query f = (\<lambda>s. (Inr (f s), s))"

definition upd :: "('s \<Rightarrow> 's) \<Rightarrow> ('s, unit) exec" where
  "upd f = (\<lambda>s. (Inr (), f s))"

definition step :: "('s \<Rightarrow> 'a \<times> 's) \<Rightarrow> ('s, 'a) exec" where
  "step f = (\<lambda>s. case f s of (a, s') \<Rightarrow> (Inr a, s'))"

text \<open>\<open>try: m except Exception as e: h(e)\<close>; a simulated kill passes through.\<close>

definition try_except :: "('s, 'a) exec \<Rightarrow> (exn \<Rightarrow> ('s, 'a) exec) \<Rightarrow> ('s, 'a) exec" where
  "try_except m h = (\<lambda>s. case m s of
       (Inl (Exn t msg), s') \<Rightarrow> h (Exn t msg) s'
     | (Inl (SimulatedKill p), s') \<Rightarrow> (Inl (SimulatedKill p), s')
     | (Inr a, s') \<Rightarrow> (Inr a, s'))"

fun for_each :: "('x \<Rightarrow> ('s, unit) exec) \<Rightarrow> 'x list \<Rightarrow> ('s, unit) exec" where
  "for_each f [] = ret ()"
| "for_each f (x # xs) = seqn (f x) (for_each f xs)"

definition run_if :: "bool \<Rightarrow> ('s, unit) exec \<Rightarrow> ('s, unit) exec" where
  "run_if b m = (if b then m else ret ())"

definition result_of :: "(exn + 'a) \<times> 's \<Rightarrow> exn + 'a" where
  "result_of r = fst r"

definition state_of :: "(exn + 'a) \<times> 's \<Rightarrow> 's" where
  "state_of r = snd r"

lemmas exec_defs [exec_simps] =
  ret_def throw_def bnd_def seqn_def query_def upd_def step_def try_except_def run_if_def
  result_of_def state_of_def

lemma bnd_ret [simp]: "bnd (ret a) f = f a"
  by (simp add: exec_simps)

lemma bnd_query: "bnd (query q) f s = f (q s) s"
  by (simp add: exec_simps)

lemma bnd_throw [simp]: "bnd (throw e) f = throw e"
  by (simp add: exec_simps)

lemma bnd_assoc: "bnd (bnd m f) g = bnd m (\<lambda>a. bnd (f a) g)"
  by (rule ext) (auto simp: exec_simps split: prod.splits sum.splits)

lemma for_each_append:
  "for_each f (xs @ ys) = seqn (for_each f xs) (for_each f ys)"
  by (induction xs) (auto simp: seqn_def bnd_assoc)

section \<open>Preservation of a state predicate\<close>

text \<open>\<open>keeps I m\<close>: whatever \<open>m\<close> returns or raises, a state satisfying \<open>I\<close>
  stays so. The raising case is included: the code runs on after a caught exception.\<close>

definition keeps :: "('s \<Rightarrow> bool) \<Rightarrow> ('s, 'a) exec \<Rightarrow> bool" where
  "keeps I m \<longleftrightarrow> (\<forall>s. I s \<longrightarrow> I (state_of (m s)))"

lemma keepsI: "(\<And>s. I s \<Longrightarrow> I (snd (m s))) \<Longrightarrow> keeps I m"
  by (simp add: keeps_def state_of_def)

lemma keepsD: "keeps I m \<Longrightarrow> I s \<Longrightarrow> I (snd (m s))"
  by (simp add: keeps_def state_of_def)

lemma keeps_ret [keeps_intros]: "keeps I (ret a)"
  by (simp add: keeps_def exec_simps)

lemma keeps_throw [keeps_intros]: "keeps I (throw e)"
  by (simp add: keeps_def exec_simps)

lemma keeps_query [keeps_intros]: "keeps I (query f)"
  by (simp add: keeps_def exec_simps)

lemma keeps_bnd [keeps_intros]:
  assumes m: "keeps I m" and f: "\<And>a. keeps I (f a)"
  shows "keeps I (bnd m f)"
proof (rule keepsI)
  fix s assume s: "I s"
  obtain r s' where r: "m s = (r, s')" by (cases "m s")
  from keepsD [OF m s] r have s': "I s'" by simp
  show "I (snd (bnd m f s))"
    by (cases r) (use r s' f in \<open>auto simp: bnd_def dest: keepsD\<close>)
qed

lemma keeps_seqn [keeps_intros]: "keeps I m \<Longrightarrow> keeps I k \<Longrightarrow> keeps I (seqn m k)"
  by (simp add: seqn_def keeps_bnd)

lemma keeps_upd: "(\<And>s. I s \<Longrightarrow> I (f s)) \<Longrightarrow> keeps I (upd f)"
  by (simp add: keeps_def exec_simps)

lemma keeps_step: "(\<And>s. I s \<Longrightarrow> I (snd (f s))) \<Longrightarrow> keeps I (step f)"
  by (simp add: keeps_def exec_simps split: prod.splits) (metis snd_conv)

lemma keeps_try [keeps_intros]:
  assumes m: "keeps I m" and h: "\<And>e. keeps I (h e)"
  shows "keeps I (try_except m h)"
proof (rule keepsI)
  fix s assume s: "I s"
  obtain r s' where r: "m s = (r, s')" by (cases "m s")
  from keepsD [OF m s] r have s': "I s'" by simp
  show "I (snd (try_except m h s))"
    using r s' h by (auto simp: try_except_def split: sum.splits exn.splits dest: keepsD)
qed

lemma keeps_run_if [keeps_intros]: "keeps I m \<Longrightarrow> keeps I (run_if b m)"
  by (simp add: run_if_def keeps_ret)

lemma keeps_if [keeps_intros]: "keeps I m \<Longrightarrow> keeps I k \<Longrightarrow> keeps I (if b then m else k)"
  by simp

lemma keeps_case_option [keeps_intros]:
  "keeps I m \<Longrightarrow> (\<And>a. keeps I (k a)) \<Longrightarrow> keeps I (case x of None \<Rightarrow> m | Some a \<Rightarrow> k a)"
  by (cases x) auto

lemma keeps_case_sum [keeps_intros]:
  "(\<And>a. keeps I (f a)) \<Longrightarrow> (\<And>b. keeps I (g b)) \<Longrightarrow> keeps I (case x of Inl a \<Rightarrow> f a | Inr b \<Rightarrow> g b)"
  by (cases x) auto

lemma keeps_let [keeps_intros]: "(\<And>a. keeps I (f a)) \<Longrightarrow> keeps I (let a = x in f a)"
  by simp

lemma keeps_for_each [keeps_intros]: "(\<And>x. keeps I (f x)) \<Longrightarrow> keeps I (for_each f xs)"
  by (induction xs) (auto intro: keeps_ret keeps_seqn)

section \<open>Raising ordinary exceptions only\<close>

text \<open>\<open>plain m\<close>: whatever \<open>m\<close> raises, \<open>except Exception\<close> catches it.\<close>

definition plain :: "('s, 'a) exec \<Rightarrow> bool" where
  "plain m \<longleftrightarrow> (\<forall>s p. fst (m s) \<noteq> Inl (SimulatedKill p))"

lemma plain_ret [plain_intros]: "plain (ret a)"
  by (simp add: plain_def exec_simps)

lemma plain_throw [plain_intros]: "plain (throw (Exn t m))"
  by (simp add: plain_def exec_simps)

lemma plain_query [plain_intros]: "plain (query f)"
  by (simp add: plain_def exec_simps)

lemma plain_upd [plain_intros]: "plain (upd f)"
  by (simp add: plain_def exec_simps)

lemma plain_step [plain_intros]: "plain (step f)"
  by (simp add: plain_def exec_simps split: prod.splits)

lemma plain_bnd [plain_intros]:
  assumes "plain m" "\<And>a. plain (f a)"
  shows "plain (bnd m f)"
  unfolding plain_def bnd_def
proof (intro allI)
  fix s p
  obtain r s' where "m s = (r, s')" by (cases "m s")
  then show "fst (case m s of (Inl e, s') \<Rightarrow> (Inl e, s') | (Inr a, s') \<Rightarrow> f a s') \<noteq> Inl (SimulatedKill p)"
    using assms by (cases r) (auto simp: plain_def dest: spec [of _ s])
qed

lemma plain_seqn [plain_intros]: "plain m \<Longrightarrow> plain k \<Longrightarrow> plain (seqn m k)"
  by (simp add: seqn_def plain_bnd)

lemma plain_try [plain_intros]: "plain m \<Longrightarrow> (\<And>e. plain (h e)) \<Longrightarrow> plain (try_except m h)"
  by (auto simp: plain_def try_except_def split: prod.splits sum.splits exn.splits)
    (metis fst_conv)+

lemma plain_run_if [plain_intros]: "plain m \<Longrightarrow> plain (run_if b m)"
  by (simp add: run_if_def plain_ret)

lemma plain_if [plain_intros]: "plain m \<Longrightarrow> plain k \<Longrightarrow> plain (if b then m else k)"
  by simp

lemma plain_case_option [plain_intros]:
  "plain m \<Longrightarrow> (\<And>a. plain (k a)) \<Longrightarrow> plain (case x of None \<Rightarrow> m | Some a \<Rightarrow> k a)"
  by (cases x) auto

lemma plain_case_sum [plain_intros]:
  "(\<And>a. plain (f a)) \<Longrightarrow> (\<And>b. plain (g b)) \<Longrightarrow> plain (case x of Inl a \<Rightarrow> f a | Inr b \<Rightarrow> g b)"
  by (cases x) auto

lemma plain_let [plain_intros]: "(\<And>a. plain (f a)) \<Longrightarrow> plain (let a = x in f a)"
  by simp

lemma plain_for_each [plain_intros]: "(\<And>x. plain (f x)) \<Longrightarrow> plain (for_each f xs)"
  by (induction xs) (auto intro: plain_ret plain_seqn)

text \<open>The same of a result.\<close>

definition plain_err :: "exn + 'a \<Rightarrow> bool" where
  "plain_err r \<longleftrightarrow> (\<forall>p. r \<noteq> Inl (SimulatedKill p))"

lemma plain_throw_case:
  "plain_err r \<Longrightarrow> (\<And>a. plain (g a)) \<Longrightarrow> plain (case r of Inl e \<Rightarrow> throw e | Inr a \<Rightarrow> g a)"
  by (cases r) (auto simp: plain_err_def plain_def exec_simps)

lemma plain_query_case:
  assumes "\<And>d. plain_err (q d)" "\<And>a. plain (g a)"
  shows "plain (bnd (query q) (\<lambda>r. case r of Inl e \<Rightarrow> throw e | Inr a \<Rightarrow> g a))"
  unfolding plain_def bnd_query
proof (intro allI)
  fix s p
  show "fst ((case q s of Inl e \<Rightarrow> throw e | Inr a \<Rightarrow> g a) s) \<noteq> Inl (SimulatedKill p)"
    using assms(1) [of s] assms(2) by (cases "q s") (auto simp: plain_err_def plain_def throw_def)
qed

text \<open>A plain body under \<open>except Exception\<close> with a body that never raises does not
  raise.\<close>

lemma try_except_total:
  assumes "plain m" "\<And>e s. \<exists>b s'. h e s = (Inr b, s')"
  shows "\<exists>b s'. try_except m h s = (Inr b, s')"
proof (cases "m s")
  case (Pair r s')
  show ?thesis
  proof (cases r)
    case (Inl e)
    with Pair assms(1) obtain t msg where "e = Exn t msg"
      by (cases e) (auto simp: plain_def dest: spec [of _ s])
    with Inl Pair assms(2) [of "Exn t msg" s'] show ?thesis by (simp add: try_except_def)
  qed (use Pair in \<open>simp add: try_except_def\<close>)
qed

lemma for_each_total:
  assumes "\<And>x s. \<exists>s'. f x s = (Inr (), s')"
  shows "\<exists>s'. for_each f xs s = (Inr (), s')"
proof (induction xs arbitrary: s)
  case (Cons x xs)
  obtain s1 where s1: "f x s = (Inr (), s1)" using assms by blast
  obtain s2 where "for_each f xs s1 = (Inr (), s2)" using Cons.IH by blast
  with s1 show ?case by (simp add: exec_simps)
qed (simp add: exec_simps)

lemma plain_raises: "plain m \<Longrightarrow> m s = (Inl e, s') \<Longrightarrow> \<exists>t msg. e = Exn t msg"
proof (cases e)
  case (SimulatedKill p)
  moreover assume "m s = (Inl e, s')"
  ultimately have "fst (m s) = Inl (SimulatedKill p)" by simp
  moreover assume "plain m"
  ultimately show ?thesis by (simp add: plain_def)
qed simp

lemma try_step: "try_except (step f) h = step f"
  by (rule ext) (simp add: exec_simps split: prod.splits)

lemma bnd_step: "bnd (step f) g s = g (fst (f s)) (snd (f s))"
  by (simp add: bnd_def step_def split: prod.splits)

section \<open>Tables\<close>

text \<open>\<open>SELECT ... WHERE p LIMIT 1\<close>, \<open>UPDATE t SET f WHERE p\<close>, its rowcount, and
  \<open>DELETE FROM t WHERE p\<close>. A table is the list of its rows in rowid order.\<close>

definition select_one :: "('r \<Rightarrow> bool) \<Rightarrow> 'r list \<Rightarrow> 'r option" where
  "select_one p rows = List.find p rows"

definition update_where :: "('r \<Rightarrow> bool) \<Rightarrow> ('r \<Rightarrow> 'r) \<Rightarrow> 'r list \<Rightarrow> 'r list" where
  "update_where p f rows = map (\<lambda>r. if p r then f r else r) rows"

definition row_count :: "('r \<Rightarrow> bool) \<Rightarrow> 'r list \<Rightarrow> nat" where
  "row_count p rows = length (filter p rows)"

definition exists_row :: "('r \<Rightarrow> bool) \<Rightarrow> 'r list \<Rightarrow> bool" where
  "exists_row p rows \<longleftrightarrow> list_ex p rows"

definition delete_where :: "('r \<Rightarrow> bool) \<Rightarrow> 'r list \<Rightarrow> 'r list" where
  "delete_where p rows = filter (\<lambda>r. \<not> p r) rows"

text \<open>\<open>LIMIT n\<close>: SQLite reads a negative limit as no limit.\<close>

definition sql_limit :: "int \<Rightarrow> 'a list \<Rightarrow> 'a list" where
  "sql_limit n xs = (if n < 0 then xs else take (nat n) xs)"

text \<open>\<open>ORDER BY key\<close> and \<open>ORDER BY key DESC\<close>. Rows with equal keys keep their rowid
  order (ascending) or reverse it (descending), the order of a forward or backward
  index scan.\<close>

definition order_by :: "('r \<Rightarrow> 'k::linorder) \<Rightarrow> 'r list \<Rightarrow> 'r list" where
  "order_by k rows = sort_key k rows"

definition order_by_desc :: "('r \<Rightarrow> 'k::linorder) \<Rightarrow> 'r list \<Rightarrow> 'r list" where
  "order_by_desc k rows = rev (sort_key k rows)"

lemma select_one_Some: "select_one p rows = Some r \<Longrightarrow> r \<in> set rows \<and> p r"
  by (auto simp: select_one_def find_Some_iff)

lemma select_one_None: "select_one p rows = None \<longleftrightarrow> (\<forall>r \<in> set rows. \<not> p r)"
  by (auto simp: select_one_def find_None_iff)

lemma exists_row_iff [simp]: "exists_row p rows \<longleftrightarrow> (\<exists>r \<in> set rows. p r)"
  by (auto simp: exists_row_def list_ex_iff)

lemma length_update_where [simp]: "length (update_where p f rows) = length rows"
  by (simp add: update_where_def)

lemma set_update_where:
  "set (update_where p f rows) = (\<lambda>r. if p r then f r else r) ` set rows"
  by (simp add: update_where_def)

lemma update_where_cases:
  assumes "x \<in> set (update_where p f rows)"
  obtains (updated) r where "r \<in> set rows" "p r" "x = f r"
    | (kept) "x \<in> set rows" "\<not> p x"
  using assms unfolding set_update_where by (auto split: if_splits)

lemma update_where_kept: "x \<in> set rows \<Longrightarrow> \<not> p x \<Longrightarrow> x \<in> set (update_where p f rows)"
  unfolding set_update_where by force

lemma update_where_updated: "x \<in> set rows \<Longrightarrow> p x \<Longrightarrow> f x \<in> set (update_where p f rows)"
  unfolding set_update_where by force

lemma update_where_none: "(\<forall>r \<in> set rows. \<not> p r) \<Longrightarrow> update_where p f rows = rows"
  by (simp add: update_where_def map_idI)

lemma map_update_where [row_simps]:
  "(\<And>r. p r \<Longrightarrow> k (f r) = k r) \<Longrightarrow> map k (update_where p f rows) = map k rows"
  by (simp add: update_where_def)

lemma row_count_0: "row_count p rows = 0 \<longleftrightarrow> (\<forall>r \<in> set rows. \<not> p r)"
  by (simp add: row_count_def filter_empty_conv)

lemma set_delete_where [simp]: "set (delete_where p rows) = {r \<in> set rows. \<not> p r}"
  by (auto simp: delete_where_def)

lemma set_sql_limit: "set (sql_limit n xs) \<subseteq> set xs"
  by (auto simp: sql_limit_def dest: in_set_takeD)

lemma length_sql_limit: "0 \<le> n \<Longrightarrow> length (sql_limit n xs) \<le> nat n"
  by (simp add: sql_limit_def)

lemma set_order_by [simp]: "set (order_by k rows) = set rows"
  by (simp add: order_by_def)

lemma set_order_by_desc [simp]: "set (order_by_desc k rows) = set rows"
  by (simp add: order_by_desc_def)

lemma sorted_order_by: "sorted (map k (order_by k rows))"
  by (simp add: order_by_def)

lemma sorted_sql_limit: "sorted (map k xs) \<Longrightarrow> sorted (map k (sql_limit n xs))"
  by (simp add: sql_limit_def take_map [symmetric] sorted_wrt_take)

text \<open>Rows of a table with a primary key: after an update that keeps the key, the row
  found by its key is the updated one.\<close>

lemma select_one_update_where:
  assumes "\<And>r. p r \<Longrightarrow> q (f r) = q r"
  shows "select_one q (update_where p f rows)
       = map_option (\<lambda>r. if p r then f r else r) (select_one q rows)"
  unfolding select_one_def update_where_def
  by (induction rows) (use assms in auto)

lemma distinct_key_unique:
  "distinct (map k rows) \<Longrightarrow> r \<in> set rows \<Longrightarrow> r' \<in> set rows \<Longrightarrow> k r = k r' \<Longrightarrow> r = r'"
  by (meson distinct_map inj_onD)

lemma select_one_key:
  assumes "distinct (map k rows)" and "r \<in> set rows"
  shows "select_one (\<lambda>x. k x = k r) rows = Some r"
proof (cases "select_one (\<lambda>x. k x = k r) rows")
  case None
  with assms(2) show ?thesis by (auto simp: select_one_None)
next
  case (Some r')
  from select_one_Some [OF Some] assms show ?thesis
    using Some distinct_key_unique by metis
qed

lemma distinct_delete_where: "distinct (map k rows) \<Longrightarrow> distinct (map k (delete_where p rows))"
  by (simp add: delete_where_def distinct_map_filter)

section \<open>Single-winner transitions\<close>

text \<open>
  The idiom the repositories use for every guarded \<open>UPDATE ... RETURNING\<close>: the call
  reports whether it changed the row, a losing call changes nothing, and after a winning
  call the guard is false for everybody. However many processes try, at most one wins.
\<close>

locale single_winner =
  fixes attempt :: "'s \<Rightarrow> bool \<times> 's"
  assumes loser_unchanged: "\<not> fst (attempt s) \<Longrightarrow> snd (attempt s) = s"
    and winner_blocks: "fst (attempt s) \<Longrightarrow> \<not> fst (attempt (snd (attempt s)))"
begin

primrec attempts :: "nat \<Rightarrow> 's \<Rightarrow> bool list \<times> 's" where
  "attempts 0 s = ([], s)"
| "attempts (Suc n) s =
     (let (b, s') = attempt s; (bs, s'') = attempts n s' in (b # bs, s''))"

lemma blocked_stays:
  "\<not> fst (attempt s) \<Longrightarrow> attempts n s = (replicate n False, s)"
proof (induction n)
  case 0
  then show ?case by simp
next
  case (Suc n)
  have "snd (attempt s) = s" using Suc.prems by (rule loser_unchanged)
  with Suc show ?case by (cases "attempt s") auto
qed

lemma at_most_one_winner: "length (filter id (fst (attempts n s))) \<le> 1"
proof (cases n)
  case 0
  then show ?thesis by simp
next
  case (Suc m)
  obtain b s' where a: "attempt s = (b, s')" by (cases "attempt s")
  show ?thesis
  proof (cases b)
    case True
    with a winner_blocks [of s] have "\<not> fst (attempt s')" by simp
    then have "attempts m s' = (replicate m False, s')" by (rule blocked_stays)
    with a Suc True show ?thesis by simp
  next
    case False
    with a loser_unchanged [of s] have "s' = s" by simp
    with a False blocked_stays [of s n] show ?thesis by simp
  qed
qed

lemma winner_exactly_one:
  "fst (attempt s) \<Longrightarrow> fst (attempts (Suc n) s) = True # replicate n False"
  using winner_blocks [of s] blocked_stays [of "snd (attempt s)" n]
  by (cases "attempt s") auto

lemma winner_once_state:
  "snd (attempts (Suc n) s) = snd (attempt s)"
proof (cases "fst (attempt s)")
  case True
  then show ?thesis
    using winner_blocks [of s] blocked_stays [of "snd (attempt s)" n]
    by (cases "attempt s") auto
next
  case False
  then show ?thesis
    using blocked_stays [of s "Suc n"] loser_unchanged [of s] by simp
qed

end

end
