(* ===== verification/Py_Str.thy ===== *)
theory Py_Str
  imports Lyre_Prelude
begin

text \<open>
  The string operations of Python the code uses. A \<open>str\<close> is the list of the bytes of
  its UTF-8 encoding (also what SQLite stores and compares), so concatenation and equality
  are those of lists, and everything that counts or looks at characters goes through
  \<open>uchars\<close>, the list of the encoded code points.
\<close>

section \<open>Code points\<close>

definition is_cont :: "char \<Rightarrow> bool" where
  "is_cont c \<longleftrightarrow> (let n = (of_char c :: nat) in 128 \<le> n \<and> n < 192)"

text \<open>\<open>uchars s\<close>: the bytes of each code point. A continuation byte joins the code
  point it follows.\<close>

fun uchars :: "string \<Rightarrow> string list" where
  "uchars [] = []"
| "uchars (c # cs) =
     (case uchars cs of
        [] \<Rightarrow> [[c]]
      | u # us \<Rightarrow> (if is_cont (hd u) then (c # u) # us else [c] # u # us))"

lemma uchars_nonempty: "u \<in> set (uchars s) \<Longrightarrow> u \<noteq> []"
  by (induction s arbitrary: u) (auto split: list.splits if_splits)

lemma concat_uchars [simp]: "concat (uchars s) = s"
  by (induction s) (auto split: list.splits)

lemma uchars_Nil_iff [simp]: "uchars s = [] \<longleftrightarrow> s = []"
  by (cases s) (auto split: list.splits)

definition ulen :: "string \<Rightarrow> nat" where
  "ulen s = length (uchars s)"

text \<open>\<open>s[:n]\<close> and \<open>s[-n:]\<close> (for \<open>n > 0\<close>).\<close>

definition utake :: "nat \<Rightarrow> string \<Rightarrow> string" where
  "utake n s = concat (take n (uchars s))"

lemma utake_all: "ulen s \<le> n \<Longrightarrow> utake n s = s"
  by (simp add: utake_def ulen_def)

lemma utake_0 [simp]: "utake 0 s = []"
  by (simp add: utake_def)

lemma hd_uchars: "s \<noteq> [] \<Longrightarrow> hd (hd (uchars s)) = hd s"
  by (cases s) (auto split: list.splits)

text \<open>A prefix of the code points is again a sequence of code points.\<close>

lemma uchars_take: "uchars (concat (take n (uchars s))) = take n (uchars s)"
proof (induction s arbitrary: n)
  case Nil
  then show ?case by simp
next
  case (Cons c cs)
  show ?case
  proof (cases n)
    case 0
    then show ?thesis by simp
  next
    case (Suc m)
    show ?thesis
    proof (cases "uchars cs")
      case Nil
      with Suc show ?thesis by simp
    next
      case (Cons u us)
      have ne: "u \<noteq> []" using uchars_nonempty [of u cs] Cons by simp
      show ?thesis
      proof (cases "is_cont (hd u)")
        case True
        have "uchars (concat (take (Suc m) (uchars cs))) = take (Suc m) (uchars cs)"
          by (rule Cons.IH)
        with True Cons Suc show ?thesis by simp
      next
        case False
        have eq: "uchars (concat (take m (uchars cs))) = take m (uchars cs)"
          by (rule Cons.IH)
        show ?thesis
          using False Cons Suc eq ne by (cases m) auto
      qed
    qed
  qed
qed

lemma ulen_utake: "ulen (utake n s) = min n (ulen s)"
  by (simp add: ulen_def utake_def uchars_take min.commute)

lemma utake_Nil_iff: "utake n s = [] \<longleftrightarrow> n = 0 \<or> s = []"
proof -
  have "utake n s = [] \<longleftrightarrow> uchars (utake n s) = []" by simp
  also have "\<dots> \<longleftrightarrow> take n (uchars s) = []" by (simp add: utake_def uchars_take)
  finally show ?thesis by simp
qed

section \<open>White space: \<open>strip\<close> and \<open>splitlines\<close>\<close>

definition bytes :: "nat list \<Rightarrow> string" where
  "bytes ns = map char_of ns"

text \<open>\<open>str.isspace\<close> of one code point (the white space of Unicode, in UTF-8).\<close>

definition space_chars :: "string list" where
  "space_chars =
     map bytes ([[9], [10], [11], [12], [13], [28], [29], [30], [31], [32],
       [194, 133], [194, 160], [225, 154, 128]]
     @ map (\<lambda>n. [226, 128, n]) [128 ..< 139]
     @ [[226, 128, 168], [226, 128, 169], [226, 128, 175], [226, 129, 159],
        [227, 128, 128]])"

definition is_space :: "string \<Rightarrow> bool" where
  "is_space u \<longleftrightarrow> u \<in> set space_chars"

definition strip :: "string \<Rightarrow> string" where
  "strip s = concat (rev (dropWhile is_space (rev (dropWhile is_space (uchars s)))))"

lemma is_space_single:
  "is_space [c] \<longleftrightarrow> (of_char c :: nat) \<in> {9, 10, 11, 12, 13, 28, 29, 30, 31, 32}"
  by (auto simp: is_space_def space_chars_def bytes_def char_of_eq_iff eq_commute [of c])

text \<open>The line boundaries of \<open>str.splitlines\<close>; a carriage return and the line feed
  after it are one boundary.\<close>

definition line_ends :: "string list" where
  "line_ends = map bytes [[10], [11], [12], [13], [28], [29], [30], [194, 133],
     [226, 128, 168], [226, 128, 169]]"

fun split_lines :: "string list \<Rightarrow> string list \<Rightarrow> string list" where
  "split_lines cur [] = (if cur = [] then [] else [concat (rev cur)])"
| "split_lines cur (u # us) =
     (if u = bytes [13] \<and> us \<noteq> [] \<and> hd us = bytes [10]
      then concat (rev cur) # split_lines [] (tl us)
      else if u \<in> set line_ends then concat (rev cur) # split_lines [] us
      else split_lines (u # cur) us)"

definition splitlines :: "string \<Rightarrow> string list" where
  "splitlines s = split_lines [] (uchars s)"

lemma strip_Nil [simp]: "strip [] = []"
  by (simp add: strip_def)

section \<open>Decimal numbers\<close>

fun digits_of :: "nat \<Rightarrow> string" where
  "digits_of n = (if n < 10 then [char_of (48 + n)]
                  else digits_of (n div 10) @ [char_of (48 + n mod 10)])"

declare digits_of.simps [simp del]

definition str_of_int :: "int \<Rightarrow> string" where
  "str_of_int i = (if i < 0 then CHR ''-'' # digits_of (nat (- i)) else digits_of (nat i))"

text \<open>\<open>f"{n:0wd}"\<close> for \<open>n \<ge> 0\<close>.\<close>

definition zero_pad :: "nat \<Rightarrow> nat \<Rightarrow> string" where
  "zero_pad w n = (let d = digits_of n in replicate (w - length d) (CHR ''0'') @ d)"

text \<open>\<open>int(s)\<close> of a string of decimal digits.\<close>

definition is_digit :: "char \<Rightarrow> bool" where
  "is_digit c \<longleftrightarrow> (let n = (of_char c :: nat) in 48 \<le> n \<and> n \<le> 57)"

definition digit_val :: "char \<Rightarrow> nat" where
  "digit_val c = of_char c - 48"

definition nat_of_digits :: "string \<Rightarrow> nat" where
  "nat_of_digits s = foldl (\<lambda>n c. 10 * n + digit_val c) 0 s"

lemma digits_of_nonempty [simp]: "digits_of n \<noteq> []"
  by (subst digits_of.simps) simp

lemma of_char_digit [simp]: "d < 10 \<Longrightarrow> of_char (char_of (48 + d) :: char) = 48 + (d :: nat)"
  by simp

lemma is_digit_char [simp]: "d < 10 \<Longrightarrow> is_digit (char_of (48 + (d :: nat)))"
  by (simp add: is_digit_def)

lemma digits_of_digits: "\<forall>c \<in> set (digits_of n). is_digit c"
proof (induction n rule: digits_of.induct)
  case (1 n)
  show ?case
  proof (cases "n < 10")
    case True
    then show ?thesis by (subst digits_of.simps) simp
  next
    case False
    with 1 show ?thesis by (subst digits_of.simps) auto
  qed
qed

lemma nat_of_digits_snoc:
  "nat_of_digits (s @ [c]) = 10 * nat_of_digits s + digit_val c"
  by (simp add: nat_of_digits_def)

text \<open>Printing and reading a number is the identity.\<close>

lemma nat_of_digits_of [simp]: "nat_of_digits (digits_of n) = n"
proof (induction n rule: digits_of.induct)
  case (1 n)
  show ?case
  proof (cases "n < 10")
    case True
    then show ?thesis
      by (subst digits_of.simps) (simp add: nat_of_digits_def digit_val_def)
  next
    case False
    with 1 show ?thesis
      by (subst digits_of.simps) (simp add: nat_of_digits_snoc digit_val_def)
  qed
qed

lemma digits_of_inject [simp]: "digits_of m = digits_of n \<longleftrightarrow> m = n"
  by (metis nat_of_digits_of)

lemma digits_no_minus: "c \<in> set (digits_of n) \<Longrightarrow> c \<noteq> CHR ''-''"
  using digits_of_digits [of n] by (auto simp: is_digit_def)

lemma str_of_int_inject [simp]: "str_of_int i = str_of_int j \<longleftrightarrow> i = j"
proof -
  have "digits_of m \<noteq> CHR ''-'' # xs" for m xs
    using digits_no_minus [of "CHR ''-''" m] by (metis list.set_intros(1))
  then show ?thesis
    unfolding str_of_int_def by (auto split: if_splits) (metis+)
qed

lemma digit_not_colon: "is_digit c \<Longrightarrow> c \<noteq> CHR '':''"
  by (auto simp: is_digit_def)

lemma str_of_int_no_colon: "CHR '':'' \<notin> set (str_of_int i)"
  using digits_of_digits digit_not_colon by (auto simp: str_of_int_def)

section \<open>Quoting\<close>

text \<open>\<open>repr(s)\<close> of a string: single quotes unless the text holds a single and no
  double quote; backslash, the quote and the ASCII control characters are escaped.
  (Non-ASCII characters are left as they are, as \<open>repr\<close> does for printable ones.)\<close>

definition hex_digit :: "nat \<Rightarrow> char" where
  "hex_digit n = (if n < 10 then char_of (48 + n) else char_of (87 + n))"

definition repr_char :: "char \<Rightarrow> char \<Rightarrow> string" where
  "repr_char q c =
     (if c = q \<or> c = CHR 0x5C then [CHR 0x5C, c]
      else if c = CHR 0x0A then [CHR 0x5C, CHR ''n'']
      else if c = CHR 0x0D then [CHR 0x5C, CHR ''r'']
      else if c = CHR 0x09 then [CHR 0x5C, CHR ''t'']
      else if (of_char c :: nat) < 32 \<or> (of_char c :: nat) = 127
      then [CHR 0x5C, CHR ''x'', hex_digit (of_char c div 16), hex_digit (of_char c mod 16)]
      else [c])"

definition py_repr :: "string \<Rightarrow> string" where
  "py_repr s =
     (let q = (if CHR 0x27 \<in> set s \<and> CHR 0x22 \<notin> set s then CHR 0x22 else CHR 0x27)
      in [q] @ concat (map (repr_char q) s) @ [q])"

end
