(* ===== verification/Json.thy ===== *)
theory Json
  imports Py_Str
begin

text \<open>
  JSON values as Python sees them after \<open>json.loads\<close>, the dictionary operations the
  code uses on them, and the JSON functions of SQLite the repositories put into their
  statements (\<open>json_extract\<close>, \<open>json_set\<close>). A \<open>dict\<close> is an association list
  in insertion order with distinct keys; a float is the rational it denotes. A JSON
  column holds the value its text denotes.
\<close>

datatype json =
    JNull
  | JBool bool
  | JInt int
  | JFloat rat
  | JStr string
  | JArr "json list"
  | JObj "(string \<times> json) list"

type_synonym dict = "(string \<times> json) list"

section \<open>Python dictionaries\<close>

text \<open>\<open>d.get(k)\<close>, \<open>d.get(k)\<close> of an optional dictionary (\<open>(m or {}).get(k)\<close>),
  \<open>d[k] = v\<close>, and the truth value of a JSON value.\<close>

definition dget :: "dict \<Rightarrow> string \<Rightarrow> json option" where
  "dget d k = map_of d k"

definition oget :: "dict option \<Rightarrow> string \<Rightarrow> json option" where
  "oget m k = (case m of None \<Rightarrow> None | Some d \<Rightarrow> dget d k)"

fun dset :: "string \<Rightarrow> json \<Rightarrow> dict \<Rightarrow> dict" where
  "dset k v [] = [(k, v)]"
| "dset k v ((k', v') # d) = (if k' = k then (k, v) # d else (k', v') # dset k v d)"

definition ddel :: "string set \<Rightarrow> dict \<Rightarrow> dict" where
  "ddel ks d = filter (\<lambda>(k, v). k \<notin> ks) d"

fun truthy :: "json \<Rightarrow> bool" where
  "truthy JNull = False"
| "truthy (JBool b) = b"
| "truthy (JInt i) = (i \<noteq> 0)"
| "truthy (JFloat r) = (r \<noteq> 0)"
| "truthy (JStr s) = (s \<noteq> [])"
| "truthy (JArr xs) = (xs \<noteq> [])"
| "truthy (JObj d) = (d \<noteq> [])"

definition otruthy :: "json option \<Rightarrow> bool" where
  "otruthy j = (case j of None \<Rightarrow> False | Some v \<Rightarrow> truthy v)"

fun as_str :: "json \<Rightarrow> string option" where
  "as_str (JStr s) = Some s"
| "as_str _ = None"

fun as_dict :: "json \<Rightarrow> dict option" where
  "as_dict (JObj d) = Some d"
| "as_dict _ = None"

text \<open>\<open>x if x is not None else ...\<close>: a missing key and \<open>null\<close> both read as
  \<open>None\<close> through \<open>get\<close>.\<close>

definition not_none :: "json option \<Rightarrow> json option" where
  "not_none j = (case j of Some JNull \<Rightarrow> None | _ \<Rightarrow> j)"

definition jopt_str :: "string option \<Rightarrow> json" where
  "jopt_str s = (case s of None \<Rightarrow> JNull | Some t \<Rightarrow> JStr t)"

definition jopt_int :: "int option \<Rightarrow> json" where
  "jopt_int s = (case s of None \<Rightarrow> JNull | Some t \<Rightarrow> JInt t)"

lemma dget_dset [simp]: "dget (dset k v d) k' = (if k' = k then Some v else dget d k')"
  by (induction d) (auto simp: dget_def)

lemma dget_Nil [simp]: "dget [] k = None"
  by (simp add: dget_def)

lemma dget_Cons [simp]: "dget ((k, v) # d) k' = (if k' = k then Some v else dget d k')"
  by (simp add: dget_def)

lemma map_fst_dset:
  "map fst (dset k v d) = (if k \<in> set (map fst d) then map fst d else map fst d @ [k])"
proof (induction d)
  case (Cons p d)
  then show ?case by (cases p) (simp only: dset.simps list.map, auto)
qed simp

lemma keys_dset: "set (map fst (dset k v d)) = insert k (set (map fst d))"
  by (subst map_fst_dset) auto

lemma distinct_dset: "distinct (map fst d) \<Longrightarrow> distinct (map fst (dset k v d))"
  by (subst map_fst_dset) auto

lemma dset_not_Nil [simp]: "dset k v d \<noteq> []"
  by (cases d) (auto split: if_splits)

lemma dget_ddel [simp]: "dget (ddel ks d) k = (if k \<in> ks then None else dget d k)"
  by (induction d) (auto simp: dget_def ddel_def)

lemma distinct_ddel: "distinct (map fst d) \<Longrightarrow> distinct (map fst (ddel ks d))"
  by (simp add: ddel_def distinct_map_filter)

lemma oget_None [simp]: "oget None k = None"
  by (simp add: oget_def)

lemma oget_Some [simp]: "oget (Some d) k = dget d k"
  by (simp add: oget_def)

section \<open>SQL values\<close>

text \<open>
  What \<open>json_extract\<close> yields: a scalar becomes an SQL scalar (\<open>true\<close> is 1, a
  float with an integral value compares equal to that integer), an array or an object
  its text, here kept as \<open>SqlJson\<close>, which equals no number and no plain string. SQL
  comparison with \<open>NULL\<close> is never true.
\<close>

datatype sqlval = SqlNull | SqlInt int | SqlReal rat | SqlText string | SqlJson json

fun sql_of_json :: "json \<Rightarrow> sqlval" where
  "sql_of_json JNull = SqlNull"
| "sql_of_json (JBool b) = SqlInt (if b then 1 else 0)"
| "sql_of_json (JInt i) = SqlInt i"
| "sql_of_json (JFloat r) = (if of_int \<lfloor>r\<rfloor> = r then SqlInt \<lfloor>r\<rfloor> else SqlReal r)"
| "sql_of_json (JStr s) = SqlText s"
| "sql_of_json (JArr xs) = SqlJson (JArr xs)"
| "sql_of_json (JObj d) = SqlJson (JObj d)"

definition sql_eq :: "sqlval \<Rightarrow> sqlval \<Rightarrow> bool" where
  "sql_eq a b \<longleftrightarrow> a \<noteq> SqlNull \<and> b \<noteq> SqlNull \<and> a = b"

text \<open>\<open>json_extract(column, '$.k1.k2...')\<close>; the column may be \<open>NULL\<close>.\<close>

fun extract_path :: "string list \<Rightarrow> json \<Rightarrow> json option" where
  "extract_path [] j = Some j"
| "extract_path (k # ks) (JObj d) = (case dget d k of None \<Rightarrow> None | Some j \<Rightarrow> extract_path ks j)"
| "extract_path (k # ks) _ = None"

definition json_extract :: "dict option \<Rightarrow> string list \<Rightarrow> sqlval" where
  "json_extract m path =
     (case m of
        None \<Rightarrow> SqlNull
      | Some d \<Rightarrow> (case extract_path path (JObj d) of None \<Rightarrow> SqlNull | Some j \<Rightarrow> sql_of_json j))"

text \<open>\<open>json_set(j, '$.k1.k2...', v)\<close>: creates the last key, and the objects on the
  way to it where they are missing; a value on the way that is no object is left alone.\<close>

fun jset :: "string list \<Rightarrow> json \<Rightarrow> json \<Rightarrow> json" where
  "jset [] v j = v"
| "jset (k # ks) v (JObj d) =
     JObj (dset k (jset ks v (case dget d k of None \<Rightarrow> JObj [] | Some j \<Rightarrow> j)) d)"
| "jset (k # ks) v j = j"

definition json_set :: "string list \<Rightarrow> json \<Rightarrow> dict option \<Rightarrow> dict option" where
  "json_set path v m =
     (case jset path v (JObj (case m of None \<Rightarrow> [] | Some d \<Rightarrow> d)) of
        JObj d \<Rightarrow> Some d | _ \<Rightarrow> m)"

lemma jset_key_obj: "\<exists>d'. jset (k # ks) v (JObj d) = JObj d'"
  by simp

text \<open>Reading a path just written gives the value written, as long as every value on
  the way is an object; another top-level key is unchanged.\<close>

fun path_open :: "string list \<Rightarrow> json \<Rightarrow> bool" where
  "path_open [] j = True"
| "path_open (k # ks) (JObj d) =
     (case dget d k of None \<Rightarrow> True | Some j \<Rightarrow> path_open ks j)"
| "path_open (k # ks) _ = False"

lemma path_open_empty [simp]: "path_open ks (JObj [])"
  by (cases ks) auto

lemma extract_jset_empty: "extract_path ks (jset ks v (JObj [])) = Some v"
  by (induction ks) auto

lemma extract_jset: "path_open ks j \<Longrightarrow> extract_path ks (jset ks v j) = Some v"
proof (induction ks j rule: path_open.induct)
  case (2 k ks d)
  then show ?case by (cases "dget d k") (auto simp: extract_jset_empty)
next
  case (1 j)
  then show ?case by simp
qed auto

lemma extract_jset_other:
  "k' \<noteq> k \<Longrightarrow> extract_path (k' # ks') (jset (k # ks) v (JObj d)) = extract_path (k' # ks') (JObj d)"
  by simp

lemma json_extract_set1 [simp]:
  "json_extract (json_set [k] v m) [k'] =
     (if k' = k then sql_of_json v else json_extract m [k'])"
  by (cases m) (auto simp: json_extract_def json_set_def)

lemma json_extract_set1_deep:
  "k' \<noteq> k \<Longrightarrow> json_extract (json_set (k # ks) v m) (k' # ks') = json_extract m (k' # ks')"
  by (cases m) (auto simp: json_extract_def json_set_def)

lemma json_extract_set:
  assumes "path_open (k # ks) (JObj (case m of None \<Rightarrow> [] | Some d \<Rightarrow> d))"
  shows "json_extract (json_set (k # ks) v m) (k # ks) = sql_of_json v"
proof -
  let ?d = "case m of None \<Rightarrow> [] | Some d \<Rightarrow> d"
  obtain d' where d': "jset (k # ks) v (JObj ?d) = JObj d'"
    using jset_key_obj by blast
  with extract_jset [OF assms, of v] have "extract_path (k # ks) (JObj d') = Some v"
    by (simp only:)
  with d' show ?thesis by (simp only: json_extract_def json_set_def option.case json.case)
qed

lemma json_set_not_None [simp]: "json_set (k # ks) v m \<noteq> None"
  by (simp add: json_set_def)

end
