(* ===== verification/Stamps.thy ===== *)
theory Stamps
  imports Py_Str "HOL-Library.List_Lexorder" "HOL-Library.Char_ord"
begin

text \<open>
  Time. A Python \<open>datetime\<close> (aware, UTC) is the number of microseconds since
  1970-01-01T00:00:00Z; the clock of SQLite (\<open>strftime('%Y-%m-%dT%H:%M:%fZ','now')\<close>)
  counts milliseconds. A timestamp column holds text in one of two shapes,
  \<open>...SS.mmmZ\<close> or \<open>...SSZ\<close>; \<open>stamp\<close> is that text, its order the order in
  which SQLite compares it.
\<close>

type_synonym usec = int

datatype stamp = MsZ int | SecZ int

text \<open>The key of the order of the texts: the second, then \<open>.mmmZ\<close> before \<open>Z\<close>
  (\<open>.\<close> is 0x2E, \<open>Z\<close> is 0x5A), then the milliseconds.\<close>

fun stamp_key :: "stamp \<Rightarrow> int \<times> int" where
  "stamp_key (MsZ m) = (m div 1000, m mod 1000)"
| "stamp_key (SecZ s) = (s, 1000)"

lemma stamp_key_inject: "stamp_key a = stamp_key b \<Longrightarrow> a = b"
proof (cases a; cases b)
  fix m n assume ab: "a = MsZ m" "b = MsZ n" and eq: "stamp_key a = stamp_key b"
  then have "m div 1000 = n div 1000" "m mod 1000 = n mod 1000" by auto
  then have "m = n" by (metis mult_div_mod_eq)
  with ab show "a = b" by simp
next
  fix m s assume ab: "a = MsZ m" "b = SecZ s" and eq: "stamp_key a = stamp_key b"
  have "m mod 1000 < 1000" by simp
  with ab eq show "a = b" by simp
next
  fix s m assume ab: "a = SecZ s" "b = MsZ m" and eq: "stamp_key a = stamp_key b"
  have "m mod 1000 < 1000" by simp
  with ab eq show "a = b" by simp
next
  fix s t assume ab: "a = SecZ s" "b = SecZ t" and eq: "stamp_key a = stamp_key b"
  then show "a = b" by simp
qed

instantiation stamp :: linorder
begin

definition less_eq_stamp :: "stamp \<Rightarrow> stamp \<Rightarrow> bool" where
  "a \<le> b \<longleftrightarrow> fst (stamp_key a) < fst (stamp_key b)
     \<or> fst (stamp_key a) = fst (stamp_key b) \<and> snd (stamp_key a) \<le> snd (stamp_key b)"

definition less_stamp :: "stamp \<Rightarrow> stamp \<Rightarrow> bool" where
  "(a :: stamp) < b \<longleftrightarrow> a \<le> b \<and> \<not> b \<le> a"

instance
proof
  fix a b c :: stamp
  show "a < b \<longleftrightarrow> a \<le> b \<and> \<not> b \<le> a" by (rule less_stamp_def)
  show "a \<le> a" by (simp add: less_eq_stamp_def)
  show "a \<le> c" if "a \<le> b" "b \<le> c" using that by (auto simp: less_eq_stamp_def)
  show "a = b" if "a \<le> b" "b \<le> a"
    using that by (intro stamp_key_inject prod_eqI) (auto simp: less_eq_stamp_def)
  show "a \<le> b \<or> b \<le> a" by (auto simp: less_eq_stamp_def)
qed

end

text \<open>Between stamps of one shape the order is the order of time.\<close>

lemma div_mod_lex:
  fixes qa qb ra rb :: int
  assumes "0 \<le> ra" "ra < 1000" "0 \<le> rb" "rb < 1000"
  shows "(qa < qb \<or> qa = qb \<and> ra \<le> rb) \<longleftrightarrow> 1000 * qa + ra \<le> 1000 * qb + rb"
  using assms by arith

lemma less_eq_MsZ [simp]: "MsZ a \<le> MsZ b \<longleftrightarrow> a \<le> b"
  using div_mod_lex [of "a mod 1000" "b mod 1000" "a div 1000" "b div 1000"]
  by (simp add: less_eq_stamp_def)

lemma less_MsZ [simp]: "MsZ a < MsZ b \<longleftrightarrow> a < b"
  by (auto simp: less_stamp_def)

lemma less_eq_SecZ [simp]: "SecZ a \<le> SecZ b \<longleftrightarrow> a \<le> b"
  by (auto simp: less_eq_stamp_def)

lemma less_SecZ [simp]: "SecZ a < SecZ b \<longleftrightarrow> a < b"
  by (auto simp: less_stamp_def)

text \<open>Between stamps of different shapes it is the order of the seconds, with every
  millisecond of a second below its plain form.\<close>

lemma MsZ_le_SecZ [simp]: "MsZ a \<le> SecZ s \<longleftrightarrow> a div 1000 \<le> s"
proof -
  have "a mod 1000 < 1000" by simp
  then show ?thesis by (auto simp: less_eq_stamp_def)
qed

lemma SecZ_le_MsZ [simp]: "SecZ s \<le> MsZ a \<longleftrightarrow> s < a div 1000"
proof -
  have "a mod 1000 < 1000" by simp
  then show ?thesis by (auto simp: less_eq_stamp_def)
qed

section \<open>Rendering and reading\<close>

text \<open>\<open>_iso(dt)\<close> of \<open>sqlite_impl.py\<close> (milliseconds), \<open>_iso_ms(dt)\<close> of the
  scheduler (the same shape, the microseconds floor-divided by 1000), \<open>iso(dt)\<close> of
  \<open>future_mail.py\<close> (seconds), and the reading of a stamp back into a datetime.\<close>

definition iso_db :: "usec \<Rightarrow> stamp" where
  "iso_db dt = MsZ (dt div 1000)"

definition iso_ms :: "usec \<Rightarrow> stamp" where
  "iso_ms dt = MsZ (dt div 1000)"

definition iso_sec :: "usec \<Rightarrow> stamp" where
  "iso_sec dt = SecZ (dt div 1000000)"

fun stamp_time :: "stamp \<Rightarrow> usec" where
  "stamp_time (MsZ m) = m * 1000"
| "stamp_time (SecZ s) = s * 1000000"

text \<open>\<open>datetime.replace(microsecond=0)\<close>.\<close>

definition trunc_sec :: "usec \<Rightarrow> usec" where
  "trunc_sec t = (t div 1000000) * 1000000"

lemma trunc_sec_idem [simp]: "trunc_sec (trunc_sec t) = trunc_sec t"
  by (simp add: trunc_sec_def)

lemma trunc_sec_le: "trunc_sec t \<le> t"
  unfolding trunc_sec_def by (metis div_mult_mod_eq le_add_same_cancel1 pos_mod_sign
      zero_less_numeral)

lemma stamp_time_iso_sec [simp]: "stamp_time (iso_sec t) = trunc_sec t"
  by (simp add: iso_sec_def trunc_sec_def)

lemma iso_ms_mono: "a \<le> b \<Longrightarrow> iso_ms a \<le> iso_ms b"
  by (simp add: iso_ms_def zdiv_mono1)

text \<open>The civil date of a day number (days since 1970-01-01), by eras of 400 years, and
  the text of a stamp.\<close>

definition civil :: "int \<Rightarrow> int \<times> int \<times> int" where
  "civil z0 =
     (let z = z0 + 719468;
          era = z div 146097;
          doe = z - era * 146097;
          yoe = (doe - doe div 1460 + doe div 36524 - doe div 146096) div 365;
          doy = doe - (365 * yoe + yoe div 4 - yoe div 100);
          mp = (5 * doy + 2) div 153;
          d = doy - (153 * mp + 2) div 5 + 1;
          m = (if mp < 10 then mp + 3 else mp - 9)
      in (yoe + era * 400 + (if m \<le> 2 then 1 else 0), m, d))"

definition pad :: "nat \<Rightarrow> int \<Rightarrow> string" where
  "pad w i = zero_pad w (nat i)"

definition sec_text :: "int \<Rightarrow> string" where
  "sec_text s =
     (let (y, m, d) = civil (s div 86400); r = s mod 86400
      in pad 4 y @ ''-'' @ pad 2 m @ ''-'' @ pad 2 d @ ''T'' @ pad 2 (r div 3600) @ '':'' @
         pad 2 (r mod 3600 div 60) @ '':'' @ pad 2 (r mod 60))"

fun stamp_text :: "stamp \<Rightarrow> string" where
  "stamp_text (MsZ m) = sec_text (m div 1000) @ ''.'' @ pad 3 (m mod 1000) @ ''Z''"
| "stamp_text (SecZ s) = sec_text s @ ''Z''"

end
