(* ===== verification/Models.thy ===== *)
theory Models
  imports Json Stamps
begin

text \<open>
  The data models of \<open>persistence/models.py\<close>: the literal types as datatypes with their
  text, the classes as records. Identifiers are strings, a \<open>dict\<close> field is a
  dictionary, an optional field is an \<open>option\<close>, a \<open>datetime\<close> is in microseconds.
\<close>

section \<open>Literal types\<close>

datatype task_status = TPending | TInProgress | TNeedsInput | TCompleted | TFailed | TCancelled
datatype agent_status = AIdle | AArchived
datatype urgency = UBlocker | UHigh | UNormal | ULow
datatype fan_in_status = GOpen | GQuorumMet | GExpired | GCancelled | GResolved
datatype outbox_kind = KMailboxSend | KTier1Notification | KChannelPublish | KChannelReaction
datatype sched_status = SPending | SCompleted | SCancelled | SBounced | SQuarantined
datatype recur_kind = RInterval | RCron

primrec task_status_str :: "task_status \<Rightarrow> string" where
  "task_status_str TPending = ''pending''"
| "task_status_str TInProgress = ''in_progress''"
| "task_status_str TNeedsInput = ''needs_input''"
| "task_status_str TCompleted = ''completed''"
| "task_status_str TFailed = ''failed''"
| "task_status_str TCancelled = ''cancelled''"

primrec urgency_str :: "urgency \<Rightarrow> string" where
  "urgency_str UBlocker = ''blocker''"
| "urgency_str UHigh = ''high''"
| "urgency_str UNormal = ''normal''"
| "urgency_str ULow = ''low''"

definition urgency_of_str :: "string \<Rightarrow> urgency option" where
  "urgency_of_str s =
     (if s = ''blocker'' then Some UBlocker else if s = ''high'' then Some UHigh
      else if s = ''normal'' then Some UNormal else if s = ''low'' then Some ULow else None)"

primrec fan_in_status_str :: "fan_in_status \<Rightarrow> string" where
  "fan_in_status_str GOpen = ''open''"
| "fan_in_status_str GQuorumMet = ''quorum_met''"
| "fan_in_status_str GExpired = ''expired''"
| "fan_in_status_str GCancelled = ''cancelled''"
| "fan_in_status_str GResolved = ''resolved''"

primrec recur_kind_str :: "recur_kind \<Rightarrow> string" where
  "recur_kind_str RInterval = ''interval''"
| "recur_kind_str RCron = ''cron''"

lemma urgency_of_str_str [simp]: "urgency_of_str (urgency_str u) = Some u"
  by (cases u) (simp_all add: urgency_of_str_def)

lemma urgency_of_str_Some: "urgency_of_str s = Some u \<longleftrightarrow> s = urgency_str u"
  by (cases u) (auto simp: urgency_of_str_def split: if_splits)

lemma task_status_str_inject [simp]: "task_status_str a = task_status_str b \<longleftrightarrow> a = b"
  by (cases a; cases b) simp_all

text \<open>A task in flight is not yet terminal.\<close>

definition in_flight :: "task_status \<Rightarrow> bool" where
  "in_flight s \<longleftrightarrow> s = TPending \<or> s = TInProgress \<or> s = TNeedsInput"

lemma in_flight_simps [simp]:
  "in_flight TPending" "in_flight TInProgress" "in_flight TNeedsInput"
  "\<not> in_flight TCompleted" "\<not> in_flight TFailed" "\<not> in_flight TCancelled"
  by (simp_all add: in_flight_def)

section \<open>Entities\<close>

record agent =
  agent_id :: string
  agent_persona :: string
  agent_status :: agent_status
  agent_parent :: "string option"
  agent_created :: "usec option"
  agent_archived :: "usec option"
  agent_reason :: "string option"
  agent_meta :: "dict option"

definition agent_model_id :: "agent \<Rightarrow> json option" where
  "agent_model_id a = oget (agent_meta a) ''model_id''"

definition agent_description :: "agent \<Rightarrow> json option" where
  "agent_description a = oget (agent_meta a) ''description''"

record agent_idle =
  idle_seconds :: int
  idle_stale :: bool

record fan_in_result =
  fr_leg_key :: int
  fr_result :: dict
  fr_sender :: string

record git_context =
  git_repo_url :: string
  git_target_branch :: string
  git_base_branch :: string

record task =
  task_id :: string
  task_parent :: "string option"
  task_agent :: "string option"
  task_persona :: string
  task_goal :: string
  task_acceptance :: string
  task_status :: task_status
  task_lease_duration :: int
  task_lease_holder :: "string option"
  task_lease_until :: "usec option"
  task_checkpoint :: "dict option"
  task_tier_overrides :: "dict option"
  task_deadline :: "usec option"
  task_meta :: "dict option"
  task_git :: "git_context option"
  task_created :: "usec option"
  task_updated :: "usec option"
  task_completed :: "usec option"

record task_spec =
  spec_agent :: "string option"
  spec_persona :: "string option"
  spec_goal :: string
  spec_acceptance :: string
  spec_parent :: "string option"
  spec_lease_duration :: int
  spec_tier_overrides :: "dict option"
  spec_deadline :: "usec option"
  spec_meta :: "dict option"
  spec_git :: "git_context option"

text \<open>\<open>TaskSpec(agent_id=, goal=, acceptance=)\<close>, the other fields at their defaults.\<close>

definition new_task_spec :: "string \<Rightarrow> string \<Rightarrow> string \<Rightarrow> task_spec" where
  "new_task_spec agent goal acceptance =
     \<lparr>spec_agent = Some agent, spec_persona = None, spec_goal = goal,
      spec_acceptance = acceptance, spec_parent = None, spec_lease_duration = 1800,
      spec_tier_overrides = None, spec_deadline = None, spec_meta = None, spec_git = None\<rparr>"

record wakeup =
  wk_id :: string
  wk_task :: string
  wk_agent :: "string option"
  wk_persona :: string
  wk_started :: usec
  wk_ended :: "usec option"
  wk_end_status :: "string option"
  wk_token_input :: "int option"
  wk_token_output :: "int option"
  wk_wall_clock_ms :: "int option"
  wk_tool_calls :: "int option"
  wk_provider :: "string option"
  wk_model :: "string option"
  wk_failure :: "dict option"
  wk_transcript :: "string option"
  wk_context_peak :: "int option"
  wk_compactions :: int
  wk_degraded :: int

record scheduled_mail =
  sm_id :: "int option"
  sm_recipient :: string
  sm_sender :: string
  sm_urgency :: urgency
  sm_title :: "string option"
  sm_body :: string
  sm_task :: "string option"
  sm_parent_msg :: "int option"
  sm_meta :: "dict option"
  sm_scheduled_for :: usec
  sm_recur_kind :: "recur_kind option"
  sm_recur_value :: "string option"
  sm_recur_until :: "usec option"
  sm_occurrences :: int
  sm_max_occurrences :: "int option"
  sm_no_progress :: int
  sm_max_no_progress :: "int option"
  sm_failures :: int
  sm_created :: "usec option"
  sm_created_by_agent :: "string option"
  sm_created_by_task :: "string option"
  sm_status :: sched_status
  sm_last_delivery :: "int option"
  sm_last_delivered :: "usec option"
  sm_cancelled :: "usec option"
  sm_cancelled_by :: "string option"
  sm_bounce_reason :: "string option"

record mail_reaction =
  rx_msg :: int
  rx_reactor :: string
  rx_kind :: string
  rx_created :: "usec option"

record mail_message =
  msg_id :: "int option"
  msg_recipient :: string
  msg_external :: string
  msg_sender :: string
  msg_urgency :: urgency
  msg_title :: "string option"
  msg_body :: string
  msg_task :: "string option"
  msg_parent :: "int option"
  msg_broadcast :: "string option"
  msg_recipients_all :: "string list option"
  msg_meta :: "dict option"
  msg_delivered :: "usec option"
  msg_read :: "usec option"
  msg_attachments :: "string list option"
  msg_reactions :: "mail_reaction list option"

text \<open>\<open>MailboxMessage(recipient=, external_id=, sender=, urgency=, body=)\<close>, the other
  fields at their defaults.\<close>

definition new_message ::
    "string \<Rightarrow> string \<Rightarrow> string \<Rightarrow> urgency \<Rightarrow> string \<Rightarrow> mail_message" where
  "new_message recipient external sender u body =
     \<lparr>msg_id = None, msg_recipient = recipient, msg_external = external, msg_sender = sender,
      msg_urgency = u, msg_title = None, msg_body = body, msg_task = None, msg_parent = None,
      msg_broadcast = None, msg_recipients_all = None, msg_meta = None, msg_delivered = None,
      msg_read = None, msg_attachments = None, msg_reactions = None\<rparr>"

record blob =
  blob_id :: string
  blob_media_type :: string
  blob_size :: int
  blob_filename :: "string option"
  blob_source :: string
  blob_created :: "usec option"

record outbox_row =
  ob_id :: "int option"
  ob_task :: "string option"
  ob_wakeup :: "string option"
  ob_kind :: outbox_kind
  ob_payload :: dict
  ob_external :: string
  ob_attempts :: int

definition new_outbox_row ::
    "string option \<Rightarrow> string option \<Rightarrow> outbox_kind \<Rightarrow> dict \<Rightarrow> string \<Rightarrow> outbox_row" where
  "new_outbox_row t w k p e =
     \<lparr>ob_id = None, ob_task = t, ob_wakeup = w, ob_kind = k, ob_payload = p,
      ob_external = e, ob_attempts = 0\<rparr>"

record fan_in_group =
  grp_id :: string
  grp_coordinator :: string
  grp_parent_task :: "string option"
  grp_expect :: int
  grp_quorum :: int
  grp_schema :: dict
  grp_budget :: "int option"
  grp_dry_round :: int
  grp_deadline :: usec
  grp_status :: fan_in_status
  grp_created :: "usec option"
  grp_resolved :: "usec option"

record fan_in_member =
  fm_group :: string
  fm_leg_key :: int
  fm_child_task :: string
  fm_child_agent :: string

record supervision_state =
  sv_agent :: string
  sv_restarts :: int
  sv_total :: int
  sv_window_start :: usec
  sv_last_restart :: "usec option"
  sv_last_reason :: "string option"
  sv_escalated :: "usec option"

record artifact =
  af_id :: string
  af_task :: string
  af_wakeup :: string
  af_kind :: string
  af_hash :: string
  af_uri :: string
  af_size :: "int option"

end
