(* ===== verification/Database.thy ===== *)
theory Database
  imports Models
begin

text \<open>
  The SQLite database behind the repositories: one list of rows per table (rowid order),
  the columns of \<open>migrations/0001_initial.sql\<close>, the \<open>AUTOINCREMENT\<close> counters,
  and the number of UUIDs drawn so far. Every connection runs with
  \<open>PRAGMA foreign_keys = ON\<close>, so an \<open>INSERT\<close> that breaks a constraint raises
  \<open>IntegrityError\<close>; \<open>db_ok\<close> says that the primary keys, the unique keys and the
  foreign keys hold, and the repository theories show that every operation keeps it.
  The clock is an argument of the operations that read it (milliseconds).
\<close>

record mailbox_row =
  mb_recipient :: string
  mb_meta :: "dict option"

record agent_row =
  ar_id :: string
  ar_persona :: string
  ar_status :: agent_status
  ar_parent :: "string option"
  ar_created :: stamp
  ar_archived :: "stamp option"
  ar_reason :: "string option"
  ar_meta :: "dict option"

record task_row =
  tr_id :: string
  tr_parent :: "string option"
  tr_persona :: string
  tr_agent :: "string option"
  tr_goal :: string
  tr_acceptance :: string
  tr_status :: task_status
  tr_lease_duration :: int
  tr_lease_holder :: "string option"
  tr_lease_until :: "stamp option"
  tr_resume_ready :: bool
  tr_checkpoint :: "dict option"
  tr_tier :: "dict option"
  tr_deadline :: "usec option"
  tr_meta :: "dict option"
  tr_git :: "git_context option"
  tr_created :: stamp
  tr_updated :: stamp
  tr_completed :: "stamp option"
  tr_ckpt_updated :: "stamp option"

record wakeup_row =
  wr_id :: string
  wr_task :: string
  wr_persona :: string
  wr_agent :: "string option"
  wr_started :: stamp
  wr_ended :: "stamp option"
  wr_end_status :: "string option"
  wr_token_input :: "int option"
  wr_token_output :: "int option"
  wr_wall_clock :: "int option"
  wr_tool_calls :: "int option"
  wr_provider :: "string option"
  wr_model :: "string option"
  wr_failure :: "dict option"
  wr_transcript :: "string option"
  wr_peak :: "int option"
  wr_compactions :: int
  wr_degraded :: int

record message_row =
  mr_id :: int
  mr_recipient :: string
  mr_external :: string
  mr_sender :: string
  mr_urgency :: urgency
  mr_title :: "string option"
  mr_body :: string
  mr_attachments :: "string list option"
  mr_task :: "string option"
  mr_parent :: "int option"
  mr_broadcast :: "string option"
  mr_recipients_all :: "string list option"
  mr_meta :: "dict option"
  mr_delivered :: stamp
  mr_read :: "stamp option"

record reaction_row =
  rr_msg :: int
  rr_reactor :: string
  rr_kind :: string
  rr_created :: stamp

record outbox_rec =
  xr_id :: int
  xr_task :: "string option"
  xr_wakeup :: "string option"
  xr_kind :: outbox_kind
  xr_payload :: dict
  xr_external :: string
  xr_created :: stamp
  xr_dispatched :: "stamp option"
  xr_attempts :: int
  xr_error :: "string option"

record sched_row =
  sr_id :: int
  sr_recipient :: string
  sr_sender :: string
  sr_urgency :: urgency
  sr_title :: "string option"
  sr_body :: string
  sr_task :: "string option"
  sr_parent_msg :: "int option"
  sr_meta :: "dict option"
  sr_scheduled_for :: stamp
  sr_recur_kind :: "recur_kind option"
  sr_recur_value :: "string option"
  sr_recur_until :: "stamp option"
  sr_occurrences :: int
  sr_max_occurrences :: "int option"
  sr_no_progress :: int
  sr_max_no_progress :: "int option"
  sr_failures :: int
  sr_created :: stamp
  sr_created_by_agent :: "string option"
  sr_created_by_task :: "string option"
  sr_status :: sched_status
  sr_last_delivery :: "int option"
  sr_last_delivered :: "stamp option"
  sr_cancelled :: "stamp option"
  sr_cancelled_by :: "string option"
  sr_bounce_reason :: "string option"

record hot_row =
  lh_task :: string
  lh_key :: string
  lh_value :: json
  lh_updated :: stamp

record blob_row =
  br_id :: string
  br_media_type :: string
  br_size :: int
  br_filename :: "string option"
  br_source :: string
  br_created :: stamp

record group_row =
  gr_id :: string
  gr_coordinator :: string
  gr_parent_task :: "string option"
  gr_expect :: int
  gr_quorum :: int
  gr_schema :: dict
  gr_budget :: "int option"
  gr_dry_round :: int
  gr_deadline :: usec
  gr_status :: fan_in_status
  gr_created :: stamp
  gr_resolved :: "stamp option"

record db =
  mailboxes :: "mailbox_row list"
  agents :: "agent_row list"
  tasks :: "task_row list"
  wakeups :: "wakeup_row list"
  messages :: "message_row list"
  message_seq :: int
  reactions :: "reaction_row list"
  outbox :: "outbox_rec list"
  outbox_seq :: int
  scheduled :: "sched_row list"
  scheduled_seq :: int
  local_hot :: "hot_row list"
  artifacts :: "artifact list"
  blobs :: "blob_row list"
  groups :: "group_row list"
  members :: "fan_in_member list"
  supervision :: "supervision_state list"
  uuids_drawn :: nat

definition empty_db :: db where
  "empty_db =
     \<lparr>mailboxes = [], agents = [], tasks = [], wakeups = [], messages = [], message_seq = 0,
      reactions = [], outbox = [], outbox_seq = 0, scheduled = [], scheduled_seq = 0,
      local_hot = [], artifacts = [], blobs = [], groups = [], members = [],
      supervision = [], uuids_drawn = 0\<rparr>"

section \<open>Keys\<close>

definition agent_ids :: "db \<Rightarrow> string list" where
  "agent_ids d = map ar_id (agents d)"

definition task_ids :: "db \<Rightarrow> string list" where
  "task_ids d = map tr_id (tasks d)"

definition wakeup_ids :: "db \<Rightarrow> string list" where
  "wakeup_ids d = map wr_id (wakeups d)"

definition message_ids :: "db \<Rightarrow> int list" where
  "message_ids d = map mr_id (messages d)"

definition group_ids :: "db \<Rightarrow> string list" where
  "group_ids d = map gr_id (groups d)"

definition mailbox_ids :: "db \<Rightarrow> string list" where
  "mailbox_ids d = map mb_recipient (mailboxes d)"

text \<open>A nullable foreign key refers to an existing row.\<close>

definition fk :: "'k option \<Rightarrow> 'k list \<Rightarrow> bool" where
  "fk v ks \<longleftrightarrow> (case v of None \<Rightarrow> True | Some k \<Rightarrow> k \<in> set ks)"

lemma fk_simps [simp]: "fk None ks" "fk (Some k) ks \<longleftrightarrow> k \<in> set ks"
  by (simp_all add: fk_def)

lemma fk_mono: "fk v ks \<Longrightarrow> set ks \<subseteq> set ks' \<Longrightarrow> fk v ks'"
  by (cases v) auto

lemma fk_snoc: "fk v ks \<Longrightarrow> fk v (ks @ ks')"
  by (cases v) auto

section \<open>The schema's constraints\<close>

text \<open>One predicate per table: its keys are unique and its references resolve.\<close>

definition mailboxes_ok :: "db \<Rightarrow> bool" where
  "mailboxes_ok d \<longleftrightarrow> distinct (mailbox_ids d)"

definition agents_ok :: "db \<Rightarrow> bool" where
  "agents_ok d \<longleftrightarrow> distinct (agent_ids d)"

definition tasks_ok :: "db \<Rightarrow> bool" where
  "tasks_ok d \<longleftrightarrow> distinct (task_ids d)
     \<and> list_all (\<lambda>v. fk v (task_ids d)) (map tr_parent (tasks d))
     \<and> list_all (\<lambda>v. fk v (agent_ids d)) (map tr_agent (tasks d))"

definition wakeups_ok :: "db \<Rightarrow> bool" where
  "wakeups_ok d \<longleftrightarrow> distinct (wakeup_ids d)
     \<and> list_all (\<lambda>t. t \<in> set (task_ids d)) (map wr_task (wakeups d))
     \<and> list_all (\<lambda>v. fk v (agent_ids d)) (map wr_agent (wakeups d))"

definition messages_ok :: "db \<Rightarrow> bool" where
  "messages_ok d \<longleftrightarrow> sorted_wrt (<) (message_ids d)
     \<and> list_all (\<lambda>i. 0 < i \<and> i \<le> message_seq d) (message_ids d)
     \<and> 0 \<le> message_seq d
     \<and> distinct (map (\<lambda>r. (mr_recipient r, mr_external r)) (messages d))
     \<and> list_all (\<lambda>m. m \<in> set (mailbox_ids d)) (map mr_recipient (messages d))
     \<and> list_all (\<lambda>v. fk v (task_ids d)) (map mr_task (messages d))
     \<and> list_all (\<lambda>v. fk v (message_ids d)) (map mr_parent (messages d))"

definition reactions_ok :: "db \<Rightarrow> bool" where
  "reactions_ok d \<longleftrightarrow>
     distinct (map (\<lambda>r. (rr_msg r, rr_reactor r, rr_kind r)) (reactions d))
     \<and> list_all (\<lambda>i. i \<in> set (message_ids d)) (map rr_msg (reactions d))
     \<and> list_all (\<lambda>a. a \<in> set (agent_ids d)) (map rr_reactor (reactions d))"

definition outbox_ok :: "db \<Rightarrow> bool" where
  "outbox_ok d \<longleftrightarrow> sorted_wrt (<) (map xr_id (outbox d))
     \<and> list_all (\<lambda>i. i \<le> outbox_seq d) (map xr_id (outbox d))
     \<and> distinct (map (\<lambda>r. (xr_kind r, xr_external r)) (outbox d))
     \<and> list_all (\<lambda>v. fk v (task_ids d)) (map xr_task (outbox d))
     \<and> list_all (\<lambda>v. fk v (wakeup_ids d)) (map xr_wakeup (outbox d))"

definition scheduled_ok :: "db \<Rightarrow> bool" where
  "scheduled_ok d \<longleftrightarrow> sorted_wrt (<) (map sr_id (scheduled d))
     \<and> list_all (\<lambda>i. i \<le> scheduled_seq d) (map sr_id (scheduled d))
     \<and> list_all (\<lambda>v. fk v (task_ids d)) (map sr_task (scheduled d))
     \<and> list_all (\<lambda>v. fk v (message_ids d)) (map sr_parent_msg (scheduled d))
     \<and> list_all (\<lambda>v. fk v (task_ids d)) (map sr_created_by_task (scheduled d))
     \<and> list_all (\<lambda>v. fk v (message_ids d)) (map sr_last_delivery (scheduled d))"

definition local_hot_ok :: "db \<Rightarrow> bool" where
  "local_hot_ok d \<longleftrightarrow> distinct (map (\<lambda>r. (lh_task r, lh_key r)) (local_hot d))
     \<and> list_all (\<lambda>t. t \<in> set (task_ids d)) (map lh_task (local_hot d))"

definition artifacts_ok :: "db \<Rightarrow> bool" where
  "artifacts_ok d \<longleftrightarrow> distinct (map af_id (artifacts d)) \<and> distinct (map af_hash (artifacts d))
     \<and> list_all (\<lambda>t. t \<in> set (task_ids d)) (map af_task (artifacts d))
     \<and> list_all (\<lambda>w. w \<in> set (wakeup_ids d)) (map af_wakeup (artifacts d))"

definition blobs_ok :: "db \<Rightarrow> bool" where
  "blobs_ok d \<longleftrightarrow> distinct (map br_id (blobs d))"

definition groups_ok :: "db \<Rightarrow> bool" where
  "groups_ok d \<longleftrightarrow> distinct (group_ids d)
     \<and> list_all (\<lambda>a. a \<in> set (agent_ids d)) (map gr_coordinator (groups d))
     \<and> list_all (\<lambda>v. fk v (task_ids d)) (map gr_parent_task (groups d))"

definition members_ok :: "db \<Rightarrow> bool" where
  "members_ok d \<longleftrightarrow> distinct (map (\<lambda>m. (fm_group m, fm_leg_key m)) (members d))
     \<and> list_all (\<lambda>g. g \<in> set (group_ids d)) (map fm_group (members d))
     \<and> list_all (\<lambda>t. t \<in> set (task_ids d)) (map fm_child_task (members d))
     \<and> list_all (\<lambda>a. a \<in> set (agent_ids d)) (map fm_child_agent (members d))"

definition supervision_ok :: "db \<Rightarrow> bool" where
  "supervision_ok d \<longleftrightarrow> distinct (map sv_agent (supervision d))
     \<and> list_all (\<lambda>a. a \<in> set (agent_ids d)) (map sv_agent (supervision d))"

definition db_ok :: "db \<Rightarrow> bool" where
  "db_ok d \<longleftrightarrow> mailboxes_ok d \<and> agents_ok d \<and> tasks_ok d \<and> wakeups_ok d \<and> messages_ok d
     \<and> reactions_ok d \<and> outbox_ok d \<and> scheduled_ok d \<and> local_hot_ok d \<and> artifacts_ok d
     \<and> blobs_ok d \<and> groups_ok d \<and> members_ok d \<and> supervision_ok d"

lemmas key_defs = agent_ids_def task_ids_def wakeup_ids_def message_ids_def group_ids_def
  mailbox_ids_def

lemmas table_ok_defs = mailboxes_ok_def agents_ok_def tasks_ok_def wakeups_ok_def
  messages_ok_def reactions_ok_def outbox_ok_def scheduled_ok_def local_hot_ok_def
  artifacts_ok_def blobs_ok_def groups_ok_def members_ok_def supervision_ok_def

lemmas db_ok_defs = db_ok_def table_ok_defs

lemma db_ok_empty [simp]: "db_ok empty_db"
  by (simp add: db_ok_defs key_defs empty_db_def)

section \<open>Transactions\<close>

text \<open>
  \<open>async with repos.transaction()\<close> around one flow: the writes of the body take effect
  together, or none does when it raises (any \<open>BaseException\<close>). UUIDs drawn in a body that
  is rolled back are not drawn again. How a transaction behaves when several flows share the
  connection is the subject of theory \<open>Transactions\<close>.
\<close>

definition roll_back :: "db \<Rightarrow> db \<Rightarrow> db" where
  "roll_back before after = before\<lparr>uuids_drawn := uuids_drawn after\<rparr>"

definition in_transaction :: "(db, 'a) exec \<Rightarrow> (db, 'a) exec" where
  "in_transaction m = (\<lambda>d. case m d of
       (Inl e, d') \<Rightarrow> (Inl e, roll_back d d')
     | (Inr a, d') \<Rightarrow> (Inr a, d'))"

definition draw_uuid :: "(nat \<Rightarrow> string) \<Rightarrow> db \<Rightarrow> string \<times> db" where
  "draw_uuid uuid d = (uuid (uuids_drawn d), d\<lparr>uuids_drawn := Suc (uuids_drawn d)\<rparr>)"

lemma roll_back_tables [simp]: "db_ok (roll_back d d') \<longleftrightarrow> db_ok d"
  by (simp add: roll_back_def db_ok_defs key_defs)

lemma keeps_in_transaction [keeps_intros]: "keeps db_ok m \<Longrightarrow> keeps db_ok (in_transaction m)"
  by (rule keepsI) (auto simp: in_transaction_def split: prod.splits sum.splits
      dest: keepsD [of db_ok m])

lemma draw_uuid_db_ok [simp]: "db_ok (snd (draw_uuid uuid d)) \<longleftrightarrow> db_ok d"
  by (simp add: draw_uuid_def db_ok_defs key_defs)

lemma keeps_draw_uuid [keeps_intros]: "keeps db_ok (step (draw_uuid uuid))"
  by (rule keeps_step) simp

section \<open>Updates that keep the keys\<close>

text \<open>An \<open>UPDATE\<close> that writes neither a key nor a reference keeps every constraint.\<close>

lemma db_ok_update_mailboxes:
  assumes "\<And>r. p r \<Longrightarrow> mb_recipient (f r) = mb_recipient r"
  shows "db_ok (d\<lparr>mailboxes := update_where p f (mailboxes d)\<rparr>) \<longleftrightarrow> db_ok d"
  using assms by (simp add: db_ok_defs key_defs row_simps)

lemma db_ok_update_agents:
  assumes "\<And>r. p r \<Longrightarrow> ar_id (f r) = ar_id r"
  shows "db_ok (d\<lparr>agents := update_where p f (agents d)\<rparr>) \<longleftrightarrow> db_ok d"
  using assms by (simp add: db_ok_defs key_defs row_simps)

lemma db_ok_update_tasks:
  assumes "\<And>r. p r \<Longrightarrow> tr_id (f r) = tr_id r \<and> tr_parent (f r) = tr_parent r \<and> tr_agent (f r) = tr_agent r"
  shows "db_ok (d\<lparr>tasks := update_where p f (tasks d)\<rparr>) \<longleftrightarrow> db_ok d"
  using assms by (simp add: db_ok_defs key_defs row_simps)

lemma db_ok_update_wakeups:
  assumes "\<And>r. p r \<Longrightarrow> wr_id (f r) = wr_id r \<and> wr_task (f r) = wr_task r \<and> wr_agent (f r) = wr_agent r"
  shows "db_ok (d\<lparr>wakeups := update_where p f (wakeups d)\<rparr>) \<longleftrightarrow> db_ok d"
  using assms by (simp add: db_ok_defs key_defs row_simps)

lemma db_ok_update_messages:
  assumes "\<And>r. p r \<Longrightarrow> mr_id (f r) = mr_id r \<and> mr_recipient (f r) = mr_recipient r \<and> mr_external (f r) = mr_external r \<and> mr_task (f r) = mr_task r \<and> mr_parent (f r) = mr_parent r"
  shows "db_ok (d\<lparr>messages := update_where p f (messages d)\<rparr>) \<longleftrightarrow> db_ok d"
  using assms by (simp add: db_ok_defs key_defs row_simps)

lemma db_ok_update_outbox:
  assumes "\<And>r. p r \<Longrightarrow> xr_id (f r) = xr_id r \<and> xr_kind (f r) = xr_kind r \<and> xr_external (f r) = xr_external r \<and> xr_task (f r) = xr_task r \<and> xr_wakeup (f r) = xr_wakeup r"
  shows "db_ok (d\<lparr>outbox := update_where p f (outbox d)\<rparr>) \<longleftrightarrow> db_ok d"
  using assms by (simp add: db_ok_defs key_defs row_simps)

lemma db_ok_update_groups:
  assumes "\<And>r. p r \<Longrightarrow> gr_id (f r) = gr_id r \<and> gr_coordinator (f r) = gr_coordinator r \<and> gr_parent_task (f r) = gr_parent_task r"
  shows "db_ok (d\<lparr>groups := update_where p f (groups d)\<rparr>) \<longleftrightarrow> db_ok d"
  using assms by (simp add: db_ok_defs key_defs row_simps)

lemma db_ok_update_supervision:
  assumes "\<And>r. p r \<Longrightarrow> sv_agent (f r) = sv_agent r"
  shows "db_ok (d\<lparr>supervision := update_where p f (supervision d)\<rparr>) \<longleftrightarrow> db_ok d"
  using assms by (simp add: db_ok_defs key_defs row_simps)

section \<open>Statements\<close>

text \<open>\<open>UPDATE t SET f WHERE p RETURNING id\<close>: whether a row matched, and the new
  database.\<close>

definition upd_agents :: "(agent_row \<Rightarrow> bool) \<Rightarrow> (agent_row \<Rightarrow> agent_row) \<Rightarrow> db \<Rightarrow> bool \<times> db" where
  "upd_agents p f d = (exists_row p (agents d), d\<lparr>agents := update_where p f (agents d)\<rparr>)"

definition upd_tasks :: "(task_row \<Rightarrow> bool) \<Rightarrow> (task_row \<Rightarrow> task_row) \<Rightarrow> db \<Rightarrow> bool \<times> db" where
  "upd_tasks p f d = (exists_row p (tasks d), d\<lparr>tasks := update_where p f (tasks d)\<rparr>)"

definition upd_groups :: "(group_row \<Rightarrow> bool) \<Rightarrow> (group_row \<Rightarrow> group_row) \<Rightarrow> db \<Rightarrow> bool \<times> db" where
  "upd_groups p f d = (exists_row p (groups d), d\<lparr>groups := update_where p f (groups d)\<rparr>)"

lemma fst_upd_tasks [simp]: "fst (upd_tasks p f d) \<longleftrightarrow> (\<exists>r \<in> set (tasks d). p r)"
  by (simp add: upd_tasks_def)

lemma fst_upd_agents [simp]: "fst (upd_agents p f d) \<longleftrightarrow> (\<exists>r \<in> set (agents d). p r)"
  by (simp add: upd_agents_def)

lemma fst_upd_groups [simp]: "fst (upd_groups p f d) \<longleftrightarrow> (\<exists>r \<in> set (groups d). p r)"
  by (simp add: upd_groups_def)

text \<open>A statement whose \<open>WHERE\<close> matches nothing changes nothing; one whose \<open>SET\<close>
  falsifies its own \<open>WHERE\<close> cannot match twice.\<close>

lemma upd_none_same:
  "\<not> fst (upd_tasks p f d) \<Longrightarrow> snd (upd_tasks p f d) = d"
  "\<not> fst (upd_agents q g d) \<Longrightarrow> snd (upd_agents q g d) = d"
  "\<not> fst (upd_groups r h d) \<Longrightarrow> snd (upd_groups r h d) = d"
  by (simp_all add: upd_tasks_def upd_agents_def upd_groups_def update_where_none)

lemma upd_tasks_once: "(\<And>r. p r \<Longrightarrow> \<not> p (f r)) \<Longrightarrow> \<not> fst (upd_tasks p f (snd (upd_tasks p f d)))"
  by (auto simp: upd_tasks_def set_update_where)

lemma upd_agents_once: "(\<And>r. p r \<Longrightarrow> \<not> p (f r)) \<Longrightarrow> \<not> fst (upd_agents p f (snd (upd_agents p f d)))"
  by (auto simp: upd_agents_def set_update_where)

lemma upd_groups_once: "(\<And>r. p r \<Longrightarrow> \<not> p (f r)) \<Longrightarrow> \<not> fst (upd_groups p f (snd (upd_groups p f d)))"
  by (auto simp: upd_groups_def set_update_where)

text \<open>So such statements are single-winner transitions.\<close>

lemma single_winner_upd_tasks: "(\<And>r. p r \<Longrightarrow> \<not> p (f r)) \<Longrightarrow> single_winner (upd_tasks p f)"
  by (rule single_winner.intro) (erule upd_none_same, rule upd_tasks_once, assumption)

lemma single_winner_upd_agents: "(\<And>r. p r \<Longrightarrow> \<not> p (f r)) \<Longrightarrow> single_winner (upd_agents p f)"
  by (rule single_winner.intro) (erule upd_none_same, rule upd_agents_once, assumption)

lemma single_winner_upd_groups: "(\<And>r. p r \<Longrightarrow> \<not> p (f r)) \<Longrightarrow> single_winner (upd_groups p f)"
  by (rule single_winner.intro) (erule upd_none_same, rule upd_groups_once, assumption)

end
