(* ===== verification/Repo_Agents.thy ===== *)
theory Repo_Agents
  imports Database
begin

text \<open>
  \<open>SqliteAgentRepository\<close>: running instances of personas. Besides the accessors:
  archiving and unarchiving as guarded single-winner transitions, the reaper's candidate
  query, and the idle report of \<open>list_agents\<close>.
\<close>

section \<open>Operations\<close>

definition row_to_agent :: "agent_row \<Rightarrow> agent" where
  "row_to_agent r =
     \<lparr>agent_id = ar_id r, agent_persona = ar_persona r, agent_status = ar_status r,
      agent_parent = ar_parent r, agent_created = Some (stamp_time (ar_created r)),
      agent_archived = map_option stamp_time (ar_archived r), agent_reason = ar_reason r,
      agent_meta = ar_meta r\<rparr>"

definition agents_create ::
    "int \<Rightarrow> string \<Rightarrow> string \<Rightarrow> string option \<Rightarrow> dict option \<Rightarrow> (db, unit) exec" where
  "agents_create now aid persona parent meta = (\<lambda>d.
     if aid \<in> set (agent_ids d) then (Inl (unique_failed ''agents.id''), d)
     else (Inr (), d\<lparr>agents := agents d @
            [\<lparr>ar_id = aid, ar_persona = persona, ar_status = AIdle, ar_parent = parent,
              ar_created = MsZ now, ar_archived = None, ar_reason = None,
              ar_meta = meta\<rparr>]\<rparr>))"

definition agents_get :: "string \<Rightarrow> db \<Rightarrow> agent option" where
  "agents_get aid d = map_option row_to_agent (select_one (\<lambda>r. ar_id r = aid) (agents d))"

definition agents_list_all :: "bool \<Rightarrow> db \<Rightarrow> agent list" where
  "agents_list_all include_archived d =
     (if include_archived then map row_to_agent (order_by ar_created (agents d))
      else map row_to_agent
             (order_by ar_created (filter (\<lambda>r. ar_status r \<noteq> AArchived) (agents d))))"

definition agents_list_by_persona :: "string \<Rightarrow> bool \<Rightarrow> db \<Rightarrow> agent list" where
  "agents_list_by_persona persona include_archived d =
     (if include_archived
      then map row_to_agent
             (order_by ar_created (filter (\<lambda>r. ar_persona r = persona) (agents d)))
      else map row_to_agent
             (order_by ar_created
                (filter (\<lambda>r. ar_persona r = persona \<and> ar_status r \<noteq> AArchived) (agents d))))"

definition agents_archive :: "int \<Rightarrow> string \<Rightarrow> string option \<Rightarrow> db \<Rightarrow> bool \<times> db" where
  "agents_archive now aid reason =
     upd_agents (\<lambda>r. ar_id r = aid \<and> ar_status r \<noteq> AArchived)
       (\<lambda>r. r\<lparr>ar_status := AArchived, ar_archived := Some (MsZ now), ar_reason := reason\<rparr>)"

definition agents_unarchive :: "string \<Rightarrow> db \<Rightarrow> bool \<times> db" where
  "agents_unarchive aid =
     upd_agents (\<lambda>r. ar_id r = aid \<and> ar_status r = AArchived)
       (\<lambda>r. r\<lparr>ar_status := AIdle, ar_archived := None, ar_reason := None\<rparr>)"

definition bootstrap_singleton_ids :: "db \<Rightarrow> string set" where
  "bootstrap_singleton_ids d =
     set (map ar_id (filter (\<lambda>r. ar_parent r = None \<and> ar_status r \<noteq> AArchived) (agents d)))"

text \<open>\<open>json_extract(metadata, '$.supervision.ephemeral') = 1\<close>.\<close>

definition is_ephemeral_row :: "agent_row \<Rightarrow> bool" where
  "is_ephemeral_row r \<longleftrightarrow>
     sql_eq (json_extract (ar_meta r) [''supervision'', ''ephemeral'']) (SqlInt 1)"

definition has_in_flight_task :: "string \<Rightarrow> db \<Rightarrow> bool" where
  "has_in_flight_task aid d \<longleftrightarrow>
     exists_row (\<lambda>t. tr_agent t = Some aid \<and> in_flight (tr_status t)) (tasks d)"

definition reapable :: "db \<Rightarrow> agent_row \<Rightarrow> bool" where
  "reapable d r \<longleftrightarrow>
     ar_status r \<noteq> AArchived \<and> ar_parent r \<noteq> None \<and> is_ephemeral_row r
     \<and> exists_row (\<lambda>t. tr_agent t = Some (ar_id r)) (tasks d)
     \<and> \<not> has_in_flight_task (ar_id r) d"

definition find_reapable_ephemerals :: "int \<Rightarrow> db \<Rightarrow> agent list" where
  "find_reapable_ephemerals limit d =
     map row_to_agent (sql_limit limit (order_by ar_created (filter (reapable d) (agents d))))"

text \<open>The last activity of an agent: the end (or start, while open) of its latest
  wakeup, its creation if it never ran.\<close>

definition last_active :: "db \<Rightarrow> agent_row \<Rightarrow> stamp" where
  "last_active d r =
     (let ws = map (\<lambda>w. case wr_ended w of Some e \<Rightarrow> e | None \<Rightarrow> wr_started w)
                 (filter (\<lambda>w. wr_agent w = Some (ar_id r)) (wakeups d))
      in if ws = [] then ar_created r else fold max ws (hd ws))"

definition open_fan_in_leg :: "db \<Rightarrow> string \<Rightarrow> bool" where
  "open_fan_in_leg d aid \<longleftrightarrow>
     exists_row (\<lambda>m. fm_child_agent m = aid
        \<and> exists_row (\<lambda>g. gr_id g = fm_group m \<and> gr_status g = GOpen) (groups d)) (members d)"

text \<open>\<open>julianday\<close> differences are exact here: microseconds between the two stamps.\<close>

definition idle_usec :: "usec \<Rightarrow> db \<Rightarrow> agent_row \<Rightarrow> int" where
  "idle_usec now d r = stamp_time (iso_db now) - stamp_time (last_active d r)"

definition is_stale :: "usec \<Rightarrow> int \<Rightarrow> db \<Rightarrow> agent_row \<Rightarrow> bool" where
  "is_stale now threshold d r \<longleftrightarrow>
     threshold > 0
     \<and> ar_parent r \<noteq> None \<and> ar_parent r \<noteq> Some ''owner''
     \<and> \<not> is_ephemeral_row r
     \<and> idle_usec now d r > threshold * 1000000
     \<and> \<not> has_in_flight_task (ar_id r) d
     \<and> \<not> open_fan_in_leg d (ar_id r)"

definition idle_report :: "usec \<Rightarrow> int \<Rightarrow> db \<Rightarrow> (string \<times> agent_idle) list" where
  "idle_report now threshold d =
     map (\<lambda>r. (ar_id r, \<lparr>idle_seconds = max 0 (idle_usec now d r div 1000000),
                         idle_stale = is_stale now threshold d r\<rparr>))
       (filter (\<lambda>r. ar_status r \<noteq> AArchived) (agents d))"

definition agents_exists :: "string \<Rightarrow> db \<Rightarrow> bool" where
  "agents_exists aid d \<longleftrightarrow> exists_row (\<lambda>r. ar_id r = aid) (agents d)"

definition agents_update_metadata :: "string \<Rightarrow> dict \<Rightarrow> db \<Rightarrow> db" where
  "agents_update_metadata aid meta d =
     snd (upd_agents (\<lambda>r. ar_id r = aid) (\<lambda>r. r\<lparr>ar_meta := Some meta\<rparr>) d)"

section \<open>Invariant\<close>

lemma agents_create_ok: "db_ok d \<Longrightarrow> db_ok (snd (agents_create now aid p par m d))"
  by (auto simp: agents_create_def db_ok_defs key_defs list_all_iff
      intro: fk_mono)

lemma agents_archive_ok [simp]: "db_ok (snd (agents_archive now aid reason d)) \<longleftrightarrow> db_ok d"
  by (simp add: agents_archive_def upd_agents_def db_ok_update_agents)

lemma agents_unarchive_ok [simp]: "db_ok (snd (agents_unarchive aid d)) \<longleftrightarrow> db_ok d"
  by (simp add: agents_unarchive_def upd_agents_def db_ok_update_agents)

lemma agents_update_metadata_ok [simp]: "db_ok (agents_update_metadata aid m d) \<longleftrightarrow> db_ok d"
  by (simp add: agents_update_metadata_def upd_agents_def db_ok_update_agents)

lemma keeps_agents_create [keeps_intros]: "keeps db_ok (agents_create now aid p par m)"
  by (rule keepsI) (rule agents_create_ok)

lemma keeps_agents_archive [keeps_intros]: "keeps db_ok (step (agents_archive now aid r))"
  by (rule keeps_step) simp

section \<open>Archiving\<close>

text \<open>Two processes that reclaim the same agent: one archives it, the other learns that
  it did not.\<close>

interpretation archive_once: single_winner "agents_archive now aid reason" for now aid reason
  unfolding agents_archive_def by (rule single_winner_upd_agents) simp

interpretation unarchive_once: single_winner "agents_unarchive aid" for aid
  unfolding agents_unarchive_def by (rule single_winner_upd_agents) simp

end
