(* ===== verification/Repo_Tasks.thy ===== *)
theory Repo_Tasks
  imports Repo_Agents
begin

text \<open>
  \<open>SqliteTaskRepository\<close>: creation, the lease (claim, renew, release, fenced status
  and checkpoint writes), the park/resume seam, cooperative cancel, the recovery counter,
  and the queries of the scheduler and the dashboard.
\<close>

section \<open>Reading and creating\<close>

text \<open>\<open>_row_to_task\<close> fills the lease holder but none of \<open>lease_until\<close>,
  \<open>deadline\<close>, \<open>created_at\<close>, \<open>updated_at\<close>, \<open>completed_at\<close>: they read
  as \<open>None\<close>.\<close>

definition row_to_task :: "task_row \<Rightarrow> task" where
  "row_to_task r =
     \<lparr>task_id = tr_id r, task_parent = tr_parent r, task_agent = tr_agent r,
      task_persona = tr_persona r, task_goal = tr_goal r, task_acceptance = tr_acceptance r,
      task_status = tr_status r, task_lease_duration = tr_lease_duration r,
      task_lease_holder = tr_lease_holder r, task_lease_until = None,
      task_checkpoint = tr_checkpoint r, task_tier_overrides = tr_tier r,
      task_deadline = None, task_meta = tr_meta r, task_git = tr_git r,
      task_created = None, task_updated = None, task_completed = None\<rparr>"

text \<open>The agent and persona of a new task: an \<open>agent_id\<close> must name an agent, whose
  persona is copied; otherwise a persona name is required.\<close>

definition resolve_spec :: "task_spec \<Rightarrow> db \<Rightarrow> exn + string" where
  "resolve_spec spec d =
     (case spec_agent spec of
        Some (c # cs) \<Rightarrow>
          (case select_one (\<lambda>r. ar_id r = c # cs) (agents d) of
             None \<Rightarrow> Inl (value_error (''agent_id '' @ py_repr (c # cs) @
                             '' not found; create the agent first''))
           | Some a \<Rightarrow> Inr (ar_persona a))
      | _ \<Rightarrow>
          (case spec_persona spec of
             None \<Rightarrow> Inl (value_error ''TaskSpec requires either agent_id or persona_name'')
           | Some p \<Rightarrow> Inr p))"

definition insert_task :: "task_row \<Rightarrow> (db, unit) exec" where
  "insert_task r = (\<lambda>d.
     if tr_id r \<in> set (task_ids d) then (Inl (unique_failed ''tasks.id''), d)
     else if \<not> fk (tr_parent r) (tr_id r # task_ids d) \<or> \<not> fk (tr_agent r) (agent_ids d)
     then (Inl foreign_key_failed, d)
     else (Inr (), d\<lparr>tasks := tasks d @ [r]\<rparr>))"

definition new_task_row :: "int \<Rightarrow> string \<Rightarrow> string \<Rightarrow> task_spec \<Rightarrow> task_row" where
  "new_task_row now tid persona spec =
     \<lparr>tr_id = tid, tr_parent = spec_parent spec, tr_persona = persona,
      tr_agent = spec_agent spec, tr_goal = spec_goal spec,
      tr_acceptance = spec_acceptance spec, tr_status = TPending,
      tr_lease_duration = spec_lease_duration spec, tr_lease_holder = None,
      tr_lease_until = None, tr_resume_ready = False, tr_checkpoint = None,
      tr_tier = spec_tier_overrides spec, tr_deadline = spec_deadline spec,
      tr_meta = spec_meta spec, tr_git = spec_git spec, tr_created = MsZ now,
      tr_updated = MsZ now, tr_completed = None, tr_ckpt_updated = None\<rparr>"

definition tasks_create :: "(nat \<Rightarrow> string) \<Rightarrow> int \<Rightarrow> task_spec \<Rightarrow> (db, string) exec" where
  "tasks_create uuid now spec =
     bnd (step (draw_uuid uuid)) (\<lambda>tid.
     bnd (query (resolve_spec spec)) (\<lambda>r.
     case r of
       Inl e \<Rightarrow> throw e
     | Inr persona \<Rightarrow> seqn (insert_task (new_task_row now tid persona spec)) (ret tid)))"

definition tasks_get :: "string \<Rightarrow> db \<Rightarrow> task option" where
  "tasks_get tid d = map_option row_to_task (select_one (\<lambda>r. tr_id r = tid) (tasks d))"

section \<open>Leases\<close>

definition lease_free :: "int \<Rightarrow> task_row \<Rightarrow> bool" where
  "lease_free now r \<longleftrightarrow> (case tr_lease_until r of None \<Rightarrow> True | Some u \<Rightarrow> u < MsZ now)"

definition claim_lease :: "int \<Rightarrow> string \<Rightarrow> string \<Rightarrow> int \<Rightarrow> db \<Rightarrow> bool \<times> db" where
  "claim_lease now tid holder duration =
     upd_tasks (\<lambda>r. tr_id r = tid \<and> lease_free now r)
       (\<lambda>r. r\<lparr>tr_lease_holder := Some holder,
              tr_lease_until := Some (MsZ (now + 1000 * duration)),
              tr_status := TInProgress, tr_updated := MsZ now\<rparr>)"

definition renew_lease :: "int \<Rightarrow> string \<Rightarrow> string \<Rightarrow> int \<Rightarrow> db \<Rightarrow> bool \<times> db" where
  "renew_lease now tid holder duration =
     upd_tasks (\<lambda>r. tr_id r = tid \<and> tr_lease_holder r = Some holder)
       (\<lambda>r. r\<lparr>tr_lease_until := Some (MsZ (now + 1000 * duration)), tr_updated := MsZ now\<rparr>)"

definition release_lease :: "int \<Rightarrow> string \<Rightarrow> string \<Rightarrow> db \<Rightarrow> db" where
  "release_lease now tid holder d =
     snd (upd_tasks (\<lambda>r. tr_id r = tid \<and> tr_lease_holder r = Some holder)
            (\<lambda>r. r\<lparr>tr_lease_holder := None, tr_lease_until := None, tr_updated := MsZ now\<rparr>) d)"

definition update_checkpoint :: "int \<Rightarrow> string \<Rightarrow> dict \<Rightarrow> string \<Rightarrow> db \<Rightarrow> db" where
  "update_checkpoint now tid checkpoint holder d =
     snd (upd_tasks (\<lambda>r. tr_id r = tid \<and> tr_lease_holder r = Some holder)
            (\<lambda>r. r\<lparr>tr_checkpoint := Some checkpoint, tr_updated := MsZ now,
                   tr_ckpt_updated := Some (MsZ now)\<rparr>) d)"

definition after :: "stamp option \<Rightarrow> stamp \<Rightarrow> bool" where
  "after s since \<longleftrightarrow> (case s of None \<Rightarrow> False | Some t \<Rightarrow> since < t)"

definition thread_activity_since :: "string \<Rightarrow> stamp \<Rightarrow> db \<Rightarrow> bool" where
  "thread_activity_since thread since d \<longleftrightarrow>
     exists_row (\<lambda>r. sql_eq (json_extract (tr_meta r) [''thread_id'']) (SqlText thread)
        \<and> (after (tr_ckpt_updated r) since
           \<or> json_extract (tr_meta r) [''auto_dispatched''] = SqlNull
             \<and> (since < tr_created r \<or> after (tr_completed r) since))) (tasks d)"

text \<open>The fenced status write: with a holder, only the row whose lease it still holds.\<close>

definition update_status :: "int \<Rightarrow> string \<Rightarrow> task_status \<Rightarrow> string option \<Rightarrow> db \<Rightarrow> bool \<times> db" where
  "update_status now tid status holder =
     upd_tasks (\<lambda>r. tr_id r = tid
                  \<and> (case holder of None \<Rightarrow> True | Some h \<Rightarrow> tr_lease_holder r = Some h))
       (\<lambda>r. r\<lparr>tr_status := status, tr_updated := MsZ now,
              tr_completed := (if status = TCompleted then Some (MsZ now)
                               else tr_completed r)\<rparr>)"

section \<open>Park and resume\<close>

definition park :: "int \<Rightarrow> string \<Rightarrow> db \<Rightarrow> bool \<times> db" where
  "park now tid =
     upd_tasks (\<lambda>r. tr_id r = tid \<and> tr_status r \<in> {TPending, TInProgress})
       (\<lambda>r. r\<lparr>tr_status := TNeedsInput, tr_resume_ready := False, tr_updated := MsZ now\<rparr>)"

definition request_resume :: "int \<Rightarrow> string \<Rightarrow> db \<Rightarrow> bool \<times> db" where
  "request_resume now tid =
     upd_tasks (\<lambda>r. tr_id r = tid \<and> tr_status r = TNeedsInput)
       (\<lambda>r. r\<lparr>tr_resume_ready := True, tr_updated := MsZ now\<rparr>)"

definition find_resumable :: "int \<Rightarrow> db \<Rightarrow> task list" where
  "find_resumable limit d =
     map row_to_task (sql_limit limit (order_by tr_updated
       (filter (\<lambda>r. tr_status r = TNeedsInput \<and> tr_resume_ready r) (tasks d))))"

definition resume :: "int \<Rightarrow> string \<Rightarrow> db \<Rightarrow> bool \<times> db" where
  "resume now tid =
     upd_tasks (\<lambda>r. tr_id r = tid \<and> tr_status r = TNeedsInput \<and> tr_resume_ready r)
       (\<lambda>r. r\<lparr>tr_status := TPending, tr_resume_ready := False, tr_updated := MsZ now\<rparr>)"

section \<open>Cancel requests and the recovery counter\<close>

definition request_cancel :: "int \<Rightarrow> string \<Rightarrow> string option \<Rightarrow> db \<Rightarrow> bool \<times> db" where
  "request_cancel now tid reason =
     upd_tasks (\<lambda>r. tr_id r = tid \<and> tr_status r \<notin> {TCompleted, TFailed, TCancelled})
       (\<lambda>r. r\<lparr>tr_meta := json_set [''cancel_reason'']
                  (JStr (case reason of None \<Rightarrow> [] | Some s \<Rightarrow> s))
                  (json_set [''cancel_requested''] (JInt 1) (tr_meta r)),
              tr_updated := MsZ now\<rparr>)"

definition sql_truthy :: "sqlval \<Rightarrow> bool" where
  "sql_truthy v = (case v of SqlNull \<Rightarrow> False | SqlInt i \<Rightarrow> i \<noteq> 0 | SqlReal r \<Rightarrow> r \<noteq> 0
                   | SqlText s \<Rightarrow> s \<noteq> [] | SqlJson j \<Rightarrow> True)"

definition get_cancel_request :: "string \<Rightarrow> db \<Rightarrow> string option" where
  "get_cancel_request tid d =
     (case select_one (\<lambda>r. tr_id r = tid) (tasks d) of
        None \<Rightarrow> None
      | Some r \<Rightarrow>
          (if \<not> sql_truthy (json_extract (tr_meta r) [''cancel_requested'']) then None
           else (case json_extract (tr_meta r) [''cancel_reason''] of
                   SqlText s \<Rightarrow> Some s | _ \<Rightarrow> Some [])))"

text \<open>\<open>coalesce(json_extract(...), 0) + 1\<close> on the counter (the code only ever stores
  integers there; text counts as 0).\<close>

definition sql_succ :: "sqlval \<Rightarrow> json" where
  "sql_succ v = (case v of SqlInt i \<Rightarrow> JInt (i + 1) | SqlReal r \<Rightarrow> JFloat (r + 1)
                 | _ \<Rightarrow> JInt 1)"

definition bump_row :: "int \<Rightarrow> task_row \<Rightarrow> task_row" where
  "bump_row now r = r\<lparr>tr_meta := json_set [''_recovery_attempts'']
       (sql_succ (json_extract (tr_meta r) [''_recovery_attempts''])) (tr_meta r),
     tr_updated := MsZ now\<rparr>"

definition recovery_attempts :: "task_row \<Rightarrow> int" where
  "recovery_attempts r = (case json_extract (tr_meta r) [''_recovery_attempts''] of
     SqlInt i \<Rightarrow> i | SqlReal q \<Rightarrow> (if q < 0 then - \<lfloor>- q\<rfloor> else \<lfloor>q\<rfloor>) | _ \<Rightarrow> 0)"

definition bump_recovery_attempt :: "int \<Rightarrow> string \<Rightarrow> db \<Rightarrow> int \<times> db" where
  "bump_recovery_attempt now tid d =
     (let d' = d\<lparr>tasks := update_where (\<lambda>r. tr_id r = tid) (bump_row now) (tasks d)\<rparr>
      in (case select_one (\<lambda>r. tr_id r = tid) (tasks d') of
            None \<Rightarrow> 0 | Some r \<Rightarrow> recovery_attempts r, d'))"

section \<open>Queries\<close>

definition find_pending :: "int \<Rightarrow> db \<Rightarrow> task list" where
  "find_pending limit d =
     map row_to_task (sql_limit limit (order_by tr_created
       (filter (\<lambda>r. tr_status r = TPending) (tasks d))))"

definition lease_expired :: "int \<Rightarrow> task_row \<Rightarrow> bool" where
  "lease_expired now r \<longleftrightarrow>
     tr_status r = TInProgress
     \<and> (case tr_lease_until r of None \<Rightarrow> False | Some u \<Rightarrow> u < MsZ now)"

definition find_expired_leases :: "int \<Rightarrow> int \<Rightarrow> db \<Rightarrow> task list" where
  "find_expired_leases now limit d =
     map row_to_task (sql_limit limit (order_by (\<lambda>r. the (tr_lease_until r))
       (filter (lease_expired now) (tasks d))))"

definition find_latest_task_for_agent :: "string \<Rightarrow> db \<Rightarrow> task option" where
  "find_latest_task_for_agent aid d =
     map_option row_to_task (select_one (\<lambda>r. tr_agent r = Some aid) (rev (tasks d)))"

definition find_children :: "string \<Rightarrow> db \<Rightarrow> task list" where
  "find_children parent d =
     map row_to_task (order_by tr_created (filter (\<lambda>r. tr_parent r = Some parent) (tasks d)))"

definition find_recent :: "int \<Rightarrow> task_status option \<Rightarrow> db \<Rightarrow> task list" where
  "find_recent limit status d =
     (case status of
        Some s \<Rightarrow> map row_to_task (sql_limit limit
                    (order_by_desc tr_created (filter (\<lambda>r. tr_status r = s) (tasks d))))
      | None \<Rightarrow> map row_to_task (sql_limit limit (order_by_desc tr_created (tasks d))))"

definition tasks_search :: "string option \<Rightarrow> task_status option \<Rightarrow> int \<Rightarrow> db \<Rightarrow> task list" where
  "tasks_search persona status limit d =
     map row_to_task (sql_limit limit (order_by_desc tr_created
       (filter (\<lambda>r. (case persona of None \<Rightarrow> True | Some p \<Rightarrow> tr_persona r = p)
                  \<and> (case status of None \<Rightarrow> True | Some s \<Rightarrow> tr_status r = s)) (tasks d))))"

definition count_in_progress :: "db \<Rightarrow> nat" where
  "count_in_progress d = row_count (\<lambda>r. tr_status r = TInProgress) (tasks d)"

definition count_completed_since :: "stamp \<Rightarrow> db \<Rightarrow> nat" where
  "count_completed_since since d =
     row_count (\<lambda>r. tr_status r = TCompleted
        \<and> (case tr_completed r of None \<Rightarrow> False | Some c \<Rightarrow> since \<le> c)) (tasks d)"

definition find_recently_changed :: "stamp \<Rightarrow> int \<Rightarrow> db \<Rightarrow> task list" where
  "find_recently_changed since limit d =
     map row_to_task (sql_limit limit (order_by_desc tr_updated
       (filter (\<lambda>r. since \<le> tr_updated r) (tasks d))))"

definition find_active_for_persona :: "string \<Rightarrow> db \<Rightarrow> task list" where
  "find_active_for_persona persona d =
     map row_to_task (order_by tr_created
       (filter (\<lambda>r. tr_persona r = persona \<and> in_flight (tr_status r)) (tasks d)))"

definition active_owner_agent_ids :: "db \<Rightarrow> string set" where
  "active_owner_agent_ids d =
     set (List.map_filter tr_agent (filter (\<lambda>r. in_flight (tr_status r)) (tasks d)))"

section \<open>Invariant\<close>

lemma insert_task_ok: "db_ok d \<Longrightarrow> db_ok (snd (insert_task r d))"
  by (auto simp: insert_task_def db_ok_defs key_defs list_all_iff intro: fk_mono)

lemma keeps_insert_task [keeps_intros]: "keeps db_ok (insert_task r)"
  by (rule keepsI) (rule insert_task_ok)

lemma keeps_tasks_create [keeps_intros]: "keeps db_ok (tasks_create uuid now spec)"
  unfolding tasks_create_def by (intro keeps_intros)

lemma upd_tasks_ok:
  "(\<And>r. p r \<Longrightarrow> tr_id (f r) = tr_id r \<and> tr_parent (f r) = tr_parent r \<and> tr_agent (f r) = tr_agent r)
   \<Longrightarrow> db_ok (snd (upd_tasks p f d)) \<longleftrightarrow> db_ok d"
  by (simp add: upd_tasks_def db_ok_update_tasks)

lemma task_writes_ok [simp]:
  "db_ok (snd (claim_lease now tid h du d)) \<longleftrightarrow> db_ok d"
  "db_ok (snd (renew_lease now tid h du d)) \<longleftrightarrow> db_ok d"
  "db_ok (release_lease now tid h d) \<longleftrightarrow> db_ok d"
  "db_ok (update_checkpoint now tid c h d) \<longleftrightarrow> db_ok d"
  "db_ok (snd (update_status now tid s ho d)) \<longleftrightarrow> db_ok d"
  "db_ok (snd (park now tid d)) \<longleftrightarrow> db_ok d"
  "db_ok (snd (request_resume now tid d)) \<longleftrightarrow> db_ok d"
  "db_ok (snd (resume now tid d)) \<longleftrightarrow> db_ok d"
  "db_ok (snd (request_cancel now tid re d)) \<longleftrightarrow> db_ok d"
  by (simp_all add: claim_lease_def renew_lease_def release_lease_def update_checkpoint_def
      update_status_def park_def request_resume_def resume_def request_cancel_def upd_tasks_ok)

lemma bump_recovery_ok [simp]: "db_ok (snd (bump_recovery_attempt now tid d)) \<longleftrightarrow> db_ok d"
  by (simp add: bump_recovery_attempt_def Let_def db_ok_update_tasks bump_row_def)

lemma keeps_task_writes [keeps_intros]:
  "keeps db_ok (step (claim_lease now tid h du))"
  "keeps db_ok (step (renew_lease now tid h du))"
  "keeps db_ok (upd (release_lease now tid h))"
  "keeps db_ok (upd (update_checkpoint now tid c h))"
  "keeps db_ok (step (update_status now tid s ho))"
  "keeps db_ok (step (park now tid))"
  "keeps db_ok (step (request_resume now tid))"
  "keeps db_ok (step (resume now tid))"
  "keeps db_ok (step (request_cancel now tid re))"
  "keeps db_ok (step (bump_recovery_attempt now tid))"
  by (rule keeps_step keeps_upd; simp)+

section \<open>Single winners\<close>

interpretation resume_once: single_winner "resume now tid" for now tid
  unfolding resume_def by (rule single_winner_upd_tasks) simp

interpretation park_once: single_winner "park now tid" for now tid
  unfolding park_def by (rule single_winner_upd_tasks) simp

interpretation claim_once: single_winner "claim_lease now tid h (int n)" for now tid h n
  unfolding claim_lease_def by (rule single_winner_upd_tasks) (simp add: lease_free_def)

section \<open>One task\<close>

text \<open>The row of a task after an update: with unique ids the statements act on one row.\<close>

definition the_row :: "db \<Rightarrow> string \<Rightarrow> task_row option" where
  "the_row d tid = select_one (\<lambda>r. tr_id r = tid) (tasks d)"

lemma the_row_id: "the_row d tid = Some r \<Longrightarrow> tr_id r = tid \<and> r \<in> set (tasks d)"
  unfolding the_row_def by (drule select_one_Some) simp

lemma the_row_unique:
  assumes "db_ok d" and "r \<in> set (tasks d)"
  shows "the_row d (tr_id r) = Some r"
proof -
  from assms(1) have "distinct (map tr_id (tasks d))"
    by (simp add: db_ok_def tasks_ok_def task_ids_def)
  from select_one_key [OF this assms(2)] show ?thesis by (simp add: the_row_def)
qed

lemma the_row_upd:
  assumes "\<And>r. p r \<Longrightarrow> tr_id (f r) = tr_id r"
  shows "the_row (snd (upd_tasks p f d)) tid
       = map_option (\<lambda>r. if p r then f r else r) (the_row d tid)"
  unfolding the_row_def upd_tasks_def
  by (simp add: select_one_update_where assms)

lemma fst_upd_row:
  assumes "db_ok d"
  shows "fst (upd_tasks (\<lambda>r. tr_id r = tid \<and> p r) f d)
     \<longleftrightarrow> (case the_row d tid of None \<Rightarrow> False | Some r \<Rightarrow> p r)"
proof
  assume "fst (upd_tasks (\<lambda>r. tr_id r = tid \<and> p r) f d)"
  then obtain r where "r \<in> set (tasks d)" "tr_id r = tid" "p r" by auto
  with the_row_unique [OF assms, of r] show "case the_row d tid of None \<Rightarrow> False | Some r \<Rightarrow> p r"
    by simp
next
  assume "case the_row d tid of None \<Rightarrow> False | Some r \<Rightarrow> p r"
  then obtain r where r: "the_row d tid = Some r" "p r" by (auto split: option.splits)
  with the_row_id [OF r(1)] show "fst (upd_tasks (\<lambda>r. tr_id r = tid \<and> p r) f d)" by auto
qed

lemma tasks_get_row: "tasks_get tid d = map_option row_to_task (the_row d tid)"
  by (simp add: tasks_get_def the_row_def)

section \<open>Creating a task of an agent\<close>

text \<open>With a fresh id, an agent that exists and a parent that exists, creation appends
  one row.\<close>

lemma tasks_create_fresh:
  assumes "spec_agent spec = Some aid" "aid \<noteq> []"
    and "select_one (\<lambda>r. ar_id r = aid) (agents d) = Some a"
    and "uuid (uuids_drawn d) \<notin> set (task_ids d)"
    and "fk (spec_parent spec) (task_ids d)"
  shows "tasks_create uuid now spec d = (Inr (uuid (uuids_drawn d)),
     d\<lparr>uuids_drawn := Suc (uuids_drawn d),
       tasks := tasks d @ [new_task_row now (uuid (uuids_drawn d)) (ar_persona a) spec]\<rparr>)"
proof -
  obtain c cs where aid: "aid = c # cs" using assms(2) by (cases aid) auto
  from select_one_Some [OF assms(3)] have "aid \<in> set (agent_ids d)"
    by (auto simp: agent_ids_def)
  moreover have "fk (spec_parent spec) (uuid (uuids_drawn d) # task_ids d)"
    by (rule fk_mono [OF assms(5)]) auto
  ultimately show ?thesis
    using assms(1,3,4) unfolding aid
    by (simp add: tasks_create_def draw_uuid_def resolve_spec_def insert_task_def
        new_task_row_def exec_simps key_defs)
qed

lemma plain_tasks_create [plain_intros]: "plain (tasks_create uuid now spec)"
proof -
  have "plain_err (resolve_spec spec d)" for d
    by (auto simp: resolve_spec_def plain_err_def split: option.splits list.splits)
  moreover have "plain (insert_task r)" for r by (simp add: plain_def insert_task_def)
  ultimately show ?thesis
    unfolding tasks_create_def by (intro plain_intros plain_query_case) 
qed

end
