(* ===== verification/Repo_Wakeups.thy ===== *)
theory Repo_Wakeups
  imports Repo_Tasks
begin

text \<open>
  \<open>SqliteWakeupRepository\<close>: opening and closing wakeups, the sweep of the wakeups a dead
  process left open, the work signal of the no-progress gate, and the gate
  \<open>has_active_for_agent\<close> that keeps agents sequential.
\<close>

section \<open>Operations\<close>

definition row_to_wakeup :: "wakeup_row \<Rightarrow> wakeup" where
  "row_to_wakeup r =
     \<lparr>wk_id = wr_id r, wk_task = wr_task r, wk_agent = wr_agent r, wk_persona = wr_persona r,
      wk_started = stamp_time (wr_started r), wk_ended = map_option stamp_time (wr_ended r),
      wk_end_status = wr_end_status r, wk_token_input = wr_token_input r,
      wk_token_output = wr_token_output r, wk_wall_clock_ms = wr_wall_clock r,
      wk_tool_calls = wr_tool_calls r, wk_provider = wr_provider r, wk_model = wr_model r,
      wk_failure = None, wk_transcript = wr_transcript r, wk_context_peak = wr_peak r,
      wk_compactions = wr_compactions r, wk_degraded = wr_degraded r\<rparr>"

definition insert_wakeup :: "wakeup_row \<Rightarrow> (db, unit) exec" where
  "insert_wakeup r = (\<lambda>d.
     if wr_id r \<in> set (wakeup_ids d) then (Inl (unique_failed ''wakeups.id''), d)
     else if wr_task r \<notin> set (task_ids d) \<or> \<not> fk (wr_agent r) (agent_ids d)
     then (Inl foreign_key_failed, d)
     else (Inr (), d\<lparr>wakeups := wakeups d @ [r]\<rparr>))"

definition new_wakeup_row ::
    "int \<Rightarrow> string \<Rightarrow> string \<Rightarrow> string \<Rightarrow> string option \<Rightarrow> wakeup_row" where
  "new_wakeup_row now wid tid persona agent =
     \<lparr>wr_id = wid, wr_task = tid, wr_persona = persona, wr_agent = agent,
      wr_started = MsZ now, wr_ended = None, wr_end_status = None, wr_token_input = None,
      wr_token_output = None, wr_wall_clock = None, wr_tool_calls = None, wr_provider = None,
      wr_model = None, wr_failure = None, wr_transcript = None, wr_peak = None,
      wr_compactions = 0, wr_degraded = 0\<rparr>"

definition wakeups_start ::
    "(nat \<Rightarrow> string) \<Rightarrow> int \<Rightarrow> string \<Rightarrow> string \<Rightarrow> string option \<Rightarrow> (db, string) exec" where
  "wakeups_start uuid now tid persona agent =
     bnd (step (draw_uuid uuid)) (\<lambda>wid.
       seqn (insert_wakeup (new_wakeup_row now wid tid persona agent)) (ret wid))"

text \<open>The keys of the metering dictionary; an absent dictionary is one without keys.\<close>

record metering =
  me_token_input :: "int option"
  me_token_output :: "int option"
  me_wall_clock :: "int option"
  me_tool_calls :: "int option"
  me_provider :: "string option"
  me_model :: "string option"
  me_peak :: "int option"
  me_compactions :: "int option"
  me_degraded :: "int option"

definition no_metering :: metering where
  "no_metering =
     \<lparr>me_token_input = None, me_token_output = None, me_wall_clock = None,
      me_tool_calls = None, me_provider = None, me_model = None, me_peak = None,
      me_compactions = None, me_degraded = None\<rparr>"

definition coalesce0 :: "int option \<Rightarrow> int" where
  "coalesce0 v = (case v of None \<Rightarrow> 0 | Some i \<Rightarrow> i)"

definition upd_wakeups ::
    "(wakeup_row \<Rightarrow> bool) \<Rightarrow> (wakeup_row \<Rightarrow> wakeup_row) \<Rightarrow> db \<Rightarrow> db" where
  "upd_wakeups p f d = d\<lparr>wakeups := update_where p f (wakeups d)\<rparr>"

definition wakeups_end ::
    "int \<Rightarrow> string \<Rightarrow> string \<Rightarrow> metering \<Rightarrow> dict option \<Rightarrow> db \<Rightarrow> db" where
  "wakeups_end now wid status m failure =
     upd_wakeups (\<lambda>r. wr_id r = wid)
       (\<lambda>r. r\<lparr>wr_ended := Some (MsZ now), wr_end_status := Some status,
              wr_token_input := me_token_input m, wr_token_output := me_token_output m,
              wr_wall_clock := me_wall_clock m, wr_tool_calls := me_tool_calls m,
              wr_provider := me_provider m, wr_model := me_model m, wr_failure := failure,
              wr_peak := me_peak m, wr_compactions := coalesce0 (me_compactions m),
              wr_degraded := coalesce0 (me_degraded m)\<rparr>)"

definition set_transcript_uri :: "string \<Rightarrow> string \<Rightarrow> db \<Rightarrow> db" where
  "set_transcript_uri wid uri =
     upd_wakeups (\<lambda>r. wr_id r = wid) (\<lambda>r. r\<lparr>wr_transcript := Some uri\<rparr>)"

definition wakeups_list_recent :: "int \<Rightarrow> db \<Rightarrow> wakeup list" where
  "wakeups_list_recent limit d =
     map row_to_wakeup (sql_limit limit (order_by_desc wr_started (wakeups d)))"

definition wakeups_list_for_task :: "string \<Rightarrow> int \<Rightarrow> db \<Rightarrow> wakeup list" where
  "wakeups_list_for_task tid limit d =
     map row_to_wakeup (sql_limit limit
       (order_by_desc wr_started (filter (\<lambda>r. wr_task r = tid) (wakeups d))))"

definition sum_tokens_since :: "stamp \<Rightarrow> db \<Rightarrow> int \<times> int" where
  "sum_tokens_since since d =
     (let ws = filter (\<lambda>r. since \<le> wr_started r) (wakeups d)
      in (sum_list (map (\<lambda>r. coalesce0 (wr_token_input r)) ws),
          sum_list (map (\<lambda>r. coalesce0 (wr_token_output r)) ws)))"

definition ended_or_started :: "wakeup_row \<Rightarrow> stamp" where
  "ended_or_started r = (case wr_ended r of Some e \<Rightarrow> e | None \<Rightarrow> wr_started r)"

definition wakeups_list_since :: "stamp \<Rightarrow> int \<Rightarrow> db \<Rightarrow> wakeup list" where
  "wakeups_list_since since limit d =
     map row_to_wakeup (sql_limit limit (order_by_desc ended_or_started
       (filter (\<lambda>r. since \<le> wr_started r
                  \<or> (case wr_ended r of None \<Rightarrow> False | Some e \<Rightarrow> since \<le> e)) (wakeups d))))"

definition wakeups_list_active :: "db \<Rightarrow> wakeup list" where
  "wakeups_list_active d =
     map row_to_wakeup (order_by_desc wr_started (filter (\<lambda>r. wr_ended r = None) (wakeups d)))"

text \<open>\<open>FROM wakeups w JOIN tasks t ON t.id = w.task_id\<close>.\<close>

definition wakeup_join :: "db \<Rightarrow> (wakeup_row \<times> task_row) list" where
  "wakeup_join d = [(w, t). w \<leftarrow> wakeups d, t \<leftarrow> tasks d, tr_id t = wr_task w]"

definition max0 :: "int list \<Rightarrow> int" where
  "max0 xs = (case xs of [] \<Rightarrow> 0 | y # ys \<Rightarrow> fold max ys y)"

definition somes :: "'a option list \<Rightarrow> 'a list" where
  "somes xs = List.map_filter id xs"

definition thread_work_since :: "string \<Rightarrow> stamp \<Rightarrow> db \<Rightarrow> int \<times> int" where
  "thread_work_since thread since d =
     (let ws = map fst (filter (\<lambda>(w, t).
                 sql_eq (json_extract (tr_meta t) [''thread_id'']) (SqlText thread)
                 \<and> after (wr_ended w) since) (wakeup_join d))
      in (max0 (somes (map wr_tool_calls ws)), max0 (somes (map wr_token_output ws))))"

definition has_active_for_agent :: "string \<Rightarrow> db \<Rightarrow> bool" where
  "has_active_for_agent aid d \<longleftrightarrow>
     exists_row (\<lambda>(w, t). wr_agent w = Some aid \<and> wr_ended w = None
                          \<and> in_flight (tr_status t)) (wakeup_join d)"

definition close_orphans_for_task :: "int \<Rightarrow> string \<Rightarrow> string \<Rightarrow> db \<Rightarrow> nat \<times> db" where
  "close_orphans_for_task now tid status d =
     (row_count (\<lambda>r. wr_task r = tid \<and> wr_ended r = None) (wakeups d),
      upd_wakeups (\<lambda>r. wr_task r = tid \<and> wr_ended r = None)
        (\<lambda>r. r\<lparr>wr_ended := Some (MsZ now), wr_end_status := Some status\<rparr>) d)"

text \<open>Wakeup id, task id, agent id (empty for none) and task status of each wakeup that is
  open although its task is terminal.\<close>

definition find_terminal_task_orphans ::
    "int \<Rightarrow> db \<Rightarrow> (string \<times> string \<times> string \<times> task_status) list" where
  "find_terminal_task_orphans limit d =
     map (\<lambda>(w, t). (wr_id w, wr_task w, (case wr_agent w of None \<Rightarrow> [] | Some a \<Rightarrow> a),
                   tr_status t))
       (sql_limit limit (order_by (\<lambda>(w, t). wr_started w)
          (filter (\<lambda>(w, t). wr_ended w = None
                     \<and> tr_status t \<in> {TCompleted, TFailed, TCancelled}) (wakeup_join d))))"

section \<open>Invariant\<close>

lemma insert_wakeup_ok: "db_ok d \<Longrightarrow> db_ok (snd (insert_wakeup r d))"
  by (simp add: insert_wakeup_def db_ok_defs key_defs fk_snoc list_all_iff image_Un)

lemma keeps_insert_wakeup [keeps_intros]: "keeps db_ok (insert_wakeup r)"
  by (rule keepsI) (rule insert_wakeup_ok)

lemma keeps_wakeups_start [keeps_intros]: "keeps db_ok (wakeups_start uuid now tid p a)"
  unfolding wakeups_start_def by (intro keeps_intros)

lemma upd_wakeups_ok:
  "(\<And>r. p r \<Longrightarrow> wr_id (f r) = wr_id r \<and> wr_task (f r) = wr_task r \<and> wr_agent (f r) = wr_agent r)
   \<Longrightarrow> db_ok (upd_wakeups p f d) \<longleftrightarrow> db_ok d"
  by (simp add: upd_wakeups_def db_ok_update_wakeups)

lemma wakeup_writes_ok [simp]:
  "db_ok (wakeups_end now wid s m fr d) \<longleftrightarrow> db_ok d"
  "db_ok (set_transcript_uri wid uri d) \<longleftrightarrow> db_ok d"
  "db_ok (snd (close_orphans_for_task now tid s d)) \<longleftrightarrow> db_ok d"
  by (simp_all add: wakeups_end_def set_transcript_uri_def close_orphans_for_task_def
      upd_wakeups_ok)

lemma keeps_wakeup_writes [keeps_intros]:
  "keeps db_ok (upd (wakeups_end now wid s m fr))"
  "keeps db_ok (upd (set_transcript_uri wid uri))"
  "keeps db_ok (step (close_orphans_for_task now tid s))"
  by (rule keeps_step keeps_upd; simp)+

section \<open>Sequential agents\<close>

lemma has_active_iff:
  "has_active_for_agent aid d \<longleftrightarrow>
     (\<exists>w \<in> set (wakeups d). \<exists>t \<in> set (tasks d).
        tr_id t = wr_task w \<and> wr_agent w = Some aid \<and> wr_ended w = None
        \<and> in_flight (tr_status t))"
  by (auto simp: has_active_for_agent_def wakeup_join_def)

text \<open>The sweep leaves no open wakeup of the task, and touches no other task's.\<close>

lemma close_orphans_closes:
  assumes w: "w \<in> set (wakeups (snd (close_orphans_for_task now tid s d)))"
    and t: "wr_task w = tid"
  shows "wr_ended w \<noteq> None"
proof -
  from w have "w \<in> set (update_where (\<lambda>r. wr_task r = tid \<and> wr_ended r = None)
        (\<lambda>r. r\<lparr>wr_ended := Some (MsZ now), wr_end_status := Some s\<rparr>) (wakeups d))"
    by (simp add: close_orphans_for_task_def upd_wakeups_def)
  then show ?thesis by (cases rule: update_where_cases) (use t in simp_all)
qed

lemma close_orphans_others:
  assumes "wr_task w \<noteq> tid"
  shows "w \<in> set (wakeups (snd (close_orphans_for_task now tid s d))) \<longleftrightarrow> w \<in> set (wakeups d)"
    (is "w \<in> set (wakeups ?d') \<longleftrightarrow> _")
proof -
  have eq: "wakeups ?d' = update_where (\<lambda>r. wr_task r = tid \<and> wr_ended r = None)
        (\<lambda>r. r\<lparr>wr_ended := Some (MsZ now), wr_end_status := Some s\<rparr>) (wakeups d)"
    by (simp add: close_orphans_for_task_def upd_wakeups_def)
  show ?thesis
    unfolding eq
  proof
    assume "w \<in> set (update_where (\<lambda>r. wr_task r = tid \<and> wr_ended r = None)
        (\<lambda>r. r\<lparr>wr_ended := Some (MsZ now), wr_end_status := Some s\<rparr>) (wakeups d))"
    then show "w \<in> set (wakeups d)"
      by (cases rule: update_where_cases) (use assms in simp_all)
  next
    assume "w \<in> set (wakeups d)"
    then show "w \<in> set (update_where (\<lambda>r. wr_task r = tid \<and> wr_ended r = None)
        (\<lambda>r. r\<lparr>wr_ended := Some (MsZ now), wr_end_status := Some s\<rparr>) (wakeups d))"
      using assms by (intro update_where_kept) simp_all
  qed
qed

end
