(* ===== verification/Repo_Mailbox.thy ===== *)
theory Repo_Mailbox
  imports Repo_Wakeups "HOL-Library.Product_Lexorder"
begin

text \<open>
  \<open>SqliteMailboxRepository\<close>: the durable mailboxes. Insertion is idempotent on
  (recipient, external id); reading is per message; fan-in results, reactions, channel ids
  and the anti-loop cursor of the auto-wake live in the same tables.
\<close>

section \<open>Mailboxes and titles\<close>

definition ensure_mailbox :: "string \<Rightarrow> db \<Rightarrow> db" where
  "ensure_mailbox recipient d =
     (if recipient \<in> set (mailbox_ids d) then d
      else d\<lparr>mailboxes := mailboxes d @ [\<lparr>mb_recipient = recipient, mb_meta = None\<rparr>]\<rparr>)"

fun first_title :: "string list \<Rightarrow> string option" where
  "first_title [] = None"
| "first_title (line # lines) =
     (let stripped = strip line
      in if stripped \<noteq> [] then Some (utake 140 stripped) else first_title lines)"

definition derive_title :: "string \<Rightarrow> string" where
  "derive_title body =
     (if body = [] then ''(empty)''
      else (case first_title (splitlines body) of None \<Rightarrow> ''(empty)'' | Some t \<Rightarrow> t))"

definition row_to_msg :: "message_row \<Rightarrow> mail_message" where
  "row_to_msg r =
     \<lparr>msg_id = Some (mr_id r), msg_recipient = mr_recipient r, msg_external = mr_external r,
      msg_sender = mr_sender r, msg_urgency = mr_urgency r, msg_title = mr_title r,
      msg_body = mr_body r, msg_task = mr_task r, msg_parent = mr_parent r,
      msg_broadcast = mr_broadcast r, msg_recipients_all = mr_recipients_all r,
      msg_meta = mr_meta r, msg_delivered = Some (stamp_time (mr_delivered r)),
      msg_read = map_option stamp_time (mr_read r), msg_attachments = mr_attachments r,
      msg_reactions = None\<rparr>"

section \<open>Reading\<close>

primrec urgency_rank :: "urgency \<Rightarrow> int" where
  "urgency_rank UBlocker = 4"
| "urgency_rank UHigh = 3"
| "urgency_rank UNormal = 2"
| "urgency_rank ULow = 1"

text \<open>The optional urgency floor of a query: \<open>None\<close> and the empty string mean no floor,
  an unknown name raises.\<close>

definition urgency_floor :: "string option \<Rightarrow> exn + (urgency \<Rightarrow> bool)" where
  "urgency_floor m =
     (case m of
        None \<Rightarrow> Inr (\<lambda>u. True)
      | Some [] \<Rightarrow> Inr (\<lambda>u. True)
      | Some (c # cs) \<Rightarrow>
          (case urgency_of_str (c # cs) of
             None \<Rightarrow> Inl (value_error (''unknown urgency '' @ [CHR 0x27] @ (c # cs) @ [CHR 0x27]))
           | Some f \<Rightarrow> Inr (\<lambda>u. urgency_rank f \<le> urgency_rank u)))"

definition read_unread ::
    "string \<Rightarrow> string option \<Rightarrow> int \<Rightarrow> db \<Rightarrow> exn + mail_message list" where
  "read_unread recipient min_urgency limit d =
     map_sum id (\<lambda>ok. map row_to_msg (sql_limit limit
         (order_by (\<lambda>r. (- urgency_rank (mr_urgency r), mr_id r))
            (filter (\<lambda>r. mr_recipient r = recipient \<and> mr_read r = None \<and> ok (mr_urgency r))
               (messages d)))))
       (urgency_floor min_urgency)"

definition read_all_by_recipient :: "string \<Rightarrow> int \<Rightarrow> db \<Rightarrow> mail_message list" where
  "read_all_by_recipient recipient limit d =
     map row_to_msg (sql_limit limit
       (order_by mr_id (filter (\<lambda>r. mr_recipient r = recipient) (messages d))))"

definition upd_messages ::
    "(message_row \<Rightarrow> bool) \<Rightarrow> (message_row \<Rightarrow> message_row) \<Rightarrow> db \<Rightarrow> db" where
  "upd_messages p f d = d\<lparr>messages := update_where p f (messages d)\<rparr>"

definition mark_messages_read :: "int \<Rightarrow> string \<Rightarrow> int list \<Rightarrow> db \<Rightarrow> db" where
  "mark_messages_read now recipient ids d =
     (if ids = [] then d
      else upd_messages (\<lambda>r. mr_recipient r = recipient \<and> mr_id r \<in> set ids \<and> mr_read r = None)
             (\<lambda>r. r\<lparr>mr_read := Some (MsZ now)\<rparr>) d)"

definition get_max_msg_id :: "string \<Rightarrow> db \<Rightarrow> int" where
  "get_max_msg_id recipient d =
     max0 (map mr_id (filter (\<lambda>r. mr_recipient r = recipient) (messages d)))"

definition list_sent_by :: "string \<Rightarrow> string option \<Rightarrow> int \<Rightarrow> db \<Rightarrow> mail_message list" where
  "list_sent_by sender recipient limit d =
     map row_to_msg (sql_limit limit (order_by_desc mr_id
       (filter (\<lambda>r. mr_sender r = sender
                  \<and> (case recipient of None \<Rightarrow> True | Some q \<Rightarrow> mr_recipient r = q))
          (messages d))))"

definition on_thread :: "string \<Rightarrow> message_row \<Rightarrow> bool" where
  "on_thread thread r \<longleftrightarrow> sql_eq (json_extract (mr_meta r) [''thread_id'']) (SqlText thread)"

definition list_by_thread :: "string \<Rightarrow> string option \<Rightarrow> int \<Rightarrow> db \<Rightarrow> mail_message list" where
  "list_by_thread thread participant limit d =
     map row_to_msg (sql_limit limit (order_by_desc mr_id
       (filter (\<lambda>r. on_thread thread r
                  \<and> (case participant of None \<Rightarrow> True
                     | Some q \<Rightarrow> mr_sender r = q \<or> mr_recipient r = q)) (messages d))))"

definition loop_progress_mail_since :: "string \<Rightarrow> stamp \<Rightarrow> string \<Rightarrow> db \<Rightarrow> bool" where
  "loop_progress_mail_since thread since self d \<longleftrightarrow>
     exists_row (\<lambda>r. since < mr_delivered r
        \<and> (on_thread thread r \<and> \<not> (mr_sender r = self \<and> mr_recipient r = self)
           \<or> mr_sender r = self \<and> mr_recipient r \<noteq> self)) (messages d)"

definition count_unread :: "string \<Rightarrow> string option \<Rightarrow> db \<Rightarrow> exn + nat" where
  "count_unread recipient min_urgency d =
     map_sum id (\<lambda>ok. row_count
         (\<lambda>r. mr_recipient r = recipient \<and> mr_read r = None \<and> ok (mr_urgency r)) (messages d))
       (urgency_floor min_urgency)"

definition read_messages :: "string \<Rightarrow> int \<Rightarrow> int \<Rightarrow> db \<Rightarrow> mail_message list" where
  "read_messages recipient since limit d =
     map row_to_msg (sql_limit limit (order_by mr_id
       (filter (\<lambda>r. mr_recipient r = recipient \<and> since < mr_id r) (messages d))))"

definition read_blockers :: "string \<Rightarrow> int \<Rightarrow> db \<Rightarrow> mail_message list" where
  "read_blockers recipient since d =
     map row_to_msg (order_by mr_id
       (filter (\<lambda>r. mr_recipient r = recipient \<and> since < mr_id r \<and> mr_urgency r = UBlocker)
          (messages d)))"

definition read_messages_paged ::
    "string \<Rightarrow> int option \<Rightarrow> int \<Rightarrow> string option \<Rightarrow> db \<Rightarrow> exn + mail_message list" where
  "read_messages_paged recipient before limit min_urgency d =
     map_sum id (\<lambda>ok. map row_to_msg (sql_limit limit (order_by_desc mr_id
         (filter (\<lambda>r. mr_recipient r = recipient
                    \<and> (case before of None \<Rightarrow> True | Some b \<Rightarrow> mr_id r < b)
                    \<and> ok (mr_urgency r)) (messages d)))))
       (urgency_floor min_urgency)"

definition read_recent_for_audit :: "stamp \<Rightarrow> int \<Rightarrow> db \<Rightarrow> mail_message list" where
  "read_recent_for_audit since limit d =
     map row_to_msg (sql_limit limit (order_by_desc (\<lambda>r. (mr_delivered r, mr_id r))
       (filter (\<lambda>r. since \<le> mr_delivered r) (messages d))))"

definition count_unread_blockers :: "string \<Rightarrow> db \<Rightarrow> nat" where
  "count_unread_blockers recipient d =
     row_count (\<lambda>r. mr_recipient r = recipient \<and> mr_urgency r = UBlocker \<and> mr_read r = None)
       (messages d)"

section \<open>Inserting\<close>

definition has_message :: "string \<Rightarrow> string \<Rightarrow> db \<Rightarrow> bool" where
  "has_message recipient external d \<longleftrightarrow>
     exists_row (\<lambda>r. mr_recipient r = recipient \<and> mr_external r = external) (messages d)"

definition message_row_of :: "int \<Rightarrow> int \<Rightarrow> mail_message \<Rightarrow> message_row" where
  "message_row_of now i msg =
     \<lparr>mr_id = i, mr_recipient = msg_recipient msg, mr_external = msg_external msg,
      mr_sender = msg_sender msg, mr_urgency = msg_urgency msg,
      mr_title = Some (case msg_title msg of
                         Some (c # cs) \<Rightarrow> c # cs | _ \<Rightarrow> derive_title (msg_body msg)),
      mr_body = msg_body msg,
      mr_attachments = (case msg_attachments msg of Some (a # as) \<Rightarrow> Some (a # as) | _ \<Rightarrow> None),
      mr_task = msg_task msg, mr_parent = msg_parent msg, mr_broadcast = msg_broadcast msg,
      mr_recipients_all = msg_recipients_all msg, mr_meta = msg_meta msg,
      mr_delivered = MsZ now, mr_read = None\<rparr>"

text \<open>A conflicting insert does nothing but use up a row id, and reports \<open>-1\<close>.\<close>

definition insert_message :: "int \<Rightarrow> mail_message \<Rightarrow> (db, int) exec" where
  "insert_message now msg = (\<lambda>d0.
     let d = ensure_mailbox (msg_recipient msg) d0; i = message_seq d + 1 in
     if has_message (msg_recipient msg) (msg_external msg) d
     then (Inr (- 1), d\<lparr>message_seq := i\<rparr>)
     else if \<not> fk (msg_task msg) (task_ids d) \<or> \<not> fk (msg_parent msg) (i # message_ids d)
     then (Inl foreign_key_failed, d)
     else (Inr i, d\<lparr>messages := messages d @ [message_row_of now i msg], message_seq := i\<rparr>))"

section \<open>Fan-in results\<close>

definition leg_sql :: "message_row \<Rightarrow> sqlval" where
  "leg_sql r = json_extract (mr_meta r) [''fan_in'', ''leg_key'']"

definition for_group :: "string \<Rightarrow> string \<Rightarrow> message_row \<Rightarrow> bool" where
  "for_group recipient gid r \<longleftrightarrow>
     mr_recipient r = recipient
     \<and> sql_eq (json_extract (mr_meta r) [''fan_in'', ''group_id'']) (SqlText gid)"

definition count_fan_in_results :: "string \<Rightarrow> string \<Rightarrow> db \<Rightarrow> nat" where
  "count_fan_in_results recipient gid d =
     length (remdups (filter (\<lambda>v. v \<noteq> SqlNull)
       (map leg_sql (filter (for_group recipient gid) (messages d)))))"

text \<open>The order of SQL values: numbers, then text (and the text of structured values).\<close>

definition sql_order :: "sqlval \<Rightarrow> int \<times> rat \<times> string" where
  "sql_order v = (case v of SqlNull \<Rightarrow> (0, 0, []) | SqlInt i \<Rightarrow> (1, of_int i, [])
     | SqlReal q \<Rightarrow> (1, q, []) | SqlText s \<Rightarrow> (2, 0, s) | SqlJson j \<Rightarrow> (2, 0, []))"

text \<open>\<open>GROUP BY leg_key\<close> with \<open>MAX(id)\<close>: the newest mail of every leg.\<close>

definition newest_per_leg :: "message_row list \<Rightarrow> message_row list" where
  "newest_per_leg rows =
     filter (\<lambda>r. \<forall>r' \<in> set rows. leg_sql r' = leg_sql r \<longrightarrow> mr_id r' \<le> mr_id r) rows"

text \<open>\<open>_parse_json(result)\<close> and the \<open>isinstance(result, dict)\<close> check: \<open>Some\<close> a
  dictionary, \<open>None\<close> to skip the row; a plain string raises in \<open>json.loads\<close>
  (text that happens to be JSON itself is not told apart). \<open>int(leg_key)\<close> truncates a
  real and raises on other text.\<close>

definition parse_result :: "sqlval \<Rightarrow> exn + dict option" where
  "parse_result v = (case v of
       SqlJson (JObj o') \<Rightarrow> Inr (Some o')
     | SqlText s \<Rightarrow> Inl (Exn ''JSONDecodeError'' ''Expecting value'')
     | _ \<Rightarrow> Inr None)"

definition leg_int :: "sqlval \<Rightarrow> exn + int" where
  "leg_int v = (case v of
       SqlInt i \<Rightarrow> Inr i
     | SqlReal q \<Rightarrow> Inr (if q < 0 then - \<lfloor>- q\<rfloor> else \<lfloor>q\<rfloor>)
     | SqlText s \<Rightarrow> (if s \<noteq> [] \<and> list_all is_digit s then Inr (int (nat_of_digits s))
                    else Inl (value_error ''invalid literal for int() with base 10''))
     | _ \<Rightarrow> Inl (value_error ''invalid literal for int() with base 10''))"

fun collect_results :: "message_row list \<Rightarrow> exn + fan_in_result list" where
  "collect_results [] = Inr []"
| "collect_results (r # rs) =
     (case parse_result (json_extract (mr_meta r) [''fan_in'', ''result'']) of
        Inl e \<Rightarrow> Inl e
      | Inr None \<Rightarrow> collect_results rs
      | Inr (Some o') \<Rightarrow>
          (case leg_int (leg_sql r) of
             Inl e \<Rightarrow> Inl e
           | Inr k \<Rightarrow> map_sum id
               (\<lambda>out. \<lparr>fr_leg_key = k, fr_result = o', fr_sender = mr_sender r\<rparr> # out)
               (collect_results rs)))"

definition read_fan_in_results :: "string \<Rightarrow> string \<Rightarrow> db \<Rightarrow> exn + fan_in_result list" where
  "read_fan_in_results recipient gid d =
     collect_results (order_by (\<lambda>r. sql_order (leg_sql r)) (newest_per_leg
       (filter (\<lambda>r. for_group recipient gid r \<and> leg_sql r \<noteq> SqlNull) (messages d))))"

section \<open>Reactions and channels\<close>

definition list_reactions :: "int \<Rightarrow> db \<Rightarrow> mail_reaction list" where
  "list_reactions mid d =
     map (\<lambda>r. \<lparr>rx_msg = rr_msg r, rx_reactor = rr_reactor r, rx_kind = rr_kind r,
               rx_created = Some (stamp_time (rr_created r))\<rparr>)
       (order_by (\<lambda>r. (rr_created r, rr_reactor r)) (filter (\<lambda>r. rr_msg r = mid) (reactions d)))"

definition get_message :: "int \<Rightarrow> db \<Rightarrow> mail_message option" where
  "get_message mid d =
     map_option (\<lambda>r. (row_to_msg r)\<lparr>msg_reactions := Some (list_reactions mid d)\<rparr>)
       (select_one (\<lambda>r. mr_id r = mid) (messages d))"

definition add_reaction :: "int \<Rightarrow> int \<Rightarrow> string \<Rightarrow> string \<Rightarrow> (db, bool) exec" where
  "add_reaction now mid reactor kind = (\<lambda>d.
     if exists_row (\<lambda>r. rr_msg r = mid \<and> rr_reactor r = reactor \<and> rr_kind r = kind) (reactions d)
     then (Inr False, d)
     else if kind \<noteq> ''ack''
     then (Inl (Exn ''IntegrityError'' (''CHECK constraint failed: kind IN ('' @ [CHR 0x27] @ ''ack'' @ [CHR 0x27] @ '')'') ), d)
     else if mid \<notin> set (message_ids d) \<or> reactor \<notin> set (agent_ids d)
     then (Inl foreign_key_failed, d)
     else (Inr True, d\<lparr>reactions := reactions d @
            [\<lparr>rr_msg = mid, rr_reactor = reactor, rr_kind = kind, rr_created = MsZ now\<rparr>]\<rparr>))"

definition is_alnum :: "char \<Rightarrow> bool" where
  "is_alnum c \<longleftrightarrow> (let n = (of_char c :: nat) in
     48 \<le> n \<and> n \<le> 57 \<or> 65 \<le> n \<and> n \<le> 90 \<or> 97 \<le> n \<and> n \<le> 122)"

definition channel_name_ok :: "string \<Rightarrow> bool" where
  "channel_name_ok n \<longleftrightarrow>
     (let s = filter (\<lambda>c. c \<noteq> CHR ''_'') n in s \<noteq> [] \<and> list_all is_alnum s)"

fun json_of_sql :: "sqlval \<Rightarrow> json" where
  "json_of_sql SqlNull = JNull"
| "json_of_sql (SqlInt i) = JInt i"
| "json_of_sql (SqlReal q) = JFloat q"
| "json_of_sql (SqlText s) = JStr s"
| "json_of_sql (SqlJson j) = j"

text \<open>\<open>json_set(m, path, COALESCE(json_extract(m0, path), json('{}')))\<close>.\<close>

definition ensure_object :: "dict option \<Rightarrow> string list \<Rightarrow> dict option \<Rightarrow> dict option" where
  "ensure_object m0 path m =
     json_set path (case json_extract m0 path of SqlNull \<Rightarrow> JObj [] | v \<Rightarrow> json_of_sql v) m"

definition set_channel_meta :: "string \<Rightarrow> string \<Rightarrow> dict option \<Rightarrow> dict option" where
  "set_channel_meta channel external m =
     json_set [''channels'', channel, ''message_id''] (JStr external)
       (ensure_object m [''channels'', channel] (ensure_object m [''channels''] m))"

definition set_channel_external_id :: "int \<Rightarrow> string \<Rightarrow> string \<Rightarrow> (db, unit) exec" where
  "set_channel_external_id mid channel external =
     (if \<not> channel_name_ok channel
      then throw (value_error (''channel name '' @ py_repr channel @
             '' contains characters that would corrupt the JSON path''))
      else upd (upd_messages (\<lambda>r. mr_id r = mid)
                  (\<lambda>r. r\<lparr>mr_meta := set_channel_meta channel external (mr_meta r)\<rparr>)))"

definition find_by_channel_external_id :: "string \<Rightarrow> string \<Rightarrow> db \<Rightarrow> mail_message option" where
  "find_by_channel_external_id channel external d =
     map_option row_to_msg (select_one
       (\<lambda>r. sql_eq (json_extract (mr_meta r) [''channels'', channel, ''message_id''])
              (SqlText external)) (messages d))"

definition find_id_by_external_id :: "string \<Rightarrow> string \<Rightarrow> db \<Rightarrow> int option" where
  "find_id_by_external_id recipient external d =
     map_option mr_id (select_one
       (\<lambda>r. mr_recipient r = recipient \<and> mr_external r = external) (messages d))"

definition channel_mail_key :: "string \<Rightarrow> int \<Rightarrow> string" where
  "channel_mail_key channel mid = ''channel:'' @ channel @ '':owner-mail:'' @ str_of_int mid"

definition list_pending_channel_publish :: "string \<Rightarrow> string \<Rightarrow> int \<Rightarrow> db \<Rightarrow> mail_message list" where
  "list_pending_channel_publish recipient channel limit d =
     map row_to_msg (sql_limit limit (order_by mr_id
       (filter (\<lambda>m. mr_recipient m = recipient
                  \<and> \<not> exists_row (\<lambda>x. xr_kind x = KChannelPublish
                         \<and> xr_external x = channel_mail_key channel (mr_id m)) (outbox d))
          (messages d))))"

section \<open>The anti-loop cursor\<close>

definition cursor_of :: "dict option \<Rightarrow> int" where
  "cursor_of m = (case json_extract m [''last_auto_triggered_msg_id''] of
     SqlInt i \<Rightarrow> i | SqlReal q \<Rightarrow> \<lfloor>q\<rfloor> | _ \<Rightarrow> 0)"

definition mailbox_meta :: "string \<Rightarrow> db \<Rightarrow> dict option" where
  "mailbox_meta recipient d =
     (case select_one (\<lambda>b. mb_recipient b = recipient) (mailboxes d) of
        None \<Rightarrow> None | Some b \<Rightarrow> mb_meta b)"

definition get_last_auto_triggered_id :: "string \<Rightarrow> db \<Rightarrow> int \<times> db" where
  "get_last_auto_triggered_id recipient d0 =
     (let d = ensure_mailbox recipient d0 in (cursor_of (mailbox_meta recipient d), d))"

definition set_last_auto_triggered_id :: "string \<Rightarrow> int \<Rightarrow> db \<Rightarrow> db" where
  "set_last_auto_triggered_id recipient mid d0 =
     (let d = ensure_mailbox recipient d0
      in d\<lparr>mailboxes := update_where (\<lambda>b. mb_recipient b = recipient)
             (\<lambda>b. b\<lparr>mb_meta := json_set [''last_auto_triggered_msg_id'']
                      (JInt (max mid (cursor_of (mb_meta b)))) (mb_meta b)\<rparr>) (mailboxes d)\<rparr>)"

section \<open>Invariant\<close>

lemma ensure_mailbox_ok [intro]: "db_ok d \<Longrightarrow> db_ok (ensure_mailbox q d)"
  by (simp add: ensure_mailbox_def db_ok_defs key_defs list_all_iff)

lemma ensure_mailbox_in [simp]: "q \<in> set (mailbox_ids (ensure_mailbox q d))"
  by (simp add: ensure_mailbox_def key_defs)

lemma ensure_mailbox_simps [simp]:
  "messages (ensure_mailbox q d) = messages d" "message_seq (ensure_mailbox q d) = message_seq d"
  "tasks (ensure_mailbox q d) = tasks d" "agents (ensure_mailbox q d) = agents d"
  "scheduled (ensure_mailbox q d) = scheduled d" "outbox (ensure_mailbox q d) = outbox d"
  "wakeups (ensure_mailbox q d) = wakeups d" "groups (ensure_mailbox q d) = groups d"
  "members (ensure_mailbox q d) = members d"
  "supervision (ensure_mailbox q d) = supervision d"
  "uuids_drawn (ensure_mailbox q d) = uuids_drawn d"
  by (simp_all add: ensure_mailbox_def)

lemma ensure_mailbox_keys [simp]:
  "task_ids (ensure_mailbox q d) = task_ids d" "message_ids (ensure_mailbox q d) = message_ids d"
  "agent_ids (ensure_mailbox q d) = agent_ids d"
  by (simp_all add: key_defs)

lemma add_message_ok:
  assumes ok: "db_ok d" and new: "\<not> has_message (mr_recipient r) (mr_external r) d"
    and box: "mr_recipient r \<in> set (mailbox_ids d)"
    and fks: "fk (mr_task r) (task_ids d)" "fk (mr_parent r) (mr_id r # message_ids d)"
    and i: "mr_id r = message_seq d + 1"
  shows "db_ok (d\<lparr>messages := messages d @ [r], message_seq := mr_id r\<rparr>)"
proof -
  have le: "\<forall>m \<in> set (messages d). mr_id m \<le> message_seq d"
    using ok by (auto simp: db_ok_defs key_defs list_all_iff)
  have par: "fk (mr_parent r) (map mr_id (messages d) @ [mr_id r])"
    using fks(2) by (cases "mr_parent r") (auto simp: key_defs)
  have "(mr_recipient r, mr_external r) \<notin>
      (\<lambda>r. (mr_recipient r, mr_external r)) ` set (messages d)"
    using new by (auto simp: has_message_def)
  then show ?thesis
    using ok box fks(1) par le i
    by (simp add: db_ok_defs key_defs fk_snoc list_all_iff image_Un sorted_wrt_append) force
qed

lemma message_seq_ok: "db_ok d \<Longrightarrow> db_ok (d\<lparr>message_seq := message_seq d + 1\<rparr>)"
  by (simp add: db_ok_defs key_defs list_all_iff) force

lemma message_row_of_simps [simp]:
  "mr_id (message_row_of now i msg) = i"
  "mr_recipient (message_row_of now i msg) = msg_recipient msg"
  "mr_external (message_row_of now i msg) = msg_external msg"
  "mr_task (message_row_of now i msg) = msg_task msg"
  "mr_parent (message_row_of now i msg) = msg_parent msg"
  "mr_sender (message_row_of now i msg) = msg_sender msg"
  "mr_urgency (message_row_of now i msg) = msg_urgency msg"
  "mr_body (message_row_of now i msg) = msg_body msg"
  "mr_meta (message_row_of now i msg) = msg_meta msg"
  "mr_read (message_row_of now i msg) = None"
  by (simp_all add: message_row_of_def)

lemma insert_message_ok: "db_ok d \<Longrightarrow> db_ok (snd (insert_message now msg d))"
  using add_message_ok [of "ensure_mailbox (msg_recipient msg) d"
      "message_row_of now (message_seq d + 1) msg"]
    message_seq_ok [of "ensure_mailbox (msg_recipient msg) d"]
  by (auto simp: insert_message_def Let_def)

lemma keeps_insert_message [keeps_intros]: "keeps db_ok (insert_message now msg)"
  by (rule keepsI) (rule insert_message_ok)

lemma upd_messages_ok:
  "(\<And>r. p r \<Longrightarrow> mr_id (f r) = mr_id r \<and> mr_recipient (f r) = mr_recipient r
      \<and> mr_external (f r) = mr_external r \<and> mr_task (f r) = mr_task r
      \<and> mr_parent (f r) = mr_parent r)
   \<Longrightarrow> db_ok (upd_messages p f d) \<longleftrightarrow> db_ok d"
  by (simp add: upd_messages_def db_ok_update_messages)

lemma mark_messages_read_ok [simp]: "db_ok (mark_messages_read now q ids d) \<longleftrightarrow> db_ok d"
  by (simp add: mark_messages_read_def upd_messages_ok)

lemma keeps_mailbox_writes [keeps_intros]:
  "keeps db_ok (upd (ensure_mailbox q))"
  "keeps db_ok (upd (mark_messages_read now q ids))"
  by (rule keeps_upd; auto)+

lemma keeps_set_channel [keeps_intros]: "keeps db_ok (set_channel_external_id mid c e)"
  unfolding set_channel_external_id_def
  by (intro keeps_intros keeps_upd) (simp add: upd_messages_ok)

lemma add_reaction_ok: "db_ok d \<Longrightarrow> db_ok (snd (add_reaction now mid a k d))"
  by (simp add: add_reaction_def db_ok_defs key_defs list_all_iff) force

lemma keeps_add_reaction [keeps_intros]: "keeps db_ok (add_reaction now mid a k)"
  by (rule keepsI) (rule add_reaction_ok)

lemma get_cursor_ok: "db_ok d \<Longrightarrow> db_ok (snd (get_last_auto_triggered_id q d))"
  by (auto simp: get_last_auto_triggered_id_def Let_def)

lemma set_cursor_ok: "db_ok d \<Longrightarrow> db_ok (set_last_auto_triggered_id q i d)"
  by (auto simp: set_last_auto_triggered_id_def Let_def db_ok_update_mailboxes)

lemma keeps_cursor [keeps_intros]:
  "keeps db_ok (step (get_last_auto_triggered_id q))"
  "keeps db_ok (upd (set_last_auto_triggered_id q i))"
  by (rule keeps_step keeps_upd; erule get_cursor_ok set_cursor_ok)+

lemma plain_insert_message [plain_intros]: "plain (insert_message now msg)"
  by (simp add: plain_def insert_message_def Let_def)

section \<open>Idempotent insertion\<close>

lemma has_message_after:
  "fst (insert_message now msg d) = Inr i \<Longrightarrow>
   has_message (msg_recipient msg) (msg_external msg) (snd (insert_message now msg d))"
  by (auto simp: insert_message_def Let_def has_message_def split: if_splits)

lemma insert_message_conflict:
  "has_message (msg_recipient msg) (msg_external msg) d \<Longrightarrow>
     fst (insert_message now msg d) = Inr (- 1)
     \<and> messages (snd (insert_message now msg d)) = messages d"
  by (simp add: insert_message_def Let_def has_message_def)

lemma insert_message_appends:
  "fst (insert_message now msg d) = Inr i \<Longrightarrow> i \<noteq> - 1 \<Longrightarrow>
     messages (snd (insert_message now msg d)) = messages d @ [message_row_of now i msg]"
  by (auto simp: insert_message_def Let_def split: if_splits)

lemma insert_message_prefix:
  "\<exists>new. messages (snd (insert_message now msg d)) = messages d @ new"
  by (auto simp: insert_message_def Let_def)

lemma has_message_mono: "has_message q e d \<Longrightarrow> has_message q e (snd (insert_message now msg d))"
  using insert_message_prefix [of now msg d] by (auto simp: has_message_def)

text \<open>The id reported for a fresh message is positive, the next of the sequence.\<close>

lemma insert_message_id:
  "db_ok d \<Longrightarrow> fst (insert_message now msg d) = Inr i \<Longrightarrow> i = - 1 \<or> i = message_seq d + 1 \<and> 0 < i"
  by (auto simp: insert_message_def Let_def db_ok_defs split: if_splits)

lemma insert_message_row:
  assumes "fst (insert_message now msg d) = Inr i" "0 \<le> i"
  shows "message_row_of now i msg \<in> set (messages (snd (insert_message now msg d)))"
  using insert_message_appends [OF assms(1)] assms(2) by auto

lemma insert_message_fresh:
  assumes "db_ok d" "\<not> has_message (msg_recipient msg) (msg_external msg) d"
    "fst (insert_message now msg d) = Inr i"
  shows "0 \<le> i"
  using assms by (auto simp: insert_message_def Let_def has_message_def db_ok_defs
      ensure_mailbox_def split: if_splits)

lemma insert_message_refused:
  assumes "db_ok d" "insert_message now msg d = (Inr j, d1)" "j < 0"
  shows "messages d1 = messages d"
proof -
  have "0 \<le> message_seq d" using assms(1) by (simp add: db_ok_defs)
  with assms(2,3) show ?thesis by (auto simp: insert_message_def Let_def split: if_splits)
qed

section \<open>Titles\<close>

lemma first_title_bounds: "first_title ls = Some t \<Longrightarrow> t \<noteq> [] \<and> ulen t \<le> 140"
  by (induction ls) (auto simp: Let_def ulen_utake utake_Nil_iff split: if_splits)

lemma derive_title_bounds: "derive_title body \<noteq> [] \<and> ulen (derive_title body) \<le> 140"
proof -
  have e: "ulen ''(empty)'' \<le> 140" by code_simp
  show ?thesis
    using first_title_bounds e by (auto simp: derive_title_def split: option.splits)
qed

end
