(* ===== verification/Repo_Scheduled.thy ===== *)
theory Repo_Scheduled
  imports Repo_Mailbox
begin

text \<open>
  \<open>SqliteScheduledMailRepository\<close>: future mail at rest. A row is pending until it is
  completed, cancelled, bounced or quarantined; only pending rows are picked up.
\<close>

section \<open>Operations\<close>

definition row_to_mail :: "sched_row \<Rightarrow> scheduled_mail" where
  "row_to_mail r =
     \<lparr>sm_id = Some (sr_id r), sm_recipient = sr_recipient r, sm_sender = sr_sender r,
      sm_urgency = sr_urgency r, sm_title = sr_title r, sm_body = sr_body r,
      sm_task = sr_task r, sm_parent_msg = sr_parent_msg r, sm_meta = sr_meta r,
      sm_scheduled_for = stamp_time (sr_scheduled_for r), sm_recur_kind = sr_recur_kind r,
      sm_recur_value = sr_recur_value r,
      sm_recur_until = map_option stamp_time (sr_recur_until r),
      sm_occurrences = sr_occurrences r, sm_max_occurrences = sr_max_occurrences r,
      sm_no_progress = sr_no_progress r, sm_max_no_progress = sr_max_no_progress r,
      sm_failures = sr_failures r, sm_created = Some (stamp_time (sr_created r)),
      sm_created_by_agent = sr_created_by_agent r, sm_created_by_task = sr_created_by_task r,
      sm_status = sr_status r, sm_last_delivery = sr_last_delivery r,
      sm_last_delivered = map_option stamp_time (sr_last_delivered r),
      sm_cancelled = map_option stamp_time (sr_cancelled r),
      sm_cancelled_by = sr_cancelled_by r, sm_bounce_reason = sr_bounce_reason r\<rparr>"

definition sched_row_of :: "int \<Rightarrow> int \<Rightarrow> scheduled_mail \<Rightarrow> sched_row" where
  "sched_row_of now i spec =
     \<lparr>sr_id = i, sr_recipient = sm_recipient spec, sr_sender = sm_sender spec,
      sr_urgency = sm_urgency spec,
      sr_title = Some (case sm_title spec of
                         Some (c # cs) \<Rightarrow> c # cs | _ \<Rightarrow> derive_title (sm_body spec)),
      sr_body = sm_body spec, sr_task = sm_task spec, sr_parent_msg = sm_parent_msg spec,
      sr_meta = sm_meta spec, sr_scheduled_for = iso_db (sm_scheduled_for spec),
      sr_recur_kind = sm_recur_kind spec, sr_recur_value = sm_recur_value spec,
      sr_recur_until = map_option iso_db (sm_recur_until spec), sr_occurrences = 0,
      sr_max_occurrences = sm_max_occurrences spec, sr_no_progress = 0,
      sr_max_no_progress = sm_max_no_progress spec, sr_failures = 0, sr_created = MsZ now,
      sr_created_by_agent = sm_created_by_agent spec,
      sr_created_by_task = sm_created_by_task spec, sr_status = SPending,
      sr_last_delivery = None, sr_last_delivered = None, sr_cancelled = None,
      sr_cancelled_by = None, sr_bounce_reason = None\<rparr>"

definition scheduled_create :: "int \<Rightarrow> scheduled_mail \<Rightarrow> (db, int) exec" where
  "scheduled_create now spec = (\<lambda>d.
     let i = scheduled_seq d + 1 in
     if \<not> fk (sm_task spec) (task_ids d) \<or> \<not> fk (sm_parent_msg spec) (message_ids d)
        \<or> \<not> fk (sm_created_by_task spec) (task_ids d)
     then (Inl foreign_key_failed, d)
     else (Inr i, d\<lparr>scheduled := scheduled d @ [sched_row_of now i spec], scheduled_seq := i\<rparr>))"

definition scheduled_get :: "int \<Rightarrow> db \<Rightarrow> scheduled_mail option" where
  "scheduled_get i d = map_option row_to_mail (select_one (\<lambda>r. sr_id r = i) (scheduled d))"

definition is_ready :: "stamp \<Rightarrow> sched_row \<Rightarrow> bool" where
  "is_ready now r \<longleftrightarrow> sr_status r = SPending \<and> sr_scheduled_for r \<le> now"

definition find_ready :: "stamp \<Rightarrow> int \<Rightarrow> db \<Rightarrow> scheduled_mail list" where
  "find_ready now limit d =
     map row_to_mail (sql_limit limit
       (order_by sr_scheduled_for (filter (is_ready now) (scheduled d))))"

text \<open>The status filter: \<open>None\<close> stands for no filter (\<open>None\<close> or \<open>"all"\<close>).\<close>

definition scheduled_list_filtered ::
    "string option \<Rightarrow> string option \<Rightarrow> sched_status option \<Rightarrow> int \<Rightarrow> db \<Rightarrow> scheduled_mail list" where
  "scheduled_list_filtered recipient sender status limit d =
     map row_to_mail (sql_limit limit (order_by sr_scheduled_for
       (filter (\<lambda>r. (case recipient of None \<Rightarrow> True | Some q \<Rightarrow> sr_recipient r = q)
                  \<and> (case sender of None \<Rightarrow> True | Some q \<Rightarrow> sr_sender r = q)
                  \<and> (case status of None \<Rightarrow> True | Some s \<Rightarrow> sr_status r = s))
          (scheduled d))))"

definition upd_scheduled ::
    "(sched_row \<Rightarrow> bool) \<Rightarrow> (sched_row \<Rightarrow> sched_row) \<Rightarrow> db \<Rightarrow> db" where
  "upd_scheduled p f d = d\<lparr>scheduled := update_where p f (scheduled d)\<rparr>"

text \<open>\<open>next_scheduled_for\<close> is read only where the row stays pending; the column is
  \<open>NOT NULL\<close>.\<close>

definition delivered_row ::
    "int \<Rightarrow> int \<Rightarrow> stamp option \<Rightarrow> bool \<Rightarrow> int option \<Rightarrow> sched_row \<Rightarrow> sched_row" where
  "delivered_row now mid nxt completed npc r =
     r\<lparr>sr_status := (if completed then SCompleted else sr_status r),
       sr_last_delivery := Some mid, sr_last_delivered := Some (MsZ now),
       sr_occurrences := sr_occurrences r + 1,
       sr_no_progress := (case npc of None \<Rightarrow> sr_no_progress r | Some c \<Rightarrow> c),
       sr_scheduled_for := (if completed then sr_scheduled_for r
                            else (case nxt of None \<Rightarrow> sr_scheduled_for r | Some s \<Rightarrow> s)),
       sr_failures := 0\<rparr>"

definition mark_delivered ::
    "int \<Rightarrow> int \<Rightarrow> int \<Rightarrow> stamp option \<Rightarrow> bool \<Rightarrow> int option \<Rightarrow> (db, unit) exec" where
  "mark_delivered now i mid nxt completed npc = (\<lambda>d.
     if \<not> exists_row (\<lambda>r. sr_id r = i) (scheduled d) then (Inr (), d)
     else if \<not> completed \<and> nxt = None
     then (Inl (Exn ''IntegrityError''
                 ''NOT NULL constraint failed: scheduled_mail.scheduled_for''), d)
     else if mid \<notin> set (message_ids d) then (Inl foreign_key_failed, d)
     else (Inr (), upd_scheduled (\<lambda>r. sr_id r = i) (delivered_row now mid nxt completed npc) d))"

definition failed_row :: "string \<Rightarrow> int \<Rightarrow> sched_row \<Rightarrow> sched_row" where
  "failed_row error quarantine_after r =
     r\<lparr>sr_failures := sr_failures r + 1,
       sr_status := (if sr_failures r + 1 \<ge> quarantine_after then SQuarantined
                     else sr_status r),
       sr_bounce_reason :=
         (if sr_failures r + 1 \<ge> quarantine_after
          then Some (''quarantined after '' @ str_of_int quarantine_after @
                     '' delivery failures: '' @ utake 500 error)
          else sr_bounce_reason r)\<rparr>"

definition record_delivery_failure :: "int \<Rightarrow> string \<Rightarrow> int \<Rightarrow> db \<Rightarrow> bool \<times> db" where
  "record_delivery_failure i error quarantine_after d =
     (let d' = upd_scheduled (\<lambda>r. sr_id r = i \<and> sr_status r = SPending)
                 (failed_row error quarantine_after) d
      in (case select_one (\<lambda>r. sr_id r = i) (scheduled d') of
            None \<Rightarrow> False | Some r \<Rightarrow> sr_status r = SQuarantined, d'))"

definition mark_cancelled ::
    "int \<Rightarrow> int \<Rightarrow> string option \<Rightarrow> string option \<Rightarrow> db \<Rightarrow> bool \<times> db" where
  "mark_cancelled now i cancelled_by reason d =
     (exists_row (\<lambda>r. sr_id r = i \<and> sr_status r = SPending) (scheduled d),
      upd_scheduled (\<lambda>r. sr_id r = i \<and> sr_status r = SPending)
        (\<lambda>r. r\<lparr>sr_status := SCancelled, sr_cancelled := Some (MsZ now),
               sr_cancelled_by := cancelled_by,
               sr_meta := (case reason of
                   Some (c # cs) \<Rightarrow> json_set [''cancel_reason''] (JStr (c # cs)) (sr_meta r)
                 | _ \<Rightarrow> sr_meta r)\<rparr>) d)"

definition mark_bounced :: "int \<Rightarrow> int \<Rightarrow> string \<Rightarrow> db \<Rightarrow> db" where
  "mark_bounced now i reason =
     upd_scheduled (\<lambda>r. sr_id r = i)
       (\<lambda>r. r\<lparr>sr_status := SBounced, sr_bounce_reason := Some reason,
              sr_last_delivered := Some (MsZ now)\<rparr>)"

section \<open>Invariant\<close>

lemma sched_row_of_simps [simp]:
  "sr_id (sched_row_of now i spec) = i"
  "sr_task (sched_row_of now i spec) = sm_task spec"
  "sr_parent_msg (sched_row_of now i spec) = sm_parent_msg spec"
  "sr_created_by_task (sched_row_of now i spec) = sm_created_by_task spec"
  "sr_last_delivery (sched_row_of now i spec) = None"
  "sr_status (sched_row_of now i spec) = SPending"
  "sr_scheduled_for (sched_row_of now i spec) = iso_db (sm_scheduled_for spec)"
  by (simp_all add: sched_row_of_def)

lemma add_scheduled_ok:
  assumes ok: "db_ok d" and i: "sr_id r = scheduled_seq d + 1"
    and fks: "fk (sr_task r) (task_ids d)" "fk (sr_parent_msg r) (message_ids d)"
      "fk (sr_created_by_task r) (task_ids d)" "fk (sr_last_delivery r) (message_ids d)"
  shows "db_ok (d\<lparr>scheduled := scheduled d @ [r], scheduled_seq := sr_id r\<rparr>)"
proof -
  have "\<forall>m \<in> set (scheduled d). sr_id m \<le> scheduled_seq d"
    using ok by (auto simp: db_ok_defs list_all_iff)
  then show ?thesis
    using ok i fks by (simp add: db_ok_defs key_defs list_all_iff sorted_wrt_append) force
qed

lemma scheduled_create_ok: "db_ok d \<Longrightarrow> db_ok (snd (scheduled_create now spec d))"
  using add_scheduled_ok [of d "sched_row_of now (scheduled_seq d + 1) spec"]
  by (auto simp: scheduled_create_def Let_def)

lemma keeps_scheduled_create [keeps_intros]: "keeps db_ok (scheduled_create now spec)"
  by (rule keepsI) (rule scheduled_create_ok)

lemma upd_scheduled_ok:
  assumes ok: "db_ok d"
    and same: "\<And>r. p r \<Longrightarrow> sr_id (f r) = sr_id r \<and> sr_task (f r) = sr_task r
      \<and> sr_parent_msg (f r) = sr_parent_msg r \<and> sr_created_by_task (f r) = sr_created_by_task r"
    and last: "\<And>r. p r \<Longrightarrow> fk (sr_last_delivery r) (message_ids d)
      \<Longrightarrow> fk (sr_last_delivery (f r)) (message_ids d)"
  shows "db_ok (upd_scheduled p f d)"
proof -
  have "list_all (\<lambda>v. fk v (message_ids d)) (map sr_last_delivery (scheduled d))"
    using ok by (simp add: db_ok_def scheduled_ok_def)
  then have l: "\<forall>r \<in> set (update_where p f (scheduled d)). fk (sr_last_delivery r) (message_ids d)"
    using last by (auto simp: list_all_iff elim!: update_where_cases)
  have r: "map sr_id (update_where p f (scheduled d)) = map sr_id (scheduled d)"
    "map sr_task (update_where p f (scheduled d)) = map sr_task (scheduled d)"
    "map sr_parent_msg (update_where p f (scheduled d)) = map sr_parent_msg (scheduled d)"
    "map sr_created_by_task (update_where p f (scheduled d)) = map sr_created_by_task (scheduled d)"
    using same by (simp_all add: map_update_where)
  have "scheduled_ok (upd_scheduled p f d)"
    using ok l unfolding db_ok_def scheduled_ok_def upd_scheduled_def
    by (simp add: r key_defs list_all_iff del: list.set_map)
  then show ?thesis
    using ok unfolding db_ok_def
    by (simp add: upd_scheduled_def mailboxes_ok_def agents_ok_def tasks_ok_def wakeups_ok_def
        messages_ok_def reactions_ok_def outbox_ok_def local_hot_ok_def artifacts_ok_def
        blobs_ok_def groups_ok_def members_ok_def supervision_ok_def key_defs)
qed

lemma mark_delivered_ok: "db_ok d \<Longrightarrow> db_ok (snd (mark_delivered now i mid nxt c npc d))"
  by (auto simp: mark_delivered_def delivered_row_def intro!: upd_scheduled_ok)

lemma keeps_scheduled_writes [keeps_intros]:
  "keeps db_ok (mark_delivered now i mid nxt c npc)"
  "keeps db_ok (step (record_delivery_failure i e q))"
  "keeps db_ok (step (mark_cancelled now i by re))"
  "keeps db_ok (upd (mark_bounced now i why))"
proof -
  show "keeps db_ok (mark_delivered now i mid nxt c npc)"
    by (rule keepsI) (rule mark_delivered_ok)
  show "keeps db_ok (step (record_delivery_failure i e q))"
    by (rule keeps_step) (auto simp: record_delivery_failure_def Let_def failed_row_def
        intro!: upd_scheduled_ok)
  show "keeps db_ok (step (mark_cancelled now i by re))"
    by (rule keeps_step) (auto simp: mark_cancelled_def intro!: upd_scheduled_ok)
  show "keeps db_ok (upd (mark_bounced now i why))"
    by (rule keeps_upd) (auto simp: mark_bounced_def intro!: upd_scheduled_ok)
qed

lemma plain_mark_delivered [plain_intros]: "plain (mark_delivered now i mid nxt c npc)"
  by (simp add: plain_def mark_delivered_def)

section \<open>Readiness and the poison-row guard\<close>

lemma find_ready_sound:
  "m \<in> set (find_ready now limit d) \<Longrightarrow>
     \<exists>r \<in> set (scheduled d). m = row_to_mail r \<and> sr_status r = SPending \<and> sr_scheduled_for r \<le> now"
  using set_sql_limit [of limit "order_by sr_scheduled_for (filter (is_ready now) (scheduled d))"]
  by (auto simp: find_ready_def is_ready_def)

definition sched_at :: "int \<Rightarrow> db \<Rightarrow> sched_row option" where
  "sched_at i d = select_one (\<lambda>r. sr_id r = i) (scheduled d)"

lemma sched_at_upd:
  "(\<And>r. p r \<Longrightarrow> sr_id (f r) = sr_id r) \<Longrightarrow>
   sched_at i (upd_scheduled p f d) = map_option (\<lambda>r. if p r then f r else r) (sched_at i d)"
  by (simp add: sched_at_def upd_scheduled_def select_one_update_where)

lemma sched_at_id: "sched_at i d = Some r \<Longrightarrow> sr_id r = i"
  unfolding sched_at_def by (drule select_one_Some) simp

lemma sched_at_failure:
  assumes "sched_at i d = Some r" "sr_status r = SPending"
  shows "sched_at i (snd (record_delivery_failure i e q d)) = Some (failed_row e q r)"
    and "fst (record_delivery_failure i e q d) \<longleftrightarrow> sr_failures r + 1 \<ge> q"
proof -
  have s: "sched_at i (upd_scheduled (\<lambda>r. sr_id r = i \<and> sr_status r = SPending)
      (failed_row e q) d) = Some (failed_row e q r)"
    using assms sched_at_id [OF assms(1)] by (subst sched_at_upd) (auto simp: failed_row_def)
  then show "sched_at i (snd (record_delivery_failure i e q d)) = Some (failed_row e q r)"
    by (simp add: record_delivery_failure_def Let_def)
  from s show "fst (record_delivery_failure i e q d) \<longleftrightarrow> sr_failures r + 1 \<ge> q"
    using assms(2) by (simp add: record_delivery_failure_def Let_def sched_at_def failed_row_def)
qed

lemma sched_at_settled:
  assumes "sched_at i d = Some r" "sr_status r \<noteq> SPending"
  shows "sched_at i (snd (record_delivery_failure i e q d)) = Some r"
  using assms by (simp add: record_delivery_failure_def Let_def sched_at_upd failed_row_def)

end
