(* ===== verification/Repo_Outbox.thy ===== *)
theory Repo_Outbox
  imports Repo_Scheduled
begin

text \<open>
  \<open>SqliteOutboxRepository\<close>: the queue of side effects to deliver. A row is unique in
  (kind, external id), it leaves the queue when it is marked dispatched, and a failed
  attempt moves it behind the rows that failed less often.
\<close>

section \<open>Operations\<close>

definition has_outbox :: "outbox_kind \<Rightarrow> string \<Rightarrow> db \<Rightarrow> bool" where
  "has_outbox k e d \<longleftrightarrow> exists_row (\<lambda>r. xr_kind r = k \<and> xr_external r = e) (outbox d)"

definition outbox_rec_of :: "int \<Rightarrow> int \<Rightarrow> outbox_row \<Rightarrow> outbox_rec" where
  "outbox_rec_of now i r =
     \<lparr>xr_id = i, xr_task = ob_task r, xr_wakeup = ob_wakeup r, xr_kind = ob_kind r,
      xr_payload = ob_payload r, xr_external = ob_external r, xr_created = MsZ now,
      xr_dispatched = None, xr_attempts = 0, xr_error = None\<rparr>"

definition enqueue_one :: "int \<Rightarrow> outbox_row \<Rightarrow> (db, unit) exec" where
  "enqueue_one now r = (\<lambda>d.
     let i = outbox_seq d + 1 in
     if has_outbox (ob_kind r) (ob_external r) d then (Inr (), d\<lparr>outbox_seq := i\<rparr>)
     else if \<not> fk (ob_task r) (task_ids d) \<or> \<not> fk (ob_wakeup r) (wakeup_ids d)
     then (Inl foreign_key_failed, d)
     else (Inr (), d\<lparr>outbox := outbox d @ [outbox_rec_of now i r], outbox_seq := i\<rparr>))"

definition outbox_enqueue :: "int \<Rightarrow> outbox_row list \<Rightarrow> (db, unit) exec" where
  "outbox_enqueue now rows = for_each (enqueue_one now) rows"

definition rec_to_row :: "outbox_rec \<Rightarrow> outbox_row" where
  "rec_to_row r =
     \<lparr>ob_id = Some (xr_id r), ob_task = xr_task r, ob_wakeup = xr_wakeup r,
      ob_kind = xr_kind r, ob_payload = xr_payload r, ob_external = xr_external r,
      ob_attempts = xr_attempts r\<rparr>"

definition dequeue_batch :: "int \<Rightarrow> db \<Rightarrow> outbox_row list" where
  "dequeue_batch limit d =
     map rec_to_row (sql_limit limit
       (order_by (\<lambda>r. (xr_attempts r, xr_created r, xr_id r))
          (filter (\<lambda>r. xr_dispatched r = None) (outbox d))))"

definition upd_outbox ::
    "(outbox_rec \<Rightarrow> bool) \<Rightarrow> (outbox_rec \<Rightarrow> outbox_rec) \<Rightarrow> db \<Rightarrow> db" where
  "upd_outbox p f d = d\<lparr>outbox := update_where p f (outbox d)\<rparr>"

definition mark_dispatched :: "int \<Rightarrow> int \<Rightarrow> db \<Rightarrow> db" where
  "mark_dispatched now i =
     upd_outbox (\<lambda>r. xr_id r = i) (\<lambda>r. r\<lparr>xr_dispatched := Some (MsZ now)\<rparr>)"

definition mark_failed :: "int \<Rightarrow> string \<Rightarrow> db \<Rightarrow> db" where
  "mark_failed i error =
     upd_outbox (\<lambda>r. xr_id r = i)
       (\<lambda>r. r\<lparr>xr_attempts := xr_attempts r + 1, xr_error := Some error\<rparr>)"

definition has_pending_fan_in_result :: "string \<Rightarrow> string \<Rightarrow> int \<Rightarrow> db \<Rightarrow> bool" where
  "has_pending_fan_in_result tid gid leg d \<longleftrightarrow>
     exists_row (\<lambda>r. xr_task r = Some tid \<and> xr_kind r = KMailboxSend \<and> xr_dispatched r = None
        \<and> sql_eq (json_extract (Some (xr_payload r)) [''metadata'', ''fan_in'', ''group_id''])
            (SqlText gid)
        \<and> sql_eq (json_extract (Some (xr_payload r)) [''metadata'', ''fan_in'', ''leg_key''])
            (SqlInt leg)) (outbox d)"

section \<open>Invariant\<close>

lemma outbox_rec_of_simps [simp]:
  "xr_id (outbox_rec_of now i r) = i" "xr_task (outbox_rec_of now i r) = ob_task r"
  "xr_wakeup (outbox_rec_of now i r) = ob_wakeup r" "xr_kind (outbox_rec_of now i r) = ob_kind r"
  "xr_payload (outbox_rec_of now i r) = ob_payload r"
  "xr_external (outbox_rec_of now i r) = ob_external r"
  "xr_dispatched (outbox_rec_of now i r) = None" "xr_attempts (outbox_rec_of now i r) = 0"
  by (simp_all add: outbox_rec_of_def)

lemma add_outbox_ok:
  assumes ok: "db_ok d" and i: "xr_id r = outbox_seq d + 1"
    and new: "\<not> has_outbox (xr_kind r) (xr_external r) d"
    and fks: "fk (xr_task r) (task_ids d)" "fk (xr_wakeup r) (wakeup_ids d)"
  shows "db_ok (d\<lparr>outbox := outbox d @ [r], outbox_seq := xr_id r\<rparr>)"
proof -
  have le: "\<forall>m \<in> set (outbox d). xr_id m \<le> outbox_seq d"
    using ok by (auto simp: db_ok_defs list_all_iff)
  have "(xr_kind r, xr_external r) \<notin> (\<lambda>r. (xr_kind r, xr_external r)) ` set (outbox d)"
    using new by (auto simp: has_outbox_def)
  then show ?thesis
    using ok i fks le
    by (simp add: db_ok_defs key_defs list_all_iff image_Un sorted_wrt_append) force
qed

lemma outbox_seq_ok: "db_ok d \<Longrightarrow> db_ok (d\<lparr>outbox_seq := outbox_seq d + 1\<rparr>)"
  by (simp add: db_ok_defs key_defs list_all_iff) force

lemma enqueue_one_ok: "db_ok d \<Longrightarrow> db_ok (snd (enqueue_one now r d))"
  using add_outbox_ok [of d "outbox_rec_of now (outbox_seq d + 1) r"] outbox_seq_ok [of d]
  by (auto simp: enqueue_one_def Let_def)

lemma keeps_enqueue [keeps_intros]: "keeps db_ok (outbox_enqueue now rows)"
  unfolding outbox_enqueue_def
  by (intro keeps_for_each keepsI) (rule enqueue_one_ok)

lemma upd_outbox_ok:
  "(\<And>r. p r \<Longrightarrow> xr_id (f r) = xr_id r \<and> xr_kind (f r) = xr_kind r
      \<and> xr_external (f r) = xr_external r \<and> xr_task (f r) = xr_task r
      \<and> xr_wakeup (f r) = xr_wakeup r)
   \<Longrightarrow> db_ok (upd_outbox p f d) \<longleftrightarrow> db_ok d"
  by (simp add: upd_outbox_def db_ok_update_outbox)

lemma outbox_marks_ok [simp]:
  "db_ok (mark_dispatched now i d) \<longleftrightarrow> db_ok d"
  "db_ok (mark_failed i e d) \<longleftrightarrow> db_ok d"
  by (simp_all add: mark_dispatched_def mark_failed_def upd_outbox_ok)

lemma keeps_outbox_writes [keeps_intros]:
  "keeps db_ok (upd (mark_dispatched now i))" "keeps db_ok (upd (mark_failed i e))"
  by (rule keeps_upd; simp)+

section \<open>The queue\<close>

lemma in_dequeue_batch:
  "r \<in> set (dequeue_batch limit d) \<Longrightarrow>
     \<exists>x \<in> set (outbox d). r = rec_to_row x \<and> xr_dispatched x = None"
  using set_sql_limit [of limit "order_by (\<lambda>r. (xr_attempts r, xr_created r, xr_id r))
          (filter (\<lambda>r. xr_dispatched r = None) (outbox d))"]
  by (auto simp: dequeue_batch_def)

lemma dequeue_all:
  "limit < 0 \<or> row_count (\<lambda>r. xr_dispatched r = None) (outbox d) \<le> nat limit \<Longrightarrow>
     set (dequeue_batch limit d)
       = rec_to_row ` {x \<in> set (outbox d). xr_dispatched x = None}"
  by (auto simp: dequeue_batch_def sql_limit_def row_count_def order_by_def)

text \<open>The number of rows of a (kind, external id) never exceeds one, and enqueueing the
  same rows again leaves the queue alone.\<close>

lemma enqueue_one_has: "fst (enqueue_one now r d) = Inr () \<Longrightarrow>
   has_outbox (ob_kind r) (ob_external r) (snd (enqueue_one now r d))"
  by (auto simp: enqueue_one_def Let_def has_outbox_def split: if_splits)

lemma enqueue_one_mono: "has_outbox k e d \<Longrightarrow> has_outbox k e (snd (enqueue_one now r d))"
  by (auto simp: enqueue_one_def Let_def has_outbox_def)

lemma enqueue_one_again: "has_outbox (ob_kind r) (ob_external r) d \<Longrightarrow>
   fst (enqueue_one now r d) = Inr () \<and> outbox (snd (enqueue_one now r d)) = outbox d
   \<and> messages (snd (enqueue_one now r d)) = messages d"
  by (simp add: enqueue_one_def Let_def)

lemma enqueue_cons:
  "outbox_enqueue now (r # rs) d =
     (case enqueue_one now r d of
        (Inl e, d') \<Rightarrow> (Inl e, d') | (Inr u, d') \<Rightarrow> outbox_enqueue now rs d')"
  by (simp add: outbox_enqueue_def seqn_def bnd_def split: prod.splits sum.splits)

lemma enqueue_nil [simp]: "outbox_enqueue now [] d = (Inr (), d)"
  by (simp add: outbox_enqueue_def ret_def)

lemma enqueue_mono: "has_outbox k e d \<Longrightarrow> has_outbox k e (snd (outbox_enqueue now rs d))"
proof (induction rs arbitrary: d)
  case (Cons r rs)
  then show ?case
    using enqueue_one_mono [OF Cons.prems, of now r]
    by (auto simp: enqueue_cons split: prod.splits sum.splits)
qed simp

lemma enqueue_has:
  "fst (outbox_enqueue now rs d) = Inr () \<Longrightarrow> r \<in> set rs \<Longrightarrow>
   has_outbox (ob_kind r) (ob_external r) (snd (outbox_enqueue now rs d))"
proof (induction rs arbitrary: d)
  case (Cons x xs)
  obtain y d' where o: "enqueue_one now x d = (Inr y, d')"
    using Cons.prems(1) by (auto simp: enqueue_cons split: prod.splits sum.splits)
  with Cons.prems(1) have rest: "fst (outbox_enqueue now xs d') = Inr ()"
    by (simp add: enqueue_cons)
  show ?case
  proof (cases "r = x")
    case True
    from o have "has_outbox (ob_kind x) (ob_external x) d'"
      using enqueue_one_has [of now x d] by simp
    with True o show ?thesis by (simp add: enqueue_cons enqueue_mono)
  next
    case False
    with Cons.prems(2) have "r \<in> set xs" by simp
    from Cons.IH [OF rest this] o show ?thesis by (simp add: enqueue_cons)
  qed
qed simp

lemma enqueue_again:
  "\<forall>r \<in> set rs. has_outbox (ob_kind r) (ob_external r) d \<Longrightarrow>
     fst (outbox_enqueue now rs d) = Inr () \<and> outbox (snd (outbox_enqueue now rs d)) = outbox d"
proof (induction rs arbitrary: d)
  case (Cons r rs)
  have a: "fst (enqueue_one now r d) = Inr ()" "outbox (snd (enqueue_one now r d)) = outbox d"
    using enqueue_one_again [of r d now] Cons.prems by simp_all
  then have "\<forall>r' \<in> set rs. has_outbox (ob_kind r') (ob_external r') (snd (enqueue_one now r d))"
    using Cons.prems by (auto simp: has_outbox_def)
  from Cons.IH [OF this] a show ?case by (cases "enqueue_one now r d") (simp add: enqueue_cons)
qed simp

end
