(* ===== verification/Repo_FanIn.thy ===== *)
theory Repo_FanIn
  imports Repo_Outbox
begin

text \<open>
  \<open>SqliteFanInRepository\<close> (the barrier of a workflow: groups and their members),
  \<open>SqliteSupervisionRepository\<close> (the restart-intensity window), and the small tables:
  local-hot values, artifacts and blob metadata. A fan-in deadline and a supervision
  stamp are the \<open>isoformat()\<close> text of a UTC datetime, whose order is the order of time;
  they are kept in microseconds.
\<close>

section \<open>Fan-in groups\<close>

definition row_to_group :: "group_row \<Rightarrow> fan_in_group" where
  "row_to_group r =
     \<lparr>grp_id = gr_id r, grp_coordinator = gr_coordinator r, grp_parent_task = gr_parent_task r,
      grp_expect = gr_expect r, grp_quorum = gr_quorum r, grp_schema = gr_schema r,
      grp_budget = gr_budget r, grp_dry_round = gr_dry_round r, grp_deadline = gr_deadline r,
      grp_status = gr_status r, grp_created = Some (stamp_time (gr_created r)),
      grp_resolved = None\<rparr>"

definition group_row_of :: "int \<Rightarrow> fan_in_group \<Rightarrow> group_row" where
  "group_row_of now g =
     \<lparr>gr_id = grp_id g, gr_coordinator = grp_coordinator g,
      gr_parent_task = grp_parent_task g, gr_expect = grp_expect g, gr_quorum = grp_quorum g,
      gr_schema = grp_schema g, gr_budget = grp_budget g, gr_dry_round = 0,
      gr_deadline = grp_deadline g, gr_status = GOpen, gr_created = MsZ now,
      gr_resolved = None\<rparr>"

definition create_group :: "int \<Rightarrow> fan_in_group \<Rightarrow> (db, string) exec" where
  "create_group now g = (\<lambda>d.
     if grp_id g \<in> set (group_ids d) then (Inl (unique_failed ''fan_in_groups.id''), d)
     else if grp_coordinator g \<notin> set (agent_ids d) \<or> \<not> fk (grp_parent_task g) (task_ids d)
     then (Inl foreign_key_failed, d)
     else (Inr (grp_id g), d\<lparr>groups := groups d @ [group_row_of now g]\<rparr>))"

definition group_get :: "string \<Rightarrow> db \<Rightarrow> fan_in_group option" where
  "group_get gid d = map_option row_to_group (select_one (\<lambda>r. gr_id r = gid) (groups d))"

definition add_member :: "fan_in_member \<Rightarrow> (db, unit) exec" where
  "add_member m = (\<lambda>d.
     if exists_row (\<lambda>r. fm_group r = fm_group m \<and> fm_leg_key r = fm_leg_key m) (members d)
     then (Inl (unique_failed ''fan_in_members.group_id, fan_in_members.leg_key''), d)
     else if fm_group m \<notin> set (group_ids d) \<or> fm_child_task m \<notin> set (task_ids d)
        \<or> fm_child_agent m \<notin> set (agent_ids d)
     then (Inl foreign_key_failed, d)
     else (Inr (), d\<lparr>members := members d @ [m]\<rparr>))"

definition get_member :: "string \<Rightarrow> int \<Rightarrow> db \<Rightarrow> fan_in_member option" where
  "get_member gid leg d =
     select_one (\<lambda>r. fm_group r = gid \<and> fm_leg_key r = leg) (members d)"

definition group_members :: "string \<Rightarrow> db \<Rightarrow> fan_in_member list" where
  "group_members gid d = order_by fm_leg_key (filter (\<lambda>r. fm_group r = gid) (members d))"

definition any_open :: "db \<Rightarrow> bool" where
  "any_open d \<longleftrightarrow> exists_row (\<lambda>r. gr_status r = GOpen) (groups d)"

definition open_by_deadline :: "db \<Rightarrow> group_row list" where
  "open_by_deadline d =
     order_by (\<lambda>r. (gr_deadline r, gr_id r)) (filter (\<lambda>r. gr_status r = GOpen) (groups d))"

text \<open>The first page of open groups by deadline; with a cutoff, also every open group
  created before it.\<close>

definition find_open :: "int \<Rightarrow> usec option \<Rightarrow> db \<Rightarrow> fan_in_group list" where
  "find_open limit ttl_cutoff d =
     (case ttl_cutoff of
        None \<Rightarrow> map row_to_group (sql_limit limit (open_by_deadline d))
      | Some c \<Rightarrow>
          (let page = set (map gr_id (sql_limit limit (open_by_deadline d)))
           in map row_to_group
                (filter (\<lambda>r. gr_id r \<in> page \<or> gr_created r < iso_db c) (open_by_deadline d))))"

definition set_group_status ::
    "int \<Rightarrow> string \<Rightarrow> fan_in_status \<Rightarrow> fan_in_status option \<Rightarrow> db \<Rightarrow> bool \<times> db" where
  "set_group_status now gid status guard =
     upd_groups (\<lambda>r. gr_id r = gid
                   \<and> (case guard of None \<Rightarrow> True | Some g \<Rightarrow> gr_status r = g))
       (\<lambda>r. r\<lparr>gr_status := status, gr_resolved := Some (MsZ now)\<rparr>)"

section \<open>Supervision state\<close>

definition supervision_get :: "string \<Rightarrow> db \<Rightarrow> supervision_state option" where
  "supervision_get aid d = select_one (\<lambda>s. sv_agent s = aid) (supervision d)"

text \<open>The window and the totals after one more restart.\<close>

definition next_window ::
    "supervision_state option \<Rightarrow> usec \<Rightarrow> int \<Rightarrow> bool \<Rightarrow> int \<times> int \<times> usec" where
  "next_window state now max_seconds count_total =
     (let (count, start) =
            (case state of
               None \<Rightarrow> (1, now)
             | Some s \<Rightarrow> (if now - sv_window_start s > max_seconds * 1000000 then (1, now)
                         else (sv_restarts s + 1, sv_window_start s)));
          total = (case state of None \<Rightarrow> 0 | Some s \<Rightarrow> sv_total s) + (if count_total then 1 else 0)
      in (count, total, start))"

definition bump_and_check_intensity ::
    "string \<Rightarrow> int \<Rightarrow> int \<Rightarrow> usec \<Rightarrow> string option \<Rightarrow> int option \<Rightarrow> bool \<Rightarrow> (db, bool) exec" where
  "bump_and_check_intensity aid max_restarts max_seconds now reason max_total count_total =
     (\<lambda>d. let (count, total, start) = next_window (supervision_get aid d) now max_seconds count_total;
              in_budget = count \<le> max_restarts
                       \<and> (case max_total of None \<Rightarrow> True | Some m \<Rightarrow> total \<le> m) in
       if exists_row (\<lambda>s. sv_agent s = aid) (supervision d)
       then (Inr in_budget, d\<lparr>supervision := update_where (\<lambda>s. sv_agent s = aid)
              (\<lambda>s. s\<lparr>sv_restarts := count, sv_total := total, sv_window_start := start,
                     sv_last_restart := Some now, sv_last_reason := reason\<rparr>) (supervision d)\<rparr>)
       else if aid \<notin> set (agent_ids d) then (Inl foreign_key_failed, d)
       else (Inr in_budget, d\<lparr>supervision := supervision d @
              [\<lparr>sv_agent = aid, sv_restarts = count, sv_total = total, sv_window_start = start,
                sv_last_restart = Some now, sv_last_reason = reason,
                sv_escalated = None\<rparr>]\<rparr>))"

definition mark_escalated :: "string \<Rightarrow> usec \<Rightarrow> (db, unit) exec" where
  "mark_escalated aid now = (\<lambda>d.
     if exists_row (\<lambda>s. sv_agent s = aid) (supervision d)
     then (Inr (), d\<lparr>supervision := update_where (\<lambda>s. sv_agent s = aid)
            (\<lambda>s. s\<lparr>sv_escalated := Some now\<rparr>) (supervision d)\<rparr>)
     else if aid \<notin> set (agent_ids d) then (Inl foreign_key_failed, d)
     else (Inr (), d\<lparr>supervision := supervision d @
            [\<lparr>sv_agent = aid, sv_restarts = 0, sv_total = 0, sv_window_start = now,
              sv_last_restart = None, sv_last_reason = None, sv_escalated = Some now\<rparr>]\<rparr>))"

section \<open>Local-hot values, artifacts, blobs\<close>

definition local_hot_put :: "int \<Rightarrow> string \<Rightarrow> string \<Rightarrow> json \<Rightarrow> (db, unit) exec" where
  "local_hot_put now tid key v = (\<lambda>d.
     if exists_row (\<lambda>r. lh_task r = tid \<and> lh_key r = key) (local_hot d)
     then (Inr (), d\<lparr>local_hot := update_where (\<lambda>r. lh_task r = tid \<and> lh_key r = key)
            (\<lambda>r. r\<lparr>lh_value := v, lh_updated := MsZ now\<rparr>) (local_hot d)\<rparr>)
     else if tid \<notin> set (task_ids d) then (Inl foreign_key_failed, d)
     else (Inr (), d\<lparr>local_hot := local_hot d @
            [\<lparr>lh_task = tid, lh_key = key, lh_value = v, lh_updated = MsZ now\<rparr>]\<rparr>))"

definition local_hot_get :: "string \<Rightarrow> string \<Rightarrow> db \<Rightarrow> json option" where
  "local_hot_get tid key d =
     map_option lh_value (select_one (\<lambda>r. lh_task r = tid \<and> lh_key r = key) (local_hot d))"

definition local_hot_clear :: "string \<Rightarrow> db \<Rightarrow> db" where
  "local_hot_clear tid d = d\<lparr>local_hot := delete_where (\<lambda>r. lh_task r = tid) (local_hot d)\<rparr>"

text \<open>A second artifact with the same content is not stored, but its fresh id is still
  what the caller gets.\<close>

definition insert_artifact :: "artifact \<Rightarrow> (db, unit) exec" where
  "insert_artifact a = (\<lambda>d.
     if exists_row (\<lambda>r. af_hash r = af_hash a) (artifacts d) then (Inr (), d)
     else if exists_row (\<lambda>r. af_id r = af_id a) (artifacts d)
     then (Inl (unique_failed ''artifacts.id''), d)
     else if af_task a \<notin> set (task_ids d) \<or> af_wakeup a \<notin> set (wakeup_ids d)
     then (Inl foreign_key_failed, d)
     else (Inr (), d\<lparr>artifacts := artifacts d @ [a]\<rparr>))"

definition artifacts_insert ::
    "(nat \<Rightarrow> string) \<Rightarrow> string \<Rightarrow> string \<Rightarrow> string \<Rightarrow> string \<Rightarrow> string \<Rightarrow> int option
     \<Rightarrow> (db, string) exec" where
  "artifacts_insert uuid tid wid kind hash uri nbytes =
     bnd (step (draw_uuid uuid)) (\<lambda>aid.
       seqn (insert_artifact
               \<lparr>af_id = aid, af_task = tid, af_wakeup = wid, af_kind = kind, af_hash = hash,
                af_uri = uri, af_size = nbytes\<rparr>)
         (ret aid))"

definition row_to_blob :: "blob_row \<Rightarrow> blob" where
  "row_to_blob r =
     \<lparr>blob_id = br_id r, blob_media_type = br_media_type r, blob_size = br_size r,
      blob_filename = br_filename r, blob_source = br_source r,
      blob_created = Some (stamp_time (br_created r))\<rparr>"

definition blobs_upsert :: "int \<Rightarrow> blob \<Rightarrow> db \<Rightarrow> db" where
  "blobs_upsert now b d =
     (if exists_row (\<lambda>r. br_id r = blob_id b) (blobs d) then d
      else d\<lparr>blobs := blobs d @
             [\<lparr>br_id = blob_id b, br_media_type = blob_media_type b, br_size = blob_size b,
               br_filename = blob_filename b, br_source = blob_source b,
               br_created = MsZ now\<rparr>]\<rparr>)"

definition blobs_get :: "string \<Rightarrow> db \<Rightarrow> blob option" where
  "blobs_get bid d = map_option row_to_blob (select_one (\<lambda>r. br_id r = bid) (blobs d))"

definition blobs_exists :: "string \<Rightarrow> db \<Rightarrow> bool" where
  "blobs_exists bid d \<longleftrightarrow> exists_row (\<lambda>r. br_id r = bid) (blobs d)"

text \<open>The dictionary \<open>by_id\<close> of the selected rows, read in the caller's order.\<close>

definition blobs_list_ids :: "string list \<Rightarrow> db \<Rightarrow> blob list" where
  "blobs_list_ids ids d =
     (if ids = [] then []
      else (let by_id = map_of (map (\<lambda>r. (br_id r, row_to_blob r))
                                  (filter (\<lambda>r. br_id r \<in> set ids) (blobs d)))
            in List.map_filter by_id ids))"

section \<open>Invariant\<close>

lemma create_group_ok: "db_ok d \<Longrightarrow> db_ok (snd (create_group now g d))"
  by (simp add: create_group_def group_row_of_def db_ok_defs key_defs list_all_iff)

lemma add_member_ok: "db_ok d \<Longrightarrow> db_ok (snd (add_member m d))"
  by (simp add: add_member_def db_ok_defs key_defs list_all_iff) force

lemma set_group_status_ok [simp]: "db_ok (snd (set_group_status now gid s g d)) \<longleftrightarrow> db_ok d"
  by (simp add: set_group_status_def upd_groups_def db_ok_update_groups)

lemma add_supervision_ok:
  "db_ok d \<Longrightarrow> \<forall>s \<in> set (supervision d). sv_agent s \<noteq> sv_agent x
   \<Longrightarrow> sv_agent x \<in> set (agent_ids d) \<Longrightarrow> db_ok (d\<lparr>supervision := supervision d @ [x]\<rparr>)"
  by (simp add: db_ok_defs key_defs list_all_iff) force

lemma bump_intensity_ok: "db_ok d \<Longrightarrow> db_ok (snd (bump_and_check_intensity a mr ms now re mt ct d))"
  by (auto simp: bump_and_check_intensity_def Let_def db_ok_update_supervision
      split: prod.splits intro!: add_supervision_ok)

lemma mark_escalated_ok: "db_ok d \<Longrightarrow> db_ok (snd (mark_escalated a now d))"
  by (auto simp: mark_escalated_def db_ok_update_supervision intro!: add_supervision_ok)

lemma keeps_fan_in [keeps_intros]:
  "keeps db_ok (create_group now g)" "keeps db_ok (add_member m)"
  "keeps db_ok (step (set_group_status now gid s gu))"
  "keeps db_ok (bump_and_check_intensity a mr ms tnow re mt ct)"
  "keeps db_ok (mark_escalated a tnow)"
  by (rule keepsI keeps_step; simp add: create_group_ok add_member_ok bump_intensity_ok
      mark_escalated_ok)+

lemma local_hot_update_ok:
  assumes "\<And>r. p r \<Longrightarrow> lh_task (f r) = lh_task r \<and> lh_key (f r) = lh_key r"
  shows "db_ok (d\<lparr>local_hot := update_where p f (local_hot d)\<rparr>) \<longleftrightarrow> db_ok d"
  using assms by (simp add: db_ok_defs key_defs row_simps)

lemma local_hot_put_ok: "db_ok d \<Longrightarrow> db_ok (snd (local_hot_put now t k v d))"
  by (simp add: local_hot_put_def local_hot_update_ok)
    (simp add: db_ok_defs key_defs list_all_iff, force)

lemma local_hot_clear_ok: "db_ok d \<Longrightarrow> db_ok (local_hot_clear t d)"
  by (simp add: local_hot_clear_def db_ok_defs key_defs list_all_iff distinct_delete_where)

lemma blobs_upsert_ok: "db_ok d \<Longrightarrow> db_ok (blobs_upsert now b d)"
  by (simp add: blobs_upsert_def db_ok_defs key_defs list_all_iff) force

lemma insert_artifact_ok: "db_ok d \<Longrightarrow> db_ok (snd (insert_artifact a d))"
  by (simp add: insert_artifact_def db_ok_defs key_defs list_all_iff) force

lemma keeps_artifacts_insert [keeps_intros]:
  "keeps db_ok (artifacts_insert uuid t w k h u n)"
  unfolding artifacts_insert_def
  by (intro keeps_intros keepsI [of db_ok "insert_artifact _"]) (rule insert_artifact_ok)

lemma keeps_small_tables [keeps_intros]:
  "keeps db_ok (local_hot_put now t k v)" "keeps db_ok (upd (local_hot_clear t))"
  "keeps db_ok (upd (blobs_upsert now b))"
  by (rule keepsI keeps_upd; simp add: local_hot_put_ok local_hot_clear_ok blobs_upsert_ok)+

section \<open>The barrier's status\<close>

text \<open>A guarded transition has one winner: of all schedulers that try to resolve a group,
  one flips it.\<close>

interpretation resolve_once: single_winner "set_group_status now gid GResolved (Some GOpen)"
  for now gid
  unfolding set_group_status_def by (rule single_winner_upd_groups) simp

definition group_at :: "string \<Rightarrow> db \<Rightarrow> group_row option" where
  "group_at gid d = select_one (\<lambda>r. gr_id r = gid) (groups d)"

lemma find_open_open:
  "g \<in> set (find_open limit c d) \<Longrightarrow>
     \<exists>r \<in> set (groups d). g = row_to_group r \<and> gr_status r = GOpen"
  using set_sql_limit [of limit "open_by_deadline d"]
  by (auto simp: find_open_def open_by_deadline_def Let_def split: option.splits)

text \<open>No open group older than the cutoff escapes, however many are open.\<close>

lemma find_open_ttl_complete:
  "r \<in> set (groups d) \<Longrightarrow> gr_status r = GOpen \<Longrightarrow> gr_created r < iso_db c \<Longrightarrow>
   row_to_group r \<in> set (find_open limit (Some c) d)"
  by (auto simp: find_open_def open_by_deadline_def Let_def)

section \<open>Blob order\<close>

lemma map_filter_ids:
  assumes "\<And>i b. f i = Some b \<Longrightarrow> g b = i"
  shows "map g (List.map_filter f ids) = filter (\<lambda>i. f i \<noteq> None) ids"
  by (induction ids) (use assms in \<open>auto simp: List.map_filter_simps split: option.splits\<close>)

end
