(* ===== verification/Sample.thy ===== *)
theory Sample
  imports Repo_FanIn
begin

text \<open>A small database the witnesses of the properties run on: the owner and the dispatcher,
  a spawned worker, and one pending task of the worker.\<close>

definition sample_agent :: "string \<Rightarrow> string option \<Rightarrow> dict option \<Rightarrow> agent_row" where
  "sample_agent aid parent meta =
     \<lparr>ar_id = aid, ar_persona = ''worker'', ar_status = AIdle, ar_parent = parent,
      ar_created = MsZ 0, ar_archived = None, ar_reason = None, ar_meta = meta\<rparr>"

definition sample_task :: "string \<Rightarrow> string \<Rightarrow> dict option \<Rightarrow> task_row" where
  "sample_task tid aid meta =
     \<lparr>tr_id = tid, tr_parent = None, tr_persona = ''worker'', tr_agent = Some aid,
      tr_goal = ''go'', tr_acceptance = ''done'', tr_status = TPending,
      tr_lease_duration = 1800, tr_lease_holder = None, tr_lease_until = None,
      tr_resume_ready = False, tr_checkpoint = None, tr_tier = None, tr_deadline = None,
      tr_meta = meta, tr_git = None, tr_created = MsZ 0, tr_updated = MsZ 0,
      tr_completed = None, tr_ckpt_updated = None\<rparr>"

definition sample_db :: db where
  "sample_db = empty_db
     \<lparr>agents := [sample_agent ''dispatcher'' None None,
                 sample_agent ''worker/a'' (Some ''dispatcher'') None],
      mailboxes := [\<lparr>mb_recipient = ''owner'', mb_meta = None\<rparr>],
      tasks := [sample_task ''t1'' ''worker/a'' None]\<rparr>"

definition sample_uuid :: "nat \<Rightarrow> string" where
  "sample_uuid n = ''id-'' @ digits_of n"

lemma sample_db_ok [simp]: "db_ok sample_db"
  by (simp add: sample_db_def empty_db_def db_ok_defs key_defs sample_agent_def sample_task_def)

lemma sample_row: "the_row sample_db ''t1'' = Some (sample_task ''t1'' ''worker/a'' None)"
  by (simp add: sample_db_def the_row_def select_one_def sample_task_def)

end
