(* ===== verification/Lease.thy ===== *)
theory Lease
  imports Sample
begin

text \<open>
  The lease of a task, as its holders use it: claim, renew, release, and the two writes
  that are fenced by the holder. The abstract specification is an owner automaton with
  two states; the statements of \<open>SqliteTaskRepository\<close> refine it, and no operation of
  another holder changes a task whose lease is held and has not run out.
\<close>

section \<open>The owner automaton\<close>

datatype lease = Free | Held (held_by: string) (held_until: int)

fun lease_claim :: "int \<Rightarrow> string \<Rightarrow> int \<Rightarrow> lease \<Rightarrow> bool \<times> lease" where
  "lease_claim now h n Free = (True, Held h (now + 1000 * n))"
| "lease_claim now h n (Held g u) =
     (if u < now then (True, Held h (now + 1000 * n)) else (False, Held g u))"

fun lease_renew :: "int \<Rightarrow> string \<Rightarrow> int \<Rightarrow> lease \<Rightarrow> bool \<times> lease" where
  "lease_renew now h n Free = (False, Free)"
| "lease_renew now h n (Held g u) =
     (if g = h then (True, Held h (now + 1000 * n)) else (False, Held g u))"

fun lease_release :: "string \<Rightarrow> lease \<Rightarrow> lease" where
  "lease_release h Free = Free"
| "lease_release h (Held g u) = (if g = h then Free else Held g u)"

text \<open>The lease columns of a row; both are set or neither is, in milliseconds.\<close>

definition lease_wf :: "task_row \<Rightarrow> bool" where
  "lease_wf r \<longleftrightarrow>
     (case (tr_lease_holder r, tr_lease_until r) of
        (None, None) \<Rightarrow> True | (Some h, Some (MsZ u)) \<Rightarrow> True | _ \<Rightarrow> False)"

definition leases_wf :: "db \<Rightarrow> bool" where
  "leases_wf d \<longleftrightarrow> list_all lease_wf (tasks d)"

definition lease_of :: "task_row \<Rightarrow> lease" where
  "lease_of r =
     (case (tr_lease_holder r, tr_lease_until r) of
        (Some h, Some (MsZ u)) \<Rightarrow> Held h u | _ \<Rightarrow> Free)"

definition task_lease :: "db \<Rightarrow> string \<Rightarrow> lease option" where
  "task_lease d tid = map_option lease_of (the_row d tid)"

lemma lease_wf_cases:
  assumes "lease_wf r"
  obtains (free) "tr_lease_holder r = None" "tr_lease_until r = None" "lease_of r = Free"
    | (held) h u where "tr_lease_holder r = Some h" "tr_lease_until r = Some (MsZ u)"
        "lease_of r = Held h u"
  using assms by (auto simp: lease_wf_def lease_of_def split: option.splits stamp.splits)

lemma leases_wf_row: "leases_wf d \<Longrightarrow> the_row d tid = Some r \<Longrightarrow> lease_wf r"
  using the_row_id [of d tid r] by (simp add: leases_wf_def list_all_iff)

lemma leases_wf_upd:
  assumes "leases_wf d" "\<And>r. p r \<Longrightarrow> lease_wf r \<Longrightarrow> lease_wf (f r)"
  shows "leases_wf (snd (upd_tasks p f d))"
  using assms by (auto simp: leases_wf_def list_all_iff upd_tasks_def elim!: update_where_cases)

section \<open>Operations of the holders\<close>

text \<open>An operation of a lease holder on one task, and what the repository does with it.\<close>

datatype lease_op =
    OpClaim int
  | OpRenew int
  | OpRelease
  | OpStatus task_status
  | OpCheckpoint dict

fun run_op :: "string \<Rightarrow> int \<times> string \<times> lease_op \<Rightarrow> db \<Rightarrow> db" where
  "run_op tid (now, h, OpClaim n) d = snd (claim_lease now tid h n d)"
| "run_op tid (now, h, OpRenew n) d = snd (renew_lease now tid h n d)"
| "run_op tid (now, h, OpRelease) d = release_lease now tid h d"
| "run_op tid (now, h, OpStatus s) d = snd (update_status now tid s (Some h) d)"
| "run_op tid (now, h, OpCheckpoint c) d = update_checkpoint now tid c h d"

definition run_ops :: "string \<Rightarrow> (int \<times> string \<times> lease_op) list \<Rightarrow> db \<Rightarrow> db" where
  "run_ops tid ops d = fold (run_op tid) ops d"

fun op_accepted :: "string \<Rightarrow> int \<times> string \<times> lease_op \<Rightarrow> db \<Rightarrow> bool" where
  "op_accepted tid (now, h, OpClaim n) d = fst (claim_lease now tid h n d)"
| "op_accepted tid (now, h, OpRenew n) d = fst (renew_lease now tid h n d)"
| "op_accepted tid (now, h, OpStatus s) d = fst (update_status now tid s (Some h) d)"
| "op_accepted tid (now, h, OpRelease) d =
     (case the_row d tid of None \<Rightarrow> False | Some r \<Rightarrow> tr_lease_holder r = Some h)"
| "op_accepted tid (now, h, OpCheckpoint c) d =
     (case the_row d tid of None \<Rightarrow> False | Some r \<Rightarrow> tr_lease_holder r = Some h)"

lemmas lease_op_defs = claim_lease_def renew_lease_def release_lease_def update_status_def
  update_checkpoint_def

lemma run_op_ok [simp]: "db_ok (run_op tid o' d) \<longleftrightarrow> db_ok d"
  by (cases "(tid, o', d)" rule: run_op.cases) simp_all

lemma run_ops_ok [simp]: "db_ok (run_ops tid ops d) \<longleftrightarrow> db_ok d"
  unfolding run_ops_def by (induction ops arbitrary: d) simp_all

lemma run_op_wf: "leases_wf d \<Longrightarrow> leases_wf (run_op tid o' d)"
  by (cases "(tid, o', d)" rule: run_op.cases)
    (auto simp: lease_op_defs lease_wf_def intro!: leases_wf_upd split: option.splits)

lemma run_ops_wf: "leases_wf d \<Longrightarrow> leases_wf (run_ops tid ops d)"
  unfolding run_ops_def by (induction ops arbitrary: d) (simp_all add: run_op_wf)

text \<open>An operation on a task leaves every other task alone.\<close>

lemma run_op_other: "tid' \<noteq> tid \<Longrightarrow> the_row (run_op tid o' d) tid' = the_row d tid'"
  by (cases "(tid, o', d)" rule: run_op.cases)
    (auto simp: lease_op_defs the_row_upd option.map_ident_strong dest: the_row_id
      intro!: option.map_ident_strong)

text \<open>An operation of anybody but the holder, before the lease has run out, changes
  nothing and is refused.\<close>

definition holds :: "string \<Rightarrow> int \<Rightarrow> task_row \<Rightarrow> bool" where
  "holds h u r \<longleftrightarrow> tr_lease_holder r = Some h \<and> tr_lease_until r = Some (MsZ u)"

lemma run_op_stranger:
  assumes "the_row d tid = Some r" "holds h u r" "h' \<noteq> h" "now \<le> u"
  shows "the_row (run_op tid (now, h', op) d) tid = Some r"
  by (cases op) (use assms in \<open>simp_all add: lease_op_defs the_row_upd holds_def lease_free_def\<close>)

lemma stranger_refused:
  assumes "db_ok d" "the_row d tid = Some r" "holds h u r" "h' \<noteq> h" "now \<le> u"
  shows "\<not> op_accepted tid (now, h', op) d"
  by (cases op) (use assms in \<open>simp_all add: lease_op_defs fst_upd_row holds_def lease_free_def
      del: fst_upd_tasks\<close>)

lemma run_ops_strangers:
  assumes "the_row d tid = Some r" "holds h u r"
    and "\<forall>(now, h', op) \<in> set ops. h' \<noteq> h \<and> now \<le> u"
  shows "the_row (run_ops tid ops d) tid = Some r"
  using assms(1,3)
proof (induction ops arbitrary: d)
  case Nil
  then show ?case by (simp add: run_ops_def)
next
  case (Cons o' ops)
  obtain now h' op where o': "o' = (now, h', op)" by (cases o') auto
  have "the_row (run_op tid o' d) tid = Some r"
    using Cons.prems assms(2) by (auto simp: o' intro: run_op_stranger)
  with Cons show ?case by (simp add: run_ops_def)
qed

lemma claim_holds:
  assumes "db_ok d" "fst (claim_lease now tid h n d)"
  obtains r where "the_row (snd (claim_lease now tid h n d)) tid = Some r"
    "holds h (now + 1000 * n) r" "tr_status r = TInProgress"
proof -
  obtain r where "the_row d tid = Some r" "lease_free now r"
    using assms unfolding claim_lease_def
    by (auto simp: fst_upd_row simp del: fst_upd_tasks split: option.splits)
  then show thesis
    using the_row_id [of d tid r]
    by (intro that [of "r\<lparr>tr_lease_holder := Some h,
              tr_lease_until := Some (MsZ (now + 1000 * n)),
              tr_status := TInProgress, tr_updated := MsZ now\<rparr>"])
      (simp_all add: claim_lease_def the_row_upd holds_def)
qed

section \<open>Properties\<close>

text \<open>C1: A lease is exclusive. Once a holder has claimed a task, no sequence of claims,
  renewals, releases, status writes and checkpoint writes of other holders, made while the
  lease runs, changes anything of the task: it stays in progress under the same holder.\<close>

theorem lease_exclusive:
  assumes "db_ok d" "fst (claim_lease t tid h n d)"
    and "\<forall>(now, h', op) \<in> set ops. h' \<noteq> h \<and> now \<le> t + 1000 * n"
  shows "the_row (run_ops tid ops (snd (claim_lease t tid h n d))) tid
       = the_row (snd (claim_lease t tid h n d)) tid
     \<and> (\<exists>r. the_row (run_ops tid ops (snd (claim_lease t tid h n d))) tid = Some r
          \<and> tr_lease_holder r = Some h \<and> tr_status r = TInProgress)"
proof -
  obtain r where r: "the_row (snd (claim_lease t tid h n d)) tid = Some r"
    "holds h (t + 1000 * n) r" "tr_status r = TInProgress"
    using claim_holds [OF assms(1,2)] .
  from run_ops_strangers [OF r(1,2) assms(3)] r show ?thesis by (simp add: holds_def)
qed

text \<open>A second process that tries everything within the lease of the first.\<close>

lemma lease_exclusive_witness:
  "the_row (run_ops ''t1'' [(5, ''w2'', OpClaim 10), (6, ''w2'', OpStatus TFailed), (7, ''w2'', OpRelease)]
      (snd (claim_lease 0 ''t1'' ''w1'' 60 sample_db))) ''t1''
   = the_row (snd (claim_lease 0 ''t1'' ''w1'' 60 sample_db)) ''t1''"
proof -
  have "fst (claim_lease 0 ''t1'' ''w1'' 60 sample_db)"
    by (simp add: claim_lease_def sample_db_def sample_task_def lease_free_def)
  from lease_exclusive [OF sample_db_ok this,
      of "[(5, ''w2'', OpClaim 10), (6, ''w2'', OpStatus TFailed), (7, ''w2'', OpRelease)]"]
  show ?thesis by simp
qed

text \<open>Fencing. A holder whose lease ran out and was claimed by another process cannot
  write any more: while the new lease runs, its renewal, release, status and checkpoint
  writes are refused and leave the task as the new holder has it.\<close>

theorem stale_holder_fenced:
  assumes "db_ok d" "fst (claim_lease t tid new n d)" "old \<noteq> new" "now \<le> t + 1000 * n"
  shows "\<not> op_accepted tid (now, old, op) (snd (claim_lease t tid new n d))
     \<and> the_row (run_op tid (now, old, op) (snd (claim_lease t tid new n d))) tid
       = the_row (snd (claim_lease t tid new n d)) tid"
proof -
  obtain r where r: "the_row (snd (claim_lease t tid new n d)) tid = Some r"
    "holds new (t + 1000 * n) r"
    using claim_holds [OF assms(1,2)] .
  have ok: "db_ok (snd (claim_lease t tid new n d))" using assms(1) by simp
  show ?thesis
    using stranger_refused [OF ok r assms(3,4)] run_op_stranger [OF r assms(3,4)] r(1) by simp
qed

lemma stale_holder_fenced_witness:
  "fst (claim_lease 0 ''t1'' ''w1'' 1 sample_db)
   \<and> \<not> op_accepted ''t1'' (2000, ''w1'', OpStatus TCompleted)
        (snd (claim_lease 1500 ''t1'' ''w2'' 60 (snd (claim_lease 0 ''t1'' ''w1'' 1 sample_db))))"
proof -
  let ?d = "snd (claim_lease 0 ''t1'' ''w1'' 1 sample_db)"
  have one: "fst (claim_lease 0 ''t1'' ''w1'' 1 sample_db)"
    by (simp add: claim_lease_def sample_db_def sample_task_def lease_free_def)
  have "fst (claim_lease 1500 ''t1'' ''w2'' 60 ?d)"
    by (simp add: claim_lease_def sample_db_def sample_task_def lease_free_def upd_tasks_def
        update_where_def)
  moreover have "db_ok ?d" by simp
  ultimately show ?thesis
    using one stale_holder_fenced [of ?d 1500 "''t1''" "''w2''" 60 "''w1''" 2000 "OpStatus TCompleted"]
    by simp
qed

text \<open>C2: The lease columns refine the owner automaton: claim, renew and release report and
  do what the automaton says, for every task whose lease columns are well formed.\<close>

theorem lease_refines:
  assumes "db_ok d" "leases_wf d" "task_lease d tid = Some l"
  shows "fst (claim_lease now tid h n d) = fst (lease_claim now h n l)
     \<and> task_lease (snd (claim_lease now tid h n d)) tid = Some (snd (lease_claim now h n l))
     \<and> fst (renew_lease now tid h n d) = fst (lease_renew now h n l)
     \<and> task_lease (snd (renew_lease now tid h n d)) tid = Some (snd (lease_renew now h n l))
     \<and> task_lease (release_lease now tid h d) tid = Some (lease_release h l)"
proof -
  obtain r where r: "the_row d tid = Some r" and l: "l = lease_of r"
    using assms(3) by (auto simp: task_lease_def)
  have id: "tr_id r = tid" using the_row_id [OF r] by simp
  from leases_wf_row [OF assms(2) r] show ?thesis
  proof (cases rule: lease_wf_cases)
    case free
    then show ?thesis
      by (simp add: l r id lease_op_defs task_lease_def fst_upd_row [OF assms(1)] the_row_upd
          lease_free_def del: fst_upd_tasks) (simp add: lease_of_def)
  next
    case (held g u)
    then show ?thesis
      by (simp add: l r id lease_op_defs task_lease_def fst_upd_row [OF assms(1)] the_row_upd
          lease_free_def del: fst_upd_tasks) (simp add: lease_of_def)
  qed
qed

lemma lease_refines_witness:
  "task_lease (snd (claim_lease 7 ''t1'' ''w1'' 60 sample_db)) ''t1'' = Some (Held ''w1'' 60007)"
proof -
  have l: "task_lease sample_db ''t1'' = Some Free"
    by (simp add: task_lease_def sample_row lease_of_def sample_task_def)
  have "leases_wf sample_db"
    by (simp add: leases_wf_def sample_db_def sample_task_def lease_wf_def)
  from lease_refines [OF sample_db_ok this l, of 7 "''w1''" 60] show ?thesis by simp
qed

end
