(* ===== verification/Maintenance.thy ===== *)
theory Maintenance
  imports Repo_FanIn
begin

text \<open>
  \<open>persistence/maintenance.py\<close>: the retention run. Old delivered outbox rows, old ended
  wakeups beyond the newest of each agent, old terminal scheduled mails and old closed
  fan-in groups are deleted; mails, tasks, agents, blobs and artifacts never are.
\<close>

section \<open>The statements\<close>

record maintenance_counts =
  mc_outbox :: nat
  mc_wakeups :: nat
  mc_scheduled :: nat
  mc_groups :: nat

definition age_cutoff :: "int \<Rightarrow> int \<Rightarrow> stamp" where
  "age_cutoff now days = MsZ (now - days * 86400000)"

definition before :: "stamp option \<Rightarrow> stamp \<Rightarrow> bool" where
  "before s cutoff \<longleftrightarrow> (case s of None \<Rightarrow> False | Some t \<Rightarrow> t < cutoff)"

definition prunable_outbox :: "stamp \<Rightarrow> outbox_rec \<Rightarrow> bool" where
  "prunable_outbox cutoff r \<longleftrightarrow> before (xr_dispatched r) cutoff"

text \<open>\<open>ROW_NUMBER() OVER (PARTITION BY agent_id ORDER BY started_at DESC)\<close> over the ended
  wakeups: the ended wakeups of one agent, newest first (ties in rowid order), and the rows
  numbered above \<open>keep\<close>.\<close>

definition newest_first :: "wakeup_row list \<Rightarrow> wakeup_row list" where
  "newest_first ws = rev (sort_key wr_started (rev ws))"

definition ended_of :: "db \<Rightarrow> string option \<Rightarrow> wakeup_row list" where
  "ended_of d a = filter (\<lambda>r. wr_agent r = a \<and> wr_ended r \<noteq> None) (wakeups d)"

definition beyond_newest :: "nat \<Rightarrow> db \<Rightarrow> string option \<Rightarrow> string list" where
  "beyond_newest keep d a = map wr_id (drop keep (newest_first (ended_of d a)))"

definition prunable_wakeup :: "stamp \<Rightarrow> nat \<Rightarrow> db \<Rightarrow> wakeup_row \<Rightarrow> bool" where
  "prunable_wakeup cutoff keep d r \<longleftrightarrow>
     before (wr_ended r) cutoff
     \<and> \<not> exists_row (\<lambda>x. xr_wakeup x = Some (wr_id r)) (outbox d)
     \<and> wr_id r \<in> set (beyond_newest keep d (wr_agent r))"

definition prunable_scheduled :: "stamp \<Rightarrow> sched_row \<Rightarrow> bool" where
  "prunable_scheduled cutoff r \<longleftrightarrow>
     sr_status r \<in> {SCompleted, SCancelled, SBounced} \<and> sr_created r < cutoff"

definition prunable_group :: "stamp \<Rightarrow> group_row \<Rightarrow> bool" where
  "prunable_group cutoff r \<longleftrightarrow>
     gr_status r \<in> {GExpired, GCancelled, GResolved, GQuorumMet} \<and> gr_created r < cutoff"

definition prune_outbox :: "stamp \<Rightarrow> db \<Rightarrow> nat \<times> db" where
  "prune_outbox cutoff d =
     (row_count (prunable_outbox cutoff) (outbox d),
      d\<lparr>outbox := delete_where (prunable_outbox cutoff) (outbox d)\<rparr>)"

text \<open>Deleting a wakeup that an artifact names violates a foreign key: the statement fails
  as a whole.\<close>

definition prune_wakeups :: "stamp \<Rightarrow> nat \<Rightarrow> (db, nat) exec" where
  "prune_wakeups cutoff keep = (\<lambda>d.
     if exists_row (\<lambda>r. prunable_wakeup cutoff keep d r
          \<and> exists_row (\<lambda>a. af_wakeup a = wr_id r) (artifacts d)) (wakeups d)
     then (Inl foreign_key_failed, d)
     else (Inr (row_count (prunable_wakeup cutoff keep d) (wakeups d)),
           d\<lparr>wakeups := delete_where (prunable_wakeup cutoff keep d) (wakeups d)\<rparr>))"

definition prune_scheduled :: "stamp \<Rightarrow> db \<Rightarrow> nat \<times> db" where
  "prune_scheduled cutoff d =
     (row_count (prunable_scheduled cutoff) (scheduled d),
      d\<lparr>scheduled := delete_where (prunable_scheduled cutoff) (scheduled d)\<rparr>)"

definition prune_members :: "stamp \<Rightarrow> db \<Rightarrow> db" where
  "prune_members cutoff d =
     d\<lparr>members := delete_where
         (\<lambda>m. exists_row (\<lambda>g. gr_id g = fm_group m \<and> prunable_group cutoff g) (groups d))
         (members d)\<rparr>"

definition prune_groups :: "stamp \<Rightarrow> db \<Rightarrow> nat \<times> db" where
  "prune_groups cutoff d =
     (row_count (prunable_group cutoff) (groups d),
      d\<lparr>groups := delete_where (prunable_group cutoff) (groups d)\<rparr>)"

definition run_maintenance :: "int \<Rightarrow> int \<Rightarrow> nat \<Rightarrow> (db, maintenance_counts) exec" where
  "run_maintenance now retention_days keep =
     (if retention_days \<le> 0
      then ret \<lparr>mc_outbox = 0, mc_wakeups = 0, mc_scheduled = 0, mc_groups = 0\<rparr>
      else (let cutoff = age_cutoff now retention_days in
        bnd (step (prune_outbox cutoff)) (\<lambda>a.
        bnd (prune_wakeups cutoff keep) (\<lambda>b.
        bnd (step (prune_scheduled cutoff)) (\<lambda>c.
        bnd (step (\<lambda>d. prune_groups cutoff (prune_members cutoff d))) (\<lambda>e.
        ret \<lparr>mc_outbox = a, mc_wakeups = b, mc_scheduled = c, mc_groups = e\<rparr>))))))"

section \<open>Invariant\<close>

lemma prune_outbox_ok: "db_ok d \<Longrightarrow> db_ok (snd (prune_outbox cutoff d))"
  by (simp add: prune_outbox_def delete_where_def db_ok_defs key_defs list_all_iff
      distinct_map_filter sorted_wrt_map sorted_wrt_filter)

lemma delete_wakeups_ok:
  assumes ok: "db_ok d"
    and x: "\<And>x w. x \<in> set (outbox d) \<Longrightarrow> w \<in> set (wakeups d) \<Longrightarrow> p w \<Longrightarrow> xr_wakeup x \<noteq> Some (wr_id w)"
    and a: "\<And>a w. a \<in> set (artifacts d) \<Longrightarrow> w \<in> set (wakeups d) \<Longrightarrow> p w \<Longrightarrow> af_wakeup a \<noteq> wr_id w"
  shows "db_ok (d\<lparr>wakeups := delete_where p (wakeups d)\<rparr>)"
proof -
  have ox: "fk (xr_wakeup x) (map wr_id (delete_where p (wakeups d)))"
    if "x \<in> set (outbox d)" "fk (xr_wakeup x) (map wr_id (wakeups d))" for x
    using that assms(2) [OF that(1)] by (cases "xr_wakeup x") auto
  have ax: "af_wakeup y \<in> wr_id ` {w \<in> set (wakeups d). \<not> p w}"
    if "y \<in> set (artifacts d)" "af_wakeup y \<in> wr_id ` set (wakeups d)" for y
    using that a [OF that(1)] by auto
  show ?thesis
    using ok ox ax by (simp add: db_ok_defs key_defs list_all_iff distinct_delete_where)
qed

lemma prune_wakeups_ok: "db_ok d \<Longrightarrow> db_ok (snd (prune_wakeups cutoff keep d))"
  unfolding prune_wakeups_def
  by (auto intro!: delete_wakeups_ok simp: prunable_wakeup_def)

lemma prune_scheduled_ok: "db_ok d \<Longrightarrow> db_ok (snd (prune_scheduled cutoff d))"
  by (simp add: prune_scheduled_def delete_where_def db_ok_defs key_defs list_all_iff
      sorted_wrt_map sorted_wrt_filter)

lemma prune_groups_ok:
  assumes ok: "db_ok d"
  shows "db_ok (snd (prune_groups cutoff (prune_members cutoff d)))"
proof -
  have m: "fm_group m \<in> gr_id ` {g \<in> set (groups d). \<not> prunable_group cutoff g}"
    if "m \<in> set (members d)" "\<forall>g \<in> set (groups d). gr_id g = fm_group m \<longrightarrow> \<not> prunable_group cutoff g"
      "fm_group m \<in> gr_id ` set (groups d)" for m
    using that by auto
  show ?thesis
    using ok m by (simp add: prune_groups_def prune_members_def db_ok_defs key_defs list_all_iff
        distinct_delete_where)
qed

lemma keeps_run_maintenance [keeps_intros]: "keeps db_ok (run_maintenance now days keep)"
  unfolding run_maintenance_def Let_def
  by (intro keeps_if keeps_bnd keeps_ret keeps_step keepsI [of _ "prune_wakeups _ _"])
    (auto intro: prune_outbox_ok prune_wakeups_ok prune_scheduled_ok prune_groups_ok)

section \<open>What is never deleted\<close>

text \<open>The tables a run does not write.\<close>

definition same_kept_tables :: "db \<Rightarrow> db \<Rightarrow> bool" where
  "same_kept_tables d d' \<longleftrightarrow>
     messages d' = messages d \<and> tasks d' = tasks d \<and> agents d' = agents d
     \<and> mailboxes d' = mailboxes d \<and> reactions d' = reactions d \<and> blobs d' = blobs d
     \<and> artifacts d' = artifacts d \<and> supervision d' = supervision d
     \<and> local_hot d' = local_hot d"

lemmas prune_defs = prune_outbox_def prune_wakeups_def prune_scheduled_def prune_members_def
  prune_groups_def

lemma run_maintenance_keeps: "keeps (same_kept_tables d0) (run_maintenance now days keep)"
  unfolding run_maintenance_def Let_def
  by (intro keeps_if keeps_bnd keeps_ret keeps_step keepsI [of _ "prune_wakeups _ _"])
    (simp_all add: prune_defs same_kept_tables_def)

text \<open>Work that is still owed survives: undelivered outbox rows, open wakeups, pending and
  quarantined mails, open groups.\<close>

definition owed_kept :: "db \<Rightarrow> db \<Rightarrow> bool" where
  "owed_kept d d' \<longleftrightarrow>
     filter (\<lambda>r. xr_dispatched r = None) (outbox d') = filter (\<lambda>r. xr_dispatched r = None) (outbox d)
     \<and> filter (\<lambda>r. wr_ended r = None) (wakeups d') = filter (\<lambda>r. wr_ended r = None) (wakeups d)
     \<and> filter (\<lambda>r. sr_status r \<in> {SPending, SQuarantined}) (scheduled d')
         = filter (\<lambda>r. sr_status r \<in> {SPending, SQuarantined}) (scheduled d)
     \<and> filter (\<lambda>r. gr_status r = GOpen) (groups d') = filter (\<lambda>r. gr_status r = GOpen) (groups d)"

lemma filter_delete_where:
  "(\<And>x. x \<in> set xs \<Longrightarrow> q x \<Longrightarrow> \<not> p x) \<Longrightarrow> filter q (delete_where p xs) = filter q xs"
  unfolding delete_where_def by (induction xs) auto

lemma prune_keeps_owed:
  "filter (\<lambda>r. xr_dispatched r = None) (delete_where (prunable_outbox c) os)
     = filter (\<lambda>r. xr_dispatched r = None) os"
  "filter (\<lambda>r. wr_ended r = None) (delete_where (prunable_wakeup c keep d) ws)
     = filter (\<lambda>r. wr_ended r = None) ws"
  "filter (\<lambda>r. sr_status r = SPending \<or> sr_status r = SQuarantined)
       (delete_where (prunable_scheduled c) ss)
     = filter (\<lambda>r. sr_status r = SPending \<or> sr_status r = SQuarantined) ss"
  "filter (\<lambda>r. gr_status r = GOpen) (delete_where (prunable_group c) gs)
     = filter (\<lambda>r. gr_status r = GOpen) gs"
  by (rule filter_delete_where; auto simp: before_def prunable_outbox_def prunable_wakeup_def
      prunable_scheduled_def prunable_group_def)+

lemma run_maintenance_owed: "keeps (owed_kept d0) (run_maintenance now days keep)"
  unfolding run_maintenance_def Let_def
  by (intro keeps_if keeps_bnd keeps_ret keeps_step keepsI [of _ "prune_wakeups _ _"])
    (simp_all add: prune_defs owed_kept_def prune_keeps_owed)

section \<open>The newest wakeups of an agent\<close>

lemma set_newest_first [simp]: "set (newest_first ws) = set ws"
  by (simp add: newest_first_def)

lemma length_newest_first [simp]: "length (newest_first ws) = length ws"
  by (simp add: newest_first_def)

lemma newest_first_sorted: "sorted_wrt (\<lambda>a b. wr_started b \<le> wr_started a) (newest_first ws)"
  unfolding newest_first_def sorted_wrt_rev
  using sorted_sort_key [of wr_started "rev ws"] by (simp add: sorted_map)

text \<open>The first \<open>keep\<close> ended wakeups of each agent, newest first, are not prunable.\<close>

lemma newest_not_prunable:
  assumes ok: "db_ok d" and w: "w \<in> set (take keep (newest_first (ended_of d a)))"
  shows "\<not> prunable_wakeup cutoff keep d w"
proof -
  let ?l = "newest_first (ended_of d a)"
  from w have "w \<in> set ?l" by (rule in_set_takeD)
  then have wa: "wr_agent w = a" and wd: "w \<in> set (wakeups d)"
    by (auto simp: ended_of_def)
  have "distinct (map wr_id (wakeups d))" using ok by (simp add: db_ok_def wakeups_ok_def wakeup_ids_def)
  then have "distinct (map wr_id (ended_of d a))"
    by (simp add: ended_of_def distinct_map_filter)
  then have dl: "distinct (map wr_id ?l)"
    by (simp add: newest_first_def rev_map [symmetric] distinct_map)
  have "set (take keep (map wr_id ?l)) \<inter> set (drop keep (map wr_id ?l)) = {}"
    using dl by (rule set_take_disj_set_drop_if_distinct) simp
  with w have "wr_id w \<notin> set (drop keep (map wr_id ?l))"
    by (auto simp: take_map)
  then show ?thesis
    using wa by (simp add: prunable_wakeup_def beyond_newest_def drop_map)
qed

end
