(* ===== verification/Identity.thy ===== *)
theory Identity
  imports Py_Str
begin

text \<open>
  \<open>runtime/identity.py\<close>: the grammar of agent ids, their split into persona and name, and
  the flat form that names the files of an agent.
\<close>

section \<open>The grammar\<close>

definition is_lower :: "char \<Rightarrow> bool" where
  "is_lower c \<longleftrightarrow> (let n = (of_char c :: nat) in 97 \<le> n \<and> n \<le> 122)"

text \<open>The classes \<open>[a-z0-9-]\<close> and \<open>[a-z0-9]\<close>.\<close>

definition id_char :: "char \<Rightarrow> bool" where
  "id_char c \<longleftrightarrow> is_lower c \<or> is_digit c \<or> c = CHR ''-''"

definition name_start :: "char \<Rightarrow> bool" where
  "name_start c \<longleftrightarrow> is_lower c \<or> is_digit c"

definition is_valid_agent_id :: "string \<Rightarrow> bool" where
  "is_valid_agent_id s =
     (case s of
        [] \<Rightarrow> False
      | c # cs \<Rightarrow> is_lower c \<and>
          (case dropWhile id_char cs of
             [] \<Rightarrow> True
           | [x] \<Rightarrow> False
           | x # n # ns \<Rightarrow> x = CHR ''/'' \<and> name_start n \<and> list_all id_char ns))"

definition is_bare_id :: "string \<Rightarrow> bool" where
  "is_bare_id s \<longleftrightarrow> CHR ''/'' \<notin> set s"

definition split_id :: "string \<Rightarrow> string \<times> string option" where
  "split_id s =
     (if CHR ''/'' \<in> set s
      then (takeWhile (\<lambda>c. c \<noteq> CHR ''/'') s, Some (tl (dropWhile (\<lambda>c. c \<noteq> CHR ''/'') s)))
      else (s, None))"

definition compose_id :: "string \<Rightarrow> string option \<Rightarrow> string" where
  "compose_id persona name =
     (case name of None \<Rightarrow> persona | Some [] \<Rightarrow> persona | Some (c # cs) \<Rightarrow> persona @ ''/'' @ c # cs)"

definition flat_id :: "string \<Rightarrow> string" where
  "flat_id s = map (\<lambda>c. if c = CHR ''/'' then CHR ''-'' else c) s"

definition agent_notes_rel_path :: "string \<Rightarrow> string" where
  "agent_notes_rel_path s = ''facts/agent-'' @ flat_id s @ ''-notes.md''"

definition persona_re :: string where
  "persona_re = ''[a-z][a-z0-9-]*''"

definition validate_agent_id :: "string \<Rightarrow> exn + unit" where
  "validate_agent_id s =
     (if is_valid_agent_id s then Inr ()
      else Inl (value_error (''invalid agent_id '' @ py_repr s @
             '': must be a bare lowercase token or ``persona/name`` with each segment matching '' @
             py_repr persona_re @ ''.'')))"

section \<open>The segments of a valid id\<close>

definition persona_seg :: "string \<Rightarrow> bool" where
  "persona_seg s \<longleftrightarrow> (case s of [] \<Rightarrow> False | c # cs \<Rightarrow> is_lower c \<and> list_all id_char cs)"

definition name_seg :: "string \<Rightarrow> bool" where
  "name_seg s \<longleftrightarrow> (case s of [] \<Rightarrow> False | c # cs \<Rightarrow> name_start c \<and> list_all id_char cs)"

lemma slash_class [simp]: "\<not> id_char CHR ''/''" "\<not> is_lower CHR ''/''" "\<not> name_start CHR ''/''"
  by (simp_all add: id_char_def is_lower_def name_start_def is_digit_def)

lemma name_start_id_char: "name_start c \<Longrightarrow> id_char c"
  by (auto simp: name_start_def id_char_def)

lemma is_lower_id_char: "is_lower c \<Longrightarrow> id_char c"
  by (simp add: id_char_def)

lemma list_all_id_no_slash: "list_all id_char s \<Longrightarrow> CHR ''/'' \<notin> set s"
  by (auto simp: list_all_iff)

lemma persona_seg_ids: "persona_seg p \<Longrightarrow> p \<noteq> [] \<and> list_all id_char p"
  by (auto simp: persona_seg_def is_lower_id_char split: list.splits)

lemma name_seg_ids: "name_seg n \<Longrightarrow> n \<noteq> [] \<and> list_all id_char n"
  by (auto simp: name_seg_def name_start_id_char split: list.splits)

lemma dropWhile_ids: "list_all id_char p \<Longrightarrow> dropWhile id_char (p @ CHR ''/'' # n) = CHR ''/'' # n"
  by (induction p) simp_all

lemma dropWhile_ids_all: "list_all id_char p \<Longrightarrow> dropWhile id_char p = []"
  by (simp add: list_all_iff)

lemma valid_bare: "persona_seg p \<Longrightarrow> is_valid_agent_id p"
  by (auto simp: persona_seg_def is_valid_agent_id_def dropWhile_ids_all split: list.splits)

lemma valid_spawned: "persona_seg p \<Longrightarrow> name_seg n \<Longrightarrow> is_valid_agent_id (p @ ''/'' @ n)"
  by (auto simp: persona_seg_def name_seg_def is_valid_agent_id_def dropWhile_ids
      split: list.splits)

lemma split_id_slash: "CHR ''/'' \<notin> set p \<Longrightarrow> split_id (p @ ''/'' @ n) = (p, Some n)"
  unfolding split_id_def by (induction p) auto

lemma split_id_bare: "CHR ''/'' \<notin> set p \<Longrightarrow> split_id p = (p, None)"
  by (simp add: split_id_def)

lemma valid_cases:
  assumes "is_valid_agent_id s"
  obtains (bare) "persona_seg s"
    | (spawned) p n where "s = p @ ''/'' @ n" "persona_seg p" "name_seg n"
proof -
  obtain c cs where s: "s = c # cs" and c: "is_lower c"
    using assms by (auto simp: is_valid_agent_id_def split: list.splits)
  define p where "p = takeWhile id_char cs"
  define q where "q = dropWhile id_char cs"
  have pq: "cs = p @ q" and p: "list_all id_char p"
    by (simp_all add: p_def q_def list_all_iff) (meson set_takeWhileD)
  show thesis
  proof (cases q)
    case Nil
    with s c pq p show ?thesis by (intro bare) (simp add: persona_seg_def)
  next
    case (Cons x xs)
    with assms s have "x = CHR ''/'' \<and> name_seg xs"
      by (auto simp: is_valid_agent_id_def q_def [symmetric] name_seg_def split: list.splits)
    with s c pq p Cons show ?thesis
      by (intro spawned [of "c # p" xs]) (simp_all add: persona_seg_def)
  qed
qed

lemma valid_round_trip:
  assumes "is_valid_agent_id s"
  shows "compose_id (fst (split_id s)) (snd (split_id s)) = s
     \<and> persona_seg (fst (split_id s)) \<and> pred_option name_seg (snd (split_id s))"
  using assms
proof (cases s rule: valid_cases)
  case bare
  then have "CHR ''/'' \<notin> set s" by (auto dest: persona_seg_ids list_all_id_no_slash)
  with bare show ?thesis by (simp add: split_id_bare compose_id_def)
next
  case (spawned p n)
  then have "CHR ''/'' \<notin> set p" by (auto dest: persona_seg_ids list_all_id_no_slash)
  then have sp: "split_id s = (p, Some n)" using spawned(1) split_id_slash by simp
  obtain c cs where "n = c # cs" using name_seg_ids [OF spawned(3)] by (cases n) auto
  with sp spawned show ?thesis by (simp add: compose_id_def)
qed

section \<open>Properties\<close>

text \<open>C3: Splitting and composing are inverse. A valid id is put together again from its
  parts, its persona part satisfies the persona grammar and its name part, if it has one, the
  name grammar; and every persona and name that satisfy the grammars compose to a valid id
  that splits into exactly them.\<close>

theorem agent_id_round_trip:
  "(is_valid_agent_id s \<longrightarrow>
      compose_id (fst (split_id s)) (snd (split_id s)) = s
      \<and> persona_seg (fst (split_id s)) \<and> pred_option name_seg (snd (split_id s)))
   \<and> (persona_seg p \<longrightarrow> name_seg n \<longrightarrow>
        is_valid_agent_id (compose_id p (Some n)) \<and> split_id (compose_id p (Some n)) = (p, Some n)
        \<and> is_valid_agent_id (compose_id p None) \<and> split_id (compose_id p None) = (p, None))"
proof (intro conjI impI)
  assume "is_valid_agent_id s"
  then show "compose_id (fst (split_id s)) (snd (split_id s)) = s"
    "persona_seg (fst (split_id s))" "pred_option name_seg (snd (split_id s))"
    using valid_round_trip by auto
next
  assume p: "persona_seg p" and n: "name_seg n"
  then have c: "compose_id p (Some n) = p @ ''/'' @ n"
    using name_seg_ids [OF n] by (auto simp: compose_id_def split: list.splits)
  have ns: "CHR ''/'' \<notin> set p" using p by (auto dest: persona_seg_ids list_all_id_no_slash)
  show "is_valid_agent_id (compose_id p (Some n))" using p n valid_spawned c by simp
  show "split_id (compose_id p (Some n)) = (p, Some n)" using ns c split_id_slash by simp
  show "is_valid_agent_id (compose_id p None)" using p valid_bare by (simp add: compose_id_def)
  show "split_id (compose_id p None) = (p, None)"
    using ns split_id_bare by (simp add: compose_id_def)
qed

lemma agent_id_round_trip_witness:
  "split_id ''worker/refactor-1'' = (''worker'', Some ''refactor-1'')
   \<and> compose_id ''worker'' (Some ''refactor-1'') = ''worker/refactor-1''"
proof -
  have "persona_seg ''worker''" "name_seg ''refactor-1''"
    by (simp_all add: persona_seg_def name_seg_def id_char_def is_lower_def is_digit_def
        name_start_def)
  with agent_id_round_trip [of "''worker/refactor-1''" "''worker''" "''refactor-1''"]
  show ?thesis by (simp add: compose_id_def)
qed

text \<open>The file name of an agent's notes is free of slashes for every valid id, and bare ids
  never share it; but two different spawned agents can: the flat form forgets which hyphen
  was the slash.\<close>

theorem notes_path_collision:
  "(is_valid_agent_id s \<longrightarrow> list_all id_char (flat_id s))
   \<and> (is_bare_id a \<and> is_bare_id b \<and> agent_notes_rel_path a = agent_notes_rel_path b \<longrightarrow> a = b)
   \<and> is_valid_agent_id ''worker/a-b'' \<and> is_valid_agent_id ''worker-a/b''
   \<and> agent_notes_rel_path ''worker/a-b'' = agent_notes_rel_path ''worker-a/b''"
proof (intro conjI impI)
  have m: "list_all id_char (flat_id t)" if "list_all id_char t" for t
    using that by (auto simp: flat_id_def list_all_iff id_char_def)
  have a: "flat_id (p @ CHR ''/'' # n) = flat_id p @ CHR ''-'' # flat_id n" for p n
    by (simp add: flat_id_def)
  have h: "id_char CHR ''-''" by (simp add: id_char_def)
  assume "is_valid_agent_id s"
  then show "list_all id_char (flat_id s)"
    by (cases s rule: valid_cases) (auto simp: a h m dest!: persona_seg_ids name_seg_ids)
next
  have f: "is_bare_id t \<Longrightarrow> flat_id t = t" for t
    by (auto simp: is_bare_id_def flat_id_def intro: map_idI)
  assume "is_bare_id a \<and> is_bare_id b \<and> agent_notes_rel_path a = agent_notes_rel_path b"
  with f [of a] f [of b] show "a = b" by (simp add: agent_notes_rel_path_def)
next
  show "is_valid_agent_id ''worker/a-b''" "is_valid_agent_id ''worker-a/b''"
    by (simp_all add: is_valid_agent_id_def id_char_def is_lower_def is_digit_def name_start_def)
  show "agent_notes_rel_path ''worker/a-b'' = agent_notes_rel_path ''worker-a/b''"
    by (simp add: agent_notes_rel_path_def flat_id_def)
qed

lemma notes_path_collision_witness:
  "list_all id_char (flat_id ''worker/a-b'') \<and> ''worker/a-b'' \<noteq> ''worker-a/b''
   \<and> agent_notes_rel_path ''worker/a-b'' = agent_notes_rel_path ''worker-a/b''"
  using notes_path_collision [of "''worker/a-b''" "[]" "[]"] by simp

end
