(* ===== verification/Health_Tracker.thy ===== *)
theory Health_Tracker
  imports Py_Str "HOL-Library.AList"
begin

text \<open>
  \<open>runtime/health_tracker.py\<close>: the circuit breaker of a model. Times are seconds, taken
  as exact rationals (the rounding of floats is not modelled); the clock is an argument.
\<close>

datatype circuit = CClosed | COpen | CHalfOpen

record model_state =
  hs_failures :: "rat list"
  hs_opened :: "rat option"
  hs_last_ok :: "rat option"

record tracker =
  ht_window :: rat
  ht_threshold :: nat
  ht_cooldown :: rat
  ht_models :: "(string \<times> model_state) list"

definition new_tracker :: "rat \<Rightarrow> nat \<Rightarrow> rat \<Rightarrow> tracker" where
  "new_tracker window threshold cooldown =
     \<lparr>ht_window = window, ht_threshold = threshold, ht_cooldown = cooldown, ht_models = []\<rparr>"

definition default_tracker :: tracker where
  "default_tracker = new_tracker 60 3 180"

definition new_model_state :: model_state where
  "new_model_state = \<lparr>hs_failures = [], hs_opened = None, hs_last_ok = None\<rparr>"

section \<open>Operations\<close>

text \<open>\<open>_get\<close>: the state of a model, created at the first use.\<close>

definition state_at :: "tracker \<Rightarrow> string \<Rightarrow> model_state" where
  "state_at t mid = (case map_of (ht_models t) mid of None \<Rightarrow> new_model_state | Some s \<Rightarrow> s)"

definition put_state :: "string \<Rightarrow> model_state \<Rightarrow> tracker \<Rightarrow> tracker" where
  "put_state mid s t = t\<lparr>ht_models := AList.update mid s (ht_models t)\<rparr>"

definition touch :: "string \<Rightarrow> tracker \<Rightarrow> tracker" where
  "touch mid t = put_state mid (state_at t mid) t"

definition prune_failures :: "rat \<Rightarrow> rat \<Rightarrow> model_state \<Rightarrow> model_state" where
  "prune_failures window now s =
     s\<lparr>hs_failures := dropWhile (\<lambda>f. f < now - window) (hs_failures s)\<rparr>"

definition circuit_of :: "rat \<Rightarrow> rat \<Rightarrow> model_state \<Rightarrow> circuit" where
  "circuit_of cooldown now s =
     (case hs_opened s of
        None \<Rightarrow> CClosed
      | Some t0 \<Rightarrow> (if now - t0 \<ge> cooldown then CHalfOpen else COpen))"

definition circuit_state :: "rat \<Rightarrow> string \<Rightarrow> tracker \<Rightarrow> circuit \<times> tracker" where
  "circuit_state now mid t = (circuit_of (ht_cooldown t) now (state_at t mid), touch mid t)"

definition is_available :: "rat \<Rightarrow> string \<Rightarrow> tracker \<Rightarrow> bool \<times> tracker" where
  "is_available now mid t =
     (case circuit_state now mid t of (c, t') \<Rightarrow> (c = CClosed \<or> c = CHalfOpen, t'))"

definition fail_state :: "tracker \<Rightarrow> rat \<Rightarrow> model_state \<Rightarrow> model_state" where
  "fail_state t now s0 =
     (let s1 = prune_failures (ht_window t) now s0;
          s = s1\<lparr>hs_failures := hs_failures s1 @ [now]\<rparr>
      in case hs_opened s of
           None \<Rightarrow> (if length (hs_failures s) \<ge> ht_threshold t then s\<lparr>hs_opened := Some now\<rparr> else s)
         | Some t0 \<Rightarrow> (if now - t0 \<ge> ht_cooldown t then s\<lparr>hs_opened := Some now\<rparr> else s))"

definition mark_failure :: "rat \<Rightarrow> string \<Rightarrow> tracker \<Rightarrow> tracker" where
  "mark_failure now mid t = put_state mid (fail_state t now (state_at t mid)) t"

definition mark_success :: "rat \<Rightarrow> string \<Rightarrow> tracker \<Rightarrow> tracker" where
  "mark_success now mid t =
     put_state mid \<lparr>hs_failures = [], hs_opened = None, hs_last_ok = Some now\<rparr> t"

record model_snapshot =
  sn_state :: circuit
  sn_recent :: nat
  sn_opened :: "rat option"
  sn_last_ok :: "rat option"

definition snapshot :: "rat \<Rightarrow> tracker \<Rightarrow> (string \<times> model_snapshot) list" where
  "snapshot now t =
     map (\<lambda>(mid, s). (mid,
         \<lparr>sn_state = circuit_of (ht_cooldown t) now s,
          sn_recent = length (filter (\<lambda>f. f \<ge> now - ht_window t) (hs_failures s)),
          sn_opened = hs_opened s, sn_last_ok = hs_last_ok s\<rparr>)) (ht_models t)"

section \<open>One model among others\<close>

lemma state_at_put [simp]: "state_at (put_state mid s t) mid' = (if mid' = mid then s else state_at t mid')"
  by (simp add: state_at_def put_state_def update_conv')

lemma put_state_config [simp]:
  "ht_window (put_state mid s t) = ht_window t" "ht_threshold (put_state mid s t) = ht_threshold t"
  "ht_cooldown (put_state mid s t) = ht_cooldown t"
  by (simp_all add: put_state_def)

lemma touch_same [simp]: "state_at (touch mid t) mid' = state_at t mid'"
  by (simp add: touch_def)

lemma is_available_iff [simp]:
  "fst (is_available now mid t) \<longleftrightarrow>
     (case hs_opened (state_at t mid) of None \<Rightarrow> True | Some t0 \<Rightarrow> ht_cooldown t \<le> now - t0)"
  by (auto simp: is_available_def circuit_state_def circuit_of_def split: option.splits)

lemma mark_calls_config [simp]:
  "ht_window (mark_failure now mid t) = ht_window t"
  "ht_threshold (mark_failure now mid t) = ht_threshold t"
  "ht_cooldown (mark_failure now mid t) = ht_cooldown t"
  by (simp_all add: mark_failure_def)

text \<open>A call that was made and its outcome.\<close>

datatype outcome = Failed | Succeeded

fun mark :: "string \<Rightarrow> rat \<times> outcome \<Rightarrow> tracker \<Rightarrow> tracker" where
  "mark mid (now, Failed) t = mark_failure now mid t"
| "mark mid (now, Succeeded) t = mark_success now mid t"

definition marks :: "string \<Rightarrow> (rat \<times> outcome) list \<Rightarrow> tracker \<Rightarrow> tracker" where
  "marks mid es t = fold (mark mid) es t"

lemma marks_Nil [simp]: "marks mid [] t = t"
  by (simp add: marks_def)

lemma marks_Cons [simp]: "marks mid (e # es) t = marks mid es (mark mid e t)"
  by (simp add: marks_def)

lemma marks_snoc: "marks mid (es @ [e]) t = mark mid e (marks mid es t)"
  by (simp add: marks_def)

lemma mark_config [simp]:
  "ht_window (mark mid e t) = ht_window t" "ht_threshold (mark mid e t) = ht_threshold t"
  "ht_cooldown (mark mid e t) = ht_cooldown t"
  by (cases "(mid, e, t)" rule: mark.cases; simp add: mark_failure_def mark_success_def)+

lemma marks_config [simp]:
  "ht_window (marks mid es t) = ht_window t" "ht_threshold (marks mid es t) = ht_threshold t"
  "ht_cooldown (marks mid es t) = ht_cooldown t"
  by (induction es arbitrary: t) simp_all

lemma mark_other: "mid' \<noteq> mid \<Longrightarrow> state_at (mark mid e t) mid' = state_at t mid'"
  by (cases "(mid, e, t)" rule: mark.cases) (simp_all add: mark_failure_def mark_success_def)

section \<open>The specification of the breaker\<close>

text \<open>
  The specification keeps no list of failures: from the history of the calls of one model,
  the failures since the last success are known; \<open>opened_spec\<close> says when the circuit was
  opened last. A failure opens a closed circuit when, with it, the window holds the threshold
  number of failures since the last success, and re-opens one whose cooldown is over.
\<close>

fun streak :: "(rat \<times> outcome) list \<Rightarrow> rat list" where
  "streak [] = []"
| "streak ((t, Succeeded) # es) = []"
| "streak ((t, Failed) # es) = t # streak es"

text \<open>The history is newest first.\<close>

fun opened_spec :: "rat \<Rightarrow> nat \<Rightarrow> rat \<Rightarrow> (rat \<times> outcome) list \<Rightarrow> rat option" where
  "opened_spec w n c [] = None"
| "opened_spec w n c ((t, Succeeded) # es) = None"
| "opened_spec w n c ((t, Failed) # es) =
     (case opened_spec w n c es of
        None \<Rightarrow> (if n \<le> Suc (length (filter (\<lambda>f. t - w \<le> f) (streak es))) then Some t else None)
      | Some t0 \<Rightarrow> (if c \<le> t - t0 then Some t else Some t0))"

definition ordered :: "(rat \<times> outcome) list \<Rightarrow> bool" where
  "ordered es \<longleftrightarrow> sorted_wrt (\<lambda>a b. fst b \<le> fst a) es"

lemma streak_bounds: "f \<in> set (streak es) \<Longrightarrow> \<exists>e \<in> set es. fst e = f"
  by (induction es rule: streak.induct) auto

lemma streak_sorted: "ordered es \<Longrightarrow> sorted_wrt (\<ge>) (streak es)"
proof (induction es rule: streak.induct)
  case (3 t es)
  have "ordered es" using "3.prems" by (simp add: ordered_def)
  moreover have "\<forall>f \<in> set (streak es). f \<le> t"
    using "3.prems" streak_bounds by (fastforce simp: ordered_def)
  ultimately show ?case using "3.IH" by simp
qed simp_all

lemma dropWhile_filter_sorted:
  "sorted_wrt (\<le>) (xs :: 'a::linorder list) \<Longrightarrow> dropWhile (\<lambda>x. x < c) xs = filter (\<lambda>x. c \<le> x) xs"
proof (induction xs)
  case (Cons x xs)
  then show ?case
    by (cases "x < c") (auto simp: not_less intro!: filter_True [symmetric])
qed simp

lemma sorted_wrt_ge_rev: "sorted_wrt (\<ge>) (xs :: 'a::linorder list) \<Longrightarrow> sorted_wrt (\<le>) (rev xs)"
  by (simp add: sorted_wrt_rev)

text \<open>What the tracker keeps of a model: a suffix of the failures since the last success
  that still contains every failure a later window can reach.\<close>

definition tracks :: "tracker \<Rightarrow> string \<Rightarrow> (rat \<times> outcome) list \<Rightarrow> bool" where
  "tracks t mid es \<longleftrightarrow>
     hs_opened (state_at t mid)
       = opened_spec (ht_window t) (ht_threshold t) (ht_cooldown t) es
     \<and> (\<forall>now. (\<forall>e \<in> set es. fst e \<le> now) \<longrightarrow>
          dropWhile (\<lambda>f. f < now - ht_window t) (hs_failures (state_at t mid))
            = rev (filter (\<lambda>f. now - ht_window t \<le> f) (streak es)))"

lemma tracks_failure:
  assumes tr: "tracks t mid es" and o: "ordered ((now, Failed) # es)"
  shows "tracks (mark mid (now, Failed) t) mid ((now, Failed) # es)"
proof -
  let ?s = "state_at t mid" and ?w = "ht_window t"
  have le: "\<forall>e \<in> set es. fst e \<le> now" using o by (auto simp: ordered_def)
  have pr: "dropWhile (\<lambda>f. f < now - ?w) (hs_failures ?s)
      = rev (filter (\<lambda>f. now - ?w \<le> f) (streak es))"
    using tr le by (simp add: tracks_def)
  have f: "hs_failures (state_at (mark mid (now, Failed) t) mid)
      = rev (filter (\<lambda>f. now - ?w \<le> f) (streak es)) @ [now]"
    by (simp add: mark_failure_def fail_state_def prune_failures_def pr Let_def split: option.splits)
  have op: "hs_opened (state_at (mark mid (now, Failed) t) mid)
      = opened_spec ?w (ht_threshold t) (ht_cooldown t) ((now, Failed) # es)"
    using tr by (simp add: mark_failure_def fail_state_def prune_failures_def pr tracks_def Let_def
        split: option.splits)
  have so: "sorted_wrt (\<ge>) (streak ((now, Failed) # es))" using o by (rule streak_sorted)
  have "dropWhile (\<lambda>f. f < now' - ?w) (rev (filter (\<lambda>f. now - ?w \<le> f) (streak es)) @ [now])
      = rev (filter (\<lambda>f. now' - ?w \<le> f) (now # streak es))" if "now \<le> now'" for now'
  proof -
    have "sorted_wrt (\<ge>) (now # filter (\<lambda>f. now - ?w \<le> f) (streak es))"
      using so by (auto simp: sorted_wrt_filter)
    from dropWhile_filter_sorted [OF sorted_wrt_ge_rev [OF this]]
    have "dropWhile (\<lambda>f. f < now' - ?w) (rev (filter (\<lambda>f. now - ?w \<le> f) (streak es)) @ [now])
        = filter (\<lambda>f. now' - ?w \<le> f) (rev (now # filter (\<lambda>f. now - ?w \<le> f) (streak es)))"
      by simp
    also have "\<dots> = rev (filter (\<lambda>f. now' - ?w \<le> f) (now # filter (\<lambda>f. now - ?w \<le> f) (streak es)))"
      by (simp add: rev_filter)
    also have "filter (\<lambda>f. now' - ?w \<le> f) (now # filter (\<lambda>f. now - ?w \<le> f) (streak es))
        = filter (\<lambda>f. now' - ?w \<le> f) (now # streak es)"
    proof -
      have "(now' - ?w \<le> f \<and> now - ?w \<le> f) = (now' - ?w \<le> f)" for f using that by auto
      then show ?thesis by (simp add: conj_commute)
    qed
    finally show ?thesis .
  qed
  with op f show ?thesis by (simp add: tracks_def)
qed

lemma tracks_marks: "ordered es \<Longrightarrow> tracks (marks mid (rev es) (t\<lparr>ht_models := []\<rparr>)) mid es"
proof (induction es)
  case Nil
  then show ?case by (simp add: tracks_def state_at_def new_model_state_def)
next
  case (Cons e es)
  obtain now r where e: "e = (now, r)" by (cases e)
  have ih: "tracks (marks mid (rev es) (t\<lparr>ht_models := []\<rparr>)) mid es"
    using Cons by (simp add: ordered_def)
  show ?case
  proof (cases r)
    case Failed
    with ih Cons.prems e tracks_failure show ?thesis by (simp add: marks_snoc)
  next
    case Succeeded
    then show ?thesis by (simp add: e marks_snoc tracks_def mark_success_def)
  qed
qed

section \<open>Properties\<close>

text \<open>C4: The breaker implements its specification. Whatever the history of a model's calls
  (their times not decreasing), the model is offered exactly when the specification has its
  circuit closed or its cooldown over: a success closes it, the threshold number of failures
  since the last success within one window opens it, and one failed probe after the cooldown
  opens it again for a fresh cooldown. The lazily pruned list of failures never shows.\<close>

theorem breaker_refines_spec:
  assumes "ordered es"
  shows "fst (is_available now mid (marks mid (rev es) (new_tracker w n c)))
     \<longleftrightarrow> (case opened_spec w n c es of None \<Rightarrow> True | Some t0 \<Rightarrow> c \<le> now - t0)"
proof -
  have "new_tracker w n c = (new_tracker w n c)\<lparr>ht_models := []\<rparr>"
    by (simp add: new_tracker_def)
  with tracks_marks [OF assms, of mid "new_tracker w n c"]
  have "hs_opened (state_at (marks mid (rev es) (new_tracker w n c)) mid) = opened_spec w n c es"
    by (simp add: tracks_def new_tracker_def)
  then show ?thesis by (simp add: new_tracker_def split: option.splits)
qed

lemma breaker_refines_spec_witness:
  "\<not> fst (is_available 100 ''m'' (marks ''m'' [(1, Failed), (20, Failed), (30, Failed)]
      (new_tracker 60 3 180)))"
proof -
  have o: "ordered [(30, Failed), (20, Failed), (1, Failed)]" by (simp add: ordered_def)
  show ?thesis using breaker_refines_spec [OF o, of 100 "''m''" 60 3 180] by simp
qed

text \<open>An open circuit protects the model. From the moment it opened until its cooldown is
  over, whatever number of further failures are reported in that time, the model is not offered;
  the calls of the other models change nothing of it.\<close>

theorem open_circuit_stays_open:
  assumes "hs_opened (state_at t mid) = Some t0"
    and "\<forall>(m, now, r) \<in> set es. m = mid \<longrightarrow> r = Failed \<and> now < t0 + ht_cooldown t"
    and "now' < t0 + ht_cooldown t"
  shows "\<not> fst (is_available now' mid (fold (\<lambda>(m, e). mark m e) es t))"
proof -
  have "hs_opened (state_at (fold (\<lambda>(m, e). mark m e) es t) mid) = Some t0
     \<and> ht_cooldown (fold (\<lambda>(m, e). mark m e) es t) = ht_cooldown t"
    using assms(1,2)
  proof (induction es arbitrary: t)
    case (Cons x es)
    obtain m now r where x: "x = (m, now, r)" by (cases x) auto
    have "hs_opened (state_at (mark m (now, r) t) mid) = Some t0"
    proof (cases "m = mid")
      case True
      with Cons.prems x show ?thesis
        by (auto simp: mark_failure_def fail_state_def prune_failures_def Let_def)
    next
      case False
      with Cons.prems(1) mark_other [of mid m] show ?thesis by simp
    qed
    with Cons.IH [of "mark m (now, r) t"] Cons.prems(2) x show ?case by simp
  qed simp
  with assms(3) show ?thesis by simp
qed

lemma open_circuit_stays_open_witness:
  "\<not> fst (is_available 150 ''m'' (fold (\<lambda>(m, e). mark m e)
      [(''m'', 40, Failed), (''x'', 45, Succeeded), (''m'', 149, Failed)]
      (put_state ''m'' \<lparr>hs_failures = [1, 2, 3], hs_opened = Some 3, hs_last_ok = None\<rparr> default_tracker)))"
  by (rule open_circuit_stays_open [where ?t0.0 = 3])
    (simp_all add: default_tracker_def new_tracker_def)

end
