(* ===== verification/Model_Router.thy ===== *)
theory Model_Router
  imports Health_Tracker "HOL-Library.List_Lexorder" "HOL-Library.Char_ord"
    "HOL-Library.Product_Lexorder" "HOL-Library.Multiset"
begin

text \<open>
  \<open>runtime/model_registry.py\<close> (entries, merging of the user's entries),
  \<open>entry_reachable\<close> and the authentication checks of \<open>runtime/adapter_factory.py\<close>, and
  the choice of the candidates in \<open>runtime/model_router.py\<close>. The environment variables are
  an argument; one selection reads the clock once.
\<close>

section \<open>Registry\<close>

datatype tier = Flagship | Workhorse | Cheap

primrec tier_str :: "tier \<Rightarrow> string" where
  "tier_str Flagship = ''flagship''"
| "tier_str Workhorse = ''workhorse''"
| "tier_str Cheap = ''cheap''"

record model_endpoint =
  ep_base_url :: "string option"
  ep_auth_env :: "string option"
  ep_headers :: "(string \<times> string) list"
  ep_api :: string

record model_cost =
  co_input :: "rat option"
  co_output :: "rat option"

record model_entry =
  me_id :: string
  me_provider :: string
  me_endpoint :: model_endpoint
  me_capabilities :: "string list"
  me_tier :: tier
  me_cost :: model_cost
  me_context_window :: "int option"
  me_enabled :: bool

definition supports :: "model_entry \<Rightarrow> string list \<Rightarrow> bool" where
  "supports e requires \<longleftrightarrow> list_all (\<lambda>r. r \<in> set (me_capabilities e)) requires"

definition registry_by_id :: "model_entry list \<Rightarrow> string \<Rightarrow> model_entry option" where
  "registry_by_id es mid = List.find (\<lambda>e. me_id e = mid) es"

definition registry_enabled :: "model_entry list \<Rightarrow> model_entry list" where
  "registry_enabled es = filter me_enabled es"

text \<open>A user entry of \<open>config.toml\<close>; the context window and the cost may be left out.\<close>

record user_entry =
  ue_id :: string
  ue_provider :: string
  ue_endpoint :: model_endpoint
  ue_capabilities :: "string list"
  ue_tier :: tier
  ue_cost :: "model_cost option"
  ue_context_window :: "int option"
  ue_enabled :: bool

definition user_entry_to_runtime :: "user_entry \<Rightarrow> model_entry option \<Rightarrow> model_entry" where
  "user_entry_to_runtime raw shipped =
     \<lparr>me_id = ue_id raw, me_provider = ue_provider raw, me_endpoint = ue_endpoint raw,
      me_capabilities = ue_capabilities raw, me_tier = ue_tier raw,
      me_cost = (case (ue_cost raw, shipped) of
                   (Some c, _) \<Rightarrow> c
                 | (None, Some s) \<Rightarrow> me_cost s
                 | (None, None) \<Rightarrow> \<lparr>co_input = None, co_output = None\<rparr>),
      me_context_window = (case (ue_context_window raw, shipped) of
                   (Some w, _) \<Rightarrow> Some w
                 | (None, Some s) \<Rightarrow> me_context_window s
                 | (None, None) \<Rightarrow> None),
      me_enabled = ue_enabled raw\<rparr>"

text \<open>\<open>{e.id: e for e in base.entries}\<close>: the last entry of an id wins.\<close>

definition last_by_id :: "model_entry list \<Rightarrow> string \<Rightarrow> model_entry option" where
  "last_by_id es mid = List.find (\<lambda>e. me_id e = mid) (rev es)"

definition merge_user_entries :: "model_entry list \<Rightarrow> user_entry list \<Rightarrow> model_entry list" where
  "merge_user_entries base user =
     (if user = [] then base
      else map (\<lambda>raw. user_entry_to_runtime raw (last_by_id base (ue_id raw))) user)"

section \<open>Authentication\<close>

type_synonym env = "string \<Rightarrow> string option"

definition nonempty :: "string option \<Rightarrow> bool" where
  "nonempty s \<longleftrightarrow> (case s of None \<Rightarrow> False | Some t \<Rightarrow> t \<noteq> [])"

definition entry_reachable :: "env \<Rightarrow> model_entry \<Rightarrow> bool" where
  "entry_reachable env e \<longleftrightarrow>
     (case ep_auth_env (me_endpoint e) of
        None \<Rightarrow> ep_headers (me_endpoint e) \<noteq> []
      | Some [] \<Rightarrow> ep_headers (me_endpoint e) \<noteq> []
      | Some v \<Rightarrow> nonempty (env v))"

definition headers_dict :: "model_endpoint \<Rightarrow> (string \<times> string) list" where
  "headers_dict ep = filter (\<lambda>(k, v). k \<noteq> [] \<and> v \<noteq> []) (ep_headers ep)"

datatype adapter_kind = AAnthropic | AOpenAI | AOpenAIResponses

record adapter =
  ad_kind :: adapter_kind
  ad_api_key :: string
  ad_headers :: "(string \<times> string) list"

text \<open>\<open>AdapterFactory.make\<close> up to the constructors of the provider SDKs.\<close>

definition make_adapter :: "env \<Rightarrow> model_entry \<Rightarrow> exn + adapter" where
  "make_adapter env e =
     (let ep = me_endpoint e;
          err = (\<lambda>m. Inl (Exn ''AdapterFactoryError'' (''Model '' @ py_repr (me_id e) @ m)));
          api_key = (case ep_auth_env ep of
                       None \<Rightarrow> None | Some [] \<Rightarrow> None | Some v \<Rightarrow> env v);
          extra = headers_dict ep;
          key = (case api_key of Some (c # cs) \<Rightarrow> c # cs | _ \<Rightarrow> ''PLACEHOLDER'')
      in if nonempty (ep_auth_env ep) \<and> \<not> nonempty api_key
         then err '': env var is unset''
         else if \<not> nonempty api_key \<and> extra = [] then err '': no auth configured''
         else if me_provider e = ''anthropic''
         then Inr \<lparr>ad_kind = AAnthropic, ad_api_key = key, ad_headers = extra\<rparr>
         else if me_provider e = ''openai''
         then Inr \<lparr>ad_kind = (if ep_api ep = ''responses'' then AOpenAIResponses else AOpenAI),
                   ad_api_key = key, ad_headers = extra\<rparr>
         else Inl (Exn ''AdapterFactoryError'' (''Unknown provider '' @ py_repr (me_provider e))))"

definition model_name_for_provider :: "model_entry \<Rightarrow> string" where
  "model_name_for_provider e =
     (if CHR ''.'' \<in> set (me_id e) then tl (dropWhile (\<lambda>c. c \<noteq> CHR ''.'') (me_id e))
      else me_id e)"

section \<open>Selection\<close>

record model_preference =
  mp_tier :: tier
  mp_requires :: "string list"
  mp_prefer :: "string list"

text \<open>\<open>{mid: i for i, mid in enumerate(prefer)}.get(id, len(prefer) + 999)\<close>.\<close>

fun last_index :: "nat \<Rightarrow> string list \<Rightarrow> string \<Rightarrow> nat option" where
  "last_index i [] x = None"
| "last_index i (y # ys) x =
     (case last_index (Suc i) ys x of
        Some j \<Rightarrow> Some j | None \<Rightarrow> (if y = x then Some i else None))"

definition prefer_pos :: "string list \<Rightarrow> string \<Rightarrow> nat" where
  "prefer_pos prefer mid =
     (case last_index 0 prefer mid of Some i \<Rightarrow> i | None \<Rightarrow> length prefer + 999)"

definition model_rank ::
    "rat \<Rightarrow> tracker \<Rightarrow> model_preference \<Rightarrow> model_entry \<Rightarrow> nat \<times> nat \<times> nat \<times> string" where
  "model_rank now t pref e =
     ((if fst (is_available now (me_id e) t) then 0 else 1),
      prefer_pos (mp_prefer pref) (me_id e),
      (if me_tier e = mp_tier pref then 0 else 1),
      me_id e)"

definition no_eligible :: "string \<Rightarrow> exn" where
  "no_eligible m = Exn ''NoEligibleModelError'' m"

definition candidates :: "model_entry list \<Rightarrow> model_preference \<Rightarrow> model_entry list" where
  "candidates reg pref = filter (\<lambda>e. supports e (mp_requires pref)) (registry_enabled reg)"

text \<open>Asking for the health of a model makes the tracker know it.\<close>

definition router_select ::
    "model_entry list \<Rightarrow> env \<Rightarrow> string option \<Rightarrow> model_preference \<Rightarrow> rat
     \<Rightarrow> tracker \<Rightarrow> (exn + model_entry list) \<times> tracker" where
  "router_select reg env override pref now t =
     (if nonempty override
      then (case registry_by_id reg (the override) of
              None \<Rightarrow> (Inl (no_eligible (''LYRE_MODEL_OVERRIDE='' @ py_repr (the override) @
                         '' but no such entry in registry'')), t)
            | Some e \<Rightarrow> (Inr [e], t))
      else if candidates reg pref = []
      then (Inl (no_eligible ''No enabled model in registry supports requires''), t)
      else (let reachable = filter (entry_reachable env) (candidates reg pref) in
        if reachable = []
        then (Inl (no_eligible ''No reachable model can satisfy persona''), t)
        else (Inr (sort_key (model_rank now t pref) reachable),
              fold (\<lambda>e. touch (me_id e)) reachable t)))"

lemma fold_touch_same [simp]: "state_at (fold (\<lambda>e. touch (f e)) es t) mid = state_at t mid"
  by (induction es arbitrary: t) simp_all

section \<open>Properties\<close>

text \<open>C5: The router's list. Without an override, an accepted selection is exactly the enabled,
  capable and reachable entries, each as often as registered, sorted by the rank: every entry
  whose circuit is open comes after all those that are offered, preferred ids in the order of
  the preference, and the ids decide ties. Selecting changes the health of no model.\<close>

theorem router_ranks:
  assumes "\<not> nonempty override" "router_select reg env override pref now t = (Inr es, t')"
  shows "mset es = mset (filter (\<lambda>e. me_enabled e \<and> supports e (mp_requires pref)
                                     \<and> entry_reachable env e) reg)
     \<and> sorted (map (model_rank now t pref) es) \<and> es \<noteq> []
     \<and> sorted_wrt (\<lambda>a b. fst (is_available now (me_id b) t) \<longrightarrow> fst (is_available now (me_id a) t)) es
     \<and> (\<forall>mid. state_at t' mid = state_at t mid)"
proof -
  let ?r = "filter (entry_reachable env) (candidates reg pref)"
  from assms have es: "es = sort_key (model_rank now t pref) ?r" and ne: "?r \<noteq> []"
    and t': "t' = fold (\<lambda>e. touch (me_id e)) ?r t"
    by (auto simp: router_select_def Let_def split: if_splits)
  have so: "sorted (map (model_rank now t pref) es)" by (simp add: es)
  then have "sorted_wrt (\<lambda>a b. model_rank now t pref a \<le> model_rank now t pref b) es"
    by (simp add: sorted_map)
  then have "sorted_wrt (\<lambda>a b. fst (is_available now (me_id b) t) \<longrightarrow> fst (is_available now (me_id a) t)) es"
    by (rule sorted_wrt_mono_rel [rotated]) (auto simp: model_rank_def less_eq_prod_def split: if_splits)
  moreover have "mset es = mset (filter (\<lambda>e. me_enabled e \<and> supports e (mp_requires pref)
                                     \<and> entry_reachable env e) reg)"
    by (simp add: es candidates_def registry_enabled_def conj_commute conj_left_commute)
  moreover have "es \<noteq> []" using ne unfolding es by (metis set_empty set_sort)
  ultimately show ?thesis using so t' by simp
qed

definition sample_entry :: "string \<Rightarrow> tier \<Rightarrow> string \<Rightarrow> model_entry" where
  "sample_entry mid tr env' =
     \<lparr>me_id = mid, me_provider = ''openai'',
      me_endpoint = \<lparr>ep_base_url = None, ep_auth_env = Some env', ep_headers = [],
                     ep_api = ''chat-completions''\<rparr>,
      me_capabilities = [''tool_use''], me_tier = tr,
      me_cost = \<lparr>co_input = None, co_output = None\<rparr>, me_context_window = None,
      me_enabled = True\<rparr>"

lemma router_ranks_witness:
  "\<exists>es t'. router_select [sample_entry ''a.x'' Cheap ''K'', sample_entry ''b.y'' Flagship ''K'']
        (\<lambda>v. if v = ''K'' then Some ''secret'' else None) None
        \<lparr>mp_tier = Flagship, mp_requires = [''tool_use''], mp_prefer = []\<rparr> 0 default_tracker
      = (Inr es, t') \<and> length es = 2 \<and> sorted (map (model_rank 0 default_tracker
        \<lparr>mp_tier = Flagship, mp_requires = [''tool_use''], mp_prefer = []\<rparr>) es)"
proof -
  let ?reg = "[sample_entry ''a.x'' Cheap ''K'', sample_entry ''b.y'' Flagship ''K'']"
  let ?env = "\<lambda>v. if v = ''K'' then Some ''secret'' else None"
  let ?pref = "\<lparr>mp_tier = Flagship, mp_requires = [''tool_use''], mp_prefer = []\<rparr>"
  have c: "filter (entry_reachable ?env) (candidates ?reg ?pref) = ?reg"
    by (simp add: candidates_def registry_enabled_def supports_def sample_entry_def
        entry_reachable_def nonempty_def)
  then have "candidates ?reg ?pref \<noteq> []" by auto
  with c obtain es t' where r: "router_select ?reg ?env None ?pref 0 default_tracker = (Inr es, t')"
    by (auto simp: router_select_def Let_def nonempty_def)
  have "\<not> nonempty None" by (simp add: nonempty_def)
  from router_ranks [OF this r]
  have p: "mset es = mset ?reg" "sorted (map (model_rank 0 default_tracker ?pref) es)"
    by (simp_all add: registry_enabled_def supports_def sample_entry_def entry_reachable_def
        nonempty_def)
  from p(1) have "length es = 2" by (metis size_mset length_Cons list.size(3) numeral_2_eq_2)
  with r p(2) show ?thesis by blast
qed

text \<open>Reachability and the adapter factory. An entry for which an adapter can be built is
  reachable, and a reachable entry of a known provider with an API key gets its adapter; but an
  entry whose only headers have empty values (an unset variable in \<open>${...}\<close>) counts as
  reachable although building its adapter raises.\<close>

theorem reachable_vs_factory:
  "(\<forall>a. make_adapter env e = Inr a \<longrightarrow> entry_reachable env e)
   \<and> (entry_reachable env e \<and> nonempty (ep_auth_env (me_endpoint e))
        \<and> me_provider e \<in> {''anthropic'', ''openai''}
        \<longrightarrow> (\<exists>a. make_adapter env e = Inr a))
   \<and> (ep_auth_env (me_endpoint e) = None \<and> ep_headers (me_endpoint e) = [(k, [])]
        \<longrightarrow> entry_reachable env e \<and> (\<exists>m. make_adapter env e = Inl (Exn ''AdapterFactoryError'' m)))"
proof (intro conjI impI allI)
  fix a assume m: "make_adapter env e = Inr a"
  show "entry_reachable env e"
  proof (cases "nonempty (ep_auth_env (me_endpoint e))")
    case True
    then obtain c cs where v: "ep_auth_env (me_endpoint e) = Some (c # cs)"
      by (auto simp: nonempty_def neq_Nil_conv split: option.splits)
    with m show ?thesis
      by (auto simp: make_adapter_def entry_reachable_def nonempty_def Let_def split: if_splits)
  next
    case False
    with m have "headers_dict (me_endpoint e) \<noteq> []"
      by (auto simp: make_adapter_def nonempty_def Let_def split: if_splits option.splits)
    then have "ep_headers (me_endpoint e) \<noteq> []" by (auto simp: headers_dict_def)
    with False show ?thesis
      by (auto simp: entry_reachable_def nonempty_def split: option.splits list.splits)
  qed
next
  assume a: "entry_reachable env e \<and> nonempty (ep_auth_env (me_endpoint e))
        \<and> me_provider e \<in> {''anthropic'', ''openai''}"
  then obtain c cs where v: "ep_auth_env (me_endpoint e) = Some (c # cs)"
    by (auto simp: nonempty_def neq_Nil_conv split: option.splits)
  with a have n: "nonempty (env (c # cs))" by (simp add: entry_reachable_def)
  show "\<exists>a. make_adapter env e = Inr a"
  proof (cases "me_provider e = ''anthropic''")
    case True
    with v n show ?thesis by (simp add: make_adapter_def Let_def)
  next
    case False
    with a have "me_provider e = ''openai''" by auto
    with v n show ?thesis by (simp add: make_adapter_def Let_def)
  qed
next
  assume "ep_auth_env (me_endpoint e) = None \<and> ep_headers (me_endpoint e) = [(k, [])]"
  then show "entry_reachable env e" "\<exists>m. make_adapter env e = Inl (Exn ''AdapterFactoryError'' m)"
    by (simp_all add: entry_reachable_def make_adapter_def headers_dict_def nonempty_def Let_def)
qed

definition header_only_entry :: model_entry where
  "header_only_entry = (sample_entry ''a.x'' Cheap [])
     \<lparr>me_endpoint := \<lparr>ep_base_url = None, ep_auth_env = None,
        ep_headers = [(''Authorization'', [])], ep_api = ''chat-completions''\<rparr>\<rparr>"

lemma reachable_vs_factory_witness:
  "entry_reachable (\<lambda>v. None) header_only_entry
   \<and> (\<exists>m. make_adapter (\<lambda>v. None) header_only_entry = Inl (Exn ''AdapterFactoryError'' m))"
  using reachable_vs_factory [of "\<lambda>v. None" header_only_entry "''Authorization''"]
  by (simp add: header_only_entry_def)

end
