(* ===== verification/Transactions.thy ===== *)
theory Transactions
  imports Sample Maintenance
begin

text \<open>
  One SQLite connection shared by several asyncio flows: the commit lock, \<open>_commit\<close>,
  \<open>SqliteRepositories.transaction\<close>, and the commits of \<open>run_maintenance\<close>, which take no lock.
  A state holds what is durable, what the connection sees, and which flow holds the commit lock;
  the transaction of the connection is global, so every executed statement of any flow joins it
  until somebody commits or rolls back.
\<close>

record conn =
  co_durable :: db
  co_working :: db
  co_lock :: "nat option"

datatype conn_event =
    Begin nat
  | Execute nat "db \<Rightarrow> db"
  | Commit nat
  | BareCommit nat
  | TxCommit nat
  | TxRollback nat
  | Crash

text \<open>
  \<open>Begin f\<close>: flow \<open>f\<close> enters the outermost \<open>transaction()\<close> (a nested one only joins).
  \<open>Execute f g\<close>: one statement; it takes no lock. \<open>Commit f\<close>: the \<open>_commit\<close> at the
  end of a repository method: nothing inside the flow's own transaction, otherwise it waits
  for the lock. \<open>BareCommit f\<close>: the \<open>conn.commit()\<close> of \<open>run_maintenance\<close>, whoever holds the
  lock. \<open>Crash\<close>: the process dies, the next one finds what is durable.
\<close>

inductive conn_step :: "conn \<Rightarrow> conn_event \<Rightarrow> conn \<Rightarrow> bool" where
  begin_outer: "co_lock c = None \<Longrightarrow> conn_step c (Begin f) (c\<lparr>co_lock := Some f\<rparr>)"
| begin_join: "co_lock c = Some f \<Longrightarrow> conn_step c (Begin f) c"
| exec_stmt: "conn_step c (Execute f g) (c\<lparr>co_working := g (co_working c)\<rparr>)"
| commit_alone: "co_lock c = None \<Longrightarrow> conn_step c (Commit f) (c\<lparr>co_durable := co_working c\<rparr>)"
| commit_inside: "co_lock c = Some f \<Longrightarrow> conn_step c (Commit f) c"
| bare_commit: "conn_step c (BareCommit f) (c\<lparr>co_durable := co_working c\<rparr>)"
| tx_commit: "co_lock c = Some f \<Longrightarrow>
    conn_step c (TxCommit f) (c\<lparr>co_durable := co_working c, co_lock := None\<rparr>)"
| tx_rollback: "co_lock c = Some f \<Longrightarrow>
    conn_step c (TxRollback f) (c\<lparr>co_working := co_durable c, co_lock := None\<rparr>)"
| crash: "conn_step c Crash (c\<lparr>co_working := co_durable c, co_lock := None\<rparr>)"

inductive conn_run :: "conn \<Rightarrow> conn_event list \<Rightarrow> conn \<Rightarrow> bool" where
  run_nil: "conn_run c [] c"
| run_cons: "conn_step c e c' \<Longrightarrow> conn_run c' es c'' \<Longrightarrow> conn_run c (e # es) c''"

inductive_simps conn_step_simps [simp]:
  "conn_step c (Begin f) c'" "conn_step c (Execute f g) c'" "conn_step c (Commit f) c'"
  "conn_step c (BareCommit f) c'" "conn_step c (TxCommit f) c'" "conn_step c (TxRollback f) c'"
  "conn_step c Crash c'"

inductive_simps conn_run_simps: "conn_run c [] c'" "conn_run c (e # es) c'"

definition quiet_conn :: "db \<Rightarrow> conn" where
  "quiet_conn d = \<lparr>co_durable = d, co_working = d, co_lock = None\<rparr>"

text \<open>The statements and commits of one \<open>run_maintenance\<close> whose deletes all succeed.\<close>

definition maintenance_events :: "nat \<Rightarrow> int \<Rightarrow> int \<Rightarrow> nat \<Rightarrow> conn_event list" where
  "maintenance_events g now days keep =
     (let cutoff = age_cutoff now days in
      [Execute g (\<lambda>d. snd (prune_outbox cutoff d)), Execute g (\<lambda>d. snd (prune_wakeups cutoff keep d)),
       Execute g (\<lambda>d. snd (prune_scheduled cutoff d)), Execute g (prune_members cutoff),
       Execute g (\<lambda>d. snd (prune_groups cutoff d)), BareCommit g, BareCommit g])"

section \<open>What a history makes durable\<close>

text \<open>
  Read off the events alone. A flow is inside its transaction when its latest boundary is a
  \<open>Begin\<close>. A commit counts unless it is a \<open>_commit\<close> inside the flow's own transaction. A
  statement becomes durable when a commit that counts comes before any rollback or crash; it is
  lost when the rollback or crash comes first, and still open when neither came.
\<close>

definition ends_tx :: "nat \<Rightarrow> conn_event \<Rightarrow> bool" where
  "ends_tx f e \<longleftrightarrow> e = TxCommit f \<or> e = TxRollback f \<or> e = Crash"

fun latest_begins :: "nat \<Rightarrow> conn_event list \<Rightarrow> bool" where
  "latest_begins f [] = False"
| "latest_begins f (e # es) = (if e = Begin f then True else if ends_tx f e then False else latest_begins f es)"

definition open_tx :: "nat \<Rightarrow> conn_event list \<Rightarrow> bool" where
  "open_tx f es = latest_begins f (rev es)"

definition makes_durable :: "conn_event list \<Rightarrow> conn_event \<Rightarrow> bool" where
  "makes_durable hist e = (case e of
       Commit f \<Rightarrow> \<not> open_tx f hist | BareCommit f \<Rightarrow> True | TxCommit f \<Rightarrow> True | _ \<Rightarrow> False)"

definition discards :: "conn_event \<Rightarrow> bool" where
  "discards e = (case e of TxRollback f \<Rightarrow> True | Crash \<Rightarrow> True | _ \<Rightarrow> False)"

fun saved :: "conn_event list \<Rightarrow> conn_event list \<Rightarrow> bool" where
  "saved hist [] = False"
| "saved hist (e # es) = (makes_durable hist e \<or> (\<not> discards e \<and> saved (hist @ [e]) es))"

fun lost :: "conn_event list \<Rightarrow> conn_event list \<Rightarrow> bool" where
  "lost hist [] = False"
| "lost hist (e # es) = (\<not> makes_durable hist e \<and> (discards e \<or> lost (hist @ [e]) es))"

definition still_open :: "conn_event list \<Rightarrow> conn_event list \<Rightarrow> bool" where
  "still_open hist es \<longleftrightarrow> \<not> saved hist es \<and> \<not> lost hist es"

fun stmt_of :: "conn_event \<Rightarrow> (db \<Rightarrow> db) list" where
  "stmt_of (Execute h g) = [g]"
| "stmt_of _ = []"

definition all_statements :: "conn_event list \<Rightarrow> (db \<Rightarrow> db) list" where
  "all_statements es = concat (map stmt_of es)"

text \<open>The statements of a history, each judged by what came up to it and what came after.\<close>

fun those_that :: "(conn_event list \<Rightarrow> conn_event list \<Rightarrow> bool) \<Rightarrow> conn_event list \<Rightarrow> conn_event list \<Rightarrow> (db \<Rightarrow> db) list" where
  "those_that P hist [] = []"
| "those_that P hist (e # es) =
     (if P (hist @ [e]) es then stmt_of e else []) @ those_that P (hist @ [e]) es"

definition committed :: "conn_event list \<Rightarrow> (db \<Rightarrow> db) list" where
  "committed es = those_that saved [] es"

definition uncommitted :: "conn_event list \<Rightarrow> (db \<Rightarrow> db) list" where
  "uncommitted es = those_that still_open [] es"

abbreviation apply_all :: "(db \<Rightarrow> db) list \<Rightarrow> db \<Rightarrow> db" where
  "apply_all gs d \<equiv> fold (\<lambda>g d. g d) gs d"

text \<open>Of a piece of a history, what lies before its last unlocked commit.\<close>

definition is_bare :: "conn_event \<Rightarrow> bool" where
  "is_bare e = (case e of BareCommit g \<Rightarrow> True | _ \<Rightarrow> False)"

definition up_to_bare :: "conn_event list \<Rightarrow> conn_event list" where
  "up_to_bare es = rev (dropWhile (\<lambda>e. \<not> is_bare e) (rev es))"

section \<open>Runs and their histories\<close>

lemma conn_run_append_iff: "conn_run c (es @ fs) c'' \<longleftrightarrow> (\<exists>c'. conn_run c es c' \<and> conn_run c' fs c'')"
  by (induction es arbitrary: c) (auto simp: conn_run_simps)

lemma conn_run_snoc: "conn_run c (es @ [e]) c'' \<longleftrightarrow> (\<exists>c'. conn_run c es c' \<and> conn_step c' e c'')"
  by (simp add: conn_run_append_iff conn_run_simps)

lemma all_statements_simps [simp]:
  "all_statements [] = []" "all_statements (es @ fs) = all_statements es @ all_statements fs"
  "all_statements (e # es) = stmt_of e @ all_statements es"
  by (simp_all add: all_statements_def)

lemma open_tx_simps:
  "\<not> open_tx f []"
  "open_tx f (es @ [e]) = (if e = Begin f then True else if ends_tx f e then False else open_tx f es)"
  by (simp_all add: open_tx_def)

text \<open>The lock is held by the flow whose transaction is open.\<close>

lemma lock_trace:
  "conn_run (quiet_conn d) es c \<Longrightarrow> co_lock c = Some f \<longleftrightarrow> open_tx f es"
proof (induction es arbitrary: c rule: rev_induct)
  case Nil
  then show ?case by (simp add: conn_run_simps open_tx_simps quiet_conn_def)
next
  case (snoc e es)
  then obtain b where b: "conn_run (quiet_conn d) es b" "conn_step b e c" by (auto simp: conn_run_snoc)
  from snoc.IH [OF b(1)] b(2) show ?case
    by (cases e) (auto simp: open_tx_simps ends_tx_def)
qed

lemma saved_not_lost: "saved hist es \<Longrightarrow> \<not> lost hist es"
  by (induction es arbitrary: hist) auto

lemma saved_snoc: "saved hist (es @ [e]) \<longleftrightarrow> saved hist es \<or> (\<not> lost hist es \<and> makes_durable (hist @ es) e)"
  by (induction es arbitrary: hist) auto

lemma lost_snoc:
  "lost hist (es @ [e]) \<longleftrightarrow> lost hist es \<or> (still_open hist es \<and> \<not> makes_durable (hist @ es) e \<and> discards e)"
  by (induction es arbitrary: hist) (auto simp: still_open_def)

lemma those_that_cong:
  "(\<And>h r. h @ r = hist @ es \<Longrightarrow> P h r = Q h r) \<Longrightarrow> those_that P hist es = those_that Q hist es"
  by (induction es arbitrary: hist) auto

lemma those_that_none: "(\<And>h r. h @ r = hist @ es \<Longrightarrow> \<not> P h r) \<Longrightarrow> those_that P hist es = []"
  by (induction es arbitrary: hist) auto

lemma those_that_snoc:
  "those_that P hist (es @ [e]) =
     those_that (\<lambda>h r. P h (r @ [e])) hist es @ (if P (hist @ es @ [e]) [] then stmt_of e else [])"
  by (induction es arbitrary: hist) auto

lemma none_saved: "still_open hist es \<Longrightarrow> those_that saved hist es = []"
  by (induction es arbitrary: hist) (auto simp: still_open_def)

text \<open>What is not lost is what is saved, followed by what is still open.\<close>

lemma not_lost_split:
  "those_that (\<lambda>h r. \<not> lost h r) hist es = those_that saved hist es @ those_that still_open hist es"
proof (induction es arbitrary: hist)
  case (Cons e es)
  then show ?case
    using saved_not_lost [of "hist @ [e]" es] none_saved [of "hist @ [e]" es]
    by (cases "saved (hist @ [e]) es"; cases "lost (hist @ [e]) es") (auto simp: still_open_def)
qed simp

lemma history_commit:
  assumes "makes_durable es e"
  shows "committed (es @ [e]) = committed es @ uncommitted es" "uncommitted (es @ [e]) = []"
proof -
  have s: "stmt_of e = []" using assms by (cases e) (simp_all add: makes_durable_def)
  have "those_that (\<lambda>h r. saved h (r @ [e])) [] es = those_that (\<lambda>h r. \<not> lost h r) [] es"
    using assms by (intro those_that_cong) (auto simp: saved_snoc dest: saved_not_lost)
  then show "committed (es @ [e]) = committed es @ uncommitted es"
    by (simp add: committed_def uncommitted_def those_that_snoc s not_lost_split)
  have "those_that (\<lambda>h r. still_open h (r @ [e])) [] es = []"
    using assms by (intro those_that_none) (auto simp: still_open_def saved_snoc lost_snoc)
  then show "uncommitted (es @ [e]) = []" by (simp add: uncommitted_def those_that_snoc s)
qed

lemma history_discard:
  assumes "discards e"
  shows "committed (es @ [e]) = committed es" "uncommitted (es @ [e]) = []"
proof -
  have s: "stmt_of e = []" "\<not> makes_durable h e" for h
    using assms by (cases e; simp add: makes_durable_def discards_def)+
  show "committed (es @ [e]) = committed es"
    by (simp add: committed_def those_that_snoc s saved_snoc)
  have "those_that (\<lambda>h r. still_open h (r @ [e])) [] es = []"
    using assms s(2) by (intro those_that_none) (auto simp: still_open_def saved_snoc lost_snoc)
  then show "uncommitted (es @ [e]) = []" by (simp add: uncommitted_def those_that_snoc s)
qed

lemma history_other:
  assumes "\<not> makes_durable es e" "\<not> discards e"
  shows "committed (es @ [e]) = committed es" "uncommitted (es @ [e]) = uncommitted es @ stmt_of e"
proof -
  have s: "those_that (\<lambda>h r. saved h (r @ [e])) [] es = those_that saved [] es"
    using assms by (intro those_that_cong) (auto simp: saved_snoc)
  have u: "those_that (\<lambda>h r. still_open h (r @ [e])) [] es = those_that still_open [] es"
    using assms by (intro those_that_cong) (auto simp: still_open_def saved_snoc lost_snoc)
  show "committed (es @ [e]) = committed es" by (simp add: committed_def those_that_snoc s)
  show "uncommitted (es @ [e]) = uncommitted es @ stmt_of e"
    unfolding uncommitted_def those_that_snoc u by (simp add: still_open_def)
qed

text \<open>Every run: what is durable and what the connection sees, from the history alone.\<close>

lemma durable_trace:
  "conn_run (quiet_conn d) es c \<Longrightarrow>
     co_durable c = apply_all (committed es) d
     \<and> co_working c = apply_all (committed es @ uncommitted es) d"
proof (induction es arbitrary: c rule: rev_induct)
  case Nil
  then show ?case by (simp add: conn_run_simps quiet_conn_def committed_def uncommitted_def)
next
  case (snoc e es)
  then obtain b where b: "conn_run (quiet_conn d) es b" "conn_step b e c" by (auto simp: conn_run_snoc)
  note ih = snoc.IH [OF b(1)] and lk = lock_trace [OF b(1)]
  consider "makes_durable es e" | "discards e" "\<not> makes_durable es e" | "\<not> makes_durable es e" "\<not> discards e" by blast
  then show ?case
  proof cases
    case 1
    then have "co_durable c = co_working b \<and> co_working c = co_working b"
      using b(2) lk by (cases e) (auto simp: makes_durable_def)
    with ih history_commit [OF 1] show ?thesis by simp
  next
    case 2
    then have "co_durable c = co_durable b \<and> co_working c = co_durable b"
      using b(2) by (cases e) (auto simp: discards_def)
    with ih history_discard [OF 2(1), of es] show ?thesis by simp
  next
    case 3
    then have "co_durable c = co_durable b \<and> co_working c = apply_all (stmt_of e) (co_working b)"
      using b(2) lk by (cases e) (auto simp: makes_durable_def discards_def)
    with ih history_other [OF 3] show ?thesis by simp
  qed
qed

lemma up_to_bare_snoc: "up_to_bare (es @ [e]) = (if is_bare e then es @ [e] else up_to_bare es)"
  by (simp add: up_to_bare_def)

text \<open>Inside a transaction only the unlocked commits make anything durable.\<close>

lemma locked_run:
  "conn_run c es c' \<Longrightarrow> co_lock c = Some f \<Longrightarrow> (\<forall>e \<in> set es. \<not> ends_tx f e) \<Longrightarrow>
     co_lock c' = Some f \<and> co_working c' = apply_all (all_statements es) (co_working c)
     \<and> co_durable c' = (if \<exists>e \<in> set es. is_bare e then apply_all (all_statements (up_to_bare es)) (co_working c)
                        else co_durable c)"
proof (induction es arbitrary: c' rule: rev_induct)
  case Nil
  then show ?case by (simp add: conn_run_simps)
next
  case (snoc e es)
  then obtain b where b: "conn_run c es b" "conn_step b e c'" by (auto simp: conn_run_snoc)
  with snoc show ?case
    by (cases e) (auto simp: ends_tx_def is_bare_def up_to_bare_snoc)
qed

section \<open>Properties\<close>

text \<open>C7: A transaction is all or nothing, up to the unlocked commits of the maintenance run. Take
  any history of the shared connection in which a flow enters its outermost transaction and has not
  left it yet, whatever statements, commits and transaction attempts of other flows surround and
  interleave it. Without an unlocked commit inside, what is durable is what was committed before
  the transaction, read off the history alone: no statement of the body, and no statement another
  flow left open, has become durable. With one, everything executed up to the last of them is
  durable, and nothing after it. The commit of the transaction makes all of its statements durable
  in order, after what was committed and what was open before; a rollback and a crash both return
  the connection to what is durable.\<close>

theorem transaction_atomic:
  assumes run: "conn_run (quiet_conn d) (pre @ Begin f # body) c"
    and outermost: "\<not> open_tx f pre"
    and inside: "\<forall>e \<in> set body. \<not> ends_tx f e"
  shows "co_durable c =
       (if \<exists>e \<in> set body. is_bare e
        then apply_all (committed pre @ uncommitted pre @ all_statements (up_to_bare body)) d
        else apply_all (committed pre) d)
     \<and> (\<exists>c'. conn_step c (TxCommit f) c'
          \<and> co_durable c' = apply_all (committed pre @ uncommitted pre @ all_statements body) d)
     \<and> (\<exists>c'. conn_step c (TxRollback f) c' \<and> conn_step c Crash c'
          \<and> co_durable c' = co_durable c \<and> co_working c' = co_durable c \<and> co_lock c' = None)"
proof -
  from run obtain a where a: "conn_run (quiet_conn d) pre a" and b: "conn_run a (Begin f # body) c"
    by (auto simp: conn_run_append_iff)
  have "co_lock a \<noteq> Some f" using lock_trace [OF a] outermost by simp
  with b have "conn_run (a\<lparr>co_lock := Some f\<rparr>) body c" by (auto simp: conn_run_simps)
  from locked_run [OF this _ inside] durable_trace [OF a] show ?thesis by simp
qed

text \<open>One flow's uncommitted statement is outside, a transaction of another flow commits while the
  first flow waits; then a transaction in which the maintenance run commits dies half-way.\<close>

lemma transaction_atomic_witness:
  "\<exists>c. conn_run (quiet_conn empty_db)
      [Execute 2 (ensure_mailbox ''x''), Begin 1, Execute 1 (ensure_mailbox ''a''), Commit 1,
       BareCommit 3, Execute 1 (ensure_mailbox ''b'')] c
    \<and> co_durable c = ensure_mailbox ''a'' (ensure_mailbox ''x'' empty_db)
    \<and> (\<exists>c'. conn_step c (TxCommit 1) c'
         \<and> co_durable c' = ensure_mailbox ''b'' (ensure_mailbox ''a'' (ensure_mailbox ''x'' empty_db)))"
proof -
  let ?pre = "[Execute 2 (ensure_mailbox ''x'')]"
  let ?body = "[Execute 1 (ensure_mailbox ''a''), Commit 1, BareCommit 3, Execute 1 (ensure_mailbox ''b'')]"
  let ?x = "ensure_mailbox ''x'' empty_db"
  let ?c = "\<lparr>co_durable = ensure_mailbox ''a'' ?x, co_working = ensure_mailbox ''b'' (ensure_mailbox ''a'' ?x),
             co_lock = Some 1\<rparr>"
  have r: "conn_run (quiet_conn empty_db) (?pre @ Begin 1 # ?body) ?c"
    by (simp add: conn_run_simps quiet_conn_def)
  have o: "\<not> open_tx 1 ?pre" by (simp add: open_tx_def ends_tx_def)
  have i: "\<forall>e \<in> set ?body. \<not> ends_tx 1 e" by (simp add: ends_tx_def)
  have s: "committed ?pre = []" "uncommitted ?pre = [ensure_mailbox ''x'']"
    by (simp_all add: committed_def uncommitted_def still_open_def)
  from transaction_atomic [OF r o i] r show ?thesis
    by (intro exI [of _ ?c]) (simp add: s is_bare_def up_to_bare_def)
qed

section \<open>The maintenance run beside a transaction\<close>

text \<open>Alone on the connection the maintenance run makes durable what \<open>run_maintenance\<close> computes.\<close>

lemma maintenance_refines:
  assumes "0 < days" "run_maintenance now days keep d = (Inr n, d')"
  shows "conn_run (quiet_conn d) (maintenance_events g now days keep) (quiet_conn d')"
  using assms
  by (simp add: maintenance_events_def Let_def conn_run_simps quiet_conn_def run_maintenance_def bnd_def step_def ret_def
      split: prod.splits sum.splits)

text \<open>In the middle of a transaction of another flow it commits the first half of that transaction,
  which the crash that follows does not take back.\<close>

theorem maintenance_tears_transaction:
  assumes "0 < days" "run_maintenance now days keep (w d) = (Inr n, d')"
  shows "conn_run (quiet_conn d) ([Begin f, Execute f w] @ maintenance_events g now days keep @ [Execute f w', Crash])
           (quiet_conn d')"
  using assms
  by (simp add: maintenance_events_def Let_def conn_run_simps quiet_conn_def run_maintenance_def bnd_def step_def ret_def
      split: prod.splits sum.splits)

text \<open>A rolled-back transaction takes other flows with it. A statement that another flow
  executes while a transaction is open, and whose own commit can only run after the rollback,
  is lost: its commit makes durable a database without the write, although no step of that
  flow failed.\<close>

theorem rollback_discards_bystander:
  assumes "f \<noteq> g"
  shows "\<exists>c'. conn_run (quiet_conn d)
            [Begin f, Execute g w, TxRollback f, Commit g] c'
          \<and> co_durable c' = d \<and> co_working c' = d
     \<and> (\<forall>c''. conn_run (quiet_conn d) [Begin f, Execute g w, Commit g] c'' \<longrightarrow> False)"
proof -
  have "conn_run (quiet_conn d) [Begin f, Execute g w, TxRollback f, Commit g] (quiet_conn d)"
    by (simp add: conn_run_simps quiet_conn_def)
  moreover have "conn_run (quiet_conn d) [Begin f, Execute g w, Commit g] c'' \<Longrightarrow> False" for c''
    using assms by (auto simp: quiet_conn_def conn_run_simps)
  moreover have "co_durable (quiet_conn d) = d" "co_working (quiet_conn d) = d"
    by (simp_all add: quiet_conn_def)
  ultimately show ?thesis by blast
qed

lemma rollback_discards_bystander_witness:
  "\<exists>c'. conn_run (quiet_conn empty_db)
      [Begin 1, Execute 2 (ensure_mailbox ''owner''), TxRollback 1, Commit 2] c'
    \<and> ''owner'' \<notin> set (mailbox_ids (co_durable c'))"
proof -
  have n: "(1::nat) \<noteq> 2" by simp
  from rollback_discards_bystander [OF n, of empty_db "ensure_mailbox ''owner''"]
  obtain c' where "conn_run (quiet_conn empty_db)
      [Begin 1, Execute 2 (ensure_mailbox ''owner''), TxRollback 1, Commit 2] c'"
    "co_durable c' = empty_db" by (elim exE conjE) blast
  then show ?thesis by (intro exI [of _ c']) (simp add: empty_db_def mailbox_ids_def)
qed

text \<open>The single-flow transaction of the model is this one. Running a body as one flow's
  transaction, with its rollback when it raises, leaves durable and visible exactly the
  database \<open>in_transaction\<close> computes (up to the count of drawn identifiers, which no
  rollback gives back).\<close>

theorem in_transaction_refines:
  "\<exists>c. conn_run (quiet_conn d)
      [Begin f, Execute f (\<lambda>d. snd (m d)),
       (case fst (m d) of Inl e \<Rightarrow> TxRollback f | Inr a \<Rightarrow> TxCommit f)] c
     \<and> co_lock c = None \<and> co_durable c = co_working c
     \<and> roll_back (co_durable c) (snd (m d)) = roll_back (snd (in_transaction m d)) (snd (m d))
     \<and> fst (in_transaction m d) = fst (m d)"
proof -
  obtain r d' where m: "m d = (r, d')" by (cases "m d")
  show ?thesis
  proof (cases r)
    case (Inl e)
    with m show ?thesis
      by (intro exI [of _ "quiet_conn d"])
        (simp add: conn_run_simps quiet_conn_def in_transaction_def roll_back_def)
  next
    case (Inr a)
    with m show ?thesis
      by (intro exI [of _ "quiet_conn d'"])
        (simp add: conn_run_simps quiet_conn_def in_transaction_def roll_back_def)
  qed
qed

end
