(* ===== verification/Uuid7.thy ===== *)
theory Uuid7
  imports Py_Str "HOL-Library.Word" "HOL-Library.List_Lexorder" "HOL-Library.Char_ord"
begin

text \<open>
  \<open>_uuid7\<close> of \<open>sqlite_impl.py\<close>: identifiers that sort by the millisecond they were drawn
  in. The clock and the ten random bytes are arguments.
\<close>

unbundle bit_operations_syntax

section \<open>The identifier\<close>

definition hex2 :: "8 word \<Rightarrow> string" where
  "hex2 b = [hex_digit (unat b div 16), hex_digit (unat b mod 16)]"

definition byte_of :: "int \<Rightarrow> 8 word" where
  "byte_of i = word_of_int (i AND 0xFF)"

definition uuid7_bytes :: "int \<Rightarrow> 8 word list \<Rightarrow> 8 word list" where
  "uuid7_bytes ms rand =
     [byte_of (drop_bit 40 ms), byte_of (drop_bit 32 ms), byte_of (drop_bit 24 ms),
      byte_of (drop_bit 16 ms), byte_of (drop_bit 8 ms), byte_of ms,
      0x70 OR (rand ! 0 AND 0x0F), rand ! 1, 0x80 OR (rand ! 2 AND 0x3F)]
     @ take 7 (drop 3 rand)"

definition dashed :: "string \<Rightarrow> string" where
  "dashed h = take 8 h @ ''-'' @ take 4 (drop 8 h) @ ''-'' @ take 4 (drop 12 h) @ ''-'' @
     take 4 (drop 16 h) @ ''-'' @ drop 20 h"

definition uuid7 :: "int \<Rightarrow> 8 word list \<Rightarrow> string" where
  "uuid7 ms rand = dashed (concat (map hex2 (uuid7_bytes ms rand)))"

section \<open>Fixed-width hexadecimal\<close>

fun hexn :: "nat \<Rightarrow> nat \<Rightarrow> string" where
  "hexn 0 n = []"
| "hexn (Suc k) n = hexn k (n div 16) @ [hex_digit (n mod 16)]"

lemma length_hexn [simp]: "length (hexn k n) = k"
  by (induction k arbitrary: n) simp_all

lemma hex_digit_less: "a < b \<Longrightarrow> b < 16 \<Longrightarrow> hex_digit a < hex_digit b"
  by (simp add: hex_digit_def less_char_def)

lemma less_append_same_length:
  "(u :: string) < w \<Longrightarrow> length w \<le> length u \<Longrightarrow> u @ v < w @ z"
  unfolding list_less_def by (rule lexord_sufI)

lemma less_append_prefix: "(u :: string) < w \<Longrightarrow> p @ u < p @ w"
  unfolding list_less_def by (rule lexord_append_leftI)

lemma hexn_less: "n < n' \<Longrightarrow> n' < 16 ^ k \<Longrightarrow> hexn k n < hexn k n'"
proof (induction k arbitrary: n n')
  case (Suc k)
  show ?case
  proof (cases "n div 16 < n' div 16")
    case True
    have "n' div 16 < 16 ^ k" using Suc.prems(2) by (simp add: less_mult_imp_div_less)
    from Suc.IH [OF True this] show ?thesis by (simp add: less_append_same_length)
  next
    case False
    with Suc.prems(1) have eq: "n div 16 = n' div 16" by (simp add: div_le_mono le_antisym less_imp_le)
    with Suc.prems(1) have "n mod 16 < n' mod 16"
      by (metis add_less_cancel_left mult_div_mod_eq)
    then have "hex_digit (n mod 16) < hex_digit (n' mod 16)" by (simp add: hex_digit_less)
    then show ?thesis by (simp add: eq less_append_prefix)
  qed
qed simp

lemma mod_div_swap: "0 < b \<Longrightarrow> n mod (b * c) div b = n div b mod (c :: nat)"
  by (simp add: mod_mult2_eq)

lemma hexn_2_bytes: "hexn (k + 2) n = hexn k (n div 256) @ hexn 2 (n mod 256)"
proof -
  have "n div 16 div 16 = n div 256" by (simp flip: div_mult2_eq)
  moreover have "n div 16 mod 16 = n mod 256 div 16"
    using mod_div_swap [of 16 n 16] by simp
  moreover have "n mod 16 = n mod 256 mod 16" by (simp add: mod_mod_cancel)
  moreover have "n mod 256 div 16 < 16" by (simp add: div_less_iff_less_mult)
  ultimately show ?thesis by (simp add: numeral_2_eq_2)
qed

lemma unat_byte_of: "0 \<le> i \<Longrightarrow> unat (byte_of i) = nat i mod 256"
proof -
  assume i: "0 \<le> i"
  have "i AND 0xFF = i mod 256" using take_bit_eq_mask [of 8 i]
    by (simp add: take_bit_eq_mod mask_eq_exp_minus_1)
  then have "uint (byte_of i) = i mod 256"
    by (simp add: byte_of_def uint_word_of_int)
  then show ?thesis using i by (metis nat_mod_distrib nat_numeral unat_eq_nat_uint zero_le_numeral)
qed

lemma hex_digit_chars:
  "hex_digit 7 = CHR ''7''" "hex_digit 8 = CHR ''8''" "hex_digit 9 = CHR ''9''"
  "hex_digit 10 = CHR ''a''" "hex_digit 11 = CHR ''b''"
  by code_simp+

lemma hex2_byte: "0 \<le> i \<Longrightarrow> hex2 (byte_of i) = hexn 2 (nat i mod 256)"
  by (simp add: hex2_def unat_byte_of numeral_2_eq_2)

section \<open>The text of an identifier\<close>

lemma hex2_length [simp]: "length (hex2 b) = 2"
  by (simp add: hex2_def)

lemma nat_shift: "0 \<le> ms \<Longrightarrow> nat (drop_bit k ms) = nat ms div 2 ^ k"
  by (simp add: drop_bit_eq_div nat_div_distrib nat_power_eq)

lemma time_bytes:
  assumes "0 \<le> ms" "ms < 2 ^ 48"
  shows "concat (map hex2 [byte_of (drop_bit 40 ms), byte_of (drop_bit 32 ms),
      byte_of (drop_bit 24 ms), byte_of (drop_bit 16 ms)]) = hexn 8 (nat ms div 2 ^ 16)"
    and "concat (map hex2 [byte_of (drop_bit 8 ms), byte_of ms]) = hexn 4 (nat ms mod 2 ^ 16)"
proof -
  let ?n = "nat ms"
  have pos: "0 \<le> drop_bit k ms" for k using assms(1) by simp
  have top: "?n div 2 ^ 16 div 256 div 256 div 256 = ?n div 2 ^ 40"
    by (simp flip: div_mult2_eq)
  have lt: "?n div 2 ^ 40 < 256"
    using assms by (simp add: div_less_iff_less_mult nat_less_iff)
  have n8: "hexn 8 m = hexn 2 (m div 256 div 256 div 256) @ hexn 2 (m div 256 div 256 mod 256)
      @ hexn 2 (m div 256 mod 256) @ hexn 2 (m mod 256)" for m
    using hexn_2_bytes [of 6 m] hexn_2_bytes [of 4 "m div 256"] hexn_2_bytes [of 2 "m div 256 div 256"]
    by simp
  have d: "?n div 2 ^ 16 div 256 = ?n div 2 ^ 24" "?n div 2 ^ 24 div 256 = ?n div 2 ^ 32"
    "?n div 2 ^ 32 div 256 = ?n div 2 ^ 40"
    by (simp_all flip: div_mult2_eq)
  show "concat (map hex2 [byte_of (drop_bit 40 ms), byte_of (drop_bit 32 ms),
      byte_of (drop_bit 24 ms), byte_of (drop_bit 16 ms)]) = hexn 8 (?n div 2 ^ 16)"
    using lt assms(1) by (simp only: n8 d list.map concat.simps hex2_byte [OF pos] nat_shift append_Nil2
        mod_less)
  have n4: "hexn 4 m = hexn 2 (m div 256) @ hexn 2 (m mod 256)" for m
    using hexn_2_bytes [of 2 m] by simp
  have m: "?n mod 2 ^ 16 div 256 = ?n div 2 ^ 8 mod 256" "?n mod 2 ^ 16 mod 256 = ?n mod 256"
    using mod_div_swap [of 256 ?n 256] mod_mod_cancel [of 256 "2 ^ 16" ?n] by simp_all
  show "concat (map hex2 [byte_of (drop_bit 8 ms), byte_of ms]) = hexn 4 (?n mod 2 ^ 16)"
    using assms(1) by (simp only: n4 m list.map concat.simps hex2_byte [OF pos] hex2_byte nat_shift
        append_Nil2)
qed

lemma uuid7_text:
  assumes "0 \<le> ms" "ms < 2 ^ 48"
  shows "\<exists>z. uuid7 ms rand = hexn 8 (nat ms div 2 ^ 16) @ ''-'' @ hexn 4 (nat ms mod 2 ^ 16) @ z"
proof -
  let ?h = "concat (map hex2 (uuid7_bytes ms rand))"
  obtain rest where h: "?h = hexn 8 (nat ms div 2 ^ 16) @ hexn 4 (nat ms mod 2 ^ 16) @ rest"
    unfolding time_bytes [OF assms, symmetric] by (simp add: uuid7_bytes_def)
  show ?thesis
    unfolding uuid7_def h dashed_def by simp
qed

text \<open>The nibbles of the version and of the variant.\<close>

lemma high_nibble: "unat (w :: 8 word) div 16 = unat (drop_bit 4 w)"
  using unat_drop_bit_eq [of 4 w] by (simp add: drop_bit_eq_div unat_div)

lemma version_nibble: "unat (0x70 OR (x AND 0x0F) :: 8 word) div 16 = 7"
  by (simp add: high_nibble drop_bit_or drop_bit_and)

lemma low_two_bits: "(x :: 8 word) AND 3 \<in> {0, 1, 2, 3}"
proof -
  have "unat (x AND 3) = unat x mod 4"
    using take_bit_eq_mask [of 2 x] unsigned_take_bit_eq [of 2 x, where 'a = nat]
    by (simp add: mask_eq_exp_minus_1 take_bit_eq_mod)
  then have "unat (x AND 3) < 4" by simp
  then have "unat (x AND 3) = 0 \<or> unat (x AND 3) = 1 \<or> unat (x AND 3) = 2 \<or> unat (x AND 3) = 3"
    by linarith
  moreover have "x AND 3 = word_of_nat k" if "unat (x AND 3) = k" for k
    using that by (simp flip: that)
  ultimately have "x AND 3 = word_of_nat 0 \<or> x AND 3 = word_of_nat 1 \<or> x AND 3 = word_of_nat 2
      \<or> x AND 3 = word_of_nat 3"
    by blast
  then show ?thesis by simp
qed

lemma variant_nibble: "unat (0x80 OR (x AND 0x3F) :: 8 word) div 16 \<in> {8, 9, 10, 11}"
proof -
  have "drop_bit 4 (0x80 OR (x AND 0x3F)) = 8 OR (drop_bit 4 x AND 3 :: 8 word)"
    by (simp add: drop_bit_or drop_bit_and)
  then show ?thesis using low_two_bits [of "drop_bit 4 x"] by (auto simp: high_nibble)
qed

section \<open>Properties\<close>

text \<open>Identifiers sort by time. Of two identifiers drawn in different milliseconds (before
  the year 10889, when 48 bits run out) the earlier one is the smaller text, whatever the random
  bytes; every identifier has 36 characters with the dashes, the version \<open>7\<close> and the
  variant in their places.\<close>

theorem uuid7_time_ordered:
  "(0 \<le> ms \<and> ms < ms' \<and> ms' < 2 ^ 48 \<longrightarrow> uuid7 ms r < uuid7 ms' r')
   \<and> (length r = 10 \<longrightarrow>
        length (uuid7 ms r) = 36 \<and> uuid7 ms r ! 14 = CHR ''7''
        \<and> uuid7 ms r ! 19 \<in> {CHR ''8'', CHR ''9'', CHR ''a'', CHR ''b''}
        \<and> (\<forall>i \<in> {8, 13, 18, 23}. uuid7 ms r ! i = CHR ''-''))"
proof (intro conjI impI)
  assume a: "0 \<le> ms \<and> ms < ms' \<and> ms' < 2 ^ 48"
  let ?n = "nat ms" and ?m = "nat ms'"
  have nm: "?n < ?m" using a by simp
  have m48: "?m < 2 ^ 48" using a by (simp add: nat_less_iff)
  obtain z where z: "uuid7 ms r = hexn 8 (?n div 2 ^ 16) @ ''-'' @ hexn 4 (?n mod 2 ^ 16) @ z"
    using uuid7_text [of ms r] a by auto
  obtain z' where z': "uuid7 ms' r' = hexn 8 (?m div 2 ^ 16) @ ''-'' @ hexn 4 (?m mod 2 ^ 16) @ z'"
    using uuid7_text [of ms' r'] a by auto
  show "uuid7 ms r < uuid7 ms' r'"
  proof (cases "?n div 2 ^ 16 < ?m div 2 ^ 16")
    case True
    have "?m div 2 ^ 16 < 16 ^ 8" using m48 by (simp add: div_less_iff_less_mult)
    from hexn_less [OF True this] show ?thesis unfolding z z' by (rule less_append_same_length) simp
  next
    case False
    then have eq: "?n div 2 ^ 16 = ?m div 2 ^ 16" using nm by (meson div_le_mono le_antisym less_imp_le not_less)
    have "?n mod 2 ^ 16 < ?m mod 2 ^ 16"
      using nm eq by (metis add_less_cancel_left mult_div_mod_eq)
    moreover have "?m mod 2 ^ 16 < 16 ^ 4" by simp
    ultimately have "hexn 4 (?n mod 2 ^ 16) < hexn 4 (?m mod 2 ^ 16)" by (rule hexn_less)
    then have "hexn 4 (?n mod 2 ^ 16) @ z < hexn 4 (?m mod 2 ^ 16) @ z'"
      by (rule less_append_same_length) simp
    then show ?thesis unfolding z z' eq by (intro less_append_prefix)
  qed
next
  assume r: "length r = 10"
  then obtain r0 r1 r2 r3 r4 r5 r6 r7 r8 r9 where rs: "r = [r0, r1, r2, r3, r4, r5, r6, r7, r8, r9]"
    by (auto simp: length_Suc_conv numeral_eq_Suc)
  show "length (uuid7 ms r) = 36"
    by (simp add: rs uuid7_def dashed_def uuid7_bytes_def)
  show "\<forall>i \<in> {8, 13, 18, 23}. uuid7 ms r ! i = CHR ''-''"
    by (simp add: rs uuid7_def dashed_def uuid7_bytes_def hex2_def)
  have v: "unat (0x70 OR (r0 AND 0x0F) :: 8 word) div 16 = 7"
    by (rule version_nibble)
  show "uuid7 ms r ! 14 = CHR ''7''"
    by (simp add: rs uuid7_def dashed_def uuid7_bytes_def hex2_def v hex_digit_chars)
  have w: "unat (0x80 OR (r2 AND 0x3F) :: 8 word) div 16 \<in> {8, 9, 10, 11}"
    by (rule variant_nibble)
  then show "uuid7 ms r ! 19 \<in> {CHR ''8'', CHR ''9'', CHR ''a'', CHR ''b''}"
    by (auto simp: rs uuid7_def dashed_def uuid7_bytes_def hex2_def hex_digit_chars)
qed

lemma uuid7_time_ordered_witness:
  "uuid7 1000 (replicate 10 255) < uuid7 1001 (replicate 10 0)
   \<and> length (uuid7 1000 (replicate 10 255)) = 36"
  using uuid7_time_ordered [of 1000 1001 "replicate 10 255" "replicate 10 0"] by simp

end
