(* ===== verification/Blob_Store.thy ===== *)
theory Blob_Store
  imports Py_Str
begin

text \<open>
  \<open>runtime/blob_store.py\<close>: content-addressed files. The digest \<open>sha256(...).hexdigest()\<close>
  and \<open>mimetypes.guess_extension\<close> are parameters; the file system is a map from paths to
  contents, and a write that dies leaves any of the states of \<open>write_states\<close> behind.
\<close>

type_synonym fs = "string \<Rightarrow> string option"

section \<open>Operations\<close>

definition known_extensions :: "(string \<times> string) list" where
  "known_extensions =
     [(''image/png'', ''png''), (''image/jpeg'', ''jpg''), (''image/jpg'', ''jpg''),
      (''image/gif'', ''gif''), (''image/webp'', ''webp''), (''image/heic'', ''heic''),
      (''image/heif'', ''heif''), (''application/pdf'', ''pdf'')]"

definition extension_for :: "(string \<Rightarrow> string option) \<Rightarrow> string \<Rightarrow> string" where
  "extension_for guess media_type =
     (case map_of known_extensions media_type of
        Some e \<Rightarrow> e
      | None \<Rightarrow> (case guess media_type of
                   None \<Rightarrow> ''bin''
                 | Some g \<Rightarrow> (if g = [] then ''bin'' else dropWhile (\<lambda>c. c = CHR ''.'') g)))"

definition path_for :: "(string \<Rightarrow> string option) \<Rightarrow> string \<Rightarrow> string \<Rightarrow> string \<Rightarrow> string" where
  "path_for guess rootdir bid media_type =
     rootdir @ ''/blobs/'' @ bid @ ''.'' @ extension_for guess media_type"

definition blob_exists :: "(string \<Rightarrow> string option) \<Rightarrow> string \<Rightarrow> fs \<Rightarrow> string \<Rightarrow> string \<Rightarrow> bool" where
  "blob_exists guess rootdir f bid media_type \<longleftrightarrow> f (path_for guess rootdir bid media_type) \<noteq> None"

definition tmp_of :: "string \<Rightarrow> string" where
  "tmp_of path = path @ ''.tmp''"

text \<open>The states a write goes through: before, every prefix of the data in the temporary
  file, and after the rename.\<close>

definition write_states ::
    "(string \<Rightarrow> string) \<Rightarrow> (string \<Rightarrow> string option) \<Rightarrow> string \<Rightarrow> string \<Rightarrow> string \<Rightarrow> fs \<Rightarrow> fs list" where
  "write_states sha guess rootdir data media_type f =
     (let path = path_for guess rootdir (sha data) media_type; tmp = tmp_of path in
      if f path \<noteq> None then [f]
      else f # map (\<lambda>k. f(tmp \<mapsto> take k data)) [0 ..< Suc (length data)]
             @ [f(path \<mapsto> data, tmp := None)])"

definition blob_write ::
    "(string \<Rightarrow> string) \<Rightarrow> (string \<Rightarrow> string option) \<Rightarrow> string \<Rightarrow> string \<Rightarrow> string \<Rightarrow> fs \<Rightarrow> string \<times> fs" where
  "blob_write sha guess rootdir data media_type f =
     (sha data, last (write_states sha guess rootdir data media_type f))"

definition blob_read ::
    "(string \<Rightarrow> string option) \<Rightarrow> string \<Rightarrow> fs \<Rightarrow> string \<Rightarrow> string \<Rightarrow> exn + string" where
  "blob_read guess rootdir f bid media_type =
     (case f (path_for guess rootdir bid media_type) of
        None \<Rightarrow> Inl (Exn ''FileNotFoundError'' (path_for guess rootdir bid media_type))
      | Some data \<Rightarrow> Inr data)"

section \<open>The store's invariant\<close>

text \<open>What the code relies on: a digest has no dot, and neither has a guessed extension after
  its leading ones.\<close>

definition dotless :: "string \<Rightarrow> bool" where
  "dotless s \<longleftrightarrow> CHR ''.'' \<notin> set s"

definition blob_names_ok :: "(string \<Rightarrow> string) \<Rightarrow> (string \<Rightarrow> string option) \<Rightarrow> bool" where
  "blob_names_ok sha guess \<longleftrightarrow>
     (\<forall>d. dotless (sha d)) \<and> (\<forall>m. dotless (extension_for guess m))"

text \<open>Every blob's file holds a content with that digest.\<close>

definition store_ok ::
    "(string \<Rightarrow> string) \<Rightarrow> (string \<Rightarrow> string option) \<Rightarrow> string \<Rightarrow> fs \<Rightarrow> bool" where
  "store_ok sha guess rootdir f \<longleftrightarrow>
     (\<forall>d m x. f (path_for guess rootdir (sha d) m) = Some x \<longrightarrow> sha x = sha d)"

lemma dot_split:
  "dotless p \<Longrightarrow> dotless q \<Longrightarrow> p @ CHR ''.'' # x = q @ CHR ''.'' # y \<Longrightarrow> p = q \<and> x = y"
proof (induction p arbitrary: q)
  case Nil
  then show ?case by (cases q) (auto simp: dotless_def)
next
  case (Cons a p)
  then obtain q' where "q = a # q'" by (cases q) (auto simp: dotless_def)
  with Cons show ?case by (auto simp: dotless_def)
qed

lemma path_inject:
  assumes "blob_names_ok sha guess"
    and "path_for guess rootdir (sha d) m = path_for guess rootdir (sha d') m'"
  shows "sha d = sha d'"
  using assms dot_split [of "sha d" "sha d'"] by (auto simp: path_for_def blob_names_ok_def)

lemma tmp_no_blob:
  assumes "blob_names_ok sha guess"
  shows "tmp_of (path_for guess rootdir (sha d) m) \<noteq> path_for guess rootdir (sha d') m'"
proof
  assume "tmp_of (path_for guess rootdir (sha d) m) = path_for guess rootdir (sha d') m'"
  then have "sha d @ CHR ''.'' # (extension_for guess m @ ''.tmp'')
      = sha d' @ CHR ''.'' # extension_for guess m'"
    by (simp add: tmp_of_def path_for_def)
  with assms have "extension_for guess m @ ''.tmp'' = extension_for guess m'"
    using dot_split [of "sha d" "sha d'"] by (simp add: blob_names_ok_def)
  then have "CHR ''.'' \<in> set (extension_for guess m')"
    by (metis in_set_conv_decomp append_Cons)
  with assms show False by (simp add: blob_names_ok_def dotless_def)
qed

lemma write_states_cases:
  assumes "g \<in> set (write_states sha guess rootdir data m f)"
  obtains (same) "g = f"
    | (partial) k where "f (path_for guess rootdir (sha data) m) = None"
        "g = f(tmp_of (path_for guess rootdir (sha data) m) \<mapsto> take k data)"
    | (finished) "f (path_for guess rootdir (sha data) m) = None"
        "g = f(path_for guess rootdir (sha data) m \<mapsto> data, tmp_of (path_for guess rootdir (sha data) m) := None)"
proof (cases "f (path_for guess rootdir (sha data) m)")
  case None
  with assms consider "g = f"
    | k where "g = f(tmp_of (path_for guess rootdir (sha data) m) \<mapsto> take k data)"
    | "g = f(path_for guess rootdir (sha data) m \<mapsto> data,
             tmp_of (path_for guess rootdir (sha data) m) := None)"
    by (auto simp: write_states_def Let_def simp del: upt_Suc)
  then show ?thesis using None that by cases blast+
next
  case (Some x)
  with assms that show ?thesis by (simp add: write_states_def Let_def)
qed

section \<open>Properties\<close>

text \<open>A blob is never half written. In every state a write can die in, each blob's file
  holds a whole content of its digest, the blob being written is either as before or complete,
  and no other blob has changed; writing again from there completes it.\<close>

theorem blob_write_crash_safe:
  assumes "blob_names_ok sha guess" "store_ok sha guess rootdir f"
    and "g \<in> set (write_states sha guess rootdir data m f)"
  shows "store_ok sha guess rootdir g
     \<and> (g (path_for guess rootdir (sha data) m) = f (path_for guess rootdir (sha data) m)
        \<or> g (path_for guess rootdir (sha data) m) = Some data)
     \<and> (\<forall>d' m'. path_for guess rootdir (sha d') m' \<noteq> path_for guess rootdir (sha data) m \<longrightarrow>
          g (path_for guess rootdir (sha d') m') = f (path_for guess rootdir (sha d') m'))
     \<and> (\<exists>x. snd (blob_write sha guess rootdir data m g) (path_for guess rootdir (sha data) m) = Some x
            \<and> sha x = sha data)"
proof -
  let ?p = "path_for guess rootdir (sha data) m"
  have tmp: "tmp_of ?p \<noteq> path_for guess rootdir (sha d') m'" for d' m'
    using assms(1) by (rule tmp_no_blob)
  have tmp': "path_for guess rootdir (sha d') m' \<noteq> tmp_of ?p" for d' m' using tmp by metis
  have ok: "store_ok sha guess rootdir g"
    using assms(3)
  proof (cases rule: write_states_cases)
    case same
    with assms(2) show ?thesis by simp
  next
    case (partial k)
    with assms(2) tmp' show ?thesis by (simp add: store_ok_def)
  next
    case finished
    with assms(2) tmp' path_inject [OF assms(1), of rootdir data m] show ?thesis
      by (auto simp: store_ok_def) metis
  qed
  moreover have "g ?p = f ?p \<or> g ?p = Some data"
    using assms(3) by (cases rule: write_states_cases) (use tmp' in auto)
  moreover have "\<forall>d' m'. path_for guess rootdir (sha d') m' \<noteq> ?p \<longrightarrow>
          g (path_for guess rootdir (sha d') m') = f (path_for guess rootdir (sha d') m')"
    using assms(3) by (cases rule: write_states_cases) (use tmp' in auto)
  moreover have "\<exists>x. snd (blob_write sha guess rootdir data m g) ?p = Some x \<and> sha x = sha data"
  proof (cases "g ?p")
    case None
    then show ?thesis using tmp' by (simp add: blob_write_def write_states_def Let_def)
  next
    case (Some x)
    with ok show ?thesis by (auto simp: blob_write_def write_states_def Let_def store_ok_def)
  qed
  ultimately show ?thesis by blast
qed

definition demo_sha :: "string \<Rightarrow> string" where
  "demo_sha d = digits_of (length d)"

lemma demo_names_ok: "blob_names_ok demo_sha (\<lambda>m. None)"
proof -
  have "dotless (digits_of n)" for n
    using digits_of_digits [of n] by (auto simp: dotless_def is_digit_def)
  moreover have "dotless (extension_for (\<lambda>m. None) m)" for m
    by (auto simp: extension_for_def known_extensions_def dotless_def split: option.splits if_splits)
  ultimately show ?thesis by (simp add: blob_names_ok_def demo_sha_def)
qed

lemma blob_write_crash_safe_witness:
  "\<exists>x. snd (blob_write demo_sha (\<lambda>m. None) ''r'' ''abc'' ''image/png''
        ((\<lambda>p. None)(tmp_of (path_for (\<lambda>m. None) ''r'' (demo_sha ''abc'') ''image/png'') \<mapsto> ''ab'')))
      (path_for (\<lambda>m. None) ''r'' (demo_sha ''abc'') ''image/png'') = Some x
     \<and> demo_sha x = demo_sha ''abc''"
proof -
  let ?f = "\<lambda>p. None :: string option"
  let ?g = "?f(tmp_of (path_for (\<lambda>m. None) ''r'' (demo_sha ''abc'') ''image/png'') \<mapsto> ''ab'')"
  have "store_ok demo_sha (\<lambda>m. None) ''r'' ?f" by (simp add: store_ok_def)
  moreover have "?g \<in> set (write_states demo_sha (\<lambda>m. None) ''r'' ''abc'' ''image/png'' ?f)"
    by (simp add: write_states_def Let_def numeral_eq_Suc upt_rec)
  ultimately show ?thesis using blob_write_crash_safe [OF demo_names_ok] by blast
qed

end
