(* ===== verification/Future_Mail.thy ===== *)
theory Future_Mail
  imports Models
begin

text \<open>
  \<open>runtime/future_mail.py\<close>: durations, the first delivery of a scheduled mail and the next
  one of a recurring mail. A \<open>timedelta\<close> is its microseconds. The cron library
  \<open>croniter\<close> is a parameter: its validity test and its \<open>get_next\<close>.
\<close>

record croniter =
  cr_valid :: "string \<Rightarrow> bool"
  cr_next :: "string \<Rightarrow> usec \<Rightarrow> exn + usec"

text \<open>What the code relies on: the next match of an expression is a whole second strictly
  after the start.\<close>

definition cron_forward :: "croniter \<Rightarrow> bool" where
  "cron_forward cr \<longleftrightarrow>
     (\<forall>e t u. cr_next cr e t = Inr u \<longrightarrow> t < u \<and> u mod 1000000 = 0)"

section \<open>Durations\<close>

definition one_second :: usec where "one_second = 1000000"

definition max_horizon :: usec where "max_horizon = 365 * 86400 * one_second"

definition min_interval :: usec where "min_interval = 60 * one_second"

text \<open>\<open>_DURATION_RE\<close>: blanks, digits, blanks, one of \<open>s m h d w\<close>, blanks.
  (ASCII digits; \<open>\d\<close> also admits the digits of other scripts.)\<close>

definition is_digit_char :: "string \<Rightarrow> bool" where
  "is_digit_char u \<longleftrightarrow> (case u of [c] \<Rightarrow> is_digit c | _ \<Rightarrow> False)"

definition unit_chars :: "string list" where
  "unit_chars = [''s'', ''m'', ''h'', ''d'', ''w'']"

definition match_duration :: "string \<Rightarrow> (string \<times> string) option" where
  "match_duration s =
     (let us = dropWhile is_space (uchars s);
          ds = takeWhile is_digit_char us;
          rest = dropWhile is_space (dropWhile is_digit_char us)
      in if ds = [] then None
         else (case rest of
                 [] \<Rightarrow> None
               | u # rest' \<Rightarrow>
                   (if u \<in> set unit_chars \<and> dropWhile is_space rest' = []
                    then Some (concat ds, u) else None)))"

definition unit_usec :: "string \<Rightarrow> usec" where
  "unit_usec u =
     (if u = ''m'' then 60 * one_second
      else if u = ''h'' then 3600 * one_second
      else if u = ''d'' then 86400 * one_second
      else 7 * 86400 * one_second)"

text \<open>A \<open>timedelta\<close> holds at most 999999999 days; \<open>int\<close> refuses more than 4300
  digits.\<close>

definition max_timedelta :: usec where "max_timedelta = 1000000000 * 86400 * one_second"

definition parse_duration :: "string \<Rightarrow> exn + usec" where
  "parse_duration s =
     (case match_duration s of
        None \<Rightarrow> Inl (value_error (''unrecognized duration '' @ py_repr s @
            ''; expected '' @ [CHR 0x27] @ ''<int><unit>'' @ [CHR 0x27] @
            '' where unit is one of m/h/d/w''))
      | Some (ds, u) \<Rightarrow>
          (if length ds > 4300
           then Inl (value_error ''Exceeds the limit (4300 digits) for integer string conversion'')
           else (let n = int (nat_of_digits ds) in
             if u = ''s''
             then Inl (value_error (''second-grained duration '' @ py_repr s @ '' not supported''))
             else (let delta = n * unit_usec u in
               if delta \<ge> max_timedelta then Inl (Exn ''OverflowError'' ''days too large'')
               else if delta < min_interval
               then Inl (value_error (''duration '' @ py_repr s @ '' below minimum (1m)''))
               else if delta > max_horizon
               then Inl (value_error (''duration '' @ py_repr s @ '' exceeds 1-year horizon.''))
               else Inr delta))))"

definition validate_cron :: "croniter \<Rightarrow> string \<Rightarrow> exn + unit" where
  "validate_cron cr expr =
     (if (case strip expr of [] \<Rightarrow> False | c # cs \<Rightarrow> c = CHR ''@'')
      then Inl (value_error (''invalid cron expression '' @ py_repr expr @ '': special strings''))
      else if \<not> cr_valid cr expr
      then Inl (value_error (''invalid cron expression '' @ py_repr expr))
      else Inr ())"

section \<open>Reading a timestamp\<close>

text \<open>\<open>datetime.fromisoformat\<close> on the extended format: a calendar date, and optionally one
  separator character, the time of day to any precision, and a UTC offset. A datetime without
  an offset is taken as UTC. (The basic format without dashes and the week dates, which the
  library also reads, are not covered.)\<close>

definition days_in_month :: "int \<Rightarrow> int \<Rightarrow> int" where
  "days_in_month y m =
     (if m = 2 then (if y mod 4 = 0 \<and> (y mod 100 \<noteq> 0 \<or> y mod 400 = 0) then 29 else 28)
      else if m \<in> {4, 6, 9, 11} then 30 else 31)"

definition days_of_civil :: "int \<Rightarrow> int \<Rightarrow> int \<Rightarrow> int" where
  "days_of_civil y0 m d =
     (let y = (if m \<le> 2 then y0 - 1 else y0);
          era = y div 400;
          yoe = y - era * 400;
          doy = (153 * (if m > 2 then m - 3 else m + 9) + 2) div 5 + d - 1;
          doe = yoe * 365 + yoe div 4 - yoe div 100 + doy
      in era * 146097 + doe - 719468)"

definition take_num :: "nat \<Rightarrow> string \<Rightarrow> (int \<times> string) option" where
  "take_num w s =
     (if length s < w \<or> \<not> list_all is_digit (take w s) then None
      else Some (int (nat_of_digits (take w s)), drop w s))"

fun parse_date :: "string \<Rightarrow> (int \<times> string) option" where
  "parse_date s =
     (case take_num 4 s of
        Some (y, CHR ''-'' # s1) \<Rightarrow>
          (case take_num 2 s1 of
             Some (m, CHR ''-'' # s2) \<Rightarrow>
               (case take_num 2 s2 of
                  Some (d, s3) \<Rightarrow>
                    (if 1 \<le> y \<and> 1 \<le> m \<and> m \<le> 12 \<and> 1 \<le> d \<and> d \<le> days_in_month y m
                     then Some (days_of_civil y m d, s3) else None)
                | None \<Rightarrow> None)
           | _ \<Rightarrow> None)
      | _ \<Rightarrow> None)"

text \<open>Fraction of a second: any number of digits, of which six count.\<close>

definition parse_fraction :: "string \<Rightarrow> (int \<times> string) option" where
  "parse_fraction s =
     (case s of
        c # cs \<Rightarrow>
          (if c = CHR ''.'' \<or> c = CHR '',''
           then (let ds = takeWhile is_digit cs in
                 if ds = [] then None
                 else Some (int (nat_of_digits (take 6 (ds @ replicate 6 (CHR ''0'')))),
                            dropWhile is_digit cs))
           else Some (0, s))
      | [] \<Rightarrow> Some (0, s))"

text \<open>\<open>HH[:MM[:SS[.ffffff]]]\<close>, in microseconds.\<close>

definition parse_clock :: "string \<Rightarrow> (usec \<times> string) option" where
  "parse_clock s =
     (case take_num 2 s of
        None \<Rightarrow> None
      | Some (h, CHR '':'' # s1) \<Rightarrow>
          (case take_num 2 s1 of
             None \<Rightarrow> None
           | Some (mi, CHR '':'' # s2) \<Rightarrow>
               (case take_num 2 s2 of
                  None \<Rightarrow> None
                | Some (sec, s3) \<Rightarrow>
                    (case parse_fraction s3 of
                       None \<Rightarrow> None
                     | Some (f, s4) \<Rightarrow>
                         (if h < 24 \<and> mi < 60 \<and> sec < 60
                          then Some (((h * 60 + mi) * 60 + sec) * one_second + f, s4) else None)))
           | Some (mi, s2) \<Rightarrow>
               (if h < 24 \<and> mi < 60 then Some ((h * 60 + mi) * 60 * one_second, s2) else None))
      | Some (h, s1) \<Rightarrow> (if h < 24 then Some (h * 3600 * one_second, s1) else None))"

definition parse_offset :: "string \<Rightarrow> usec option" where
  "parse_offset s =
     (case s of
        [] \<Rightarrow> Some 0
      | CHR ''Z'' # [] \<Rightarrow> Some 0
      | c # cs \<Rightarrow>
          (if c = CHR ''+'' \<or> c = CHR ''-''
           then (case parse_clock cs of
                   Some (o', []) \<Rightarrow> Some (if c = CHR ''-'' then - o' else o')
                 | _ \<Rightarrow> None)
           else None))"

definition drop_char :: "string \<Rightarrow> string" where
  "drop_char s = concat (drop 1 (uchars s))"

definition fromisoformat :: "string \<Rightarrow> usec option" where
  "fromisoformat s =
     (case parse_date s of
        None \<Rightarrow> None
      | Some (day, []) \<Rightarrow> Some (day * 86400 * one_second)
      | Some (day, s1) \<Rightarrow>
          (case parse_clock (drop_char s1) of
             None \<Rightarrow> None
           | Some (t, s2) \<Rightarrow>
               map_option (\<lambda>off. day * 86400 * one_second + t - off) (parse_offset s2)))"

text \<open>\<open>text.replace("Z", "+00:00")\<close>.\<close>

definition replace_z :: "string \<Rightarrow> string" where
  "replace_z s = concat (map (\<lambda>c. if c = CHR ''Z'' then ''+00:00'' else [c]) s)"

definition isoformat :: "usec \<Rightarrow> string" where
  "isoformat t =
     sec_text (t div one_second) @
     (if t mod one_second = 0 then [] else ''.'' @ pad 6 (t mod one_second)) @ ''+00:00''"

section \<open>First and next delivery\<close>

definition past_delivery_error :: "usec \<Rightarrow> usec \<Rightarrow> exn" where
  "past_delivery_error scheduled current =
     Exn ''PastDeliveryError''
       (''deliver_at '' @ isoformat scheduled @ '' is in the past. Current UTC is '' @
        isoformat current)"

definition within_horizon :: "usec \<Rightarrow> usec \<Rightarrow> exn + usec" where
  "within_horizon now first =
     (if first > now + max_horizon
      then Inl (value_error (''first delivery '' @ isoformat first @
             '' is more than 1 year out (current UTC '' @ isoformat now @ '')''))
      else Inr first)"

text \<open>\<open>deliver_at\<close> is text or absent, as the tools pass it.\<close>

definition resolve_first_fire ::
    "croniter \<Rightarrow> string option \<Rightarrow> string option \<Rightarrow> string option \<Rightarrow> usec \<Rightarrow> exn + usec" where
  "resolve_first_fire cr deliver_at deliver_in recur_cron now =
     (case (deliver_at, deliver_in, recur_cron) of
        (Some a, Some i, _) \<Rightarrow>
          Inl (value_error ''pass at most one of deliver_at / deliver_in'')
      | (Some a, None, _) \<Rightarrow>
          (case fromisoformat (replace_z a) of
             None \<Rightarrow> Inl (value_error (''deliver_at must be ISO 8601; got '' @ py_repr a))
           | Some t \<Rightarrow>
               (let first = trunc_sec t in
                if first \<le> now then Inl (past_delivery_error first now)
                else within_horizon now first))
      | (None, Some i, _) \<Rightarrow>
          (case parse_duration i of
             Inl e \<Rightarrow> Inl e
           | Inr delta \<Rightarrow> within_horizon now (now + delta))
      | (None, None, Some c) \<Rightarrow>
          (case validate_cron cr c of
             Inl e \<Rightarrow> Inl e
           | Inr u \<Rightarrow>
               (case cr_next cr c now of
                  Inl e \<Rightarrow> Inl e
                | Inr t \<Rightarrow> within_horizon now (trunc_sec t)))
      | (None, None, None) \<Rightarrow>
          Inl (value_error ''must supply one of deliver_at, deliver_in, or recur_cron''))"

definition cap_until :: "usec option \<Rightarrow> usec \<Rightarrow> usec option" where
  "cap_until recur_until next_at =
     (case recur_until of
        None \<Rightarrow> Some next_at
      | Some u \<Rightarrow> (if next_at > u then None else Some next_at))"

definition compute_next_fire ::
    "croniter \<Rightarrow> recur_kind option \<Rightarrow> string option \<Rightarrow> usec \<Rightarrow> usec option \<Rightarrow> exn + usec option" where
  "compute_next_fire cr kind v after recur_until =
     (case kind of
        None \<Rightarrow> Inr None
      | Some k \<Rightarrow>
          (case v of
             None \<Rightarrow> Inr None
           | Some [] \<Rightarrow> Inr None
           | Some (c # cs) \<Rightarrow>
               (case k of
                  RInterval \<Rightarrow>
                    map_sum id (\<lambda>delta. cap_until recur_until (after + delta))
                      (parse_duration (c # cs))
                | RCron \<Rightarrow>
                    map_sum id (\<lambda>t. cap_until recur_until (trunc_sec t)) (cr_next cr (c # cs) after))))"

definition default_recur_until :: "usec \<Rightarrow> usec" where
  "default_recur_until first_fire = first_fire + max_horizon"

section \<open>Bounds\<close>

lemmas duration_consts = one_second_def max_horizon_def min_interval_def max_timedelta_def

lemma parse_duration_bounds:
  "parse_duration s = Inr d \<Longrightarrow> min_interval \<le> d \<and> d \<le> max_horizon"
  by (auto simp: parse_duration_def Let_def split: option.splits if_splits prod.splits)

lemma parse_duration_pos: "parse_duration s = Inr d \<Longrightarrow> 0 < d"
  using parse_duration_bounds [of s d] by (simp add: duration_consts)

lemma trunc_whole: "t mod 1000000 = 0 \<Longrightarrow> trunc_sec t = t"
  by (auto simp: trunc_sec_def)

lemma within_horizon_le: "within_horizon now first = Inr t \<Longrightarrow> t = first \<and> t \<le> now + max_horizon"
  by (auto simp: within_horizon_def split: if_splits)

lemma cap_until_Some: "cap_until u n = Some t \<longleftrightarrow> t = n \<and> (\<forall>v. u = Some v \<longrightarrow> n \<le> v)"
  by (auto simp: cap_until_def split: option.splits)

section \<open>Plain durations\<close>

lemma uchars_ascii: "list_all (\<lambda>c. \<not> is_cont c) s \<Longrightarrow> uchars s = map (\<lambda>c. [c]) s"
proof (induction s)
  case (Cons c s)
  then show ?case by (cases s) simp_all
qed simp

lemma digit_not_cont: "is_digit c \<Longrightarrow> \<not> is_cont c"
  by (auto simp: is_digit_def is_cont_def Let_def)

lemma digit_not_space: "is_digit c \<Longrightarrow> \<not> is_space [c]"
  by (auto simp: is_digit_def is_space_single Let_def)

lemma length_digits: "n < 10 ^ Suc k \<Longrightarrow> length (digits_of n) \<le> Suc k"
proof (induction k arbitrary: n)
  case 0
  then show ?case by (subst digits_of.simps) simp
next
  case (Suc k)
  show ?case
  proof (cases "n < 10")
    case True
    then show ?thesis by (subst digits_of.simps) simp
  next
    case False
    have "n div 10 < 10 ^ Suc k" using Suc.prems by (simp add: less_mult_imp_div_less)
    from Suc.IH [OF this] False show ?thesis by (subst digits_of.simps) simp
  qed
qed

definition duration_units :: "string set" where
  "duration_units = {''m'', ''h'', ''d'', ''w''}"

lemma match_plain_duration:
  assumes "u \<in> duration_units"
  shows "match_duration (digits_of n @ u) = Some (digits_of n, u)"
proof -
  obtain c where u: "u = [c]" and c: "c \<in> {CHR ''m'', CHR ''h'', CHR ''d'', CHR ''w''}"
    using assms by (auto simp: duration_units_def)
  have cc: "\<not> is_cont c" "\<not> is_digit c" "\<not> is_space [c]" "[c] \<in> set unit_chars"
    using c by (auto simp: is_cont_def is_digit_def is_space_single unit_chars_def)
  let ?ds = "map (\<lambda>c. [c]) (digits_of n)"
  have dd: "\<forall>c \<in> set (digits_of n). is_digit c" by (rule digits_of_digits)
  then have us: "uchars (digits_of n @ [c]) = ?ds @ [[c]]"
    using cc by (subst uchars_ascii) (auto simp: list_all_iff dest: digit_not_cont)
  have hd: "dropWhile is_space (?ds @ [[c]]) = ?ds @ [[c]]"
    using dd by (cases "digits_of n") (auto simp: cc dest: digit_not_space)
  have all: "list_all is_digit_char ?ds" using dd by (auto simp: list_all_iff is_digit_char_def)
  have tw: "takeWhile is_digit_char (?ds @ [[c]]) = ?ds"
    using all cc by (subst takeWhile_append2) (auto simp: list_all_iff is_digit_char_def)
  have dw: "dropWhile is_digit_char (?ds @ [[c]]) = [[c]]"
    using all cc by (subst dropWhile_append2) (auto simp: list_all_iff is_digit_char_def)
  have "concat ?ds = digits_of n" by (induction "digits_of n") simp_all
  then show ?thesis
    using cc u by (simp add: match_duration_def us hd tw dw Let_def)
qed

section \<open>Properties\<close>

text \<open>Durations. The text of a number and a unit reads as that many minutes, hours, days
  or weeks when the product lies between one minute and 365 days, and raises otherwise; whatever
  text is accepted, its value lies within these bounds.\<close>

theorem parse_duration_functional:
  "(u \<in> duration_units \<and> length (digits_of n) \<le> 4300 \<longrightarrow>
      (if min_interval \<le> int n * unit_usec u \<and> int n * unit_usec u \<le> max_horizon
       then parse_duration (digits_of n @ u) = Inr (int n * unit_usec u)
       else (\<exists>e. parse_duration (digits_of n @ u) = Inl e)))
   \<and> (parse_duration s = Inr d \<longrightarrow> min_interval \<le> d \<and> d \<le> max_horizon)"
proof (rule conjI; rule impI)
  assume un: "u \<in> duration_units \<and> length (digits_of n) \<le> 4300"
  then have len: "length (digits_of n) \<le> 4300" by simp
  have u: "u \<noteq> ''s''" using un by (auto simp: duration_units_def)
  have pos: "0 \<le> int n * unit_usec u" by (simp add: unit_usec_def one_second_def)
  have "match_duration (digits_of n @ u) = Some (digits_of n, u)"
    using un match_plain_duration by blast
  with len u show "if min_interval \<le> int n * unit_usec u \<and> int n * unit_usec u \<le> max_horizon
       then parse_duration (digits_of n @ u) = Inr (int n * unit_usec u)
       else (\<exists>e. parse_duration (digits_of n @ u) = Inl e)"
    by (auto simp: parse_duration_def Let_def duration_consts)
next
  assume "parse_duration s = Inr d"
  then show "min_interval \<le> d \<and> d \<le> max_horizon" by (rule parse_duration_bounds)
qed

lemma parse_duration_functional_witness:
  "parse_duration (digits_of 90 @ ''m'') = Inr 5400000000"
proof -
  have "length (digits_of 90) \<le> 4300" using length_digits [of 90 1] by simp
  then show ?thesis
    using parse_duration_functional [of "''m''" 90]
    by (simp add: duration_units_def unit_usec_def duration_consts)
qed

text \<open>A mail can only be scheduled into the future, and at most a year ahead: whichever of
  the three ways the first delivery is given in, an accepted one lies after the current time
  and within 365 days of it.\<close>

theorem first_fire_in_horizon:
  assumes "cron_forward cr" "resolve_first_fire cr deliver_at deliver_in recur_cron now = Inr t"
  shows "now < t \<and> t \<le> now + max_horizon"
proof -
  consider (at) a where "deliver_at = Some a" "deliver_in = None"
    | (rel) i where "deliver_at = None" "deliver_in = Some i"
    | (cron) c where "deliver_at = None" "deliver_in = None" "recur_cron = Some c"
    using assms(2) by (cases deliver_at; cases deliver_in; cases recur_cron)
      (auto simp: resolve_first_fire_def)
  then show ?thesis
  proof cases
    case at
    with assms(2) show ?thesis
      by (auto simp: resolve_first_fire_def Let_def split: option.splits if_splits
          dest: within_horizon_le)
  next
    case rel
    with assms(2) show ?thesis
      by (auto simp: resolve_first_fire_def split: sum.splits
          dest!: within_horizon_le parse_duration_pos)
  next
    case cron
    with assms(2) obtain x where x: "cr_next cr c now = Inr x"
      and w: "within_horizon now (trunc_sec x) = Inr t"
      by (auto simp: resolve_first_fire_def split: sum.splits)
    from assms(1) x have "now < x" "trunc_sec x = x"
      by (auto simp: cron_forward_def intro: trunc_whole)
    with within_horizon_le [OF w] show ?thesis by simp
  qed
qed

text \<open>A cron library that only knows the start of every next minute.\<close>

definition every_minute :: croniter where
  "every_minute = \<lparr>cr_valid = (\<lambda>e. e = ''* * * * *''),
     cr_next = (\<lambda>e t. Inr ((t div 60000000 + 1) * 60000000))\<rparr>"

lemma every_minute_forward: "cron_forward every_minute"
proof -
  have "t < (t div 60000000 + 1) * 60000000" for t :: int
    using div_mult_mod_eq [of t 60000000] pos_mod_bound [of 60000000 t] by (simp add: algebra_simps)
  then show ?thesis by (auto simp: cron_forward_def every_minute_def mod_mult_eq [symmetric])
qed

lemma first_fire_in_horizon_witness:
  "resolve_first_fire every_minute None None (Some ''* * * * *'') 61000000 = Inr 120000000
   \<and> (61000000 :: int) < 120000000"
proof -
  have "strip ''* * * * *'' = ''* * * * *''" by code_simp
  then have r: "resolve_first_fire every_minute None None (Some ''* * * * *'') 61000000 = Inr 120000000"
    by (simp add: resolve_first_fire_def validate_cron_def every_minute_def within_horizon_def
        trunc_sec_def duration_consts)
  from first_fire_in_horizon [OF every_minute_forward r] r show ?thesis by simp
qed

text \<open>A recurrence moves forward and stops at its end. The next delivery of a recurring
  mail is strictly after the one it follows and not after \<open>recur_until\<close>; an interval
  moves by exactly its length.\<close>

theorem next_fire_forward:
  assumes "cron_forward cr" "compute_next_fire cr kind v after recur_until = Inr (Some t)"
  shows "after < t \<and> (\<forall>u. recur_until = Some u \<longrightarrow> t \<le> u)
     \<and> (kind = Some RInterval \<longrightarrow> (\<exists>s d. v = Some s \<and> parse_duration s = Inr d \<and> t = after + d))"
proof -
  obtain k c cs where kv: "kind = Some k" "v = Some (c # cs)"
    using assms(2) by (auto simp: compute_next_fire_def split: option.splits list.splits)
  show ?thesis
  proof (cases k)
    case RInterval
    with assms(2) kv obtain d where d: "parse_duration (c # cs) = Inr d"
      and t: "cap_until recur_until (after + d) = Some t"
      by (cases "parse_duration (c # cs)") (auto simp: compute_next_fire_def)
    from parse_duration_pos [OF d] t d kv show ?thesis by (auto simp: cap_until_Some)
  next
    case RCron
    with assms(2) kv obtain x where x: "cr_next cr (c # cs) after = Inr x"
      and t: "cap_until recur_until (trunc_sec x) = Some t"
      by (cases "cr_next cr (c # cs) after") (auto simp: compute_next_fire_def)
    from assms(1) x have "after < x" "trunc_sec x = x"
      by (auto simp: cron_forward_def intro: trunc_whole)
    with t RCron kv show ?thesis by (auto simp: cap_until_Some)
  qed
qed

lemma next_fire_forward_witness:
  "compute_next_fire every_minute (Some RCron) (Some ''* * * * *'') 120000000 (Some 500000000)
     = Inr (Some 180000000) \<and> (120000000 :: int) < 180000000"
proof -
  have c: "compute_next_fire every_minute (Some RCron) (Some ''* * * * *'') 120000000 (Some 500000000)
     = Inr (Some 180000000)"
    by (simp add: compute_next_fire_def every_minute_def cap_until_def trunc_sec_def)
  from next_fire_forward [OF every_minute_forward c] c show ?thesis by simp
qed

end
