(* ===== verification/Mail_Watcher.thy ===== *)
theory Mail_Watcher
  imports Sample
begin

text \<open>
  \<open>runtime/kill_switch.py\<close> (the one-shot kill of the chaos tests) and
  \<open>runtime/mail_watcher.py\<close> (the poll for urgent mail during a wakeup): the state of the
  watcher, one poll, the acknowledgement, and the notice the agent sees.
\<close>

section \<open>Kill switch\<close>

record kill_switch =
  ks_fire_at :: "string option"
  ks_fired :: bool

text \<open>\<open>check(point)\<close>; the optional test callback is left out.\<close>

definition kill_check :: "string \<Rightarrow> (kill_switch, unit) exec" where
  "kill_check point = (\<lambda>k.
     if ks_fired k \<or> ks_fire_at k \<noteq> Some point then (Inr (), k)
     else (Inl (SimulatedKill (''kill at '' @ point)), k\<lparr>ks_fired := True\<rparr>))"

definition kill_disable :: "kill_switch \<Rightarrow> kill_switch" where
  "kill_disable k = k\<lparr>ks_fired := True, ks_fire_at := None\<rparr>"

text \<open>The checks of a run, each one surviving the kill of the one before (as after a
  restart), and which of them fired.\<close>

fun checks :: "string list \<Rightarrow> kill_switch \<Rightarrow> bool list \<times> kill_switch" where
  "checks [] k = ([], k)"
| "checks (p # ps) k =
     (case kill_check p k of (r, k') \<Rightarrow>
        (case checks ps k' of (bs, k'') \<Rightarrow> ((case r of Inl e \<Rightarrow> True | Inr u \<Rightarrow> False) # bs, k'')))"

section \<open>Watcher\<close>

record watcher =
  mw_recipient :: string
  mw_shown :: int
  mw_floor :: urgency
  mw_signal :: bool
  mw_pending :: "mail_message list"

definition new_watcher :: "string \<Rightarrow> int \<Rightarrow> urgency \<Rightarrow> watcher" where
  "new_watcher recipient baseline fl =
     \<lparr>mw_recipient = recipient, mw_shown = baseline, mw_floor = fl, mw_signal = False,
      mw_pending = []\<rparr>"

definition has_blocker_pending :: "watcher \<Rightarrow> bool" where
  "has_blocker_pending w \<longleftrightarrow> list_ex (\<lambda>m. msg_urgency m = UBlocker) (mw_pending w)"

definition above :: "int \<Rightarrow> mail_message \<Rightarrow> bool" where
  "above i m \<longleftrightarrow> (case msg_id m of None \<Rightarrow> False | Some j \<Rightarrow> i < j)"

definition watcher_sees :: "watcher \<Rightarrow> db \<Rightarrow> mail_message list" where
  "watcher_sees w d =
     filter (\<lambda>m. above (mw_shown w) m \<and> urgency_rank (mw_floor w) \<le> urgency_rank (msg_urgency m))
       (read_messages (mw_recipient w) (mw_shown w) 100 d)"

text \<open>One round of \<open>_loop\<close>.\<close>

definition watcher_poll :: "db \<Rightarrow> watcher \<Rightarrow> watcher" where
  "watcher_poll d w =
     (if watcher_sees w d \<noteq> [] then w\<lparr>mw_pending := watcher_sees w d, mw_signal := True\<rparr> else w)"

definition advance :: "mail_message list \<Rightarrow> int \<Rightarrow> int" where
  "advance msgs i =
     fold (\<lambda>m b. case msg_id m of None \<Rightarrow> b | Some j \<Rightarrow> (if j > b then j else b)) msgs i"

definition acknowledge :: "watcher \<Rightarrow> mail_message list \<times> watcher" where
  "acknowledge w =
     (mw_pending w, w\<lparr>mw_shown := advance (mw_pending w) (mw_shown w), mw_pending := [],
                      mw_signal := False\<rparr>)"

section \<open>The notice\<close>

definition interrupt_header :: string where
  "interrupt_header = bytes [226, 154, 160] @
     '' INTERRUPT: new urgency=blocker mailbox message(s) arrived during your wakeup. Stop your current work, handle the blocker(s) first, then respond and resume.''"

definition reminder_header :: string where
  "reminder_header = bytes [240, 159, 147, 172] @ '' REMINDER: new urgency'' @
     bytes [226, 137, 165] @
     ''high mailbox message(s) arrived during your wakeup. Handle them on this or the next turn (no need to abandon what you'' @ [CHR 0x27] @
     ''re doing); the next mailbox_read will auto-mark.''"

definition ellipsis :: string where
  "ellipsis = bytes [226, 128, 166]"

definition notice_line :: "mail_message \<Rightarrow> string" where
  "notice_line m =
     (let body = strip (msg_body m);
          preview = (if ulen body \<le> 200 then body else utake 200 body @ ellipsis);
          sender = (if msg_sender m = [] then ''?'' else msg_sender m)
      in ''  - [id='' @ (case msg_id m of None \<Rightarrow> ''None'' | Some i \<Rightarrow> str_of_int i) @
         ''] urgency='' @ urgency_str (msg_urgency m) @ '' from '' @ sender @ '': '' @ preview)"

fun join :: "string \<Rightarrow> string list \<Rightarrow> string" where
  "join sep [] = []"
| "join sep [x] = x"
| "join sep (x # y # ys) = x @ sep @ join sep (y # ys)"

lemma join_snoc: "join sep (xs @ [y]) = concat (map (\<lambda>x. x @ sep) xs) @ y"
proof (induction xs)
  case (Cons x xs)
  then show ?case by (cases xs) simp_all
qed simp

definition newline :: string where "newline = [CHR 0x0A]"

definition notice_lines :: "mail_message list \<Rightarrow> string list" where
  "notice_lines msgs =
     [(if list_ex (\<lambda>m. msg_urgency m = UBlocker) msgs then interrupt_header else reminder_header),
      [], ''Message count: '' @ str_of_int (int (length msgs)),
      ''Preview (use mailbox_read for the canonical full text):'']
     @ map notice_line (take 5 msgs)
     @ (if length msgs > 5
        then [''  - '' @ ellipsis @ '' and '' @ str_of_int (int (length msgs) - 5) @ '' more'']
        else [])"

definition format_mail_notice :: "mail_message list \<Rightarrow> string" where
  "format_mail_notice msgs = join newline (notice_lines msgs)"

section \<open>Facts\<close>

lemma advance_ge: "i \<le> advance msgs i"
proof (induction msgs arbitrary: i)
  case (Cons m ms)
  show ?case
    using Cons [of i] Cons [of "case msg_id m of None \<Rightarrow> i | Some j \<Rightarrow> if j > i then j else i"]
    by (auto simp: advance_def split: option.splits if_splits)
qed (simp add: advance_def)

lemma advance_covers: "m \<in> set msgs \<Longrightarrow> msg_id m = Some j \<Longrightarrow> j \<le> advance msgs i"
proof (induction msgs arbitrary: i)
  case (Cons x xs)
  show ?case
  proof (cases "m = x")
    case True
    with Cons.prems advance_ge [of j xs] advance_ge [of i xs] show ?thesis
      by (auto simp: advance_def)
  next
    case False
    with Cons show ?thesis by (auto simp: advance_def)
  qed
qed simp

text \<open>The messages a watcher announces, over a sequence of rounds: each round polls the
  mailbox as it is then, and the agent acknowledges or not.\<close>

fun rounds :: "(db \<times> bool) list \<Rightarrow> watcher \<Rightarrow> mail_message list \<times> watcher" where
  "rounds [] w = ([], w)"
| "rounds ((d, ack) # rs) w =
     (let w1 = watcher_poll d w in
      if ack then (case acknowledge w1 of (ms, w2) \<Rightarrow>
                     (case rounds rs w2 of (more', w3) \<Rightarrow> (ms @ more', w3)))
      else rounds rs w1)"

definition pending_above :: "watcher \<Rightarrow> bool" where
  "pending_above w \<longleftrightarrow>
     list_all (\<lambda>m. above (mw_shown w) m \<and> urgency_rank (mw_floor w) \<le> urgency_rank (msg_urgency m))
       (mw_pending w)"

lemma watcher_poll_above: "pending_above w \<Longrightarrow> pending_above (watcher_poll d w)"
  by (simp add: watcher_poll_def pending_above_def watcher_sees_def list_all_iff)

lemma watcher_poll_same [simp]:
  "mw_shown (watcher_poll d w) = mw_shown w" "mw_floor (watcher_poll d w) = mw_floor w"
  "mw_recipient (watcher_poll d w) = mw_recipient w"
  by (simp_all add: watcher_poll_def)

lemma acknowledge_above: "pending_above (snd (acknowledge w))"
  by (simp add: acknowledge_def pending_above_def)

lemma rounds_Cons:
  "fst (rounds ((d, ack) # rs) w) =
     (if ack
      then mw_pending (watcher_poll d w) @ fst (rounds rs (snd (acknowledge (watcher_poll d w))))
      else fst (rounds rs (watcher_poll d w)))"
  by (simp add: acknowledge_def Let_def split: prod.splits)

lemma acknowledge_shown: "mw_shown w \<le> mw_shown (snd (acknowledge w))"
  by (simp add: acknowledge_def advance_ge)

lemma acknowledge_floor [simp]: "mw_floor (snd (acknowledge w)) = mw_floor w"
  by (simp add: acknowledge_def)

lemma above_mono: "above j m \<Longrightarrow> i \<le> j \<Longrightarrow> above i m"
  by (auto simp: above_def split: option.splits)

lemma rounds_above:
  "pending_above w \<Longrightarrow> m \<in> set (fst (rounds rs w)) \<Longrightarrow>
     above (mw_shown w) m \<and> urgency_rank (mw_floor w) \<le> urgency_rank (msg_urgency m)"
proof (induction rs arbitrary: w)
  case (Cons r rs)
  obtain d ack where r: "r = (d, ack)" by (cases r)
  let ?w1 = "watcher_poll d w"
  have p1: "pending_above ?w1" using Cons.prems(1) by (rule watcher_poll_above)
  from Cons.prems(2) r consider (now) "m \<in> set (mw_pending ?w1)"
    | (later) "m \<in> set (fst (rounds rs (snd (acknowledge ?w1))))"
    | (skip) "m \<in> set (fst (rounds rs ?w1))"
    by (auto simp: rounds_Cons simp del: rounds.simps split: if_splits)
  then show ?case
  proof cases
    case now
    with p1 show ?thesis by (auto simp: pending_above_def list_all_iff)
  next
    case later
    with Cons.IH [of "snd (acknowledge ?w1)"] acknowledge_above [of ?w1]
    have "above (mw_shown (snd (acknowledge ?w1))) m"
      "urgency_rank (mw_floor w) \<le> urgency_rank (msg_urgency m)" by simp_all
    with acknowledge_shown [of ?w1] above_mono show ?thesis by fastforce
  next
    case skip
    with Cons.IH [OF p1] show ?thesis by simp
  qed
qed simp

section \<open>Properties\<close>

text \<open>The kill switch fires at most once: of any sequence of checks, with the process
  surviving each kill, only the first check of the configured point raises, and none after it.\<close>

theorem kill_fires_once:
  "length (filter id (fst (checks ps k))) \<le> 1
   \<and> (ks_fired k \<longrightarrow> filter id (fst (checks ps k)) = [])
   \<and> (\<not> ks_fired k \<longrightarrow>
        (filter id (fst (checks ps k)) = [True] \<longleftrightarrow> (\<exists>p. ks_fire_at k = Some p \<and> p \<in> set ps)))"
proof -
  have none: "ks_fired k \<Longrightarrow> filter id (fst (checks ps k)) = []" for ps and k :: kill_switch
    by (induction ps) (auto simp: kill_check_def id_def split: prod.splits)
  have one: "\<not> ks_fired k \<Longrightarrow> filter id (fst (checks ps k)) =
      (if \<exists>p. ks_fire_at k = Some p \<and> p \<in> set ps then [True] else [])" for k
  proof (induction ps)
    case (Cons p ps)
    then show ?case
      using none [of "k\<lparr>ks_fired := True\<rparr>" ps]
      by (auto simp: kill_check_def id_def split: prod.splits)
  qed simp
  show ?thesis using none [of k ps] one [of k] by (cases "ks_fired k") auto
qed

lemma kill_fires_once_witness:
  "filter id (fst (checks [''before_action'', ''post_action_pre_report'', ''before_action'']
      \<lparr>ks_fire_at = Some ''before_action'', ks_fired = False\<rparr>)) = [True]"
  using kill_fires_once [of "[''before_action'', ''post_action_pre_report'', ''before_action'']"
      "\<lparr>ks_fire_at = Some ''before_action'', ks_fired = False\<rparr>"] by simp

text \<open>C6: No urgent mail is announced twice. Between two acknowledged announcements the cursor
  has moved past everything announced: whatever is announced in later rounds has a greater id
  than every message announced before, lies above the urgency floor, and is of the mailbox.\<close>

theorem watcher_announces_once:
  assumes "pending_above w" "acknowledge (watcher_poll d w) = (ms, w')"
  shows "(\<forall>m \<in> set ms. urgency_rank (mw_floor w) \<le> urgency_rank (msg_urgency m)
                        \<and> above (mw_shown w) m)
     \<and> (\<forall>m \<in> set ms. \<forall>m' \<in> set (fst (rounds rs w')). \<exists>i j. msg_id m = Some i \<and> msg_id m' = Some j \<and> i < j)"
proof -
  let ?w1 = "watcher_poll d w"
  have p1: "pending_above ?w1" using assms(1) by (rule watcher_poll_above)
  have ms: "ms = mw_pending ?w1" and w': "w' = snd (acknowledge ?w1)"
    using assms(2) by (auto simp: acknowledge_def)
  have first: "\<forall>m \<in> set ms. urgency_rank (mw_floor w) \<le> urgency_rank (msg_urgency m)
                        \<and> above (mw_shown w) m"
    using p1 by (auto simp: ms pending_above_def list_all_iff)
  moreover have "\<exists>i j. msg_id m = Some i \<and> msg_id m' = Some j \<and> i < j"
    if m: "m \<in> set ms" and m': "m' \<in> set (fst (rounds rs w'))" for m m'
  proof -
    have "above (mw_shown w') m'"
      using rounds_above [OF _ m'] acknowledge_above by (simp add: w')
    then obtain j where j: "msg_id m' = Some j" "mw_shown w' < j"
      by (auto simp: above_def split: option.splits)
    from first m obtain i where i: "msg_id m = Some i"
      by (auto simp: above_def split: option.splits)
    have "i \<le> mw_shown w'"
      using advance_covers [of m "mw_pending ?w1" i "mw_shown w"] m i
      by (simp add: w' ms acknowledge_def)
    with i j show ?thesis by auto
  qed
  ultimately show ?thesis by blast
qed

definition sample_mail_row :: "int \<Rightarrow> string \<Rightarrow> urgency \<Rightarrow> message_row" where
  "sample_mail_row i q u =
     message_row_of 0 i (new_message q (''e'' @ str_of_int i) ''owner'' u ''hello'')"

definition mail_db :: "message_row list \<Rightarrow> db" where
  "mail_db rows = sample_db\<lparr>messages := rows\<rparr>"

lemma watcher_announces_once_witness:
  "length (fst (acknowledge (watcher_poll (mail_db [sample_mail_row 1 ''worker/a'' UHigh])
      (new_watcher ''worker/a'' 0 UHigh)))) = 1
   \<and> fst (rounds [(mail_db [sample_mail_row 1 ''worker/a'' UHigh], True)]
        (snd (acknowledge (watcher_poll (mail_db [sample_mail_row 1 ''worker/a'' UHigh])
          (new_watcher ''worker/a'' 0 UHigh))))) = []"
proof -
  let ?d = "mail_db [sample_mail_row 1 ''worker/a'' UHigh]"
  let ?w = "new_watcher ''worker/a'' 0 UHigh"
  obtain ms w' where a: "acknowledge (watcher_poll ?d ?w) = (ms, w')" by fastforce
  have p: "pending_above ?w" by (simp add: new_watcher_def pending_above_def)
  have ms: "length ms = 1" and w': "mw_shown w' = 1"
    using a by (auto simp: watcher_poll_def watcher_sees_def read_messages_def mail_db_def
        sample_mail_row_def new_message_def new_watcher_def sql_limit_def order_by_def above_def
        row_to_msg_def acknowledge_def advance_def)
  from ms obtain m where m: "ms = [m]" by (cases ms) auto
  have no: "m' \<notin> set (fst (rounds [(?d, True)] w'))" for m'
  proof
    assume m': "m' \<in> set (fst (rounds [(?d, True)] w'))"
    from watcher_announces_once [OF p a, of "[(?d, True)]"] m m'
    obtain i j where "msg_id m = Some i" "msg_id m' = Some j" "i < j" by auto
    moreover have "msg_id m = Some 1" using a m
      by (auto simp: watcher_poll_def watcher_sees_def read_messages_def mail_db_def
        sample_mail_row_def new_message_def new_watcher_def sql_limit_def order_by_def above_def
        row_to_msg_def acknowledge_def advance_def)
    moreover have "msg_id m' = Some 1"
    proof -
      have "mw_pending w' = []" "mw_recipient w' = ''worker/a''" using a by (auto simp: acknowledge_def new_watcher_def)
      with m' w' show ?thesis
        by (auto simp: watcher_poll_def watcher_sees_def read_messages_def mail_db_def
          sample_mail_row_def new_message_def sql_limit_def order_by_def above_def
          row_to_msg_def acknowledge_def advance_def Let_def split: if_splits)
    qed
    ultimately show False by simp
  qed
  have "fst (rounds [(?d, True)] w') = []"
    using no by (metis list.set_intros(1) neq_Nil_conv)
  with a ms show ?thesis by simp
qed

text \<open>A blocker behind a hundred quiet mails is never announced. The poll reads only the
  hundred oldest mails above the cursor and the cursor moves only over announced ones: when
  those hundred all lie below the floor, no number of polls and acknowledgements of that mailbox
  announces anything, whatever the urgency of the mails that follow.\<close>

theorem quiet_backlog_hides_blocker:
  assumes "mw_pending w = []"
    and "\<forall>m \<in> set (read_messages (mw_recipient w) (mw_shown w) 100 d).
           urgency_rank (msg_urgency m) < urgency_rank (mw_floor w)"
  shows "fst (rounds (replicate n (d, True)) w) = []"
  using assms
proof (induction n arbitrary: w)
  case (Suc n)
  have s: "watcher_sees w d = []"
    using Suc.prems(2) by (auto simp: watcher_sees_def filter_empty_conv)
  then have "snd (acknowledge (watcher_poll d w)) = w\<lparr>mw_signal := False\<rparr>"
    using Suc.prems(1) by (simp add: watcher_poll_def acknowledge_def advance_def)
  moreover have "fst (acknowledge (watcher_poll d w)) = []"
    using Suc.prems(1) s by (simp add: watcher_poll_def acknowledge_def)
  ultimately have "acknowledge (watcher_poll d w) = ([], w\<lparr>mw_signal := False\<rparr>)"
    by (metis prod.collapse)
  with Suc.IH [of "w\<lparr>mw_signal := False\<rparr>"] Suc.prems show ?case
    by (simp add: Let_def split: prod.splits)
qed simp

definition backlog :: "message_row list" where
  "backlog = map (\<lambda>i. sample_mail_row (int i) ''worker/a'' ULow) [1 ..< 101]
     @ [sample_mail_row 101 ''worker/a'' UBlocker]"

lemma quiet_backlog_hides_blocker_witness:
  "fst (rounds (replicate 3 (mail_db backlog, True)) (new_watcher ''worker/a'' 0 UHigh)) = []
   \<and> (\<exists>m \<in> set (messages (mail_db backlog)). mr_urgency m = UBlocker)"
proof -
  have f: "filter (\<lambda>r. mr_recipient r = ''worker/a'' \<and> 0 < mr_id r) backlog = backlog"
    by (rule filter_True) (auto simp: backlog_def sample_mail_row_def new_message_def)
  have "map int [1 ..< 101] @ [101] = map int [1 ..< 102]" by code_simp
  then have ids: "map mr_id backlog = map int [1 ..< 102]"
    by (simp add: backlog_def sample_mail_row_def comp_def del: upt_rec_numeral)
  then have "sorted (map mr_id backlog)" by (simp add: sorted_map comp_def sorted_wrt_mono_rel)
  then have so: "sort_key mr_id backlog = backlog" by (rule sort_key_id_if_sorted)
  have "take 100 backlog = map (\<lambda>i. sample_mail_row (int i) ''worker/a'' ULow) [1 ..< 101]"
    by (simp add: backlog_def)
  then have r: "read_messages ''worker/a'' 0 100 (mail_db backlog)
      = map row_to_msg (map (\<lambda>i. sample_mail_row (int i) ''worker/a'' ULow) [1 ..< 101])"
    by (simp add: read_messages_def mail_db_def f order_by_def so sql_limit_def)
  have low: "\<forall>m \<in> set (read_messages ''worker/a'' 0 100 (mail_db backlog)).
      urgency_rank (msg_urgency m) < urgency_rank UHigh"
    unfolding r by (auto simp: row_to_msg_def sample_mail_row_def new_message_def)
  have "fst (rounds (replicate 3 (mail_db backlog, True)) (new_watcher ''worker/a'' 0 UHigh)) = []"
    by (rule quiet_backlog_hides_blocker) (use low in \<open>simp_all add: new_watcher_def\<close>)
  moreover have "sample_mail_row 101 ''worker/a'' UBlocker \<in> set (messages (mail_db backlog))"
    by (simp add: mail_db_def backlog_def)
  moreover have "mr_urgency (sample_mail_row 101 ''worker/a'' UBlocker) = UBlocker"
    by (simp add: sample_mail_row_def new_message_def)
  ultimately show ?thesis by blast
qed

end
