(* ===== verification/Sched_Mail.thy ===== *)
theory Sched_Mail
  imports Sample Future_Mail Mail_Watcher
begin

text \<open>
  Phase -1 of the scheduler (\<open>scheduler/scheduler.py\<close>): delivery of the future mail that
  is due. A recurring mail to oneself is a bounded loop: it stops at its budget of occurrences
  and, with the no-progress gate, after a number of rounds that did work but produced nothing.
  A row whose delivery raises is retried and quarantined at the third failure. \<open>now\<close> is the
  time of the tick in microseconds; croniter is the argument \<open>cr\<close>.
\<close>

section \<open>The no-progress gate\<close>

definition schedmail_quarantine_after :: int where "schedmail_quarantine_after = 3"
definition work_floor_tool_calls :: int where "work_floor_tool_calls = 6"
definition work_floor_output_tokens :: int where "work_floor_output_tokens = 1500"

definition thread_of :: "dict option \<Rightarrow> string option" where
  "thread_of m = (case oget m ''thread_id'' of Some (JStr (c # cs)) \<Rightarrow> Some (c # cs) | _ \<Rightarrow> None)"

definition evaluate_no_progress :: "scheduled_mail \<Rightarrow> db \<Rightarrow> int \<times> bool" where
  "evaluate_no_progress m d =
     (let cap = (case sm_max_no_progress m of None \<Rightarrow> 0 | Some c \<Rightarrow> c) in
      if cap \<le> 0 then (sm_no_progress m, False)
      else (case sm_last_delivered m of
        None \<Rightarrow> (sm_no_progress m, False)
      | Some previous \<Rightarrow>
          (case thread_of (sm_meta m) of
             None \<Rightarrow> (sm_no_progress m, False)
           | Some thread \<Rightarrow>
               (let since = iso_ms previous;
                    progressed = loop_progress_mail_since thread since (sm_recipient m) d
                      \<or> thread_activity_since thread since d;
                    work = thread_work_since thread since d;
                    worked = fst work \<ge> work_floor_tool_calls \<or> snd work \<ge> work_floor_output_tokens;
                    new_count = sm_no_progress m + 1
                in if progressed then (0, False)
                   else if \<not> worked then (sm_no_progress m, False)
                   else (new_count, new_count \<ge> cap)))))"

section \<open>Delivery\<close>

definition id_text :: "int option \<Rightarrow> string" where
  "id_text i = (case i of None \<Rightarrow> ''None'' | Some n \<Rightarrow> str_of_int n)"

text \<open>\<open>str(dt)\<close> of an aware UTC datetime: the ISO text with a blank for the \<open>T\<close>.\<close>

definition datetime_str :: "usec \<Rightarrow> string" where
  "datetime_str t = map (\<lambda>c. if c = CHR ''T'' then CHR '' '' else c) (isoformat t)"

definition em_dash :: string where "em_dash = bytes [226, 128, 148]"
definition rule_line :: string where
  "rule_line = newline @ concat (replicate 5 (bytes [226, 148, 128])) @ newline"

definition recipient_problem :: "string \<Rightarrow> db \<Rightarrow> string option" where
  "recipient_problem q d =
     (if q = ''owner'' then None
      else (case agents_get q d of
              None \<Rightarrow> Some (''recipient agent '' @ py_repr q @ '' not found'')
            | Some a \<Rightarrow> (if agent_status a = AArchived then Some ''recipient agent archived''
                        else None)))"

definition loop_final :: "scheduled_mail \<Rightarrow> bool" where
  "loop_final m \<longleftrightarrow> (case sm_max_occurrences m of
     None \<Rightarrow> False | Some n \<Rightarrow> sm_occurrences m + 1 \<ge> n)"

definition budget_banner :: "scheduled_mail \<Rightarrow> string" where
  "budget_banner m =
     ''[loop budget reached: '' @ str_of_int (sm_occurrences m + 1) @ ''/'' @
     id_text (sm_max_occurrences m) @ '' iterations '' @ em_dash @
     '' this is your LAST scheduled wake on this thread. Finish up or escalate; you will NOT be auto-woken again.]'' @
     newline @ newline"

definition no_progress_banner :: "int \<Rightarrow> string" where
  "no_progress_banner n =
     ''[no-progress gate reached: '' @ str_of_int n @
     '' consecutive rounds did real work but produced nothing outward on this thread (no mail to others, no child task, no checkpoint, no completion). This is your LAST scheduled wake '' @
     em_dash @
     '' wrap up with a result or escalate to your supervisor; you will NOT be auto-woken again.]'' @
     newline @ newline"

definition delivery_body :: "scheduled_mail \<Rightarrow> int \<Rightarrow> bool \<Rightarrow> string" where
  "delivery_body m np_count np_final =
     (if loop_final m then budget_banner m @ sm_body m
      else if np_final then no_progress_banner np_count @ sm_body m
      else sm_body m)"

definition occurrence_key :: "scheduled_mail \<Rightarrow> string" where
  "occurrence_key m = ''sched:'' @ id_text (sm_id m) @ '':'' @ str_of_int (sm_occurrences m)"

definition delivery_message :: "scheduled_mail \<Rightarrow> string \<Rightarrow> urgency \<Rightarrow> string \<Rightarrow> mail_message" where
  "delivery_message m key u body =
     (new_message (sm_recipient m) key (sm_sender m) u body)
       \<lparr>msg_title := sm_title m, msg_task := sm_task m, msg_parent := sm_parent_msg m,
        msg_meta := sm_meta m\<rparr>"

text \<open>An optional text that is not empty.\<close>

definition present :: "string option \<Rightarrow> string option" where
  "present s = (case s of None \<Rightarrow> None | Some t \<Rightarrow> (if t = [] then None else Some t))"

definition bounce_notice :: "scheduled_mail \<Rightarrow> string \<Rightarrow> string \<Rightarrow> mail_message" where
  "bounce_notice m creator reason =
     (new_message creator (''sched-bounce:'' @ id_text (sm_id m)) ''system:scheduled-mail'' UNormal
        (''[BOUNCE] Your scheduled mail to `'' @ sm_recipient m @ ''` at '' @
         datetime_str (sm_scheduled_for m) @ '' could not be delivered: '' @ reason @ ''.'' @
         newline @ ''Original urgency: '' @ urgency_str (sm_urgency m) @ newline @
         ''Original body:'' @ rule_line @ sm_body m))
       \<lparr>msg_meta := Some [(''bounce'', JBool True),
          (''original_scheduled_id'', jopt_int (sm_id m)), (''reason'', JStr reason)]\<rparr>"

definition bounce_scheduled_mail :: "usec \<Rightarrow> scheduled_mail \<Rightarrow> string \<Rightarrow> (db, unit) exec" where
  "bounce_scheduled_mail now m reason =
     seqn (case present (sm_created_by_agent m) of
             None \<Rightarrow> ret ()
           | Some creator \<Rightarrow>
               bnd (query (\<lambda>d. creator = ''owner'' \<or> agents_get creator d \<noteq> None)) (\<lambda>known.
                 run_if known (seqn (upd (ensure_mailbox creator))
                   (seqn (insert_message (now div 1000) (bounce_notice m creator reason))
                      (ret ())))))
       (case sm_id m of
          None \<Rightarrow> throw (Exn ''AssertionError'' [])
        | Some i \<Rightarrow> upd (mark_bounced (now div 1000) i reason))"

definition insert_occurrence ::
    "usec \<Rightarrow> scheduled_mail \<Rightarrow> int \<Rightarrow> bool \<Rightarrow> (db, int) exec" where
  "insert_occurrence now m np_count np_final =
     (let u = (if loop_final m \<or> np_final then UHigh else sm_urgency m);
          body = delivery_body m np_count np_final; key = occurrence_key m
      in seqn (upd (ensure_mailbox (sm_recipient m)))
         (bnd (insert_message (now div 1000) (delivery_message m key u body)) (\<lambda>i.
            if i < 0 then
              bnd (query (find_id_by_external_id (sm_recipient m) key)) (\<lambda>existing.
                seqn (run_if np_final (seqn (insert_message (now div 1000)
                        (delivery_message m (key @ '':final-notice'') UHigh body)) (ret ())))
                  (ret (case existing of None \<Rightarrow> 0 | Some j \<Rightarrow> j)))
            else ret i)))"

definition advance_schedule ::
    "croniter \<Rightarrow> usec \<Rightarrow> scheduled_mail \<Rightarrow> int \<Rightarrow> bool \<Rightarrow> int \<Rightarrow> (db, unit) exec" where
  "advance_schedule cr now m np_count np_final delivered =
     (case compute_next_fire cr (sm_recur_kind m) (sm_recur_value m) now (sm_recur_until m) of
        Inl e \<Rightarrow> throw e
      | Inr computed \<Rightarrow>
          (let next_fire = (if loop_final m \<or> np_final then None else computed) in
           case sm_id m of
             None \<Rightarrow> throw (Exn ''AssertionError'' [])
           | Some i \<Rightarrow> mark_delivered (now div 1000) i delivered (map_option iso_sec next_fire)
               (next_fire = None)
               (case sm_max_no_progress m of
                  None \<Rightarrow> None | Some c \<Rightarrow> (if c = 0 then None else Some np_count))))"

definition deliver_one_scheduled_mail ::
    "croniter \<Rightarrow> usec \<Rightarrow> scheduled_mail \<Rightarrow> (db, unit) exec" where
  "deliver_one_scheduled_mail cr now m =
     bnd (query (recipient_problem (sm_recipient m))) (\<lambda>problem.
       case problem of
         Some reason \<Rightarrow> bounce_scheduled_mail now m reason
       | None \<Rightarrow>
           bnd (query (evaluate_no_progress m)) (\<lambda>np.
           bnd (insert_occurrence now m (fst np) (snd np))
             (advance_schedule cr now m (fst np) (snd np))))"

section \<open>Poison rows\<close>

definition quarantine_notice :: "scheduled_mail \<Rightarrow> string \<Rightarrow> string \<Rightarrow> mail_message" where
  "quarantine_notice m creator error =
     (new_message creator (''sched-quarantine:'' @ id_text (sm_id m)) ''system:scheduled-mail'' UHigh
        (''[QUARANTINED] Your scheduled mail to `'' @ sm_recipient m @ ''` failed to deliver '' @
         str_of_int schedmail_quarantine_after @ '' times and has been stopped. Last error: '' @
         utake 300 error @ newline @ ''Original body:'' @ rule_line @ sm_body m))
       \<lparr>msg_meta := Some [(''quarantine'', JBool True),
                          (''original_scheduled_id'', jopt_int (sm_id m))]\<rparr>"

definition notify_creator :: "usec \<Rightarrow> scheduled_mail \<Rightarrow> string \<Rightarrow> string \<Rightarrow> (db, unit) exec" where
  "notify_creator now m creator error =
     bnd (query (\<lambda>d. creator = ''owner'' \<or> agents_get creator d \<noteq> None)) (\<lambda>known.
       run_if known (seqn (upd (ensure_mailbox creator))
         (seqn (insert_message (now div 1000) (quarantine_notice m creator error)) (ret ()))))"

definition record_scheduled_mail_failure ::
    "usec \<Rightarrow> scheduled_mail \<Rightarrow> exn \<Rightarrow> (db, unit) exec" where
  "record_scheduled_mail_failure now m e =
     (case sm_id m of
        None \<Rightarrow> ret ()
      | Some i \<Rightarrow>
          bnd (try_except (step (record_delivery_failure i (exn_msg e) schedmail_quarantine_after))
                 (\<lambda>_. ret False))
            (\<lambda>quarantined. run_if quarantined
               (case present (sm_created_by_agent m) of
                  None \<Rightarrow> ret ()
                | Some creator \<Rightarrow>
                    try_except (notify_creator now m creator (exn_msg e)) (\<lambda>_. ret ()))))"

definition attempt_scheduled_mail :: "croniter \<Rightarrow> usec \<Rightarrow> scheduled_mail \<Rightarrow> (db, unit) exec" where
  "attempt_scheduled_mail cr now m =
     try_except (deliver_one_scheduled_mail cr now m) (record_scheduled_mail_failure now m)"

definition deliver_scheduled_mail :: "croniter \<Rightarrow> usec \<Rightarrow> (db, unit) exec" where
  "deliver_scheduled_mail cr now =
     bnd (query (find_ready (iso_sec now) 20)) (for_each (attempt_scheduled_mail cr now))"

lemmas delivery_defs = deliver_one_scheduled_mail_def insert_occurrence_def advance_schedule_def
  bounce_scheduled_mail_def
lemmas failure_defs = record_scheduled_mail_failure_def notify_creator_def

section \<open>Invariant and totality\<close>

lemma keeps_deliver_one [keeps_intros]: "keeps db_ok (deliver_one_scheduled_mail cr now m)"
  unfolding delivery_defs by (intro keeps_intros)

lemma keeps_record_failure [keeps_intros]: "keeps db_ok (record_scheduled_mail_failure now m e)"
  unfolding failure_defs by (intro keeps_intros)

lemma keeps_attempt_scheduled [keeps_intros]: "keeps db_ok (attempt_scheduled_mail cr now m)"
  unfolding attempt_scheduled_mail_def by (intro keeps_intros)

lemma keeps_deliver_scheduled [keeps_intros]: "keeps db_ok (deliver_scheduled_mail cr now)"
  unfolding deliver_scheduled_mail_def by (intro keeps_intros)

text \<open>The croniter parameter raises ordinary exceptions only.\<close>

definition cron_plain :: "croniter \<Rightarrow> bool" where
  "cron_plain cr \<longleftrightarrow> (\<forall>e t. plain_err (cr_next cr e t))"

lemma plain_compute_next_fire:
  "cron_plain cr \<Longrightarrow> plain_err (compute_next_fire cr k v t u)"
  by (auto simp: compute_next_fire_def cron_plain_def plain_err_def parse_duration_def Let_def
      map_sum_def split: option.splits recur_kind.splits list.splits sum.splits if_splits prod.splits)

lemma plain_deliver_one:
  assumes "cron_plain cr"
  shows "plain (deliver_one_scheduled_mail cr now m)"
proof -
  have a: "plain (advance_schedule cr now m np nf i)" for np nf i
    unfolding advance_schedule_def
    by (intro plain_throw_case plain_compute_next_fire [OF assms] plain_intros)
  show ?thesis
    unfolding deliver_one_scheduled_mail_def insert_occurrence_def bounce_scheduled_mail_def
    by (intro plain_intros a)
qed

lemma notify_total: "\<exists>u s'. try_except (notify_creator now m c msg) (\<lambda>_. ret ()) s = (Inr u, s')"
proof (rule try_except_total)
  show "plain (notify_creator now m c msg)"
    unfolding notify_creator_def by (intro plain_intros)
qed (simp add: ret_def)

text \<open>Mail is inserted without touching the schedule.\<close>

lemma keeps_schedule_mail:
  "keeps (\<lambda>d. scheduled d = S) (insert_message now msg)"
  "keeps (\<lambda>d. scheduled d = S) (upd (ensure_mailbox q))"
  by (auto simp: insert_message_def Let_def upd_def intro!: keepsI)

lemma keeps_schedule_insert:
  "keeps (\<lambda>d. scheduled d = S) (insert_occurrence now m np nf)"
  "keeps (\<lambda>d. scheduled d = S) (try_except (notify_creator now m c msg) (\<lambda>_. ret ()))"
  unfolding insert_occurrence_def notify_creator_def Let_def
  by (intro keeps_intros keeps_schedule_mail)+

lemma record_failure_run:
  assumes "sm_id m = Some i"
  shows "\<exists>s'. record_scheduled_mail_failure now m e s = (Inr (), s')
    \<and> scheduled s' = scheduled (snd (record_delivery_failure i (exn_msg e) 3 s))"
proof -
  obtain b s1 where r: "record_delivery_failure i (exn_msg e) 3 s = (b, s1)"
    by (cases "record_delivery_failure i (exn_msg e) 3 s")
  have n: "\<exists>s'. try_except (notify_creator now m c (exn_msg e)) (\<lambda>_. ret ()) s1 = (Inr (), s')
      \<and> scheduled s' = scheduled s1" for c
    using notify_total [of now m c "exn_msg e" s1]
      keepsD [OF keeps_schedule_insert(2), of s1 "scheduled s1" now m c "exn_msg e"] by auto
  show ?thesis
    using assms r n
    by (cases b; cases "present (sm_created_by_agent m)")
      (auto simp: record_scheduled_mail_failure_def try_step schedmail_quarantine_after_def
        bnd_step run_if_def ret_def [of "()"])
qed

section \<open>One row, one attempt\<close>

text \<open>What one attempt does to the row of its mail: the occurrence is delivered (for good,
  when it is the last of the budget), or the mail bounces, or one more failure is counted.\<close>

definition bounced_row :: "usec \<Rightarrow> string \<Rightarrow> sched_row \<Rightarrow> sched_row" where
  "bounced_row now why r = r\<lparr>sr_status := SBounced, sr_bounce_reason := Some why,
     sr_last_delivered := Some (MsZ (now div 1000))\<rparr>"

lemma mark_bounced_row:
  "mark_bounced (now div 1000) i why = upd_scheduled (\<lambda>q. sr_id q = i) (bounced_row now why)"
  by (simp add: mark_bounced_def bounced_row_def [abs_def])

definition sched_step :: "usec \<Rightarrow> sched_row \<Rightarrow> sched_row \<Rightarrow> bool" where
  "sched_step now r r' \<longleftrightarrow>
     (\<exists>mid nxt c npc. r' = delivered_row (now div 1000) mid nxt c npc r
        \<and> (loop_final (row_to_mail r) \<longrightarrow> c))
   \<or> (\<exists>why. r' = bounced_row now why r)
   \<or> (\<exists>e. r' = failed_row e 3 r)"

lemma sched_at_cong: "scheduled d' = scheduled d \<Longrightarrow> sched_at i d' = sched_at i d"
  by (simp add: sched_at_def)

lemma mark_delivered_run:
  "mark_delivered ms i mid nxt c npc d = (x, d') \<Longrightarrow> sched_at i d = Some r \<Longrightarrow>
   (case x of Inl e \<Rightarrow> d' = d
    | Inr u \<Rightarrow> d' = upd_scheduled (\<lambda>q. sr_id q = i) (delivered_row ms mid nxt c npc) d)"
  by (auto simp: mark_delivered_def sched_at_def dest: select_one_Some split: if_splits)

lemma advance_run:
  assumes r: "sched_at i d = Some r" and m: "sm_id m = Some i"
    and run: "advance_schedule cr now m np nf mid d = (x, d')"
  shows "case x of Inl e \<Rightarrow> d' = d
    | Inr u \<Rightarrow> \<exists>nxt c npc. (loop_final m \<or> nf \<longrightarrow> c)
        \<and> d' = upd_scheduled (\<lambda>q. sr_id q = i) (delivered_row (now div 1000) mid nxt c npc) d"
proof (cases "compute_next_fire cr (sm_recur_kind m) (sm_recur_value m) now (sm_recur_until m)")
  case (Inl e)
  with run show ?thesis by (auto simp: advance_schedule_def throw_def)
next
  case (Inr t)
  let ?n = "if loop_final m \<or> nf then None else t"
  from run m Inr obtain npc where
    "mark_delivered (now div 1000) i mid (map_option iso_sec ?n) (?n = None) npc d = (x, d')"
    by (simp add: advance_schedule_def Let_def)
  from mark_delivered_run [OF this r] show ?thesis by (cases x) fastforce+
qed

lemma sched_at_upd_self:
  assumes "sched_at i d = Some r" "sr_id (f r) = i" "\<And>q. sr_id (f q) = sr_id q"
  shows "sched_at i (upd_scheduled (\<lambda>q. sr_id q = i) f d) = Some (f r)"
    and "j \<noteq> i \<Longrightarrow> sched_at j (upd_scheduled (\<lambda>q. sr_id q = i) f d) = sched_at j d"
proof -
  show "sched_at i (upd_scheduled (\<lambda>q. sr_id q = i) f d) = Some (f r)"
    using assms sched_at_id [OF assms(1)] by (subst sched_at_upd) auto
  assume "j \<noteq> i"
  then show "sched_at j (upd_scheduled (\<lambda>q. sr_id q = i) f d) = sched_at j d"
    using assms(3) by (cases "sched_at j d") (auto simp: sched_at_upd dest: sched_at_id)
qed

lemma deliver_eligible:
  "recipient_problem (sm_recipient m) d = None \<Longrightarrow> deliver_one_scheduled_mail cr now m d =
     (let np = evaluate_no_progress m d in
      case insert_occurrence now m (fst np) (snd np) d of
        (Inl e, d1) \<Rightarrow> (Inl e, d1)
      | (Inr mid, d1) \<Rightarrow> advance_schedule cr now m (fst np) (snd np) mid d1)"
  by (simp add: deliver_one_scheduled_mail_def bnd_query Let_def bnd_def [of "insert_occurrence _ _ _ _"])

lemma deliver_bounce:
  "recipient_problem (sm_recipient m) d = Some why \<Longrightarrow>
   deliver_one_scheduled_mail cr now m d = bounce_scheduled_mail now m why d"
  by (simp add: deliver_one_scheduled_mail_def bnd_query)

definition attempt_outcome :: "usec \<Rightarrow> int \<Rightarrow> sched_row \<Rightarrow> db \<Rightarrow> exn + unit \<Rightarrow> db \<Rightarrow> bool" where
  "attempt_outcome now i r d x d' \<longleftrightarrow> (case x of
      Inl e \<Rightarrow> scheduled d' = scheduled d
    | Inr u \<Rightarrow> (\<exists>r'. sched_at i d' = Some r' \<and> sched_step now r r')
        \<and> (\<forall>j. j \<noteq> i \<longrightarrow> sched_at j d' = sched_at j d))"

lemma attempt_outcome_upd:
  assumes "scheduled d1 = scheduled d" "sched_at i d = Some r" "sched_step now r (f r)"
    "\<And>q. sr_id (f q) = sr_id q"
  shows "attempt_outcome now i r d (Inr u) (upd_scheduled (\<lambda>q. sr_id q = i) f d1)"
  using assms sched_at_upd_self [of i d1 r f] sched_at_cong [OF assms(1)] sched_at_id [OF assms(2)]
  by (simp add: attempt_outcome_def)

lemma deliver_eligible_run:
  assumes r: "sched_at i d = Some r" and m: "m = row_to_mail r"
    and ok: "recipient_problem (sm_recipient m) d = None"
    and run: "deliver_one_scheduled_mail cr now m d = (x, d')"
  shows "attempt_outcome now i r d x d'"
proof -
  have i: "sm_id m = Some i" using sched_at_id [OF r] m by (simp add: row_to_mail_def)
  define np where "np = evaluate_no_progress m d"
  obtain y d1 where o: "insert_occurrence now m (fst np) (snd np) d = (y, d1)"
    by (cases "insert_occurrence now m (fst np) (snd np) d")
  have s1: "scheduled d1 = scheduled d"
    using keepsD [OF keeps_schedule_insert(1), of d "scheduled d" now m "fst np" "snd np"] o
    by simp
  have r1: "sched_at i d1 = Some r" using r sched_at_cong [OF s1] by simp
  note eq = run [unfolded deliver_eligible [OF ok], folded np_def, unfolded Let_def o]
  show ?thesis
  proof (cases y)
    case (Inl e)
    with eq s1 show ?thesis by (auto simp: attempt_outcome_def)
  next
    case (Inr mid)
    with eq have a: "advance_schedule cr now m (fst np) (snd np) mid d1 = (x, d')" by simp
    show ?thesis
    proof (cases x)
      case (Inl e)
      with advance_run [OF r1 i a] s1 show ?thesis by (simp add: attempt_outcome_def)
    next
      case (Inr u)
      with advance_run [OF r1 i a] obtain nxt c npc where c: "loop_final m \<longrightarrow> c"
        and d': "d' = upd_scheduled (\<lambda>q. sr_id q = i) (delivered_row (now div 1000) mid nxt c npc) d1"
        by auto
      have "sched_step now r (delivered_row (now div 1000) mid nxt c npc r)"
        unfolding sched_step_def using c m by blast
      then show ?thesis
        unfolding d' Inr by (intro attempt_outcome_upd [OF s1 r]) (simp_all add: delivered_row_def)
    qed
  qed
qed

lemma deliver_bounce_run:
  assumes r: "sched_at i d = Some r" and m: "m = row_to_mail r"
    and why: "recipient_problem (sm_recipient m) d = Some why"
    and run: "deliver_one_scheduled_mail cr now m d = (x, d')"
  shows "attempt_outcome now i r d x d'"
proof -
  have i: "sm_id m = Some i" using sched_at_id [OF r] m by (simp add: row_to_mail_def)
  let ?k = "case present (sm_created_by_agent m) of None \<Rightarrow> ret ()
    | Some creator \<Rightarrow> bnd (query (\<lambda>d. creator = ''owner'' \<or> agents_get creator d \<noteq> None)) (\<lambda>known.
        run_if known (seqn (upd (ensure_mailbox creator))
          (seqn (insert_message (now div 1000) (bounce_notice m creator why)) (ret ()))))"
  obtain y d1 where o: "?k d = (y, d1)" by (cases "?k d")
  have "keeps (\<lambda>s. scheduled s = scheduled d) ?k"
    by (intro keeps_intros keeps_schedule_mail)
  from keepsD [OF this, of d] o have s1: "scheduled d1 = scheduled d" by simp
  have "bounce_scheduled_mail now m why d
      = (case y of Inl e \<Rightarrow> (Inl e, d1) | Inr u \<Rightarrow> (Inr (), mark_bounced (now div 1000) i why d1))"
    unfolding bounce_scheduled_mail_def seqn_def [of ?k] bnd_def [of ?k] o i
    by (simp add: upd_def split: sum.splits)
  with run why have eq: "(x, d') = (case y of Inl e \<Rightarrow> (Inl e, d1)
      | Inr u \<Rightarrow> (Inr (), mark_bounced (now div 1000) i why d1))"
    by (simp add: deliver_bounce)
  show ?thesis
  proof (cases y)
    case (Inl e)
    with eq s1 show ?thesis by (simp add: attempt_outcome_def)
  next
    case (Inr u)
    have "sched_step now r (bounced_row now why r)"
      unfolding sched_step_def by blast
    with attempt_outcome_upd [OF s1 r, where f = "bounced_row now why"] eq Inr show ?thesis
      by (simp add: mark_bounced_row) (simp add: bounced_row_def)
  qed
qed

lemma deliver_one_run:
  assumes "sched_at i d = Some r" "m = row_to_mail r" "deliver_one_scheduled_mail cr now m d = (x, d')"
  shows "attempt_outcome now i r d x d'"
  using deliver_eligible_run [OF assms(1,2) _ assms(3)] deliver_bounce_run [OF assms(1,2) _ assms(3)]
  by (cases "recipient_problem (sm_recipient m) d") auto


lemma attempt_run:
  assumes r: "sched_at i d = Some r" and p: "sr_status r = SPending" and cr: "cron_plain cr"
  shows "\<exists>d'. attempt_scheduled_mail cr now (row_to_mail r) d = (Inr (), d')
    \<and> attempt_outcome now i r d (Inr ()) d'"
proof -
  let ?m = "row_to_mail r"
  have i: "sm_id ?m = Some i" using sched_at_id [OF r] by (simp add: row_to_mail_def)
  obtain x d1 where o: "deliver_one_scheduled_mail cr now ?m d = (x, d1)"
    by (cases "deliver_one_scheduled_mail cr now ?m d")
  note out = deliver_one_run [OF r refl o]
  show ?thesis
  proof (cases x)
    case (Inr u)
    with o out show ?thesis by (simp add: attempt_scheduled_mail_def try_except_def)
  next
    case (Inl e)
    have "deliver_one_scheduled_mail cr now ?m d = (Inl e, d1)" using o Inl by simp
    from plain_raises [OF plain_deliver_one [OF cr] this]
    obtain t msg where e: "e = Exn t msg" by blast
    obtain d2 where d2: "record_scheduled_mail_failure now ?m e d1 = (Inr (), d2)"
      and s2: "scheduled d2 = scheduled (snd (record_delivery_failure i (exn_msg e) 3 d1))"
      using record_failure_run [OF i] by blast
    have s1: "scheduled d1 = scheduled d" using out Inl by (simp add: attempt_outcome_def)
    have r1: "sched_at i d1 = Some r" using r sched_at_cong [OF s1] by simp
    have self: "sched_at i d2 = Some (failed_row (exn_msg e) 3 r)"
      using sched_at_failure(1) [OF r1 p] sched_at_cong [OF s2] by simp
    have others: "sched_at j d2 = sched_at j d" if "j \<noteq> i" for j
    proof -
      have "sched_at j d2 = sched_at j (snd (record_delivery_failure i (exn_msg e) 3 d1))"
        by (rule sched_at_cong [OF s2])
      also have "\<dots> = sched_at j d1"
        using that by (cases "sched_at j d1")
          (auto simp: record_delivery_failure_def Let_def sched_at_upd failed_row_def
            dest: sched_at_id)
      finally show ?thesis using sched_at_cong [OF s1] by simp
    qed
    have "sched_step now r (failed_row (exn_msg e) 3 r)" unfolding sched_step_def by blast
    with self others have "attempt_outcome now i r d (Inr ()) d2"
      by (simp add: attempt_outcome_def)
    with o Inl e d2 show ?thesis by (simp add: attempt_scheduled_mail_def try_except_def)
  qed
qed

section \<open>The phase\<close>

lemma attempts_settle:
  assumes "cron_plain cr" "distinct (map sr_id rs)"
    "\<forall>r \<in> set rs. sched_at (sr_id r) d = Some r \<and> sr_status r = SPending"
  shows "\<exists>d'. for_each (attempt_scheduled_mail cr now) (map row_to_mail rs) d = (Inr (), d')
    \<and> (\<forall>r \<in> set rs. \<exists>r'. sched_at (sr_id r) d' = Some r' \<and> sched_step now r r')
    \<and> (\<forall>j. j \<notin> sr_id ` set rs \<longrightarrow> sched_at j d' = sched_at j d)"
  using assms(2,3)
proof (induction rs arbitrary: d)
  case (Cons r rs)
  from Cons.prems have r: "sched_at (sr_id r) d = Some r" "sr_status r = SPending" by auto
  obtain d1 where d1: "attempt_scheduled_mail cr now (row_to_mail r) d = (Inr (), d1)"
    and o: "attempt_outcome now (sr_id r) r d (Inr ()) d1"
    using attempt_run [OF r assms(1)] by blast
  have "\<forall>q \<in> set rs. sched_at (sr_id q) d1 = Some q \<and> sr_status q = SPending"
    using Cons.prems o by (auto simp: attempt_outcome_def image_iff)
  from Cons.IH [OF _ this] Cons.prems(1) obtain d2 where
    d2: "for_each (attempt_scheduled_mail cr now) (map row_to_mail rs) d1 = (Inr (), d2)"
    and rest: "\<forall>q \<in> set rs. \<exists>r'. sched_at (sr_id q) d2 = Some r' \<and> sched_step now q r'"
    and out: "\<forall>j. j \<notin> sr_id ` set rs \<longrightarrow> sched_at j d2 = sched_at j d1"
    by auto
  have "for_each (attempt_scheduled_mail cr now) (map row_to_mail (r # rs)) d = (Inr (), d2)"
    using d1 d2 by (simp add: exec_simps)
  moreover have "sr_id r \<notin> sr_id ` set rs" using Cons.prems(1) by auto
  ultimately show ?case
    using rest out o by (intro exI [of _ d2]) (auto simp: attempt_outcome_def)
qed (simp add: ret_def)

definition due_rows :: "usec \<Rightarrow> db \<Rightarrow> sched_row list" where
  "due_rows now d = sql_limit 20 (order_by sr_scheduled_for
     (filter (is_ready (iso_sec now)) (scheduled d)))"

lemma find_ready_due: "find_ready (iso_sec now) 20 d = map row_to_mail (due_rows now d)"
  by (simp add: find_ready_def due_rows_def)

lemma scheduled_ids_distinct: "db_ok d \<Longrightarrow> distinct (map sr_id (scheduled d))"
  by (simp add: db_ok_def scheduled_ok_def strict_sorted_iff)

lemma sched_at_row: "db_ok d \<Longrightarrow> r \<in> set (scheduled d) \<Longrightarrow> sched_at (sr_id r) d = Some r"
  unfolding sched_at_def by (rule select_one_key [OF scheduled_ids_distinct])

lemma due_rows_facts:
  assumes "db_ok d"
  shows "distinct (map sr_id (due_rows now d))"
    and "r \<in> set (due_rows now d) \<Longrightarrow> r \<in> set (scheduled d) \<and> is_ready (iso_sec now) r"
proof -
  let ?q = "order_by sr_scheduled_for (filter (is_ready (iso_sec now)) (scheduled d))"
  have "distinct (map sr_id (filter (is_ready (iso_sec now)) (scheduled d)))"
    using scheduled_ids_distinct [OF assms] by (simp add: distinct_map_filter)
  then have "distinct (map sr_id ?q)"
    by (auto simp: distinct_map order_by_def)
  then show "distinct (map sr_id (due_rows now d))"
    by (simp add: due_rows_def sql_limit_def take_map [symmetric])
  show "r \<in> set (due_rows now d) \<Longrightarrow> r \<in> set (scheduled d) \<and> is_ready (iso_sec now) r"
    using set_sql_limit [of 20 ?q] by (auto simp: due_rows_def)
qed


lemma phase_run:
  assumes "cron_plain cr" "db_ok d"
  shows "\<exists>d'. deliver_scheduled_mail cr now d = (Inr (), d')
    \<and> (\<forall>r \<in> set (due_rows now d). \<exists>r'. sched_at (sr_id r) d' = Some r' \<and> sched_step now r r')
    \<and> (\<forall>j. j \<notin> sr_id ` set (due_rows now d) \<longrightarrow> sched_at j d' = sched_at j d)"
proof -
  have "\<forall>r \<in> set (due_rows now d). sched_at (sr_id r) d = Some r \<and> sr_status r = SPending"
    using due_rows_facts(2) [OF assms(2)] sched_at_row [OF assms(2)] by (auto simp: is_ready_def)
  from attempts_settle [OF assms(1) due_rows_facts(1) [OF assms(2)] this, of now] show ?thesis
    by (simp add: deliver_scheduled_mail_def bnd_query find_ready_due)
qed

text \<open>C9: Every due mail makes a step. The phase raises nothing and keeps the database's
  constraints, whatever a single row holds: each row on the page of due mail (the twenty
  earliest) is delivered, bounced or charged one failure, and no other row changes.\<close>

theorem scheduled_phase_settles:
  assumes "cron_plain cr" "db_ok d" "r \<in> set (scheduled d)"
  shows "\<exists>d'. deliver_scheduled_mail cr now d = (Inr (), d') \<and> db_ok d'
     \<and> (if row_to_mail r \<in> set (find_ready (iso_sec now) 20 d)
        then \<exists>r'. sched_at (sr_id r) d' = Some r' \<and> sched_step now r r'
        else sched_at (sr_id r) d' = Some r)"
proof -
  obtain d' where d': "deliver_scheduled_mail cr now d = (Inr (), d')"
    and due: "\<forall>r \<in> set (due_rows now d). \<exists>r'. sched_at (sr_id r) d' = Some r' \<and> sched_step now r r'"
    and rest: "\<forall>j. j \<notin> sr_id ` set (due_rows now d) \<longrightarrow> sched_at j d' = sched_at j d"
    using phase_run [OF assms(1,2)] by blast
  have ok: "db_ok d'" using keepsD [OF keeps_deliver_scheduled assms(2), of cr now] d' by simp
  have self: "sched_at (sr_id r) d = Some r" by (rule sched_at_row [OF assms(2,3)])
  have page: "row_to_mail r \<in> set (find_ready (iso_sec now) 20 d) \<longleftrightarrow> r \<in> set (due_rows now d)"
  proof
    assume "row_to_mail r \<in> set (find_ready (iso_sec now) 20 d)"
    then obtain q where q: "q \<in> set (due_rows now d)" "row_to_mail r = row_to_mail q"
      by (auto simp: find_ready_due)
    then have eq: "sr_id q = sr_id r" by (simp add: row_to_mail_def)
    have "sched_at (sr_id q) d = Some q"
      using due_rows_facts(2) [OF assms(2) q(1)] sched_at_row [OF assms(2)] by simp
    with self have "r = q" unfolding eq by simp
    with q(1) show "r \<in> set (due_rows now d)" by blast
  qed (simp add: find_ready_due)
  have other: "sr_id r \<notin> sr_id ` set (due_rows now d)" if "r \<notin> set (due_rows now d)"
  proof
    assume "sr_id r \<in> sr_id ` set (due_rows now d)"
    then obtain q where q: "q \<in> set (due_rows now d)" "sr_id r = sr_id q" by blast
    then have "sched_at (sr_id q) d = Some q"
      using due_rows_facts(2) [OF assms(2)] sched_at_row [OF assms(2)] by blast
    with self have "r = q" unfolding q(2) [symmetric] by simp
    with q(1) that show False by blast
  qed
  show ?thesis
  proof (cases "r \<in> set (due_rows now d)")
    case True
    with d' ok due page show ?thesis by simp
  next
    case False
    with d' ok rest other self page show ?thesis by simp
  qed
qed

section \<open>Budgets\<close>

definition row_bounded :: "sched_row \<Rightarrow> bool" where
  "row_bounded r \<longleftrightarrow> 0 \<le> sr_occurrences r \<and> 0 \<le> sr_failures r
     \<and> (\<forall>n. sr_max_occurrences r = Some n \<longrightarrow> sr_occurrences r \<le> n)
     \<and> (sr_status r = SPending \<longrightarrow> sr_failures r < 3
          \<and> (\<forall>n. sr_max_occurrences r = Some n \<longrightarrow> sr_occurrences r < n))"

lemma sched_step_bounded:
  "sched_step now r r' \<Longrightarrow> row_bounded r \<Longrightarrow> sr_status r = SPending \<Longrightarrow>
   row_bounded r' \<and> sr_id r' = sr_id r \<and> sr_max_occurrences r' = sr_max_occurrences r"
  by (auto simp: sched_step_def row_bounded_def delivered_row_def bounced_row_def failed_row_def
      loop_final_def row_to_mail_def split: if_splits)

text \<open>The attempts a row with a budget can still take.\<close>

definition attempts_left :: "sched_row \<Rightarrow> int" where
  "attempts_left r = (if sr_status r \<noteq> SPending then 0
     else 3 * (the (sr_max_occurrences r) - sr_occurrences r) - sr_failures r)"

lemma sched_step_attempts:
  assumes "sched_step now r r'" "row_bounded r" "sr_status r = SPending" "sr_max_occurrences r = Some n"
  shows "attempts_left r' < attempts_left r" "0 \<le> attempts_left r'"
proof -
  have "attempts_left r' < attempts_left r \<and> 0 \<le> attempts_left r'"
    using assms unfolding sched_step_def
    by (elim disjE exE conjE)
      (auto simp: attempts_left_def row_bounded_def delivered_row_def bounced_row_def
        failed_row_def loop_final_def row_to_mail_def)
  then show "attempts_left r' < attempts_left r" "0 \<le> attempts_left r'" by simp_all
qed


definition phase :: "croniter \<Rightarrow> usec \<Rightarrow> db \<Rightarrow> db" where
  "phase cr t d = snd (deliver_scheduled_mail cr t d)"

definition run_phases :: "croniter \<Rightarrow> usec list \<Rightarrow> db \<Rightarrow> db" where
  "run_phases cr ts d = fold (phase cr) ts d"

primrec turns :: "croniter \<Rightarrow> int \<Rightarrow> usec list \<Rightarrow> db \<Rightarrow> nat" where
  "turns cr i [] d = 0"
| "turns cr i (t # ts) d =
     (if i \<in> sr_id ` set (due_rows t d) then 1 else 0) + turns cr i ts (phase cr t d)"

lemma phase_ok: "db_ok d \<Longrightarrow> db_ok (phase cr t d)"
  unfolding phase_def by (rule keepsD [OF keeps_deliver_scheduled])

lemma phase_row:
  assumes cr: "cron_plain cr" and ok: "db_ok d"
  obtains (attempted) r r' where "r \<in> set (due_rows t d)" "sr_id r = i" "sched_at i d = Some r"
      "sr_status r = SPending" "sched_at i (phase cr t d) = Some r'" "sched_step t r r'"
    | (untouched) "i \<notin> sr_id ` set (due_rows t d)" "sched_at i (phase cr t d) = sched_at i d"
proof -
  obtain d' where d': "phase cr t d = d'"
    and due: "\<forall>r \<in> set (due_rows t d). \<exists>r'. sched_at (sr_id r) d' = Some r' \<and> sched_step t r r'"
    and rest: "\<forall>j. j \<notin> sr_id ` set (due_rows t d) \<longrightarrow> sched_at j d' = sched_at j d"
    using phase_run [OF assms, of t] by (auto simp: phase_def)
  show thesis
  proof (cases "i \<in> sr_id ` set (due_rows t d)")
    case True
    then obtain r where r: "r \<in> set (due_rows t d)" "sr_id r = i" by blast
    have "sched_at (sr_id r) d = Some r" "sr_status r = SPending"
      using due_rows_facts(2) [OF ok r(1)] sched_at_row [OF ok] by (auto simp: is_ready_def)
    moreover obtain r' where "sched_at (sr_id r) d' = Some r'" "sched_step t r r'"
      using due r(1) by blast
    ultimately show thesis using attempted r d' by simp
  next
    case False
    with rest d' untouched show thesis by simp
  qed
qed

lemma row_in_table: "sched_at i d = Some r \<Longrightarrow> r \<in> set (scheduled d)"
  unfolding sched_at_def by (drule select_one_Some) simp

lemma phase_bounded:
  assumes "cron_plain cr" "db_ok d" "\<forall>r \<in> set (scheduled d). row_bounded r"
  shows "\<forall>r \<in> set (scheduled (phase cr t d)). row_bounded r"
proof
  fix r' assume "r' \<in> set (scheduled (phase cr t d))"
  then have r': "sched_at (sr_id r') (phase cr t d) = Some r'"
    by (rule sched_at_row [OF phase_ok [OF assms(2)]])
  from assms(1,2) show "row_bounded r'"
  proof (cases rule: phase_row [where i = "sr_id r'" and t = t])
    case (attempted r r'')
    from row_in_table [OF attempted(3)] have b: "row_bounded r" using assms(3) by blast
    have "r'' = r'" using attempted(5) unfolding r' by simp
    with sched_step_bounded [OF attempted(6) b attempted(4)] show ?thesis by blast
  next
    case untouched
    have "sched_at (sr_id r') d = Some r'" using untouched(2) unfolding r' by (rule sym)
    from row_in_table [OF this] assms(3) show ?thesis by blast
  qed
qed

lemma phases_bounded:
  "cron_plain cr \<Longrightarrow> db_ok d \<Longrightarrow> \<forall>r \<in> set (scheduled d). row_bounded r \<Longrightarrow>
   \<forall>r \<in> set (scheduled (run_phases cr ts d)). row_bounded r"
  unfolding run_phases_def
proof (induction ts arbitrary: d)
  case (Cons t ts)
  from Cons.IH [OF Cons.prems(1) phase_ok [OF Cons.prems(2)] phase_bounded [OF Cons.prems]]
  show ?case by (simp only: fold.simps o_apply)
qed (simp only: fold.simps id_apply)

lemma turns_bound:
  assumes "cron_plain cr"
  shows "db_ok d \<Longrightarrow> \<forall>r \<in> set (scheduled d). row_bounded r \<Longrightarrow> sched_at i d = Some r
    \<Longrightarrow> sr_max_occurrences r = Some n \<Longrightarrow> turns cr i ts d \<le> nat (attempts_left r)"
proof (induction ts arbitrary: d r)
  case (Cons t ts)
  have b: "row_bounded r" using row_in_table [OF Cons.prems(3)] Cons.prems(2) by blast
  note IH = Cons.IH [OF phase_ok [OF Cons.prems(1)] phase_bounded [OF assms Cons.prems(1,2)]]
  from assms Cons.prems(1) show ?case
  proof (cases rule: phase_row [where i = i and t = t])
    case (attempted q r')
    then have q: "q = r" using Cons.prems(3) by simp
    have "sr_max_occurrences r' = Some n"
      using sched_step_bounded [OF attempted(6)] attempted(4) b q Cons.prems(4) by simp
    from IH [OF attempted(5) this]
    have "turns cr i ts (phase cr t d) \<le> nat (attempts_left r')" .
    moreover have "attempts_left r' < attempts_left r" "0 \<le> attempts_left r'"
      using sched_step_attempts [OF attempted(6)] attempted(4) b q Cons.prems(4) by simp_all
    ultimately have "Suc (turns cr i ts (phase cr t d)) \<le> nat (attempts_left r)" by linarith
    then show ?thesis by simp
  next
    case untouched
    with IH Cons.prems(3,4) show ?thesis by simp
  qed
qed simp

text \<open>C10: A loop ends. A mail with a budget of \<open>n\<close> occurrences is attempted at most
  \<open>3 * n\<close> times, however many ticks follow and whatever fails in between; no row ever
  counts more deliveries than its budget or stays pending with three failures or with its
  budget used up. A row that is created with a positive budget starts that way.\<close>

theorem loop_budget:
  assumes "cron_plain cr" "db_ok d" "\<forall>r \<in> set (scheduled d). row_bounded r"
  shows "(\<forall>r \<in> set (scheduled (run_phases cr ts d)). row_bounded r)
     \<and> (\<forall>i r n. sched_at i d = Some r \<and> sr_max_occurrences r = Some n \<longrightarrow>
          turns cr i ts d \<le> nat (3 * n))
     \<and> ((\<forall>n. sm_max_occurrences spec = Some n \<longrightarrow> 0 < n) \<longrightarrow> row_bounded (sched_row_of t j spec))"
proof (intro conjI)
  show "\<forall>r \<in> set (scheduled (run_phases cr ts d)). row_bounded r"
    by (rule phases_bounded [OF assms])
  show "\<forall>i r n. sched_at i d = Some r \<and> sr_max_occurrences r = Some n \<longrightarrow>
          turns cr i ts d \<le> nat (3 * n)"
  proof (intro allI impI)
    fix i r n assume r: "sched_at i d = Some r \<and> sr_max_occurrences r = Some n"
    have "r \<in> set (scheduled d)"
      using r unfolding sched_at_def by (auto dest: select_one_Some)
    then have "attempts_left r \<le> 3 * n \<or> attempts_left r \<le> 0"
      using r assms(3) by (auto simp: attempts_left_def row_bounded_def)
    then show "turns cr i ts d \<le> nat (3 * n)"
      using turns_bound [OF assms, of i r n ts] r by auto
  qed
  show "(\<forall>n. sm_max_occurrences spec = Some n \<longrightarrow> 0 < n) \<longrightarrow> row_bounded (sched_row_of t j spec)"
    by (auto simp: row_bounded_def sched_row_of_def)
qed


section \<open>The last wake is announced\<close>

lemma keeps_messages_advance:
  "keeps (\<lambda>d. x \<in> set (messages d)) (advance_schedule cr now m np nf i)"
  by (auto simp: advance_schedule_def Let_def mark_delivered_def upd_scheduled_def throw_def
      split: sum.splits option.splits intro!: keepsI)

text \<open>The mail of a wake that is final by the no-progress gate.\<close>

definition is_final_wake :: "scheduled_mail \<Rightarrow> int \<Rightarrow> message_row \<Rightarrow> bool" where
  "is_final_wake m n x \<longleftrightarrow> mr_recipient x = sm_recipient m \<and> mr_urgency x = UHigh
     \<and> mr_body x = delivery_body m n True"

lemma final_occurrence_mailed:
  assumes ok: "db_ok d" and run: "insert_occurrence now m n True d = (Inr i, d')"
    and fresh: "\<not> has_message (sm_recipient m) (occurrence_key m @ '':final-notice'') d"
  shows "\<exists>x \<in> set (messages d'). is_final_wake m n x"
proof -
  let ?d0 = "ensure_mailbox (sm_recipient m) d"
  let ?msg = "delivery_message m (occurrence_key m) UHigh (delivery_body m n True)"
  let ?note = "delivery_message m (occurrence_key m @ '':final-notice'') UHigh (delivery_body m n True)"
  have row: "is_final_wake m n (message_row_of t j (delivery_message m k UHigh (delivery_body m n True)))"
    for t j k by (simp add: is_final_wake_def delivery_message_def new_message_def)
  obtain y d1 where i1: "insert_message (now div 1000) ?msg ?d0 = (y, d1)"
    by (cases "insert_message (now div 1000) ?msg ?d0")
  obtain j where y: "y = Inr j"
    using run i1 by (cases y) (auto simp: insert_occurrence_def Let_def exec_simps)
  show ?thesis
  proof (cases "j < 0")
    case False
    then have "d' = d1" using run i1 y by (auto simp: insert_occurrence_def Let_def exec_simps)
    then show ?thesis
      using insert_message_row [of "now div 1000" ?msg ?d0 j] i1 y False row by auto
  next
    case True
    obtain z d2 where i2: "insert_message (now div 1000) ?note d1 = (z, d2)"
      by (cases "insert_message (now div 1000) ?note d1")
    with run i1 y True have d2: "z = Inr k \<Longrightarrow> d' = d2" and "\<exists>k. z = Inr k" for k
      by (cases z; auto simp: insert_occurrence_def Let_def exec_simps)+
    then obtain k where k: "z = Inr k" by blast
    have same: "messages d1 = messages d"
      using insert_message_refused [OF ensure_mailbox_ok [OF ok] i1 [unfolded y] True] by simp
    have ok1: "db_ok d1"
      using insert_message_ok [of ?d0 "now div 1000" ?msg] i1 ok by auto
    have "\<not> has_message (msg_recipient ?note) (msg_external ?note) d1"
      using fresh same by (simp add: has_message_def delivery_message_def new_message_def)
    from insert_message_fresh [OF ok1 this, of "now div 1000" k] i2 k have "0 \<le> k" by simp
    then show ?thesis
      using insert_message_row [of "now div 1000" ?note d1 k] i2 k d2 row by auto
  qed
qed

text \<open>Nobody is put to sleep without being told. When the no-progress gate makes a wake
  the last one and its delivery succeeds, the schedule is completed and the mailbox holds a
  mail of high urgency with the closing notice; this holds also when the process died between
  the mail and the schedule's update and the occurrence was already in the mailbox, without
  the notice.\<close>

theorem final_wake_announced:
  assumes "db_ok d" "sched_at i d = Some r" "sr_status r = SPending"
    and "recipient_problem (sr_recipient r) d = None"
    and "evaluate_no_progress (row_to_mail r) d = (n, True)"
    and "\<not> has_message (sr_recipient r) (occurrence_key (row_to_mail r) @ '':final-notice'') d"
    and "deliver_one_scheduled_mail cr now (row_to_mail r) d = (Inr (), d')"
  shows "(\<exists>r'. sched_at i d' = Some r' \<and> sr_status r' = SCompleted
            \<and> sr_occurrences r' = sr_occurrences r + 1)
     \<and> (\<exists>x. x \<in> set (messages d') \<and> is_final_wake (row_to_mail r) n x)"
proof -
  let ?m = "row_to_mail r"
  have m: "sm_id ?m = Some i" "sm_recipient ?m = sr_recipient r"
    using sched_at_id [OF assms(2)] by (simp_all add: row_to_mail_def)
  obtain y d1 where o: "insert_occurrence now ?m n True d = (y, d1)"
    by (cases "insert_occurrence now ?m n True d")
  have eq: "deliver_one_scheduled_mail cr now ?m d = (case y of Inl e \<Rightarrow> (Inl e, d1)
      | Inr mid \<Rightarrow> advance_schedule cr now ?m n True mid d1)"
    using deliver_eligible [of ?m d cr now] assms(4,5) m(2) o by (simp add: Let_def split: sum.splits)
  then obtain mid where y: "y = Inr mid" using assms(7) by (cases y) auto
  with eq assms(7) have a: "advance_schedule cr now ?m n True mid d1 = (Inr (), d')" by simp
  have s1: "scheduled d1 = scheduled d"
    using keepsD [OF keeps_schedule_insert(1), of d "scheduled d" now ?m n True] o by simp
  have r1: "sched_at i d1 = Some r" using assms(2) sched_at_cong [OF s1] by simp
  from advance_run [OF r1 m(1) a] obtain nxt npc where
    d': "d' = upd_scheduled (\<lambda>q. sr_id q = i) (delivered_row (now div 1000) mid nxt True npc) d1"
    by auto
  have "sched_at i d' = Some (delivered_row (now div 1000) mid nxt True npc r)"
    unfolding d' by (rule sched_at_upd_self(1) [OF r1])
      (simp_all add: delivered_row_def sched_at_id [OF assms(2)])
  moreover obtain x where x: "x \<in> set (messages d1)" "is_final_wake ?m n x"
    using final_occurrence_mailed [OF assms(1) _ assms(6) [folded m(2)], of now n mid d1] o y by auto
  moreover have "x \<in> set (messages d')"
    using keepsD [OF keeps_messages_advance [of x], OF x(1), of cr now ?m n True mid] a by simp
  ultimately show ?thesis by (auto simp: delivered_row_def)
qed


section \<open>Examples\<close>

lemma every_minute_plain: "cron_plain every_minute"
  by (simp add: cron_plain_def plain_err_def every_minute_def)

text \<open>A loop of the worker to itself with a budget of two wakes, one of which it had; it
  made nine tool calls in a wakeup since, without anything to show for them.\<close>

definition sample_mail :: sched_row where
  "sample_mail =
     \<lparr>sr_id = 1, sr_recipient = ''worker/a'', sr_sender = ''worker/a'', sr_urgency = UNormal,
      sr_title = Some ''poll'', sr_body = ''poll'', sr_task = None, sr_parent_msg = None,
      sr_meta = Some [(''thread_id'', JStr ''th'')], sr_scheduled_for = MsZ 9000,
      sr_recur_kind = None, sr_recur_value = None, sr_recur_until = None, sr_occurrences = 1,
      sr_max_occurrences = Some 3, sr_no_progress = 0, sr_max_no_progress = Some 1,
      sr_failures = 0, sr_created = MsZ 0, sr_created_by_agent = Some ''worker/a'',
      sr_created_by_task = None, sr_status = SPending, sr_last_delivery = None,
      sr_last_delivered = Some (MsZ 1000), sr_cancelled = None, sr_cancelled_by = None,
      sr_bounce_reason = None\<rparr>"

definition loop_db :: db where
  "loop_db = sample_db
     \<lparr>tasks := [sample_task ''t1'' ''worker/a'' (Some [(''thread_id'', JStr ''th''),
                                                     (''auto_dispatched'', JBool True)])],
      wakeups := [(new_wakeup_row 2000 ''w1'' ''t1'' ''worker'' (Some ''worker/a''))
                    \<lparr>wr_ended := Some (MsZ 5000), wr_tool_calls := Some 9\<rparr>],
      scheduled := [sample_mail], scheduled_seq := 1\<rparr>"

lemma loop_db_ok: "db_ok loop_db"
  by (simp add: loop_db_def sample_db_def empty_db_def db_ok_defs key_defs sample_agent_def
      sample_task_def new_wakeup_row_def sample_mail_def)

lemma loop_db_row: "sched_at 1 loop_db = Some sample_mail"
  by (simp add: loop_db_def sched_at_def select_one_def sample_mail_def)

lemma loop_db_bounded: "\<forall>r \<in> set (scheduled loop_db). row_bounded r"
  by (simp add: loop_db_def sample_mail_def row_bounded_def)

lemma scheduled_phase_settles_witness:
  "\<exists>d' r'. deliver_scheduled_mail every_minute 10000000 loop_db = (Inr (), d') \<and> db_ok d'
     \<and> sched_at 1 d' = Some r' \<and> sched_step 10000000 sample_mail r'"
proof -
  have r: "sample_mail \<in> set (scheduled loop_db)" by (simp add: loop_db_def)
  have "due_rows 10000000 loop_db = [sample_mail]"
    by (simp add: due_rows_def loop_db_def sql_limit_def order_by_def is_ready_def
        sample_mail_def iso_sec_def)
  then have "row_to_mail sample_mail \<in> set (find_ready (iso_sec 10000000) 20 loop_db)"
    unfolding find_ready_due by simp
  moreover have "sr_id sample_mail = 1" by (simp add: sample_mail_def)
  ultimately show ?thesis
    using scheduled_phase_settles [OF every_minute_plain loop_db_ok r, of 10000000]
    by (metis (no_types))
qed

lemma loop_budget_witness:
  "turns every_minute 1 [10000000, 11000000, 12000000] loop_db \<le> 9"
  using loop_budget [OF every_minute_plain loop_db_ok loop_db_bounded,
      of "[10000000, 11000000, 12000000]"] loop_db_row
  by (auto simp: sample_mail_def)

lemma final_wake_announced_witness:
  "\<exists>d' x. deliver_one_scheduled_mail every_minute 10000000 (row_to_mail sample_mail) loop_db = (Inr (), d')
     \<and> x \<in> set (messages d') \<and> is_final_wake (row_to_mail sample_mail) 1 x"
proof -
  have e: "evaluate_no_progress (row_to_mail sample_mail) loop_db = (1, True)" by code_simp
  have p: "recipient_problem (sr_recipient sample_mail) loop_db = None" by code_simp
  have f: "\<not> has_message (sr_recipient sample_mail)
      (occurrence_key (row_to_mail sample_mail) @ '':final-notice'') loop_db" by code_simp
  have s: "sr_status sample_mail = SPending" by (simp add: sample_mail_def)
  have "fst (deliver_one_scheduled_mail every_minute 10000000 (row_to_mail sample_mail) loop_db) = Inr ()"
    by code_simp
  then obtain d' where
    d': "deliver_one_scheduled_mail every_minute 10000000 (row_to_mail sample_mail) loop_db = (Inr (), d')"
    by (cases "deliver_one_scheduled_mail every_minute 10000000 (row_to_mail sample_mail) loop_db") simp
  from final_wake_announced [OF loop_db_ok loop_db_row s p e f d'] d' show ?thesis by blast
qed

end
