(* ===== verification/Sched_State.thy ===== *)
theory Sched_State
  imports Sched_Mail "HOL-Library.AList"
begin

text \<open>
  The scheduler's own state (\<open>Scheduler.__init__\<close> of \<open>scheduler/scheduler.py\<close>):
  beside the database it keeps the tasks that run in a subprocess, the consecutive failures
  of each fan-in group, and the time of the last maintenance run. The configuration values it
  reads are a record. Here are also the helper functions of the module that need no state.
\<close>

record sched_config =
  cf_spawn_subprocess :: bool
  cf_max_concurrent_tasks :: int
  cf_auto_wake :: bool
  cf_fanin_max_age :: int
  cf_singleton_recovery_max :: int
  cf_retention_days :: int
  cf_maintenance_interval :: int

record sched_state =
  sc_db :: db
  sc_active :: "string list"
  sc_failures :: "(string \<times> int) list"
  sc_last_maintenance :: "int option"

definition new_scheduler :: "db \<Rightarrow> sched_state" where
  "new_scheduler d = \<lparr>sc_db = d, sc_active = [], sc_failures = [], sc_last_maintenance = None\<rparr>"

definition max_concurrent :: "sched_config \<Rightarrow> int" where
  "max_concurrent cf = max 1 (cf_max_concurrent_tasks cf)"

definition with_db :: "(db, 'a) exec \<Rightarrow> (sched_state, 'a) exec" where
  "with_db m = (\<lambda>s. case m (sc_db s) of (r, d) \<Rightarrow> (r, s\<lparr>sc_db := d\<rparr>))"

lemma with_db_run: "m (sc_db s) = (r, d) \<Longrightarrow> with_db m s = (r, s\<lparr>sc_db := d\<rparr>)"
  by (simp add: with_db_def)

text \<open>A predicate of the database, read as one of the scheduler's state.\<close>

definition of_db :: "(db \<Rightarrow> bool) \<Rightarrow> sched_state \<Rightarrow> bool" where
  "of_db P s \<longleftrightarrow> P (sc_db s)"

lemma keeps_with_db [keeps_intros]: "keeps P m \<Longrightarrow> keeps (of_db P) (with_db m)"
  by (rule keepsI) (auto simp: with_db_def of_db_def split: prod.splits dest: keepsD [of P m])

lemma plain_with_db [plain_intros]: "plain m \<Longrightarrow> plain (with_db m)"
  by (auto simp: plain_def with_db_def split: prod.splits) (metis fst_conv)

lemma with_db_ret: "with_db (ret a) = ret a"
  by (rule ext) (simp add: with_db_def ret_def)

section \<open>Wakeup status and task status\<close>

definition wakeup_status_to_task_status :: "string \<Rightarrow> string" where
  "wakeup_status_to_task_status s =
     (if s = ''silent_close'' then ''completed''
      else if s = ''needs_continuation'' then ''failed'' else s)"

section \<open>Metadata of a restarted task\<close>

definition cancel_metadata_keys :: "string set" where
  "cancel_metadata_keys = {''cancel_requested'', ''cancel_reason''}"

definition metadata_without_cancel :: "dict option \<Rightarrow> dict option" where
  "metadata_without_cancel m =
     (case m of
        None \<Rightarrow> None
      | Some d \<Rightarrow>
          (if d = [] then Some d
           else (let stripped = ddel cancel_metadata_keys d
                 in if stripped = [] then None else Some stripped)))"

section \<open>Turn budget\<close>

definition effective_max_turns :: "task \<Rightarrow> int \<Rightarrow> int" where
  "effective_max_turns t default_turns =
     (case oget (task_tier_overrides t) ''max_turns'' of
        Some (JInt n) \<Rightarrow> (if n \<ge> 1 then n else default_turns)
      | _ \<Rightarrow> default_turns)"

section \<open>Supervision metadata\<close>

text \<open>\<open>(agent.metadata or {}).get("supervision", {})\<close>. Where the value is no dictionary
  the method calls on it raise, \<open>AttributeError\<close>.\<close>

definition supervision_of :: "agent \<Rightarrow> exn + dict" where
  "supervision_of a =
     (case oget (agent_meta a) ''supervision'' of
        None \<Rightarrow> Inr []
      | Some (JObj d) \<Rightarrow> Inr d
      | Some _ \<Rightarrow> Inl (Exn ''AttributeError'' ''object has no attribute get''))"

text \<open>\<open>int(x)\<close> of a JSON value: decimal text with a sign and outer white space is read.\<close>

definition int_of_text :: "string \<Rightarrow> int option" where
  "int_of_text s0 =
     (let s = strip s0 in
      case s of
        [] \<Rightarrow> None
      | c # cs \<Rightarrow>
          (let ds = (if c = CHR ''+'' \<or> c = CHR ''-'' then cs else s)
           in if ds \<noteq> [] \<and> list_all is_digit ds
              then Some (if c = CHR ''-'' then - int (nat_of_digits ds) else int (nat_of_digits ds))
              else None))"

fun py_int :: "json \<Rightarrow> exn + int" where
  "py_int (JInt i) = Inr i"
| "py_int (JBool b) = Inr (if b then 1 else 0)"
| "py_int (JFloat q) = Inr (if q < 0 then - \<lfloor>- q\<rfloor> else \<lfloor>q\<rfloor>)"
| "py_int (JStr s) = (case int_of_text s of
     Some i \<Rightarrow> Inr i | None \<Rightarrow> Inl (value_error ''invalid literal for int() with base 10''))"
| "py_int _ = Inl (Exn ''TypeError'' ''int() argument must be a string, a bytes-like object or a real number'')"

definition sup_int :: "dict \<Rightarrow> string \<Rightarrow> int \<Rightarrow> exn + int" where
  "sup_int sv k i = py_int (case dget sv k of None \<Rightarrow> JInt i | Some v \<Rightarrow> v)"

text \<open>The lifetime cap, defensively: what \<open>int\<close> refuses reads as the default, zero and
  below as no cap.\<close>

definition sup_max_total :: "dict \<Rightarrow> int option" where
  "sup_max_total sv =
     (let value = (case sup_int sv ''max_restarts_total'' 10 of Inl e \<Rightarrow> 10 | Inr i \<Rightarrow> i)
      in if value > 0 then Some value else None)"

definition should_restart :: "string \<Rightarrow> task_status \<Rightarrow> bool" where
  "should_restart policy outcome \<longleftrightarrow>
     policy = ''permanent'' \<or> policy = ''transient'' \<and> outcome = TFailed"

lemma plain_supervision_of: "plain_err (supervision_of a)"
  by (auto simp: supervision_of_def plain_err_def split: option.splits json.splits)

lemma plain_py_int: "plain_err (py_int j)"
  by (cases j) (auto simp: plain_err_def split: option.splits)

lemma plain_sup_int: "plain_err (sup_int sv k i)"
  by (simp add: sup_int_def plain_py_int)

text \<open>A task that is restarted is not born cancelled.\<close>

lemma metadata_not_cancelled:
  "oget (metadata_without_cancel m) k = (if k \<in> cancel_metadata_keys then None else oget m k)"
proof (cases m)
  case (Some d)
  have g: "dget (ddel cancel_metadata_keys d) k = (if k \<in> cancel_metadata_keys then None else dget d k)"
    by simp
  show ?thesis
  proof (cases "ddel cancel_metadata_keys d = []")
    case True
    with g have "k \<notin> cancel_metadata_keys \<Longrightarrow> dget d k = None" by simp
    with True Some show ?thesis by (simp add: metadata_without_cancel_def)
  next
    case False
    with Some show ?thesis
      by (cases "d = []") (simp_all add: metadata_without_cancel_def)
  qed
qed (simp add: metadata_without_cancel_def)

end
