(* ===== verification/Fan_In_Barrier.thy ===== *)
theory Fan_In_Barrier
  imports Sched_State
begin

text \<open>
  Phase 0.5 of the scheduler: the barriers of workflows. A group is resolved when the mails
  that carry the results of its legs reach the quorum, or when its deadline or the global age
  limit has passed. A leg whose task died without a result is counted through a sentinel mail.
  The coordinator's wake mail is inserted before the group's status is flipped, so that a
  crash between the two repeats the mail (which its key makes idempotent) instead of losing it.
  A group whose resolution raises three ticks in a row is expired.
\<close>

section \<open>Failed legs\<close>

definition fanin_quarantine_after :: int where "fanin_quarantine_after = 3"

definition failed_leg_key :: "string \<Rightarrow> int \<Rightarrow> string" where
  "failed_leg_key gid leg = ''fanin:'' @ gid @ '':'' @ str_of_int leg @ '':failed''"

definition quoted :: "string \<Rightarrow> string" where
  "quoted s = [CHR 0x27] @ s @ [CHR 0x27]"

definition failed_leg_mail :: "fan_in_group \<Rightarrow> fan_in_member \<Rightarrow> task_status \<Rightarrow> mail_message" where
  "failed_leg_mail g m st =
     (new_message (grp_coordinator g) (failed_leg_key (grp_id g) (fm_leg_key m)) ''system:fan-in'' ULow
        (''Leg '' @ str_of_int (fm_leg_key m) @ '' of fan-in '' @ grp_id g @ '' terminated '' @
         quoted (task_status_str st) @ '' without a typed result.''))
       \<lparr>msg_title := Some (''fan-in '' @ grp_id g @ '' leg '' @ str_of_int (fm_leg_key m) @ '' failed''),
        msg_task := grp_parent_task g,
        msg_meta := Some [(''fan_in'', JObj [(''group_id'', JStr (grp_id g)),
                            (''leg_key'', JInt (fm_leg_key m)),
                            (''result'', JObj [(''_leg_failed'', JBool True),
                                               (''reason'', JStr (task_status_str st))])])]\<rparr>"

text \<open>The status a leg's task died with, when no result of it is on its way.\<close>

definition dead_leg :: "fan_in_group \<Rightarrow> fan_in_member \<Rightarrow> db \<Rightarrow> task_status option" where
  "dead_leg g m d =
     (case tasks_get (fm_child_task m) d of
        None \<Rightarrow> None
      | Some child \<Rightarrow>
          (if task_status child \<noteq> TFailed \<and> task_status child \<noteq> TCancelled then None
           else if has_pending_fan_in_result (fm_child_task m) (grp_id g) (fm_leg_key m) d then None
           else Some (task_status child)))"

definition reconcile_leg :: "usec \<Rightarrow> fan_in_group \<Rightarrow> int set \<Rightarrow> fan_in_member \<Rightarrow> (db, unit) exec" where
  "reconcile_leg now g have_result m =
     (if fm_leg_key m \<in> have_result then ret ()
      else bnd (query (dead_leg g m)) (\<lambda>st.
        case st of
          None \<Rightarrow> ret ()
        | Some s \<Rightarrow> seqn (upd (ensure_mailbox (grp_coordinator g)))
            (seqn (insert_message (now div 1000) (failed_leg_mail g m s)) (ret ()))))"

definition reconcile_fan_in_failed_legs :: "usec \<Rightarrow> fan_in_group \<Rightarrow> (db, unit) exec" where
  "reconcile_fan_in_failed_legs now g =
     bnd (query (group_members (grp_id g))) (\<lambda>ms.
       if ms = [] then ret ()
       else bnd (query (read_fan_in_results (grp_coordinator g) (grp_id g))) (\<lambda>r.
         case r of
           Inl e \<Rightarrow> throw e
         | Inr rs \<Rightarrow> for_each (reconcile_leg now g (set (map fr_leg_key rs))) ms))"

section \<open>Resolving one group\<close>

definition resolved_key :: "string \<Rightarrow> string" where
  "resolved_key gid = ''fanin:'' @ gid @ '':resolved''"

definition resolved_mail ::
    "fan_in_group \<Rightarrow> nat \<Rightarrow> fan_in_status \<Rightarrow> string \<Rightarrow> mail_message" where
  "resolved_mail g delivered st trigger =
     (new_message (grp_coordinator g) (resolved_key (grp_id g)) ''system:fan-in'' UHigh
        (''Fan-in barrier '' @ grp_id g @ '' is ready to aggregate: '' @
         str_of_int (int delivered) @ ''/'' @ str_of_int (grp_expect g) @
         '' legs delivered (quorum '' @ str_of_int (grp_quorum g) @ '', status '' @
         fan_in_status_str st @ '', trigger '' @ trigger @
         ''). Read your result-mails (they carry metadata.fan_in.group_id='' @ grp_id g @
         '') and synthesize.''))
       \<lparr>msg_title := Some (''fan-in '' @ grp_id g @ '' ready ('' @ fan_in_status_str st @ '')''),
        msg_task := grp_parent_task g,
        msg_meta := Some [(''fan_in_resolved'', JStr (grp_id g)),
                          (''delivered'', JInt (int delivered)),
                          (''resolved_status'', JStr (fan_in_status_str st)),
                          (''trigger'', JStr trigger)]\<rparr>"

definition resolve_one_fan_in_group :: "usec \<Rightarrow> int \<Rightarrow> fan_in_group \<Rightarrow> (db, unit) exec" where
  "resolve_one_fan_in_group now max_age g =
     seqn (reconcile_fan_in_failed_legs now g)
     (bnd (query (count_fan_in_results (grp_coordinator g) (grp_id g))) (\<lambda>delivered.
        let ready = int delivered \<ge> grp_quorum g;
            timed_out = now \<ge> grp_deadline g;
            ttl_expired = max_age > 0 \<and> (case grp_created g of
              None \<Rightarrow> False | Some c \<Rightarrow> now - c > max_age * 1000000);
            new_status = (if ready then GQuorumMet else GExpired);
            trigger = (if ready then ''quorum'' else if ttl_expired then ''ttl'' else ''deadline'')
        in if \<not> (ready \<or> timed_out \<or> ttl_expired) then ret ()
           else seqn (upd (ensure_mailbox (grp_coordinator g)))
             (seqn (insert_message (now div 1000) (resolved_mail g delivered new_status trigger))
             (seqn (step (set_group_status (now div 1000) (grp_id g) new_status (Some GOpen)))
               (ret ())))))"

section \<open>Poison groups\<close>

definition quarantined_key :: "string \<Rightarrow> string" where
  "quarantined_key gid = ''fanin:'' @ gid @ '':quarantined''"

definition fan_in_quarantine_mail :: "fan_in_group \<Rightarrow> string \<Rightarrow> mail_message" where
  "fan_in_quarantine_mail g error =
     (new_message (grp_coordinator g) (quarantined_key (grp_id g)) ''system:fan-in'' UHigh
        (''Fan-in barrier '' @ grp_id g @ '' was force-expired: its resolution failed '' @
         str_of_int fanin_quarantine_after @ '' ticks in a row (last error: '' @
         utake 300 error @
         ''). Read whatever result-mails arrived and synthesize from those, or re-dispatch the missing legs.''))
       \<lparr>msg_title := Some (''fan-in '' @ grp_id g @ '' force-expired (resolution kept failing)''),
        msg_task := grp_parent_task g,
        msg_meta := Some [(''fan_in_quarantined'', JStr (grp_id g))]\<rparr>"

definition set_failures :: "((string \<times> int) list \<Rightarrow> (string \<times> int) list) \<Rightarrow> (sched_state, unit) exec" where
  "set_failures f = upd (\<lambda>s. s\<lparr>sc_failures := f (sc_failures s)\<rparr>)"

definition force_expire_poison_fan_in :: "usec \<Rightarrow> fan_in_group \<Rightarrow> string \<Rightarrow> (sched_state, unit) exec" where
  "force_expire_poison_fan_in now g error =
     bnd (with_db (step (set_group_status (now div 1000) (grp_id g) GExpired (Some GOpen)))) (\<lambda>flipped.
     seqn (set_failures (AList.delete (grp_id g)))
       (run_if flipped
         (try_except
            (with_db (seqn (upd (ensure_mailbox (grp_coordinator g)))
              (seqn (insert_message (now div 1000) (fan_in_quarantine_mail g error)) (ret ()))))
            (\<lambda>_. ret ()))))"

definition failure_count :: "string \<Rightarrow> sched_state \<Rightarrow> int" where
  "failure_count gid s = (case map_of (sc_failures s) gid of None \<Rightarrow> 0 | Some n \<Rightarrow> n)"

definition attempt_fan_in_group :: "usec \<Rightarrow> int \<Rightarrow> fan_in_group \<Rightarrow> (sched_state, unit) exec" where
  "attempt_fan_in_group now max_age g =
     try_except
       (seqn (with_db (resolve_one_fan_in_group now max_age g))
          (set_failures (AList.delete (grp_id g))))
       (\<lambda>e. bnd (query (\<lambda>s. failure_count (grp_id g) s + 1)) (\<lambda>count.
          seqn (set_failures (AList.update (grp_id g) count))
            (run_if (count \<ge> fanin_quarantine_after)
               (force_expire_poison_fan_in now g (exn_msg e)))))"

text \<open>The counters of groups that have left the open state are dropped; a group that is
  only off the page keeps its counter.\<close>

definition drop_stale_failures :: "string set \<Rightarrow> (sched_state, unit) exec" where
  "drop_stale_failures open_ids = upd (\<lambda>s. s\<lparr>sc_failures :=
     filter (\<lambda>(gid, n). gid \<in> open_ids \<or>
        (case group_get gid (sc_db s) of None \<Rightarrow> False | Some g \<Rightarrow> grp_status g = GOpen))
       (sc_failures s)\<rparr>)"

definition resolve_fan_in_barriers :: "sched_config \<Rightarrow> usec \<Rightarrow> (sched_state, unit) exec" where
  "resolve_fan_in_barriers cf now =
     bnd (with_db (query any_open)) (\<lambda>some_open.
       if \<not> some_open then ret ()
       else let max_age = cf_fanin_max_age cf;
                ttl_cutoff = (if max_age > 0 then Some (now - max_age * 1000000) else None)
            in bnd (with_db (query (find_open 20 ttl_cutoff))) (\<lambda>open_groups.
                 seqn (drop_stale_failures (set (map grp_id open_groups)))
                   (for_each (attempt_fan_in_group now max_age) open_groups)))"

section \<open>Invariant and totality\<close>

lemma keeps_reconcile_leg [keeps_intros]: "keeps db_ok (reconcile_leg now g h m)"
  unfolding reconcile_leg_def by (intro keeps_intros)

lemma keeps_reconcile [keeps_intros]: "keeps db_ok (reconcile_fan_in_failed_legs now g)"
  unfolding reconcile_fan_in_failed_legs_def by (intro keeps_intros)

lemma keeps_resolve_one [keeps_intros]: "keeps db_ok (resolve_one_fan_in_group now a g)"
  unfolding resolve_one_fan_in_group_def by (intro keeps_intros)

lemma keeps_set_failures: "keeps (of_db P) (set_failures f)"
  unfolding set_failures_def by (rule keeps_upd) (simp add: of_db_def)

lemma keeps_drop_stale: "keeps (of_db P) (drop_stale_failures ids)"
  unfolding drop_stale_failures_def by (rule keeps_upd) (simp add: of_db_def)

lemma keeps_attempt_group: "keeps (of_db db_ok) (attempt_fan_in_group now a g)"
  unfolding attempt_fan_in_group_def force_expire_poison_fan_in_def
  by (intro keeps_intros keeps_set_failures)

lemma keeps_barriers [keeps_intros]: "keeps (of_db db_ok) (resolve_fan_in_barriers cf now)"
  unfolding resolve_fan_in_barriers_def
  by (intro keeps_intros keeps_drop_stale keeps_attempt_group)

lemma parse_plain: "plain_err (collect_results rs)"
proof (induction rs)
  case (Cons r rs)
  then show ?case
    by (auto simp: plain_err_def parse_result_def leg_int_def map_sum_def
        split: sum.splits option.splits sqlval.splits json.splits if_splits)
qed (simp add: plain_err_def)

lemma plain_resolve_one: "plain (resolve_one_fan_in_group now a g)"
proof -
  have l: "plain (reconcile_leg now g h m)" for h m
    unfolding reconcile_leg_def by (intro plain_intros)
  have "plain (reconcile_fan_in_failed_legs now g)"
    unfolding reconcile_fan_in_failed_legs_def
    by (intro plain_intros plain_query_case l) (simp add: read_fan_in_results_def parse_plain)
  then show ?thesis unfolding resolve_one_fan_in_group_def by (intro plain_intros)
qed


section \<open>No group is resolved behind the coordinator's back\<close>

definition wakes_ok :: "db \<Rightarrow> bool" where
  "wakes_ok d \<longleftrightarrow> (\<forall>r \<in> set (groups d). gr_status r \<in> {GQuorumMet, GExpired} \<longrightarrow>
     has_message (gr_coordinator r) (resolved_key (gr_id r)) d
     \<or> has_message (gr_coordinator r) (quarantined_key (gr_id r)) d)"

text \<open>The groups of a page are what the table says of their immutable columns.\<close>

definition known :: "fan_in_group set \<Rightarrow> db \<Rightarrow> bool" where
  "known G d \<longleftrightarrow> (\<forall>g \<in> G. \<forall>r \<in> set (groups d). gr_id r = grp_id g \<longrightarrow>
     gr_coordinator r = grp_coordinator g \<and> gr_parent_task r = grp_parent_task g)"

definition barrier_inv :: "fan_in_group set \<Rightarrow> db \<Rightarrow> bool" where
  "barrier_inv G d \<longleftrightarrow> db_ok d \<and> wakes_ok d \<and> known G d"

lemma insert_message_tables [simp]:
  "groups (snd (insert_message now msg d)) = groups d"
  "tasks (snd (insert_message now msg d)) = tasks d"
  "agents (snd (insert_message now msg d)) = agents d"
  "members (snd (insert_message now msg d)) = members d"
  "outbox (snd (insert_message now msg d)) = outbox d"
  by (simp_all add: insert_message_def Let_def)

lemma has_message_ensure [simp]: "has_message q e (ensure_mailbox p d) \<longleftrightarrow> has_message q e d"
  by (simp add: has_message_def)

lemma keeps_inv_mail [keeps_intros]:
  "keeps (barrier_inv G) (insert_message now msg)"
  "keeps (barrier_inv G) (upd (ensure_mailbox q))"
  unfolding barrier_inv_def
  by (auto simp: wakes_ok_def known_def insert_message_ok has_message_mono upd_def
      intro!: keepsI)

lemma flip_inv:
  assumes "barrier_inv G d" "g \<in> G"
    and "has_message (grp_coordinator g) (resolved_key (grp_id g)) d
       \<or> has_message (grp_coordinator g) (quarantined_key (grp_id g)) d"
  shows "barrier_inv G (snd (set_group_status t (grp_id g) st guard d))"
  using assms
  by (auto simp: barrier_inv_def wakes_ok_def known_def has_message_def set_group_status_def
      upd_groups_def db_ok_update_groups elim!: update_where_cases)

lemma resolved_mail_key [simp]:
  "msg_recipient (resolved_mail g n st tr) = grp_coordinator g"
  "msg_external (resolved_mail g n st tr) = resolved_key (grp_id g)"
  by (simp_all add: resolved_mail_def new_message_def)

lemma keeps_wake_then_flip:
  assumes "g \<in> G"
  shows "keeps (barrier_inv G)
    (seqn (insert_message now (resolved_mail g n st tr))
       (seqn (step (set_group_status t (grp_id g) st' (Some GOpen))) (ret ())))"
proof (rule keepsI)
  fix d assume inv: "barrier_inv G d"
  obtain x d1 where i: "insert_message now (resolved_mail g n st tr) d = (x, d1)"
    by (cases "insert_message now (resolved_mail g n st tr) d")
  have inv1: "barrier_inv G d1" using keepsD [OF keeps_inv_mail(1) inv] i by (metis snd_conv)
  show "barrier_inv G (snd (seqn (insert_message now (resolved_mail g n st tr))
       (seqn (step (set_group_status t (grp_id g) st' (Some GOpen))) (ret ())) d))"
  proof (cases x)
    case (Inr j)
    then have "has_message (grp_coordinator g) (resolved_key (grp_id g)) d1"
      using has_message_after [of now "resolved_mail g n st tr" d] i by simp
    then have "barrier_inv G (snd (set_group_status t (grp_id g) st' (Some GOpen) d1))"
      using flip_inv [OF inv1 assms] by blast
    then show ?thesis using i Inr by (simp add: exec_simps case_prod_beta)
  qed (use i inv1 in \<open>simp add: exec_simps\<close>)
qed

lemma keeps_inv_resolve:
  assumes "g \<in> G"
  shows "keeps (barrier_inv G) (resolve_one_fan_in_group now a g)"
  unfolding resolve_one_fan_in_group_def reconcile_fan_in_failed_legs_def reconcile_leg_def
  by (intro keeps_intros keeps_wake_then_flip assms)

lemma quarantine_mail_key [simp]:
  "msg_recipient (fan_in_quarantine_mail g e) = grp_coordinator g"
  "msg_external (fan_in_quarantine_mail g e) = quarantined_key (grp_id g)"
  "msg_task (fan_in_quarantine_mail g e) = grp_parent_task g"
  "msg_parent (fan_in_quarantine_mail g e) = None"
  by (simp_all add: fan_in_quarantine_mail_def new_message_def)

lemma insert_message_succeeds:
  "fk (msg_task msg) (task_ids d) \<Longrightarrow> msg_parent msg = None \<Longrightarrow>
   \<exists>i. fst (insert_message now msg d) = Inr i"
  by (simp add: insert_message_def Let_def)

lemma force_expire_inv:
  assumes inv: "barrier_inv G (sc_db s)" and g: "g \<in> G"
  shows "barrier_inv G (sc_db (snd (force_expire_poison_fan_in now g e s)))"
proof -
  let ?t = "now div 1000" and ?msg = "fan_in_quarantine_mail g e"
  obtain fl d1 where f: "set_group_status ?t (grp_id g) GExpired (Some GOpen) (sc_db s) = (fl, d1)"
    by (cases "set_group_status ?t (grp_id g) GExpired (Some GOpen) (sc_db s)")
  show ?thesis
  proof (cases fl)
    case False
    with f have "\<not> fst (set_group_status ?t (grp_id g) GExpired (Some GOpen) (sc_db s))" by simp
    then have "snd (set_group_status ?t (grp_id g) GExpired (Some GOpen) (sc_db s)) = sc_db s"
      unfolding set_group_status_def by (rule upd_none_same(3))
    with f have "d1 = sc_db s" by simp
    with f False inv show ?thesis
      by (simp add: force_expire_poison_fan_in_def set_failures_def with_db_def exec_simps)
  next
    case True
    then obtain r where r: "r \<in> set (groups (sc_db s))" "gr_id r = grp_id g"
      using f by (auto simp: set_group_status_def upd_groups_def)
    have "fk (gr_parent_task r) (task_ids (sc_db s))"
      using inv r(1) by (auto simp: barrier_inv_def db_ok_defs list_all_iff)
    then have fk: "fk (grp_parent_task g) (task_ids (sc_db s))"
      using inv g r by (auto simp: barrier_inv_def known_def)
    have d1: "messages d1 = messages (sc_db s)" "task_ids d1 = task_ids (sc_db s)"
      using f by (auto simp: set_group_status_def upd_groups_def key_defs)
    let ?d2 = "ensure_mailbox (grp_coordinator g) d1"
    obtain i d3 where i: "insert_message ?t ?msg ?d2 = (Inr i, d3)"
      using insert_message_succeeds [of ?msg ?d2 ?t] fk d1
      by (cases "insert_message ?t ?msg ?d2") auto
    have hm: "has_message (grp_coordinator g) (quarantined_key (grp_id g)) d3"
      using has_message_after [of ?t ?msg ?d2] i by simp
    have "d3 = snd (insert_message ?t ?msg ?d2)" using i by simp
    then have g3: "groups d3 = groups d1"
      and mono: "\<And>q k. has_message q k (sc_db s) \<Longrightarrow> has_message q k d3"
      and ok: "db_ok d1 \<Longrightarrow> db_ok d3"
      using d1 by (auto intro!: has_message_mono insert_message_ok simp: has_message_def [of _ _ d1]
          has_message_def [of _ _ "sc_db s"])
    have upd: "groups d1 = update_where (\<lambda>r. gr_id r = grp_id g \<and> gr_status r = GOpen)
        (\<lambda>r. r\<lparr>gr_status := GExpired, gr_resolved := Some (MsZ ?t)\<rparr>) (groups (sc_db s))"
      using f by (auto simp: set_group_status_def upd_groups_def)
    have kn: "known G d3"
      using inv unfolding barrier_inv_def known_def g3 upd
      by (auto elim!: update_where_cases)
    have "wakes_ok d3"
      unfolding wakes_ok_def g3 upd
    proof (intro ballI impI)
      fix q assume "q \<in> set (update_where (\<lambda>r. gr_id r = grp_id g \<and> gr_status r = GOpen)
        (\<lambda>r. r\<lparr>gr_status := GExpired, gr_resolved := Some (MsZ ?t)\<rparr>) (groups (sc_db s)))"
        and st: "gr_status q \<in> {GQuorumMet, GExpired}"
      then show "has_message (gr_coordinator q) (resolved_key (gr_id q)) d3
          \<or> has_message (gr_coordinator q) (quarantined_key (gr_id q)) d3"
      proof (cases rule: update_where_cases)
        case (updated r')
        then have "gr_id q = grp_id g" "gr_coordinator q = grp_coordinator g"
          using inv g by (auto simp: barrier_inv_def known_def)
        with hm show ?thesis by simp
      next
        case kept
        with inv st have "has_message (gr_coordinator q) (resolved_key (gr_id q)) (sc_db s)
          \<or> has_message (gr_coordinator q) (quarantined_key (gr_id q)) (sc_db s)"
          unfolding barrier_inv_def wakes_ok_def by blast
        then show ?thesis using mono by blast
      qed
    qed
    moreover have "db_ok d1"
      using set_group_status_ok [of ?t "grp_id g" GExpired "Some GOpen" "sc_db s"] inv f
      by (simp add: barrier_inv_def)
    ultimately have "barrier_inv G d3" using kn ok by (simp add: barrier_inv_def)
    with f True i show ?thesis
      by (simp add: force_expire_poison_fan_in_def set_failures_def with_db_def exec_simps)
  qed
qed

lemma force_expire_total:
  "\<exists>u s'. force_expire_poison_fan_in now g e s = (Inr u, s')"
proof -
  let ?n = "with_db (seqn (upd (ensure_mailbox (grp_coordinator g)))
     (seqn (insert_message (now div 1000) (fan_in_quarantine_mail g e)) (ret ())))"
  have "\<exists>u s'. try_except ?n (\<lambda>_. ret ()) s1 = (Inr u, s')" for s1
    by (rule try_except_total) (intro plain_intros, simp add: ret_def)
  then show ?thesis
    by (simp add: force_expire_poison_fan_in_def set_failures_def with_db_def step_def bnd_def
        seqn_def upd_def run_if_def ret_def case_prod_beta)
qed

lemma attempt_group_total: "\<exists>s'. attempt_fan_in_group now a g s = (Inr (), s')"
proof -
  have "\<exists>u s'. attempt_fan_in_group now a g s = (Inr u, s')"
    unfolding attempt_fan_in_group_def
  proof (rule try_except_total)
    show "plain (seqn (with_db (resolve_one_fan_in_group now a g)) (set_failures (AList.delete (grp_id g))))"
      unfolding set_failures_def by (intro plain_intros plain_resolve_one)
    fix e s
    show "\<exists>b s'. bnd (query (\<lambda>s. failure_count (grp_id g) s + 1)) (\<lambda>count.
          seqn (set_failures (AList.update (grp_id g) count))
            (run_if (count \<ge> fanin_quarantine_after)
               (force_expire_poison_fan_in now g (exn_msg e)))) s = (Inr b, s')"
      using force_expire_total
      by (auto simp: query_def seqn_def bnd_def set_failures_def upd_def run_if_def ret_def)
  qed
  then show ?thesis by simp
qed

lemma keeps_inv_attempt:
  assumes "g \<in> G"
  shows "keeps (of_db (barrier_inv G)) (attempt_fan_in_group now a g)"
proof -
  have "keeps (of_db (barrier_inv G)) (force_expire_poison_fan_in now g e)" for e
    by (rule keepsI) (simp add: of_db_def force_expire_inv assms)
  then show ?thesis
    unfolding attempt_fan_in_group_def
    by (intro keeps_intros keeps_set_failures keeps_inv_resolve assms)
qed

lemma keeps_for_each_in:
  "(\<And>x. x \<in> set xs \<Longrightarrow> keeps I (f x)) \<Longrightarrow> keeps I (for_each f xs)"
  by (induction xs) (auto intro: keeps_ret keeps_seqn)

text \<open>C11: A resolved group has woken its coordinator. The phase raises nothing, whatever
  the groups hold, keeps the database's constraints, and after it every group that has met its
  quorum or expired has its wake mail (or the mail that says why it was expired) in the
  coordinator's mailbox, provided this was so before.\<close>

theorem barrier_wakes_coordinator:
  assumes "db_ok (sc_db s)" "wakes_ok (sc_db s)"
  shows "\<exists>s'. resolve_fan_in_barriers cf now s = (Inr (), s')
     \<and> db_ok (sc_db s') \<and> wakes_ok (sc_db s')"
proof (cases "any_open (sc_db s)")
  case False
  with assms show ?thesis
    by (simp add: resolve_fan_in_barriers_def with_db_def exec_simps)
next
  case True
  let ?age = "cf_fanin_max_age cf"
  let ?cut = "if ?age > 0 then Some (now - ?age * 1000000) else None"
  let ?page = "find_open 20 ?cut (sc_db s)"
  let ?body = "seqn (drop_stale_failures (set (map grp_id ?page)))
     (for_each (attempt_fan_in_group now ?age) ?page)"
  have eq: "resolve_fan_in_barriers cf now s = ?body s"
    using True by (simp add: resolve_fan_in_barriers_def Let_def with_db_def bnd_def query_def)
  have "known (set ?page) (sc_db s)"
    unfolding known_def
  proof (intro ballI impI)
    fix g r assume g: "g \<in> set ?page" and r: "r \<in> set (groups (sc_db s))" "gr_id r = grp_id g"
    obtain q where q: "q \<in> set (groups (sc_db s))" "g = row_to_group q"
      using find_open_open [OF g] by blast
    then have "gr_id q = gr_id r" using r by (simp add: row_to_group_def)
    moreover have "distinct (map gr_id (groups (sc_db s)))"
      using assms(1) by (simp add: db_ok_defs key_defs)
    ultimately have "q = r" using distinct_key_unique q(1) r(1) by metis
    with q show "gr_coordinator r = grp_coordinator g \<and> gr_parent_task r = grp_parent_task g"
      by (simp add: row_to_group_def)
  qed
  with assms have inv: "of_db (barrier_inv (set ?page)) s" by (simp add: of_db_def barrier_inv_def)
  have "keeps (of_db (barrier_inv (set ?page))) ?body"
    by (intro keeps_seqn keeps_drop_stale keeps_for_each_in keeps_inv_attempt)
  from keepsD [OF this inv] have end_inv: "barrier_inv (set ?page) (sc_db (snd (?body s)))"
    by (simp add: of_db_def)
  have "\<exists>s'. for_each (attempt_fan_in_group now ?age) ?page s1 = (Inr (), s')" for s1
    by (rule for_each_total) (rule attempt_group_total)
  then obtain s' where "?body s = (Inr (), s')"
    by (auto simp: seqn_def bnd_def drop_stale_failures_def upd_def)
  with end_inv eq show ?thesis by (simp add: barrier_inv_def)
qed


section \<open>Dead legs do not hang the barrier\<close>

text \<open>A leg is settled when its result has been read, or when its task is dead with no result
  on its way; \<open>delivered_legs\<close> are the legs the barrier's count stands for.\<close>

definition result_legs :: "fan_in_group \<Rightarrow> db \<Rightarrow> int set" where
  "result_legs g d = (case read_fan_in_results (grp_coordinator g) (grp_id g) d of
     Inl e \<Rightarrow> {} | Inr rs \<Rightarrow> set (map fr_leg_key rs))"

definition leg_values :: "fan_in_group \<Rightarrow> db \<Rightarrow> sqlval set" where
  "leg_values g d = {v \<in> leg_sql ` {r \<in> set (messages d). for_group (grp_coordinator g) (grp_id g) r}.
     v \<noteq> SqlNull}"

definition counted_legs :: "fan_in_group \<Rightarrow> db \<Rightarrow> int set" where
  "counted_legs g d = {k. \<exists>v \<in> leg_values g d. leg_int v = Inr k}"

lemma count_fan_in_card:
  "count_fan_in_results (grp_coordinator g) (grp_id g) d = card (leg_values g d)"
proof -
  have "leg_values g d = set (filter (\<lambda>v. v \<noteq> SqlNull)
      (map leg_sql (filter (for_group (grp_coordinator g) (grp_id g)) (messages d))))"
    by (auto simp: leg_values_def)
  then show ?thesis by (simp only: count_fan_in_results_def length_remdups_card_conv)
qed

lemma counted_legs_card:
  assumes "K \<subseteq> counted_legs g d"
  shows "card K \<le> count_fan_in_results (grp_coordinator g) (grp_id g) d"
proof -
  have fin: "finite (leg_values g d)" by (simp add: leg_values_def)
  have "Inr ` K \<subseteq> leg_int ` leg_values g d"
    using assms by (force simp: counted_legs_def)
  then have "card ((Inr :: int \<Rightarrow> exn + int) ` K) \<le> card (leg_values g d)"
    using card_mono [of "leg_int ` leg_values g d"] card_image_le [OF fin, of leg_int] fin
    by (meson finite_imageI le_trans)
  then show ?thesis by (simp add: card_image count_fan_in_card)
qed

lemma collect_results_legs:
  "collect_results rs = Inr out \<Longrightarrow> x \<in> set out \<Longrightarrow>
   \<exists>r \<in> set rs. leg_int (leg_sql r) = Inr (fr_leg_key x)"
  by (induction rs arbitrary: out)
    (auto simp: map_sum_def split: sum.splits option.splits)

lemma result_legs_counted: "result_legs g d \<subseteq> counted_legs g d"
proof
  fix k assume "k \<in> result_legs g d"
  then obtain rs x where rs: "read_fan_in_results (grp_coordinator g) (grp_id g) d = Inr rs"
    and x: "x \<in> set rs" "fr_leg_key x = k"
    by (auto simp: result_legs_def split: sum.splits)
  from collect_results_legs [OF rs [unfolded read_fan_in_results_def] x(1)] x(2)
  obtain r where "r \<in> set (messages d)" "for_group (grp_coordinator g) (grp_id g) r"
    "leg_sql r \<noteq> SqlNull" "leg_int (leg_sql r) = Inr k"
    by (auto simp: newest_per_leg_def)
  then show "k \<in> counted_legs g d" by (auto simp: counted_legs_def leg_values_def)
qed

lemma counted_legs_mono:
  "set (messages d) \<subseteq> set (messages d') \<Longrightarrow> counted_legs g d \<subseteq> counted_legs g d'"
  by (auto simp: counted_legs_def leg_values_def)

lemma failed_leg_mail_simps [simp]:
  "msg_recipient (failed_leg_mail g m st) = grp_coordinator g"
  "msg_external (failed_leg_mail g m st) = failed_leg_key (grp_id g) (fm_leg_key m)"
  "msg_task (failed_leg_mail g m st) = grp_parent_task g"
  "msg_parent (failed_leg_mail g m st) = None"
  by (simp_all add: failed_leg_mail_def new_message_def)

lemma failed_leg_row:
  "for_group (grp_coordinator g) (grp_id g) (message_row_of now i (failed_leg_mail g m st))"
  "leg_sql (message_row_of now i (failed_leg_mail g m st)) = SqlInt (fm_leg_key m)"
  by (simp_all add: for_group_def leg_sql_def json_extract_def failed_leg_mail_def new_message_def
      sql_eq_def)

text \<open>The invariant of the sweep over the members: results, statuses and pending rows stay,
  and the sentinel keys of the legs still to come are unused.\<close>

definition legs_free :: "fan_in_group \<Rightarrow> int set \<Rightarrow> db \<Rightarrow> bool" where
  "legs_free g K d \<longleftrightarrow> (\<forall>k \<in> K. \<not> has_message (grp_coordinator g) (failed_leg_key (grp_id g) k) d)"

lemma failed_leg_key_inject [simp]:
  "failed_leg_key gid a = failed_leg_key gid b \<longleftrightarrow> a = b"
  by (simp add: failed_leg_key_def)

lemma reconcile_leg_run:
  assumes ok: "db_ok d" "fk (grp_parent_task g) (task_ids d)"
    and settled: "fm_leg_key m \<in> H \<or> dead_leg g m d \<noteq> None"
    and free: "fm_leg_key m \<notin> H \<Longrightarrow> legs_free g {fm_leg_key m} d"
    and H: "H \<subseteq> counted_legs g d"
  shows "\<exists>d'. reconcile_leg now g H m d = (Inr (), d') \<and> db_ok d'
    \<and> fm_leg_key m \<in> counted_legs g d' \<and> set (messages d) \<subseteq> set (messages d')
    \<and> tasks d' = tasks d \<and> outbox d' = outbox d \<and> groups d' = groups d \<and> members d' = members d
    \<and> (\<forall>k. k \<noteq> fm_leg_key m \<longrightarrow> legs_free g {k} d \<longrightarrow> legs_free g {k} d')"
proof (cases "fm_leg_key m \<in> H")
  case True
  with ok H show ?thesis by (auto simp: reconcile_leg_def ret_def)
next
  case False
  with settled obtain st where st: "dead_leg g m d = Some st" by auto
  let ?msg = "failed_leg_mail g m st"
  let ?d0 = "ensure_mailbox (grp_coordinator g) d"
  obtain i d' where i: "insert_message (now div 1000) ?msg ?d0 = (Inr i, d')"
    using insert_message_succeeds [of ?msg ?d0 "now div 1000"] ok(2)
    by (cases "insert_message (now div 1000) ?msg ?d0") auto
  have ok0: "db_ok ?d0" using ok(1) by (rule ensure_mailbox_ok)
  have new: "\<not> has_message (msg_recipient ?msg) (msg_external ?msg) ?d0"
    using free [OF False] by (simp add: legs_free_def)
  have nn: "0 \<le> i" using insert_message_fresh [OF ok0 new, of "now div 1000" i] i by simp
  have ms: "messages d' = messages d @ [message_row_of (now div 1000) i ?msg]"
    using insert_message_appends [of "now div 1000" ?msg ?d0 i] i nn by simp
  have d': "d' = snd (insert_message (now div 1000) ?msg ?d0)" using i by simp
  have "SqlInt (fm_leg_key m) \<in> leg_values g d'"
    using failed_leg_row [where g = g and now = "now div 1000" and i = i and m = m and st = st] by (force simp: leg_values_def ms)
  then have "fm_leg_key m \<in> counted_legs g d'"
    by (force simp: counted_legs_def leg_int_def)
  moreover have "db_ok d'" unfolding d' by (rule insert_message_ok [OF ok0])
  moreover have "\<forall>k. k \<noteq> fm_leg_key m \<longrightarrow> legs_free g {k} d \<longrightarrow> legs_free g {k} d'"
    by (simp add: legs_free_def has_message_def ms)
  moreover have "reconcile_leg now g H m d = (Inr (), d')"
    using False st i by (simp add: reconcile_leg_def exec_simps)
  moreover have "tasks d' = tasks d" "outbox d' = outbox d" "groups d' = groups d" "members d' = members d"
    unfolding d' by simp_all
  ultimately show ?thesis using ms by auto
qed

lemma dead_leg_cong: "tasks d' = tasks d \<Longrightarrow> outbox d' = outbox d \<Longrightarrow> dead_leg g m d' = dead_leg g m d"
  by (simp add: dead_leg_def tasks_get_def has_pending_fan_in_result_def split: option.split)

lemma keeps_mail_grows:
  "keeps (\<lambda>s. M \<subseteq> set (messages s)) (insert_message now msg)"
  "keeps (\<lambda>s. M \<subseteq> set (messages s)) (upd (ensure_mailbox q))"
proof -
  show "keeps (\<lambda>s. M \<subseteq> set (messages s)) (insert_message now msg)"
  proof (rule keepsI)
    fix s :: db assume "M \<subseteq> set (messages s)"
    moreover obtain new where "messages (snd (insert_message now msg s)) = messages s @ new"
      using insert_message_prefix by blast
    ultimately show "M \<subseteq> set (messages (snd (insert_message now msg s)))" by auto
  qed
qed (simp add: upd_def keeps_def state_of_def)

lemma reconcile_legs_run:
  assumes "db_ok d" "fk (grp_parent_task g) (task_ids d)" "distinct (map fm_leg_key ms)"
    and "\<forall>m \<in> set ms. fm_leg_key m \<in> H \<or> dead_leg g m d \<noteq> None"
    and "\<forall>m \<in> set ms. fm_leg_key m \<notin> H \<longrightarrow> legs_free g {fm_leg_key m} d"
    and "H \<subseteq> counted_legs g d"
  shows "\<exists>d'. for_each (reconcile_leg now g H) ms d = (Inr (), d') \<and> db_ok d'
    \<and> fm_leg_key ` set ms \<subseteq> counted_legs g d' \<and> tasks d' = tasks d \<and> groups d' = groups d"
  using assms
proof (induction ms arbitrary: d)
  case (Cons m ms)
  have s: "fm_leg_key m \<in> H \<or> dead_leg g m d \<noteq> None"
    and f: "fm_leg_key m \<notin> H \<Longrightarrow> legs_free g {fm_leg_key m} d"
    using Cons.prems(4,5) by simp_all
  from reconcile_leg_run [OF Cons.prems(1,2) s f Cons.prems(6), of now] obtain d1 where
    r1: "reconcile_leg now g H m d = (Inr (), d1)" and ok1: "db_ok d1"
    and c1: "fm_leg_key m \<in> counted_legs g d1" and m1: "set (messages d) \<subseteq> set (messages d1)"
    and same: "tasks d1 = tasks d" "outbox d1 = outbox d" "groups d1 = groups d"
    and free: "\<forall>k. k \<noteq> fm_leg_key m \<longrightarrow> legs_free g {k} d \<longrightarrow> legs_free g {k} d1"
    by blast
  have p2: "fk (grp_parent_task g) (task_ids d1)" using Cons.prems(2) same by (simp add: key_defs)
  have p3: "distinct (map fm_leg_key ms)" using Cons.prems(3) by simp
  have p4: "\<forall>q \<in> set ms. fm_leg_key q \<in> H \<or> dead_leg g q d1 \<noteq> None"
    using Cons.prems(4) dead_leg_cong [OF same(1,2)] by simp
  have p5: "\<forall>q \<in> set ms. fm_leg_key q \<notin> H \<longrightarrow> legs_free g {fm_leg_key q} d1"
  proof (intro ballI impI)
    fix q assume q: "q \<in> set ms" "fm_leg_key q \<notin> H"
    have "fm_leg_key m \<notin> fm_leg_key ` set ms" using Cons.prems(3) by simp
    then have "fm_leg_key q \<noteq> fm_leg_key m" using q(1) by (metis imageI)
    with free q Cons.prems(5) show "legs_free g {fm_leg_key q} d1" by simp
  qed
  have p6: "H \<subseteq> counted_legs g d1" using Cons.prems(6) counted_legs_mono [OF m1] by blast
  from Cons.IH [OF ok1 p2 p3 p4 p5 p6] obtain d2 where
    d2: "for_each (reconcile_leg now g H) ms d1 = (Inr (), d2)" "db_ok d2"
      "fm_leg_key ` set ms \<subseteq> counted_legs g d2" "tasks d2 = tasks d1" "groups d2 = groups d1"
    by blast
  have "keeps (\<lambda>s. set (messages d1) \<subseteq> set (messages s)) (for_each (reconcile_leg now g H) ms)"
    unfolding reconcile_leg_def
    by (intro keeps_intros keeps_mail_grows)
  from keepsD [OF this, of d1] d2(1) have "set (messages d1) \<subseteq> set (messages d2)" by simp
  with c1 counted_legs_mono have "fm_leg_key m \<in> counted_legs g d2" by blast
  with r1 d2 same show ?case by (auto simp: exec_simps)
qed (simp add: ret_def)

lemma group_members_facts:
  assumes "db_ok d"
  shows "distinct (map fm_leg_key (group_members gid d))"
    and "card (fm_leg_key ` set (group_members gid d)) = length (group_members gid d)"
proof -
  have "distinct (map (\<lambda>m. (fm_group m, fm_leg_key m)) (members d))"
    using assms by (simp add: db_ok_defs)
  then have "distinct (map fm_leg_key (filter (\<lambda>r. fm_group r = gid) (members d)))"
    by (auto simp: distinct_map inj_on_def)
  then show d: "distinct (map fm_leg_key (group_members gid d))"
    by (auto simp: group_members_def order_by_def distinct_map)
  from distinct_card [OF d] show "card (fm_leg_key ` set (group_members gid d)) = length (group_members gid d)"
    by simp
qed

text \<open>C12: Dead legs do not hang a workflow. When every leg of an open group has delivered a
  result or belongs to a task that failed or was cancelled with no result on its way, and the
  legs are enough for the quorum, the next resolution of the group counts a sentinel for each
  dead leg, flips the group to \<open>quorum_met\<close> and leaves the wake mail with the
  coordinator, long before the deadline.\<close>

theorem dead_legs_resolve:
  assumes ok: "db_ok d" and r: "r \<in> set (groups d)" "gr_status r = GOpen" and g: "g = row_to_group r"
    and rs: "read_fan_in_results (gr_coordinator r) (gr_id r) d = Inr rs"
    and settled: "\<forall>m \<in> set (group_members (gr_id r) d).
        fm_leg_key m \<in> fr_leg_key ` set rs \<or> dead_leg g m d \<noteq> None"
    and free: "\<forall>m \<in> set (group_members (gr_id r) d). fm_leg_key m \<notin> fr_leg_key ` set rs \<longrightarrow>
        \<not> has_message (gr_coordinator r) (failed_leg_key (gr_id r) (fm_leg_key m)) d"
    and quorum: "gr_quorum r \<le> int (length (group_members (gr_id r) d))"
  shows "\<exists>d'. resolve_one_fan_in_group now max_age g d = (Inr (), d')
     \<and> group_at (gr_id r) d' = Some (r\<lparr>gr_status := GQuorumMet, gr_resolved := Some (MsZ (now div 1000))\<rparr>)
     \<and> has_message (gr_coordinator r) (resolved_key (gr_id r)) d'"
proof -
  let ?t = "now div 1000" and ?ms = "group_members (gr_id r) d" and ?H = "fr_leg_key ` set rs"
  have gs: "grp_id g = gr_id r" "grp_coordinator g = gr_coordinator r"
    "grp_parent_task g = gr_parent_task r" "grp_quorum g = gr_quorum r"
    using g by (simp_all add: row_to_group_def)
  have fk: "fk (grp_parent_task g) (task_ids d)"
    using ok r(1) gs by (auto simp: db_ok_defs list_all_iff)
  have H: "?H \<subseteq> counted_legs g d"
    using result_legs_counted [of g d] rs gs by (simp add: result_legs_def)
  have free': "\<forall>m \<in> set ?ms. fm_leg_key m \<notin> ?H \<longrightarrow> legs_free g {fm_leg_key m} d"
    using free gs by (simp add: legs_free_def)
  from reconcile_legs_run [OF ok fk group_members_facts(1) [OF ok] settled free' H, of now]
  obtain d1 where d1: "for_each (reconcile_leg now g ?H) ?ms d = (Inr (), d1)" "db_ok d1"
    "fm_leg_key ` set ?ms \<subseteq> counted_legs g d1" "tasks d1 = tasks d" "groups d1 = groups d"
    by blast
  have rec: "\<exists>d1. reconcile_fan_in_failed_legs now g d = (Inr (), d1) \<and> db_ok d1
      \<and> fm_leg_key ` set ?ms \<subseteq> counted_legs g d1 \<and> tasks d1 = tasks d \<and> groups d1 = groups d"
    using d1 ok rs gs
    by (cases "?ms = []") (auto simp: reconcile_fan_in_failed_legs_def bnd_query ret_def)
  then obtain d1 where e1: "reconcile_fan_in_failed_legs now g d = (Inr (), d1)" and ok1: "db_ok d1"
    and c1: "fm_leg_key ` set ?ms \<subseteq> counted_legs g d1"
    and same: "tasks d1 = tasks d" "groups d1 = groups d" by blast
  define n where "n = count_fan_in_results (grp_coordinator g) (grp_id g) d1"
  have "length ?ms \<le> n"
    using counted_legs_card [OF c1] group_members_facts(2) [OF ok] by (simp add: n_def)
  with quorum gs have ready: "grp_quorum g \<le> int n" by linarith
  let ?msg = "resolved_mail g n GQuorumMet ''quorum''" and ?d2 = "ensure_mailbox (grp_coordinator g) d1"
  have "msg_task ?msg = grp_parent_task g" "msg_parent ?msg = None"
    by (simp_all add: resolved_mail_def new_message_def)
  then obtain i d3 where i: "insert_message ?t ?msg ?d2 = (Inr i, d3)"
    using insert_message_succeeds [of ?msg ?d2 ?t] fk same
    by (cases "insert_message ?t ?msg ?d2") (auto simp: key_defs)
  have hm: "has_message (gr_coordinator r) (resolved_key (gr_id r)) d3"
    using has_message_after [of ?t ?msg ?d2] i gs by simp
  have "d3 = snd (insert_message ?t ?msg ?d2)" using i by simp
  then have g3: "groups d3 = groups d" using same by simp
  define d4 where "d4 = snd (set_group_status ?t (grp_id g) GQuorumMet (Some GOpen) d3)"
  have "resolve_one_fan_in_group now max_age g d = (Inr (), d4)"
    using e1 i ready by (simp add: resolve_one_fan_in_group_def Let_def exec_simps d4_def
        n_def [symmetric] case_prod_beta)
  moreover have "has_message (gr_coordinator r) (resolved_key (gr_id r)) d4"
    using hm by (simp add: d4_def has_message_def set_group_status_def upd_groups_def)
  moreover have "group_at (gr_id r) d = Some r"
    unfolding group_at_def using ok r(1) by (intro select_one_key) (simp_all add: db_ok_defs key_defs)
  then have "group_at (gr_id r) d4 = Some (r\<lparr>gr_status := GQuorumMet, gr_resolved := Some (MsZ ?t)\<rparr>)"
    using r(2) g3 gs(1) by (simp add: d4_def group_at_def set_group_status_def upd_groups_def
        select_one_update_where)
  ultimately show ?thesis by blast
qed


section \<open>Three strikes\<close>

lemma failure_count_updates [simp]:
  "failure_count gid (s\<lparr>sc_failures := AList.delete k (sc_failures s')\<rparr>)
     = (if gid = k then 0 else failure_count gid s')"
  "failure_count gid (s\<lparr>sc_failures := AList.update k n (sc_failures s')\<rparr>)
     = (if gid = k then n else failure_count gid s')"
  "failure_count gid (s\<lparr>sc_db := d\<rparr>) = failure_count gid s"
  by (simp_all add: failure_count_def AList.delete_conv' AList.update_conv')

lemma force_expire_effect:
  "force_expire_poison_fan_in now g e s = (x, s') \<Longrightarrow>
     failure_count gid s' = (if gid = grp_id g then 0 else failure_count gid s)
     \<and> (\<forall>r \<in> set (groups (sc_db s')). gr_id r = grp_id g \<longrightarrow> gr_status r \<noteq> GOpen)"
proof -
  assume run: "force_expire_poison_fan_in now g e s = (x, s')"
  let ?t = "now div 1000"
  obtain fl d1 where f: "set_group_status ?t (grp_id g) GExpired (Some GOpen) (sc_db s) = (fl, d1)"
    by (cases "set_group_status ?t (grp_id g) GExpired (Some GOpen) (sc_db s)")
  have shut: "\<forall>r \<in> set (groups d1). gr_id r = grp_id g \<longrightarrow> gr_status r \<noteq> GOpen"
    using f by (auto simp: set_group_status_def upd_groups_def elim!: update_where_cases)
  let ?s1 = "s\<lparr>sc_db := d1, sc_failures := AList.delete (grp_id g) (sc_failures s)\<rparr>"
  let ?n = "try_except (with_db (seqn (upd (ensure_mailbox (grp_coordinator g)))
     (seqn (insert_message ?t (fan_in_quarantine_mail g e)) (ret ())))) (\<lambda>_. ret ())"
  have eq: "force_expire_poison_fan_in now g e s = run_if fl ?n ?s1"
    using f by (simp add: force_expire_poison_fan_in_def set_failures_def with_db_def step_def
        bnd_def seqn_def upd_def)
  have "keeps (\<lambda>s. groups (sc_db s) = groups d1 \<and> sc_failures s = sc_failures ?s1) (run_if fl ?n)"
    by (intro keeps_run_if keeps_try)
      (auto simp: with_db_def exec_simps keeps_def split: prod.splits sum.splits
        dest!: arg_cong [where f = snd] intro: insert_message_tables(1) [THEN trans, rotated])
  from keepsD [OF this, of ?s1]
  have "groups (sc_db (snd (run_if fl ?n ?s1))) = groups d1
      \<and> sc_failures (snd (run_if fl ?n ?s1)) = AList.delete (grp_id g) (sc_failures s)" by simp
  moreover have "s' = snd (run_if fl ?n ?s1)" using eq run by (metis snd_conv)
  ultimately have s': "groups (sc_db s') = groups d1"
    "sc_failures s' = AList.delete (grp_id g) (sc_failures s)" by simp_all
  with shut show ?thesis by (simp add: failure_count_def AList.delete_conv')
qed

text \<open>Three strikes. An attempt at a group never raises. A resolution that succeeds
  clears the group's failures; one that raises adds one failure, and the third in a row takes
  the group out of the open state (so that no later tick tries it) and clears the counter. The
  counters of the other groups stay.\<close>

theorem poison_group_expires:
  "\<exists>s'. attempt_fan_in_group now max_age g s = (Inr (), s')
     \<and> (case fst (resolve_one_fan_in_group now max_age g (sc_db s)) of
          Inr u \<Rightarrow> failure_count (grp_id g) s' = 0
        | Inl e \<Rightarrow>
            (if failure_count (grp_id g) s + 1 < 3
             then failure_count (grp_id g) s' = failure_count (grp_id g) s + 1
             else failure_count (grp_id g) s' = 0
               \<and> (\<forall>r \<in> set (groups (sc_db s')). gr_id r = grp_id g \<longrightarrow> gr_status r \<noteq> GOpen)))
     \<and> (\<forall>gid. gid \<noteq> grp_id g \<longrightarrow> failure_count gid s' = failure_count gid s)"
proof -
  obtain x d1 where o: "resolve_one_fan_in_group now max_age g (sc_db s) = (x, d1)"
    by (cases "resolve_one_fan_in_group now max_age g (sc_db s)")
  let ?s1 = "s\<lparr>sc_db := d1\<rparr>"
  have w: "with_db (resolve_one_fan_in_group now max_age g) s = (x, ?s1)"
    using o by (simp add: with_db_def)
  show ?thesis
  proof (cases x)
    case (Inr u)
    with w o show ?thesis
      by (simp add: attempt_fan_in_group_def set_failures_def try_except_def seqn_def bnd_def upd_def)
  next
    case (Inl e)
    with o plain_raises [OF plain_resolve_one, of now max_age g "sc_db s" e d1]
    obtain t m where e: "e = Exn t m" by blast
    let ?c = "failure_count (grp_id g) s + 1"
    let ?s2 = "?s1\<lparr>sc_failures := AList.update (grp_id g) ?c (sc_failures ?s1)\<rparr>"
    have eq: "attempt_fan_in_group now max_age g s
        = run_if (?c \<ge> 3) (force_expire_poison_fan_in now g m) ?s2"
      using w Inl e by (simp add: attempt_fan_in_group_def set_failures_def try_except_def seqn_def
          bnd_def upd_def query_def fanin_quarantine_after_def)
    have fc: "failure_count gid ?s2 = (if gid = grp_id g then ?c else failure_count gid s)" for gid
      by (simp only: failure_count_updates)
    show ?thesis
    proof (cases "?c \<ge> 3")
      case False
      with eq have "attempt_fan_in_group now max_age g s = (Inr (), ?s2)"
        by (simp add: run_if_def ret_def)
      with fc False o Inl show ?thesis by (intro exI [of _ ?s2]) simp
    next
      case True
      obtain s' where f: "force_expire_poison_fan_in now g m ?s2 = (Inr (), s')"
        using force_expire_total [of now g m ?s2] by auto
      with eq True have "attempt_fan_in_group now max_age g s = (Inr (), s')"
        by (simp add: run_if_def)
      with force_expire_effect [OF f] fc True o Inl show ?thesis
        by (intro exI [of _ s']) simp
    qed
  qed
qed

section \<open>Examples\<close>

text \<open>A workflow of two legs: the first task failed, the second delivered its result.\<close>

definition sample_group :: group_row where
  "sample_group =
     \<lparr>gr_id = ''g'', gr_coordinator = ''dispatcher'', gr_parent_task = None, gr_expect = 2,
      gr_quorum = 2, gr_schema = [], gr_budget = None, gr_dry_round = 0,
      gr_deadline = 1000000000, gr_status = GOpen, gr_created = MsZ 0, gr_resolved = None\<rparr>"

definition sample_result :: "json \<Rightarrow> message_row" where
  "sample_result res = message_row_of 1000 1
     ((new_message ''dispatcher'' ''r2'' ''worker/a'' ULow ''done'')
       \<lparr>msg_meta := Some [(''fan_in'', JObj [(''group_id'', JStr ''g''), (''leg_key'', JInt 1),
                                           (''result'', res)])]\<rparr>)"

definition barrier_db :: "json \<Rightarrow> db" where
  "barrier_db res = sample_db
     \<lparr>tasks := [(sample_task ''t1'' ''worker/a'' None)\<lparr>tr_status := TFailed\<rparr>,
               (sample_task ''t2'' ''worker/a'' None)\<lparr>tr_status := TCompleted\<rparr>],
      mailboxes := [\<lparr>mb_recipient = ''dispatcher'', mb_meta = None\<rparr>],
      messages := [sample_result res], message_seq := 1, groups := [sample_group],
      members := [\<lparr>fm_group = ''g'', fm_leg_key = 0, fm_child_task = ''t1'', fm_child_agent = ''worker/a''\<rparr>,
                  \<lparr>fm_group = ''g'', fm_leg_key = 1, fm_child_task = ''t2'', fm_child_agent = ''worker/a''\<rparr>]\<rparr>"

lemma barrier_db_ok: "db_ok (barrier_db res)"
  by (simp add: barrier_db_def sample_db_def empty_db_def db_ok_defs key_defs sample_agent_def
      sample_task_def sample_result_def message_row_of_def new_message_def sample_group_def)

definition no_config :: sched_config where
  "no_config = \<lparr>cf_spawn_subprocess = False, cf_max_concurrent_tasks = 4, cf_auto_wake = True,
     cf_fanin_max_age = 0, cf_singleton_recovery_max = 3, cf_retention_days = 0,
     cf_maintenance_interval = 21600\<rparr>"

lemma barrier_wakes_coordinator_witness:
  "\<exists>s'. resolve_fan_in_barriers no_config 5000000 (new_scheduler (barrier_db (JObj []))) = (Inr (), s')
     \<and> db_ok (sc_db s') \<and> wakes_ok (sc_db s')"
proof -
  have "wakes_ok (barrier_db (JObj []))"
    by (simp add: wakes_ok_def barrier_db_def sample_group_def)
  then show ?thesis
    using barrier_wakes_coordinator [of "new_scheduler (barrier_db (JObj []))"] barrier_db_ok
    by (simp add: new_scheduler_def)
qed

lemma dead_legs_resolve_witness:
  "\<exists>d'. resolve_one_fan_in_group 5000000 0 (row_to_group sample_group) (barrier_db (JObj [])) = (Inr (), d')
     \<and> group_at ''g'' d' = Some (sample_group\<lparr>gr_status := GQuorumMet, gr_resolved := Some (MsZ 5000)\<rparr>)"
proof -
  let ?d = "barrier_db (JObj [])"
  have r: "sample_group \<in> set (groups ?d)" "gr_status sample_group = GOpen"
    "gr_id sample_group = ''g''" "gr_coordinator sample_group = ''dispatcher''"
    by (simp_all add: barrier_db_def sample_group_def)
  have rs: "read_fan_in_results (gr_coordinator sample_group) (gr_id sample_group) ?d
      = Inr [\<lparr>fr_leg_key = 1, fr_result = [], fr_sender = ''worker/a''\<rparr>]" by code_simp
  have ms: "group_members (gr_id sample_group) ?d
      = [\<lparr>fm_group = ''g'', fm_leg_key = 0, fm_child_task = ''t1'', fm_child_agent = ''worker/a''\<rparr>,
         \<lparr>fm_group = ''g'', fm_leg_key = 1, fm_child_task = ''t2'', fm_child_agent = ''worker/a''\<rparr>]"
    by (simp add: group_members_def barrier_db_def order_by_def r(3))
  have dead: "dead_leg (row_to_group sample_group)
      \<lparr>fm_group = ''g'', fm_leg_key = 0, fm_child_task = ''t1'', fm_child_agent = ''worker/a''\<rparr> ?d = Some TFailed"
    by code_simp
  have free: "\<not> has_message (gr_coordinator sample_group) (failed_leg_key (gr_id sample_group) 0) ?d"
    by code_simp
  have q: "gr_quorum sample_group \<le> 2" by (simp add: sample_group_def)
  have "\<forall>m \<in> set (group_members (gr_id sample_group) ?d).
      fm_leg_key m \<in> fr_leg_key ` set [\<lparr>fr_leg_key = 1, fr_result = [], fr_sender = ''worker/a''\<rparr>]
      \<or> dead_leg (row_to_group sample_group) m ?d \<noteq> None"
    unfolding ms using dead by simp
  moreover have "\<forall>m \<in> set (group_members (gr_id sample_group) ?d).
      fm_leg_key m \<notin> fr_leg_key ` set [\<lparr>fr_leg_key = 1, fr_result = [], fr_sender = ''worker/a''\<rparr>] \<longrightarrow>
      \<not> has_message (gr_coordinator sample_group) (failed_leg_key (gr_id sample_group) (fm_leg_key m)) ?d"
    unfolding ms using free by simp
  moreover have "gr_quorum sample_group \<le> int (length (group_members (gr_id sample_group) ?d))"
    unfolding ms using q by simp
  ultimately have "\<exists>d'. resolve_one_fan_in_group 5000000 0 (row_to_group sample_group) ?d = (Inr (), d')
     \<and> group_at (gr_id sample_group) d'
        = Some (sample_group\<lparr>gr_status := GQuorumMet, gr_resolved := Some (MsZ (5000000 div 1000))\<rparr>)
     \<and> has_message (gr_coordinator sample_group) (resolved_key (gr_id sample_group)) d'"
    by (rule dead_legs_resolve [OF barrier_db_ok r(1,2) refl rs])
  then show ?thesis using r(3) by auto
qed

lemma poison_group_expires_witness:
  "\<exists>s'. attempt_fan_in_group 5000000 0 (row_to_group sample_group)
        ((new_scheduler (barrier_db (JStr ''x'')))\<lparr>sc_failures := [(''g'', 2)]\<rparr>) = (Inr (), s')
     \<and> failure_count ''g'' s' = 0"
proof -
  let ?s = "(new_scheduler (barrier_db (JStr ''x'')))\<lparr>sc_failures := [(''g'', 2)]\<rparr>"
  let ?g = "row_to_group sample_group"
  have e: "fst (resolve_one_fan_in_group 5000000 0 ?g (sc_db ?s))
      = Inl (Exn ''JSONDecodeError'' ''Expecting value'')" by code_simp
  have g: "grp_id ?g = ''g''" by (simp add: row_to_group_def sample_group_def)
  have c: "failure_count ''g'' ?s = 2" by (simp add: failure_count_def)
  from poison_group_expires [of 5000000 0 ?g ?s] show ?thesis
    unfolding e g by (auto simp: c simp del: failure_count_updates)
qed

end
