(* ===== verification/Outbox_Dispatcher.thy ===== *)
theory Outbox_Dispatcher
  imports Mail_Watcher
begin

text \<open>
  \<open>outbox/dispatcher.py\<close>: turning outbox rows into mails and channel posts. The external
  channels are a parameter (what a call answers may depend on all calls before it); the calls
  made are recorded in the state. Pydantic's coercions of ill-typed payload fields, which the
  producers of the rows never write, raise a validation error here.
\<close>

section \<open>Idempotent sinks\<close>

text \<open>
  What makes redelivery harmless: a delivery that succeeded is remembered, other deliveries do
  not undo it, and delivering again succeeds without a visible change.
\<close>

locale idempotent_sink =
  fixes put :: "'x \<Rightarrow> 's \<Rightarrow> (exn + 'a) \<times> 's"
    and has :: "'x \<Rightarrow> 's \<Rightarrow> bool"
    and view :: "'s \<Rightarrow> 'v"
  assumes put_has: "fst (put x s) = Inr a \<Longrightarrow> has x (snd (put x s))"
    and has_stays: "has x s \<Longrightarrow> has x (snd (put y s))"
    and put_again: "has x s \<Longrightarrow> (\<exists>a. fst (put x s) = Inr a) \<and> view (snd (put x s)) = view s"
begin

definition puts :: "'x list \<Rightarrow> 's \<Rightarrow> 's" where
  "puts xs s = fold (\<lambda>x s. snd (put x s)) xs s"

lemma puts_Nil [simp]: "puts [] s = s"
  by (simp add: puts_def)

lemma puts_Cons [simp]: "puts (x # xs) s = puts xs (snd (put x s))"
  by (simp add: puts_def)

lemma has_puts: "has x s \<Longrightarrow> has x (puts xs s)"
  by (induction xs arbitrary: s) (simp_all add: has_stays)

text \<open>Once everything of a list has been delivered, delivering any of it again, in any order
  and any number of times, shows nothing new.\<close>

lemma redelivery_invisible:
  "\<forall>x \<in> set xs. has x s \<Longrightarrow> view (puts xs s) = view s"
proof (induction xs arbitrary: s)
  case (Cons x xs)
  then have "\<forall>y \<in> set xs. has y (snd (put x s))" by (simp add: has_stays)
  with Cons put_again [of x s] show ?case by simp
qed simp

lemma delivered_once:
  assumes "fst (put x s) = Inr a"
  shows "view (puts (replicate n x) (snd (put x s))) = view (snd (put x s))"
  by (rule redelivery_invisible) (use put_has [OF assms] in simp)

end

text \<open>The mailbox and the outbox are such sinks.\<close>

definition mail_key_in :: "mail_message \<Rightarrow> db \<Rightarrow> bool" where
  "mail_key_in msg d = has_message (msg_recipient msg) (msg_external msg) d"

interpretation mail_sink: idempotent_sink "insert_message now" mail_key_in messages for now
proof
  show "fst (insert_message now x s) = Inr a \<Longrightarrow> mail_key_in x (snd (insert_message now x s))"
    for x s a unfolding mail_key_in_def by (rule has_message_after)
  show "mail_key_in x s \<Longrightarrow> mail_key_in x (snd (insert_message now y s))" for x y s
    unfolding mail_key_in_def by (rule has_message_mono)
  show "mail_key_in x s \<Longrightarrow> (\<exists>a. fst (insert_message now x s) = Inr a)
      \<and> messages (snd (insert_message now x s)) = messages s" for x s
    unfolding mail_key_in_def using insert_message_conflict by blast
qed

definition row_queued :: "outbox_row \<Rightarrow> db \<Rightarrow> bool" where
  "row_queued r d = has_outbox (ob_kind r) (ob_external r) d"

interpretation outbox_sink: idempotent_sink "enqueue_one now" row_queued outbox for now
proof
  show "fst (enqueue_one now x s) = Inr a \<Longrightarrow> row_queued x (snd (enqueue_one now x s))" for x s a
    unfolding row_queued_def using enqueue_one_has by (metis unit.exhaust)
  show "row_queued x s \<Longrightarrow> row_queued x (snd (enqueue_one now y s))" for x y s
    unfolding row_queued_def by (rule enqueue_one_mono)
  show "row_queued x s \<Longrightarrow> (\<exists>a. fst (enqueue_one now x s) = Inr a)
      \<and> outbox (snd (enqueue_one now x s)) = outbox s" for x s
    unfolding row_queued_def using enqueue_one_again by blast
qed

section \<open>Payloads\<close>

definition validation_error :: "string \<Rightarrow> exn" where
  "validation_error f = Exn ''ValidationError'' f"

definition opt_field :: "(json \<Rightarrow> 'a option) \<Rightarrow> dict \<Rightarrow> string \<Rightarrow> exn + 'a option" where
  "opt_field conv p k =
     (case not_none (dget p k) of
        None \<Rightarrow> Inr None
      | Some j \<Rightarrow> (case conv j of None \<Rightarrow> Inl (validation_error k) | Some v \<Rightarrow> Inr (Some v)))"

text \<open>\<open>payload.get(k) or default\<close> in a string field.\<close>

definition str_or :: "dict \<Rightarrow> string \<Rightarrow> string \<Rightarrow> exn + string" where
  "str_or p k dflt =
     (if \<not> otruthy (dget p k) then Inr dflt
      else (case dget p k of Some (JStr s) \<Rightarrow> Inr s | _ \<Rightarrow> Inl (validation_error k)))"

definition opt_str_or :: "dict \<Rightarrow> string \<Rightarrow> string option \<Rightarrow> exn + string option" where
  "opt_str_or p k dflt =
     (if \<not> otruthy (dget p k) then Inr dflt
      else (case dget p k of Some (JStr s) \<Rightarrow> Inr (Some s) | _ \<Rightarrow> Inl (validation_error k)))"

fun as_int :: "json \<Rightarrow> int option" where
  "as_int (JInt i) = Some i"
| "as_int _ = None"

fun all_strs :: "json list \<Rightarrow> string list option" where
  "all_strs [] = Some []"
| "all_strs (JStr s # js) = map_option (\<lambda>ss. s # ss) (all_strs js)"
| "all_strs (_ # js) = None"

fun as_str_list :: "json \<Rightarrow> string list option" where
  "as_str_list (JArr js) = all_strs js"
| "as_str_list _ = None"

definition urgency_field :: "dict \<Rightarrow> exn + urgency" where
  "urgency_field p =
     (case dget p ''urgency'' of
        None \<Rightarrow> Inr UNormal
      | Some (JStr s) \<Rightarrow> (case urgency_of_str s of
                            None \<Rightarrow> Inl (validation_error ''urgency'') | Some u \<Rightarrow> Inr u)
      | Some _ \<Rightarrow> Inl (validation_error ''urgency''))"

definition ebind :: "exn + 'a \<Rightarrow> ('a \<Rightarrow> exn + 'b) \<Rightarrow> exn + 'b" where
  "ebind r f = (case r of Inl e \<Rightarrow> Inl e | Inr a \<Rightarrow> f a)"

definition mail_of_row :: "outbox_row \<Rightarrow> exn + mail_message" where
  "mail_of_row row =
     (let p = ob_payload row in
      if \<not> otruthy (dget p ''recipient'')
      then Inl (value_error (''mailbox_send payload missing '' @ py_repr ''recipient''))
      else
        ebind (str_or p ''recipient'' []) (\<lambda>recipient.
        ebind (str_or p ''external_id'' (ob_external row)) (\<lambda>external.
        ebind (str_or p ''sender'' ''system'') (\<lambda>sender.
        ebind (urgency_field p) (\<lambda>urgency.
        ebind (opt_field as_str p ''title'') (\<lambda>title.
        ebind (str_or p ''body'' []) (\<lambda>body.
        ebind (opt_str_or p ''task_id'' (ob_task row)) (\<lambda>tid.
        ebind (opt_field as_int p ''parent_msg_id'') (\<lambda>parent.
        ebind (opt_field as_str p ''broadcast_id'') (\<lambda>broadcast.
        ebind (opt_field as_str_list p ''recipients_all'') (\<lambda>all_recipients.
        ebind (opt_field as_dict p ''metadata'') (\<lambda>meta.
        ebind (opt_field as_str_list p ''attachments'') (\<lambda>atts.
        Inr \<lparr>msg_id = None, msg_recipient = recipient, msg_external = external,
             msg_sender = sender, msg_urgency = urgency, msg_title = title, msg_body = body,
             msg_task = tid, msg_parent = parent, msg_broadcast = broadcast,
             msg_recipients_all = all_recipients, msg_meta = meta, msg_delivered = None,
             msg_read = None, msg_attachments = atts, msg_reactions = None\<rparr>)))))))))))))"

text \<open>\<open>str\<close> and \<open>repr\<close> of a payload value; the text of a float is a parameter.\<close>

fun json_repr :: "(rat \<Rightarrow> string) \<Rightarrow> json \<Rightarrow> string" where
  "json_repr fl JNull = ''None''"
| "json_repr fl (JBool b) = (if b then ''True'' else ''False'')"
| "json_repr fl (JInt i) = str_of_int i"
| "json_repr fl (JFloat q) = fl q"
| "json_repr fl (JStr s) = py_repr s"
| "json_repr fl (JArr js) = ''['' @ join '', '' (map (json_repr fl) js) @ '']''"
| "json_repr fl (JObj d) =
     ''{'' @ join '', '' (map (\<lambda>(k, v). py_repr k @ '': '' @ json_repr fl v) d) @ ''}''"

definition json_str :: "(rat \<Rightarrow> string) \<Rightarrow> json \<Rightarrow> string" where
  "json_str fl j = (case j of JStr s \<Rightarrow> s | _ \<Rightarrow> json_repr fl j)"

definition or_question :: "(rat \<Rightarrow> string) \<Rightarrow> json option \<Rightarrow> string" where
  "or_question fl j = (if otruthy j then json_str fl (the j) else ''?'')"

definition salient_keys :: "string list" where
  "salient_keys = [''url'', ''branch'', ''sha'', ''path'', ''summary'']"

definition render_tier1_body :: "(rat \<Rightarrow> string) \<Rightarrow> json \<Rightarrow> dict \<Rightarrow> string" where
  "render_tier1_body fl kind p =
     (let head = ''[Tier 1 / '' @ json_str fl kind @ ''] task='' @
            or_question fl (dget p ''task_id'') @ '' by='' @ or_question fl (dget p ''persona'')
      in if \<not> otruthy (dget p ''details'') then head
         else (case the (dget p ''details'') of
             JObj d \<Rightarrow>
               (let salient = List.map_filter
                      (\<lambda>k. map_option (\<lambda>v. k @ ''='' @ json_str fl v) (dget d k)) salient_keys
                in if salient \<noteq> [] then head @ newline @ join ''  '' salient
                   else head @ newline @ json_repr fl (JObj d))
           | j \<Rightarrow> head @ newline @ json_repr fl j))"

section \<open>Dispatching one row\<close>

datatype channel_call =
    PublishMail string mail_message "json option"
  | PublishReaction string string json

record channels =
  ch_known :: "string \<Rightarrow> bool"
  ch_publish :: "channel_call list \<Rightarrow> channel_call \<Rightarrow> exn + string option"

record dispatch_state =
  ds_db :: db
  ds_kill :: kill_switch
  ds_calls :: "channel_call list"

definition on_db :: "(db, 'a) exec \<Rightarrow> (dispatch_state, 'a) exec" where
  "on_db m = (\<lambda>s. case m (ds_db s) of (r, d) \<Rightarrow> (r, s\<lparr>ds_db := d\<rparr>))"

definition lift_sum :: "exn + 'a \<Rightarrow> ('s, 'a) exec" where
  "lift_sum r = (case r of Inl e \<Rightarrow> throw e | Inr a \<Rightarrow> ret a)"

definition call_channel :: "channels \<Rightarrow> channel_call \<Rightarrow> (dispatch_state, string option) exec" where
  "call_channel ch c = (\<lambda>s.
     (ch_publish ch (ds_calls s) c, s\<lparr>ds_calls := ds_calls s @ [c]\<rparr>))"

definition dispatch_mailbox_send :: "int \<Rightarrow> outbox_row \<Rightarrow> (dispatch_state, unit) exec" where
  "dispatch_mailbox_send now row =
     bnd (lift_sum (mail_of_row row)) (\<lambda>msg. seqn (on_db (insert_message now msg)) (ret ()))"

definition tier1_mail ::
    "(rat \<Rightarrow> string) \<Rightarrow> outbox_row \<Rightarrow> string \<Rightarrow> exn + mail_message" where
  "tier1_mail fl row recipient =
     (let p = ob_payload row;
          kind = (case dget p ''kind'' of None \<Rightarrow> JStr ''unknown'' | Some k \<Rightarrow> k)
      in ebind (str_or p ''persona'' ''system'') (\<lambda>sender.
         ebind (opt_str_or p ''task_id'' (ob_task row)) (\<lambda>tid.
         Inr ((new_message recipient (ob_external row @ '':'' @ recipient) sender UNormal
                 (render_tier1_body fl kind p))
              \<lparr>msg_task := tid,
               msg_meta := Some [(''tier1'', JBool True), (''kind'', kind),
                 (''details'', case dget p ''details'' of None \<Rightarrow> JNull | Some v \<Rightarrow> v)]\<rparr>))))"

definition dispatch_tier1 ::
    "(rat \<Rightarrow> string) \<Rightarrow> string list \<Rightarrow> int \<Rightarrow> outbox_row \<Rightarrow> (dispatch_state, unit) exec" where
  "dispatch_tier1 fl subscribers now row =
     for_each (\<lambda>q. bnd (lift_sum (tier1_mail fl row q))
                     (\<lambda>msg. seqn (on_db (insert_message now msg)) (ret ()))) subscribers"

text \<open>\<open>isinstance(msg_id, int)\<close> holds of booleans too.\<close>

fun int_like :: "json option \<Rightarrow> int option" where
  "int_like (Some (JInt i)) = Some i"
| "int_like (Some (JBool b)) = Some (if b then 1 else 0)"
| "int_like _ = None"

definition known_channel :: "channels \<Rightarrow> json option \<Rightarrow> string option" where
  "known_channel ch j =
     (case j of Some (JStr n) \<Rightarrow> (if ch_known ch n then Some n else None) | _ \<Rightarrow> None)"

definition not_in_registry :: exn where
  "not_in_registry = value_error ''channel not in registry''"

definition dispatch_channel_publish ::
    "channels \<Rightarrow> outbox_row \<Rightarrow> (dispatch_state, unit) exec" where
  "dispatch_channel_publish ch row =
     (let p = ob_payload row in
      case (otruthy (dget p ''channel''), int_like (dget p ''msg_id'')) of
        (True, Some mid) \<Rightarrow>
          (case known_channel ch (dget p ''channel'') of
             None \<Rightarrow> throw not_in_registry
           | Some name \<Rightarrow>
               bnd (query (\<lambda>s. get_message mid (ds_db s))) (\<lambda>m.
               case m of
                 None \<Rightarrow> ret ()
               | Some msg \<Rightarrow>
                   bnd (call_channel ch (PublishMail name msg (not_none (dget p ''reply_to_external_id''))))
                     (\<lambda>ext. case ext of
                         Some (c # cs) \<Rightarrow> on_db (set_channel_external_id mid name (c # cs))
                       | _ \<Rightarrow> ret ())))
      | _ \<Rightarrow> throw (value_error ''channel_publish payload missing channel/msg_id''))"

definition dispatch_channel_reaction ::
    "channels \<Rightarrow> outbox_row \<Rightarrow> (dispatch_state, unit) exec" where
  "dispatch_channel_reaction ch row =
     (let p = ob_payload row in
      if \<not> otruthy (dget p ''channel'') \<or> \<not> otruthy (dget p ''external_message_id'')
         \<or> \<not> otruthy (dget p ''kind'')
      then throw (value_error ''channel_reaction_publish payload missing channel/external_message_id/kind'')
      else (case known_channel ch (dget p ''channel'') of
              None \<Rightarrow> throw not_in_registry
            | Some name \<Rightarrow>
                seqn (call_channel ch (PublishReaction name
                        (case dget p ''external_message_id'' of Some (JStr e) \<Rightarrow> e | _ \<Rightarrow> [])
                        (the (dget p ''kind''))))
                  (ret ())))"

record dispatcher =
  di_batch_limit :: int
  di_subscribers :: "string list"
  di_channels :: channels
  di_float :: "rat \<Rightarrow> string"

definition new_dispatcher :: "channels \<Rightarrow> (rat \<Rightarrow> string) \<Rightarrow> dispatcher" where
  "new_dispatcher ch fl =
     \<lparr>di_batch_limit = 50, di_subscribers = [''owner''], di_channels = ch, di_float = fl\<rparr>"

definition dispatch_one :: "dispatcher \<Rightarrow> int \<Rightarrow> outbox_row \<Rightarrow> (dispatch_state, unit) exec" where
  "dispatch_one di now row =
     (case ob_kind row of
        KMailboxSend \<Rightarrow> dispatch_mailbox_send now row
      | KTier1Notification \<Rightarrow> dispatch_tier1 (di_float di) (di_subscribers di) now row
      | KChannelPublish \<Rightarrow> dispatch_channel_publish (di_channels di) row
      | KChannelReaction \<Rightarrow> dispatch_channel_reaction (di_channels di) row)"

section \<open>A tick\<close>

definition exn_repr :: "exn \<Rightarrow> string" where
  "exn_repr e = (case e of Exn t m \<Rightarrow> t @ ''('' @ py_repr m @ '')''
                 | SimulatedKill p \<Rightarrow> ''SimulatedKill('' @ py_repr p @ '')'')"

definition row_mark :: "(int \<Rightarrow> db \<Rightarrow> db) \<Rightarrow> outbox_row \<Rightarrow> (dispatch_state, unit) exec" where
  "row_mark f row =
     (case ob_id row of None \<Rightarrow> ret () | Some i \<Rightarrow> on_db (upd (f i)))"

definition dispatch_row :: "dispatcher \<Rightarrow> int \<Rightarrow> outbox_row \<Rightarrow> (dispatch_state, bool) exec" where
  "dispatch_row di now row =
     try_except
       (seqn (dispatch_one di now row)
         (seqn (row_mark (mark_dispatched now) row) (ret True)))
       (\<lambda>e. seqn (row_mark (\<lambda>i. mark_failed i (exn_repr e)) row) (ret False))"

fun dispatch_rows ::
    "dispatcher \<Rightarrow> int \<Rightarrow> outbox_row list \<Rightarrow> nat \<Rightarrow> (dispatch_state, nat) exec" where
  "dispatch_rows di now [] n = ret n"
| "dispatch_rows di now (r # rs) n =
     bnd (dispatch_row di now r) (\<lambda>ok. dispatch_rows di now rs (if ok then Suc n else n))"

definition on_kill :: "(kill_switch, 'a) exec \<Rightarrow> (dispatch_state, 'a) exec" where
  "on_kill m = (\<lambda>s. case m (ds_kill s) of (r, k) \<Rightarrow> (r, s\<lparr>ds_kill := k\<rparr>))"

definition dispatcher_tick :: "dispatcher \<Rightarrow> int \<Rightarrow> (dispatch_state, nat) exec" where
  "dispatcher_tick di now =
     bnd (query (\<lambda>s. dequeue_batch (di_batch_limit di) (ds_db s))) (\<lambda>batch.
       if batch = [] then ret 0
       else seqn (on_kill (kill_check ''post_outbox_pre_dispatch''))
              (dispatch_rows di now batch 0))"

section \<open>What a dispatch leaves alone\<close>

lemma keeps_on_db: "(\<And>d. P d \<Longrightarrow> P (snd (m d))) \<Longrightarrow> keeps (\<lambda>s. P (ds_db s)) (on_db m)"
  by (rule keepsI) (simp add: on_db_def case_prod_beta)

lemma keeps_lift_sum [keeps_intros]: "keeps I (lift_sum r)"
  by (cases r) (simp_all add: lift_sum_def keeps_throw keeps_ret)

lemma keeps_call [keeps_intros]: "keeps (\<lambda>s. P (ds_db s)) (call_channel ch c)"
  by (rule keepsI) (simp add: call_channel_def)

lemma keeps_on_kill: "keeps (\<lambda>s. P (ds_db s)) (on_kill m)"
  by (rule keepsI) (simp add: on_kill_def split: prod.splits)

lemma keeps_dispatch_one:
  assumes "\<And>d msg. P d \<Longrightarrow> P (snd (insert_message now msg d))"
    and "\<And>d i c e. P d \<Longrightarrow> P (snd (set_channel_external_id i c e d))"
  shows "keeps (\<lambda>s. P (ds_db s)) (dispatch_one di now row)"
  unfolding dispatch_one_def dispatch_mailbox_send_def dispatch_tier1_def
    dispatch_channel_publish_def dispatch_channel_reaction_def Let_def
  by (cases "ob_kind row")
    (auto intro!: keeps_intros keeps_on_db assms split: prod.splits bool.splits option.splits
      list.splits)

lemma insert_message_outbox [simp]: "outbox (snd (insert_message now msg d)) = outbox d"
  by (simp add: insert_message_def Let_def)

lemma set_channel_tables [simp]:
  "outbox (snd (set_channel_external_id i c e d)) = outbox d"
  by (simp add: set_channel_external_id_def upd_messages_def exec_simps)

lemma has_message_set_channel:
  "has_message q x (snd (set_channel_external_id i c e d)) \<longleftrightarrow> has_message q x d"
proof -
  have "exists_row (\<lambda>r. mr_recipient r = q \<and> mr_external r = x) (update_where p f ms)
      \<longleftrightarrow> exists_row (\<lambda>r. mr_recipient r = q \<and> mr_external r = x) ms"
    if "\<And>r. mr_recipient (f r) = mr_recipient r \<and> mr_external (f r) = mr_external r" for p f ms
    using that by (auto simp: set_update_where)
  note same = this
  show ?thesis
    unfolding has_message_def
    by (cases "channel_name_ok c")
      (simp_all add: set_channel_external_id_def upd_messages_def exec_simps same
        del: exists_row_iff)
qed

lemma dispatch_one_outbox [simp]: "outbox (ds_db (snd (dispatch_one di now row s))) = outbox (ds_db s)"
  by (rule keepsD [OF keeps_dispatch_one [of "\<lambda>d. outbox d = outbox (ds_db s)"]]) simp_all

lemma dispatch_one_has:
  "has_message q x (ds_db s) \<Longrightarrow> has_message q x (ds_db (snd (dispatch_one di now row s)))"
  by (rule keepsD [OF keeps_dispatch_one [of "has_message q x"]])
    (simp_all add: has_message_mono has_message_set_channel)

lemma dispatch_one_ok: "db_ok (ds_db s) \<Longrightarrow> db_ok (ds_db (snd (dispatch_one di now row s)))"
  by (rule keepsD [OF keeps_dispatch_one [of db_ok]])
    (auto intro: keepsD [OF keeps_insert_message] keepsD [OF keeps_set_channel])

section \<open>No dispatch dies of an ordinary failure\<close>

lemma plain_err_ebind: "plain_err r \<Longrightarrow> (\<And>a. plain_err (f a)) \<Longrightarrow> plain_err (ebind r f)"
  by (auto simp: plain_err_def ebind_def split: sum.splits)

lemma plain_err_fields:
  "plain_err (Inr a)" "plain_err (opt_field conv p k)" "plain_err (str_or p k df)"
  "plain_err (opt_str_or p k o')" "plain_err (urgency_field p)"
  by (auto simp: plain_err_def opt_field_def str_or_def opt_str_or_def urgency_field_def
      validation_error_def split: option.splits json.splits)

lemma plain_mail_of_row: "plain_err (mail_of_row row)"
proof -
  have "plain_err (Inl (value_error m))" for m by (simp add: plain_err_def)
  then show ?thesis
    unfolding mail_of_row_def Let_def by (auto intro!: plain_err_ebind plain_err_fields)
qed

lemma plain_tier1_mail: "plain_err (tier1_mail fl row q)"
  unfolding tier1_mail_def Let_def by (auto intro!: plain_err_ebind plain_err_fields)

lemma plain_lift_sum: "plain_err r \<Longrightarrow> plain (lift_sum r)"
  by (auto simp: lift_sum_def plain_def plain_err_def exec_simps split: sum.splits)

lemma plain_on_db: "plain m \<Longrightarrow> plain (on_db m)"
  by (auto simp: plain_def on_db_def split: prod.splits) (metis fst_conv)

lemma plain_set_channel: "plain (set_channel_external_id i c e)"
  unfolding set_channel_external_id_def by (intro plain_intros)

text \<open>Only the kill switch raises a simulated kill, so no channel does.\<close>

definition channels_plain :: "channels \<Rightarrow> bool" where
  "channels_plain ch \<longleftrightarrow> (\<forall>cs c. plain_err (ch_publish ch cs c))"

lemma plain_call: "channels_plain ch \<Longrightarrow> plain (call_channel ch c)"
  by (simp add: plain_def call_channel_def channels_plain_def plain_err_def)

lemma plain_dispatch_one: "channels_plain (di_channels di) \<Longrightarrow> plain (dispatch_one di now row)"
  unfolding dispatch_one_def dispatch_mailbox_send_def dispatch_tier1_def
    dispatch_channel_publish_def dispatch_channel_reaction_def not_in_registry_def Let_def
  by (cases "ob_kind row")
    (auto intro!: plain_intros plain_on_db plain_insert_message plain_set_channel plain_call
      plain_lift_sum plain_mail_of_row plain_tier1_mail
      split: prod.splits bool.splits option.splits list.splits)

section \<open>One row, one tick\<close>

definition out_at :: "int \<Rightarrow> db \<Rightarrow> outbox_rec option" where
  "out_at i d = select_one (\<lambda>r. xr_id r = i) (outbox d)"

lemma out_at_upd:
  assumes "\<And>r. xr_id r = i \<Longrightarrow> xr_id (f r) = i"
  shows "out_at j (upd_outbox (\<lambda>r. xr_id r = i) f d)
     = (if j = i then map_option f (out_at j d) else out_at j d)"
proof -
  have "select_one (\<lambda>r. xr_id r = j) (update_where (\<lambda>r. xr_id r = i) f (outbox d))
      = map_option (\<lambda>r. if xr_id r = i then f r else r) (select_one (\<lambda>r. xr_id r = j) (outbox d))"
    by (rule select_one_update_where) (use assms in auto)
  then show ?thesis
    by (cases "select_one (\<lambda>r. xr_id r = j) (outbox d)")
      (auto simp: out_at_def upd_outbox_def dest: select_one_Some)
qed

lemma out_at_marks:
  "out_at j (mark_dispatched now i d)
     = (if j = i then map_option (\<lambda>r. r\<lparr>xr_dispatched := Some (MsZ now)\<rparr>) (out_at j d) else out_at j d)"
  "out_at j (mark_failed i e d)
     = (if j = i then map_option (\<lambda>r. r\<lparr>xr_attempts := xr_attempts r + 1, xr_error := Some e\<rparr>) (out_at j d)
        else out_at j d)"
  by (simp_all add: mark_dispatched_def mark_failed_def out_at_upd)

lemma has_message_marks [simp]:
  "has_message q x (mark_dispatched now i d) \<longleftrightarrow> has_message q x d"
  "has_message q x (mark_failed i e d) \<longleftrightarrow> has_message q x d"
  by (simp_all add: has_message_def mark_dispatched_def mark_failed_def upd_outbox_def)

text \<open>The mails a row stands for are in their mailboxes.\<close>

definition delivered :: "dispatcher \<Rightarrow> outbox_row \<Rightarrow> db \<Rightarrow> bool" where
  "delivered di row d \<longleftrightarrow>
     (case ob_kind row of
        KMailboxSend \<Rightarrow>
          (case mail_of_row row of Inl e \<Rightarrow> False | Inr msg \<Rightarrow> mail_key_in msg d)
      | KTier1Notification \<Rightarrow>
          list_all (\<lambda>q. has_message q (ob_external row @ '':'' @ q) d) (di_subscribers di)
      | _ \<Rightarrow> True)"

lemma delivered_mono:
  "delivered di row d \<Longrightarrow> (\<And>q x. has_message q x d \<Longrightarrow> has_message q x d') \<Longrightarrow> delivered di row d'"
  by (auto simp: delivered_def mail_key_in_def list_all_iff split: outbox_kind.splits sum.splits)

lemma tier1_mail_key:
  "tier1_mail fl row q = Inr msg \<Longrightarrow>
     msg_recipient msg = q \<and> msg_external msg = ob_external row @ '':'' @ q"
  by (auto simp: tier1_mail_def Let_def ebind_def new_message_def split: sum.splits)

lemma insert_on_db:
  "fst (seqn (on_db (insert_message now msg)) (ret ()) s) = Inr u \<Longrightarrow>
     mail_key_in msg (ds_db (snd (seqn (on_db (insert_message now msg)) (ret ()) s)))"
  unfolding mail_key_in_def
  using has_message_after [of now msg "ds_db s"]
  by (auto simp: exec_simps on_db_def split: prod.splits sum.splits)

lemma tier1_delivered:
  "fst (dispatch_tier1 fl qs now row s) = Inr u \<Longrightarrow> q \<in> set qs \<Longrightarrow>
     has_message q (ob_external row @ '':'' @ q) (ds_db (snd (dispatch_tier1 fl qs now row s)))"
proof (induction qs arbitrary: s)
  case (Cons x xs)
  let ?one = "\<lambda>q. bnd (lift_sum (tier1_mail fl row q))
                 (\<lambda>msg. seqn (on_db (insert_message now msg)) (ret ()))"
  have step1: "dispatch_tier1 fl (x # xs) now row s = seqn (?one x) (dispatch_tier1 fl xs now row) s"
    by (simp add: dispatch_tier1_def)
  obtain s' where o: "?one x s = (Inr (), s')"
    and rest: "fst (dispatch_tier1 fl xs now row s') = Inr u"
    and eq: "dispatch_tier1 fl (x # xs) now row s = dispatch_tier1 fl xs now row s'"
    using Cons.prems(1) unfolding step1
    by (cases "?one x s"; cases "fst (?one x s)") (auto simp: seqn_def bnd_def)
  show ?case
  proof (cases "q = x")
    case True
    obtain msg where msg: "tier1_mail fl row x = Inr msg"
      using o by (cases "tier1_mail fl row x") (auto simp: lift_sum_def exec_simps)
    have "has_message x (ob_external row @ '':'' @ x) (ds_db s')"
      using insert_on_db [of now msg s "()"] o tier1_mail_key [OF msg]
      by (simp add: msg lift_sum_def mail_key_in_def)
    then have "has_message x (ob_external row @ '':'' @ x) (ds_db (snd (dispatch_tier1 fl xs now row s')))"
      unfolding dispatch_tier1_def
      by (rule keepsD [rotated])
        (auto intro!: keeps_intros keeps_on_db has_message_mono)
    with True eq show ?thesis by simp
  next
    case False
    with Cons.prems(2) Cons.IH [OF rest] eq show ?thesis by simp
  qed
qed simp

lemma dispatch_one_delivers:
  assumes "fst (dispatch_one di now row s) = Inr u"
  shows "delivered di row (ds_db (snd (dispatch_one di now row s)))"
proof (cases "ob_kind row")
  case KMailboxSend
  then have eq: "dispatch_one di now row s
      = bnd (lift_sum (mail_of_row row)) (\<lambda>msg. seqn (on_db (insert_message now msg)) (ret ())) s"
    by (simp add: dispatch_one_def dispatch_mailbox_send_def)
  then obtain msg where "mail_of_row row = Inr msg"
    using assms by (cases "mail_of_row row") (auto simp: lift_sum_def exec_simps)
  then show ?thesis
    using insert_on_db [of now msg s u] assms eq KMailboxSend
    by (simp add: delivered_def lift_sum_def)
next
  case KTier1Notification
  with assms tier1_delivered show ?thesis
    by (auto simp: delivered_def dispatch_one_def list_all_iff)
qed (simp_all add: delivered_def)

text \<open>What one attempt does to the queue: the row is marked with the delivery done, or it has
  one more failure; nothing else in the queue changes, and the attempt itself never raises.\<close>

definition settled :: "dispatcher \<Rightarrow> int \<Rightarrow> outbox_row \<Rightarrow> db \<Rightarrow> db \<Rightarrow> bool" where
  "settled di now row d d' \<longleftrightarrow>
     (\<forall>i x. ob_id row = Some i \<longrightarrow> out_at i d = Some x \<longrightarrow>
        out_at i d' = Some (x\<lparr>xr_dispatched := Some (MsZ now)\<rparr>) \<and> delivered di row d'
        \<or> (\<exists>e. out_at i d' = Some (x\<lparr>xr_attempts := xr_attempts x + 1, xr_error := Some e\<rparr>)))"

lemma row_mark_run:
  "ob_id row = Some i \<Longrightarrow> row_mark f row s = (Inr (), s\<lparr>ds_db := f i (ds_db s)\<rparr>)"
  by (simp add: row_mark_def on_db_def upd_def)

lemma dispatch_row_settles:
  assumes "channels_plain (di_channels di)" and i: "ob_id row = Some i"
  shows "\<exists>ok s'. dispatch_row di now row s = (Inr ok, s') \<and> settled di now row (ds_db s) (ds_db s')
     \<and> (\<forall>j. j \<noteq> i \<longrightarrow> out_at j (ds_db s') = out_at j (ds_db s))
     \<and> (ok \<longleftrightarrow> fst (dispatch_one di now row s) = Inr ())"
proof -
  obtain r s1 where o: "dispatch_one di now row s = (r, s1)" by (cases "dispatch_one di now row s")
  have q: "out_at j (ds_db s1) = out_at j (ds_db s)" for j
    using dispatch_one_outbox [of di now row s] o by (simp add: out_at_def)
  show ?thesis
  proof (cases r)
    case (Inr u)
    let ?s = "s1\<lparr>ds_db := mark_dispatched now i (ds_db s1)\<rparr>"
    have run: "dispatch_row di now row s = (Inr True, ?s)"
      using o Inr by (simp add: dispatch_row_def row_mark_run [OF i] exec_simps)
    have "delivered di row (ds_db ?s)"
      using dispatch_one_delivers [of di now row s u] o Inr
      by (auto intro: delivered_mono)
    with run i o Inr show ?thesis
      by (intro exI [of _ True] exI [of _ ?s]) (auto simp: settled_def out_at_marks q)
  next
    case (Inl e)
    then obtain t m where e: "e = Exn t m"
      using plain_dispatch_one [OF assms(1), of now row] o by (cases e) (auto simp: plain_def dest: spec [of _ s])
    let ?s = "s1\<lparr>ds_db := mark_failed i (exn_repr e) (ds_db s1)\<rparr>"
    have run: "dispatch_row di now row s = (Inr False, ?s)"
      using o Inl e by (simp add: dispatch_row_def row_mark_run [OF i] exec_simps)
    with i o Inl show ?thesis
      by (intro exI [of _ False] exI [of _ ?s]) (auto simp: settled_def out_at_marks q)
  qed
qed

lemma dispatch_row_has:
  assumes "channels_plain (di_channels di)" and "ob_id row = Some i"
    and "has_message q x (ds_db s)"
  shows "has_message q x (ds_db (snd (dispatch_row di now row s)))"
proof -
  obtain r s1 where o: "dispatch_one di now row s = (r, s1)" by (cases "dispatch_one di now row s")
  have h: "has_message q x (ds_db s1)" using dispatch_one_has [OF assms(3), of di now row] o by simp
  show ?thesis
    by (cases r rule: sum.exhaust; cases "projl r")
      (use o h in \<open>auto simp: dispatch_row_def row_mark_run [OF assms(2)] exec_simps
         split: sum.splits exn.splits\<close>)
qed

lemma dispatch_rows_settle:
  assumes ch: "channels_plain (di_channels di)"
    and "distinct (map ob_id rows)" "\<forall>r \<in> set rows. ob_id r \<noteq> None"
  shows "\<exists>m s'. dispatch_rows di now rows n s = (Inr m, s') \<and> n \<le> m \<and> m \<le> n + length rows
     \<and> (\<forall>r \<in> set rows. settled di now r (ds_db s) (ds_db s'))
     \<and> (\<forall>j. Some j \<notin> ob_id ` set rows \<longrightarrow> out_at j (ds_db s') = out_at j (ds_db s))
     \<and> (\<forall>q x. has_message q x (ds_db s) \<longrightarrow> has_message q x (ds_db s'))"
  using assms(2,3)
proof (induction rows arbitrary: n s)
  case Nil
  then show ?case by (simp add: exec_simps)
next
  case (Cons r rs)
  then obtain i where i: "ob_id r = Some i" by auto
  obtain ok s1 where one: "dispatch_row di now r s = (Inr ok, s1)"
    and se: "settled di now r (ds_db s) (ds_db s1)"
    and oth: "\<forall>j. j \<noteq> i \<longrightarrow> out_at j (ds_db s1) = out_at j (ds_db s)"
    using dispatch_row_settles [OF ch i, of now s] by blast
  let ?n = "if ok then Suc n else n"
  obtain m s' where rest: "dispatch_rows di now rs ?n s1 = (Inr m, s')" "?n \<le> m" "m \<le> ?n + length rs"
    and sr: "\<forall>r \<in> set rs. settled di now r (ds_db s1) (ds_db s')"
    and or: "\<forall>j. Some j \<notin> ob_id ` set rs \<longrightarrow> out_at j (ds_db s') = out_at j (ds_db s1)"
    and hr: "\<forall>q x. has_message q x (ds_db s1) \<longrightarrow> has_message q x (ds_db s')"
    using Cons.IH [of ?n s1] Cons.prems by auto
  have ni: "Some i \<notin> ob_id ` set rs" using Cons.prems(1) i by auto
  have run: "dispatch_rows di now (r # rs) n s = (Inr m, s')"
    using one rest by (simp add: bnd_def)
  have "delivered di r (ds_db s1) \<Longrightarrow> delivered di r (ds_db s')"
    using hr by (blast intro: delivered_mono)
  then have "settled di now r (ds_db s) (ds_db s')"
    using se or ni i by (auto simp: settled_def)
  moreover have "settled di now y (ds_db s) (ds_db s')" if y: "y \<in> set rs" for y
  proof -
    obtain j where j: "ob_id y = Some j" using Cons.prems(2) y by auto
    with ni y have "j \<noteq> i" by force
    with oth sr y j show ?thesis by (simp add: settled_def)
  qed
  moreover have "has_message q x (ds_db s')" if "has_message q x (ds_db s)" for q x
    using dispatch_row_has [OF ch i that, of now] one hr by simp
  ultimately show ?case
    using run rest or oth i
    by (intro exI [of _ m] exI [of _ s']) (auto split: if_splits)
qed

lemma dispatch_row_ok: "db_ok (ds_db s) \<Longrightarrow> db_ok (ds_db (snd (dispatch_row di now row s)))"
proof -
  have "keeps (\<lambda>s. db_ok (ds_db s)) (row_mark f row)" if "\<And>i d. db_ok d \<Longrightarrow> db_ok (f i d)" for f
    using that by (auto simp: row_mark_def upd_def intro!: keeps_ret keeps_on_db split: option.splits)
  then have "keeps (\<lambda>s. db_ok (ds_db s)) (dispatch_row di now row)"
    unfolding dispatch_row_def
    by (intro keeps_intros keepsI [of _ "dispatch_one di now row"]) (auto simp: dispatch_one_ok)
  then show "db_ok (ds_db s) \<Longrightarrow> db_ok (ds_db (snd (dispatch_row di now row s)))"
    by (rule keepsD)
qed

lemma keeps_dispatch_rows: "keeps (\<lambda>s. db_ok (ds_db s)) (dispatch_rows di now rows n)"
proof (induction rows arbitrary: n)
  case (Cons r rs)
  then show ?case by (auto intro!: keeps_bnd keepsI [of _ "dispatch_row di now r"] dispatch_row_ok)
qed (simp add: keeps_ret)

lemma keeps_dispatcher_tick: "keeps (\<lambda>s. db_ok (ds_db s)) (dispatcher_tick di now)"
  unfolding dispatcher_tick_def
  by (intro keeps_intros keeps_on_kill keeps_dispatch_rows)

lemma out_at_self: "db_ok d \<Longrightarrow> x \<in> set (outbox d) \<Longrightarrow> out_at (xr_id x) d = Some x"
  unfolding out_at_def
  by (rule select_one_key) (auto simp: db_ok_def outbox_ok_def strict_sorted_iff)

lemma batch_ids:
  assumes "db_ok d"
  shows "distinct (map ob_id (dequeue_batch n d))"
    and "\<forall>r \<in> set (dequeue_batch n d). ob_id r \<noteq> None"
proof -
  let ?q = "order_by (\<lambda>r. (xr_attempts r, xr_created r, xr_id r))
      (filter (\<lambda>r. xr_dispatched r = None) (outbox d))"
  have "distinct (map xr_id (outbox d))"
    using assms by (simp add: db_ok_def outbox_ok_def strict_sorted_iff)
  then have "distinct (map xr_id ?q)"
    by (auto simp: order_by_def distinct_map intro: inj_on_subset)
  then have "distinct (map xr_id (sql_limit n ?q))"
    by (simp add: sql_limit_def take_map [symmetric])
  then have "distinct (map (\<lambda>x. Some (xr_id x)) (sql_limit n ?q))"
    by (simp add: distinct_map inj_on_def)
  then show "distinct (map ob_id (dequeue_batch n d))"
    by (simp add: dequeue_batch_def comp_def rec_to_row_def)
  show "\<forall>r \<in> set (dequeue_batch n d). ob_id r \<noteq> None"
    by (auto simp: dequeue_batch_def rec_to_row_def)
qed

lemma tick_settles:
  assumes ok: "db_ok (ds_db s)" and ch: "channels_plain (di_channels di)"
    and k: "ks_fired (ds_kill s) \<or> ks_fire_at (ds_kill s) \<noteq> Some ''post_outbox_pre_dispatch''"
  shows "\<exists>n s'. dispatcher_tick di now s = (Inr n, s')
     \<and> (\<forall>r \<in> set (dequeue_batch (di_batch_limit di) (ds_db s)). settled di now r (ds_db s) (ds_db s'))
     \<and> (\<forall>j. Some j \<notin> ob_id ` set (dequeue_batch (di_batch_limit di) (ds_db s))
           \<longrightarrow> out_at j (ds_db s') = out_at j (ds_db s))
     \<and> (\<forall>q x. has_message q x (ds_db s) \<longrightarrow> has_message q x (ds_db s'))"
proof -
  let ?b = "dequeue_batch (di_batch_limit di) (ds_db s)"
  have s: "on_kill (kill_check ''post_outbox_pre_dispatch'') s = (Inr (), s)"
    using k by (auto simp: on_kill_def kill_check_def)
  obtain m s' where r: "dispatch_rows di now ?b 0 s = (Inr m, s')"
    and out: "\<forall>r \<in> set ?b. settled di now r (ds_db s) (ds_db s')"
      "\<forall>j. Some j \<notin> ob_id ` set ?b \<longrightarrow> out_at j (ds_db s') = out_at j (ds_db s)"
      "\<forall>q x. has_message q x (ds_db s) \<longrightarrow> has_message q x (ds_db s')"
    using dispatch_rows_settle [OF ch batch_ids [OF ok], where now = now and n = 0 and s = s] by blast
  show ?thesis
  proof (cases "?b = []")
    case True
    then show ?thesis
      by (intro exI [of _ 0] exI [of _ s]) (simp add: dispatcher_tick_def exec_simps)
  next
    case False
    with s r have "dispatcher_tick di now s = (Inr m, s')"
      by (simp add: dispatcher_tick_def exec_simps)
    with out show ?thesis by blast
  qed
qed

text \<open>A mail that is in its mailbox is there once.\<close>

lemma mail_once:
  assumes "db_ok d" "has_message q x d"
  shows "length (filter (\<lambda>r. mr_recipient r = q \<and> mr_external r = x) (messages d)) = 1"
proof -
  obtain r where r: "r \<in> set (messages d)" "mr_recipient r = q" "mr_external r = x"
    using assms(2) by (auto simp: has_message_def)
  have "distinct (map (\<lambda>r. (mr_recipient r, mr_external r)) (messages d))"
    using assms(1) by (simp add: db_ok_def messages_ok_def)
  then have di: "distinct (messages d)"
    and inj: "inj_on (\<lambda>r. (mr_recipient r, mr_external r)) (set (messages d))"
    by (simp_all add: distinct_map)
  have "set (filter (\<lambda>r. mr_recipient r = q \<and> mr_external r = x) (messages d)) = {r}"
    using inj r by (auto dest: inj_onD)
  moreover have "distinct (filter (\<lambda>r. mr_recipient r = q \<and> mr_external r = x) (messages d))"
    using di by simp
  ultimately show ?thesis by (metis card_1_singleton_iff distinct_card is_singletonI is_singleton_altdef One_nat_def)
qed

section \<open>Properties\<close>

text \<open>C8: A tick settles every row of its batch. It does not raise, keeps the database's
  constraints, and afterwards each row of the batch is either marked dispatched with its mail in
  the mailbox exactly once, or has one more failed attempt and is still queued; every other row
  of the queue is as before.\<close>

theorem tick_delivers_exactly_once:
  assumes "db_ok (ds_db s)" "channels_plain (di_channels di)"
    and "ks_fired (ds_kill s) \<or> ks_fire_at (ds_kill s) \<noteq> Some ''post_outbox_pre_dispatch''"
    and "x \<in> set (outbox (ds_db s))"
  shows "\<exists>n s'. dispatcher_tick di now s = (Inr n, s') \<and> db_ok (ds_db s')
     \<and> (if rec_to_row x \<in> set (dequeue_batch (di_batch_limit di) (ds_db s))
        then out_at (xr_id x) (ds_db s') = Some (x\<lparr>xr_dispatched := Some (MsZ now)\<rparr>)
             \<and> (\<forall>msg. xr_kind x = KMailboxSend \<and> mail_of_row (rec_to_row x) = Inr msg \<longrightarrow>
                  length (filter (\<lambda>r. mr_recipient r = msg_recipient msg
                     \<and> mr_external r = msg_external msg) (messages (ds_db s'))) = 1)
           \<or> (\<exists>e. out_at (xr_id x) (ds_db s')
                = Some (x\<lparr>xr_attempts := xr_attempts x + 1, xr_error := Some e\<rparr>))
        else out_at (xr_id x) (ds_db s') = Some x)"
proof -
  let ?b = "dequeue_batch (di_batch_limit di) (ds_db s)"
  obtain n s' where run: "dispatcher_tick di now s = (Inr n, s')"
    and se: "\<forall>r \<in> set ?b. settled di now r (ds_db s) (ds_db s')"
    and oth: "\<forall>j. Some j \<notin> ob_id ` set ?b \<longrightarrow> out_at j (ds_db s') = out_at j (ds_db s)"
    using tick_settles [OF assms(1-3), of now] by blast
  have ok: "db_ok (ds_db s')"
    using keepsD [OF keeps_dispatcher_tick assms(1), of di now] run by simp
  have xs: "out_at (xr_id x) (ds_db s) = Some x" by (rule out_at_self [OF assms(1,4)])
  show ?thesis
  proof (cases "rec_to_row x \<in> set ?b")
    case True
    with se xs have "out_at (xr_id x) (ds_db s') = Some (x\<lparr>xr_dispatched := Some (MsZ now)\<rparr>)
          \<and> delivered di (rec_to_row x) (ds_db s')
        \<or> (\<exists>e. out_at (xr_id x) (ds_db s') = Some (x\<lparr>xr_attempts := xr_attempts x + 1, xr_error := Some e\<rparr>))"
      by (auto simp: settled_def rec_to_row_def)
    moreover have "length (filter (\<lambda>r. mr_recipient r = msg_recipient msg
           \<and> mr_external r = msg_external msg) (messages (ds_db s'))) = 1"
      if "delivered di (rec_to_row x) (ds_db s')" "xr_kind x = KMailboxSend"
        "mail_of_row (rec_to_row x) = Inr msg" for msg
      using that mail_once [OF ok] by (simp add: delivered_def rec_to_row_def mail_key_in_def)
    ultimately show ?thesis using run ok True by auto
  next
    case False
    have "Some (xr_id x) \<notin> ob_id ` set ?b"
    proof
      assume "Some (xr_id x) \<in> ob_id ` set ?b"
      then obtain r where r: "r \<in> set ?b" "ob_id r = Some (xr_id x)" by force
      obtain y where y: "y \<in> set (outbox (ds_db s))" "r = rec_to_row y"
        using in_dequeue_batch [OF r(1)] by blast
      with r(2) have "xr_id y = xr_id x" by (simp add: rec_to_row_def)
      then have "Some y = Some x" using out_at_self [OF assms(1) y(1)] xs by metis
      then have "y = x" by (rule option.inject [THEN iffD1])
      with r(1) y(2) False show False by metis
    qed
    with oth xs run ok False show ?thesis by auto
  qed
qed

text \<open>A queue with one mail to the owner, no channel and no kill.\<close>

definition sample_out :: "int \<Rightarrow> int \<Rightarrow> outbox_rec" where
  "sample_out i attempts =
     \<lparr>xr_id = i, xr_task = None, xr_wakeup = None, xr_kind = KMailboxSend,
      xr_payload = [(''recipient'', JStr ''owner''), (''body'', JStr ''hi'')],
      xr_external = ''x'' @ str_of_int i, xr_created = MsZ 0, xr_dispatched = None,
      xr_attempts = attempts, xr_error = None\<rparr>"

definition queue_db :: "outbox_rec list \<Rightarrow> db" where
  "queue_db rows = sample_db\<lparr>outbox := rows, outbox_seq := 9\<rparr>"

definition no_channels :: channels where
  "no_channels = \<lparr>ch_known = (\<lambda>n. False), ch_publish = (\<lambda>cs c. Inr None)\<rparr>"

definition quiet_state :: "db \<Rightarrow> dispatch_state" where
  "quiet_state d = \<lparr>ds_db = d, ds_kill = \<lparr>ks_fire_at = None, ks_fired = False\<rparr>, ds_calls = []\<rparr>"

definition plain_dispatcher :: dispatcher where
  "plain_dispatcher = new_dispatcher no_channels (\<lambda>q. [])"

lemma no_channels_plain: "channels_plain (di_channels plain_dispatcher)"
  by (simp add: plain_dispatcher_def new_dispatcher_def no_channels_def channels_plain_def
      plain_err_def)

lemma queue_db_ok: "db_ok (queue_db [sample_out 1 0])"
  by (simp add: queue_db_def sample_out_def sample_db_def empty_db_def db_ok_defs key_defs
      sample_agent_def sample_task_def)

lemma tick_delivers_exactly_once_witness:
  "\<exists>n s'. dispatcher_tick plain_dispatcher 5 (quiet_state (queue_db [sample_out 1 0])) = (Inr n, s')
     \<and> db_ok (ds_db s')"
proof -
  let ?s = "quiet_state (queue_db [sample_out 1 0])"
  have "db_ok (ds_db ?s)" using queue_db_ok by (simp add: quiet_state_def)
  moreover have "ks_fired (ds_kill ?s) \<or> ks_fire_at (ds_kill ?s) \<noteq> Some ''post_outbox_pre_dispatch''"
    by (simp add: quiet_state_def)
  moreover have "sample_out 1 0 \<in> set (outbox (ds_db ?s))" by (simp add: quiet_state_def queue_db_def)
  ultimately show ?thesis
    using tick_delivers_exactly_once [OF _ no_channels_plain, of ?s "sample_out 1 0" 5] by blast
qed

text \<open>A crash loses no delivery and makes none twice. Killed at the point before the
  delivery, the tick leaves the database untouched; and an attempt that delivered but died
  before it marked its row is repeated without a second mail: with the mail already in its
  mailbox, the attempt adds none and marks the row.\<close>

theorem redelivery_is_harmless:
  "(\<not> ks_fired (ds_kill s) \<and> ks_fire_at (ds_kill s) = Some ''post_outbox_pre_dispatch''
      \<and> dequeue_batch (di_batch_limit di) (ds_db s) \<noteq> [] \<longrightarrow>
      (\<exists>p. dispatcher_tick di now s
          = (Inl (SimulatedKill p), s\<lparr>ds_kill := (ds_kill s)\<lparr>ks_fired := True\<rparr>\<rparr>)))
   \<and> (ob_kind row = KMailboxSend \<and> mail_of_row row = Inr msg \<and> ob_id row = Some i
        \<and> has_message (msg_recipient msg) (msg_external msg) (ds_db s) \<longrightarrow>
      (\<exists>s'. dispatch_row di now row s = (Inr True, s') \<and> messages (ds_db s') = messages (ds_db s)
          \<and> (\<forall>x. out_at i (ds_db s) = Some x \<longrightarrow>
               out_at i (ds_db s') = Some (x\<lparr>xr_dispatched := Some (MsZ now)\<rparr>))))"
proof (intro conjI impI)
  assume "\<not> ks_fired (ds_kill s) \<and> ks_fire_at (ds_kill s) = Some ''post_outbox_pre_dispatch''
      \<and> dequeue_batch (di_batch_limit di) (ds_db s) \<noteq> []"
  then show "\<exists>p. dispatcher_tick di now s
          = (Inl (SimulatedKill p), s\<lparr>ds_kill := (ds_kill s)\<lparr>ks_fired := True\<rparr>\<rparr>)"
    by (simp add: dispatcher_tick_def exec_simps on_kill_def kill_check_def)
next
  assume a: "ob_kind row = KMailboxSend \<and> mail_of_row row = Inr msg \<and> ob_id row = Some i
        \<and> has_message (msg_recipient msg) (msg_external msg) (ds_db s)"
  then have h: "mail_key_in msg (ds_db s)" by (simp add: mail_key_in_def)
  obtain r d1 where m: "insert_message now msg (ds_db s) = (r, d1)"
    by (cases "insert_message now msg (ds_db s)")
  with mail_sink.put_again [OF h, of now] obtain c where rc: "r = Inr c"
    and same: "messages d1 = messages (ds_db s)" by auto
  have q: "outbox d1 = outbox (ds_db s)" using insert_message_outbox [of now msg "ds_db s"] m by simp
  let ?s = "s\<lparr>ds_db := mark_dispatched now i d1\<rparr>"
  have "dispatch_row di now row s = (Inr True, ?s)"
    using a m rc
    by (simp add: dispatch_row_def dispatch_one_def dispatch_mailbox_send_def lift_sum_def
        on_db_def row_mark_def exec_simps)
  moreover have "messages (mark_dispatched now i d1) = messages (ds_db s)"
    by (simp add: mark_dispatched_def upd_outbox_def same)
  moreover have "out_at i (mark_dispatched now i d1) = Some (x\<lparr>xr_dispatched := Some (MsZ now)\<rparr>)"
    if "out_at i (ds_db s) = Some x" for x
    using that q by (simp add: out_at_marks) (simp add: out_at_def)
  ultimately show "\<exists>s'. dispatch_row di now row s = (Inr True, s') \<and> messages (ds_db s') = messages (ds_db s)
          \<and> (\<forall>x. out_at i (ds_db s) = Some x \<longrightarrow>
               out_at i (ds_db s') = Some (x\<lparr>xr_dispatched := Some (MsZ now)\<rparr>))"
    by (intro exI [of _ ?s]) simp
qed

lemma redelivery_is_harmless_witness:
  "\<exists>s'. dispatch_row plain_dispatcher 7 (rec_to_row (sample_out 1 0))
        (quiet_state (snd (insert_message 5 (new_message ''owner'' ''x1'' ''system'' UNormal ''hi'') sample_db)))
      = (Inr True, s')
      \<and> messages (ds_db s') = messages (snd (insert_message 5 (new_message ''owner'' ''x1'' ''system'' UNormal ''hi'') sample_db))"
proof -
  let ?m = "new_message ''owner'' ''x1'' ''system'' UNormal ''hi''"
  let ?d = "snd (insert_message 5 ?m sample_db)"
  let ?r = "rec_to_row (sample_out 1 0)"
  have one: "str_of_int 1 = ''1''" by code_simp
  have m: "mail_of_row ?r = Inr ?m"
    by (simp add: mail_of_row_def rec_to_row_def sample_out_def str_or_def opt_str_or_def
        opt_field_def urgency_field_def not_none_def otruthy_def ebind_def new_message_def one)
  have "fst (insert_message 5 ?m sample_db) = Inr 1"
    by (simp add: insert_message_def Let_def has_message_def sample_db_def empty_db_def
        new_message_def)
  then have h: "has_message (msg_recipient ?m) (msg_external ?m) ?d" by (rule has_message_after)
  have "ob_kind ?r = KMailboxSend" "ob_id ?r = Some 1"
    by (simp_all add: rec_to_row_def sample_out_def)
  with m h redelivery_is_harmless [of "quiet_state ?d" plain_dispatcher 7 ?r ?m 1]
  show ?thesis by (auto simp: quiet_state_def)
qed

text \<open>A poison row blocks nobody. The batch holds the undelivered rows with the fewest
  failed attempts: a row that is left out has at least as many as every row taken, and whatever
  was never tried goes before every row that failed.\<close>

theorem poison_rows_yield:
  assumes "x \<in> set (outbox d)" "xr_dispatched x = None" "rec_to_row x \<notin> set (dequeue_batch limit d)"
  shows "0 \<le> limit \<and> length (dequeue_batch limit d) = nat limit
     \<and> (\<forall>r \<in> set (dequeue_batch limit d). ob_attempts r \<le> xr_attempts x)"
proof -
  let ?k = "\<lambda>r. (xr_attempts r, xr_created r, xr_id r)"
  let ?q = "order_by ?k (filter (\<lambda>r. xr_dispatched r = None) (outbox d))"
  have xq: "x \<in> set ?q" using assms(1,2) by simp
  have l0: "0 \<le> limit"
    using assms(3) xq by (auto simp: dequeue_batch_def sql_limit_def not_less)
  then have b: "dequeue_batch limit d = map rec_to_row (take (nat limit) ?q)"
    by (simp add: dequeue_batch_def sql_limit_def)
  have "x \<notin> set (take (nat limit) ?q)" using assms(3) b by auto
  then have xd: "x \<in> set (drop (nat limit) ?q)"
    using xq by (metis Un_iff append_take_drop_id set_append)
  then have len: "nat limit \<le> length ?q" by (cases "nat limit \<le> length ?q") auto
  have so: "sorted_wrt (\<lambda>a b. ?k a \<le> ?k b) (take (nat limit) ?q @ drop (nat limit) ?q)"
    using sorted_order_by [of ?k] by (simp add: sorted_map)
  then have "\<forall>y \<in> set (take (nat limit) ?q). ?k y \<le> ?k x"
    using xd unfolding sorted_wrt_append by blast
  then have "\<forall>r \<in> set (dequeue_batch limit d). ob_attempts r \<le> xr_attempts x"
    by (auto simp: b rec_to_row_def less_eq_prod_def)
  with l0 len b show ?thesis by simp
qed

lemma poison_rows_yield_witness:
  "map ob_id (dequeue_batch 1 (queue_db [sample_out 1 7, sample_out 2 0])) = [Some 2]
   \<and> ob_attempts (hd (dequeue_batch 1 (queue_db [sample_out 1 7, sample_out 2 0]))) \<le> 7"
proof -
  let ?d = "queue_db [sample_out 1 7, sample_out 2 0]"
  have b: "dequeue_batch 1 ?d = [rec_to_row (sample_out 2 0)]"
    by (simp add: dequeue_batch_def queue_db_def sample_out_def order_by_def sql_limit_def)
  have "sample_out 1 7 \<in> set (outbox ?d)" "xr_dispatched (sample_out 1 7) = None"
    "rec_to_row (sample_out 1 7) \<notin> set (dequeue_batch 1 ?d)"
    by (simp_all add: b) (simp_all add: queue_db_def sample_out_def rec_to_row_def)
  from poison_rows_yield [OF this] b show ?thesis
    by (simp add: sample_out_def rec_to_row_def)
qed

end
