(* ===== verification/Supervision.thy ===== *)
theory Supervision
  imports Fan_In_Barrier Outbox_Dispatcher
begin

text \<open>
  Supervision in the scheduler: the reaper of ephemeral agents (Phase 0.8) with its restart
  policies, the bounds on lease recovery (Phase 2), the mails to the supervisor, and the notice
  that a task has terminated. \<open>fl\<close> is the text Python gives a float.
\<close>

section \<open>Supervisors\<close>

definition live_agent :: "string \<Rightarrow> db \<Rightarrow> bool" where
  "live_agent a d \<longleftrightarrow> (case agents_get a d of None \<Rightarrow> False | Some x \<Rightarrow> agent_status x \<noteq> AArchived)"

definition owner_if_live :: "db \<Rightarrow> string option" where
  "owner_if_live d = (if live_agent ''owner'' d then Some ''owner'' else None)"

definition resolve_supervisor_for_agent :: "agent \<Rightarrow> db \<Rightarrow> string option" where
  "resolve_supervisor_for_agent a d =
     (case present (agent_parent a) of
        None \<Rightarrow> owner_if_live d
      | Some p \<Rightarrow> (if live_agent p d then Some p else owner_if_live d))"

definition resolve_terminated_task_supervisor :: "task \<Rightarrow> db \<Rightarrow> string option" where
  "resolve_terminated_task_supervisor t d =
     (case present (task_parent t) of
        None \<Rightarrow> owner_if_live d
      | Some p \<Rightarrow>
          (case tasks_get p d of
             None \<Rightarrow> owner_if_live d
           | Some pt \<Rightarrow>
               (case present (task_agent pt) of
                  None \<Rightarrow> owner_if_live d
                | Some a \<Rightarrow> (if live_agent a d then Some a else owner_if_live d))))"

section \<open>Mails of the supervisor\<close>

datatype supervision_kind = Escalation | Failure

text \<open>\<open>{sup.get(k, default)}\<close> in a text.\<close>

definition sup_text :: "(rat \<Rightarrow> string) \<Rightarrow> dict \<Rightarrow> string \<Rightarrow> json \<Rightarrow> string" where
  "sup_text fl sv k dflt = json_str fl (case dget sv k of None \<Rightarrow> dflt | Some v \<Rightarrow> v)"

definition last_status_text :: "task option \<Rightarrow> string" where
  "last_status_text latest =
     (case latest of None \<Rightarrow> ''unknown'' | Some t \<Rightarrow> task_status_str (task_status t))"

definition supervision_key :: "agent \<Rightarrow> task option \<Rightarrow> supervision_kind \<Rightarrow> string" where
  "supervision_key a latest kind =
     (case kind of
        Escalation \<Rightarrow> ''supervision:'' @ agent_id a @ '':escalation''
      | Failure \<Rightarrow> ''supervision:'' @ agent_id a @ '':failed:'' @
                   (case latest of None \<Rightarrow> ''na'' | Some t \<Rightarrow> task_id t))"

definition supervision_body ::
    "(rat \<Rightarrow> string) \<Rightarrow> agent \<Rightarrow> dict \<Rightarrow> task option \<Rightarrow> supervision_kind \<Rightarrow> string" where
  "supervision_body fl a sv latest kind =
     (case kind of
        Escalation \<Rightarrow>
          ''[escalation] ephemeral '' @ agent_id a @ '' exceeded restart intensity'' @
          newline @ newline @
          ''Agent '' @ agent_id a @ '' (persona '' @ agent_persona a @
          '') hit its restart limit (max_restarts='' @ sup_text fl sv ''max_restarts'' (JInt 3) @
          '' within '' @ sup_text fl sv ''max_seconds'' (JInt 60) @ ''s, or '' @
          sup_text fl sv ''max_restarts_total'' (JInt 10) @
          '' lifetime restarts); reclaimed without further restart. Last outcome: '' @
          last_status_text latest @ ''. Decide: re-plan, re-spec, or drop this leg.''
      | Failure \<Rightarrow>
          ''[failed] ephemeral '' @ agent_id a @ '' did not succeed'' @ newline @ newline @
          ''Agent '' @ agent_id a @ '' (persona '' @ agent_persona a @ '') task '' @
          (case latest of None \<Rightarrow> ''?'' | Some t \<Rightarrow> task_id t) @ '' ended '' @
          py_repr (last_status_text latest) @ ''; its restart policy ('' @
          sup_text fl sv ''restart'' (JStr ''temporary'') @
          '') does not retry it. The agent has been reclaimed.'')"

definition supervision_mail ::
    "(rat \<Rightarrow> string) \<Rightarrow> agent \<Rightarrow> dict \<Rightarrow> task option \<Rightarrow> supervision_kind \<Rightarrow> string \<Rightarrow> mail_message" where
  "supervision_mail fl a sv latest kind recipient =
     (new_message recipient (supervision_key a latest kind) ''system:supervisor'' UHigh
        (supervision_body fl a sv latest kind))
       \<lparr>msg_meta := Some
          [(''kind'', JStr (case kind of Escalation \<Rightarrow> ''supervision_escalation''
                                     | Failure \<Rightarrow> ''supervision_failure'')),
           (''agent_id'', JStr (agent_id a)), (''outcome'', JStr (last_status_text latest)),
           (''parent_task_id'', (case latest of None \<Rightarrow> JNull | Some t \<Rightarrow> jopt_str (task_parent t)))]\<rparr>"

definition insert_supervision_mail ::
    "(rat \<Rightarrow> string) \<Rightarrow> usec \<Rightarrow> agent \<Rightarrow> task option \<Rightarrow> supervision_kind \<Rightarrow> (db, unit) exec" where
  "insert_supervision_mail fl now a latest kind =
     bnd (query (resolve_supervisor_for_agent a)) (\<lambda>r.
       case r of
         None \<Rightarrow> ret ()
       | Some recipient \<Rightarrow>
           bnd (query (\<lambda>_. supervision_of a)) (\<lambda>s. case s of
             Inl e \<Rightarrow> throw e
           | Inr sv \<Rightarrow>
               seqn (upd (ensure_mailbox recipient))
                 (seqn (insert_message (now div 1000)
                          (supervision_mail fl a sv latest kind recipient)) (ret ()))))"

section \<open>The reaper\<close>

definition latest_outcome :: "task option \<Rightarrow> task_status" where
  "latest_outcome latest = (case latest of None \<Rightarrow> TCompleted | Some t \<Rightarrow> task_status t)"

definition restart_policy :: "dict \<Rightarrow> string" where
  "restart_policy sv = (case dget sv ''restart'' of
     None \<Rightarrow> ''temporary'' | Some (JStr p) \<Rightarrow> p | Some _ \<Rightarrow> [])"

definition restart_spec :: "agent \<Rightarrow> task \<Rightarrow> task_spec" where
  "restart_spec a t =
     (new_task_spec (agent_id a) (task_goal t) (task_acceptance t))
       \<lparr>spec_parent := task_parent t, spec_meta := metadata_without_cancel (task_meta t)\<rparr>"

definition restart_or_escalate ::
    "(rat \<Rightarrow> string) \<Rightarrow> (nat \<Rightarrow> string) \<Rightarrow> usec \<Rightarrow> agent \<Rightarrow> dict \<Rightarrow> task \<Rightarrow> int \<Rightarrow> int \<Rightarrow> (db, unit) exec" where
  "restart_or_escalate fl uuid now a sv t max_r max_s =
     in_transaction
       (bnd (bump_and_check_intensity (agent_id a) max_r max_s now
               (Some (task_status_str (task_status t)))
               (if task_status t = TFailed then sup_max_total sv else None)
               (task_status t = TFailed))
          (\<lambda>in_budget.
             if in_budget then seqn (tasks_create uuid (now div 1000) (restart_spec a t)) (ret ())
             else seqn (mark_escalated (agent_id a) now)
               (seqn (step (agents_archive (now div 1000) (agent_id a) (Some ''storm_halted'')))
                 (insert_supervision_mail fl now a (Some t) Escalation))))"

definition reclaim_agent ::
    "(rat \<Rightarrow> string) \<Rightarrow> usec \<Rightarrow> agent \<Rightarrow> task option \<Rightarrow> (db, unit) exec" where
  "reclaim_agent fl now a latest =
     in_transaction
       (seqn (run_if (latest \<noteq> None \<and> latest_outcome latest = TFailed)
                (insert_supervision_mail fl now a latest Failure))
          (seqn (step (agents_archive (now div 1000) (agent_id a) (Some ''reaped''))) (ret ())))"

definition sup_limits :: "dict \<Rightarrow> exn + int \<times> int" where
  "sup_limits sv = ebind (sup_int sv ''max_restarts'' 3) (\<lambda>r.
     ebind (sup_int sv ''max_seconds'' 60) (\<lambda>s. Inr (r, s)))"

definition supervise_ephemeral ::
    "(rat \<Rightarrow> string) \<Rightarrow> (nat \<Rightarrow> string) \<Rightarrow> usec \<Rightarrow> agent \<Rightarrow> (db, unit) exec" where
  "supervise_ephemeral fl uuid now a =
     bnd (query (find_latest_task_for_agent (agent_id a))) (\<lambda>latest.
     bnd (query (\<lambda>_. supervision_of a)) (\<lambda>s. case s of
       Inl e \<Rightarrow> throw e
     | Inr sv \<Rightarrow>
         (case latest of
            None \<Rightarrow> reclaim_agent fl now a latest
          | Some t \<Rightarrow>
              (if should_restart (restart_policy sv) (task_status t)
               then bnd (query (\<lambda>_. sup_limits sv)) (\<lambda>l. case l of
                      Inl e \<Rightarrow> throw e
                    | Inr limits \<Rightarrow> restart_or_escalate fl uuid now a sv t (fst limits) (snd limits))
               else reclaim_agent fl now a latest))))"

definition reap_ephemeral_agents ::
    "(rat \<Rightarrow> string) \<Rightarrow> (nat \<Rightarrow> string) \<Rightarrow> usec \<Rightarrow> (db, unit) exec" where
  "reap_ephemeral_agents fl uuid now =
     bnd (query (find_reapable_ephemerals 20)) (for_each (supervise_ephemeral fl uuid now))"

section \<open>Bounds on lease recovery\<close>

definition ephemeral_of :: "agent \<Rightarrow> exn + bool" where
  "ephemeral_of a = ebind (supervision_of a) (\<lambda>sv. Inr (otruthy (dget sv ''ephemeral'')))"

definition storm_halt :: "(rat \<Rightarrow> string) \<Rightarrow> usec \<Rightarrow> task \<Rightarrow> agent \<Rightarrow> string \<Rightarrow> (db, unit) exec" where
  "storm_halt fl now t a aid =
     in_transaction
       (seqn (mark_escalated aid now)
       (seqn (step (update_status (now div 1000) (task_id t) TFailed None))
       (seqn (step (agents_archive (now div 1000) aid (Some ''storm_halted'')))
         (insert_supervision_mail fl now a (Some t) Escalation))))"

definition ephemeral_recovery_exceeded ::
    "(rat \<Rightarrow> string) \<Rightarrow> usec \<Rightarrow> task \<Rightarrow> (db, bool) exec" where
  "ephemeral_recovery_exceeded fl now t =
     (case task_agent t of
        None \<Rightarrow> ret False
      | Some aid \<Rightarrow>
          bnd (query (agents_get aid)) (\<lambda>ag. case ag of
            None \<Rightarrow> ret False
          | Some a \<Rightarrow>
              bnd (query (\<lambda>_. ephemeral_of a)) (\<lambda>eph. case eph of
                Inl e \<Rightarrow> throw e
              | Inr b \<Rightarrow>
                  (if \<not> b then ret False
                   else bnd (query (\<lambda>_. ebind (supervision_of a) (\<lambda>sv. ebind (sup_limits sv)
                                 (\<lambda>limits. Inr (sv, limits))))) (\<lambda>l. case l of
                     Inl e \<Rightarrow> throw e
                   | Inr svl \<Rightarrow>
                       bnd (bump_and_check_intensity aid (fst (snd svl)) (snd (snd svl)) now
                              (Some ''lease_expired'') (sup_max_total (fst svl)) True)
                         (\<lambda>in_budget. if in_budget then ret False
                            else seqn (storm_halt fl now t a aid) (ret True)))))))"

section \<open>The notice of a terminated task\<close>

definition task_outcome_urgency :: "task_status \<Rightarrow> urgency" where
  "task_outcome_urgency s = (if s = TFailed then UHigh else UNormal)"

definition goal_preview :: "string \<Rightarrow> string option" where
  "goal_preview goal = (case splitlines (strip goal) of [] \<Rightarrow> None | l # ls \<Rightarrow> Some (utake 80 l))"

definition terminated_key :: "string \<Rightarrow> string" where
  "terminated_key tid = ''task_terminated:'' @ tid"

definition terminated_payload ::
    "task \<Rightarrow> string \<Rightarrow> task_status \<Rightarrow> string option \<Rightarrow> string option \<Rightarrow> string option \<Rightarrow> dict" where
  "terminated_payload t recipient st summary reason transcript =
     (let tag = ''['' @ task_status_str st @ ''] task '' @ utake 8 (task_id t) @
                (case goal_preview (task_goal t) of None \<Rightarrow> [] | Some g \<Rightarrow> '' '' @ em_dash @ '' '' @ g);
          detail = (case present summary of
                      Some s \<Rightarrow> s
                    | None \<Rightarrow> ''reached terminal state: '' @ task_status_str st @ ''.'')
      in [(''recipient'', JStr recipient), (''sender'', JStr ''system:supervisor''),
          (''urgency'', JStr (urgency_str (task_outcome_urgency st))),
          (''body'', JStr (tag @ newline @ newline @ detail)), (''task_id'', JStr (task_id t)),
          (''external_id'', JStr (terminated_key (task_id t))),
          (''metadata'', JObj
             [(''kind'', JStr ''task_terminated''), (''task_id'', JStr (task_id t)),
              (''outcome'', JStr (task_status_str st)), (''failure_reason'', jopt_str reason),
              (''parent_task_id'', jopt_str (task_parent t)),
              (''transcript_uri'', jopt_str transcript)])])"

text \<open>Who is told, if anybody: the suppressions in the order of the code.\<close>

definition terminated_recipient :: "task \<Rightarrow> task_status \<Rightarrow> db \<Rightarrow> exn + string option" where
  "terminated_recipient t st d =
     (if in_flight st then Inr None
      else if not_none (oget (task_meta t) ''fan_in_group'') \<noteq> None then Inr None
      else if otruthy (oget (task_meta t) ''auto_dispatched'') \<and> st \<noteq> TFailed then Inr None
      else if task_parent t = None \<and> st \<noteq> TFailed then Inr None
      else (case (case task_agent t of None \<Rightarrow> None | Some a \<Rightarrow> agents_get a d) of
              None \<Rightarrow> Inr (resolve_terminated_task_supervisor t d)
            | Some a \<Rightarrow> ebind (ephemeral_of a) (\<lambda>eph.
                Inr (if eph then None else resolve_terminated_task_supervisor t d))))"

definition emit_task_terminated_mail ::
    "usec \<Rightarrow> task \<Rightarrow> string \<Rightarrow> task_status \<Rightarrow> string option \<Rightarrow> string option \<Rightarrow> string option
     \<Rightarrow> (db, unit) exec" where
  "emit_task_terminated_mail now t wakeup_id st summary reason transcript =
     bnd (query (terminated_recipient t st)) (\<lambda>r. case r of
       Inl e \<Rightarrow> throw e
     | Inr None \<Rightarrow> ret ()
     | Inr (Some q) \<Rightarrow>
         outbox_enqueue (now div 1000)
           [new_outbox_row (Some (task_id t)) (Some wakeup_id) KMailboxSend
              (terminated_payload t q st summary reason transcript) (terminated_key (task_id t))])"

definition singleton_summary :: "string \<Rightarrow> int \<Rightarrow> string" where
  "singleton_summary aid cap =
     aid @ '' failed its wakeup setup and could not recover after '' @ str_of_int cap @
     '' attempts; not re-run. The agent stays live '' @ em_dash @
     '' your next message will re-wake it.''"

definition give_up_singleton :: "usec \<Rightarrow> int \<Rightarrow> task \<Rightarrow> string \<Rightarrow> (db, unit) exec" where
  "give_up_singleton now cap t aid =
     in_transaction
       (bnd (step (update_status (now div 1000) (task_id t) TFailed None)) (\<lambda>still.
          run_if still
            (seqn (step (close_orphans_for_task (now div 1000) (task_id t) ''abandoned''))
               (emit_task_terminated_mail now t
                  (case task_lease_holder t of None \<Rightarrow> [] | Some h \<Rightarrow> h) TFailed
                  (Some (singleton_summary aid cap)) (Some ''singleton_recovery_exceeded'') None))))"

definition singleton_recovery_exceeded :: "int \<Rightarrow> usec \<Rightarrow> task \<Rightarrow> (db, bool) exec" where
  "singleton_recovery_exceeded cap now t =
     (case task_agent t of
        None \<Rightarrow> ret False
      | Some aid \<Rightarrow>
          (if cap \<le> 0 then ret False
           else bnd (query (agents_get aid)) (\<lambda>ag. case ag of
             None \<Rightarrow> ret False
           | Some a \<Rightarrow>
               (if agent_parent a \<noteq> None then ret False
                else bnd (query (\<lambda>_. ephemeral_of a)) (\<lambda>eph. case eph of
                  Inl e \<Rightarrow> throw e
                | Inr b \<Rightarrow>
                    (if b then ret False
                     else bnd (step (bump_recovery_attempt (now div 1000) (task_id t))) (\<lambda>attempts.
                       if attempts \<le> cap then ret False
                       else seqn (give_up_singleton now cap t aid) (ret True))))))))"

section \<open>The constraints\<close>

lemma keeps_supervision [keeps_intros]:
  "keeps db_ok (insert_supervision_mail fl now a l k)"
  "keeps db_ok (restart_or_escalate fl uuid now a sv t mr ms)"
  "keeps db_ok (reclaim_agent fl now a l)"
  "keeps db_ok (storm_halt fl now t a aid)"
  "keeps db_ok (emit_task_terminated_mail now t w st su re tr)"
  "keeps db_ok (give_up_singleton now cap t aid)"
proof -
  show m: "keeps db_ok (insert_supervision_mail fl now a l k)" for a l k
    unfolding insert_supervision_mail_def by (intro keeps_intros)
  show "keeps db_ok (restart_or_escalate fl uuid now a sv t mr ms)"
    unfolding restart_or_escalate_def by (intro keeps_intros m)
  show "keeps db_ok (reclaim_agent fl now a l)"
    unfolding reclaim_agent_def by (intro keeps_intros m)
  show "keeps db_ok (storm_halt fl now t a aid)"
    unfolding storm_halt_def by (intro keeps_intros m)
  show e: "keeps db_ok (emit_task_terminated_mail now t w st su re tr)" for t w st su re tr
    unfolding emit_task_terminated_mail_def by (intro keeps_intros)
  show "keeps db_ok (give_up_singleton now cap t aid)"
    unfolding give_up_singleton_def by (intro keeps_intros e)
qed

lemma keeps_supervise [keeps_intros]: "keeps db_ok (supervise_ephemeral fl uuid now a)"
  unfolding supervise_ephemeral_def by (intro keeps_intros)

lemma keeps_phase_2_bounds [keeps_intros]:
  "keeps db_ok (reap_ephemeral_agents fl uuid now)"
  "keeps db_ok (ephemeral_recovery_exceeded fl now t)"
  "keeps db_ok (singleton_recovery_exceeded cap now t)"
  unfolding reap_ephemeral_agents_def ephemeral_recovery_exceeded_def singleton_recovery_exceeded_def
  by (intro keeps_intros)+

lemma plain_in_transaction [plain_intros]: "plain m \<Longrightarrow> plain (in_transaction m)"
  by (auto simp: plain_def in_transaction_def split: prod.splits sum.splits) (metis fst_conv)

lemma plain_sup_limits: "plain_err (sup_limits sv)"
  using plain_sup_int [of sv "''max_restarts''" 3] plain_sup_int [of sv "''max_seconds''" 60]
  by (auto simp: sup_limits_def ebind_def plain_err_def split: sum.splits)

lemma plain_ephemeral_of: "plain_err (ephemeral_of a)"
  using plain_supervision_of [of a] by (auto simp: ephemeral_of_def ebind_def plain_err_def split: sum.splits)

lemma plain_intensity [plain_intros]:
  "plain (bump_and_check_intensity aid mr ms now re mt ct)" "plain (mark_escalated aid now)"
  by (auto simp: plain_def bump_and_check_intensity_def mark_escalated_def Let_def split: prod.splits)

lemma plain_insert_supervision_mail [plain_intros]: "plain (insert_supervision_mail fl now a l k)"
  unfolding insert_supervision_mail_def
  by (intro plain_intros plain_query_case plain_supervision_of)

lemma plain_supervise: "plain (supervise_ephemeral fl uuid now a)"
  unfolding supervise_ephemeral_def restart_or_escalate_def reclaim_agent_def
  by (intro plain_intros plain_query_case plain_supervision_of plain_sup_limits)

end
