(* ===== verification/Restart_Limits.thy ===== *)
theory Restart_Limits
  imports Supervision
begin

text \<open>
  What supervision guarantees: the restart gate (\<open>bump_and_check_intensity\<close>) over any
  sequence of restarts, what the reaper does with one agent, and what happens to a bootstrap
  singleton whose recovery keeps failing.
\<close>

section \<open>The restart gate\<close>

text \<open>The verdict of the gate, as a function of the state before.\<close>

definition intensity_ok ::
    "string \<Rightarrow> int \<Rightarrow> int \<Rightarrow> usec \<Rightarrow> int option \<Rightarrow> bool \<Rightarrow> db \<Rightarrow> bool" where
  "intensity_ok aid mr ms now mt ct d =
     (case next_window (supervision_get aid d) now ms ct of
        (count, tot, start) \<Rightarrow>
          count \<le> mr \<and> (case mt of None \<Rightarrow> True | Some m \<Rightarrow> tot \<le> m))"

definition lifetime_total :: "string \<Rightarrow> db \<Rightarrow> int" where
  "lifetime_total aid d = (case supervision_get aid d of None \<Rightarrow> 0 | Some s \<Rightarrow> sv_total s)"

lemma supervision_get_id: "supervision_get aid d = Some s \<Longrightarrow> sv_agent s = aid"
  unfolding supervision_get_def by (drule select_one_Some) simp

lemma select_snoc: "select_one p (xs @ [x]) = (case select_one p xs of
    None \<Rightarrow> if p x then Some x else None | Some y \<Rightarrow> Some y)"
  by (induction xs) (auto simp: select_one_def)

lemma bump_run:
  assumes "aid \<in> set (agent_ids d)"
  obtains sv where "bump_and_check_intensity aid mr ms now re mt ct d
      = (Inr (intensity_ok aid mr ms now mt ct d), d\<lparr>supervision := sv\<rparr>)"
    and "\<exists>x. supervision_get aid (d\<lparr>supervision := sv\<rparr>) = Some x
      \<and> (sv_restarts x, sv_total x, sv_window_start x) = next_window (supervision_get aid d) now ms ct"
    and "\<And>a. a \<noteq> aid \<Longrightarrow> supervision_get a (d\<lparr>supervision := sv\<rparr>) = supervision_get a d"
proof -
  obtain count tot start where w: "next_window (supervision_get aid d) now ms ct = (count, tot, start)"
    by (cases "next_window (supervision_get aid d) now ms ct")
  show thesis
  proof (cases "exists_row (\<lambda>s. sv_agent s = aid) (supervision d)")
    case True
    let ?sv = "update_where (\<lambda>s. sv_agent s = aid)
              (\<lambda>s. s\<lparr>sv_restarts := count, sv_total := tot, sv_window_start := start,
                     sv_last_restart := Some now, sv_last_reason := re\<rparr>) (supervision d)"
    obtain x where x: "select_one (\<lambda>s. sv_agent s = aid) (supervision d) = Some x"
      using True by (cases "select_one (\<lambda>s. sv_agent s = aid) (supervision d)") (auto simp: select_one_None)
    have "sv_agent x = aid" using select_one_Some [OF x] by simp
    show thesis
    proof (rule that [of ?sv])
      show "bump_and_check_intensity aid mr ms now re mt ct d
          = (Inr (intensity_ok aid mr ms now mt ct d), d\<lparr>supervision := ?sv\<rparr>)"
        using True w by (simp add: bump_and_check_intensity_def intensity_ok_def)
      show "\<exists>x. supervision_get aid (d\<lparr>supervision := ?sv\<rparr>) = Some x
          \<and> (sv_restarts x, sv_total x, sv_window_start x) = next_window (supervision_get aid d) now ms ct"
        using x w \<open>sv_agent x = aid\<close>
        by (simp add: supervision_get_def select_one_update_where)
      show "supervision_get a (d\<lparr>supervision := ?sv\<rparr>) = supervision_get a d" if "a \<noteq> aid" for a
      proof -
        have "map_option (\<lambda>r. if sv_agent r = aid then f r else r)
              (select_one (\<lambda>s. sv_agent s = a) (supervision d))
            = select_one (\<lambda>s. sv_agent s = a) (supervision d)" for f
          using that by (cases "select_one (\<lambda>s. sv_agent s = a) (supervision d)")
            (auto dest: select_one_Some)
        then show ?thesis by (simp add: supervision_get_def select_one_update_where)
      qed
    qed
  next
    case False
    let ?x = "\<lparr>sv_agent = aid, sv_restarts = count, sv_total = tot, sv_window_start = start,
                sv_last_restart = Some now, sv_last_reason = re, sv_escalated = None\<rparr>"
    have none: "select_one (\<lambda>s. sv_agent s = aid) (supervision d) = None"
      using False by (simp add: select_one_None)
    show thesis
      by (rule that [of "supervision d @ [?x]"])
        (use False w assms none in \<open>auto simp: bump_and_check_intensity_def intensity_ok_def
          supervision_get_def select_snoc split: option.splits\<close>)
  qed
qed

lemma gate_refuses:
  assumes "aid \<in> set (agent_ids d)" "\<not> intensity_ok aid mr ms now mt ct d"
  obtains sv where "bump_and_check_intensity aid mr ms now re mt ct d = (Inr False, d\<lparr>supervision := sv\<rparr>)"
proof (rule bump_run [OF assms(1), of mr ms now re mt ct])
  fix sv
  assume "bump_and_check_intensity aid mr ms now re mt ct d
      = (Inr (intensity_ok aid mr ms now mt ct d), d\<lparr>supervision := sv\<rparr>)"
  with assms(2) show thesis by (intro that [of sv]) simp
qed

lemma gate_grants:
  assumes "aid \<in> set (agent_ids d)" "intensity_ok aid mr ms now mt ct d"
  obtains sv where "bump_and_check_intensity aid mr ms now re mt ct d = (Inr True, d\<lparr>supervision := sv\<rparr>)"
proof (rule bump_run [OF assms(1), of mr ms now re mt ct])
  fix sv
  assume "bump_and_check_intensity aid mr ms now re mt ct d
      = (Inr (intensity_ok aid mr ms now mt ct d), d\<lparr>supervision := sv\<rparr>)"
  with assms(2) show thesis by (intro that [of sv]) simp
qed

lemma mark_escalated_run:
  assumes "aid \<in> set (agent_ids d)"
  obtains sv where "mark_escalated aid now d = (Inr (), d\<lparr>supervision := sv\<rparr>)"
    and "\<exists>x \<in> set sv. sv_agent x = aid \<and> sv_escalated x = Some now"
proof (cases "exists_row (\<lambda>s. sv_agent s = aid) (supervision d)")
  case True
  then obtain x where x: "x \<in> set (supervision d)" "sv_agent x = aid" by auto
  then have u: "x\<lparr>sv_escalated := Some now\<rparr> \<in> set (update_where (\<lambda>s. sv_agent s = aid)
      (\<lambda>s. s\<lparr>sv_escalated := Some now\<rparr>) (supervision d))"
    by (intro update_where_updated) auto
  show thesis
  proof (rule that)
    show "mark_escalated aid now d = (Inr (), d\<lparr>supervision := update_where (\<lambda>s. sv_agent s = aid)
      (\<lambda>s. s\<lparr>sv_escalated := Some now\<rparr>) (supervision d)\<rparr>)"
      using True by (simp add: mark_escalated_def)
    show "\<exists>y \<in> set (update_where (\<lambda>s. sv_agent s = aid)
      (\<lambda>s. s\<lparr>sv_escalated := Some now\<rparr>) (supervision d)). sv_agent y = aid \<and> sv_escalated y = Some now"
      by (rule bexI [OF _ u]) (simp add: x)
  qed
next
  case False
  with assms show thesis
    by (intro that [of "supervision d @
            [\<lparr>sv_agent = aid, sv_restarts = 0, sv_total = 0, sv_window_start = now,
              sv_last_restart = None, sv_last_reason = None, sv_escalated = Some now\<rparr>]"])
      (auto simp: mark_escalated_def)
qed

text \<open>A sequence of restarts that ask the gate, of this and of other agents, and how many of
  one agent's it grants.\<close>

record gate_call =
  gc_agent :: string
  gc_max :: int
  gc_seconds :: int
  gc_now :: usec
  gc_total :: "int option"
  gc_count :: bool

definition ask :: "gate_call \<Rightarrow> (db, bool) exec" where
  "ask c = bump_and_check_intensity (gc_agent c) (gc_max c) (gc_seconds c) (gc_now c)
             (Some ''failed'') (gc_total c) (gc_count c)"

fun granted :: "string \<Rightarrow> gate_call list \<Rightarrow> db \<Rightarrow> int" where
  "granted aid [] d = 0"
| "granted aid (c # cs) d =
     (case ask c d of (x, d') \<Rightarrow>
        (if gc_agent c = aid \<and> x = Inr True then 1 else 0) + granted aid cs d')"

text \<open>What one call leaves in the row of an agent.\<close>

lemma ask_cases:
  assumes "db_ok d"
  obtains (unknown) e where "ask c d = (Inl e, d)"
  | (run) d' where "ask c d = (Inr (intensity_ok (gc_agent c) (gc_max c) (gc_seconds c) (gc_now c)
        (gc_total c) (gc_count c) d), d')"
      "\<exists>x. supervision_get (gc_agent c) d' = Some x \<and> (sv_restarts x, sv_total x, sv_window_start x)
         = next_window (supervision_get (gc_agent c) d) (gc_now c) (gc_seconds c) (gc_count c)"
      "\<And>a. a \<noteq> gc_agent c \<Longrightarrow> supervision_get a d' = supervision_get a d"
proof (cases "gc_agent c \<in> set (agent_ids d)")
  case True
  obtain sv where sv: "bump_and_check_intensity (gc_agent c) (gc_max c) (gc_seconds c) (gc_now c)
             (Some ''failed'') (gc_total c) (gc_count c) d
      = (Inr (intensity_ok (gc_agent c) (gc_max c) (gc_seconds c) (gc_now c) (gc_total c) (gc_count c) d),
         d\<lparr>supervision := sv\<rparr>)"
    "\<exists>x. supervision_get (gc_agent c) (d\<lparr>supervision := sv\<rparr>) = Some x
      \<and> (sv_restarts x, sv_total x, sv_window_start x)
        = next_window (supervision_get (gc_agent c) d) (gc_now c) (gc_seconds c) (gc_count c)"
    "\<And>a. a \<noteq> gc_agent c \<Longrightarrow> supervision_get a (d\<lparr>supervision := sv\<rparr>) = supervision_get a d"
    by (rule bump_run [OF True, of "gc_max c" "gc_seconds c" "gc_now c" "Some ''failed''" "gc_total c" "gc_count c"]) blast
  show thesis
    by (rule run [of "d\<lparr>supervision := sv\<rparr>"]) (use sv in \<open>auto simp: ask_def\<close>)
next
  case False
  with assms have "\<not> exists_row (\<lambda>s. sv_agent s = gc_agent c) (supervision d)"
    by (auto simp: db_ok_def supervision_ok_def list_all_iff)
  with False show thesis
    by (intro unknown) (auto simp: ask_def bump_and_check_intensity_def split: prod.splits)
qed

lemma keeps_ask: "keeps db_ok (ask c)"
  unfolding ask_def by (intro keeps_intros)

text \<open>The lifetime cap.\<close>

lemma granted_lifetime:
  assumes "db_ok d"
    and "\<forall>c \<in> set cs. gc_agent c = aid \<longrightarrow> gc_total c = Some m \<and> gc_count c"
  shows "granted aid cs d \<le> max 0 (m - lifetime_total aid d)"
  using assms
proof (induction cs arbitrary: d)
  case (Cons c cs)
  have rest: "\<forall>c \<in> set cs. gc_agent c = aid \<longrightarrow> gc_total c = Some m \<and> gc_count c"
    using Cons.prems(2) by simp
  from Cons.prems(1) show ?case
  proof (cases rule: ask_cases [of d c])
    case (unknown e)
    with Cons.IH [OF Cons.prems(1) rest] show ?thesis by simp
  next
    case (run d')
    have ok: "db_ok d'" using keepsD [OF keeps_ask Cons.prems(1), of c] run(1) by simp
    note IH = Cons.IH [OF ok rest]
    show ?thesis
    proof (cases "gc_agent c = aid")
      case False
      then have "lifetime_total aid d' = lifetime_total aid d"
        using run(3) by (simp add: lifetime_total_def)
      with IH False run(1) show ?thesis by simp
    next
      case True
      with Cons.prems(2) have c: "gc_total c = Some m" "gc_count c" by auto
      have "lifetime_total aid d' = lifetime_total aid d + 1"
        using run(2) True c(2)
        by (auto simp: lifetime_total_def next_window_def Let_def split: option.splits if_splits)
      moreover have "intensity_ok (gc_agent c) (gc_max c) (gc_seconds c) (gc_now c) (gc_total c)
          (gc_count c) d \<Longrightarrow> lifetime_total aid d + 1 \<le> m"
        using True c by (auto simp: intensity_ok_def lifetime_total_def next_window_def Let_def
            split: option.splits if_splits)
      ultimately show ?thesis using IH run(1) by auto
    qed
  qed
qed simp

text \<open>The window. Between \<open>lo\<close> and \<open>lo + ms\<close> seconds at most one new window opens.\<close>

definition left_in_window :: "int \<Rightarrow> string \<Rightarrow> db \<Rightarrow> int" where
  "left_in_window mr aid d = (case supervision_get aid d of None \<Rightarrow> mr | Some s \<Rightarrow> max 0 (mr - sv_restarts s))"

definition window_inside :: "usec \<Rightarrow> string \<Rightarrow> db \<Rightarrow> bool" where
  "window_inside lo aid d \<longleftrightarrow> (\<exists>s. supervision_get aid d = Some s \<and> lo \<le> sv_window_start s)"

lemma granted_window:
  assumes "db_ok d" "0 \<le> mr"
    and "\<forall>c \<in> set cs. gc_agent c = aid \<longrightarrow> gc_max c = mr \<and> gc_seconds c = ms
           \<and> lo \<le> gc_now c \<and> gc_now c \<le> lo + ms * 1000000"
  shows "granted aid cs d \<le> left_in_window mr aid d + (if window_inside lo aid d then 0 else mr)"
  using assms(1,3)
proof (induction cs arbitrary: d)
  case Nil
  then show ?case using assms(2) by (auto simp: left_in_window_def split: option.splits)
next
  case (Cons c cs)
  have rest: "\<forall>c \<in> set cs. gc_agent c = aid \<longrightarrow> gc_max c = mr \<and> gc_seconds c = ms
           \<and> lo \<le> gc_now c \<and> gc_now c \<le> lo + ms * 1000000"
    using Cons.prems(2) by simp
  from Cons.prems(1) show ?case
  proof (cases rule: ask_cases [of d c])
    case (unknown e)
    with Cons.IH [OF Cons.prems(1) rest] show ?thesis by simp
  next
    case (run d')
    have ok: "db_ok d'" using keepsD [OF keeps_ask Cons.prems(1), of c] run(1) by simp
    note IH = Cons.IH [OF ok rest]
    show ?thesis
    proof (cases "gc_agent c = aid")
      case False
      then have "supervision_get aid d' = supervision_get aid d" using run(3) by simp
      with IH False run(1) show ?thesis by (simp add: left_in_window_def window_inside_def)
    next
      case True
      with Cons.prems(2) have c: "gc_max c = mr" "gc_seconds c = ms" "lo \<le> gc_now c"
        "gc_now c \<le> lo + ms * 1000000" by auto
      obtain x where x: "supervision_get aid d' = Some x"
        "(sv_restarts x, sv_total x, sv_window_start x)
         = next_window (supervision_get aid d) (gc_now c) ms (gc_count c)"
        using run(2) True c by auto
      let ?ok = "intensity_ok aid mr ms (gc_now c) (gc_total c) (gc_count c) d"
      have g: "granted aid (c # cs) d = (if ?ok then 1 else 0) + granted aid cs d'"
        using run(1) True c by simp
      show ?thesis
        using IH g x c assms(2)
        by (auto simp: intensity_ok_def left_in_window_def window_inside_def next_window_def Let_def
            split: option.splits if_splits)
    qed
  qed
qed

text \<open>C14: Restarts are bounded. Whatever restarts of other agents come between, an agent whose
  failures ask the gate with a lifetime cap \<open>m\<close> is granted at most \<open>m\<close> restarts minus those
  already counted, for ever; and between any time and \<open>max_seconds\<close> later at most
  \<open>2 * max_restarts\<close>. The factor is needed: the window is not a sliding one but opens anew
  when it has passed, so five restarts within sixty seconds pass a limit of three.\<close>

theorem restarts_bounded:
  assumes "db_ok d"
  shows "(\<forall>m (cs :: gate_call list). (\<forall>c \<in> set cs. gc_agent c = aid \<longrightarrow> gc_total c = Some m \<and> gc_count c) \<longrightarrow>
            granted aid cs d \<le> max 0 (m - lifetime_total aid d))
     \<and> (\<forall>mr ms lo (cs :: gate_call list). 0 \<le> mr \<longrightarrow> (\<forall>s. supervision_get aid d = Some s \<longrightarrow> 0 \<le> sv_restarts s) \<longrightarrow>
          (\<forall>c \<in> set cs. gc_agent c = aid \<longrightarrow> gc_max c = mr \<and> gc_seconds c = ms
             \<and> lo \<le> gc_now c \<and> gc_now c \<le> lo + ms * 1000000) \<longrightarrow>
          granted aid cs d \<le> 2 * mr)"
proof (intro conjI allI impI)
  fix m and cs :: "gate_call list"
  assume "\<forall>c \<in> set cs. gc_agent c = aid \<longrightarrow> gc_total c = Some m \<and> gc_count c"
  then show "granted aid cs d \<le> max 0 (m - lifetime_total aid d)"
    by (rule granted_lifetime [OF assms])
next
  fix mr ms lo :: int and cs :: "gate_call list"
  assume mr: "0 \<le> mr" and n: "\<forall>s. supervision_get aid d = Some s \<longrightarrow> 0 \<le> sv_restarts s"
    and cs: "\<forall>c \<in> set cs. gc_agent c = aid \<longrightarrow> gc_max c = mr \<and> gc_seconds c = ms
             \<and> lo \<le> gc_now c \<and> gc_now c \<le> lo + ms * 1000000"
  have "left_in_window mr aid d \<le> mr"
    using n mr by (auto simp: left_in_window_def split: option.splits)
  with granted_window [OF assms mr cs] mr show "granted aid cs d \<le> 2 * mr"
    by (auto split: if_splits)
qed

definition storm :: "int list \<Rightarrow> gate_call list" where
  "storm ts = map (\<lambda>t. \<lparr>gc_agent = ''worker/a'', gc_max = 3, gc_seconds = 60,
     gc_now = t * 1000000, gc_total = Some 10, gc_count = True\<rparr>) ts"

text \<open>A restart at second 0 opens the window; of those between 59 and 119 five pass.\<close>

lemma storm_granted:
  "granted ''worker/a'' (storm [59, 60, 61, 62, 63, 64]) (snd (ask (hd (storm [0])) sample_db)) = 5"
  by (simp add: storm_def ask_def sample_db_def sample_agent_def empty_db_def
      bump_and_check_intensity_def next_window_def supervision_get_def select_one_def Let_def
      agent_ids_def update_where_def)

lemma restarts_bounded_witness:
  "granted ''worker/a'' (storm [0, 10, 20, 30, 40]) sample_db \<le> 10
   \<and> granted ''worker/a'' (storm [0, 10, 20, 30, 40]) sample_db \<le> 6
   \<and> granted ''worker/a'' (storm [59, 60, 61, 62, 63, 64]) (snd (ask (hd (storm [0])) sample_db)) = 5"
proof (intro conjI)
  note b = restarts_bounded [OF sample_db_ok, of "''worker/a''"]
  have n: "supervision_get ''worker/a'' sample_db = None"
    by (simp add: sample_db_def empty_db_def supervision_get_def select_one_def)
  have "granted ''worker/a'' (storm [0, 10, 20, 30, 40]) sample_db
      \<le> max 0 (10 - lifetime_total ''worker/a'' sample_db)"
    by (rule conjunct1 [OF b, rule_format]) (auto simp: storm_def)
  then show "granted ''worker/a'' (storm [0, 10, 20, 30, 40]) sample_db \<le> 10"
    by (simp add: lifetime_total_def n)
  show "granted ''worker/a'' (storm [0, 10, 20, 30, 40]) sample_db \<le> 6"
  proof -
    have "granted ''worker/a'' (storm [0, 10, 20, 30, 40]) sample_db \<le> 2 * 3"
      by (rule conjunct2 [OF b, rule_format, where ms = 60 and lo = 0])
        (auto simp: storm_def n)
    then show ?thesis by simp
  qed
  show "granted ''worker/a'' (storm [59, 60, 61, 62, 63, 64]) (snd (ask (hd (storm [0])) sample_db)) = 5"
    by (rule storm_granted)
qed

section \<open>The reaper and one agent\<close>

definition agent_at :: "string \<Rightarrow> db \<Rightarrow> agent_row option" where
  "agent_at aid d = select_one (\<lambda>r. ar_id r = aid) (agents d)"

text \<open>A mail of the supervisor is in the mailbox of whoever supervises the agent now.\<close>

definition told :: "agent \<Rightarrow> task \<Rightarrow> supervision_kind \<Rightarrow> db \<Rightarrow> bool" where
  "told a t k d \<longleftrightarrow>
     (case resolve_supervisor_for_agent a d of None \<Rightarrow> True
      | Some q \<Rightarrow> has_message q (supervision_key a (Some t) k) d)"

definition archived :: "string \<Rightarrow> db \<Rightarrow> bool" where
  "archived aid d \<longleftrightarrow> (\<exists>x. agent_at aid d = Some x \<and> ar_status x = AArchived)"

lemma supervision_mail_fields [simp]:
  "msg_recipient (supervision_mail fl a sv l k q) = q"
  "msg_external (supervision_mail fl a sv l k q) = supervision_key a l k"
  "msg_task (supervision_mail fl a sv l k q) = None"
  "msg_parent (supervision_mail fl a sv l k q) = None"
  by (simp_all add: supervision_mail_def new_message_def)

lemma resolve_supervisor_agents:
  "agents d' = agents d \<Longrightarrow> resolve_supervisor_for_agent a d' = resolve_supervisor_for_agent a d"
  by (simp add: resolve_supervisor_for_agent_def owner_if_live_def live_agent_def agents_get_def
      split: option.splits)

lemma supervision_mail_run:
  assumes "supervision_of a = Inr sv"
  obtains d' where "insert_supervision_mail fl now a (Some t) k d = (Inr (), d')"
    and "tasks d' = tasks d" "agents d' = agents d" "supervision d' = supervision d"
    and "told a t k d'"
proof (cases "resolve_supervisor_for_agent a d")
  case None
  then show thesis
    by (intro that [of d]) (simp_all add: insert_supervision_mail_def exec_simps told_def)
next
  case (Some q)
  let ?d1 = "ensure_mailbox q d" and ?m = "supervision_mail fl a sv (Some t) k q"
  obtain i d' where i: "insert_message (now div 1000) ?m ?d1 = (Inr i, d')"
    using insert_message_succeeds [of ?m ?d1 "now div 1000"]
    by (cases "insert_message (now div 1000) ?m ?d1") auto
  have d': "d' = snd (insert_message (now div 1000) ?m ?d1)" using i by simp
  have "has_message q (supervision_key a (Some t) k) d'"
    using has_message_after [of "now div 1000" ?m ?d1] i by simp
  moreover have "supervision d' = supervision d"
    unfolding d' by (simp add: insert_message_def Let_def ensure_mailbox_def)
  moreover have "tasks d' = tasks d" "agents d' = agents d" unfolding d' by simp_all
  moreover have "resolve_supervisor_for_agent a d' = Some q"
    using Some resolve_supervisor_agents [of d' d a] \<open>agents d' = agents d\<close> by simp
  ultimately show thesis
    using Some i assms
    by (intro that [of d']) (simp_all add: insert_supervision_mail_def exec_simps told_def)
qed

lemma in_transaction_Inr: "m d = (Inr x, d') \<Longrightarrow> in_transaction m d = (Inr x, d')"
  by (simp add: in_transaction_def)

lemma agents_archive_run:
  assumes "r \<in> set (agents d)" "ar_id r = aid"
  obtains b d' where "agents_archive now aid re d = (b, d')" "tasks d' = tasks d"
    "messages d' = messages d" "supervision d' = supervision d" "archived aid d'"
proof -
  let ?p = "\<lambda>r. ar_id r = aid \<and> ar_status r \<noteq> AArchived"
    and ?f = "\<lambda>r. r\<lparr>ar_status := AArchived, ar_archived := Some (MsZ now), ar_reason := re\<rparr>"
  obtain x where x: "select_one (\<lambda>r. ar_id r = aid) (agents d) = Some x"
    using assms by (cases "select_one (\<lambda>r. ar_id r = aid) (agents d)") (auto simp: select_one_None)
  then have "ar_id x = aid" using select_one_Some by fastforce
  let ?d' = "d\<lparr>agents := update_where ?p ?f (agents d)\<rparr>"
  have "agent_at aid ?d' = Some (if ?p x then ?f x else x)"
    by (simp add: agent_at_def select_one_update_where x)
  then have "archived aid ?d'" using \<open>ar_id x = aid\<close> by (auto simp: archived_def)
  then show thesis
    by (intro that [of "exists_row ?p (agents d)" ?d']) (simp_all add: agents_archive_def upd_agents_def)
qed

text \<open>The mail and the archiving of an agent that is given up, in either order.\<close>

lemma reclaim_run:
  assumes "supervision_of a = Inr sv" "r \<in> set (agents d)" "ar_id r = agent_id a"
  shows "\<exists>d'. reclaim_agent fl now a (Some t) d = (Inr (), d') \<and> tasks d' = tasks d
     \<and> archived (agent_id a) d'
     \<and> (task_status t = TFailed \<longrightarrow> (\<forall>q. resolve_supervisor_for_agent a d = Some q \<longrightarrow>
          has_message q (supervision_key a (Some t) Failure) d'))"
proof (cases "task_status t = TFailed")
  case True
  obtain d1 where d1: "insert_supervision_mail fl now a (Some t) Failure d = (Inr (), d1)"
    "tasks d1 = tasks d" "agents d1 = agents d" "told a t Failure d1"
    using supervision_mail_run [OF assms(1), of fl now t Failure d] by metis
  obtain b d2 where d2: "agents_archive (now div 1000) (agent_id a) (Some ''reaped'') d1 = (b, d2)"
    "tasks d2 = tasks d1" "messages d2 = messages d1" "archived (agent_id a) d2"
    using agents_archive_run [of r d1 "agent_id a" "now div 1000" "Some ''reaped''"] assms(2,3) d1(3)
    by metis
  have "reclaim_agent fl now a (Some t) d = (Inr (), d2)"
    unfolding reclaim_agent_def
    by (rule in_transaction_Inr) (use True d1(1) d2(1) in \<open>simp add: exec_simps latest_outcome_def\<close>)
  moreover have "resolve_supervisor_for_agent a d = Some q \<Longrightarrow>
      has_message q (supervision_key a (Some t) Failure) d2" for q
    using d1(4) resolve_supervisor_agents [OF d1(3), of a] d2(3)
    by (simp add: told_def has_message_def)
  ultimately show ?thesis using d1(2) d2(2,4) by auto
next
  case False
  obtain b d2 where d2: "agents_archive (now div 1000) (agent_id a) (Some ''reaped'') d = (b, d2)"
    "tasks d2 = tasks d" "messages d2 = messages d" "archived (agent_id a) d2"
    using agents_archive_run [OF assms(2,3), of "now div 1000" "Some ''reaped''"] by metis
  have "reclaim_agent fl now a (Some t) d = (Inr (), d2)"
    unfolding reclaim_agent_def
    by (rule in_transaction_Inr) (use False d2(1) in \<open>simp add: exec_simps latest_outcome_def\<close>)
  with d2 False show ?thesis by auto
qed

lemma escalate_run:
  assumes "supervision_of a = Inr sv" "r \<in> set (agents d)" "ar_id r = agent_id a"
    and "\<not> intensity_ok (agent_id a) mr ms now
           (if task_status t = TFailed then sup_max_total sv else None) (task_status t = TFailed) d"
  shows "\<exists>d'. restart_or_escalate fl uuid now a sv t mr ms d = (Inr (), d') \<and> tasks d' = tasks d
     \<and> archived (agent_id a) d' \<and> told a t Escalation d'
     \<and> (\<exists>s \<in> set (supervision d'). sv_agent s = agent_id a \<and> sv_escalated s = Some now)"
proof -
  have known: "agent_id a \<in> set (agent_ids d)" using assms(2,3) by (force simp: agent_ids_def)
  obtain sv1 where b: "bump_and_check_intensity (agent_id a) mr ms now
        (Some (task_status_str (task_status t)))
        (if task_status t = TFailed then sup_max_total sv else None) (task_status t = TFailed) d
      = (Inr False, d\<lparr>supervision := sv1\<rparr>)"
    using assms(4) by (rule gate_refuses [OF known])
  let ?d1 = "d\<lparr>supervision := sv1\<rparr>"
  have "agent_id a \<in> set (agent_ids ?d1)" using known by (simp add: agent_ids_def)
  then obtain sv2 where e: "mark_escalated (agent_id a) now ?d1 = (Inr (), ?d1\<lparr>supervision := sv2\<rparr>)"
    "\<exists>s \<in> set sv2. sv_agent s = agent_id a \<and> sv_escalated s = Some now"
    using mark_escalated_run by metis
  let ?d2 = "?d1\<lparr>supervision := sv2\<rparr>"
  have r2: "r \<in> set (agents ?d2)" using assms(2) by simp
  obtain x d3 where d3: "agents_archive (now div 1000) (agent_id a) (Some ''storm_halted'') ?d2 = (x, d3)"
    "tasks d3 = tasks ?d2" "messages d3 = messages ?d2" "supervision d3 = supervision ?d2"
    "archived (agent_id a) d3"
    by (rule agents_archive_run [OF r2 assms(3)])
  obtain d4 where d4: "insert_supervision_mail fl now a (Some t) Escalation d3 = (Inr (), d4)"
    "tasks d4 = tasks d3" "agents d4 = agents d3" "supervision d4 = supervision d3"
    "told a t Escalation d4"
    using supervision_mail_run [OF assms(1), of fl now t Escalation d3] by metis
  have "restart_or_escalate fl uuid now a sv t mr ms d = (Inr (), d4)"
    unfolding restart_or_escalate_def
    by (rule in_transaction_Inr) (use b e(1) d3(1) d4(1) in \<open>simp add: exec_simps\<close>)
  moreover have "archived (agent_id a) d4" using d3(5) d4(3) by (simp add: archived_def agent_at_def)
  ultimately show ?thesis using e(2) d3(2,4) d4(2,4,5) by simp
qed

lemma restart_run:
  assumes ok: "db_ok d" and r: "agent_at (agent_id a) d = Some r" "agent_id a \<noteq> []"
    and fresh: "uuid (uuids_drawn d) \<notin> set (task_ids d)"
    and t: "fk (task_parent t) (task_ids d)"
    and "intensity_ok (agent_id a) mr ms now
           (if task_status t = TFailed then sup_max_total sv else None) (task_status t = TFailed) d"
  shows "\<exists>d'. restart_or_escalate fl uuid now a sv t mr ms d = (Inr (), d')
     \<and> agents d' = agents d \<and> messages d' = messages d \<and> outbox d' = outbox d
     \<and> tasks d' = tasks d @ [new_task_row (now div 1000) (uuid (uuids_drawn d)) (ar_persona r) (restart_spec a t)]"
proof -
  have known: "agent_id a \<in> set (agent_ids d)"
    using r(1) unfolding agent_at_def agent_ids_def by (auto dest!: select_one_Some intro!: rev_image_eqI)
  obtain sv1 where b: "bump_and_check_intensity (agent_id a) mr ms now
        (Some (task_status_str (task_status t)))
        (if task_status t = TFailed then sup_max_total sv else None) (task_status t = TFailed) d
      = (Inr True, d\<lparr>supervision := sv1\<rparr>)"
    using assms(6) by (rule gate_grants [OF known])
  let ?d1 = "d\<lparr>supervision := sv1\<rparr>"
  have spec: "spec_agent (restart_spec a t) = Some (agent_id a)" "spec_parent (restart_spec a t) = task_parent t"
    by (simp_all add: restart_spec_def new_task_spec_def)
  have c: "tasks_create uuid (now div 1000) (restart_spec a t) ?d1 = (Inr (uuid (uuids_drawn ?d1)),
     ?d1\<lparr>uuids_drawn := Suc (uuids_drawn ?d1), tasks := tasks ?d1 @
       [new_task_row (now div 1000) (uuid (uuids_drawn ?d1)) (ar_persona r) (restart_spec a t)]\<rparr>)"
    by (rule tasks_create_fresh [OF spec(1) r(2)])
      (use r(1) fresh t spec(2) in \<open>simp_all add: agent_at_def task_ids_def\<close>)
  have "restart_or_escalate fl uuid now a sv t mr ms d = (Inr (), ?d1\<lparr>uuids_drawn := Suc (uuids_drawn ?d1), tasks := tasks ?d1 @
       [new_task_row (now div 1000) (uuid (uuids_drawn ?d1)) (ar_persona r) (restart_spec a t)]\<rparr>)"
    unfolding restart_or_escalate_def
    by (rule in_transaction_Inr) (use b c in \<open>simp add: exec_simps\<close>)
  then show ?thesis by simp
qed

lemma latest_task_row:
  assumes "find_latest_task_for_agent aid d = Some t"
  obtains q where "q \<in> set (tasks d)" "t = row_to_task q" "tr_agent q = Some aid"
  using assms unfolding find_latest_task_for_agent_def by (auto dest: select_one_Some)

text \<open>C13: The reaper decides. For an agent without work in flight whose latest task ended as
  \<open>t\<close>: a policy that retries the outcome, with restarts left, appends one pending task of the
  same agent with the same goal, acceptance and parent and touches nothing else; the metadata is
  carried over without the cancel flags, but a git context and a raised turn budget are not. With
  no restart left, or a policy that does not retry, the agent is archived, no task is created, and
  whoever supervises the agent has the mail about it (for a clean end there is none).\<close>

theorem reaper_decides:
  assumes ok: "db_ok d" and r: "agent_at (ar_id r) d = Some r" "ar_id r \<noteq> []" and a: "a = row_to_agent r"
    and t: "find_latest_task_for_agent (ar_id r) d = Some t"
    and sv: "supervision_of a = Inr sv" and lim: "sup_limits sv = Inr (mr, ms)"
    and fresh: "uuid (uuids_drawn d) \<notin> set (task_ids d)"
  shows "\<exists>d'. supervise_ephemeral fl uuid now a d = (Inr (), d') \<and>
     (if should_restart (restart_policy sv) (task_status t) then
        (if intensity_ok (ar_id r) mr ms now
              (if task_status t = TFailed then sup_max_total sv else None) (task_status t = TFailed) d
         then agents d' = agents d \<and> messages d' = messages d \<and> outbox d' = outbox d
           \<and> (\<exists>q. tasks d' = tasks d @ [q] \<and> tr_agent q = Some (ar_id r) \<and> tr_status q = TPending
               \<and> tr_goal q = task_goal t \<and> tr_acceptance q = task_acceptance t
               \<and> tr_parent q = task_parent t \<and> tr_git q = None \<and> tr_tier q = None
               \<and> (\<forall>k. oget (tr_meta q) k =
                    (if k \<in> cancel_metadata_keys then None else oget (task_meta t) k)))
         else tasks d' = tasks d \<and> archived (ar_id r) d' \<and> told a t Escalation d')
      else tasks d' = tasks d \<and> archived (ar_id r) d'
        \<and> (task_status t = TFailed \<longrightarrow> (\<forall>q. resolve_supervisor_for_agent a d = Some q \<longrightarrow>
             has_message q (supervision_key a (Some t) Failure) d')))"
proof -
  have ids: "agent_id a = ar_id r" using a by (simp add: row_to_agent_def)
  have rin: "r \<in> set (agents d)" using r(1) unfolding agent_at_def by (rule conjunct1 [OF select_one_Some])
  have run: "supervise_ephemeral fl uuid now a d =
     (if should_restart (restart_policy sv) (task_status t)
      then restart_or_escalate fl uuid now a sv t mr ms d else reclaim_agent fl now a (Some t) d)"
    using t sv lim ids by (simp add: supervise_ephemeral_def bnd_query)
  have fk: "fk (task_parent t) (task_ids d)"
    by (rule latest_task_row [OF t])
      (use ok in \<open>auto simp: db_ok_defs list_all_iff row_to_task_def\<close>)
  consider (no) "\<not> should_restart (restart_policy sv) (task_status t)"
    | (yes) "should_restart (restart_policy sv) (task_status t)" "intensity_ok (ar_id r) mr ms now
           (if task_status t = TFailed then sup_max_total sv else None) (task_status t = TFailed) d"
    | (over) "should_restart (restart_policy sv) (task_status t)" "\<not> intensity_ok (ar_id r) mr ms now
           (if task_status t = TFailed then sup_max_total sv else None) (task_status t = TFailed) d"
    by blast
  then show ?thesis
  proof cases
    case no
    have "ar_id r = agent_id a" using ids by simp
    from reclaim_run [OF sv rin this, of fl now t] no run ids show ?thesis by simp
  next
    case yes
    have r': "agent_at (agent_id a) d = Some r" "agent_id a \<noteq> []" using r ids by simp_all
    have gate: "intensity_ok (agent_id a) mr ms now
           (if task_status t = TFailed then sup_max_total sv else None) (task_status t = TFailed) d"
      using yes(2) ids by simp
    from restart_run [where uuid = uuid and fl = fl, OF ok r' fresh fk gate]
    obtain d' where d': "restart_or_escalate fl uuid now a sv t mr ms d = (Inr (), d')"
      "agents d' = agents d" "messages d' = messages d" "outbox d' = outbox d"
      "tasks d' = tasks d @ [new_task_row (now div 1000) (uuid (uuids_drawn d)) (ar_persona r) (restart_spec a t)]"
      by blast
    show ?thesis
      using yes d' run ids
      by (intro exI [of _ d'])
        (simp add: new_task_row_def restart_spec_def new_task_spec_def metadata_not_cancelled)
  next
    case over
    have "ar_id r = agent_id a" using ids by simp
    have gate: "\<not> intensity_ok (agent_id a) mr ms now
           (if task_status t = TFailed then sup_max_total sv else None) (task_status t = TFailed) d"
      using over(2) ids by simp
    from escalate_run [OF sv rin \<open>ar_id r = agent_id a\<close> gate, of fl uuid]
    obtain d' where "restart_or_escalate fl uuid now a sv t mr ms d = (Inr (), d')"
      "tasks d' = tasks d" "archived (agent_id a) d'" "told a t Escalation d'"
      by blast
    then show ?thesis using over run ids by (intro exI [of _ d']) simp
  qed
qed

definition flaky_agent :: agent_row where
  "flaky_agent = sample_agent ''worker/a'' (Some ''dispatcher'') (Some
     [(''supervision'', JObj [(''ephemeral'', JBool True), (''restart'', JStr ''transient'')])])"

definition flaky_db :: db where
  "flaky_db = sample_db
     \<lparr>agents := [sample_agent ''dispatcher'' None None, flaky_agent],
      tasks := [(sample_task ''t1'' ''worker/a'' None)\<lparr>tr_status := TFailed\<rparr>]\<rparr>"

lemma flaky_facts:
  "db_ok flaky_db" "agent_at (ar_id flaky_agent) flaky_db = Some flaky_agent" "ar_id flaky_agent = ''worker/a''"
  "find_latest_task_for_agent (ar_id flaky_agent) flaky_db
     = Some (row_to_task ((sample_task ''t1'' ''worker/a'' None)\<lparr>tr_status := TFailed\<rparr>))"
  "supervision_of (row_to_agent flaky_agent) = Inr [(''ephemeral'', JBool True), (''restart'', JStr ''transient'')]"
  "sup_limits [(''ephemeral'', JBool True), (''restart'', JStr ''transient'')] = Inr (3, 60)"
  "sample_uuid (uuids_drawn flaky_db) \<notin> set (task_ids flaky_db)"
  by (simp_all add: flaky_db_def flaky_agent_def sample_db_def empty_db_def db_ok_defs key_defs
      sample_agent_def sample_task_def agent_at_def select_one_def find_latest_task_for_agent_def
      supervision_of_def row_to_agent_def sup_limits_def ebind_def sup_int_def sample_uuid_def)

lemma reaper_decides_witness:
  "\<exists>d' q. supervise_ephemeral (\<lambda>_. []) sample_uuid 0 (row_to_agent flaky_agent) flaky_db = (Inr (), d')
     \<and> tasks d' = tasks flaky_db @ [q] \<and> tr_goal q = ''go'' \<and> tr_status q = TPending"
proof -
  have "ar_id flaky_agent \<noteq> []" using flaky_facts(3) by simp
  from reaper_decides [OF flaky_facts(1,2) this refl flaky_facts(4,5,6), where uuid = sample_uuid
      and fl = "\<lambda>_. []" and now = 0] flaky_facts(7)
  show ?thesis
    by (simp add: restart_policy_def should_restart_def row_to_task_def sample_task_def
        intensity_ok_def next_window_def flaky_facts(3) flaky_db_def sample_db_def empty_db_def
        supervision_get_def select_one_def sup_max_total_def sup_int_def Let_def) blast
qed

text \<open>A restarted leg is already counted dead. A fan-in leg names the task it was
  dispatched with. When that task fails and the reaper restarts the leg's agent, the new task is
  pending under the same agent, but the barrier still looks at the failed one: its next
  reconciliation delivers the sentinel result of a failed leg while the retry is under way.\<close>

theorem restarted_leg_counted_dead:
  assumes ok: "db_ok d" and r: "agent_at (ar_id r) d = Some r" "ar_id r \<noteq> []" and a: "a = row_to_agent r"
    and t: "find_latest_task_for_agent (ar_id r) d = Some t" "task_status t = TFailed"
    and sv: "supervision_of a = Inr sv" and lim: "sup_limits sv = Inr (mr, ms)"
    and fresh: "uuid (uuids_drawn d) \<notin> set (task_ids d)"
    and restart: "should_restart (restart_policy sv) TFailed"
      "intensity_ok (ar_id r) mr ms now (sup_max_total sv) True d"
    and leg: "gr \<in> set (groups d)" "g = row_to_group gr" "fm_child_task m = task_id t"
      "\<not> has_pending_fan_in_result (task_id t) (grp_id g) (fm_leg_key m) d" "fm_leg_key m \<notin> H"
  shows "\<exists>d' q d''. supervise_ephemeral fl uuid now a d = (Inr (), d')
     \<and> q \<in> set (tasks d') \<and> tr_agent q = Some (ar_id r) \<and> tr_status q = TPending
     \<and> reconcile_leg now' g H m d' = (Inr (), d'')
     \<and> has_message (grp_coordinator g) (failed_leg_key (grp_id g) (fm_leg_key m)) d''"
proof -
  have ids: "agent_id a = ar_id r" using a by (simp add: row_to_agent_def)
  have r': "agent_at (agent_id a) d = Some r" "agent_id a \<noteq> []" using r ids by simp_all
  obtain q0 where q0: "q0 \<in> set (tasks d)" "t = row_to_task q0" "tr_agent q0 = Some (ar_id r)"
    by (rule latest_task_row [OF t(1)])
  have fk: "fk (task_parent t) (task_ids d)"
    using ok q0 by (auto simp: db_ok_defs list_all_iff row_to_task_def)
  have gate: "intensity_ok (agent_id a) mr ms now
           (if task_status t = TFailed then sup_max_total sv else None) (task_status t = TFailed) d"
    using restart(2) t(2) ids by simp
  let ?q = "new_task_row (now div 1000) (uuid (uuids_drawn d)) (ar_persona r) (restart_spec a t)"
  from restart_run [where uuid = uuid and fl = fl, OF ok r' fresh fk gate]
  obtain d' where d': "restart_or_escalate fl uuid now a sv t mr ms d = (Inr (), d')"
    "agents d' = agents d" "messages d' = messages d" "outbox d' = outbox d" "tasks d' = tasks d @ [?q]"
    by blast
  have run: "supervise_ephemeral fl uuid now a d = (Inr (), d')"
    using t sv lim ids restart(1) d'(1) by (simp add: supervise_ephemeral_def bnd_query)
  have "tasks_get (task_id t) d = Some t"
    using the_row_unique [OF ok q0(1)] q0(2) by (simp add: tasks_get_row row_to_task_def)
  then have "tasks_get (task_id t) d' = Some t"
    by (auto simp: tasks_get_def d'(5) select_snoc split: option.splits)
  then have dead: "dead_leg g m d' = Some TFailed"
    using leg(3,4) t(2) d'(4) by (simp add: dead_leg_def has_pending_fan_in_result_def)
  have "fk (gr_parent_task gr) (task_ids d)" using ok leg(1) by (auto simp: db_ok_defs list_all_iff)
  then have fk': "fk (grp_parent_task g) (task_ids d')"
    using leg(2) fk_mono [of "gr_parent_task gr" "task_ids d" "task_ids d'"] d'(5)
    by (auto simp: row_to_group_def task_ids_def)
  let ?m = "failed_leg_mail g m TFailed" and ?d1 = "ensure_mailbox (grp_coordinator g) d'"
  obtain i d'' where i: "insert_message (now' div 1000) ?m ?d1 = (Inr i, d'')"
    using insert_message_succeeds [of ?m ?d1 "now' div 1000"] fk'
    by (cases "insert_message (now' div 1000) ?m ?d1") auto
  have "has_message (grp_coordinator g) (failed_leg_key (grp_id g) (fm_leg_key m)) d''"
    using has_message_after [of "now' div 1000" ?m ?d1] i by simp
  moreover have "reconcile_leg now' g H m d' = (Inr (), d'')"
    using dead i leg(5) by (simp add: reconcile_leg_def exec_simps)
  moreover have "?q \<in> set (tasks d')" "tr_agent ?q = Some (ar_id r)" "tr_status ?q = TPending"
    using d'(5) ids by (simp_all add: new_task_row_def restart_spec_def new_task_spec_def)
  ultimately show ?thesis using run by blast
qed

definition flaky_group :: group_row where
  "flaky_group =
     \<lparr>gr_id = ''g'', gr_coordinator = ''dispatcher'', gr_parent_task = None, gr_expect = 1,
      gr_quorum = 1, gr_schema = [], gr_budget = None, gr_dry_round = 0, gr_deadline = 0,
      gr_status = GOpen, gr_created = MsZ 0, gr_resolved = None\<rparr>"

lemma restarted_leg_counted_dead_witness:
  "\<exists>d' q d''. supervise_ephemeral (\<lambda>_. []) sample_uuid 0 (row_to_agent flaky_agent)
         (flaky_db\<lparr>groups := [flaky_group]\<rparr>) = (Inr (), d')
     \<and> q \<in> set (tasks d') \<and> tr_status q = TPending
     \<and> has_message ''dispatcher'' (failed_leg_key ''g'' 0) d''"
proof -
  let ?d = "flaky_db\<lparr>groups := [flaky_group]\<rparr>"
  let ?t = "row_to_task ((sample_task ''t1'' ''worker/a'' None)\<lparr>tr_status := TFailed\<rparr>)"
  let ?m = "\<lparr>fm_group = ''g'', fm_leg_key = 0, fm_child_task = ''t1'', fm_child_agent = ''worker/a''\<rparr>"
  have f: "db_ok ?d" "agent_at (ar_id flaky_agent) ?d = Some flaky_agent" "ar_id flaky_agent \<noteq> []"
    "find_latest_task_for_agent (ar_id flaky_agent) ?d = Some ?t" "task_status ?t = TFailed"
    "sample_uuid (uuids_drawn ?d) \<notin> set (task_ids ?d)"
    "should_restart (restart_policy [(''ephemeral'', JBool True), (''restart'', JStr ''transient'')]) TFailed"
    "intensity_ok (ar_id flaky_agent) 3 60 0
       (sup_max_total [(''ephemeral'', JBool True), (''restart'', JStr ''transient'')]) True ?d"
    "flaky_group \<in> set (groups ?d)" "fm_child_task ?m = task_id ?t"
    "\<not> has_pending_fan_in_result (task_id ?t) (grp_id (row_to_group flaky_group)) (fm_leg_key ?m) ?d"
    "fm_leg_key ?m \<notin> {}"
    by (simp_all add: flaky_db_def flaky_agent_def flaky_group_def sample_db_def empty_db_def db_ok_defs key_defs
      sample_agent_def sample_task_def agent_at_def select_one_def find_latest_task_for_agent_def
      row_to_task_def sample_uuid_def should_restart_def restart_policy_def intensity_ok_def
      next_window_def supervision_get_def sup_max_total_def sup_int_def has_pending_fan_in_result_def)
  from restarted_leg_counted_dead [where uuid = sample_uuid and fl = "\<lambda>_. []" and now' = 0 and H = "{}",
      OF f(1-3) refl f(4,5) flaky_facts(5,6) f(6-9) refl f(10-12)]
  show ?thesis by (simp add: row_to_group_def flaky_group_def) blast
qed

section \<open>A singleton that cannot be recovered\<close>

lemma bump_run_row:
  assumes "the_row d tid = Some q"
  shows "bump_recovery_attempt now tid d
    = (recovery_attempts (bump_row now q), d\<lparr>tasks := update_where (\<lambda>r. tr_id r = tid) (bump_row now) (tasks d)\<rparr>)"
    and "the_row (d\<lparr>tasks := update_where (\<lambda>r. tr_id r = tid) (bump_row now) (tasks d)\<rparr>) tid
      = Some (bump_row now q)"
proof -
  have q: "tr_id q = tid" using the_row_id [OF assms] by simp
  have "tr_id (bump_row now r) = tr_id r" for r by (simp add: bump_row_def)
  then show "the_row (d\<lparr>tasks := update_where (\<lambda>r. tr_id r = tid) (bump_row now) (tasks d)\<rparr>) tid
      = Some (bump_row now q)"
    using assms q by (simp add: the_row_def select_one_update_where)
  then show "bump_recovery_attempt now tid d
    = (recovery_attempts (bump_row now q), d\<lparr>tasks := update_where (\<lambda>r. tr_id r = tid) (bump_row now) (tasks d)\<rparr>)"
    by (simp add: bump_recovery_attempt_def Let_def the_row_def)
qed

text \<open>The counter as the code has written it: absent, or an integer.\<close>

definition counted :: "task_row \<Rightarrow> int \<Rightarrow> bool" where
  "counted q n \<longleftrightarrow>
     json_extract (tr_meta q) [''_recovery_attempts''] = (if n = 0 then SqlNull else SqlInt n)"

lemma counted_bump:
  "counted q n \<Longrightarrow> 0 \<le> n \<Longrightarrow> counted (bump_row now q) (n + 1) \<and> recovery_attempts (bump_row now q) = n + 1"
  by (auto simp: counted_def bump_row_def recovery_attempts_def sql_succ_def)

definition no_open_wakeup :: "string \<Rightarrow> db \<Rightarrow> bool" where
  "no_open_wakeup tid d \<longleftrightarrow> (\<forall>w \<in> set (wakeups d). wr_task w = tid \<longrightarrow> wr_ended w \<noteq> None)"

definition queued_for_owner :: "string \<Rightarrow> db \<Rightarrow> bool" where
  "queued_for_owner tid d \<longleftrightarrow>
     (\<exists>x \<in> set (outbox d). xr_kind x = KMailboxSend \<and> xr_external x = terminated_key tid
        \<and> xr_dispatched x = None \<and> dget (xr_payload x) ''recipient'' = Some (JStr ''owner'')
        \<and> dget (xr_payload x) ''urgency'' = Some (JStr ''high''))"

lemma give_up_run:
  assumes q: "the_row d (task_id t) = Some q"
    and top: "task_parent t = None" "not_none (oget (task_meta t) ''fan_in_group'') = None"
      "task_agent t = Some aid" "agents_get aid d = Some a" "ephemeral_of a = Inr False"
    and owner: "owner_if_live d = Some ''owner''"
    and holder: "task_lease_holder t = Some h" "h \<in> set (wakeup_ids d)"
    and new: "\<not> has_outbox KMailboxSend (terminated_key (task_id t)) d"
  shows "\<exists>d'. give_up_singleton now cap t aid d = (Inr (), d') \<and> agents d' = agents d
     \<and> (\<exists>q'. the_row d' (task_id t) = Some q' \<and> tr_status q' = TFailed)
     \<and> no_open_wakeup (task_id t) d' \<and> queued_for_owner (task_id t) d'"
proof -
  let ?t = "now div 1000" and ?tid = "task_id t"
  obtain b d1 where d1: "update_status ?t ?tid TFailed None d = (b, d1)"
    by (cases "update_status ?t ?tid TFailed None d")
  have b using d1 the_row_id [OF q] by (auto simp: update_status_def upd_tasks_def)
  have d1': "d1 = snd (update_status ?t ?tid TFailed None d)" using d1 by simp
  have tab1: "agents d1 = agents d" "outbox d1 = outbox d" "wakeups d1 = wakeups d"
    unfolding d1' by (simp_all add: update_status_def upd_tasks_def)
  have row1: "\<exists>q'. the_row d1 ?tid = Some q' \<and> tr_status q' = TFailed"
    unfolding d1' update_status_def using the_row_id [OF q] q
    by (simp add: the_row_upd)
  obtain n d2 where d2: "close_orphans_for_task ?t ?tid ''abandoned'' d1 = (n, d2)"
    by (cases "close_orphans_for_task ?t ?tid ''abandoned'' d1")
  have d2': "d2 = snd (close_orphans_for_task ?t ?tid ''abandoned'' d1)" using d2 by simp
  have tab2: "agents d2 = agents d1" "outbox d2 = outbox d1" "tasks d2 = tasks d1" "wakeup_ids d2 = wakeup_ids d1"
    unfolding d2' by (simp_all add: close_orphans_for_task_def upd_wakeups_def wakeup_ids_def row_simps)
  have closed: "no_open_wakeup ?tid d2"
    unfolding no_open_wakeup_def d2' using close_orphans_closes by blast
  have "owner_if_live d2 = Some ''owner''" "agents_get aid d2 = Some a"
    using owner top(4) tab1(1) tab2(1) by (simp_all add: owner_if_live_def live_agent_def agents_get_def)
  then have rec: "terminated_recipient t TFailed d2 = Inr (Some ''owner'')"
    using top by (simp add: terminated_recipient_def ebind_def resolve_terminated_task_supervisor_def
        present_def)
  let ?row = "new_outbox_row (Some ?tid) (Some h) KMailboxSend (terminated_payload t ''owner'' TFailed
     (Some (singleton_summary aid cap)) (Some ''singleton_recovery_exceeded'') None) (terminated_key ?tid)"
  have "\<not> has_outbox KMailboxSend (terminated_key ?tid) d2"
    using new tab1(2) tab2(2) by (simp add: has_outbox_def)
  moreover have "?tid \<in> set (task_ids d2)"
    using row1 tab2(3) the_row_id [of d1 ?tid] by (force simp: task_ids_def)
  moreover have "h \<in> set (wakeup_ids d2)" using holder(2) tab1(3) tab2(4) by (simp add: wakeup_ids_def)
  ultimately obtain d3 where d3: "outbox_enqueue ?t [?row] d2 = (Inr (), d3)"
    "agents d3 = agents d2" "tasks d3 = tasks d2" "wakeups d3 = wakeups d2"
    "outbox d3 = outbox d2 @ [outbox_rec_of ?t (outbox_seq d2 + 1) ?row]"
    by (simp add: outbox_enqueue_def enqueue_one_def Let_def new_outbox_row_def exec_simps)
  have "queued_for_owner ?tid d3"
    unfolding queued_for_owner_def d3(5)
    by (rule bexI [of _ "outbox_rec_of ?t (outbox_seq d2 + 1) ?row"])
      (simp_all add: new_outbox_row_def terminated_payload_def task_outcome_urgency_def Let_def)
  moreover have "give_up_singleton now cap t aid d = (Inr (), d3)"
    unfolding give_up_singleton_def emit_task_terminated_mail_def
    by (rule in_transaction_Inr) (use d1 \<open>b\<close> d2 rec d3(1) holder(1) in \<open>simp add: exec_simps\<close>)
  moreover have "no_open_wakeup ?tid d3" using closed d3(4) by (simp add: no_open_wakeup_def)
  moreover have "\<exists>q'. the_row d3 ?tid = Some q' \<and> tr_status q' = TFailed"
    using row1 tab2(3) d3(3) by (simp add: the_row_def)
  ultimately show ?thesis using tab1(1) tab2(1) d3(2) by auto
qed

text \<open>The owner's entry point never loops silently and never goes away. A top-level task of
  a bootstrap singleton whose lease has expired \<open>n\<close> times is recovered as long as \<open>n\<close> is below
  the cap, and only counted; the next time it is failed, its open wakeups are closed and a mail of
  high urgency to the owner is in the outbox. The agent's row is not touched either way.\<close>

theorem singleton_recovery_bounded:
  assumes q: "the_row d (task_id t) = Some q" "counted q n" "0 \<le> n"
    and cap: "0 < cap"
    and top: "task_parent t = None" "not_none (oget (task_meta t) ''fan_in_group'') = None"
      "task_agent t = Some aid" "agents_get aid d = Some a" "agent_parent a = None"
      "ephemeral_of a = Inr False"
    and owner: "owner_if_live d = Some ''owner''"
    and holder: "task_lease_holder t = Some h" "h \<in> set (wakeup_ids d)"
    and new: "\<not> has_outbox KMailboxSend (terminated_key (task_id t)) d"
  shows "\<exists>d'. singleton_recovery_exceeded cap now t d = (Inr (cap \<le> n), d') \<and> agents d' = agents d
     \<and> (if n < cap
        then \<exists>q'. the_row d' (task_id t) = Some q' \<and> counted q' (n + 1) \<and> tr_status q' = tr_status q
          \<and> outbox d' = outbox d \<and> wakeups d' = wakeups d
        else (\<exists>q'. the_row d' (task_id t) = Some q' \<and> tr_status q' = TFailed)
          \<and> no_open_wakeup (task_id t) d' \<and> queued_for_owner (task_id t) d')"
proof -
  let ?tid = "task_id t" and ?t = "now div 1000"
  let ?d1 = "d\<lparr>tasks := update_where (\<lambda>r. tr_id r = ?tid) (bump_row ?t) (tasks d)\<rparr>"
  note c = counted_bump [OF q(2,3), of ?t]
  have bump: "bump_recovery_attempt ?t ?tid d = (n + 1, ?d1)"
    using bump_run_row(1) [OF q(1), of ?t] c by simp
  have row: "the_row ?d1 ?tid = Some (bump_row ?t q)" by (rule bump_run_row(2) [OF q(1)])
  have run: "singleton_recovery_exceeded cap now t d =
      (if n + 1 \<le> cap then (Inr False, ?d1) else seqn (give_up_singleton now cap t aid) (ret True) ?d1)"
    using cap top(3-6) bump by (simp add: singleton_recovery_exceeded_def exec_simps)
  show ?thesis
  proof (cases "n < cap")
    case True
    with run row c show ?thesis by (simp add: bump_row_def)
  next
    case False
    have "agents_get aid ?d1 = Some a" "owner_if_live ?d1 = Some ''owner''" "h \<in> set (wakeup_ids ?d1)"
      "\<not> has_outbox KMailboxSend (terminated_key ?tid) ?d1"
      using top(4) owner holder(2) new
      by (simp_all add: agents_get_def owner_if_live_def live_agent_def wakeup_ids_def has_outbox_def)
    from give_up_run [OF row top(1,2,3) this(1) top(6) this(2) holder(1) this(3,4), of now cap]
    obtain d' where "give_up_singleton now cap t aid ?d1 = (Inr (), d')" "agents d' = agents ?d1"
      "\<exists>q'. the_row d' ?tid = Some q' \<and> tr_status q' = TFailed"
      "no_open_wakeup ?tid d'" "queued_for_owner ?tid d'" by blast
    with run False show ?thesis by (simp add: exec_simps)
  qed
qed

definition stuck_task :: task_row where
  "stuck_task = (sample_task ''t1'' ''dispatcher'' (Some [(''_recovery_attempts'', JInt 3)]))
     \<lparr>tr_status := TInProgress, tr_lease_holder := Some ''w1'', tr_lease_until := Some (MsZ 0)\<rparr>"

definition stuck_db :: db where
  "stuck_db = sample_db
     \<lparr>agents := [sample_agent ''owner'' None None, sample_agent ''dispatcher'' None None],
      tasks := [stuck_task],
      wakeups := [new_wakeup_row 0 ''w1'' ''t1'' ''worker'' (Some ''dispatcher'')]\<rparr>"

lemma singleton_recovery_bounded_witness:
  "\<exists>d'. singleton_recovery_exceeded 3 0 (row_to_task stuck_task) stuck_db = (Inr True, d')
     \<and> queued_for_owner ''t1'' d' \<and> no_open_wakeup ''t1'' d'"
proof -
  let ?t = "row_to_task stuck_task"
  have f: "the_row stuck_db (task_id ?t) = Some stuck_task" "counted stuck_task 3" "0 \<le> (3 :: int)"
    "0 < (3 :: int)" "task_parent ?t = None" "not_none (oget (task_meta ?t) ''fan_in_group'') = None"
    "task_agent ?t = Some ''dispatcher''"
    "agents_get ''dispatcher'' stuck_db = Some (row_to_agent (sample_agent ''dispatcher'' None None))"
    "agent_parent (row_to_agent (sample_agent ''dispatcher'' None None)) = None"
    "ephemeral_of (row_to_agent (sample_agent ''dispatcher'' None None)) = Inr False"
    "owner_if_live stuck_db = Some ''owner''" "task_lease_holder ?t = Some ''w1''"
    "''w1'' \<in> set (wakeup_ids stuck_db)" "\<not> has_outbox KMailboxSend (terminated_key (task_id ?t)) stuck_db"
    by (simp_all add: stuck_db_def stuck_task_def sample_db_def empty_db_def sample_task_def the_row_def
        select_one_def row_to_task_def counted_def json_extract_def not_none_def agents_get_def
        sample_agent_def row_to_agent_def ephemeral_of_def supervision_of_def ebind_def otruthy_def
        owner_if_live_def live_agent_def wakeup_ids_def new_wakeup_row_def has_outbox_def)
  from singleton_recovery_bounded [OF f, of 0]
  show ?thesis by (simp add: row_to_task_def stuck_task_def sample_task_def) blast
qed

end
