(* ===== verification/Wakeup_Run.thy ===== *)
theory Wakeup_Run
  imports Restart_Limits
begin

text \<open>
  One wakeup of one task, \<open>Scheduler._run_task_inline\<close>: the sweep of the wakeups a dead
  process left, the claim, the set-up, the run, the commit of its outcome, and the cleanup. It is
  what the subprocess \<open>lyre run-task\<close> executes, too.

  The parts that are not the scheduler's are fields of \<open>wakeup_env\<close>: the personas, the
  worktree and git provisioning, the start of the mail watcher, what is prepared for the run
  (preference, candidates, prompts), and the run of the agent loop between its two kill points,
  which may write to the database and ends with a result, an exception, or a cancellation of the
  asyncio task (the process is told to stop).
\<close>

section \<open>What a run yields\<close>

record loop_result =
  lr_status :: string
  lr_text :: string
  lr_input_tokens :: "int option"
  lr_output_tokens :: "int option"
  lr_wall_clock_ms :: int
  lr_tool_calls :: int
  lr_model :: "string option"
  lr_context_peak :: int
  lr_compactions :: int
  lr_degraded :: int

datatype run_outcome = Ran loop_result | Raised exn | Cancelled

record wakeup_env =
  we_persona :: "string \<Rightarrow> string option"
  we_worktree :: "string \<Rightarrow> exn option"
  we_git :: "string \<Rightarrow> git_context \<Rightarrow> exn option"
  we_watcher :: "exn option"
  we_prepare :: "task \<Rightarrow> db \<Rightarrow> exn option"
  we_loop :: "string \<Rightarrow> task \<Rightarrow> db \<Rightarrow> run_outcome \<times> db"
  we_transcript :: "string \<Rightarrow> string"
  we_provider :: "string \<Rightarrow> string option"

definition task_status_of_str :: "string \<Rightarrow> task_status option" where
  "task_status_of_str s =
     List.find (\<lambda>t. task_status_str t = s)
       [TPending, TInProgress, TNeedsInput, TCompleted, TFailed, TCancelled]"

section \<open>The claim\<close>

definition lease_unclaimed :: exn where "lease_unclaimed = Exn ''_LeaseUnclaimed'' []"

definition claim_wakeup ::
    "(nat \<Rightarrow> string) \<Rightarrow> int \<Rightarrow> task \<Rightarrow> string \<Rightarrow> string option \<Rightarrow> (db, string) exec" where
  "claim_wakeup uuid now t persona aid =
     in_transaction
       (bnd (wakeups_start uuid now (task_id t) persona aid) (\<lambda>wid.
        bnd (step (claim_lease now (task_id t) wid (task_lease_duration t))) (\<lambda>claimed.
          if claimed then ret wid else throw lease_unclaimed)))"

section \<open>The typed result of a fan-in leg\<close>

text \<open>Groups have text identifiers and legs integer keys; metadata that holds a value of
  another type there names no group.\<close>

definition fan_in_leg_submitted_result :: "task \<Rightarrow> string \<Rightarrow> db \<Rightarrow> exn + bool option" where
  "fan_in_leg_submitted_result t tid d =
     (case (oget (task_meta t) ''fan_in_group'', oget (task_meta t) ''leg_key'') of
        (Some (JStr gid), Some (JInt leg)) \<Rightarrow>
          (if has_pending_fan_in_result tid gid leg d then Inr (Some True)
           else (case group_get gid d of
             None \<Rightarrow> Inr None
           | Some g \<Rightarrow>
               (if grp_status g = GCancelled then Inr None
                else if \<not> live_agent (grp_coordinator g) d then Inr None
                else ebind (read_fan_in_results (grp_coordinator g) gid d)
                       (\<lambda>rs. Inr (Some (leg \<in> fr_leg_key ` set rs))))))
      | _ \<Rightarrow> Inr None)"

section \<open>The commit of the outcome\<close>

definition result_metering :: "wakeup_env \<Rightarrow> loop_result \<Rightarrow> metering" where
  "result_metering env r =
     \<lparr>me_token_input = lr_input_tokens r, me_token_output = lr_output_tokens r,
      me_wall_clock = Some (lr_wall_clock_ms r), me_tool_calls = Some (lr_tool_calls r),
      me_provider = (case present (lr_model r) of None \<Rightarrow> None | Some m \<Rightarrow> we_provider env m),
      me_model = lr_model r, me_peak = Some (lr_context_peak r),
      me_compactions = Some (lr_compactions r), me_degraded = Some (lr_degraded r)\<rparr>"

definition result_summary :: "string \<Rightarrow> string option" where
  "result_summary text = (let s = utake 500 (strip text) in if s = [] then None else Some s)"

definition commit_result ::
    "wakeup_env \<Rightarrow> usec \<Rightarrow> task \<Rightarrow> string \<Rightarrow> loop_result \<Rightarrow> task_status \<Rightarrow> (db, unit) exec" where
  "commit_result env now t wid r st =
     in_transaction
       (seqn (upd (wakeups_end (now div 1000) wid (lr_status r) (result_metering env r) None))
         (bnd (step (update_status (now div 1000) (task_id t) st (Some wid))) (\<lambda>still.
            run_if still (emit_task_terminated_mail now t wid st (result_summary (lr_text r))
              (if st = TFailed then Some (lr_status r) else None) (Some (we_transcript env wid))))))"

definition failure_report :: "exn \<Rightarrow> dict" where
  "failure_report e = [(''error'', JStr (exn_msg e)), (''type'', JStr (exn_type e))]"

text \<open>The task may have disappeared; then there is nobody to notify about.\<close>

definition commit_failure ::
    "wakeup_env \<Rightarrow> usec \<Rightarrow> string \<Rightarrow> task option \<Rightarrow> string \<Rightarrow> exn \<Rightarrow> (db, unit) exec" where
  "commit_failure env now tid to wid e =
     in_transaction
       (seqn (upd (wakeups_end (now div 1000) wid ''failed'' no_metering (Some (failure_report e))))
         (bnd (step (update_status (now div 1000) tid TFailed (Some wid))) (\<lambda>still.
            run_if still (case to of
              None \<Rightarrow> ret ()
            | Some t \<Rightarrow> emit_task_terminated_mail now t wid TFailed
                (Some (utake 500 (exn_type e @ '': '' @ exn_msg e))) (Some (exn_type e))
                (Some (we_transcript env wid))))))"

definition check_failed :: exn where
  "check_failed = Exn ''IntegrityError'' ''CHECK constraint failed: tasks''"

text \<open>After the run: a leg that completed without its result has failed its task.\<close>

definition end_of_run ::
    "wakeup_env \<Rightarrow> usec \<Rightarrow> task \<Rightarrow> string \<Rightarrow> loop_result \<Rightarrow> (db, unit) exec" where
  "end_of_run env now t wid r =
     seqn (upd (set_transcript_uri wid (we_transcript env wid)))
       (case task_status_of_str (wakeup_status_to_task_status (lr_status r)) of
          None \<Rightarrow> throw check_failed
        | Some st \<Rightarrow>
            (if st \<noteq> TCompleted then commit_result env now t wid r st
             else bnd (query (fan_in_leg_submitted_result t (task_id t))) (\<lambda>x. case x of
               Inl e \<Rightarrow> throw e
             | Inr sub \<Rightarrow> commit_result env now t wid r (if sub = Some False then TFailed else st))))"

section \<open>The wakeup\<close>

text \<open>\<open>finally\<close>: the lease is released whatever happens, unless the process was killed.\<close>

definition finally_release :: "int \<Rightarrow> string \<Rightarrow> string \<Rightarrow> (db, unit) exec \<Rightarrow> (db, unit) exec" where
  "finally_release now tid wid m = (\<lambda>d. case m d of
       (Inl (SimulatedKill p), d') \<Rightarrow> (Inl (SimulatedKill p), d')
     | (r, d') \<Rightarrow> (r, release_lease now tid wid d'))"

definition cancelled_error :: exn where "cancelled_error = Exn ''CancelledError'' []"

definition run_wakeup :: "wakeup_env \<Rightarrow> usec \<Rightarrow> string \<Rightarrow> string \<Rightarrow> (db, unit) exec" where
  "run_wakeup env now tid wid =
     (let fin = finally_release (now div 1000) tid wid; handled = (\<lambda>to e. commit_failure env now tid to wid e)
      in bnd (query (tasks_get tid)) (\<lambda>to. case to of
        None \<Rightarrow> fin (try_except (throw (Exn ''RuntimeError'' ''task disappeared'')) (handled None))
      | Some t \<Rightarrow>
          bnd (query (we_prepare env t)) (\<lambda>p. case p of
            Some e \<Rightarrow> fin (try_except (throw e) (handled (Some t)))
          | None \<Rightarrow>
              bnd (step (we_loop env wid t)) (\<lambda>out. case out of
                Ran r \<Rightarrow> fin (try_except (end_of_run env now t wid r) (handled (Some t)))
              | Raised e \<Rightarrow> fin (try_except (throw e) (handled (Some t)))
              | Cancelled \<Rightarrow> fin (throw cancelled_error)))))"

definition provision_git ::
    "wakeup_env \<Rightarrow> int \<Rightarrow> string \<Rightarrow> string \<Rightarrow> (db, bool) exec" where
  "provision_git env now tid wid =
     bnd (query (tasks_get tid)) (\<lambda>to.
       case (case to of None \<Rightarrow> None | Some t \<Rightarrow> (case task_git t of None \<Rightarrow> None | Some g \<Rightarrow> we_git env tid g)) of
         None \<Rightarrow> ret True
       | Some e \<Rightarrow> seqn (upd (release_lease now tid wid))
           (seqn (step (update_status now tid TFailed None)) (ret False)))"

definition throw_if :: "exn option \<Rightarrow> (db, unit) exec" where
  "throw_if x = (case x of None \<Rightarrow> ret () | Some e \<Rightarrow> throw e)"

definition running_agent :: "task \<Rightarrow> string" where
  "running_agent t = (case present (task_agent t) of None \<Rightarrow> task_persona t | Some a \<Rightarrow> a)"

definition set_up_and_run ::
    "wakeup_env \<Rightarrow> usec \<Rightarrow> usec \<Rightarrow> task \<Rightarrow> string \<Rightarrow> (db, unit) exec" where
  "set_up_and_run env t0 t1 t wid =
     seqn (throw_if (we_worktree env (task_id t)))
       (bnd (provision_git env (t0 div 1000) (task_id t) wid) (\<lambda>ok.
          if ok then seqn (upd (ensure_mailbox (running_agent t)))
                       (seqn (throw_if (we_watcher env)) (run_wakeup env t1 (task_id t) wid))
          else ret ()))"

definition run_task_inline ::
    "wakeup_env \<Rightarrow> (nat \<Rightarrow> string) \<Rightarrow> usec \<Rightarrow> usec \<Rightarrow> string \<Rightarrow> (db, unit) exec" where
  "run_task_inline env uuid t0 t1 tid =
     bnd (query (tasks_get tid)) (\<lambda>to. case to of
       None \<Rightarrow> ret ()
     | Some t \<Rightarrow>
         seqn (step (close_orphans_for_task (t0 div 1000) tid ''abandoned''))
          (bnd (query (agents_get (running_agent t))) (\<lambda>ag.
             case we_persona env (case ag of None \<Rightarrow> task_persona t | Some a \<Rightarrow> agent_persona a) of
               None \<Rightarrow> seqn (step (update_status (t0 div 1000) tid TFailed None)) (ret ())
             | Some persona \<Rightarrow>
                 (\<lambda>d. case claim_wakeup uuid (t0 div 1000) t persona (map_option agent_id ag) d of
                    (Inl e, d') \<Rightarrow> (if e = lease_unclaimed then (Inr (), d') else (Inl e, d'))
                  | (Inr wid, d') \<Rightarrow> set_up_and_run env t0 t1 t wid d'))))"

section \<open>The heartbeat\<close>

text \<open>One round of \<open>_lease_heartbeat\<close>: past the wall budget, or once the lease is not ours any
  more, the loop is asked to stop (with this status and reason) and the heartbeat ends; otherwise
  the lease is renewed. \<open>over_budget\<close> says whether the wall budget is set and used up.\<close>

definition heartbeat_round ::
    "bool \<Rightarrow> int \<Rightarrow> int \<Rightarrow> task \<Rightarrow> string \<Rightarrow> (db, (string \<times> string) option) exec" where
  "heartbeat_round over_budget wall now t wid =
     (if over_budget
      then ret (Some (''needs_continuation'', ''per-wakeup wall budget '' @ str_of_int wall @ ''s exceeded''))
      else bnd (step (renew_lease now (task_id t) wid (task_lease_duration t))) (\<lambda>renewed.
        ret (if renewed then None else Some (''needs_continuation'', ''lease lost''))))"

section \<open>Invariant\<close>

lemma keeps_run_parts [keeps_intros]:
  "keeps db_ok (claim_wakeup uuid n t p a)" "keeps db_ok (commit_result env now t wid r st)"
  "keeps db_ok (commit_failure env now tid to wid e)" "keeps db_ok (end_of_run env now t wid r)"
  "keeps db_ok (provision_git env n tid wid)" "keeps db_ok (throw_if x)"
proof -
  show "keeps db_ok (claim_wakeup uuid n t p a)"
    unfolding claim_wakeup_def by (intro keeps_intros)
  show c: "keeps db_ok (commit_result env now t wid r st)" for st
    unfolding commit_result_def by (intro keeps_intros)
  show "keeps db_ok (commit_failure env now tid to wid e)"
    unfolding commit_failure_def by (intro keeps_intros)
  show "keeps db_ok (end_of_run env now t wid r)"
    unfolding end_of_run_def by (intro keeps_intros c)
  show "keeps db_ok (provision_git env n tid wid)"
    unfolding provision_git_def by (intro keeps_intros)
  show "keeps db_ok (throw_if x)" unfolding throw_if_def by (intro keeps_intros)
qed

lemma keeps_finally_release [keeps_intros]:
  "keeps db_ok m \<Longrightarrow> keeps db_ok (finally_release n tid wid m)"
  by (rule keepsI) (auto simp: finally_release_def split: prod.splits sum.splits exn.splits
      dest: keepsD [of db_ok m])

lemma keeps_run_outcome [keeps_intros]:
  "(\<And>r. keeps I (f r)) \<Longrightarrow> (\<And>e. keeps I (g e)) \<Longrightarrow> keeps I h \<Longrightarrow>
   keeps I (case x of Ran r \<Rightarrow> f r | Raised e \<Rightarrow> g e | Cancelled \<Rightarrow> h)"
  by (cases x) auto

text \<open>A run keeps the constraints if the agent loop does.\<close>

lemma keeps_run_task:
  assumes "\<And>wid t d. db_ok d \<Longrightarrow> db_ok (snd (we_loop env wid t d))"
  shows "keeps db_ok (run_task_inline env uuid t0 t1 tid)"
proof -
  have l: "keeps db_ok (step (we_loop env wid t))" for wid t
    by (rule keeps_step) (rule assms)
  have w: "keeps db_ok (run_wakeup env now tid wid)" for now tid wid
    unfolding run_wakeup_def Let_def by (intro keeps_intros l)
  have s: "keeps db_ok (set_up_and_run env a b t wid)" for a b t wid
    unfolding set_up_and_run_def by (intro keeps_intros w)
  have c: "keeps db_ok (\<lambda>d. case claim_wakeup uuid n t p a d of
       (Inl e, d') \<Rightarrow> (if e = lease_unclaimed then (Inr (), d') else (Inl e, d'))
     | (Inr wid, d') \<Rightarrow> set_up_and_run env t0 t1 t wid d')" for n t p a
  proof (rule keepsI)
    fix d assume ok: "db_ok d"
    obtain x d' where x: "claim_wakeup uuid n t p a d = (x, d')"
      by (cases "claim_wakeup uuid n t p a d")
    have "db_ok d'" using keepsD [OF keeps_run_parts(1) ok, of uuid n t p a] x by simp
    then show "db_ok (snd (case claim_wakeup uuid n t p a d of
       (Inl e, d') \<Rightarrow> (if e = lease_unclaimed then (Inr (), d') else (Inl e, d'))
     | (Inr wid, d') \<Rightarrow> set_up_and_run env t0 t1 t wid d'))"
      using x keepsD [OF s] by (cases x) auto
  qed
  show ?thesis unfolding run_task_inline_def by (intro keeps_intros c)
qed

section \<open>Losing the claim\<close>

lemma agents_get_fk: "fk (map_option agent_id (agents_get a d)) (agent_ids d)"
proof (cases "select_one (\<lambda>r. ar_id r = a) (agents d)")
  case (Some r)
  then have "r \<in> set (agents d)" by (auto dest: select_one_Some)
  with Some show ?thesis by (simp add: agents_get_def row_to_agent_def agent_ids_def)
qed (simp add: agents_get_def)

lemma claim_wakeup_lost:
  assumes ok: "db_ok d" and q: "the_row d (task_id t) = Some q" "\<not> lease_free n q"
    and fresh: "uuid (uuids_drawn d) \<notin> set (wakeup_ids d)" and fk: "fk aid (agent_ids d)"
  shows "claim_wakeup uuid n t p aid d = (Inl lease_unclaimed, d\<lparr>uuids_drawn := Suc (uuids_drawn d)\<rparr>)"
proof -
  have tid: "task_id t \<in> set (task_ids d)" using the_row_id [OF q(1)] by (force simp: task_ids_def)
  let ?d1 = "d\<lparr>uuids_drawn := Suc (uuids_drawn d),
       wakeups := wakeups d @ [new_wakeup_row n (uuid (uuids_drawn d)) (task_id t) p aid]\<rparr>"
  have start: "wakeups_start uuid n (task_id t) p aid d = (Inr (uuid (uuids_drawn d)), ?d1)"
    using tid fresh fk
    by (simp add: wakeups_start_def draw_uuid_def insert_wakeup_def new_wakeup_row_def exec_simps
        wakeup_ids_def task_ids_def agent_ids_def)
  have "\<not> (\<exists>r \<in> set (tasks d). tr_id r = task_id t \<and> lease_free n r)"
  proof
    assume "\<exists>r \<in> set (tasks d). tr_id r = task_id t \<and> lease_free n r"
    then obtain r where "r \<in> set (tasks d)" "tr_id r = task_id t" "lease_free n r" by blast
    with the_row_unique [OF ok, of r] q show False by simp
  qed
  then have "claim_lease n (task_id t) wid du ?d1 = (False, ?d1)" for wid du
    by (auto simp: claim_lease_def upd_tasks_def update_where_none)
  with start show ?thesis
    by (simp add: claim_wakeup_def in_transaction_def exec_simps roll_back_def)
qed

text \<open>Who loses the claim closes the winner's wakeup. When a second process runs a task
  that another one is executing under a valid lease, its claim is refused and the task's row stays
  as it was; but the sweep of orphans that comes before the claim has ended the running wakeup, so
  the gate that keeps the agent sequential opens although the agent is still at work.\<close>

theorem losing_runner_closes_winner:
  assumes ok: "db_ok d" and q: "the_row d tid = Some q" "in_flight (tr_status q)" "\<not> lease_free (t0 div 1000) q"
    and w: "w \<in> set (wakeups d)" "wr_task w = tid" "wr_agent w = Some aid" "wr_ended w = None"
    and only: "\<forall>x \<in> set (wakeups d). wr_agent x = Some aid \<and> wr_ended x = None \<longrightarrow> wr_task x = tid"
    and persona: "\<forall>p. we_persona env p = Some p"
    and fresh: "uuid (uuids_drawn d) \<notin> set (wakeup_ids d)"
  shows "\<exists>d'. run_task_inline env uuid t0 t1 tid d = (Inr (), d') \<and> the_row d' tid = Some q
     \<and> has_active_for_agent aid d \<and> \<not> has_active_for_agent aid d'"
proof -
  let ?n = "t0 div 1000" and ?t = "row_to_task q"
  have tid: "tr_id q = tid" "task_id ?t = tid" using the_row_id [OF q(1)] by (simp_all add: row_to_task_def)
  have get: "tasks_get tid d = Some ?t" using q(1) by (simp add: tasks_get_row)
  obtain m d1 where d1: "close_orphans_for_task ?n tid ''abandoned'' d = (m, d1)"
    by (cases "close_orphans_for_task ?n tid ''abandoned'' d")
  have d1': "d1 = snd (close_orphans_for_task ?n tid ''abandoned'' d)" using d1 by simp
  have same: "tasks d1 = tasks d" "agents d1 = agents d" "uuids_drawn d1 = uuids_drawn d"
    "wakeup_ids d1 = wakeup_ids d"
    unfolding d1' by (simp_all add: close_orphans_for_task_def upd_wakeups_def wakeup_ids_def row_simps)
  have ok1: "db_ok d1" unfolding d1' using ok by simp
  have row1: "the_row d1 (task_id ?t) = Some q" using q(1) same(1) tid by (simp add: the_row_def)
  have fk: "fk (map_option agent_id (agents_get (running_agent ?t) d1)) (agent_ids d1)"
    by (rule agents_get_fk)
  have fresh1: "uuid (uuids_drawn d1) \<notin> set (wakeup_ids d1)" using fresh same by simp
  let ?d2 = "d1\<lparr>uuids_drawn := Suc (uuids_drawn d1)\<rparr>"
  have "run_task_inline env uuid t0 t1 tid d = (Inr (), ?d2)"
    using get d1 persona claim_wakeup_lost [where uuid = uuid, OF ok1 row1 q(3) fresh1 fk]
    by (simp add: run_task_inline_def exec_simps)
  moreover have "has_active_for_agent aid d"
    using w q(2) the_row_id [OF q(1)] unfolding has_active_iff by blast
  moreover have "\<not> has_active_for_agent aid ?d2"
  proof
    assume "has_active_for_agent aid ?d2"
    then obtain x where x: "x \<in> set (wakeups d1)" "wr_agent x = Some aid" "wr_ended x = None"
      unfolding has_active_iff by auto
    have "wr_task x \<noteq> tid" using close_orphans_closes [of x ?n tid "''abandoned''" d] x d1' by auto
    then have "x \<in> set (wakeups d)" using close_orphans_others x(1) d1' by metis
    with only x \<open>wr_task x \<noteq> tid\<close> show False by blast
  qed
  moreover have "the_row ?d2 tid = Some q" using row1 tid by (simp add: the_row_def)
  ultimately show ?thesis by blast
qed

definition runner_env :: "(string \<Rightarrow> task \<Rightarrow> db \<Rightarrow> run_outcome \<times> db) \<Rightarrow> wakeup_env" where
  "runner_env lp =
     \<lparr>we_persona = (\<lambda>p. Some p), we_worktree = (\<lambda>t. None), we_git = (\<lambda>t g. None), we_watcher = None,
      we_prepare = (\<lambda>t d. None), we_loop = lp, we_transcript = (\<lambda>w. ''file:'' @ w),
      we_provider = (\<lambda>m. None)\<rparr>"

definition busy_db :: db where
  "busy_db = sample_db
     \<lparr>tasks := [(sample_task ''t1'' ''worker/a'' None)\<lparr>tr_status := TInProgress,
         tr_lease_holder := Some ''w1'', tr_lease_until := Some (MsZ 1800000)\<rparr>],
      wakeups := [new_wakeup_row 0 ''w1'' ''t1'' ''worker'' (Some ''worker/a'')]\<rparr>"

lemma busy_db_ok: "db_ok busy_db"
  by (simp add: busy_db_def sample_db_def empty_db_def db_ok_defs key_defs sample_agent_def sample_task_def
      new_wakeup_row_def)

lemma losing_runner_closes_winner_witness:
  "\<exists>d'. run_task_inline (runner_env (\<lambda>w t d. (Cancelled, d))) sample_uuid 1000 2000 ''t1'' busy_db = (Inr (), d')
     \<and> has_active_for_agent ''worker/a'' busy_db \<and> \<not> has_active_for_agent ''worker/a'' d'"
proof -
  let ?q = "(sample_task ''t1'' ''worker/a'' None)\<lparr>tr_status := TInProgress,
         tr_lease_holder := Some ''w1'', tr_lease_until := Some (MsZ 1800000)\<rparr>"
  let ?w = "new_wakeup_row 0 ''w1'' ''t1'' ''worker'' (Some ''worker/a'')"
  have f: "the_row busy_db ''t1'' = Some ?q" "in_flight (tr_status ?q)" "\<not> lease_free (1000 div 1000) ?q"
    "?w \<in> set (wakeups busy_db)" "wr_task ?w = ''t1''" "wr_agent ?w = Some ''worker/a''" "wr_ended ?w = None"
    "\<forall>x \<in> set (wakeups busy_db). wr_agent x = Some ''worker/a'' \<and> wr_ended x = None \<longrightarrow> wr_task x = ''t1''"
    "\<forall>p. we_persona (runner_env (\<lambda>w t d. (Cancelled, d))) p = Some p"
    "sample_uuid (uuids_drawn busy_db) \<notin> set (wakeup_ids busy_db)"
    by (simp_all add: busy_db_def sample_db_def empty_db_def the_row_def select_one_def sample_task_def
        lease_free_def new_wakeup_row_def runner_env_def sample_uuid_def wakeup_ids_def)
  from losing_runner_closes_winner [where uuid = sample_uuid, OF busy_db_ok f, of 2000] show ?thesis by blast
qed

section \<open>The outcome of a run\<close>

definition task_agents :: "db \<Rightarrow> (string \<times> string option) list" where
  "task_agents d = map (\<lambda>r. (tr_id r, tr_agent r)) (tasks d)"

lemma task_agent_get:
  "map_option task_agent (tasks_get p d) = map_option snd (List.find (\<lambda>x. fst x = p) (task_agents d))"
proof -
  have "map_option tr_agent (List.find (\<lambda>r. tr_id r = p) xs)
      = map_option snd (List.find (\<lambda>x. fst x = p) (map (\<lambda>r. (tr_id r, tr_agent r)) xs))" for xs
    by (induction xs) auto
  then show ?thesis
    by (simp add: tasks_get_def select_one_def task_agents_def option.map_comp comp_def row_to_task_def)
qed

text \<open>Who is told depends on the agents and on the agents of the tasks only.\<close>

lemma terminated_recipient_same:
  assumes "agents d' = agents d" "task_agents d' = task_agents d"
  shows "terminated_recipient t st d' = terminated_recipient t st d"
proof -
  have g: "agents_get a d' = agents_get a d" for a using assms(1) by (simp add: agents_get_def)
  have l: "live_agent a d' = live_agent a d" for a by (simp add: live_agent_def g)
  have ow: "owner_if_live d' = owner_if_live d" by (simp add: owner_if_live_def l)
  have m: "map_option task_agent (tasks_get p d') = map_option task_agent (tasks_get p d)" for p
    by (simp add: task_agent_get assms(2))
  have "resolve_terminated_task_supervisor t d' = resolve_terminated_task_supervisor t d"
  proof (cases "present (task_parent t)")
    case None
    then show ?thesis by (simp add: resolve_terminated_task_supervisor_def ow)
  next
    case (Some p)
    from m [of p] show ?thesis
      by (cases "tasks_get p d"; cases "tasks_get p d'")
        (simp_all add: resolve_terminated_task_supervisor_def ow l Some split: option.splits)
  qed
  moreover have "(case task_agent t of None \<Rightarrow> None | Some a \<Rightarrow> agents_get a d')
      = (case task_agent t of None \<Rightarrow> None | Some a \<Rightarrow> agents_get a d)"
    by (simp add: g split: option.split)
  ultimately show ?thesis by (simp only: terminated_recipient_def)
qed

lemma emit_run:
  assumes "terminated_recipient t st d = Inr x" "task_id t \<in> set (task_ids d)" "wid \<in> set (wakeup_ids d)"
  obtains d' where "emit_task_terminated_mail now t wid st su re tr d = (Inr (), d')"
    "tasks d' = tasks d" "agents d' = agents d" "wakeups d' = wakeups d"
    "x = None \<longrightarrow> outbox d' = outbox d"
    "x \<noteq> None \<longrightarrow> has_outbox KMailboxSend (terminated_key (task_id t)) d'"
proof (cases x)
  case None
  with assms(1) show thesis
    by (intro that [of d]) (simp_all add: emit_task_terminated_mail_def exec_simps)
next
  case (Some q)
  let ?row = "new_outbox_row (Some (task_id t)) (Some wid) KMailboxSend
    (terminated_payload t q st su re tr) (terminated_key (task_id t))"
  obtain d' where e: "outbox_enqueue (now div 1000) [?row] d = (Inr (), d')"
    "tasks d' = tasks d" "agents d' = agents d" "wakeups d' = wakeups d"
    using assms(2,3)
    by (cases "has_outbox KMailboxSend (terminated_key (task_id t)) d")
      (simp_all add: outbox_enqueue_def enqueue_one_def Let_def new_outbox_row_def exec_simps)
  have "has_outbox (ob_kind ?row) (ob_external ?row) d'"
    using enqueue_has [of "now div 1000" "[?row]" d ?row] e(1) by simp
  then have "has_outbox KMailboxSend (terminated_key (task_id t)) d'" by (simp add: new_outbox_row_def)
  moreover have "emit_task_terminated_mail now t wid st su re tr d = (Inr (), d')"
    using assms(1) Some e(1) by (simp add: emit_task_terminated_mail_def bnd_query)
  ultimately show thesis using e(2-4) Some by (intro that [of d']) simp_all
qed

definition closed_as :: "string \<Rightarrow> string \<Rightarrow> db \<Rightarrow> bool" where
  "closed_as wid es d \<longleftrightarrow> (\<forall>w \<in> set (wakeups d). wr_id w = wid \<longrightarrow> wr_ended w \<noteq> None \<and> wr_end_status w = Some es)"

text \<open>The common shape of the two commits.\<close>

definition commit_shape ::
    "usec \<Rightarrow> task \<Rightarrow> string \<Rightarrow> string \<Rightarrow> metering \<Rightarrow> dict option \<Rightarrow> task_status \<Rightarrow> string option \<Rightarrow> string option
     \<Rightarrow> string option \<Rightarrow> (db, unit) exec" where
  "commit_shape now t wid es met rep st su re tr =
     in_transaction
       (seqn (upd (wakeups_end (now div 1000) wid es met rep))
         (bnd (step (update_status (now div 1000) (task_id t) st (Some wid))) (\<lambda>still.
            run_if still (emit_task_terminated_mail now t wid st su re tr))))"

lemma commit_shape_run:
  assumes ok: "db_ok d" and q: "the_row d (task_id t) = Some q" and wid: "wid \<in> set (wakeup_ids d)"
    and x: "terminated_recipient t st d = Inr x"
  shows "\<exists>d'. commit_shape now t wid es met rep st su re tr d = (Inr (), d') \<and> closed_as wid es d'
     \<and> agents d' = agents d
     \<and> (if tr_lease_holder q = Some wid
        then (\<exists>q'. the_row d' (task_id t) = Some q' \<and> tr_status q' = st
               \<and> tr_lease_holder q' = Some wid \<and> tr_id q' = task_id t)
          \<and> (x \<noteq> None \<longrightarrow> has_outbox KMailboxSend (terminated_key (task_id t)) d')
        else the_row d' (task_id t) = Some q \<and> outbox d' = outbox d)"
proof -
  let ?t = "now div 1000" and ?tid = "task_id t"
  let ?d1 = "wakeups_end ?t wid es met rep d"
  have same1: "tasks ?d1 = tasks d" "agents ?d1 = agents d" "outbox ?d1 = outbox d" "wakeup_ids ?d1 = wakeup_ids d"
    by (simp_all add: wakeups_end_def upd_wakeups_def wakeup_ids_def row_simps)
  have closed: "closed_as wid es ?d1"
    unfolding closed_as_def wakeups_end_def upd_wakeups_def
  proof (simp, intro ballI impI)
    fix w assume "w \<in> set (update_where (\<lambda>r. wr_id r = wid)
       (\<lambda>r. r\<lparr>wr_ended := Some (MsZ ?t), wr_end_status := Some es,
              wr_token_input := me_token_input met, wr_token_output := me_token_output met,
              wr_wall_clock := me_wall_clock met, wr_tool_calls := me_tool_calls met,
              wr_provider := me_provider met, wr_model := me_model met, wr_failure := rep,
              wr_peak := me_peak met, wr_compactions := coalesce0 (me_compactions met),
              wr_degraded := coalesce0 (me_degraded met)\<rparr>) (wakeups d))" and "wr_id w = wid"
    then show "(\<exists>y. wr_ended w = Some y) \<and> wr_end_status w = Some es"
      by (cases rule: update_where_cases) simp_all
  qed
  obtain b d2 where d2: "update_status ?t ?tid st (Some wid) ?d1 = (b, d2)"
    by (cases "update_status ?t ?tid st (Some wid) ?d1")
  have d2': "d2 = snd (update_status ?t ?tid st (Some wid) ?d1)" using d2 by simp
  have row1: "the_row ?d1 ?tid = Some q" using q same1(1) by (simp add: the_row_def)
  have idq: "tr_id q = ?tid" using the_row_id [OF q] by simp
  have b: "b \<longleftrightarrow> tr_lease_holder q = Some wid"
  proof -
    have "b = fst (update_status ?t ?tid st (Some wid) ?d1)" using d2 by simp
    also have "\<dots> \<longleftrightarrow> (case the_row ?d1 ?tid of None \<Rightarrow> False | Some r \<Rightarrow> tr_lease_holder r = Some wid)"
      unfolding update_status_def option.case by (rule fst_upd_row) (simp add: ok)
    finally show ?thesis using row1 by simp
  qed
  have row2: "the_row d2 ?tid = Some (if tr_lease_holder q = Some wid
      then q\<lparr>tr_status := st, tr_updated := MsZ ?t,
              tr_completed := (if st = TCompleted then Some (MsZ ?t) else tr_completed q)\<rparr> else q)"
    unfolding d2' update_status_def by (simp add: the_row_upd row1 idq)
  have same2: "agents d2 = agents d" "outbox d2 = outbox d" "wakeups d2 = wakeups ?d1" "task_ids d2 = task_ids d"
      "task_agents d2 = task_agents d"
    unfolding d2' using same1
    by (simp_all add: update_status_def upd_tasks_def task_ids_def task_agents_def row_simps)
  show ?thesis
  proof (cases b)
    case False
    have "commit_shape now t wid es met rep st su re tr d = (Inr (), d2)"
      unfolding commit_shape_def by (rule in_transaction_Inr) (use d2 False in \<open>simp add: exec_simps\<close>)
    moreover have "closed_as wid es d2" using closed same2(3) by (simp add: closed_as_def)
    ultimately show ?thesis using False b row2 same2 by simp
  next
    case True
    have "terminated_recipient t st d2 = Inr x"
      using terminated_recipient_same [OF same2(1) same2(5)] x by simp
    moreover have "?tid \<in> set (task_ids d2)"
      using the_row_id [OF q] same2(4) by (force simp: task_ids_def)
    moreover have "wid \<in> set (wakeup_ids d2)" using wid same2(3) same1(4) by (simp add: wakeup_ids_def)
    ultimately obtain d3 where d3: "emit_task_terminated_mail now t wid st su re tr d2 = (Inr (), d3)"
      "tasks d3 = tasks d2" "agents d3 = agents d2" "wakeups d3 = wakeups d2"
      "x = None \<longrightarrow> outbox d3 = outbox d2"
      "x \<noteq> None \<longrightarrow> has_outbox KMailboxSend (terminated_key (task_id t)) d3"
      by (rule emit_run)
    have "commit_shape now t wid es met rep st su re tr d = (Inr (), d3)"
      unfolding commit_shape_def by (rule in_transaction_Inr) (use d2 True d3(1) in \<open>simp add: exec_simps\<close>)
    moreover have "closed_as wid es d3" using closed same2(3) d3(4) by (simp add: closed_as_def)
    moreover have "the_row d3 ?tid = the_row d2 ?tid" using d3(2) by (simp add: the_row_def)
    ultimately show ?thesis using True b row2 d3(3,6) same2(1) idq
      by (intro exI [of _ d3]) auto
  qed
qed

text \<open>What a run settles on: the status of the task and the end status of the wakeup. A run that
  was killed or cancelled settles nothing.\<close>

fun outcome_of :: "task \<Rightarrow> db \<Rightarrow> run_outcome \<Rightarrow> (task_status \<times> string) option" where
  "outcome_of t d (Ran r) =
     (case task_status_of_str (wakeup_status_to_task_status (lr_status r)) of
        None \<Rightarrow> Some (TFailed, ''failed'')
      | Some st \<Rightarrow>
          (if st \<noteq> TCompleted then Some (st, lr_status r)
           else (case fan_in_leg_submitted_result t (task_id t) d of
                   Inl e \<Rightarrow> (case e of Exn _ _ \<Rightarrow> Some (TFailed, ''failed'') | SimulatedKill _ \<Rightarrow> None)
                 | Inr sub \<Rightarrow> Some (if sub = Some False then TFailed else TCompleted, lr_status r))))"
| "outcome_of t d (Raised (Exn _ _)) = Some (TFailed, ''failed'')"
| "outcome_of t d (Raised (SimulatedKill _)) = None"
| "outcome_of t d Cancelled = None"

lemma transcript_frame:
  "tasks (set_transcript_uri w u d) = tasks d" "agents (set_transcript_uri w u d) = agents d"
  "outbox (set_transcript_uri w u d) = outbox d" "wakeup_ids (set_transcript_uri w u d) = wakeup_ids d"
  "messages (set_transcript_uri w u d) = messages d" "groups (set_transcript_uri w u d) = groups d"
  by (simp_all add: set_transcript_uri_def upd_wakeups_def wakeup_ids_def row_simps)

lemma submitted_same:
  assumes "agents d' = agents d" "outbox d' = outbox d" "messages d' = messages d" "groups d' = groups d"
  shows "fan_in_leg_submitted_result t tid d' = fan_in_leg_submitted_result t tid d"
proof -
  have "has_pending_fan_in_result a b c d' = has_pending_fan_in_result a b c d" for a b c
    using assms by (simp add: has_pending_fan_in_result_def)
  moreover have "group_get g d' = group_get g d" "live_agent a d' = live_agent a d" for g a
    using assms by (simp_all add: group_get_def live_agent_def agents_get_def)
  moreover have "read_fan_in_results a g d' = read_fan_in_results a g d" for a g
    using assms by (simp add: read_fan_in_results_def newest_per_leg_def)
  ultimately show ?thesis by (simp only: fan_in_leg_submitted_result_def)
qed

lemma release_frame:
  "wakeups (release_lease n tid wid d) = wakeups d" "outbox (release_lease n tid wid d) = outbox d"
  "the_row (release_lease n tid wid d) tid = map_option (\<lambda>r. if tr_id r = tid \<and> tr_lease_holder r = Some wid
     then r\<lparr>tr_lease_holder := None, tr_lease_until := None, tr_updated := MsZ n\<rparr> else r) (the_row d tid)"
  unfolding release_lease_def by (simp_all add: the_row_upd) (simp_all add: upd_tasks_def)

text \<open>The state a settled run leaves.\<close>

definition settled :: "string \<Rightarrow> string \<Rightarrow> string \<Rightarrow> task_row \<Rightarrow> task_status \<Rightarrow> bool \<Rightarrow> db \<Rightarrow> db \<Rightarrow> bool" where
  "settled tid wid es q st notice d1 d' \<longleftrightarrow> closed_as wid es d'
     \<and> (if tr_lease_holder q = Some wid
        then (\<exists>q'. the_row d' tid = Some q' \<and> tr_status q' = st \<and> tr_lease_holder q' = None \<and> tr_lease_until q' = None)
          \<and> (notice \<longrightarrow> has_outbox KMailboxSend (terminated_key tid) d')
        else the_row d' tid = Some q \<and> outbox d' = outbox d1)"

lemma commit_then_release:
  assumes "db_ok d" "the_row d (task_id t) = Some q" "wid \<in> set (wakeup_ids d)"
    and "terminated_recipient t st d = Inr x" and m: "m d0 = commit_shape now t wid es met rep st su re tr d"
  shows "\<exists>d'. finally_release n (task_id t) wid m d0 = (Inr (), d') \<and> settled (task_id t) wid es q st (x \<noteq> None) d d'"
proof -
  from commit_shape_run [OF assms(1-4), of now es met rep su re tr]
  obtain d1 where d1: "commit_shape now t wid es met rep st su re tr d = (Inr (), d1)" "closed_as wid es d1"
    and c: "if tr_lease_holder q = Some wid
        then (\<exists>q'. the_row d1 (task_id t) = Some q' \<and> tr_status q' = st
               \<and> tr_lease_holder q' = Some wid \<and> tr_id q' = task_id t)
          \<and> (x \<noteq> None \<longrightarrow> has_outbox KMailboxSend (terminated_key (task_id t)) d1)
        else the_row d1 (task_id t) = Some q \<and> outbox d1 = outbox d" by blast
  let ?d' = "release_lease n (task_id t) wid d1"
  have "finally_release n (task_id t) wid m d0 = (Inr (), ?d')"
    using m d1(1) by (simp add: finally_release_def)
  moreover have "closed_as wid es ?d'" using d1(2) by (simp add: closed_as_def release_frame)
  moreover have "settled (task_id t) wid es q st (x \<noteq> None) d ?d'"
  proof (cases "tr_lease_holder q = Some wid")
    case True
    with c obtain q' where "the_row d1 (task_id t) = Some q'" "tr_status q' = st"
      "tr_lease_holder q' = Some wid" "tr_id q' = task_id t"
      "x \<noteq> None \<longrightarrow> has_outbox KMailboxSend (terminated_key (task_id t)) d1" by auto
    with True \<open>closed_as wid es ?d'\<close> show ?thesis
      by (simp add: settled_def release_frame has_outbox_def)
  next
    case False
    with c \<open>closed_as wid es ?d'\<close> show ?thesis by (simp add: settled_def release_frame)
  qed
  ultimately show ?thesis by blast
qed

lemma commits_have_shape:
  "commit_result env now t wid r st = commit_shape now t wid (lr_status r) (result_metering env r) None st
     (result_summary (lr_text r)) (if st = TFailed then Some (lr_status r) else None) (Some (we_transcript env wid))"
  "commit_failure env now (task_id t) (Some t) wid e = commit_shape now t wid ''failed'' no_metering
     (Some (failure_report e)) TFailed (Some (utake 500 (exn_type e @ '': '' @ exn_msg e))) (Some (exn_type e))
     (Some (we_transcript env wid))"
  by (simp_all add: commit_result_def commit_failure_def commit_shape_def)

text \<open>C16: A run settles its task once and for all, or not at all. When the run ends with a result
  or an exception, one transaction closes the wakeup and, if this wakeup still holds the lease, moves
  the task to the status of the outcome (a leg that completed without its typed result fails) with the
  notice for its supervisor in the outbox; then the lease is free. If the lease has been taken over
  meanwhile, only the wakeup is closed: the task's row and the outbox stay as they were.\<close>

theorem run_settles:
  assumes t: "tasks_get (task_id t) d = Some t" "we_prepare env t d = None"
    and run: "we_loop env wid t d = (out, d1)" "outcome_of t d1 out = Some (st, es)"
    and d1: "db_ok d1" "the_row d1 (task_id t) = Some q" "wid \<in> set (wakeup_ids d1)"
    and x: "\<And>st. terminated_recipient t st d1 = Inr (x st)"
  shows "\<exists>d'. run_wakeup env now (task_id t) wid d = (Inr (), d')
     \<and> settled (task_id t) wid es q st (x st \<noteq> None) d1 d'"
proof -
  let ?tid = "task_id t" and ?n = "now div 1000"
  let ?h = "\<lambda>e. commit_failure env now ?tid (Some t) wid e"
  let ?d2 = "set_transcript_uri wid (we_transcript env wid) d1"
  have d2: "db_ok ?d2" "the_row ?d2 ?tid = Some q" "wid \<in> set (wakeup_ids ?d2)"
    "\<And>st. terminated_recipient t st ?d2 = Inr (x st)" "outbox ?d2 = outbox d1"
    using d1 x terminated_recipient_same [of ?d2 d1 t]
    by (simp_all add: transcript_frame task_agents_def the_row_def)
  have sub: "fan_in_leg_submitted_result t ?tid ?d2 = fan_in_leg_submitted_result t ?tid d1"
    by (rule submitted_same) (simp_all add: transcript_frame)
  have fin: "settled ?tid wid es q st n ?d2 d' \<longleftrightarrow> settled ?tid wid es q st n d1 d'" for es st n d'
    using d2(5) by (simp add: settled_def)
  show ?thesis
  proof (cases out)
    case Cancelled
    with run(2) show ?thesis by simp
  next
    case (Raised e)
    with run(2) obtain ty msg where e: "e = Exn ty msg" and st: "st = TFailed" "es = ''failed''"
      by (cases e) auto
    have w: "run_wakeup env now ?tid wid d = finally_release ?n ?tid wid (try_except (throw e) ?h) d1"
      using t run(1) Raised by (simp add: run_wakeup_def Let_def exec_simps)
    show ?thesis unfolding w st
      by (rule commit_then_release [OF d1 x]) (simp add: e exec_simps commits_have_shape)
  next
    case (Ran r)
    have w: "run_wakeup env now ?tid wid d
        = finally_release ?n ?tid wid (try_except (end_of_run env now t wid r) ?h) d1"
      using t run(1) Ran by (simp add: run_wakeup_def Let_def exec_simps)
    let ?ms = "task_status_of_str (wakeup_status_to_task_status (lr_status r))"
    have commit: ?thesis
      if eq: "end_of_run env now t wid r d1 = commit_result env now t wid r st ?d2" and es: "es = lr_status r"
    proof -
      from commit_shape_run [where st = st and now = now and es = es and met = "result_metering env r"
          and rep = None and su = "result_summary (lr_text r)"
          and re = "if st = TFailed then Some (lr_status r) else None"
          and tr = "Some (we_transcript env wid)", OF d2(1-4)]
      obtain d3 where c: "commit_result env now t wid r st ?d2 = (Inr (), d3)"
        unfolding commits_have_shape es by blast
      have "try_except (end_of_run env now t wid r) ?h d1 = commit_result env now t wid r st ?d2"
        using eq c by (simp add: try_except_def)
      then have "\<exists>d'. finally_release ?n ?tid wid (try_except (end_of_run env now t wid r) ?h) d1 = (Inr (), d')
          \<and> settled ?tid wid es q st (x st \<noteq> None) ?d2 d'"
        by (intro commit_then_release [OF d2(1-4)]) (simp add: commits_have_shape es)
      then show ?thesis unfolding w fin .
    qed
    have failed: ?thesis
      if "end_of_run env now t wid r d1 = (Inl (Exn ty msg), ?d2)" "st = TFailed" "es = ''failed''" for ty msg
    proof -
      have "\<exists>d'. finally_release ?n ?tid wid (try_except (end_of_run env now t wid r) ?h) d1 = (Inr (), d')
          \<and> settled ?tid wid es q st (x st \<noteq> None) ?d2 d'"
        unfolding that(2,3)
        by (rule commit_then_release [OF d2(1-4)])
          (simp add: that(1) try_except_def commits_have_shape)
      then show ?thesis unfolding w fin .
    qed
    show ?thesis
    proof (cases ?ms)
      case None
      then have "end_of_run env now t wid r d1 = (Inl check_failed, ?d2)"
        by (simp add: end_of_run_def exec_simps)
      with run(2) Ran None show ?thesis by (intro failed) (auto simp: check_failed_def)
    next
      case (Some s)
      show ?thesis
      proof (cases "s = TCompleted")
        case False
        with Some run(2) Ran have "st = s" "es = lr_status r" by simp_all
        with Some False show ?thesis by (intro commit) (simp_all add: end_of_run_def exec_simps)
      next
        case True
        show ?thesis
        proof (cases "fan_in_leg_submitted_result t ?tid d1")
          case (Inl e)
          then obtain ty msg where e: "e = Exn ty msg" "st = TFailed" "es = ''failed''"
            using run(2) Ran Some True by (cases e) auto
          with Inl Some True sub show ?thesis
            by (intro failed [of ty msg]) (simp_all add: end_of_run_def exec_simps)
        next
          case (Inr b)
          with run(2) Ran Some True have "st = (if b = Some False then TFailed else TCompleted)" "es = lr_status r"
            by simp_all
          with Inr Some True sub show ?thesis
            by (intro commit) (simp_all add: end_of_run_def exec_simps)
        qed
      qed
    qed
  qed
qed

definition sample_result :: loop_result where
  "sample_result =
     \<lparr>lr_status = ''needs_continuation'', lr_text = '' out of turns '', lr_input_tokens = Some 10,
      lr_output_tokens = Some 20, lr_wall_clock_ms = 5, lr_tool_calls = 3, lr_model = None,
      lr_context_peak = 10, lr_compactions = 0, lr_degraded = 0\<rparr>"

lemma run_settles_witness:
  "\<exists>d' q'. run_wakeup (runner_env (\<lambda>w t d. (Ran sample_result, d))) 0 ''t1'' ''w1'' busy_db = (Inr (), d')
     \<and> the_row d' ''t1'' = Some q' \<and> tr_status q' = TFailed \<and> tr_lease_holder q' = None"
proof -
  let ?env = "runner_env (\<lambda>w t d. (Ran sample_result, d))"
  let ?q = "(sample_task ''t1'' ''worker/a'' None)\<lparr>tr_status := TInProgress,
         tr_lease_holder := Some ''w1'', tr_lease_until := Some (MsZ 1800000)\<rparr>"
  let ?t = "row_to_task ?q"
  have id: "task_id ?t = ''t1''" by (simp add: row_to_task_def sample_task_def)
  have row: "the_row busy_db ''t1'' = Some ?q"
    by (simp add: busy_db_def the_row_def select_one_def sample_task_def)
  have f: "tasks_get (task_id ?t) busy_db = Some ?t" "we_prepare ?env ?t busy_db = None"
    "we_loop ?env ''w1'' ?t busy_db = (Ran sample_result, busy_db)"
    "outcome_of ?t busy_db (Ran sample_result) = Some (TFailed, ''needs_continuation'')"
    "the_row busy_db (task_id ?t) = Some ?q" "''w1'' \<in> set (wakeup_ids busy_db)"
    using row
    by (simp_all add: id tasks_get_row runner_env_def sample_result_def wakeup_status_to_task_status_def
        task_status_of_str_def busy_db_def wakeup_ids_def new_wakeup_row_def)
  have "agents_get ''worker/a'' busy_db = Some (row_to_agent (sample_agent ''worker/a'' (Some ''dispatcher'') None))"
    by (simp add: agents_get_def busy_db_def sample_db_def select_one_def sample_agent_def)
  then have x: "terminated_recipient ?t st busy_db = Inr None" for st
    by (simp add: terminated_recipient_def row_to_task_def sample_task_def ephemeral_of_def supervision_of_def
        row_to_agent_def sample_agent_def ebind_def otruthy_def resolve_terminated_task_supervisor_def
        present_def not_none_def owner_if_live_def live_agent_def agents_get_def busy_db_def sample_db_def select_one_def)
  have holder: "tr_lease_holder ?q = Some ''w1''" by simp
  from run_settles [OF f(1-4) busy_db_ok f(5,6) x, of 0] holder
  show ?thesis unfolding settled_def id by auto
qed

section \<open>Tasks nobody looks at again\<close>

text \<open>A cancelled wakeup strands its task. When the asyncio task of a run is cancelled (an
  interrupt of the process), no handler runs but the cleanup does: the lease is released while the
  status stays \<open>in_progress\<close>. Such a task is neither pending nor does it have an expired lease, so
  no later tick recovers or dispatches it.\<close>

theorem cancelled_run_strands:
  assumes t: "tasks_get tid d = Some t" "we_prepare env t d = None"
    and run: "we_loop env wid t d = (Cancelled, d1)"
    and d1: "db_ok d1" "the_row d1 tid = Some q" "tr_status q = TInProgress" "tr_lease_holder q = Some wid"
  shows "\<exists>d' q'. run_wakeup env now tid wid d = (Inl cancelled_error, d')
     \<and> the_row d' tid = Some q' \<and> tr_status q' = TInProgress \<and> tr_lease_holder q' = None
     \<and> (\<forall>later limit. tid \<notin> task_id ` set (find_expired_leases later limit d')
                      \<and> tid \<notin> task_id ` set (find_pending limit d'))"
proof -
  let ?n = "now div 1000"
  let ?d' = "release_lease ?n tid wid d1"
  let ?q' = "q\<lparr>tr_lease_holder := None, tr_lease_until := None, tr_updated := MsZ ?n\<rparr>"
  have "run_wakeup env now tid wid d = (Inl cancelled_error, ?d')"
    using t run by (simp add: run_wakeup_def Let_def exec_simps finally_release_def cancelled_error_def)
  moreover have row: "the_row ?d' tid = Some ?q'"
    using d1 the_row_id [OF d1(2)] by (simp add: release_frame)
  have ok: "db_ok ?d'" using d1(1) by simp
  have one: "r = ?q'" if "r \<in> set (tasks ?d')" "tr_id r = tid" for r
    using the_row_unique [OF ok that(1)] that(2) row by simp
  have exp: "tid \<notin> task_id ` set (find_expired_leases later limit ?d')" for later limit
  proof
    assume "tid \<in> task_id ` set (find_expired_leases later limit ?d')"
    then obtain r where "r \<in> set (tasks ?d')" "lease_expired later r" "tr_id r = tid"
      using set_sql_limit [of limit "order_by (\<lambda>r. the (tr_lease_until r)) (filter (lease_expired later) (tasks ?d'))"]
      by (auto simp: find_expired_leases_def row_to_task_def)
    then show False using one [of r] by (simp add: lease_expired_def)
  qed
  moreover have "tid \<notin> task_id ` set (find_pending limit ?d')" for limit
  proof
    assume "tid \<in> task_id ` set (find_pending limit ?d')"
    then obtain r where "r \<in> set (tasks ?d')" "tr_status r = TPending" "tr_id r = tid"
      using set_sql_limit [of limit "order_by tr_created (filter (\<lambda>r. tr_status r = TPending) (tasks ?d'))"]
      by (auto simp: find_pending_def row_to_task_def)
    then show False using one [of r] d1(3) by simp
  qed
  moreover have "tr_status ?q' = TInProgress" "tr_lease_holder ?q' = None" using d1(3) by simp_all
  ultimately show ?thesis using row by (intro exI [of _ ?d'] exI [of _ ?q']) simp
qed

lemma cancelled_run_strands_witness:
  "\<exists>d'. run_wakeup (runner_env (\<lambda>w t d. (Cancelled, d))) 0 ''t1'' ''w1'' busy_db = (Inl cancelled_error, d')
     \<and> ''t1'' \<notin> task_id ` set (find_expired_leases 9999999 10 d') \<and> ''t1'' \<notin> task_id ` set (find_pending 10 d')"
proof -
  let ?q = "(sample_task ''t1'' ''worker/a'' None)\<lparr>tr_status := TInProgress,
         tr_lease_holder := Some ''w1'', tr_lease_until := Some (MsZ 1800000)\<rparr>"
  have row: "the_row busy_db ''t1'' = Some ?q"
    by (simp add: busy_db_def the_row_def select_one_def sample_task_def)
  have f: "tasks_get ''t1'' busy_db = Some (row_to_task ?q)"
    "we_prepare (runner_env (\<lambda>w t d. (Cancelled, d))) (row_to_task ?q) busy_db = None"
    "we_loop (runner_env (\<lambda>w t d. (Cancelled, d))) ''w1'' (row_to_task ?q) busy_db = (Cancelled, busy_db)"
    "tr_status ?q = TInProgress" "tr_lease_holder ?q = Some ''w1''"
    using row by (simp_all add: tasks_get_row runner_env_def)
  from cancelled_run_strands [OF f(1-3) busy_db_ok row f(4,5), of 0] show ?thesis by blast
qed

end
