(* ===== verification/Auto_Wake.thy ===== *)
theory Auto_Wake
  imports Restart_Limits Mail_Watcher
begin

text \<open>
  The wakeups of the scheduler's tick that no task asks for: an idle agent with new mail gets a
  task to read it (Phase 0), a parked task whose resume flag is set becomes pending again
  (Phase 0.7). The goal starts with a constant text and ends with the hint, so that the prompt
  prefix stays the same.
\<close>

section \<open>The inbox task\<close>

definition auto_inbox_goal :: string where
  "auto_inbox_goal =
     ''Check your inbox: call `mailbox_read()` to see your unread mail (listing only '' @ em_dash @
     '' titles + sizes; use `mailbox_get_message(msg_id=N)` for any full body you actually need). '' @
     ''Handle each item per its urgency: blocker/high '' @ bytes [226, 134, 146] @
     '' respond now via `mailbox_send`; normal '' @ bytes [226, 134, 146] @
     '' acknowledge or note; FYIs you don't want to reply to are still auto-marked read by `mailbox_read`.''"

definition auto_inbox_acceptance :: string where
  "auto_inbox_acceptance =
     ''Inbox is processed: replies sent for items needing a response; '' @
     ''no-action items got `mark_read` if you skipped mailbox_read.''"

definition volatile_hint :: "mail_message \<Rightarrow> string" where
  "volatile_hint m =
     newline @ newline @ ''Hint: scheduler woke you because mail id='' @ id_text (msg_id m) @
     '' from '' @ msg_sender m @ '' (urgency='' @ urgency_str (msg_urgency m) @ '', title='' @
     (case msg_title m of None \<Rightarrow> ''None'' | Some t \<Rightarrow> py_repr t) @ '') is unread.''"

definition inbox_spec :: "agent \<Rightarrow> mail_message \<Rightarrow> task_spec" where
  "inbox_spec a m =
     (new_task_spec (agent_id a) (auto_inbox_goal @ volatile_hint m) auto_inbox_acceptance)
       \<lparr>spec_meta := Some
          [(''auto_dispatched'', JBool True),
           (''triggered_by_mail_id'', (case msg_id m of None \<Rightarrow> JNull | Some i \<Rightarrow> JInt i)),
           (''triggered_by_urgency'', JStr (urgency_str (msg_urgency m))),
           (''thread_id'', (case oget (msg_meta m) ''thread_id'' of None \<Rightarrow> JNull | Some j \<Rightarrow> j))]\<rparr>"

definition above_cursor :: "int \<Rightarrow> mail_message \<Rightarrow> bool" where
  "above_cursor c m \<longleftrightarrow> (case msg_id m of None \<Rightarrow> False | Some i \<Rightarrow> c < i)"

definition auto_dispatch_one_agent ::
    "(nat \<Rightarrow> string) \<Rightarrow> usec \<Rightarrow> string set \<Rightarrow> agent \<Rightarrow> (db, unit) exec" where
  "auto_dispatch_one_agent uuid now busy a =
     bnd (step (get_last_auto_triggered_id (agent_id a))) (\<lambda>last_id.
     bnd (query (read_unread (agent_id a) (Some ''normal'') 50)) (\<lambda>u. case u of
       Inl e \<Rightarrow> throw e
     | Inr unread \<Rightarrow>
         (case filter (above_cursor last_id) unread of
            [] \<Rightarrow> ret ()
          | m0 # ms \<Rightarrow>
              (if agent_id a \<in> busy then ret ()
               else seqn (tasks_create uuid (now div 1000) (inbox_spec a m0))
                      (upd (set_last_auto_triggered_id (agent_id a) (the (msg_id m0))))))))"

definition auto_dispatch_for_unread_mail :: "(nat \<Rightarrow> string) \<Rightarrow> usec \<Rightarrow> (db, unit) exec" where
  "auto_dispatch_for_unread_mail uuid now =
     bnd (query (agents_list_all False)) (\<lambda>agents.
     bnd (query active_owner_agent_ids) (\<lambda>busy.
       for_each (\<lambda>a. if agent_id a = ''owner'' then ret ()
                     else try_except (auto_dispatch_one_agent uuid now busy a) (\<lambda>e. ret ())) agents))"

section \<open>Parked tasks\<close>

definition resume_parked_tasks :: "usec \<Rightarrow> (db, unit) exec" where
  "resume_parked_tasks now =
     bnd (query (find_resumable 20))
       (for_each (\<lambda>t. seqn (step (resume (now div 1000) (task_id t))) (ret ())))"

section \<open>Invariant and exceptions\<close>

lemma keeps_case_list [keeps_intros]:
  "keeps I m \<Longrightarrow> (\<And>x xs. keeps I (k x xs)) \<Longrightarrow> keeps I (case l of [] \<Rightarrow> m | x # xs \<Rightarrow> k x xs)"
  by (cases l) auto

lemma plain_case_list [plain_intros]:
  "plain m \<Longrightarrow> (\<And>x xs. plain (k x xs)) \<Longrightarrow> plain (case l of [] \<Rightarrow> m | x # xs \<Rightarrow> k x xs)"
  by (cases l) auto

lemma keeps_auto_dispatch [keeps_intros]: "keeps db_ok (auto_dispatch_one_agent uuid now busy a)"
  unfolding auto_dispatch_one_agent_def by (intro keeps_intros)

lemma keeps_phase_0 [keeps_intros]:
  "keeps db_ok (auto_dispatch_for_unread_mail uuid now)" "keeps db_ok (resume_parked_tasks now)"
  unfolding auto_dispatch_for_unread_mail_def resume_parked_tasks_def by (intro keeps_intros)+

lemma plain_read_unread: "plain_err (read_unread q u n d)"
  by (auto simp: read_unread_def urgency_floor_def plain_err_def split: option.splits list.splits)

lemma plain_auto_dispatch: "plain (auto_dispatch_one_agent uuid now busy a)"
  unfolding auto_dispatch_one_agent_def
  by (intro plain_intros plain_query_case plain_read_unread)

section \<open>Who is woken\<close>

text \<open>Fresh identifiers.\<close>

definition uuid_fresh :: "(nat \<Rightarrow> string) \<Rightarrow> db \<Rightarrow> bool" where
  "uuid_fresh uuid d \<longleftrightarrow> (\<forall>m n. uuid m = uuid n \<longrightarrow> m = n)
     \<and> (\<forall>n. uuids_drawn d \<le> n \<longrightarrow> uuid n \<notin> set (task_ids d))"

definition mail_cursor :: "string \<Rightarrow> db \<Rightarrow> int" where
  "mail_cursor q d = cursor_of (mailbox_meta q d)"

text \<open>The page of unread mail that Phase 0 looks at, and what of it is new.\<close>

definition page :: "string \<Rightarrow> db \<Rightarrow> mail_message list" where
  "page q d = (case read_unread q (Some ''normal'') 50 d of Inl e \<Rightarrow> [] | Inr ms \<Rightarrow> ms)"

definition new_mail :: "string \<Rightarrow> db \<Rightarrow> mail_message list" where
  "new_mail q d = filter (above_cursor (mail_cursor q d)) (page q d)"

lemma read_unread_page: "read_unread q (Some ''normal'') 50 d = Inr (page q d)"
proof -
  have "urgency_of_str ''normal'' = Some UNormal" by (simp add: urgency_of_str_Some)
  then show ?thesis by (simp add: page_def read_unread_def urgency_floor_def)
qed

lemma page_messages: "messages d' = messages d \<Longrightarrow> page q d' = page q d"
  by (simp add: page_def read_unread_def)

lemma mailbox_meta_ensure: "mailbox_meta q (ensure_mailbox p d) = mailbox_meta q d"
proof (cases "select_one (\<lambda>b. mb_recipient b = q) (mailboxes d)")
  case None
  then show ?thesis
    by (auto simp: mailbox_meta_def ensure_mailbox_def select_snoc split: option.splits)
next
  case (Some b)
  then show ?thesis by (simp add: mailbox_meta_def ensure_mailbox_def select_snoc)
qed

lemma cursor_ensure [simp]: "mail_cursor q (ensure_mailbox p d) = mail_cursor q d"
  by (simp add: mail_cursor_def mailbox_meta_ensure)

lemma select_one_other_key:
  assumes "\<And>b. f b = p \<Longrightarrow> f (g b) = p" "q \<noteq> p"
  shows "select_one (\<lambda>b. f b = q) (update_where (\<lambda>b. f b = p) g xs) = select_one (\<lambda>b. f b = q) xs"
  using assms by (induction xs) (auto simp: select_one_def update_where_def)

lemma set_cursor_frame:
  "messages (set_last_auto_triggered_id p i d) = messages d"
  "agents (set_last_auto_triggered_id p i d) = agents d"
  "tasks (set_last_auto_triggered_id p i d) = tasks d"
  "uuids_drawn (set_last_auto_triggered_id p i d) = uuids_drawn d"
  "q \<noteq> p \<Longrightarrow> mail_cursor q (set_last_auto_triggered_id p i d) = mail_cursor q d"
proof -
  show "q \<noteq> p \<Longrightarrow> mail_cursor q (set_last_auto_triggered_id p i d) = mail_cursor q d"
    using mailbox_meta_ensure [of q p d]
    by (simp add: mail_cursor_def set_last_auto_triggered_id_def Let_def mailbox_meta_def
        select_one_other_key)
qed (simp_all add: set_last_auto_triggered_id_def Let_def)

text \<open>One agent: it is woken when it is idle and has new mail.\<close>

definition woken :: "string set \<Rightarrow> agent \<Rightarrow> db \<Rightarrow> bool" where
  "woken busy a d \<longleftrightarrow> agent_id a \<noteq> ''owner'' \<and> agent_id a \<notin> busy \<and> new_mail (agent_id a) d \<noteq> []"

definition inbox_task :: "agent \<Rightarrow> mail_message \<Rightarrow> task_row \<Rightarrow> bool" where
  "inbox_task a m q \<longleftrightarrow> tr_agent q = Some (agent_id a) \<and> tr_status q = TPending
     \<and> tr_meta q = spec_meta (inbox_spec a m) \<and> tr_goal q = auto_inbox_goal @ volatile_hint m"

definition wake_frame :: "agent \<Rightarrow> db \<Rightarrow> db \<Rightarrow> bool" where
  "wake_frame a d d' \<longleftrightarrow> messages d' = messages d \<and> agents d' = agents d
     \<and> (\<forall>q. q \<noteq> agent_id a \<longrightarrow> mail_cursor q d' = mail_cursor q d)"

lemma wake_step:
  assumes fresh: "uuid_fresh uuid d"
    and a: "r \<in> set (agents d)" "a = row_to_agent r" "ar_id r \<noteq> []"
  shows "\<exists>d'. (if agent_id a = ''owner'' then ret ()
         else try_except (auto_dispatch_one_agent uuid now busy a) (\<lambda>e. ret ())) d = (Inr (), d')
     \<and> wake_frame a d d' \<and> uuid_fresh uuid d'
     \<and> (if woken busy a d
        then \<exists>q. tasks d' = tasks d @ [q] \<and> inbox_task a (hd (new_mail (agent_id a) d)) q
        else tasks d' = tasks d \<and> mail_cursor (agent_id a) d' = mail_cursor (agent_id a) d)"
proof (cases "agent_id a = ''owner''")
  case True
  then show ?thesis using fresh by (simp add: ret_def wake_frame_def woken_def)
next
  case False
  let ?aid = "agent_id a" and ?t = "now div 1000"
  let ?d1 = "ensure_mailbox ?aid d"
  have ids: "?aid = ar_id r" using a(2) by (simp add: row_to_agent_def)
  have fresh1: "uuid_fresh uuid ?d1" using fresh by (simp add: uuid_fresh_def)
  have g: "get_last_auto_triggered_id ?aid d = (mail_cursor ?aid d, ?d1)"
    by (simp add: get_last_auto_triggered_id_def Let_def mail_cursor_def mailbox_meta_ensure)
  have u: "read_unread ?aid (Some ''normal'') 50 ?d1 = Inr (page ?aid d)"
    using read_unread_page [of ?aid ?d1] page_messages [of ?d1 d ?aid] by simp
  have run: "auto_dispatch_one_agent uuid now busy a d =
     (case new_mail ?aid d of [] \<Rightarrow> (Inr (), ?d1)
      | m0 # ms \<Rightarrow> (if ?aid \<in> busy then (Inr (), ?d1)
          else seqn (tasks_create uuid ?t (inbox_spec a m0))
                 (upd (set_last_auto_triggered_id ?aid (the (msg_id m0)))) ?d1))"
    using g u by (simp add: auto_dispatch_one_agent_def exec_simps new_mail_def split: list.splits)
  show ?thesis
  proof (cases "woken busy a d")
    case w: False
    then have "auto_dispatch_one_agent uuid now busy a d = (Inr (), ?d1)"
      using False run by (auto simp: woken_def split: list.splits)
    with False w fresh1 show ?thesis by (simp add: try_except_def wake_frame_def)
  next
    case w: True
    then obtain m0 ms where m: "new_mail ?aid d = m0 # ms" and idle: "?aid \<notin> busy"
      by (cases "new_mail ?aid d") (auto simp: woken_def)
    have spec: "spec_agent (inbox_spec a m0) = Some ?aid" "spec_parent (inbox_spec a m0) = None"
      by (simp_all add: inbox_spec_def new_task_spec_def)
    obtain x where x: "select_one (\<lambda>r. ar_id r = ?aid) (agents ?d1) = Some x"
      using a(1) ids by (cases "select_one (\<lambda>r. ar_id r = ?aid) (agents d)") (auto simp: select_one_None)
    let ?new = "new_task_row ?t (uuid (uuids_drawn ?d1)) (ar_persona x) (inbox_spec a m0)"
    let ?d2 = "?d1\<lparr>uuids_drawn := Suc (uuids_drawn ?d1), tasks := tasks ?d1 @ [?new]\<rparr>"
    have c: "tasks_create uuid ?t (inbox_spec a m0) ?d1 = (Inr (uuid (uuids_drawn ?d1)), ?d2)"
      by (rule tasks_create_fresh [OF spec(1) _ x])
        (use a(3) ids fresh1 spec(2) in \<open>auto simp: uuid_fresh_def\<close>)
    let ?d3 = "set_last_auto_triggered_id ?aid (the (msg_id m0)) ?d2"
    have cur2: "mail_cursor q ?d2 = mail_cursor q d" for q
    proof -
      have "mail_cursor q ?d2 = mail_cursor q ?d1" by (simp add: mail_cursor_def mailbox_meta_def)
      then show ?thesis by simp
    qed
    have res: "auto_dispatch_one_agent uuid now busy a d = (Inr (), ?d3)"
      using run m idle c by (simp add: seqn_def bnd_def upd_def)
    have "uuid_fresh uuid ?d2"
      using fresh1 by (auto simp: uuid_fresh_def task_ids_def new_task_row_def) (metis Suc_n_not_le_n)
    then have "uuid_fresh uuid ?d3" by (simp add: uuid_fresh_def task_ids_def set_cursor_frame)
    moreover have "wake_frame a d ?d3"
      using cur2 by (simp add: wake_frame_def set_cursor_frame)
    moreover have "inbox_task a m0 ?new"
      by (simp add: inbox_task_def new_task_row_def inbox_spec_def new_task_spec_def)
    ultimately show ?thesis
      using False w res m
      by (intro exI [of _ ?d3]) (auto simp: try_except_def set_cursor_frame)
  qed
qed

text \<open>The whole scan, agent after agent.\<close>

lemma wake_all:
  assumes "uuid_fresh uuid d" "distinct (map agent_id as)"
    and "\<forall>a \<in> set as. \<exists>r \<in> set (agents d). a = row_to_agent r \<and> ar_id r \<noteq> []"
  shows "\<exists>d' new. for_each (\<lambda>a. if agent_id a = ''owner'' then ret ()
         else try_except (auto_dispatch_one_agent uuid now busy a) (\<lambda>e. ret ())) as d = (Inr (), d')
     \<and> messages d' = messages d \<and> agents d' = agents d \<and> uuid_fresh uuid d'
     \<and> tasks d' = tasks d @ new
     \<and> list_all2 (\<lambda>a. inbox_task a (hd (new_mail (agent_id a) d))) (filter (\<lambda>a. woken busy a d) as) new
     \<and> (\<forall>q. q \<notin> agent_id ` set (filter (\<lambda>a. woken busy a d) as) \<longrightarrow> mail_cursor q d' = mail_cursor q d)"
  using assms
proof (induction as arbitrary: d)
  case Nil
  then show ?case by (simp add: ret_def)
next
  case (Cons a as)
  let ?f = "\<lambda>a. if agent_id a = ''owner'' then ret ()
         else try_except (auto_dispatch_one_agent uuid now busy a) (\<lambda>e. ret ())"
  obtain r where r: "r \<in> set (agents d)" "a = row_to_agent r" "ar_id r \<noteq> []"
    using Cons.prems(3) by auto
  obtain d1 where d1: "?f a d = (Inr (), d1)" "wake_frame a d d1" "uuid_fresh uuid d1"
    "if woken busy a d
     then \<exists>q. tasks d1 = tasks d @ [q] \<and> inbox_task a (hd (new_mail (agent_id a) d)) q
     else tasks d1 = tasks d \<and> mail_cursor (agent_id a) d1 = mail_cursor (agent_id a) d"
    using wake_step [OF Cons.prems(1) r, of now busy] by blast
  have same: "messages d1 = messages d" "agents d1 = agents d"
    and cur: "\<And>q. q \<noteq> agent_id a \<Longrightarrow> mail_cursor q d1 = mail_cursor q d"
    using d1(2) by (simp_all add: wake_frame_def)
  have rest: "\<forall>a \<in> set as. \<exists>r \<in> set (agents d1). a = row_to_agent r \<and> ar_id r \<noteq> []"
    using Cons.prems(3) same(2) by simp
  have dist: "distinct (map agent_id as)" "agent_id a \<notin> agent_id ` set as" using Cons.prems(2) by auto
  obtain d' new where d': "for_each ?f as d1 = (Inr (), d')" "messages d' = messages d1"
    "agents d' = agents d1" "uuid_fresh uuid d'" "tasks d' = tasks d1 @ new"
    "list_all2 (\<lambda>a. inbox_task a (hd (new_mail (agent_id a) d1))) (filter (\<lambda>a. woken busy a d1) as) new"
    "\<forall>q. q \<notin> agent_id ` set (filter (\<lambda>a. woken busy a d1) as) \<longrightarrow> mail_cursor q d' = mail_cursor q d1"
    using Cons.IH [OF d1(3) dist(1) rest] by blast
  have nm: "new_mail (agent_id b) d1 = new_mail (agent_id b) d" if "b \<in> set as" for b
  proof -
    have "agent_id b \<noteq> agent_id a" using that dist(2) by (metis imageI)
    then show ?thesis using cur [of "agent_id b"] page_messages [OF same(1)] by (simp add: new_mail_def)
  qed
  have fil: "filter (\<lambda>a. woken busy a d1) as = filter (\<lambda>a. woken busy a d) as"
    by (rule filter_cong) (simp_all add: woken_def nm)
  have l2: "list_all2 (\<lambda>a. inbox_task a (hd (new_mail (agent_id a) d))) (filter (\<lambda>a. woken busy a d) as) new"
    using d'(6) unfolding fil by (rule list.rel_mono_strong) (simp add: nm)
  show ?case
  proof (cases "woken busy a d")
    case True
    with d1(4) obtain q where q: "tasks d1 = tasks d @ [q]" "inbox_task a (hd (new_mail (agent_id a) d)) q"
      by auto
    show ?thesis
      by (intro exI [of _ d'] exI [of _ "q # new"])
        (use True q d' d1(1) same l2 fil cur in \<open>auto simp: seqn_def bnd_def\<close>)
  next
    case False
    with d1(4) have "tasks d1 = tasks d" "mail_cursor (agent_id a) d1 = mail_cursor (agent_id a) d" by simp_all
    then have "mail_cursor q d1 = mail_cursor q d" for q using cur by (cases "q = agent_id a") auto
    then show ?thesis
      by (intro exI [of _ d'] exI [of _ new])
        (use False d' d1(1) same l2 fil \<open>tasks d1 = tasks d\<close> in \<open>auto simp: seqn_def bnd_def\<close>)
  qed
qed

lemma list_all2_left: "list_all2 P xs ys \<Longrightarrow> x \<in> set xs \<Longrightarrow> \<exists>y \<in> set ys. P x y"
  by (induction rule: list_all2_induct) auto

lemma listed_agents:
  assumes "db_ok d"
  shows "distinct (map agent_id (agents_list_all False d))"
    and "a \<in> set (agents_list_all False d) \<longleftrightarrow> (\<exists>r \<in> set (agents d). a = row_to_agent r \<and> ar_status r \<noteq> AArchived)"
proof -
  have "distinct (map ar_id (agents d))" using assms by (simp add: db_ok_defs key_defs)
  then have "distinct (map ar_id (filter (\<lambda>r. ar_status r \<noteq> AArchived) (agents d)))"
    by (rule distinct_map_filter)
  then have "distinct (map ar_id (order_by ar_created (filter (\<lambda>r. ar_status r \<noteq> AArchived) (agents d))))"
    by (simp add: order_by_def distinct_map)
  then show "distinct (map agent_id (agents_list_all False d))"
    by (simp add: agents_list_all_def comp_def row_to_agent_def)
  show "a \<in> set (agents_list_all False d) \<longleftrightarrow> (\<exists>r \<in> set (agents d). a = row_to_agent r \<and> ar_status r \<noteq> AArchived)"
    by (auto simp: agents_list_all_def)
qed

lemma active_owner_iff:
  "q \<in> active_owner_agent_ids d \<longleftrightarrow> (\<exists>t \<in> set (tasks d). tr_agent t = Some q \<and> in_flight (tr_status t))"
  by (force simp: active_owner_agent_ids_def List.map_filter_def)

text \<open>C15: New mail wakes exactly the idle. The scan raises nothing; each live agent other than
  the owner that has no task in flight and has, on its page of fifty unread mails of urgency normal
  or more, one that it was not yet woken for, gets one pending task with the hint and the thread
  of the most urgent such mail, in the order of the agents; nobody else gets one. Scanning again
  right after creates nothing.\<close>

theorem auto_wake_exact:
  assumes "db_ok d" "uuid_fresh uuid d" "\<forall>r \<in> set (agents d). ar_id r \<noteq> []"
  shows "\<exists>d' new. auto_dispatch_for_unread_mail uuid now d = (Inr (), d') \<and> db_ok d'
     \<and> tasks d' = tasks d @ new
     \<and> list_all2 (\<lambda>a. inbox_task a (hd (new_mail (agent_id a) d)))
         (filter (\<lambda>a. woken (active_owner_agent_ids d) a d) (agents_list_all False d)) new
     \<and> (\<exists>d''. auto_dispatch_for_unread_mail uuid later d' = (Inr (), d'') \<and> tasks d'' = tasks d')"
proof -
  let ?as = "agents_list_all False d" and ?busy = "active_owner_agent_ids d"
  have as: "\<forall>a \<in> set ?as. \<exists>r \<in> set (agents d). a = row_to_agent r \<and> ar_id r \<noteq> []"
    using assms(3) listed_agents(2) [OF assms(1)] by blast
  have phase: "auto_dispatch_for_unread_mail uuid t e = for_each (\<lambda>a. if agent_id a = ''owner'' then ret ()
         else try_except (auto_dispatch_one_agent uuid t (active_owner_agent_ids e) a) (\<lambda>e. ret ()))
       (agents_list_all False e) e" for t e
    by (simp add: auto_dispatch_for_unread_mail_def bnd_query)
  obtain d' new where d': "auto_dispatch_for_unread_mail uuid now d = (Inr (), d')"
    "messages d' = messages d" "agents d' = agents d" "uuid_fresh uuid d'" "tasks d' = tasks d @ new"
    "list_all2 (\<lambda>a. inbox_task a (hd (new_mail (agent_id a) d))) (filter (\<lambda>a. woken ?busy a d) ?as) new"
    "\<forall>q. q \<notin> agent_id ` set (filter (\<lambda>a. woken ?busy a d) ?as) \<longrightarrow> mail_cursor q d' = mail_cursor q d"
    using wake_all [OF assms(2) listed_agents(1) [OF assms(1)] as, of now ?busy]
    unfolding phase by blast
  have ok: "db_ok d'" using keepsD [OF keeps_phase_0(1) assms(1), of uuid now] d'(1) by simp
  have as': "agents_list_all False d' = ?as" using d'(3) by (simp add: agents_list_all_def)
  have quiet: "\<not> woken (active_owner_agent_ids d') a d'" if a: "a \<in> set ?as" for a
  proof (cases "woken ?busy a d")
    case True
    with a have "a \<in> set (filter (\<lambda>a. woken ?busy a d) ?as)" by simp
    then obtain q where "q \<in> set new" "inbox_task a (hd (new_mail (agent_id a) d)) q"
      using list_all2_left [OF d'(6)] by blast
    then have "agent_id a \<in> active_owner_agent_ids d'"
      using d'(5) by (auto simp: active_owner_iff inbox_task_def)
    then show ?thesis by (simp add: woken_def)
  next
    case False
    have "agent_id a \<notin> agent_id ` set (filter (\<lambda>a. woken ?busy a d) ?as)"
    proof
      assume "agent_id a \<in> agent_id ` set (filter (\<lambda>a. woken ?busy a d) ?as)"
      then obtain b where b: "b \<in> set ?as" "woken ?busy b d" "agent_id b = agent_id a" by auto
      then have "b = a" using a listed_agents(1) [OF assms(1)] by (auto simp: distinct_map inj_on_def)
      with b(2) False show False by simp
    qed
    then have "mail_cursor (agent_id a) d' = mail_cursor (agent_id a) d" using d'(7) by simp
    then have "new_mail (agent_id a) d' = new_mail (agent_id a) d"
      using page_messages [OF d'(2)] by (simp add: new_mail_def)
    moreover have "?busy \<subseteq> active_owner_agent_ids d'" using d'(5) by (auto simp: active_owner_iff)
    ultimately show ?thesis using False by (auto simp: woken_def)
  qed
  have as2: "\<forall>a \<in> set ?as. \<exists>r \<in> set (agents d'). a = row_to_agent r \<and> ar_id r \<noteq> []"
    using as d'(3) by simp
  have none: "filter (\<lambda>a. woken (active_owner_agent_ids d') a d') ?as = []"
    using quiet by (simp add: filter_empty_conv)
  obtain d'' new' where d'': "auto_dispatch_for_unread_mail uuid later d' = (Inr (), d'')"
    "tasks d'' = tasks d' @ new'"
    "list_all2 (\<lambda>a. inbox_task a (hd (new_mail (agent_id a) d')))
       (filter (\<lambda>a. woken (active_owner_agent_ids d') a d') ?as) new'"
    using wake_all [OF d'(4) listed_agents(1) [OF assms(1)] as2, of later "active_owner_agent_ids d'"]
    unfolding phase as' by blast
  have "new' = []" using d''(3) unfolding none by simp
  with d'' d' ok show ?thesis by auto
qed

definition waiting_db :: db where
  "waiting_db = sample_db
     \<lparr>mailboxes := [\<lparr>mb_recipient = ''worker/a'', mb_meta = None\<rparr>], tasks := [],
      messages := [sample_mail_row 1 ''worker/a'' UNormal], message_seq := 1\<rparr>"

lemma waiting_new_mail: "new_mail ''worker/a'' waiting_db = [row_to_msg (sample_mail_row 1 ''worker/a'' UNormal)]"
  "new_mail ''dispatcher'' waiting_db = []"
proof -
  have n: "urgency_of_str ''normal'' = Some UNormal" by (simp add: urgency_of_str_Some)
  show "new_mail ''worker/a'' waiting_db = [row_to_msg (sample_mail_row 1 ''worker/a'' UNormal)]"
    "new_mail ''dispatcher'' waiting_db = []"
    by (simp_all add: new_mail_def page_def read_unread_def urgency_floor_def n waiting_db_def sample_db_def
        sample_mail_row_def new_message_def message_row_of_def sql_limit_def order_by_def mail_cursor_def
        mailbox_meta_def select_one_def cursor_of_def json_extract_def above_cursor_def row_to_msg_def)
qed

lemma auto_wake_exact_witness:
  "\<exists>d' q. auto_dispatch_for_unread_mail sample_uuid 0 waiting_db = (Inr (), d')
     \<and> tasks d' = [q] \<and> tr_agent q = Some ''worker/a'' \<and> tr_status q = TPending"
proof -
  have ok: "db_ok waiting_db"
    by (simp add: waiting_db_def sample_db_def empty_db_def db_ok_defs key_defs sample_agent_def
        sample_mail_row_def new_message_def)
  have fresh: "uuid_fresh sample_uuid waiting_db"
    by (simp add: uuid_fresh_def sample_uuid_def waiting_db_def task_ids_def)
  have ids: "\<forall>r \<in> set (agents waiting_db). ar_id r \<noteq> []"
    by (simp add: waiting_db_def sample_db_def sample_agent_def)
  let ?a = "row_to_agent (sample_agent ''worker/a'' (Some ''dispatcher'') None)"
  have busy: "active_owner_agent_ids waiting_db = {}"
    by (simp add: active_owner_agent_ids_def waiting_db_def List.map_filter_def)
  have all: "agents_list_all False waiting_db = [row_to_agent (sample_agent ''dispatcher'' None None), ?a]"
    by (simp add: agents_list_all_def waiting_db_def sample_db_def sample_agent_def order_by_def)
  have w: "filter (\<lambda>a. woken (active_owner_agent_ids waiting_db) a waiting_db)
      (agents_list_all False waiting_db) = [?a]"
    unfolding all busy by (simp add: woken_def row_to_agent_def sample_agent_def waiting_new_mail)
  from auto_wake_exact [OF ok fresh ids, of 0] obtain d' new where
    d': "auto_dispatch_for_unread_mail sample_uuid 0 waiting_db = (Inr (), d')" "tasks d' = tasks waiting_db @ new"
    "list_all2 (\<lambda>a. inbox_task a (hd (new_mail (agent_id a) waiting_db))) [?a] new"
    unfolding w by blast
  then obtain q where "new = [q]" "inbox_task ?a (hd (new_mail (agent_id ?a) waiting_db)) q"
    by (auto simp: list_all2_Cons1)
  then show ?thesis
    using d' by (auto simp: inbox_task_def waiting_db_def row_to_agent_def sample_agent_def)
qed

section \<open>A backlog that nobody reads\<close>

lemma insort_key_behind:
  "n \<le> length ys \<Longrightarrow> \<forall>y \<in> set (take n ys). k y < k x \<Longrightarrow> take n (insort_key k x ys) = take n ys"
proof (induction ys arbitrary: n)
  case (Cons y ys)
  then show ?case by (cases n) auto
qed simp

lemma sort_key_snoc:
  "\<forall>y \<in> set xs. k y \<noteq> k x \<Longrightarrow> sort_key k (xs @ [x]) = insort_key k x (sort_key k xs)"
proof (induction xs)
  case (Cons y xs)
  then have "k x \<noteq> k y" by auto
  with Cons show ?case by (simp add: insort_key_left_comm)
qed simp

text \<open>The query behind the page.\<close>

definition waits :: "string \<Rightarrow> message_row \<Rightarrow> bool" where
  "waits q r \<longleftrightarrow> mr_recipient r = q \<and> mr_read r = None \<and> 2 \<le> urgency_rank (mr_urgency r)"

definition page_key :: "message_row \<Rightarrow> int \<times> int" where
  "page_key r = (- urgency_rank (mr_urgency r), mr_id r)"

lemma page_rows: "page q d = map row_to_msg (take 50 (sort_key page_key (filter (waits q) (messages d))))"
proof -
  have "urgency_of_str ''normal'' = Some UNormal" by (simp add: urgency_of_str_Some)
  then show ?thesis
    unfolding waits_def [abs_def] page_key_def [abs_def]
    by (simp add: page_def read_unread_def urgency_floor_def sql_limit_def order_by_def)
qed

lemma page_behind:
  assumes ok: "db_ok d" and full: "length (page q d) = 50"
    and rank: "\<forall>m \<in> set (page q d). urgency_rank (msg_urgency msg) \<le> urgency_rank (msg_urgency m)"
    and ins: "insert_message now msg d = (Inr i, d')"
  shows "page q d' = page q d"
proof (cases "messages d' = messages d")
  case True
  then show ?thesis by (rule page_messages)
next
  case False
  let ?r = "message_row_of now i msg" and ?xs = "filter (waits q) (messages d)"
  have i: "i \<noteq> - 1 \<longrightarrow> messages d' = messages d @ [?r]"
    using insert_message_appends [of now msg d i] ins by simp
  have neg: "i = - 1 \<longrightarrow> messages d' = messages d"
    using insert_message_refused [OF ok ins] by simp
  with False i have app: "messages d' = messages d @ [?r]" by auto
  have "i = - 1 \<or> i = message_seq d + 1" using insert_message_id [OF ok, of now msg i] ins by auto
  with neg False have seq: "i = message_seq d + 1" by auto
  have below: "mr_id y < i" if "y \<in> set (messages d)" for y
    using that ok seq by (auto simp: db_ok_defs key_defs list_all_iff)
  show ?thesis
  proof (cases "waits q ?r")
    case False
    then show ?thesis by (simp add: page_rows app)
  next
    case True
    have ne: "\<forall>y \<in> set ?xs. page_key y \<noteq> page_key ?r"
      using below by (auto simp: page_key_def)
    have long: "50 \<le> length (sort_key page_key ?xs)"
      using full by (simp add: page_rows)
    have behind: "\<forall>y \<in> set (take 50 (sort_key page_key ?xs)). page_key y < page_key ?r"
    proof
      fix y assume y: "y \<in> set (take 50 (sort_key page_key ?xs))"
      then have "y \<in> set ?xs" by (metis in_set_takeD set_sort)
      then have "mr_id y < i" using below by simp
      moreover have "row_to_msg y \<in> set (page q d)" using y by (simp add: page_rows)
      then have "urgency_rank (msg_urgency msg) \<le> urgency_rank (mr_urgency y)"
        using rank by (force simp: row_to_msg_def)
      ultimately show "page_key y < page_key ?r" by (simp add: page_key_def message_row_of_def)
    qed
    have "take 50 (sort_key page_key (filter (waits q) (messages d')))
        = take 50 (insort_key page_key ?r (sort_key page_key ?xs))"
      using True by (simp add: app sort_key_snoc [OF ne])
    also have "\<dots> = take 50 (sort_key page_key ?xs)" by (rule insort_key_behind [OF long behind])
    finally show ?thesis by (simp add: page_rows)
  qed
qed

text \<open>An unread backlog silences a mailbox. When fifty unread mails, each already used for
  a wakeup, fill the page of an agent, no further mail that is not more urgent than all of them
  ever wakes it: the insertion succeeds, the agent is idle, and the scan still sees nothing new.\<close>

theorem stale_backlog_hides_mail:
  assumes "db_ok d" "length (page q d) = 50" "new_mail q d = []"
    and "\<forall>m \<in> set (page q d). urgency_rank (msg_urgency msg) \<le> urgency_rank (msg_urgency m)"
    and "insert_message now msg d = (Inr i, d')"
  shows "new_mail q d' = [] \<and> (\<forall>busy a. agent_id a = q \<longrightarrow> \<not> woken busy a d')"
proof -
  have d': "d' = snd (insert_message now msg d)" using assms(5) by simp
  have "mail_cursor q d' = mail_cursor q (ensure_mailbox (msg_recipient msg) d)"
    unfolding d' by (simp add: mail_cursor_def mailbox_meta_def insert_message_def Let_def)
  then have "mail_cursor q d' = mail_cursor q d" by simp
  then have "new_mail q d' = []"
    using page_behind [OF assms(1,2,4,5)] assms(3) by (simp add: new_mail_def)
  then show ?thesis by (simp add: woken_def)
qed

definition stale_rows :: "message_row list" where
  "stale_rows = map (\<lambda>i. sample_mail_row (int i) ''worker/a'' UNormal) [1 ..< 51]"

definition stale_db :: db where
  "stale_db = sample_db
     \<lparr>mailboxes := [\<lparr>mb_recipient = ''worker/a'',
                     mb_meta = Some [(''last_auto_triggered_msg_id'', JInt 50)]\<rparr>],
      tasks := [], messages := stale_rows, message_seq := 50\<rparr>"

lemma sample_mail_row_simps [simp]:
  "mr_id (sample_mail_row i q u) = i" "mr_recipient (sample_mail_row i q u) = q"
  "mr_external (sample_mail_row i q u) = ''e'' @ str_of_int i" "mr_urgency (sample_mail_row i q u) = u"
  "mr_read (sample_mail_row i q u) = None" "mr_task (sample_mail_row i q u) = None"
  "mr_parent (sample_mail_row i q u) = None"
  by (simp_all add: sample_mail_row_def new_message_def message_row_of_def)

lemma stale_page: "page ''worker/a'' stale_db = map row_to_msg stale_rows"
proof -
  have f: "filter (waits ''worker/a'') stale_rows = stale_rows"
    by (rule filter_True) (auto simp: stale_rows_def waits_def)
  have "sorted (map page_key stale_rows)"
    by (simp add: stale_rows_def page_key_def comp_def sorted_map sorted_wrt_mono_rel)
  then have s: "sort_key page_key stale_rows = stale_rows" by (rule sort_key_id_if_sorted)
  have "length stale_rows = 50" by (simp add: stale_rows_def)
  then show ?thesis by (simp add: page_rows stale_db_def f s)
qed

lemma stale_db_ok: "db_ok stale_db"
proof -
  have ids: "map mr_id stale_rows = map int [1 ..< 51]"
    by (simp add: stale_rows_def comp_def del: upt_rec_numeral)
  have "sorted_wrt (<) (map mr_id stale_rows)" unfolding ids by (simp add: sorted_wrt_map)
  moreover have "list_all (\<lambda>i. 0 < i \<and> i \<le> 50) (map mr_id stale_rows)"
    unfolding ids by (simp add: list_all_iff)
  moreover have "distinct (map (\<lambda>r. (mr_recipient r, mr_external r)) stale_rows)"
    unfolding stale_rows_def by (simp add: distinct_map inj_on_def comp_def del: upt_rec_numeral)
  moreover have "list_all (\<lambda>m. m = ''worker/a'') (map mr_recipient stale_rows)"
    "list_all (\<lambda>v. v = None) (map mr_task stale_rows)" "list_all (\<lambda>v. v = None) (map mr_parent stale_rows)"
    by (simp_all add: stale_rows_def list_all_iff del: upt_rec_numeral)
  ultimately show ?thesis
    by (simp add: stale_db_def sample_db_def empty_db_def db_ok_defs key_defs sample_agent_def list_all_iff)
qed

lemma stale_backlog_hides_mail_witness:
  "\<exists>i d'. insert_message 0 (new_message ''worker/a'' ''news'' ''owner'' UNormal ''hello'') stale_db = (Inr i, d')
     \<and> \<not> woken {} (row_to_agent (sample_agent ''worker/a'' (Some ''dispatcher'') None)) d'"
proof -
  let ?m = "new_message ''worker/a'' ''news'' ''owner'' UNormal ''hello''"
  obtain i d' where ins: "insert_message 0 ?m stale_db = (Inr i, d')"
    using insert_message_succeeds [of ?m stale_db 0]
    by (cases "insert_message 0 ?m stale_db") (auto simp: new_message_def)
  have full: "length (page ''worker/a'' stale_db) = 50"
    by (simp add: stale_page stale_rows_def)
  have "mail_cursor ''worker/a'' stale_db = 50"
    by (simp add: mail_cursor_def mailbox_meta_def stale_db_def select_one_def cursor_of_def json_extract_def)
  then have none: "new_mail ''worker/a'' stale_db = []"
    by (auto simp: new_mail_def stale_page filter_empty_conv stale_rows_def above_cursor_def row_to_msg_def
        simp del: upt_rec_numeral)
  have rank: "\<forall>m \<in> set (page ''worker/a'' stale_db). urgency_rank (msg_urgency ?m) \<le> urgency_rank (msg_urgency m)"
    by (auto simp: stale_page stale_rows_def row_to_msg_def new_message_def simp del: upt_rec_numeral)
  from stale_backlog_hides_mail [OF stale_db_ok full none rank ins] ins
  show ?thesis by (auto simp: row_to_agent_def sample_agent_def)
qed

end
