(* ===== verification/Tick.thy ===== *)
theory Tick
  imports Wakeup_Run Auto_Wake Maintenance "HOL-Library.Sublist"
begin

text \<open>
  One tick of the scheduler, \<open>Scheduler._tick\<close>, from the guarded mail phases over lease recovery
  (Phase 2) and dispatch (Phase 3) to maintenance (Phase 4), and the main loop as a sequence of
  ticks and of exits of subprocesses. In subprocess mode a task is run by starting a process, which
  only enters it in the table of active subprocesses; \<open>te_spawn\<close> says what starting the process raises, if
  anything. The other parameters are those of the phases.
\<close>

section \<open>Running a task\<close>

record tick_env =
  te_cron :: croniter
  te_float :: "rat \<Rightarrow> string"
  te_uuid :: "nat \<Rightarrow> string"
  te_spawn :: "string \<Rightarrow> exn option"
  te_wakeup :: wakeup_env

definition available_slots :: "sched_config \<Rightarrow> sched_state \<Rightarrow> int" where
  "available_slots cf s =
     (if \<not> cf_spawn_subprocess cf then 1
      else max 0 (max_concurrent cf - int (length (sc_active s))))"

definition set_active :: "string \<Rightarrow> sched_state \<Rightarrow> sched_state" where
  "set_active tid s = (if tid \<in> set (sc_active s) then s else s\<lparr>sc_active := sc_active s @ [tid]\<rparr>)"

text \<open>Only a missing executable is caught; any other error of the start leaves the tick.\<close>

definition file_not_found :: "exn \<Rightarrow> bool" where
  "file_not_found e \<longleftrightarrow> (case e of Exn t m \<Rightarrow> t = ''FileNotFoundError'' | SimulatedKill p \<Rightarrow> False)"

definition run_task_in_subprocess :: "tick_env \<Rightarrow> usec \<Rightarrow> string \<Rightarrow> (sched_state, unit) exec" where
  "run_task_in_subprocess te now tid =
     (case te_spawn te tid of
        None \<Rightarrow> upd (set_active tid)
      | Some e \<Rightarrow>
          (if file_not_found e then with_db (seqn (step (update_status (now div 1000) tid TFailed None)) (ret ()))
           else throw e))"

definition run_task :: "sched_config \<Rightarrow> tick_env \<Rightarrow> usec \<Rightarrow> string \<Rightarrow> (sched_state, unit) exec" where
  "run_task cf te now tid =
     (if cf_spawn_subprocess cf then run_task_in_subprocess te now tid
      else with_db (run_task_inline (te_wakeup te) (te_uuid te) now now tid))"

text \<open>The reaper of a subprocess: whatever its exit code, it leaves the table and the database
  stays.\<close>

definition reap_subprocess :: "string \<Rightarrow> sched_state \<Rightarrow> sched_state" where
  "reap_subprocess tid s = s\<lparr>sc_active := filter (\<lambda>x. x \<noteq> tid) (sc_active s)\<rparr>"

section \<open>Phase 2: expired leases\<close>

definition not_active :: "sched_state \<Rightarrow> task list \<Rightarrow> task list" where
  "not_active s ts = filter (\<lambda>t. task_id t \<notin> set (sc_active s)) ts"

fun recover_each ::
    "sched_config \<Rightarrow> tick_env \<Rightarrow> usec \<Rightarrow> task list \<Rightarrow> (sched_state, unit) exec" where
  "recover_each cf te now [] = ret ()"
| "recover_each cf te now (t # ts) =
     bnd (with_db (ephemeral_recovery_exceeded (te_float te) now t)) (\<lambda>gone.
       if gone then recover_each cf te now ts
       else bnd (with_db (singleton_recovery_exceeded (cf_singleton_recovery_max cf) now t)) (\<lambda>given_up.
         if given_up then recover_each cf te now ts
         else seqn (run_task cf te now (task_id t))
                (bnd (query (available_slots cf)) (\<lambda>slots.
                   if slots \<le> 0 then ret () else recover_each cf te now ts))))"

definition recover_expired :: "sched_config \<Rightarrow> tick_env \<Rightarrow> usec \<Rightarrow> (sched_state, unit) exec" where
  "recover_expired cf te now =
     bnd (query (available_slots cf)) (\<lambda>slots.
       if slots \<le> 0 then ret ()
       else bnd (query (\<lambda>s. not_active s (find_expired_leases (now div 1000) slots (sc_db s)))) (\<lambda>ts.
         recover_each cf te now (take (nat slots) ts)))"

section \<open>Phase 3: pending tasks\<close>

definition is_singleton_task :: "string set \<Rightarrow> task \<Rightarrow> bool" where
  "is_singleton_task singles t \<longleftrightarrow> (case task_agent t of None \<Rightarrow> False | Some a \<Rightarrow> a \<in> singles)"

definition singletons_first :: "string set \<Rightarrow> task list \<Rightarrow> task list" where
  "singletons_first singles ts = sort_key (\<lambda>t. if is_singleton_task singles t then 0 else 1 :: int) ts"

definition nonsingleton_cap :: "sched_config \<Rightarrow> int \<Rightarrow> sched_state \<Rightarrow> int" where
  "nonsingleton_cap cf slots s =
     (if cf_spawn_subprocess cf \<and> 1 < max_concurrent cf
      then max 0 (max_concurrent cf - 1 - int (length (sc_active s))) else slots)"

text \<open>The agent of a task is busy: it was given a task in this tick, or has an open wakeup.\<close>

definition agent_taken :: "string set \<Rightarrow> task \<Rightarrow> sched_state \<Rightarrow> bool" where
  "agent_taken claimed t s \<longleftrightarrow>
     (case task_agent t of None \<Rightarrow> False
      | Some a \<Rightarrow> a \<in> claimed \<or> has_active_for_agent a (sc_db s))"

definition claim_agent :: "task \<Rightarrow> string set \<Rightarrow> string set" where
  "claim_agent t claimed = (case task_agent t of None \<Rightarrow> claimed | Some a \<Rightarrow> insert a claimed)"

fun dispatch_each ::
    "sched_config \<Rightarrow> tick_env \<Rightarrow> usec \<Rightarrow> string set \<Rightarrow> int \<Rightarrow> int \<Rightarrow> int \<Rightarrow> int \<Rightarrow> string set \<Rightarrow> task list
     \<Rightarrow> (sched_state, unit) exec" where
  "dispatch_each cf te now singles slots cap n m claimed [] = ret ()"
| "dispatch_each cf te now singles slots cap n m claimed (t # ts) =
     (if slots \<le> n then ret ()
      else if \<not> is_singleton_task singles t \<and> cap \<le> m
      then dispatch_each cf te now singles slots cap n m claimed ts
      else bnd (query (agent_taken claimed t)) (\<lambda>taken.
        if taken then dispatch_each cf te now singles slots cap n m claimed ts
        else seqn (run_task cf te now (task_id t))
               (bnd (query (available_slots cf)) (\<lambda>free.
                  if free \<le> 0 then ret ()
                  else dispatch_each cf te now singles slots cap (n + 1)
                         (if is_singleton_task singles t then m else m + 1)
                         (claim_agent t claimed) ts))))"

definition candidates_of :: "sched_config \<Rightarrow> int \<Rightarrow> sched_state \<Rightarrow> task list" where
  "candidates_of cf slots s =
     singletons_first (bootstrap_singleton_ids (sc_db s))
       (not_active s (find_pending (max (slots * 4) slots) (sc_db s)))"

definition dispatch_pending :: "sched_config \<Rightarrow> tick_env \<Rightarrow> usec \<Rightarrow> int \<Rightarrow> (sched_state, unit) exec" where
  "dispatch_pending cf te now slots =
     bnd (query (candidates_of cf slots)) (\<lambda>pending.
     bnd (query (\<lambda>s. bootstrap_singleton_ids (sc_db s))) (\<lambda>singles.
     bnd (query (nonsingleton_cap cf slots)) (\<lambda>cap.
       dispatch_each cf te now singles slots cap 0 0 {} pending)))"

section \<open>Phase 4: maintenance\<close>

text \<open>\<open>clock\<close> is the monotonic clock in microseconds.\<close>

definition maybe_run_maintenance ::
    "sched_config \<Rightarrow> usec \<Rightarrow> int \<Rightarrow> (sched_state, unit) exec" where
  "maybe_run_maintenance cf now clock =
     (if cf_retention_days cf \<le> 0 then ret ()
      else bnd (query sc_last_maintenance) (\<lambda>last_run.
        if (case last_run of None \<Rightarrow> False
            | Some t \<Rightarrow> clock - t < cf_maintenance_interval cf * 1000000) then ret ()
        else seqn (upd (\<lambda>s. s\<lparr>sc_last_maintenance := Some clock\<rparr>))
               (try_except (seqn (with_db (run_maintenance (now div 1000) (cf_retention_days cf) 50)) (ret ()))
                  (\<lambda>e. ret ()))))"

section \<open>The tick\<close>

definition guarded_phase :: "(sched_state, unit) exec \<Rightarrow> (sched_state, unit) exec" where
  "guarded_phase m = try_except m (\<lambda>e. ret ())"

definition mail_phases :: "sched_config \<Rightarrow> tick_env \<Rightarrow> usec \<Rightarrow> (sched_state, unit) exec" where
  "mail_phases cf te now =
     seqn (guarded_phase (with_db (deliver_scheduled_mail (te_cron te) now)))
       (seqn (guarded_phase (resolve_fan_in_barriers cf now))
         (seqn (run_if (cf_auto_wake cf)
                  (guarded_phase (with_db (auto_dispatch_for_unread_mail (te_uuid te) now))))
           (seqn (guarded_phase (with_db (resume_parked_tasks now)))
             (guarded_phase (with_db (reap_ephemeral_agents (te_float te) (te_uuid te) now))))))"

text \<open>With no slot free the tick ends before Phase 3 and Phase 4.\<close>

definition tick :: "sched_config \<Rightarrow> tick_env \<Rightarrow> usec \<Rightarrow> int \<Rightarrow> (sched_state, unit) exec" where
  "tick cf te now clock =
     seqn (mail_phases cf te now)
       (seqn (recover_expired cf te now)
         (bnd (query (available_slots cf)) (\<lambda>slots.
            if slots \<le> 0 then ret ()
            else seqn (dispatch_pending cf te now slots) (maybe_run_maintenance cf now clock))))"

section \<open>The main loop\<close>

text \<open>What happens to a running scheduler: a tick, whose exceptions are logged, or the exit of a
  subprocess. The loop ends at the first event after a request to stop.\<close>

datatype sched_event = Tick usec int | Exited string

definition on_event :: "sched_config \<Rightarrow> tick_env \<Rightarrow> sched_event \<Rightarrow> sched_state \<Rightarrow> sched_state" where
  "on_event cf te e s =
     (case e of
        Tick now clock \<Rightarrow> snd (try_except (tick cf te now clock) (\<lambda>e. ret ()) s)
      | Exited tid \<Rightarrow> reap_subprocess tid s)"

definition run_events :: "sched_config \<Rightarrow> tick_env \<Rightarrow> sched_event list \<Rightarrow> sched_state \<Rightarrow> sched_state" where
  "run_events cf te es s = fold (on_event cf te) es s"

section \<open>What Phase 3 dispatches\<close>

text \<open>Subprocess mode, with an executable that is found.\<close>

definition spawning :: "sched_config \<Rightarrow> tick_env \<Rightarrow> bool" where
  "spawning cf te \<longleftrightarrow> cf_spawn_subprocess cf \<and> (\<forall>tid. te_spawn te tid = None)"

lemma run_task_spawning:
  "spawning cf te \<Longrightarrow> run_task cf te now tid s = (Inr (), set_active tid s)"
  by (simp add: spawning_def run_task_def run_task_in_subprocess_def upd_def)

definition nonsingletons :: "string set \<Rightarrow> task list \<Rightarrow> task list" where
  "nonsingletons singles ts = filter (\<lambda>t. \<not> is_singleton_task singles t) ts"

definition agents_of :: "task list \<Rightarrow> string list" where
  "agents_of ts = List.map_filter task_agent ts"

lemma agents_of_simps [simp]:
  "agents_of [] = []"
  "agents_of (t # ts) = (case task_agent t of None \<Rightarrow> agents_of ts | Some a \<Rightarrow> a # agents_of ts)"
  by (simp_all add: agents_of_def List.map_filter_simps split: option.split)

text \<open>Why a candidate is left for a later tick.\<close>

definition left_out :: "string set \<Rightarrow> db \<Rightarrow> int \<Rightarrow> int \<Rightarrow> string set \<Rightarrow> task list \<Rightarrow> task \<Rightarrow> bool" where
  "left_out singles d slots cap claimed ls t \<longleftrightarrow>
     slots \<le> int (length ls)
     \<or> \<not> is_singleton_task singles t \<and> cap \<le> int (length (nonsingletons singles ls))
     \<or> (\<exists>a. task_agent t = Some a \<and> (a \<in> claimed \<or> has_active_for_agent a d \<or> a \<in> set (agents_of ls)))"

definition admissible :: "string set \<Rightarrow> db \<Rightarrow> int \<Rightarrow> int \<Rightarrow> string set \<Rightarrow> task list \<Rightarrow> bool" where
  "admissible singles d slots cap claimed ls \<longleftrightarrow>
     int (length ls) \<le> max 0 slots \<and> int (length (nonsingletons singles ls)) \<le> max 0 cap
     \<and> distinct (agents_of ls)
     \<and> (\<forall>a \<in> set (agents_of ls). a \<notin> claimed \<and> \<not> has_active_for_agent a d)"

lemma admissible_Cons:
  assumes "\<not> slots \<le> n" "is_singleton_task singles t \<or> \<not> cap \<le> m"
    and "\<not> agent_taken claimed t s" "d = sc_db s"
    and "admissible singles d (slots - (n + 1)) (cap - (if is_singleton_task singles t then m else m + 1))
           (claim_agent t claimed) ls"
  shows "admissible singles d (slots - n) (cap - m) claimed (t # ls)"
  using assms
  by (cases "task_agent t")
    (auto simp: admissible_def nonsingletons_def agent_taken_def claim_agent_def)

lemma left_out_Cons:
  assumes "left_out singles d (slots - (n + 1)) (cap - (if is_singleton_task singles t then m else m + 1))
           (claim_agent t claimed) ls u"
  shows "left_out singles d (slots - n) (cap - m) claimed (t # ls) u"
  using assms
  by (cases "task_agent t")
    (auto simp: left_out_def nonsingletons_def claim_agent_def split: if_splits)

lemma dispatch_each_run:
  assumes "spawning cf te" "distinct (map task_id ts)" "set (map task_id ts) \<inter> set (sc_active s) = {}"
    and "available_slots cf s = max 0 (slots - n)"
  shows "\<exists>ls. subseq ls ts
     \<and> dispatch_each cf te now singles slots cap n m claimed ts s
         = (Inr (), s\<lparr>sc_active := sc_active s @ map task_id ls\<rparr>)
     \<and> admissible singles (sc_db s) (slots - n) (cap - m) claimed ls
     \<and> (\<forall>t \<in> set ts. t \<notin> set ls \<longrightarrow> left_out singles (sc_db s) (slots - n) (cap - m) claimed ls t)"
  using assms(2-4)
proof (induction ts arbitrary: n m claimed s)
  case Nil
  then show ?case by (intro exI [of _ "[]"]) (simp add: ret_def admissible_def nonsingletons_def)
next
  case (Cons t ts)
  let ?d = "sc_db s"
  have rest: "distinct (map task_id ts)" "set (map task_id ts) \<inter> set (sc_active s) = {}"
    using Cons.prems(1,2) by auto
  have skip: ?case
    if run: "dispatch_each cf te now singles slots cap n m claimed (t # ts) s
        = dispatch_each cf te now singles slots cap n m claimed ts s"
      and out: "\<And>ls. left_out singles ?d (slots - n) (cap - m) claimed ls t"
  proof -
    from Cons.IH [OF rest Cons.prems(3), of m claimed] obtain ls where ls: "subseq ls ts"
      "dispatch_each cf te now singles slots cap n m claimed ts s
         = (Inr (), s\<lparr>sc_active := sc_active s @ map task_id ls\<rparr>)"
      "admissible singles ?d (slots - n) (cap - m) claimed ls"
      "\<forall>t \<in> set ts. t \<notin> set ls \<longrightarrow> left_out singles ?d (slots - n) (cap - m) claimed ls t" by blast
    show ?thesis
      by (intro exI [of _ ls]) (use ls run out in auto)
  qed
  show ?case
  proof (cases "slots \<le> n")
    case True
    then show ?thesis
      by (intro exI [of _ "[]"]) (simp add: ret_def admissible_def nonsingletons_def left_out_def)
  next
    case n: False
    show ?thesis
    proof (cases "\<not> is_singleton_task singles t \<and> cap \<le> m")
      case True
      then show ?thesis by (intro skip) (simp_all add: n left_out_def)
    next
      case c: False
      show ?thesis
      proof (cases "agent_taken claimed t s")
        case True
        then show ?thesis
          using n c by (intro skip) (auto simp: bnd_query left_out_def agent_taken_def split: option.splits)
      next
        case a: False
        let ?s1 = "s\<lparr>sc_active := sc_active s @ [task_id t]\<rparr>"
        let ?m = "if is_singleton_task singles t then m else m + 1"
        have act: "set_active (task_id t) s = ?s1" using Cons.prems(2) by (simp add: set_active_def)
        have av: "available_slots cf ?s1 = max 0 (slots - (n + 1))"
          using Cons.prems(3) n assms(1) by (simp add: available_slots_def spawning_def)
        have run: "dispatch_each cf te now singles slots cap n m claimed (t # ts) s
            = (if available_slots cf ?s1 \<le> 0 then (Inr (), ?s1)
               else dispatch_each cf te now singles slots cap (n + 1) ?m (claim_agent t claimed) ts ?s1)"
          using n c a run_task_spawning [OF assms(1)] act
          by (auto simp: bnd_query seqn_def bnd_def ret_def query_def)
        show ?thesis
        proof (cases "slots \<le> n + 1")
          case True
          then have "available_slots cf ?s1 \<le> 0" using av by simp
          with run have r: "dispatch_each cf te now singles slots cap n m claimed (t # ts) s = (Inr (), ?s1)"
            by simp
          have "admissible singles ?d (slots - n) (cap - m) claimed [t]"
            by (rule admissible_Cons [where s = s])
              (use n c a in \<open>auto simp: admissible_def nonsingletons_def\<close>)
          with r True show ?thesis
            by (intro exI [of _ "[t]"]) (auto simp: left_out_def)
        next
          case more: False
          have dis: "set (map task_id ts) \<inter> set (sc_active ?s1) = {}"
            using Cons.prems(1,2) by auto
          from Cons.IH [OF rest(1) dis av, of ?m "claim_agent t claimed"] obtain ls where ls: "subseq ls ts"
            "dispatch_each cf te now singles slots cap (n + 1) ?m (claim_agent t claimed) ts ?s1
               = (Inr (), ?s1\<lparr>sc_active := sc_active ?s1 @ map task_id ls\<rparr>)"
            "admissible singles ?d (slots - (n + 1)) (cap - ?m) (claim_agent t claimed) ls"
            "\<forall>t' \<in> set ts. t' \<notin> set ls \<longrightarrow>
                left_out singles ?d (slots - (n + 1)) (cap - ?m) (claim_agent t claimed) ls t'" by auto
          have "admissible singles ?d (slots - n) (cap - m) claimed (t # ls)"
            by (rule admissible_Cons [OF n _ a refl ls(3)]) (use c in auto)
          moreover have "\<forall>t' \<in> set (t # ts). t' \<notin> set (t # ls) \<longrightarrow>
              left_out singles ?d (slots - n) (cap - m) claimed (t # ls) t'"
            using ls(4) left_out_Cons by auto
          moreover have "\<not> available_slots cf ?s1 \<le> 0" using av more by simp
          ultimately show ?thesis
            using run ls(1,2) by (intro exI [of _ "t # ls"]) simp
        qed
      qed
    qed
  qed
qed

lemma sorted_wrt_subseq: "subseq xs ys \<Longrightarrow> sorted_wrt P ys \<Longrightarrow> sorted_wrt P xs"
proof (induction rule: list_emb.induct)
  case (list_emb_Cons2 x y xs ys)
  have "set xs \<subseteq> set ys"
    using list_emb_Cons2.hyps(2) by (metis subsetI subseq_order.order_trans subseq_singleton_left)
  with list_emb_Cons2 show ?case by auto
qed auto

lemma find_pending_distinct:
  assumes "db_ok d"
  shows "distinct (map task_id (find_pending limit d))"
proof -
  have "distinct (map tr_id (filter (\<lambda>r. tr_status r = TPending) (tasks d)))"
    using assms by (intro distinct_map_filter) (simp add: db_ok_defs key_defs)
  then have "distinct (map tr_id (order_by tr_created (filter (\<lambda>r. tr_status r = TPending) (tasks d))))"
    by (simp add: order_by_def distinct_map)
  then have "distinct (map tr_id (sql_limit limit (order_by tr_created (filter (\<lambda>r. tr_status r = TPending) (tasks d)))))"
    by (simp add: sql_limit_def take_map [symmetric])
  then show ?thesis by (simp add: find_pending_def comp_def row_to_task_def)
qed

lemma candidates_facts:
  assumes "db_ok (sc_db s)"
  shows "distinct (map task_id (candidates_of cf slots s))"
    and "set (map task_id (candidates_of cf slots s)) \<inter> set (sc_active s) = {}"
    and "sorted_wrt (\<lambda>t u. is_singleton_task singles u \<longrightarrow> is_singleton_task singles t)
           (singletons_first singles ts)"
proof -
  have "distinct (map task_id (not_active s (find_pending (max (slots * 4) slots) (sc_db s))))"
    unfolding not_active_def by (rule distinct_map_filter [OF find_pending_distinct [OF assms]])
  then show "distinct (map task_id (candidates_of cf slots s))"
    by (simp add: candidates_of_def singletons_first_def distinct_map)
  show "set (map task_id (candidates_of cf slots s)) \<inter> set (sc_active s) = {}"
    by (auto simp: candidates_of_def singletons_first_def not_active_def)
  have "sorted (map (\<lambda>t. if is_singleton_task singles t then 0 else 1 :: int) (singletons_first singles ts))"
    by (simp add: singletons_first_def)
  then show "sorted_wrt (\<lambda>t u. is_singleton_task singles u \<longrightarrow> is_singleton_task singles t)
           (singletons_first singles ts)"
    unfolding sorted_map by (rule sorted_wrt_mono_rel [rotated]) (auto split: if_splits)
qed

text \<open>C17: One task per agent, the owner's agents first. In subprocess mode Phase 3 starts a
  subsequence of the pending candidates, in their order with the tasks of bootstrap singletons
  before all others: never more than the free slots (so that at most \<open>max_concurrent\<close> processes
  run), never two of one agent and none of an agent with an open wakeup, and of other agents' tasks
  never more than leave one slot reachable. A candidate is left out only for one of these reasons.\<close>

theorem dispatch_exact:
  assumes "spawning cf te" "db_ok (sc_db s)" "slots = available_slots cf s" "0 < slots"
  shows "\<exists>ls. dispatch_pending cf te now slots s
         = (Inr (), s\<lparr>sc_active := sc_active s @ map task_id ls\<rparr>)
     \<and> subseq ls (candidates_of cf slots s)
     \<and> sorted_wrt (\<lambda>t u. is_singleton_task (bootstrap_singleton_ids (sc_db s)) u
          \<longrightarrow> is_singleton_task (bootstrap_singleton_ids (sc_db s)) t) ls
     \<and> int (length (sc_active s @ map task_id ls)) \<le> max_concurrent cf
     \<and> admissible (bootstrap_singleton_ids (sc_db s)) (sc_db s) slots (nonsingleton_cap cf slots s) {} ls
     \<and> (\<forall>t \<in> set (candidates_of cf slots s). t \<notin> set ls \<longrightarrow>
          left_out (bootstrap_singleton_ids (sc_db s)) (sc_db s) slots (nonsingleton_cap cf slots s) {} ls t)"
proof -
  let ?b = "bootstrap_singleton_ids (sc_db s)" and ?c = "candidates_of cf slots s"
  have av: "available_slots cf s = max 0 (slots - 0)" using assms(3,4) by simp
  from dispatch_each_run [OF assms(1) candidates_facts(1,2) [OF assms(2), of cf slots] av,
      where m = 0 and cap = "nonsingleton_cap cf slots s" and claimed = "{}" and singles = ?b]
  obtain ls where ls: "subseq ls ?c"
    "dispatch_each cf te now ?b slots (nonsingleton_cap cf slots s) 0 0 {} ?c s
       = (Inr (), s\<lparr>sc_active := sc_active s @ map task_id ls\<rparr>)"
    "admissible ?b (sc_db s) slots (nonsingleton_cap cf slots s) {} ls"
    "\<forall>t \<in> set ?c. t \<notin> set ls \<longrightarrow> left_out ?b (sc_db s) slots (nonsingleton_cap cf slots s) {} ls t"
    by auto
  have "dispatch_pending cf te now slots s = (Inr (), s\<lparr>sc_active := sc_active s @ map task_id ls\<rparr>)"
    using ls(2) by (simp add: dispatch_pending_def bnd_query)
  moreover have "sorted_wrt (\<lambda>t u. is_singleton_task ?b u \<longrightarrow> is_singleton_task ?b t) ls"
    using ls(1) candidates_facts(3) [OF assms(2)] unfolding candidates_of_def
    by (rule sorted_wrt_subseq)
  moreover have "int (length (sc_active s @ map task_id ls)) \<le> max_concurrent cf"
    using ls(3) assms(1,3,4) by (auto simp: admissible_def available_slots_def spawning_def)
  ultimately show ?thesis using ls by blast
qed

section \<open>The phases before dispatch\<close>

definition active_is :: "string list \<Rightarrow> sched_state \<Rightarrow> bool" where
  "active_is A s \<longleftrightarrow> sc_active s = A"

lemma keeps_active [keeps_intros]:
  "keeps (active_is A) (with_db m)" "keeps (active_is A) (set_failures f)"
  "keeps (active_is A) (drop_stale_failures ids)"
proof -
  show "keeps (active_is A) (with_db m)"
    by (rule keepsI) (simp add: active_is_def with_db_def split: prod.splits)
qed (auto simp: set_failures_def drop_stale_failures_def active_is_def intro!: keeps_upd)

lemma keeps_active_fan_in [keeps_intros]: "keeps (active_is A) (resolve_fan_in_barriers cf now)"
  unfolding resolve_fan_in_barriers_def attempt_fan_in_group_def force_expire_poison_fan_in_def Let_def
  by (intro keeps_intros)

lemma keeps_active_mail: "keeps (active_is A) (mail_phases cf te now)"
  unfolding mail_phases_def guarded_phase_def by (intro keeps_intros)

lemma keeps_ok_mail: "keeps (of_db db_ok) (mail_phases cf te now)"
  unfolding mail_phases_def guarded_phase_def by (intro keeps_intros)

lemma plain_deliver_scheduled:
  assumes "cron_plain cr"
  shows "plain (deliver_scheduled_mail cr now)"
  unfolding deliver_scheduled_mail_def attempt_scheduled_mail_def record_scheduled_mail_failure_def
    notify_creator_def
  by (intro plain_intros plain_deliver_one [OF assms])

lemma plain_fan_in: "plain (resolve_fan_in_barriers cf now)"
proof -
  have "\<exists>u s'. attempt_fan_in_group n a g s = (Inr u, s')" for n a g s
    using attempt_group_total by blast
  then have "plain (attempt_fan_in_group n a g)" for n a g
    by (auto simp: plain_def) (metis Inr_Inl_False fst_conv)
  then show ?thesis
    unfolding resolve_fan_in_barriers_def Let_def drop_stale_failures_def by (intro plain_intros)
qed

lemma plain_auto: "plain (auto_dispatch_for_unread_mail uuid now)"
  unfolding auto_dispatch_for_unread_mail_def by (intro plain_intros plain_auto_dispatch)

lemma plain_resume: "plain (resume_parked_tasks now)"
  unfolding resume_parked_tasks_def by (intro plain_intros)

lemma plain_reap: "plain (reap_ephemeral_agents fl uuid now)"
  unfolding reap_ephemeral_agents_def by (intro plain_intros plain_supervise)

lemma guarded_total: "plain m \<Longrightarrow> \<exists>s'. guarded_phase m s = (Inr (), s')"
  using try_except_total [of m "\<lambda>e. ret ()" s] by (simp add: guarded_phase_def ret_def)

lemma seqn_total:
  "(\<And>s. \<exists>s'. m s = (Inr (), s')) \<Longrightarrow> (\<And>s. \<exists>s'. k s = (Inr (), s')) \<Longrightarrow> \<exists>s'. seqn m k s = (Inr (), s')"
  by (metis (no_types, lifting) bnd_def old.prod.case old.sum.simps(6) seqn_def)

lemma mail_phases_total:
  assumes "cron_plain (te_cron te)"
  shows "\<exists>s'. mail_phases cf te now s = (Inr (), s')"
proof -
  have r: "\<exists>s'. run_if b (guarded_phase m) s = (Inr (), s')" if "plain m" for b m s
    using guarded_total [OF that, of s] by (simp add: run_if_def ret_def)
  show ?thesis
    unfolding mail_phases_def
    by (intro seqn_total guarded_total r plain_with_db plain_deliver_scheduled [OF assms] plain_fan_in
        plain_auto plain_resume plain_reap)
qed

lemma plain_run_maintenance: "plain (run_maintenance now days keep)"
proof -
  have "plain (prune_wakeups c k)" for c k
    by (simp add: plain_def prune_wakeups_def)
  then show ?thesis unfolding run_maintenance_def Let_def by (intro plain_intros)
qed

lemma seqn_upd: "seqn (upd f) m s = m (f s)"
  by (simp add: seqn_def bnd_def upd_def)

lemma maintenance_total: "\<exists>s'. maybe_run_maintenance cf now clock s = (Inr (), s') \<and> sc_active s' = sc_active s"
proof -
  let ?m = "seqn (with_db (run_maintenance (now div 1000) (cf_retention_days cf) 50)) (ret ())"
  have t: "\<exists>s'. try_except ?m (\<lambda>e. ret ()) s = (Inr (), s')" for s
    using guarded_total [of ?m s] by (simp add: guarded_phase_def plain_intros plain_run_maintenance)
  have k: "keeps (active_is A) (try_except ?m (\<lambda>e. ret ()))" for A by (intro keeps_intros)
  show ?thesis
  proof (cases "cf_retention_days cf \<le> 0 \<or> (case sc_last_maintenance s of None \<Rightarrow> False
            | Some t \<Rightarrow> clock - t < cf_maintenance_interval cf * 1000000)")
    case True
    then show ?thesis by (auto simp: maybe_run_maintenance_def bnd_query ret_def)
  next
    case False
    let ?s = "s\<lparr>sc_last_maintenance := Some clock\<rparr>"
    have eq: "maybe_run_maintenance cf now clock s = try_except ?m (\<lambda>e. ret ()) ?s"
      using False by (simp add: maybe_run_maintenance_def bnd_query seqn_upd)
    obtain s' where "try_except ?m (\<lambda>e. ret ()) ?s = (Inr (), s')" using t by blast
    with keepsD [OF k, of "sc_active s" ?s] show ?thesis
      unfolding eq by (simp add: active_is_def)
  qed
qed

text \<open>C18: No row starves dispatch. Whatever the rows of the mail phases hold and whatever they
  raise, the phases before lease recovery end normally, keep the constraints and the table of
  subprocesses, and lease recovery and dispatch run on the state they leave; maintenance never
  raises either. So an exception leaves a tick only from lease recovery or from running a task.\<close>

theorem tick_isolation:
  assumes "cron_plain (te_cron te)"
  shows "\<exists>s1. mail_phases cf te now s = (Inr (), s1) \<and> sc_active s1 = sc_active s
     \<and> (db_ok (sc_db s) \<longrightarrow> db_ok (sc_db s1))
     \<and> tick cf te now clock s =
         seqn (recover_expired cf te now)
           (bnd (query (available_slots cf)) (\<lambda>slots.
              if slots \<le> 0 then ret ()
              else seqn (dispatch_pending cf te now slots) (maybe_run_maintenance cf now clock))) s1
     \<and> (\<forall>s2. \<exists>s3. maybe_run_maintenance cf now clock s2 = (Inr (), s3))"
proof -
  obtain s1 where s1: "mail_phases cf te now s = (Inr (), s1)" using mail_phases_total [OF assms] by blast
  have "sc_active s1 = sc_active s"
    using keepsD [OF keeps_active_mail, of "sc_active s" s cf te now] s1 by (simp add: active_is_def)
  moreover have "db_ok (sc_db s) \<longrightarrow> db_ok (sc_db s1)"
    using keepsD [OF keeps_ok_mail, of s cf te now] s1 by (simp add: of_db_def)
  moreover have "\<forall>s2. \<exists>s3. maybe_run_maintenance cf now clock s2 = (Inr (), s3)"
    using maintenance_total by blast
  ultimately show ?thesis
    using s1 by (intro exI [of _ s1]) (simp add: tick_def seqn_def [of "mail_phases cf te now"] bnd_def)
qed

section \<open>The bound on subprocesses\<close>

definition within_limit :: "sched_config \<Rightarrow> sched_state \<Rightarrow> bool" where
  "within_limit cf s \<longleftrightarrow> int (length (sc_active s)) \<le> max_concurrent cf"

lemma within_limit_active: "active_is (sc_active s) s' \<Longrightarrow> within_limit cf s' \<longleftrightarrow> within_limit cf s"
  by (simp add: active_is_def within_limit_def)

lemma run_task_active:
  assumes "cf_spawn_subprocess cf" "0 < available_slots cf s"
  shows "within_limit cf (snd (run_task cf te now tid s))"
proof -
  have "active_is (sc_active s) (snd (with_db m s))" for m :: "(db, unit) exec"
    by (rule keepsD [OF keeps_active(1)]) (simp add: active_is_def)
  then show ?thesis
    using assms
    by (auto simp: run_task_def run_task_in_subprocess_def upd_def set_active_def within_limit_def
        available_slots_def active_is_def throw_def split: option.split)
qed

lemma with_db_active [simp]: "sc_active (snd (with_db m s)) = sc_active s"
  by (simp add: with_db_def split: prod.splits)

lemma with_db_slots [simp]: "available_slots cf (snd (with_db m s)) = available_slots cf s"
  by (simp add: available_slots_def)

lemma recover_each_limit:
  assumes "cf_spawn_subprocess cf" "0 < available_slots cf s"
  shows "within_limit cf (snd (recover_each cf te now ts s))"
  using assms(2)
proof (induction ts arbitrary: s)
  case Nil
  then show ?case using assms(1) by (simp add: ret_def within_limit_def available_slots_def)
next
  case (Cons t ts)
  let ?e = "with_db (ephemeral_recovery_exceeded (te_float te) now t)"
    and ?g = "with_db (singleton_recovery_exceeded (cf_singleton_recovery_max cf) now t)"
  have lim: "within_limit cf s'" if "available_slots cf s' = available_slots cf s" for s'
    using that Cons.prems assms(1) by (simp add: within_limit_def available_slots_def)
  obtain x s1 where e: "?e s = (x, s1)" by (cases "?e s")
  have a1: "available_slots cf s1 = available_slots cf s"
    using with_db_slots [of cf "ephemeral_recovery_exceeded (te_float te) now t" s] e by simp
  obtain y s2 where g: "?g s1 = (y, s2)" by (cases "?g s1")
  have a2: "available_slots cf s2 = available_slots cf s"
    using with_db_slots [of cf "singleton_recovery_exceeded (cf_singleton_recovery_max cf) now t" s1] g a1
    by simp
  obtain z s3 where r: "run_task cf te now (task_id t) s2 = (z, s3)" by (cases "run_task cf te now (task_id t) s2")
  have l3: "within_limit cf s3"
    using run_task_active [OF assms(1), of s2 te now "task_id t"] a2 Cons.prems r by simp
  have run: "recover_each cf te now (t # ts) s = (case x of Inl e \<Rightarrow> (Inl e, s1)
     | Inr gone \<Rightarrow> if gone then recover_each cf te now ts s1
         else (case y of Inl e \<Rightarrow> (Inl e, s2)
           | Inr given_up \<Rightarrow> if given_up then recover_each cf te now ts s2
               else (case z of Inl e \<Rightarrow> (Inl e, s3)
                 | Inr u \<Rightarrow> if available_slots cf s3 \<le> 0 then (Inr (), s3) else recover_each cf te now ts s3)))"
    using e g r by (simp add: bnd_def seqn_def query_def ret_def split: sum.split)
  show ?case
    unfolding run using Cons.IH [of s1] Cons.IH [of s2] Cons.IH [of s3] a1 a2 l3 lim Cons.prems
    by (auto split: sum.split)
qed

lemma dispatch_each_limit:
  assumes "cf_spawn_subprocess cf" "0 < available_slots cf s"
  shows "within_limit cf (snd (dispatch_each cf te now singles slots cap n m claimed ts s))"
  using assms(2)
proof (induction ts arbitrary: s n m claimed)
  case Nil
  then show ?case using assms(1) by (simp add: ret_def within_limit_def available_slots_def)
next
  case (Cons t ts)
  have lim: "within_limit cf s" using Cons.prems assms(1) by (simp add: within_limit_def available_slots_def)
  obtain z s3 where r: "run_task cf te now (task_id t) s = (z, s3)" by (cases "run_task cf te now (task_id t) s")
  have l3: "within_limit cf s3"
    using run_task_active [OF assms(1) Cons.prems, of te now "task_id t"] r by simp
  have run: "dispatch_each cf te now singles slots cap n m claimed (t # ts) s =
     (if slots \<le> n then (Inr (), s)
      else if \<not> is_singleton_task singles t \<and> cap \<le> m \<or> agent_taken claimed t s
      then dispatch_each cf te now singles slots cap n m claimed ts s
      else (case z of Inl e \<Rightarrow> (Inl e, s3)
        | Inr u \<Rightarrow> if available_slots cf s3 \<le> 0 then (Inr (), s3)
            else dispatch_each cf te now singles slots cap (n + 1)
                   (if is_singleton_task singles t then m else m + 1) (claim_agent t claimed) ts s3))"
    using r by (auto simp: bnd_def seqn_def query_def ret_def split: sum.split)
  show ?case
    unfolding run using Cons.IH [OF Cons.prems] Cons.IH [of s3] lim l3
    by (auto split: sum.split)
qed

text \<open>C19: The table of subprocesses stays within the limit. Over any sequence of ticks and exits
  of subprocesses, whatever they raise, at most \<open>max_concurrent\<close> processes are active.\<close>

theorem limit_never_exceeded:
  assumes "cf_spawn_subprocess cf"
  shows "within_limit cf (run_events cf te es (new_scheduler d))"
proof -
  have tick: "within_limit cf (snd (tick cf te now clock s))" if s: "within_limit cf s" for now clock s
  proof -
    obtain x s1 where p: "mail_phases cf te now s = (x, s1)" by (cases "mail_phases cf te now s")
    have a1: "sc_active s1 = sc_active s"
      using keepsD [OF keeps_active_mail, of "sc_active s" s cf te now] p by (simp add: active_is_def)
    obtain y s2 where r: "recover_expired cf te now s1 = (y, s2)" by (cases "recover_expired cf te now s1")
    have l1: "within_limit cf s1" using s a1 by (simp add: within_limit_def)
    have l2: "within_limit cf s2"
    proof (cases "available_slots cf s1 \<le> 0")
      case True
      with r l1 show ?thesis by (simp add: recover_expired_def bnd_query ret_def)
    next
      case False
      with r recover_each_limit [OF assms, of s1 te now] show ?thesis
        by (simp add: recover_expired_def bnd_query) (metis snd_conv)
    qed
    have l3: "within_limit cf (snd (seqn (dispatch_pending cf te now slots) (maybe_run_maintenance cf now clock) s2))"
      if a: "0 < available_slots cf s2" for slots
    proof -
      obtain z s3 where d: "dispatch_pending cf te now slots s2 = (z, s3)"
        by (cases "dispatch_pending cf te now slots s2")
      have l: "within_limit cf s3"
        using dispatch_each_limit [OF assms a] d by (simp add: dispatch_pending_def bnd_query) (metis snd_conv)
      obtain s4 where "maybe_run_maintenance cf now clock s3 = (Inr (), s4)" "sc_active s4 = sc_active s3"
        using maintenance_total by blast
      with d l show ?thesis by (cases z) (simp_all add: seqn_def bnd_def within_limit_def)
    qed
    show ?thesis
      using p r l1 l2 l3 [of "available_slots cf s2"]
      by (cases x; cases y) (auto simp: tick_def seqn_def [of "mail_phases cf te now"]
          seqn_def [of "recover_expired cf te now"] bnd_def query_def ret_def)
  qed
  have event: "within_limit cf (on_event cf te e s)" if "within_limit cf s" for e s
  proof (cases e)
    case (Tick now clock)
    obtain x s' where "tick cf te now clock s = (x, s')" by (cases "tick cf te now clock s")
    with tick [OF that, of now clock] Tick show ?thesis
      by (cases x) (auto simp: on_event_def try_except_def ret_def split: exn.split)
  next
    case (Exited tid)
    have "int (length (filter (\<lambda>x. x \<noteq> tid) (sc_active s))) \<le> max_concurrent cf"
      using that length_filter_le [of "\<lambda>x. x \<noteq> tid" "sc_active s"] unfolding within_limit_def by linarith
    then show ?thesis by (simp add: Exited on_event_def reap_subprocess_def within_limit_def)
  qed
  have "within_limit cf s \<Longrightarrow> within_limit cf (fold (on_event cf te) es s)" for s
    by (induction es arbitrary: s) (simp_all add: event)
  then show ?thesis
    by (simp add: run_events_def new_scheduler_def within_limit_def max_concurrent_def)
qed

section \<open>Samples, and a gap between spawning and claiming\<close>

definition sample_config :: sched_config where
  "sample_config = \<lparr>cf_spawn_subprocess = True, cf_max_concurrent_tasks = 3, cf_auto_wake = True,
     cf_fanin_max_age = 3600, cf_singleton_recovery_max = 5, cf_retention_days = 0,
     cf_maintenance_interval = 3600\<rparr>"

definition sample_tick_env :: tick_env where
  "sample_tick_env = \<lparr>te_cron = every_minute, te_float = (\<lambda>q. ''0.0''), te_uuid = sample_uuid,
     te_spawn = (\<lambda>tid. None), te_wakeup = runner_env (\<lambda>w t d. (Cancelled, d))\<rparr>"

lemma sample_spawning: "spawning sample_config sample_tick_env"
  by (simp add: spawning_def sample_config_def sample_tick_env_def)

lemma new_scheduler_simps [simp]:
  "sc_active (new_scheduler d) = []" "sc_db (new_scheduler d) = d"
  by (simp_all add: new_scheduler_def)

lemma sample_limit [simp]: "max_concurrent sample_config = 3"
  by (simp add: sample_config_def max_concurrent_def)

lemma dispatch_exact_witness:
  "\<exists>s1. dispatch_pending sample_config sample_tick_env 0 3 (new_scheduler sample_db) = (Inr (), s1)
     \<and> length (sc_active s1) \<le> 3"
proof -
  have f: "db_ok (sc_db (new_scheduler sample_db))" "3 = available_slots sample_config (new_scheduler sample_db)"
    by (simp_all add: available_slots_def) (simp add: sample_config_def)
  from dispatch_exact [OF sample_spawning f, of 0] show ?thesis by auto
qed

lemma tick_isolation_witness:
  "\<exists>s1. mail_phases sample_config sample_tick_env 0 (new_scheduler sample_db) = (Inr (), s1)
     \<and> sc_active s1 = [] \<and> db_ok (sc_db s1)"
  using tick_isolation [of sample_tick_env sample_config 0 "new_scheduler sample_db" 0]
  by (auto simp: sample_tick_env_def every_minute_plain)

lemma limit_never_exceeded_witness:
  "within_limit sample_config
     (run_events sample_config sample_tick_env [Tick 0 0, Exited ''t1'', Tick 5000000 5000000] (new_scheduler sample_db))"
  by (rule limit_never_exceeded) (simp add: sample_config_def)

text \<open>A subprocess that has not yet opened its wakeup does not make its agent busy. If the two
  pending tasks of an idle agent are the whole queue, one dispatch starts the first and leaves the
  second; a second dispatch before the first process has claimed its task starts the second too,
  so two processes of one agent run at the same time.\<close>

theorem booting_agent_overlaps:
  assumes "spawning cf te" "3 \<le> max_concurrent cf" "sc_active s = []"
    and q: "order_by tr_created (filter (\<lambda>r. tr_status r = TPending) (tasks (sc_db s))) = [r, q]"
    and "tr_id r \<noteq> tr_id q" "tr_agent r = Some a" "tr_agent q = Some a"
    and "\<not> has_active_for_agent a (sc_db s)"
  shows "dispatch_pending cf te now (max_concurrent cf) s = (Inr (), s\<lparr>sc_active := [tr_id r]\<rparr>)
     \<and> dispatch_pending cf te later (max_concurrent cf - 1) (s\<lparr>sc_active := [tr_id r]\<rparr>)
           = (Inr (), s\<lparr>sc_active := [tr_id r, tr_id q]\<rparr>)"
proof -
  let ?b = "bootstrap_singleton_ids (sc_db s)" and ?s = "s\<lparr>sc_active := [tr_id r]\<rparr>"
  have id: "task_id (row_to_task x) = tr_id x" "task_agent (row_to_task x) = tr_agent x" for x
    by (simp_all add: row_to_task_def)
  have sing: "is_singleton_task ?b (row_to_task r) = (a \<in> ?b)" "is_singleton_task ?b (row_to_task q) = (a \<in> ?b)"
    by (simp_all add: is_singleton_task_def id assms)
  have pend: "find_pending n (sc_db s) = [row_to_task r, row_to_task q]" if "2 \<le> n" for n
    using that by (simp add: find_pending_def q sql_limit_def)
  have c1: "candidates_of cf (max_concurrent cf) s = [row_to_task r, row_to_task q]"
    using assms(2,3) by (simp add: candidates_of_def pend not_active_def singletons_first_def sing)
  have c2: "candidates_of cf (max_concurrent cf - 1) ?s = [row_to_task q]"
    using assms(2,3,5) by (simp add: candidates_of_def pend not_active_def singletons_first_def id)
  have cap: "0 < nonsingleton_cap cf (max_concurrent cf) s" "0 < nonsingleton_cap cf (max_concurrent cf - 1) ?s"
    using assms(1-3) by (simp_all add: nonsingleton_cap_def spawning_def)
  show ?thesis
    using assms cap
    by (simp add: dispatch_pending_def bnd_query c1 c2 sing id run_task_spawning seqn_def bnd_def query_def ret_def
        agent_taken_def claim_agent_def set_active_def available_slots_def spawning_def)
qed

definition two_task_db :: db where
  "two_task_db = sample_db\<lparr>tasks := [sample_task ''t1'' ''worker/a'' None, sample_task ''t2'' ''worker/a'' None]\<rparr>"

lemma booting_agent_overlaps_witness:
  "\<exists>s. dispatch_pending sample_config sample_tick_env 0 3 (new_scheduler two_task_db) = (Inr (), s)
     \<and> dispatch_pending sample_config sample_tick_env 5000000 2 s
         = (Inr (), (new_scheduler two_task_db)\<lparr>sc_active := [''t1'', ''t2'']\<rparr>)"
proof -
  have f: "3 \<le> max_concurrent sample_config" "sc_active (new_scheduler two_task_db) = []"
    "order_by tr_created (filter (\<lambda>r. tr_status r = TPending) (tasks (sc_db (new_scheduler two_task_db))))
       = [sample_task ''t1'' ''worker/a'' None, sample_task ''t2'' ''worker/a'' None]"
    "tr_id (sample_task ''t1'' ''worker/a'' None) \<noteq> tr_id (sample_task ''t2'' ''worker/a'' None)"
    "tr_agent (sample_task ''t1'' ''worker/a'' None) = Some ''worker/a''"
    "tr_agent (sample_task ''t2'' ''worker/a'' None) = Some ''worker/a''"
    "\<not> has_active_for_agent ''worker/a'' (sc_db (new_scheduler two_task_db))"
    by (simp_all add: two_task_db_def order_by_def
        sample_task_def sample_db_def empty_db_def has_active_for_agent_def wakeup_join_def)
  from booting_agent_overlaps [OF sample_spawning f, of 0 5000000] show ?thesis
    by (simp add: sample_task_def)
qed

end
