(* ===== verification/Tool_Base.thy ===== *)
theory Tool_Base
  imports Wakeup_Run Auto_Wake
begin

text \<open>
  What every tool handler shares (\<open>runtime/tools/__init__.py\<close>): the context of a call, the
  error a handler reports to the model, the registry, and how the handlers read their arguments.
  The arguments are the JSON object the model wrote. \<open>isinstance(x, int)\<close> also admits the two
  booleans, which are the integers 0 and 1. The messages of tool errors are cut to their first
  words; their values are not part of the model.
\<close>

record tool_ctx =
  tc_task :: string
  tc_wakeup :: string
  tc_persona :: string
  tc_agent :: "string option"
  tc_thread :: "json option"

definition self_mailbox :: "tool_ctx \<Rightarrow> string" where
  "self_mailbox c = (case present (tc_agent c) of None \<Rightarrow> tc_persona c | Some a \<Rightarrow> a)"

definition tool_error :: "string \<Rightarrow> exn" where
  "tool_error m = Exn ''ToolError'' m"

definition is_tool_error :: "exn + 'a \<Rightarrow> bool" where
  "is_tool_error r \<longleftrightarrow> (case r of Inl (Exn t m) \<Rightarrow> t = ''ToolError'' | _ \<Rightarrow> False)"

section \<open>The registry\<close>

type_synonym 'h tool_registry = "(string \<times> 'h) list"

definition register_tool :: "string \<Rightarrow> 'h \<Rightarrow> 'h tool_registry \<Rightarrow> exn + 'h tool_registry" where
  "register_tool name h reg =
     (if name \<in> fst ` set reg then Inl (value_error (''Tool already registered: '' @ name))
      else Inr (reg @ [(name, h)]))"

definition specs_for :: "'h tool_registry \<Rightarrow> string list \<Rightarrow> (string \<times> 'h) list" where
  "specs_for reg allowed =
     List.map_filter (\<lambda>n. map_option (\<lambda>h. (n, h)) (map_of reg n)) allowed"

text \<open>Only what the persona may use is offered.\<close>

lemma specs_for_allowed: "set (map fst (specs_for reg allowed)) = set allowed \<inter> fst ` set reg"
proof (induction allowed)
  case (Cons n ns)
  have split: "specs_for reg (n # ns) = (case map_of reg n of
      None \<Rightarrow> specs_for reg ns | Some h \<Rightarrow> (n, h) # specs_for reg ns)"
    by (simp add: specs_for_def List.map_filter_simps split: option.split)
  show ?case
  proof (cases "map_of reg n")
    case None
    then have "n \<notin> fst ` set reg" by (simp add: map_of_eq_None_iff)
    with None Cons.IH show ?thesis by (simp add: split)
  next
    case (Some h)
    then have "n \<in> fst ` set reg" by (metis map_of_SomeD fst_conv image_eqI)
    with Some Cons.IH show ?thesis by (simp add: split)
  qed
qed (simp add: specs_for_def List.map_filter_simps)

section \<open>Arguments\<close>

text \<open>\<open>args.get(k)\<close>, where a missing key and \<open>null\<close> both read as \<open>None\<close>.\<close>

definition arg :: "dict \<Rightarrow> string \<Rightarrow> json option" where
  "arg args k = not_none (dget args k)"

lemma arg_simps [simp]:
  "arg [] k = None" "arg ((k', v) # d) k = (if k = k' then not_none (Some v) else arg d k)"
  by (simp_all add: arg_def not_none_def)

lemma not_none_simps [simp]:
  "not_none (Some (JStr s)) = Some (JStr s)" "not_none (Some (JInt i)) = Some (JInt i)"
  "not_none (Some (JObj m)) = Some (JObj m)" "not_none (Some (JArr js)) = Some (JArr js)"
  "not_none (Some (JBool b)) = Some (JBool b)" "not_none (Some JNull) = None"
  by (simp_all add: not_none_def)

fun int_val :: "json \<Rightarrow> int option" where
  "int_val (JInt i) = Some i"
| "int_val (JBool b) = Some (if b then 1 else 0)"
| "int_val _ = None"

definition is_int_arg :: "json option \<Rightarrow> bool" where
  "is_int_arg j \<longleftrightarrow> (case j of None \<Rightarrow> True | Some v \<Rightarrow> int_val v \<noteq> None)"

definition jopt :: "json option \<Rightarrow> json" where
  "jopt j = (case j of None \<Rightarrow> JNull | Some v \<Rightarrow> v)"

definition jstrs :: "string list \<Rightarrow> json" where
  "jstrs ss = JArr (map JStr ss)"

text \<open>\<open>list(dict.fromkeys(xs))\<close>: the first occurrence of each.\<close>

fun dedupe :: "string list \<Rightarrow> string list" where
  "dedupe [] = []"
| "dedupe (x # xs) = x # filter (\<lambda>y. y \<noteq> x) (dedupe xs)"

lemma set_dedupe [simp]: "set (dedupe xs) = set xs"
  by (induction xs) auto

lemma distinct_dedupe [simp]: "distinct (dedupe xs)"
  by (induction xs) auto

lemma all_strs_map [simp]: "all_strs (map JStr ss) = Some ss"
  by (induction ss) auto

definition iso_text :: "usec \<Rightarrow> string" where
  "iso_text t = sec_text (t div one_second) @ ''Z''"

definition jopt_time :: "usec option \<Rightarrow> json" where
  "jopt_time t = (case t of None \<Rightarrow> JNull | Some u \<Rightarrow> JStr (isoformat u))"

text \<open>Running a check that reads the database, and raising what it raises.\<close>

definition check :: "('s \<Rightarrow> exn + 'a) \<Rightarrow> ('a \<Rightarrow> ('s, 'b) exec) \<Rightarrow> ('s, 'b) exec" where
  "check q f = bnd (query q) (\<lambda>r. case r of Inl e \<Rightarrow> throw e | Inr a \<Rightarrow> f a)"

lemma check_Inl: "q s = Inl e \<Longrightarrow> check q f s = (Inl e, s)"
  by (simp add: check_def bnd_query throw_def)

lemma check_Inr: "q s = Inr a \<Longrightarrow> check q f s = f a s"
  by (simp add: check_def bnd_query)

lemma check_Inr_iff: "check q f s = (Inr b, s') \<longleftrightarrow> (\<exists>a. q s = Inr a \<and> f a s = (Inr b, s'))"
  by (cases "q s") (auto simp: check_def bnd_query throw_def)

lemma keeps_check [keeps_intros]: "(\<And>a. keeps I (f a)) \<Longrightarrow> keeps I (check q f)"
  unfolding check_def by (intro keeps_intros)

lemma ebind_Inr_iff: "ebind r f = Inr b \<longleftrightarrow> (\<exists>a. r = Inr a \<and> f a = Inr b)"
  by (cases r) (auto simp: ebind_def)

text \<open>The context the witnesses call tools in.\<close>

definition sample_ctx :: "string \<Rightarrow> tool_ctx" where
  "sample_ctx aid = \<lparr>tc_task = ''t1'', tc_wakeup = ''w1'', tc_persona = ''worker'', tc_agent = Some aid, tc_thread = None\<rparr>"

end
