(* ===== verification/Tool_Send.thy ===== *)
theory Tool_Send
  imports Tool_Base
begin

text \<open>
  \<open>mailbox_send\<close> of \<open>runtime/tools/mailbox.py\<close>: the check of a fan-in result, the checks of an
  ordinary mail, the outbox rows of an immediate one and the rows of a scheduled one.
  Parameters: \<open>jsonschema.validate\<close>, croniter, and the random text of a minted thread id.
  (\<open>dict()\<close> of an array of pairs, and \<open>str()\<close> of a \<open>recur_until\<close> that is no text, raise here.)
\<close>

record send_env =
  se_schema :: "dict \<Rightarrow> dict \<Rightarrow> exn option"
  se_cron :: croniter
  se_mint :: string

section \<open>The result of a fan-in leg\<close>

definition scheduling_keys :: "string list" where
  "scheduling_keys = [''deliver_at'', ''deliver_in'', ''recur_every'', ''recur_cron'', ''recur_until'']"

definition has_scheduling_args :: "dict \<Rightarrow> bool" where
  "has_scheduling_args args \<longleftrightarrow> (\<exists>k \<in> set scheduling_keys. arg args k \<noteq> None)"

definition schema_error :: "exn \<Rightarrow> exn" where
  "schema_error e = (case e of
       Exn t m \<Rightarrow> (if t = ''ValidationError'' then tool_error ''result does not match the group's result_schema'' else e)
     | SimulatedKill p \<Rightarrow> e)"

definition result_envelope :: "string \<Rightarrow> json \<Rightarrow> dict \<Rightarrow> dict" where
  "result_envelope gid leg result = [(''group_id'', JStr gid), (''leg_key'', leg), (''result'', JObj result)]"

text \<open>The coordinator and the envelope; \<open>None\<close> when the coordinator is gone.\<close>

definition validate_fan_in_result ::
    "send_env \<Rightarrow> tool_ctx \<Rightarrow> dict \<Rightarrow> db \<Rightarrow> exn + (string \<times> dict) option" where
  "validate_fan_in_result env c args d =
     (case arg args ''result_for'' of
        Some (JStr gid) \<Rightarrow>
          (case arg args ''leg_key'' of
             None \<Rightarrow> Inl (tool_error ''leg_key (integer) is required'')
           | Some lj \<Rightarrow>
          (case int_val lj of
             None \<Rightarrow> Inl (tool_error ''leg_key (integer) is required'')
           | Some leg \<Rightarrow>
          (case arg args ''result'' of
             Some (JObj result) \<Rightarrow>
               (if has_scheduling_args args
                then Inl (tool_error ''result_for cannot be combined with scheduled delivery'')
                else (case group_get gid d of
                  None \<Rightarrow> Inl (tool_error ''fan-in group not found'')
                | Some g \<Rightarrow>
                  (if grp_status g = GCancelled then Inl (tool_error ''fan-in group is cancelled'')
                   else if \<not> live_agent (grp_coordinator g) d then Inr None
                   else (case get_member gid leg d of
                     None \<Rightarrow> Inl (tool_error ''no such leg_key'')
                   | Some m \<Rightarrow>
                     (if fm_child_agent m \<noteq> self_mailbox c then Inl (tool_error ''you do not own leg_key'')
                      else (case se_schema env result (grp_schema g) of
                        Some e \<Rightarrow> Inl (schema_error e)
                      | None \<Rightarrow> Inr (Some (grp_coordinator g, result_envelope gid lj result))))))))
           | _ \<Rightarrow> Inl (tool_error ''result (object) is required''))))
      | _ \<Rightarrow> Inl (tool_error ''result_for must be a string group_id''))"

section \<open>The checks of a mail\<close>

record send_args =
  sa_to :: "string list"
  sa_body :: string
  sa_urgency :: urgency
  sa_title :: "string option"
  sa_reply :: "json option"
  sa_forward :: "json option"
  sa_thread :: "json option"
  sa_attachments :: "string list option"
  sa_use :: string

definition parse_recipients :: "json option \<Rightarrow> exn + string list" where
  "parse_recipients j =
     (case j of
        Some (JStr s) \<Rightarrow> Inr [s]
      | Some (JArr js) \<Rightarrow>
          (case all_strs js of
             None \<Rightarrow> Inl (tool_error ''to must be a string or a list of strings'')
           | Some ss \<Rightarrow> (if ss = [] then Inl (tool_error ''to is empty'') else Inr (dedupe ss)))
      | _ \<Rightarrow> Inl (tool_error ''to must be a string or a list of strings''))"

definition known_recipients :: "db \<Rightarrow> string set" where
  "known_recipients d = insert ''owner'' (agent_id ` set (agents_list_all False d))"

definition check_recipients :: "tool_ctx \<Rightarrow> dict \<Rightarrow> json option \<Rightarrow> db \<Rightarrow> exn + string list" where
  "check_recipients c args to d =
     ebind (parse_recipients to) (\<lambda>rs.
       if self_mailbox c \<in> set rs \<and> \<not> has_scheduling_args args
       then Inl (tool_error ''refusing to send immediate mail to self'')
       else if \<not> set rs \<subseteq> known_recipients d then Inl (tool_error ''unknown recipient(s)'')
       else Inr rs)"

definition check_body :: "dict \<Rightarrow> exn + string" where
  "check_body args = (case arg args ''body'' of
     Some (JStr (c # cs)) \<Rightarrow> Inr (c # cs) | _ \<Rightarrow> Inl (tool_error ''missing body''))"

definition check_urgency :: "json \<Rightarrow> exn + urgency" where
  "check_urgency j = (case as_str j of
     None \<Rightarrow> Inl (tool_error ''invalid urgency'')
   | Some s \<Rightarrow> (case urgency_of_str s of None \<Rightarrow> Inl (tool_error ''invalid urgency'') | Some u \<Rightarrow> Inr u))"

definition check_title :: "dict \<Rightarrow> exn + string option" where
  "check_title args = (case arg args ''title'' of
     None \<Rightarrow> Inr None
   | Some (JStr t) \<Rightarrow> (if 140 < ulen t then Inl (tool_error ''title exceeds 140 chars'')
                      else Inr (present (Some (strip t))))
   | Some _ \<Rightarrow> Inl (tool_error ''title must be a string''))"

definition check_int :: "dict \<Rightarrow> string \<Rightarrow> exn + json option" where
  "check_int args k =
     (if is_int_arg (arg args k) then Inr (arg args k) else Inl (tool_error (k @ '' must be an integer msg_id'')))"

text \<open>The thread: the argument, else the thread of the mail replied to, else the wakeup's.\<close>

definition check_thread :: "tool_ctx \<Rightarrow> dict \<Rightarrow> json option \<Rightarrow> db \<Rightarrow> exn + json option" where
  "check_thread c args reply d =
     (case arg args ''thread_id'' of
        Some (JStr t) \<Rightarrow> Inr (Some (JStr t))
      | Some _ \<Rightarrow> Inl (tool_error ''thread_id must be a string'')
      | None \<Rightarrow>
          (let inherited = (case reply of
                 None \<Rightarrow> None
               | Some j \<Rightarrow> (case int_val j of None \<Rightarrow> None | Some i \<Rightarrow> (case get_message i d of
                     None \<Rightarrow> None | Some m \<Rightarrow> not_none (oget (msg_meta m) ''thread_id''))))
           in Inr (case inherited of None \<Rightarrow> tc_thread c | Some t \<Rightarrow> Some t)))"

definition check_attachments :: "dict \<Rightarrow> db \<Rightarrow> exn + string list option" where
  "check_attachments args d =
     (case arg args ''attachments'' of
        None \<Rightarrow> Inr None
      | Some j \<Rightarrow> (case as_str_list j of
            None \<Rightarrow> Inl (tool_error ''attachments must be a list of blob_id strings'')
          | Some ids \<Rightarrow>
              (if ids = [] then Inr None
               else if \<not> set ids \<subseteq> blob_id ` set (blobs_list_ids ids d)
               then Inl (tool_error ''unknown attachment blob_id(s)'')
               else Inr (Some ids))))"

definition check_use :: "dict \<Rightarrow> exn + string" where
  "check_use args = (case arg args ''_tool_use_id'' of
     Some (JStr (c # cs)) \<Rightarrow> Inr (c # cs) | _ \<Rightarrow> Inl (tool_error ''internal: missing tool_use_id''))"

definition check_send ::
    "tool_ctx \<Rightarrow> dict \<Rightarrow> (string \<times> dict) option \<Rightarrow> db \<Rightarrow> exn + send_args" where
  "check_send c args fan d =
     ebind (check_recipients c args (case fan of None \<Rightarrow> arg args ''to'' | Some (co, e) \<Rightarrow> Some (JStr co)) d) (\<lambda>to.
     ebind (check_body args) (\<lambda>body.
     ebind (check_urgency (if fan \<noteq> None then JStr ''low''
              else case dget args ''urgency'' of None \<Rightarrow> JStr ''normal'' | Some j \<Rightarrow> j)) (\<lambda>u.
     ebind (check_title args) (\<lambda>title.
     ebind (check_int args ''reply_to'') (\<lambda>reply.
     ebind (check_int args ''forward_msg_id'') (\<lambda>forward.
     ebind (check_thread c args reply d) (\<lambda>thread.
     ebind (check_attachments args d) (\<lambda>atts.
     ebind (check_use args) (\<lambda>use.
       Inr \<lparr>sa_to = to, sa_body = body, sa_urgency = u, sa_title = title, sa_reply = reply,
            sa_forward = forward, sa_thread = thread, sa_attachments = atts, sa_use = use\<rparr>)))))))))"

section \<open>Immediate mail\<close>

definition with_thread :: "json option \<Rightarrow> dict \<Rightarrow> dict" where
  "with_thread thread m =
     (case thread of None \<Rightarrow> m
      | Some t \<Rightarrow> (if dget m ''thread_id'' = None then dset ''thread_id'' t m else m))"

definition with_forward :: "json option \<Rightarrow> dict \<Rightarrow> dict" where
  "with_forward forward m =
     (case forward of None \<Rightarrow> m | Some f \<Rightarrow> dset ''forwarded_from_msg_id'' f m)"

definition send_meta :: "dict \<Rightarrow> send_args \<Rightarrow> dict option \<Rightarrow> dict option" where
  "send_meta user sa envelope =
     (if sa_forward sa = None \<and> user = [] \<and> envelope = None \<and> sa_thread sa = None then None
      else Some (with_thread (sa_thread sa)
             (case envelope of None \<Rightarrow> with_forward (sa_forward sa) user
              | Some e \<Rightarrow> dset ''fan_in'' (JObj e) (with_forward (sa_forward sa) user))))"

definition send_key :: "tool_ctx \<Rightarrow> send_args \<Rightarrow> string \<Rightarrow> string" where
  "send_key c sa r = tc_wakeup c @ '':'' @ sa_use sa @ '':'' @ r"

definition broadcast_of :: "tool_ctx \<Rightarrow> send_args \<Rightarrow> string option" where
  "broadcast_of c sa =
     (if 1 < length (sa_to sa) then Some (''bc-'' @ tc_wakeup c @ ''-'' @ sa_use sa) else None)"

definition send_payload :: "tool_ctx \<Rightarrow> send_args \<Rightarrow> dict option \<Rightarrow> string \<Rightarrow> dict" where
  "send_payload c sa meta r =
     [(''recipient'', JStr r), (''sender'', JStr (self_mailbox c)),
      (''urgency'', JStr (urgency_str (sa_urgency sa))), (''title'', jopt_str (sa_title sa)),
      (''body'', JStr (sa_body sa)), (''task_id'', JStr (tc_task c)),
      (''external_id'', JStr (send_key c sa r)), (''parent_msg_id'', jopt (sa_reply sa)),
      (''broadcast_id'', jopt_str (broadcast_of c sa)),
      (''recipients_all'', if 1 < length (sa_to sa) then jstrs (sa_to sa) else JNull),
      (''metadata'', case meta of None \<Rightarrow> JNull | Some m \<Rightarrow> JObj m),
      (''attachments'', case sa_attachments sa of None \<Rightarrow> JNull | Some ids \<Rightarrow> jstrs ids)]"

definition send_row :: "tool_ctx \<Rightarrow> send_args \<Rightarrow> dict option \<Rightarrow> string \<Rightarrow> outbox_row" where
  "send_row c sa meta r =
     new_outbox_row (Some (tc_task c)) (Some (tc_wakeup c)) KMailboxSend (send_payload c sa meta r)
       (send_key c sa r)"

definition queued_reply :: "tool_ctx \<Rightarrow> send_args \<Rightarrow> dict" where
  "queued_reply c sa =
     [(''status'', JStr ''queued''), (''recipients'', jstrs (sa_to sa)),
      (''broadcast_id'', jopt_str (broadcast_of c sa)), (''reply_to'', jopt (sa_reply sa)),
      (''forwarded_from_msg_id'', jopt (sa_forward sa)),
      (''external_ids'', jstrs (map (send_key c sa) (sa_to sa)))]"

text \<open>\<open>args.get("metadata") or {}\<close>, which has to be an object.\<close>

definition user_meta :: "exn \<Rightarrow> dict \<Rightarrow> exn + dict" where
  "user_meta e args =
     (if \<not> otruthy (arg args ''metadata'') then Inr []
      else (case arg args ''metadata'' of Some (JObj m) \<Rightarrow> Inr m | _ \<Rightarrow> Inl e))"

definition queue_mail ::
    "usec \<Rightarrow> tool_ctx \<Rightarrow> dict \<Rightarrow> send_args \<Rightarrow> dict option \<Rightarrow> (db, dict) exec" where
  "queue_mail now c args sa envelope =
     (case user_meta (tool_error ''metadata must be an object'') args of
        Inl e \<Rightarrow> throw e
      | Inr user \<Rightarrow>
          seqn (outbox_enqueue (now div 1000) (map (send_row c sa (send_meta user sa envelope)) (sa_to sa)))
            (ret (queued_reply c sa)))"

section \<open>Scheduled mail\<close>

text \<open>An exception that is a \<open>ValueError\<close> becomes a tool error.\<close>

definition value_errors :: "string list" where
  "value_errors = [''ValueError'', ''PastDeliveryError'', ''CroniterError'', ''CroniterBadCronError'',
     ''CroniterBadDateError'', ''CroniterNotAlphaError'']"

definition as_tool_error :: "exn + 'a \<Rightarrow> exn + 'a" where
  "as_tool_error r = (case r of
       Inl (Exn t m) \<Rightarrow> Inl (if t \<in> set value_errors then tool_error m else Exn t m)
     | _ \<Rightarrow> r)"

definition str_arg :: "dict \<Rightarrow> string \<Rightarrow> exn + string option" where
  "str_arg args k = (case arg args k of
     None \<Rightarrow> Inr None | Some (JStr s) \<Rightarrow> Inr (Some s) | Some _ \<Rightarrow> Inl (tool_error (k @ '' must be a string'')))"

definition positive_arg :: "dict \<Rightarrow> string \<Rightarrow> exn + int option" where
  "positive_arg args k = (case arg args k of
     None \<Rightarrow> Inr None
   | Some j \<Rightarrow> (case int_val j of
        None \<Rightarrow> Inl (tool_error (k @ '' must be a positive integer''))
      | Some i \<Rightarrow> (if i < 1 then Inl (tool_error (k @ '' must be a positive integer'')) else Inr (Some i))))"

definition first_fire_of_args :: "croniter \<Rightarrow> dict \<Rightarrow> string option \<Rightarrow> usec \<Rightarrow> exn + usec" where
  "first_fire_of_args cr args cron now =
     (case (arg args ''deliver_at'', arg args ''deliver_in'') of
        (Some a, Some i) \<Rightarrow> Inl (value_error ''pass at most one of deliver_at / deliver_in'')
      | (Some a, None) \<Rightarrow>
          (case as_str a of
             Some s \<Rightarrow> resolve_first_fire cr (Some s) None cron now
           | None \<Rightarrow> Inl (Exn ''AttributeError'' ''object has no attribute tzinfo''))
      | (None, Some i) \<Rightarrow>
          (case as_str i of
             Some s \<Rightarrow> resolve_first_fire cr None (Some s) cron now
           | None \<Rightarrow> Inl (value_error ''duration must be a string''))
      | (None, None) \<Rightarrow> resolve_first_fire cr None None cron now)"

text \<open>A timestamp without a UTC offset cannot be compared with one that has it.\<close>

definition has_offset :: "string \<Rightarrow> bool" where
  "has_offset s = (case parse_date s of
       None \<Rightarrow> False
     | Some (day, s1) \<Rightarrow> (if s1 = [] then False
                        else (case parse_clock (drop_char s1) of None \<Rightarrow> False | Some (t, s2) \<Rightarrow> s2 \<noteq> [])))"

definition until_of_args :: "dict \<Rightarrow> usec \<Rightarrow> exn + usec" where
  "until_of_args args first =
     (case arg args ''recur_until'' of
        None \<Rightarrow> Inr (default_recur_until first)
      | Some (JStr s) \<Rightarrow>
          (case fromisoformat (replace_z s) of
             None \<Rightarrow> Inl (tool_error ''recur_until must be ISO 8601'')
           | Some u \<Rightarrow>
               (if \<not> has_offset (replace_z s)
                then Inl (Exn ''TypeError'' ''can't compare offset-naive and offset-aware datetimes'')
                else if u \<le> first
                then Inl (tool_error ''recur_until must be strictly after first delivery'')
                else Inr u))
      | Some _ \<Rightarrow> Inl (tool_error ''recur_until must be ISO 8601''))"

record sched_plan =
  sp_first :: usec
  sp_kind :: "recur_kind option"
  sp_value :: "string option"
  sp_until :: "usec option"
  sp_max_occurrences :: "int option"
  sp_max_no_progress :: "int option"

definition plan_schedule :: "croniter \<Rightarrow> dict \<Rightarrow> usec \<Rightarrow> exn + sched_plan" where
  "plan_schedule cr args now =
     ebind (positive_arg args ''max_occurrences'') (\<lambda>mo.
     ebind (positive_arg args ''max_no_progress'') (\<lambda>mn.
       if mn \<noteq> None \<and> arg args ''recur_every'' = None \<and> arg args ''recur_cron'' = None
       then Inl (tool_error ''max_no_progress only applies to recurring mail'')
       else if arg args ''recur_every'' \<noteq> None \<and> arg args ''recur_cron'' \<noteq> None
       then Inl (tool_error ''pass at most one of recur_every / recur_cron'')
       else ebind (str_arg args ''recur_every'') (\<lambda>every.
            ebind (str_arg args ''recur_cron'') (\<lambda>cron.
            ebind (case cron of None \<Rightarrow> Inr () | Some e \<Rightarrow> as_tool_error (validate_cron cr e)) (\<lambda>u1.
            ebind (as_tool_error (first_fire_of_args cr args cron now)) (\<lambda>first.
            ebind (case every of None \<Rightarrow> Inr 0 | Some e \<Rightarrow> as_tool_error (parse_duration e)) (\<lambda>u2.
              let kind = (if every \<noteq> None then Some RInterval
                          else if cron \<noteq> None then Some RCron else None)
              in ebind (if kind = None then Inr None else map_sum id Some (until_of_args args first)) (\<lambda>until.
                   Inr \<lparr>sp_first = first, sp_kind = kind,
                        sp_value = (if every \<noteq> None then every else cron), sp_until = until,
                        sp_max_occurrences = mo, sp_max_no_progress = mn\<rparr>))))))))"

definition sched_meta :: "dict \<Rightarrow> send_args \<Rightarrow> string option \<Rightarrow> dict option" where
  "sched_meta user sa broadcast =
     (let m = (if sa_forward sa \<noteq> None \<or> user \<noteq> [] then Some (with_forward (sa_forward sa) user) else None)
      in case broadcast of None \<Rightarrow> m
         | Some b \<Rightarrow> Some (dset ''broadcast_id'' (JStr b) (case m of None \<Rightarrow> [] | Some x \<Rightarrow> x)))"

definition sched_broadcast :: "tool_ctx \<Rightarrow> send_args \<Rightarrow> string option" where
  "sched_broadcast c sa =
     (if 1 < length (sa_to sa) then Some (''sched-bc-'' @ tc_wakeup c @ ''-'' @ sa_use sa) else None)"

definition sched_spec ::
    "tool_ctx \<Rightarrow> send_args \<Rightarrow> dict option \<Rightarrow> sched_plan \<Rightarrow> string \<Rightarrow> scheduled_mail" where
  "sched_spec c sa meta sp r =
     \<lparr>sm_id = None, sm_recipient = r, sm_sender = self_mailbox c, sm_urgency = sa_urgency sa,
      sm_title = sa_title sa, sm_body = sa_body sa, sm_task = Some (tc_task c),
      sm_parent_msg = (case sa_reply sa of None \<Rightarrow> None | Some j \<Rightarrow> int_val j), sm_meta = meta,
      sm_scheduled_for = sp_first sp, sm_recur_kind = sp_kind sp, sm_recur_value = sp_value sp,
      sm_recur_until = sp_until sp, sm_occurrences = 0, sm_max_occurrences = sp_max_occurrences sp,
      sm_no_progress = 0, sm_max_no_progress = sp_max_no_progress sp, sm_failures = 0,
      sm_created = None, sm_created_by_agent = Some (self_mailbox c),
      sm_created_by_task = Some (tc_task c), sm_status = SPending, sm_last_delivery = None,
      sm_last_delivered = None, sm_cancelled = None, sm_cancelled_by = None, sm_bounce_reason = None\<rparr>"

fun create_all :: "int \<Rightarrow> scheduled_mail list \<Rightarrow> (db, int list) exec" where
  "create_all now [] = ret []"
| "create_all now (m # ms) =
     bnd (scheduled_create now m) (\<lambda>i. bnd (create_all now ms) (\<lambda>is. ret (i # is)))"

definition scheduled_reply :: "tool_ctx \<Rightarrow> send_args \<Rightarrow> sched_plan \<Rightarrow> int list \<Rightarrow> dict" where
  "scheduled_reply c sa sp ids =
     [(''status'', JStr ''scheduled''), (''scheduled_ids'', JArr (map JInt ids)),
      (''recipients'', jstrs (sa_to sa)), (''scheduled_for'', JStr (iso_text (sp_first sp))),
      (''recur_kind'', jopt_str (map_option recur_kind_str (sp_kind sp))),
      (''recur_value'', jopt_str (sp_value sp)),
      (''recur_until'', jopt_str (map_option iso_text (sp_until sp))),
      (''broadcast_id'', jopt_str (sched_broadcast c sa))]"

definition schedule_future_mail ::
    "send_env \<Rightarrow> usec \<Rightarrow> tool_ctx \<Rightarrow> dict \<Rightarrow> send_args \<Rightarrow> dict \<Rightarrow> (db, dict) exec" where
  "schedule_future_mail env now c args sa user =
     (case plan_schedule (se_cron env) args (trunc_sec now) of
        Inl e \<Rightarrow> throw e
      | Inr sp \<Rightarrow>
          bnd (create_all (now div 1000)
                 (map (sched_spec c sa (sched_meta user sa (sched_broadcast c sa)) sp) (sa_to sa)))
            (\<lambda>ids. ret (scheduled_reply c sa sp ids)))"

text \<open>A recurring mail without a thread gets one of its own.\<close>

definition loop_thread :: "send_env \<Rightarrow> dict \<Rightarrow> json option \<Rightarrow> dict \<Rightarrow> json option" where
  "loop_thread env args thread m =
     (if thread = None \<and> dget m ''thread_id'' = None
         \<and> (arg args ''recur_every'' \<noteq> None \<or> arg args ''recur_cron'' \<noteq> None)
      then Some (JStr (''thread-'' @ se_mint env)) else thread)"

section \<open>The tool\<close>

definition send_checked ::
    "send_env \<Rightarrow> usec \<Rightarrow> tool_ctx \<Rightarrow> dict \<Rightarrow> (string \<times> dict) option \<Rightarrow> (db, dict) exec" where
  "send_checked env now c args fan =
     check (check_send c args fan) (\<lambda>sa.
       if has_scheduling_args args
       then (case user_meta (value_error ''dictionary update sequence'') args of
               Inl e \<Rightarrow> throw e
             | Inr m \<Rightarrow> schedule_future_mail env now c args sa
                 (with_thread (loop_thread env args (sa_thread sa) m) m))
       else queue_mail now c args sa (map_option snd fan))"

definition discarded_reply :: "dict \<Rightarrow> dict" where
  "discarded_reply args =
     [(''status'', JStr ''discarded''), (''group_id'', jopt (arg args ''result_for''))]"

definition mailbox_send :: "send_env \<Rightarrow> usec \<Rightarrow> tool_ctx \<Rightarrow> dict \<Rightarrow> (db, dict) exec" where
  "mailbox_send env now c args =
     (if arg args ''result_for'' = None then send_checked env now c args None
      else check (validate_fan_in_result env c args) (\<lambda>r. case r of
        None \<Rightarrow> ret (discarded_reply args)
      | Some fan \<Rightarrow> send_checked env now c args (Some fan)))"

end
