(* ===== verification/Mail_Flow.thy ===== *)
theory Mail_Flow
  imports Tool_Send
begin

text \<open>
  From \<open>mailbox_send\<close> to the mailbox and the barrier: what a queued row turns into, that only the
  owner of a leg can submit its result through \<open>result_for\<close>, that the submitted result is counted,
  and that a mail with hand-written metadata is counted as well.
\<close>

section \<open>The mail a queued row becomes\<close>

definition mail_of_send :: "tool_ctx \<Rightarrow> send_args \<Rightarrow> dict option \<Rightarrow> string \<Rightarrow> mail_message" where
  "mail_of_send c sa meta r =
     \<lparr>msg_id = None, msg_recipient = r, msg_external = send_key c sa r,
      msg_sender = (if self_mailbox c = [] then ''system'' else self_mailbox c),
      msg_urgency = sa_urgency sa, msg_title = sa_title sa, msg_body = sa_body sa,
      msg_task = Some (tc_task c), msg_parent = (case sa_reply sa of None \<Rightarrow> None | Some j \<Rightarrow> int_val j),
      msg_broadcast = broadcast_of c sa,
      msg_recipients_all = (if 1 < length (sa_to sa) then Some (sa_to sa) else None), msg_meta = meta,
      msg_delivered = None, msg_read = None, msg_attachments = sa_attachments sa, msg_reactions = None\<rparr>"

lemma opt_field_str [simp]: "opt_field as_str p k = (case not_none (dget p k) of None \<Rightarrow> Inr None
   | Some j \<Rightarrow> (case as_str j of None \<Rightarrow> Inl (validation_error k) | Some v \<Rightarrow> Inr (Some v)))"
  by (simp add: opt_field_def)

lemma not_none_jopt_str [simp]: "not_none (Some (jopt_str s)) = map_option JStr s"
  by (simp add: not_none_def jopt_str_def split: option.split)

lemma send_key_not_Nil [simp]: "send_key c sa r \<noteq> []"
  by (simp add: send_key_def)

lemma send_row_mail:
  assumes "r \<noteq> []" "sa_reply sa = None \<or> sa_reply sa = Some (JInt i)"
  shows "mail_of_row (send_row c sa meta r) = Inr (mail_of_send c sa meta r)"
proof -
  let ?row = "send_row c sa meta r" and ?p = "send_payload c sa meta r"
  have row: "ob_payload ?row = ?p" "ob_external ?row = send_key c sa r" "ob_task ?row = Some (tc_task c)"
    by (simp_all add: send_row_def new_outbox_row_def)
  have f: "str_or ?p ''recipient'' [] = Inr r" "otruthy (dget ?p ''recipient'')"
    "str_or ?p ''external_id'' (send_key c sa r) = Inr (send_key c sa r)"
    "str_or ?p ''sender'' ''system'' = Inr (if self_mailbox c = [] then ''system'' else self_mailbox c)"
    "urgency_field ?p = Inr (sa_urgency sa)" "str_or ?p ''body'' [] = Inr (sa_body sa)"
    "opt_str_or ?p ''task_id'' (Some (tc_task c)) = Inr (Some (tc_task c))"
    using assms(1)
    by (simp_all add: str_or_def opt_str_or_def otruthy_def send_payload_def urgency_field_def)
  have g: "opt_field as_str ?p ''title'' = Inr (sa_title sa)"
    "opt_field as_str ?p ''broadcast_id'' = Inr (broadcast_of c sa)"
    by (simp_all add: send_payload_def split: option.split)
  have h: "opt_field as_int ?p ''parent_msg_id'' = Inr (case sa_reply sa of None \<Rightarrow> None | Some j \<Rightarrow> int_val j)"
    using assms(2) by (auto simp: send_payload_def opt_field_def jopt_def not_none_def)
  have k: "opt_field as_dict ?p ''metadata'' = Inr meta"
    "opt_field as_str_list ?p ''attachments'' = Inr (sa_attachments sa)"
    "opt_field as_str_list ?p ''recipients_all'' = Inr (if 1 < length (sa_to sa) then Some (sa_to sa) else None)"
    by (simp_all add: send_payload_def opt_field_def not_none_def jstrs_def split: option.split)
  show ?thesis
    by (simp only: mail_of_row_def Let_def row f g h k ebind_def sum.case simp_thms if_False mail_of_send_def)
qed

section \<open>The frame of a queued mail\<close>

lemma enqueue_one_frame [simp]:
  "messages (snd (enqueue_one now r d)) = messages d" "agents (snd (enqueue_one now r d)) = agents d"
  "groups (snd (enqueue_one now r d)) = groups d" "members (snd (enqueue_one now r d)) = members d"
  "tasks (snd (enqueue_one now r d)) = tasks d" "wakeups (snd (enqueue_one now r d)) = wakeups d"
  "mailboxes (snd (enqueue_one now r d)) = mailboxes d" "blobs (snd (enqueue_one now r d)) = blobs d"
  "reactions (snd (enqueue_one now r d)) = reactions d" "message_seq (snd (enqueue_one now r d)) = message_seq d"
  by (simp_all add: enqueue_one_def Let_def)

lemma enqueue_frame:
  "messages (snd (outbox_enqueue now rs d)) = messages d \<and> agents (snd (outbox_enqueue now rs d)) = agents d
   \<and> groups (snd (outbox_enqueue now rs d)) = groups d \<and> members (snd (outbox_enqueue now rs d)) = members d
   \<and> tasks (snd (outbox_enqueue now rs d)) = tasks d \<and> wakeups (snd (outbox_enqueue now rs d)) = wakeups d
   \<and> blobs (snd (outbox_enqueue now rs d)) = blobs d \<and> reactions (snd (outbox_enqueue now rs d)) = reactions d"
proof (induction rs arbitrary: d)
  case (Cons r rs)
  obtain x d1 where x: "enqueue_one now r d = (x, d1)" by (cases "enqueue_one now r d")
  then have d1: "d1 = snd (enqueue_one now r d)" by simp
  show ?case
    using Cons.IH [of d1] by (cases x) (simp_all add: enqueue_cons x, simp_all add: d1)
qed simp

lemma enqueue_single: "outbox_enqueue now [r] d = enqueue_one now r d"
  by (simp add: enqueue_cons split: prod.split sum.split)

lemma agents_list_all_cong: "agents d' = agents d \<Longrightarrow> agents_list_all b d' = agents_list_all b d"
  by (simp add: agents_list_all_def)

lemma check_send_cong:
  assumes "agents d' = agents d" "messages d' = messages d" "reactions d' = reactions d" "blobs d' = blobs d"
  shows "check_send c args fan d' = check_send c args fan d"
proof -
  have "known_recipients d' = known_recipients d"
    using agents_list_all_cong [OF assms(1)] by (simp add: known_recipients_def)
  moreover have "get_message i d' = get_message i d" for i
    using assms by (simp add: get_message_def list_reactions_def)
  moreover have "blobs_list_ids ids d' = blobs_list_ids ids d" for ids
    using assms by (simp add: blobs_list_ids_def)
  ultimately have "check_recipients c args to d' = check_recipients c args to d"
    "check_thread c args reply d' = check_thread c args reply d"
    "check_attachments args d' = check_attachments args d" for to reply
    by (auto simp: check_recipients_def check_thread_def check_attachments_def ebind_def
        split: sum.split option.split json.split)
  then show ?thesis by (simp only: check_send_def)
qed

lemma parse_recipients_facts: "parse_recipients j = Inr rs \<Longrightarrow> distinct rs \<and> rs \<noteq> []"
  by (auto simp: parse_recipients_def neq_Nil_conv split: option.splits json.splits if_splits)

lemma check_send_facts:
  assumes "check_send c args fan d = Inr sa"
  shows "distinct (sa_to sa)" "sa_to sa \<noteq> []" "set (sa_to sa) \<subseteq> known_recipients d" "sa_body sa \<noteq> []"
    "self_mailbox c \<in> set (sa_to sa) \<Longrightarrow> has_scheduling_args args"
    "fan = Some (co, e) \<Longrightarrow> sa_to sa = [co] \<and> sa_urgency sa = ULow"
    "sa_reply sa = arg args ''reply_to''" "sa_forward sa = arg args ''forward_msg_id''"
    "check_use args = Inr (sa_use sa)" "check_thread c args (arg args ''reply_to'') d = Inr (sa_thread sa)"
    "fan = None \<Longrightarrow> parse_recipients (arg args ''to'') = Inr (sa_to sa)"
    "arg args ''body'' = Some (JStr (sa_body sa))"
proof -
  from assms have p: "check_recipients c args (case fan of None \<Rightarrow> arg args ''to'' | Some (co, e) \<Rightarrow> Some (JStr co)) d = Inr (sa_to sa)"
    and b: "check_body args = Inr (sa_body sa)"
    and u: "check_urgency (if fan \<noteq> None then JStr ''low''
              else case dget args ''urgency'' of None \<Rightarrow> JStr ''normal'' | Some j \<Rightarrow> j) = Inr (sa_urgency sa)"
    and r: "check_int args ''reply_to'' = Inr (sa_reply sa)" "check_int args ''forward_msg_id'' = Inr (sa_forward sa)"
    and t: "check_thread c args (sa_reply sa) d = Inr (sa_thread sa)" and k: "check_use args = Inr (sa_use sa)"
    by (auto simp: check_send_def ebind_Inr_iff)
  from p have q: "parse_recipients (case fan of None \<Rightarrow> arg args ''to'' | Some (co, e) \<Rightarrow> Some (JStr co)) = Inr (sa_to sa)"
    and s: "\<not> (self_mailbox c \<in> set (sa_to sa) \<and> \<not> has_scheduling_args args)" "set (sa_to sa) \<subseteq> known_recipients d"
    by (auto simp: check_recipients_def ebind_Inr_iff split: if_splits)
  from parse_recipients_facts [OF q] show "distinct (sa_to sa)" "sa_to sa \<noteq> []" by blast+
  show "set (sa_to sa) \<subseteq> known_recipients d" by (rule s(2))
  show "self_mailbox c \<in> set (sa_to sa) \<Longrightarrow> has_scheduling_args args" using s(1) by blast
  from b have bb: "arg args ''body'' = Some (JStr (sa_body sa)) \<and> sa_body sa \<noteq> []"
    by (auto simp: check_body_def split: option.splits json.splits list.splits)
  then show "sa_body sa \<noteq> []" "arg args ''body'' = Some (JStr (sa_body sa))" by blast+
  have low: "check_urgency (JStr ''low'') = Inr ULow" by (simp add: check_urgency_def urgency_of_str_def)
  show "fan = Some (co, e) \<Longrightarrow> sa_to sa = [co] \<and> sa_urgency sa = ULow"
    using q u low by (simp add: parse_recipients_def)
  show rr: "sa_reply sa = arg args ''reply_to''" and "sa_forward sa = arg args ''forward_msg_id''"
    using r by (auto simp: check_int_def split: if_splits)
  show "check_use args = Inr (sa_use sa)" by (rule k)
  show "check_thread c args (arg args ''reply_to'') d = Inr (sa_thread sa)" using t rr by simp
  show "fan = None \<Longrightarrow> parse_recipients (arg args ''to'') = Inr (sa_to sa)" using q by simp
qed

section \<open>Immediate mail\<close>

lemma queue_mail_run:
  assumes "queue_mail now c args sa env d = (Inr reply, d')"
  shows "\<exists>user. user_meta (tool_error ''metadata must be an object'') args = Inr user
    \<and> reply = queued_reply c sa
    \<and> outbox_enqueue (now div 1000) (map (send_row c sa (send_meta user sa env)) (sa_to sa)) d = (Inr (), d')"
proof (cases "user_meta (tool_error ''metadata must be an object'') args")
  case (Inr user)
  obtain x d1 where x: "outbox_enqueue (now div 1000) (map (send_row c sa (send_meta user sa env)) (sa_to sa)) d = (x, d1)"
    by (cases "outbox_enqueue (now div 1000) (map (send_row c sa (send_meta user sa env)) (sa_to sa)) d")
  with assms Inr show ?thesis
    by (cases x) (auto simp: queue_mail_def seqn_def bnd_def ret_def)
qed (use assms in \<open>simp add: queue_mail_def throw_def\<close>)

lemma send_meta_thread:
  assumes "sa_thread sa = Some t" "dget user ''thread_id'' = None"
  shows "oget (send_meta user sa envelope) ''thread_id'' = Some t"
  using assms by (auto simp: send_meta_def with_thread_def with_forward_def split: option.split)

lemma user_meta_keys:
  assumes "user_meta e args = Inr user" "\<forall>m. arg args ''metadata'' = Some (JObj m) \<longrightarrow> dget m k = None"
  shows "dget user k = None"
  using assms by (auto simp: user_meta_def split: if_splits option.splits json.splits)

section \<open>The mail the arguments describe\<close>

text \<open>
  What a caller of \<open>mailbox_send\<close> may expect, read off the arguments of the call, the context of the
  wakeup and the database: who gets a mail, and what is in it, field by field.
\<close>

definition asked_recipients :: "dict \<Rightarrow> string list \<Rightarrow> bool" where
  "asked_recipients args tos \<longleftrightarrow> (case dget args ''to'' of
       Some (JStr s) \<Rightarrow> tos = [s]
     | Some (JArr js) \<Rightarrow> js \<noteq> [] \<and> map JStr tos = rev (remdups (rev js))
     | _ \<Rightarrow> False)"

text \<open>The main line: the one named, else that of the mail replied to, else that of the wakeup.\<close>

definition asked_thread :: "tool_ctx \<Rightarrow> dict \<Rightarrow> db \<Rightarrow> json option" where
  "asked_thread c args d =
     (if arg args ''thread_id'' \<noteq> None then arg args ''thread_id''
      else case arg args ''reply_to'' of
          Some (JInt i) \<Rightarrow>
            (case find (\<lambda>r. mr_id r = i) (messages d) of
               Some r \<Rightarrow> (case oget (mr_meta r) ''thread_id'' of
                   None \<Rightarrow> tc_thread c | Some t \<Rightarrow> (if t = JNull then tc_thread c else Some t))
             | None \<Rightarrow> tc_thread c)
        | _ \<Rightarrow> tc_thread c)"

definition given_meta :: "dict \<Rightarrow> dict" where
  "given_meta args = (case arg args ''metadata'' of Some (JObj m) \<Rightarrow> m | _ \<Rightarrow> [])"

definition asked_meta :: "tool_ctx \<Rightarrow> dict \<Rightarrow> db \<Rightarrow> string \<Rightarrow> json option" where
  "asked_meta c args d k =
     (if k = ''forwarded_from_msg_id'' \<and> arg args ''forward_msg_id'' \<noteq> None then arg args ''forward_msg_id''
      else if k = ''thread_id'' \<and> dget (given_meta args) k = None then asked_thread c args d
      else dget (given_meta args) k)"

definition described_mail :: "tool_ctx \<Rightarrow> dict \<Rightarrow> db \<Rightarrow> string list \<Rightarrow> string \<Rightarrow> mail_message \<Rightarrow> bool" where
  "described_mail c args d tos r m \<longleftrightarrow>
     msg_recipient m = r
     \<and> msg_sender m = (if self_mailbox c = [] then ''system'' else self_mailbox c)
     \<and> msg_body m \<noteq> [] \<and> dget args ''body'' = Some (JStr (msg_body m))
     \<and> (case dget args ''urgency'' of
          None \<Rightarrow> msg_urgency m = UNormal
        | Some j \<Rightarrow> j = JStr (urgency_str (msg_urgency m)))
     \<and> (case arg args ''title'' of
          None \<Rightarrow> msg_title m = None
        | Some j \<Rightarrow> (\<exists>t. j = JStr t \<and> ulen t \<le> 140
            \<and> msg_title m = (if strip t = [] then None else Some (strip t))))
     \<and> jopt_int (msg_parent m) = jopt (arg args ''reply_to'')
     \<and> msg_task m = Some (tc_task c)
     \<and> (case arg args ''attachments'' of
          None \<Rightarrow> msg_attachments m = None
        | Some j \<Rightarrow> (\<exists>ids. j = JArr (map JStr ids) \<and> set ids \<subseteq> br_id ` set (blobs d)
            \<and> msg_attachments m = (if ids = [] then None else Some ids)))
     \<and> (\<exists>use. use \<noteq> [] \<and> dget args ''_tool_use_id'' = Some (JStr use)
          \<and> msg_external m = tc_wakeup c @ '':'' @ use @ '':'' @ r
          \<and> (if 1 < length tos
             then msg_recipients_all m = Some tos \<and> msg_broadcast m = Some (''bc-'' @ tc_wakeup c @ ''-'' @ use)
             else msg_recipients_all m = None \<and> msg_broadcast m = None))
     \<and> (\<forall>k. oget (msg_meta m) k = asked_meta c args d k) \<and> msg_meta m \<noteq> Some []"

lemma all_strs_eq_map: "all_strs js = Some ss \<longleftrightarrow> js = map JStr ss"
  by (induction js arbitrary: ss rule: all_strs.induct) auto

lemma as_str_list_JArr: "as_str_list j = Some ids \<longleftrightarrow> j = JArr (map JStr ids)"
  by (cases j) (auto simp: all_strs_eq_map)

lemma dedupe_remdups: "dedupe xs = rev (remdups (rev xs))"
proof (induction xs)
  case (Cons x xs)
  have "remdups (ys @ [x]) = filter (\<lambda>y. y \<noteq> x) (remdups ys) @ [x]" for ys
    by (induction ys) auto
  then show ?case by (simp add: Cons.IH rev_filter)
qed simp

lemma remdups_JStr: "remdups (map JStr ss) = map JStr (remdups ss)"
  by (induction ss) auto

lemma arg_dget: "arg args k = Some j \<Longrightarrow> dget args k = Some j"
  by (auto simp: arg_def not_none_def split: option.splits json.splits)

lemma asked_recipients_parse:
  assumes "parse_recipients (arg args ''to'') = Inr tos"
  shows "asked_recipients args tos"
proof -
  from assms obtain j where j: "arg args ''to'' = Some j" by (cases "arg args ''to''") (auto simp: parse_recipients_def)
  from assms show ?thesis
    by (cases j) (auto simp: asked_recipients_def arg_dget [OF j] j parse_recipients_def all_strs_eq_map dedupe_remdups
        rev_map remdups_JStr split: option.splits if_splits)
qed

lemma asked_thread_check:
  assumes "check_thread c args (arg args ''reply_to'') d = Inr t"
    and "arg args ''reply_to'' = None \<or> arg args ''reply_to'' = Some (JInt i)"
  shows "asked_thread c args d = t"
proof -
  have g: "get_message i d = map_option (\<lambda>r. (row_to_msg r)\<lparr>msg_reactions := Some (list_reactions i d)\<rparr>)
      (find (\<lambda>r. mr_id r = i) (messages d))" for i
    by (simp add: get_message_def select_one_def)
  show ?thesis
    using assms
    by (auto simp: asked_thread_def check_thread_def g row_to_msg_def not_none_def Let_def
        split: option.splits json.splits if_splits)
qed

lemma user_meta_given: "user_meta e args = Inr user \<Longrightarrow> given_meta args = user"
  by (auto simp: user_meta_def given_meta_def otruthy_def split: option.splits json.splits if_splits)

lemma send_meta_asked:
  assumes "given_meta args = user" "sa_forward sa = arg args ''forward_msg_id''" "asked_thread c args d = sa_thread sa"
  shows "oget (send_meta user sa None) k = asked_meta c args d k" "send_meta user sa None \<noteq> Some []"
proof -
  have k: "''thread_id'' \<noteq> ''forwarded_from_msg_id''" by simp
  have ne: "dset x v y \<noteq> []" for x v y by (cases y rule: list.exhaust) (auto split: prod.splits)
  show "oget (send_meta user sa None) k = asked_meta c args d k" unfolding asked_meta_def assms(1)
    by (cases "sa_forward sa"; cases "sa_thread sa"; cases "k = ''thread_id''"; cases "k = ''forwarded_from_msg_id''")
      (simp_all add: send_meta_def with_thread_def with_forward_def oget_def assms(3) k flip: assms(2))
  show "send_meta user sa None \<noteq> Some []"
    by (cases user) (simp_all add: send_meta_def with_thread_def with_forward_def ne split: option.split)
qed

lemma title_facts:
  assumes "check_title args = Inr t"
  shows "case arg args ''title'' of None \<Rightarrow> t = None
    | Some j \<Rightarrow> (\<exists>u. j = JStr u \<and> ulen u \<le> 140 \<and> t = (if strip u = [] then None else Some (strip u)))"
proof (cases "arg args ''title''")
  case (Some j)
  with assms show ?thesis
    by (cases j) (simp_all add: check_title_def present_def Let_def not_less split: if_splits)
qed (use assms in \<open>simp add: check_title_def\<close>)

lemma attachment_facts:
  assumes "check_attachments args d = Inr a"
  shows "case arg args ''attachments'' of None \<Rightarrow> a = None
    | Some j \<Rightarrow> (\<exists>ids. j = JArr (map JStr ids) \<and> set ids \<subseteq> br_id ` set (blobs d)
        \<and> a = (if ids = [] then None else Some ids))"
proof -
  have "blob_id b \<in> br_id ` set (blobs d)" if "b \<in> set (blobs_list_ids ids d)" for ids b
  proof -
    from that obtain i where "map_of (map (\<lambda>r. (br_id r, row_to_blob r)) (filter (\<lambda>r. br_id r \<in> set ids) (blobs d))) i = Some b"
      by (auto simp: blobs_list_ids_def Let_def List.map_filter_def simp del: map_of_eq_None_iff split: if_splits)
    from map_of_SomeD [OF this] show ?thesis by (auto simp: row_to_blob_def)
  qed
  then have "blob_id ` set (blobs_list_ids ids d) \<subseteq> br_id ` set (blobs d)" for ids by blast
  then show ?thesis
    using assms by (fastforce simp: check_attachments_def as_str_list_JArr split: option.splits if_splits)
qed

lemma urgency_facts:
  assumes "check_urgency (case dget args ''urgency'' of None \<Rightarrow> JStr ''normal'' | Some j \<Rightarrow> j) = Inr u"
  shows "case dget args ''urgency'' of None \<Rightarrow> u = UNormal | Some j \<Rightarrow> j = JStr (urgency_str u)"
proof -
  have "check_urgency j = Inr u \<Longrightarrow> j = JStr (urgency_str u)" for j
    by (cases j) (auto simp: check_urgency_def urgency_of_str_Some split: option.splits)
  moreover have "check_urgency (JStr ''normal'') = Inr UNormal" by (simp add: check_urgency_def urgency_of_str_def)
  ultimately show ?thesis using assms by (auto split: option.splits)
qed

lemma send_described:
  assumes sa: "check_send c args None d = Inr sa"
    and user: "user_meta e args = Inr user"
    and r: "arg args ''reply_to'' = None \<or> arg args ''reply_to'' = Some (JInt i)"
  shows "described_mail c args d (sa_to sa) q (mail_of_send c sa (send_meta user sa None) q)"
proof -
  note f = check_send_facts [OF sa]
  from sa have u: "check_urgency (case dget args ''urgency'' of None \<Rightarrow> JStr ''normal'' | Some j \<Rightarrow> j) = Inr (sa_urgency sa)"
    and t: "check_title args = Inr (sa_title sa)" and a: "check_attachments args d = Inr (sa_attachments sa)"
    by (auto simp: check_send_def ebind_Inr_iff)
  have use: "sa_use sa \<noteq> []" "dget args ''_tool_use_id'' = Some (JStr (sa_use sa))"
    using f(9) by (auto simp: check_use_def arg_dget split: option.splits json.splits list.splits)
  have rep: "jopt_int (case arg args ''reply_to'' of None \<Rightarrow> None | Some j \<Rightarrow> int_val j) = jopt (arg args ''reply_to'')"
    using r by (auto simp: jopt_int_def jopt_def)
  note m = send_meta_asked [OF user_meta_given [OF user] f(8) asked_thread_check [OF f(10) r]]
  show ?thesis
    unfolding described_mail_def
    using f(4) arg_dget [OF f(12)] urgency_facts [OF u] title_facts [OF t] attachment_facts [OF a] use m
    by (simp add: mail_of_send_def f(7) rep send_key_def broadcast_of_def cong: option.case_cong)
qed

text \<open>C20: Sending queues the mail the call describes, once, to everyone it names. A successful
  immediate send reaches the distinct recipients of \<open>to\<close> in their order, all of them known agents and
  never the sender. It queues one row for each, and what the dispatcher reads back from the row is the
  mail described by the arguments and the context, field by field: sender, body, urgency, title,
  replied mail, attachments, broadcast, idempotency key, and metadata with the forwarded mail and the
  main line (the one named, else that of the replied mail, else that of the wakeup). The same call
  made again, as a retry of the turn does, queues nothing more.\<close>

theorem send_exact:
  assumes run: "mailbox_send env now c args d = (Inr reply, d')"
    and a: "arg args ''result_for'' = None" "\<not> has_scheduling_args args"
    and r: "arg args ''reply_to'' = None \<or> arg args ''reply_to'' = Some (JInt i)"
    and ids: "[] \<notin> set (agent_ids d)"
  shows "\<exists>tos rows. asked_recipients args tos \<and> self_mailbox c \<notin> set tos \<and> set tos \<subseteq> known_recipients d
     \<and> dget reply ''recipients'' = Some (jstrs tos)
     \<and> outbox_enqueue (now div 1000) rows d = (Inr (), d')
     \<and> list_all2 (\<lambda>q row. ob_kind row = KMailboxSend \<and> ob_wakeup row = Some (tc_wakeup c)
          \<and> (\<exists>m. mail_of_row row = Inr m \<and> described_mail c args d tos q m
               \<and> ob_external row = msg_external m \<and> has_outbox KMailboxSend (msg_external m) d')) tos rows
     \<and> (\<exists>d''. mailbox_send env later c args d' = (Inr reply, d'') \<and> outbox d'' = outbox d')"
proof -
  have m: "mailbox_send env t c args x = send_checked env t c args None x" for t x
    using a(1) by (simp add: mailbox_send_def)
  from run obtain sa where sa: "check_send c args None d = Inr sa" "queue_mail now c args sa None d = (Inr reply, d')"
    using a(2) by (auto simp: m send_checked_def check_Inr_iff)
  from queue_mail_run [OF sa(2)] obtain user where user: "user_meta (tool_error ''metadata must be an object'') args = Inr user"
    "reply = queued_reply c sa"
    "outbox_enqueue (now div 1000) (map (send_row c sa (send_meta user sa None)) (sa_to sa)) d = (Inr (), d')" by blast
  let ?row = "send_row c sa (send_meta user sa None)"
  note f = check_send_facts [OF sa(1)]
  have ne: "[] \<notin> set (sa_to sa)"
    using f(3) ids by (force simp: known_recipients_def agents_list_all_def agent_ids_def row_to_agent_def order_by_def)
  have key: "ob_kind (?row q) = KMailboxSend" "ob_external (?row q) = send_key c sa q" "ob_wakeup (?row q) = Some (tc_wakeup c)" for q
    by (simp_all add: send_row_def new_outbox_row_def)
  have has: "has_outbox KMailboxSend (send_key c sa q) d'" if "q \<in> set (sa_to sa)" for q
    using enqueue_has [of "now div 1000" "map ?row (sa_to sa)" d "?row q"] user(3) that by (simp add: key)
  have mail: "mail_of_row (?row q) = Inr (mail_of_send c sa (send_meta user sa None) q)" if "q \<in> set (sa_to sa)" for q
    using that ne r f(7) by (intro send_row_mail) auto
  have rows: "list_all2 (\<lambda>q row. ob_kind row = KMailboxSend \<and> ob_wakeup row = Some (tc_wakeup c)
          \<and> (\<exists>m. mail_of_row row = Inr m \<and> described_mail c args d (sa_to sa) q m
               \<and> ob_external row = msg_external m \<and> has_outbox KMailboxSend (msg_external m) d')) (sa_to sa) (map ?row (sa_to sa))"
    using mail has send_described [OF sa(1) user(1) r]
    by (auto simp: list_all2_conv_all_nth key mail_of_send_def)
  have again: "\<exists>d''. mailbox_send env later c args d' = (Inr reply, d'') \<and> outbox d'' = outbox d'"
  proof -
    have fr: "agents d' = agents d" "messages d' = messages d" "reactions d' = reactions d" "blobs d' = blobs d"
      using enqueue_frame [of "now div 1000" "map ?row (sa_to sa)" d] user(3) by simp_all
    have "check_send c args None d' = Inr sa" using check_send_cong [OF fr, of c args None] sa(1) by simp
    then have "mailbox_send env later c args d' = queue_mail later c args sa None d'"
      using a(2) by (simp add: m send_checked_def check_Inr)
    moreover obtain d'' where d'': "outbox_enqueue (later div 1000) (map ?row (sa_to sa)) d' = (Inr (), d'')" "outbox d'' = outbox d'"
      using enqueue_again [of "map ?row (sa_to sa)" d' "later div 1000"] has
      by (cases "outbox_enqueue (later div 1000) (map ?row (sa_to sa)) d'") (auto simp: key)
    ultimately show ?thesis
      using user(1,2) by (simp add: queue_mail_def seqn_def bnd_def ret_def)
  qed
  have re: "dget reply ''recipients'' = Some (jstrs (sa_to sa))" by (simp add: user(2) queued_reply_def)
  have self: "self_mailbox c \<notin> set (sa_to sa)" using f(5) a(2) by blast
  have tos: "asked_recipients args (sa_to sa)" using f(11) by (intro asked_recipients_parse) simp
  from tos self f(3) re user(3) rows again show ?thesis by blast
qed

section \<open>The result of a leg\<close>

lemma validate_facts:
  assumes "validate_fan_in_result env c args d = Inr (Some (co, e))"
  shows "\<exists>gid lj leg result g m. arg args ''result_for'' = Some (JStr gid) \<and> arg args ''leg_key'' = Some lj
    \<and> int_val lj = Some leg \<and> arg args ''result'' = Some (JObj result) \<and> \<not> has_scheduling_args args
    \<and> group_get gid d = Some g \<and> grp_status g \<noteq> GCancelled \<and> live_agent (grp_coordinator g) d
    \<and> get_member gid leg d = Some m \<and> fm_child_agent m = self_mailbox c
    \<and> se_schema env result (grp_schema g) = None \<and> co = grp_coordinator g \<and> e = result_envelope gid lj result"
  using assms
  by (auto simp: validate_fan_in_result_def split: option.splits json.splits if_splits)

lemma group_get_id: "group_get gid d = Some g \<Longrightarrow> grp_id g = gid"
  by (auto simp: group_get_def row_to_group_def dest: select_one_Some)

lemma envelope_for_group:
  assumes "group_get gid d = Some g" "mr_recipient r = grp_coordinator g"
    and "oget (mr_meta r) ''fan_in'' = Some (JObj (result_envelope gid lj result))" "int_val lj = Some leg"
  shows "for_group (grp_coordinator g) (grp_id g) r" "leg_sql r = SqlInt leg"
proof -
  obtain mt where mt: "mr_meta r = Some mt" "dget mt ''fan_in'' = Some (JObj (result_envelope gid lj result))"
    using assms(3) by (cases "mr_meta r") auto
  have "json_extract (mr_meta r) [''fan_in'', ''group_id''] = SqlText gid"
    using mt by (simp add: json_extract_def result_envelope_def)
  then show "for_group (grp_coordinator g) (grp_id g) r"
    using assms(2) group_get_id [OF assms(1)] by (simp add: for_group_def sql_eq_def)
  show "leg_sql r = SqlInt leg"
    using mt assms(4) by (cases lj) (auto simp: leg_sql_def json_extract_def result_envelope_def)
qed

lemma inserted_leg_counts:
  assumes "group_get gid d = Some g" "int_val lj = Some leg"
    and msg: "msg_recipient msg = grp_coordinator g"
      "oget (msg_meta msg) ''fan_in'' = Some (JObj (result_envelope gid lj result))"
    and ins: "insert_message later msg d2 = (Inr i, d3)" "i \<noteq> - 1"
  shows "leg_values g d3 = insert (SqlInt leg) (leg_values g d2)"
proof -
  have app: "messages d3 = messages d2 @ [message_row_of later i msg]"
    using insert_message_appends [of later msg d2 i] ins by simp
  have r: "mr_recipient (message_row_of later i msg) = grp_coordinator g"
    "oget (mr_meta (message_row_of later i msg)) ''fan_in'' = Some (JObj (result_envelope gid lj result))"
    using msg by simp_all
  note e = envelope_for_group [OF assms(1) r assms(2)]
  have "{x \<in> set (messages d3). for_group (grp_coordinator g) (grp_id g) x}
      = insert (message_row_of later i msg) {x \<in> set (messages d2). for_group (grp_coordinator g) (grp_id g) x}"
    using e(1) by (auto simp: app)
  then show ?thesis using e(2) by (auto simp: leg_values_def)
qed

text \<open>C21: Only the owner of a leg submits its result, and the result counts. A call with
  \<open>result_for\<close> that queues anything came from the agent the roster names for that leg, for a group
  that is not cancelled, with a result that satisfies the group's schema; it queues one low-urgency
  row for the coordinator, whatever recipient or urgency the arguments name, and once the dispatcher
  inserts the mail of that row the leg is among the counted legs of the group.\<close>

theorem leg_result_trusted:
  assumes run: "mailbox_send env now c args d = (Inr reply, d')"
    and a: "arg args ''result_for'' \<noteq> None" "dget reply ''status'' = Some (JStr ''queued'')"
    and r: "arg args ''reply_to'' = None" and ids: "[] \<notin> set (agent_ids d)"
  shows "\<exists>gid lj leg result g m row msg. arg args ''result_for'' = Some (JStr gid) \<and> arg args ''leg_key'' = Some lj
     \<and> int_val lj = Some leg \<and> arg args ''result'' = Some (JObj result) \<and> group_get gid d = Some g
     \<and> grp_status g \<noteq> GCancelled \<and> get_member gid leg d = Some m \<and> fm_child_agent m = self_mailbox c
     \<and> se_schema env result (grp_schema g) = None
     \<and> enqueue_one (now div 1000) row d = (Inr (), d') \<and> ob_kind row = KMailboxSend \<and> mail_of_row row = Inr msg
     \<and> msg_recipient msg = grp_coordinator g \<and> msg_urgency msg = ULow
     \<and> oget (msg_meta msg) ''fan_in'' = Some (JObj (result_envelope gid lj result))
     \<and> (\<forall>later d2 i d3. insert_message later msg d2 = (Inr i, d3) \<and> i \<noteq> - 1 \<longrightarrow> leg \<in> counted_legs g d3)"
proof -
  have nd: "reply \<noteq> discarded_reply args" using a(2) by (auto simp: discarded_reply_def)
  from run a(1) obtain x where x: "validate_fan_in_result env c args d = Inr x"
    "(case x of None \<Rightarrow> ret (discarded_reply args) | Some fan \<Rightarrow> send_checked env now c args (Some fan)) d = (Inr reply, d')"
    by (auto simp: mailbox_send_def check_Inr_iff)
  obtain co e where ce: "x = Some (co, e)" using x(2) nd by (cases x) (auto simp: ret_def)
  from validate_facts [OF x(1) [unfolded ce]] obtain gid lj leg result g m where
    v: "arg args ''result_for'' = Some (JStr gid)" "arg args ''leg_key'' = Some lj" "int_val lj = Some leg"
      "arg args ''result'' = Some (JObj result)" "\<not> has_scheduling_args args" "group_get gid d = Some g"
      "grp_status g \<noteq> GCancelled" "live_agent (grp_coordinator g) d" "get_member gid leg d = Some m"
      "fm_child_agent m = self_mailbox c" "se_schema env result (grp_schema g) = None"
    and co: "co = grp_coordinator g" "e = result_envelope gid lj result" by blast
  from x(2) ce v(5) obtain sa where sa: "check_send c args (Some (co, e)) d = Inr sa"
    "queue_mail now c args sa (Some e) d = (Inr reply, d')"
    by (auto simp: send_checked_def check_Inr_iff)
  from queue_mail_run [OF sa(2)] obtain user where
    u: "outbox_enqueue (now div 1000) (map (send_row c sa (send_meta user sa (Some e))) (sa_to sa)) d = (Inr (), d')" by blast
  note f = check_send_facts [OF sa(1)]
  have to: "sa_to sa = [co]" "sa_urgency sa = ULow" using f(6) by blast+
  let ?mt = "send_meta user sa (Some e)"
  have "co \<noteq> []"
  proof
    assume "co = []"
    with v(8) co(1) ids show False
      by (auto simp: live_agent_def agents_get_def agent_ids_def image_iff split: option.splits dest!: select_one_Some)
  qed
  then have mail: "mail_of_row (send_row c sa ?mt co) = Inr (mail_of_send c sa ?mt co)"
    using f(7) r by (intro send_row_mail) auto
  have meta: "oget ?mt ''fan_in'' = Some (JObj e)"
    by (auto simp: send_meta_def with_thread_def split: option.split)
  have msg: "msg_recipient (mail_of_send c sa ?mt co) = grp_coordinator g"
    "msg_urgency (mail_of_send c sa ?mt co) = ULow"
    "oget (msg_meta (mail_of_send c sa ?mt co)) ''fan_in'' = Some (JObj (result_envelope gid lj result))"
    using to(2) meta co by (simp_all add: mail_of_send_def)
  have cnt: "leg \<in> counted_legs g d3"
    if "insert_message later (mail_of_send c sa ?mt co) d2 = (Inr i, d3)" "i \<noteq> - 1" for later d2 i d3
    using inserted_leg_counts [OF v(6,3) msg(1,3) that] by (auto simp: counted_legs_def leg_int_def)
  have "enqueue_one (now div 1000) (send_row c sa ?mt co) d = (Inr (), d')"
    using u to(1) by (simp add: enqueue_single)
  moreover have "ob_kind (send_row c sa ?mt co) = KMailboxSend" by (simp add: send_row_def new_outbox_row_def)
  ultimately show ?thesis using v mail msg cnt by blast
qed

section \<open>A hand-written envelope\<close>

definition forged_args :: "string \<Rightarrow> string \<Rightarrow> string \<Rightarrow> int \<Rightarrow> dict" where
  "forged_args use co gid leg =
     [(''to'', JStr co), (''body'', JStr ''done''),
      (''metadata'', JObj [(''fan_in'', JObj (result_envelope gid (JInt leg) []))]),
      (''_tool_use_id'', JStr use)]"

definition forged_send :: "tool_ctx \<Rightarrow> string \<Rightarrow> string \<Rightarrow> send_args" where
  "forged_send c use co =
     \<lparr>sa_to = [co], sa_body = ''done'', sa_urgency = UNormal, sa_title = None, sa_reply = None,
      sa_forward = None, sa_thread = tc_thread c, sa_attachments = None, sa_use = use\<rparr>"

lemma forged_checks:
  assumes "co \<in> known_recipients d" "self_mailbox c \<noteq> co" "use \<noteq> []"
  shows "check_send c (forged_args use co gid leg) None d = Inr (forged_send c use co)"
    "\<not> has_scheduling_args (forged_args use co gid leg)" "arg (forged_args use co gid leg) ''result_for'' = None"
    "user_meta e (forged_args use co gid leg) = Inr [(''fan_in'', JObj (result_envelope gid (JInt leg) []))]"
proof -
  obtain x xs where use: "use = x # xs" using assms(3) by (cases use) auto
  have n: "urgency_of_str ''normal'' = Some UNormal" by (simp add: urgency_of_str_def)
  show "\<not> has_scheduling_args (forged_args use co gid leg)" "arg (forged_args use co gid leg) ''result_for'' = None"
    "user_meta e (forged_args use co gid leg) = Inr [(''fan_in'', JObj (result_envelope gid (JInt leg) []))]"
    by (simp_all add: has_scheduling_args_def scheduling_keys_def forged_args_def
        user_meta_def otruthy_def)
  show "check_send c (forged_args use co gid leg) None d = Inr (forged_send c use co)"
    using assms
    by (simp add: check_send_def check_recipients_def parse_recipients_def check_body_def check_urgency_def
        check_title_def check_int_def is_int_arg_def check_thread_def check_attachments_def check_use_def
        forged_args_def ebind_def n use forged_send_def)
qed

text \<open>A hand-written envelope is counted like a validated result. An agent that the roster of a
  group does not name cannot submit through \<open>result_for\<close>; but an ordinary mail to the coordinator
  whose metadata carries the same envelope passes every check, and when the dispatcher has delivered
  it, the number of counted results of the group has gone up by one, with no leg, sender or schema
  checked.\<close>

theorem forged_result_counts:
  assumes g: "group_get gid d = Some g" "grp_coordinator g \<in> known_recipients d"
    and c: "self_mailbox c \<noteq> grp_coordinator g" "use \<noteq> []" "tc_task c \<in> set (task_ids d)"
      "tc_wakeup c \<in> set (wakeup_ids d)" "[] \<notin> set (agent_ids d)"
    and none: "\<forall>leg m. get_member gid leg d = Some m \<longrightarrow> fm_child_agent m \<noteq> self_mailbox c"
    and key: "\<not> has_outbox KMailboxSend (tc_wakeup c @ '':'' @ use @ '':'' @ grp_coordinator g) d"
      "\<not> has_message (grp_coordinator g) (tc_wakeup c @ '':'' @ use @ '':'' @ grp_coordinator g) d"
    and leg: "SqlInt leg \<notin> leg_values g d"
  shows "(\<forall>args x. arg args ''result_for'' = Some (JStr gid) \<longrightarrow> validate_fan_in_result env c args d \<noteq> Inr (Some x))
     \<and> (\<exists>reply d1 row msg i d2. mailbox_send env now c (forged_args use (grp_coordinator g) gid leg) d = (Inr reply, d1)
          \<and> enqueue_one (now div 1000) row d = (Inr (), d1) \<and> mail_of_row row = Inr msg
          \<and> insert_message later msg d1 = (Inr i, d2)
          \<and> count_fan_in_results (grp_coordinator g) gid d2 = Suc (count_fan_in_results (grp_coordinator g) gid d))"
proof -
  let ?co = "grp_coordinator g"
  let ?sa = "forged_send c use ?co" and ?user = "[(''fan_in'', JObj (result_envelope gid (JInt leg) []))]"
  let ?mt = "send_meta ?user ?sa None"
  let ?row = "send_row c ?sa ?mt ?co" and ?msg = "mail_of_send c ?sa ?mt ?co"
  note ch = forged_checks [OF g(2) c(1,2)]
  have refused: "validate_fan_in_result env c args d \<noteq> Inr (Some x)"
    if "arg args ''result_for'' = Some (JStr gid)" for args x
  proof
    assume "validate_fan_in_result env c args d = Inr (Some x)"
    with validate_facts [of env c args d "fst x" "snd x"] that none show False by auto
  qed
  have ne: "?co \<noteq> []"
    using g(2) c(5) by (force simp: known_recipients_def agents_list_all_def agent_ids_def row_to_agent_def order_by_def)
  have row: "ob_kind ?row = KMailboxSend" "ob_external ?row = tc_wakeup c @ '':'' @ use @ '':'' @ ?co"
    "ob_task ?row = Some (tc_task c)" "ob_wakeup ?row = Some (tc_wakeup c)"
    by (simp_all add: send_row_def new_outbox_row_def send_key_def forged_send_def)
  obtain d1 where d1: "enqueue_one (now div 1000) ?row d = (Inr (), d1)"
    using key(1) c(3,4) by (simp add: enqueue_one_def row Let_def)
  have fr: "messages d1 = messages d" "tasks d1 = tasks d"
    using enqueue_one_frame [of "now div 1000" ?row d] d1 by simp_all
  have send: "mailbox_send env now c (forged_args use ?co gid leg) d = (Inr (queued_reply c ?sa), d1)"
    using ch d1 by (simp add: mailbox_send_def send_checked_def check_Inr queue_mail_def seqn_def bnd_def ret_def
        enqueue_single) (simp add: forged_send_def enqueue_single)
  have mail: "mail_of_row ?row = Inr ?msg"
    using ne by (intro send_row_mail) (auto simp: forged_send_def)
  have msg: "msg_recipient ?msg = ?co" "msg_task ?msg = Some (tc_task c)" "msg_parent ?msg = None"
    "msg_external ?msg = tc_wakeup c @ '':'' @ use @ '':'' @ ?co"
    "oget (msg_meta ?msg) ''fan_in'' = Some (JObj (result_envelope gid (JInt leg) []))"
    by (simp_all add: mail_of_send_def forged_send_def send_key_def send_meta_def with_thread_def with_forward_def
        split: option.split)
  have "\<not> has_message ?co (msg_external ?msg) d1" using key(2) msg(4) fr(1) by (simp add: has_message_def)
  then obtain d2 where ins: "insert_message later ?msg d1 = (Inr (message_seq d1 + 1), d2)"
    and app: "messages d2 = messages d1 @ [message_row_of later (message_seq d1 + 1) ?msg]"
    using c(3) by (simp add: insert_message_def Let_def msg fr task_ids_def)
  have r: "mr_recipient (message_row_of later (message_seq d1 + 1) ?msg) = ?co"
    "oget (mr_meta (message_row_of later (message_seq d1 + 1) ?msg)) ''fan_in''
       = Some (JObj (result_envelope gid (JInt leg) []))"
    using msg by simp_all
  have iv: "int_val (JInt leg) = Some leg" by simp
  note e = envelope_for_group [OF g(1) r iv]
  have set: "{x \<in> set (messages d2). for_group ?co (grp_id g) x}
      = insert (message_row_of later (message_seq d1 + 1) ?msg) {x \<in> set (messages d). for_group ?co (grp_id g) x}"
    using e(1) by (auto simp: app fr(1))
  have "leg_values g d2 = insert (SqlInt leg) (leg_values g d)"
    using e(2) by (auto simp: leg_values_def set)
  then have "count_fan_in_results ?co gid d2 = Suc (count_fan_in_results ?co gid d)"
    using leg count_fan_in_card [of g] group_get_id [OF g(1)] by (simp add: leg_values_def)
  with refused send d1 mail ins show ?thesis by blast
qed

section \<open>Samples\<close>

definition leg_db :: db where
  "leg_db = busy_db
     \<lparr>agents := [sample_agent ''dispatcher'' None None,
                 sample_agent ''worker/a'' (Some ''dispatcher'') None,
                 sample_agent ''worker/b'' (Some ''dispatcher'') None],
      groups := [sample_group],
      members := [\<lparr>fm_group = ''g'', fm_leg_key = 0, fm_child_task = ''t1'', fm_child_agent = ''worker/a''\<rparr>]\<rparr>"

definition sample_send_env :: send_env where
  "sample_send_env = \<lparr>se_schema = (\<lambda>r s. None), se_cron = every_minute, se_mint = ''00ff''\<rparr>"

definition report_args :: dict where
  "report_args = [(''to'', JStr ''dispatcher''), (''body'', JStr ''half way''), (''_tool_use_id'', JStr ''u1'')]"

definition result_args :: dict where
  "result_args = [(''result_for'', JStr ''g''), (''leg_key'', JInt 0), (''result'', JObj [(''ok'', JBool True)]),
     (''body'', JStr ''done''), (''_tool_use_id'', JStr ''u1'')]"

definition queued :: "exn + dict \<Rightarrow> bool" where
  "queued r \<longleftrightarrow> (case r of Inl e \<Rightarrow> False | Inr x \<Rightarrow> dget x ''status'' = Some (JStr ''queued''))"

lemma queued_run:
  assumes "queued (fst (mailbox_send env now c args d))"
  obtains reply d' where "mailbox_send env now c args d = (Inr reply, d')"
    "dget reply ''status'' = Some (JStr ''queued'')"
  using assms by (cases "mailbox_send env now c args d") (auto simp: queued_def split: sum.splits)

lemma send_exact_witness:
  "\<exists>reply d' row m d''. mailbox_send sample_send_env 0 (sample_ctx ''worker/a'') report_args leg_db = (Inr reply, d')
     \<and> dget reply ''recipients'' = Some (jstrs [''dispatcher'']) \<and> outbox_enqueue 0 [row] leg_db = (Inr (), d')
     \<and> mail_of_row row = Inr m \<and> msg_recipient m = ''dispatcher'' \<and> msg_body m = ''half way'' \<and> msg_urgency m = UNormal
     \<and> has_outbox KMailboxSend (msg_external m) d'
     \<and> mailbox_send sample_send_env 5 (sample_ctx ''worker/a'') report_args d' = (Inr reply, d'')
     \<and> outbox d'' = outbox d'"
proof -
  have "queued (fst (mailbox_send sample_send_env 0 (sample_ctx ''worker/a'') report_args leg_db))" by code_simp
  then obtain reply d' where r: "mailbox_send sample_send_env 0 (sample_ctx ''worker/a'') report_args leg_db = (Inr reply, d')"
    using queued_run by blast
  have f: "arg report_args ''result_for'' = None" "\<not> has_scheduling_args report_args"
    "arg report_args ''reply_to'' = None \<or> arg report_args ''reply_to'' = Some (JInt 0)"
    "[] \<notin> set (agent_ids leg_db)"
    by (simp_all add: report_args_def has_scheduling_args_def scheduling_keys_def leg_db_def agent_ids_def sample_agent_def)
  have g: "dget report_args ''to'' = Some (JStr ''dispatcher'')" "dget report_args ''body'' = Some (JStr ''half way'')"
    "dget report_args ''urgency'' = None"
    by (simp_all add: report_args_def dget_def)
  from send_exact [OF r f, of 5] obtain tos rows d'' where e: "asked_recipients report_args tos"
    "dget reply ''recipients'' = Some (jstrs tos)" "outbox_enqueue (0 div 1000) rows leg_db = (Inr (), d')"
    "list_all2 (\<lambda>q row. ob_kind row = KMailboxSend \<and> ob_wakeup row = Some (tc_wakeup (sample_ctx ''worker/a''))
        \<and> (\<exists>m. mail_of_row row = Inr m \<and> described_mail (sample_ctx ''worker/a'') report_args leg_db tos q m
             \<and> ob_external row = msg_external m \<and> has_outbox KMailboxSend (msg_external m) d')) tos rows"
    "mailbox_send sample_send_env 5 (sample_ctx ''worker/a'') report_args d' = (Inr reply, d'')" "outbox d'' = outbox d'"
    by blast
  from e(1) have tos: "tos = [''dispatcher'']" by (simp add: asked_recipients_def g(1))
  with e(4) obtain row m where m: "rows = [row]" "mail_of_row row = Inr m"
    "described_mail (sample_ctx ''worker/a'') report_args leg_db tos ''dispatcher'' m" "has_outbox KMailboxSend (msg_external m) d'"
    by (auto simp: list_all2_Cons1)
  from m(3) have "msg_recipient m = ''dispatcher''" "msg_body m = ''half way''" "msg_urgency m = UNormal"
    unfolding described_mail_def g by simp_all
  with r e m(2,4) show ?thesis unfolding tos m(1) by auto
qed

lemma leg_result_trusted_witness:
  "\<exists>reply d' row msg. mailbox_send sample_send_env 0 (sample_ctx ''worker/a'') result_args leg_db = (Inr reply, d')
     \<and> enqueue_one 0 row leg_db = (Inr (), d') \<and> mail_of_row row = Inr msg \<and> msg_recipient msg = ''dispatcher''"
proof -
  have "queued (fst (mailbox_send sample_send_env 0 (sample_ctx ''worker/a'') result_args leg_db))" by code_simp
  then obtain reply d' where r: "mailbox_send sample_send_env 0 (sample_ctx ''worker/a'') result_args leg_db = (Inr reply, d')"
    "dget reply ''status'' = Some (JStr ''queued'')"
    using queued_run by blast
  have f: "arg result_args ''result_for'' \<noteq> None" "arg result_args ''reply_to'' = None"
    "[] \<notin> set (agent_ids leg_db)" "arg result_args ''result_for'' = Some (JStr ''g'')"
    by (simp_all add: result_args_def leg_db_def agent_ids_def sample_agent_def)
  have g: "group_get ''g'' leg_db = Some (row_to_group sample_group)" "grp_coordinator (row_to_group sample_group) = ''dispatcher''"
    by (simp_all add: group_get_def leg_db_def sample_group_def select_one_def row_to_group_def)
  from leg_result_trusted [OF r(1) f(1) r(2) f(2,3)] f(4) r(1) g show ?thesis by auto
qed

lemma forged_result_counts_witness:
  "\<exists>reply d1 row msg i d2. mailbox_send sample_send_env 0 (sample_ctx ''worker/b'')
       (forged_args ''u1'' ''dispatcher'' ''g'' 0) leg_db = (Inr reply, d1)
     \<and> mail_of_row row = Inr msg \<and> insert_message 5 msg d1 = (Inr i, d2)
     \<and> count_fan_in_results ''dispatcher'' ''g'' d2 = Suc (count_fan_in_results ''dispatcher'' ''g'' leg_db)"
proof -
  let ?c = "sample_ctx ''worker/b''" and ?g = "row_to_group sample_group"
  have g: "group_get ''g'' leg_db = Some ?g" "grp_coordinator ?g = ''dispatcher''"
    by (simp_all add: group_get_def leg_db_def sample_group_def select_one_def row_to_group_def)
  have k: "grp_coordinator ?g \<in> known_recipients leg_db"
    by (simp add: g(2) known_recipients_def agents_list_all_def leg_db_def sample_agent_def row_to_agent_def order_by_def)
  have c: "self_mailbox ?c \<noteq> grp_coordinator ?g" "''u1'' \<noteq> []" "tc_task ?c \<in> set (task_ids leg_db)"
    "tc_wakeup ?c \<in> set (wakeup_ids leg_db)" "[] \<notin> set (agent_ids leg_db)"
    by (simp_all add: g(2) sample_ctx_def self_mailbox_def present_def leg_db_def busy_db_def task_ids_def wakeup_ids_def
        agent_ids_def sample_task_def sample_agent_def new_wakeup_row_def)
  have m: "\<forall>leg m. get_member ''g'' leg leg_db = Some m \<longrightarrow> fm_child_agent m \<noteq> self_mailbox ?c"
    by (auto simp: get_member_def leg_db_def select_one_def sample_ctx_def self_mailbox_def present_def)
  have k2: "\<not> has_outbox KMailboxSend (tc_wakeup ?c @ '':'' @ ''u1'' @ '':'' @ grp_coordinator ?g) leg_db"
    "\<not> has_message (grp_coordinator ?g) (tc_wakeup ?c @ '':'' @ ''u1'' @ '':'' @ grp_coordinator ?g) leg_db"
    "SqlInt 0 \<notin> leg_values ?g leg_db"
    by (simp_all add: has_outbox_def has_message_def leg_values_def leg_db_def busy_db_def sample_db_def empty_db_def)
  from forged_result_counts [OF g(1) k c m k2, of sample_send_env 0 5] show ?thesis
    by (simp only: g(2)) blast
qed

section \<open>Scheduled mail\<close>

text \<open>The rows of the recipients, with ids counted from \<open>i\<close>.\<close>

fun sched_rows :: "int \<Rightarrow> int \<Rightarrow> scheduled_mail list \<Rightarrow> sched_row list" where
  "sched_rows now i [] = []"
| "sched_rows now i (m # ms) = sched_row_of now i m # sched_rows now (i + 1) ms"

lemma create_all_run:
  "create_all now ms d = (Inr ids, d') \<Longrightarrow>
     scheduled d' = scheduled d @ sched_rows now (scheduled_seq d + 1) ms \<and> outbox d' = outbox d \<and> messages d' = messages d
     \<and> ids = map sr_id (sched_rows now (scheduled_seq d + 1) ms)"
proof (induction ms arbitrary: d ids)
  case (Cons m ms)
  let ?d1 = "d\<lparr>scheduled := scheduled d @ [sched_row_of now (scheduled_seq d + 1) m], scheduled_seq := scheduled_seq d + 1\<rparr>"
  from Cons.prems obtain ids2 where s: "create_all now ms ?d1 = (Inr ids2, d')" "ids = (scheduled_seq d + 1) # ids2"
    by (auto simp: bnd_def ret_def scheduled_create_def Let_def split: prod.splits sum.splits if_splits)
  have "sr_id (sched_row_of now i m) = i" for i by (simp add: sched_row_of_def)
  with Cons.IH [OF s(1)] s(2) show ?case by (simp add: algebra_simps)
qed (simp add: ret_def)

lemma as_tool_error_Inr [simp]: "as_tool_error r = Inr x \<longleftrightarrow> r = Inr x"
  by (cases r) (auto simp: as_tool_error_def split: exn.split)

lemma first_fire_args:
  assumes "cron_forward cr" "first_fire_of_args cr args cron now = Inr t"
  shows "now < t \<and> t \<le> now + max_horizon"
  using assms(2) first_fire_in_horizon [OF assms(1)]
  by (auto simp: first_fire_of_args_def split: option.splits)

lemma until_after: "until_of_args args first = Inr u \<Longrightarrow> first < u"
  by (auto simp: until_of_args_def default_recur_until_def duration_consts split: option.splits json.splits if_splits)

lemma plan_facts:
  assumes "cron_forward cr" "plan_schedule cr args now = Inr sp"
  shows "now < sp_first sp \<and> sp_first sp \<le> now + max_horizon
     \<and> (sp_kind sp = None \<longleftrightarrow> arg args ''recur_every'' = None \<and> arg args ''recur_cron'' = None)
     \<and> (sp_kind sp = None \<longleftrightarrow> sp_until sp = None) \<and> (\<forall>u. sp_until sp = Some u \<longrightarrow> sp_first sp < u)
     \<and> (sp_max_no_progress sp \<noteq> None \<longrightarrow> sp_kind sp \<noteq> None)"
proof -
  from assms(2) obtain mo mn every cron first u2 until where
    p: "positive_arg args ''max_occurrences'' = Inr mo" "positive_arg args ''max_no_progress'' = Inr mn"
    "\<not> (mn \<noteq> None \<and> arg args ''recur_every'' = None \<and> arg args ''recur_cron'' = None)"
    "str_arg args ''recur_every'' = Inr every" "str_arg args ''recur_cron'' = Inr cron"
    "first_fire_of_args cr args cron now = Inr first"
    "(if (if every \<noteq> None then Some RInterval else if cron \<noteq> None then Some RCron else None) = None
      then Inr None else map_sum id Some (until_of_args args first)) = Inr until"
    "sp = \<lparr>sp_first = first, sp_kind = (if every \<noteq> None then Some RInterval
                          else if cron \<noteq> None then Some RCron else None),
           sp_value = (if every \<noteq> None then every else cron), sp_until = until,
           sp_max_occurrences = mo, sp_max_no_progress = mn\<rparr>"
    by (auto simp: plan_schedule_def ebind_Inr_iff Let_def split: if_splits)
  have e: "every = None \<longleftrightarrow> arg args ''recur_every'' = None" "cron = None \<longleftrightarrow> arg args ''recur_cron'' = None"
    using p(4,5) by (auto simp: str_arg_def split: option.splits json.splits)
  have u: "first < u" if "until = Some u" for u
    using p(7) that until_after [of args first u] by (cases "until_of_args args first") (auto split: if_splits)
  have n: "until = None \<longleftrightarrow> every = None \<and> cron = None"
    using p(7) by (cases "until_of_args args first") (auto split: if_splits)
  have mn: "mn \<noteq> None \<longrightarrow> every \<noteq> None \<or> cron \<noteq> None" using p(3) e by blast
  show ?thesis
    using first_fire_args [OF assms(1) p(6)] u n mn e by (auto simp: p(8))
qed

text \<open>A scheduled mail is planned within bounds. If the call with a delivery time succeeds, each
  recipient has one new pending row, all with one first delivery that lies in the future and within a
  year, a recurring mail has an end after its first delivery and a thread the no-progress gate can
  watch, only a recurring mail has such a gate, and no mail is delivered or queued yet.\<close>

theorem schedule_exact:
  assumes run: "mailbox_send env now c args d = (Inr reply, d')"
    and a: "arg args ''result_for'' = None" "has_scheduling_args args" and cr: "cron_forward (se_cron env)"
  shows "\<exists>sa sp meta. set (sa_to sa) \<subseteq> known_recipients d \<and> distinct (sa_to sa)
     \<and> scheduled d' = scheduled d @ sched_rows (now div 1000) (scheduled_seq d + 1) (map (sched_spec c sa meta sp) (sa_to sa))
     \<and> outbox d' = outbox d \<and> messages d' = messages d
     \<and> trunc_sec now < sp_first sp \<and> sp_first sp \<le> trunc_sec now + max_horizon
     \<and> (sp_kind sp = None \<longleftrightarrow> sp_until sp = None) \<and> (\<forall>u. sp_until sp = Some u \<longrightarrow> sp_first sp < u)
     \<and> (sp_max_no_progress sp \<noteq> None \<longrightarrow> sp_kind sp \<noteq> None)
     \<and> (sp_kind sp \<noteq> None \<longrightarrow> oget meta ''thread_id'' \<noteq> None)"
proof -
  from run a obtain sa where sa: "check_send c args None d = Inr sa"
    and k: "(case user_meta (value_error ''dictionary update sequence'') args of Inl e \<Rightarrow> throw e
        | Inr m \<Rightarrow> schedule_future_mail env now c args sa (with_thread (loop_thread env args (sa_thread sa) m) m)) d
       = (Inr reply, d')"
    by (auto simp: mailbox_send_def send_checked_def check_Inr_iff)
  from k obtain m where m: "schedule_future_mail env now c args sa (with_thread (loop_thread env args (sa_thread sa) m) m) d = (Inr reply, d')"
    by (cases "user_meta (value_error ''dictionary update sequence'') args") (auto simp: throw_def)
  let ?um = "with_thread (loop_thread env args (sa_thread sa) m) m"
  let ?mt = "sched_meta ?um sa (sched_broadcast c sa)"
  from m obtain sp where sp: "plan_schedule (se_cron env) args (trunc_sec now) = Inr sp"
    by (cases "plan_schedule (se_cron env) args (trunc_sec now)") (auto simp: schedule_future_mail_def throw_def)
  from m sp obtain ids where run: "create_all (now div 1000) (map (sched_spec c sa ?mt sp) (sa_to sa)) d = (Inr ids, d')"
    by (auto simp: schedule_future_mail_def bnd_def ret_def split: prod.splits sum.splits)
  have "oget ?mt ''thread_id'' \<noteq> None" if "sp_kind sp \<noteq> None"
  proof -
    have r: "arg args ''recur_every'' \<noteq> None \<or> arg args ''recur_cron'' \<noteq> None"
      using that plan_facts [OF cr sp] by auto
    have "dget ?um ''thread_id'' \<noteq> None"
      using r by (auto simp: with_thread_def loop_thread_def split: option.split)
    then show ?thesis
      by (auto simp: sched_meta_def Let_def with_forward_def split: option.split)
  qed
  with check_send_facts(1,3) [OF sa] create_all_run [OF run] plan_facts [OF cr sp] show ?thesis
    by (intro exI [of _ sa] exI [of _ sp] exI [of _ ?mt]) auto
qed

definition reminder_args :: dict where
  "reminder_args = [(''to'', JStr ''worker/a''), (''body'', JStr ''look again''), (''deliver_in'', JStr ''2h''),
     (''recur_every'', JStr ''1d''), (''max_no_progress'', JInt 3), (''_tool_use_id'', JStr ''u1'')]"

definition succeeds :: "exn + 'a \<Rightarrow> bool" where
  "succeeds r \<longleftrightarrow> (case r of Inl e \<Rightarrow> False | Inr x \<Rightarrow> True)"

lemma sample_durations: "parse_duration ''2h'' = Inr 7200000000" "parse_duration ''1d'' = Inr 86400000000"
proof -
  have d: "digits_of 2 = ''2''" "digits_of 1 = ''1''" by code_simp+
  show "parse_duration ''2h'' = Inr 7200000000"
    using parse_duration_functional [of "''h''" 2] by (simp add: d duration_units_def unit_usec_def duration_consts)
  show "parse_duration ''1d'' = Inr 86400000000"
    using parse_duration_functional [of "''d''" 1, unfolded d] by (simp add: duration_units_def unit_usec_def duration_consts)
qed

definition reminder_send :: send_args where
  "reminder_send = \<lparr>sa_to = [''worker/a''], sa_body = ''look again'', sa_urgency = UNormal, sa_title = None,
     sa_reply = None, sa_forward = None, sa_thread = None, sa_attachments = None, sa_use = ''u1''\<rparr>"

lemma schedule_exact_witness:
  "\<exists>reply d' sa sp meta. mailbox_send sample_send_env 0 (sample_ctx ''worker/a'') reminder_args leg_db = (Inr reply, d')
     \<and> scheduled d' = scheduled leg_db
         @ sched_rows 0 (scheduled_seq leg_db + 1) (map (sched_spec (sample_ctx ''worker/a'') sa meta sp) (sa_to sa))
     \<and> 0 < sp_first sp \<and> outbox d' = outbox leg_db"
proof -
  let ?c = "sample_ctx ''worker/a''"
  have f: "arg reminder_args ''result_for'' = None" "has_scheduling_args reminder_args" "cron_forward (se_cron sample_send_env)"
    by (simp_all add: reminder_args_def has_scheduling_args_def scheduling_keys_def sample_send_env_def every_minute_forward)
  have k: "''worker/a'' \<in> known_recipients leg_db"
    by (simp add: known_recipients_def agents_list_all_def leg_db_def sample_agent_def row_to_agent_def order_by_def)
  have n: "urgency_of_str ''normal'' = Some UNormal" by (simp add: urgency_of_str_def)
  have c: "check_send ?c reminder_args None leg_db = Inr reminder_send"
    using k f(2)
    by (simp add: check_send_def check_recipients_def)
      (simp add: parse_recipients_def check_body_def check_urgency_def check_title_def check_int_def is_int_arg_def
        check_thread_def check_attachments_def check_use_def reminder_args_def ebind_def n reminder_send_def sample_ctx_def)
  have "\<exists>sp. plan_schedule every_minute reminder_args 0 = Inr sp"
    by (simp add: plan_schedule_def positive_arg_def str_arg_def first_fire_of_args_def resolve_first_fire_def
        until_of_args_def as_tool_error_def within_horizon_def reminder_args_def ebind_def sample_durations duration_consts)
  then obtain sp where sp: "plan_schedule every_minute reminder_args 0 = Inr sp" by blast
  have t: "''t1'' \<in> set (task_ids leg_db)"
    by (simp add: leg_db_def busy_db_def task_ids_def sample_task_def)
  have "\<exists>reply d'. mailbox_send sample_send_env 0 ?c reminder_args leg_db = (Inr reply, d')"
    using f sp c t
    by (simp add: mailbox_send_def send_checked_def check_Inr schedule_future_mail_def sample_send_env_def user_meta_def
        trunc_sec_def reminder_send_def sched_spec_def scheduled_create_def sample_ctx_def bnd_def ret_def Let_def)
      (simp add: reminder_args_def otruthy_def)
  then obtain reply d' where r: "mailbox_send sample_send_env 0 ?c reminder_args leg_db = (Inr reply, d')" by blast
  have z: "trunc_sec 0 = 0" "(0 :: int) div 1000 = 0" by (simp_all add: trunc_sec_def)
  from schedule_exact [OF r f] r show ?thesis unfolding z by blast
qed

end
