(* ===== verification/Tool_Mailbox.thy ===== *)
theory Tool_Mailbox
  imports Tool_Base
begin

text \<open>
  The other tools of \<open>runtime/tools/mailbox.py\<close>: reading one message, the inbox and the sent
  folder, marking as read, reactions, and the list and cancellation of scheduled mail. A reply is
  the JSON object the model sees (explanatory notes in it left out).
\<close>

section \<open>One message\<close>

definition jdict_opt :: "dict option \<Rightarrow> json" where
  "jdict_opt m = (case m of None \<Rightarrow> JNull | Some d \<Rightarrow> JObj d)"

definition jstrs_opt :: "string list option \<Rightarrow> json" where
  "jstrs_opt m = (case m of None \<Rightarrow> JNull | Some ss \<Rightarrow> jstrs ss)"

definition attachment_entry :: "blob \<Rightarrow> json" where
  "attachment_entry b = JObj [(''blob_id'', JStr (blob_id b)), (''media_type'', JStr (blob_media_type b)),
     (''filename'', jopt_str (blob_filename b)), (''size_bytes'', JInt (blob_size b))]"

definition view_block :: "blob \<Rightarrow> json option" where
  "view_block b =
     (let block = (\<lambda>k. JObj [(''type'', JStr k), (''blob_id'', JStr (blob_id b)),
            (''media_type'', JStr (blob_media_type b)), (''filename'', jopt_str (blob_filename b))])
      in if take 6 (blob_media_type b) = ''image/'' then Some (block ''image'')
         else if blob_media_type b = ''application/pdf'' then Some (block ''document'') else None)"

definition message_reply :: "mail_message \<Rightarrow> db \<Rightarrow> dict" where
  "message_reply m d =
     (let base = [(''id'', jopt_int (msg_id m)), (''recipient'', JStr (msg_recipient m)),
            (''sender'', JStr (msg_sender m)), (''urgency'', JStr (urgency_str (msg_urgency m))),
            (''body'', JStr (msg_body m)), (''task_id'', jopt_str (msg_task m)),
            (''parent_msg_id'', jopt_int (msg_parent m)), (''broadcast_id'', jopt_str (msg_broadcast m)),
            (''recipients_all'', jstrs_opt (msg_recipients_all m)), (''metadata'', jdict_opt (msg_meta m))]
      in case msg_attachments m of
           None \<Rightarrow> base
         | Some ids \<Rightarrow>
             (if ids = [] then base
              else (let bs = blobs_list_ids ids d; views = List.map_filter view_block bs
                    in base @ (''attachments'', JArr (map attachment_entry bs))
                         # (if views = [] then [] else [(''_lyre_view_blocks'', JArr views)]))))"

definition mailbox_get_message :: "dict \<Rightarrow> (db, dict) exec" where
  "mailbox_get_message args =
     check (\<lambda>d. case arg args ''msg_id'' of
         None \<Rightarrow> Inl (tool_error ''msg_id must be an integer'')
       | Some j \<Rightarrow> (case int_val j of
             None \<Rightarrow> Inl (tool_error ''msg_id must be an integer'')
           | Some i \<Rightarrow> (case get_message i d of
                 None \<Rightarrow> Inl (tool_error ''message not found'') | Some m \<Rightarrow> Inr (message_reply m d)))) ret"

section \<open>The inbox and the sent folder\<close>

definition inbox_entry :: "mail_message \<Rightarrow> json" where
  "inbox_entry m = JObj
     [(''id'', jopt_int (msg_id m)), (''sender'', JStr (msg_sender m)),
      (''urgency'', JStr (urgency_str (msg_urgency m))), (''title'', jopt_str (msg_title m)),
      (''body_chars'', JInt (int (ulen (msg_body m)))), (''parent_msg_id'', jopt_int (msg_parent m)),
      (''broadcast_id'', jopt_str (msg_broadcast m)), (''recipients_all'', jstrs_opt (msg_recipients_all m)),
      (''task_id'', jopt_str (msg_task m)), (''delivered_at'', jopt_time (msg_delivered m)),
      (''read_at'', jopt_time (msg_read m))]"

definition sent_entry :: "mail_message \<Rightarrow> json" where
  "sent_entry m = JObj
     [(''id'', jopt_int (msg_id m)), (''recipient'', JStr (msg_recipient m)),
      (''urgency'', JStr (urgency_str (msg_urgency m))), (''title'', jopt_str (msg_title m)),
      (''body_chars'', JInt (int (ulen (msg_body m)))), (''parent_msg_id'', jopt_int (msg_parent m)),
      (''broadcast_id'', jopt_str (msg_broadcast m)), (''recipients_all'', jstrs_opt (msg_recipients_all m)),
      (''task_id'', jopt_str (msg_task m)), (''delivered_at'', jopt_time (msg_delivered m))]"

text \<open>\<open>int(args.get("limit", 50))\<close>, at most 200; a negative limit is no limit for SQLite.\<close>

definition limit_arg :: "dict \<Rightarrow> exn + int" where
  "limit_arg args =
     map_sum id (\<lambda>n. min n 200) (py_int (case dget args ''limit'' of None \<Rightarrow> JInt 50 | Some j \<Rightarrow> j))"

definition reachable_box :: "tool_ctx \<Rightarrow> string \<Rightarrow> db \<Rightarrow> bool" where
  "reachable_box c q d \<longleftrightarrow> q = self_mailbox c \<or> q = ''owner'' \<or> agents_exists q d"

definition read_sent :: "tool_ctx \<Rightarrow> dict \<Rightarrow> int \<Rightarrow> (db, dict) exec" where
  "read_sent c args limit =
     check (\<lambda>d. case arg args ''recipient'' of
         None \<Rightarrow> Inr (None, list_sent_by (self_mailbox c) None limit d)
       | Some (JStr q) \<Rightarrow>
           (if reachable_box c q d then Inr (Some q, list_sent_by (self_mailbox c) (Some q) limit d)
            else Inl (tool_error ''unknown recipient''))
       | Some j \<Rightarrow> Inl (tool_error ''recipient must be a string if provided''))
       (\<lambda>(q, ms). ret [(''box'', JStr ''sent''), (''sender'', JStr (self_mailbox c)),
          (''recipient_filter'', jopt_str q), (''auto_marked_read'', JBool False),
          (''messages'', JArr (map sent_entry ms))])"

text \<open>\<open>args.get("recipient") or self_mailbox\<close>; what is no text names no agent.\<close>

definition inbox_owner :: "tool_ctx \<Rightarrow> dict \<Rightarrow> db \<Rightarrow> exn + string" where
  "inbox_owner c args d =
     (if \<not> otruthy (dget args ''recipient'') then Inr (self_mailbox c)
      else (case dget args ''recipient'' of
          Some (JStr q) \<Rightarrow> (if reachable_box c q d then Inr q else Inl (tool_error ''unknown recipient''))
        | _ \<Rightarrow> Inl (tool_error ''unknown recipient'')))"

definition inbox_reply :: "string \<Rightarrow> bool \<Rightarrow> nat \<Rightarrow> mail_message list \<Rightarrow> dict" where
  "inbox_reply q marked left ms =
     [(''box'', JStr ''inbox''), (''recipient'', JStr q), (''auto_marked_read'', JBool marked),
      (''unread_remaining'', JInt (int left)), (''messages'', JArr (map inbox_entry ms))]"

definition read_inbox :: "usec \<Rightarrow> tool_ctx \<Rightarrow> dict \<Rightarrow> int \<Rightarrow> (db, dict) exec" where
  "read_inbox now c args limit =
     check (inbox_owner c args) (\<lambda>q.
     seqn (upd (ensure_mailbox q))
       (if otruthy (dget args ''include_read'')
        then bnd (query (read_all_by_recipient q limit)) (\<lambda>ms.
             check (count_unread q None) (\<lambda>n. ret (inbox_reply q False n ms)))
        else check (read_unread q (if otruthy (dget args ''only_blockers'') then Some ''blocker'' else None) limit) (\<lambda>ms.
             seqn (upd (mark_messages_read (now div 1000) q (List.map_filter msg_id ms)))
               (check (count_unread q None) (\<lambda>n. ret (inbox_reply q (ms \<noteq> []) n ms))))))"

definition mailbox_read :: "usec \<Rightarrow> tool_ctx \<Rightarrow> dict \<Rightarrow> (db, dict) exec" where
  "mailbox_read now c args =
     (let box = (case dget args ''box'' of None \<Rightarrow> JStr ''inbox'' | Some j \<Rightarrow> j)
      in if box \<noteq> JStr ''inbox'' \<and> box \<noteq> JStr ''sent'' then throw (tool_error ''box must be inbox or sent'')
         else (case limit_arg args of
             Inl e \<Rightarrow> throw e
           | Inr limit \<Rightarrow> (if box = JStr ''sent'' then read_sent c args limit
                          else read_inbox now c args limit)))"

section \<open>Marking as read\<close>

fun ints_of :: "json list \<Rightarrow> int list option" where
  "ints_of [] = Some []"
| "ints_of (j # js) = (case (int_val j, ints_of js) of (Some i, Some is) \<Rightarrow> Some (i # is) | _ \<Rightarrow> None)"

definition id_list :: "json option \<Rightarrow> int list option" where
  "id_list j = (case j of
       Some (JArr js) \<Rightarrow> ints_of js
     | Some v \<Rightarrow> map_option (\<lambda>i. [i]) (int_val v)
     | None \<Rightarrow> None)"

definition mark_read :: "usec \<Rightarrow> tool_ctx \<Rightarrow> dict \<Rightarrow> (db, dict) exec" where
  "mark_read now c args =
     (case id_list (arg args ''msg_id'') of
        None \<Rightarrow> throw (tool_error ''msg_id must be an integer or list of integers'')
      | Some ids \<Rightarrow>
          seqn (upd (mark_messages_read (now div 1000) (self_mailbox c) ids))
            (ret [(''status'', JStr ''ok''), (''recipient'', JStr (self_mailbox c)),
                  (''msg_ids'', jopt (arg args ''msg_id''))]))"

section \<open>Reactions\<close>

text \<open>The channels the message was published on.\<close>

definition channel_echo :: "tool_ctx \<Rightarrow> int \<Rightarrow> string \<Rightarrow> string \<times> json \<Rightarrow> outbox_row option" where
  "channel_echo c i kind entry =
     (case snd entry of
        JObj ch \<Rightarrow> (case dget ch ''message_id'' of
            Some (JStr ext) \<Rightarrow> Some (new_outbox_row (Some (tc_task c)) (Some (tc_wakeup c)) KChannelReaction
               [(''channel'', JStr (fst entry)), (''external_message_id'', JStr ext), (''kind'', JStr kind)]
               (''channel:'' @ fst entry @ '':reaction:'' @ str_of_int i @ '':'' @ self_mailbox c @ '':'' @ kind))
          | _ \<Rightarrow> None)
      | _ \<Rightarrow> None)"

definition channel_echoes :: "tool_ctx \<Rightarrow> int \<Rightarrow> string \<Rightarrow> mail_message \<Rightarrow> outbox_row list" where
  "channel_echoes c i kind m =
     (case oget (msg_meta m) ''channels'' of
        Some (JObj chs) \<Rightarrow> List.map_filter (channel_echo c i kind) chs | _ \<Rightarrow> [])"

definition react_target :: "dict \<Rightarrow> db \<Rightarrow> exn + int \<times> mail_message" where
  "react_target args d =
     (case arg args ''msg_id'' of
        None \<Rightarrow> Inl (tool_error ''msg_id must be an integer'')
      | Some j \<Rightarrow> (case int_val j of
            None \<Rightarrow> Inl (tool_error ''msg_id must be an integer'')
          | Some i \<Rightarrow>
              (if (case dget args ''kind'' of None \<Rightarrow> JStr ''ack'' | Some k \<Rightarrow> k) \<noteq> JStr ''ack''
               then Inl (tool_error ''kind must be one of ack'')
               else (case get_message i d of
                   None \<Rightarrow> Inl (tool_error ''no mail with this id'') | Some m \<Rightarrow> Inr (i, m)))))"

definition mailbox_react :: "usec \<Rightarrow> tool_ctx \<Rightarrow> dict \<Rightarrow> (db, dict) exec" where
  "mailbox_react now c args =
     check (react_target args) (\<lambda>(i, m).
     bnd (add_reaction (now div 1000) i (self_mailbox c) ''ack'') (\<lambda>inserted.
     seqn (run_if inserted (outbox_enqueue (now div 1000) (channel_echoes c i ''ack'' m)))
       (ret [(''status'', JStr (if inserted then ''ok'' else ''already_reacted'')), (''msg_id'', JInt i),
             (''kind'', JStr ''ack''), (''reactor'', JStr (self_mailbox c))])))"

section \<open>Scheduled mail\<close>

definition sched_status_arg :: "dict \<Rightarrow> exn + sched_status option" where
  "sched_status_arg args =
     (case (case dget args ''status'' of None \<Rightarrow> JStr ''pending'' | Some j \<Rightarrow> j) of
        JStr s \<Rightarrow>
          (if s = ''pending'' then Inr (Some SPending) else if s = ''completed'' then Inr (Some SCompleted)
           else if s = ''cancelled'' then Inr (Some SCancelled) else if s = ''bounced'' then Inr (Some SBounced)
           else if s = ''all'' then Inr None else Inl (tool_error ''status must be one of''))
      | _ \<Rightarrow> Inl (tool_error ''status must be one of''))"

primrec sched_status_str :: "sched_status \<Rightarrow> string" where
  "sched_status_str SPending = ''pending''"
| "sched_status_str SCompleted = ''completed''"
| "sched_status_str SCancelled = ''cancelled''"
| "sched_status_str SBounced = ''bounced''"
| "sched_status_str SQuarantined = ''quarantined''"

definition sched_entry :: "scheduled_mail \<Rightarrow> json" where
  "sched_entry m = JObj
     [(''id'', jopt_int (sm_id m)), (''recipient'', JStr (sm_recipient m)), (''sender'', JStr (sm_sender m)),
      (''urgency'', JStr (urgency_str (sm_urgency m))), (''body_preview'', JStr (utake 200 (sm_body m))),
      (''scheduled_for'', JStr (isoformat (sm_scheduled_for m))),
      (''recur_kind'', jopt_str (map_option recur_kind_str (sm_recur_kind m))),
      (''recur_value'', jopt_str (sm_recur_value m)), (''occurrence_count'', JInt (sm_occurrences m)),
      (''max_occurrences'', jopt_int (sm_max_occurrences m)), (''no_progress_count'', JInt (sm_no_progress m)),
      (''max_no_progress'', jopt_int (sm_max_no_progress m)), (''status'', JStr (sched_status_str (sm_status m)))]"

definition list_scheduled_mail :: "dict \<Rightarrow> (db, dict) exec" where
  "list_scheduled_mail args =
     check (\<lambda>d. ebind (limit_arg args) (\<lambda>limit. ebind (sched_status_arg args) (\<lambda>st.
         Inr (scheduled_list_filtered (case arg args ''recipient'' of Some (JStr q) \<Rightarrow> Some q | _ \<Rightarrow> None)
                (case arg args ''sender'' of Some (JStr q) \<Rightarrow> Some q | _ \<Rightarrow> None) st limit d))))
       (\<lambda>ms. ret [(''scheduled_mails'', JArr (map sched_entry ms)), (''count'', JInt (int (length ms)))])"

definition cancel_target :: "dict \<Rightarrow> db \<Rightarrow> exn + int \<times> string option" where
  "cancel_target args d =
     (case arg args ''id'' of
        None \<Rightarrow> Inl (tool_error ''id (integer) required'')
      | Some j \<Rightarrow> (case int_val j of
            None \<Rightarrow> Inl (tool_error ''id (integer) required'')
          | Some i \<Rightarrow>
              (case (case arg args ''reason'' of None \<Rightarrow> Inr None | Some (JStr s) \<Rightarrow> Inr (Some s)
                     | Some _ \<Rightarrow> Inl (tool_error ''reason must be a string if provided'')) of
                 Inl e \<Rightarrow> Inl e
               | Inr reason \<Rightarrow> (case scheduled_get i d of
                     None \<Rightarrow> Inl (tool_error ''scheduled_mail not found'')
                   | Some m \<Rightarrow> (if sm_status m \<noteq> SPending then Inl (tool_error ''cannot cancel'')
                               else Inr (i, reason))))))"

definition cancel_scheduled_mail :: "usec \<Rightarrow> tool_ctx \<Rightarrow> dict \<Rightarrow> (db, dict) exec" where
  "cancel_scheduled_mail now c args =
     check (cancel_target args) (\<lambda>(i, reason).
     bnd (step (mark_cancelled (now div 1000) i (Some (self_mailbox c)) reason)) (\<lambda>ok.
       ret [(''id'', JInt i), (''cancelled'', JBool ok)]))"

section \<open>What reading marks\<close>

lemma count_unread_total: "\<exists>n. count_unread q None d = Inr n"
  by (simp add: count_unread_def urgency_floor_def)

lemma read_unread_any: "read_unread q None limit d = Inr (map row_to_msg (sql_limit limit
    (order_by (\<lambda>r. (- urgency_rank (mr_urgency r), mr_id r))
       (filter (\<lambda>r. mr_recipient r = q \<and> mr_read r = None) (messages d)))))"
  by (simp add: read_unread_def urgency_floor_def)

lemma msg_ids_of_rows: "List.map_filter msg_id (map row_to_msg rs) = map mr_id rs"
  by (induction rs) (simp_all add: List.map_filter_simps row_to_msg_def)

text \<open>The inbox as the tool lists it: the unread mail of \<open>q\<close>, most urgent first.\<close>

definition unread_rows :: "string \<Rightarrow> int \<Rightarrow> db \<Rightarrow> message_row list" where
  "unread_rows q limit d = sql_limit limit
     (order_by (\<lambda>r. (- urgency_rank (mr_urgency r), mr_id r))
        (filter (\<lambda>r. mr_recipient r = q \<and> mr_read r = None) (messages d)))"

definition seen :: "int \<Rightarrow> message_row list \<Rightarrow> message_row \<Rightarrow> message_row" where
  "seen now rs r = (if r \<in> set rs then r\<lparr>mr_read := Some (MsZ now)\<rparr> else r)"

lemma unread_rows_facts:
  "set (unread_rows q limit d) \<subseteq> {r \<in> set (messages d). mr_recipient r = q \<and> mr_read r = None}"
  using set_sql_limit [of limit "order_by (\<lambda>r. (- urgency_rank (mr_urgency r), mr_id r))
        (filter (\<lambda>r. mr_recipient r = q \<and> mr_read r = None) (messages d))"]
  by (auto simp: unread_rows_def)

lemma mark_rows_seen:
  assumes "db_ok d"
  shows "messages (mark_messages_read now q (map mr_id (unread_rows q limit d)) d)
     = map (seen now (unread_rows q limit d)) (messages d)"
proof -
  let ?rs = "unread_rows q limit d"
  have dist: "distinct (map mr_id (messages d))"
    using assms by (auto simp: db_ok_defs key_defs strict_sorted_iff)
  have same: "mr_recipient r = q \<and> mr_id r \<in> mr_id ` set ?rs \<and> mr_read r = None \<longleftrightarrow> r \<in> set ?rs"
    if r: "r \<in> set (messages d)" for r
  proof
    assume a: "mr_recipient r = q \<and> mr_id r \<in> mr_id ` set ?rs \<and> mr_read r = None"
    then obtain x where x: "x \<in> set ?rs" "mr_id x = mr_id r" by force
    with unread_rows_facts [of q limit d] have "x \<in> set (messages d)" by blast
    with dist r x(2) have "x = r" by (auto simp: distinct_map inj_on_def)
    with x(1) show "r \<in> set ?rs" by simp
  next
    assume "r \<in> set ?rs"
    with unread_rows_facts [of q limit d] show "mr_recipient r = q \<and> mr_id r \<in> mr_id ` set ?rs \<and> mr_read r = None"
      by auto
  qed
  show ?thesis
  proof (cases "?rs = []")
    case True
    have "seen now [] = id" by (rule ext) (simp add: seen_def)
    with True show ?thesis by (simp add: mark_messages_read_def)
  next
    case False
    then show ?thesis
      using same by (auto simp: mark_messages_read_def upd_messages_def update_where_def seen_def)
  qed
qed

lemma read_inbox_run:
  assumes "inbox_owner c args d = Inr q" "\<not> otruthy (dget args ''include_read'')"
    "\<not> otruthy (dget args ''only_blockers'')"
  shows "\<exists>n d'. read_inbox now c args limit d
       = (Inr (inbox_reply q (unread_rows q limit d \<noteq> []) n (map row_to_msg (unread_rows q limit d))), d')
     \<and> d' = mark_messages_read (now div 1000) q (map mr_id (unread_rows q limit d)) (ensure_mailbox q d)"
proof -
  let ?e = "ensure_mailbox q d"
  let ?d = "mark_messages_read (now div 1000) q (map mr_id (unread_rows q limit d)) ?e"
  obtain n where n: "count_unread q None ?d = Inr n" using count_unread_total by blast
  have r: "read_unread q None limit ?e = Inr (map row_to_msg (unread_rows q limit d))"
    by (simp add: read_unread_any unread_rows_def)
  show ?thesis
    by (intro exI [of _ n] exI [of _ ?d])
      (use assms n r in \<open>simp add: read_inbox_def check_Inr seqn_def bnd_def upd_def ret_def msg_ids_of_rows\<close>)
qed

text \<open>Reading the inbox marks what it lists and nothing else. A call for one's own inbox returns
  the unread mail, most urgent first and within the limit, and sets the read stamp of exactly these
  rows; and the mail of everybody else keeps its state.\<close>

theorem read_marks_listed:
  assumes "db_ok d" "arg args ''recipient'' = None" "dget args ''box'' = None" "limit_arg args = Inr limit"
    and "\<not> otruthy (dget args ''include_read'')" "\<not> otruthy (dget args ''only_blockers'')"
  shows "\<exists>n d'. mailbox_read now c args d
       = (Inr (inbox_reply (self_mailbox c) (unread_rows (self_mailbox c) limit d \<noteq> []) n
                 (map row_to_msg (unread_rows (self_mailbox c) limit d))), d')
     \<and> messages d' = map (seen (now div 1000) (unread_rows (self_mailbox c) limit d)) (messages d)
     \<and> (\<forall>q. q \<noteq> self_mailbox c \<longrightarrow> unread_rows q 50 d' = unread_rows q 50 d) \<and> tasks d' = tasks d \<and> outbox d' = outbox d"
proof -
  let ?q = "self_mailbox c"
  let ?rs = "unread_rows ?q limit d"
  have own: "inbox_owner c args d = Inr ?q"
    using assms(2) by (auto simp: inbox_owner_def otruthy_def arg_def not_none_def split: option.splits json.splits)
  obtain n d' where run: "read_inbox now c args limit d = (Inr (inbox_reply ?q (?rs \<noteq> []) n (map row_to_msg ?rs)), d')"
    "d' = mark_messages_read (now div 1000) ?q (map mr_id ?rs) (ensure_mailbox ?q d)"
    using read_inbox_run [OF own assms(5,6)] by blast
  have box: "mailbox_read now c args d = read_inbox now c args limit d"
    using assms(3,4) by (simp add: mailbox_read_def)
  have un: "unread_rows p l (ensure_mailbox ?q d) = unread_rows p l d" for p l by (simp add: unread_rows_def)
  have msgs: "messages d' = map (seen (now div 1000) ?rs) (messages d)"
    using mark_rows_seen [OF ensure_mailbox_ok [OF assms(1)], of "now div 1000" ?q limit ?q]
    by (simp add: run(2) un)
  have "unread_rows p 50 d' = unread_rows p 50 d" if "p \<noteq> ?q" for p
  proof -
    have "filter (\<lambda>r. mr_recipient r = p \<and> mr_read r = None) (messages d')
        = filter (\<lambda>r. mr_recipient r = p \<and> mr_read r = None) (messages d)"
    proof -
      have s: "seen (now div 1000) ?rs r = r" if "mr_recipient r = p" for r
        using unread_rows_facts [of ?q limit d] that \<open>p \<noteq> ?q\<close> by (auto simp: seen_def)
      have t: "mr_recipient (seen (now div 1000) ?rs r) = mr_recipient r" for r by (simp add: seen_def)
      have "filter (\<lambda>r. mr_recipient r = p \<and> mr_read r = None) (map (seen (now div 1000) ?rs) ms)
          = filter (\<lambda>r. mr_recipient r = p \<and> mr_read r = None) ms" for ms
        by (induction ms) (auto simp: s t)
      then show ?thesis by (simp add: msgs)
    qed
    then show ?thesis by (simp add: unread_rows_def)
  qed
  moreover have "tasks d' = tasks d" "outbox d' = outbox d"
    by (simp_all add: run(2) mark_messages_read_def upd_messages_def)
  ultimately show ?thesis using run(1) box msgs by (intro exI [of _ n] exI [of _ d']) simp
qed

text \<open>Looking into another agent's inbox puts that agent to sleep. If an agent reads the inbox of
  another one whose unread mail fits on a page, none of that mail is unread afterwards, so that the
  scan for unread mail no longer wakes the agent the mail was meant for; \<open>mark_read\<close>, in contrast,
  touches only the caller's own mail.\<close>

theorem peeking_silences:
  assumes "db_ok d" "q \<noteq> self_mailbox c" "q \<noteq> []" "q = ''owner'' \<or> agents_exists q d"
    and "row_count (\<lambda>r. mr_recipient r = q \<and> mr_read r = None) (messages d) \<le> 50"
  shows "(\<exists>reply d'. mailbox_read now c [(''recipient'', JStr q)] d = (Inr reply, d')
         \<and> (\<forall>r \<in> set (messages d'). mr_recipient r = q \<longrightarrow> mr_read r \<noteq> None)
         \<and> (\<forall>a busy. agent_id a = q \<longrightarrow> \<not> woken busy a d') \<and> tasks d' = tasks d)
     \<and> (\<forall>args p. p \<noteq> self_mailbox c \<longrightarrow>
          filter (\<lambda>r. mr_recipient r = p) (messages (snd (mark_read now c args d)))
            = filter (\<lambda>r. mr_recipient r = p) (messages d))"
proof -
  let ?args = "[(''recipient'', JStr q)]"
  let ?rs = "unread_rows q 50 d"
  obtain c0 cs where q: "q = c0 # cs" using assms(3) by (cases q) auto
  have own: "inbox_owner c ?args d = Inr q"
    using assms(4) by (auto simp: inbox_owner_def otruthy_def reachable_box_def q)
  have o: "\<not> otruthy (dget ?args ''include_read'')" "\<not> otruthy (dget ?args ''only_blockers'')"
    by (simp_all add: otruthy_def)
  obtain n d' where run: "read_inbox now c ?args 50 d = (Inr (inbox_reply q (?rs \<noteq> []) n (map row_to_msg ?rs)), d')"
    "d' = mark_messages_read (now div 1000) q (map mr_id ?rs) (ensure_mailbox q d)"
    using read_inbox_run [OF own o] by blast
  have box: "mailbox_read now c ?args d = read_inbox now c ?args 50 d"
    by (simp add: mailbox_read_def limit_arg_def)
  have un: "unread_rows p l (ensure_mailbox q d) = unread_rows p l d" for p l by (simp add: unread_rows_def)
  have msgs: "messages d' = map (seen (now div 1000) ?rs) (messages d)"
    using mark_rows_seen [OF ensure_mailbox_ok [OF assms(1)], of "now div 1000" q 50 q] by (simp add: run(2) un)
  have all: "set ?rs = {r \<in> set (messages d). mr_recipient r = q \<and> mr_read r = None}"
    using assms(5) by (auto simp: unread_rows_def sql_limit_def row_count_def order_by_def)
  have read: "mr_read r \<noteq> None" if r: "r \<in> set (messages d')" "mr_recipient r = q" for r
  proof -
    obtain x where x: "x \<in> set (messages d)" "r = seen (now div 1000) ?rs x" using r(1) unfolding msgs by auto
    then have "mr_recipient x = q" using r(2) by (simp add: seen_def split: if_splits)
    with x all show ?thesis by (cases "mr_read x = None") (simp_all add: seen_def)
  qed
  have "\<not> woken busy a d'" if "agent_id a = q" for a busy
  proof -
    obtain ok where ok: "urgency_floor (Some ''normal'') = Inr ok"
      by (auto simp: urgency_floor_def urgency_of_str_def)
    have "filter (\<lambda>r. mr_recipient r = q \<and> mr_read r = None \<and> ok (mr_urgency r)) (messages d') = []"
      unfolding filter_empty_conv using read by blast
    then have "page q d' = []"
      by (simp add: page_def read_unread_def ok sql_limit_def order_by_def)
    with that show ?thesis by (simp add: woken_def new_mail_def)
  qed
  moreover have "tasks d' = tasks d" by (simp add: run(2) mark_messages_read_def upd_messages_def)
  moreover have "filter (\<lambda>r. mr_recipient r = p) (messages (snd (mark_read now c args d)))
       = filter (\<lambda>r. mr_recipient r = p) (messages d)" if "p \<noteq> self_mailbox c" for args p
  proof -
    have f: "filter (\<lambda>r. mr_recipient r = p) (update_where (\<lambda>r. mr_recipient r = self_mailbox c \<and> mr_id r \<in> I \<and> mr_read r = None)
        (\<lambda>r. r\<lparr>mr_read := t\<rparr>) ms) = filter (\<lambda>r. mr_recipient r = p) ms" for I t ms
      using that by (induction ms) (auto simp: update_where_def)
    show ?thesis
      by (auto simp: mark_read_def seqn_def bnd_def upd_def ret_def throw_def mark_messages_read_def upd_messages_def f
          split: option.split)
  qed
  ultimately show ?thesis
    by (intro conjI exI [of _ d'] exI [of _ "inbox_reply q (?rs \<noteq> []) n (map row_to_msg ?rs)"])
      (use run(1) box read in simp_all)
qed

section \<open>Reactions\<close>

lemma get_message_reactions:
  "messages d' = messages d \<Longrightarrow> get_message i d = Some m \<Longrightarrow> \<exists>m'. get_message i d' = Some m' \<and> msg_meta m' = msg_meta m"
  by (auto simp: get_message_def row_to_msg_def)

text \<open>A reaction is not mail. It changes no message and no mailbox, so it wakes nobody and is
  nobody's unread mail; and reacting a second time finds the first reaction and queues nothing.\<close>

theorem reaction_is_quiet:
  assumes run: "mailbox_react now c args d = (Inr reply, d')"
  shows "messages d' = messages d \<and> mailboxes d' = mailboxes d \<and> tasks d' = tasks d
     \<and> (\<forall>a busy. woken busy a d' \<longleftrightarrow> woken busy a d)
     \<and> (\<exists>reply2 d''. mailbox_react later c args d' = (Inr reply2, d'')
          \<and> dget reply2 ''status'' = Some (JStr ''already_reacted'') \<and> d'' = d')"
proof -
  have enq: "mailboxes (snd (outbox_enqueue t rs e)) = mailboxes e \<and> messages (snd (outbox_enqueue t rs e)) = messages e
     \<and> tasks (snd (outbox_enqueue t rs e)) = tasks e \<and> reactions (snd (outbox_enqueue t rs e)) = reactions e" for t rs e
  proof (induction rs arbitrary: e)
    case (Cons r rs)
    have one: "mailboxes e1 = mailboxes e \<and> messages e1 = messages e \<and> tasks e1 = tasks e \<and> reactions e1 = reactions e"
      if "e1 = snd (enqueue_one t r e)" for e1
      using that by (simp add: enqueue_one_def Let_def)
    obtain x e1 where x: "enqueue_one t r e = (x, e1)" by (cases "enqueue_one t r e")
    with one [of e1] Cons.IH [of e1] show ?case by (cases x) (simp_all add: enqueue_cons)
  qed simp
  from run obtain i m where t: "react_target args d = Inr (i, m)"
    and b: "bnd (add_reaction (now div 1000) i (self_mailbox c) ''ack'') (\<lambda>inserted.
       seqn (run_if inserted (outbox_enqueue (now div 1000) (channel_echoes c i ''ack'' m)))
        (ret [(''status'', JStr (if inserted then ''ok'' else ''already_reacted'')), (''msg_id'', JInt i),
             (''kind'', JStr ''ack''), (''reactor'', JStr (self_mailbox c))])) d = (Inr reply, d')"
    by (auto simp: mailbox_react_def check_Inr_iff)
  from b obtain ins d1 where a: "add_reaction (now div 1000) i (self_mailbox c) ''ack'' d = (Inr ins, d1)"
    by (auto simp: bnd_def split: prod.splits sum.splits)
  have d1: "messages d1 = messages d" "mailboxes d1 = mailboxes d" "tasks d1 = tasks d"
    "exists_row (\<lambda>r. rr_msg r = i \<and> rr_reactor r = self_mailbox c \<and> rr_kind r = ''ack'') (reactions d1)"
    using a by (auto simp: add_reaction_def split: if_splits)
  have d': "messages d' = messages d1" "mailboxes d' = mailboxes d1" "tasks d' = tasks d1" "reactions d' = reactions d1"
    using b a enq [of "now div 1000" "channel_echoes c i ''ack'' m" d1]
    by (auto simp: bnd_def seqn_def run_if_def ret_def split: prod.splits sum.splits if_splits)
  have w: "woken busy x d' \<longleftrightarrow> woken busy x d" for busy x
    using page_messages [of d' d] d' d1
    by (simp add: woken_def new_mail_def mail_cursor_def mailbox_meta_def)
  have gm: "get_message i d = Some m" using t by (auto simp: react_target_def split: option.splits if_splits)
  obtain m' where m': "get_message i d' = Some m'"
    using get_message_reactions [OF _ gm, of d'] d'(1) d1(1) by auto
  have t': "react_target args d' = Inr (i, m')"
    using t m' by (auto simp: react_target_def split: option.splits if_splits)
  have "add_reaction (later div 1000) i (self_mailbox c) ''ack'' d' = (Inr False, d')"
    using d1(4) d'(4) by (simp add: add_reaction_def)
  then have "mailbox_react later c args d' = (Inr [(''status'', JStr ''already_reacted''), (''msg_id'', JInt i),
       (''kind'', JStr ''ack''), (''reactor'', JStr (self_mailbox c))], d')"
    using t' by (simp add: mailbox_react_def check_Inr bnd_def seqn_def run_if_def ret_def)
  with d' d1 w show ?thesis by simp
qed

lemma waiting_db_ok: "db_ok waiting_db"
  by (simp add: waiting_db_def sample_db_def empty_db_def db_ok_defs key_defs sample_agent_def sample_mail_row_def
      new_message_def)

lemma read_marks_listed_witness:
  "\<exists>reply d'. mailbox_read 0 (sample_ctx ''worker/a'') [] waiting_db = (Inr reply, d')
     \<and> messages d' = map (seen 0 (unread_rows ''worker/a'' 50 waiting_db)) (messages waiting_db)"
proof -
  have f: "arg [] ''recipient'' = None" "dget [] ''box'' = None" "limit_arg [] = Inr 50"
    "\<not> otruthy (dget [] ''include_read'')" "\<not> otruthy (dget [] ''only_blockers'')"
    by (simp_all add: limit_arg_def otruthy_def)
  have c: "self_mailbox (sample_ctx ''worker/a'') = ''worker/a''"
    by (simp add: self_mailbox_def sample_ctx_def present_def)
  from read_marks_listed [OF waiting_db_ok f, where now = 0 and c = "sample_ctx ''worker/a''"] show ?thesis
    unfolding c by auto
qed

lemma peeking_silences_witness:
  "\<exists>reply d'. mailbox_read 0 (sample_ctx ''dispatcher'') [(''recipient'', JStr ''worker/a'')] waiting_db = (Inr reply, d')
     \<and> \<not> woken {} (row_to_agent (sample_agent ''worker/a'' (Some ''dispatcher'') None)) d' \<and> tasks d' = []"
proof -
  have f: "''worker/a'' \<noteq> self_mailbox (sample_ctx ''dispatcher'')" "''worker/a'' \<noteq> []"
    "''worker/a'' = ''owner'' \<or> agents_exists ''worker/a'' waiting_db"
    "row_count (\<lambda>r. mr_recipient r = ''worker/a'' \<and> mr_read r = None) (messages waiting_db) \<le> 50"
    by (simp_all add: self_mailbox_def sample_ctx_def present_def agents_exists_def waiting_db_def sample_db_def
        sample_agent_def row_count_def)
  have t: "tasks waiting_db = []" by (simp add: waiting_db_def)
  have a: "agent_id (row_to_agent (sample_agent ''worker/a'' (Some ''dispatcher'') None)) = ''worker/a''"
    by (simp add: row_to_agent_def sample_agent_def)
  from peeking_silences [OF waiting_db_ok f, of 0] a t show ?thesis by metis
qed

lemma reaction_is_quiet_witness:
  "\<exists>reply d'. mailbox_react 0 (sample_ctx ''worker/a'') [(''msg_id'', JInt 1)] waiting_db = (Inr reply, d')
     \<and> messages d' = messages waiting_db"
proof -
  let ?c = "sample_ctx ''worker/a''"
  have "\<exists>m. react_target [(''msg_id'', JInt 1)] waiting_db = Inr (1, m) \<and> msg_meta m = None"
    by (simp add: react_target_def get_message_def select_one_def waiting_db_def row_to_msg_def sample_mail_row_def
        message_row_of_def new_message_def)
  then obtain m where m: "react_target [(''msg_id'', JInt 1)] waiting_db = Inr (1, m)" "msg_meta m = None" by blast
  have e: "channel_echoes ?c 1 ''ack'' m = []" by (simp add: channel_echoes_def m(2))
  have c: "self_mailbox ?c = ''worker/a''" by (simp add: self_mailbox_def sample_ctx_def present_def)
  have "\<exists>d1. add_reaction 0 1 (self_mailbox ?c) ''ack'' waiting_db = (Inr True, d1)"
    by (simp add: add_reaction_def c waiting_db_def sample_db_def empty_db_def message_ids_def agent_ids_def
        sample_agent_def sample_mail_row_def message_row_of_def)
  then have "\<exists>reply d'. mailbox_react 0 ?c [(''msg_id'', JInt 1)] waiting_db = (Inr reply, d')"
    using m(1) e by (auto simp: mailbox_react_def check_Inr bnd_def seqn_def run_if_def ret_def)
  then obtain reply d' where r: "mailbox_react 0 (sample_ctx ''worker/a'') [(''msg_id'', JInt 1)] waiting_db = (Inr reply, d')"
    by blast
  from reaction_is_quiet [OF r, of 5] r show ?thesis by blast
qed

end
