(* ===== verification/Tool_Workflow.thy ===== *)
theory Tool_Workflow
  imports Tool_Base
begin

text \<open>
  The tools of the workflow: \<open>dispatch_task\<close> and \<open>query_task_status\<close> (\<open>runtime/tools/tasks.py\<close>), the
  fan-in tools (\<open>runtime/tools/fan_in.py\<close>), and the progress tools (\<open>runtime/tools/progress.py\<close>).
  The personas, read from the file system, are a parameter; so is the random part of a group id.
\<close>

record persona_info =
  pi_status :: string
  pi_kind :: string

record workflow_env =
  wf_persona :: "string \<Rightarrow> persona_info option"
  wf_hex :: string

section \<open>dispatch\_task\<close>

text \<open>The agent a task goes to, and its persona.\<close>

definition dispatch_target :: "workflow_env \<Rightarrow> dict \<Rightarrow> db \<Rightarrow> exn + string \<times> string" where
  "dispatch_target env args d =
     (case arg args ''agent'' of
        Some (JStr a) \<Rightarrow>
          (case agents_get a d of
             None \<Rightarrow> Inl (tool_error ''agent not found (or archived)'')
           | Some ag \<Rightarrow> (if agent_status ag = AArchived then Inl (tool_error ''agent not found (or archived)'')
                        else Inr (a, agent_persona ag)))
      | Some _ \<Rightarrow> Inl (tool_error ''agent must be a string (agent_id)'')
      | None \<Rightarrow>
          (case arg args ''persona'' of
             Some (JStr p) \<Rightarrow>
               (case wf_persona env p of
                  None \<Rightarrow> Inl (tool_error ''persona not found or not approved'')
                | Some i \<Rightarrow>
                    (if pi_status i \<noteq> ''approved'' then Inl (tool_error ''persona not found or not approved'')
                     else (case agents_list_by_persona p False d of
                         [] \<Rightarrow> Inl (tool_error ''no live agent of persona'')
                       | [a] \<Rightarrow> Inr (agent_id a, p)
                       | _ \<Rightarrow> Inl (tool_error ''persona has multiple agents''))))
           | Some _ \<Rightarrow> Inl (tool_error ''persona must be a string'')
           | None \<Rightarrow> Inl (tool_error ''either agent (preferred) or persona is required'')))"

definition text_arg :: "dict \<Rightarrow> string \<Rightarrow> exn + string" where
  "text_arg args k = (case arg args k of
     Some (JStr (c # cs)) \<Rightarrow> Inr (c # cs) | _ \<Rightarrow> Inl (tool_error (k @ '' required'')))"

definition object_arg :: "dict \<Rightarrow> string \<Rightarrow> exn + dict option" where
  "object_arg args k = (case arg args k of
     None \<Rightarrow> Inr None | Some (JObj m) \<Rightarrow> Inr (Some m) | Some _ \<Rightarrow> Inl (tool_error (k @ '' must be an object'')))"

text \<open>The leg a child is dispatched into: the group, the key as written, and as an integer.\<close>

definition fan_in_slot :: "dict \<Rightarrow> db \<Rightarrow> exn + (fan_in_group \<times> json \<times> int) option" where
  "fan_in_slot args d =
     ebind (object_arg args ''fan_in'') (\<lambda>f. case f of
       None \<Rightarrow> Inr None
     | Some fa \<Rightarrow>
         ebind (text_arg fa ''group_id'') (\<lambda>gid.
           (case arg fa ''leg_key'' of
              None \<Rightarrow> Inl (tool_error ''fan_in.leg_key required'')
            | Some lj \<Rightarrow> (case int_val lj of
                None \<Rightarrow> Inl (tool_error ''fan_in.leg_key required'')
              | Some leg \<Rightarrow>
                  (if leg < 0 then Inl (tool_error ''fan_in.leg_key required'')
                   else (case group_get gid d of
                       None \<Rightarrow> Inl (tool_error ''fan-in group is not open'')
                     | Some g \<Rightarrow>
                         (if grp_status g \<noteq> GOpen then Inl (tool_error ''fan-in group is not open'')
                          else if get_member gid leg d \<noteq> None then Inl (tool_error ''leg_key already taken'')
                          else Inr (Some (g, lj, leg)))))))))"

definition leg_meta :: "(fan_in_group \<times> json \<times> int) option \<Rightarrow> dict option \<Rightarrow> dict option" where
  "leg_meta slot m =
     (case slot of None \<Rightarrow> m
      | Some (g, lj, leg) \<Rightarrow> Some (dset ''result_schema'' (JObj (grp_schema g)) (dset ''leg_key'' lj
          (dset ''fan_in_group'' (JStr (grp_id g)) (case m of None \<Rightarrow> [] | Some d \<Rightarrow> d)))))"

definition inherit_thread :: "json option \<Rightarrow> dict option \<Rightarrow> dict option" where
  "inherit_thread thread m =
     (case thread of None \<Rightarrow> m
      | Some t \<Rightarrow> (case m of
            None \<Rightarrow> Some [(''thread_id'', t)]
          | Some d \<Rightarrow> (if dget d ''thread_id'' = None then Some (dset ''thread_id'' t d) else Some d)))"

definition git_arg :: "dict \<Rightarrow> exn + git_context option" where
  "git_arg args =
     ebind (object_arg args ''git_context'') (\<lambda>g. case g of
       None \<Rightarrow> Inr None
     | Some ga \<Rightarrow>
         ebind (text_arg ga ''repo_url'') (\<lambda>url.
         ebind (text_arg ga ''target_branch'') (\<lambda>br.
           (case (case dget ga ''base_branch'' of None \<Rightarrow> JStr ''main'' | Some j \<Rightarrow> j) of
              JStr b \<Rightarrow> Inr (Some \<lparr>git_repo_url = url, git_target_branch = br, git_base_branch = b\<rparr>)
            | _ \<Rightarrow> Inl (tool_error ''git_context.base_branch must be a string'')))))"

definition lease_arg :: "dict \<Rightarrow> exn + int" where
  "lease_arg args =
     (case py_int (case dget args ''lease_duration_s'' of None \<Rightarrow> JInt 1800 | Some j \<Rightarrow> j) of
        Inl e \<Rightarrow> Inl (tool_error ''lease_duration_s must be an integer'') | Inr i \<Rightarrow> Inr i)"

definition turns_arg :: "dict \<Rightarrow> exn + dict option" where
  "turns_arg args =
     (case arg args ''max_turns'' of
        None \<Rightarrow> Inr None
      | Some (JInt i) \<Rightarrow> (if i < 1 then Inl (tool_error ''max_turns must be a positive integer'')
                         else Inr (Some [(''max_turns'', JInt i)]))
      | Some _ \<Rightarrow> Inl (tool_error ''max_turns must be a positive integer''))"

definition check_dispatch ::
    "workflow_env \<Rightarrow> tool_ctx \<Rightarrow> dict \<Rightarrow> db \<Rightarrow> exn + task_spec \<times> (fan_in_group \<times> json \<times> int) option" where
  "check_dispatch env c args d =
     ebind (text_arg args ''goal'') (\<lambda>goal.
     ebind (text_arg args ''acceptance'') (\<lambda>acc.
     ebind (dispatch_target env args d) (\<lambda>(aid, persona).
     ebind (object_arg args ''metadata'') (\<lambda>meta.
     ebind (fan_in_slot args d) (\<lambda>slot.
     ebind (git_arg args) (\<lambda>git.
     ebind (lease_arg args) (\<lambda>lease.
     ebind (turns_arg args) (\<lambda>tier.
       Inr (\<lparr>spec_agent = Some aid, spec_persona = Some persona, spec_goal = goal, spec_acceptance = acc,
             spec_parent = Some (tc_task c), spec_lease_duration = lease, spec_tier_overrides = tier,
             spec_deadline = None, spec_meta = inherit_thread (tc_thread c) (leg_meta slot meta),
             spec_git = git\<rparr>, slot)))))))))"

definition dispatch_reply :: "string \<Rightarrow> task_spec \<Rightarrow> (fan_in_group \<times> json \<times> int) option \<Rightarrow> dict" where
  "dispatch_reply tid spec slot =
     [(''task_id'', JStr tid), (''agent'', jopt_str (spec_agent spec)), (''persona'', jopt_str (spec_persona spec)),
      (''status'', JStr ''pending''),
      (''fan_in_group'', case slot of None \<Rightarrow> JNull | Some (g, lj, leg) \<Rightarrow> JStr (grp_id g))]"

definition leg_member :: "fan_in_group \<Rightarrow> int \<Rightarrow> string \<Rightarrow> task_spec \<Rightarrow> fan_in_member" where
  "leg_member g leg tid spec =
     \<lparr>fm_group = grp_id g, fm_leg_key = leg, fm_child_task = tid,
      fm_child_agent = (case spec_agent spec of None \<Rightarrow> [] | Some a \<Rightarrow> a)\<rparr>"

text \<open>A child of a barrier and its leg are written together.\<close>

definition write_child ::
    "(nat \<Rightarrow> string) \<Rightarrow> int \<Rightarrow> task_spec \<Rightarrow> (fan_in_group \<times> json \<times> int) option \<Rightarrow> (db, string) exec" where
  "write_child uuid now spec slot =
     (case slot of
        None \<Rightarrow> tasks_create uuid now spec
      | Some (g, lj, leg) \<Rightarrow>
          in_transaction (bnd (tasks_create uuid now spec) (\<lambda>tid.
            seqn (add_member (leg_member g leg tid spec)) (ret tid))))"

definition dispatch_task ::
    "workflow_env \<Rightarrow> (nat \<Rightarrow> string) \<Rightarrow> usec \<Rightarrow> tool_ctx \<Rightarrow> dict \<Rightarrow> (db, dict) exec" where
  "dispatch_task env uuid now c args =
     check (check_dispatch env c args) (\<lambda>(spec, slot).
       bnd (write_child uuid (now div 1000) spec slot) (\<lambda>tid. ret (dispatch_reply tid spec slot)))"

section \<open>query\_task\_status\<close>

definition child_entry :: "task \<Rightarrow> json" where
  "child_entry t = JObj [(''id'', JStr (task_id t)), (''persona'', JStr (task_persona t)),
     (''agent_id'', jopt_str (task_agent t)), (''status'', JStr (task_status_str (task_status t)))]"

definition wakeup_entry :: "wakeup \<Rightarrow> json" where
  "wakeup_entry w = JObj [(''id'', JStr (wk_id w)), (''started_at'', JStr (isoformat (wk_started w))),
     (''ended_at'', jopt_time (wk_ended w)), (''end_status'', jopt_str (wk_end_status w)),
     (''transcript_uri'', jopt_str (wk_transcript w))]"

definition status_reply :: "tool_ctx \<Rightarrow> task \<Rightarrow> wakeup list \<Rightarrow> task list \<Rightarrow> dict" where
  "status_reply c t ws kids =
     (let active = List.find (\<lambda>w. wk_ended w = None) ws
      in [(''id'', JStr (task_id t)), (''persona'', JStr (task_persona t)), (''agent_id'', jopt_str (task_agent t)),
          (''status'', JStr (task_status_str (task_status t))), (''is_running'', JBool (active \<noteq> None)),
          (''active_wakeup_id'', jopt_str (map_option wk_id active)),
          (''is_current_wakeup'', JBool (present (Some (tc_task c)) = Some (task_id t))),
          (''checkpoint'', case task_checkpoint t of None \<Rightarrow> JNull | Some k \<Rightarrow> JObj k),
          (''parent_task_id'', jopt_str (task_parent t)), (''created_at'', jopt_time (task_created t)),
          (''updated_at'', jopt_time (task_updated t)), (''lease_holder'', jopt_str (task_lease_holder t)),
          (''lease_until'', jopt_time (task_lease_until t)), (''children'', JArr (map child_entry kids)),
          (''recent_wakeups'', JArr (map wakeup_entry ws))])"

definition query_task_status :: "tool_ctx \<Rightarrow> dict \<Rightarrow> (db, dict) exec" where
  "query_task_status c args =
     check (\<lambda>d. ebind (text_arg args ''task_id'') (\<lambda>tid. case tasks_get tid d of
         None \<Rightarrow> Inl (tool_error ''task not found'')
       | Some t \<Rightarrow> Inr (status_reply c t (wakeups_list_for_task tid 5 d) (find_children tid d)))) ret"

section \<open>The fan-in tools\<close>

definition int_between :: "int \<Rightarrow> int \<Rightarrow> string \<Rightarrow> json \<Rightarrow> exn + int" where
  "int_between lo hi msg j =
     (case int_val j of None \<Rightarrow> Inl (tool_error msg)
      | Some i \<Rightarrow> (if lo \<le> i \<and> i \<le> hi then Inr i else Inl (tool_error msg)))"

definition budget_arg :: "dict \<Rightarrow> exn + int option" where
  "budget_arg args =
     (case arg args ''budget_tokens'' of
        None \<Rightarrow> Inr None
      | Some j \<Rightarrow> (case int_val j of
            None \<Rightarrow> Inl (tool_error ''budget_tokens must be a non-negative integer'')
          | Some i \<Rightarrow> (if i < 0 then Inl (tool_error ''budget_tokens must be a non-negative integer'')
                      else Inr (Some i))))"

definition max_deadline :: int where "max_deadline = 24 * 3600"

definition new_group :: "workflow_env \<Rightarrow> usec \<Rightarrow> tool_ctx \<Rightarrow> dict \<Rightarrow> exn + fan_in_group" where
  "new_group env now c args =
     (case (case arg args ''expect_replies'' of None \<Rightarrow> None | Some j \<Rightarrow> int_val j) of
        None \<Rightarrow> Inl (tool_error ''expect_replies must be a positive integer'')
      | Some expect \<Rightarrow>
          (if expect < 1 then Inl (tool_error ''expect_replies must be a positive integer'')
           else ebind (int_between 1 expect ''quorum must be an integer in 1..expect''
                        (case dget args ''quorum'' of None \<Rightarrow> JInt expect | Some j \<Rightarrow> j)) (\<lambda>quorum.
             case arg args ''result_schema'' of
               Some (JObj schema) \<Rightarrow>
                 (if schema = [] then Inl (tool_error ''result_schema must be a non-empty JSON-Schema object'')
                  else ebind (int_between 1 max_deadline ''deadline_in_s out of range''
                               (case dget args ''deadline_in_s'' of None \<Rightarrow> JInt 1800 | Some j \<Rightarrow> j)) (\<lambda>deadline.
                       ebind (budget_arg args) (\<lambda>budget.
                         Inr \<lparr>grp_id = ''fanin-'' @ wf_hex env, grp_coordinator = self_mailbox c,
                              grp_parent_task = Some (tc_task c), grp_expect = expect, grp_quorum = quorum,
                              grp_schema = schema, grp_budget = budget, grp_dry_round = 0,
                              grp_deadline = now + deadline * 1000000, grp_status = GOpen,
                              grp_created = None, grp_resolved = None\<rparr>)))
             | _ \<Rightarrow> Inl (tool_error ''result_schema must be a non-empty JSON-Schema object''))))"

definition fan_in_open :: "workflow_env \<Rightarrow> usec \<Rightarrow> tool_ctx \<Rightarrow> dict \<Rightarrow> (db, dict) exec" where
  "fan_in_open env now c args =
     (case new_group env now c args of
        Inl e \<Rightarrow> throw e
      | Inr g \<Rightarrow> seqn (create_group (now div 1000) g)
          (ret [(''group_id'', JStr (grp_id g)), (''expect_replies'', JInt (grp_expect g)),
                (''quorum'', JInt (grp_quorum g)), (''deadline'', JStr (isoformat (grp_deadline g)))]))"

definition group_arg :: "dict \<Rightarrow> db \<Rightarrow> exn + fan_in_group" where
  "group_arg args d =
     ebind (text_arg args ''group_id'') (\<lambda>gid. case group_get gid d of
       None \<Rightarrow> Inl (tool_error ''fan-in group not found'') | Some g \<Rightarrow> Inr g)"

definition fan_in_progress :: "dict \<Rightarrow> (db, dict) exec" where
  "fan_in_progress args =
     check (group_arg args) (\<lambda>g. bnd (query (count_fan_in_results (grp_coordinator g) (grp_id g))) (\<lambda>n.
       ret [(''group_id'', JStr (grp_id g)), (''status'', JStr (fan_in_status_str (grp_status g))),
            (''expect_replies'', JInt (grp_expect g)), (''quorum'', JInt (grp_quorum g)),
            (''delivered'', JInt (int n)), (''deadline'', JStr (isoformat (grp_deadline g)))]))"

definition leg_failed :: "fan_in_result \<Rightarrow> bool" where
  "leg_failed r \<longleftrightarrow> otruthy (dget (fr_result r) ''_leg_failed'')"

definition real_results :: "fan_in_result list \<Rightarrow> fan_in_result list" where
  "real_results rs = filter (\<lambda>r. \<not> leg_failed r) rs"

definition failed_results :: "fan_in_result list \<Rightarrow> fan_in_result list" where
  "failed_results rs = filter leg_failed rs"

definition missing_legs :: "fan_in_group \<Rightarrow> fan_in_result list \<Rightarrow> int list" where
  "missing_legs g rs = filter (\<lambda>k. k \<notin> fr_leg_key ` set rs) (map int [0..<nat (grp_expect g)])"

definition result_entry :: "fan_in_result \<Rightarrow> json" where
  "result_entry r = JObj [(''leg_key'', JInt (fr_leg_key r)), (''from'', JStr (fr_sender r)),
     (''result'', JObj (fr_result r))]"

definition failed_entry :: "fan_in_result \<Rightarrow> json" where
  "failed_entry r = JObj [(''leg_key'', JInt (fr_leg_key r)), (''reason'', jopt (dget (fr_result r) ''reason''))]"

definition fan_in_results :: "dict \<Rightarrow> (db, dict) exec" where
  "fan_in_results args =
     check (group_arg args) (\<lambda>g. check (read_fan_in_results (grp_coordinator g) (grp_id g)) (\<lambda>rs.
       ret [(''group_id'', JStr (grp_id g)), (''status'', JStr (fan_in_status_str (grp_status g))),
            (''expect_replies'', JInt (grp_expect g)), (''quorum'', JInt (grp_quorum g)),
            (''delivered'', JInt (int (length (real_results rs)))),
            (''results'', JArr (map result_entry (real_results rs))),
            (''failed_legs'', JArr (map failed_entry (failed_results rs))),
            (''missing_legs'', JArr (map JInt (missing_legs g rs)))]))"

definition cancel_text :: "string \<Rightarrow> string" where
  "cancel_text gid = ''fan-in group '' @ gid @ '' cancelled''"

fun stop_legs :: "int \<Rightarrow> string \<Rightarrow> fan_in_member list \<Rightarrow> db \<Rightarrow> string list \<times> db" where
  "stop_legs now gid [] d = ([], d)"
| "stop_legs now gid (m # ms) d =
     (if fm_child_task m = [] then stop_legs now gid ms d
      else (case request_cancel now (fm_child_task m) (Some (cancel_text gid)) d of
          (ok, d1) \<Rightarrow> (case stop_legs now gid ms d1 of
              (ts, d2) \<Rightarrow> (if ok then fm_child_task m # ts else ts, d2))))"

definition fan_in_cancel :: "usec \<Rightarrow> dict \<Rightarrow> (db, dict) exec" where
  "fan_in_cancel now args =
     check (group_arg args) (\<lambda>g.
     bnd (step (set_group_status (now div 1000) (grp_id g) GCancelled (Some GOpen))) (\<lambda>cancelled.
     bnd (if cancelled then step (\<lambda>d. stop_legs (now div 1000) (grp_id g) (group_members (grp_id g) d) d) else ret [])
       (\<lambda>stopped. ret [(''group_id'', JStr (grp_id g)), (''cancelled'', JBool cancelled),
          (''status'', JStr (fan_in_status_str (grp_status g))), (''legs_stopped'', jstrs stopped)])))"

section \<open>The progress tools\<close>

definition report_progress :: "usec \<Rightarrow> tool_ctx \<Rightarrow> dict \<Rightarrow> (db, dict) exec" where
  "report_progress now c args =
     (case dget args ''checkpoint'' of
        Some (JObj k) \<Rightarrow>
          (if otruthy (dget args ''note'') \<and> (case dget args ''note'' of Some (JStr s) \<Rightarrow> False | _ \<Rightarrow> True)
           then throw (tool_error ''note must be a string'')
           else seqn (upd (update_checkpoint (now div 1000) (tc_task c) k (tc_wakeup c)))
                  (ret [(''status'', JStr ''ok''), (''task_id'', JStr (tc_task c))]))
      | _ \<Rightarrow> throw (tool_error ''checkpoint must be an object (key/value map)''))"

definition side_effect_row :: "tool_ctx \<Rightarrow> string \<Rightarrow> string \<Rightarrow> dict \<Rightarrow> outbox_row" where
  "side_effect_row c use kind payload =
     new_outbox_row (Some (tc_task c)) (Some (tc_wakeup c)) KTier1Notification
       [(''kind'', JStr kind), (''task_id'', JStr (tc_task c)), (''persona'', JStr (tc_persona c)),
        (''details'', JObj payload)]
       (tc_wakeup c @ '':'' @ use @ '':side_effect'')"

definition report_side_effect :: "usec \<Rightarrow> tool_ctx \<Rightarrow> dict \<Rightarrow> (db, dict) exec" where
  "report_side_effect now c args =
     check (\<lambda>d. ebind (text_arg args ''kind'') (\<lambda>kind.
         ebind (if \<not> otruthy (dget args ''payload'') then Inr []
                else (case dget args ''payload'' of
                    Some (JObj p) \<Rightarrow> Inr p | _ \<Rightarrow> Inl (tool_error ''payload must be an object''))) (\<lambda>payload.
         ebind (case arg args ''_tool_use_id'' of
             Some (JStr (x # xs)) \<Rightarrow> Inr (x # xs) | _ \<Rightarrow> Inl (tool_error ''internal: missing tool_use_id'')) (\<lambda>use.
           Inr (side_effect_row c use kind payload, kind)))))
       (\<lambda>(row, kind). seqn (outbox_enqueue (now div 1000) [row])
          (ret [(''status'', JStr ''queued''), (''external_id'', JStr (ob_external row)), (''kind'', JStr kind)]))"

end
