(* ===== verification/Workflow_Flow.thy ===== *)
theory Workflow_Flow
  imports Tool_Workflow Sample
begin

text \<open>
  What the workflow tools do to the database: a child of a barrier is written together with its
  leg or not at all, and cancelling a barrier asks every child that is still in flight to stop.
\<close>

section \<open>Dispatching\<close>

definition new_row_of :: "task_row \<Rightarrow> string \<Rightarrow> int \<Rightarrow> task_spec \<Rightarrow> bool" where
  "new_row_of q tid now spec \<longleftrightarrow> (\<exists>persona. q = new_task_row now tid persona spec)"

lemma tasks_create_cases:
  "(\<exists>e. tasks_create uuid now spec d = (Inl e, d\<lparr>uuids_drawn := Suc (uuids_drawn d)\<rparr>))
   \<or> (\<exists>q. tasks_create uuid now spec d = (Inr (uuid (uuids_drawn d)),
          d\<lparr>uuids_drawn := Suc (uuids_drawn d), tasks := tasks d @ [q]\<rparr>)
        \<and> uuid (uuids_drawn d) \<notin> set (task_ids d) \<and> new_row_of q (uuid (uuids_drawn d)) now spec)"
proof (cases "resolve_spec spec (d\<lparr>uuids_drawn := Suc (uuids_drawn d)\<rparr>)")
  case (Inl e)
  then show ?thesis
    by (simp add: tasks_create_def draw_uuid_def exec_simps)
next
  case (Inr p)
  then show ?thesis
    by (auto simp: tasks_create_def draw_uuid_def exec_simps insert_task_def new_row_of_def
        key_defs new_task_row_def)
qed

lemma add_member_cases:
  "(\<exists>e. add_member m d = (Inl e, d)) \<or> add_member m d = (Inr (), d\<lparr>members := members d @ [m]\<rparr>)"
  by (simp add: add_member_def)

text \<open>How an accepting check was reached.\<close>

lemma accept_iffs:
  "(case x of None \<Rightarrow> Inl e | Some a \<Rightarrow> f a) = Inr b \<longleftrightarrow> (\<exists>a. x = Some a \<and> f a = Inr b)"
  "(if p then Inl e else y) = Inr b \<longleftrightarrow> \<not> p \<and> y = Inr b"
  by (simp_all split: option.split)

text \<open>The checks read only: what an accepted call dispatches.\<close>

lemma check_dispatch_spec:
  assumes "check_dispatch env c args d = Inr (spec, slot)"
  obtains meta where "object_arg args ''metadata'' = Inr meta" "fan_in_slot args d = Inr slot"
    "spec_meta spec = inherit_thread (tc_thread c) (leg_meta slot meta)"
    "spec_parent spec = Some (tc_task c)" "\<exists>a. spec_agent spec = Some a"
  using assms by (auto simp: check_dispatch_def ebind_Inr_iff split: prod.splits)

lemma fan_in_slot_open:
  assumes "fan_in_slot args d = Inr (Some (g, lj, leg))"
  shows "grp_status g = GOpen \<and> group_get (grp_id g) d = Some g \<and> get_member (grp_id g) leg d = None
     \<and> int_val lj = Some leg \<and> 0 \<le> leg"
proof -
  from assms obtain fa gid where fa: "text_arg fa ''group_id'' = Inr gid"
    and g: "group_get gid d = Some g" "grp_status g = GOpen" "get_member gid leg d = None"
      "int_val lj = Some leg" "0 \<le> leg"
    by (simp add: fan_in_slot_def ebind_Inr_iff accept_iffs)
      (auto simp: accept_iffs ebind_Inr_iff split: option.splits)
  from g(1) have "grp_id g = gid"
    by (auto simp: group_get_def row_to_group_def dest!: select_one_Some)
  with g show ?thesis by simp
qed

lemma leg_meta_of:
  assumes "m = leg_meta (Some (g, lj, leg)) meta"
  shows "\<exists>md. inherit_thread t m = Some md \<and> dget md ''fan_in_group'' = Some (JStr (grp_id g))
     \<and> dget md ''leg_key'' = Some lj \<and> dget md ''result_schema'' = Some (JObj (grp_schema g))"
  using assms by (auto simp: leg_meta_def inherit_thread_def split: option.splits)

definition leg_rows :: "(fan_in_group \<times> json \<times> int) option \<Rightarrow> string \<Rightarrow> task_spec \<Rightarrow> fan_in_member list" where
  "leg_rows slot tid spec =
     (case slot of None \<Rightarrow> [] | Some (g, lj, leg) \<Rightarrow> [leg_member g leg tid spec])"

lemma write_child_cases:
  "(\<exists>e. write_child uuid now spec slot d = (Inl e, d\<lparr>uuids_drawn := Suc (uuids_drawn d)\<rparr>))
   \<or> (\<exists>q. write_child uuid now spec slot d = (Inr (uuid (uuids_drawn d)),
          d\<lparr>uuids_drawn := Suc (uuids_drawn d), tasks := tasks d @ [q],
            members := members d @ leg_rows slot (uuid (uuids_drawn d)) spec\<rparr>)
        \<and> uuid (uuids_drawn d) \<notin> set (task_ids d)
        \<and> new_row_of q (uuid (uuids_drawn d)) now spec)"
proof (cases slot)
  case None
  then show ?thesis
    using tasks_create_cases [of uuid now spec d] by (auto simp: write_child_def leg_rows_def)
next
  case (Some s)
  obtain g lj leg where s: "s = (g, lj, leg)" by (cases s)
  let ?tid = "uuid (uuids_drawn d)"
  from tasks_create_cases [of uuid now spec d] show ?thesis
  proof (elim disjE exE conjE)
    fix e assume "tasks_create uuid now spec d = (Inl e, d\<lparr>uuids_drawn := Suc (uuids_drawn d)\<rparr>)"
    then show ?thesis by (simp add: write_child_def Some s in_transaction_def exec_simps roll_back_def)
  next
    fix q
    let ?d = "d\<lparr>uuids_drawn := Suc (uuids_drawn d), tasks := tasks d @ [q]\<rparr>"
    assume q: "tasks_create uuid now spec d = (Inr ?tid, ?d)"
      "?tid \<notin> set (task_ids d)" "new_row_of q ?tid now spec"
    from add_member_cases [of "leg_member g leg ?tid spec" ?d] show ?thesis
      using q by (auto simp: write_child_def Some s in_transaction_def exec_simps roll_back_def leg_rows_def)
  qed
qed

text \<open>What a leg must be for a child with metadata \<open>m\<close> to be dispatched into it.\<close>

definition leg_open :: "(fan_in_group \<times> json \<times> int) option \<Rightarrow> dict option \<Rightarrow> db \<Rightarrow> bool" where
  "leg_open slot m d \<longleftrightarrow> (case slot of None \<Rightarrow> True | Some (g, lj, leg) \<Rightarrow>
        group_get (grp_id g) d = Some g \<and> grp_status g = GOpen \<and> 0 \<le> leg
      \<and> get_member (grp_id g) leg d = None \<and> int_val lj = Some leg
      \<and> (\<exists>md. m = Some md \<and> dget md ''fan_in_group'' = Some (JStr (grp_id g))
           \<and> dget md ''leg_key'' = Some lj \<and> dget md ''result_schema'' = Some (JObj (grp_schema g))))"

text \<open>C22: A dispatch is all or nothing. If \<open>dispatch_task\<close> fails, at a check or at a constraint of
  the database, no table has changed. If it returns, exactly one task was added, pending, assigned
  and with the caller's task as its parent; for a leg of a barrier exactly one member row was added
  with it, the barrier was open, the leg was free, and the child's metadata names the barrier, the
  leg key and the schema its result must meet.\<close>

theorem dispatch_leg_atomic:
  "case dispatch_task env uuid now c args d of
     (Inl e, d') \<Rightarrow> d' = d\<lparr>uuids_drawn := uuids_drawn d'\<rparr>
   | (Inr reply, d') \<Rightarrow> \<exists>spec slot q.
       check_dispatch env c args d = Inr (spec, slot) \<and> reply = dispatch_reply (tr_id q) spec slot
     \<and> tr_id q \<notin> set (task_ids d) \<and> tr_status q = TPending \<and> tr_agent q \<noteq> None
     \<and> tr_parent q = Some (tc_task c) \<and> tr_goal q = spec_goal spec
     \<and> d' = d\<lparr>uuids_drawn := Suc (uuids_drawn d), tasks := tasks d @ [q],
              members := members d @ leg_rows slot (tr_id q) spec\<rparr>
     \<and> leg_open slot (tr_meta q) d"
proof (cases "check_dispatch env c args d")
  case (Inl e)
  then show ?thesis by (simp add: dispatch_task_def check_Inl)
next
  case (Inr a)
  obtain spec slot where a: "a = (spec, slot)" by (cases a)
  obtain meta where c: "fan_in_slot args d = Inr slot" "spec_parent spec = Some (tc_task c)"
      "spec_meta spec = inherit_thread (tc_thread c) (leg_meta slot meta)" "\<exists>a. spec_agent spec = Some a"
    using check_dispatch_spec [OF Inr [unfolded a]] by blast
  let ?d = "d\<lparr>uuids_drawn := Suc (uuids_drawn d)\<rparr>" and ?tid = "uuid (uuids_drawn d)"
  from write_child_cases [of uuid "now div 1000" spec slot d] show ?thesis
  proof (elim disjE exE conjE)
    fix e assume "write_child uuid (now div 1000) spec slot d = (Inl e, ?d)"
    then show ?thesis by (simp add: dispatch_task_def check_Inr [of "check_dispatch env c args", OF Inr] a bnd_def)
  next
    fix q
    assume w: "write_child uuid (now div 1000) spec slot d
        = (Inr ?tid, d\<lparr>uuids_drawn := Suc (uuids_drawn d), tasks := tasks d @ [q],
            members := members d @ leg_rows slot ?tid spec\<rparr>)"
      and q: "?tid \<notin> set (task_ids d)" "new_row_of q ?tid (now div 1000) spec"
    have leg: "leg_open slot (spec_meta spec) d"
      using c(1) fan_in_slot_open leg_meta_of [OF refl] by (auto simp: leg_open_def c(3) split: option.splits)
    from q(2) have f: "tr_id q = ?tid" "tr_status q = TPending" "tr_agent q = spec_agent spec"
        "tr_parent q = spec_parent spec" "tr_goal q = spec_goal spec" "tr_meta q = spec_meta spec"
      by (auto simp: new_row_of_def new_task_row_def)
    have run: "dispatch_task env uuid now c args d = (Inr (dispatch_reply ?tid spec slot),
        d\<lparr>uuids_drawn := Suc (uuids_drawn d), tasks := tasks d @ [q],
          members := members d @ leg_rows slot ?tid spec\<rparr>)"
      by (simp add: dispatch_task_def check_Inr [of "check_dispatch env c args", OF Inr] a bnd_def w ret_def)
    show ?thesis
      unfolding run prod.case sum.case
      by (intro exI [of _ spec] exI [of _ slot] exI [of _ q] conjI)
        (use Inr a f q(1) c(2,4) leg in simp_all)
  qed
qed

section \<open>Cancelling a barrier\<close>

definition stoppable :: "string \<Rightarrow> db \<Rightarrow> bool" where
  "stoppable tid d \<longleftrightarrow> (case the_row d tid of None \<Rightarrow> False | Some r \<Rightarrow> in_flight (tr_status r))"

lemma in_flight_iff: "in_flight s \<longleftrightarrow> s \<notin> {TCompleted, TFailed, TCancelled}"
  by (cases s) (simp_all add: in_flight_def)

lemma request_cancel_row:
  "the_row (snd (request_cancel now tid re d)) x = map_option (\<lambda>r. if x = tid \<and> in_flight (tr_status r)
      then r\<lparr>tr_meta := json_set [''cancel_reason''] (JStr (case re of None \<Rightarrow> [] | Some s \<Rightarrow> s))
                  (json_set [''cancel_requested''] (JInt 1) (tr_meta r)), tr_updated := MsZ now\<rparr>
      else r) (the_row d x)"
  unfolding request_cancel_def
  by (subst the_row_upd) (auto simp: in_flight_iff dest: the_row_id intro!: option.map_cong0 split: option.splits
      cong: option.map_cong)

lemma request_cancel_ok:
  "db_ok d \<Longrightarrow> fst (request_cancel now tid re d) \<longleftrightarrow> stoppable tid d"
  unfolding request_cancel_def stoppable_def
  by (subst fst_upd_row) (auto simp: in_flight_iff split: option.splits)

lemma request_cancel_frame: "snd (request_cancel now tid re d) = d\<lparr>tasks := tasks (snd (request_cancel now tid re d))\<rparr>"
  by (simp add: request_cancel_def upd_tasks_def)

lemma request_cancel_stoppable: "stoppable x (snd (request_cancel now tid re d)) \<longleftrightarrow> stoppable x d"
  by (auto simp: stoppable_def request_cancel_row split: option.splits)

lemma get_cancel_request_row:
  "get_cancel_request tid d = (case the_row d tid of None \<Rightarrow> None | Some r \<Rightarrow>
     (if \<not> sql_truthy (json_extract (tr_meta r) [''cancel_requested'']) then None
      else (case json_extract (tr_meta r) [''cancel_reason''] of SqlText s \<Rightarrow> Some s | _ \<Rightarrow> Some [])))"
  by (simp add: get_cancel_request_def the_row_def)

lemma request_cancel_reason:
  "get_cancel_request x (snd (request_cancel now tid (Some s) d)) =
     (if x = tid \<and> stoppable x d then Some s else get_cancel_request x d)"
  by (auto simp: get_cancel_request_row request_cancel_row stoppable_def sql_truthy_def split: option.split)

text \<open>The sweep over the legs, by induction on them.\<close>

definition asked :: "string \<Rightarrow> fan_in_member list \<Rightarrow> db \<Rightarrow> bool" where
  "asked x ms d \<longleftrightarrow> x \<noteq> [] \<and> x \<in> fm_child_task ` set ms \<and> stoppable x d"

lemma stop_legs_spec:
  assumes "db_ok d"
  shows "fst (stop_legs now gid ms d) = filter (\<lambda>t. t \<noteq> [] \<and> stoppable t d) (map fm_child_task ms)
     \<and> get_cancel_request x (snd (stop_legs now gid ms d))
         = (if asked x ms d then Some (cancel_text gid) else get_cancel_request x d)
     \<and> map_option tr_status (the_row (snd (stop_legs now gid ms d)) x) = map_option tr_status (the_row d x)
     \<and> (asked x ms d \<or> the_row (snd (stop_legs now gid ms d)) x = the_row d x)
     \<and> snd (stop_legs now gid ms d) = d\<lparr>tasks := tasks (snd (stop_legs now gid ms d))\<rparr>"
  using assms
proof (induction ms arbitrary: d)
  case (Cons m ms)
  let ?t = "fm_child_task m"
  let ?d = "snd (request_cancel now ?t (Some (cancel_text gid)) d)"
  show ?case
  proof (cases "?t = []")
    case True
    then show ?thesis using Cons.IH [OF Cons.prems] by (auto simp: asked_def)
  next
    case False
    have ok: "db_ok ?d" using Cons.prems by simp
    have fr: "?d = d\<lparr>tasks := tasks ?d\<rparr>" by (rule request_cancel_frame)
    have st: "stoppable y ?d = stoppable y d" for y by (rule request_cancel_stoppable)
    have eq: "stop_legs now gid (m # ms) d =
        (if stoppable ?t d then ?t # fst (stop_legs now gid ms ?d) else fst (stop_legs now gid ms ?d),
         snd (stop_legs now gid ms ?d))"
      using False request_cancel_ok [OF Cons.prems, of now ?t "Some (cancel_text gid)"]
      by (simp add: case_prod_beta)
    have row: "map_option tr_status (the_row ?d x) = map_option tr_status (the_row d x)"
      by (auto simp: request_cancel_row option.map_comp intro!: option.map_cong0)
    have same: "\<not> (x = ?t \<and> stoppable x d) \<Longrightarrow> the_row ?d x = the_row d x"
      by (cases "the_row d x") (auto simp: request_cancel_row stoppable_def)
    note ih = Cons.IH [OF ok]
    from ih have "snd (stop_legs now gid ms ?d) = ?d\<lparr>tasks := tasks (snd (stop_legs now gid ms ?d))\<rparr>"
      by blast
    then have fr': "snd (stop_legs now gid ms ?d) = d\<lparr>tasks := tasks (snd (stop_legs now gid ms ?d))\<rparr>"
      using fr by (metis (no_types, lifting) db.update_convs(3) db.surjective)
    have ask: "asked x (m # ms) d \<longleftrightarrow> (x = ?t \<and> stoppable x d) \<or> asked x ms ?d"
      using False by (auto simp: asked_def st)
    have "asked x (m # ms) d \<or> the_row (snd (stop_legs now gid ms ?d)) x = the_row d x"
      using ih same unfolding ask by (metis (no_types, lifting))
    with ih row False fr' show ?thesis
      unfolding eq by (auto simp: ask st request_cancel_reason)
  qed
qed (simp add: asked_def)

definition cancel_reply :: "string \<Rightarrow> bool \<Rightarrow> fan_in_status \<Rightarrow> string list \<Rightarrow> dict" where
  "cancel_reply gid cancelled st stopped =
     [(''group_id'', JStr gid), (''cancelled'', JBool cancelled), (''status'', JStr (fan_in_status_str st)),
      (''legs_stopped'', jstrs stopped)]"

lemma group_get_status:
  "group_get gid (snd (set_group_status now gid st (Some GOpen) d)) =
     map_option (\<lambda>g. if grp_status g = GOpen then g\<lparr>grp_status := st\<rparr> else g) (group_get gid d)"
  unfolding set_group_status_def upd_groups_def group_get_def
  by (auto simp: select_one_update_where row_to_group_def option.map_comp comp_def
      dest: select_one_Some intro!: option.map_cong0)

lemma set_group_status_open:
  assumes "db_ok d" "group_get gid d = Some g"
  shows "set_group_status now gid st (Some GOpen) d =
    (grp_status g = GOpen, if grp_status g = GOpen then snd (set_group_status now gid st (Some GOpen) d) else d)"
proof -
  have "fst (set_group_status now gid st (Some GOpen) d) \<longleftrightarrow> grp_status g = GOpen"
  proof
    assume "fst (set_group_status now gid st (Some GOpen) d)"
    then obtain r where r: "r \<in> set (groups d)" "gr_id r = gid" "gr_status r = GOpen"
      by (auto simp: set_group_status_def)
    moreover have "distinct (map gr_id (groups d))"
      using assms(1) by (simp add: db_ok_def groups_ok_def group_ids_def)
    ultimately have "select_one (\<lambda>r. gr_id r = gid) (groups d) = Some r"
      using select_one_key [of gr_id "groups d" r] by simp
    with assms(2) r show "grp_status g = GOpen" by (auto simp: group_get_def row_to_group_def)
  next
    assume "grp_status g = GOpen"
    with assms(2) show "fst (set_group_status now gid st (Some GOpen) d)"
      by (auto simp: set_group_status_def group_get_def row_to_group_def dest!: select_one_Some)
  qed
  then show ?thesis
    using upd_none_same(3) [of "\<lambda>r. gr_id r = gid \<and> gr_status r = GOpen" _ d]
    by (auto simp: set_group_status_def intro!: prod_eqI)
qed

lemma stop_legs_ok: "db_ok d \<Longrightarrow> db_ok (snd (stop_legs now gid ms d))"
  by (induction ms arbitrary: d) (simp_all add: case_prod_beta)

lemma frame_tasks:
  assumes "d' = d\<lparr>tasks := x\<rparr>"
  shows "group_get gid d' = group_get gid d" "group_members gid d' = group_members gid d"
  using assms by (simp_all add: group_get_def group_members_def)

text \<open>Cancelling an open barrier takes it out of the barrier's reach and asks every child
  that is still in flight to stop, with the reason naming the group; it changes no other task and
  no task's status. A second cancel changes nothing. The reply of the first call still reports the
  group as \<open>open\<close>, because it repeats the status read before the update.\<close>

theorem cancel_stands_down:
  assumes "db_ok d" "arg args ''group_id'' = Some (JStr gid)" "gid \<noteq> []"
    and "group_get gid d = Some g" "grp_status g = GOpen"
  shows "\<exists>d'. fan_in_cancel now args d = (Inr (cancel_reply gid True GOpen
         (filter (\<lambda>t. t \<noteq> [] \<and> stoppable t d) (map fm_child_task (group_members gid d)))), d')
     \<and> group_get gid d' = Some (g\<lparr>grp_status := GCancelled\<rparr>)
     \<and> (\<forall>x. get_cancel_request x d' =
          (if asked x (group_members gid d) d then Some (cancel_text gid) else get_cancel_request x d))
     \<and> (\<forall>x. map_option tr_status (the_row d' x) = map_option tr_status (the_row d x))
     \<and> (\<forall>x. asked x (group_members gid d) d \<or> the_row d' x = the_row d x)
     \<and> fan_in_cancel later args d' = (Inr (cancel_reply gid False GCancelled []), d')"
proof -
  let ?d = "snd (set_group_status (now div 1000) gid GCancelled (Some GOpen) d)"
  let ?ms = "group_members gid d"
  let ?d' = "snd (stop_legs (now div 1000) gid ?ms ?d)"
  have id: "grp_id g = gid" using assms(4)
    by (auto simp: group_get_def row_to_group_def dest!: select_one_Some)
  have g: "group_arg args e = (case group_get gid e of None \<Rightarrow> Inl (tool_error ''fan-in group not found'') | Some g \<Rightarrow> Inr g)" for e
    using assms(2,3) by (cases gid) (simp_all add: group_arg_def text_arg_def ebind_def)
  have ok: "db_ok ?d" using assms(1) by simp
  have fr: "?d = d\<lparr>groups := groups ?d\<rparr>" by (simp add: set_group_status_def upd_groups_def)
  have ms: "group_members gid ?d = ?ms" "the_row ?d x = the_row d x" "stoppable x ?d = stoppable x d"
      "get_cancel_request x ?d = get_cancel_request x d" "asked x ms ?d = asked x ms d" for x ms
    by (subst fr, simp add: group_members_def the_row_def stoppable_def get_cancel_request_def asked_def)+
  note sl = stop_legs_spec [OF ok, of "now div 1000" gid ?ms, unfolded ms]
  have frame: "?d' = ?d\<lparr>tasks := tasks ?d'\<rparr>" using sl by blast
  have run: "fan_in_cancel now args d = (Inr (cancel_reply gid True GOpen
         (filter (\<lambda>t. t \<noteq> [] \<and> stoppable t d) (map fm_child_task ?ms))), ?d')"
  proof -
    have "fst (set_group_status (now div 1000) gid GCancelled (Some GOpen) d)"
      using set_group_status_open [OF assms(1,4), of "now div 1000" GCancelled] assms(5)
      by (metis fst_conv)
    moreover have "fst (stop_legs (now div 1000) gid ?ms ?d)
        = filter (\<lambda>t. t \<noteq> [] \<and> stoppable t d) (map fm_child_task ?ms)"
      using sl by blast
    ultimately show ?thesis
      by (simp add: fan_in_cancel_def check_def g id assms(4,5) exec_simps cancel_reply_def case_prod_beta ms(1))
  qed
  have st: "group_get gid ?d' = Some (g\<lparr>grp_status := GCancelled\<rparr>)"
    using frame_tasks(1) [OF frame] assms(4,5) by (simp add: group_get_status)
  have again: "fan_in_cancel later args ?d' = (Inr (cancel_reply gid False GCancelled []), ?d')"
    using set_group_status_open [OF stop_legs_ok [OF ok] st, of "later div 1000" GCancelled] st id
    by (simp add: fan_in_cancel_def check_def g exec_simps cancel_reply_def)
  show ?thesis using run st again sl by blast
qed

definition leg_group :: group_row where
  "leg_group = \<lparr>gr_id = ''g'', gr_coordinator = ''dispatcher'', gr_parent_task = None, gr_expect = 2,
     gr_quorum = 2, gr_schema = [(''type'', JStr ''object'')], gr_budget = None, gr_dry_round = 0,
     gr_deadline = 1800000000, gr_status = GOpen, gr_created = MsZ 0, gr_resolved = None\<rparr>"

definition leg_db :: db where
  "leg_db = sample_db\<lparr>groups := [leg_group],
     members := [\<lparr>fm_group = ''g'', fm_leg_key = 0, fm_child_task = ''t1'', fm_child_agent = ''worker/a''\<rparr>]\<rparr>"

lemma leg_db_facts:
  "db_ok leg_db" "group_get ''g'' leg_db = Some (row_to_group leg_group)"
  "group_members ''g'' leg_db =
     [\<lparr>fm_group = ''g'', fm_leg_key = 0, fm_child_task = ''t1'', fm_child_agent = ''worker/a''\<rparr>]"
  "stoppable ''t1'' leg_db"
proof -
  show "db_ok leg_db"
    by (simp add: leg_db_def leg_group_def sample_db_def empty_db_def db_ok_defs key_defs sample_agent_def sample_task_def)
qed (simp_all add: leg_db_def leg_group_def group_get_def group_members_def order_by_def select_one_def
      stoppable_def the_row_def sample_db_def sample_task_def)

lemma cancel_stands_down_witness:
  "\<exists>d'. fan_in_cancel 0 [(''group_id'', JStr ''g'')] leg_db = (Inr (cancel_reply ''g'' True GOpen [''t1'']), d')
     \<and> get_cancel_request ''t1'' d' = Some (cancel_text ''g'')"
proof -
  have "grp_status (row_to_group leg_group) = GOpen" by (simp add: leg_group_def row_to_group_def)
  from cancel_stands_down [OF leg_db_facts(1) _ _ leg_db_facts(2) this, of "[(''group_id'', JStr ''g'')]" 0 0]
  show ?thesis by (auto simp: leg_db_facts asked_def)
qed

definition leg_env :: workflow_env where
  "leg_env = \<lparr>wf_persona = (\<lambda>p. None), wf_hex = ''0''\<rparr>"

definition leg_args :: dict where
  "leg_args = [(''agent'', JStr ''worker/a''), (''goal'', JStr ''check it''), (''acceptance'', JStr ''a verdict''),
     (''fan_in'', JObj [(''group_id'', JStr ''g''), (''leg_key'', JInt 1)])]"

lemma dispatch_leg_atomic_witness:
  "\<exists>reply q m. dispatch_task leg_env (\<lambda>n. ''t2'') 0 (sample_ctx ''dispatcher'') leg_args leg_db
     = (Inr reply, leg_db\<lparr>uuids_drawn := 1, tasks := tasks leg_db @ [q], members := members leg_db @ [m]\<rparr>)
     \<and> fm_child_task m = tr_id q"
proof -
  let ?c = "sample_ctx ''dispatcher''"
  have ag: "agents_get ''worker/a'' leg_db = Some (row_to_agent (sample_agent ''worker/a'' (Some ''dispatcher'') None))"
    by (simp add: agents_get_def leg_db_def sample_db_def select_one_def sample_agent_def)
  have nm: "get_member ''g'' 1 leg_db = None"
    by (simp add: get_member_def leg_db_def select_one_def)
  have grp: "grp_status (row_to_group leg_group) = GOpen" "grp_id (row_to_group leg_group) = ''g''"
    by (simp_all add: leg_group_def row_to_group_def)
  have slot: "fan_in_slot leg_args leg_db = Inr (Some (row_to_group leg_group, JInt 1, 1))"
    using leg_db_facts(2) nm grp
    by (simp add: fan_in_slot_def leg_args_def object_arg_def text_arg_def ebind_def)
  have target: "dispatch_target leg_env leg_args leg_db = Inr (''worker/a'', ''worker'')"
    by (simp add: dispatch_target_def leg_args_def ag row_to_agent_def sample_agent_def)
  have "\<exists>spec. check_dispatch leg_env ?c leg_args leg_db = Inr (spec, Some (row_to_group leg_group, JInt 1, 1))
     \<and> spec_agent spec = Some ''worker/a'' \<and> spec_parent spec = Some ''t1''"
    by (simp add: check_dispatch_def slot target ebind_def)
      (simp add: leg_args_def text_arg_def object_arg_def git_arg_def ebind_def
        lease_arg_def turns_arg_def sample_ctx_def)
  then obtain spec where c: "check_dispatch leg_env ?c leg_args leg_db
        = Inr (spec, Some (row_to_group leg_group, JInt 1, 1))"
      "spec_agent spec = Some ''worker/a''" "spec_parent spec = Some ''t1''"
    by blast
  have sel: "select_one (\<lambda>r. ar_id r = ''worker/a'') (agents leg_db) = Some (sample_agent ''worker/a'' (Some ''dispatcher'') None)"
    "uuids_drawn leg_db = 0" "task_ids leg_db = [''t1'']"
    by (simp_all add: leg_db_def sample_db_def empty_db_def select_one_def sample_agent_def key_defs
        sample_task_def)
  have "tasks_create (\<lambda>n. ''t2'') 0 spec leg_db = (Inr ''t2'', leg_db\<lparr>uuids_drawn := Suc 0,
       tasks := tasks leg_db @ [new_task_row 0 ''t2'' ''worker'' spec]\<rparr>)"
    using tasks_create_fresh [of spec "''worker/a''" leg_db _ "\<lambda>n. ''t2''" 0, OF c(2) _ sel(1)] c(3)
    by (simp add: sel(2,3)) (simp add: sample_agent_def)
  moreover have tabs: "members leg_db = [\<lparr>fm_group = ''g'', fm_leg_key = 0, fm_child_task = ''t1'', fm_child_agent = ''worker/a''\<rparr>]"
    "map gr_id (groups leg_db) = [''g'']" "map ar_id (agents leg_db) = [''dispatcher'', ''worker/a'']"
    by (simp_all add: leg_db_def sample_db_def sample_agent_def leg_group_def)
  moreover have "add_member m (leg_db\<lparr>uuids_drawn := Suc 0, tasks := tasks leg_db @ [q]\<rparr>) = (Inr (), x)"
    if "m = leg_member (row_to_group leg_group) 1 ''t2'' spec" "tr_id q = ''t2''"
       "x = leg_db\<lparr>uuids_drawn := Suc 0, tasks := tasks leg_db @ [q], members := members leg_db @ [m]\<rparr>" for m q x
    using that c(2) tabs by (simp add: add_member_def leg_member_def grp key_defs)
  ultimately have "\<exists>r. fst (dispatch_task leg_env (\<lambda>n. ''t2'') 0 ?c leg_args leg_db) = Inr r"
    by (simp add: exec_simps in_transaction_def new_task_row_def dispatch_task_def check_Inr [of "check_dispatch leg_env ?c leg_args", OF c(1)] write_child_def)
  then obtain r d' where "dispatch_task leg_env (\<lambda>n. ''t2'') 0 ?c leg_args leg_db = (Inr r, d')"
    by (metis prod.collapse)
  moreover from this dispatch_leg_atomic [where env = leg_env and uuid = "\<lambda>n. ''t2''" and now = 0
      and c = ?c and args = leg_args and d = leg_db]
  obtain q where "d' = leg_db\<lparr>uuids_drawn := 1, tasks := tasks leg_db @ [q],
      members := members leg_db @ [leg_member (row_to_group leg_group) 1 (tr_id q) spec]\<rparr>"
    by (auto simp: c(1) sel(2) leg_rows_def)
  ultimately show ?thesis
    by (intro exI [of _ r] exI [of _ q] exI [of _ "leg_member (row_to_group leg_group) 1 (tr_id q) spec"])
      (simp add: leg_member_def)
qed

end
