(* ===== verification/Loop_Messages.thy ===== *)
theory Loop_Messages
  imports Tool_Base Model_Router Mail_Watcher
begin

text \<open>
  The conversation the agent loop keeps (\<open>adapter/llm_adapter.py\<close>, \<open>runtime/agent_loop.py\<close>):
  messages, content blocks, stream events, the texts Python makes of JSON values, the multimodal
  blocks, the token estimate. Every block carries the fields its type uses. The text of a tool
  result that the loop made with \<open>json.dumps\<close> is kept as the value it encodes, so that reading it
  back gives this value; the text of a float is a parameter.
\<close>

section \<open>Texts of JSON values\<close>

text \<open>\<open>repr\<close> and \<open>str\<close>.\<close>

fun repr_json :: "(rat \<Rightarrow> string) \<Rightarrow> json \<Rightarrow> string"
  and repr_list :: "(rat \<Rightarrow> string) \<Rightarrow> json list \<Rightarrow> string"
  and repr_items :: "(rat \<Rightarrow> string) \<Rightarrow> (string \<times> json) list \<Rightarrow> string" where
  "repr_json f JNull = ''None''"
| "repr_json f (JBool b) = (if b then ''True'' else ''False'')"
| "repr_json f (JInt i) = str_of_int i"
| "repr_json f (JFloat r) = f r"
| "repr_json f (JStr s) = py_repr s"
| "repr_json f (JArr js) = ''['' @ repr_list f js @ '']''"
| "repr_json f (JObj d) = ''{'' @ repr_items f d @ ''}''"
| "repr_list f [] = []"
| "repr_list f (j # js) = repr_json f j @ (if js = [] then [] else '', '') @ repr_list f js"
| "repr_items f [] = []"
| "repr_items f ((k, v) # d) = py_repr k @ '': '' @ repr_json f v @ (if d = [] then [] else '', '') @ repr_items f d"

definition str_json :: "(rat \<Rightarrow> string) \<Rightarrow> json \<Rightarrow> string" where
  "str_json f j = (case j of JStr s \<Rightarrow> s | _ \<Rightarrow> repr_json f j)"

text \<open>\<open>json.dumps(v, ensure_ascii=False)\<close>.\<close>

definition json_char :: "char \<Rightarrow> string" where
  "json_char c =
     (let n = (of_char c :: nat) in
      if n = 34 then [CHR 0x5C, CHR 0x22] else if n = 92 then [CHR 0x5C, CHR 0x5C]
      else if n = 10 then [CHR 0x5C, CHR ''n''] else if n = 13 then [CHR 0x5C, CHR ''r'']
      else if n = 9 then [CHR 0x5C, CHR ''t''] else if n = 8 then [CHR 0x5C, CHR ''b'']
      else if n = 12 then [CHR 0x5C, CHR ''f'']
      else if n < 32 then [CHR 0x5C] @ ''u00'' @ [hex_digit (n div 16), hex_digit (n mod 16)]
      else [c])"

definition json_string :: "string \<Rightarrow> string" where
  "json_string s = [CHR 0x22] @ concat (map json_char s) @ [CHR 0x22]"

fun json_text :: "(rat \<Rightarrow> string) \<Rightarrow> json \<Rightarrow> string"
  and json_list :: "(rat \<Rightarrow> string) \<Rightarrow> json list \<Rightarrow> string"
  and json_items :: "(rat \<Rightarrow> string) \<Rightarrow> (string \<times> json) list \<Rightarrow> string" where
  "json_text f JNull = ''null''"
| "json_text f (JBool b) = (if b then ''true'' else ''false'')"
| "json_text f (JInt i) = str_of_int i"
| "json_text f (JFloat r) = f r"
| "json_text f (JStr s) = json_string s"
| "json_text f (JArr js) = ''['' @ json_list f js @ '']''"
| "json_text f (JObj d) = ''{'' @ json_items f d @ ''}''"
| "json_list f [] = []"
| "json_list f (j # js) = json_text f j @ (if js = [] then [] else '', '') @ json_list f js"
| "json_items f [] = []"
| "json_items f ((k, v) # d) = json_string k @ '': '' @ json_text f v @ (if d = [] then [] else '', '') @ json_items f d"

section \<open>Messages\<close>

datatype result_text = Text string | Dumped json

definition text_of :: "(rat \<Rightarrow> string) \<Rightarrow> result_text \<Rightarrow> string" where
  "text_of f r = (case r of Text s \<Rightarrow> s | Dumped j \<Rightarrow> json_text f j)"

datatype media_kind = MImage | MDocument

datatype block =
    BText string
  | BThinking string "string option"
  | BToolUse string string dict
  | BToolResult string result_text bool
  | BMedia media_kind "string option" "string option" "string option"

datatype role = RSystem | RUser | RAssistant | RTool

record message =
  m_role :: role
  m_content :: "block list"
  m_artifact :: bool

definition user_msg :: "block list \<Rightarrow> message" where
  "user_msg bs = \<lparr>m_role = RUser, m_content = bs, m_artifact = False\<rparr>"

definition assistant_msg :: "block list \<Rightarrow> message" where
  "assistant_msg bs = \<lparr>m_role = RAssistant, m_content = bs, m_artifact = False\<rparr>"

record tool_use =
  tu_id :: string
  tu_name :: string
  tu_input :: dict

definition use_block :: "tool_use \<Rightarrow> block" where
  "use_block tu = BToolUse (tu_id tu) (tu_name tu) (tu_input tu)"

text \<open>What a provider streams.\<close>

datatype stream_event =
    ContentDelta string
  | ThinkingDelta string
  | ThinkingBlockComplete string "string option"
  | ToolUseStart string string
  | ToolUseDelta string string
  | ToolUseComplete string string dict
  | Usage int int
  | TurnComplete string
  | StreamError string string

section \<open>Multimodal blocks\<close>

definition media_str :: "media_kind \<Rightarrow> string" where
  "media_str k = (case k of MImage \<Rightarrow> ''image'' | MDocument \<Rightarrow> ''document'')"

definition media_of_str :: "json option \<Rightarrow> media_kind option" where
  "media_of_str j = (if j = Some (JStr ''image'') then Some MImage
     else if j = Some (JStr ''document'') then Some MDocument else None)"

definition str_field :: "dict \<Rightarrow> string \<Rightarrow> string option" where
  "str_field d k = (case dget d k of Some (JStr s) \<Rightarrow> Some s | _ \<Rightarrow> None)"

definition block_of_spec :: "json \<Rightarrow> block option" where
  "block_of_spec j = (case j of
     JObj s \<Rightarrow> map_option (\<lambda>k. BMedia k (str_field s ''blob_id'') (str_field s ''media_type'')
                                  (str_field s ''filename'')) (media_of_str (dget s ''type''))
   | _ \<Rightarrow> None)"

text \<open>The reply without the magic key, and the blocks the key carried.\<close>

definition take_view_blocks :: "json \<Rightarrow> block list \<times> json" where
  "take_view_blocks r = (case r of
     JObj d \<Rightarrow>
       ((case dget d ''_lyre_view_blocks'' of
           Some (JArr specs) \<Rightarrow> List.map_filter block_of_spec specs | _ \<Rightarrow> []),
        JObj (ddel {''_lyre_view_blocks''} d))
   | _ \<Rightarrow> ([], r))"

definition media_name :: "string option \<Rightarrow> string option \<Rightarrow> string" where
  "media_name blob filename =
     (case present filename of Some n \<Rightarrow> n
      | None \<Rightarrow> (case present blob of Some b \<Rightarrow> utake 12 b | None \<Rightarrow> ''?''))"

definition placeholder :: "media_kind \<Rightarrow> string \<Rightarrow> string" where
  "placeholder k name = ''['' @ media_str k @ '': '' @ name @ '' '' @ bytes [226, 128, 148]
     @ '' current model lacks vision capability; route to a vision-capable model to see it]''"

fun strip_block :: "block \<Rightarrow> block" where
  "strip_block (BMedia k blob mt fn) = BText (placeholder k (media_name blob fn))"
| "strip_block b = b"

definition is_media :: "block \<Rightarrow> bool" where
  "is_media b \<longleftrightarrow> (case b of BMedia k x y z \<Rightarrow> True | _ \<Rightarrow> False)"

definition strip_message :: "message \<Rightarrow> message" where
  "strip_message m =
     (if list_ex is_media (m_content m)
      then \<lparr>m_role = m_role m, m_content = map strip_block (m_content m), m_artifact = False\<rparr>
      else m)"

definition strip_vision_blocks :: "message list \<Rightarrow> message list" where
  "strip_vision_blocks ms = map strip_message ms"

section \<open>The token estimate\<close>

definition block_chars :: "(rat \<Rightarrow> string) \<Rightarrow> block \<Rightarrow> nat" where
  "block_chars f b = (case b of
     BText t \<Rightarrow> ulen t
   | BThinking t sig \<Rightarrow> ulen t
   | BToolResult i r e \<Rightarrow> ulen (text_of f r)
   | BToolUse i n d \<Rightarrow> ulen (repr_json f (JObj d))
   | BMedia k x y z \<Rightarrow> 0)"

definition estimate_input_tokens :: "(rat \<Rightarrow> string) \<Rightarrow> message list \<Rightarrow> string \<Rightarrow> nat" where
  "estimate_input_tokens f ms sys =
     (ulen sys + sum_list (map (\<lambda>m. sum_list (map (block_chars f) (m_content m))) ms)) div 4"

section \<open>Well-formed conversations\<close>

text \<open>A provider accepts a conversation in which every assistant message with tool calls is
  answered by the next message, a user message with one result per call in the order of the
  calls, and in which results occur nowhere else.\<close>

definition uses_of :: "block list \<Rightarrow> string list" where
  "uses_of bs = List.map_filter (\<lambda>b. case b of BToolUse i n d \<Rightarrow> Some i | _ \<Rightarrow> None) bs"

definition results_of :: "block list \<Rightarrow> string list" where
  "results_of bs = List.map_filter (\<lambda>b. case b of BToolResult i r e \<Rightarrow> Some i | _ \<Rightarrow> None) bs"

definition is_thinking :: "block \<Rightarrow> bool" where
  "is_thinking b \<longleftrightarrow> (case b of BThinking t s \<Rightarrow> True | _ \<Rightarrow> False)"

definition thinking_first :: "block list \<Rightarrow> bool" where
  "thinking_first bs \<longleftrightarrow> (\<exists>n. list_all is_thinking (take n bs) \<and> list_all (\<lambda>b. \<not> is_thinking b) (drop n bs))"

definition shape_ok :: "message \<Rightarrow> bool" where
  "shape_ok m \<longleftrightarrow> (m_role m = RAssistant \<longrightarrow> results_of (m_content m) = [] \<and> thinking_first (m_content m))
     \<and> (m_role m \<noteq> RAssistant \<longrightarrow> uses_of (m_content m) = [])"

text \<open>The calls the last message still owes results for, if everything before is in order.\<close>

fun owed_after :: "string list \<Rightarrow> message list \<Rightarrow> string list option" where
  "owed_after owed [] = Some owed"
| "owed_after owed (m # ms) =
     (if shape_ok m \<and> results_of (m_content m) = owed \<and> (owed \<noteq> [] \<longrightarrow> m_role m = RUser)
      then owed_after (uses_of (m_content m)) ms else None)"

definition well_paired :: "message list \<Rightarrow> bool" where
  "well_paired ms \<longleftrightarrow> owed_after [] ms = Some []"

lemma owed_after_append:
  "owed_after owed (xs @ ys) = Option.bind (owed_after owed xs) (\<lambda>o'. owed_after o' ys)"
  by (induction xs arbitrary: owed) auto

lemma blocks_of_append [simp]:
  "uses_of (xs @ ys) = uses_of xs @ uses_of ys" "results_of (xs @ ys) = results_of xs @ results_of ys"
  by (simp_all add: uses_of_def results_of_def map_filter_def)

lemma blocks_of_simps [simp]:
  "uses_of [] = []" "results_of [] = []"
  "uses_of (BToolUse i n d # bs) = i # uses_of bs" "results_of (BToolUse i n d # bs) = results_of bs"
  "uses_of (BToolResult i r e # bs) = uses_of bs" "results_of (BToolResult i r e # bs) = i # results_of bs"
  "uses_of (BText t # bs) = uses_of bs" "results_of (BText t # bs) = results_of bs"
  "uses_of (BThinking t s # bs) = uses_of bs" "results_of (BThinking t s # bs) = results_of bs"
  "uses_of (BMedia k x y z # bs) = uses_of bs" "results_of (BMedia k x y z # bs) = results_of bs"
  by (simp_all add: uses_of_def results_of_def List.map_filter_simps)

lemma use_blocks [simp]: "uses_of (map use_block tus) = map tu_id tus" "results_of (map use_block tus) = []"
  by (induction tus) (simp_all add: use_block_def)

lemma no_blocks_of:
  "list_all is_media bs \<Longrightarrow> uses_of bs = [] \<and> results_of bs = []"
proof (induction bs)
  case (Cons b bs)
  then show ?case by (cases b) (simp_all add: is_media_def)
qed simp

lemma media_of_spec: "block_of_spec j = Some b \<Longrightarrow> is_media b"
  by (auto simp: block_of_spec_def is_media_def split: json.splits)

lemma view_blocks_media: "list_all is_media (fst (take_view_blocks r))"
proof -
  have "list_all is_media (List.map_filter block_of_spec js)" for js
    by (induction js) (auto simp: List.map_filter_simps media_of_spec split: option.splits)
  then show ?thesis by (auto simp: take_view_blocks_def split: json.splits option.splits)
qed

text \<open>Rewriting the images leaves the shape of a conversation as it is.\<close>

lemma strip_blocks [simp]:
  "uses_of (map strip_block bs) = uses_of bs" "results_of (map strip_block bs) = results_of bs"
proof (induction bs)
  case (Cons b bs)
  case 1 with Cons show ?case by (cases b) simp_all
  case 2 with Cons show ?case by (cases b) simp_all
qed simp_all

lemma strip_thinking: "is_thinking (strip_block b) = is_thinking b"
  by (cases b) (simp_all add: is_thinking_def)

lemma strip_shape: "shape_ok (strip_message m) = shape_ok m" "m_role (strip_message m) = m_role m"
  "uses_of (m_content (strip_message m)) = uses_of (m_content m)"
  "results_of (m_content (strip_message m)) = results_of (m_content m)"
  by (auto simp: strip_message_def shape_ok_def thinking_first_def take_map drop_map list.pred_map comp_def strip_thinking)

lemma strip_owed: "owed_after owed (strip_vision_blocks ms) = owed_after owed ms"
  by (induction ms arbitrary: owed) (auto simp: strip_vision_blocks_def strip_shape)

text \<open>The conversation of a run: paired, headed by the user's task, with artifacts of plain text.\<close>

definition plain_artifact :: "message \<Rightarrow> bool" where
  "plain_artifact m \<longleftrightarrow> (m_artifact m \<longrightarrow> (\<exists>t. m_content m = [BText t]))"

definition conversation :: "message list \<Rightarrow> bool" where
  "conversation ms \<longleftrightarrow> well_paired ms \<and> ms \<noteq> [] \<and> m_role (hd ms) = RUser \<and> list_all plain_artifact ms"

end
