(* ===== verification/Compact.thy ===== *)
theory Compact
  imports Loop_Messages
begin

text \<open>
  \<open>runtime/compact.py\<close>: shortening the conversation of a wakeup. The head and the last turns are
  kept, the mail of the elided turns is rewritten as plain messages, everything else goes into a
  summary by the model. Parameters (\<open>compact_env\<close>): \<open>json.loads\<close>, the text of a float, and the
  stream of the summary call; whether the call fails part of the way is part of the stream.
\<close>

record compact_env =
  ce_loads :: "string \<Rightarrow> json option"
  ce_float :: "rat \<Rightarrow> string"
  ce_summary :: "string \<Rightarrow> stream_event list \<times> exn option"

section \<open>Where the kept tail starts\<close>

text \<open>\<open>find_pivot\<close> counts assistant messages from the end. The scan of \<open>range(len - 1, -1, -1)\<close>.\<close>

fun pivot_scan :: "message list \<Rightarrow> nat \<Rightarrow> int \<Rightarrow> int \<Rightarrow> nat" where
  "pivot_scan ms 0 k n = 1"
| "pivot_scan ms (Suc i) k n =
     (if m_role (ms ! i) = RAssistant
      then (if n + 1 = k then i else pivot_scan ms i k (n + 1))
      else pivot_scan ms i k n)"

definition find_pivot :: "message list \<Rightarrow> int \<Rightarrow> nat" where
  "find_pivot ms k = (if k \<le> 0 then length ms else pivot_scan ms (length ms) k 0)"

section \<open>Texts\<close>

datatype policy = PreserveIn | PreserveOut | Trace | Drop

definition tool_policy :: "string \<Rightarrow> policy" where
  "tool_policy name =
     (if name = ''mailbox_get_message'' then PreserveIn
      else if name = ''mailbox_send'' then PreserveOut
      else if name \<in> {''mailbox_read'', ''mark_read'', ''list_agents'', ''list_personas'', ''list_models'',
                      ''list_tasks'', ''list_scheduled_mail'', ''query_task_status'', ''report_progress''} then Drop
      else Trace)"

definition parse_dict :: "(string \<Rightarrow> json option) \<Rightarrow> result_text \<Rightarrow> dict option" where
  "parse_dict loads r = (case r of
     Dumped (JObj d) \<Rightarrow> Some d
   | Dumped j \<Rightarrow> None
   | Text s \<Rightarrow> (case loads s of Some (JObj d) \<Rightarrow> Some d | _ \<Rightarrow> None))"

definition str_of :: "compact_env \<Rightarrow> json \<Rightarrow> string" where
  "str_of ce j = str_json (ce_float ce) j"

definition with_ellipsis :: "nat \<Rightarrow> string \<Rightarrow> string" where
  "with_ellipsis n s = utake n s @ (if n < ulen s then ellipsis else [])"

definition arg_keys :: "string list" where
  "arg_keys = [''argv'', ''code'', ''rel_path'', ''msg_id'', ''to'', ''agent'', ''goal'']"

definition format_args :: "compact_env \<Rightarrow> dict \<Rightarrow> string" where
  "format_args ce input =
     (case List.find (\<lambda>k. dget input k \<noteq> None) arg_keys of
        None \<Rightarrow> []
      | Some k \<Rightarrow>
          (let v = the (dget input k);
               preview = (case v of JArr js \<Rightarrow> join '' '' (map (str_of ce) (take 3 js)) | _ \<Rightarrow> str_of ce v)
           in k @ ''='' @ py_repr (with_ellipsis 80 preview)))"

text \<open>\<open>re.search\<close> for a quoted \<open>task_id\<close>: after the key, white space, a colon, white space, a
  quoted text of at least one character.\<close>

definition quote_mark :: string where "quote_mark = [CHR 0x22]"

definition match_id :: "string list \<Rightarrow> string option" where
  "match_id us =
     (let key = map (\<lambda>c. [c]) (quote_mark @ ''task_id'' @ quote_mark)
      in if take (length key) us \<noteq> key then None
         else (case dropWhile is_space (drop (length key) us) of
             [] \<Rightarrow> None
           | u # us1 \<Rightarrow>
               (if u \<noteq> '':'' then None
                else (case dropWhile is_space us1 of
                    [] \<Rightarrow> None
                  | u' # us2 \<Rightarrow>
                      (if u' \<noteq> quote_mark then None
                       else (let body = takeWhile (\<lambda>x. x \<noteq> quote_mark) us2
                             in if body = [] \<or> length body = length us2 then None
                                else Some (concat body)))))))"

fun search_id :: "string list \<Rightarrow> string option" where
  "search_id [] = None"
| "search_id (u # us) = (case match_id (u # us) of Some t \<Rightarrow> Some t | None \<Rightarrow> search_id us)"

text \<open>\<open>x[:80]\<close> and \<open>repr\<close> of it: a text and a list can be cut, anything else raises.\<close>

definition not_subscriptable :: exn where
  "not_subscriptable = Exn ''TypeError'' ''object is not subscriptable''"

definition cut_repr :: "compact_env \<Rightarrow> json \<Rightarrow> exn + string" where
  "cut_repr ce j = (case j of
     JStr s \<Rightarrow> Inr (py_repr (utake 80 s))
   | JArr js \<Rightarrow> Inr (repr_json (ce_float ce) (JArr (take 80 js)))
   | _ \<Rightarrow> Inl not_subscriptable)"

definition arrow :: string where "arrow = bytes [226, 134, 146]"

definition or_key :: "dict \<Rightarrow> string \<Rightarrow> json option \<Rightarrow> json option" where
  "or_key d k other = (if otruthy (dget d k) then dget d k else other)"

definition format_trace_line ::
    "compact_env \<Rightarrow> string \<Rightarrow> dict \<Rightarrow> (result_text \<times> bool) option \<Rightarrow> exn + string" where
  "format_trace_line ce name input pair =
     (let res = (case pair of None \<Rightarrow> [] | Some (r, e) \<Rightarrow> text_of (ce_float ce) r);
          err = (case pair of None \<Rightarrow> False | Some (r, e) \<Rightarrow> e)
      in if name = ''dispatch_task''
         then (let tid = (case search_id (uchars res) of Some t \<Rightarrow> t | None \<Rightarrow> ''(unknown)'');
                   target = (case or_key input ''agent'' (or_key input ''persona'' None) of
                               None \<Rightarrow> ''?'' | Some j \<Rightarrow> str_of ce j)
               in map_sum id (\<lambda>goal. ''- dispatch_task '' @ arrow @ '' task_id='' @ tid @ '' (to '' @ target
                       @ '', goal='' @ goal @ '')'')
                    (cut_repr ce (case dget input ''goal'' of None \<Rightarrow> JStr [] | Some j \<Rightarrow> j)))
         else Inr (''- '' @ name @ ''('' @ format_args ce input @ '')'' @ (if err then '' [ERROR]'' else [])
                   @ '' '' @ arrow @ '' '' @ with_ellipsis 200 res))"

section \<open>Mail in and out\<close>

definition artifact :: "role \<Rightarrow> string \<Rightarrow> message" where
  "artifact r t = \<lparr>m_role = r, m_content = [BText t], m_artifact = True\<rparr>"

fun first_line :: "string \<Rightarrow> string" where
  "first_line [] = []"
| "first_line (c # cs) = (if [c] = newline then [] else c # first_line cs)"

text \<open>\<open>d.get(k) or ''''\<close>; the fields of a mail are texts or null.\<close>

definition text_or :: "dict \<Rightarrow> string \<Rightarrow> string" where
  "text_or d k = (case dget d k of Some (JStr s) \<Rightarrow> s | _ \<Rightarrow> [])"

definition get_or :: "dict \<Rightarrow> string \<Rightarrow> json \<Rightarrow> json" where
  "get_or d k j = (case dget d k of None \<Rightarrow> j | Some v \<Rightarrow> v)"

definition mail_header :: "compact_env \<Rightarrow> dict \<Rightarrow> dict \<Rightarrow> string" where
  "mail_header ce input p =
     (let i = get_or p ''id'' (get_or input ''msg_id'' (JStr ''?''));
          body = text_or p ''body''; title = text_or p ''title'';
          urgency = get_or p ''urgency'' (JStr [])
      in ''[Mail '' @ join '' '' (
           [''from '' @ str_of ce (get_or p ''sender'' (JStr ''?'')), ''msg #'' @ str_of ce i]
           @ (if truthy urgency then [''urgency='' @ str_of ce urgency] else [])
           @ (if otruthy (dget p ''parent_msg_id'') then [''reply_to=#'' @ str_of ce (the (dget p ''parent_msg_id''))] else [])
           @ (if strip title \<noteq> [] \<and> strip title \<noteq> strip (first_line (strip body))
              then [''title='' @ py_repr title] else [])) @ '']'')"

definition synth_mail_in ::
    "compact_env \<Rightarrow> dict \<Rightarrow> (result_text \<times> bool) option \<Rightarrow> message option" where
  "synth_mail_in ce input pair =
     (case pair of
        Some (r, False) \<Rightarrow>
          (case parse_dict (ce_loads ce) r of
             Some p \<Rightarrow> (if p = [] then None
                        else Some (artifact RUser (mail_header ce input p @ newline @ text_or p ''body'')))
           | None \<Rightarrow> None)
      | _ \<Rightarrow> None)"

definition sent_header :: "compact_env \<Rightarrow> dict \<Rightarrow> string" where
  "sent_header ce input =
     (let opt = (\<lambda>k label. if otruthy (dget input k) then [label @ str_of ce (the (dget input k))] else []);
          to = (case dget input ''to'' of
                  Some (JArr js) \<Rightarrow> join '', '' (map (str_of ce) js) | Some (JStr s) \<Rightarrow> s | _ \<Rightarrow> ''?'')
      in ''[Sent '' @ join '' '' ([''to '' @ to] @ opt ''reply_to'' ''reply_to=#''
           @ (if dget input ''urgency'' = Some (JStr ''normal'') then [] else opt ''urgency'' ''urgency='')
           @ (if otruthy (dget input ''deliver_in'') then opt ''deliver_in'' ''deliver_in=''
              else opt ''deliver_at'' ''deliver_at='')
           @ opt ''recur_every'' ''recur_every='') @ '']'')"

definition synth_mail_out :: "compact_env \<Rightarrow> dict \<Rightarrow> message option" where
  "synth_mail_out ce input =
     (case dget input ''body'' of
        Some (JStr body) \<Rightarrow> Some (artifact RAssistant (sent_header ce input @ newline @ body))
      | _ \<Rightarrow> None)"

section \<open>The history of the elided turns\<close>

text \<open>\<open>results_by_id\<close>: the last result written for an id; an empty id is not indexed.\<close>

definition results_by_id :: "message list \<Rightarrow> string \<Rightarrow> (result_text \<times> bool) option" where
  "results_by_id ms =
     map_of (rev (List.map_filter (\<lambda>b. case b of
                BToolResult i r e \<Rightarrow> (if i = [] then None else Some (i, (r, e))) | _ \<Rightarrow> None)
              (concat (map m_content ms))))"

type_synonym history = "message list \<times> string list"

definition fold_use ::
    "compact_env \<Rightarrow> (string \<Rightarrow> (result_text \<times> bool) option) \<Rightarrow> string \<times> string \<times> dict \<Rightarrow> history \<Rightarrow> exn + history" where
  "fold_use ce results u h =
     (case u of (i, name, input) \<Rightarrow> (case h of (syn, trace) \<Rightarrow>
       (case tool_policy name of
          PreserveIn \<Rightarrow>
            (case synth_mail_in ce input (results i) of
               Some m \<Rightarrow> Inr (syn @ [m], trace)
             | None \<Rightarrow> Inr (syn, trace @ [''- '' @ name @ ''('' @ format_args ce input @ '') '' @ arrow
                                         @ '' (result missing or unparseable)'']))
        | PreserveOut \<Rightarrow>
            (case synth_mail_out ce input of Some m \<Rightarrow> Inr (syn @ [m], trace) | None \<Rightarrow> Inr (syn, trace))
        | Drop \<Rightarrow> Inr (syn, trace)
        | Trace \<Rightarrow> map_sum id (\<lambda>l. (syn, trace @ [l])) (format_trace_line ce name input (results i)))))"

fun fold_uses ::
    "compact_env \<Rightarrow> (string \<Rightarrow> (result_text \<times> bool) option) \<Rightarrow> (string \<times> string \<times> dict) list \<Rightarrow> history \<Rightarrow> exn + history" where
  "fold_uses ce results [] h = Inr h"
| "fold_uses ce results (u # us) h = ebind (fold_use ce results u h) (fold_uses ce results us)"

definition tool_calls_of :: "message list \<Rightarrow> (string \<times> string \<times> dict) list" where
  "tool_calls_of ms = List.map_filter (\<lambda>b. case b of BToolUse i n d \<Rightarrow> Some (i, n, d) | _ \<Rightarrow> None)
     (concat (map m_content (filter (\<lambda>m. m_role m = RAssistant) ms)))"

definition extract_synthetic_history :: "compact_env \<Rightarrow> message list \<Rightarrow> exn + history" where
  "extract_synthetic_history ce ms = fold_uses ce (results_by_id ms) (tool_calls_of ms) ([], [])"

section \<open>The summary\<close>

fun summary_pieces :: "stream_event list \<Rightarrow> string list \<times> bool" where
  "summary_pieces [] = ([], False)"
| "summary_pieces (e # es) = (case e of
     TurnComplete r \<Rightarrow> ([], True)
   | ContentDelta t \<Rightarrow> (case summary_pieces es of (ts, fin) \<Rightarrow> (t # ts, fin))
   | _ \<Rightarrow> summary_pieces es)"

text \<open>An exception before the turn is complete gives the empty text.\<close>

definition call_for_summary :: "compact_env \<Rightarrow> string \<Rightarrow> string" where
  "call_for_summary ce prompt =
     (case ce_summary ce prompt of (es, e) \<Rightarrow> (case summary_pieces es of (ts, fin) \<Rightarrow>
        (if \<not> fin \<and> e \<noteq> None then [] else strip (concat ts))))"

definition transcript_ref :: "string option \<Rightarrow> string" where
  "transcript_ref wid = (case present wid of None \<Rightarrow> [] | Some w \<Rightarrow> '' Full transcript: wakeup='' @ w @ ''.'')"

definition summary_prompt :: "string list \<Rightarrow> string" where
  "summary_prompt trace =
     ''You are producing a compaction summary for an ongoing agent task.'' @ newline @ newline
     @ ''Below is the tool trace from elided turns (mail in/out is NOT in this list '' @ bytes [226, 128, 148]
     @ '' that's already preserved verbatim in the conversation). Write a concise paragraph (<200 ''
     @ ''words) capturing:'' @ newline @ ''  - key findings or facts learned'' @ newline
     @ ''  - files written / artifacts produced'' @ newline
     @ ''  - task_ids dispatched (quote them VERBATIM)'' @ newline
     @ ''  - open / pending items the agent committed to'' @ newline @ newline
     @ ''Skip restating tool calls verbatim. Skip narrating chronology. Output is plain prose ''
     @ bytes [226, 128, 148] @ '' no markdown headers.'' @ newline @ newline @ ''Tool trace:'' @ newline
     @ join newline trace"

definition make_work_summary_msg ::
    "compact_env \<Rightarrow> string list \<Rightarrow> string option \<Rightarrow> message \<times> bool" where
  "make_work_summary_msg ce trace wid =
     (if trace = []
      then (artifact RUser (''[Compact summary of prior turns '' @ bytes [226, 128, 148]
              @ '' no substantive tool work to summarize between the mail messages above.''
              @ transcript_ref wid @ '']''), False)
      else (let text = call_for_summary ce (summary_prompt trace);
                degraded = (text = []);
                body = (if degraded then ''Tool actions during elided turns:'' @ newline @ join newline (take 40 trace)
                        else text)
            in (artifact RUser (''[Compact summary of prior turns.'' @ transcript_ref wid @ '']''
                  @ newline @ newline @ body), degraded)))"

section \<open>The compaction\<close>

record compaction_outcome =
  co_messages :: "message list"
  co_degraded :: bool

definition compact_messages ::
    "compact_env \<Rightarrow> int \<Rightarrow> string option \<Rightarrow> message list \<Rightarrow> exn + compaction_outcome" where
  "compact_messages ce k wid ms =
     (let pivot = find_pivot ms k in
      if length ms < 3 \<or> pivot \<le> 1 then Inr \<lparr>co_messages = ms, co_degraded = False\<rparr>
      else (let elided = drop 1 (take pivot ms);
                carried = filter m_artifact elided;
                fresh = filter (\<lambda>m. \<not> m_artifact m) elided
            in map_sum id (\<lambda>(syn, trace).
                 (let seam = (if trace \<noteq> [] \<or> carried = [] then [make_work_summary_msg ce trace wid] else [])
                  in \<lparr>co_messages = take 1 ms @ carried @ syn @ map fst seam @ drop pivot ms,
                      co_degraded = list_ex snd seam\<rparr>))
               (extract_synthetic_history ce fresh)))"

end
