(* ===== verification/Loop_Turn.thy ===== *)
theory Loop_Turn
  imports Compact Health_Tracker
begin

text \<open>
  One turn of the agent loop (\<open>runtime/agent_loop.py\<close>): streaming from the first candidate that
  works, and dispatching the tool calls. What the loop talks to is a parameter (\<open>loop_env\<close>): the
  adapters, the streams, the tools, the operator's cancel flag. While the loop awaits one of them
  the other tasks of the process run; what they do to the loop's objects is a list of \<open>async\<close>
  steps: the watcher polls the database, the heartbeat asks for a stop, time passes.
  \<open>ls_sent\<close> records the requests; the code does not keep it.
\<close>

datatype async = Polled db | StopAsked string string | Clock rat

datatype item = Streamed stream_event | Meanwhile async

datatype tool_reply = Reply json | ReplyText string

type_synonym handler = "tool_ctx \<Rightarrow> dict \<Rightarrow> db \<Rightarrow> (exn + tool_reply) \<times> db \<times> async list"

record loop_env =
  lv_candidates :: "model_entry list"
  lv_adapter :: "model_entry \<Rightarrow> exn option"
  lv_stream :: "model_entry \<Rightarrow> message list \<Rightarrow> db \<Rightarrow> item list \<times> exn option"
  lv_compact :: "model_entry \<Rightarrow> db \<Rightarrow> compact_env"
  lv_registry :: "(string \<times> handler) list option"
  lv_ctx :: "tool_ctx option"
  lv_allowed :: "string list"
  lv_max_turns :: nat
  lv_max_tokens :: int
  lv_threshold :: rat
  lv_keep :: int
  lv_repeat :: int
  lv_retries :: nat
  lv_cancel :: "(db \<Rightarrow> string option) option"
  lv_loads :: "string \<Rightarrow> json option"
  lv_float :: "rat \<Rightarrow> string"

datatype fallback =
    CircuitSkip string
  | AdapterFailed string exn
  | PreStream string exn
  | MidStream string exn nat

record loop_state =
  ls_db :: db
  ls_watch :: "watcher option"
  ls_kill :: "kill_switch option"
  ls_health :: "tracker option"
  ls_now :: rat
  ls_stop :: "(string \<times> string) option"
  ls_fallbacks :: "fallback list"
  ls_warned :: bool
  ls_sent :: "message list list"

section \<open>What happens meanwhile\<close>

text \<open>\<open>request_stop\<close>: the first request wins.\<close>

definition request_stop :: "string \<Rightarrow> string \<Rightarrow> loop_state \<Rightarrow> loop_state" where
  "request_stop target reason s =
     (if ls_stop s = None then s\<lparr>ls_stop := Some (target, reason)\<rparr> else s)"

fun meanwhile :: "async \<Rightarrow> loop_state \<Rightarrow> loop_state" where
  "meanwhile (Polled d) s = s\<lparr>ls_db := d, ls_watch := map_option (watcher_poll d) (ls_watch s)\<rparr>"
| "meanwhile (StopAsked t r) s = request_stop t r s"
| "meanwhile (Clock t) s = s\<lparr>ls_now := t\<rparr>"

definition signalled :: "loop_state \<Rightarrow> bool" where
  "signalled s \<longleftrightarrow> (case ls_watch s of None \<Rightarrow> False | Some w \<Rightarrow> mw_signal w)"

definition blocker_waiting :: "loop_state \<Rightarrow> bool" where
  "blocker_waiting s \<longleftrightarrow> (case ls_watch s of None \<Rightarrow> False | Some w \<Rightarrow> mw_signal w \<and> has_blocker_pending w)"

section \<open>Reading a stream\<close>

record turn =
  tn_text :: "string list"
  tn_uses :: "tool_use list"
  tn_stop :: "string option"
  tn_input :: int
  tn_output :: int
  tn_model :: string
  tn_interrupted :: bool
  tn_thinking :: "block list"

definition new_turn :: "string \<Rightarrow> turn" where
  "new_turn mid = \<lparr>tn_text = [], tn_uses = [], tn_stop = None, tn_input = 0, tn_output = 0,
     tn_model = mid, tn_interrupted = False, tn_thinking = []\<rparr>"

fun add_event :: "stream_event \<Rightarrow> turn \<Rightarrow> turn" where
  "add_event (ContentDelta t) n = n\<lparr>tn_text := tn_text n @ [t]\<rparr>"
| "add_event (ThinkingBlockComplete t sig) n = n\<lparr>tn_thinking := tn_thinking n @ [BThinking t sig]\<rparr>"
| "add_event (ToolUseComplete i name input) n =
     n\<lparr>tn_uses := tn_uses n @ [\<lparr>tu_id = i, tu_name = name, tu_input = input\<rparr>]\<rparr>"
| "add_event (Usage i out) n = n\<lparr>tn_input := i, tn_output := out\<rparr>"
| "add_event (TurnComplete r) n = n\<lparr>tn_stop := Some r\<rparr>"
| "add_event _ n = n"

text \<open>After each event, a waiting blocker ends the stream. The flag says that an event arrived.\<close>

fun consume :: "item list \<Rightarrow> bool \<Rightarrow> turn \<Rightarrow> loop_state \<Rightarrow> bool \<times> turn \<times> loop_state" where
  "consume [] any n s = (any, n, s)"
| "consume (Meanwhile a # xs) any n s = consume xs any n (meanwhile a s)"
| "consume (Streamed e # xs) any n s =
     (if blocker_waiting s then (True, (add_event e n)\<lparr>tn_interrupted := True\<rparr>, s)
      else consume xs True (add_event e n) s)"

section \<open>Trying the candidates\<close>

definition all_failed :: exn where
  "all_failed = Exn ''AllCandidatesFailedError'' ''All model candidates failed before emitting any output''"

definition log_fallback :: "fallback \<Rightarrow> loop_state \<Rightarrow> loop_state" where
  "log_fallback f s = s\<lparr>ls_fallbacks := ls_fallbacks s @ [f]\<rparr>"

definition on_health :: "(tracker \<Rightarrow> tracker) \<Rightarrow> loop_state \<Rightarrow> loop_state" where
  "on_health f s = s\<lparr>ls_health := map_option f (ls_health s)\<rparr>"

definition check_circuit :: "string \<Rightarrow> loop_state \<Rightarrow> bool \<times> loop_state" where
  "check_circuit mid s =
     (case ls_health s of
        None \<Rightarrow> (True, s)
      | Some h \<Rightarrow> (case is_available (ls_now s) mid h of (ok, h') \<Rightarrow> (ok, s\<lparr>ls_health := Some h'\<rparr>)))"

definition request_for :: "model_entry \<Rightarrow> message list \<Rightarrow> message list" where
  "request_for c ms = (if ''vision'' \<in> set (me_capabilities c) then ms else strip_vision_blocks ms)"

definition stream_from ::
    "loop_env \<Rightarrow> model_entry \<Rightarrow> message list \<Rightarrow> loop_state \<Rightarrow> exn option \<times> bool \<times> turn \<times> loop_state" where
  "stream_from env c ms s =
     (let req = request_for c ms in
      case lv_stream env c req (ls_db s) of (xs, e) \<Rightarrow>
      (case consume xs False (new_turn (me_id c)) (s\<lparr>ls_sent := ls_sent s @ [req]\<rparr>) of (any, n, s') \<Rightarrow>
         (if tn_interrupted n then None else e, any, n, s')))"

text \<open>\<open>except Exception\<close>: a simulated kill passes through.\<close>

definition is_kill :: "exn \<Rightarrow> bool" where
  "is_kill e \<longleftrightarrow> (case e of SimulatedKill p \<Rightarrow> True | Exn t m \<Rightarrow> False)"

fun try_candidates ::
    "loop_env \<Rightarrow> message list \<Rightarrow> nat \<Rightarrow> model_entry list \<Rightarrow> (loop_state, turn) exec" where
  "try_candidates env ms attempts [] s = (Inl all_failed, s)"
| "try_candidates env ms attempts (c # cs) s =
     (case check_circuit (me_id c) s of (ok, s1) \<Rightarrow>
      if \<not> ok then try_candidates env ms attempts cs (log_fallback (CircuitSkip (me_id c)) s1)
      else (case lv_adapter env c of
        Some e \<Rightarrow>
          (if is_kill e then (Inl e, s1)
           else try_candidates env ms attempts cs (log_fallback (AdapterFailed (me_id c) e) s1))
      | None \<Rightarrow>
          (case stream_from env c ms s1 of (err, any, n, s2) \<Rightarrow>
           (case err of
              None \<Rightarrow> (Inr n, on_health (mark_success (ls_now s2) (me_id c)) s2)
            | Some e \<Rightarrow>
                (if is_kill e then (Inl e, s2)
                 else let s3 = on_health (mark_failure (ls_now s2) (me_id c)) s2 in
                   if \<not> any then try_candidates env ms attempts cs (log_fallback (PreStream (me_id c) e) s3)
                   else let s4 = log_fallback (MidStream (me_id c) e (attempts + 1)) s3 in
                     if lv_retries env < attempts + 1 then (Inl e, s4)
                     else try_candidates env ms (attempts + 1) cs s4)))))"

definition run_one_turn_with_fallback :: "loop_env \<Rightarrow> message list \<Rightarrow> (loop_state, turn) exec" where
  "run_one_turn_with_fallback env ms = try_candidates env ms 0 (lv_candidates env)"

section \<open>Dispatching a tool call\<close>

definition is_truncated_tool_args :: "dict \<Rightarrow> bool" where
  "is_truncated_tool_args input \<longleftrightarrow>
     length input = 1 \<and> (case dget input ''_raw'' of Some (JStr s) \<Rightarrow> True | _ \<Rightarrow> False)"

definition quoted :: "string \<Rightarrow> string" where
  "quoted name = [CHR 0x27] @ name @ [CHR 0x27]"

definition diagnosis :: "int \<Rightarrow> string option \<Rightarrow> string" where
  "diagnosis budget stop =
     (if stop = Some ''max_tokens''
      then ''this turn hit its output-token budget (max_tokens='' @ str_of_int budget
     @ '') while emitting them, so the argument stream was cut off mid-emission''
      else ''they arrived truncated or malformed from the provider (turn stop_reason=''
     @ (case stop of None \<Rightarrow> ''None'' | Some r \<Rightarrow> py_repr r) @ '')'')"

definition truncated_text :: "int \<Rightarrow> string \<Rightarrow> string \<Rightarrow> string option \<Rightarrow> string" where
  "truncated_text budget name raw stop =
     ''Tool '' @ quoted name @ '' was called with malformed arguments '' @ bytes [226, 128, 148]
     @ '' the JSON could not be parsed: '' @ diagnosis budget stop @ ''. Received '' @ digits_of (ulen raw)
     @ '' chars of an incomplete payload. Do NOT retry the same call '' @ bytes [226, 128, 148]
     @ '' it will be cut at the same point again. Split the large payload across multiple smaller ''
     @ ''calls (e.g. a large literal such as file content: write the first part, then append the ''
     @ ''rest in later calls), omit verbose inline content, or skip this tool for now and continue ''
     @ ''the task differently. First bytes received: '' @ py_repr (utake 200 raw) @ bytes [226, 128, 166]"

definition suspect_text :: "int \<Rightarrow> string \<Rightarrow> string" where
  "suspect_text budget name =
     ''Tool '' @ quoted name @ '' was NOT executed. This turn hit its output-token budget (max_tokens=''
     @ str_of_int budget @ '') while or just after emitting this call '' @ bytes [226, 128, 148]
     @ '' a truncated emission can be silently 'repaired' into a shorter, valid-looking payload ''
     @ ''(e.g. a path cut mid-string), so the final call of a truncated turn is never run. If this ''
     @ ''call was complete as you intended it, re-issue it EXACTLY as before and it will run ''
     @ ''normally. If you were emitting a large payload, split it across multiple smaller calls.''"

text \<open>The sentinel's text.\<close>

definition raw_args :: "dict \<Rightarrow> string" where
  "raw_args input = (case dget input ''_raw'' of Some (JStr s) \<Rightarrow> s | _ \<Rightarrow> [])"

definition exn_text :: "exn \<Rightarrow> string" where
  "exn_text e = (case e of Exn t m \<Rightarrow> m | SimulatedKill p \<Rightarrow> p)"

definition exn_class :: "exn \<Rightarrow> string" where
  "exn_class e = (case e of Exn t m \<Rightarrow> t | SimulatedKill p \<Rightarrow> ''SimulatedKill'')"

type_synonym tool_outcome = "result_text \<times> bool \<times> block list"

definition refused :: "string \<Rightarrow> tool_outcome" where
  "refused t = (Text t, True, [])"

text \<open>The calls that never reach a handler.\<close>

definition refusal :: "loop_env \<Rightarrow> tool_use \<Rightarrow> string option \<Rightarrow> bool \<Rightarrow> string option" where
  "refusal env tu stop suspect =
     (case (lv_registry env, lv_ctx env) of
        (Some reg, Some c) \<Rightarrow>
          (if tu_name tu \<notin> set (lv_allowed env)
           then Some (''Tool '' @ quoted (tu_name tu) @ '' is not in this persona's allowlist: ''
                     @ repr_json (lv_float env) (JArr (map JStr (lv_allowed env))) @ ''.'')
           else if map_of reg (tu_name tu) = None then Some (''Unknown tool '' @ quoted (tu_name tu) @ ''.'')
           else if is_truncated_tool_args (tu_input tu) then Some (truncated_text (lv_max_tokens env) (tu_name tu) (raw_args (tu_input tu)) stop)
           else if suspect then Some (suspect_text (lv_max_tokens env) (tu_name tu)) else None)
      | _ \<Rightarrow> Some ''Tool dispatch not configured for this agent loop.'')"

text \<open>\<open>setdefault\<close>: an id the model put into the arguments is kept.\<close>

definition with_use_id :: "tool_use \<Rightarrow> dict" where
  "with_use_id tu =
     (if dget (tu_input tu) ''_tool_use_id'' = None
      then dset ''_tool_use_id'' (JStr (tu_id tu)) (tu_input tu) else tu_input tu)"

definition outcome_of_reply :: "tool_reply \<Rightarrow> tool_outcome" where
  "outcome_of_reply r =
     (case r of ReplyText t \<Rightarrow> (Text t, False, [])
      | Reply j \<Rightarrow> (case take_view_blocks j of (view, j') \<Rightarrow> (Dumped j', False, view)))"

definition outcome_of_error :: "string \<Rightarrow> exn \<Rightarrow> tool_outcome" where
  "outcome_of_error name e =
     (if exn_class e = ''ToolError'' then refused (exn_text e)
      else refused (''Internal error executing tool '' @ quoted name @ '': '' @ exn_class e @ '': '' @ exn_text e))"

definition dispatch_tool ::
    "loop_env \<Rightarrow> string option \<Rightarrow> bool \<Rightarrow> tool_use \<Rightarrow> (loop_state, tool_outcome) exec" where
  "dispatch_tool env stop suspect tu s =
     (case refusal env tu stop suspect of
        Some t \<Rightarrow> (Inr (refused t), s)
      | None \<Rightarrow>
          (case the (map_of (the (lv_registry env)) (tu_name tu)) (the (lv_ctx env)) (with_use_id tu) (ls_db s) of
             (r, d, during) \<Rightarrow>
               (let s' = fold meanwhile during (s\<lparr>ls_db := d\<rparr>)
                in case r of
                     Inr rep \<Rightarrow> (Inr (outcome_of_reply rep), s')
                   | Inl e \<Rightarrow> (if is_kill e then (Inl e, s')
                              else (Inr (outcome_of_error (tu_name tu) e), s')))))"

end
