(* ===== verification/Agent_Loop.thy ===== *)
theory Agent_Loop
  imports Loop_Turn "HOL-Library.Multiset"
begin

text \<open>
  \<open>AgentLoop.run\<close> (\<open>runtime/agent_loop.py\<close>): the turns of a wakeup, the nudges, the dead-loop
  guard, the compaction trigger, the status at the end and the mail of a silent close. The local
  variables of \<open>run\<close> are a record. The measured wall time is an argument; of the transcript
  only the recorded result of each call is kept (\<open>rv_results\<close>); the warning of a suspected phantom
  delegation, which only logs, is left out.
\<close>

section \<open>The state of a run\<close>

record interrupt =
  it_where :: string
  it_mail :: "mail_message list"

record run_vars =
  rv_messages :: "message list"
  rv_calls :: "tool_use list"
  rv_outcomes :: "bool list"
  rv_results :: "(tool_use \<times> tool_outcome) list"
  rv_input :: int
  rv_output :: int
  rv_text :: string
  rv_stop_reason :: "string option"
  rv_model :: "string option"
  rv_turns :: nat
  rv_peak :: int
  rv_compactions :: nat
  rv_degraded :: nat
  rv_interrupts :: "interrupt list"
  rv_acted :: bool
  rv_nudges :: nat
  rv_askers :: "string list"
  rv_fingerprint :: "(string \<times> json) multiset option"
  rv_repeats :: nat
  rv_repeat_nudged :: bool

definition start_vars :: "message list \<Rightarrow> run_vars" where
  "start_vars ms =
     \<lparr>rv_messages = ms, rv_calls = [], rv_outcomes = [], rv_results = [], rv_input = 0, rv_output = 0, rv_text = [],
      rv_stop_reason = None, rv_model = None, rv_turns = 0, rv_peak = 0, rv_compactions = 0,
      rv_degraded = 0, rv_interrupts = [], rv_acted = False, rv_nudges = 0, rv_askers = [],
      rv_fingerprint = None, rv_repeats = 0, rv_repeat_nudged = False\<rparr>"

text \<open>A step of the turn goes on with the next turn or leaves the loop.\<close>

datatype flow = Next run_vars | Leave run_vars

definition user_facing_tools :: "string list" where
  "user_facing_tools = [''mailbox_send'', ''mailbox_react'', ''dispatch_task'', ''fan_in_open'',
     ''report_progress'', ''report_side_effect'', ''cancel_scheduled_mail'', ''archive_agent'',
     ''create_agent'', ''mark_read'']"

definition max_silent_turn_nudges :: nat where "max_silent_turn_nudges = 2"
definition max_compactions :: nat where "max_compactions = 3"

definition silent_turn_nudge :: string where
  "silent_turn_nudge =
     ''You gathered context (mailbox_read / read_memory / list_* / mailbox_get_message / ''
     @ bytes [226, 128, 166]
     @ '') and produced a response with no tool calls. The wakeup will close on the next no-tool ''
     @ ''response, and the senders of mail you read haven't heard back yet.'' @ newline @ newline
     @ ''If you have the answer or a concrete next step, `mailbox_send` it now. If you need to do ''
     @ ''more work first (shell_exec / python_exec / dispatch_task), do that '' @ bytes [226, 128, 148]
     @ '' `mailbox_send` doesn't yield the wakeup, so the natural flow is research '' @ bytes [226, 134, 146]
     @ '' reply with result '' @ bytes [226, 134, 146] @ '' stop.'' @ newline @ newline
     @ ''Avoid sending a vague IOU ('' @ quote_mark @ ''I'll look into X'' @ quote_mark
     @ '') with no follow-up tools after it '' @ bytes [226, 128, 148]
     @ '' that's the ack-and-stop pattern. If you genuinely need to defer, `dispatch_task` (with a ''
     @ ''real task_id) or future-mail yourself (`deliver_in='' @ bytes [226, 128, 166]
     @ ''`), and tell the asker so.''"

definition loop_repeat_nudge :: string where
  "loop_repeat_nudge =
     ''You have called the SAME tool with the SAME arguments several times in a row this wakeup. ''
     @ ''Within one wakeup the world doesn't change between identical calls '' @ bytes [226, 128, 148]
     @ '' repeating it won't produce a different result.'' @ newline @ newline
     @ ''Change approach: use a different tool or different arguments, act on what you already have ''
     @ ''(e.g. `mailbox_send` your conclusion), or '' @ bytes [226, 128, 148]
     @ '' if you're genuinely blocked '' @ bytes [226, 128, 148]
     @ '' stop calling tools to end the wakeup and escalate via mail. If you repeat the identical ''
     @ ''call again, the wakeup will be stopped for re-dispatch.''"

definition say :: "block list \<Rightarrow> run_vars \<Rightarrow> run_vars" where
  "say bs v = v\<lparr>rv_messages := rv_messages v @ [user_msg bs]\<rparr>"

section \<open>Helpers of the loop\<close>

text \<open>\<open>_inject_blocker_notice\<close>.\<close>

definition inject_notice :: "string \<Rightarrow> run_vars \<Rightarrow> (loop_state, run_vars) exec" where
  "inject_notice place v s =
     (case ls_watch s of
        None \<Rightarrow> (Inl (Exn ''AssertionError'' []), s)
      | Some w \<Rightarrow> (case acknowledge w of (ms, w') \<Rightarrow>
          (Inr (say [BText (format_mail_notice ms)] v
                  \<lparr>rv_interrupts := rv_interrupts v @ [\<lparr>it_where = place, it_mail = ms\<rparr>]\<rparr>),
           s\<lparr>ls_watch := Some w'\<rparr>)))"

definition assistant_blocks :: "block list \<Rightarrow> string \<Rightarrow> tool_use list \<Rightarrow> block list" where
  "assistant_blocks thinking text uses =
     thinking @ (if text = [] then [] else [BText text]) @ map use_block uses"

text \<open>\<open>_append_assistant_message\<close> skips an empty message.\<close>

definition append_assistant :: "turn \<Rightarrow> run_vars \<Rightarrow> run_vars" where
  "append_assistant n v =
     (let bs = assistant_blocks (tn_thinking n) (concat (tn_text n)) (tn_uses n)
      in if bs = [] then v else v\<lparr>rv_messages := rv_messages v @ [assistant_msg bs]\<rparr>)"

definition entry_senders :: "json list \<Rightarrow> string list" where
  "entry_senders ms = List.map_filter (\<lambda>m. case m of
     JObj d \<Rightarrow> (case dget d ''sender'' of Some (JStr (c # cs)) \<Rightarrow> Some (c # cs) | _ \<Rightarrow> None)
   | _ \<Rightarrow> None) ms"

definition askers_from_mailbox_read :: "(string \<Rightarrow> json option) \<Rightarrow> result_text \<Rightarrow> string list" where
  "askers_from_mailbox_read loads r =
     (case parse_dict loads r of
        None \<Rightarrow> []
      | Some d \<Rightarrow>
          (if get_or d ''box'' (JStr ''inbox'') \<noteq> JStr ''inbox'' \<or> \<not> otruthy (dget d ''auto_marked_read'')
           then []
           else (case dget d ''messages'' of Some (JArr ms) \<Rightarrow> entry_senders ms | _ \<Rightarrow> [])))"

definition add_all :: "string list \<Rightarrow> string list \<Rightarrow> string list" where
  "add_all xs ys = dedupe (ys @ xs)"

text \<open>Which tool calls of a turn may have been cut: the last one of a turn that ran out of
  output tokens.\<close>

definition suspect_of :: "string option \<Rightarrow> tool_use list \<Rightarrow> bool" where
  "suspect_of stop later \<longleftrightarrow> stop = Some ''max_tokens'' \<and> later = []"

definition kill_point :: "bool \<Rightarrow> (loop_state, unit) exec" where
  "kill_point armed s =
     (case ls_kill s of
        None \<Rightarrow> (Inr (), s)
      | Some k \<Rightarrow> (if \<not> armed then (Inr (), s)
          else (case kill_check ''mid_action_after_tool'' k of (r, k') \<Rightarrow> (r, s\<lparr>ls_kill := Some k'\<rparr>))))"

definition note_call :: "(string \<Rightarrow> json option) \<Rightarrow> tool_use \<Rightarrow> tool_outcome \<Rightarrow> run_vars \<Rightarrow> run_vars" where
  "note_call loads tu r v =
     (case r of (text, err, view) \<Rightarrow>
        v\<lparr>rv_outcomes := rv_outcomes v @ [err], rv_results := rv_results v @ [(tu, r)],
          rv_askers := (if tu_name tu = ''mailbox_read'' \<and> \<not> err
                        then add_all (askers_from_mailbox_read loads text) (rv_askers v) else rv_askers v),
          rv_acted := rv_acted v \<or> tu_name tu \<in> set user_facing_tools\<rparr>)"

definition result_blocks :: "tool_use \<Rightarrow> tool_outcome \<Rightarrow> block list" where
  "result_blocks tu r = (case r of (text, err, view) \<Rightarrow> BToolResult (tu_id tu) text err # view)"

text \<open>Dispatching the calls of a turn, in order; the interrupt path neither suspects the last
  call nor passes the kill point.\<close>

fun dispatch_all ::
    "loop_env \<Rightarrow> string option \<Rightarrow> bool \<Rightarrow> tool_use list \<Rightarrow> run_vars \<Rightarrow> (loop_state, block list \<times> run_vars) exec" where
  "dispatch_all env stop main [] v = ret ([], v)"
| "dispatch_all env stop main (tu # tus) v =
     bnd (dispatch_tool env stop (main \<and> suspect_of stop tus) tu) (\<lambda>r.
     seqn (kill_point main)
       (bnd (dispatch_all env stop main tus (note_call (lv_loads env) tu r v)) (\<lambda>(bs, v').
          ret (result_blocks tu r @ bs, v'))))"

definition dispatch_calls ::
    "loop_env \<Rightarrow> bool \<Rightarrow> turn \<Rightarrow> run_vars \<Rightarrow> (loop_state, run_vars) exec" where
  "dispatch_calls env main n v =
     bnd (dispatch_all env (tn_stop n) main (tn_uses n) v) (\<lambda>(bs, v'). ret (say bs v'))"

section \<open>The guards at the end of a turn\<close>

text \<open>\<open>json.dumps(..., sort_keys=True)\<close> of a call, as the value with sorted keys.\<close>

fun sorted_json :: "json \<Rightarrow> json"
  and sorted_list :: "json list \<Rightarrow> json list"
  and sorted_items :: "(string \<times> json) list \<Rightarrow> (string \<times> json) list" where
  "sorted_json (JArr js) = JArr (sorted_list js)"
| "sorted_json (JObj d) = JObj (sort_key fst (sorted_items d))"
| "sorted_json j = j"
| "sorted_list [] = []"
| "sorted_list (j # js) = sorted_json j # sorted_list js"
| "sorted_items [] = []"
| "sorted_items ((k, v) # d) = (k, sorted_json v) # sorted_items d"

definition call_print :: "tool_use \<Rightarrow> string \<times> json" where
  "call_print tu = (tu_name tu,
     if is_truncated_tool_args (tu_input tu) then JStr ''<truncated-args>'' else sorted_json (JObj (tu_input tu)))"

definition fingerprint :: "tool_use list \<Rightarrow> (string \<times> json) multiset" where
  "fingerprint tus = mset (map call_print tus)"

definition count_repeat :: "tool_use list \<Rightarrow> run_vars \<Rightarrow> run_vars" where
  "count_repeat tus v =
     (if rv_fingerprint v = Some (fingerprint tus) then v\<lparr>rv_repeats := rv_repeats v + 1\<rparr>
      else v\<lparr>rv_fingerprint := Some (fingerprint tus), rv_repeats := 1, rv_repeat_nudged := False\<rparr>)"

definition dead_loop_stop :: "nat \<Rightarrow> loop_state \<Rightarrow> loop_state" where
  "dead_loop_stop n s =
     s\<lparr>ls_stop := Some (''needs_continuation'', ''dead_loop: '' @ digits_of n @ ''x identical tool call'')\<rparr>"

definition dead_loop_guard :: "loop_env \<Rightarrow> tool_use list \<Rightarrow> run_vars \<Rightarrow> (loop_state, flow) exec" where
  "dead_loop_guard env tus v s =
     (if lv_repeat env \<le> 0 \<or> tus = [] then (Inr (Next v), s)
      else let v1 = count_repeat tus v in
        if int (rv_repeats v1) < lv_repeat env then (Inr (Next v1), s)
        else if \<not> rv_repeat_nudged v1
        then (Inr (Next (say [BText loop_repeat_nudge] v1\<lparr>rv_repeat_nudged := True\<rparr>)), s)
        else (Inr (Leave v1), dead_loop_stop (rv_repeats v1) s))"

definition wants_nudge :: "turn \<Rightarrow> run_vars \<Rightarrow> bool" where
  "wants_nudge n v \<longleftrightarrow> tn_stop n = Some ''end_turn'' \<and> rv_calls v \<noteq> [] \<and> \<not> rv_acted v
     \<and> rv_nudges v < max_silent_turn_nudges"

definition nudge :: "run_vars \<Rightarrow> run_vars" where
  "nudge v = say [BText silent_turn_nudge] v\<lparr>rv_nudges := rv_nudges v + 1\<rparr>"

definition context_window_for :: "loop_env \<Rightarrow> string \<Rightarrow> int option" where
  "context_window_for env mid =
     (if mid = [] then None
      else (case List.find (\<lambda>c. me_id c = mid) (lv_candidates env) of
          None \<Rightarrow> None | Some c \<Rightarrow> me_context_window c))"

definition over_threshold :: "loop_env \<Rightarrow> turn \<Rightarrow> bool" where
  "over_threshold env n \<longleftrightarrow> (case context_window_for env (tn_model n) of
     None \<Rightarrow> False
   | Some w \<Rightarrow> w \<noteq> 0 \<and> tn_input n \<noteq> 0 \<and> lv_threshold env * of_int w \<le> of_int (tn_input n))"

definition candidate_of :: "loop_env \<Rightarrow> string \<Rightarrow> model_entry" where
  "candidate_of env mid =
     (case List.find (\<lambda>c. me_id c = mid) (lv_candidates env) of
        Some c \<Rightarrow> c | None \<Rightarrow> hd (lv_candidates env))"

definition thrashed :: "run_vars \<Rightarrow> run_vars" where
  "thrashed v = v\<lparr>rv_stop_reason := Some ''end_turn'', rv_acted := False, rv_nudges := max_silent_turn_nudges\<rparr>"

definition compact_now :: "loop_env \<Rightarrow> turn \<Rightarrow> run_vars \<Rightarrow> (loop_state, flow) exec" where
  "compact_now env n v s =
     (if \<not> over_threshold env n then (Inr (Next v), s)
      else if max_compactions \<le> rv_compactions v then (Inr (Leave (thrashed v)), s)
      else let c = candidate_of env (tn_model n) in
        (case lv_adapter env c of
           Some e \<Rightarrow> (Inl e, s)
         | None \<Rightarrow>
             (case compact_messages (lv_compact env c (ls_db s)) (lv_keep env)
                     (map_option tc_wakeup (lv_ctx env)) (rv_messages v) of
                Inl e \<Rightarrow> (if is_kill e then (Inl e, s) else (Inr (Next v), s))
              | Inr out \<Rightarrow> (Inr (Next (v\<lparr>rv_messages := co_messages out,
                   rv_compactions := rv_compactions v + 1,
                   rv_degraded := rv_degraded v + (if co_degraded out then 1 else 0)\<rparr>)), s))))"

section \<open>One turn\<close>

definition observe_cancel :: "loop_env \<Rightarrow> loop_state \<Rightarrow> loop_state" where
  "observe_cancel env s =
     (case lv_cancel env of
        Some q \<Rightarrow>
          (if ls_stop s \<noteq> None then s
           else (case q (ls_db s) of
               None \<Rightarrow> s
             | Some r \<Rightarrow> request_stop ''cancelled'' (if r = [] then ''operator cancel'' else r) s))
      | None \<Rightarrow> s)"

text \<open>The usage of a turn whose adapter reported none is estimated.\<close>

definition settle_usage :: "loop_env \<Rightarrow> string \<Rightarrow> message list \<Rightarrow> turn \<Rightarrow> loop_state \<Rightarrow> turn \<times> loop_state" where
  "settle_usage env sys ms n s =
     (let est = int (estimate_input_tokens (lv_float env) ms sys) in
      if tn_input n = 0 \<and> est \<noteq> 0 then (n\<lparr>tn_input := est\<rparr>, s\<lparr>ls_warned := True\<rparr>) else (n, s))"

definition record_turn :: "turn \<Rightarrow> run_vars \<Rightarrow> run_vars" where
  "record_turn n v =
     v\<lparr>rv_calls := rv_calls v @ tn_uses n, rv_text := concat (tn_text n), rv_stop_reason := tn_stop n,
       rv_input := rv_input v + tn_input n, rv_output := rv_output v + tn_output n,
       rv_model := Some (tn_model n),
       rv_peak := (if tn_input n \<noteq> 0 then max (rv_peak v) (tn_input n) else rv_peak v)\<rparr>"

definition notice_if_signalled :: "string \<Rightarrow> run_vars \<Rightarrow> (loop_state, run_vars) exec" where
  "notice_if_signalled place v s = (if signalled s then inject_notice place v s else (Inr v, s))"

definition interrupted_turn :: "loop_env \<Rightarrow> turn \<Rightarrow> run_vars \<Rightarrow> (loop_state, flow) exec" where
  "interrupted_turn env n v =
     bnd (if tn_uses n = [] then ret (append_assistant n v)
          else dispatch_calls env False n (append_assistant n v)) (\<lambda>v1.
     bnd (notice_if_signalled ''mid_stream'' v1) (\<lambda>v2. ret (Next v2)))"

definition final_turn :: "turn \<Rightarrow> run_vars \<Rightarrow> (loop_state, flow) exec" where
  "final_turn n v s =
     (if signalled s
      then bnd (inject_notice ''post_turn_before_break'' (append_assistant n v)) (\<lambda>v1. ret (Next v1)) s
      else if wants_nudge n v then (Inr (Next (nudge (append_assistant n v))), s)
      else (Inr (Leave v), s))"

definition then_next :: "(loop_state, flow) exec \<Rightarrow> (run_vars \<Rightarrow> (loop_state, flow) exec) \<Rightarrow> (loop_state, flow) exec" where
  "then_next m k = bnd m (\<lambda>r. case r of Leave v \<Rightarrow> ret (Leave v) | Next v \<Rightarrow> k v)"

definition tool_turn :: "loop_env \<Rightarrow> turn \<Rightarrow> run_vars \<Rightarrow> (loop_state, flow) exec" where
  "tool_turn env n v =
     bnd (dispatch_calls env True n (append_assistant n v)) (\<lambda>v1.
     then_next (dead_loop_guard env (tn_uses n) v1) (\<lambda>v2.
     compact_now env n (if wants_nudge n v2 then nudge v2 else v2)))"

definition react :: "loop_env \<Rightarrow> turn \<Rightarrow> run_vars \<Rightarrow> (loop_state, flow) exec" where
  "react env n v =
     (if tn_interrupted n then interrupted_turn env n v
      else if tn_uses n = [] then final_turn n v
      else tool_turn env n v)"

definition one_turn :: "loop_env \<Rightarrow> string \<Rightarrow> run_vars \<Rightarrow> (loop_state, flow) exec" where
  "one_turn env sys v0 =
     (let v = v0\<lparr>rv_turns := rv_turns v0 + 1\<rparr> in
      seqn (upd (observe_cancel env))
        (bnd (query ls_stop) (\<lambda>stop.
           if stop \<noteq> None then ret (Leave v)
           else bnd (notice_if_signalled ''pre_turn'' v) (\<lambda>v1.
                bnd (run_one_turn_with_fallback env (rv_messages v1)) (\<lambda>n0.
                bnd (step (settle_usage env sys (rv_messages v1) n0)) (\<lambda>n.
                react env n (record_turn n v1)))))))"

section \<open>The run\<close>

definition agent_loop_init :: "loop_env \<Rightarrow> exn + loop_env" where
  "agent_loop_init env =
     (if lv_candidates env = [] then Inl (value_error ''AgentLoop needs at least one model candidate'') else Inr env)"

text \<open>The loop over \<open>range(max_turns)\<close>; the flag says that it ran to its end.\<close>

fun run_turns :: "loop_env \<Rightarrow> string \<Rightarrow> nat \<Rightarrow> run_vars \<Rightarrow> (loop_state, bool \<times> run_vars) exec" where
  "run_turns env sys 0 v = ret (True, v)"
| "run_turns env sys (Suc k) v =
     bnd (one_turn env sys v) (\<lambda>r. case r of
       Leave v' \<Rightarrow> ret (False, v')
     | Next v' \<Rightarrow> run_turns env sys k v')"

definition is_silent_close :: "bool \<Rightarrow> run_vars \<Rightarrow> loop_state \<Rightarrow> bool" where
  "is_silent_close hit v s \<longleftrightarrow> rv_stop_reason v = Some ''end_turn'' \<and> max_silent_turn_nudges \<le> rv_nudges v
     \<and> \<not> rv_acted v \<and> rv_calls v \<noteq> [] \<and> \<not> hit \<and> ls_stop s = None"

definition final_status :: "bool \<Rightarrow> run_vars \<Rightarrow> loop_state \<Rightarrow> string" where
  "final_status hit v s =
     (case ls_stop s of
        Some (target, reason) \<Rightarrow> target
      | None \<Rightarrow>
          (if hit then ''needs_continuation''
           else if is_silent_close hit v s then ''silent_close''
           else if rv_stop_reason v = Some ''end_turn'' then ''completed'' else ''needs_continuation''))"

definition silent_key :: "tool_ctx \<Rightarrow> string \<Rightarrow> string" where
  "silent_key c asker = ''silent-close:'' @ tc_wakeup c @ '':'' @ asker"

definition tool_summary :: "tool_use list \<Rightarrow> string" where
  "tool_summary tus =
     (let names = map tu_name tus
      in join '', '' (map (\<lambda>n. n @ (if 1 < count_list names n then bytes [195, 151] @ digits_of (count_list names n) else []))
                      (sort (dedupe names))))"

definition last_text_lines :: "string \<Rightarrow> string list" where
  "last_text_lines t =
     (if t = [] then []
      else [[], ''Last assistant text (NOT delivered to anyone, shown here for debug):'',
            with_ellipsis 800 (strip t)])"

definition silent_body :: "tool_ctx \<Rightarrow> run_vars \<Rightarrow> string" where
  "silent_body c v = join newline (
     [bytes [226, 154, 160] @ '' [Lyre silent-close fallback '' @ bytes [226, 128, 148] @ '' system-generated]'', [],
      ''This wakeup ('' @ self_mailbox c @ '') read your mail but exhausted the silent-turn nudge budget without composing a reply.'',
      [], ''Tools called this wakeup ('' @ digits_of (length (rv_calls v)) @ '' total): '' @ tool_summary (rv_calls v)]
     @ last_text_lines (rv_text v)
     @ [[], ''Please re-ask if you still need an answer. Operator: check the wakeup transcript (id='' @ tc_wakeup c @ '') for root cause.''])"

definition silent_row :: "tool_ctx \<Rightarrow> run_vars \<Rightarrow> string \<Rightarrow> outbox_row" where
  "silent_row c v asker =
     new_outbox_row (Some (tc_task c)) (Some (tc_wakeup c)) KMailboxSend
       [(''recipient'', JStr asker), (''sender'', JStr (self_mailbox c)), (''urgency'', JStr ''high''),
        (''title'', JStr (''[silent-close] '' @ self_mailbox c @ '' couldn't compose a reply'')),
        (''body'', JStr (silent_body c v)), (''task_id'', JStr (tc_task c)),
        (''external_id'', JStr (silent_key c asker)), (''parent_msg_id'', JNull), (''broadcast_id'', JNull),
        (''recipients_all'', JNull),
        (''metadata'', JObj [(''silent_close'', JBool True), (''tool_call_count'', JInt (int (length (rv_calls v)))),
           (''wakeup_id'', JStr (tc_wakeup c))])]
       (silent_key c asker)"

definition clean_askers :: "tool_ctx \<Rightarrow> run_vars \<Rightarrow> string list" where
  "clean_askers c v = filter (\<lambda>a. a \<noteq> [] \<and> a \<noteq> self_mailbox c) (rv_askers v)"

definition emit_silent_close ::
    "loop_env \<Rightarrow> int \<Rightarrow> run_vars \<Rightarrow> (loop_state, unit) exec" where
  "emit_silent_close env now v s =
     (case lv_ctx env of
        None \<Rightarrow> (Inr (), s)
      | Some c \<Rightarrow>
          (if clean_askers c v = [] then (Inr (), s)
           else (case outbox_enqueue now (map (silent_row c v) (clean_askers c v)) (ls_db s) of
               (r, d) \<Rightarrow> (r, s\<lparr>ls_db := d\<rparr>))))"

definition result_of :: "int \<Rightarrow> bool \<Rightarrow> run_vars \<Rightarrow> loop_state \<Rightarrow> loop_result" where
  "result_of wall hit v s =
     \<lparr>lr_status = final_status hit v s, lr_text = rv_text v, lr_input_tokens = Some (rv_input v),
      lr_output_tokens = Some (rv_output v), lr_wall_clock_ms = wall, lr_tool_calls = int (length (rv_calls v)),
      lr_model = rv_model v, lr_context_peak = rv_peak v, lr_compactions = int (rv_compactions v),
      lr_degraded = int (rv_degraded v)\<rparr>"

definition fresh_state :: "loop_state \<Rightarrow> loop_state" where
  "fresh_state s = s\<lparr>ls_stop := None, ls_warned := False, ls_fallbacks := []\<rparr>"

definition run_loop ::
    "loop_env \<Rightarrow> int \<Rightarrow> int \<Rightarrow> string \<Rightarrow> message list \<Rightarrow> (loop_state, bool \<times> run_vars \<times> loop_result) exec" where
  "run_loop env now wall sys ms =
     seqn (upd fresh_state)
       (bnd (run_turns env sys (lv_max_turns env) (start_vars ms)) (\<lambda>(hit, v).
        bnd (query (\<lambda>s. is_silent_close hit v s)) (\<lambda>silent.
        seqn (run_if silent (emit_silent_close env now v))
          (bnd (query (result_of wall hit v)) (\<lambda>r. ret (hit, v, r))))))"

end
