(* ===== verification/Compact_Keeps.thy ===== *)
theory Compact_Keeps
  imports Compact
begin

text \<open>
  What a compaction keeps: the conversation stays one a provider accepts, the mail of the elided
  turns and the artifacts of earlier compactions survive as they are; and one way it fails for good.
\<close>

section \<open>The pivot\<close>

definition assistants :: "message list \<Rightarrow> nat" where
  "assistants ms = length (filter (\<lambda>m. m_role m = RAssistant) ms)"

lemma pivot_scan_cases:
  assumes "i \<le> length ms" "n < k" "n = int (assistants (drop i ms))"
  shows "(pivot_scan ms i k n = 1 \<and> int (assistants ms) < k)
    \<or> (pivot_scan ms i k n < i \<and> m_role (ms ! pivot_scan ms i k n) = RAssistant
       \<and> int (assistants (drop (pivot_scan ms i k n) ms)) = k)"
  using assms
proof (induction ms i k n rule: pivot_scan.induct)
  case (2 ms i k n)
  have d: "drop i ms = ms ! i # drop (Suc i) ms" using "2.prems"(1) by (simp add: Cons_nth_drop_Suc)
  show ?case
  proof (cases "m_role (ms ! i) = RAssistant")
    case True
    have n: "n + 1 = int (assistants (drop i ms))" using True "2.prems"(3) by (simp add: d assistants_def)
    show ?thesis
    proof (cases "n + 1 = k")
      case True
      then show ?thesis using n \<open>m_role (ms ! i) = RAssistant\<close> by simp
    next
      case False
      with "2.IH"(1) [OF True False] n "2.prems" True show ?thesis by auto
    qed
  next
    case False
    have "n = int (assistants (drop i ms))" using False "2.prems"(3) by (simp add: d assistants_def)
    with "2.IH"(2) [OF False] "2.prems" False show ?thesis by auto
  qed
qed simp

lemma find_pivot_cases:
  assumes "1 < find_pivot ms k"
  obtains (all) "k \<le> 0" "find_pivot ms k = length ms"
    | (turn) "0 < k" "find_pivot ms k < length ms" "m_role (ms ! find_pivot ms k) = RAssistant"
        "int (assistants (drop (find_pivot ms k) ms)) = k"
  using assms pivot_scan_cases [of "length ms" ms 0 k]
  by (auto simp: find_pivot_def assistants_def split: if_splits)

lemma find_pivot_all: "1 < find_pivot ms k \<Longrightarrow> find_pivot ms k \<le> length ms"
  by (rule find_pivot_cases) auto

text \<open>More messages move the pivot to the back.\<close>

lemma assistants_append: "assistants (xs @ ys) = assistants xs + assistants ys"
  by (simp add: assistants_def)

lemma assistants_drop: "m \<le> n \<Longrightarrow> assistants (drop n xs) \<le> assistants (drop m xs)"
proof -
  assume "m \<le> n"
  then have "drop m xs = take (n - m) (drop m xs) @ drop n xs"
    using append_take_drop_id [of "n - m" "drop m xs"] by (simp only: drop_drop) simp
  then show ?thesis by (metis assistants_append le_add2)
qed

lemma find_pivot_mono:
  assumes "1 < find_pivot ms k"
  shows "find_pivot ms k \<le> find_pivot (ms @ more_ms) k"
  using assms
proof (cases rule: find_pivot_cases)
  case all
  then show ?thesis by (simp add: find_pivot_def)
next
  case turn
  let ?p = "find_pivot ms k" and ?q = "find_pivot (ms @ more_ms) k"
  have ge: "k \<le> int (assistants (drop ?p (ms @ more_ms)))"
    using turn by (simp add: assistants_append)
  have scan: "(?q = 1 \<and> int (assistants (ms @ more_ms)) < k) \<or> (?q < length (ms @ more_ms)
      \<and> m_role ((ms @ more_ms) ! ?q) = RAssistant \<and> int (assistants (drop ?q (ms @ more_ms))) = k)"
    using pivot_scan_cases [of "length (ms @ more_ms)" "ms @ more_ms" 0 k] turn(1)
    by (simp add: find_pivot_def assistants_def)
  have "assistants (drop ?p (ms @ more_ms)) \<le> assistants (ms @ more_ms)"
    using assistants_drop [of 0 ?p "ms @ more_ms"] by simp
  with ge scan have q: "?q < length (ms @ more_ms)" "m_role ((ms @ more_ms) ! ?q) = RAssistant"
      "int (assistants (drop ?q (ms @ more_ms))) = k"
    by auto
  show ?thesis
  proof (rule ccontr)
    assume "\<not> ?p \<le> ?q"
    then have "?q < ?p" by simp
    let ?ms = "ms @ more_ms"
    have "drop ?q ?ms = ?ms ! ?q # drop (Suc ?q) ?ms" using q(1) by (simp only: Cons_nth_drop_Suc)
    moreover have "assistants (drop ?p ?ms) \<le> assistants (drop (Suc ?q) ?ms)"
      using \<open>?q < ?p\<close> by (intro assistants_drop) simp
    ultimately have "k < int (assistants (drop ?q ?ms))" using ge q(2) by (simp add: assistants_def)
    with q(3) show False by simp
  qed
qed

section \<open>What the folding yields\<close>

definition is_artifact :: "message \<Rightarrow> bool" where
  "is_artifact m \<longleftrightarrow> m_artifact m \<and> (\<exists>t. m_content m = [BText t])"

lemma artifact_is [simp]: "is_artifact (artifact r t)"
  by (simp add: is_artifact_def artifact_def)

lemma synth_is_artifact:
  "synth_mail_in ce input pr = Some m \<Longrightarrow> is_artifact m" "synth_mail_out ce input = Some m \<Longrightarrow> is_artifact m"
  by (auto simp: synth_mail_in_def synth_mail_out_def split: option.splits prod.splits bool.splits json.splits if_splits)

lemma fold_use_artifacts:
  assumes "fold_use ce res u (syn, tr) = Inr (syn', tr')" "list_all is_artifact syn"
  shows "list_all is_artifact syn' \<and> set syn \<subseteq> set syn'"
  using assms synth_is_artifact
  by (auto simp: fold_use_def split: prod.splits policy.splits option.splits)
    (auto simp: map_sum_def split: sum.splits)

lemma fold_uses_artifacts:
  "fold_uses ce res us (syn, tr) = Inr (syn', tr') \<Longrightarrow> list_all is_artifact syn
   \<Longrightarrow> list_all is_artifact syn' \<and> set syn \<subseteq> set syn'"
proof (induction us arbitrary: syn tr)
  case (Cons u us)
  from Cons.prems(1) obtain h where h: "fold_use ce res u (syn, tr) = Inr h" "fold_uses ce res us h = Inr (syn', tr')"
    by (auto simp: ebind_Inr_iff)
  obtain syn1 tr1 where hp: "h = (syn1, tr1)" by (cases h)
  from fold_use_artifacts [OF h(1) [unfolded hp] Cons.prems(2)] Cons.IH [OF h(2) [unfolded hp]]
  show ?case by auto
qed simp

text \<open>Every call of the elided turns is folded.\<close>

lemma fold_uses_each:
  assumes "fold_uses ce res us (syn, tr) = Inr (syn', tr')" "u \<in> set us" "list_all is_artifact syn"
  shows "\<exists>s1 t1 s2 t2. fold_use ce res u (s1, t1) = Inr (s2, t2) \<and> set s2 \<subseteq> set syn'"
  using assms
proof (induction us arbitrary: syn tr)
  case (Cons v us)
  from Cons.prems(1) obtain h where h: "fold_use ce res v (syn, tr) = Inr h" "fold_uses ce res us h = Inr (syn', tr')"
    by (auto simp: ebind_Inr_iff)
  obtain syn1 tr1 where hp: "h = (syn1, tr1)" by (cases h)
  have a: "list_all is_artifact syn1"
    using fold_use_artifacts [OF h(1) [unfolded hp] Cons.prems(3)] by simp
  show ?case
  proof (cases "u = v")
    case True
    with h(1) fold_uses_artifacts [OF h(2) [unfolded hp] a] show ?thesis by (auto simp: hp)
  next
    case False
    with Cons.prems(2) Cons.IH [OF h(2) [unfolded hp] _ a] show ?thesis by simp
  qed
qed simp

lemma seam_artifact: "is_artifact (fst (make_work_summary_msg ce tr wid))"
  by (simp add: make_work_summary_msg_def Let_def)

text \<open>The shape of a compaction that elides something.\<close>

definition elided :: "message list \<Rightarrow> int \<Rightarrow> message list" where
  "elided ms k = drop 1 (take (find_pivot ms k) ms)"

definition fresh :: "message list \<Rightarrow> int \<Rightarrow> message list" where
  "fresh ms k = filter (\<lambda>m. \<not> m_artifact m) (elided ms k)"

definition elides :: "message list \<Rightarrow> int \<Rightarrow> bool" where
  "elides ms k \<longleftrightarrow> 3 \<le> length ms \<and> 1 < find_pivot ms k"

lemma compact_shape:
  assumes "compact_messages ce k wid ms = Inr out" "elides ms k"
  obtains syn tr seam where "extract_synthetic_history ce (fresh ms k) = Inr (syn, tr)"
    "list_all is_artifact seam" "list_all is_artifact syn"
    "co_messages out = take 1 ms @ filter m_artifact (elided ms k) @ syn @ seam @ drop (find_pivot ms k) ms"
proof -
  from assms obtain syn tr where x: "extract_synthetic_history ce (fresh ms k) = Inr (syn, tr)"
    by (cases "extract_synthetic_history ce (fresh ms k)")
      (auto simp: compact_messages_def Let_def elides_def fresh_def elided_def)
  moreover have "list_all is_artifact syn"
    using x fold_uses_artifacts by (auto simp: extract_synthetic_history_def)
  moreover define seam where "seam = map fst (if tr \<noteq> [] \<or> filter m_artifact (elided ms k) = []
      then [make_work_summary_msg ce tr wid] else [])"
  moreover have "list_all is_artifact seam" by (simp add: seam_def seam_artifact)
  moreover have "co_messages out = take 1 ms @ filter m_artifact (elided ms k) @ syn @ seam @ drop (find_pivot ms k) ms"
    using assms x by (auto simp: compact_messages_def Let_def elides_def fresh_def elided_def seam_def)
  ultimately show thesis using that by blast
qed

lemma compact_unchanged: "compact_messages ce k wid ms = Inr out \<Longrightarrow> \<not> elides ms k \<Longrightarrow> co_messages out = ms"
  by (auto simp: compact_messages_def Let_def elides_def split: if_splits)

section \<open>The conversation survives\<close>

lemma owed_artifacts: "list_all is_artifact ms \<Longrightarrow> owed_after [] ms = Some []"
proof (induction ms)
  case (Cons m ms)
  then obtain t where "m_content m = [BText t]" by (auto simp: is_artifact_def)
  moreover have "shape_ok m" using \<open>m_content m = [BText t]\<close>
    by (auto simp: shape_ok_def thinking_first_def is_thinking_def intro!: exI [of _ 0])
  ultimately show ?case using Cons by simp
qed simp

text \<open>Nothing is owed where the kept tail begins.\<close>

lemma owed_at_pivot:
  assumes "well_paired ms" "1 < find_pivot ms k"
  shows "owed_after [] (take (find_pivot ms k) ms) = Some []" "owed_after [] (drop (find_pivot ms k) ms) = Some []"
proof -
  let ?p = "find_pivot ms k"
  from assms(1) have "owed_after [] (take ?p ms @ drop ?p ms) = Some []" by (simp add: well_paired_def)
  then obtain o' where o: "owed_after [] (take ?p ms) = Some o'" "owed_after o' (drop ?p ms) = Some []"
    by (auto simp only: owed_after_append bind_eq_Some_conv)
  have "o' = []"
    using assms(2)
  proof (cases rule: find_pivot_cases)
    case all
    with o(2) show ?thesis by simp
  next
    case turn
    then have "drop ?p ms = ms ! ?p # drop (Suc ?p) ms" by (simp add: Cons_nth_drop_Suc)
    with o(2) turn(3) show ?thesis by (auto split: if_splits)
  qed
  with o show "owed_after [] (take ?p ms) = Some []" "owed_after [] (drop ?p ms) = Some []" by simp_all
qed

lemma compact_conversation:
  assumes "conversation ms" "compact_messages ce k wid ms = Inr out"
  shows "conversation (co_messages out)"
proof (cases "elides ms k")
  case False
  with assms compact_unchanged show ?thesis by metis
next
  case True
  from compact_shape [OF assms(2) True] obtain syn tr seam where
    s: "list_all is_artifact seam" "list_all is_artifact syn"
      "co_messages out = take 1 ms @ filter m_artifact (elided ms k) @ syn @ seam @ drop (find_pivot ms k) ms"
    by metis
  obtain h t where ms: "ms = h # t" using assms(1) by (cases ms) (auto simp: conversation_def)
  have c: "well_paired ms" "m_role h = RUser" "list_all plain_artifact ms"
    using assms(1) by (auto simp: conversation_def ms)
  have carried: "list_all is_artifact (filter m_artifact (elided ms k))"
    using c(3) by (auto simp: list_all_iff elided_def is_artifact_def plain_artifact_def
        dest!: in_set_dropD in_set_takeD)
  have plain: "list_all plain_artifact xs" if "list_all is_artifact xs" for xs
    using that by (auto simp: list_all_iff is_artifact_def plain_artifact_def)
  have "owed_after [] [h] = Some []"
    using c(1,2) by (auto simp: ms well_paired_def shape_ok_def split: if_splits)
  moreover have "owed_after [] (drop (find_pivot ms k) ms) = Some []"
    using owed_at_pivot(2) [OF c(1)] True by (simp add: elides_def)
  moreover have "owed_after [] (filter m_artifact (elided ms k) @ syn @ seam) = Some []"
    by (simp add: owed_after_append owed_artifacts [OF carried] owed_artifacts [OF s(1)] owed_artifacts [OF s(2)])
  ultimately have "owed_after [] ([h] @ (filter m_artifact (elided ms k) @ syn @ seam) @ drop (find_pivot ms k) ms) = Some []"
    by (simp only: owed_after_append bind.bind_lunit)
  then have "well_paired (co_messages out)" by (simp add: s(3) well_paired_def ms)
  moreover have "list_all plain_artifact (drop (find_pivot ms k) ms)"
    using c(3) by (auto simp: list_all_iff dest: in_set_dropD)
  ultimately show ?thesis
    using c plain [OF carried] plain [OF s(1)] plain [OF s(2)] by (simp add: conversation_def s(3) ms)
qed

section \<open>Mail survives\<close>

definition mail_kept :: "compact_env \<Rightarrow> message list \<Rightarrow> message list \<Rightarrow> bool" where
  "mail_kept ce old new \<longleftrightarrow>
     (\<forall>i input r p. (i, ''mailbox_get_message'', input) \<in> set (tool_calls_of old)
         \<and> results_by_id old i = Some (r, False) \<and> parse_dict (ce_loads ce) r = Some p \<and> p \<noteq> []
         \<longrightarrow> artifact RUser (mail_header ce input p @ newline @ text_or p ''body'') \<in> set new)
   \<and> (\<forall>i input body. (i, ''mailbox_send'', input) \<in> set (tool_calls_of old) \<and> dget input ''body'' = Some (JStr body)
         \<longrightarrow> artifact RAssistant (sent_header ce input @ newline @ body) \<in> set new)"

text \<open>C28: A compaction loses no mail. It keeps the first message and everything from the kept
  turns on; every artifact of an earlier compaction stays as it is; and of the turns it elides, each
  mail fetched and each mail sent is in the new conversation with its full body.\<close>

theorem compaction_keeps_mail:
  assumes "compact_messages ce k wid ms = Inr out" "elides ms k"
  shows "take 1 (co_messages out) = take 1 ms
     \<and> (\<exists>front. co_messages out = front @ drop (find_pivot ms k) ms)
     \<and> set (filter m_artifact ms) \<subseteq> set (co_messages out)
     \<and> mail_kept ce (fresh ms k) (co_messages out)"
proof -
  from compact_shape [OF assms] obtain syn tr seam where
    x: "extract_synthetic_history ce (fresh ms k) = Inr (syn, tr)"
    and out: "co_messages out = take 1 ms @ filter m_artifact (elided ms k) @ syn @ seam @ drop (find_pivot ms k) ms"
    by metis
  have parts: "ms = take 1 ms @ elided ms k @ drop (find_pivot ms k) ms"
  proof -
    have "take (find_pivot ms k) ms = take 1 ms @ elided ms k"
      using assms(2) append_take_drop_id [of 1 "take (find_pivot ms k) ms"]
      by (simp add: elides_def elided_def min_def)
    then show ?thesis by (metis append_assoc append_take_drop_id)
  qed
  have art: "set (filter m_artifact ms) \<subseteq> set (co_messages out)"
    by (subst parts) (auto simp: out)
  have each: "\<exists>s1 t1 s2 t2. fold_use ce (results_by_id (fresh ms k)) u (s1, t1) = Inr (s2, t2) \<and> set s2 \<subseteq> set syn"
    if "u \<in> set (tool_calls_of (fresh ms k))" for u
    using fold_uses_each [OF x [unfolded extract_synthetic_history_def] that] by simp
  have "mail_kept ce (fresh ms k) (co_messages out)"
    unfolding mail_kept_def
  proof (intro conjI allI impI; elim conjE)
    fix i input r p
    assume a: "(i, ''mailbox_get_message'', input) \<in> set (tool_calls_of (fresh ms k))"
      "results_by_id (fresh ms k) i = Some (r, False)" "parse_dict (ce_loads ce) r = Some p" "p \<noteq> []"
    from each [OF a(1)] show "artifact RUser (mail_header ce input p @ newline @ text_or p ''body'') \<in> set (co_messages out)"
      using a(2-4) by (auto simp: fold_use_def tool_policy_def synth_mail_in_def out)
  next
    fix i input body
    assume a: "(i, ''mailbox_send'', input) \<in> set (tool_calls_of (fresh ms k))" "dget input ''body'' = Some (JStr body)"
    from each [OF a(1)] show "artifact RAssistant (sent_header ce input @ newline @ body) \<in> set (co_messages out)"
      using a(2) by (auto simp: fold_use_def tool_policy_def synth_mail_out_def out)
  qed
  moreover have "take 1 (co_messages out) = take 1 ms"
  proof (cases ms)
    case Nil
    with assms(2) show ?thesis by (simp add: elides_def)
  qed (simp add: out)
  moreover have "\<exists>front. co_messages out = front @ drop (find_pivot ms k) ms"
    by (rule exI [of _ "take 1 ms @ filter m_artifact (elided ms k) @ syn @ seam"]) (simp add: out)
  ultimately show ?thesis using art by blast
qed

definition sample_compact :: compact_env where
  "sample_compact = \<lparr>ce_loads = (\<lambda>t. None), ce_float = (\<lambda>r. ''0.5''), ce_summary = (\<lambda>p. ([ContentDelta ''sum''], None))\<rparr>"

text \<open>A conversation that sent a mail and went on for a turn.\<close>

definition sample_long :: "message list" where
  "sample_long =
     [user_msg [BText ''go''],
      assistant_msg [BToolUse ''u1'' ''mailbox_send'' [(''to'', JStr ''owner''), (''body'', JStr ''done'')]],
      user_msg [BToolResult ''u1'' (Text ''ok'') False],
      assistant_msg [BText ''next''], user_msg [BText ''and?'']]"

lemma compaction_keeps_mail_witness:
  "\<exists>out. compact_messages sample_compact 1 None sample_long = Inr out
     \<and> artifact RAssistant (sent_header sample_compact [(''to'', JStr ''owner''), (''body'', JStr ''done'')] @ newline @ ''done'')
         \<in> set (co_messages out)"
proof -
  have e: "elides sample_long 1"
    by (simp add: elides_def find_pivot_def sample_long_def eval_nat_numeral user_msg_def assistant_msg_def)
  have f: "fresh sample_long 1 = take 2 (drop 1 sample_long)"
    by (simp add: fresh_def elided_def find_pivot_def sample_long_def eval_nat_numeral user_msg_def assistant_msg_def)
  have call: "tool_calls_of (fresh sample_long 1)
      = [(''u1'', ''mailbox_send'', [(''to'', JStr ''owner''), (''body'', JStr ''done'')])]"
    unfolding f by (simp add: tool_calls_of_def sample_long_def eval_nat_numeral user_msg_def assistant_msg_def List.map_filter_simps)
  have "\<exists>h. extract_synthetic_history sample_compact (fresh sample_long 1) = Inr h"
    by (simp add: extract_synthetic_history_def call fold_use_def tool_policy_def synth_mail_out_def dget_def ebind_def)
  then obtain out where out: "compact_messages sample_compact 1 None sample_long = Inr out"
    using e by (auto simp: compact_messages_def Let_def elides_def fresh_def elided_def)
  from compaction_keeps_mail [OF out e] have "mail_kept sample_compact (fresh sample_long 1) (co_messages out)"
    by (elim conjE)
  then show ?thesis
    using out call by (auto simp: mail_kept_def dget_def)
qed

section \<open>A call that no compaction can elide\<close>

definition uncuttable :: "json \<Rightarrow> bool" where
  "uncuttable j \<longleftrightarrow> (case j of JStr s \<Rightarrow> False | JArr js \<Rightarrow> False | _ \<Rightarrow> True)"

lemma elides_append: "elides ms k \<Longrightarrow> elides (ms @ later) k \<and> set (fresh ms k) \<subseteq> set (fresh (ms @ later) k)"
proof -
  assume e: "elides ms k"
  then have p: "find_pivot ms k \<le> find_pivot (ms @ later) k" "1 < find_pivot ms k" "find_pivot ms k \<le> length ms"
    using find_pivot_mono find_pivot_all by (auto simp: elides_def)
  have "set (drop 1 (take (find_pivot ms k) ms)) \<subseteq> set (drop 1 (take (find_pivot (ms @ later) k) (ms @ later)))"
  proof -
    have "take (find_pivot ms k) ms = take (find_pivot ms k) (take (find_pivot (ms @ later) k) (ms @ later))"
      using p by (simp add: min_def)
    then have "drop 1 (take (find_pivot ms k) ms)
        = take (find_pivot ms k - 1) (drop 1 (take (find_pivot (ms @ later) k) (ms @ later)))"
      by (simp only: drop_take)
    then show ?thesis by (metis set_take_subset)
  qed
  with e p show ?thesis by (auto simp: elides_def fresh_def elided_def)
qed

lemma fold_uses_error: "fold_uses ce res us h = Inl e \<Longrightarrow> e = not_subscriptable"
proof (induction us arbitrary: h)
  case (Cons u us)
  have "fold_use ce res u h = Inl e' \<Longrightarrow> e' = not_subscriptable" for e'
    by (cases u; cases h) (auto simp: fold_use_def format_trace_line_def Let_def cut_repr_def map_sum_def
        split: policy.splits option.splits sum.splits if_splits json.splits)
  with Cons show ?case by (cases "fold_use ce res u h") (auto simp: ebind_def)
qed simp

lemma in_map_filter: "x \<in> set xs \<Longrightarrow> f x = Some y \<Longrightarrow> y \<in> set (List.map_filter f xs)"
  by (induction xs) (auto simp: List.map_filter_simps split: option.splits)

lemma malformed_goal_raises:
  assumes "m \<in> set (fresh ms k)" "m_role m = RAssistant"
    and "BToolUse i ''dispatch_task'' input \<in> set (m_content m)"
    and "dget input ''goal'' = Some g" "uncuttable g" "elides ms k"
  shows "compact_messages ce k wid (ms @ later) = Inl not_subscriptable"
proof -
  let ?ms = "ms @ later"
  from elides_append [OF assms(6), of later] assms(1) have m: "m \<in> set (fresh ?ms k)" "elides ?ms k" by auto
  have "BToolUse i ''dispatch_task'' input
      \<in> set (concat (map m_content (filter (\<lambda>m. m_role m = RAssistant) (fresh ?ms k))))"
    using m(1) assms(2,3) by auto
  then have call: "(i, ''dispatch_task'', input) \<in> set (tool_calls_of (fresh ?ms k))"
    unfolding tool_calls_of_def by (rule in_map_filter) simp
  have raises: "\<exists>e. fold_use ce res (i, ''dispatch_task'', input) h = Inl e" for res h
  proof -
    obtain syn tr where h: "h = (syn, tr)" by (cases h)
    have "cut_repr ce g = Inl not_subscriptable"
      using assms(5) by (cases g) (simp_all add: cut_repr_def uncuttable_def)
    then show ?thesis
      by (simp add: h fold_use_def tool_policy_def format_trace_line_def Let_def assms(4))
  qed
  have "\<exists>e. extract_synthetic_history ce (fresh ?ms k) = Inl e"
  proof (cases "extract_synthetic_history ce (fresh ?ms k)")
    case (Inr p)
    obtain syn tr where "p = (syn, tr)" by (cases p)
    with Inr fold_uses_each [OF _ call, of ce _ "[]" "[]" syn tr] raises show ?thesis
      by (auto simp: extract_synthetic_history_def) (metis sum.distinct(1))
  qed simp
  then have x: "extract_synthetic_history ce (fresh ?ms k) = Inl not_subscriptable"
    using fold_uses_error by (auto simp: extract_synthetic_history_def)
  then show ?thesis
    using m(2) by (auto simp: compact_messages_def Let_def elides_def fresh_def elided_def)
qed

end
