(* ===== verification/Loop_Samples.thy ===== *)
theory Loop_Samples
  imports Agent_Loop Compact_Keeps Sample
begin

text \<open>
  A small agent the witnesses run: it reads its inbox, then answers only in text, and a conversation
  in which it sent a mail and went on.
\<close>

definition inbox_reply_json :: json where
  "inbox_reply_json = JObj [(''box'', JStr ''inbox''), (''auto_marked_read'', JInt 1),
     (''messages'', JArr [JObj [(''id'', JInt 1), (''sender'', JStr ''owner'')]])]"

definition sample_stream :: "message list \<Rightarrow> item list" where
  "sample_stream req =
     (if length req = 1
      then [Streamed (ToolUseComplete ''u1'' ''mailbox_read'' []), Streamed (Usage 7 1), Streamed (TurnComplete ''tool_use'')]
      else [Streamed (ContentDelta ''Noted.''), Streamed (Usage 9 1), Streamed (TurnComplete ''end_turn'')])"

definition sample_loop :: loop_env where
  "sample_loop =
     \<lparr>lv_candidates = [sample_entry ''m1'' Cheap ''K''], lv_adapter = (\<lambda>c. None),
      lv_stream = (\<lambda>c req d. (sample_stream req, None)), lv_compact = (\<lambda>c d. sample_compact),
      lv_registry = Some [(''mailbox_read'', \<lambda>c args d. (Inr (Reply inbox_reply_json), d, []))],
      lv_ctx = Some (sample_ctx ''worker/a''), lv_allowed = [''mailbox_read''], lv_max_turns = 6,
      lv_max_tokens = 100, lv_threshold = 1 / 2, lv_keep = 3, lv_repeat = 0, lv_retries = 1,
      lv_cancel = None, lv_loads = (\<lambda>t. None), lv_float = (\<lambda>r. ''0.5'')\<rparr>"

definition sample_wakeup :: wakeup_row where
  "sample_wakeup =
     \<lparr>wr_id = ''w1'', wr_task = ''t1'', wr_persona = ''worker'', wr_agent = Some ''worker/a'',
      wr_started = MsZ 0, wr_ended = None, wr_end_status = None, wr_token_input = None,
      wr_token_output = None, wr_wall_clock = None, wr_tool_calls = None, wr_provider = None,
      wr_model = None, wr_failure = None, wr_transcript = None, wr_peak = None,
      wr_compactions = 0, wr_degraded = 0\<rparr>"

definition sample_state :: loop_state where
  "sample_state = \<lparr>ls_db = sample_db\<lparr>wakeups := [sample_wakeup]\<rparr>, ls_watch = None, ls_kill = None, ls_health = None, ls_now = 0,
     ls_stop = None, ls_fallbacks = [], ls_warned = False, ls_sent = []\<rparr>"

definition sample_task_msgs :: "message list" where
  "sample_task_msgs = [user_msg [BText ''go'']]"

definition sample_run :: "(exn + bool \<times> run_vars \<times> loop_result) \<times> loop_state" where
  "sample_run = run_loop sample_loop 0 5 [] sample_task_msgs sample_state"

lemma sample_conversation: "conversation sample_task_msgs"
  by (simp add: conversation_def sample_task_msgs_def user_msg_def well_paired_def shape_ok_def plain_artifact_def)

lemma sample_sent: "ls_sent sample_state = []"
  by (simp add: sample_state_def)

text \<open>The estimate is only needed when the adapter reported no usage.\<close>

lemma settle_usage_lazy [code]:
  "settle_usage env sys ms n s =
     (if tn_input n \<noteq> 0 then (n, s)
      else let est = int (estimate_input_tokens (lv_float env) ms sys) in
        if est \<noteq> 0 then (n\<lparr>tn_input := est\<rparr>, s\<lparr>ls_warned := True\<rparr>) else (n, s))"
  by (simp add: settle_usage_def Let_def)

definition silent_end :: "(exn + bool \<times> run_vars) \<times> loop_state \<Rightarrow> bool" where
  "silent_end r \<longleftrightarrow> (case r of (Inr (hit, v), s) \<Rightarrow>
      is_silent_close hit v s \<and> rv_askers v = [''owner''] \<and> length (ls_sent s) = 4
      \<and> ''t1'' \<in> set (task_ids (ls_db s)) \<and> ''w1'' \<in> set (wakeup_ids (ls_db s)) | _ \<Rightarrow> False)"

lemma sample_turns: "silent_end (run_turns sample_loop [] (lv_max_turns sample_loop) (start_vars sample_task_msgs) (fresh_state sample_state))"
  by code_simp

lemma enqueue_one_row:
  assumes "ob_task r = Some t" "t \<in> set (task_ids d)" "ob_wakeup r = Some w" "w \<in> set (wakeup_ids d)"
  shows "\<exists>d'. outbox_enqueue now [r] d = (Inr (), d')"
  using assms by (auto simp: enqueue_cons enqueue_one_def Let_def)

lemma silent_end_run:
  assumes turns: "silent_end (run_turns env [] (lv_max_turns env) (start_vars ms) (fresh_state s0))"
    and ctx: "lv_ctx env = Some (sample_ctx ''worker/a'')"
  obtains hit v res s where "run_loop env 0 5 [] ms s0 = (Inr (hit, v, res), s)"
    "is_silent_close hit v s" "rv_askers v = [''owner'']" "length (ls_sent s) = 4" "lr_status res = ''silent_close''"
proof -
  obtain hit v s where
    t: "run_turns env [] (lv_max_turns env) (start_vars ms) (fresh_state s0) = (Inr (hit, v), s)"
    and e: "is_silent_close hit v s" "rv_askers v = [''owner'']" "length (ls_sent s) = 4"
      "''t1'' \<in> set (task_ids (ls_db s))" "''w1'' \<in> set (wakeup_ids (ls_db s))"
    using turns unfolding silent_end_def by (auto split: prod.splits sum.splits)
  let ?c = "sample_ctx ''worker/a''"
  have "clean_askers ?c v = [''owner'']"
    by (simp add: clean_askers_def e(2) self_mailbox_def sample_ctx_def present_def)
  moreover obtain d' where "outbox_enqueue 0 [silent_row ?c v ''owner''] (ls_db s) = (Inr (), d')"
    using enqueue_one_row [of "silent_row ?c v ''owner''" "''t1''" "ls_db s" "''w1''" 0] e(4,5)
    by (auto simp: silent_row_def new_outbox_row_def sample_ctx_def)
  ultimately have emit: "emit_silent_close env 0 v s = (Inr (), s\<lparr>ls_db := d'\<rparr>)"
    by (simp add: emit_silent_close_def ctx)
  have run: "run_loop env 0 5 [] ms s0 = (Inr (hit, v, result_of 5 hit v (s\<lparr>ls_db := d'\<rparr>)), s\<lparr>ls_db := d'\<rparr>)"
    using t e(1) emit by (simp add: run_loop_def seqn_def bnd_def upd_def query_def run_if_def ret_def)
  have "is_silent_close hit v (s\<lparr>ls_db := d'\<rparr>)" using e(1) by (simp add: is_silent_close_def)
  with run e show thesis
    by (intro that [OF run]) (auto simp: result_of_def final_status_def is_silent_close_def)
qed

lemma sample_run:
  obtains hit v res s where "run_loop sample_loop 0 5 [] sample_task_msgs sample_state = (Inr (hit, v, res), s)"
    "is_silent_close hit v s" "''owner'' \<in> set (rv_askers v)" "length (ls_sent s) = 4" "lr_status res = ''silent_close''"
proof -
  have "lv_ctx sample_loop = Some (sample_ctx ''worker/a'')" by (simp add: sample_loop_def)
  from silent_end_run [OF sample_turns this] show thesis by (metis that list.set_intros(1))
qed

end
