(* ===== verification/Loop_Safety.thy ===== *)
theory Loop_Safety
  imports Loop_Samples Tool_Mailbox
begin

text \<open>
  What holds of every run of the agent loop: the requests it sends are conversations a provider
  accepts, the counters stay within their limits, and the status at the end says how the run ended.
\<close>

section \<open>Triples\<close>

text \<open>From a state with \<open>P\<close>, a value and a state with \<open>Q\<close>, or an exception and a state with \<open>E\<close>.\<close>

definition triple :: "('s \<Rightarrow> bool) \<Rightarrow> ('s \<Rightarrow> bool) \<Rightarrow> ('s, 'a) exec \<Rightarrow> ('a \<Rightarrow> 's \<Rightarrow> bool) \<Rightarrow> bool" where
  "triple E P m Q \<longleftrightarrow> (\<forall>s. P s \<longrightarrow> (case m s of (Inl e, s') \<Rightarrow> E s' | (Inr a, s') \<Rightarrow> Q a s'))"

lemma tripleI:
  "(\<And>s a s'. P s \<Longrightarrow> m s = (Inr a, s') \<Longrightarrow> Q a s') \<Longrightarrow> (\<And>s e s'. P s \<Longrightarrow> m s = (Inl e, s') \<Longrightarrow> E s')
   \<Longrightarrow> triple E P m Q"
  by (auto simp: triple_def split: prod.split sum.split)

lemma tripleD:
  "triple E P m Q \<Longrightarrow> P s \<Longrightarrow> m s = (Inr a, s') \<Longrightarrow> Q a s'"
  "triple E P m Q \<Longrightarrow> P s \<Longrightarrow> m s = (Inl e, s') \<Longrightarrow> E s'"
  by (auto simp: triple_def dest: spec [of _ s])

lemma triple_bnd:
  assumes "triple E P m R" "\<And>a. triple E (R a) (f a) Q"
  shows "triple E P (bnd m f) Q"
proof (rule tripleI)
  fix s b s' assume "P s" "bnd m f s = (Inr b, s')"
  then obtain a s1 where "m s = (Inr a, s1)" "f a s1 = (Inr b, s')"
    by (auto simp: bnd_def split: prod.splits sum.splits)
  then show "Q b s'" using tripleD [OF assms(1) \<open>P s\<close>] tripleD [OF assms(2)] by blast
next
  fix s e s' assume "P s" "bnd m f s = (Inl e, s')"
  then consider "m s = (Inl e, s')" | a s1 where "m s = (Inr a, s1)" "f a s1 = (Inl e, s')"
    by (auto simp: bnd_def split: prod.splits sum.splits)
  then show "E s'" using tripleD [OF assms(1) \<open>P s\<close>] tripleD [OF assms(2)] by cases blast+
qed

lemma triple_seqn: "triple E P m (\<lambda>_. R) \<Longrightarrow> triple E R k Q \<Longrightarrow> triple E P (seqn m k) Q"
  unfolding seqn_def by (rule triple_bnd)

lemma triple_ret: "(\<And>s. P s \<Longrightarrow> Q a s) \<Longrightarrow> triple E P (ret a) Q"
  by (simp add: triple_def ret_def)

lemma triple_upd: "(\<And>s. P s \<Longrightarrow> Q () (f s)) \<Longrightarrow> triple E P (upd f) Q"
  by (simp add: triple_def upd_def)

lemma triple_query: "(\<And>s. P s \<Longrightarrow> Q (f s) s) \<Longrightarrow> triple E P (query f) Q"
  by (simp add: triple_def query_def)

lemma triple_step: "(\<And>s. P s \<Longrightarrow> Q (fst (f s)) (snd (f s))) \<Longrightarrow> triple E P (step f) Q"
  by (simp add: triple_def step_def case_prod_beta)

lemma triple_if: "(b \<Longrightarrow> triple E P m Q) \<Longrightarrow> (\<not> b \<Longrightarrow> triple E P k Q) \<Longrightarrow> triple E P (if b then m else k) Q"
  by simp

lemma triple_branch:
  "triple E P m Q \<Longrightarrow> triple E P k Q \<Longrightarrow> triple E P (\<lambda>s. if b s then m s else k s) Q"
  by (simp add: triple_def)

lemma triple_pure: "(C \<Longrightarrow> triple E P m Q) \<Longrightarrow> triple E (\<lambda>s. P s \<and> C) m Q"
  by (auto simp: triple_def)

lemma triple_weaken: "triple E P m R \<Longrightarrow> (\<And>a s. R a s \<Longrightarrow> Q a s) \<Longrightarrow> triple E P m Q"
  by (rule tripleI) (blast dest: tripleD)+

lemma triple_pre: "triple E P m Q \<Longrightarrow> (\<And>s. P' s \<Longrightarrow> P s) \<Longrightarrow> triple E P' m Q"
  by (auto simp: triple_def)

section \<open>Paired conversations\<close>

definition sent_ok :: "loop_state \<Rightarrow> bool" where
  "sent_ok s \<longleftrightarrow> list_all well_paired (ls_sent s)"

lemma thinking_first_blocks:
  assumes "list_all is_thinking ts"
  shows "thinking_first (assistant_blocks ts text uses)"
proof -
  have "list_all (\<lambda>b. \<not> is_thinking b) ((if text = [] then [] else [BText text]) @ map use_block uses)"
    by (auto simp: is_thinking_def use_block_def list_all_iff)
  with assms show ?thesis
    unfolding thinking_first_def assistant_blocks_def by (intro exI [of _ "length ts"]) simp
qed

lemma thinking_no_tools: "list_all is_thinking ts \<Longrightarrow> uses_of ts = [] \<and> results_of ts = []"
proof (induction ts)
  case (Cons b bs)
  then show ?case by (cases b) (simp_all add: is_thinking_def)
qed simp

lemma blocks_tools:
  assumes "list_all is_thinking ts"
  shows "uses_of (assistant_blocks ts text uses) = map tu_id uses" "results_of (assistant_blocks ts text uses) = []"
  using thinking_no_tools [OF assms] by (auto simp: assistant_blocks_def)

definition turn_ok :: "turn \<Rightarrow> bool" where
  "turn_ok n \<longleftrightarrow> list_all is_thinking (tn_thinking n)"

text \<open>A conversation that may owe the results of the calls \<open>tus\<close>.\<close>

definition owing :: "tool_use list \<Rightarrow> message list \<Rightarrow> bool" where
  "owing tus ms \<longleftrightarrow> owed_after [] ms = Some (map tu_id tus) \<and> ms \<noteq> [] \<and> m_role (hd ms) = RUser \<and> list_all plain_artifact ms"

lemma owing_Nil: "owing [] ms = conversation ms"
  by (simp add: owing_def conversation_def well_paired_def)

lemma append_assistant_owing:
  assumes "conversation (rv_messages v)" "turn_ok n"
  shows "owing (tn_uses n) (rv_messages (append_assistant n v))"
proof -
  let ?bs = "assistant_blocks (tn_thinking n) (concat (tn_text n)) (tn_uses n)"
  have t: "list_all is_thinking (tn_thinking n)" using assms(2) by (simp add: turn_ok_def)
  note b = blocks_tools [OF t, of "concat (tn_text n)" "tn_uses n"]
  have "shape_ok (assistant_msg ?bs)"
    using thinking_first_blocks [OF t] b by (simp add: shape_ok_def assistant_msg_def)
  moreover have "?bs = [] \<Longrightarrow> tn_uses n = []" by (simp add: assistant_blocks_def)
  ultimately show ?thesis
    using assms(1) b
    by (auto simp: append_assistant_def Let_def owing_def conversation_def well_paired_def owed_after_append
        assistant_msg_def plain_artifact_def)
qed

lemma say_answers:
  assumes "owing tus (rv_messages v)" "results_of bs = map tu_id tus" "uses_of bs = []"
  shows "conversation (rv_messages (say bs v))"
  using assms
  by (auto simp: say_def owing_def conversation_def well_paired_def owed_after_append user_msg_def shape_ok_def
      plain_artifact_def)

lemma say_text: "conversation (rv_messages v) \<Longrightarrow> conversation (rv_messages (say [BText t] v))"
  by (rule say_answers [of "[]"]) (simp_all add: owing_Nil)

section \<open>The parts of a turn\<close>

lemma meanwhile_sent [simp]: "ls_sent (meanwhile a s) = ls_sent s" "ls_sent (fold meanwhile as s) = ls_sent s"
proof -
  show one: "ls_sent (meanwhile a s) = ls_sent s" for a s by (cases a) (simp_all add: request_stop_def)
  show "ls_sent (fold meanwhile as s) = ls_sent s" by (induction as arbitrary: s) (simp_all add: one)
qed

lemma add_event_ok: "turn_ok n \<Longrightarrow> turn_ok (add_event e n)"
  by (cases e) (simp_all add: turn_ok_def is_thinking_def)

lemma consume_ok:
  "consume xs any n s = (any', n', s') \<Longrightarrow> turn_ok n \<Longrightarrow> turn_ok n' \<and> ls_sent s' = ls_sent s"
proof (induction xs any n s rule: consume.induct)
  case (3 e xs any n s)
  have "turn_ok (x\<lparr>tn_interrupted := b\<rparr>) = turn_ok x" for x b by (simp add: turn_ok_def)
  with 3 show ?case by (auto simp: add_event_ok split: if_splits)
qed auto

lemma stream_from_ok:
  assumes "stream_from env c ms s = (err, any, n, s')" "well_paired ms" "sent_ok s"
  shows "turn_ok n \<and> sent_ok s'"
proof -
  have "well_paired (request_for c ms)"
    using assms(2) by (simp add: request_for_def well_paired_def strip_owed)
  with assms show ?thesis
    by (auto simp: stream_from_def Let_def sent_ok_def turn_ok_def new_turn_def split: prod.splits
        dest!: consume_ok)
qed

lemma try_candidates_ok:
  assumes "try_candidates env ms k cs s = (r, s')" "well_paired ms" "sent_ok s"
  shows "sent_ok s' \<and> (\<forall>n. r = Inr n \<longrightarrow> turn_ok n)"
  using assms
proof (induction cs arbitrary: k s)
  case (Cons c cs)
  obtain ok s1 where c: "check_circuit (me_id c) s = (ok, s1)" by (cases "check_circuit (me_id c) s")
  then have s1: "sent_ok s1" using Cons.prems(3)
    by (auto simp: check_circuit_def sent_ok_def split: option.splits prod.splits)
  have lf: "sent_ok (log_fallback f x) = sent_ok x" "sent_ok (on_health g x) = sent_ok x" for f g x
    by (simp_all add: log_fallback_def on_health_def sent_ok_def)
  obtain err any n s2 where st: "stream_from env c ms s1 = (err, any, n, s2)" by (cases "stream_from env c ms s1")
  from stream_from_ok [OF st Cons.prems(2) s1] have n: "turn_ok n" "sent_ok s2" by auto
  note ih = Cons.IH [OF _ Cons.prems(2)]
  show ?case
    using Cons.prems(1) s1 n ih
    by (auto simp: c st lf Let_def split: option.splits if_splits)
qed (auto simp: all_failed_def)

section \<open>What a turn keeps\<close>

text \<open>The counters at a turn boundary: one outcome per call, and \<open>rv_acted\<close> says whether a
  user-facing tool was called.\<close>

definition user_facing :: "tool_use list \<Rightarrow> bool" where
  "user_facing tus \<longleftrightarrow> (\<exists>c \<in> set tus. tu_name c \<in> set user_facing_tools)"

definition counters :: "run_vars \<Rightarrow> bool" where
  "counters v \<longleftrightarrow> length (rv_outcomes v) = length (rv_calls v) \<and> rv_acted v = user_facing (rv_calls v)
     \<and> rv_nudges v \<le> max_silent_turn_nudges \<and> rv_compactions v \<le> max_compactions"

text \<open>While the calls \<open>tus\<close> of the turn are still to be dispatched.\<close>

definition counting :: "tool_use list \<Rightarrow> run_vars \<Rightarrow> bool" where
  "counting tus v \<longleftrightarrow> length (rv_outcomes v) + length tus = length (rv_calls v)
     \<and> (rv_acted v \<or> user_facing tus) = user_facing (rv_calls v)
     \<and> rv_nudges v \<le> max_silent_turn_nudges \<and> rv_compactions v \<le> max_compactions"

lemma counting_Nil: "counting [] v = counters v"
  by (auto simp: counting_def counters_def user_facing_def)

lemma record_turn_counting: "counters v \<Longrightarrow> counting (tn_uses n) (record_turn n v)"
  by (auto simp: counting_def counters_def record_turn_def user_facing_def)

text \<open>Everything but the conversation, the outcomes and the flags of the calls.\<close>

definition same_turn :: "run_vars \<Rightarrow> run_vars \<Rightarrow> bool" where
  "same_turn v w \<longleftrightarrow> rv_calls w = rv_calls v \<and> rv_stop_reason w = rv_stop_reason v \<and> rv_turns w = rv_turns v
     \<and> rv_nudges w = rv_nudges v \<and> rv_compactions w = rv_compactions v \<and> rv_acted w = rv_acted v
     \<and> rv_outcomes w = rv_outcomes v"

lemma append_assistant_same: "same_turn v (append_assistant n v)"
  by (simp add: append_assistant_def same_turn_def Let_def)

lemma same_counting: "same_turn v w \<Longrightarrow> counting tus w = counting tus v"
  by (simp add: same_turn_def counting_def)

lemma note_call_counting: "counting (tu # tus) v \<Longrightarrow> counting tus (note_call ld tu r v)"
  by (cases r) (auto simp: counting_def note_call_def user_facing_def)

lemma note_call_frame [simp]:
  "rv_messages (note_call ld tu r v) = rv_messages v" "rv_turns (note_call ld tu r v) = rv_turns v"
  "rv_stop_reason (note_call ld tu r v) = rv_stop_reason v" "rv_calls (note_call ld tu r v) = rv_calls v"
  by (simp_all add: note_call_def split: prod.split)

lemma result_blocks_tools: "list_all is_media (snd (snd r))
   \<Longrightarrow> uses_of (result_blocks tu r) = [] \<and> results_of (result_blocks tu r) = [tu_id tu]"
  using no_blocks_of by (auto simp: result_blocks_def split: prod.splits)

lemma dispatch_tool_ok:
  "triple sent_ok sent_ok (dispatch_tool env stop suspect tu) (\<lambda>r s. sent_ok s \<and> list_all is_media (snd (snd r)))"
proof (rule tripleI)
  have rep: "list_all is_media (snd (snd (outcome_of_reply rep)))" for rep
    using view_blocks_media by (auto simp: outcome_of_reply_def split: tool_reply.split prod.split) (metis fst_conv)
  have err: "list_all is_media (snd (snd (outcome_of_error name e)))" for name e
    by (simp add: outcome_of_error_def refused_def)
  show "sent_ok s' \<and> list_all is_media (snd (snd r))"
    if "sent_ok s" "dispatch_tool env stop suspect tu s = (Inr r, s')" for s r s'
    using that rep err
    by (auto simp: dispatch_tool_def refused_def sent_ok_def Let_def split: option.splits prod.splits sum.splits if_splits)
  show "sent_ok s'" if "sent_ok s" "dispatch_tool env stop suspect tu s = (Inl e, s')" for s e s'
    using that
    by (auto simp: dispatch_tool_def sent_ok_def Let_def split: option.splits prod.splits sum.splits if_splits)
qed

lemma kill_point_ok: "triple sent_ok sent_ok (kill_point armed) (\<lambda>_. sent_ok)"
  by (rule tripleI) (auto simp: kill_point_def sent_ok_def split: option.splits prod.splits if_splits)

definition dispatched :: "tool_use list \<Rightarrow> run_vars \<Rightarrow> block list \<times> run_vars \<Rightarrow> bool" where
  "dispatched tus v p \<longleftrightarrow> uses_of (fst p) = [] \<and> results_of (fst p) = map tu_id tus
     \<and> rv_messages (snd p) = rv_messages v \<and> rv_turns (snd p) = rv_turns v
     \<and> rv_stop_reason (snd p) = rv_stop_reason v \<and> rv_calls (snd p) = rv_calls v \<and> counters (snd p)"

lemma dispatch_all_ok:
  "counting tus v \<Longrightarrow> triple sent_ok sent_ok (dispatch_all env stop main tus v) (\<lambda>p s. sent_ok s \<and> dispatched tus v p)"
proof (induction tus arbitrary: v)
  case Nil
  then show ?case by (auto intro!: triple_ret simp: dispatched_def counting_Nil)
next
  case (Cons tu tus)
  show ?case
  proof (simp only: dispatch_all.simps, rule triple_bnd [OF dispatch_tool_ok], rule triple_pure, rule triple_seqn [OF kill_point_ok])
    fix r :: tool_outcome assume r: "list_all is_media (snd (snd r))"
    show "triple sent_ok sent_ok (bnd (dispatch_all env stop main tus (note_call (lv_loads env) tu r v))
        (\<lambda>(bs, v'). ret (result_blocks tu r @ bs, v'))) (\<lambda>p s. sent_ok s \<and> dispatched (tu # tus) v p)"
      by (rule triple_bnd [OF Cons.IH [OF note_call_counting [OF Cons.prems]]])
        (auto intro!: triple_ret simp: dispatched_def result_blocks_tools [OF r] split: prod.splits)
  qed
qed

lemma dispatch_calls_ok:
  assumes "counting (tn_uses n) v" "owing (tn_uses n) (rv_messages v)"
  shows "triple sent_ok sent_ok (dispatch_calls env main n v)
     (\<lambda>w s. sent_ok s \<and> conversation (rv_messages w) \<and> counters w \<and> rv_turns w = rv_turns v
        \<and> rv_stop_reason w = rv_stop_reason v \<and> rv_calls w = rv_calls v)"
  unfolding dispatch_calls_def
proof (rule triple_bnd [OF dispatch_all_ok [OF assms(1)]], rule triple_pure)
  fix p assume p: "dispatched (tn_uses n) v p"
  obtain bs w where pw: "p = (bs, w)" by (cases p)
  have "conversation (rv_messages (say bs w))"
    by (rule say_answers) (use p assms(2) in \<open>auto simp: dispatched_def pw\<close>)
  moreover have "counters (say bs w) = counters w" by (simp add: counters_def say_def)
  ultimately show "triple sent_ok sent_ok (case p of (bs, v') \<Rightarrow> ret (say bs v'))
     (\<lambda>w s. sent_ok s \<and> conversation (rv_messages w) \<and> counters w \<and> rv_turns w = rv_turns v
        \<and> rv_stop_reason w = rv_stop_reason v \<and> rv_calls w = rv_calls v)"
    using p by (auto intro!: triple_ret simp: pw dispatched_def) (simp_all add: say_def)
qed

section \<open>A whole turn\<close>

definition vars_ok :: "run_vars \<Rightarrow> bool" where
  "vars_ok v \<longleftrightarrow> conversation (rv_messages v) \<and> counters v"

text \<open>How a run may leave the loop without a stop request: the model had its nudges, or there was
  nothing to nudge about; after thrashing, the counters are set to force the silent close.\<close>

definition settled :: "run_vars \<Rightarrow> bool" where
  "settled v \<longleftrightarrow> rv_stop_reason v \<noteq> Some ''end_turn'' \<or> rv_calls v = [] \<or> rv_acted v
     \<or> rv_nudges v = max_silent_turn_nudges"

definition left_ok :: "run_vars \<Rightarrow> bool" where
  "left_ok v \<longleftrightarrow> conversation (rv_messages v) \<and> length (rv_outcomes v) = length (rv_calls v)
     \<and> (rv_acted v \<longrightarrow> user_facing (rv_calls v))
     \<and> rv_nudges v \<le> max_silent_turn_nudges \<and> rv_compactions v \<le> max_compactions"

definition flow_ok :: "nat \<Rightarrow> flow \<Rightarrow> loop_state \<Rightarrow> bool" where
  "flow_ok k r s \<longleftrightarrow> sent_ok s \<and> (case r of
       Next v \<Rightarrow> vars_ok v \<and> rv_turns v = k
     | Leave v \<Rightarrow> left_ok v \<and> rv_turns v = k \<and> (ls_stop s = None \<longrightarrow> settled v))"

lemma flow_ok_simps [simp]:
  "flow_ok k (Next v) s \<longleftrightarrow> sent_ok s \<and> vars_ok v \<and> rv_turns v = k"
  "flow_ok k (Leave v) s \<longleftrightarrow> sent_ok s \<and> left_ok v \<and> rv_turns v = k \<and> (ls_stop s = None \<longrightarrow> settled v)"
  by (auto simp: flow_ok_def)

lemma vars_left: "vars_ok v \<Longrightarrow> left_ok v"
  by (auto simp: vars_ok_def left_ok_def counters_def)

lemma say_counters [simp]: "counters (say bs v) = counters v" "rv_turns (say bs v) = rv_turns v"
  by (simp_all add: counters_def say_def)

lemma inject_ok:
  assumes "conversation (rv_messages v)"
  shows "triple sent_ok sent_ok (inject_notice place v)
     (\<lambda>w s. sent_ok s \<and> conversation (rv_messages w) \<and> rv_turns w = rv_turns v \<and> counters w = counters v
        \<and> rv_calls w = rv_calls v \<and> rv_stop_reason w = rv_stop_reason v)"
proof -
  have say: "conversation (rv_messages (say [BText t] v))" for t using say_text [OF assms] .
  show ?thesis
    by (rule tripleI)
      (use say in \<open>auto simp: inject_notice_def sent_ok_def counters_def say_def split: option.splits prod.splits\<close>)
qed

lemma notice_ok:
  assumes "conversation (rv_messages v)"
  shows "triple sent_ok sent_ok (notice_if_signalled place v)
     (\<lambda>w s. sent_ok s \<and> conversation (rv_messages w) \<and> rv_turns w = rv_turns v \<and> counters w = counters v)"
proof -
  have "notice_if_signalled place v = (\<lambda>s. if signalled s then inject_notice place v s else ret v s)"
    by (rule ext) (simp add: notice_if_signalled_def ret_def)
  moreover have "triple sent_ok sent_ok (ret v)
     (\<lambda>w s. sent_ok s \<and> conversation (rv_messages w) \<and> rv_turns w = rv_turns v \<and> counters w = counters v)"
    using assms by (auto intro: triple_ret)
  ultimately show ?thesis
    using triple_branch [OF triple_weaken [OF inject_ok [OF assms, of place]]] by simp
qed

lemma append_turns [simp]: "rv_turns (append_assistant n v) = rv_turns v"
  by (simp add: append_assistant_def Let_def)

text \<open>\<open>ready n v\<close>: the turn \<open>n\<close> is recorded and about to be reacted to.\<close>

definition ready :: "turn \<Rightarrow> run_vars \<Rightarrow> bool" where
  "ready n v \<longleftrightarrow> turn_ok n \<and> conversation (rv_messages v) \<and> counting (tn_uses n) v \<and> rv_stop_reason v = tn_stop n"

lemma ready_append:
  assumes "ready n v"
  shows "owing (tn_uses n) (rv_messages (append_assistant n v))" "counting (tn_uses n) (append_assistant n v)"
  using assms append_assistant_owing same_counting [OF append_assistant_same] by (auto simp: ready_def)

lemma ready_final:
  assumes "ready n v" "tn_uses n = []"
  shows "vars_ok v" "vars_ok (append_assistant n v)"
  using assms ready_append [OF assms(1)] by (auto simp: ready_def vars_ok_def counting_Nil owing_Nil)

lemma interrupted_ok:
  assumes "ready n v"
  shows "triple sent_ok sent_ok (interrupted_turn env n v) (flow_ok (rv_turns v))"
proof -
  have notice: "triple sent_ok (\<lambda>s. sent_ok s \<and> conversation (rv_messages w) \<and> counters w \<and> rv_turns w = rv_turns v)
     (bnd (notice_if_signalled place w) (\<lambda>v2. ret (Next v2))) (flow_ok (rv_turns v))" for place w
  proof (rule triple_pure)
    assume w: "conversation (rv_messages w) \<and> counters w \<and> rv_turns w = rv_turns v"
    show "triple sent_ok sent_ok (bnd (notice_if_signalled place w) (\<lambda>v2. ret (Next v2))) (flow_ok (rv_turns v))"
      by (rule triple_bnd [OF notice_ok])
        (use w in \<open>auto intro!: triple_ret simp: vars_ok_def\<close>)
  qed
  show ?thesis
    unfolding interrupted_turn_def
  proof (rule triple_bnd [OF _ notice])
    show "triple sent_ok sent_ok
      (if tn_uses n = [] then ret (append_assistant n v) else dispatch_calls env False n (append_assistant n v))
      (\<lambda>w s. sent_ok s \<and> conversation (rv_messages w) \<and> counters w \<and> rv_turns w = rv_turns v)"
    proof (rule triple_if)
      assume "tn_uses n = []"
      with ready_final [OF assms] show "triple sent_ok sent_ok (ret (append_assistant n v))
        (\<lambda>w s. sent_ok s \<and> conversation (rv_messages w) \<and> counters w \<and> rv_turns w = rv_turns v)"
        by (auto intro!: triple_ret simp: vars_ok_def)
    next
      show "triple sent_ok sent_ok (dispatch_calls env False n (append_assistant n v))
        (\<lambda>w s. sent_ok s \<and> conversation (rv_messages w) \<and> counters w \<and> rv_turns w = rv_turns v)"
        by (rule triple_weaken [OF dispatch_calls_ok [OF ready_append(2,1) [OF assms]]]) simp
    qed
  qed
qed

lemma nudge_ok:
  assumes "vars_ok v" "wants_nudge n w" "rv_nudges v = rv_nudges w"
  shows "vars_ok (nudge v)" "rv_turns (nudge v) = rv_turns v"
proof -
  have "conversation (rv_messages (say [BText silent_turn_nudge] v))"
    using assms(1) say_text by (simp add: vars_ok_def)
  moreover have "rv_messages (nudge v) = rv_messages (say [BText silent_turn_nudge] v)" by (simp add: nudge_def)
  moreover have "counters (nudge v)"
    using assms by (auto simp: vars_ok_def counters_def nudge_def say_def wants_nudge_def)
  ultimately show "vars_ok (nudge v)" by (simp add: vars_ok_def)
  show "rv_turns (nudge v) = rv_turns v" by (simp add: nudge_def)
qed

lemma final_ok:
  assumes "ready n v" "tn_uses n = []"
  shows "triple sent_ok sent_ok (final_turn n v) (flow_ok (rv_turns v))"
proof -
  note r = ready_final [OF assms]
  have sig: "triple sent_ok sent_ok (bnd (inject_notice place (append_assistant n v)) (\<lambda>v1. ret (Next v1)))
      (flow_ok (rv_turns v))" for place
    by (rule triple_bnd [OF inject_ok]) (use r in \<open>auto intro!: triple_ret simp: vars_ok_def\<close>)
  have n: "vars_ok (nudge (append_assistant n v))" "rv_turns (nudge (append_assistant n v)) = rv_turns v"
    if "wants_nudge n v"
    using nudge_ok [OF r(2) that] by (auto simp: append_assistant_def Let_def)
  have s: "settled v" if "\<not> wants_nudge n v"
    using that assms(1) r(1) by (auto simp: settled_def wants_nudge_def ready_def vars_ok_def counters_def)
  have eq: "final_turn n v = (\<lambda>s. if signalled s
      then bnd (inject_notice ''post_turn_before_break'' (append_assistant n v)) (\<lambda>v1. ret (Next v1)) s
      else (if wants_nudge n v then ret (Next (nudge (append_assistant n v))) else ret (Leave v)) s)"
    by (rule ext) (simp add: final_turn_def ret_def)
  have "triple sent_ok sent_ok (if wants_nudge n v then ret (Next (nudge (append_assistant n v))) else ret (Leave v))
      (flow_ok (rv_turns v))"
    by (rule triple_if) (use n s r vars_left in \<open>auto intro!: triple_ret\<close>)
  with sig show ?thesis unfolding eq by (rule triple_branch)
qed

lemma count_repeat_ok: "vars_ok v \<Longrightarrow> vars_ok (count_repeat tus v)" "rv_turns (count_repeat tus v) = rv_turns v"
  "rv_nudges (count_repeat tus v) = rv_nudges v"
  by (auto simp: count_repeat_def vars_ok_def counters_def)

lemma guard_ok:
  assumes "vars_ok v"
  shows "triple sent_ok sent_ok (dead_loop_guard env tus v) (flow_ok (rv_turns v))"
proof -
  let ?c = "count_repeat tus v"
  have "vars_ok (say [BText loop_repeat_nudge] ?c\<lparr>rv_repeat_nudged := True\<rparr>)"
    using count_repeat_ok(1) [OF assms, where tus = tus] say_text [of ?c] by (auto simp: vars_ok_def counters_def say_def)
  with assms vars_left [OF count_repeat_ok(1) [OF assms]] count_repeat_ok [where v = v and tus = tus] show ?thesis
    by (auto simp: dead_loop_guard_def triple_def Let_def dead_loop_stop_def sent_ok_def)
qed

lemma compact_ok:
  assumes "vars_ok v"
  shows "triple sent_ok sent_ok (compact_now env n v) (flow_ok (rv_turns v))"
proof -
  have t: "left_ok (thrashed v)" "settled (thrashed v)"
    using assms by (auto simp: left_ok_def settled_def vars_ok_def counters_def thrashed_def)
  have c: "vars_ok (v\<lparr>rv_messages := co_messages out, rv_compactions := rv_compactions v + 1,
             rv_degraded := x\<rparr>)"
    if "compact_messages ce k wid (rv_messages v) = Inr out" "\<not> max_compactions \<le> rv_compactions v" for ce k wid out x
    using assms compact_conversation [OF _ that(1)] that(2) by (auto simp: vars_ok_def counters_def)
  show ?thesis
    using assms t c
    by (auto simp: compact_now_def triple_def Let_def thrashed_def split: option.splits sum.splits)
qed

lemma tool_ok:
  assumes "ready n v"
  shows "triple sent_ok sent_ok (tool_turn env n v) (flow_ok (rv_turns v))"
  unfolding tool_turn_def then_next_def
proof (rule triple_bnd [OF dispatch_calls_ok [OF ready_append(2,1) [OF assms]]], rule triple_pure)
  fix w assume w: "conversation (rv_messages w) \<and> counters w \<and> rv_turns w = rv_turns (append_assistant n v)
      \<and> rv_stop_reason w = rv_stop_reason (append_assistant n v) \<and> rv_calls w = rv_calls (append_assistant n v)"
  then have wv: "vars_ok w" "rv_turns w = rv_turns v" by (simp_all add: vars_ok_def)
  show "triple sent_ok sent_ok (bnd (dead_loop_guard env (tn_uses n) w)
      (\<lambda>r. case r of Next v2 \<Rightarrow> compact_now env n (if wants_nudge n v2 then nudge v2 else v2) | Leave v2 \<Rightarrow> ret (Leave v2)))
      (flow_ok (rv_turns v))"
  proof (rule triple_bnd [OF guard_ok [OF wv(1)]])
    fix r
    show "triple sent_ok (flow_ok (rv_turns w) r)
      (case r of Next v2 \<Rightarrow> compact_now env n (if wants_nudge n v2 then nudge v2 else v2) | Leave v2 \<Rightarrow> ret (Leave v2))
      (flow_ok (rv_turns v))"
    proof (cases r)
      case (Leave x)
      then show ?thesis using wv by (auto intro: triple_ret)
    next
      case (Next x)
      have "triple sent_ok (\<lambda>s. sent_ok s \<and> (vars_ok x \<and> rv_turns x = rv_turns w))
        (compact_now env n (if wants_nudge n x then nudge x else x)) (flow_ok (rv_turns v))"
      proof (rule triple_pure)
        assume x: "vars_ok x \<and> rv_turns x = rv_turns w"
        let ?x = "if wants_nudge n x then nudge x else x"
        from x have "vars_ok ?x" "rv_turns ?x = rv_turns v" using nudge_ok [of x n x] wv by auto
        with compact_ok [of ?x env n] show "triple sent_ok sent_ok (compact_now env n ?x) (flow_ok (rv_turns v))"
          by simp
      qed
      moreover have "flow_ok (rv_turns w) (Next x) = (\<lambda>s. sent_ok s \<and> (vars_ok x \<and> rv_turns x = rv_turns w))"
        by (rule ext) simp
      ultimately show ?thesis by (simp only: Next flow.case)
    qed
  qed
qed

lemma react_ok: "ready n v \<Longrightarrow> triple sent_ok sent_ok (react env n v) (flow_ok (rv_turns v))"
  by (auto simp: react_def interrupted_ok final_ok tool_ok)

section \<open>A whole run\<close>

lemma fallback_ok:
  assumes "well_paired ms"
  shows "triple sent_ok sent_ok (run_one_turn_with_fallback env ms) (\<lambda>n s. sent_ok s \<and> turn_ok n)"
  unfolding run_one_turn_with_fallback_def
  by (rule tripleI) (use try_candidates_ok [OF _ assms] in blast)+

lemma settle_ok:
  "turn_ok n \<Longrightarrow> triple sent_ok sent_ok (step (settle_usage env sys ms n))
     (\<lambda>m s. sent_ok s \<and> (turn_ok m \<and> tn_uses m = tn_uses n \<and> tn_stop m = tn_stop n))"
  by (rule triple_step) (auto simp: settle_usage_def Let_def turn_ok_def sent_ok_def)

lemma observe_sent [simp]: "ls_sent (observe_cancel env s) = ls_sent s"
  by (simp add: observe_cancel_def request_stop_def split: option.split)

lemma one_turn_ok:
  assumes "vars_ok v"
  shows "triple sent_ok sent_ok (one_turn env sys v) (flow_ok (rv_turns v + 1))"
proof -
  let ?v = "v\<lparr>rv_turns := rv_turns v + 1\<rparr>"
  have v: "vars_ok ?v" using assms by (simp add: vars_ok_def counters_def)
  have go: "triple sent_ok sent_ok
      (bnd (notice_if_signalled ''pre_turn'' ?v) (\<lambda>v1.
         bnd (run_one_turn_with_fallback env (rv_messages v1)) (\<lambda>n0.
         bnd (step (settle_usage env sys (rv_messages v1) n0)) (\<lambda>n. react env n (record_turn n v1)))))
      (flow_ok (rv_turns v + 1))"
  proof (rule triple_bnd [OF notice_ok], goal_cases)
    case 1
    then show ?case using v by (simp add: vars_ok_def)
  next
    case (2 v1)
    show ?case
    proof (rule triple_pure)
      assume v1: "conversation (rv_messages v1) \<and> rv_turns v1 = rv_turns ?v \<and> counters v1 = counters ?v"
      then have wp: "well_paired (rv_messages v1)" by (simp add: conversation_def)
      show "triple sent_ok sent_ok (bnd (run_one_turn_with_fallback env (rv_messages v1)) (\<lambda>n0.
         bnd (step (settle_usage env sys (rv_messages v1) n0)) (\<lambda>n. react env n (record_turn n v1))))
         (flow_ok (rv_turns v + 1))"
      proof (rule triple_bnd [OF fallback_ok [OF wp]], rule triple_pure, rule triple_bnd [OF settle_ok], assumption, rule triple_pure)
        fix n0 n assume n: "turn_ok n \<and> tn_uses n = tn_uses n0 \<and> tn_stop n = tn_stop n0"
        have "ready n (record_turn n v1)"
          using n v1 v record_turn_counting [of v1 n] by (auto simp: ready_def vars_ok_def record_turn_def)
        from react_ok [OF this, of env] show "triple sent_ok sent_ok (react env n (record_turn n v1)) (flow_ok (rv_turns v + 1))"
          using v1 by (simp add: record_turn_def)
      qed
    qed
  qed
  have stop: "triple sent_ok (\<lambda>s. sent_ok s \<and> ls_stop s = stop) (if stop \<noteq> None then ret (Leave ?v) else
      bnd (notice_if_signalled ''pre_turn'' ?v) (\<lambda>v1.
         bnd (run_one_turn_with_fallback env (rv_messages v1)) (\<lambda>n0.
         bnd (step (settle_usage env sys (rv_messages v1) n0)) (\<lambda>n. react env n (record_turn n v1)))))
      (flow_ok (rv_turns v + 1))" for stop
  proof (rule triple_if)
    assume "stop \<noteq> None"
    then show "triple sent_ok (\<lambda>s. sent_ok s \<and> ls_stop s = stop) (ret (Leave ?v)) (flow_ok (rv_turns v + 1))"
      using vars_left [OF v] by (auto intro!: triple_ret)
  qed (rule triple_pre [OF go], simp)
  show ?thesis
    unfolding one_turn_def Let_def
    by (rule triple_seqn, rule triple_upd [of sent_ok "\<lambda>_. sent_ok"], simp add: sent_ok_def)
      (rule triple_bnd [OF _ stop], rule triple_query, simp)
qed

definition ends_ok :: "nat \<Rightarrow> nat \<Rightarrow> bool \<times> run_vars \<Rightarrow> loop_state \<Rightarrow> bool" where
  "ends_ok start k p s \<longleftrightarrow> sent_ok s \<and> left_ok (snd p) \<and> rv_turns (snd p) \<le> start + k
     \<and> (fst p \<longrightarrow> rv_turns (snd p) = start + k) \<and> (\<not> fst p \<and> ls_stop s = None \<longrightarrow> settled (snd p))"

lemma run_turns_ok:
  "vars_ok v \<Longrightarrow> triple sent_ok sent_ok (run_turns env sys k v) (ends_ok (rv_turns v) k)"
proof (induction k arbitrary: v)
  case 0
  then show ?case using vars_left by (auto intro!: triple_ret simp: ends_ok_def)
next
  case (Suc k)
  show ?case
  proof (simp only: run_turns.simps, rule triple_bnd [OF one_turn_ok [OF Suc.prems]])
    fix r
    show "triple sent_ok (flow_ok (rv_turns v + 1) r)
      (case r of Next v' \<Rightarrow> run_turns env sys k v' | Leave v' \<Rightarrow> ret (False, v')) (ends_ok (rv_turns v) (Suc k))"
    proof (cases r)
      case (Leave w)
      then show ?thesis by (auto intro!: triple_ret simp: ends_ok_def)
    next
      case (Next w)
      have eq: "flow_ok (rv_turns v + 1) (Next w) = (\<lambda>s. sent_ok s \<and> (vars_ok w \<and> rv_turns w = rv_turns v + 1))"
        by (rule ext) simp
      show ?thesis
        unfolding Next flow.case eq
      proof (rule triple_pure)
        assume w: "vars_ok w \<and> rv_turns w = rv_turns v + 1"
        show "triple sent_ok sent_ok (run_turns env sys k w) (ends_ok (rv_turns v) (Suc k))"
          by (rule triple_weaken [OF Suc.IH]) (use w in \<open>auto simp: ends_ok_def\<close>)
      qed
    qed
  qed
qed

lemma start_vars_ok: "conversation ms \<Longrightarrow> vars_ok (start_vars ms)"
  by (simp add: vars_ok_def start_vars_def counters_def user_facing_def)

lemma emit_frame: "emit_silent_close env now v s = (r, s') \<Longrightarrow> s' = s\<lparr>ls_db := ls_db s'\<rparr>"
  by (auto simp: emit_silent_close_def split: option.splits if_splits prod.splits)

text \<open>The end of a run: the turns, and the silent-close mail when it is due.\<close>

lemma run_loop_cases:
  assumes "run_loop env now wall sys ms s = (r, s')"
  obtains (raised) e where "run_turns env sys (lv_max_turns env) (start_vars ms) (fresh_state s) = (Inl e, s')" "r = Inl e"
    | (ended) hit v s1 u where "run_turns env sys (lv_max_turns env) (start_vars ms) (fresh_state s) = (Inr (hit, v), s1)"
        "run_if (is_silent_close hit v s1) (emit_silent_close env now v) s1 = (u, s')"
        "s' = s1\<lparr>ls_db := ls_db s'\<rparr>" "r = map_sum id (\<lambda>_. (hit, v, result_of wall hit v s')) u"
proof (cases "run_turns env sys (lv_max_turns env) (start_vars ms) (fresh_state s)")
  case (Pair q s1)
  show ?thesis
  proof (cases q)
    case (Inl e)
    with Pair assms show ?thesis by (intro raised) (auto simp: run_loop_def seqn_def bnd_def upd_def)
  next
    case (Inr p)
    obtain hit v where p: "p = (hit, v)" by (cases p)
    obtain u s2 where u: "run_if (is_silent_close hit v s1) (emit_silent_close env now v) s1 = (u, s2)"
      by (cases "run_if (is_silent_close hit v s1) (emit_silent_close env now v) s1")
    have fr: "s2 = s1\<lparr>ls_db := ls_db s2\<rparr>"
      using u emit_frame by (auto simp: run_if_def ret_def split: if_splits)
    have run: "run_turns env sys (lv_max_turns env) (start_vars ms) (fresh_state s) = (Inr (hit, v), s1)"
      using Pair Inr p by simp
    have res: "s' = s2 \<and> r = map_sum id (\<lambda>_. (hit, v, result_of wall hit v s2)) u"
      using assms Pair Inr p u
      by (cases u) (auto simp: run_loop_def seqn_def bnd_def upd_def query_def ret_def)
    show ?thesis by (rule ended [OF run]) (use u fr res in auto)
  qed
qed

lemma ends_ok_cong:
  "ls_sent s = ls_sent s' \<Longrightarrow> ls_stop s = ls_stop s' \<Longrightarrow> ends_ok i k p s = ends_ok i k p s'"
  by (simp add: ends_ok_def sent_ok_def)

lemma run_ends:
  assumes "conversation ms" "sent_ok s" "run_loop env now wall sys ms s = (Inr (hit, v, res), s')"
  shows "ends_ok 0 (lv_max_turns env) (hit, v) s'" "res = result_of wall hit v s'"
proof -
  have s: "sent_ok (fresh_state s)" using assms(2) by (simp add: fresh_state_def sent_ok_def)
  note t = tripleD [OF run_turns_ok [OF start_vars_ok [OF assms(1)], where env = env and sys = sys and k = "lv_max_turns env"] s]
  from assms(3) have "ends_ok 0 (lv_max_turns env) (hit, v) s' \<and> res = result_of wall hit v s'"
  proof (cases rule: run_loop_cases)
    case (ended hit' v' s1 u)
    then have u: "\<exists>x. u = Inr x" and eq: "hit' = hit" "v' = v" and res: "res = result_of wall hit v s'"
      by (cases u; auto)+
    from t(1) [OF ended(1)] have "ends_ok 0 (lv_max_turns env) (hit, v) s1" by (simp add: eq start_vars_def)
    moreover from ended(3) have "ls_sent s1 = ls_sent s'" "ls_stop s1 = ls_stop s'"
      by (metis loop_state.simps loop_state.surjective)+
    ultimately show ?thesis using ends_ok_cong res by blast
  qed simp
  then show "ends_ok 0 (lv_max_turns env) (hit, v) s'" "res = result_of wall hit v s'" by simp_all
qed

lemma run_sent:
  assumes "conversation ms" "ls_sent s = []" "run_loop env now wall sys ms s = (r, s')"
  shows "sent_ok s'"
proof -
  have s: "sent_ok (fresh_state s)" "sent_ok s" using assms(2) by (simp_all add: fresh_state_def sent_ok_def)
  note t = tripleD [OF run_turns_ok [OF start_vars_ok [OF assms(1)], where env = env and sys = sys and k = "lv_max_turns env"] s(1)]
  from assms(3) show ?thesis
  proof (cases rule: run_loop_cases)
    case (raised e)
    with t(2) show ?thesis by blast
  next
    case (ended hit v s1 u)
    from t(1) [OF ended(1)] have "sent_ok s1" by (simp add: ends_ok_def)
    moreover from ended(3) have "ls_sent s1 = ls_sent s'" by (metis loop_state.simps loop_state.surjective)
    ultimately show ?thesis by (simp add: sent_ok_def)
  qed
qed

text \<open>C23: Every request of a run is a conversation the provider accepts. Whatever the streams
  deliver and the tools return, with interrupts, nudges, failing candidates, degraded images and
  compactions, and also in a run that ends with an exception: in each conversation sent, every
  assistant message keeps its thinking first, and every tool call is answered, in order, by the
  next message and nowhere else. The conversation the run leaves is of this form too.\<close>

theorem requests_well_formed:
  assumes "conversation ms" "ls_sent s = []" "run_loop env now wall sys ms s = (r, s')"
  shows "list_all well_paired (ls_sent s') \<and> (case r of Inl e \<Rightarrow> True | Inr (hit, v, res) \<Rightarrow> conversation (rv_messages v))"
proof -
  have s: "sent_ok s" using assms(2) by (simp add: sent_ok_def)
  have sent: "sent_ok s'" by (rule run_sent [OF assms])
  have "conversation (rv_messages v)" if "r = Inr (hit, v, res)" for hit v res
    using run_ends(1) [OF assms(1) s assms(3) [unfolded that]] by (simp add: ends_ok_def left_ok_def)
  with sent show ?thesis by (auto simp: sent_ok_def split: sum.split)
qed

lemma requests_well_formed_witness:
  "\<exists>r s. run_loop sample_loop 0 5 [] sample_task_msgs sample_state = (r, s)
     \<and> length (ls_sent s) = 4 \<and> list_all well_paired (ls_sent s)"
proof -
  obtain hit v res s where r: "run_loop sample_loop 0 5 [] sample_task_msgs sample_state = (Inr (hit, v, res), s)"
    "length (ls_sent s) = 4" by (rule sample_run)
  with requests_well_formed [OF sample_conversation sample_sent r(1)] show ?thesis by auto
qed

text \<open>C24: The limits of a run hold and its status tells how it ended. A run takes at most
  \<open>max_turns\<close> turns, at most two silent-turn nudges and at most three compactions. Without a stop
  request, \<open>completed\<close> means that the model ended its turn itself and that the wakeup called a
  user-facing tool or no tool at all; a run that used up its turns is always \<open>needs_continuation\<close>;
  \<open>silent_close\<close> means that tools were called and the nudges are used up.\<close>

theorem status_tells_ending:
  assumes "conversation ms" "ls_sent s = []" "run_loop env now wall sys ms s = (Inr (hit, v, res), s')"
  shows "rv_turns v \<le> lv_max_turns env \<and> rv_nudges v \<le> 2 \<and> rv_compactions v \<le> 3
     \<and> (ls_stop s' = None \<longrightarrow>
          (hit \<longrightarrow> lr_status res = ''needs_continuation'' \<and> rv_turns v = lv_max_turns env)
        \<and> (lr_status res = ''completed'' \<longrightarrow> rv_stop_reason v = Some ''end_turn''
             \<and> (rv_calls v = [] \<or> user_facing (rv_calls v)))
        \<and> (lr_status res = ''silent_close'' \<longrightarrow> rv_calls v \<noteq> [] \<and> rv_nudges v = 2))
     \<and> (\<forall>target reason. ls_stop s' = Some (target, reason) \<longrightarrow> lr_status res = target)"
proof -
  have s: "sent_ok s" using assms(2) by (simp add: sent_ok_def)
  note e = run_ends [OF assms(1) s assms(3)]
  from e(1) show ?thesis
    by (auto simp: e(2) ends_ok_def left_ok_def settled_def result_of_def final_status_def is_silent_close_def
        max_silent_turn_nudges_def max_compactions_def split: if_splits)
qed

lemma status_tells_ending_witness:
  "\<exists>hit v res s. run_loop sample_loop 0 5 [] sample_task_msgs sample_state = (Inr (hit, v, res), s)
     \<and> lr_status res = ''silent_close'' \<and> rv_nudges v = 2"
proof -
  obtain hit v res s where r: "run_loop sample_loop 0 5 [] sample_task_msgs sample_state = (Inr (hit, v, res), s)"
    "is_silent_close hit v s" "lr_status res = ''silent_close''" by (rule sample_run)
  from r(2) have "ls_stop s = None" by (simp add: is_silent_close_def)
  with status_tells_ending [OF sample_conversation sample_sent r(1)] r show ?thesis by auto
qed

section \<open>Who is told about a silent close\<close>

text \<open>
  Read off the recorded results of a run: \<open>a\<close> is a sender whose mail the wakeup read when a successful
  \<open>mailbox_read\<close> of it returned an inbox listing that it marked as read, with an entry from \<open>a\<close>.
\<close>

definition read_from :: "(string \<Rightarrow> json option) \<Rightarrow> run_vars \<Rightarrow> string \<Rightarrow> bool" where
  "read_from loads v a \<longleftrightarrow> a \<noteq> [] \<and> (\<exists>tu answer view d ms m.
     (tu, answer, False, view) \<in> set (rv_results v) \<and> tu_name tu = ''mailbox_read''
     \<and> parse_dict loads answer = Some d
     \<and> (dget d ''box'' = None \<or> dget d ''box'' = Some (JStr ''inbox'')) \<and> otruthy (dget d ''auto_marked_read'')
     \<and> dget d ''messages'' = Some (JArr ms) \<and> JObj m \<in> set ms \<and> dget m ''sender'' = Some (JStr a))"

text \<open>The outbox row of an apology to \<open>a\<close>, and the mail the dispatcher makes of it.\<close>

definition apology :: "tool_ctx \<Rightarrow> string \<Rightarrow> outbox_row \<Rightarrow> bool" where
  "apology c a row \<longleftrightarrow> ob_kind row = KMailboxSend \<and> ob_wakeup row = Some (tc_wakeup c)
     \<and> ob_external row = ''silent-close:'' @ tc_wakeup c @ '':'' @ a
     \<and> (\<exists>m front rest. mail_of_row row = Inr m \<and> msg_recipient m = a
          \<and> msg_sender m = (if self_mailbox c = [] then ''system'' else self_mailbox c)
          \<and> msg_urgency m = UHigh \<and> msg_task m = Some (tc_task c) \<and> msg_external m = ob_external row
          \<and> msg_title m = Some (''[silent-close] '' @ self_mailbox c @ '' couldn't compose a reply'')
          \<and> msg_body m = front @ ''This wakeup ('' @ self_mailbox c
               @ '') read your mail but exhausted the silent-turn nudge budget without composing a reply.'' @ rest
               @ ''check the wakeup transcript (id='' @ tc_wakeup c @ '') for root cause.''
          \<and> oget (msg_meta m) ''silent_close'' = Some (JBool True)
          \<and> oget (msg_meta m) ''wakeup_id'' = Some (JStr (tc_wakeup c)))"

lemma entry_senders_iff:
  "a \<in> set (entry_senders ms) \<longleftrightarrow> a \<noteq> [] \<and> (\<exists>m. JObj m \<in> set ms \<and> dget m ''sender'' = Some (JStr a))"
proof (induction ms)
  case (Cons j ms)
  then show ?case
    by (cases j) (auto simp: entry_senders_def List.map_filter_simps neq_Nil_conv
        split: option.splits json.splits list.splits)
qed (simp add: entry_senders_def List.map_filter_simps)

lemma askers_iff:
  "a \<in> set (askers_from_mailbox_read loads t) \<longleftrightarrow> a \<noteq> [] \<and> (\<exists>d ms m. parse_dict loads t = Some d
     \<and> (dget d ''box'' = None \<or> dget d ''box'' = Some (JStr ''inbox'')) \<and> otruthy (dget d ''auto_marked_read'')
     \<and> dget d ''messages'' = Some (JArr ms) \<and> JObj m \<in> set ms \<and> dget m ''sender'' = Some (JStr a))"
proof (cases "parse_dict loads t")
  case (Some d)
  show ?thesis
  proof (cases "get_or d ''box'' (JStr ''inbox'') \<noteq> JStr ''inbox'' \<or> \<not> otruthy (dget d ''auto_marked_read'')")
    case True
    then show ?thesis by (auto simp: askers_from_mailbox_read_def Some get_or_def split: option.splits)
  next
    case False
    then have b: "dget d ''box'' = None \<or> dget d ''box'' = Some (JStr ''inbox'')" "otruthy (dget d ''auto_marked_read'')"
      by (auto simp: get_or_def split: option.splits)
    have m: "askers_from_mailbox_read loads t = (case dget d ''messages'' of Some (JArr ms) \<Rightarrow> entry_senders ms | _ \<Rightarrow> [])"
      using False by (simp add: askers_from_mailbox_read_def Some)
    show ?thesis
    proof (cases "\<exists>ms. dget d ''messages'' = Some (JArr ms)")
      case True
      then obtain ms where "dget d ''messages'' = Some (JArr ms)" by blast
      with b show ?thesis by (simp add: m Some entry_senders_iff)
    next
      case False
      then show ?thesis
        by (cases "dget d ''messages''"; cases "the (dget d ''messages'')") (simp_all add: m Some)
    qed
  qed
qed (simp add: askers_from_mailbox_read_def)

text \<open>While the calls \<open>tus\<close> of a turn are to be dispatched: every other call has its recorded
  result, and the askers are those the results name.\<close>

definition reading :: "(string \<Rightarrow> json option) \<Rightarrow> tool_use list \<Rightarrow> run_vars \<Rightarrow> bool" where
  "reading loads tus v \<longleftrightarrow> map fst (rv_results v) @ tus = rv_calls v \<and> distinct (rv_askers v)
     \<and> (\<forall>a. a \<in> set (rv_askers v) \<longleftrightarrow> read_from loads v a)"

definition same_reading :: "run_vars \<Rightarrow> run_vars \<Rightarrow> bool" where
  "same_reading v w \<longleftrightarrow> rv_results w = rv_results v \<and> rv_askers w = rv_askers v \<and> rv_calls w = rv_calls v"

lemma same_reading: "same_reading v w \<Longrightarrow> reading loads tus w = reading loads tus v"
  by (simp add: same_reading_def reading_def read_from_def)

lemma reading_note:
  assumes "reading loads (tu # tus) v"
  shows "reading loads tus (note_call loads tu r v)"
proof -
  obtain t err view where r: "r = (t, err, view)" by (cases r)
  have res: "rv_results (note_call loads tu r v) = rv_results v @ [(tu, t, err, view)]"
    "rv_askers (note_call loads tu r v) = (if tu_name tu = ''mailbox_read'' \<and> \<not> err
       then add_all (askers_from_mailbox_read loads t) (rv_askers v) else rv_askers v)"
    by (simp_all add: note_call_def r)
  have "read_from loads (note_call loads tu r v) a \<longleftrightarrow> read_from loads v a
      \<or> (tu_name tu = ''mailbox_read'' \<and> \<not> err \<and> a \<in> set (askers_from_mailbox_read loads t))" for a
    unfolding read_from_def askers_iff res(1) set_append by (simp only: Un_iff list.set insert_iff empty_iff prod.inject) blast
  then show ?thesis
    using assms by (auto simp: reading_def res add_all_def)
qed

definition flow_vars :: "flow \<Rightarrow> run_vars" where
  "flow_vars r = (case r of Next v \<Rightarrow> v | Leave v \<Rightarrow> v)"

lemma flow_vars_simps [simp]: "flow_vars (Next v) = v" "flow_vars (Leave v) = v"
  by (simp_all add: flow_vars_def)

abbreviation yields :: "('s, 'a) exec \<Rightarrow> ('a \<Rightarrow> bool) \<Rightarrow> bool" where
  "yields m Q \<equiv> triple (\<lambda>s. True) (\<lambda>s. True) m (\<lambda>a s. Q a)"

lemma yields_any: "yields m (\<lambda>a. True)"
  by (simp add: triple_def split: prod.split sum.split)

lemma yields_bnd:
  assumes "yields m R" "\<And>a. R a \<Longrightarrow> yields (f a) Q"
  shows "yields (bnd m f) Q"
proof (rule triple_bnd [OF assms(1)])
  fix a show "triple (\<lambda>s. True) (\<lambda>s. R a) (f a) (\<lambda>a s. Q a)"
    using assms(2) [of a] by (simp add: triple_def)
qed

lemma yields_then: "(\<And>a. yields (f a) Q) \<Longrightarrow> yields (bnd m f) Q"
  by (rule yields_bnd [OF yields_any]) blast

lemma yields_ret: "Q a \<Longrightarrow> yields (ret a) Q"
  by (simp add: triple_def ret_def)

lemma dispatch_all_reading:
  "reading (lv_loads env) tus v \<Longrightarrow>
     yields (dispatch_all env stop main tus v) (\<lambda>p. reading (lv_loads env) [] (snd p))"
proof (induction tus arbitrary: v)
  case (Cons tu tus)
  show ?case
    unfolding dispatch_all.simps seqn_def
  proof (rule yields_then, rule yields_then)
    fix r u
    show "yields (bnd (dispatch_all env stop main tus (note_call (lv_loads env) tu r v))
        (\<lambda>(bs, v'). ret (result_blocks tu r @ bs, v'))) (\<lambda>p. reading (lv_loads env) [] (snd p))"
      by (rule yields_bnd [OF Cons.IH [OF reading_note [OF Cons.prems]]]) (auto intro: yields_ret split: prod.split)
  qed
qed (simp add: yields_ret)

lemma say_reading [simp]: "reading loads tus (say bs v) = reading loads tus v"
  by (rule same_reading) (simp add: same_reading_def say_def)

lemma append_assistant_reading [simp]: "reading loads tus (append_assistant n v) = reading loads tus v"
  by (rule same_reading) (simp add: same_reading_def append_assistant_def Let_def)

lemma nudge_reading [simp]: "reading loads tus (nudge v) = reading loads tus v"
  by (rule same_reading) (simp add: same_reading_def nudge_def say_def)

lemma dispatch_calls_reading:
  assumes "reading (lv_loads env) (tn_uses n) v"
  shows "yields (dispatch_calls env main n v) (reading (lv_loads env) [])"
  unfolding dispatch_calls_def
  by (rule yields_bnd [OF dispatch_all_reading [OF assms]]) (auto intro: yields_ret split: prod.split)

lemma notice_reading:
  assumes "reading loads tus v"
  shows "yields (inject_notice place v) (reading loads tus)" "yields (notice_if_signalled place v) (reading loads tus)"
proof -
  have "reading loads tus (say bs v\<lparr>rv_interrupts := x\<rparr>)" for bs x
    using assms by (subst same_reading [of v]) (simp_all add: same_reading_def say_def)
  then show i: "yields (inject_notice place v) (reading loads tus)"
    by (auto simp: triple_def inject_notice_def split: option.split prod.split)
  with assms show "yields (notice_if_signalled place v) (reading loads tus)"
    by (simp add: triple_def notice_if_signalled_def)
qed

lemma guard_reading:
  assumes "reading loads [] v"
  shows "yields (dead_loop_guard env tus v) (\<lambda>r. reading loads [] (flow_vars r))"
proof -
  have "reading loads [] (count_repeat tus v)"
    using assms by (subst same_reading [of v]) (simp_all add: same_reading_def count_repeat_def)
  moreover have "reading loads [] (say bs (count_repeat tus v)\<lparr>rv_repeat_nudged := True\<rparr>)" for bs
    using assms by (subst same_reading [of v]) (simp_all add: same_reading_def count_repeat_def say_def)
  ultimately show ?thesis using assms by (simp add: triple_def dead_loop_guard_def Let_def)
qed

lemma compact_reading:
  assumes "reading loads [] v"
  shows "yields (compact_now env n v) (\<lambda>r. reading loads [] (flow_vars r))"
proof -
  have "reading loads [] (thrashed v)"
    using assms by (subst same_reading [of v]) (simp_all add: same_reading_def thrashed_def)
  moreover have "reading loads [] (v\<lparr>rv_messages := x, rv_compactions := y, rv_degraded := z\<rparr>)" for x y z
    using assms by (subst same_reading [of v]) (simp_all add: same_reading_def)
  ultimately show ?thesis using assms
    by (auto simp: triple_def compact_now_def Let_def split: option.split sum.split)
qed

lemma react_reading:
  assumes "reading (lv_loads env) (tn_uses n) v"
  shows "yields (react env n v) (\<lambda>r. reading (lv_loads env) [] (flow_vars r))"
proof -
  have a: "reading (lv_loads env) (tn_uses n) (append_assistant n v)" using assms by simp
  note d = dispatch_calls_reading [OF a]
  have "yields (interrupted_turn env n v) (\<lambda>r. reading (lv_loads env) [] (flow_vars r))"
    unfolding interrupted_turn_def
  proof (rule yields_bnd [where R = "reading (lv_loads env) []"])
    show "yields (if tn_uses n = [] then ret (append_assistant n v) else dispatch_calls env False n (append_assistant n v))
        (reading (lv_loads env) [])" using a d by (auto intro: yields_ret)
    show "yields (bnd (notice_if_signalled ''mid_stream'' w) (\<lambda>v2. ret (Next v2))) (\<lambda>r. reading (lv_loads env) [] (flow_vars r))"
      if "reading (lv_loads env) [] w" for w
      by (rule yields_bnd [OF notice_reading(2) [OF that]]) (simp add: yields_ret)
  qed
  moreover have "yields (final_turn n v) (\<lambda>r. reading (lv_loads env) [] (flow_vars r))" if "tn_uses n = []"
  proof -
    have v: "reading (lv_loads env) [] (append_assistant n v)" "reading (lv_loads env) [] v" using assms that by simp_all
    have "yields (bnd (inject_notice ''post_turn_before_break'' (append_assistant n v)) (\<lambda>v1. ret (Next v1)))
        (\<lambda>r. reading (lv_loads env) [] (flow_vars r))"
      by (rule yields_bnd [OF notice_reading(1) [OF v(1)]]) (simp add: yields_ret)
    with v show ?thesis by (simp add: triple_def final_turn_def)
  qed
  moreover have "yields (tool_turn env n v) (\<lambda>r. reading (lv_loads env) [] (flow_vars r))"
    unfolding tool_turn_def then_next_def
  proof (rule yields_bnd [OF d], rule yields_bnd [OF guard_reading], assumption)
    fix r assume "reading (lv_loads env) [] (flow_vars r)"
    then show "yields (case r of Next v2 \<Rightarrow> compact_now env n (if wants_nudge n v2 then nudge v2 else v2)
        | Leave v' \<Rightarrow> ret (Leave v')) (\<lambda>r. reading (lv_loads env) [] (flow_vars r))"
      by (cases r) (auto intro: yields_ret compact_reading)
  qed
  ultimately show ?thesis by (simp add: react_def)
qed

lemma one_turn_reading:
  assumes "reading (lv_loads env) [] v"
  shows "yields (one_turn env sys v) (\<lambda>r. reading (lv_loads env) [] (flow_vars r))"
proof -
  let ?v = "v\<lparr>rv_turns := rv_turns v + 1\<rparr>"
  have v: "reading (lv_loads env) [] ?v"
    using assms by (subst same_reading [of v]) (simp_all add: same_reading_def)
  have rec: "reading (lv_loads env) (tn_uses n) (record_turn n w)" if "reading (lv_loads env) [] w" for n w
    using that by (simp add: reading_def record_turn_def read_from_def)
  have go: "yields (bnd (notice_if_signalled ''pre_turn'' ?v) (\<lambda>v1.
      bnd (run_one_turn_with_fallback env (rv_messages v1)) (\<lambda>n0.
      bnd (step (settle_usage env sys (rv_messages v1) n0)) (\<lambda>n. react env n (record_turn n v1)))))
      (\<lambda>r. reading (lv_loads env) [] (flow_vars r))"
    by (rule yields_bnd [OF notice_reading(2) [OF v]], rule yields_then, rule yields_then, rule react_reading, rule rec)
  show ?thesis
    unfolding one_turn_def Let_def seqn_def
  proof (rule yields_then, rule yields_then)
    fix u stop
    show "yields (if stop \<noteq> None then ret (Leave ?v) else
        bnd (notice_if_signalled ''pre_turn'' ?v) (\<lambda>v1.
        bnd (run_one_turn_with_fallback env (rv_messages v1)) (\<lambda>n0.
        bnd (step (settle_usage env sys (rv_messages v1) n0)) (\<lambda>n. react env n (record_turn n v1)))))
        (\<lambda>r. reading (lv_loads env) [] (flow_vars r))"
      by (rule triple_if) (use go v in \<open>auto intro: yields_ret\<close>)
  qed
qed

lemma run_turns_reading:
  "reading (lv_loads env) [] v \<Longrightarrow> yields (run_turns env sys k v) (\<lambda>p. reading (lv_loads env) [] (snd p))"
proof (induction k arbitrary: v)
  case (Suc k)
  show ?case
  proof (simp only: run_turns.simps, rule yields_bnd [OF one_turn_reading [OF Suc.prems]])
    fix r assume "reading (lv_loads env) [] (flow_vars r)"
    then show "yields (case r of Next v' \<Rightarrow> run_turns env sys k v' | Leave v' \<Rightarrow> ret (False, v'))
        (\<lambda>p. reading (lv_loads env) [] (snd p))"
      by (cases r) (auto intro: yields_ret Suc.IH)
  qed
qed (simp add: yields_ret)

lemma start_reading: "reading loads [] (start_vars ms)"
  by (simp add: reading_def start_vars_def read_from_def)

lemma silent_body_says:
  "\<exists>front rest. silent_body c v = front @ ''This wakeup ('' @ self_mailbox c
     @ '') read your mail but exhausted the silent-turn nudge budget without composing a reply.'' @ rest
     @ ''check the wakeup transcript (id='' @ tc_wakeup c @ '') for root cause.''"
proof -
  obtain x more y where b: "silent_body c v = join newline ((x # [] # (''This wakeup ('' @ self_mailbox c
      @ '') read your mail but exhausted the silent-turn nudge budget without composing a reply.'') # more) @ [y])"
    "y = ''Please re-ask if you still need an answer. Operator: '' @ ''check the wakeup transcript (id=''
       @ tc_wakeup c @ '') for root cause.''"
  proof (rule that)
    let ?tools = "''Tools called this wakeup ('' @ digits_of (length (rv_calls v)) @ '' total): '' @ tool_summary (rv_calls v)"
    show "silent_body c v = join newline (((bytes [226, 154, 160] @ '' [Lyre silent-close fallback '' @ bytes [226, 128, 148]
        @ '' system-generated]'') # [] # (''This wakeup ('' @ self_mailbox c
      @ '') read your mail but exhausted the silent-turn nudge budget without composing a reply.'')
        # [] # (?tools) # last_text_lines (rv_text v) @ [[]]) @ [''Please re-ask if you still need an answer. Operator: ''
        @ ''check the wakeup transcript (id='' @ tc_wakeup c @ '') for root cause.''])"
      by (simp add: silent_body_def)
  qed simp
  show ?thesis
    unfolding b join_snoc
    by (intro exI [of _ "x @ newline @ newline"] exI [of _ "newline @ concat (map (\<lambda>x. x @ newline) more)
        @ ''Please re-ask if you still need an answer. Operator: ''"]) simp
qed

lemma apology_key: "apology c a row \<Longrightarrow> ob_external row = silent_key c a"
  unfolding apology_def silent_key_def by (elim conjE)

lemma silent_row_apology:
  assumes "a \<noteq> []"
  shows "apology c a (silent_row c v a)"
proof -
  let ?row = "silent_row c v a"
  have row: "ob_kind ?row = KMailboxSend" "ob_wakeup ?row = Some (tc_wakeup c)" "ob_external ?row = silent_key c a"
    by (simp_all add: silent_row_def new_outbox_row_def)
  have k: "silent_key c a \<noteq> []" by (simp add: silent_key_def)
  obtain front rest where b: "silent_body c v = front @ ''This wakeup ('' @ self_mailbox c
     @ '') read your mail but exhausted the silent-turn nudge budget without composing a reply.'' @ rest
     @ ''check the wakeup transcript (id='' @ tc_wakeup c @ '') for root cause.''"
    using silent_body_says by blast
  define body where "body = silent_body c v"
  define title where "title = ''[silent-close] '' @ self_mailbox c @ '' couldn't compose a reply''"
  define meta where "meta = [(''silent_close'', JBool True), (''tool_call_count'', JInt (int (length (rv_calls v)))),
           (''wakeup_id'', JStr (tc_wakeup c))]"
  have p: "ob_payload ?row = [(''recipient'', JStr a), (''sender'', JStr (self_mailbox c)), (''urgency'', JStr ''high''),
        (''title'', JStr title), (''body'', JStr body), (''task_id'', JStr (tc_task c)),
        (''external_id'', JStr (silent_key c a)), (''parent_msg_id'', JNull), (''broadcast_id'', JNull),
        (''recipients_all'', JNull), (''metadata'', JObj meta)]" "ob_task ?row = Some (tc_task c)"
    by (simp_all add: silent_row_def new_outbox_row_def body_def title_def meta_def)
  define m where "m = \<lparr>msg_id = None, msg_recipient = a, msg_external = silent_key c a,
      msg_sender = (if self_mailbox c = [] then ''system'' else self_mailbox c), msg_urgency = UHigh,
      msg_title = Some title, msg_body = body, msg_task = Some (tc_task c), msg_parent = None, msg_broadcast = None,
      msg_recipients_all = None, msg_meta = Some meta, msg_delivered = None, msg_read = None,
      msg_attachments = None, msg_reactions = None\<rparr>"
  have "body \<noteq> []" by (simp add: body_def b)
  then have m: "mail_of_row ?row = Inr m"
    using assms k unfolding mail_of_row_def p row Let_def m_def
    by (simp add: otruthy_def str_or_def opt_str_or_def opt_field_def urgency_field_def urgency_of_str_def not_none_def
        ebind_def)
  have f: "msg_recipient m = a" "msg_sender m = (if self_mailbox c = [] then ''system'' else self_mailbox c)"
    "msg_urgency m = UHigh" "msg_task m = Some (tc_task c)" "msg_external m = silent_key c a" "msg_title m = Some title"
    "msg_body m = silent_body c v" "msg_meta m = Some meta"
    by (simp_all add: m_def body_def)
  have g: "oget (Some meta) ''silent_close'' = Some (JBool True)" "oget (Some meta) ''wakeup_id'' = Some (JStr (tc_wakeup c))"
    by (simp_all add: meta_def oget_def)
  show ?thesis
    unfolding apology_def row
    by (intro conjI, rule refl, rule refl, simp add: silent_key_def, rule exI [of _ m], rule exI [of _ front], rule exI [of _ rest],
        intro conjI m f g refl)
      (simp_all only: f g b title_def)
qed

lemma run_loop_reading:
  assumes "run_loop env now wall sys ms s = (Inr (hit, v, res), s')"
  shows "reading (lv_loads env) [] v"
  using assms
proof (cases rule: run_loop_cases)
  case (ended hit' v' s1 u)
  then have "v' = v" by (cases u) auto
  with tripleD(1) [OF run_turns_reading [OF start_reading] _ ended(1)] show ?thesis by simp
qed simp

text \<open>The reply of the tool of the code: the unread mail of the inbox, which it marked as read.\<close>

lemma inbox_read_reply:
  assumes "mailbox_read t c args d = (Inr reply, d')" "dget args ''box'' = None" "\<not> otruthy (dget args ''include_read'')"
  shows "\<exists>q limit n mails. inbox_owner c args d = Inr q
     \<and> read_unread q (if otruthy (dget args ''only_blockers'') then Some ''blocker'' else None) limit (ensure_mailbox q d) = Inr mails
     \<and> d' = mark_messages_read (t div 1000) q (List.map_filter msg_id mails) (ensure_mailbox q d)
     \<and> reply = inbox_reply q (mails \<noteq> []) n mails"
proof -
  obtain limit where "read_inbox t c args limit d = (Inr reply, d')"
    using assms(1,2) by (auto simp: mailbox_read_def Let_def throw_def split: sum.splits)
  then show ?thesis
    using assms(3) by (auto simp: read_inbox_def check_Inr_iff seqn_def bnd_def upd_def ret_def split: prod.splits sum.splits) blast+
qed

lemma inbox_reply_read_from:
  assumes "(tu, Dumped (JObj (inbox_reply q True n mails)), False, view) \<in> set (rv_results v)" "tu_name tu = ''mailbox_read''"
    and "m \<in> set mails" "msg_sender m \<noteq> []"
  shows "read_from loads v (msg_sender m)"
proof -
  let ?d = "inbox_reply q True n mails"
  have d: "dget ?d ''box'' = Some (JStr ''inbox'')" "otruthy (dget ?d ''auto_marked_read'')"
    "dget ?d ''messages'' = Some (JArr (map inbox_entry mails))"
    by (simp_all add: inbox_reply_def dget_def otruthy_def)
  obtain e where e: "inbox_entry m = JObj e" "dget e ''sender'' = Some (JStr (msg_sender m))"
    by (simp add: inbox_entry_def dget_def)
  have "JObj e \<in> set (map inbox_entry mails)" using assms(3) e(1) by (metis image_eqI set_map)
  with assms d e show ?thesis
    unfolding read_from_def
    by (intro conjI exI [of _ tu] exI [of _ "Dumped (JObj ?d)"] exI [of _ view] exI [of _ ?d] exI [of _ "map inbox_entry mails"]
        exI [of _ e]) (simp_all add: parse_dict_def)
qed

text \<open>C25: A silent close leaves nobody waiting. When a run with a tool context ends as
  \<open>silent_close\<close>, the last thing it does is to queue one row for each sender whose mail it read: each
  name that the recorded result of a successful, marking \<open>mailbox_read\<close> of this run lists, other than
  the agent itself, and no other. The results recorded are those of all the calls of the run, in their
  order. Every row is an apology the dispatcher delivers to that sender, of high urgency, from the
  agent, naming the wakeup. In particular every sender in the reply of the modelled \<open>mailbox_read\<close> tool
  (\<open>inbox_reply\<close>, see \<open>inbox_read_reply\<close>) gets one.\<close>

theorem silent_close_apologises:
  assumes run: "run_loop env now wall sys ms s = (Inr (hit, v, res), s')" and ctx: "lv_ctx env = Some c"
    and silent: "lr_status res = ''silent_close''" "ls_stop s' = None"
  shows "map fst (rv_results v) = rv_calls v
     \<and> (\<exists>s1 rows. run_turns env sys (lv_max_turns env) (start_vars ms) (fresh_state s) = (Inr (hit, v), s1)
          \<and> outbox_enqueue now rows (ls_db s1) = (Inr (), ls_db s')
          \<and> distinct (map ob_external rows)
          \<and> (\<forall>a. (\<exists>row \<in> set rows. apology c a row) \<longleftrightarrow> read_from (lv_loads env) v a \<and> a \<noteq> self_mailbox c)
          \<and> (\<forall>row \<in> set rows. (\<exists>a. apology c a row) \<and> has_outbox KMailboxSend (ob_external row) (ls_db s'))
          \<and> (\<forall>tu view q n mails m. (tu, Dumped (JObj (inbox_reply q True n mails)), False, view) \<in> set (rv_results v)
               \<and> tu_name tu = ''mailbox_read'' \<and> m \<in> set mails \<and> msg_sender m \<noteq> [] \<and> msg_sender m \<noteq> self_mailbox c
               \<longrightarrow> (\<exists>row \<in> set rows. apology c (msg_sender m) row)))"
  using run
proof (cases rule: run_loop_cases)
  case (ended hit' v' s1 u)
  then obtain x where u: "u = Inr x" and eq: "hit' = hit" "v' = v" and res: "res = result_of wall hit v s'"
    by (cases u; auto)+
  from ended(3) have "ls_stop s1 = ls_stop s'" by (metis loop_state.simps loop_state.surjective)
  moreover have "is_silent_close hit v s'"
    using silent by (auto simp: res result_of_def final_status_def split: if_splits)
  ultimately have "is_silent_close hit v s1" by (simp add: is_silent_close_def)
  with ended(2) u eq have emit: "emit_silent_close env now v s1 = (Inr (), s')" by (simp add: run_if_def)
  let ?rows = "map (silent_row c v) (clean_askers c v)"
  have q: "outbox_enqueue now ?rows (ls_db s1) = (Inr (), ls_db s')"
    using emit ctx by (auto simp: emit_silent_close_def split: prod.splits if_splits)
  have r: "reading (lv_loads env) [] v"
    by (rule run_loop_reading [OF run])
  have key: "ob_external (silent_row c v a) = silent_key c a" "ob_kind (silent_row c v a) = KMailboxSend" for a
    by (simp_all add: silent_row_def new_outbox_row_def)
  have inj: "silent_key c a = silent_key c b \<longleftrightarrow> a = b" for a b by (simp add: silent_key_def)
  have nonempty: "read_from l w a \<Longrightarrow> a \<noteq> []" for l w a by (simp add: read_from_def)
  have clean: "a \<in> set (clean_askers c v) \<longleftrightarrow> read_from (lv_loads env) v a \<and> a \<noteq> self_mailbox c" for a
    using r nonempty [of "lv_loads env" v a] by (auto simp: clean_askers_def reading_def)
  have ap: "apology c a (silent_row c v b) \<longleftrightarrow> a = b" if "b \<in> set (clean_askers c v)" for a b
    using silent_row_apology [of b c v] that apology_key [of c a "silent_row c v b"]
    by (auto simp only: key inj clean_askers_def filter_set set_filter mem_Collect_eq)
  have dist: "distinct (map ob_external ?rows)"
    using r by (simp add: comp_def key distinct_map inj_on_def inj reading_def clean_askers_def)
  have exact: "\<forall>a. (\<exists>row \<in> set ?rows. apology c a row) \<longleftrightarrow> read_from (lv_loads env) v a \<and> a \<noteq> self_mailbox c"
    using ap by (auto simp flip: clean)
  have each: "\<forall>row \<in> set ?rows. (\<exists>a. apology c a row) \<and> has_outbox KMailboxSend (ob_external row) (ls_db s')"
  proof
    fix row assume row: "row \<in> set ?rows"
    from row ap have "\<exists>a. apology c a row" by auto
    moreover have "ob_kind row = KMailboxSend" using row key by auto
    ultimately show "(\<exists>a. apology c a row) \<and> has_outbox KMailboxSend (ob_external row) (ls_db s')"
      using enqueue_has [OF _ row, of now "ls_db s1"] q by simp
  qed
  have listed: "\<forall>tu view q n mails m. (tu, Dumped (JObj (inbox_reply q True n mails)), False, view) \<in> set (rv_results v)
      \<and> tu_name tu = ''mailbox_read'' \<and> m \<in> set mails \<and> msg_sender m \<noteq> [] \<and> msg_sender m \<noteq> self_mailbox c
      \<longrightarrow> (\<exists>row \<in> set ?rows. apology c (msg_sender m) row)"
  proof (intro allI impI, elim conjE)
    fix tu view q n mails m
    assume "(tu, Dumped (JObj (inbox_reply q True n mails)), False, view) \<in> set (rv_results v)" "tu_name tu = ''mailbox_read''"
      "m \<in> set mails" "msg_sender m \<noteq> []" and other: "msg_sender m \<noteq> self_mailbox c"
    then have "read_from (lv_loads env) v (msg_sender m)" by (intro inbox_reply_read_from)
    from iffD2 [OF spec [OF exact] conjI [OF this other]] show "\<exists>row \<in> set ?rows. apology c (msg_sender m) row" .
  qed
  have turns: "run_turns env sys (lv_max_turns env) (start_vars ms) (fresh_state s) = (Inr (hit, v), s1)"
    using ended(1) by (simp add: eq)
  have "map fst (rv_results v) = rv_calls v" using r by (simp add: reading_def)
  then show ?thesis
    by (intro conjI exI [of _ s1] exI [of _ ?rows] turns q dist exact each listed)
qed simp

lemma silent_close_apologises_witness:
  "\<exists>r s row m. run_loop sample_loop 0 5 [] sample_task_msgs sample_state = (r, s)
     \<and> has_outbox KMailboxSend (ob_external row) (ls_db s) \<and> mail_of_row row = Inr m \<and> msg_recipient m = ''owner''
     \<and> msg_sender m = ''worker/a'' \<and> msg_urgency m = UHigh"
proof -
  have c: "lv_ctx sample_loop = Some (sample_ctx ''worker/a'')" by (simp add: sample_loop_def)
  obtain hit v res s where r: "run_loop sample_loop 0 5 [] sample_task_msgs sample_state = (Inr (hit, v, res), s)"
    "is_silent_close hit v s" "''owner'' \<in> set (rv_askers v)" "lr_status res = ''silent_close''"
    by (rule sample_run)
  have self: "self_mailbox (sample_ctx ''worker/a'') = ''worker/a''" by (simp add: sample_ctx_def self_mailbox_def present_def)
  have stop: "ls_stop s = None" using r(2) by (simp add: is_silent_close_def)
  obtain rows where rows:
    "\<forall>a. (\<exists>row \<in> set rows. apology (sample_ctx ''worker/a'') a row) \<longleftrightarrow> read_from (lv_loads sample_loop) v a \<and> a \<noteq> ''worker/a''"
    "\<forall>row \<in> set rows. (\<exists>a. apology (sample_ctx ''worker/a'') a row) \<and> has_outbox KMailboxSend (ob_external row) (ls_db s)"
    using silent_close_apologises [OF r(1) c r(4) stop, unfolded self] by (elim conjE exE) (rule that; assumption)
  have "reading (lv_loads sample_loop) [] v" by (rule run_loop_reading [OF r(1)])
  with r(3) have "read_from (lv_loads sample_loop) v ''owner''" by (simp add: reading_def)
  moreover have "''owner'' \<noteq> ''worker/a''" by simp
  ultimately obtain row where row: "row \<in> set rows" "apology (sample_ctx ''worker/a'') ''owner'' row" using rows(1) by blast
  obtain m where "mail_of_row row = Inr m" "msg_recipient m = ''owner''" "msg_sender m = ''worker/a''" "msg_urgency m = UHigh"
    using row(2) unfolding apology_def self by (elim conjE exE) (rule that; simp)
  moreover have "has_outbox KMailboxSend (ob_external row) (ls_db s)" using rows(2) row(1) by blast
  ultimately show ?thesis using r(1) by blast
qed

end
