(* ===== verification/Loop_Facts.thy ===== *)
theory Loop_Facts
  imports Loop_Safety
begin

text \<open>
  More of the agent loop: where a turn comes from when candidates fail, a model that repeats itself,
  the call cut by the token budget that an interrupt lets through, and the call that blocks every
  compaction.
\<close>

section \<open>Where a turn comes from\<close>

definition logged_model :: "fallback \<Rightarrow> string" where
  "logged_model f = (case f of CircuitSkip m \<Rightarrow> m | AdapterFailed m e \<Rightarrow> m | PreStream m e \<Rightarrow> m | MidStream m e k \<Rightarrow> m)"

definition is_midstream :: "fallback \<Rightarrow> bool" where
  "is_midstream f \<longleftrightarrow> (case f of MidStream m e k \<Rightarrow> True | _ \<Rightarrow> False)"

lemma consume_log: "consume xs any n s = (any', n', s') \<Longrightarrow> ls_fallbacks s' = ls_fallbacks s \<and> ls_kill s' = ls_kill s"
proof (induction xs any n s rule: consume.induct)
  case (2 a xs any n s)
  have "ls_fallbacks (meanwhile a s) = ls_fallbacks s \<and> ls_kill (meanwhile a s) = ls_kill s"
    by (cases a) (simp_all add: request_stop_def)
  with 2 show ?case by simp
qed (auto split: if_splits)

lemma stream_from_log: "stream_from env c ms s = (e, any, n, s') \<Longrightarrow> ls_fallbacks s' = ls_fallbacks s"
  by (auto simp: stream_from_def Let_def split: prod.splits dest!: consume_log)

lemma log_simps [simp]:
  "ls_fallbacks (log_fallback f s) = ls_fallbacks s @ [f]" "ls_fallbacks (on_health g s) = ls_fallbacks s"
  by (simp_all add: log_fallback_def on_health_def)

lemma check_circuit_log: "check_circuit m s = (ok, s') \<Longrightarrow> ls_fallbacks s' = ls_fallbacks s"
  by (auto simp: check_circuit_def split: option.splits prod.splits)

text \<open>What the candidates before the successful one left: one entry each.\<close>

definition skipped :: "model_entry list \<Rightarrow> nat \<Rightarrow> nat \<Rightarrow> fallback list \<Rightarrow> bool" where
  "skipped cs k limit fs \<longleftrightarrow> map logged_model fs = map me_id cs \<and> k + length (filter is_midstream fs) \<le> max k limit"

lemma skipped_Cons:
  assumes "logged_model f = me_id c" "\<not> is_midstream f" "skipped cs k limit fs"
  shows "skipped (c # cs) k limit (f # fs)"
  using assms by (simp add: skipped_def)

lemma try_candidates_from:
  assumes "try_candidates env ms k cs s = (Inr n, s')"
  shows "\<exists>pre c post fs any s1 s2. cs = pre @ c # post \<and> ls_fallbacks s' = ls_fallbacks s @ fs
     \<and> skipped pre k (lv_retries env) fs \<and> stream_from env c ms s1 = (None, any, n, s2)"
  using assms
proof (induction cs arbitrary: k s)
  case Nil
  then show ?case by simp
next
  case (Cons c cs)
  obtain ok s1 where c: "check_circuit (me_id c) s = (ok, s1)" by (cases "check_circuit (me_id c) s")
  obtain err any m s2 where st: "stream_from env c ms s1 = (err, any, m, s2)" by (cases "stream_from env c ms s1")
  note log = check_circuit_log [OF c] stream_from_log [OF st]
  have next_one: ?case
    if h: "try_candidates env ms k' cs (log_fallback f x) = (Inr n, s')" "ls_fallbacks x = ls_fallbacks s"
      "logged_model f = me_id c" "k' = (if is_midstream f then k + 1 else k)" "k' \<le> max k (lv_retries env)" for f x k'
  proof -
    from Cons.IH [OF h(1)] obtain pre d post fs any s3 s4 where
      r: "cs = pre @ d # post" "ls_fallbacks s' = ls_fallbacks s @ [f] @ fs" "skipped pre k' (lv_retries env) fs"
        "stream_from env d ms s3 = (None, any, n, s4)"
      using h(2) by auto
    have "skipped (c # pre) k (lv_retries env) (f # fs)"
      using r(3) h(3-5) by (auto simp: skipped_def split: if_splits)
    with r show ?thesis
      by (intro exI [of _ "c # pre"] exI [of _ d] exI [of _ post] exI [of _ "f # fs"] exI [of _ any] exI [of _ s3] exI [of _ s4]) simp
  qed
  show ?case
  proof (cases "\<not> ok")
    case True
    with Cons.prems c have "try_candidates env ms k cs (log_fallback (CircuitSkip (me_id c)) s1) = (Inr n, s')" by simp
    from next_one [OF this] log show ?thesis by (simp add: logged_model_def is_midstream_def)
  next
    case ok: False
    show ?thesis
    proof (cases "lv_adapter env c")
      case (Some e)
      with Cons.prems c ok have "try_candidates env ms k cs (log_fallback (AdapterFailed (me_id c) e) s1) = (Inr n, s')"
        by (simp split: if_splits)
      from next_one [OF this] log show ?thesis by (simp add: logged_model_def is_midstream_def)
    next
      case None
      show ?thesis
      proof (cases err)
        case None
        with Cons.prems c ok \<open>lv_adapter env c = None\<close> st have
          "n = m" "s' = on_health (mark_success (ls_now s2) (me_id c)) s2" by auto
        with st None log show ?thesis
          by (intro exI [of _ "[]"] exI [of _ c] exI [of _ cs] exI [of _ "[]"] exI [of _ any] exI [of _ s1] exI [of _ s2])
            (simp add: skipped_def)
      next
        case (Some e)
        let ?h = "on_health (mark_failure (ls_now s2) (me_id c)) s2"
        have h: "ls_fallbacks ?h = ls_fallbacks s" using log by simp
        from Some Cons.prems c ok \<open>lv_adapter env c = None\<close> st consider
          "try_candidates env ms k cs (log_fallback (PreStream (me_id c) e) ?h) = (Inr n, s')"
        | "\<not> lv_retries env < k + 1" "try_candidates env ms (k + 1) cs (log_fallback (MidStream (me_id c) e (k + 1)) ?h) = (Inr n, s')"
          by (auto simp: Let_def split: if_splits)
        then show ?thesis
        proof cases
          case 1
          from next_one [OF 1 h] show ?thesis by (simp add: logged_model_def is_midstream_def)
        next
          case 2
          from next_one [OF 2(2) h] 2(1) show ?thesis by (simp add: logged_model_def is_midstream_def)
        qed
      qed
    qed
  qed
qed

lemma consume_new_turn:
  "consume xs any n s = (any', n', s') \<Longrightarrow> tn_model n' = tn_model n"
proof (induction xs any n s rule: consume.induct)
  case (3 e xs any n s)
  have "tn_model (add_event e n) = tn_model n" by (cases e) simp_all
  with 3 show ?case by (auto split: if_splits)
qed auto

text \<open>C26: A turn has one author. When a turn comes back, one candidate's stream, read from an empty
  turn on, gave all of it; nothing of a failed candidate is in it. The candidates before were tried
  in order, each left one entry in the log, and at most \<open>max_midstream_retries\<close> of them had
  failed after some output.\<close>

theorem turn_from_one_candidate:
  assumes "run_one_turn_with_fallback env ms s = (Inr n, s')"
  shows "\<exists>pre c post fs s1 any s2.
     lv_candidates env = pre @ c # post
     \<and> consume (fst (lv_stream env c (request_for c ms) (ls_db s1))) False (new_turn (me_id c))
         (s1\<lparr>ls_sent := ls_sent s1 @ [request_for c ms]\<rparr>) = (any, n, s2)
     \<and> tn_model n = me_id c
     \<and> ls_fallbacks s' = ls_fallbacks s @ fs \<and> map logged_model fs = map me_id pre
     \<and> length (filter is_midstream fs) \<le> lv_retries env"
proof -
  from try_candidates_from [OF assms [unfolded run_one_turn_with_fallback_def]] obtain pre c post fs any s1 s2 where
    r: "lv_candidates env = pre @ c # post" "ls_fallbacks s' = ls_fallbacks s @ fs"
      "skipped pre 0 (lv_retries env) fs" "stream_from env c ms s1 = (None, any, n, s2)" by blast
  obtain any' n' s3 where co: "consume (fst (lv_stream env c (request_for c ms) (ls_db s1))) False (new_turn (me_id c))
      (s1\<lparr>ls_sent := ls_sent s1 @ [request_for c ms]\<rparr>) = (any', n', s3)" by (rule prod_cases3)
  with r(4) have "n' = n" by (auto simp: stream_from_def Let_def split: prod.splits)
  then show ?thesis
    using co consume_new_turn [OF co] r
    by (intro exI [of _ pre] exI [of _ c] exI [of _ post] exI [of _ fs] exI [of _ s1] exI [of _ any'] exI [of _ s3])
      (simp add: skipped_def new_turn_def)
qed

definition failing_loop :: loop_env where
  "failing_loop = sample_loop
     \<lparr>lv_candidates := [sample_entry ''m0'' Cheap ''K'', sample_entry ''m1'' Cheap ''K''],
      lv_stream := (\<lambda>c req d. if me_id c = ''m0'' then ([Streamed (ContentDelta ''lost'')], Some (Exn ''APIError'' ''gone''))
                             else (sample_stream req, None))\<rparr>"

definition second_answers :: "(exn + turn) \<times> loop_state \<Rightarrow> bool" where
  "second_answers r \<longleftrightarrow> (case r of (Inr n, s) \<Rightarrow> tn_model n = ''m1'' \<and> tn_text n = []
      \<and> ls_fallbacks s = [MidStream ''m0'' (Exn ''APIError'' ''gone'') 1] | _ \<Rightarrow> False)"

lemma failing_second: "second_answers (run_one_turn_with_fallback failing_loop sample_task_msgs sample_state)"
  by code_simp

lemma turn_from_one_candidate_witness:
  "\<exists>n s'. run_one_turn_with_fallback failing_loop sample_task_msgs sample_state = (Inr n, s')
     \<and> tn_text n = [] \<and> (\<exists>pre c post. lv_candidates failing_loop = pre @ c # post \<and> tn_model n = me_id c)"
proof -
  obtain n s' where r: "run_one_turn_with_fallback failing_loop sample_task_msgs sample_state = (Inr n, s')" "tn_text n = []"
    using failing_second unfolding second_answers_def by (auto split: prod.splits sum.splits)
  from turn_from_one_candidate [OF r(1)] r show ?thesis by blast
qed

section \<open>The truncated call an interrupt runs\<close>

lemma say_frame: "ls_kill s = None \<Longrightarrow> kill_point armed s = (Inr (), s)"
  by (simp add: kill_point_def)

lemma dispatch_one:
  assumes "ls_kill s = None" "dispatch_tool env stop (main \<and> stop = Some ''max_tokens'') tu s = (Inr r, s')" "ls_kill s' = None"
    and "tn_uses n = [tu]" "tn_stop n = stop"
  shows "dispatch_calls env main n v s = (Inr (say (result_blocks tu r) (note_call (lv_loads env) tu r v)), s')"
  using assms say_frame [OF assms(3)]
  by (simp add: dispatch_calls_def bnd_def seqn_def ret_def suspect_of_def)

lemma meanwhile_kill [simp]: "ls_kill (meanwhile a s) = ls_kill s"
  by (cases a) (simp_all add: request_stop_def)

lemma fold_meanwhile_kill [simp]: "ls_kill (fold meanwhile as s) = ls_kill s"
  by (induction as arbitrary: s) simp_all

lemma dispatch_tool_kill: "dispatch_tool env stop suspect tu s = (r, s') \<Longrightarrow> ls_kill s' = ls_kill s"
  by (auto simp: dispatch_tool_def Let_def split: option.splits prod.splits sum.splits if_splits)

text \<open>Whether the arguments may run does not depend on why the turn ended, unless the call is
  suspect.\<close>

lemma refusal_stop: "refusal env tu stop False = None \<Longrightarrow> refusal env tu stop' False = None"
  by (auto simp: refusal_def split: option.splits if_splits)

lemma refusal_suspect: "refusal env tu stop False = None \<Longrightarrow> refusal env tu stop' True = Some (suspect_text (lv_max_tokens env) (tu_name tu))"
  by (auto simp: refusal_def split: option.splits if_splits)

definition cut_stream :: "tool_use \<Rightarrow> db \<Rightarrow> item list" where
  "cut_stream tu d = [Streamed (ToolUseComplete (tu_id tu) (tu_name tu) (tu_input tu)), Meanwhile (Polled d),
     Streamed (TurnComplete ''max_tokens'')]"

definition cut_turn :: "string \<Rightarrow> tool_use \<Rightarrow> bool \<Rightarrow> turn" where
  "cut_turn m tu b = (new_turn m)\<lparr>tn_uses := [tu], tn_stop := Some ''max_tokens'', tn_interrupted := b\<rparr>"

lemma consume_cut:
  assumes "ls_watch s = Some w" "\<not> mw_signal w"
  shows "consume (cut_stream tu d) False (new_turn m) s =
     (True, cut_turn m tu (mw_signal (watcher_poll d w) \<and> has_blocker_pending (watcher_poll d w)),
      s\<lparr>ls_db := d, ls_watch := Some (watcher_poll d w)\<rparr>)"
  using assms
  by (auto simp: cut_stream_def cut_turn_def blocker_waiting_def new_turn_def)

text \<open>An interrupt runs the call the token budget cut. The loop refuses the last call of a turn
  that ran out of output tokens, since a cut call may arrive as a shorter, valid one. When a blocker
  is noticed at the last event of such a turn, the turn takes the interrupt path, and there the
  call is run exactly as if the turn had been complete.\<close>

theorem interrupt_runs_truncated_call:
  assumes "ls_watch s = Some w" "\<not> mw_signal w" "ls_kill s = None" "refusal env tu None False = None"
  shows "\<exists>b s1. consume (cut_stream tu d) False (new_turn m) s = (True, cut_turn m tu b, s1)
     \<and> b = (mw_signal (watcher_poll d w) \<and> has_blocker_pending (watcher_poll d w)) \<and> ls_db s1 = d
     \<and> (\<forall>v. dispatch_calls env True (cut_turn m tu b) v s1
            = (let r = refused (suspect_text (lv_max_tokens env) (tu_name tu))
               in (Inr (say (result_blocks tu r) (note_call (lv_loads env) tu r v)), s1)))
     \<and> (\<forall>v. dispatch_calls env False (cut_turn m tu b) v s1
            = dispatch_calls env True (cut_turn m tu b\<lparr>tn_stop := Some ''tool_use''\<rparr>) v s1)"
proof -
  let ?b = "mw_signal (watcher_poll d w) \<and> has_blocker_pending (watcher_poll d w)"
  let ?s = "s\<lparr>ls_db := d, ls_watch := Some (watcher_poll d w)\<rparr>"
  let ?n = "cut_turn m tu ?b"
  have k: "ls_kill ?s = None" using assms(3) by simp
  have n: "tn_uses ?n = [tu]" "tn_stop ?n = Some ''max_tokens''" by (simp_all add: cut_turn_def)
  have main: "dispatch_calls env True ?n v ?s = (let r = refused (suspect_text (lv_max_tokens env) (tu_name tu))
      in (Inr (say (result_blocks tu r) (note_call (lv_loads env) tu r v)), ?s))" for v
    unfolding Let_def
    by (rule dispatch_one [OF k _ k n(1) refl])
      (simp add: n(2) dispatch_tool_def refusal_suspect [OF assms(4)])
  have "dispatch_tool env (Some ''max_tokens'') False tu ?s = dispatch_tool env (Some ''tool_use'') False tu ?s"
    by (simp add: dispatch_tool_def refusal_stop [OF assms(4)])
  then have "dispatch_calls env False ?n v ?s = dispatch_calls env True (?n\<lparr>tn_stop := Some ''tool_use''\<rparr>) v ?s" for v
    using dispatch_tool_kill say_frame k
    by (auto simp: n dispatch_calls_def bnd_def seqn_def ret_def suspect_of_def split: prod.split sum.split)
  with main consume_cut [OF assms(1,2), of tu d m] show ?thesis by auto
qed

definition urgent_db :: db where
  "urgent_db = mail_db [sample_mail_row 1 ''worker/a'' UBlocker]"

lemma interrupt_runs_truncated_call_witness:
  "\<exists>s1. consume (cut_stream \<lparr>tu_id = ''u1'', tu_name = ''mailbox_read'', tu_input = []\<rparr> urgent_db) False (new_turn ''m1'')
        (sample_state\<lparr>ls_watch := Some (new_watcher ''worker/a'' 0 UHigh)\<rparr>)
      = (True, cut_turn ''m1'' \<lparr>tu_id = ''u1'', tu_name = ''mailbox_read'', tu_input = []\<rparr> True, s1)
     \<and> (\<forall>v. dispatch_calls sample_loop False (cut_turn ''m1'' \<lparr>tu_id = ''u1'', tu_name = ''mailbox_read'', tu_input = []\<rparr> True) v s1
          = dispatch_calls sample_loop True (cut_turn ''m1'' \<lparr>tu_id = ''u1'', tu_name = ''mailbox_read'', tu_input = []\<rparr> True
              \<lparr>tn_stop := Some ''tool_use''\<rparr>) v s1)"
proof -
  let ?tu = "\<lparr>tu_id = ''u1'', tu_name = ''mailbox_read'', tu_input = []\<rparr>"
  let ?w = "new_watcher ''worker/a'' 0 UHigh"
  let ?s = "sample_state\<lparr>ls_watch := Some ?w\<rparr>"
  have b: "mw_signal (watcher_poll urgent_db ?w) \<and> has_blocker_pending (watcher_poll urgent_db ?w)"
    by (simp add: urgent_db_def watcher_poll_def watcher_sees_def read_messages_def mail_db_def has_blocker_pending_def
        sample_mail_row_def new_message_def new_watcher_def sql_limit_def order_by_def above_def row_to_msg_def
        message_row_of_def)
  have "refusal sample_loop ?tu None False = None"
    by (simp add: refusal_def sample_loop_def is_truncated_tool_args_def)
  from interrupt_runs_truncated_call [of ?s ?w sample_loop ?tu urgent_db "''m1''", OF _ _ _ this] b show ?thesis
    by (auto simp: sample_state_def new_watcher_def)
qed

section \<open>The call that blocks every compaction\<close>

text \<open>A malformed call blocks compaction for the rest of the wakeup. Once a \<open>dispatch_task\<close>
  call whose goal is neither a text nor a list (null, say; the tool answered it with an error) has
  moved into the turns to elide, every compaction raises \<open>TypeError\<close>, however the conversation
  grows; the loop logs it and goes on with the conversation as it is, over the threshold.\<close>

theorem malformed_goal_blocks:
  assumes "msg \<in> set (fresh ms (lv_keep env))" "m_role msg = RAssistant"
    and "BToolUse i ''dispatch_task'' input \<in> set (m_content msg)"
    and "dget input ''goal'' = Some g" "uncuttable g" "elides ms (lv_keep env)"
    and "rv_messages v = ms @ later" "over_threshold env n" "rv_compactions v < max_compactions"
    and "lv_adapter env (candidate_of env (tn_model n)) = None"
  shows "compact_messages ce (lv_keep env) wid (rv_messages v) = Inl not_subscriptable
     \<and> compact_now env n v s = (Inr (Next v), s)"
proof -
  have "is_kill not_subscriptable = False" by (simp add: is_kill_def not_subscriptable_def)
  then show ?thesis
    using malformed_goal_raises [OF assms(1-6)] assms(7-10)
    by (simp add: compact_now_def Let_def)
qed

definition hasty_msgs :: "message list" where
  "hasty_msgs =
     [user_msg [BText ''go''], assistant_msg [BToolUse ''u1'' ''dispatch_task'' [(''goal'', JNull)]],
      user_msg [BToolResult ''u1'' (Text ''goal must be a string'') True], assistant_msg [BText ''next'']]"

definition tight_loop :: loop_env where
  "tight_loop = sample_loop\<lparr>lv_keep := 1, lv_candidates := [(sample_entry ''m1'' Cheap ''K'')\<lparr>me_context_window := Some 10\<rparr>]\<rparr>"

lemma malformed_goal_blocks_witness:
  "compact_now tight_loop ((new_turn ''m1'')\<lparr>tn_input := 7\<rparr>) (start_vars (hasty_msgs @ [user_msg [BText ''and?'']])) sample_state
     = (Inr (Next (start_vars (hasty_msgs @ [user_msg [BText ''and?'']]))), sample_state)"
proof -
  let ?v = "start_vars (hasty_msgs @ [user_msg [BText ''and?'']])"
  have k: "lv_keep tight_loop = 1" by (simp add: tight_loop_def)
  have e: "elides hasty_msgs 1"
    by (simp add: elides_def find_pivot_def hasty_msgs_def eval_nat_numeral user_msg_def assistant_msg_def)
  have m: "assistant_msg [BToolUse ''u1'' ''dispatch_task'' [(''goal'', JNull)]] \<in> set (fresh hasty_msgs 1)"
    by (simp add: fresh_def elided_def find_pivot_def hasty_msgs_def eval_nat_numeral user_msg_def assistant_msg_def)
  have o: "over_threshold tight_loop ((new_turn ''m1'')\<lparr>tn_input := 7\<rparr>)"
    by (simp add: over_threshold_def context_window_for_def tight_loop_def sample_loop_def new_turn_def sample_entry_def)
  have "rv_messages ?v = hasty_msgs @ [user_msg [BText ''and?'']]" "rv_compactions ?v < max_compactions"
    by (simp_all add: start_vars_def max_compactions_def)
  from malformed_goal_blocks [of _ hasty_msgs tight_loop, unfolded k, OF m _ _ _ _ e this(1) o this(2),
      where i = "''u1''" and input = "[(''goal'', JNull)]" and g = JNull]
  show ?thesis
    by (simp add: assistant_msg_def dget_def uncuttable_def tight_loop_def sample_loop_def)
qed

section \<open>A model that repeats itself\<close>

definition stream_uses :: "item list \<Rightarrow> tool_use list" where
  "stream_uses xs = List.map_filter (\<lambda>x. case x of
     Streamed (ToolUseComplete i name input) \<Rightarrow> Some \<lparr>tu_id = i, tu_name = name, tu_input = input\<rparr> | _ \<Rightarrow> None) xs"

text \<open>Whatever it is sent, the model calls the same tools with the same arguments; the ids, the
  texts, the order and everything else may differ.\<close>

definition repeats_itself :: "loop_env \<Rightarrow> (string \<times> json) multiset \<Rightarrow> bool" where
  "repeats_itself env fp \<longleftrightarrow> fp \<noteq> {#}
     \<and> (\<forall>c req d. fingerprint (stream_uses (fst (lv_stream env c req d))) = fp)"

definition unwatched :: "loop_state \<Rightarrow> bool" where
  "unwatched s \<longleftrightarrow> ls_watch s = None"

lemma meanwhile_unwatched: "unwatched s \<Longrightarrow> unwatched (meanwhile a s)"
  by (cases a) (simp_all add: unwatched_def request_stop_def)

lemma fold_meanwhile_unwatched: "unwatched s \<Longrightarrow> unwatched (fold meanwhile as s)"
  by (induction as arbitrary: s) (simp_all add: meanwhile_unwatched)

lemma unwatched_still [simp]:
  "unwatched s \<Longrightarrow> \<not> blocker_waiting s" "unwatched s \<Longrightarrow> \<not> signalled s"
  by (simp_all add: unwatched_def blocker_waiting_def signalled_def)

lemma add_event_uses:
  "tn_uses (add_event e n) = tn_uses n @ stream_uses [Streamed e]" "tn_interrupted (add_event e n) = tn_interrupted n"
  by (cases e; simp add: stream_uses_def List.map_filter_simps)+

lemma stream_uses_Cons: "stream_uses (x # xs) = stream_uses [x] @ stream_uses xs"
  by (simp add: stream_uses_def List.map_filter_simps split: option.split)

lemma consume_unwatched:
  "consume xs any n s = (any', n', s') \<Longrightarrow> unwatched s
   \<Longrightarrow> unwatched s' \<and> tn_uses n' = tn_uses n @ stream_uses xs \<and> tn_interrupted n' = tn_interrupted n"
proof (induction xs any n s rule: consume.induct)
  case (1 any n s)
  then show ?case by (simp add: stream_uses_def List.map_filter_simps)
next
  case (2 a xs any n s)
  then show ?case
    using meanwhile_unwatched by (simp add: stream_uses_Cons [of _ xs]) (simp add: stream_uses_def List.map_filter_simps)
next
  case (3 e xs any n s)
  then show ?case by (simp add: stream_uses_Cons [of _ xs] add_event_uses)
qed

definition same_calls :: "(string \<times> json) multiset \<Rightarrow> turn \<Rightarrow> bool" where
  "same_calls fp n \<longleftrightarrow> fingerprint (tn_uses n) = fp \<and> \<not> tn_interrupted n"

lemma stream_from_repeats:
  assumes "repeats_itself env fp" "stream_from env c ms s = (e, any, n, s')" "unwatched s"
  shows "same_calls fp n \<and> unwatched s'"
proof -
  obtain xs x where xs: "lv_stream env c (request_for c ms) (ls_db s) = (xs, x)" by (cases "lv_stream env c (request_for c ms) (ls_db s)")
  then have "fingerprint (stream_uses xs) = fp" using assms(1) by (metis fst_conv repeats_itself_def)
  moreover have "unwatched (s\<lparr>ls_sent := y\<rparr>)" for y using assms(3) by (simp add: unwatched_def)
  ultimately show ?thesis
    using assms(2) xs by (auto simp: stream_from_def Let_def same_calls_def new_turn_def split: prod.splits dest!: consume_unwatched)
qed

lemma try_candidates_repeats:
  assumes "repeats_itself env fp" "try_candidates env ms k cs s = (r, s')" "unwatched s"
  shows "unwatched s' \<and> (\<forall>n. r = Inr n \<longrightarrow> same_calls fp n)"
  using assms(2,3)
proof (induction cs arbitrary: k s)
  case (Cons c cs)
  obtain ok s1 where c: "check_circuit (me_id c) s = (ok, s1)" by (cases "check_circuit (me_id c) s")
  then have s1: "unwatched s1" using Cons.prems(2)
    by (auto simp: check_circuit_def unwatched_def split: option.splits prod.splits)
  have lf: "unwatched (log_fallback f x) = unwatched x" "unwatched (on_health g x) = unwatched x" for f g x
    by (simp_all add: log_fallback_def on_health_def unwatched_def)
  obtain err any n s2 where st: "stream_from env c ms s1 = (err, any, n, s2)" by (cases "stream_from env c ms s1")
  from stream_from_repeats [OF assms(1) st s1] have n: "same_calls fp n" "unwatched s2" by auto
  show ?case
    using Cons.prems(1) s1 n Cons.IH
    by (auto simp: c st lf Let_def split: option.splits if_splits)
qed (auto simp: all_failed_def)

text \<open>The parts of the loop's variables the dead-loop guard uses.\<close>

definition guard_vars :: "run_vars \<Rightarrow> nat \<times> (string \<times> json) multiset option \<times> nat \<times> bool" where
  "guard_vars v = (rv_turns v, rv_fingerprint v, rv_repeats v, rv_repeat_nudged v)"

lemma guard_vars_frame [simp]:
  "guard_vars (say bs v) = guard_vars v" "guard_vars (append_assistant n v) = guard_vars v"
  "guard_vars (note_call ld tu r v) = guard_vars v" "guard_vars (record_turn n v) = guard_vars v"
  "guard_vars (nudge v) = guard_vars v" "guard_vars (thrashed v) = guard_vars v"
  by (simp_all add: guard_vars_def say_def append_assistant_def Let_def note_call_def record_turn_def nudge_def
      thrashed_def split: prod.split)

abbreviation anyhow :: "loop_state \<Rightarrow> bool" where "anyhow \<equiv> \<lambda>_. True"

lemma dispatch_tool_unwatched: "triple anyhow unwatched (dispatch_tool env stop suspect tu) (\<lambda>_. unwatched)"
proof (rule tripleI)
  fix s r s' assume "unwatched s" "dispatch_tool env stop suspect tu s = (Inr r, s')"
  moreover have "unwatched (s\<lparr>ls_db := d\<rparr>)" for d using \<open>unwatched s\<close> by (simp add: unwatched_def)
  ultimately show "unwatched s'"
    by (auto simp: dispatch_tool_def Let_def fold_meanwhile_unwatched split: option.splits prod.splits sum.splits if_splits)
qed simp

lemma kill_point_unwatched: "triple anyhow unwatched (kill_point armed) (\<lambda>_. unwatched)"
  by (rule tripleI) (auto simp: kill_point_def unwatched_def split: option.splits prod.splits if_splits)

lemma dispatch_all_guard:
  "triple anyhow unwatched (dispatch_all env stop main tus v) (\<lambda>p s. unwatched s \<and> guard_vars (snd p) = guard_vars v)"
proof (induction tus arbitrary: v)
  case Nil
  then show ?case by (auto intro!: triple_ret)
next
  case (Cons tu tus)
  show ?case
  proof (simp only: dispatch_all.simps, rule triple_bnd [OF dispatch_tool_unwatched], rule triple_seqn [OF kill_point_unwatched])
    fix r
    show "triple anyhow unwatched (bnd (dispatch_all env stop main tus (note_call (lv_loads env) tu r v))
        (\<lambda>(bs, v'). ret (result_blocks tu r @ bs, v'))) (\<lambda>p s. unwatched s \<and> guard_vars (snd p) = guard_vars v)"
      by (rule triple_bnd [OF Cons.IH]) (auto intro!: triple_ret split: prod.splits)
  qed
qed

lemma dispatch_calls_guard:
  "triple anyhow unwatched (dispatch_calls env main n v) (\<lambda>w s. unwatched s \<and> guard_vars w = guard_vars v)"
  unfolding dispatch_calls_def by (rule triple_bnd [OF dispatch_all_guard]) (auto intro!: triple_ret split: prod.splits)

lemma compact_now_guard:
  "triple anyhow unwatched (compact_now env n v)
     (\<lambda>r s. unwatched s \<and> guard_vars (case r of Next w \<Rightarrow> w | Leave w \<Rightarrow> w) = guard_vars v)"
  by (rule tripleI)
    (auto simp: compact_now_def Let_def guard_vars_def thrashed_def split: if_splits option.splits sum.splits)

text \<open>After \<open>t\<close> turns the guard has counted \<open>t\<close> repeats, and has nudged when they reached the limit.\<close>

definition counted :: "nat \<Rightarrow> (string \<times> json) multiset \<Rightarrow> nat \<Rightarrow> run_vars \<Rightarrow> bool" where
  "counted K fp t v \<longleftrightarrow> guard_vars v = (t, (if t = 0 then None else Some fp), t, t \<noteq> 0 \<and> K \<le> t)"

definition spent :: "nat \<Rightarrow> (string \<times> json) multiset \<Rightarrow> nat \<Rightarrow> flow \<Rightarrow> loop_state \<Rightarrow> bool" where
  "spent K fp t r s \<longleftrightarrow> unwatched s
     \<and> (case r of Next w \<Rightarrow> counted K fp t w \<and> t \<le> K | Leave w \<Rightarrow> rv_turns w = t \<and> (t = K + 1 \<longrightarrow> ls_stop s \<noteq> None))"

definition counting_up :: "nat \<Rightarrow> (string \<times> json) multiset \<Rightarrow> nat \<Rightarrow> run_vars \<Rightarrow> bool" where
  "counting_up K fp t v \<longleftrightarrow> guard_vars v = (t + 1, (if t = 0 then None else Some fp), t, t \<noteq> 0 \<and> K \<le> t)"

lemma counting_up_frame [simp]:
  "counting_up K fp t (append_assistant n v) = counting_up K fp t v"
  "counting_up K fp t (record_turn n v) = counting_up K fp t v"
  by (simp_all add: counting_up_def)

lemma guard_turns: "guard_vars v = (t, r) \<Longrightarrow> rv_turns v = t"
  by (simp add: guard_vars_def)

lemma fingerprint_empty: "fingerprint [] = {#}"
  by (simp add: fingerprint_def)

lemma guard_counts:
  assumes "0 < lv_repeat env" "fp \<noteq> {#}" "same_calls fp n" "counting_up (nat (lv_repeat env)) fp t v" "t \<le> nat (lv_repeat env)"
  shows "triple anyhow unwatched (dead_loop_guard env (tn_uses n) v) (spent (nat (lv_repeat env)) fp (t + 1))"
proof (rule tripleI)
  fix s r s' assume s: "unwatched s" "dead_loop_guard env (tn_uses n) v s = (Inr r, s')"
  let ?K = "nat (lv_repeat env)" and ?c = "count_repeat (tn_uses n) v"
  have ne: "tn_uses n \<noteq> []" using assms(2,3) by (auto simp: same_calls_def fingerprint_empty)
  have c: "guard_vars ?c = (t + 1, Some fp, t + 1, t \<noteq> 0 \<and> ?K \<le> t)"
    using assms(3,4) by (auto simp: counting_up_def guard_vars_def count_repeat_def same_calls_def)
  have nudged: "guard_vars (say [BText loop_repeat_nudge] ?c\<lparr>rv_repeat_nudged := True\<rparr>) = (t + 1, Some fp, t + 1, True)"
    using c by (simp add: guard_vars_def say_def)
  show "spent ?K fp (t + 1) r s'"
    using s c nudged assms(1,5) ne
    by (auto simp: dead_loop_guard_def Let_def spent_def counted_def guard_vars_def dead_loop_stop_def unwatched_def
        split: if_splits)
qed simp

lemma react_counts:
  assumes "0 < lv_repeat env" "fp \<noteq> {#}" "same_calls fp n" "counting_up (nat (lv_repeat env)) fp t v" "t \<le> nat (lv_repeat env)"
  shows "triple anyhow unwatched (react env n v) (spent (nat (lv_repeat env)) fp (t + 1))"
proof -
  let ?K = "nat (lv_repeat env)"
  have "tn_uses n \<noteq> []" "\<not> tn_interrupted n" using assms(2,3) by (auto simp: same_calls_def fingerprint_empty)
  then have eq: "react env n v = tool_turn env n v" by (simp add: react_def)
  show ?thesis
    unfolding eq tool_turn_def then_next_def
  proof (rule triple_bnd [OF dispatch_calls_guard], rule triple_pure)
    fix w assume "guard_vars w = guard_vars (append_assistant n v)"
    then have w: "counting_up ?K fp t w" using assms(4) by (simp add: counting_up_def)
    show "triple anyhow unwatched (bnd (dead_loop_guard env (tn_uses n) w)
        (\<lambda>r. case r of Next v2 \<Rightarrow> compact_now env n (if wants_nudge n v2 then nudge v2 else v2) | Leave v2 \<Rightarrow> ret (Leave v2)))
        (spent ?K fp (t + 1))"
    proof (rule triple_bnd [OF guard_counts [OF assms(1-3) w assms(5)]])
      fix r
      show "triple anyhow (spent ?K fp (t + 1) r)
        (case r of Next v2 \<Rightarrow> compact_now env n (if wants_nudge n v2 then nudge v2 else v2) | Leave v2 \<Rightarrow> ret (Leave v2))
        (spent ?K fp (t + 1))"
      proof (cases r)
        case (Leave x)
        then show ?thesis by (auto intro: triple_ret)
      next
        case (Next x)
        let ?x = "if wants_nudge n x then nudge x else x"
        have "spent ?K fp (t + 1) (Next x) = (\<lambda>s. unwatched s \<and> (counted ?K fp (t + 1) x \<and> t + 1 \<le> ?K))"
          by (rule ext) (simp add: spent_def)
        moreover have "triple anyhow (\<lambda>s. unwatched s \<and> (counted ?K fp (t + 1) x \<and> t + 1 \<le> ?K))
          (compact_now env n ?x) (spent ?K fp (t + 1))"
        proof (rule triple_pure, rule triple_weaken [OF compact_now_guard])
          fix q s assume "counted ?K fp (t + 1) x \<and> t + 1 \<le> ?K"
            "unwatched s \<and> guard_vars (case q of Next w \<Rightarrow> w | Leave w \<Rightarrow> w) = guard_vars ?x"
          moreover have "guard_vars ?x = guard_vars x" by simp
          ultimately show "spent ?K fp (t + 1) q s"
            by (cases q) (auto simp: spent_def counted_def dest: guard_turns)
        qed
        ultimately show ?thesis by (simp only: Next flow.case)
      qed
    qed
  qed
qed

lemma notice_unwatched: "unwatched s \<Longrightarrow> notice_if_signalled place v s = (Inr v, s)"
  by (simp add: notice_if_signalled_def)

lemma one_turn_counts:
  assumes "0 < lv_repeat env" "repeats_itself env fp" "counted (nat (lv_repeat env)) fp t v" "t \<le> nat (lv_repeat env)"
  shows "triple anyhow unwatched (one_turn env sys v) (spent (nat (lv_repeat env)) fp (t + 1))"
proof -
  let ?K = "nat (lv_repeat env)" and ?v = "v\<lparr>rv_turns := rv_turns v + 1\<rparr>"
  have fp: "fp \<noteq> {#}" using assms(2) by (simp add: repeats_itself_def)
  have up: "counting_up ?K fp t ?v" using assms(3) by (simp add: counting_up_def counted_def guard_vars_def)
  have turns: "rv_turns ?v = t + 1" using assms(3) by (simp add: counted_def guard_vars_def)
  have notice: "triple anyhow unwatched (notice_if_signalled place ?v) (\<lambda>w s. unwatched s \<and> w = ?v)" for place
    by (rule tripleI) (auto simp: notice_unwatched)
  have observe: "unwatched (observe_cancel env s) = unwatched s" for s
    by (simp add: observe_cancel_def request_stop_def unwatched_def split: option.split)
  have ran: "triple anyhow unwatched (run_one_turn_with_fallback env ms) (\<lambda>n s. unwatched s \<and> same_calls fp n)" for ms
    unfolding run_one_turn_with_fallback_def
    by (rule tripleI) (use try_candidates_repeats [OF assms(2)] in blast)+
  have settle: "triple anyhow unwatched (step (settle_usage env sys ms n)) (\<lambda>m s. unwatched s \<and> same_calls fp m)"
    if "same_calls fp n" for ms n
    by (rule triple_step) (use that in \<open>auto simp: settle_usage_def Let_def same_calls_def unwatched_def\<close>)
  have go: "triple anyhow unwatched (bnd (run_one_turn_with_fallback env (rv_messages w)) (\<lambda>n0.
      bnd (step (settle_usage env sys (rv_messages w) n0)) (\<lambda>n. react env n (record_turn n w)))) (spent ?K fp (t + 1))"
    if "w = ?v" for w
  proof (rule triple_bnd [OF ran], rule triple_pure, rule triple_bnd [OF settle], assumption, rule triple_pure)
    fix n assume "same_calls fp n"
    from react_counts [OF assms(1) fp this _ assms(4), of "record_turn n w"] up that
    show "triple anyhow unwatched (react env n (record_turn n w)) (spent ?K fp (t + 1))" by simp
  qed
  have stop: "triple anyhow (\<lambda>s. unwatched s \<and> ls_stop s = x) (if x \<noteq> None then ret (Leave ?v) else
      bnd (notice_if_signalled ''pre_turn'' ?v) (\<lambda>v1.
         bnd (run_one_turn_with_fallback env (rv_messages v1)) (\<lambda>n0.
         bnd (step (settle_usage env sys (rv_messages v1) n0)) (\<lambda>n. react env n (record_turn n v1)))))
      (spent ?K fp (t + 1))" for x
  proof (rule triple_if)
    assume "x \<noteq> None"
    then show "triple anyhow (\<lambda>s. unwatched s \<and> ls_stop s = x) (ret (Leave ?v)) (spent ?K fp (t + 1))"
      using turns by (auto intro!: triple_ret simp: spent_def)
  next
    show "triple anyhow (\<lambda>s. unwatched s \<and> ls_stop s = x) (bnd (notice_if_signalled ''pre_turn'' ?v) (\<lambda>v1.
         bnd (run_one_turn_with_fallback env (rv_messages v1)) (\<lambda>n0.
         bnd (step (settle_usage env sys (rv_messages v1) n0)) (\<lambda>n. react env n (record_turn n v1)))))
      (spent ?K fp (t + 1))"
      by (rule triple_pre [where P = unwatched], rule triple_bnd [OF notice], rule triple_pure, erule go) simp
  qed
  show ?thesis
    unfolding one_turn_def Let_def
    by (rule triple_seqn, rule triple_upd [of unwatched "\<lambda>_. unwatched"], simp add: observe)
      (rule triple_bnd [OF _ stop], rule triple_query, simp)
qed

definition cut_short :: "nat \<Rightarrow> bool \<times> run_vars \<Rightarrow> loop_state \<Rightarrow> bool" where
  "cut_short K p s \<longleftrightarrow> rv_turns (snd p) \<le> K + 1 \<and> (rv_turns (snd p) = K + 1 \<longrightarrow> ls_stop s \<noteq> None)"

lemma run_turns_counts:
  assumes "0 < lv_repeat env" "repeats_itself env fp"
  shows "counted (nat (lv_repeat env)) fp t v \<Longrightarrow> t \<le> nat (lv_repeat env) \<Longrightarrow>
    triple anyhow unwatched (run_turns env sys k v)
      (cut_short (nat (lv_repeat env)))"
proof (induction k arbitrary: t v)
  case 0
  then have "rv_turns v = t" by (simp add: counted_def guard_vars_def)
  then have "cut_short (nat (lv_repeat env)) (True, v) s" for s using 0 by (simp add: cut_short_def)
  then show ?case by (simp add: triple_ret)
next
  case (Suc k)
  show ?case
  proof (simp only: run_turns.simps, rule triple_bnd [OF one_turn_counts [OF assms Suc.prems]])
    fix r
    show "triple anyhow (spent (nat (lv_repeat env)) fp (t + 1) r)
      (case r of Next v' \<Rightarrow> run_turns env sys k v' | Leave v' \<Rightarrow> ret (False, v'))
      (cut_short (nat (lv_repeat env)))"
    proof (cases r)
      case (Leave w)
      have "cut_short (nat (lv_repeat env)) (False, w) s" if "spent (nat (lv_repeat env)) fp (t + 1) (Leave w) s" for s
        using that Suc.prems(2) by (simp add: spent_def cut_short_def)
      with Leave show ?thesis by (simp add: triple_ret)
    next
      case (Next w)
      have eq: "spent (nat (lv_repeat env)) fp (t + 1) (Next w)
          = (\<lambda>s. unwatched s \<and> (counted (nat (lv_repeat env)) fp (t + 1) w \<and> t + 1 \<le> nat (lv_repeat env)))"
        by (rule ext) (simp add: spent_def)
      show ?thesis
        unfolding Next flow.case eq by (rule triple_pure) (rule Suc.IH, auto)
    qed
  qed
qed

text \<open>C27: A model that repeats itself is stopped. When the dead-loop guard is on with threshold
  \<open>K\<close> and no mail interrupts the run, a model that answers everything with the same calls, from
  whatever candidate, gets at most \<open>K + 1\<close> turns; when it has used them all, a stop is requested, and
  the run ends with the status of the stop.\<close>

theorem dead_loop_stopped:
  assumes "0 < lv_repeat env" "repeats_itself env fp" "ls_watch s = None"
    and "run_loop env now wall sys ms s = (Inr (hit, v, res), s')"
  shows "rv_turns v \<le> nat (lv_repeat env) + 1
     \<and> (rv_turns v = nat (lv_repeat env) + 1 \<longrightarrow> (\<exists>target reason. ls_stop s' = Some (target, reason) \<and> lr_status res = target))"
  using assms(4)
proof (cases rule: run_loop_cases)
  case (ended hit' v' s1 u)
  then have eq: "hit' = hit" "v' = v" and res: "res = result_of wall hit v s'" by (cases u; auto)+
  have start: "counted (nat (lv_repeat env)) fp 0 (start_vars ms)"
    by (simp add: counted_def guard_vars_def start_vars_def)
  have un: "unwatched (fresh_state s)" using assms(3) by (simp add: unwatched_def fresh_state_def)
  from tripleD(1) [OF run_turns_counts [OF assms(1,2) start] un ended(1)]
  have "rv_turns v \<le> nat (lv_repeat env) + 1 \<and> (rv_turns v = nat (lv_repeat env) + 1 \<longrightarrow> ls_stop s1 \<noteq> None)"
    by (simp add: eq cut_short_def)
  moreover from ended(3) have "ls_stop s1 = ls_stop s'" by (metis loop_state.simps loop_state.surjective)
  ultimately show ?thesis by (auto simp: res result_of_def final_status_def)
qed simp

definition stuck_loop :: loop_env where
  "stuck_loop = sample_loop
     \<lparr>lv_repeat := 2, lv_stream := (\<lambda>c req d. ([Streamed (ToolUseComplete ''u1'' ''mailbox_read'' []), Streamed (Usage 7 1),
        Streamed (TurnComplete ''tool_use'')], None))\<rparr>"

definition stuck_end :: "(exn + bool \<times> run_vars) \<times> loop_state \<Rightarrow> bool" where
  "stuck_end r \<longleftrightarrow> (case r of (Inr (hit, v), s) \<Rightarrow> \<not> hit \<and> rv_turns v = 3 \<and> ls_stop s \<noteq> None | _ \<Rightarrow> False)"

lemma stuck_turns: "stuck_end (run_turns stuck_loop [] (lv_max_turns stuck_loop) (start_vars sample_task_msgs) (fresh_state sample_state))"
  by code_simp

lemma dead_loop_stopped_witness:
  "\<exists>hit v res s'. run_loop stuck_loop 0 5 [] sample_task_msgs sample_state = (Inr (hit, v, res), s')
     \<and> rv_turns v = 3 \<and> ls_stop s' \<noteq> None \<and> (\<exists>t r. ls_stop s' = Some (t, r) \<and> lr_status res = t)"
proof -
  obtain hit v s where t: "run_turns stuck_loop [] (lv_max_turns stuck_loop) (start_vars sample_task_msgs) (fresh_state sample_state)
      = (Inr (hit, v), s)" "rv_turns v = 3" "ls_stop s \<noteq> None"
    using stuck_turns unfolding stuck_end_def by (auto split: prod.splits sum.splits)
  have silent: "is_silent_close hit v s = False" using t(3) by (simp add: is_silent_close_def)
  have r: "run_loop stuck_loop 0 5 [] sample_task_msgs sample_state = (Inr (hit, v, result_of 5 hit v s), s)"
    using t silent by (simp add: run_loop_def seqn_def bnd_def upd_def query_def run_if_def ret_def)
  have "repeats_itself stuck_loop {#(''mailbox_read'', JObj [])#}"
    by (simp add: repeats_itself_def stuck_loop_def stream_uses_def List.map_filter_simps fingerprint_def call_print_def
        is_truncated_tool_args_def)
  from dead_loop_stopped [OF _ this _ r] t r show ?thesis
    by (simp add: stuck_loop_def sample_state_def)
qed

end
