(* ===== verification/Tool_Agents.thy ===== *)
theory Tool_Agents
  imports Tool_Workflow Identity Model_Router Health_Tracker Mail_Watcher Wakeup_Run
begin

text \<open>
  The tools an agent sees and shapes the system with (\<open>runtime/tools/introspect.py\<close>): creating and
  archiving agents, listing agents, tasks and models, reading the memory tree, and the private
  scratchpad (with \<open>personas/seed.py\<close>). The state is the database with the files of the memory tree,
  by path relative to its root. Parameters (\<open>agents_env\<close>): the personas, the registry, the tracker,
  the environment variables, which writes the disk refuses, and \<open>Path.resolve\<close>.
\<close>

record agents_env =
  ge_persona :: "string \<Rightarrow> persona_info option"
  ge_registry :: "model_entry list option"
  ge_health :: "tracker option"
  ge_environ :: "string \<Rightarrow> string option"
  ge_root :: "string option"
  ge_disk_fails :: "string \<Rightarrow> bool"
  ge_idle_age :: int

record home =
  hm_db :: db
  hm_files :: "string \<rightharpoonup> string"

definition on_db :: "(db, 'a) exec \<Rightarrow> (home, 'a) exec" where
  "on_db m h = (case m (hm_db h) of (r, d) \<Rightarrow> (r, h\<lparr>hm_db := d\<rparr>))"

section \<open>Names\<close>

definition validate_short_name :: "json \<Rightarrow> exn + string" where
  "validate_short_name j =
     (case j of
        JStr s \<Rightarrow>
          (if s = [] then Inl (tool_error ''name must be a non-empty string'')
           else if \<not> is_valid_agent_id (''p/'' @ s)
           then Inl (tool_error (''invalid agent name '' @ py_repr s
                  @ '': must start with a letter or digit and contain only lowercase letters, digits, and hyphens''))
           else Inr s)
      | _ \<Rightarrow> Inl (tool_error ''name must be a non-empty string''))"

definition auto_name :: "string \<Rightarrow> nat \<Rightarrow> string" where
  "auto_name p n = compose_id p (Some (digits_of n))"

lemma auto_name_inject [simp]: "auto_name p m = auto_name p n \<longleftrightarrow> m = n"
proof -
  have "auto_name p k = p @ ''/'' @ digits_of k" for k
    by (cases "digits_of k") (simp_all add: auto_name_def compose_id_def)
  then show ?thesis by simp
qed

text \<open>The \<open>while\<close> loop over \<open>n\<close>. It ends: only finitely many names are taken.\<close>

definition taken_from :: "string list \<Rightarrow> string \<Rightarrow> nat \<Rightarrow> nat set" where
  "taken_from used p n = {m. n \<le> m \<and> auto_name p m \<in> set used}"

lemma finite_taken: "finite (taken_from used p n)"
proof -
  have "taken_from used p n \<subseteq> auto_name p -` set used" by (auto simp: taken_from_def)
  moreover have "finite (auto_name p -` set used)" by (rule finite_vimageI) (simp_all add: inj_on_def)
  ultimately show ?thesis by (rule finite_subset)
qed

function free_name_from :: "string list \<Rightarrow> string \<Rightarrow> nat \<Rightarrow> nat" where
  "free_name_from used p n = (if auto_name p n \<in> set used then free_name_from used p (n + 1) else n)"
  by pat_completeness auto
termination
proof (relation "measure (\<lambda>(used, p, n). card (taken_from used p n))")
  fix used p n assume "auto_name p n \<in> set used"
  then have "n \<in> taken_from used p n" by (simp add: taken_from_def)
  moreover have "n \<notin> taken_from used p (n + 1)" "taken_from used p (n + 1) \<subseteq> taken_from used p n"
    by (auto simp: taken_from_def)
  ultimately have "taken_from used p (n + 1) \<subset> taken_from used p n" by blast
  then show "((used, p, n + 1), used, p, n) \<in> measure (\<lambda>(used, p, n). card (taken_from used p n))"
    using psubset_card_mono [OF finite_taken] by simp
qed simp

declare free_name_from.simps [simp del]

definition next_auto_name :: "string \<Rightarrow> db \<Rightarrow> string" where
  "next_auto_name p d =
     auto_name p (free_name_from (map agent_id (agents_list_by_persona p True d)) p 1)"

section \<open>create\_agent\<close>

definition spawnable :: "agents_env \<Rightarrow> dict \<Rightarrow> exn + string" where
  "spawnable env args =
     (case arg args ''persona'' of
        Some (JStr (c # cs)) \<Rightarrow>
          (case ge_persona env (c # cs) of
             None \<Rightarrow> Inl (tool_error ''persona not found or not approved'')
           | Some i \<Rightarrow>
               (if pi_status i \<noteq> ''approved'' then Inl (tool_error ''persona not found or not approved'')
                else if pi_kind i = ''singleton'' then Inl (tool_error ''persona is a singleton role'')
                else Inr (c # cs)))
      | _ \<Rightarrow> Inl (tool_error ''persona required (string)''))"

definition new_agent_id :: "dict \<Rightarrow> string \<Rightarrow> db \<Rightarrow> exn + string" where
  "new_agent_id args p d =
     (case arg args ''name'' of
        None \<Rightarrow> Inr (next_auto_name p d)
      | Some j \<Rightarrow>
          ebind (validate_short_name j) (\<lambda>name.
            let aid = compose_id p (Some name) in
            if \<not> is_valid_agent_id aid then Inl (tool_error ''composed agent id is invalid'')
            else if agents_exists aid d then Inl (tool_error ''agent id already exists'')
            else Inr aid))"

definition description_meta :: "dict \<Rightarrow> exn + dict" where
  "description_meta args =
     (case arg args ''description'' of
        None \<Rightarrow> Inr []
      | Some (JStr s) \<Rightarrow> Inr [(''description'', JStr s)]
      | Some _ \<Rightarrow> Inl (tool_error ''description must be a string''))"

definition model_meta :: "agents_env \<Rightarrow> dict \<Rightarrow> exn + dict" where
  "model_meta env args =
     (case arg args ''model'' of
        None \<Rightarrow> Inr []
      | Some (JStr m) \<Rightarrow>
          (if strip m = [] then Inr []
           else if (case ge_registry env of None \<Rightarrow> False | Some es \<Rightarrow> registry_by_id es m = None)
           then Inl (tool_error ''model_id not in registry'')
           else Inr [(''model_id'', JStr m)])
      | Some _ \<Rightarrow> Inl (tool_error ''model must be a string (model_id from list_models)''))"

definition limit_keys :: "string list" where
  "limit_keys = [''max_restarts'', ''max_seconds'', ''max_restarts_total'']"

text \<open>A limit may be missing, null, or a non-negative integer.\<close>

definition limit_ok :: "dict \<Rightarrow> string \<Rightarrow> bool" where
  "limit_ok sv k \<longleftrightarrow> (case arg sv k of None \<Rightarrow> True
     | Some j \<Rightarrow> (case int_val j of None \<Rightarrow> False | Some i \<Rightarrow> 0 \<le> i))"

definition supervision_meta :: "dict \<Rightarrow> exn + dict" where
  "supervision_meta args =
     (case arg args ''supervision'' of
        None \<Rightarrow> Inr []
      | Some (JObj sv) \<Rightarrow>
          (if (case dget sv ''ephemeral'' of None \<Rightarrow> False | Some (JBool b) \<Rightarrow> False | Some j \<Rightarrow> True)
           then Inl (tool_error ''supervision.ephemeral must be a boolean'')
           else if (case arg sv ''restart'' of None \<Rightarrow> False
                    | Some j \<Rightarrow> j \<notin> {JStr ''temporary'', JStr ''transient'', JStr ''permanent''})
           then Inl (tool_error ''supervision.restart must be temporary / transient / permanent'')
           else (case List.find (\<lambda>k. \<not> limit_ok sv k) limit_keys of
               Some k \<Rightarrow> Inl (tool_error (''supervision.'' @ k @ '' must be a non-negative integer''))
             | None \<Rightarrow> Inr [(''supervision'', JObj sv)]))
      | Some _ \<Rightarrow> Inl (tool_error ''supervision must be an object''))"

record agent_plan =
  ap_id :: string
  ap_persona :: string
  ap_meta :: dict

definition check_agent :: "agents_env \<Rightarrow> dict \<Rightarrow> db \<Rightarrow> exn + agent_plan" where
  "check_agent env args d =
     ebind (spawnable env args) (\<lambda>p.
     ebind (new_agent_id args p d) (\<lambda>aid.
     ebind (description_meta args) (\<lambda>desc.
     ebind (model_meta env args) (\<lambda>model.
     ebind (supervision_meta args) (\<lambda>sv.
       Inr \<lparr>ap_id = aid, ap_persona = p, ap_meta = desc @ model @ sv\<rparr>)))))"

section \<open>The private files of an agent\<close>

definition scratchpad_rel_path :: "string \<Rightarrow> string" where
  "scratchpad_rel_path aid = ''scratchpad/'' @ flat_id aid @ ''.md''"

definition notes_seed :: "usec \<Rightarrow> string \<Rightarrow> string" where
  "notes_seed now aid =
     ''---'' @ newline @ ''name: agent-'' @ flat_id aid @ ''-notes'' @ newline @ ''description: '' @ aid
     @ [CHR 0x27] @ ''s private notebook for cross-wakeup memory.'' @ newline @ ''type: agent_notes''
     @ newline @ ''agent_id: '' @ aid @ newline @ ''created: '' @ iso_text now @ newline @ ''---'' @ newline
     @ newline @ ''# Notes for '' @ aid @ newline @ newline
     @ ''This is your private notebook. Every wakeup is stateless '' @ bytes [226, 128, 148]
     @ '' anything you'' @ newline
     @ ''want to remember across wakeups goes here. The identity preamble points'' @ newline
     @ ''you at this file by path; you read it with `read_memory('' @ newline @ [CHR 0x22] @ ''facts/agent-''
     @ flat_id aid @ ''-notes.md'' @ [CHR 0x22] @ '')` and append to it with shell_exec /'' @ newline
     @ ''python_exec.'' @ newline @ newline @ ''Suggested sections (free-form '' @ bytes [226, 128, 148]
     @ '' edit as you like):'' @ newline @ newline @ ''## Open threads'' @ newline @ ''- (e.g. '' @ [CHR 0x22]
     @ ''owner asked me to investigate /pi on 2026-05-18 '' @ bytes [226, 128, 148] @ '' still pending''
     @ [CHR 0x22] @ '')'' @ newline @ newline @ ''## Owner preferences / gotchas'' @ newline
     @ ''- (things you've learned about how the owner likes things done)'' @ newline @ newline
     @ ''## Delegated tasks (waiting on)'' @ newline @ ''- (task_id '' @ bytes [226, 134, 146] @ '' agent ''
     @ bytes [226, 134, 146] @ '' what's expected back)'' @ newline @ newline
     @ ''## Decisions / facts worth remembering'' @ newline"

text \<open>A file that exists is left as it is.\<close>

definition ensure_file :: "agents_env \<Rightarrow> string \<Rightarrow> string \<Rightarrow> home \<Rightarrow> bool \<times> home" where
  "ensure_file env rel seed h =
     (if ge_disk_fails env rel then (False, h)
      else if hm_files h rel \<noteq> None then (True, h)
      else (True, h\<lparr>hm_files := (hm_files h)(rel \<mapsto> seed)\<rparr>))"

definition ensure_agent_notes_file :: "agents_env \<Rightarrow> usec \<Rightarrow> string \<Rightarrow> home \<Rightarrow> bool \<times> home" where
  "ensure_agent_notes_file env now aid = ensure_file env (agent_notes_rel_path aid) (notes_seed now aid)"

definition ensure_agent_scratchpad_file :: "agents_env \<Rightarrow> string \<Rightarrow> home \<Rightarrow> bool \<times> home" where
  "ensure_agent_scratchpad_file env aid = ensure_file env (scratchpad_rel_path aid) []"

definition shown_path :: "string \<Rightarrow> string \<Rightarrow> bool \<Rightarrow> json" where
  "shown_path dir rel ok = (if ok then JStr (dir @ ''/'' @ rel) else JNull)"

definition make_files :: "agents_env \<Rightarrow> usec \<Rightarrow> string \<Rightarrow> (home, json \<times> json) exec" where
  "make_files env now aid h =
     (case ge_root env of
        None \<Rightarrow> (Inr (JNull, JNull), h)
      | Some dir \<Rightarrow>
          (if dir = [] then (Inr (JNull, JNull), h)
           else (case ensure_agent_notes_file env now aid h of (n, h1) \<Rightarrow>
             (case ensure_agent_scratchpad_file env aid h1 of (p, h2) \<Rightarrow>
               (Inr (shown_path dir (agent_notes_rel_path aid) n, shown_path dir (scratchpad_rel_path aid) p), h2)))))"

definition created_reply :: "tool_ctx \<Rightarrow> agent_plan \<Rightarrow> json \<times> json \<Rightarrow> dict" where
  "created_reply c p files =
     [(''agent_id'', JStr (ap_id p)), (''persona'', JStr (ap_persona p)), (''parent_agent_id'', JStr (self_mailbox c)),
      (''status'', JStr ''idle''), (''metadata'', JObj (ap_meta p)), (''notes_file'', fst files),
      (''scratchpad_file'', snd files)]"

definition create_agent :: "agents_env \<Rightarrow> usec \<Rightarrow> tool_ctx \<Rightarrow> dict \<Rightarrow> (home, dict) exec" where
  "create_agent env now c args =
     check (\<lambda>h. check_agent env args (hm_db h)) (\<lambda>p.
     seqn (on_db (agents_create (now div 1000) (ap_id p) (ap_persona p) (Some (self_mailbox c))
                    (if ap_meta p = [] then None else Some (ap_meta p))))
       (bnd (make_files env now (ap_id p)) (\<lambda>files. ret (created_reply c p files))))"

section \<open>archive\_agent\<close>

definition archive_target :: "dict \<Rightarrow> db \<Rightarrow> exn + string" where
  "archive_target args d =
     (case arg args ''agent_id'' of
        Some (JStr (c # cs)) \<Rightarrow>
          (case agents_get (c # cs) d of
             None \<Rightarrow> Inl (tool_error ''agent not found'')
           | Some a \<Rightarrow>
               (if agent_parent a = None then Inl (tool_error ''refusing to archive bootstrap-seeded agent'')
                else (case arg args ''reason'' of
                    None \<Rightarrow> Inr (c # cs) | Some (JStr r) \<Rightarrow> Inr (c # cs)
                  | Some _ \<Rightarrow> Inl (tool_error ''reason must be a string if provided''))))
      | _ \<Rightarrow> Inl (tool_error ''agent_id required (string)''))"

definition archive_reason :: "dict \<Rightarrow> string" where
  "archive_reason args = (case arg args ''reason'' of Some (JStr (c # cs)) \<Rightarrow> c # cs | _ \<Rightarrow> ''manual'')"

definition archive_agent :: "usec \<Rightarrow> dict \<Rightarrow> (db, dict) exec" where
  "archive_agent now args =
     check (archive_target args) (\<lambda>aid.
     bnd (step (agents_archive (now div 1000) aid (Some (archive_reason args)))) (\<lambda>changed.
       ret [(''agent_id'', JStr aid), (''archived'', JBool changed), (''reason'', JStr (archive_reason args))]))"

section \<open>update\_scratchpad\<close>

definition scratchpad_max_bytes :: nat where "scratchpad_max_bytes = 32 * 1024"

datatype write_mode = Append | Overwrite

definition write_mode_of :: "dict \<Rightarrow> exn + write_mode" where
  "write_mode_of args =
     (case dget args ''mode'' of
        None \<Rightarrow> Inr Append
      | Some j \<Rightarrow>
          (if j = JStr ''append'' then Inr Append else if j = JStr ''overwrite'' then Inr Overwrite
           else Inl (tool_error (''mode must be 'append' or 'overwrite'' @ [CHR 0x27]))))"

definition mode_str :: "write_mode \<Rightarrow> string" where
  "mode_str m = (case m of Append \<Rightarrow> ''append'' | Overwrite \<Rightarrow> ''overwrite'')"

definition scratch_args :: "agents_env \<Rightarrow> tool_ctx \<Rightarrow> dict \<Rightarrow> exn + string \<times> write_mode \<times> string" where
  "scratch_args env c args =
     (case dget args ''content'' of
        Some (JStr content) \<Rightarrow>
          ebind (write_mode_of args) (\<lambda>m.
            if present (ge_root env) = None then Inl (tool_error ''memory_root not configured for this wakeup'')
            else (case present (tc_agent c) of
                None \<Rightarrow> Inl (tool_error ''agent_id not configured for this wakeup'')
              | Some aid \<Rightarrow> Inr (content, m, aid)))
      | _ \<Rightarrow> Inl (tool_error ''content required (string)''))"

definition new_scratch :: "write_mode \<Rightarrow> string \<Rightarrow> string \<Rightarrow> string" where
  "new_scratch m old content =
     (case m of
        Overwrite \<Rightarrow> content
      | Append \<Rightarrow> old @ (if old = [] \<or> [last old] = newline then [] else newline) @ content)"

definition scratch_full :: exn where
  "scratch_full = tool_error ''scratchpad would exceed 32 KiB after this write''"

definition disk_error :: exn where "disk_error = Exn ''OSError'' []"

text \<open>The texts of the model are byte strings, so the length is the encoded length.\<close>

definition update_scratchpad :: "agents_env \<Rightarrow> tool_ctx \<Rightarrow> dict \<Rightarrow> (home, dict) exec" where
  "update_scratchpad env c args =
     check (\<lambda>h. scratch_args env c args) (\<lambda>(content, m, aid).
     bnd (step (ensure_agent_scratchpad_file env aid)) (\<lambda>ok.
       if \<not> ok then throw disk_error
       else bnd (query (\<lambda>h. new_scratch m (case hm_files h (scratchpad_rel_path aid) of None \<Rightarrow> [] | Some t \<Rightarrow> t) content))
         (\<lambda>body. if scratchpad_max_bytes < length body then throw scratch_full
           else seqn (upd (\<lambda>h. h\<lparr>hm_files := (hm_files h)(scratchpad_rel_path aid \<mapsto> body)\<rparr>))
             (ret [(''rel_path'', JStr (scratchpad_rel_path aid)), (''mode'', JStr (mode_str m)),
                   (''bytes'', JInt (int (length body)))]))))"

section \<open>What a created agent is\<close>

lemma free_name: "auto_name p (free_name_from used p n) \<notin> set used"
  "n \<le> m \<and> m < free_name_from used p n \<Longrightarrow> auto_name p m \<in> set used" "n \<le> free_name_from used p n"
proof (induction used p n rule: free_name_from.induct)
  case (1 used p n)
  note simps = free_name_from.simps [of used p n]
  { case 1 with "1.IH" show ?case by (auto simp: simps)
  next
    case 2 with "1.IH" show ?case by (cases "m = n") (auto simp: simps split: if_splits)
  next
    case 3 with "1.IH" show ?case by (auto simp: simps) }
qed

end
