(* ===== verification/Tool_Listing.thy ===== *)
theory Tool_Listing
  imports Tool_Agents
begin

text \<open>
  The listing tools (\<open>runtime/tools/introspect.py\<close>): \<open>list_tasks\<close>, \<open>list_agents\<close>, \<open>list_models\<close>, and
  \<open>read_memory\<close> with its sandbox. A path is the list of its parts; \<open>Path.resolve\<close>, the files and the
  decoding of bytes are parameters (\<open>disk\<close>). The advice in the notes of a reply is left out.
\<close>

section \<open>list\_tasks\<close>

definition bounded_limit :: "dict \<Rightarrow> exn + int" where
  "bounded_limit args =
     (case dget args ''limit'' of
        None \<Rightarrow> Inr 20
      | Some j \<Rightarrow> (case int_val j of
          None \<Rightarrow> Inl (tool_error ''limit must be int in [1, 200]'')
        | Some i \<Rightarrow> (if i < 1 \<or> 200 < i then Inl (tool_error ''limit must be int in [1, 200]'') else Inr i)))"

definition persona_filter :: "dict \<Rightarrow> exn + string option" where
  "persona_filter args =
     (case arg args ''persona'' of
        None \<Rightarrow> Inr None | Some (JStr p) \<Rightarrow> Inr (Some p)
      | Some _ \<Rightarrow> Inl (tool_error ''persona must be a string if provided''))"

definition status_filter :: "dict \<Rightarrow> exn + task_status option" where
  "status_filter args =
     (case arg args ''status'' of
        None \<Rightarrow> Inr None
      | Some (JStr s) \<Rightarrow> (case task_status_of_str s of
            None \<Rightarrow> Inl (tool_error ''status must be one of the task statuses'') | Some st \<Rightarrow> Inr (Some st))
      | Some _ \<Rightarrow> Inl (tool_error ''status must be one of the task statuses''))"

definition task_entry :: "tool_ctx \<Rightarrow> task \<Rightarrow> dict" where
  "task_entry c t =
     [(''id'', JStr (task_id t)), (''persona'', JStr (task_persona t)), (''status'', JStr (task_status_str (task_status t))),
      (''goal'', JStr (utake 160 (task_goal t))), (''parent_task_id'', jopt_str (task_parent t)),
      (''created_at'', jopt_time (task_created t)), (''is_current_wakeup'', JBool (Some (task_id t) = present (Some (tc_task c))))]"

definition list_tasks :: "tool_ctx \<Rightarrow> dict \<Rightarrow> db \<Rightarrow> exn + dict" where
  "list_tasks c args d =
     ebind (persona_filter args) (\<lambda>p. ebind (status_filter args) (\<lambda>st. ebind (bounded_limit args) (\<lambda>limit.
       let ts = tasks_search p st limit d in
       Inr [(''tasks'', JArr (map (JObj \<circ> task_entry c) ts)), (''count'', JInt (int (length ts))),
            (''filters'', JObj [(''persona'', jopt_str p), (''status'', jopt_str (map_option task_status_str st)),
                               (''limit'', JInt limit)])])))"

section \<open>list\_agents\<close>

definition task_owner :: "task \<Rightarrow> string" where
  "task_owner t = (case present (task_agent t) of None \<Rightarrow> task_persona t | Some a \<Rightarrow> a)"

text \<open>Only the 500 newest tasks are looked at.\<close>

definition in_flight_of :: "db \<Rightarrow> string \<Rightarrow> task list" where
  "in_flight_of d aid =
     filter (\<lambda>t. task_owner t = aid \<and> in_flight (task_status t)) (find_recent 500 None d)"

definition busy_agents :: "db \<Rightarrow> string set" where
  "busy_agents d = set (List.map_filter (\<lambda>w. present (wk_agent w)) (wakeups_list_active d))"

definition occupancy :: "db \<Rightarrow> agent \<Rightarrow> string" where
  "occupancy d a =
     (if agent_status a = AArchived then ''archived''
      else if agent_id a \<in> busy_agents d then ''busy''
      else if in_flight_of d (agent_id a) \<noteq> [] then ''queued'' else ''available'')"

definition wakeup_owner :: "wakeup \<Rightarrow> string" where
  "wakeup_owner w = (case present (wk_agent w) of None \<Rightarrow> wk_persona w | Some a \<Rightarrow> a)"

definition last_active_at :: "db \<Rightarrow> string \<Rightarrow> json" where
  "last_active_at d aid =
     (case List.find (\<lambda>w. wakeup_owner w = aid) (wakeups_list_recent 200 d) of
        None \<Rightarrow> JNull | Some w \<Rightarrow> JStr (isoformat (wk_started w)))"

definition agent_status_str :: "agent_status \<Rightarrow> string" where
  "agent_status_str s = (case s of AIdle \<Rightarrow> ''idle'' | AArchived \<Rightarrow> ''archived'')"

definition agent_entry :: "tool_ctx \<Rightarrow> (string \<times> agent_idle) list \<Rightarrow> db \<Rightarrow> agent \<Rightarrow> dict" where
  "agent_entry c idle d a =
     [(''id'', JStr (agent_id a)), (''persona'', JStr (agent_persona a)), (''status'', JStr (agent_status_str (agent_status a))),
      (''occupancy'', JStr (occupancy d a)), (''is_you'', JBool (agent_id a = self_mailbox c)),
      (''parent_agent_id'', jopt_str (agent_parent a)),
      (''in_flight_count'', JInt (int (length (in_flight_of d (agent_id a))))),
      (''active_task_id'', (case in_flight_of d (agent_id a) of [] \<Rightarrow> JNull | t # ts \<Rightarrow> JStr (task_id t))),
      (''last_active_at'', last_active_at d (agent_id a)),
      (''idle_seconds'', (case map_of idle (agent_id a) of None \<Rightarrow> JNull | Some r \<Rightarrow> JInt (idle_seconds r))),
      (''stale'', JBool (case map_of idle (agent_id a) of None \<Rightarrow> False | Some r \<Rightarrow> idle_stale r)),
      (''created_at'', jopt_time (agent_created a)), (''archive_reason'', jopt_str (agent_reason a)),
      (''archived_at'', jopt_time (agent_archived a)), (''model_id'', jopt (agent_model_id a)),
      (''description'', jopt (agent_description a))]"

definition list_agents :: "agents_env \<Rightarrow> usec \<Rightarrow> tool_ctx \<Rightarrow> dict \<Rightarrow> db \<Rightarrow> dict" where
  "list_agents env now c args d =
     (let ags = agents_list_all (otruthy (dget args ''include_archived'')) d in
      [(''agents'', JArr (map (JObj \<circ> agent_entry c (idle_report now (ge_idle_age env) d) d) ags)),
       (''count'', JInt (int (length ags)))])"

section \<open>list\_personas, list\_models\<close>

definition auth_ok :: "agents_env \<Rightarrow> model_entry \<Rightarrow> bool" where
  "auth_ok env e = (case present (ep_auth_env (me_endpoint e)) of
     None \<Rightarrow> True | Some v \<Rightarrow> present (ge_environ env v) \<noteq> None)"

definition model_line :: "agents_env \<Rightarrow> bool option \<Rightarrow> model_entry \<Rightarrow> dict" where
  "model_line env healthy e =
     [(''id'', JStr (me_id e)), (''provider'', JStr (me_provider e)), (''tier'', JStr (tier_str (me_tier e))),
      (''capabilities'', jstrs (me_capabilities e)), (''status'', JStr (if me_enabled e then ''enabled'' else ''disabled'')),
      (''context_window'', (case me_context_window e of None \<Rightarrow> JNull | Some w \<Rightarrow> JInt w)),
      (''auth_env'', jopt_str (ep_auth_env (me_endpoint e))), (''auth_ok'', JBool (auth_ok env e)),
      (''healthy'', (case healthy of None \<Rightarrow> JNull | Some b \<Rightarrow> JBool b))]"

text \<open>Asking the tracker may move a model to half-open; the tracker is handed on.\<close>

fun model_lines :: "agents_env \<Rightarrow> rat \<Rightarrow> tracker option \<Rightarrow> model_entry list \<Rightarrow> dict list \<times> tracker option" where
  "model_lines env now h [] = ([], h)"
| "model_lines env now h (e # es) =
     (case h of
        None \<Rightarrow> (case model_lines env now None es of (ls, h') \<Rightarrow> (model_line env None e # ls, h'))
      | Some t \<Rightarrow> (case is_available now (me_id e) t of (ok, t1) \<Rightarrow>
          (case model_lines env now (Some t1) es of (ls, h') \<Rightarrow> (model_line env (Some ok) e # ls, h'))))"

definition list_models :: "agents_env \<Rightarrow> rat \<Rightarrow> exn + dict \<times> tracker option" where
  "list_models env now =
     (case ge_registry env of
        None \<Rightarrow> Inl (tool_error ''model_registry not available in this context (CLI test mode?)'')
      | Some es \<Rightarrow> (case model_lines env now (ge_health env) es of (ls, h) \<Rightarrow>
          Inr ([(''models'', JArr (map JObj ls)), (''count'', JInt (int (length ls)))], h)))"

section \<open>read\_memory\<close>

record disk =
  dk_resolve :: "string list \<Rightarrow> string list"
  dk_file :: "string list \<Rightarrow> string option"
  dk_dir :: "string list \<Rightarrow> bool"
  dk_decode :: "string \<Rightarrow> string"
  dk_root :: "string list option"
  dk_shipped :: "string list"

definition max_bytes :: nat where "max_bytes = 64 * 1024"

text \<open>\<open>Path(p).parts\<close> of a relative path: empty parts and single dots vanish.\<close>

fun split_parts :: "string \<Rightarrow> string list" where
  "split_parts [] = [[]]"
| "split_parts (c # cs) =
     (if c = CHR ''/'' then [] # split_parts cs
      else (case split_parts cs of [] \<Rightarrow> [[c]] | p # ps \<Rightarrow> (c # p) # ps))"

definition path_parts :: "string \<Rightarrow> string list" where
  "path_parts p = filter (\<lambda>x. x \<noteq> [] \<and> x \<noteq> ''.'') (split_parts p)"

definition within_dir :: "string list \<Rightarrow> string list \<Rightarrow> bool" where
  "within_dir dir p \<longleftrightarrow> take (length dir) p = dir"

definition bad_path :: exn where
  "bad_path = tool_error ''rel_path must be relative and stay under memory_root''"

definition resolve_memory_path :: "disk \<Rightarrow> string \<Rightarrow> exn + string list" where
  "resolve_memory_path k rel =
     (case dk_root k of
        None \<Rightarrow> Inl (tool_error ''memory_root not configured for this wakeup'')
      | Some r \<Rightarrow>
          (let base = dk_resolve k r in
           if rel = [] then Inl (tool_error ''rel_path required (string)'')
           else if hd rel = CHR ''/''
           then (if within_dir (dk_resolve k (dk_shipped k)) (dk_resolve k (path_parts rel))
                 then Inr (dk_resolve k (path_parts rel)) else Inl bad_path)
           else if ''..'' \<in> set (path_parts rel) then Inl bad_path
           else (let skill = (path_parts rel \<noteq> [] \<and> hd (path_parts rel) = ''skills'');
                     from_dir = (if skill then butlast base else base);
                     allowed = (if skill then butlast base @ [''skills''] else base);
                     target = dk_resolve k (from_dir @ path_parts rel)
                 in if within_dir allowed target then Inr target
                    else Inl (tool_error ''rel_path resolves outside its allowed root''))))"

definition read_memory :: "disk \<Rightarrow> dict \<Rightarrow> exn + dict" where
  "read_memory k args =
     (case arg args ''rel_path'' of
        Some (JStr rel) \<Rightarrow>
          ebind (resolve_memory_path k rel) (\<lambda>p.
            if dk_dir k p then Inl (tool_error (''not a file: '' @ rel))
            else (case dk_file k p of
                None \<Rightarrow> Inl (tool_error (''no such memory entry: '' @ rel))
              | Some raw \<Rightarrow>
                  Inr ([(''rel_path'', JStr rel), (''body'', JStr (dk_decode k (take max_bytes raw)))]
                       @ (if max_bytes < length raw
                          then [(''truncated'', JBool True), (''note'', JStr ''body exceeded 65536 bytes; rest omitted'')]
                          else []))))
      | _ \<Rightarrow> Inl (tool_error ''rel_path required (string)''))"

end
