(* ===== verification/Agents_Flow.thy ===== *)
theory Agents_Flow
  imports Tool_Listing Tick Restart_Limits
begin

text \<open>
  The agent tools with the rest of the system: what \<open>create_agent\<close> writes, the private files, what
  \<open>list_agents\<close> says of an agent's work, and what an accepted supervision spec does to the scheduler.
\<close>

section \<open>Creating\<close>

lemma check_agent_Inr:
  assumes "check_agent env args d = Inr p"
  shows "spawnable env args = Inr (ap_persona p)" "new_agent_id args (ap_persona p) d = Inr (ap_id p)"
    "\<exists>desc model sv. description_meta args = Inr desc \<and> model_meta env args = Inr model
       \<and> supervision_meta args = Inr sv \<and> ap_meta p = desc @ model @ sv"
  using assms by (auto simp: check_agent_def ebind_Inr_iff)

lemma spawnable_Inr:
  "spawnable env args = Inr p \<Longrightarrow> arg args ''persona'' = Some (JStr p) \<and> p \<noteq> []
     \<and> (\<exists>i. ge_persona env p = Some i \<and> pi_status i = ''approved'' \<and> pi_kind i \<noteq> ''singleton'')"
  by (auto simp: spawnable_def split: option.splits json.splits list.splits if_splits)

lemma ensure_file_frame:
  assumes "ensure_file env rel seed h = (ok, h')"
  shows "hm_db h' = hm_db h" "hm_files h r \<noteq> None \<Longrightarrow> hm_files h' r = hm_files h r"
  using assms by (auto simp: ensure_file_def split: if_splits)

lemma make_files_frame:
  assumes "make_files env now aid h = (r, h')"
  shows "\<exists>f. r = Inr f" "hm_db h' = hm_db h" "\<And>q. hm_files h q \<noteq> None \<Longrightarrow> hm_files h' q = hm_files h q"
proof -
  have "(\<exists>f. r = Inr f) \<and> hm_db h' = hm_db h \<and> (\<forall>q. hm_files h q \<noteq> None \<longrightarrow> hm_files h' q = hm_files h q)"
  proof (cases "present (ge_root env)")
    case None
    with assms show ?thesis by (auto simp: make_files_def present_def split: option.splits if_splits)
  next
    case (Some dir)
    obtain n h1 where n: "ensure_agent_notes_file env now aid h = (n, h1)" by (cases "ensure_agent_notes_file env now aid h")
    obtain p h2 where p: "ensure_agent_scratchpad_file env aid h1 = (p, h2)" by (cases "ensure_agent_scratchpad_file env aid h1")
    note f1 = ensure_file_frame [OF n [unfolded ensure_agent_notes_file_def]]
    note f2 = ensure_file_frame [OF p [unfolded ensure_agent_scratchpad_file_def]]
    have "ge_root env = Some dir" "dir \<noteq> []" using Some by (auto simp: present_def split: option.splits if_splits)
    then have "make_files env now aid h = (Inr (shown_path dir (agent_notes_rel_path aid) n,
        shown_path dir (scratchpad_rel_path aid) p), h2)"
      by (simp add: make_files_def n p)
    with assms f1 f2 show ?thesis by (auto simp: prod_eq_iff)
  qed
  then show "\<exists>f. r = Inr f" "hm_db h' = hm_db h" "\<And>q. hm_files h q \<noteq> None \<Longrightarrow> hm_files h' q = hm_files h q"
    by blast+
qed

definition created_row :: "usec \<Rightarrow> tool_ctx \<Rightarrow> agent_plan \<Rightarrow> agent_row" where
  "created_row now c p =
     \<lparr>ar_id = ap_id p, ar_persona = ap_persona p, ar_status = AIdle, ar_parent = Some (self_mailbox c),
      ar_created = MsZ (now div 1000), ar_archived = None, ar_reason = None,
      ar_meta = (if ap_meta p = [] then None else Some (ap_meta p))\<rparr>"

lemma created_row_sel [simp]:
  "ar_id (created_row now c p) = ap_id p" "ar_persona (created_row now c p) = ap_persona p"
  "ar_status (created_row now c p) = AIdle" "ar_parent (created_row now c p) = Some (self_mailbox c)"
  "ar_meta (created_row now c p) = (if ap_meta p = [] then None else Some (ap_meta p))"
  by (simp_all add: created_row_def)

lemma create_agent_cases:
  assumes "create_agent env now c args h = (r, h')"
  obtains (refused) e where "r = Inl e" "h' = h"
    | (made) p files where "check_agent env args (hm_db h) = Inr p" "ap_id p \<notin> set (agent_ids (hm_db h))"
        "r = Inr (created_reply c p files)"
        "hm_db h' = (hm_db h)\<lparr>agents := agents (hm_db h) @ [created_row now c p]\<rparr>"
        "\<And>q. hm_files h q \<noteq> None \<Longrightarrow> hm_files h' q = hm_files h q"
proof (cases "check_agent env args (hm_db h)")
  case (Inl e)
  with assms show thesis by (intro refused [of e]) (simp_all add: create_agent_def check_def bnd_query throw_def)
next
  case (Inr p)
  let ?m = "if ap_meta p = [] then None else Some (ap_meta p)"
  show thesis
  proof (cases "ap_id p \<in> set (agent_ids (hm_db h))")
    case True
    with Inr assms show thesis
      by (intro refused [of "unique_failed ''agents.id''"])
        (simp_all add: create_agent_def check_Inr seqn_def bnd_def on_db_def agents_create_def)
  next
    case False
    let ?h = "h\<lparr>hm_db := (hm_db h)\<lparr>agents := agents (hm_db h) @ [created_row now c p]\<rparr>\<rparr>"
    obtain q h2 where f: "make_files env now (ap_id p) ?h = (q, h2)" by (cases "make_files env now (ap_id p) ?h")
    note fr = make_files_frame [OF f]
    from fr(1) obtain files where q: "q = Inr files" by blast
    have "create_agent env now c args h = (Inr (created_reply c p files), h2)"
      using Inr False f q
      by (simp add: create_agent_def check_Inr seqn_def bnd_def on_db_def agents_create_def created_row_def ret_def)
    with assms fr(2,3) Inr False show thesis by (intro made [of p files]) auto
  qed
qed

lemma new_agent_id_auto:
  assumes "new_agent_id args p d = Inr aid" "arg args ''name'' = None"
  shows "\<exists>n. aid = auto_name p n \<and> 1 \<le> n \<and> (\<forall>m. 1 \<le> m \<and> m < n \<longrightarrow> auto_name p m \<in> set (agent_ids d))"
proof -
  let ?used = "map agent_id (agents_list_by_persona p True d)"
  have sub: "set ?used \<subseteq> set (agent_ids d)"
    by (auto simp: agents_list_by_persona_def row_to_agent_def agent_ids_def order_by_def)
  note f = free_name [where used = ?used and p = p and n = 1]
  have "aid = auto_name p (free_name_from ?used p 1)" using assms by (simp add: new_agent_id_def next_auto_name_def)
  with f(2,3) sub show ?thesis by blast
qed

lemma new_agent_id_named:
  assumes "new_agent_id args p d = Inr aid" "arg args ''name'' = Some j"
  shows "\<exists>n. j = JStr n \<and> aid = p @ ''/'' @ n \<and> is_valid_agent_id aid"
proof -
  from assms obtain n where n: "validate_short_name j = Inr n" "aid = compose_id p (Some n)" "is_valid_agent_id aid"
    by (auto simp: new_agent_id_def ebind_Inr_iff Let_def split: if_splits)
  then have "j = JStr n" "n \<noteq> []"
    by (auto simp: validate_short_name_def split: json.splits if_splits)
  with n show ?thesis by (cases n) (auto simp: compose_id_def)
qed

text \<open>A given name is the right-hand side of a valid id; otherwise the id takes the smallest free number.\<close>

definition named_as :: "dict \<Rightarrow> string \<Rightarrow> string \<Rightarrow> db \<Rightarrow> bool" where
  "named_as args p aid d \<longleftrightarrow>
     (case arg args ''name'' of
        Some j \<Rightarrow> (\<exists>n. j = JStr n \<and> aid = p @ ''/'' @ n \<and> is_valid_agent_id aid)
      | None \<Rightarrow> (\<exists>n. aid = auto_name p n \<and> 1 \<le> n \<and> (\<forall>m. 1 \<le> m \<and> m < n \<longrightarrow> auto_name p m \<in> set (agent_ids d))))"

lemma new_agent_id_named_as: "new_agent_id args p d = Inr aid \<Longrightarrow> named_as args p aid d"
  using new_agent_id_auto new_agent_id_named by (fastforce simp: named_as_def split: option.split)

text \<open>C29: \<open>create_agent\<close> adds exactly one agent or changes nothing. An accepted call appends one idle
  row, of an approved persona that may be spawned, with an id nobody has, live or archived, and the
  caller as its parent; no other row and no existing file changes. A given name is the right-hand
  side of a valid id; without a name the id takes the smallest free number. A refused call leaves the
  database and the files as they are.\<close>

theorem create_agent_exact:
  assumes "create_agent env now c args h = (r, h')"
  shows "(case r of
      Inl e \<Rightarrow> h' = h
    | Inr reply \<Rightarrow> (\<exists>row. hm_db h' = (hm_db h)\<lparr>agents := agents (hm_db h) @ [row]\<rparr>
        \<and> dget reply ''agent_id'' = Some (JStr (ar_id row)) \<and> ar_id row \<notin> set (agent_ids (hm_db h))
        \<and> ar_parent row = Some (self_mailbox c) \<and> ar_status row = AIdle
        \<and> (\<exists>i. ge_persona env (ar_persona row) = Some i \<and> pi_status i = ''approved'' \<and> pi_kind i \<noteq> ''singleton'')
        \<and> named_as args (ar_persona row) (ar_id row) (hm_db h))
        \<and> (\<forall>q. hm_files h q \<noteq> None \<longrightarrow> hm_files h' q = hm_files h q))"
  using assms
proof (cases rule: create_agent_cases)
  case (refused e)
  then show ?thesis by simp
next
  case (made p files)
  note k = check_agent_Inr [OF made(1)]
  note name = new_agent_id_named_as [OF k(2)]
  have "dget (created_reply c p files) ''agent_id'' = Some (JStr (ap_id p))"
    by (simp add: created_reply_def dget_def)
  with made name spawnable_Inr [OF k(1)] show ?thesis
    by (simp, intro exI [of _ "created_row now c p"]) simp
qed

section \<open>A limit of null\<close>

text \<open>The spec an agent's metadata carries.\<close>

lemma supervision_meta_null:
  assumes "arg args ''supervision'' = Some (JObj sv)" "supervision_meta args = Inr m"
  shows "m = [(''supervision'', JObj sv)]"
  using assms by (auto simp: supervision_meta_def split: option.splits if_splits json.splits)

lemma meta_no_supervision:
  "description_meta args = Inr desc \<Longrightarrow> dget desc ''supervision'' = None"
  "model_meta env args = Inr model \<Longrightarrow> dget model ''supervision'' = None"
  by (auto simp: description_meta_def model_meta_def dget_def split: option.splits json.splits if_splits)

lemma created_supervision:
  assumes "check_agent env args d = Inr p" "arg args ''supervision'' = Some (JObj sv)"
    and "agent_meta a = ar_meta (created_row now c p)"
  shows "supervision_of a = Inr sv"
proof -
  from check_agent_Inr(3) [OF assms(1)] obtain desc model s where
    m: "description_meta args = Inr desc" "model_meta env args = Inr model" "supervision_meta args = Inr s"
      "ap_meta p = desc @ model @ s" by blast
  have s: "s = [(''supervision'', JObj sv)]" using supervision_meta_null [OF assms(2) m(3)] .
  have "dget (ap_meta p) ''supervision'' = Some (JObj sv)"
    using meta_no_supervision(1) [OF m(1)] meta_no_supervision(2) [OF m(2)]
    by (simp add: m(4) s dget_def map_of_append map_add_def)
  moreover have "ap_meta p \<noteq> []" by (simp add: m(4) s)
  ultimately show ?thesis by (simp add: supervision_of_def assms(3) oget_def)
qed

definition null_limit_error :: exn where
  "null_limit_error = Exn ''TypeError'' ''int() argument must be a string, a bytes-like object or a real number''"

lemma null_limit:
  assumes "dget sv ''max_restarts'' = Some JNull"
  shows "sup_limits sv = Inl null_limit_error"
  by (simp add: sup_limits_def sup_int_def assms ebind_def null_limit_error_def)

lemma recovery_null_limit:
  assumes "task_agent t = Some aid" "agents_get aid d = Some a" "supervision_of a = Inr sv"
    and "dget sv ''max_restarts'' = Some JNull" "otruthy (dget sv ''ephemeral'')"
  shows "ephemeral_recovery_exceeded fl now t d = (Inl null_limit_error, d)"
  using assms null_limit [OF assms(4)]
  by (simp add: ephemeral_recovery_exceeded_def bnd_query ephemeral_of_def ebind_def throw_def)

lemma reaper_null_limit:
  assumes "agents_get (agent_id a) d = Some a" "supervision_of a = Inr sv" "dget sv ''max_restarts'' = Some JNull"
    and "find_latest_task_for_agent (agent_id a) d = Some t" "should_restart (restart_policy sv) (task_status t)"
  shows "supervise_ephemeral fl uuid now a d = (Inl null_limit_error, d)"
  using assms null_limit [OF assms(3)]
  by (simp add: supervise_ephemeral_def bnd_query throw_def)

text \<open>A null limit stops the scheduler. \<open>create_agent\<close> accepts a supervision spec whose
  \<open>max_restarts\<close> is null. When a task of such an ephemeral agent is the first expired lease,
  Phase 2 of the tick raises \<open>TypeError\<close> before it changes anything: no other task is recovered,
  no pending task is dispatched, no maintenance runs, and the state is the one the mail phases
  left, so the next tick meets the same task.\<close>

theorem null_limit_stalls_dispatch:
  assumes "create_agent env now0 c args h = (Inr reply, h1)" "dget reply ''agent_id'' = Some (JStr aid)"
    and "arg args ''supervision'' = Some (JObj sv)" "dget sv ''max_restarts'' = Some JNull"
    and "dget sv ''ephemeral'' = Some (JBool True)"
    and "agents_get aid (hm_db h1) = Some a0" "agents_get aid (sc_db s1) = Some a" "agent_meta a = agent_meta a0"
    and "0 < available_slots cf s1" "task_agent t = Some aid"
    and "not_active s1 (find_expired_leases (now div 1000) (available_slots cf s1) (sc_db s1)) = t # ts"
    and "mail_phases cf te now s = (Inr (), s1)"
  shows "tick cf te now clock s = (Inl null_limit_error, s1)"
  using assms(1)
proof (cases rule: create_agent_cases)
  case (made p files)
  have aid: "ap_id p = aid" using made(3) assms(2) by (simp add: created_reply_def dget_def)
  have "select_one (\<lambda>r. ar_id r = aid) (agents (hm_db h)) = None"
    using made(2) by (auto simp: select_one_None aid agent_ids_def)
  then have "agent_meta a0 = ar_meta (created_row now0 c p)"
    using assms(6) made(4) aid
    by (auto simp: agents_get_def select_snoc row_to_agent_def)
  with assms(8) have "supervision_of a = Inr sv" by (intro created_supervision [OF made(1) assms(3)]) simp
  then have rec: "ephemeral_recovery_exceeded fl now t (sc_db s1) = (Inl null_limit_error, sc_db s1)" for fl
    by (rule recovery_null_limit [OF assms(10,7) _ assms(4)]) (simp add: assms(5) otruthy_def)
  have "with_db (ephemeral_recovery_exceeded (te_float te) now t) s1 = (Inl null_limit_error, s1)"
    by (simp add: with_db_def rec)
  then have each: "recover_each cf te now (t # us) s1 = (Inl null_limit_error, s1)" for us
    by (simp add: bnd_def)
  obtain k where "nat (available_slots cf s1) = Suc k" using assms(9) by (cases "nat (available_slots cf s1)") auto
  with each have "recover_each cf te now (take (nat (available_slots cf s1)) (t # ts)) s1 = (Inl null_limit_error, s1)"
    by simp
  then have "recover_expired cf te now s1 = (Inl null_limit_error, s1)"
    using assms(9,11) by (simp add: recover_expired_def bnd_query del: recover_each.simps)
  with assms(12) show ?thesis by (simp add: tick_def seqn_def bnd_def)
qed simp

definition sample_agents_env :: agents_env where
  "sample_agents_env = \<lparr>ge_persona = (\<lambda>p. Some \<lparr>pi_status = ''approved'', pi_kind = ''spawn_only''\<rparr>), ge_registry = None,
     ge_health = None, ge_environ = (\<lambda>v. None), ge_root = None, ge_disk_fails = (\<lambda>r. False), ge_idle_age = 0\<rparr>"

definition null_args :: dict where
  "null_args = [(''persona'', JStr ''worker''), (''name'', JStr ''b''),
     (''supervision'', JObj [(''ephemeral'', JBool True), (''max_restarts'', JNull)])]"

definition null_agent :: agent_row where
  "null_agent = (sample_agent ''worker/b'' (Some ''dispatcher'')
     (Some [(''supervision'', JObj [(''ephemeral'', JBool True), (''max_restarts'', JNull)])]))"

definition crashed_task :: task_row where
  "crashed_task = (sample_task ''t2'' ''worker/b'' None)\<lparr>tr_status := TInProgress, tr_lease_holder := Some ''w2'',
     tr_lease_until := Some (MsZ 0)\<rparr>"

definition crashed_db :: db where
  "crashed_db = sample_db\<lparr>agents := agents sample_db @ [null_agent], tasks := [crashed_task, sample_task ''t1'' ''worker/a'' None]\<rparr>"

definition quiet_config :: sched_config where
  "quiet_config = sample_config\<lparr>cf_auto_wake := False\<rparr>"

lemma quiet_phases:
  assumes "find_ready (iso_sec now) 20 (sc_db s) = []" "\<not> any_open (sc_db s)" "\<not> cf_auto_wake cf"
    and "find_resumable 20 (sc_db s) = []" "find_reapable_ephemerals 20 (sc_db s) = []"
  shows "mail_phases cf te now s = (Inr (), s)"
  using assms
  by (simp add: mail_phases_def guarded_phase_def try_except_def with_db_def seqn_def bnd_def query_def ret_def run_if_def
      deliver_scheduled_mail_def resolve_fan_in_barriers_def resume_parked_tasks_def reap_ephemeral_agents_def)

lemma crashed_quiet: "mail_phases quiet_config sample_tick_env 5000000 (new_scheduler crashed_db) = (Inr (), new_scheduler crashed_db)"
proof (rule quiet_phases)
  show "find_reapable_ephemerals 20 (sc_db (new_scheduler crashed_db)) = []"
    by (simp add: find_reapable_ephemerals_def crashed_db_def reapable_def has_in_flight_task_def exists_row_def
        sample_db_def sample_agent_def null_agent_def crashed_task_def sample_task_def in_flight_def sql_limit_def order_by_def)
qed (simp_all add: sql_limit_def order_by_def exists_row_def quiet_config_def crashed_db_def sample_db_def empty_db_def find_ready_def any_open_def find_resumable_def
    crashed_task_def sample_task_def)

lemma null_created:
  obtains reply h1 where "create_agent sample_agents_env 0 (sample_ctx ''dispatcher'') null_args \<lparr>hm_db = sample_db, hm_files = Map.empty\<rparr> = (Inr reply, h1)"
    "dget reply ''agent_id'' = Some (JStr ''worker/b'')" "agents_get ''worker/b'' (hm_db h1) = Some (row_to_agent null_agent)"
proof -
  let ?h = "\<lparr>hm_db = sample_db, hm_files = Map.empty\<rparr>"
  let ?p = "\<lparr>ap_id = ''worker/b'', ap_persona = ''worker'',
     ap_meta = [(''supervision'', JObj [(''ephemeral'', JBool True), (''max_restarts'', JNull)])]\<rparr>"
  have ids: "is_valid_agent_id ''p/b''" "is_valid_agent_id ''worker/b''" by code_simp+
  have c: "check_agent sample_agents_env null_args sample_db = Inr ?p"
    by (simp add: check_agent_def spawnable_def null_args_def sample_agents_env_def new_agent_id_def validate_short_name_def
        ids compose_id_def agents_exists_def exists_row_def sample_db_def sample_agent_def ebind_def description_meta_def model_meta_def
        supervision_meta_def limit_keys_def limit_ok_def dget_def)
  obtain r h1 where run: "create_agent sample_agents_env 0 (sample_ctx ''dispatcher'') null_args ?h = (r, h1)"
    by (cases "create_agent sample_agents_env 0 (sample_ctx ''dispatcher'') null_args ?h")
  have "make_files sample_agents_env 0 x y = (Inr (JNull, JNull), y)" for x y
    by (simp add: make_files_def sample_agents_env_def)
  then have "r = Inr (created_reply (sample_ctx ''dispatcher'') ?p (JNull, JNull))
      \<and> hm_db h1 = sample_db\<lparr>agents := agents sample_db @ [null_agent]\<rparr>"
    using run c
    by (auto simp: create_agent_def check_Inr seqn_def bnd_def on_db_def agents_create_def ret_def agent_ids_def sample_db_def
        sample_agent_def null_agent_def sample_ctx_def self_mailbox_def present_def)
  with run show thesis
    by (intro that [OF run [THEN trans]])
      (auto simp: created_reply_def dget_def agents_get_def select_one_def sample_db_def sample_agent_def null_agent_def)
qed

lemma create_agent_exact_witness:
  "\<exists>reply h1 row. create_agent sample_agents_env 0 (sample_ctx ''dispatcher'') null_args \<lparr>hm_db = sample_db, hm_files = Map.empty\<rparr> = (Inr reply, h1)
     \<and> agents (hm_db h1) = agents sample_db @ [row] \<and> ar_id row = ''worker/b'' \<and> ar_parent row = Some ''dispatcher''"
proof -
  obtain reply h1 where c: "create_agent sample_agents_env 0 (sample_ctx ''dispatcher'') null_args \<lparr>hm_db = sample_db, hm_files = Map.empty\<rparr> = (Inr reply, h1)"
    "dget reply ''agent_id'' = Some (JStr ''worker/b'')" by (rule null_created)
  from create_agent_exact [OF c(1)] c(2) obtain row where
    "hm_db h1 = sample_db\<lparr>agents := agents sample_db @ [row]\<rparr>" "ar_id row = ''worker/b''" "ar_parent row = Some (self_mailbox (sample_ctx ''dispatcher''))"
    by auto
  with c(1) show ?thesis by (simp add: sample_ctx_def self_mailbox_def present_def)
qed

lemma null_limit_stalls_dispatch_witness:
  "tick quiet_config sample_tick_env 5000000 0 (new_scheduler crashed_db) = (Inl null_limit_error, new_scheduler crashed_db)"
proof -
  obtain reply h1 where c: "create_agent sample_agents_env 0 (sample_ctx ''dispatcher'') null_args \<lparr>hm_db = sample_db, hm_files = Map.empty\<rparr> = (Inr reply, h1)"
    "dget reply ''agent_id'' = Some (JStr ''worker/b'')" "agents_get ''worker/b'' (hm_db h1) = Some (row_to_agent null_agent)"
    by (rule null_created)
  have a: "agents_get ''worker/b'' (sc_db (new_scheduler crashed_db)) = Some (row_to_agent null_agent)"
    by (simp add: crashed_db_def agents_get_def select_one_def sample_db_def sample_agent_def null_agent_def)
  have slots: "available_slots quiet_config (new_scheduler crashed_db) = 3"
    by (simp add: available_slots_def quiet_config_def sample_config_def max_concurrent_def)
  have l: "not_active (new_scheduler crashed_db) (find_expired_leases (5000000 div 1000) 3 (sc_db (new_scheduler crashed_db)))
      = [row_to_task crashed_task]"
    by (simp add: not_active_def find_expired_leases_def crashed_db_def lease_expired_def crashed_task_def sample_task_def
        sql_limit_def order_by_def)
  have "task_agent (row_to_task crashed_task) = Some ''worker/b''"
    by (simp add: row_to_task_def crashed_task_def sample_task_def)
  from null_limit_stalls_dispatch [OF c(1,2) _ _ _ c(3) a refl _ this _ crashed_quiet,
      where sv = "[(''ephemeral'', JBool True), (''max_restarts'', JNull)]" and ts = "[]" and clock = 0] l slots
  show ?thesis by (simp add: null_args_def dget_def)
qed

section \<open>What list\_agents says\<close>

lemma newest_first:
  fixes k :: "'a \<Rightarrow> 'k::linorder"
  assumes "r \<in> set (take n (order_by_desc k xs))"
  shows "length (filter (\<lambda>x. k r < k x) xs) < n"
proof -
  let ?ys = "order_by_desc k xs" and ?P = "\<lambda>x. k r < k x"
  from assms obtain i where i: "i < n" "i < length ?ys" "?ys ! i = r" by (auto simp: in_set_conv_nth)
  have "sorted_wrt (\<lambda>x y. k y \<le> k x) ?ys"
    using sorted_sort_key [of k xs] by (simp add: order_by_desc_def sorted_wrt_rev sorted_map)
  then have later: "k (?ys ! j) \<le> k (?ys ! i)" if "i < j" "j < length ?ys" for j
    using that sorted_wrt_nth_less by blast
  have "\<not> ?P y" if "y \<in> set (drop i ?ys)" for y
  proof -
    from that obtain j where j: "j < length (drop i ?ys)" "drop i ?ys ! j = y" by (metis in_set_conv_nth)
    then have y: "y = ?ys ! (i + j)" "i + j < length ?ys" by auto
    show ?thesis using later [of "i + j"] y i(3) by (cases "j = 0") (auto simp: not_less)
  qed
  then have "filter ?P (drop i ?ys) = []" by (simp add: filter_empty_conv)
  then have "filter ?P ?ys = filter ?P (take i ?ys)"
    by (metis append_Nil2 append_take_drop_id filter_append)
  then have "length (filter ?P ?ys) \<le> i"
    using length_filter_le [of ?P "take i ?ys"] by simp
  moreover have "length (filter ?P ?ys) = length (filter ?P xs)"
  proof -
    have "mset ?ys = mset xs" by (simp add: order_by_desc_def)
    then show ?thesis by (metis mset_filter size_mset)
  qed
  ultimately show ?thesis using i(1) by simp
qed

definition works_for :: "string \<Rightarrow> task_row \<Rightarrow> bool" where
  "works_for aid r \<longleftrightarrow> task_owner (row_to_task r) = aid \<and> in_flight (tr_status r)"

lemma in_flight_of_rows:
  "in_flight_of d aid = map row_to_task (filter (works_for aid) (take 500 (order_by_desc tr_created (tasks d))))"
proof -
  have "task_status (row_to_task r) = tr_status r" for r by (simp add: row_to_task_def)
  then show ?thesis
    by (simp add: in_flight_of_def find_recent_def sql_limit_def filter_map comp_def works_for_def [abs_def])
qed

text \<open>An agent with old work looks free. \<open>list_agents\<close> tells \<open>available\<close> from the 500 newest tasks
  of the whole system. With at most 500 tasks it is right: an agent is shown available exactly when
  no wakeup of it is open and no task of it is pending, running or parked. But when 500 tasks are
  newer than each of its unfinished tasks, the agent is shown available, with no task in flight.\<close>

theorem old_work_looks_available:
  assumes "agent_status a \<noteq> AArchived"
  shows "(length (tasks d) \<le> 500 \<longrightarrow>
       (occupancy d a = ''available'' \<longleftrightarrow> agent_id a \<notin> busy_agents d \<and> \<not> exists_row (works_for (agent_id a)) (tasks d)))
     \<and> (agent_id a \<notin> busy_agents d
         \<and> (\<forall>r \<in> set (tasks d). works_for (agent_id a) r \<longrightarrow> 500 \<le> length (filter (\<lambda>x. tr_created r < tr_created x) (tasks d)))
       \<longrightarrow> occupancy d a = ''available'' \<and> in_flight_of d (agent_id a) = [])"
proof (intro conjI impI)
  assume "length (tasks d) \<le> 500"
  then have "take 500 (order_by_desc tr_created (tasks d)) = order_by_desc tr_created (tasks d)"
    by (simp add: order_by_desc_def)
  then show "occupancy d a = ''available'' \<longleftrightarrow> agent_id a \<notin> busy_agents d \<and> \<not> exists_row (works_for (agent_id a)) (tasks d)"
    using assms by (auto simp: occupancy_def in_flight_of_rows exists_row_def filter_empty_conv list_ex_iff)
next
  assume old: "agent_id a \<notin> busy_agents d
    \<and> (\<forall>r \<in> set (tasks d). works_for (agent_id a) r \<longrightarrow> 500 \<le> length (filter (\<lambda>x. tr_created r < tr_created x) (tasks d)))"
  have "\<not> works_for (agent_id a) r" if "r \<in> set (take 500 (order_by_desc tr_created (tasks d)))" for r
    using newest_first [OF that] old that by (auto dest!: in_set_takeD)
  then show none: "in_flight_of d (agent_id a) = []"
    by (simp add: in_flight_of_rows filter_empty_conv)
  then show "occupancy d a = ''available''" using old assms by (simp add: occupancy_def)
qed

text \<open>A database with one old pending task of \<open>worker/a\<close> and 500 newer tasks of another agent.\<close>

definition crowded_db :: db where
  "crowded_db = sample_db\<lparr>tasks := sample_task ''t1'' ''worker/a'' None
     # map (\<lambda>n. (sample_task (''n'' @ digits_of n) ''dispatcher'' None)\<lparr>tr_created := MsZ 1\<rparr>) [0..<500]\<rparr>"

lemma old_work_looks_available_witness:
  "occupancy crowded_db (row_to_agent (sample_agent ''worker/a'' (Some ''dispatcher'') None)) = ''available''
   \<and> works_for ''worker/a'' (sample_task ''t1'' ''worker/a'' None)"
proof -
  let ?a = "row_to_agent (sample_agent ''worker/a'' (Some ''dispatcher'') None)"
  have a: "agent_status ?a \<noteq> AArchived" "agent_id ?a = ''worker/a''" by (simp_all add: row_to_agent_def sample_agent_def)
  have w: "works_for ''worker/a'' (sample_task t x None) \<longleftrightarrow> x = ''worker/a''" if "x \<noteq> []" for t x
    using that by (simp add: works_for_def task_owner_def row_to_task_def sample_task_def in_flight_def present_def)
  have later: "works_for q (r\<lparr>tr_created := u\<rparr>) = works_for q r" for q r u
    by (simp add: works_for_def task_owner_def row_to_task_def)
  have b: "agent_id ?a \<notin> busy_agents crowded_db"
    by (simp add: busy_agents_def wakeups_list_active_def crowded_db_def sample_db_def empty_db_def order_by_desc_def
        List.map_filter_simps)
  have "500 \<le> length (filter (\<lambda>x. tr_created (sample_task ''t1'' ''worker/a'' None) < tr_created x) (tasks crowded_db))"
    by (simp add: crowded_db_def filter_map comp_def sample_task_def)
  then have "\<forall>r \<in> set (tasks crowded_db). works_for (agent_id ?a) r \<longrightarrow>
      500 \<le> length (filter (\<lambda>x. tr_created r < tr_created x) (tasks crowded_db))"
    by (auto simp: a(2) w later crowded_db_def)
  with old_work_looks_available [OF a(1), of crowded_db] b have "occupancy crowded_db ?a = ''available''" by blast
  with w [of "''worker/a''"] show ?thesis by simp
qed

section \<open>The scratchpad two agents share\<close>

lemma scratchpad_shared:
  assumes "scratchpad_rel_path x = scratchpad_rel_path y" "present (ge_root env) \<noteq> None"
    and "tc_agent c = Some x" "x \<noteq> []" "\<not> ge_disk_fails env (scratchpad_rel_path x)"
    and "dget args ''content'' = Some (JStr t)" "dget args ''mode'' = Some (JStr ''overwrite'')" "length t \<le> scratchpad_max_bytes"
  shows "\<exists>reply h'. update_scratchpad env c args h = (Inr reply, h') \<and> hm_files h' (scratchpad_rel_path y) = Some t"
proof -
  have s: "scratch_args env c args = Inr (t, Overwrite, x)"
    using assms(2-7) by (auto simp: scratch_args_def write_mode_of_def ebind_def present_def)
  obtain h1 where e: "ensure_agent_scratchpad_file env x h = (True, h1)"
    using assms(5) that by (cases "hm_files h (scratchpad_rel_path x) = None")
      (simp_all add: ensure_agent_scratchpad_file_def ensure_file_def)
  show ?thesis
    using s e assms(1,8)
    by (simp add: update_scratchpad_def check_Inr bnd_def step_def query_def seqn_def upd_def ret_def new_scratch_def)
qed

lemma two_scratchpads: "is_valid_agent_id ''worker/x-y'' \<and> is_valid_agent_id ''worker-x/y''
    \<and> scratchpad_rel_path ''worker/x-y'' = scratchpad_rel_path ''worker-x/y''"
  by code_simp

end
