(* ===== verification/Json_Parse.thy ===== *)
theory Json_Parse
  imports Loop_Messages
begin

text \<open>
  \<open>json.loads\<close>, which the provider adapters apply to the arguments a model streams. The
  value of the text of a float is a parameter; \<open>NaN\<close>, the infinities and Python's limit on
  the digits of an integer are left out. \<open>None\<close> is \<open>JSONDecodeError\<close>. What \<open>json.dumps\<close> writes is read
  back as the same value.
\<close>

section \<open>Strings\<close>

definition hex_val :: "char \<Rightarrow> nat option" where
  "hex_val c = (let n = (of_char c :: nat) in
     if 48 \<le> n \<and> n \<le> 57 then Some (n - 48) else if 97 \<le> n \<and> n \<le> 102 then Some (n - 87)
     else if 65 \<le> n \<and> n \<le> 70 then Some (n - 55) else None)"

fun hex4 :: "string \<Rightarrow> (nat \<times> string) option" where
  "hex4 (a # b # c # d # r) =
     (case (hex_val a, hex_val b, hex_val c, hex_val d) of
        (Some p, Some q, Some s, Some t) \<Rightarrow> Some (p * 4096 + q * 256 + s * 16 + t, r)
      | _ \<Rightarrow> None)"
| "hex4 _ = None"

definition utf8 :: "nat \<Rightarrow> string" where
  "utf8 n = bytes
     (if n < 128 then [n] else if n < 2048 then [192 + n div 64, 128 + n mod 64]
      else if n < 65536 then [224 + n div 4096, 128 + (n div 64) mod 64, 128 + n mod 64]
      else [240 + n div 262144, 128 + (n div 4096) mod 64, 128 + (n div 64) mod 64, 128 + n mod 64])"

text \<open>A high surrogate takes the low surrogate escaped after it with it.\<close>

definition low_surrogate :: "string \<Rightarrow> (nat \<times> string) option" where
  "low_surrogate r =
     (if take 2 r = [CHR 0x5C, CHR ''u'']
      then (case hex4 (drop 2 r) of
              Some (m, r') \<Rightarrow> if 56320 \<le> m \<and> m < 57344 then Some (m, r') else None
            | None \<Rightarrow> None)
      else None)"

definition code_point :: "string \<Rightarrow> (string \<times> string) option" where
  "code_point r =
     (case hex4 r of
        None \<Rightarrow> None
      | Some (n, r') \<Rightarrow>
          if 55296 \<le> n \<and> n < 56320
          then (case low_surrogate r' of
                  Some (m, r'') \<Rightarrow> Some (utf8 (65536 + (n - 55296) * 1024 + (m - 56320)), r'')
                | None \<Rightarrow> Some (utf8 n, r'))
          else Some (utf8 n, r'))"

definition simple_escapes :: "(char \<times> char) list" where
  "simple_escapes = [(CHR 0x22, CHR 0x22), (CHR 0x5C, CHR 0x5C), (CHR ''/'', CHR ''/''),
     (CHR ''b'', CHR 0x08), (CHR ''f'', CHR 0x0C), (CHR ''n'', CHR 0x0A), (CHR ''r'', CHR 0x0D),
     (CHR ''t'', CHR 0x09)]"

definition unescape :: "string \<Rightarrow> (string \<times> string) option" where
  "unescape s =
     (case s of
        [] \<Rightarrow> None
      | e # r \<Rightarrow>
          (case map_of simple_escapes e of
             Some c \<Rightarrow> Some ([c], r)
           | None \<Rightarrow> if e = CHR ''u'' then code_point r else None))"

lemma hex4_shorter: "hex4 s = Some (n, r) \<Longrightarrow> length r < length s"
  by (induction s rule: hex4.induct) (auto split: option.splits)

lemma low_surrogate_shorter: "low_surrogate s = Some (n, r) \<Longrightarrow> length r < length s"
  by (auto simp: low_surrogate_def split: if_splits option.splits dest!: hex4_shorter)

lemma unescape_shorter: "unescape s = Some (u, r) \<Longrightarrow> length r < length s"
  by (auto simp: unescape_def code_point_def split: list.splits if_splits option.splits
      dest!: hex4_shorter low_surrogate_shorter)

text \<open>The characters up to the closing quote.\<close>

function scan_string :: "string \<Rightarrow> (string \<times> string) option" where
  "scan_string s =
     (case s of
        [] \<Rightarrow> None
      | c # r \<Rightarrow>
          if c = CHR 0x22 then Some ([], r)
          else if c = CHR 0x5C
          then (case unescape r of
                  None \<Rightarrow> None
                | Some (u, r') \<Rightarrow> map_option (\<lambda>(t, q). (u @ t, q)) (scan_string r'))
          else if (of_char c :: nat) < 32 then None
          else map_option (\<lambda>(t, q). (c # t, q)) (scan_string r))"
  by pat_completeness auto
termination
  by (relation "measure length") (auto dest: unescape_shorter)

declare scan_string.simps [simp del]

section \<open>Numbers and values\<close>

definition json_space :: "char \<Rightarrow> bool" where
  "json_space c \<longleftrightarrow> c \<in> {CHR '' '', CHR 0x09, CHR 0x0A, CHR 0x0D}"

definition skip_space :: "string \<Rightarrow> string" where
  "skip_space s = dropWhile json_space s"

text \<open>The integer part, the fraction and the exponent of a number, each with what follows it.\<close>

definition int_digits :: "string \<Rightarrow> string" where
  "int_digits r = (if take 1 r = ''0'' then ''0'' else takeWhile is_digit r)"

definition int_part :: "string \<Rightarrow> (string \<times> string) option" where
  "int_part s =
     (let sign = (if take 1 s = ''-'' then ''-'' else []); r = drop (length sign) s;
          ds = int_digits r
      in if ds = [] then None else Some (sign @ ds, drop (length ds) r))"

definition frac_part :: "string \<Rightarrow> string \<times> string" where
  "frac_part s =
     (let ds = takeWhile is_digit (drop 1 s)
      in if take 1 s = ''.'' \<and> ds \<noteq> [] then (''.'' @ ds, drop (1 + length ds) s) else ([], s))"

definition exp_part :: "string \<Rightarrow> string \<times> string" where
  "exp_part s =
     (let r = drop 1 s; sign = (if take 1 r \<in> {''+'', ''-''} then take 1 r else []);
          ds = takeWhile is_digit (drop (length sign) r)
      in if take 1 s \<in> {''e'', ''E''} \<and> ds \<noteq> []
         then (take 1 s @ sign @ ds, drop (length sign + length ds) r) else ([], s))"

definition int_of_digits :: "string \<Rightarrow> int" where
  "int_of_digits s = (if take 1 s = ''-'' then - int (nat_of_digits (drop 1 s)) else int (nat_of_digits s))"

definition parse_number :: "(string \<Rightarrow> rat) \<Rightarrow> string \<Rightarrow> (json \<times> string) option" where
  "parse_number fl s =
     (case int_part s of
        None \<Rightarrow> None
      | Some (i, r) \<Rightarrow>
          (case frac_part r of (fr, r') \<Rightarrow> (case exp_part r' of (ex, r'') \<Rightarrow>
             Some (if fr = [] \<and> ex = [] then JInt (int_of_digits i) else JFloat (fl (i @ fr @ ex)), r''))))"

text \<open>\<open>dict(pairs)\<close>: of a repeated key the last value, at the first place.\<close>

definition dict_of_pairs :: "(string \<times> json) list \<Rightarrow> dict" where
  "dict_of_pairs ps = foldl (\<lambda>d (k, v). dset k v d) [] ps"

fun parse_value :: "nat \<Rightarrow> (string \<Rightarrow> rat) \<Rightarrow> string \<Rightarrow> (json \<times> string) option"
  and parse_items :: "nat \<Rightarrow> (string \<Rightarrow> rat) \<Rightarrow> string \<Rightarrow> (json list \<times> string) option"
  and parse_members :: "nat \<Rightarrow> (string \<Rightarrow> rat) \<Rightarrow> string \<Rightarrow> ((string \<times> json) list \<times> string) option" where
  "parse_value 0 fl s = None"
| "parse_value (Suc n) fl s =
     (if take 1 s = [CHR 0x22] then map_option (\<lambda>(t, r). (JStr t, r)) (scan_string (drop 1 s))
      else if take 1 s = ''['' then
        (let r = skip_space (drop 1 s) in
         if take 1 r = '']'' then Some (JArr [], drop 1 r)
         else map_option (\<lambda>(js, q). (JArr js, q)) (parse_items n fl r))
      else if take 1 s = ''{'' then
        (let r = skip_space (drop 1 s) in
         if take 1 r = ''}'' then Some (JObj [], drop 1 r)
         else map_option (\<lambda>(ps, q). (JObj (dict_of_pairs ps), q)) (parse_members n fl r))
      else if take 4 s = ''null'' then Some (JNull, drop 4 s)
      else if take 4 s = ''true'' then Some (JBool True, drop 4 s)
      else if take 5 s = ''false'' then Some (JBool False, drop 5 s)
      else parse_number fl s)"
| "parse_items 0 fl s = None"
| "parse_items (Suc n) fl s =
     (case parse_value n fl s of
        None \<Rightarrow> None
      | Some (v, r) \<Rightarrow>
          (let q = skip_space r in
           if take 1 q = '']'' then Some ([v], drop 1 q)
           else if take 1 q = '','' then
             map_option (\<lambda>(js, z). (v # js, z)) (parse_items n fl (skip_space (drop 1 q)))
           else None))"
| "parse_members 0 fl s = None"
| "parse_members (Suc n) fl s =
     (if take 1 s \<noteq> [CHR 0x22] then None
      else case scan_string (drop 1 s) of
        None \<Rightarrow> None
      | Some (k, r) \<Rightarrow>
          (let q = skip_space r in
           if take 1 q \<noteq> '':'' then None
           else case parse_value n fl (skip_space (drop 1 q)) of
             None \<Rightarrow> None
           | Some (v, r') \<Rightarrow>
               (let q' = skip_space r' in
                if take 1 q' = ''}'' then Some ([(k, v)], drop 1 q')
                else if take 1 q' = '','' then
                  map_option (\<lambda>(ps, z). ((k, v) # ps, z)) (parse_members n fl (skip_space (drop 1 q')))
                else None)))"

text \<open>Of two calls in a row at least one has taken a character, which bounds the recursion.\<close>

definition json_loads :: "(string \<Rightarrow> rat) \<Rightarrow> string \<Rightarrow> json option" where
  "json_loads fl s =
     (case parse_value (2 * length s + 2) fl (skip_space s) of
        Some (v, r) \<Rightarrow> if skip_space r = [] then Some v else None
      | None \<Rightarrow> None)"

section \<open>Reading what was written\<close>

fun floatless :: "json \<Rightarrow> bool" and floatless_all :: "json list \<Rightarrow> bool"
  and floatless_items :: "(string \<times> json) list \<Rightarrow> bool" where
  "floatless (JFloat r) = False"
| "floatless (JArr js) = floatless_all js"
| "floatless (JObj d) = (distinct (map fst d) \<and> floatless_items d)"
| "floatless _ = True"
| "floatless_all [] = True"
| "floatless_all (j # js) = (floatless j \<and> floatless_all js)"
| "floatless_items [] = True"
| "floatless_items ((k, v) # d) = (floatless v \<and> floatless_items d)"

lemma hex_val_digit [simp]: "d < 16 \<Longrightarrow> hex_val (hex_digit d) = Some d"
  by (auto simp: hex_val_def hex_digit_def Let_def)

lemma scan_close: "scan_string (CHR 0x22 # r) = Some ([], r)"
  by (subst scan_string.simps) simp

lemma scan_plain:
  "c \<noteq> CHR 0x22 \<Longrightarrow> c \<noteq> CHR 0x5C \<Longrightarrow> \<not> (of_char c :: nat) < 32 \<Longrightarrow>
   scan_string (c # r) = map_option (\<lambda>(t, q). (c # t, q)) (scan_string r)"
  by (subst scan_string.simps) simp

lemma scan_escape:
  "unescape s = Some (u, r) \<Longrightarrow>
   scan_string (CHR 0x5C # s) = map_option (\<lambda>(t, q). (u @ t, q)) (scan_string r)"
  by (subst scan_string.simps) simp

lemma unescape_control:
  assumes "n < 32"
  shows "unescape (''u00'' @ [hex_digit (n div 16), hex_digit (n mod 16)] @ r) = Some ([char_of n], r)"
proof -
  have z: "hex_val (CHR ''0'') = Some 0" by (simp add: hex_val_def)
  have q: "n div 16 < 16" "n mod 16 < 16" "n div 16 * 16 + n mod 16 = n" using assms by auto
  show ?thesis
    using assms q by (simp add: unescape_def simple_escapes_def code_point_def z utf8_def bytes_def)
qed

lemma char_codes:
  "char_of (34::nat) = CHR 0x22" "char_of (92::nat) = CHR 0x5C" "char_of (10::nat) = CHR 0x0A"
  "char_of (13::nat) = CHR 0x0D" "char_of (9::nat) = CHR 0x09" "char_of (8::nat) = CHR 0x08"
  "char_of (12::nat) = CHR 0x0C"
  by code_simp+

lemma scan_json_char: "scan_string (json_char c @ r) = map_option (\<lambda>(t, q). (c # t, q)) (scan_string r)"
proof -
  let ?n = "of_char c :: nat"
  have c: "c = char_of ?n" by simp
  have simple: ?thesis if "json_char c = [CHR 0x5C, e]" "map_of simple_escapes e = Some c" for e
    using that scan_escape [of "e # r" "[c]" r] by (simp add: unescape_def)
  have plain: ?thesis if "json_char c = [c]" "?n \<noteq> 34" "?n \<noteq> 92" "\<not> ?n < 32"
  proof -
    have "c \<noteq> CHR 0x22" "c \<noteq> CHR 0x5C" using that(2,3) by auto
    with that(1,4) show ?thesis by (simp add: scan_plain)
  qed
  have control: ?thesis if "json_char c = [CHR 0x5C] @ ''u00'' @ [hex_digit (?n div 16), hex_digit (?n mod 16)]" "?n < 32"
    using scan_escape [OF unescape_control [OF that(2)]] that(1) by simp
  consider "?n = 34" | "?n = 92" | "?n = 10" | "?n = 13" | "?n = 9" | "?n = 8" | "?n = 12"
    | "?n < 32" "?n \<noteq> 10" "?n \<noteq> 13" "?n \<noteq> 9" "?n \<noteq> 8" "?n \<noteq> 12" | "\<not> ?n < 32" "?n \<noteq> 34" "?n \<noteq> 92" by blast
  then show ?thesis
  proof cases
    case 1
    then have "c = CHR 0x22" using c char_codes by simp
    then show ?thesis by (intro simple [of "CHR 0x22"]) (simp_all add: json_char_def simple_escapes_def)
  next
    case 2
    then have "c = CHR 0x5C" using c char_codes by simp
    then show ?thesis by (intro simple [of "CHR 0x5C"]) (simp_all add: json_char_def simple_escapes_def)
  next
    case 3
    then have "c = CHR 0x0A" using c char_codes by simp
    then show ?thesis by (intro simple [of "CHR ''n''"]) (simp_all add: json_char_def simple_escapes_def)
  next
    case 4
    then have "c = CHR 0x0D" using c char_codes by simp
    then show ?thesis by (intro simple [of "CHR ''r''"]) (simp_all add: json_char_def simple_escapes_def)
  next
    case 5
    then have "c = CHR 0x09" using c char_codes by simp
    then show ?thesis by (intro simple [of "CHR ''t''"]) (simp_all add: json_char_def simple_escapes_def)
  next
    case 6
    then have "c = CHR 0x08" using c char_codes by simp
    then show ?thesis by (intro simple [of "CHR ''b''"]) (simp_all add: json_char_def simple_escapes_def)
  next
    case 7
    then have "c = CHR 0x0C" using c char_codes by simp
    then show ?thesis by (intro simple [of "CHR ''f''"]) (simp_all add: json_char_def simple_escapes_def)
  next
    case 8
    show ?thesis by (rule control) (use 8 in \<open>auto simp: json_char_def Let_def\<close>)
  next
    case 9
    show ?thesis by (rule plain) (use 9 in \<open>auto simp: json_char_def Let_def\<close>)
  qed
qed

lemma scan_json_string: "scan_string (concat (map json_char s) @ CHR 0x22 # r) = Some (s, r)"
  by (induction s) (simp_all add: scan_close scan_json_char)

lemma json_string_scans:
  obtains t where "json_string s @ r = CHR 0x22 # t" "scan_string t = Some (s, r)"
  using scan_json_string [of s r] by (simp add: json_string_def)

text \<open>A number ends where no digit, point or exponent follows.\<close>

definition ends_number :: "string \<Rightarrow> bool" where
  "ends_number r \<longleftrightarrow> r = [] \<or> hd r \<in> {CHR '','', CHR '']'', CHR ''}''}"

lemma ends_number_simps [simp]:
  "ends_number []" "ends_number (CHR '','' # r)" "ends_number (CHR '']'' # r)" "ends_number (CHR ''}'' # r)"
  by (simp_all add: ends_number_def)

lemma ends_no_digit: "ends_number r \<Longrightarrow> takeWhile is_digit (ds @ r) = takeWhile is_digit ds"
  by (induction ds) (cases r; auto simp: ends_number_def is_digit_def)+

lemma frac_exp_none: "ends_number r \<Longrightarrow> frac_part r = ([], r) \<and> exp_part r = ([], r)"
  by (cases r) (auto simp: ends_number_def frac_part_def exp_part_def)

lemma take_digits: "takeWhile is_digit (digits_of n) = digits_of n"
  using digits_of_digits by (simp add: takeWhile_eq_all_conv)

lemma digits_of_zero: "take 1 (digits_of n) = ''0'' \<Longrightarrow> digits_of n = ''0''"
proof (induction n rule: digits_of.induct)
  case (1 n)
  show ?case
  proof (cases "n < 10")
    case True
    with "1.prems" show ?thesis by (subst (asm) digits_of.simps, subst digits_of.simps) simp
  next
    case False
    then have eq: "digits_of n = digits_of (n div 10) @ [char_of (48 + n mod 10)]" by (subst digits_of.simps) simp
    with "1.prems" have "take 1 (digits_of (n div 10)) = ''0''"
      by (cases "digits_of (n div 10)") auto
    with 1 False have "digits_of (n div 10) = ''0''" by blast
    also have "''0'' = digits_of 0" by code_simp
    finally have "n div 10 = 0" by simp
    with False show ?thesis by simp
  qed
qed

lemma take1_append: "xs \<noteq> [] \<Longrightarrow> take 1 (xs @ ys) = take 1 xs"
  by (cases xs) simp_all

lemma int_part_text: "ends_number r \<Longrightarrow> int_part (str_of_int i @ r) = Some (str_of_int i, r)"
proof -
  assume r: "ends_number r"
  have pos: "int_digits (digits_of n @ r) = digits_of n" for n
  proof (cases "take 1 (digits_of n @ r) = ''0''")
    case True
    then have "take 1 (digits_of n) = ''0''" using take1_append [OF digits_of_nonempty, of n r] by metis
    then show ?thesis using True digits_of_zero unfolding int_digits_def by metis
  qed (simp add: int_digits_def ends_no_digit [OF r] take_digits)
  have no_minus: "take (Suc 0) (digits_of n @ r) \<noteq> ''-''" for n
    using digits_no_minus [of "CHR ''-''" n] by (cases "digits_of n") auto
  show ?thesis
  proof (cases "i < 0")
    case True
    then show ?thesis using pos [of "nat (- i)"] by (simp add: int_part_def str_of_int_def Let_def)
  next
    case False
    then show ?thesis using pos [of "nat i"] no_minus [of "nat i"]
      by (simp add: int_part_def str_of_int_def Let_def)
  qed
qed

lemma int_of_digits_str [simp]: "int_of_digits (str_of_int i) = i"
proof (cases "i < 0")
  case False
  have "take 1 (digits_of (nat i)) \<noteq> ''-''"
    using digits_no_minus [of "CHR ''-''" "nat i"] by (cases "digits_of (nat i)") auto
  with False show ?thesis by (simp add: int_of_digits_def str_of_int_def)
qed (simp add: int_of_digits_def str_of_int_def)

lemma parse_int: "ends_number r \<Longrightarrow> parse_number fl (str_of_int i @ r) = Some (JInt i, r)"
  by (simp add: parse_number_def int_part_text frac_exp_none)

text \<open>The first character tells the kind of a value.\<close>

lemma str_of_int_head: "\<exists>c cs. str_of_int i = c # cs \<and> (c = CHR ''-'' \<or> is_digit c)"
proof (cases "digits_of (nat i)")
  case (Cons c cs)
  have "is_digit c" using digits_of_digits [of "nat i"] Cons by simp
  with Cons show ?thesis by (simp add: str_of_int_def)
qed simp

lemma digit_kinds:
  "is_digit c \<or> c = CHR ''-'' \<Longrightarrow> c \<noteq> CHR 0x22 \<and> c \<noteq> CHR ''['' \<and> c \<noteq> CHR ''{'' \<and> c \<noteq> CHR ''n'' \<and> c \<noteq> CHR ''t''
     \<and> c \<noteq> CHR ''f'' \<and> \<not> json_space c \<and> c \<noteq> CHR '']'' \<and> c \<noteq> CHR ''}''"
  by (auto simp: is_digit_def json_space_def)

lemma parse_int_value: "ends_number r \<Longrightarrow> parse_value (Suc n) fl (str_of_int i @ r) = Some (JInt i, r)"
proof -
  assume r: "ends_number r"
  obtain c cs where c: "str_of_int i = c # cs" "c = CHR ''-'' \<or> is_digit c" using str_of_int_head by blast
  have "c \<noteq> CHR 0x22" "c \<noteq> CHR ''[''" "c \<noteq> CHR ''{''" "c \<noteq> CHR ''n''" "c \<noteq> CHR ''t''" "c \<noteq> CHR ''f''"
    using digit_kinds [of c] c(2) by blast+
  then have "parse_value (Suc n) fl (str_of_int i @ r) = parse_number fl (str_of_int i @ r)"
    by (simp add: c(1) eval_nat_numeral)
  then show ?thesis by (simp add: parse_int [OF r])
qed

lemma json_text_head:
  "floatless j \<Longrightarrow> \<exists>c cs. json_text f j = c # cs \<and> \<not> json_space c \<and> c \<noteq> CHR '']'' \<and> c \<noteq> CHR ''}''"
proof (cases j)
  case (JInt i)
  obtain c cs where c: "str_of_int i = c # cs" "c = CHR ''-'' \<or> is_digit c" using str_of_int_head by blast
  with JInt digit_kinds [of c] show ?thesis by auto
qed (auto simp: json_string_def json_space_def)

lemma skip_text [simp]: "floatless j \<Longrightarrow> skip_space (json_text f j @ r) = json_text f j @ r"
  using json_text_head [of j f] by (auto simp: skip_space_def)

lemma skip_simps [simp]:
  "skip_space (CHR '' '' # r) = skip_space r" "skip_space (CHR '','' # r) = CHR '','' # r"
  "skip_space (CHR '']'' # r) = CHR '']'' # r" "skip_space (CHR ''}'' # r) = CHR ''}'' # r"
  "skip_space (CHR '':'' # r) = CHR '':'' # r" "skip_space [] = []"
  "skip_space (json_string s @ r) = json_string s @ r"
  by (simp_all add: skip_space_def json_space_def json_string_def)

lemma foldl_dset: "distinct (map fst (d @ ps)) \<Longrightarrow> foldl (\<lambda>d (k, v). dset k v d) d ps = d @ ps"
proof (induction ps arbitrary: d)
  case (Cons p ps)
  obtain k v where p: "p = (k, v)" by force
  have fresh: "k \<notin> set (map fst e) \<Longrightarrow> dset k v e = e @ [(k, v)]" for e
    by (induction k v e rule: dset.induct) auto
  have "dset k v d = d @ [(k, v)]" using Cons.prems fresh [of d] by (auto simp: p)
  with Cons.IH [of "d @ [(k, v)]"] Cons.prems show ?case by (simp add: p)
qed simp

lemma dict_of_pairs_id: "distinct (map fst ps) \<Longrightarrow> dict_of_pairs ps = ps"
  using foldl_dset [of "[]" ps] by (simp add: dict_of_pairs_def)

lemma loads_dumps_parts:
  "floatless j \<Longrightarrow> ends_number r \<Longrightarrow> length (json_text f j) \<le> n \<Longrightarrow>
     parse_value n fl (json_text f j @ r) = Some (j, r)"
  "floatless_all js \<Longrightarrow> js \<noteq> [] \<Longrightarrow> length (json_list f js) < n \<Longrightarrow>
     parse_items n fl (json_list f js @ '']'' @ r) = Some (js, r)"
  "floatless_items d \<Longrightarrow> d \<noteq> [] \<Longrightarrow> length (json_items f d) < n \<Longrightarrow>
     parse_members n fl (json_items f d @ ''}'' @ r) = Some (d, r)"
proof (induction f j and f js and f d arbitrary: n r and n r and n r rule: json_text_json_list_json_items.induct)
  case (1 f)
  then obtain m where "n = Suc m" by (cases n) auto
  then show ?case by (simp add: eval_nat_numeral)
next
  case (2 f b)
  then obtain m where "n = Suc m" by (cases n) (auto split: if_splits)
  then show ?case by (cases b) (simp_all add: eval_nat_numeral)
next
  case (3 f i)
  obtain c cs where "str_of_int i = c # cs" using str_of_int_head by blast
  with 3 obtain m where "n = Suc m" by (cases n) auto
  with 3 show ?case by (simp add: parse_int_value del: parse_value.simps)
next
  case (4 f r)
  then show ?case by simp
next
  case (5 f s)
  then obtain m where "n = Suc m" by (cases n) (auto simp: json_string_def)
  moreover obtain t where "json_string s @ r = CHR 0x22 # t" "scan_string t = Some (s, r)"
    by (rule json_string_scans)
  ultimately show ?case by simp
next
  case (6 f js)
  then obtain m where n: "n = Suc m" by (cases n) auto
  show ?case
  proof (cases js)
    case (Cons j' js')
    obtain c cs where c: "json_text f j' = c # cs" "\<not> json_space c" "c \<noteq> CHR '']''"
      using json_text_head [of j' f] 6 Cons by auto
    have "skip_space (json_list f js @ '']'' @ r) = json_list f js @ '']'' @ r"
      "take 1 (json_list f js @ '']'' @ r) \<noteq> '']''"
      using c by (simp_all add: Cons skip_space_def)
    with 6 n Cons show ?thesis by simp
  qed (simp add: n)
next
  case (7 f d)
  then obtain m where n: "n = Suc m" by (cases n) auto
  show ?case
  proof (cases d)
    case (Cons p d')
    obtain k v where p: "p = (k, v)" by force
    have "skip_space (json_items f d @ ''}'' @ r) = json_items f d @ ''}'' @ r"
      "take 1 (json_items f d @ ''}'' @ r) \<noteq> ''}''"
      by (simp_all add: Cons p json_string_def skip_space_def json_space_def)
    with 7 n Cons show ?thesis by (simp add: dict_of_pairs_id)
  qed (simp add: n dict_of_pairs_def)
next
  case (8 f)
  then show ?case by simp
next
  case (9 f j js)
  then obtain m where n: "n = Suc m" by (cases n) auto
  show ?case
  proof (cases "js = []")
    case True
    with 9 n show ?thesis by simp
  next
    case False
    then obtain j' js' where js: "js = j' # js'" by (cases js) auto
    have sk: "skip_space (json_list f js @ '']'' @ r) = json_list f js @ '']'' @ r"
      using 9 by (simp add: js)
    show ?thesis using 9 n False sk by simp
  qed
next
  case (10 f)
  then show ?case by simp
next
  case (11 f k v d)
  then obtain m where n: "n = Suc m" by (cases n) auto
  show ?case
  proof (cases "d = []")
    case True
    obtain t where "json_string k @ '': '' @ json_text f v @ ''}'' @ r = CHR 0x22 # t"
      "scan_string t = Some (k, '': '' @ json_text f v @ ''}'' @ r)" by (rule json_string_scans)
    with 11 n True show ?thesis by simp
  next
    case False
    then obtain k' v' d' where d: "d = (k', v') # d'" by (cases d) auto
    have sk: "skip_space (json_items f d @ ''}'' @ r) = json_items f d @ ''}'' @ r"
      by (simp add: d)
    obtain t where "json_string k @ '': '' @ json_text f v @ '', '' @ json_items f d @ ''}'' @ r = CHR 0x22 # t"
      "scan_string t = Some (k, '': '' @ json_text f v @ '', '' @ json_items f d @ ''}'' @ r)" by (rule json_string_scans)
    with 11 n False sk show ?thesis by simp
  qed
qed

lemma loads_dumps: "floatless j \<Longrightarrow> json_loads fl (json_text f j) = Some j"
proof -
  assume j: "floatless j"
  have "skip_space (json_text f j) = json_text f j" using skip_text [OF j, of f "[]"] by simp
  moreover have "parse_value (2 * length (json_text f j) + 2) fl (json_text f j @ []) = Some (j, [])"
    by (rule loads_dumps_parts(1) [OF j]) simp_all
  ultimately show ?thesis by (simp add: json_loads_def del: parse_value.simps)
qed

end
