(* ===== verification/Wire_Format.thy ===== *)
theory Wire_Format
  imports Json_Parse
begin

text \<open>
  What the provider adapters (\<open>adapter/*.py\<close>) share: the translation of a conversation message by
  message, the encoding of attachments, the input of a streamed tool call; and the contract of a
  translation. A provider reads a list of items and keeps which calls still wait for a result; a
  translation is good if the items of a message settle what its predecessor owed and leave owed
  what the message asks for. Then a well-paired conversation becomes a request without open calls.
\<close>

section \<open>Translating message by message\<close>

text \<open>The loop over the messages, which the first exception ends.\<close>

fun each_message :: "(message \<Rightarrow> exn + 'w list) \<Rightarrow> message list \<Rightarrow> exn + 'w list" where
  "each_message enc [] = Inr []"
| "each_message enc (m # ms) =
     (case enc m of
        Inl e \<Rightarrow> Inl e
      | Inr ws \<Rightarrow> (case each_message enc ms of Inl e \<Rightarrow> Inl e | Inr vs \<Rightarrow> Inr (ws @ vs)))"

lemma each_message_total:
  "(\<And>m. m \<in> set ms \<Longrightarrow> \<exists>ws. enc m = Inr ws) \<Longrightarrow> \<exists>ws. each_message enc ms = Inr ws"
proof (induction ms)
  case (Cons m ms)
  then obtain ws vs where "enc m = Inr ws" "each_message enc ms = Inr vs" by force
  then show ?case by simp
qed simp

locale provider =
  fixes accepts :: "string list \<Rightarrow> 'w list \<Rightarrow> string list option"
    and encode :: "message \<Rightarrow> exn + 'w list"
  assumes accepts_Nil: "accepts owed [] = Some owed"
    and accepts_append: "accepts owed (xs @ ys) = Option.bind (accepts owed xs) (\<lambda>o'. accepts o' ys)"
    and encode_settles: "encode m = Inr ws \<Longrightarrow> shape_ok m \<Longrightarrow> results_of (m_content m) = owed \<Longrightarrow>
      (owed \<noteq> [] \<longrightarrow> m_role m = RUser) \<Longrightarrow> accepts owed ws = Some (uses_of (m_content m))"
begin

lemma accepts_messages:
  "owed_after owed ms = Some o' \<Longrightarrow> each_message encode ms = Inr ws \<Longrightarrow> accepts owed ws = Some o'"
proof (induction ms arbitrary: owed ws)
  case Nil
  then show ?case by (simp add: accepts_Nil)
next
  case (Cons m ms)
  from Cons.prems(1) have m: "shape_ok m" "results_of (m_content m) = owed" "owed \<noteq> [] \<longrightarrow> m_role m = RUser"
    "owed_after (uses_of (m_content m)) ms = Some o'" by (simp_all split: if_splits)
  from Cons.prems(2) obtain us vs where e: "encode m = Inr us" "each_message encode ms = Inr vs" "ws = us @ vs"
    by (auto split: sum.splits)
  show ?case
    using encode_settles [OF e(1) m(1-3)] Cons.IH [OF m(4) e(2)] by (simp add: e(3) accepts_append)
qed

lemma accepts_conversation: "well_paired ms \<Longrightarrow> each_message encode ms = Inr ws \<Longrightarrow> accepts [] ws = Some []"
  using accepts_messages by (simp add: well_paired_def)

end

section \<open>Attachments\<close>

text \<open>\<open>base64.b64encode\<close>.\<close>

definition base64_digit :: "nat \<Rightarrow> char" where
  "base64_digit n = char_of (if n < 26 then 65 + n else if n < 52 then 71 + n else if n < 62 then n - 4
     else if n = 62 then 43 else (47 :: nat))"

fun base64 :: "nat list \<Rightarrow> string" where
  "base64 [] = []"
| "base64 [a] = map base64_digit [a div 4, (a mod 4) * 16] @ ''==''"
| "base64 [a, b] = map base64_digit [a div 4, (a mod 4) * 16 + b div 16, (b mod 16) * 4] @ ''=''"
| "base64 (a # b # c # r) =
     map base64_digit [a div 4, (a mod 4) * 16 + b div 16, (b mod 16) * 4 + c div 64, c mod 64] @ base64 r"

definition b64encode :: "string \<Rightarrow> string" where
  "b64encode s = base64 (map of_char s)"

text \<open>\<open>BlobStore.read\<close>, if the adapter was given a store.\<close>

type_synonym blob_reader = "(string \<Rightarrow> string \<Rightarrow> exn + string) option"

text \<open>The bytes of an attachment in base64; a missing store, id or type raises.\<close>

definition media_data :: "string \<Rightarrow> blob_reader \<Rightarrow> string option \<Rightarrow> string option \<Rightarrow> exn + (string \<times> string)" where
  "media_data err store blob mt =
     (case (store, present blob, present mt) of
        (Some read, Some b, Some t) \<Rightarrow>
          (case read b t of Inl e \<Rightarrow> Inl e | Inr d \<Rightarrow> Inr (t, b64encode d))
      | _ \<Rightarrow> Inl (value_error err))"

definition data_url :: "string \<times> string \<Rightarrow> string" where
  "data_url d = ''data:'' @ fst d @ '';base64,'' @ snd d"

section \<open>Tool calls\<close>

text \<open>The input of a call from the text of its arguments: a text that is no JSON, or no object, is
  kept under \<open>_raw\<close>.\<close>

definition raw_input :: "string \<Rightarrow> dict" where
  "raw_input args = [(''_raw'', JStr args)]"

definition input_of :: "(string \<Rightarrow> rat) \<Rightarrow> string \<Rightarrow> dict" where
  "input_of fl args =
     (if args = [] then []
      else case json_loads fl args of
        Some (JObj d) \<Rightarrow> d
      | _ \<Rightarrow> raw_input args)"

text \<open>Written by \<open>json.dumps\<close> and read back, an input without floats is itself.\<close>

lemma input_of_dumps:
  assumes "floatless (JObj d)"
  shows "input_of fl (json_text f (JObj d)) = d"
proof -
  have "json_text f (JObj d) \<noteq> []" by simp
  then show ?thesis using loads_dumps [OF assms, of fl f] by (simp add: input_of_def del: json_text.simps)
qed

definition texts_of :: "block list \<Rightarrow> string list" where
  "texts_of bs = List.map_filter (\<lambda>b. case b of BText t \<Rightarrow> if t = [] then None else Some t | _ \<Rightarrow> None) bs"


end
