(* ===== verification/Adapter_Chat.thy ===== *)
theory Adapter_Chat
  imports Wire_Format Loop_Turn
begin

text \<open>
  \<open>adapter/openai.py\<close>: the Chat Completions format. Results become messages of their own, thinking is
  dropped, attachments need the list form; the pieces of a streamed call are collected per index.
  The result of a tool is a text in every block the loop makes, so the branch that dumps it again
  is left out. The client is a parameter: the chunks it yields and the exception it may end with.
\<close>

section \<open>The request\<close>

datatype chat_part = PartText string | PartImage string

record chat_call =
  cc_id :: string
  cc_name :: string
  cc_arguments :: string

datatype chat_msg =
    ChatSystem string
  | ChatUser string
  | ChatUserParts "chat_part list"
  | ChatTool string string
  | ChatAssistant "string option" "chat_call list"

definition image_error :: string where
  "image_error = ''Cannot translate '' @ [CHR 0x27] @ ''image'' @ [CHR 0x27]
     @ '' block: blob_store + blob_id + media_type required''"

definition document_error :: string where
  "document_error = ''OpenAI Chat Completions does not support '' @ [CHR 0x27] @ ''document'' @ [CHR 0x27]
     @ '' blocks; route to a provider with PDF input or pre-extract text.''"

text \<open>The tool messages, texts and images of a user message, block by block.\<close>

fun user_parts ::
    "(rat \<Rightarrow> string) \<Rightarrow> blob_reader \<Rightarrow> block list \<Rightarrow> exn + (chat_msg list \<times> string list \<times> chat_part list)" where
  "user_parts f store [] = Inr ([], [], [])"
| "user_parts f store (BText t # bs) =
     map_sum id (\<lambda>(ts, xs, is). (ts, if t = [] then xs else t # xs, is)) (user_parts f store bs)"
| "user_parts f store (BToolResult i r e # bs) =
     map_sum id (\<lambda>(ts, xs, is). (ChatTool i (text_of f r) # ts, xs, is)) (user_parts f store bs)"
| "user_parts f store (BMedia MImage blob mt fn # bs) =
     (case media_data image_error store blob mt of
        Inl e \<Rightarrow> Inl e
      | Inr d \<Rightarrow> map_sum id (\<lambda>(ts, xs, is). (ts, xs, PartImage (data_url d) # is)) (user_parts f store bs))"
| "user_parts f store (BMedia MDocument blob mt fn # bs) = Inl (value_error document_error)"
| "user_parts f store (_ # bs) = user_parts f store bs"

definition user_tail :: "string list \<Rightarrow> chat_part list \<Rightarrow> chat_msg list" where
  "user_tail xs is =
     (if is \<noteq> [] then [ChatUserParts ((if xs = [] then [] else [PartText (concat xs)]) @ is)]
      else if xs \<noteq> [] then [ChatUser (concat xs)] else [])"

definition chat_calls :: "(rat \<Rightarrow> string) \<Rightarrow> block list \<Rightarrow> chat_call list" where
  "chat_calls f bs = List.map_filter (\<lambda>b. case b of
     BToolUse i n d \<Rightarrow> Some \<lparr>cc_id = i, cc_name = n, cc_arguments = json_text f (JObj d)\<rparr>
   | _ \<Rightarrow> None) bs"

definition chat_assistant :: "(rat \<Rightarrow> string) \<Rightarrow> block list \<Rightarrow> chat_msg list" where
  "chat_assistant f bs =
     (let xs = texts_of bs; cs = chat_calls f bs in
      if xs = [] \<and> cs = [] then []
      else [ChatAssistant (if xs = [] then None else Some (concat xs)) cs])"

definition chat_message :: "(rat \<Rightarrow> string) \<Rightarrow> blob_reader \<Rightarrow> message \<Rightarrow> exn + chat_msg list" where
  "chat_message f store m =
     (case m_role m of
        RUser \<Rightarrow> map_sum id (\<lambda>(ts, xs, is). ts @ user_tail xs is) (user_parts f store (m_content m))
      | RAssistant \<Rightarrow> Inr (chat_assistant f (m_content m))
      | _ \<Rightarrow> Inr [])"

definition lyre_to_openai_messages ::
    "(rat \<Rightarrow> string) \<Rightarrow> blob_reader \<Rightarrow> string option \<Rightarrow> message list \<Rightarrow> exn + chat_msg list" where
  "lyre_to_openai_messages f store system ms =
     map_sum id (\<lambda>out. (case present system of Some s \<Rightarrow> [ChatSystem s] | None \<Rightarrow> []) @ out)
       (each_message (chat_message f store) ms)"

text \<open>The tools and the keyword arguments of the call.\<close>

record tool_spec =
  ts_name :: string
  ts_description :: string
  ts_schema :: dict

definition tool_to_openai :: "tool_spec \<Rightarrow> json" where
  "tool_to_openai t = JObj [(''type'', JStr ''function''),
     (''function'', JObj [(''name'', JStr (ts_name t)), (''description'', JStr (ts_description t)),
                          (''parameters'', JObj (ts_schema t))])]"

record chat_request =
  cr_model :: string
  cr_messages :: "chat_msg list"
  cr_max_tokens :: int
  cr_tools :: "json list option"
  cr_temperature :: "rat option"

definition chat_request_of ::
    "(rat \<Rightarrow> string) \<Rightarrow> blob_reader \<Rightarrow> message list \<Rightarrow> tool_spec list \<Rightarrow> string \<Rightarrow> int \<Rightarrow> rat option \<Rightarrow> string option
      \<Rightarrow> exn + chat_request" where
  "chat_request_of f store ms tools model max_tokens temperature system =
     map_sum id (\<lambda>out. \<lparr>cr_model = model, cr_messages = out, cr_max_tokens = max_tokens,
         cr_tools = (if tools = [] then None else Some (map tool_to_openai tools)),
         cr_temperature = temperature\<rparr>)
       (lyre_to_openai_messages f store system ms)"

section \<open>The stream\<close>

record call_delta =
  cd_index :: "int option"
  cd_id :: "string option"
  cd_function :: "(string option \<times> string option) option"

record chat_delta =
  dl_content :: "string option"
  dl_reasoning :: "string option"
  dl_calls :: "call_delta list"

record chat_chunk =
  ck_usage :: "(int option \<times> int option) option"
  ck_choice :: "(chat_delta option \<times> string option) option"

record call_buffer =
  cb_id :: "string option"
  cb_name :: "string option"
  cb_args :: string
  cb_started :: bool

record chat_state =
  cs_buffers :: "(int \<times> call_buffer) list"
  cs_reasoning :: "string list"
  cs_finish :: "string option"
  cs_usage :: "(int \<times> int) option"

definition fresh_chat :: chat_state where
  "fresh_chat = \<lparr>cs_buffers = [], cs_reasoning = [], cs_finish = None, cs_usage = None\<rparr>"

definition fresh_buffer :: call_buffer where
  "fresh_buffer = \<lparr>cb_id = None, cb_name = None, cb_args = [], cb_started = False\<rparr>"

definition keep_new :: "string option \<Rightarrow> string option \<Rightarrow> string option" where
  "keep_new v old = (case present v of Some x \<Rightarrow> Some x | None \<Rightarrow> old)"

definition or_empty :: "string option \<Rightarrow> string" where
  "or_empty v = (case v of Some s \<Rightarrow> s | None \<Rightarrow> [])"

definition call_index :: "call_delta \<Rightarrow> int" where
  "call_index d = (case cd_index d of Some i \<Rightarrow> i | None \<Rightarrow> 0)"

text \<open>One delta of a call: its buffer afterwards, and the events.\<close>

definition call_step :: "call_delta \<Rightarrow> call_buffer \<Rightarrow> stream_event list \<times> call_buffer" where
  "call_step d b =
     (let b1 = b\<lparr>cb_id := keep_new (cd_id d) (cb_id b)\<rparr> in
      case cd_function d of
        None \<Rightarrow> ([], b1)
      | Some (name, args) \<Rightarrow>
          (let b2 = b1\<lparr>cb_name := keep_new name (cb_name b1)\<rparr>;
               start = \<not> cb_started b2 \<and> cb_name b2 \<noteq> None;
               b3 = (if start then b2\<lparr>cb_started := True\<rparr> else b2)
           in ((if start then [ToolUseStart (or_empty (cb_id b2)) (or_empty (cb_name b2))] else [])
                 @ (case args of None \<Rightarrow> [] | Some a \<Rightarrow> [ToolUseDelta (or_empty (cb_id b2)) a]),
               case args of None \<Rightarrow> b3 | Some a \<Rightarrow> b3\<lparr>cb_args := cb_args b3 @ a\<rparr>)))"

text \<open>\<open>setdefault\<close> keeps the order in which the indices first appear.\<close>

fun at_index :: "int \<Rightarrow> 'b \<Rightarrow> ('b \<Rightarrow> 'b) \<Rightarrow> (int \<times> 'b) list \<Rightarrow> (int \<times> 'b) list" where
  "at_index i z g [] = [(i, g z)]"
| "at_index i z g ((j, b) # bs) = (if i = j then (j, g b) # bs else (j, b) # at_index i z g bs)"

definition buffer_at :: "int \<Rightarrow> (int \<times> call_buffer) list \<Rightarrow> call_buffer" where
  "buffer_at i bs = (case map_of bs i of Some b \<Rightarrow> b | None \<Rightarrow> fresh_buffer)"

fun call_deltas :: "call_delta list \<Rightarrow> (int \<times> call_buffer) list \<Rightarrow> stream_event list \<times> (int \<times> call_buffer) list" where
  "call_deltas [] bs = ([], bs)"
| "call_deltas (d # ds) bs =
     (let i = call_index d; es = fst (call_step d (buffer_at i bs)) in
      (case call_deltas ds (at_index i fresh_buffer (\<lambda>b. snd (call_step d b)) bs) of
         (es', bs') \<Rightarrow> (es @ es', bs')))"

definition or_zero :: "int option \<Rightarrow> int" where
  "or_zero v = (case v of Some n \<Rightarrow> n | None \<Rightarrow> 0)"

definition delta_step :: "chat_delta \<Rightarrow> chat_state \<Rightarrow> stream_event list \<times> chat_state" where
  "delta_step d s =
     (let text = (case present (dl_content d) of Some t \<Rightarrow> [ContentDelta t] | None \<Rightarrow> []);
          why = present (dl_reasoning d)
      in case call_deltas (dl_calls d) (cs_buffers s) of (es, bs) \<Rightarrow>
           (text @ (case why of Some t \<Rightarrow> [ThinkingDelta t] | None \<Rightarrow> []) @ es,
            s\<lparr>cs_buffers := bs,
              cs_reasoning := cs_reasoning s @ (case why of Some t \<Rightarrow> [t] | None \<Rightarrow> [])\<rparr>))"

definition chunk_step :: "chat_chunk \<Rightarrow> chat_state \<Rightarrow> stream_event list \<times> chat_state" where
  "chunk_step c s =
     (let s1 = (case ck_usage c of
                  Some (p, o') \<Rightarrow> s\<lparr>cs_usage := Some (or_zero p, or_zero o')\<rparr> | None \<Rightarrow> s)
      in case ck_choice c of
           None \<Rightarrow> ([], s1)
         | Some (delta, finish) \<Rightarrow>
             (case (case delta of Some d \<Rightarrow> delta_step d s1 | None \<Rightarrow> ([], s1)) of (es, s2) \<Rightarrow>
                (es, s2\<lparr>cs_finish := keep_new finish (cs_finish s2)\<rparr>)))"

fun chunks_steps :: "chat_chunk list \<Rightarrow> chat_state \<Rightarrow> stream_event list \<times> chat_state" where
  "chunks_steps [] s = ([], s)"
| "chunks_steps (c # cs) s =
     (case chunk_step c s of (es, s') \<Rightarrow> (case chunks_steps cs s' of (es', t) \<Rightarrow> (es @ es', t)))"

text \<open>After the last chunk: the calls, the thinking, the usage and the end of the turn.\<close>

definition finish_reason_map :: "(string \<times> string) list" where
  "finish_reason_map = [(''stop'', ''end_turn''), (''length'', ''max_tokens''), (''tool_calls'', ''tool_use''),
     (''function_call'', ''tool_use''), (''content_filter'', ''error'')]"

definition mapped_reason :: "(string \<times> string) list \<Rightarrow> string \<Rightarrow> string" where
  "mapped_reason table r = (case map_of table r of Some t \<Rightarrow> t | None \<Rightarrow> ''end_turn'')"

definition complete_call :: "(string \<Rightarrow> rat) \<Rightarrow> call_buffer \<Rightarrow> stream_event list" where
  "complete_call fl b =
     (case cb_name b of
        None \<Rightarrow> []
      | Some n \<Rightarrow> [ToolUseComplete (or_empty (cb_id b)) n (input_of fl (cb_args b))])"

definition chat_flush :: "(string \<Rightarrow> rat) \<Rightarrow> chat_state \<Rightarrow> stream_event list" where
  "chat_flush fl s =
     concat (map (\<lambda>(i, b). complete_call fl b) (cs_buffers s))
     @ (if cs_reasoning s = [] then [] else [ThinkingBlockComplete (concat (cs_reasoning s)) None])
     @ (case cs_usage s of None \<Rightarrow> [] | Some (i, o') \<Rightarrow> [Usage i o'])
     @ [TurnComplete (mapped_reason finish_reason_map (case cs_finish s of Some r \<Rightarrow> r | None \<Rightarrow> ''stop''))]"

definition chat_stream :: "(string \<Rightarrow> rat) \<Rightarrow> chat_chunk list \<Rightarrow> exn option \<Rightarrow> stream_event list \<times> exn option" where
  "chat_stream fl cs err =
     (case chunks_steps cs fresh_chat of (es, s) \<Rightarrow>
        (es @ (if err = None then chat_flush fl s else []), err))"

lemma present_None [simp]: "present None = None"
  by (simp add: present_def)

section \<open>The endpoint accepts what is sent\<close>

text \<open>Tool messages follow the assistant message they answer at once, one per call.\<close>

fun calls_asked :: "chat_msg \<Rightarrow> string list" where
  "calls_asked (ChatAssistant t cs) = map cc_id cs"
| "calls_asked _ = []"

fun chat_owed :: "string list \<Rightarrow> chat_msg list \<Rightarrow> string list option" where
  "chat_owed owed [] = Some owed"
| "chat_owed owed (ChatTool i c # ms) =
     (if owed \<noteq> [] \<and> hd owed = i then chat_owed (tl owed) ms else None)"
| "chat_owed owed (m # ms) = (if owed = [] then chat_owed (calls_asked m) ms else None)"

lemma chat_owed_append: "chat_owed owed (xs @ ys) = Option.bind (chat_owed owed xs) (\<lambda>o'. chat_owed o' ys)"
  by (induction owed xs rule: chat_owed.induct) simp_all

lemma user_tools_settle:
  "user_parts f store bs = Inr (ts, xs, is) \<Longrightarrow> chat_owed (results_of bs @ owed) ts = Some owed"
  by (induction f store bs arbitrary: ts xs "is" rule: user_parts.induct)
    (auto simp: map_sum_def split: sum.splits)

lemma chat_calls_ids [simp]: "map cc_id (chat_calls f bs) = uses_of bs"
  unfolding chat_calls_def uses_of_def
  by (induction bs) (auto simp: List.map_filter_simps split: block.splits)

lemma chat_message_settles:
  assumes "chat_message f store m = Inr ws" "shape_ok m" "results_of (m_content m) = owed"
    "owed \<noteq> [] \<longrightarrow> m_role m = RUser"
  shows "chat_owed owed ws = Some (uses_of (m_content m))"
proof (cases "m_role m")
  case RUser
  then obtain ts xs "is" where u: "user_parts f store (m_content m) = Inr (ts, xs, is)" "ws = ts @ user_tail xs is"
    using assms(1) by (auto simp: chat_message_def map_sum_def split: sum.splits)
  have "chat_owed owed ts = Some []" using user_tools_settle [OF u(1), of "[]"] assms(3) by simp
  moreover have "chat_owed [] (user_tail xs is) = Some []" by (simp add: user_tail_def)
  ultimately show ?thesis using RUser assms(2) by (simp add: u(2) chat_owed_append shape_ok_def)
next
  case RAssistant
  then have "owed = []" using assms(2,3) by (simp add: shape_ok_def)
  moreover have "chat_calls f bs = [] \<Longrightarrow> uses_of bs = []" for bs using chat_calls_ids [of f bs] by simp
  ultimately show ?thesis using RAssistant assms(1)
    by (auto simp: chat_message_def chat_assistant_def Let_def split: if_splits)
qed (use assms in \<open>auto simp: chat_message_def shape_ok_def\<close>)

interpretation chat: provider chat_owed "chat_message f store" for f store
  by unfold_locales (simp_all add: chat_owed_append chat_message_settles)

lemma chat_request_paired:
  assumes "well_paired ms" "lyre_to_openai_messages f store system ms = Inr out"
  shows "chat_owed [] out = Some []"
  using assms chat.accepts_conversation [OF assms(1)]
  by (auto simp: lyre_to_openai_messages_def map_sum_def split: sum.splits option.splits)

text \<open>Only an attachment can make the translation raise.\<close>

lemma user_parts_total: "\<not> list_ex is_media bs \<Longrightarrow> \<exists>r. user_parts f store bs = Inr r"
  by (induction f store bs rule: user_parts.induct) (auto simp: is_media_def map_sum_def)

lemma chat_message_total: "\<not> list_ex is_media (m_content m) \<Longrightarrow> \<exists>ws. chat_message f store m = Inr ws"
  using user_parts_total [of "m_content m" f store] by (cases "m_role m") (auto simp: chat_message_def)

lemma chat_total:
  assumes "list_all (\<lambda>m. \<not> list_ex is_media (m_content m)) ms"
  shows "\<exists>out. lyre_to_openai_messages f store system ms = Inr out"
proof -
  have "\<exists>ws. each_message (chat_message f store) ms = Inr ws"
    by (rule each_message_total) (use assms chat_message_total in \<open>auto simp: list_all_iff\<close>)
  then show ?thesis by (auto simp: lyre_to_openai_messages_def)
qed

section \<open>What a stream says\<close>

text \<open>The declarative reading: per index, in the order the indices first appear, the last id, the
  last name and all the fragments.\<close>

definition in_order :: "'a list \<Rightarrow> 'a list" where
  "in_order xs = rev (remdups (rev xs))"

definition latest :: "string option list \<Rightarrow> string option" where
  "latest vs = (let xs = List.map_filter present vs in if xs = [] then None else Some (last xs))"

definition delta_name :: "call_delta \<Rightarrow> string option" where
  "delta_name d = (case cd_function d of Some (n, a) \<Rightarrow> n | None \<Rightarrow> None)"

definition delta_args :: "call_delta \<Rightarrow> string" where
  "delta_args d = (case cd_function d of Some (n, Some a) \<Rightarrow> a | _ \<Rightarrow> [])"

definition of_index :: "int \<Rightarrow> call_delta list \<Rightarrow> call_delta list" where
  "of_index i ds = filter (\<lambda>d. call_index d = i) ds"

definition collected :: "call_delta list \<Rightarrow> call_buffer" where
  "collected ds = \<lparr>cb_id = latest (map cd_id ds), cb_name = latest (map delta_name ds),
     cb_args = concat (map delta_args ds), cb_started = (latest (map delta_name ds) \<noteq> None)\<rparr>"

definition all_calls :: "chat_chunk list \<Rightarrow> call_delta list" where
  "all_calls cs = concat (map (\<lambda>c. case ck_choice c of Some (Some d, r) \<Rightarrow> dl_calls d | _ \<Rightarrow> []) cs)"

definition pieces :: "(chat_delta \<Rightarrow> string option) \<Rightarrow> chat_chunk list \<Rightarrow> string list" where
  "pieces g cs = List.map_filter (\<lambda>c. case ck_choice c of Some (Some d, r) \<Rightarrow> present (g d) | _ \<Rightarrow> None) cs"

definition finish_of :: "chat_chunk \<Rightarrow> string option" where
  "finish_of c = (case ck_choice c of Some (d, r) \<Rightarrow> r | None \<Rightarrow> None)"

definition usage_of :: "chat_chunk list \<Rightarrow> (int \<times> int) option" where
  "usage_of cs = (let us = List.map_filter ck_usage cs in
     if us = [] then None else Some (or_zero (fst (last us)), or_zero (snd (last us))))"

definition calls_said :: "(string \<Rightarrow> rat) \<Rightarrow> call_delta list \<Rightarrow> tool_use list" where
  "calls_said fl ds = List.map_filter (\<lambda>i. let b = collected (of_index i ds) in
       map_option (\<lambda>n. \<lparr>tu_id = or_empty (cb_id b), tu_name = n, tu_input = input_of fl (cb_args b)\<rparr>) (cb_name b))
     (in_order (map call_index ds))"

lemma in_order_simps [simp]:
  "in_order [] = []" "in_order (xs @ [x]) = (if x \<in> set xs then in_order xs else in_order xs @ [x])"
  "set (in_order xs) = set xs" "distinct (in_order xs)"
  by (simp_all add: in_order_def)

lemma latest_simps [simp]: "latest [] = None" "latest (vs @ [v]) = keep_new v (latest vs)"
  by (auto simp: latest_def map_filter_def keep_new_def Let_def split: option.splits)

lemma collected_Nil: "collected [] = fresh_buffer"
  by (simp add: collected_def fresh_buffer_def)

lemma collected_snoc: "snd (call_step d (collected ds)) = collected (ds @ [d])"
  by (auto simp: call_step_def collected_def delta_name_def delta_args_def Let_def keep_new_def
      split: option.splits prod.splits)

lemma at_index_table:
  "distinct js \<Longrightarrow> at_index i z g (map (\<lambda>j. (j, h j)) js)
     = (if i \<in> set js then map (\<lambda>j. (j, if j = i then g (h j) else h j)) js
        else map (\<lambda>j. (j, h j)) js @ [(i, g z)])"
  by (induction js) auto

definition table :: "call_delta list \<Rightarrow> (int \<times> call_buffer) list" where
  "table ds = map (\<lambda>i. (i, collected (of_index i ds))) (in_order (map call_index ds))"

lemma table_snoc:
  "at_index (call_index d) fresh_buffer (\<lambda>b. snd (call_step d b)) (table ds) = table (ds @ [d])"
proof -
  have none: "of_index (call_index d) ds = []" if "call_index d \<notin> set (map call_index ds)"
    using that by (auto simp: of_index_def filter_empty_conv) (metis imageI)
  show ?thesis
    using none by (auto simp: table_def at_index_table collected_snoc of_index_def
        simp flip: collected_Nil)
qed

lemma call_deltas_table: "snd (call_deltas ds (table es)) = table (es @ ds)"
proof (induction ds arbitrary: es)
  case (Cons d ds)
  then show ?case using Cons [of "es @ [d]"] by (simp add: table_snoc split_beta Let_def)
qed simp

text \<open>The events before the end only add text to the turn.\<close>

definition play :: "stream_event list \<Rightarrow> turn \<Rightarrow> turn" where
  "play es n = fold add_event es n"

lemma play_append [simp]: "play (es @ es') n = play es' (play es n)"
  by (simp add: play_def)

lemma play_simps [simp]: "play [] n = n" "play (e # es) n = play es (add_event e n)"
  by (simp_all add: play_def)

lemma call_step_silent: "play (fst (call_step d b)) n = n"
  by (auto simp: call_step_def Let_def split: option.splits prod.splits)

lemma call_deltas_silent: "play (fst (call_deltas ds bs)) n = n"
  by (induction ds arbitrary: bs) (simp_all add: call_step_silent split_beta Let_def)

lemma add_text_Nil [simp]: "n\<lparr>tn_text := tn_text n @ []\<rparr> = n" by simp

lemma chunk_step_turn:
  "play (fst (chunk_step c s)) n = n\<lparr>tn_text := tn_text n @ pieces dl_content [c]\<rparr>"
  by (auto simp: chunk_step_def delta_step_def pieces_def map_filter_def call_deltas_silent Let_def split_beta
      split: option.splits prod.splits)

lemma chunks_steps_append:
  "chunks_steps (cs @ ds) s = (fst (chunks_steps cs s) @ fst (chunks_steps ds (snd (chunks_steps cs s))),
     snd (chunks_steps ds (snd (chunks_steps cs s))))"
  by (induction cs arbitrary: s) (simp_all add: split_beta)

lemma pieces_snoc: "pieces g (cs @ [c]) = pieces g cs @ pieces g [c]"
  by (simp add: pieces_def map_filter_def)

lemma chunks_turn:
  "play (fst (chunks_steps cs s)) n = n\<lparr>tn_text := tn_text n @ pieces dl_content cs\<rparr>"
proof (induction cs rule: rev_induct)
  case Nil
  then show ?case by (simp add: pieces_def map_filter_def)
next
  case (snoc c cs)
  then show ?case by (simp add: chunks_steps_append chunk_step_turn split_beta pieces_snoc [of _ cs])
qed

lemma chunk_step_state:
  assumes "s = \<lparr>cs_buffers = table ds, cs_reasoning = rs, cs_finish = r, cs_usage = u\<rparr>"
  shows "snd (chunk_step c s) = \<lparr>cs_buffers = table (ds @ all_calls [c]), cs_reasoning = rs @ pieces dl_reasoning [c],
     cs_finish = keep_new (finish_of c) r,
     cs_usage = (case ck_usage c of Some (p, o') \<Rightarrow> Some (or_zero p, or_zero o') | None \<Rightarrow> u)\<rparr>"
  using assms
  by (auto simp: chunk_step_def delta_step_def all_calls_def pieces_def map_filter_def finish_of_def
      call_deltas_table Let_def split_beta keep_new_def split: option.splits prod.splits)

lemma chunks_state:
  "snd (chunks_steps cs fresh_chat) =
     \<lparr>cs_buffers = table (all_calls cs), cs_reasoning = pieces dl_reasoning cs,
      cs_finish = latest (map finish_of cs), cs_usage = usage_of cs\<rparr>"
proof (induction cs rule: rev_induct)
  case Nil
  then show ?case
    by (simp add: fresh_chat_def table_def all_calls_def pieces_def map_filter_def usage_of_def)
next
  case (snoc c cs)
  have "usage_of (cs @ [c]) = (case ck_usage c of Some (p, o') \<Rightarrow> Some (or_zero p, or_zero o') | None \<Rightarrow> usage_of cs)"
    by (auto simp: usage_of_def map_filter_def Let_def split: option.splits)
  moreover have "all_calls (cs @ [c]) = all_calls cs @ all_calls [c]" by (simp add: all_calls_def)
  ultimately show ?case
    by (simp add: chunks_steps_append split_beta chunk_step_state [OF snoc] pieces_snoc [of _ cs])
qed

lemma complete_calls_turn:
  "play (concat (map (\<lambda>(i, b). complete_call fl b) bs)) n =
     n\<lparr>tn_uses := tn_uses n @ List.map_filter (\<lambda>(i, b). map_option (\<lambda>m. \<lparr>tu_id = or_empty (cb_id b), tu_name = m,
        tu_input = input_of fl (cb_args b)\<rparr>) (cb_name b)) bs\<rparr>"
  by (induction bs arbitrary: n) (auto simp: map_filter_def complete_call_def split: option.splits)

definition thinking_said :: "string list \<Rightarrow> block list" where
  "thinking_said rs = (if rs = [] then [] else [BThinking (concat rs) None])"

lemma table_calls:
  "List.map_filter (\<lambda>(i, b). map_option (\<lambda>m. \<lparr>tu_id = or_empty (cb_id b), tu_name = m,
     tu_input = input_of fl (cb_args b)\<rparr>) (cb_name b)) (table ds) = calls_said fl ds"
  by (simp add: table_def calls_said_def map_filter_def comp_def Let_def filter_map)

lemma chat_stream_parts:
  "fst (chat_stream fl cs None) = fst (chunks_steps cs fresh_chat) @ chat_flush fl (snd (chunks_steps cs fresh_chat))"
  by (simp add: chat_stream_def split_beta)

lemma chat_flush_turn:
  "play (chat_flush fl (snd (chunks_steps cs fresh_chat))) n =
      n\<lparr>tn_uses := tn_uses n @ calls_said fl (all_calls cs),
        tn_thinking := tn_thinking n @ thinking_said (pieces dl_reasoning cs),
        tn_input := (case usage_of cs of Some u \<Rightarrow> fst u | None \<Rightarrow> tn_input n),
        tn_output := (case usage_of cs of Some u \<Rightarrow> snd u | None \<Rightarrow> tn_output n),
        tn_stop := Some (mapped_reason finish_reason_map
          (case latest (map finish_of cs) of Some r \<Rightarrow> r | None \<Rightarrow> ''stop''))\<rparr>"
  by (auto simp: chunks_state chat_flush_def complete_calls_turn table_calls thinking_said_def split: option.splits)

lemma chat_turn_said: "tn_uses (play (fst (chat_stream fl cs None)) (new_turn mid)) = calls_said fl (all_calls cs)"
  by (simp add: chat_stream_parts chunks_turn chat_flush_turn new_turn_def)

text \<open>C31: A turn streamed over Chat Completions is what the chunks say, however they are cut. The text is
  the content pieces in order. There is one call per index that ever got a name, in the order in
  which the indices first appear, with the last id and the last name given for it and the input
  parsed from the concatenation of all its argument fragments, whatever else was interleaved.
  The thinking is all reasoning pieces joined into one unsigned block, the usage is the last one
  reported, and the stop reason is the last one translated, \<open>end_turn\<close> if there was none.\<close>

theorem chat_turn_exact:
  "play (fst (chat_stream fl cs None)) (new_turn mid) =
     \<lparr>tn_text = pieces dl_content cs,
      tn_uses = calls_said fl (all_calls cs),
      tn_stop = Some (mapped_reason finish_reason_map
        (case latest (map finish_of cs) of Some r \<Rightarrow> r | None \<Rightarrow> ''stop'')),
      tn_input = (case usage_of cs of Some u \<Rightarrow> fst u | None \<Rightarrow> 0),
      tn_output = (case usage_of cs of Some u \<Rightarrow> snd u | None \<Rightarrow> 0),
      tn_model = mid, tn_interrupted = False,
      tn_thinking = thinking_said (pieces dl_reasoning cs)\<rparr>"
  by (simp add: chat_stream_parts chunks_turn chat_flush_turn new_turn_def split: option.split)

section \<open>Replaying a call\<close>

text \<open>A call that was replayed to the endpoint and is streamed back in any fragments.\<close>

definition streams_back :: "(rat \<Rightarrow> string) \<Rightarrow> tool_use list \<Rightarrow> call_delta list \<Rightarrow> bool" where
  "streams_back f tus ds \<longleftrightarrow>
     in_order (map call_index ds) = map int [0 ..< length tus]
     \<and> list_all (\<lambda>(k, c). let b = collected (of_index (int k) ds) in
          cb_id b = Some (cc_id c) \<and> cb_name b = Some (cc_name c) \<and> cb_args b = cc_arguments c)
        (zip [0 ..< length tus] (chat_calls f (map use_block tus)))"

lemma chat_calls_uses:
  "chat_calls f (map use_block tus) =
     map (\<lambda>tu. \<lparr>cc_id = tu_id tu, cc_name = tu_name tu, cc_arguments = json_text f (JObj (tu_input tu))\<rparr>) tus"
  by (induction tus) (simp_all add: chat_calls_def List.map_filter_simps use_block_def del: json_text.simps)

text \<open>C32: A tool call survives the wire. The calls of an assistant message are written into the request
  with their inputs as JSON text; if the model streams these calls back, cut into fragments and
  interleaved in any way, the loop gets the same calls: ids, names and inputs, in the same order
  (inputs without floats, whose text is Python's business).\<close>

theorem tool_call_round_trip:
  assumes "list_all (\<lambda>tu. floatless (JObj (tu_input tu))) tus" "streams_back f tus (all_calls cs)"
  shows "tn_uses (play (fst (chat_stream fl cs None)) (new_turn mid)) = tus"
proof -
  let ?ds = "all_calls cs"
  let ?said = "\<lambda>i. let b = collected (of_index i ?ds) in
       map_option (\<lambda>n. \<lparr>tu_id = or_empty (cb_id b), tu_name = n, tu_input = input_of fl (cb_args b)\<rparr>) (cb_name b)"
  have call: "?said (int k) = Some (tus ! k)" if k: "k < length tus" for k
  proof -
    have "cb_id (collected (of_index (int k) ?ds)) = Some (tu_id (tus ! k))"
      "cb_name (collected (of_index (int k) ?ds)) = Some (tu_name (tus ! k))"
      "cb_args (collected (of_index (int k) ?ds)) = json_text f (JObj (tu_input (tus ! k)))"
      using assms(2) k by (auto simp: streams_back_def chat_calls_uses list_all_length Let_def simp del: json_text.simps)
    moreover have "input_of fl (json_text f (JObj (tu_input (tus ! k)))) = tu_input (tus ! k)"
      using assms(1) k by (intro input_of_dumps) (simp add: list_all_length)
    ultimately show ?thesis by (simp add: or_empty_def del: json_text.simps)
  qed
  have "calls_said fl ?ds = List.map_filter ?said (map int [0 ..< length tus])"
    using assms(2) by (simp add: calls_said_def streams_back_def)
  also have "\<dots> = map (\<lambda>k. tus ! k) [0 ..< length tus]"
    using call by (simp add: map_filter_def comp_def filter_map cong: map_cong filter_cong)
  finally show ?thesis by (simp add: chat_turn_said map_nth)
qed

text \<open>Two calls, streamed in fragments that interleave; the second announces its id late.\<close>

definition sample_calls :: "tool_use list" where
  "sample_calls = [\<lparr>tu_id = ''a'', tu_name = ''mailbox_read'', tu_input = []\<rparr>,
     \<lparr>tu_id = ''b'', tu_name = ''mailbox_send'', tu_input = [(''to'', JStr ''owner''), (''quiet'', JBool True)]\<rparr>]"

definition call_chunk :: "call_delta list \<Rightarrow> chat_chunk" where
  "call_chunk ds = \<lparr>ck_usage = None,
     ck_choice = Some (Some \<lparr>dl_content = None, dl_reasoning = None, dl_calls = ds\<rparr>, None)\<rparr>"

definition sample_chunks :: "chat_chunk list" where
  "sample_chunks =
     (let t = json_text (\<lambda>r. []) (JObj (tu_input (sample_calls ! 1))) in
      [call_chunk [\<lparr>cd_index = None, cd_id = Some ''a'', cd_function = Some (Some ''mailbox_read'', None)\<rparr>],
       call_chunk [\<lparr>cd_index = Some 1, cd_id = None, cd_function = Some (Some ''mailbox_send'', Some (take 3 t))\<rparr>,
                   \<lparr>cd_index = Some 0, cd_id = None, cd_function = Some (None, Some ''{'')\<rparr>],
       call_chunk [\<lparr>cd_index = Some 1, cd_id = Some ''b'', cd_function = Some (Some [], Some (drop 3 t))\<rparr>,
                   \<lparr>cd_index = Some 0, cd_id = None, cd_function = Some (None, Some ''}'')\<rparr>]])"

lemma tool_call_round_trip_witness:
  "tn_uses (play (fst (chat_stream (\<lambda>t. 0) sample_chunks None)) (new_turn ''gpt'')) = sample_calls"
proof -
  have "list_all (\<lambda>tu. floatless (JObj (tu_input tu))) sample_calls" by code_simp
  moreover have "streams_back (\<lambda>r. []) sample_calls (all_calls sample_chunks)" by code_simp
  ultimately show ?thesis by (rule tool_call_round_trip)
qed

end
