(* ===== verification/Adapter_Responses.thy ===== *)
theory Adapter_Responses
  imports Adapter_Chat
begin

text \<open>
  \<open>adapter/openai_responses.py\<close>: the Responses format, a flat list of items. A streamed call is
  emitted when its arguments are finished; one that the budget cuts is never emitted.
\<close>

section \<open>The request\<close>

datatype resp_item =
    RespUser "chat_part list"
  | RespAssistant string
  | RespCall string string string
  | RespOutput string string

definition resp_document_error :: string where
  "resp_document_error = ''OpenAI Responses adapter does not yet translate '' @ [CHR 0x27] @ ''document'' @ [CHR 0x27]
     @ '' blocks; route PDFs to Anthropic or pre-extract text.''"

definition join_lines :: "string list \<Rightarrow> string" where
  "join_lines xs = concat (map (\<lambda>(k, x). (if k = 0 then [] else [CHR 0x0A]) @ x) (enumerate 0 xs))"

text \<open>The outputs and the images of a user message.\<close>

fun resp_user :: "(rat \<Rightarrow> string) \<Rightarrow> blob_reader \<Rightarrow> block list \<Rightarrow> exn + (resp_item list \<times> chat_part list)" where
  "resp_user f store [] = Inr ([], [])"
| "resp_user f store (BToolResult i r e # bs) =
     map_sum id (\<lambda>(os, is). (RespOutput i (text_of f r) # os, is)) (resp_user f store bs)"
| "resp_user f store (BMedia MImage blob mt fn # bs) =
     (case media_data image_error store blob mt of
        Inl e \<Rightarrow> Inl e
      | Inr d \<Rightarrow> map_sum id (\<lambda>(os, is). (os, PartImage (data_url d) # is)) (resp_user f store bs))"
| "resp_user f store (BMedia MDocument blob mt fn # bs) = Inl (value_error resp_document_error)"
| "resp_user f store (_ # bs) = resp_user f store bs"

definition text_parts :: "string list \<Rightarrow> chat_part list" where
  "text_parts xs = (if xs = [] then [] else [PartText (join_lines xs)])"

definition resp_said :: "chat_part list \<Rightarrow> resp_item list" where
  "resp_said ps = (if ps = [] then [] else [RespUser ps])"

definition resp_calls :: "(rat \<Rightarrow> string) \<Rightarrow> block list \<Rightarrow> resp_item list" where
  "resp_calls f bs = List.map_filter (\<lambda>b. case b of
     BToolUse i n d \<Rightarrow> Some (RespCall i n (json_text f (JObj d))) | _ \<Rightarrow> None) bs"

definition resp_message :: "(rat \<Rightarrow> string) \<Rightarrow> blob_reader \<Rightarrow> message \<Rightarrow> exn + resp_item list" where
  "resp_message f store m =
     (let xs = texts_of (m_content m) in
      case m_role m of
        RSystem \<Rightarrow> Inr []
      | RUser \<Rightarrow> map_sum id (\<lambda>(os, is). os @ resp_said (text_parts xs @ is)) (resp_user f store (m_content m))
      | RAssistant \<Rightarrow> Inr ((if xs = [] then [] else [RespAssistant (join_lines xs)]) @ resp_calls f (m_content m))
      | RTool \<Rightarrow> Inr (resp_said (text_parts xs)))"

definition lyre_to_responses_input :: "(rat \<Rightarrow> string) \<Rightarrow> blob_reader \<Rightarrow> message list \<Rightarrow> exn + resp_item list" where
  "lyre_to_responses_input f store ms = each_message (resp_message f store) ms"

definition tool_to_responses :: "tool_spec \<Rightarrow> json" where
  "tool_to_responses t = JObj [(''type'', JStr ''function''), (''name'', JStr (ts_name t)),
     (''description'', JStr (ts_description t)), (''parameters'', JObj (ts_schema t))]"

record resp_request =
  rq_model :: string
  rq_input :: "resp_item list"
  rq_max_output_tokens :: int
  rq_instructions :: "string option"
  rq_tools :: "json list option"
  rq_temperature :: "rat option"

definition resp_request_of ::
    "(rat \<Rightarrow> string) \<Rightarrow> blob_reader \<Rightarrow> message list \<Rightarrow> tool_spec list \<Rightarrow> string \<Rightarrow> int \<Rightarrow> rat option \<Rightarrow> string option
      \<Rightarrow> exn + resp_request" where
  "resp_request_of f store ms tools model max_tokens temperature system =
     map_sum id (\<lambda>out. \<lparr>rq_model = model, rq_input = out, rq_max_output_tokens = max_tokens,
         rq_instructions = present system,
         rq_tools = (if tools = [] then None else Some (map tool_to_responses tools)),
         rq_temperature = temperature\<rparr>)
       (lyre_to_responses_input f store ms)"

section \<open>The stream\<close>

text \<open>The events the adapter looks at; the two names of a text delta and of a reasoning delta are one.\<close>

datatype resp_event =
    OutputText "string option"
  | ReasoningText "string option"
  | ItemAdded "string option" "string option" "string option" "string option"
  | ArgumentsDelta "string option" "string option"
  | ArgumentsDone "string option" "string option"
  | RespCompleted "(int option \<times> int option) option"
  | RespIncomplete "string option"
  | RespFailed
  | RespOther

record resp_buffer =
  rb_call :: string
  rb_name :: string
  rb_args :: "string list"

record resp_state =
  rs_buffers :: "(string \<times> resp_buffer) list"
  rs_reasoning :: "string list"
  rs_finish :: "string option"
  rs_usage :: "(int \<times> int) option"

definition fresh_resp :: resp_state where
  "fresh_resp = \<lparr>rs_buffers = [], rs_reasoning = [], rs_finish = None, rs_usage = None\<rparr>"

fun put_buffer :: "string \<Rightarrow> 'b \<Rightarrow> (string \<times> 'b) list \<Rightarrow> (string \<times> 'b) list" where
  "put_buffer k b [] = [(k, b)]"
| "put_buffer k b ((j, c) # bs) = (if j = k then (k, b) # bs else (j, c) # put_buffer k b bs)"

definition drop_buffer :: "string \<Rightarrow> (string \<times> 'b) list \<Rightarrow> (string \<times> 'b) list" where
  "drop_buffer k bs = filter (\<lambda>p. fst p \<noteq> k) bs"

fun resp_step :: "(string \<Rightarrow> rat) \<Rightarrow> resp_event \<Rightarrow> resp_state \<Rightarrow> stream_event list \<times> resp_state" where
  "resp_step fl (OutputText t) s = (case present t of Some x \<Rightarrow> ([ContentDelta x], s) | None \<Rightarrow> ([], s))"
| "resp_step fl (ReasoningText t) s =
     (case present t of
        Some x \<Rightarrow> ([ThinkingDelta x], s\<lparr>rs_reasoning := rs_reasoning s @ [x]\<rparr>) | None \<Rightarrow> ([], s))"
| "resp_step fl (ItemAdded kind i call name) s =
     (if kind = Some ''function_call''
      then (let item = or_empty i; c = (case present call of Some x \<Rightarrow> x | None \<Rightarrow> item); n = or_empty name in
            ([ToolUseStart c n],
             s\<lparr>rs_buffers := put_buffer item \<lparr>rb_call = c, rb_name = n, rb_args = []\<rparr> (rs_buffers s)\<rparr>))
      else ([], s))"
| "resp_step fl (ArgumentsDelta i d) s =
     (case (map_of (rs_buffers s) (or_empty i), present d) of
        (Some b, Some x) \<Rightarrow>
          ([ToolUseDelta (rb_call b) x],
           s\<lparr>rs_buffers := put_buffer (or_empty i) (b\<lparr>rb_args := rb_args b @ [x]\<rparr>) (rs_buffers s)\<rparr>)
      | _ \<Rightarrow> ([], s))"
| "resp_step fl (ArgumentsDone i args) s =
     (case map_of (rs_buffers s) (or_empty i) of
        None \<Rightarrow> ([], s)
      | Some b \<Rightarrow>
          (let raw = (case present args of Some a \<Rightarrow> a | None \<Rightarrow> concat (rb_args b)) in
           ([ToolUseComplete (rb_call b) (rb_name b) (input_of fl raw)],
            s\<lparr>rs_buffers := drop_buffer (or_empty i) (rs_buffers s), rs_finish := Some ''tool_use''\<rparr>)))"
| "resp_step fl (RespCompleted u) s =
     ([], s\<lparr>rs_usage := (case u of Some (i, o') \<Rightarrow> Some (or_zero i, or_zero o') | None \<Rightarrow> rs_usage s),
            rs_finish := (if rs_finish s = None then Some ''end_turn'' else rs_finish s)\<rparr>)"
| "resp_step fl (RespIncomplete reason) s =
     ([], s\<lparr>rs_finish := Some (if reason = Some ''max_output_tokens'' then ''max_tokens'' else ''error'')\<rparr>)"
| "resp_step fl RespFailed s = ([], s\<lparr>rs_finish := Some ''error''\<rparr>)"
| "resp_step fl RespOther s = ([], s)"

fun resp_steps :: "(string \<Rightarrow> rat) \<Rightarrow> resp_event list \<Rightarrow> resp_state \<Rightarrow> stream_event list \<times> resp_state" where
  "resp_steps fl [] s = ([], s)"
| "resp_steps fl (e # es) s =
     (case resp_step fl e s of (xs, s') \<Rightarrow> (case resp_steps fl es s' of (ys, t) \<Rightarrow> (xs @ ys, t)))"

definition resp_flush :: "resp_state \<Rightarrow> stream_event list" where
  "resp_flush s =
     (if rs_reasoning s = [] then [] else [ThinkingBlockComplete (concat (rs_reasoning s)) None])
     @ (case rs_usage s of None \<Rightarrow> [] | Some (i, o') \<Rightarrow> [Usage i o'])
     @ [TurnComplete (case rs_finish s of Some r \<Rightarrow> r | None \<Rightarrow> ''end_turn'')]"

definition resp_stream :: "(string \<Rightarrow> rat) \<Rightarrow> resp_event list \<Rightarrow> exn option \<Rightarrow> stream_event list \<times> exn option" where
  "resp_stream fl es err =
     (case resp_steps fl es fresh_resp of (xs, s) \<Rightarrow> (xs @ (if err = None then resp_flush s else []), err))"

section \<open>The endpoint accepts what is sent\<close>

text \<open>Outputs come right after the calls, in their order; no message stands between.\<close>

fun resp_owed :: "string list \<Rightarrow> resp_item list \<Rightarrow> string list option" where
  "resp_owed owed [] = Some owed"
| "resp_owed owed (RespOutput i t # xs) = (if owed \<noteq> [] \<and> hd owed = i then resp_owed (tl owed) xs else None)"
| "resp_owed owed (RespCall i n a # xs) = resp_owed (owed @ [i]) xs"
| "resp_owed owed (x # xs) = (if owed = [] then resp_owed [] xs else None)"

lemma resp_owed_append: "resp_owed owed (xs @ ys) = Option.bind (resp_owed owed xs) (\<lambda>o'. resp_owed o' ys)"
  by (induction owed xs rule: resp_owed.induct) simp_all

lemma resp_user_settles:
  "resp_user f store bs = Inr (os, is) \<Longrightarrow> resp_owed (results_of bs @ owed) os = Some owed"
  by (induction f store bs arbitrary: os "is" rule: resp_user.induct)
    (auto simp: map_sum_def split: sum.splits)

lemma resp_said_settles [simp]: "resp_owed [] (resp_said ps) = Some []"
  by (simp add: resp_said_def)

lemma resp_calls_owe: "resp_owed owed (resp_calls f bs) = Some (owed @ uses_of bs)"
  unfolding resp_calls_def uses_of_def
  by (induction bs arbitrary: owed) (auto simp: List.map_filter_simps split: block.splits)

lemma resp_message_settles:
  assumes "resp_message f store m = Inr ws" "shape_ok m" "results_of (m_content m) = owed"
    "owed \<noteq> [] \<longrightarrow> m_role m = RUser"
  shows "resp_owed owed ws = Some (uses_of (m_content m))"
proof (cases "m_role m")
  case RUser
  then obtain os "is" where u: "resp_user f store (m_content m) = Inr (os, is)"
    "ws = os @ resp_said (text_parts (texts_of (m_content m)) @ is)"
    using assms(1) by (auto simp: resp_message_def map_sum_def Let_def split: sum.splits)
  have "resp_owed owed os = Some []" using resp_user_settles [OF u(1), of "[]"] assms(3) by simp
  then show ?thesis using RUser assms(2) by (simp add: u(2) resp_owed_append shape_ok_def)
next
  case RAssistant
  then have "owed = []" using assms(2,3) by (simp add: shape_ok_def)
  then show ?thesis using RAssistant assms(1) by (auto simp: resp_message_def Let_def resp_calls_owe split: if_splits)
qed (use assms in \<open>auto simp: resp_message_def shape_ok_def Let_def\<close>)

interpretation responses: provider resp_owed "resp_message f store" for f store
  by unfold_locales (simp_all add: resp_owed_append resp_message_settles)

section \<open>The cut call\<close>

text \<open>A call whose arguments are not finished when the budget ends is not part of the turn: the last
  call of the turn is then one the model had finished.\<close>

lemma cut_call_not_emitted:
  "fold add_event (fst (resp_stream fl
       [ItemAdded (Some ''function_call'') (Some ''i1'') (Some ''c1'') (Some ''mailbox_send''),
        ArgumentsDone (Some ''i1'') (Some ''{}''),
        ItemAdded (Some ''function_call'') (Some ''i2'') (Some ''c2'') (Some ''dispatch_task''),
        ArgumentsDelta (Some ''i2'') (Some ''{''),
        RespIncomplete (Some ''max_output_tokens'')] None)) (new_turn mid)
   = (new_turn mid)\<lparr>tn_uses := [\<lparr>tu_id = ''c1'', tu_name = ''mailbox_send'', tu_input = []\<rparr>],
        tn_stop := Some ''max_tokens''\<rparr>"
proof -
  have "input_of fl ''{}'' = []" by (simp add: input_of_def json_loads_def skip_space_def json_space_def eval_nat_numeral)
  then show ?thesis
    by (simp add: resp_stream_def fresh_resp_def present_def or_empty_def drop_buffer_def resp_flush_def new_turn_def Let_def)
qed

end
