(* ===== verification/Adapter_Anthropic.thy ===== *)
theory Adapter_Anthropic
  imports Adapter_Responses
begin

text \<open>
  \<open>adapter/anthropic.py\<close>: the Messages format keeps messages and blocks, thinking with its signature
  included. The stream is a sequence of content blocks, each opened, filled and closed under its
  index; the stop reason arrives before the end and is kept for it.
\<close>

section \<open>The request\<close>

datatype anth_block =
    AnthText string
  | AnthThinking string "string option"
  | AnthToolUse string string dict
  | AnthToolResult string string bool
  | AnthMedia media_kind string string

record anth_msg =
  am_role :: role
  am_content :: "anth_block list"

definition media_error :: "media_kind \<Rightarrow> string" where
  "media_error k = ''Cannot translate '' @ [CHR 0x27] @ media_str k @ [CHR 0x27]
     @ '' block: blob_store + blob_id + media_type all required''"

definition anth_block_of :: "(rat \<Rightarrow> string) \<Rightarrow> blob_reader \<Rightarrow> block \<Rightarrow> exn + anth_block" where
  "anth_block_of f store b =
     (case b of
        BText t \<Rightarrow> Inr (AnthText t)
      | BThinking t sig \<Rightarrow> Inr (AnthThinking t (present sig))
      | BToolUse i n d \<Rightarrow> Inr (AnthToolUse i n d)
      | BToolResult i r e \<Rightarrow> Inr (AnthToolResult i (text_of f r) e)
      | BMedia k blob mt fn \<Rightarrow> map_sum id (\<lambda>(t, d). AnthMedia k t d) (media_data (media_error k) store blob mt))"

fun anth_blocks :: "(rat \<Rightarrow> string) \<Rightarrow> blob_reader \<Rightarrow> block list \<Rightarrow> exn + anth_block list" where
  "anth_blocks f store [] = Inr []"
| "anth_blocks f store (b # bs) =
     (case anth_block_of f store b of
        Inl e \<Rightarrow> Inl e
      | Inr a \<Rightarrow> map_sum id (\<lambda>as. a # as) (anth_blocks f store bs))"

text \<open>A message without blocks has the empty text as its content.\<close>

definition anth_message :: "(rat \<Rightarrow> string) \<Rightarrow> blob_reader \<Rightarrow> message \<Rightarrow> exn + anth_msg list" where
  "anth_message f store m =
     (if m_role m = RSystem then Inr []
      else map_sum id (\<lambda>bs. [\<lparr>am_role = (if m_role m = RTool then RUser else m_role m), am_content = bs\<rparr>])
             (anth_blocks f store (m_content m)))"

definition lyre_to_anthropic_messages :: "(rat \<Rightarrow> string) \<Rightarrow> blob_reader \<Rightarrow> message list \<Rightarrow> exn + anth_msg list" where
  "lyre_to_anthropic_messages f store ms = each_message (anth_message f store) ms"

definition tool_to_anthropic :: "tool_spec \<Rightarrow> dict" where
  "tool_to_anthropic t = [(''name'', JStr (ts_name t)), (''description'', JStr (ts_description t)),
     (''input_schema'', JObj (ts_schema t))]"

definition ephemeral :: "string \<times> json" where
  "ephemeral = (''cache_control'', JObj [(''type'', JStr ''ephemeral'')])"

text \<open>The last tool and the system prompt end the cached prefix.\<close>

definition anth_tools :: "tool_spec list \<Rightarrow> dict list" where
  "anth_tools ts = (let ds = map tool_to_anthropic ts in
     if ds = [] then [] else butlast ds @ [dset (fst ephemeral) (snd ephemeral) (last ds)])"

record anth_request =
  ar_model :: string
  ar_max_tokens :: int
  ar_messages :: "anth_msg list"
  ar_tools :: "dict list option"
  ar_system :: "dict list option"
  ar_temperature :: "rat option"

definition anth_request_of ::
    "(rat \<Rightarrow> string) \<Rightarrow> blob_reader \<Rightarrow> message list \<Rightarrow> tool_spec list \<Rightarrow> string \<Rightarrow> int \<Rightarrow> rat option \<Rightarrow> string option
      \<Rightarrow> exn + anth_request" where
  "anth_request_of f store ms tools model max_tokens temperature system =
     map_sum id (\<lambda>out. \<lparr>ar_model = model, ar_max_tokens = max_tokens, ar_messages = out,
         ar_tools = (if tools = [] then None else Some (anth_tools tools)),
         ar_system = map_option (\<lambda>s. [[(''type'', JStr ''text''), (''text'', JStr s), ephemeral]]) (present system),
         ar_temperature = temperature\<rparr>)
       (lyre_to_anthropic_messages f store ms)"

section \<open>The stream\<close>

datatype block_start = StartTool string string | StartThinking "string option" "string option" | StartOther

datatype block_delta = TextDelta string | ThinkDelta "string option" | SignDelta "string option" | JsonDelta string | OtherDelta

datatype anth_event =
    BlockStart int block_start
  | BlockDelta int block_delta
  | BlockStop int
  | MessageStart "int option"
  | MessageDelta "string option" "(int option \<times> int option) option"
  | MessageStop
  | AnthOther

text \<open>A tool buffer made by a delta before its start has no id and no name. The input of a call may be
  any JSON value: only the loop expects an object.\<close>

record anth_buffer =
  ab_call :: "(string \<times> string) option"
  ab_json :: string

record anth_state =
  as_tools :: "(int \<times> anth_buffer) list"
  as_thinking :: "(int \<times> (string \<times> string)) list"
  as_input :: int
  as_stop :: "string option"

definition fresh_anth :: anth_state where
  "fresh_anth = \<lparr>as_tools = [], as_thinking = [], as_input = 0, as_stop = None\<rparr>"

datatype anth_out = Out stream_event | OddInput string string json

definition stop_reason_map :: "(string \<times> string) list" where
  "stop_reason_map = [(''end_turn'', ''end_turn''), (''tool_use'', ''tool_use''), (''max_tokens'', ''max_tokens''),
     (''stop_sequence'', ''end_turn''), (''refusal'', ''error''), (''pause_turn'', ''end_turn''),
     (''model_context_window_exceeded'', ''max_tokens'')]"

fun put_at :: "int \<Rightarrow> 'b \<Rightarrow> (int \<times> 'b) list \<Rightarrow> (int \<times> 'b) list" where
  "put_at k b [] = [(k, b)]"
| "put_at k b ((j, c) # bs) = (if j = k then (k, b) # bs else (j, c) # put_at k b bs)"

definition drop_at :: "int \<Rightarrow> (int \<times> 'b) list \<Rightarrow> (int \<times> 'b) list" where
  "drop_at k bs = filter (\<lambda>p. fst p \<noteq> k) bs"

definition on_thinking :: "int \<Rightarrow> (string \<times> string \<Rightarrow> string \<times> string) \<Rightarrow> anth_state \<Rightarrow> anth_state" where
  "on_thinking i g s =
     (let old = (case map_of (as_thinking s) i of Some b \<Rightarrow> b | None \<Rightarrow> ([], []))
      in s\<lparr>as_thinking := put_at i (g old) (as_thinking s)\<rparr>)"

definition parsed_call :: "(string \<Rightarrow> rat) \<Rightarrow> string \<Rightarrow> string \<Rightarrow> string \<Rightarrow> anth_out" where
  "parsed_call fl i n text =
     (if text = [] then Out (ToolUseComplete i n [])
      else case json_loads fl text of
        None \<Rightarrow> Out (ToolUseComplete i n (raw_input text))
      | Some (JObj d) \<Rightarrow> Out (ToolUseComplete i n d)
      | Some v \<Rightarrow> OddInput i n v)"

text \<open>A call without a start has no \<open>id\<close>: \<open>KeyError\<close>.\<close>

definition block_stop :: "(string \<Rightarrow> rat) \<Rightarrow> int \<Rightarrow> anth_state \<Rightarrow> exn + (anth_out list \<times> anth_state)" where
  "block_stop fl i s =
     (case map_of (as_tools s) i of
        Some b \<Rightarrow>
          (case ab_call b of
             None \<Rightarrow> Inl (Exn ''KeyError'' ([CHR 0x27] @ ''id'' @ [CHR 0x27]))
           | Some (c, n) \<Rightarrow> Inr ([parsed_call fl c n (ab_json b)], s\<lparr>as_tools := drop_at i (as_tools s)\<rparr>))
      | None \<Rightarrow>
          (case map_of (as_thinking s) i of
             None \<Rightarrow> Inr ([], s)
           | Some (t, sig) \<Rightarrow>
               Inr ([Out (ThinkingBlockComplete t (if sig = [] then None else Some sig))],
                    s\<lparr>as_thinking := drop_at i (as_thinking s)\<rparr>)))"

definition json_delta :: "int \<Rightarrow> string \<Rightarrow> anth_state \<Rightarrow> anth_out list \<times> anth_state" where
  "json_delta i x s =
     (let b = (case map_of (as_tools s) i of Some b \<Rightarrow> b | None \<Rightarrow> \<lparr>ab_call = None, ab_json = []\<rparr>)
      in ([Out (ToolUseDelta (case ab_call b of Some (c, n) \<Rightarrow> c | None \<Rightarrow> []) x)],
          s\<lparr>as_tools := put_at i (b\<lparr>ab_json := ab_json b @ x\<rparr>) (as_tools s)\<rparr>))"

fun anthropic_to_lyre :: "(string \<Rightarrow> rat) \<Rightarrow> anth_event \<Rightarrow> anth_state \<Rightarrow> exn + (anth_out list \<times> anth_state)" where
  "anthropic_to_lyre fl (BlockStart i (StartTool c n)) s =
     Inr ([Out (ToolUseStart c n)], s\<lparr>as_tools := put_at i \<lparr>ab_call = Some (c, n), ab_json = []\<rparr> (as_tools s)\<rparr>)"
| "anthropic_to_lyre fl (BlockStart i (StartThinking t sig)) s =
     Inr ([], s\<lparr>as_thinking := put_at i (or_empty t, or_empty sig) (as_thinking s)\<rparr>)"
| "anthropic_to_lyre fl (BlockStart i StartOther) s = Inr ([], s)"
| "anthropic_to_lyre fl (BlockDelta i (TextDelta x)) s = Inr ([Out (ContentDelta x)], s)"
| "anthropic_to_lyre fl (BlockDelta i (ThinkDelta x)) s =
     Inr ([Out (ThinkingDelta (or_empty x))], on_thinking i (\<lambda>(t, sig). (t @ or_empty x, sig)) s)"
| "anthropic_to_lyre fl (BlockDelta i (SignDelta x)) s =
     Inr ([], on_thinking i (\<lambda>(t, sig). (t, sig @ or_empty x)) s)"
| "anthropic_to_lyre fl (BlockDelta i (JsonDelta x)) s = Inr (json_delta i x s)"
| "anthropic_to_lyre fl (BlockDelta i OtherDelta) s = Inr ([], s)"
| "anthropic_to_lyre fl (BlockStop i) s = block_stop fl i s"
| "anthropic_to_lyre fl (MessageStart tokens) s =
     Inr ([], if or_zero tokens \<noteq> 0 then s\<lparr>as_input := or_zero tokens\<rparr> else s)"
| "anthropic_to_lyre fl (MessageDelta stop u) s =
     (let s1 = s\<lparr>as_stop := keep_new stop (as_stop s)\<rparr>
      in Inr (case u of
           None \<Rightarrow> ([], s1)
         | Some (i, o') \<Rightarrow> ([Out (Usage (if as_input s1 \<noteq> 0 then as_input s1 else or_zero i) (or_zero o'))], s1)))"
| "anthropic_to_lyre fl MessageStop s =
     Inr ([Out (TurnComplete (case as_stop s of Some r \<Rightarrow> mapped_reason stop_reason_map r | None \<Rightarrow> ''end_turn''))], s)"
| "anthropic_to_lyre fl AnthOther s = Inr ([], s)"

fun anth_steps :: "(string \<Rightarrow> rat) \<Rightarrow> anth_event list \<Rightarrow> anth_state \<Rightarrow> anth_out list \<times> exn option \<times> anth_state" where
  "anth_steps fl [] s = ([], None, s)"
| "anth_steps fl (e # es) s =
     (case anthropic_to_lyre fl e s of
        Inl x \<Rightarrow> ([], Some x, s)
      | Inr (xs, s') \<Rightarrow> (case anth_steps fl es s' of (ys, r) \<Rightarrow> (xs @ ys, r)))"

definition anth_stream :: "(string \<Rightarrow> rat) \<Rightarrow> anth_event list \<Rightarrow> exn option \<Rightarrow> anth_out list \<times> exn option" where
  "anth_stream fl es err =
     (case anth_steps fl es fresh_anth of (xs, x, s) \<Rightarrow> (xs, case x of Some e \<Rightarrow> Some e | None \<Rightarrow> err))"

section \<open>The endpoint accepts what is sent\<close>

definition anth_uses :: "anth_block list \<Rightarrow> string list" where
  "anth_uses bs = List.map_filter (\<lambda>b. case b of AnthToolUse i n d \<Rightarrow> Some i | _ \<Rightarrow> None) bs"

definition anth_results :: "anth_block list \<Rightarrow> string list" where
  "anth_results bs = List.map_filter (\<lambda>b. case b of AnthToolResult i r e \<Rightarrow> Some i | _ \<Rightarrow> None) bs"

definition anth_thinking :: "anth_block \<Rightarrow> bool" where
  "anth_thinking b \<longleftrightarrow> (case b of AnthThinking t s \<Rightarrow> True | _ \<Rightarrow> False)"

definition thinking_leads :: "bool list \<Rightarrow> bool" where
  "thinking_leads bs \<longleftrightarrow> (\<exists>n. list_all id (take n bs) \<and> list_all Not (drop n bs))"

definition anth_shape :: "anth_msg \<Rightarrow> bool" where
  "anth_shape m \<longleftrightarrow>
     (am_role m = RAssistant \<longrightarrow> anth_results (am_content m) = [] \<and> thinking_leads (map anth_thinking (am_content m)))
     \<and> (am_role m \<noteq> RAssistant \<longrightarrow> anth_uses (am_content m) = [])"

fun anth_owed :: "string list \<Rightarrow> anth_msg list \<Rightarrow> string list option" where
  "anth_owed owed [] = Some owed"
| "anth_owed owed (m # ms) =
     (if anth_shape m \<and> anth_results (am_content m) = owed \<and> (owed \<noteq> [] \<longrightarrow> am_role m = RUser)
      then anth_owed (anth_uses (am_content m)) ms else None)"

lemma anth_owed_append: "anth_owed owed (xs @ ys) = Option.bind (anth_owed owed xs) (\<lambda>o'. anth_owed o' ys)"
  by (induction xs arbitrary: owed) auto

lemma anth_blocks_keep:
  "anth_blocks f store bs = Inr as \<Longrightarrow>
     anth_uses as = uses_of bs \<and> anth_results as = results_of bs \<and> map anth_thinking as = map is_thinking bs"
proof (induction bs arbitrary: as)
  case Nil
  then show ?case by (simp add: anth_uses_def anth_results_def List.map_filter_simps)
next
  case (Cons b bs)
  then obtain a as' where a: "anth_block_of f store b = Inr a" "anth_blocks f store bs = Inr as'" "as = a # as'"
    by (auto simp: map_sum_def split: sum.splits)
  from Cons.IH [OF a(2)] a(1) show ?case
    by (cases b) (auto simp: a(3) anth_block_of_def anth_uses_def anth_results_def List.map_filter_simps
        anth_thinking_def is_thinking_def map_sum_def split: sum.splits)
qed

lemma thinking_leads_first: "thinking_leads (map is_thinking bs) = thinking_first bs"
  by (simp add: thinking_leads_def thinking_first_def take_map drop_map list.pred_map comp_def)

lemma anth_message_settles:
  assumes "anth_message f store m = Inr ws" "shape_ok m" "results_of (m_content m) = owed"
    "owed \<noteq> [] \<longrightarrow> m_role m = RUser"
  shows "anth_owed owed ws = Some (uses_of (m_content m))"
proof (cases "m_role m = RSystem")
  case True
  then show ?thesis using assms by (auto simp: anth_message_def shape_ok_def)
next
  case False
  then obtain as where as: "anth_blocks f store (m_content m) = Inr as"
    "ws = [\<lparr>am_role = (if m_role m = RTool then RUser else m_role m), am_content = as\<rparr>]"
    using assms(1) by (auto simp: anth_message_def map_sum_def split: sum.splits)
  let ?m = "\<lparr>am_role = (if m_role m = RTool then RUser else m_role m), am_content = as\<rparr>"
  note k = anth_blocks_keep [OF as(1)]
  have "anth_shape ?m" using assms(2) k by (simp add: anth_shape_def shape_ok_def thinking_leads_first)
  moreover have "anth_results (am_content ?m) = owed" "anth_uses (am_content ?m) = uses_of (m_content m)"
    using k assms(3) by simp_all
  moreover have "owed \<noteq> [] \<longrightarrow> am_role ?m = RUser" using assms(4) by simp
  ultimately show ?thesis by (simp add: as(2))
qed

interpretation anthropic: provider anth_owed "anth_message f store" for f store
  by unfold_locales (simp_all add: anth_owed_append anth_message_settles)

section \<open>What a stream says\<close>

text \<open>A message as the endpoint sends it: one block after the other, each cut into fragments.\<close>

datatype said =
    SaidText "string list"
  | SaidThinking "string list" "string list"
  | SaidCall string string "string list"

fun block_events :: "int \<Rightarrow> said \<Rightarrow> anth_event list" where
  "block_events i (SaidText xs) = BlockStart i StartOther # map (\<lambda>x. BlockDelta i (TextDelta x)) xs @ [BlockStop i]"
| "block_events i (SaidThinking xs ys) = BlockStart i (StartThinking None None)
     # map (\<lambda>x. BlockDelta i (ThinkDelta (Some x))) xs @ map (\<lambda>y. BlockDelta i (SignDelta (Some y))) ys @ [BlockStop i]"
| "block_events i (SaidCall c n xs) = BlockStart i (StartTool c n) # map (\<lambda>x. BlockDelta i (JsonDelta x)) xs @ [BlockStop i]"

fun blocks_events :: "int \<Rightarrow> said list \<Rightarrow> anth_event list" where
  "blocks_events i [] = []"
| "blocks_events i (b # bs) = block_events i b @ blocks_events (i + 1) bs"

definition message_events :: "int \<Rightarrow> said list \<Rightarrow> string \<Rightarrow> int \<Rightarrow> anth_event list" where
  "message_events tokens bs stop out =
     MessageStart (Some tokens) # blocks_events 0 bs @ [MessageDelta (Some stop) (Some (None, Some out)), MessageStop]"

text \<open>The arguments of a call are no JSON value other than an object.\<close>

fun proper_call :: "(string \<Rightarrow> rat) \<Rightarrow> said \<Rightarrow> bool" where
  "proper_call fl (SaidCall c n xs) =
     (concat xs = [] \<or> (case json_loads fl (concat xs) of Some (JObj d) \<Rightarrow> True | None \<Rightarrow> True | _ \<Rightarrow> False))"
| "proper_call fl _ = True"

fun block_outs :: "(string \<Rightarrow> rat) \<Rightarrow> said \<Rightarrow> stream_event list" where
  "block_outs fl (SaidText xs) = map ContentDelta xs"
| "block_outs fl (SaidThinking xs ys) =
     map ThinkingDelta xs @ [ThinkingBlockComplete (concat xs) (present (Some (concat ys)))]"
| "block_outs fl (SaidCall c n xs) =
     ToolUseStart c n # map (ToolUseDelta c) xs @ [ToolUseComplete c n (input_of fl (concat xs))]"

lemma anth_steps_append:
  "anth_steps fl xs s = (ys, None, s') \<Longrightarrow>
     anth_steps fl (xs @ zs) s = (case anth_steps fl zs s' of (us, r) \<Rightarrow> (ys @ us, r))"
  by (induction xs arbitrary: s ys) (auto split: sum.splits prod.splits)

lemma text_deltas:
  "anth_steps fl (map (\<lambda>x. BlockDelta i (TextDelta x)) xs) s = (map (\<lambda>x. Out (ContentDelta x)) xs, None, s)"
  by (induction xs) simp_all

lemma thinking_deltas:
  "as_thinking s = [(i, (t, g))] \<Longrightarrow>
   anth_steps fl (map (\<lambda>x. BlockDelta i (ThinkDelta (Some x))) xs) s =
     (map (\<lambda>x. Out (ThinkingDelta x)) xs, None, s\<lparr>as_thinking := [(i, (t @ concat xs, g))]\<rparr>)"
  by (induction xs arbitrary: s t) (simp_all add: on_thinking_def or_empty_def)

lemma sign_deltas:
  "as_thinking s = [(i, (t, g))] \<Longrightarrow>
   anth_steps fl (map (\<lambda>x. BlockDelta i (SignDelta (Some x))) xs) s =
     ([], None, s\<lparr>as_thinking := [(i, (t, g @ concat xs))]\<rparr>)"
  by (induction xs arbitrary: s g) (simp_all add: on_thinking_def or_empty_def)

lemma json_deltas:
  "as_tools s = [(i, \<lparr>ab_call = Some (c, n), ab_json = j\<rparr>)] \<Longrightarrow>
   anth_steps fl (map (\<lambda>x. BlockDelta i (JsonDelta x)) xs) s =
     (map (\<lambda>x. Out (ToolUseDelta c x)) xs, None, s\<lparr>as_tools := [(i, \<lparr>ab_call = Some (c, n), ab_json = j @ concat xs\<rparr>)]\<rparr>)"
  by (induction xs arbitrary: s j) (simp_all add: json_delta_def)

lemma proper_parsed:
  "proper_call fl (SaidCall c n xs) \<Longrightarrow> parsed_call fl c n (concat xs) = Out (ToolUseComplete c n (input_of fl (concat xs)))"
  by (auto simp: parsed_call_def input_of_def split: option.splits json.splits)

definition idle :: "anth_state \<Rightarrow> bool" where
  "idle s \<longleftrightarrow> as_tools s = [] \<and> as_thinking s = []"

lemma block_steps:
  assumes "idle s" "proper_call fl b"
  shows "anth_steps fl (block_events i b) s = (map Out (block_outs fl b), None, s)"
proof -
  obtain tok stop where s: "s = \<lparr>as_tools = [], as_thinking = [], as_input = tok, as_stop = stop\<rparr>"
    using assms(1) by (cases s) (simp add: idle_def)
  show ?thesis
  proof (cases b)
    case (SaidText xs)
    then show ?thesis by (simp add: anth_steps_append [OF text_deltas] block_stop_def s comp_def)
  next
    case (SaidThinking xs ys)
    then show ?thesis
      by (simp add: s or_empty_def anth_steps_append [OF thinking_deltas] anth_steps_append [OF sign_deltas]
          block_stop_def drop_at_def present_def comp_def)
  next
    case (SaidCall c n xs)
    then show ?thesis using proper_parsed [of fl c n xs] assms(2)
      by (simp add: s anth_steps_append [OF json_deltas] block_stop_def drop_at_def comp_def)
  qed
qed

lemma blocks_steps:
  "idle s \<Longrightarrow> list_all (proper_call fl) bs \<Longrightarrow>
   anth_steps fl (blocks_events i bs) s = (map Out (concat (map (block_outs fl) bs)), None, s)"
  by (induction bs arbitrary: i) (simp_all add: anth_steps_append [OF block_steps])

definition said_texts :: "said list \<Rightarrow> string list" where
  "said_texts bs = concat (map (\<lambda>b. case b of SaidText xs \<Rightarrow> xs | _ \<Rightarrow> []) bs)"

definition said_calls :: "(string \<Rightarrow> rat) \<Rightarrow> said list \<Rightarrow> tool_use list" where
  "said_calls fl bs = List.map_filter (\<lambda>b. case b of
     SaidCall c n xs \<Rightarrow> Some \<lparr>tu_id = c, tu_name = n, tu_input = input_of fl (concat xs)\<rparr> | _ \<Rightarrow> None) bs"

definition said_thinking :: "said list \<Rightarrow> block list" where
  "said_thinking bs = List.map_filter (\<lambda>b. case b of
     SaidThinking xs ys \<Rightarrow> Some (BThinking (concat xs) (present (Some (concat ys)))) | _ \<Rightarrow> None) bs"

lemma add_deltas:
  "play (map ContentDelta xs) n = n\<lparr>tn_text := tn_text n @ xs\<rparr>"
  "play (map ThinkingDelta xs) n = n" "play (map (ToolUseDelta c) xs) n = n"
  by (induction xs arbitrary: n) simp_all

lemma outs_turn:
  "play (concat (map (block_outs fl) bs)) n =
     n\<lparr>tn_text := tn_text n @ said_texts bs, tn_uses := tn_uses n @ said_calls fl bs,
       tn_thinking := tn_thinking n @ said_thinking bs\<rparr>"
proof (induction bs arbitrary: n)
  case Nil
  then show ?case by (simp add: said_texts_def said_calls_def said_thinking_def List.map_filter_simps)
next
  case (Cons b bs)
  then show ?case
    by (cases b) (simp_all add: add_deltas said_texts_def said_calls_def said_thinking_def List.map_filter_simps)
qed

text \<open>C33: A turn streamed over the Messages format is what its blocks say, however they are cut: the
  events are those of the blocks in order, then the usage with the prompt tokens announced at
  the start, then one end of turn with the stop reason reported before it. Folded into a turn they
  give the text, the calls with their parsed inputs, and every thinking block joined, with its
  signature if the endpoint signed it.\<close>

theorem anth_turn_exact:
  assumes "list_all (proper_call fl) bs" "tokens \<noteq> 0"
  shows "\<exists>evs. anth_stream fl (message_events tokens bs stop out) None = (map Out evs, None)
    \<and> play evs (new_turn mid) =
        \<lparr>tn_text = said_texts bs, tn_uses = said_calls fl bs, tn_stop = Some (mapped_reason stop_reason_map stop),
         tn_input = tokens, tn_output = out, tn_model = mid, tn_interrupted = False, tn_thinking = said_thinking bs\<rparr>"
proof (intro exI conjI)
  let ?evs = "concat (map (block_outs fl) bs) @ [Usage tokens out, TurnComplete (mapped_reason stop_reason_map stop)]"
  let ?s = "fresh_anth\<lparr>as_input := tokens\<rparr>"
  have none: "mapped_reason stop_reason_map [] = ''end_turn''" by (simp add: mapped_reason_def stop_reason_map_def)
  have idle: "idle ?s" by (simp add: idle_def fresh_anth_def)
  have tail: "anth_steps fl [MessageDelta (Some stop) (Some (None, Some out)), MessageStop] ?s =
      (map Out [Usage tokens out, TurnComplete (mapped_reason stop_reason_map stop)], None,
       ?s\<lparr>as_stop := present (Some stop)\<rparr>)"
    using assms(2) none by (simp add: fresh_anth_def keep_new_def present_def or_zero_def)
  have "anth_steps fl (blocks_events 0 bs @ [MessageDelta (Some stop) (Some (None, Some out)), MessageStop]) ?s =
      (map Out ?evs, None, ?s\<lparr>as_stop := present (Some stop)\<rparr>)"
    unfolding anth_steps_append [OF blocks_steps [OF idle assms(1)]] tail by simp
  then show "anth_stream fl (message_events tokens bs stop out) None = (map Out ?evs, None)"
    using assms(2) by (simp add: anth_stream_def message_events_def or_zero_def)
  show "play ?evs (new_turn mid) =
        \<lparr>tn_text = said_texts bs, tn_uses = said_calls fl bs, tn_stop = Some (mapped_reason stop_reason_map stop),
         tn_input = tokens, tn_output = out, tn_model = mid, tn_interrupted = False, tn_thinking = said_thinking bs\<rparr>"
    by (simp add: outs_turn new_turn_def)
qed

definition sample_message :: "said list" where
  "sample_message = [SaidThinking [''ho'', ''w''] [''sig''], SaidText [''On it'', ''.''],
     SaidCall ''t1'' ''mailbox_read'' [''{'', ''}'']]"

lemma anth_turn_exact_witness:
  "\<exists>evs. anth_stream (\<lambda>t. 0) (message_events 12 sample_message ''tool_use'' 5) None = (map Out evs, None)
    \<and> tn_thinking (play evs (new_turn ''claude'')) = [BThinking ''how'' (Some ''sig'')]
    \<and> tn_uses (play evs (new_turn ''claude'')) = [\<lparr>tu_id = ''t1'', tu_name = ''mailbox_read'', tu_input = []\<rparr>]
    \<and> tn_stop (play evs (new_turn ''claude'')) = Some ''tool_use''"
proof -
  have p: "list_all (proper_call (\<lambda>t. 0)) sample_message" by code_simp
  have said: "said_thinking sample_message = [BThinking ''how'' (Some ''sig'')]"
    "said_calls (\<lambda>t. 0) sample_message = [\<lparr>tu_id = ''t1'', tu_name = ''mailbox_read'', tu_input = []\<rparr>]"
    "mapped_reason stop_reason_map ''tool_use'' = ''tool_use''"
    by code_simp+
  obtain evs where e: "anth_stream (\<lambda>t. 0) (message_events 12 sample_message ''tool_use'' 5) None = (map Out evs, None)"
    "play evs (new_turn ''claude'') =
        \<lparr>tn_text = said_texts sample_message, tn_uses = said_calls (\<lambda>t. 0) sample_message,
         tn_stop = Some (mapped_reason stop_reason_map ''tool_use''), tn_input = 12, tn_output = 5,
         tn_model = ''claude'', tn_interrupted = False, tn_thinking = said_thinking sample_message\<rparr>"
    using anth_turn_exact [OF p, of 12 "''tool_use''" 5 "''claude''"] by auto
  show ?thesis by (rule exI [of _ evs]) (simp only: e said turn.simps simp_thms)
qed

text \<open>Where the other two adapters keep a text that is no object under \<open>_raw\<close>, this one hands on the
  value; and a fragment without a start ends the stream with an exception.\<close>

lemma odd_input_passes:
  "fst (anth_stream fl [BlockStart 0 (StartTool ''t'' ''f''), BlockDelta 0 (JsonDelta ''null''), BlockStop 0] None)
   = [Out (ToolUseStart ''t'' ''f''), Out (ToolUseDelta ''t'' ''null''), OddInput ''t'' ''f'' JNull]"
  by (simp add: anth_stream_def fresh_anth_def json_delta_def block_stop_def parsed_call_def json_loads_def
      skip_space_def json_space_def eval_nat_numeral drop_at_def)

lemma lost_start_raises:
  "snd (anth_stream fl [BlockDelta 0 (JsonDelta x), BlockStop 0] None)
   = Some (Exn ''KeyError'' ([CHR 0x27] @ ''id'' @ [CHR 0x27]))"
  by (simp add: anth_stream_def fresh_anth_def json_delta_def block_stop_def)

end
