(* ===== verification/Adapter_Flow.thy ===== *)
theory Adapter_Flow
  imports Adapter_Anthropic Loop_Facts
begin

text \<open>
  The agent loop on top of the adapters: what it sends is accepted by each of the three endpoints,
  what a model said is sent back as it was, and a call the budget cut is not the one withheld.
\<close>

section \<open>Requests\<close>

definition chat_accepts :: "exn + chat_msg list \<Rightarrow> bool" where
  "chat_accepts r \<longleftrightarrow> (case r of Inl e \<Rightarrow> True | Inr out \<Rightarrow> chat_owed [] out = Some [])"

definition responses_accepts :: "exn + resp_item list \<Rightarrow> bool" where
  "responses_accepts r \<longleftrightarrow> (case r of Inl e \<Rightarrow> True | Inr out \<Rightarrow> resp_owed [] out = Some [])"

definition anthropic_accepts :: "exn + anth_msg list \<Rightarrow> bool" where
  "anthropic_accepts r \<longleftrightarrow> (case r of Inl e \<Rightarrow> True | Inr out \<Rightarrow> anth_owed [] out = Some [])"

lemma paired_accepted:
  assumes "well_paired ms"
  shows "chat_accepts (lyre_to_openai_messages f store system ms)"
    and "responses_accepts (lyre_to_responses_input f store ms)"
    and "anthropic_accepts (lyre_to_anthropic_messages f store ms)"
  using chat_request_paired [OF assms] responses.accepts_conversation [OF assms]
    anthropic.accepts_conversation [OF assms]
  by (auto simp: chat_accepts_def responses_accepts_def anthropic_accepts_def lyre_to_responses_input_def
      lyre_to_anthropic_messages_def split: sum.split)

text \<open>C30: Every request of a wakeup is accepted by every provider. Whatever happened in the run before
  (interrupts, nudges, compactions, candidates that failed), each conversation it sends, translated
  for Chat Completions, Responses or Messages, leaves no call without its result and no result
  without its call: tool messages follow the assistant that asked at once and in order, function
  outputs follow the function calls, and tool results stand in the next user message with thinking
  first in every assistant message. Translation fails only with an exception, never by a bad request.\<close>

theorem requests_accepted:
  assumes "conversation ms" "ls_sent s = []" "run_loop env now wall sys ms s = (r, s')"
  shows "list_all (\<lambda>req. chat_accepts (lyre_to_openai_messages f store system req)
      \<and> responses_accepts (lyre_to_responses_input f store req)
      \<and> anthropic_accepts (lyre_to_anthropic_messages f store req)) (ls_sent s')"
  using run_sent [OF assms] paired_accepted by (simp add: sent_ok_def list_all_iff)

lemma requests_accepted_witness:
  "\<exists>r s. run_loop sample_loop 0 5 [] sample_task_msgs sample_state = (r, s) \<and> length (ls_sent s) = 4
     \<and> list_all (\<lambda>req. chat_accepts (lyre_to_openai_messages (\<lambda>r. []) None None req)
          \<and> responses_accepts (lyre_to_responses_input (\<lambda>r. []) None req)
          \<and> anthropic_accepts (lyre_to_anthropic_messages (\<lambda>r. []) None req)) (ls_sent s)"
proof -
  obtain hit v res s where r: "run_loop sample_loop 0 5 [] sample_task_msgs sample_state = (Inr (hit, v, res), s)"
    "length (ls_sent s) = 4" by (rule sample_run)
  show ?thesis
    by (intro exI conjI) (rule r, rule r(2), rule requests_accepted [OF sample_conversation sample_sent r(1)])
qed

text \<open>The exception is an attachment: a model without vision gets none, so its requests are always
  translated.\<close>

lemma no_media_request: "''vision'' \<notin> set (me_capabilities c) \<Longrightarrow> list_all (\<lambda>m. \<not> list_ex is_media (m_content m)) (request_for c ms)"
proof -
  have "\<not> is_media (strip_block b)" for b by (cases b) (simp_all add: is_media_def)
  then have "\<not> list_ex is_media (m_content (strip_message m))" for m
    by (auto simp: strip_message_def list_ex_iff)
  then show "''vision'' \<notin> set (me_capabilities c) \<Longrightarrow> ?thesis"
    by (auto simp: request_for_def strip_vision_blocks_def list_all_iff)
qed

lemma resp_total: "\<not> list_ex is_media (m_content m) \<Longrightarrow> \<exists>ws. resp_message f store m = Inr ws"
proof -
  have "\<not> list_ex is_media bs \<Longrightarrow> \<exists>r. resp_user f store bs = Inr r" for bs
    by (induction f store bs rule: resp_user.induct) (auto simp: is_media_def map_sum_def)
  then show "\<not> list_ex is_media (m_content m) \<Longrightarrow> ?thesis"
    by (cases "m_role m") (force simp: resp_message_def Let_def)+
qed

lemma anth_total: "\<not> list_ex is_media (m_content m) \<Longrightarrow> \<exists>ws. anth_message f store m = Inr ws"
proof -
  have "\<not> list_ex is_media bs \<Longrightarrow> \<exists>as. anth_blocks f store bs = Inr as" for bs
    by (induction bs) (auto simp: anth_block_of_def is_media_def split: block.splits)
  then show "\<not> list_ex is_media (m_content m) \<Longrightarrow> ?thesis" by (fastforce simp: anth_message_def)
qed

lemma blind_request_translated:
  assumes "''vision'' \<notin> set (me_capabilities c)"
  shows "\<exists>out. lyre_to_openai_messages f store system (request_for c ms) = Inr out"
    and "\<exists>out. lyre_to_responses_input f store (request_for c ms) = Inr out"
    and "\<exists>out. lyre_to_anthropic_messages f store (request_for c ms) = Inr out"
proof -
  note n = no_media_request [OF assms, of ms]
  show "\<exists>out. lyre_to_openai_messages f store system (request_for c ms) = Inr out" by (rule chat_total [OF n])
  show "\<exists>out. lyre_to_responses_input f store (request_for c ms) = Inr out"
    unfolding lyre_to_responses_input_def
    by (rule each_message_total) (use n resp_total in \<open>auto simp: list_all_iff\<close>)
  show "\<exists>out. lyre_to_anthropic_messages f store (request_for c ms) = Inr out"
    unfolding lyre_to_anthropic_messages_def
    by (rule each_message_total) (use n anth_total in \<open>auto simp: list_all_iff\<close>)
qed

text \<open>A document block stops a request to the OpenAI endpoints, whatever comes before it.\<close>

lemma document_refused:
  assumes "BMedia MDocument blob mt fn \<in> set bs"
  shows "\<exists>e. user_parts f store bs = Inl e" "\<exists>e. resp_user f store bs = Inl e"
  using assms
  by (induction f store bs rule: user_parts.induct) (auto simp: map_sum_def split: sum.splits)

section \<open>What was said is sent back\<close>

definition echoed :: "(string \<Rightarrow> rat) \<Rightarrow> said list \<Rightarrow> anth_block list" where
  "echoed fl bs =
     List.map_filter (\<lambda>b. case b of
        SaidThinking xs ys \<Rightarrow> Some (AnthThinking (concat xs) (present (Some (concat ys)))) | _ \<Rightarrow> None) bs
     @ (if concat (said_texts bs) = [] then [] else [AnthText (concat (said_texts bs))])
     @ List.map_filter (\<lambda>b. case b of
        SaidCall c n xs \<Rightarrow> Some (AnthToolUse c n (input_of fl (concat xs))) | _ \<Rightarrow> None) bs"

lemma anth_blocks_append:
  "anth_blocks f store (xs @ ys) =
     (case anth_blocks f store xs of Inl e \<Rightarrow> Inl e | Inr as \<Rightarrow> map_sum id (\<lambda>bs. as @ bs) (anth_blocks f store ys))"
proof (induction xs)
  case Nil
  then show ?case by (cases "anth_blocks f store ys") simp_all
next
  case (Cons x xs)
  then show ?case
    by (cases "anth_block_of f store x"; cases "anth_blocks f store xs"; cases "anth_blocks f store ys") simp_all
qed

lemma present_present [simp]: "present (present v) = present v"
  by (auto simp: present_def split: option.splits)

lemma echo_thinking:
  "anth_blocks f store (said_thinking bs) = Inr (List.map_filter (\<lambda>b. case b of
     SaidThinking xs ys \<Rightarrow> Some (AnthThinking (concat xs) (present (Some (concat ys)))) | _ \<Rightarrow> None) bs)"
proof (induction bs)
  case Nil
  then show ?case by (simp add: said_thinking_def List.map_filter_simps)
next
  case (Cons b bs)
  then show ?case
    by (cases b) (simp_all add: said_thinking_def List.map_filter_simps anth_block_of_def)
qed

lemma echo_calls:
  "anth_blocks f store (map use_block (said_calls fl bs)) = Inr (List.map_filter (\<lambda>b. case b of
     SaidCall c n xs \<Rightarrow> Some (AnthToolUse c n (input_of fl (concat xs))) | _ \<Rightarrow> None) bs)"
proof (induction bs)
  case Nil
  then show ?case by (simp add: said_calls_def List.map_filter_simps)
next
  case (Cons b bs)
  then show ?case
    by (cases b) (auto simp: said_calls_def List.map_filter_simps anth_block_of_def use_block_def)
qed

text \<open>The message the loop appends for a streamed turn goes out with the thinking, signatures included,
  verbatim and first, then the text, then the calls.\<close>

lemma turn_echoed:
  "anth_blocks f store (assistant_blocks (said_thinking bs) (concat (said_texts bs)) (said_calls fl bs)) = Inr (echoed fl bs)"
  by (simp add: assistant_blocks_def anth_blocks_append echo_thinking echo_calls echoed_def anth_block_of_def)

section \<open>The withheld call\<close>

text \<open>Over Responses the call that the budget cuts is dropped by the adapter, so the last call of the
  turn, which the loop withholds, is one the model had finished.\<close>

lemma finished_call_withheld:
  assumes "lv_registry env = Some reg" "lv_ctx env = Some c" "tu_name tu \<in> set (lv_allowed env)"
    "map_of reg (tu_name tu) \<noteq> None" "\<not> is_truncated_tool_args (tu_input tu)"
  shows "refusal env tu (Some ''max_tokens'') (suspect_of (Some ''max_tokens'') [])
     = Some (suspect_text (lv_max_tokens env) (tu_name tu))"
  using assms by (auto simp: refusal_def suspect_of_def)

end
