(* ===== verification/Owner_Channel.thy ===== *)
theory Owner_Channel
  imports Sample Maintenance Json_Parse
begin

text \<open>
  The way of the owner's mail to the chat channels: the broadcaster that polls the mailbox
  (\<open>dashboard/sse.py\<close>) and the enqueuer that turns every owner mail into one outbox row per channel
  (\<open>integrations/owner_mail_enqueuer.py\<close>), first for the mail of the downtime, then for what the
  broadcaster announces. The two run as separate tasks; a run is a list of events in the order the
  event loop takes them, with the mail that other parts insert in between. An event is one task
  from one \<open>await\<close> to the next; reading the parent and writing the row of one mail are one event.
\<close>

section \<open>The broadcaster\<close>

type_synonym mail_queue = "mail_message option list"

record broadcaster =
  bc_recipient :: string
  bc_max :: nat
  bc_seen :: int
  bc_subs :: "(nat \<times> mail_queue) list"
  bc_stopped :: bool

definition new_broadcaster :: "string \<Rightarrow> broadcaster" where
  "new_broadcaster recipient =
     \<lparr>bc_recipient = recipient, bc_max = 200, bc_seen = 0, bc_subs = [], bc_stopped = False\<rparr>"

text \<open>The watermark starts at the newest mail.\<close>

definition bc_prime :: "db \<Rightarrow> broadcaster \<Rightarrow> exn + broadcaster" where
  "bc_prime d b =
     map_sum id (\<lambda>recent. case recent of
         m # ms \<Rightarrow> (case msg_id m of Some i \<Rightarrow> b\<lparr>bc_seen := i\<rparr> | None \<Rightarrow> b)
       | [] \<Rightarrow> b)
       (read_messages_paged (bc_recipient b) None 1 None d)"

definition bc_subscribe :: "nat \<Rightarrow> broadcaster \<Rightarrow> broadcaster" where
  "bc_subscribe k b = b\<lparr>bc_subs := bc_subs b @ [(k, [])]\<rparr>"

definition bc_unsubscribe :: "nat \<Rightarrow> broadcaster \<Rightarrow> broadcaster" where
  "bc_unsubscribe k b = b\<lparr>bc_subs := filter (\<lambda>p. fst p \<noteq> k) (bc_subs b)\<rparr>"

text \<open>\<open>put_nowait\<close> of a bounded queue; the oldest entry makes room for the new one.\<close>

definition queue_full :: "nat \<Rightarrow> 'a list \<Rightarrow> bool" where
  "queue_full n q \<longleftrightarrow> 0 < n \<and> n \<le> length q"

definition put_dropping :: "nat \<Rightarrow> 'a \<Rightarrow> 'a list \<Rightarrow> 'a list" where
  "put_dropping n m q =
     (if \<not> queue_full n q then q @ [m] else if \<not> queue_full n (tl q) then tl q @ [m] else tl q)"

definition bc_put :: "mail_message option \<Rightarrow> broadcaster \<Rightarrow> broadcaster" where
  "bc_put m b = b\<lparr>bc_subs := map (\<lambda>(k, q). (k, put_dropping (bc_max b) m q)) (bc_subs b)\<rparr>"

definition bc_announce :: "mail_message \<Rightarrow> broadcaster \<Rightarrow> broadcaster" where
  "bc_announce m b =
     bc_put (Some m) (case msg_id m of
         Some i \<Rightarrow> if bc_seen b < i then b\<lparr>bc_seen := i\<rparr> else b
       | None \<Rightarrow> b)"

definition bc_poll :: "db \<Rightarrow> broadcaster \<Rightarrow> broadcaster" where
  "bc_poll d b =
     (if bc_stopped b then b
      else fold bc_announce (read_messages (bc_recipient b) (bc_seen b) 100 d) b)"

definition bc_stop :: "broadcaster \<Rightarrow> broadcaster" where
  "bc_stop b = bc_put None (b\<lparr>bc_stopped := True\<rparr>)"

section \<open>The enqueuer\<close>

text \<open>The message a reply is threaded under: what the channel called the parent.\<close>

definition channels_of :: "(string \<Rightarrow> rat) \<Rightarrow> dict \<Rightarrow> json option" where
  "channels_of fl meta =
     (case dget meta ''channels'' of
        Some (JStr s) \<Rightarrow> json_loads fl s
      | v \<Rightarrow> v)"

definition message_id_in :: "string \<Rightarrow> json option \<Rightarrow> string option" where
  "message_id_in channel v =
     (case v of
        Some (JObj cm) \<Rightarrow>
          (case dget cm channel of
             Some (JObj e) \<Rightarrow> (case dget e ''message_id'' of Some (JStr s) \<Rightarrow> Some s | _ \<Rightarrow> None)
           | _ \<Rightarrow> None)
      | _ \<Rightarrow> None)"

definition resolve_reply_to :: "(string \<Rightarrow> rat) \<Rightarrow> string \<Rightarrow> mail_message \<Rightarrow> db \<Rightarrow> string option" where
  "resolve_reply_to fl channel m d =
     (case msg_parent m of
        None \<Rightarrow> None
      | Some p \<Rightarrow>
          if p = 0 then None
          else (case get_message p d of
            None \<Rightarrow> None
          | Some parent \<Rightarrow>
              (case msg_meta parent of
                 Some (x # xs) \<Rightarrow> message_id_in channel (channels_of fl (x # xs))
               | _ \<Rightarrow> None)))"

definition publish_row :: "(string \<Rightarrow> rat) \<Rightarrow> string \<Rightarrow> mail_message \<Rightarrow> int \<Rightarrow> db \<Rightarrow> outbox_row" where
  "publish_row fl channel m i d =
     new_outbox_row (msg_task m) None KChannelPublish
       [(''channel'', JStr channel), (''msg_id'', JInt i),
        (''reply_to_external_id'', jopt_str (resolve_reply_to fl channel m d))]
       (channel_mail_key channel i)"

definition enqueue_mail :: "int \<Rightarrow> (string \<Rightarrow> rat) \<Rightarrow> string \<Rightarrow> mail_message \<Rightarrow> (db, unit) exec" where
  "enqueue_mail now fl channel m = (\<lambda>d.
     case msg_id m of
       None \<Rightarrow> (Inr (), d)
     | Some i \<Rightarrow> outbox_enqueue now [publish_row fl channel m i d] d)"

text \<open>The sweep at the start, uninterrupted; the number of mails it went through.\<close>

fun catch_up :: "int \<Rightarrow> (string \<Rightarrow> rat) \<Rightarrow> string \<Rightarrow> string list \<Rightarrow> (db, nat) exec" where
  "catch_up now fl recipient [] = ret 0"
| "catch_up now fl recipient (c # cs) =
     bnd (query (list_pending_channel_publish recipient c 500)) (\<lambda>ms.
     seqn (for_each (enqueue_mail now fl c) ms)
       (bnd (catch_up now fl recipient cs) (\<lambda>n. ret (length ms + n))))"

definition enqueue_for_channels :: "int \<Rightarrow> (string \<Rightarrow> rat) \<Rightarrow> string list \<Rightarrow> mail_message \<Rightarrow> (db, unit) exec" where
  "enqueue_for_channels now fl chans m = for_each (\<lambda>c. enqueue_mail now fl c m) chans"

section \<open>The two tasks\<close>

text \<open>Where the enqueuer waits: before the query of a channel, before the next row of the sweep, for
  the queue, before the next row of an announced mail.\<close>

datatype place =
    Querying string "string list"
  | Sending string "mail_message list" "string list"
  | Listening
  | Fanning mail_message "string list"
  | Ended
  | Crashed exn

record bridge =
  bg_db :: db
  bg_bc :: broadcaster
  bg_chans :: "string list"
  bg_phase :: place
  bg_stop :: bool

definition swept :: "string list \<Rightarrow> bridge \<Rightarrow> bridge" where
  "swept cs s =
     (case cs of
        [] \<Rightarrow> s\<lparr>bg_bc := bc_subscribe 0 (bg_bc s), bg_phase := Listening\<rparr>
      | c # cs' \<Rightarrow> s\<lparr>bg_phase := Querying c cs'\<rparr>)"

definition start_bridge :: "string list \<Rightarrow> db \<Rightarrow> broadcaster \<Rightarrow> bridge" where
  "start_bridge chans d b =
     \<lparr>bg_db = d, bg_bc = b, bg_chans = chans,
      bg_phase = (case chans of [] \<Rightarrow> Ended | c # cs \<Rightarrow> Querying c cs),
      bg_stop = False\<rparr>"

definition put_row :: "int \<Rightarrow> (string \<Rightarrow> rat) \<Rightarrow> string \<Rightarrow> mail_message \<Rightarrow> (bridge \<Rightarrow> bridge) \<Rightarrow> bridge \<Rightarrow> bridge" where
  "put_row now fl c m continue s =
     (case enqueue_mail now fl c m (bg_db s) of
        (Inl e, d) \<Rightarrow> s\<lparr>bg_db := d, bg_phase := Crashed e\<rparr>
      | (Inr u, d) \<Rightarrow> continue (s\<lparr>bg_db := d\<rparr>))"

definition my_queue :: "broadcaster \<Rightarrow> mail_queue" where
  "my_queue b = (case map_of (bc_subs b) 0 of Some q \<Rightarrow> q | None \<Rightarrow> [])"

definition take_mail :: "broadcaster \<Rightarrow> broadcaster" where
  "take_mail b = b\<lparr>bc_subs := map (\<lambda>(k, q). (k, if k = 0 then tl q else q)) (bc_subs b)\<rparr>"

definition fanned :: "mail_message \<Rightarrow> string list \<Rightarrow> bridge \<Rightarrow> bridge" where
  "fanned m cs s = s\<lparr>bg_phase := (if cs = [] then Listening else Fanning m cs)\<rparr>"

definition enqueuer_acts :: "int \<Rightarrow> (string \<Rightarrow> rat) \<Rightarrow> bridge \<Rightarrow> bridge" where
  "enqueuer_acts now fl s =
     (case bg_phase s of
        Querying c cs \<Rightarrow>
          (case list_pending_channel_publish (bc_recipient (bg_bc s)) c 500 (bg_db s) of
             [] \<Rightarrow> swept cs s
           | m # ms \<Rightarrow> s\<lparr>bg_phase := Sending c (m # ms) cs\<rparr>)
      | Sending c ms cs \<Rightarrow>
          (case ms of
             [] \<Rightarrow> swept cs s
           | m # ms' \<Rightarrow> put_row now fl c m
               (\<lambda>t. if ms' = [] then swept cs t else t\<lparr>bg_phase := Sending c ms' cs\<rparr>) s)
      | Listening \<Rightarrow>
          if bg_stop s then s\<lparr>bg_bc := bc_unsubscribe 0 (bg_bc s), bg_phase := Ended\<rparr>
          else (case my_queue (bg_bc s) of
             [] \<Rightarrow> s
           | None # q \<Rightarrow> s\<lparr>bg_bc := bc_unsubscribe 0 (take_mail (bg_bc s)), bg_phase := Ended\<rparr>
           | Some m # q \<Rightarrow> fanned m (bg_chans s) (s\<lparr>bg_bc := take_mail (bg_bc s)\<rparr>))
      | Fanning m cs \<Rightarrow>
          (case cs of
             [] \<Rightarrow> fanned m [] s
           | c # cs' \<Rightarrow> put_row now fl c m (fanned m cs') s)
      | _ \<Rightarrow> s)"

datatype bridge_event = Lands int mail_message | Polls | Acts int | AsksStop

fun bridge_step :: "(string \<Rightarrow> rat) \<Rightarrow> bridge_event \<Rightarrow> bridge \<Rightarrow> bridge" where
  "bridge_step fl (Lands now m) s = s\<lparr>bg_db := snd (insert_message now m (bg_db s))\<rparr>"
| "bridge_step fl Polls s = s\<lparr>bg_bc := bc_poll (bg_db s) (bg_bc s)\<rparr>"
| "bridge_step fl (Acts now) s = enqueuer_acts now fl s"
| "bridge_step fl AsksStop s = s\<lparr>bg_stop := True\<rparr>"

definition bridge_run :: "(string \<Rightarrow> rat) \<Rightarrow> bridge_event list \<Rightarrow> bridge \<Rightarrow> bridge" where
  "bridge_run fl es s = fold (bridge_step fl) es s"

section \<open>One row\<close>

definition published :: "string \<Rightarrow> int \<Rightarrow> db \<Rightarrow> bool" where
  "published c i d \<longleftrightarrow> has_outbox KChannelPublish (channel_mail_key c i) d"

text \<open>The names of channels are lowercase letters by convention; what matters is that they hold no
  colon.\<close>

definition plain_name :: "string \<Rightarrow> bool" where
  "plain_name c \<longleftrightarrow> CHR '':'' \<notin> set c"

lemma mail_key_same [simp]: "channel_mail_key c i = channel_mail_key c j \<longleftrightarrow> i = j"
  by (simp add: channel_mail_key_def)

lemma mail_key_inject:
  assumes "plain_name c" "plain_name c'" "channel_mail_key c i = channel_mail_key c' j"
  shows "c = c' \<and> i = j"
proof -
  have first: "takeWhile (\<lambda>x. x \<noteq> CHR '':'') (b @ CHR '':'' # r) = b" if "plain_name b" for b r
    using that by (induction b) (auto simp: plain_name_def)
  have "c @ '':owner-mail:'' @ str_of_int i = c' @ '':owner-mail:'' @ str_of_int j"
    using assms(3) by (simp add: channel_mail_key_def)
  then have "takeWhile (\<lambda>x. x \<noteq> CHR '':'') (c @ '':owner-mail:'' @ str_of_int i)
      = takeWhile (\<lambda>x. x \<noteq> CHR '':'') (c' @ '':owner-mail:'' @ str_of_int j)" by (rule arg_cong)
  then have "c = c'" using first [OF assms(1)] first [OF assms(2)] by simp
  with assms(3) show ?thesis by simp
qed

lemma enqueue_mail_cases:
  obtains (none) "msg_id m = None" "enqueue_mail now fl c m d = (Inr (), d)"
  | (refused) e i where "msg_id m = Some i" "enqueue_mail now fl c m d = (Inl e, d)" "\<not> fk (msg_task m) (task_ids d)"
  | (row) i os q where "msg_id m = Some i" "enqueue_mail now fl c m d = (Inr (), d\<lparr>outbox := os, outbox_seq := q\<rparr>)"
      "published c i (d\<lparr>outbox := os, outbox_seq := q\<rparr>)"
      "\<And>c' j. published c' j (d\<lparr>outbox := os, outbox_seq := q\<rparr>) \<longleftrightarrow>
         published c' j d \<or> channel_mail_key c' j = channel_mail_key c i"
proof (cases "msg_id m")
  case None
  then show thesis by (intro none) (simp_all add: enqueue_mail_def)
next
  case (Some i)
  let ?r = "publish_row fl c m i d"
  have r: "ob_kind ?r = KChannelPublish" "ob_external ?r = channel_mail_key c i" "ob_task ?r = msg_task m" "ob_wakeup ?r = None"
    by (simp_all add: publish_row_def new_outbox_row_def)
  have e: "enqueue_mail now fl c m d = enqueue_one now ?r d"
    by (auto simp: enqueue_mail_def Some enqueue_cons split: prod.splits sum.splits)
  show thesis
  proof (cases "published c i d")
    case True
    then have "enqueue_one now ?r d = (Inr (), d\<lparr>outbox := outbox d, outbox_seq := outbox_seq d + 1\<rparr>)"
      by (simp add: enqueue_one_def r published_def Let_def)
    with e Some True show thesis
      by (intro row) (auto simp: published_def has_outbox_def)
  next
    case False
    show thesis
    proof (cases "fk (msg_task m) (task_ids d)")
      case True
      with False have "enqueue_one now ?r d = (Inr (), d\<lparr>outbox := outbox d @ [outbox_rec_of now (outbox_seq d + 1) ?r],
          outbox_seq := outbox_seq d + 1\<rparr>)"
        by (simp add: enqueue_one_def r published_def Let_def)
      with e Some show thesis by (intro row) (auto simp: published_def has_outbox_def r)
    next
      case fk: False
      with False e Some show thesis by (intro refused) (simp_all add: enqueue_one_def r published_def Let_def)
    qed
  qed
qed

lemma enqueue_mail_frame:
  "messages (snd (enqueue_mail now fl c m d)) = messages d" "task_ids (snd (enqueue_mail now fl c m d)) = task_ids d"
  "message_seq (snd (enqueue_mail now fl c m d)) = message_seq d"
  by (cases rule: enqueue_mail_cases [of m now fl c d]; simp add: task_ids_def)+

lemma enqueue_mail_keeps: "published c' j d \<Longrightarrow> published c' j (snd (enqueue_mail now fl c m d))"
  by (cases rule: enqueue_mail_cases [of m now fl c d]; simp)

lemma enqueue_mail_ok: "db_ok d \<Longrightarrow> db_ok (snd (enqueue_mail now fl c m d))"
  using keepsD [OF keeps_enqueue, of d] unfolding enqueue_mail_def by (auto split: option.split)

lemma insert_outbox [simp]: "outbox (snd (insert_message now m d)) = outbox d"
  by (auto simp: insert_message_def ensure_mailbox_def Let_def)

lemma insert_published [simp]: "published c i (snd (insert_message now m d)) = published c i d"
  by (simp add: published_def has_outbox_def)

section \<open>Announcing\<close>

definition in_queue :: "int \<Rightarrow> broadcaster \<Rightarrow> bool" where
  "in_queue i b \<longleftrightarrow> (\<exists>q \<in> set (map snd (bc_subs b)). \<exists>m. Some m \<in> set q \<and> msg_id m = Some i)"

lemma put_dropping_subset: "x \<in> set (put_dropping n m q) \<Longrightarrow> x = m \<or> x \<in> set q"
  by (cases q) (auto simp: put_dropping_def split: if_splits)

lemma announce_seen: "bc_seen b \<le> bc_seen (bc_announce m b)"
  by (auto simp: bc_announce_def bc_put_def split: option.split)

lemma announce_queued: "in_queue i (bc_announce m b) \<Longrightarrow> msg_id m = Some i \<or> in_queue i b"
  by (auto simp: in_queue_def bc_announce_def bc_put_def split: option.splits if_splits dest!: put_dropping_subset) force+

lemma announce_all:
  "bc_seen b \<le> bc_seen (fold bc_announce ms b)"
  "in_queue i (fold bc_announce ms b) \<Longrightarrow> (\<exists>m \<in> set ms. msg_id m = Some i) \<or> in_queue i b"
proof (induction ms arbitrary: b)
  case (Cons m ms)
  case 1 show ?case using Cons.IH(1) [of "bc_announce m b"] announce_seen [of b m] by simp
  case 2 then show ?case using Cons.IH(2) [of "bc_announce m b"] announce_queued [of i m b] by auto
qed simp_all

lemma read_ids: "m \<in> set (read_messages q since n d) \<Longrightarrow> \<exists>r \<in> set (messages d). m = row_to_msg r \<and> since < mr_id r \<and> mr_recipient r = q"
  using set_sql_limit [of n "order_by mr_id (filter (\<lambda>r. mr_recipient r = q \<and> since < mr_id r) (messages d))"]
  by (auto simp: read_messages_def)

lemma msg_id_row [simp]: "msg_id (row_to_msg r) = Some (mr_id r)" "msg_task (row_to_msg r) = mr_task r"
  by (simp_all add: row_to_msg_def)

lemma poll_passed:
  assumes "i \<le> bc_seen b" "\<not> in_queue i b"
  shows "i \<le> bc_seen (bc_poll d b)" "\<not> in_queue i (bc_poll d b)"
proof -
  have "msg_id m \<noteq> Some i" if "m \<in> set (read_messages (bc_recipient b) (bc_seen b) 100 d)" for m
    using read_ids [OF that] assms(1) by auto
  then show "\<not> in_queue i (bc_poll d b)" using announce_all(2) [of i _ b] assms(2) by (auto simp: bc_poll_def)
  show "i \<le> bc_seen (bc_poll d b)" using announce_all(1) [of b] assms(1) by (auto simp: bc_poll_def intro: order_trans)
qed

section \<open>A mail the enqueuer never sees\<close>

definition phase_channels :: "place \<Rightarrow> string list" where
  "phase_channels p = (case p of Querying c cs \<Rightarrow> c # cs | Sending c ms cs \<Rightarrow> c # cs | Fanning m cs \<Rightarrow> cs | _ \<Rightarrow> [])"

definition phase_owes :: "place \<Rightarrow> string \<Rightarrow> int \<Rightarrow> bool" where
  "phase_owes p c i \<longleftrightarrow> (case p of
     Querying c' cs \<Rightarrow> c = c' \<or> c \<in> set cs
   | Sending c' ms cs \<Rightarrow> c \<in> set cs \<or> (c = c' \<and> (\<exists>m \<in> set ms. msg_id m = Some i))
   | Fanning m cs \<Rightarrow> msg_id m = Some i \<and> c \<in> set cs
   | _ \<Rightarrow> False)"

text \<open>Announced before anyone listened, and not part of the sweep of the channel.\<close>

definition passed_over :: "string \<Rightarrow> int \<Rightarrow> bridge \<Rightarrow> bool" where
  "passed_over c i s \<longleftrightarrow>
     \<not> published c i (bg_db s) \<and> i \<le> bc_seen (bg_bc s) \<and> \<not> in_queue i (bg_bc s)
     \<and> \<not> phase_owes (bg_phase s) c i \<and> plain_name c
     \<and> list_all plain_name (bg_chans s) \<and> list_all plain_name (phase_channels (bg_phase s))"

lemma swept_fields [simp]:
  "bg_db (swept cs s) = bg_db s" "bc_seen (bg_bc (swept cs s)) = bc_seen (bg_bc s)" "bg_chans (swept cs s) = bg_chans s"
  "in_queue i (bg_bc (swept cs s)) = in_queue i (bg_bc s)" "bg_stop (swept cs s) = bg_stop s"
  "bg_phase (swept cs s) = (case cs of [] \<Rightarrow> Listening | c # cs' \<Rightarrow> Querying c cs')"
  by (auto simp: swept_def bc_subscribe_def in_queue_def split: list.split)

lemma fanned_fields [simp]:
  "bg_db (fanned m cs s) = bg_db s" "bg_bc (fanned m cs s) = bg_bc s" "bg_chans (fanned m cs s) = bg_chans s"
  "bg_stop (fanned m cs s) = bg_stop s"
  "bg_phase (fanned m cs s) = (if cs = [] then Listening else Fanning m cs)"
  by (simp_all add: fanned_def)

lemma take_mail_fields [simp]:
  "bc_seen (take_mail b) = bc_seen b" "bc_seen (bc_unsubscribe k b) = bc_seen b"
  "bc_recipient (take_mail b) = bc_recipient b" "bc_stopped (take_mail b) = bc_stopped b" "bc_max (take_mail b) = bc_max b"
  by (simp_all add: take_mail_def bc_unsubscribe_def)

lemma in_set_tl: "x \<in> set (tl q) \<Longrightarrow> x \<in> set q"
  by (cases q) simp_all

lemma take_mail_queued: "in_queue i (take_mail b) \<Longrightarrow> in_queue i b" "in_queue i (bc_unsubscribe k b) \<Longrightarrow> in_queue i b"
  by (force simp: in_queue_def take_mail_def bc_unsubscribe_def dest: in_set_tl split: if_splits)+

lemma my_queue_in: "x \<in> set (my_queue b) \<Longrightarrow> \<exists>q \<in> set (map snd (bc_subs b)). x \<in> set q"
  by (auto simp: my_queue_def dest: map_of_SomeD split: option.splits) (metis map_of_SomeD snd_conv)

lemma pending_ids:
  "m \<in> set (list_pending_channel_publish q c n d) \<Longrightarrow>
     \<exists>r \<in> set (messages d). m = row_to_msg r \<and> mr_recipient r = q \<and> \<not> published c (mr_id r) d"
  using set_sql_limit [of n "order_by mr_id (filter (\<lambda>m. mr_recipient m = q
      \<and> \<not> exists_row (\<lambda>x. xr_kind x = KChannelPublish \<and> xr_external x = channel_mail_key c (mr_id m)) (outbox d)) (messages d))"]
  by (auto simp: list_pending_channel_publish_def published_def has_outbox_def)

text \<open>A row for another mail or another channel leaves the mail passed over.\<close>

lemma put_row_passed:
  assumes "passed_over c i s" "plain_name c'" "msg_id m \<noteq> Some i \<or> c' \<noteq> c"
    and "\<And>t. passed_over c i t \<Longrightarrow> bg_phase t = bg_phase s \<Longrightarrow> bg_bc t = bg_bc s \<Longrightarrow> passed_over c i (k t)"
  shows "passed_over c i (put_row now fl c' m k s)"
proof (cases rule: enqueue_mail_cases [of m now fl c' "bg_db s"])
  case none
  with assms(1) assms(4) [of s] show ?thesis by (simp add: put_row_def)
next
  case (refused e j)
  with assms(1) show ?thesis by (simp add: put_row_def passed_over_def phase_owes_def phase_channels_def)
next
  case (row j os q)
  let ?t = "s\<lparr>bg_db := bg_db s\<lparr>outbox := os, outbox_seq := q\<rparr>\<rparr>"
  have "channel_mail_key c i \<noteq> channel_mail_key c' j"
    using mail_key_inject [of c c' i j] assms(1-3) row(1) by (auto simp: passed_over_def)
  then have "passed_over c i ?t" using assms(1) row(4) [of c i] by (simp add: passed_over_def)
  with assms(4) [of ?t] row(2) show ?thesis by (simp add: put_row_def)
qed

lemma swept_passed:
  "passed_over c i s \<Longrightarrow> c \<notin> set cs \<Longrightarrow> list_all plain_name cs \<Longrightarrow> passed_over c i (swept cs s)"
  by (auto simp: passed_over_def phase_owes_def phase_channels_def split: list.split)

lemma acts_passed:
  assumes p: "passed_over c i s"
  shows "passed_over c i (enqueuer_acts now fl s)"
proof (cases "bg_phase s")
  case (Querying c' cs)
  then have q: "c \<noteq> c'" "c \<notin> set cs" "plain_name c'" "list_all plain_name cs"
    using p by (auto simp: passed_over_def phase_owes_def phase_channels_def)
  then have "passed_over c i (s\<lparr>bg_phase := Sending c' ms cs\<rparr>)" for ms
    using p by (simp add: passed_over_def phase_owes_def phase_channels_def)
  with swept_passed [OF p q(2,4)] Querying show ?thesis by (simp add: enqueuer_acts_def split: list.split)
next
  case (Sending c' ms cs)
  then have q: "c \<notin> set cs" "plain_name c'" "list_all plain_name cs" "c \<noteq> c' \<or> (\<forall>m \<in> set ms. msg_id m \<noteq> Some i)"
    using p by (auto simp: passed_over_def phase_owes_def phase_channels_def)
  show ?thesis
  proof (cases ms)
    case Nil
    with Sending swept_passed [OF p q(1,3)] show ?thesis by (simp add: enqueuer_acts_def)
  next
    case (Cons m ms')
    have cont: "passed_over c i (if ms' = [] then swept cs t else t\<lparr>bg_phase := Sending c' ms' cs\<rparr>)"
      if t: "passed_over c i t" for t
    proof (cases "ms' = []")
      case True
      then show ?thesis using swept_passed [OF t q(1,3)] by simp
    next
      case False
      have "passed_over c i (t\<lparr>bg_phase := Sending c' ms' cs\<rparr>)"
        using t q Cons unfolding passed_over_def by (simp add: phase_owes_def phase_channels_def)
      with False show ?thesis by simp
    qed
    have "passed_over c i (put_row now fl c' m (\<lambda>t. if ms' = [] then swept cs t else t\<lparr>bg_phase := Sending c' ms' cs\<rparr>) s)"
    proof (rule put_row_passed [OF p q(2)])
      show "msg_id m \<noteq> Some i \<or> c' \<noteq> c" using q(4) by (metis Cons list.set_intros(1))
    qed (rule cont)
    with Sending Cons show ?thesis by (simp only: enqueuer_acts_def place.case list.case)
  qed
next
  case Listening
  have t: "\<not> in_queue i (take_mail (bg_bc s))" using p by (auto simp: passed_over_def dest: take_mail_queued)
  have end_: "passed_over c i (s\<lparr>bg_bc := b, bg_phase := Ended\<rparr>)"
    if "bc_seen b = bc_seen (bg_bc s)" "\<not> in_queue i b" for b
    using p that by (simp add: passed_over_def phase_owes_def phase_channels_def)
  show ?thesis
  proof (cases "bg_stop s")
    case True
    have "\<not> in_queue i (bc_unsubscribe 0 (bg_bc s))" using p by (auto simp: passed_over_def dest: take_mail_queued)
    with True Listening end_ show ?thesis by (simp add: enqueuer_acts_def)
  next
    case go: False
    show ?thesis
    proof (cases "my_queue (bg_bc s)")
      case Nil
      with Listening go p show ?thesis by (simp add: enqueuer_acts_def)
    next
      case (Cons x q)
      show ?thesis
      proof (cases x)
        case None
        have "\<not> in_queue i (bc_unsubscribe 0 (take_mail (bg_bc s)))" using t by (auto dest: take_mail_queued)
        with None Cons Listening go end_ show ?thesis by (simp add: enqueuer_acts_def)
      next
        case (Some m)
        have "Some m \<in> set (my_queue (bg_bc s))" using Cons Some by simp
        from my_queue_in [OF this] have "msg_id m \<noteq> Some i" using p by (auto simp: passed_over_def in_queue_def)
        then have "passed_over c i (fanned m (bg_chans s) (s\<lparr>bg_bc := take_mail (bg_bc s)\<rparr>))"
          using p t by (simp add: passed_over_def phase_owes_def phase_channels_def)
        with Some Cons Listening go show ?thesis by (simp add: enqueuer_acts_def)
      qed
    qed
  qed
next
  case (Fanning m cs)
  then have q: "msg_id m \<noteq> Some i \<or> c \<notin> set cs" "list_all plain_name cs"
    using p by (auto simp: passed_over_def phase_owes_def phase_channels_def)
  show ?thesis
  proof (cases cs)
    case Nil
    have "passed_over c i (fanned m [] s)" using p by (simp add: passed_over_def phase_owes_def phase_channels_def)
    with Nil Fanning show ?thesis by (simp add: enqueuer_acts_def)
  next
    case (Cons c' cs')
    have cont: "passed_over c i (fanned m cs' t)" if "passed_over c i t" for t
      using that q Cons by (auto simp: passed_over_def phase_owes_def phase_channels_def)
    have "passed_over c i (put_row now fl c' m (fanned m cs') s)"
    proof (rule put_row_passed [OF p])
      show "msg_id m \<noteq> Some i \<or> c' \<noteq> c" using q(1) Cons by auto
      show "plain_name c'" using q(2) Cons by simp
    qed (rule cont)
    with Fanning Cons show ?thesis by (simp only: enqueuer_acts_def place.case list.case)
  qed
qed (use p in \<open>simp_all add: enqueuer_acts_def\<close>)

lemma step_passed: "passed_over c i s \<Longrightarrow> passed_over c i (bridge_step fl e s)"
proof (cases e)
  case Polls
  assume p: "passed_over c i s"
  then have "i \<le> bc_seen (bg_bc s)" "\<not> in_queue i (bg_bc s)" by (simp_all add: passed_over_def)
  from poll_passed [OF this] p show ?thesis by (simp add: Polls passed_over_def)
qed (simp_all add: acts_passed, simp_all add: passed_over_def)

lemma run_passed: "passed_over c i s \<Longrightarrow> passed_over c i (bridge_run fl es s)"
  by (induction es arbitrary: s) (simp_all add: bridge_run_def step_passed)

text \<open>A poll announces every new mail to the subscribers it has: to none during the sweep.\<close>

lemma poll_sees:
  assumes "r \<in> set (messages d)" "mr_recipient r = bc_recipient b" "\<not> bc_stopped b" "bc_seen b < mr_id r"
    "length (filter (\<lambda>r. mr_recipient r = bc_recipient b \<and> bc_seen b < mr_id r) (messages d)) \<le> 100"
  shows "mr_id r \<le> bc_seen (bc_poll d b)"
proof -
  have seen: "m \<in> set ms \<Longrightarrow> msg_id m = Some j \<Longrightarrow> j \<le> bc_seen (fold bc_announce ms b')" for m ms j b'
  proof (induction ms arbitrary: b')
    case (Cons x xs)
    show ?case
    proof (cases "m = x")
      case True
      then have "j \<le> bc_seen (bc_announce x b')" using Cons.prems by (auto simp: bc_announce_def bc_put_def)
      also have "\<dots> \<le> bc_seen (fold bc_announce xs (bc_announce x b'))" by (rule announce_all(1))
      finally show ?thesis by simp
    next
      case False
      with Cons.prems Cons.IH show ?thesis by simp
    qed
  qed simp
  have "row_to_msg r \<in> set (read_messages (bc_recipient b) (bc_seen b) 100 d)"
    using assms by (simp add: read_messages_def sql_limit_def order_by_def)
  from seen [OF this, of "mr_id r" b] show ?thesis using assms(3) by (simp add: bc_poll_def)
qed

text \<open>The sweep and the subscription leave a gap. Suppose the enqueuer has asked for the pending mail
  of a channel and is still writing its rows, a new owner mail lands and the broadcaster polls.
  The poll moves the watermark past the mail and nobody is subscribed, so whatever happens
  afterwards (further mail, polls, the rest of the sweep, the subscription, any number of rows),
  the mail never gets a row for the channel: it reaches the channel only after a restart.\<close>

theorem gap_mail_lost:
  assumes "bg_phase s = Sending c ms cs" "bc_subs (bg_bc s) = []" "\<not> bc_stopped (bg_bc s)" "db_ok (bg_db s)"
    "bc_seen (bg_bc s) \<le> message_seq (bg_db s)" "list_all (\<lambda>m. \<exists>r \<in> set (messages (bg_db s)). m = row_to_msg r) ms"
    "c \<notin> set cs" "list_all plain_name (c # cs @ bg_chans s)"
    "insert_message now m (bg_db s) = (Inr i, d')" "0 < i" "msg_recipient m = bc_recipient (bg_bc s)"
    "length (filter (\<lambda>r. mr_recipient r = bc_recipient (bg_bc s) \<and> bc_seen (bg_bc s) < mr_id r) (messages d')) \<le> 100"
    "\<not> published c i (bg_db s)"
  shows "\<not> published c i (bg_db (bridge_run fl es (bridge_step fl Polls (bridge_step fl (Lands now m) s))))"
proof -
  let ?s = "bridge_step fl Polls (bridge_step fl (Lands now m) s)"
  have i: "i = message_seq (bg_db s) + 1"
    using insert_message_id [OF assms(4), of now m i] assms(9,10) by simp
  have "message_row_of now i m \<in> set (messages d')"
    using insert_message_row [of now m "bg_db s" i] assms(9,10) by simp
  then have "i \<le> bc_seen (bc_poll d' (bg_bc s))"
    using poll_sees [of "message_row_of now i m" d' "bg_bc s"] assms(3,5,11,12) i by (simp add: message_row_of_def)
  moreover have "\<not> in_queue i (bc_poll d' (bg_bc s))"
  proof -
    have "bc_subs (fold bc_announce xs b) = [] " if "bc_subs b = []" for xs b
      using that by (induction xs arbitrary: b) (simp_all add: bc_announce_def bc_put_def split: option.split)
    then show ?thesis using assms(2) by (simp add: in_queue_def bc_poll_def)
  qed
  moreover have "\<not> phase_owes (bg_phase s) c i"
  proof -
    have "mr_id r \<noteq> i" if "r \<in> set (messages (bg_db s))" for r
      using assms(4) that by (auto simp: i db_ok_defs key_defs list_all_iff)
    then show ?thesis using assms(1,6,7) by (auto simp: phase_owes_def list_all_iff)
  qed
  moreover have "published c i d' = published c i (bg_db s)" using insert_published [of c i now m "bg_db s"] assms(9) by simp
  ultimately have "passed_over c i ?s"
    using assms(1,8,9,13) by (simp add: passed_over_def phase_channels_def)
  from run_passed [OF this] show ?thesis by (simp add: passed_over_def)
qed

section \<open>A sample\<close>

definition owner_mail :: "string \<Rightarrow> mail_message" where
  "owner_mail e = new_message ''owner'' e ''worker/a'' UNormal ''news''"

definition mailed_db :: db where
  "mailed_db = sample_db\<lparr>messages := [message_row_of 0 1 (owner_mail ''m1'')], message_seq := 1\<rparr>"

definition sweeping_start :: bridge where
  "sweeping_start =
     bridge_step (\<lambda>t. 0) (Acts 1) (start_bridge [''lark''] mailed_db ((new_broadcaster ''owner'')\<lparr>bc_seen := 1\<rparr>))"

lemma owner_mail_fields [simp]:
  "msg_recipient (owner_mail e) = ''owner''" "msg_external (owner_mail e) = e" "msg_id (owner_mail e) = None"
  "msg_task (owner_mail e) = None" "msg_parent (owner_mail e) = None"
  by (simp_all add: owner_mail_def new_message_def)

lemma message_row_fields [simp]:
  "mr_id (message_row_of now i m) = i" "mr_recipient (message_row_of now i m) = msg_recipient m"
  "mr_external (message_row_of now i m) = msg_external m" "mr_task (message_row_of now i m) = msg_task m"
  "mr_parent (message_row_of now i m) = msg_parent m"
  by (simp_all add: message_row_of_def)

lemma sample_lacks [simp]:
  "messages sample_db = []" "outbox sample_db = []" "message_seq sample_db = 0" "outbox_seq sample_db = 0"
  "mailboxes sample_db = [\<lparr>mb_recipient = ''owner'', mb_meta = None\<rparr>]"
  by (simp_all add: sample_db_def empty_db_def)

lemma insert_first: "insert_message 0 (owner_mail ''m1'') sample_db = (Inr 1, mailed_db)"
  by (simp add: insert_message_def mailed_db_def ensure_mailbox_def mailbox_ids_def has_message_def Let_def)

lemma mailed_db_ok [simp]: "db_ok mailed_db"
  using keepsD [OF keeps_insert_message, of sample_db 0 "owner_mail ''m1''"] by (simp add: insert_first)

lemma mailed_fields [simp]:
  "messages mailed_db = [message_row_of 0 1 (owner_mail ''m1'')]" "outbox mailed_db = []" "message_seq mailed_db = 1"
  "mailboxes mailed_db = mailboxes sample_db"
  by (simp_all add: mailed_db_def)

lemma sweeping_start_eq:
  "sweeping_start = (start_bridge [''lark''] mailed_db ((new_broadcaster ''owner'')\<lparr>bc_seen := 1\<rparr>))
     \<lparr>bg_phase := Sending ''lark'' (map row_to_msg (messages mailed_db)) []\<rparr>"
  by (simp add: sweeping_start_def start_bridge_def enqueuer_acts_def list_pending_channel_publish_def
      new_broadcaster_def sql_limit_def order_by_def)

lemma insert_second:
  "insert_message 2 (owner_mail ''m2'') mailed_db
     = (Inr 2, mailed_db\<lparr>messages := messages mailed_db @ [message_row_of 2 2 (owner_mail ''m2'')], message_seq := 2\<rparr>)"
  by (simp add: insert_message_def ensure_mailbox_def mailbox_ids_def has_message_def Let_def)

lemma sweeping_fields:
  "bg_phase sweeping_start = Sending ''lark'' (map row_to_msg (messages mailed_db)) []"
  "bg_db sweeping_start = mailed_db" "bg_chans sweeping_start = [''lark'']"
  "bg_bc sweeping_start = (new_broadcaster ''owner'')\<lparr>bc_seen := 1\<rparr>"
  by (simp_all add: sweeping_start_eq start_bridge_def)

lemma second_lands:
  "insert_message 2 (owner_mail ''m2'') (bg_db sweeping_start)
     = (Inr 2, mailed_db\<lparr>messages := messages mailed_db @ [message_row_of 2 2 (owner_mail ''m2'')], message_seq := 2\<rparr>)"
  by (simp add: sweeping_fields insert_second)

text \<open>The second mail, after the rest of the sweep, the subscription and two more polls.\<close>

lemma gap_mail_lost_witness:
  "\<not> published ''lark'' 2 (bg_db (bridge_run (\<lambda>t. 0) [Acts 3, Polls, Acts 4, Polls, Acts 5]
     (bridge_step (\<lambda>t. 0) Polls (bridge_step (\<lambda>t. 0) (Lands 2 (owner_mail ''m2'')) sweeping_start))))"
  by (rule gap_mail_lost [OF sweeping_fields(1) _ _ _ _ _ _ _ second_lands])
    (simp_all add: sweeping_fields new_broadcaster_def plain_name_def published_def has_outbox_def)

end
