(* ===== verification/Owner_Flow.thy ===== *)
theory Owner_Flow
  imports Owner_Channel
begin

text \<open>
  What the two tasks of \<open>Owner_Channel\<close> achieve together. A run in which nothing new is
  announced during the sweep and the queue never overflows loses no owner mail; the gap
  between the sweep and the subscription loses one; and a retention run makes the next sweep
  send delivered mail again.
\<close>

section \<open>Rows that are only added\<close>

definition adds_fresh :: "db \<Rightarrow> db \<Rightarrow> bool" where
  "adds_fresh d d' \<longleftrightarrow>
     messages d' = messages d
     \<and> (\<exists>new. outbox d' = outbox d @ new \<and> list_all (\<lambda>x. xr_dispatched x = None) new)"

lemma adds_fresh_refl [simp]: "adds_fresh d d"
  by (simp add: adds_fresh_def)

lemma adds_fresh_trans: "adds_fresh d d1 \<Longrightarrow> adds_fresh d1 d2 \<Longrightarrow> adds_fresh d d2"
  by (auto simp: adds_fresh_def list_all_iff)

lemma adds_fresh_published: "adds_fresh d d' \<Longrightarrow> published c i d \<Longrightarrow> published c i d'"
  by (auto simp: adds_fresh_def published_def has_outbox_def exists_row_def)

lemma adds_fresh_row:
  assumes "adds_fresh d d'" "\<not> published c i d" "published c i d'"
  shows "\<exists>x \<in> set (outbox d'). xr_kind x = KChannelPublish
     \<and> xr_external x = channel_mail_key c i \<and> xr_dispatched x = None"
  using assms by (auto simp: adds_fresh_def published_def has_outbox_def exists_row_def list_ex_iff list_all_iff)

lemma adds_fresh_enqueue: "adds_fresh d (snd (enqueue_mail now fl c m d))"
  by (auto simp: adds_fresh_def enqueue_mail_def enqueue_cons enqueue_one_def Let_def outbox_rec_of_def
      split: option.split)

lemma keeps_enqueue_mail [keeps_intros]: "keeps (adds_fresh d0) (enqueue_mail now fl c m)"
  by (rule keepsI) (rule adds_fresh_trans [OF _ adds_fresh_enqueue])

lemma keeps_for_each_mail: "keeps (adds_fresh d0) (for_each (enqueue_mail now fl c) ms)"
  by (induction ms) (auto intro: keeps_intros)

lemma keeps_catch_up: "keeps (adds_fresh d0) (catch_up now fl q cs)"
proof (induction cs)
  case (Cons c cs)
  then show ?case
    by (simp only: catch_up.simps) (intro keeps_bnd keeps_seqn keeps_query keeps_ret keeps_for_each_mail)
qed (simp add: keeps_ret)

lemma enqueue_mail_publishes:
  assumes "enqueue_mail now fl c m d = (Inr u, d')" "msg_id m = Some i"
  shows "published c i d'"
  using assms by (cases rule: enqueue_mail_cases [of m now fl c d]) auto

lemma for_each_publishes:
  assumes "for_each (enqueue_mail now fl c) ms d = (Inr u, d')" "m \<in> set ms" "msg_id m = Some i"
  shows "published c i d'"
  using assms
proof (induction ms arbitrary: d)
  case (Cons x xs)
  then obtain d1 where d1: "enqueue_mail now fl c x d = (Inr (), d1)"
      and rest: "for_each (enqueue_mail now fl c) xs d1 = (Inr u, d')"
    by (auto simp: seqn_def bnd_def split: prod.splits sum.splits)
  show ?case
  proof (cases "m = x")
    case True
    then have "published c i d1" using enqueue_mail_publishes [OF d1] Cons.prems(3) by simp
    moreover have "adds_fresh d1 d'"
      using keepsD [OF keeps_for_each_mail, of d1 d1 now fl c xs] rest by simp
    ultimately show ?thesis by (rule adds_fresh_published [rotated])
  next
    case False
    with Cons.prems Cons.IH [OF rest] show ?thesis by simp
  qed
qed simp

lemma pending_all:
  assumes "r \<in> set (messages d)" "mr_recipient r = q"
    "length (filter (\<lambda>r. mr_recipient r = q \<and> \<not> published c (mr_id r) d) (messages d)) \<le> 500"
  shows "published c (mr_id r) d \<or> row_to_msg r \<in> set (list_pending_channel_publish q c 500 d)"
  using assms by (auto simp: list_pending_channel_publish_def sql_limit_def order_by_def published_def has_outbox_def)

lemma catch_up_first:
  assumes run: "catch_up now fl q (c # cs) d = (Inr n, d')"
    and r: "r \<in> set (messages d)" "mr_recipient r = q"
    and few: "length (filter (\<lambda>r. mr_recipient r = q \<and> \<not> published c (mr_id r) d) (messages d)) \<le> 500"
  shows "published c (mr_id r) d'"
proof (cases "published c (mr_id r) d")
  case True
  have "adds_fresh d d'" using keepsD [OF keeps_catch_up, of d d now fl q "c # cs"] run by (simp only: snd_conv) simp
  with True show ?thesis by (simp add: adds_fresh_published)
next
  case False
  let ?ms = "list_pending_channel_publish q c 500 d"
  from run obtain d1 n1 where d1: "for_each (enqueue_mail now fl c) ?ms d = (Inr (), d1)"
      and rest: "catch_up now fl q cs d1 = (Inr n1, d')"
    by (auto simp: bnd_query seqn_def bnd_def query_def ret_def split: prod.splits sum.splits)
  have "published c (mr_id r) d1"
    using pending_all [OF r few] False by (intro for_each_publishes [OF d1, of "row_to_msg r"]) auto
  moreover have "adds_fresh d1 d'" using keepsD [OF keeps_catch_up, of d1 d1 now fl q cs] rest by simp
  ultimately show ?thesis by (rule adds_fresh_published [rotated])
qed

section \<open>Retention and the sweep\<close>

lemma maintenance_outbox:
  assumes "run_maintenance now days keep d = (Inr cts, d')" "0 < days"
  shows "outbox d' = delete_where (prunable_outbox (age_cutoff now days)) (outbox d)"
  using assms by (auto simp: run_maintenance_def Let_def bnd_def step_def ret_def prune_outbox_def prune_wakeups_def
      prune_scheduled_def prune_groups_def prune_members_def split: if_splits prod.splits sum.splits)

text \<open>A retention run makes delivered mail go out again. The run deletes the delivered outbox rows
  older than the window and keeps every mail, and the sweep of the next start takes a mail without a
  row for a mail that was never sent: it writes a fresh, undelivered row for it.\<close>

theorem retention_resends:
  assumes "db_ok d" "0 < days"
    and "r \<in> set (messages d)" "mr_recipient r = q"
    and "x \<in> set (outbox d)" "xr_kind x = KChannelPublish" "xr_external x = channel_mail_key c (mr_id r)"
    and "xr_dispatched x = Some t" "t < age_cutoff now days"
    and "run_maintenance now days keep d = (Inr cts, d1)"
    and "length (messages d) \<le> 500" "catch_up later fl q (c # cs) d1 = (Inr n, d2)"
  shows "\<exists>y \<in> set (outbox d2). xr_kind y = KChannelPublish
     \<and> xr_external y = channel_mail_key c (mr_id r) \<and> xr_dispatched y = None"
proof -
  have ms: "messages d1 = messages d"
    using keepsD [OF run_maintenance_keeps, of d d now days keep] assms(10) by (simp add: same_kept_tables_def)
  have dis: "distinct (map (\<lambda>r. (xr_kind r, xr_external r)) (outbox d))" using assms(1) by (simp add: db_ok_defs)
  have "y = x" if "y \<in> set (outbox d)" "xr_kind y = xr_kind x" "xr_external y = xr_external x" for y
    using dis that assms(5) by (auto simp: distinct_map inj_on_def)
  moreover have "prunable_outbox (age_cutoff now days) x" using assms(8,9) by (simp add: prunable_outbox_def before_def)
  ultimately have "\<not> published c (mr_id r) d1"
    using assms(6,7) maintenance_outbox [OF assms(10,2)]
    by (auto simp: published_def has_outbox_def exists_row_def list_ex_iff delete_where_def)
  moreover have "published c (mr_id r) d2"
  proof (rule catch_up_first [OF assms(12)])
    show "length (filter (\<lambda>r. mr_recipient r = q \<and> \<not> published c (mr_id r) d1) (messages d1)) \<le> 500"
      using assms(11) by (simp add: ms order_trans [OF length_filter_le])
  qed (simp_all add: ms assms(3,4))
  moreover have "adds_fresh d1 d2"
    using keepsD [OF keeps_catch_up, of d1 d1 later fl q "c # cs"] assms(12) by (simp only: snd_conv) simp
  ultimately show ?thesis by (intro adds_fresh_row)
qed

section \<open>Calm runs\<close>

text \<open>The number of mails the sweep of a channel has to write.\<close>

definition sweep_backlog :: "string \<Rightarrow> string \<Rightarrow> db \<Rightarrow> nat" where
  "sweep_backlog q c d = length (filter (\<lambda>r. mr_recipient r = q \<and> \<not> published c (mr_id r) d) (messages d))"

definition sweeping :: "place \<Rightarrow> bool" where
  "sweeping p \<longleftrightarrow> (case p of Querying c cs \<Rightarrow> True | Sending c ms cs \<Rightarrow> True | _ \<Rightarrow> False)"

text \<open>Nothing is announced during the sweep, the queue has room for what is announced after it, no
  channel is more than one query behind, nobody asks to stop.\<close>

definition calm :: "bridge_event \<Rightarrow> bridge \<Rightarrow> bool" where
  "calm e s = (case e of
     Polls \<Rightarrow>
       (let new = read_messages (bc_recipient (bg_bc s)) (bc_seen (bg_bc s)) 100 (bg_db s) in
        if sweeping (bg_phase s) then new = []
        else length (my_queue (bg_bc s)) + length new \<le> bc_max (bg_bc s))
   | Acts now \<Rightarrow> (case bg_phase s of Querying c cs \<Rightarrow> sweep_backlog (bc_recipient (bg_bc s)) c (bg_db s) \<le> 500 | _ \<Rightarrow> True)
   | Lands now m \<Rightarrow> True
   | AsksStop \<Rightarrow> False)"

fun calm_run :: "(string \<Rightarrow> rat) \<Rightarrow> bridge_event list \<Rightarrow> bridge \<Rightarrow> bool" where
  "calm_run fl [] s = True"
| "calm_run fl (e # es) s = (calm e s \<and> calm_run fl es (bridge_step fl e s))"

text \<open>Written, still to be announced, in the queue, or in the hands of the enqueuer.\<close>

definition on_the_way :: "string \<Rightarrow> message_row \<Rightarrow> bridge \<Rightarrow> bool" where
  "on_the_way c r s \<longleftrightarrow>
     published c (mr_id r) (bg_db s) \<or> bc_seen (bg_bc s) < mr_id r
     \<or> Some (row_to_msg r) \<in> set (my_queue (bg_bc s)) \<or> phase_owes (bg_phase s) c (mr_id r)"

definition stored :: "db \<Rightarrow> mail_message \<Rightarrow> bool" where
  "stored d m \<longleftrightarrow> (\<exists>r \<in> set (messages d). m = row_to_msg r)"

definition phase_stored :: "db \<Rightarrow> place \<Rightarrow> bool" where
  "phase_stored d p \<longleftrightarrow> (case p of
     Sending c ms cs \<Rightarrow> list_all (stored d) ms | Fanning m cs \<Rightarrow> stored d m
   | Ended \<Rightarrow> False | Crashed e \<Rightarrow> False | _ \<Rightarrow> True)"

definition bridge_ok :: "bridge \<Rightarrow> bool" where
  "bridge_ok s \<longleftrightarrow>
     db_ok (bg_db s) \<and> bc_seen (bg_bc s) \<le> message_seq (bg_db s) \<and> \<not> bc_stopped (bg_bc s) \<and> \<not> bg_stop s
     \<and> phase_stored (bg_db s) (bg_phase s)
     \<and> (if sweeping (bg_phase s) then bc_subs (bg_bc s) = []
        else \<exists>ms. bc_subs (bg_bc s) = [(0, map Some ms)] \<and> list_all (stored (bg_db s)) ms)
     \<and> (\<forall>c \<in> set (bg_chans s). \<forall>r \<in> set (messages (bg_db s)).
          mr_recipient r = bc_recipient (bg_bc s) \<longrightarrow> on_the_way c r s)"


section \<open>The invariant of a calm run\<close>

lemma insert_message_shape:
  "messages (snd (insert_message now m d)) = messages d
   \<or> messages (snd (insert_message now m d)) = messages d @ [message_row_of now (message_seq d + 1) m]"
  "message_seq d \<le> message_seq (snd (insert_message now m d))"
  by (simp_all add: insert_message_def ensure_mailbox_def Let_def)

lemma stored_mono: "stored d m \<Longrightarrow> set (messages d) \<subseteq> set (messages d') \<Longrightarrow> stored d' m"
  by (auto simp: stored_def)

lemma phase_stored_mono: "phase_stored d p \<Longrightarrow> set (messages d) \<subseteq> set (messages d') \<Longrightarrow> phase_stored d' p"
  by (auto simp: phase_stored_def list_all_iff dest: stored_mono split: place.splits)

lemma lands_ok: "bridge_ok s \<Longrightarrow> bridge_ok (bridge_step fl (Lands now m) s)"
proof -
  assume ok: "bridge_ok s"
  let ?d = "bg_db s" and ?d' = "snd (insert_message now m (bg_db s))"
  have sub: "set (messages ?d) \<subseteq> set (messages ?d')" using insert_message_shape(1) [of now m ?d] by auto
  have db: "db_ok ?d'" using keepsD [OF keeps_insert_message, of ?d now m] ok by (simp add: bridge_ok_def)
  have ps: "phase_stored ?d' (bg_phase s)" using phase_stored_mono [OF _ sub] ok by (simp add: bridge_ok_def)
  have st: "list_all (stored ?d) ms \<Longrightarrow> list_all (stored ?d') ms" for ms
    using stored_mono [OF _ sub] by (auto simp: list_all_iff)
  have way: "on_the_way c r (s\<lparr>bg_db := ?d'\<rparr>)"
    if "c \<in> set (bg_chans s)" "r \<in> set (messages ?d')" "mr_recipient r = bc_recipient (bg_bc s)" for c r
  proof (cases "r \<in> set (messages ?d)")
    case True
    with ok that show ?thesis by (auto simp: bridge_ok_def on_the_way_def)
  next
    case False
    with that(2) insert_message_shape(1) [of now m ?d] have "mr_id r = message_seq ?d + 1" by auto
    with ok show ?thesis by (auto simp: bridge_ok_def on_the_way_def)
  qed
  have le: "bc_seen (bg_bc s) \<le> message_seq ?d'"
    using ok insert_message_shape(2) [of ?d now m] by (simp add: bridge_ok_def)
  show ?thesis using ok db ps st way le by (auto simp: bridge_ok_def)
qed

lemma announce_all_fields [simp]:
  "bc_recipient (fold bc_announce ms b) = bc_recipient b" "bc_stopped (fold bc_announce ms b) = bc_stopped b"
  "bc_max (fold bc_announce ms b) = bc_max b"
  by (induction ms arbitrary: b) (simp_all add: bc_announce_def bc_put_def split: option.split)

lemma announce_all_queue:
  "bc_subs b = [(0, q)] \<Longrightarrow> length q + length ms \<le> bc_max b \<Longrightarrow>
     bc_subs (fold bc_announce ms b) = [(0, q @ map Some ms)]"
proof (induction ms arbitrary: b q)
  case (Cons m ms)
  have "bc_subs (bc_announce m b) = [(0, q @ [Some m])]"
    using Cons.prems by (simp add: bc_announce_def bc_put_def put_dropping_def queue_full_def split: option.split)
  moreover have "bc_max (bc_announce m b) = bc_max b" using announce_all_fields(3) [of "[m]" b] by simp
  ultimately show ?case using Cons.IH [of "bc_announce m b" "q @ [Some m]"] Cons.prems by simp
qed simp

lemma announce_all_seen:
  "bc_seen (fold bc_announce ms b) = bc_seen b \<or> (\<exists>m \<in> set ms. msg_id m = Some (bc_seen (fold bc_announce ms b)))"
proof (induction ms arbitrary: b)
  case (Cons m ms)
  have "bc_seen (bc_announce m b) = bc_seen b \<or> msg_id m = Some (bc_seen (bc_announce m b))"
    by (auto simp: bc_announce_def bc_put_def split: option.split)
  with Cons.IH [of "bc_announce m b"] show ?case by auto
qed simp

lemma take_sorted_rest:
  fixes f :: "'a \<Rightarrow> int"
  assumes "sorted (map f xs)" "inj_on f (set xs)" "r \<in> set xs" "y \<in> set (take n xs)" "r \<notin> set (take n xs)"
  shows "f y < f r"
proof -
  have "r \<in> set (drop n xs)" using assms(3,5) by (metis Un_iff append_take_drop_id set_append)
  moreover have "sorted (map f (take n xs) @ map f (drop n xs))" using assms(1) by (metis append_take_drop_id map_append)
  ultimately have "f y \<le> f r" using assms(4) by (auto simp: sorted_append)
  moreover have "y \<in> set xs" using assms(4) by (rule in_set_takeD)
  then have "f y \<noteq> f r" using assms(2-5) by (auto dest: inj_onD)
  ultimately show ?thesis by simp
qed

lemma read_first:
  assumes "db_ok d" "r \<in> set (messages d)" "mr_recipient r = q" "since < mr_id r"
    and "row_to_msg r \<notin> set (read_messages q since 100 d)" "m \<in> set (read_messages q since 100 d)" "msg_id m = Some i"
  shows "i < mr_id r"
proof -
  let ?xs = "order_by mr_id (filter (\<lambda>r. mr_recipient r = q \<and> since < mr_id r) (messages d))"
  have ms: "read_messages q since 100 d = map row_to_msg (take 100 ?xs)" by (simp add: read_messages_def sql_limit_def)
  from assms(6,7) obtain y where y: "y \<in> set (take 100 ?xs)" "mr_id y = i" by (auto simp: ms)
  have "inj_on mr_id (set (messages d))"
    using assms(1) by (auto simp: db_ok_defs key_defs strict_sorted_iff distinct_map)
  then have "inj_on mr_id (set ?xs)" by (auto intro: inj_on_subset)
  from take_sorted_rest [OF sorted_order_by this _ y(1), of r] assms y(2) show ?thesis by (auto simp: ms)
qed

lemma polls_ok: "bridge_ok s \<Longrightarrow> calm Polls s \<Longrightarrow> bridge_ok (bridge_step fl Polls s)"
proof -
  assume ok: "bridge_ok s" and cm: "calm Polls s"
  let ?b = "bg_bc s" and ?d = "bg_db s"
  let ?new = "read_messages (bc_recipient ?b) (bc_seen ?b) 100 ?d"
  have run: "bc_poll ?d ?b = fold bc_announce ?new ?b" using ok by (simp add: bc_poll_def bridge_ok_def)
  show ?thesis
  proof (cases "sweeping (bg_phase s)")
    case True
    with cm have "?new = []" by (simp add: calm_def Let_def)
    with ok run show ?thesis by simp
  next
    case False
    with ok obtain ms where ms: "bc_subs ?b = [(0, map Some ms)]" "list_all (stored ?d) ms" by (auto simp: bridge_ok_def)
    have q: "my_queue ?b = map Some ms" by (simp add: my_queue_def ms(1))
    have room: "length (map Some ms) + length ?new \<le> bc_max ?b" using cm False q by (simp add: calm_def Let_def)
    have subs: "bc_subs (fold bc_announce ?new ?b) = [(0, map Some (ms @ ?new))]"
      using announce_all_queue [OF ms(1) room] by simp
    have q': "my_queue (fold bc_announce ?new ?b) = map Some (ms @ ?new)" by (simp add: my_queue_def subs)
    have st: "list_all (stored ?d) (ms @ ?new)" using ms(2) by (auto simp: list_all_iff stored_def dest: read_ids)
    have seen: "bc_seen (fold bc_announce ?new ?b) \<le> message_seq ?d"
    proof -
      have "mr_id r \<le> message_seq ?d" if "r \<in> set (messages ?d)" for r
        using ok that by (auto simp: bridge_ok_def db_ok_defs key_defs list_all_iff)
      moreover have "bc_seen ?b \<le> message_seq ?d" using ok by (simp add: bridge_ok_def)
      ultimately show ?thesis
        using announce_all_seen [of ?new ?b] by (metis msg_id_row(1) option.inject read_ids)
    qed
    have way: "on_the_way c r (s\<lparr>bg_bc := fold bc_announce ?new ?b\<rparr>)"
      if r: "c \<in> set (bg_chans s)" "r \<in> set (messages ?d)" "mr_recipient r = bc_recipient ?b" for c r
    proof (cases "bc_seen ?b < mr_id r \<and> row_to_msg r \<notin> set ?new")
      case True
      have "db_ok ?d" using ok by (simp add: bridge_ok_def)
      from read_first [OF this r(2,3)] True announce_all_seen [of ?new ?b]
      have "bc_seen (fold bc_announce ?new ?b) < mr_id r" by auto
      then show ?thesis by (simp add: on_the_way_def)
    next
      case False
      moreover have "on_the_way c r s" using ok r by (simp add: bridge_ok_def)
      ultimately show ?thesis by (auto simp: on_the_way_def q q')
    qed
    have ex: "\<exists>ms. bc_subs (fold bc_announce ?new ?b) = [(0, map Some ms)] \<and> list_all (stored ?d) ms"
      using subs st by blast
    show ?thesis using ok False ex seen way by (simp add: bridge_ok_def run)
  qed
qed

lemma enqueue_stored:
  assumes ok: "db_ok d" and m: "stored d m"
  obtains d' where "enqueue_mail now fl c m d = (Inr (), d')" "db_ok d'" "messages d' = messages d"
    "message_seq d' = message_seq d" "\<And>i. msg_id m = Some i \<Longrightarrow> published c i d'"
    "\<And>c' j. published c' j d \<Longrightarrow> published c' j d'"
proof -
  from m obtain r where r: "r \<in> set (messages d)" "m = row_to_msg r" by (auto simp: stored_def)
  then have "fk (msg_task m) (task_ids d)" using ok by (auto simp: db_ok_defs list_all_iff)
  then have "fst (enqueue_mail now fl c m d) = Inr ()" by (cases rule: enqueue_mail_cases [of m now fl c d]) auto
  then obtain d' where d': "enqueue_mail now fl c m d = (Inr (), d')" by (metis prod.collapse)
  show thesis
    by (rule that [OF d'])
      (use enqueue_mail_frame [of now fl c m d] enqueue_mail_ok [OF ok, of now fl c m] d'
        enqueue_mail_publishes [OF d'] enqueue_mail_keeps [of _ _ d now fl c m] in auto)
qed

text \<open>What changes when the enqueuer acts: the rows, its queue, its place.\<close>

lemma bridge_ok_next:
  assumes ok: "bridge_ok s"
    and db: "db_ok (bg_db t)" "messages (bg_db t) = messages (bg_db s)" "message_seq (bg_db t) = message_seq (bg_db s)"
    and b: "bc_seen (bg_bc t) = bc_seen (bg_bc s)" "bc_recipient (bg_bc t) = bc_recipient (bg_bc s)"
      "bc_stopped (bg_bc t) = bc_stopped (bg_bc s)" "bg_chans t = bg_chans s" "bg_stop t = bg_stop s"
    and ps: "phase_stored (bg_db s) (bg_phase t)"
    and subs: "if sweeping (bg_phase t) then bc_subs (bg_bc t) = []
        else \<exists>ms. bc_subs (bg_bc t) = [(0, map Some ms)] \<and> list_all (stored (bg_db s)) ms"
    and way: "\<And>c r. c \<in> set (bg_chans s) \<Longrightarrow> r \<in> set (messages (bg_db s)) \<Longrightarrow> mr_recipient r = bc_recipient (bg_bc s) \<Longrightarrow>
        on_the_way c r s \<Longrightarrow> on_the_way c r t"
  shows "bridge_ok t"
proof -
  have st: "stored (bg_db t) = stored (bg_db s)" by (rule ext) (simp add: stored_def db(2))
  have "phase_stored (bg_db t) (bg_phase t)" using ps by (rule phase_stored_mono) (simp add: db(2))
  then show ?thesis using ok db b subs way by (simp add: bridge_ok_def st)
qed

lemma swept_ok:
  assumes ok: "bridge_ok s" and sw: "sweeping (bg_phase s)"
    and rest: "\<And>c i. phase_owes (bg_phase s) c i \<Longrightarrow> c \<in> set cs \<or> published c i (bg_db s)"
  shows "bridge_ok (swept cs s)"
proof (rule bridge_ok_next [OF ok])
  show "db_ok (bg_db (swept cs s))" using ok by (simp add: bridge_ok_def)
  show "if sweeping (bg_phase (swept cs s)) then bc_subs (bg_bc (swept cs s)) = []
      else \<exists>ms. bc_subs (bg_bc (swept cs s)) = [(0, map Some ms)] \<and> list_all (stored (bg_db s)) ms"
    using ok sw by (cases cs) (simp_all add: bridge_ok_def swept_def sweeping_def bc_subscribe_def)
  show "on_the_way c r (swept cs s)" if "on_the_way c r s" for c r
  proof -
    have "my_queue (bg_bc s) = []" using ok sw by (simp add: bridge_ok_def my_queue_def)
    with that rest [of c "mr_id r"] show ?thesis
      by (cases cs) (auto simp: on_the_way_def phase_owes_def)
  qed
qed (simp_all add: swept_def bc_subscribe_def phase_stored_def split: list.split)

lemma put_row_ok:
  assumes ok: "bridge_ok s" and m: "stored (bg_db s) m"
    and k: "\<And>d'. db_ok d' \<Longrightarrow> messages d' = messages (bg_db s) \<Longrightarrow> message_seq d' = message_seq (bg_db s) \<Longrightarrow>
        (\<And>i. msg_id m = Some i \<Longrightarrow> published c i d') \<Longrightarrow> (\<And>c' j. published c' j (bg_db s) \<Longrightarrow> published c' j d') \<Longrightarrow>
        bridge_ok (continue (s\<lparr>bg_db := d'\<rparr>))"
  shows "bridge_ok (put_row now fl c m continue s)"
proof -
  have "db_ok (bg_db s)" using ok by (simp add: bridge_ok_def)
  from enqueue_stored [OF this m, of now fl c] obtain d' where
    "enqueue_mail now fl c m (bg_db s) = (Inr (), d')" "db_ok d'" "messages d' = messages (bg_db s)"
    "message_seq d' = message_seq (bg_db s)" "\<And>i. msg_id m = Some i \<Longrightarrow> published c i d'"
    "\<And>c' j. published c' j (bg_db s) \<Longrightarrow> published c' j d'" by blast
  with k [of d'] show ?thesis by (simp add: put_row_def)
qed

lemma db_next_ok:
  assumes ok: "bridge_ok s" and d': "db_ok d'" "messages d' = messages (bg_db s)" "message_seq d' = message_seq (bg_db s)"
    "\<And>c' j. published c' j (bg_db s) \<Longrightarrow> published c' j d'"
  shows "bridge_ok (s\<lparr>bg_db := d'\<rparr>)"
proof (rule bridge_ok_next [OF ok])
  show "on_the_way c r (s\<lparr>bg_db := d'\<rparr>)" if "on_the_way c r s" for c r
    using that d'(4) by (auto simp: on_the_way_def)
qed (use ok d' in \<open>simp_all add: bridge_ok_def\<close>)

lemma querying_ok:
  assumes ok: "bridge_ok s" and p: "bg_phase s = Querying c cs" and few: "sweep_backlog (bc_recipient (bg_bc s)) c (bg_db s) \<le> 500"
  shows "bridge_ok (enqueuer_acts now fl s)"
proof -
  let ?ms = "list_pending_channel_publish (bc_recipient (bg_bc s)) c 500 (bg_db s)"
  let ?t = "s\<lparr>bg_phase := Sending c ?ms cs\<rparr>"
  have t: "bridge_ok ?t"
  proof (rule bridge_ok_next [OF ok])
    show "phase_stored (bg_db s) (bg_phase ?t)"
      by (auto simp: phase_stored_def list_all_iff stored_def dest: pending_ids)
    show "on_the_way c' r ?t" if r: "r \<in> set (messages (bg_db s))" "mr_recipient r = bc_recipient (bg_bc s)" "on_the_way c' r s" for c' r
    proof (cases "c' = c")
      case True
      have "published c (mr_id r) (bg_db s) \<or> row_to_msg r \<in> set ?ms"
        using pending_all [OF r(1,2)] few by (simp add: sweep_backlog_def)
      then have "published c (mr_id r) (bg_db s) \<or> phase_owes (Sending c ?ms cs) c (mr_id r)"
        by (auto simp: phase_owes_def intro!: bexI [of _ "row_to_msg r"])
      with True show ?thesis by (auto simp: on_the_way_def)
    next
      case False
      with r(3) p show ?thesis by (auto simp: on_the_way_def phase_owes_def)
    qed
  qed (use ok p in \<open>simp_all add: bridge_ok_def sweeping_def\<close>)
  show ?thesis
  proof (cases ?ms)
    case Nil
    have "bridge_ok (swept cs ?t)"
      by (rule swept_ok [OF t]) (simp_all add: sweeping_def phase_owes_def Nil)
    moreover have "swept cs ?t = swept cs s" by (simp add: swept_def split: list.split)
    ultimately show ?thesis by (simp add: enqueuer_acts_def p Nil)
  next
    case (Cons m ms)
    with t show ?thesis by (simp add: enqueuer_acts_def p)
  qed
qed

lemma sending_ok:
  assumes ok: "bridge_ok s" and p: "bg_phase s = Sending c ms cs"
  shows "bridge_ok (enqueuer_acts now fl s)"
proof (cases ms)
  case Nil
  have "bridge_ok (swept cs s)" by (rule swept_ok [OF ok]) (simp_all add: p Nil sweeping_def phase_owes_def)
  then show ?thesis by (simp add: enqueuer_acts_def p Nil)
next
  case (Cons m ms')
  have m: "stored (bg_db s) m" "list_all (stored (bg_db s)) ms'"
    using ok by (simp_all add: bridge_ok_def p Cons phase_stored_def)
  have "bridge_ok (put_row now fl c m (\<lambda>t. if ms' = [] then swept cs t else t\<lparr>bg_phase := Sending c ms' cs\<rparr>) s)"
  proof (rule put_row_ok [OF ok m(1)])
    fix d'
    assume d': "db_ok d'" "messages d' = messages (bg_db s)" "message_seq d' = message_seq (bg_db s)"
      "\<And>i. msg_id m = Some i \<Longrightarrow> published c i d'" "\<And>c' j. published c' j (bg_db s) \<Longrightarrow> published c' j d'"
    let ?s = "s\<lparr>bg_db := d'\<rparr>" and ?t = "s\<lparr>bg_db := d', bg_phase := Sending c ms' cs\<rparr>"
    have s': "bridge_ok ?s" using db_next_ok [OF ok d'(1-3,5)] .
    have t: "bridge_ok ?t"
    proof (rule bridge_ok_next [OF s'])
      have "stored d' = stored (bg_db s)" by (rule ext) (simp add: stored_def d'(2))
      then show "phase_stored (bg_db ?s) (bg_phase ?t)" using m(2) by (simp add: phase_stored_def)
      show "on_the_way c' r ?t" if "on_the_way c' r ?s" for c' r
        using that d'(4) by (auto simp: on_the_way_def phase_owes_def p Cons)
    qed (use s' p in \<open>simp_all add: bridge_ok_def sweeping_def\<close>)
    have same: "swept cs ?t = swept cs ?s" by (simp add: swept_def split: list.split)
    have "bridge_ok (swept cs ?s)" if "ms' = []"
      unfolding same [symmetric] by (rule swept_ok [OF t]) (simp_all add: sweeping_def phase_owes_def that)
    with t show "bridge_ok (if ms' = [] then swept cs ?s else ?s\<lparr>bg_phase := Sending c ms' cs\<rparr>)" by simp
  qed
  then show ?thesis by (simp only: enqueuer_acts_def p Cons place.case list.case)
qed

lemma fanned_ok:
  assumes ok: "bridge_ok s" and m: "stored (bg_db s) m" and sw: "\<not> sweeping (bg_phase s)"
    and owes: "\<And>c i. phase_owes (bg_phase s) c i \<Longrightarrow> published c i (bg_db s) \<or> msg_id m = Some i \<and> c \<in> set cs"
  shows "bridge_ok (fanned m cs s)"
proof (rule bridge_ok_next [OF ok])
  show "phase_stored (bg_db s) (bg_phase (fanned m cs s))" using m by (simp add: phase_stored_def)
  show "on_the_way c r (fanned m cs s)" if "on_the_way c r s" for c r
    using that owes [of c "mr_id r"] by (auto simp: on_the_way_def phase_owes_def)
qed (use ok sw in \<open>auto simp: bridge_ok_def sweeping_def\<close>)

lemma listening_ok:
  assumes ok: "bridge_ok s" and p: "bg_phase s = Listening"
  shows "bridge_ok (enqueuer_acts now fl s)"
proof -
  from ok p obtain ms where ms: "bc_subs (bg_bc s) = [(0, map Some ms)]" "list_all (stored (bg_db s)) ms"
    by (auto simp: bridge_ok_def sweeping_def)
  have q: "my_queue (bg_bc s) = map Some ms" by (simp add: my_queue_def ms(1))
  have go: "\<not> bg_stop s" using ok by (simp add: bridge_ok_def)
  show ?thesis
  proof (cases ms)
    case Nil
    with ok p q go show ?thesis by (simp add: enqueuer_acts_def)
  next
    case (Cons m ms')
    let ?t = "s\<lparr>bg_bc := take_mail (bg_bc s), bg_phase := Fanning m (bg_chans s)\<rparr>"
    have subs: "bc_subs (take_mail (bg_bc s)) = [(0, map Some ms')]" by (simp add: take_mail_def ms(1) Cons)
    have q': "my_queue (take_mail (bg_bc s)) = map Some ms'" by (simp add: my_queue_def subs)
    have st: "stored (bg_db s) m" "list_all (stored (bg_db s)) ms'" using ms(2) Cons by simp_all
    have t: "bridge_ok ?t"
    proof (rule bridge_ok_next [OF ok])
      show "if sweeping (bg_phase ?t) then bc_subs (bg_bc ?t) = []
          else \<exists>ms. bc_subs (bg_bc ?t) = [(0, map Some ms)] \<and> list_all (stored (bg_db s)) ms"
        using subs st(2) by (auto simp: sweeping_def)
      show "on_the_way c r ?t" if "c \<in> set (bg_chans s)" "on_the_way c r s" for c r
        using that by (auto simp: on_the_way_def phase_owes_def p q Cons q')
    qed (use ok st in \<open>simp_all add: bridge_ok_def phase_stored_def\<close>)
    have "bridge_ok (fanned m (bg_chans s) ?t)"
      by (rule fanned_ok [OF t]) (simp_all add: st sweeping_def phase_owes_def)
    then show ?thesis by (simp add: enqueuer_acts_def p q Cons go fanned_def)
  qed
qed

lemma fanning_ok:
  assumes ok: "bridge_ok s" and p: "bg_phase s = Fanning m cs"
  shows "bridge_ok (enqueuer_acts now fl s)"
proof -
  have m: "stored (bg_db s) m" using ok by (simp add: bridge_ok_def p phase_stored_def)
  show ?thesis
  proof (cases cs)
    case Nil
    have "bridge_ok (fanned m [] s)" by (rule fanned_ok [OF ok m]) (simp_all add: p Nil sweeping_def phase_owes_def)
    then show ?thesis by (simp add: enqueuer_acts_def p Nil)
  next
    case (Cons c cs')
    have "bridge_ok (put_row now fl c m (fanned m cs') s)"
    proof (rule put_row_ok [OF ok m])
      fix d'
      assume d': "db_ok d'" "messages d' = messages (bg_db s)" "message_seq d' = message_seq (bg_db s)"
        "\<And>i. msg_id m = Some i \<Longrightarrow> published c i d'" "\<And>c' j. published c' j (bg_db s) \<Longrightarrow> published c' j d'"
      let ?s = "s\<lparr>bg_db := d'\<rparr>"
      have "bridge_ok ?s" using db_next_ok [OF ok d'(1-3,5)] .
      moreover have "stored (bg_db ?s) m" using m by (simp add: stored_def d'(2))
      ultimately show "bridge_ok (fanned m cs' ?s)"
        using d'(4) by (intro fanned_ok) (auto simp: p Cons sweeping_def phase_owes_def)
    qed
    then show ?thesis by (simp only: enqueuer_acts_def p Cons place.case list.case)
  qed
qed

lemma bridge_step_ok: "bridge_ok s \<Longrightarrow> calm e s \<Longrightarrow> bridge_ok (bridge_step fl e s)"
proof (cases e)
  case (Acts now)
  assume ok: "bridge_ok s" and cm: "calm e s"
  then have "phase_stored (bg_db s) (bg_phase s)" by (simp add: bridge_ok_def)
  with ok cm Acts show ?thesis
    by (cases "bg_phase s")
      (simp_all add: querying_ok sending_ok listening_ok fanning_ok calm_def phase_stored_def)
next
  case (Lands now m)
  assume "bridge_ok s"
  then show ?thesis unfolding Lands by (rule lands_ok)
next
  case Polls
  assume "bridge_ok s" "calm e s"
  then show ?thesis unfolding Polls by (rule polls_ok)
next
  case AsksStop
  assume "calm e s"
  then show ?thesis by (simp add: AsksStop calm_def)
qed

lemma bridge_run_ok: "bridge_ok s \<Longrightarrow> calm_run fl es s \<Longrightarrow> bridge_ok (bridge_run fl es s)"
  by (induction es arbitrary: s) (simp_all add: bridge_run_def bridge_step_ok)

lemma start_ok:
  assumes "db_ok d" "bc_seen b \<le> message_seq d" "\<not> bc_stopped b" "bc_subs b = []" "chans \<noteq> []"
  shows "bridge_ok (start_bridge chans d b)"
  using assms by (cases chans)
    (auto simp: bridge_ok_def start_bridge_def phase_stored_def sweeping_def on_the_way_def phase_owes_def)

lemma step_chans:
  "bg_chans (bridge_step fl e s) = bg_chans s"
  "bc_recipient (bg_bc (bridge_step fl e s)) = bc_recipient (bg_bc s)"
proof -
  have "bg_chans (enqueuer_acts now fl s) = bg_chans s
      \<and> bc_recipient (bg_bc (enqueuer_acts now fl s)) = bc_recipient (bg_bc s)" for now
    by (auto simp: enqueuer_acts_def put_row_def swept_def fanned_def bc_subscribe_def bc_unsubscribe_def take_mail_def
        split: place.split list.split option.split prod.split sum.split)
  then show "bg_chans (bridge_step fl e s) = bg_chans s"
    "bc_recipient (bg_bc (bridge_step fl e s)) = bc_recipient (bg_bc s)"
    by (cases e; simp add: bc_poll_def)+
qed

lemma run_chans:
  "bg_chans (bridge_run fl es s) = bg_chans s" "bc_recipient (bg_bc (bridge_run fl es s)) = bc_recipient (bg_bc s)"
  by (induction es arbitrary: s) (simp_all add: bridge_run_def step_chans)

text \<open>C34: In a calm run no owner mail is lost. Start the two tasks on a consistent database and let them,
  and the rest of the program inserting mail, take any number of steps in any order, such that
  nothing new is announced while the sweep runs and the queue of 200 never overflows. The enqueuer
  does not crash, every owner mail is written, not announced yet, in the queue or in the
  enqueuer's hands for every channel; and when it waits at an empty queue, every owner mail the
  broadcaster has announced, from before the start or after it, has its row in every channel.\<close>

theorem calm_run_publishes:
  assumes "db_ok d" "bc_seen b \<le> message_seq d" "\<not> bc_stopped b" "bc_subs b = []" "chans \<noteq> []"
    "calm_run fl es (start_bridge chans d b)" "s = bridge_run fl es (start_bridge chans d b)"
    "r \<in> set (messages (bg_db s))" "mr_recipient r = bc_recipient b" "c \<in> set chans"
  shows "bg_phase s \<noteq> Ended \<and> (\<forall>e. bg_phase s \<noteq> Crashed e) \<and> on_the_way c r s
     \<and> (bg_phase s = Listening \<and> my_queue (bg_bc s) = [] \<and> mr_id r \<le> bc_seen (bg_bc s)
          \<longrightarrow> published c (mr_id r) (bg_db s))"
proof -
  have ok: "bridge_ok s"
    unfolding assms(7) by (rule bridge_run_ok [OF start_ok [OF assms(1-5)] assms(6)])
  have "bg_chans s = chans" "bc_recipient (bg_bc s) = bc_recipient b"
    by (simp_all add: assms(7) run_chans) (simp_all add: start_bridge_def)
  with ok assms(8-10) have way: "on_the_way c r s" by (simp add: bridge_ok_def)
  moreover have "bg_phase s \<noteq> Ended" "\<forall>e. bg_phase s \<noteq> Crashed e"
    using ok by (auto simp: bridge_ok_def phase_stored_def)
  ultimately show ?thesis by (auto simp: on_the_way_def phase_owes_def)
qed

section \<open>Witnesses\<close>

definition first_steps :: "bridge_event list" where
  "first_steps = [Acts 1, Lands 0 (owner_mail ''m1''), Polls, Acts 3, Acts 4]"

lemma broadcaster_fields [simp]:
  "bc_seen (new_broadcaster q) = 0" "bc_subs (new_broadcaster q) = []" "bc_recipient (new_broadcaster q) = q"
  "bc_max (new_broadcaster q) = 200" "\<not> bc_stopped (new_broadcaster q)"
  "bc_seen (bc_subscribe k b) = bc_seen b" "bc_subs (bc_subscribe k b) = bc_subs b @ [(k, [])]"
  "bc_recipient (bc_subscribe k b) = bc_recipient b" "bc_max (bc_subscribe k b) = bc_max b"
  "bc_stopped (bc_subscribe k b) = bc_stopped b"
  by (simp_all add: new_broadcaster_def bc_subscribe_def)

definition first_mail :: mail_message where
  "first_mail = row_to_msg (message_row_of 0 1 (owner_mail ''m1''))"

definition waiting_at :: "db \<Rightarrow> broadcaster \<Rightarrow> place \<Rightarrow> bridge" where
  "waiting_at d b p = \<lparr>bg_db = d, bg_bc = b, bg_chans = [''lark''], bg_phase = p, bg_stop = False\<rparr>"

definition listener :: "int \<Rightarrow> mail_message list \<Rightarrow> broadcaster" where
  "listener seen ms =
     \<lparr>bc_recipient = ''owner'', bc_max = 200, bc_seen = seen, bc_subs = [(0, map Some ms)], bc_stopped = False\<rparr>"

lemma first_starts:
  "start_bridge [''lark''] sample_db (new_broadcaster ''owner'')
     = waiting_at sample_db (new_broadcaster ''owner'') (Querying ''lark'' [])"
  by (simp add: start_bridge_def waiting_at_def)

lemma first_swept:
  "bridge_step (\<lambda>t. 0) (Acts 1) (waiting_at sample_db (new_broadcaster ''owner'') (Querying ''lark'' []))
     = waiting_at sample_db (listener 0 []) Listening"
  by (simp add: waiting_at_def listener_def new_broadcaster_def enqueuer_acts_def list_pending_channel_publish_def
      sql_limit_def order_by_def swept_def bc_subscribe_def)

lemma first_lands:
  "bridge_step (\<lambda>t. 0) (Lands 0 (owner_mail ''m1'')) (waiting_at sample_db b p) = waiting_at mailed_db b p"
  by (simp add: waiting_at_def insert_first)

lemma first_read: "read_messages ''owner'' 0 100 mailed_db = [first_mail]"
  by (simp add: read_messages_def sql_limit_def order_by_def first_mail_def)

lemma first_polls:
  "bridge_step (\<lambda>t. 0) Polls (waiting_at mailed_db (listener 0 []) Listening)
     = waiting_at mailed_db (listener 1 [first_mail]) Listening"
proof -
  have "msg_id first_mail = Some 1" by (simp add: first_mail_def)
  then show ?thesis
    by (simp add: waiting_at_def listener_def bc_poll_def first_read bc_announce_def bc_put_def put_dropping_def queue_full_def)
qed

lemma first_taken:
  "bridge_step (\<lambda>t. 0) (Acts 3) (waiting_at mailed_db (listener 1 [first_mail]) Listening)
     = waiting_at mailed_db (listener 1 []) (Fanning first_mail [''lark''])"
  by (simp add: waiting_at_def listener_def enqueuer_acts_def my_queue_def take_mail_def fanned_def)

lemma first_written:
  "\<exists>d. bridge_step (\<lambda>t. 0) (Acts 4) (waiting_at mailed_db (listener 1 []) (Fanning first_mail [''lark'']))
     = waiting_at d (listener 1 []) Listening \<and> messages d = messages mailed_db"
proof -
  have "stored mailed_db first_mail" by (simp add: stored_def first_mail_def)
  obtain d' where d': "enqueue_mail 4 (\<lambda>t. 0) ''lark'' first_mail mailed_db = (Inr (), d')"
    "messages d' = messages mailed_db"
    by (rule enqueue_stored [OF mailed_db_ok \<open>stored mailed_db first_mail\<close>, of 4 "\<lambda>t. 0" "''lark''"])
  from d'(1) have "bridge_step (\<lambda>t. 0) (Acts 4) (waiting_at mailed_db (listener 1 []) (Fanning first_mail [''lark'']))
      = waiting_at d' (listener 1 []) Listening"
    by (simp add: waiting_at_def enqueuer_acts_def put_row_def fanned_def)
  with d'(2) show ?thesis by blast
qed

lemmas first_run = first_starts first_swept first_lands first_polls first_taken

lemma first_calm: "calm_run (\<lambda>t. 0) first_steps (start_bridge [''lark''] sample_db (new_broadcaster ''owner''))"
  unfolding first_steps_def calm_run.simps first_run
  by (simp add: calm_def waiting_at_def sweep_backlog_def sweeping_def listener_def first_read my_queue_def)

lemma first_end:
  "messages (bg_db (bridge_run (\<lambda>t. 0) first_steps (start_bridge [''lark''] sample_db (new_broadcaster ''owner''))))
     = messages mailed_db"
proof -
  obtain d where d: "bridge_step (\<lambda>t. 0) (Acts 4) (waiting_at mailed_db (listener 1 []) (Fanning first_mail [''lark'']))
      = waiting_at d (listener 1 []) Listening" "messages d = messages mailed_db" using first_written by blast
  have "bridge_run (\<lambda>t. 0) first_steps (start_bridge [''lark''] sample_db (new_broadcaster ''owner''))
      = waiting_at d (listener 1 []) Listening"
    by (simp only: bridge_run_def first_steps_def fold_simps first_run d(1))
  then show ?thesis by (simp add: d(2) waiting_at_def)
qed

lemma calm_run_publishes_witness:
  "on_the_way ''lark'' (message_row_of 0 1 (owner_mail ''m1''))
     (bridge_run (\<lambda>t. 0) first_steps (start_bridge [''lark''] sample_db (new_broadcaster ''owner'')))"
  using calm_run_publishes [OF sample_db_ok _ _ _ _ first_calm refl, of "message_row_of 0 1 (owner_mail ''m1'')" "''lark''"]
  by (simp add: first_end)

text \<open>The mail was delivered at the start of 1970; two days later a run with a window of one day.\<close>

definition sent_row :: outbox_rec where
  "sent_row = (outbox_rec_of 0 1 (new_outbox_row None None KChannelPublish [] (channel_mail_key ''lark'' 1)))
     \<lparr>xr_dispatched := Some (MsZ 0)\<rparr>"

definition delivered_db :: db where
  "delivered_db = mailed_db\<lparr>outbox := [sent_row], outbox_seq := 1\<rparr>"

lemma delivered_fields:
  "messages delivered_db = messages mailed_db" "outbox delivered_db = [sent_row]" "db_ok delivered_db"
  "xr_kind sent_row = KChannelPublish" "xr_external sent_row = channel_mail_key ''lark'' 1"
  "xr_dispatched sent_row = Some (MsZ 0)"
proof -
  have "xr_task sent_row = None" "xr_wakeup sent_row = None" "xr_id sent_row = 1"
    by (simp_all add: sent_row_def outbox_rec_of_def new_outbox_row_def)
  then show "db_ok delivered_db"
    using mailed_db_ok by (simp add: delivered_db_def db_ok_defs key_defs)
qed (simp_all add: delivered_db_def sent_row_def outbox_rec_of_def new_outbox_row_def)

lemma delivered_maintained:
  obtains cts d1 where "run_maintenance 172800000 1 50 delivered_db = (Inr cts, d1)" "messages d1 = messages mailed_db"
    "db_ok d1"
proof -
  have "wakeups delivered_db = []" by (simp add: delivered_db_def mailed_db_def sample_db_def empty_db_def)
  then have "\<exists>cts. fst (run_maintenance 172800000 1 50 delivered_db) = Inr cts"
    by (simp add: run_maintenance_def Let_def bnd_def step_def ret_def prune_outbox_def prune_wakeups_def
        prune_scheduled_def prune_groups_def prune_members_def exists_row_def)
  moreover have "messages (snd (run_maintenance 172800000 1 50 delivered_db)) = messages mailed_db"
    using keepsD [OF run_maintenance_keeps, of delivered_db delivered_db 172800000 1 50]
    by (simp add: same_kept_tables_def delivered_fields)
  moreover have "db_ok (snd (run_maintenance 172800000 1 50 delivered_db))"
    using keepsD [OF keeps_run_maintenance delivered_fields(3)] .
  ultimately show thesis using that by (metis prod.collapse)
qed

lemma retention_resends_witness:
  "\<exists>y \<in> set (outbox (snd (catch_up 3 (\<lambda>t. 0) ''owner'' [''lark'']
        (snd (run_maintenance 172800000 1 50 delivered_db))))).
     xr_kind y = KChannelPublish \<and> xr_external y = channel_mail_key ''lark'' 1 \<and> xr_dispatched y = None"
proof -
  obtain cts d1 where d1: "run_maintenance 172800000 1 50 delivered_db = (Inr cts, d1)" "messages d1 = messages mailed_db"
    "db_ok d1" by (rule delivered_maintained)
  have swept_all: "\<exists>d2. for_each (enqueue_mail 3 (\<lambda>t. 0) ''lark'') ms d = (Inr (), d2)"
    if "db_ok d" "list_all (stored d) ms" for ms d
    using that
  proof (induction ms arbitrary: d)
    case (Cons m ms)
    obtain d' where d': "enqueue_mail 3 (\<lambda>t. 0) ''lark'' m d = (Inr (), d')" "db_ok d'" "messages d' = messages d"
      by (rule enqueue_stored [of d m 3 "\<lambda>t. 0" "''lark''"]) (use Cons.prems in simp_all)
    have "stored d' = stored d" by (rule ext) (simp add: stored_def d'(3))
    with Cons d' show ?case by (simp add: seqn_def bnd_def)
  qed (simp add: ret_def)
  let ?ms = "list_pending_channel_publish ''owner'' ''lark'' 500 d1"
  have "list_all (stored d1) ?ms" by (auto simp: list_all_iff stored_def dest: pending_ids)
  from swept_all [OF d1(3) this] obtain d2 where "for_each (enqueue_mail 3 (\<lambda>t. 0) ''lark'') ?ms d1 = (Inr (), d2)" by (elim exE) (rule that)
  then have run: "catch_up 3 (\<lambda>t. 0) ''owner'' [''lark''] d1 = (Inr (length ?ms), d2)"
    by (simp add: bnd_def seqn_def query_def ret_def)
  have r: "message_row_of 0 1 (owner_mail ''m1'') \<in> set (messages delivered_db)" by (simp add: delivered_fields(1))
  have key: "xr_external sent_row = channel_mail_key ''lark'' (mr_id (message_row_of 0 1 (owner_mail ''m1'')))"
    by (simp add: delivered_fields(5))
  have "\<exists>y \<in> set (outbox d2). xr_kind y = KChannelPublish
      \<and> xr_external y = channel_mail_key ''lark'' (mr_id (message_row_of 0 1 (owner_mail ''m1''))) \<and> xr_dispatched y = None"
    by (rule retention_resends [OF delivered_fields(3) _ r _ _ delivered_fields(4) key delivered_fields(6) _ d1(1) _ run])
      (simp_all add: delivered_fields(1,2) age_cutoff_def)
  then show ?thesis by (simp only: d1(1) run snd_conv message_row_fields)
qed

end
