(* ===== verification/Notes_Log.thy ===== *)
theory Notes_Log
  imports Compact Tool_Agents
begin

text \<open>
  The notebook of an agent (\<open>runtime/wakeup_summary.py\<close>): the entry that is added to it after
  every wakeup, the one-time merge of a stray notebook, and the rotation of old entries into the
  archive. Files are texts by their path, in two trees (the memory and the object store);
  \<open>atomic_write_text\<close> of \<open>fsutil.py\<close> replaces a file in one step, an append lands byte by byte, so
  an operation is the list of the states it goes through and a crash leaves any of them behind.
  Whether reading, writing or removing a file fails is a parameter. All files are UTF-8.
  The temporary file that \<open>atomic_write_text\<close> fills before the replacement (a hidden \<open>.tmp\<close> file of a
  random name beside the target) is not part of the state: a crash can leave one behind, and no code
  modelled here reads it, since a memory directory is scanned for \<open>.md\<close> files only.
\<close>

section \<open>Texts\<close>

text \<open>\<open>Path.read_text\<close> opens in text mode: every line end reads as a line feed.\<close>

fun universal_newlines :: "string \<Rightarrow> string" where
  "universal_newlines [] = []"
| "universal_newlines [c] = (if c = CHR 0x0D then newline else [c])"
| "universal_newlines (c # d # s) =
     (if c = CHR 0x0D then CHR 0x0A # universal_newlines (if d = CHR 0x0A then s else d # s)
      else c # universal_newlines (d # s))"

text \<open>\<open>str.find\<close>: what stands before the first occurrence, and the rest from there on.\<close>

fun find_text :: "string \<Rightarrow> string \<Rightarrow> (string \<times> string) option" where
  "find_text p [] = (if p = [] then Some ([], []) else None)"
| "find_text p (c # s) =
     (if take (length p) (c # s) = p then Some ([], c # s)
      else map_option (\<lambda>(a, b). (c # a, b)) (find_text p s))"

text \<open>The lines of a text, each with its line feed.\<close>

fun lines_of :: "string \<Rightarrow> string list" where
  "lines_of [] = []"
| "lines_of (c # s) =
     (if c = CHR 0x0A then [c] # lines_of s
      else (case lines_of s of [] \<Rightarrow> [[c]] | l # ls \<Rightarrow> (c # l) # ls))"

definition ends_line :: "string \<Rightarrow> bool" where
  "ends_line s \<longleftrightarrow> s \<noteq> [] \<and> last s = CHR 0x0A"

definition nl_ended :: "string \<Rightarrow> string" where
  "nl_ended s = (if ends_line s then s else s @ newline)"

section \<open>The format of the log\<close>

definition log_header :: string where
  "log_header = ''## Auto-summary log''"

definition stray_marker :: string where
  "stray_marker = ''<!-- merged from pre-fix stray notes path -->''"

definition wakeup_mark :: string where
  "wakeup_mark = '' '' @ bytes [194, 183] @ '' wakeup ''"

definition log_entry :: "usec \<Rightarrow> string \<Rightarrow> string \<Rightarrow> string" where
  "log_entry now wid summary =
     newline @ ''### '' @ iso_text now @ wakeup_mark @ utake 8 wid @ newline @ strip summary @ newline"

text \<open>\<open>_ENTRY_HEADER_RE\<close>, line by line; its digits are those of ASCII, all that \<open>strftime\<close> writes.\<close>

definition stamp_shape :: "string \<Rightarrow> bool" where
  "stamp_shape t \<longleftrightarrow> list_all2 (\<lambda>p c. if p = CHR ''d'' then is_digit c else p = c) ''dddd-dd-ddTdd:dd:ddZ'' t"

definition is_hex :: "char \<Rightarrow> bool" where
  "is_hex c \<longleftrightarrow> c \<in> set ''0123456789abcdefABCDEF''"

definition entry_id :: "string \<Rightarrow> string option" where
  "entry_id l =
     (let stamp = take 20 (drop 4 l); rest = drop (24 + length wakeup_mark) l;
          wid = takeWhile is_hex rest
      in if take 4 l = ''### '' \<and> stamp_shape stamp \<and> take (length wakeup_mark) (drop 24 l) = wakeup_mark
            \<and> wid \<noteq> [] \<and> list_all is_space (uchars (dropWhile is_hex rest))
         then Some wid else None)"

definition entry_ids :: "string \<Rightarrow> string list" where
  "entry_ids text = List.map_filter entry_id (lines_of text)"

definition pointer_start :: string where
  "pointer_start = ''> _Earlier auto-summaries archived to ''"

definition is_pointer :: "string \<Rightarrow> bool" where
  "is_pointer l \<longleftrightarrow> take (length pointer_start) l = pointer_start"

definition strip_pointers :: "string \<Rightarrow> string" where
  "strip_pointers text = concat (filter (\<lambda>l. \<not> is_pointer l) (lines_of text))"

definition pointer_line :: "string \<Rightarrow> string" where
  "pointer_line aid =
     newline @ pointer_start @ ''`notes_archive/agent-'' @ flat_id aid @ ''.md`._'' @ newline"

text \<open>The text before the first entry, and the entries, newest first: the id and the block.\<close>

definition leading_text :: "string \<Rightarrow> string" where
  "leading_text body = concat (takeWhile (\<lambda>l. entry_id l = None) (lines_of body))"

function blocks_of :: "string list \<Rightarrow> (string \<times> string) list" where
  "blocks_of [] = []"
| "blocks_of (l # ls) =
     (case entry_id l of
        None \<Rightarrow> blocks_of ls
      | Some w \<Rightarrow> (w, l @ concat (takeWhile (\<lambda>x. entry_id x = None) ls))
                   # blocks_of (dropWhile (\<lambda>x. entry_id x = None) ls))"
  by pat_completeness auto
termination
  by (relation "measure length") (simp_all add: le_imp_less_Suc length_dropWhile_le)

definition log_entries :: "string \<Rightarrow> (string \<times> string) list" where
  "log_entries body = blocks_of (lines_of body)"

section \<open>The files\<close>

record shelf =
  sh_memory :: "string \<rightharpoonup> string"
  sh_store :: "string \<rightharpoonup> string"

record disk_faults =
  df_read :: "string \<Rightarrow> bool"
  df_write :: "string \<Rightarrow> bool"
  df_unlink :: "string \<Rightarrow> bool"

definition os_error :: "string \<Rightarrow> exn" where
  "os_error path = Exn ''OSError'' path"

definition put_memory :: "string \<Rightarrow> string \<Rightarrow> shelf \<Rightarrow> shelf" where
  "put_memory path text s = s\<lparr>sh_memory := (sh_memory s)(path \<mapsto> text)\<rparr>"

definition stray_path :: "string \<Rightarrow> string" where
  "stray_path aid = ''facts/agent-'' @ aid @ ''-notes.md''"

definition archive_path :: "string \<Rightarrow> string" where
  "archive_path aid = ''notes_archive/agent-'' @ flat_id aid @ ''.md''"

section \<open>Adding an entry\<close>

text \<open>The notebook with the stray one folded in, and whether the stray file is to be removed. A
  file that cannot be read stays.\<close>

definition sep_for :: "string \<Rightarrow> string" where
  "sep_for text = (if text = [] \<or> ends_line text then [] else newline)"

definition with_stray :: "disk_faults \<Rightarrow> string \<Rightarrow> string \<Rightarrow> shelf \<Rightarrow> string \<times> bool" where
  "with_stray df aid existing s =
     (case (if CHR ''/'' \<in> set aid then sh_memory s (stray_path aid) else None) of
        None \<Rightarrow> (existing, False)
      | Some raw \<Rightarrow>
          if find_text stray_marker existing \<noteq> None then (existing, True)
          else if df_read df (stray_path aid) then (existing, False)
          else (let stray = strip (universal_newlines raw) in
            (if stray = [] then existing
             else existing @ sep_for existing @ newline @ stray_marker @ newline @ stray @ newline, True)))"

definition insert_entry :: "string \<Rightarrow> string \<Rightarrow> string" where
  "insert_entry existing entry =
     (case find_text log_header existing of
        Some (before, from_header) \<Rightarrow>
          (case find_text newline from_header of
             None \<Rightarrow> existing @ newline @ entry
           | Some (header, rest) \<Rightarrow> before @ header @ newline @ entry @ tl rest)
      | None \<Rightarrow> existing @ sep_for existing @ newline @ log_header @ newline @ entry)"

text \<open>The states an addition goes through, and the exception that ends it.\<close>

definition append_to_notes ::
    "disk_faults \<Rightarrow> usec \<Rightarrow> string \<Rightarrow> string \<Rightarrow> string \<Rightarrow> shelf \<Rightarrow> exn option \<times> shelf list" where
  "append_to_notes df now aid wid summary s =
     (let path = agent_notes_rel_path aid;
          existing = (case sh_memory s path of None \<Rightarrow> [] | Some raw \<Rightarrow> universal_newlines raw) in
      if sh_memory s path \<noteq> None \<and> df_read df path then (Some (os_error path), [s])
      else (let (text, legacy) = with_stray df aid existing s in
        if df_write df path then (Some (os_error path), [s])
        else (let s1 = put_memory path (insert_entry text (log_entry now wid summary)) s in
          (None, [s, s1] @ (if legacy \<and> \<not> df_unlink df (stray_path aid)
             then [s1\<lparr>sh_memory := (sh_memory s1)(stray_path aid := None)\<rparr>] else [])))))"

section \<open>Rotation\<close>

text \<open>The part that is never rewritten (the notebook down to the header of the log), the text
  before the first entry, and the entries.\<close>

definition parse_notes :: "string \<Rightarrow> (string \<times> string) option" where
  "parse_notes text =
     (case find_text log_header text of
        None \<Rightarrow> None
      | Some (before, from_header) \<Rightarrow>
          (case find_text newline from_header of
             None \<Rightarrow> None
           | Some (header, rest) \<Rightarrow> Some (before @ header @ newline, strip_pointers (tl rest))))"

definition keep_recent :: "int \<Rightarrow> nat" where
  "keep_recent max_entries = nat (max 1 (max_entries div 2))"

definition archived_ids :: "disk_faults \<Rightarrow> string \<Rightarrow> shelf \<Rightarrow> string list" where
  "archived_ids df aid s =
     (case sh_store s (archive_path aid) of
        None \<Rightarrow> []
      | Some raw \<Rightarrow> if df_read df (archive_path aid) then [] else entry_ids (universal_newlines raw))"

definition to_archive :: "string list \<Rightarrow> (string \<times> string) list \<Rightarrow> string list" where
  "to_archive seen overflow = map (nl_ended \<circ> snd) (filter (\<lambda>e. fst e \<notin> set seen) (rev overflow))"

definition append_states :: "string \<Rightarrow> string \<Rightarrow> shelf \<Rightarrow> shelf list" where
  "append_states path text s =
     map (\<lambda>k. s\<lparr>sh_store := (sh_store s)(path \<mapsto> (case sh_store s path of None \<Rightarrow> [] | Some a \<Rightarrow> a) @ take k text)\<rparr>)
       [0 ..< Suc (length text)]"

definition rotate_notes ::
    "disk_faults \<Rightarrow> bool \<Rightarrow> int \<Rightarrow> string \<Rightarrow> shelf \<Rightarrow> shelf list" where
  "rotate_notes df has_store max_entries aid s =
     (let path = agent_notes_rel_path aid in
      if max_entries \<le> 0 \<or> \<not> has_store then [s]
      else (case sh_memory s path of
        None \<Rightarrow> [s]
      | Some raw \<Rightarrow>
          if df_read df path then [s]
          else (case parse_notes (universal_newlines raw) of
            None \<Rightarrow> [s]
          | Some (kept_part, body) \<Rightarrow>
              (let entries = log_entries body; n = keep_recent max_entries in
               if int (length entries) \<le> max_entries then [s]
               else (let old = concat (to_archive (archived_ids df aid s) (drop n entries)) in
                 if df_write df ''notes_archive'' \<or> old \<noteq> [] \<and> df_write df (archive_path aid) then [s]
                 else (let mid = (if old = [] then [s] else s # append_states (archive_path aid) old s) in
                   if df_write df path then mid
                   else mid @ [put_memory path (kept_part @ leading_text body
                          @ concat (map snd (take n entries)) @ pointer_line aid) (last mid)]))))))"

section \<open>Facts about texts\<close>

lemma concat_lines [simp]: "concat (lines_of s) = s"
  by (induction s) (auto split: list.split)

lemma lines_Nil_iff [simp]: "lines_of s = [] \<longleftrightarrow> s = []"
  by (cases s) (auto split: list.split)

lemma ends_line_simps [simp]: "ends_line (c # s) \<longleftrightarrow> (if s = [] then c = CHR 0x0A else ends_line s)" "\<not> ends_line []"
  by (simp_all add: ends_line_def)

lemma ends_line_append [simp]: "ends_line (a @ b) \<longleftrightarrow> (if b = [] then ends_line a else ends_line b)"
  by (simp add: ends_line_def)

lemma ends_newline [simp]: "ends_line newline"
  by (simp add: newline_def)

lemma lines_append: "a = [] \<or> ends_line a \<Longrightarrow> lines_of (a @ b) = lines_of a @ lines_of b"
proof (induction a)
  case (Cons c a)
  show ?case
  proof (cases "a = []")
    case True
    with Cons.prems show ?thesis by simp
  next
    case False
    with Cons have "lines_of (a @ b) = lines_of a @ lines_of b" by auto
    with False show ?thesis by (cases "lines_of a") auto
  qed
qed simp

text \<open>A line: not empty, its line feed (if any) at its end.\<close>

definition is_line :: "string \<Rightarrow> bool" where
  "is_line l \<longleftrightarrow> l \<noteq> [] \<and> CHR 0x0A \<notin> set (butlast l)"

lemma lines_are_lines: "list_all is_line (lines_of s)"
  by (induction s) (auto simp: is_line_def split: list.split)

lemma lines_of_line: "is_line l \<Longrightarrow> lines_of l = [l]"
proof (induction l)
  case (Cons c l)
  show ?case
  proof (cases "l = []")
    case False
    with Cons.prems have "is_line l" "c \<noteq> CHR 0x0A" by (auto simp: is_line_def split: if_splits)
    with Cons.IH show ?thesis by simp
  qed simp
qed (simp add: is_line_def)

lemma lines_ended: "list_all ends_line (butlast (lines_of s))"
proof (induction s)
  case (Cons c s)
  show ?case
  proof (cases "lines_of s")
    case (Cons l ls)
    have "l \<noteq> []" using lines_are_lines [of s] by (simp add: Cons is_line_def)
    with Cons.IH Cons show ?thesis by (cases "ls = []") simp_all
  qed simp
qed simp

lemma lines_concat: "list_all is_line ls \<Longrightarrow> list_all ends_line (butlast ls) \<Longrightarrow> lines_of (concat ls) = ls"
proof (induction ls)
  case (Cons l ls)
  show ?case
  proof (cases "ls = []")
    case True
    with Cons.prems show ?thesis by (simp add: lines_of_line)
  next
    case False
    with Cons.prems have "ends_line l" by simp
    with Cons False show ?thesis by (simp add: lines_append lines_of_line)
  qed
qed simp

lemma find_text_Some: "find_text p s = Some (a, b) \<Longrightarrow> s = a @ b \<and> take (length p) b = p"
  by (induction s arbitrary: a) (auto split: if_splits)

text \<open>The first occurrence stays the first when the text after it changes.\<close>

lemma find_text_again:
  assumes "find_text p (a @ b) = Some (a, b)" "take (length p) b' = p"
    "\<And>n. n < length p \<Longrightarrow> take n b = take n b'"
  shows "find_text p (a @ b') = Some (a, b')"
  using assms(1)
proof (induction a)
  case Nil
  show ?case
  proof (cases b')
    case Nil
    with assms(2) show ?thesis by simp
  next
    case (Cons c s)
    with assms(2) show ?thesis by simp
  qed
next
  case (Cons c a)
  then have nf: "take (length p) (c # a @ b) \<noteq> p" and ih: "find_text p (a @ b) = Some (a, b)"
    by (auto split: if_splits)
  have "take (length p) (c # a @ b') \<noteq> p"
  proof
    assume t: "take (length p) (c # a @ b') = p"
    have split: "take (length p) (c # a @ x) = take (length p) (c # a) @ take (length p - length (c # a)) x" for x
      using take_append [of "length p" "c # a" x] by (simp only: append_Cons)
    have "take (length p - length (c # a)) b = take (length p - length (c # a)) b'"
      using assms(2,3) by (cases "p = []") auto
    with t have "take (length p) (c # a @ b) = p" unfolding split by simp
    with nf show False by simp
  qed
  with Cons.IH ih show ?case by simp
qed

end
