(* ===== verification/Notes_Parse.thy ===== *)
theory Notes_Parse
  imports Notes_Log
begin

text \<open>
  Reading a notebook back: the header lines of entries, the blocks of the log, and what a rotation
  writes, read again.
\<close>

section \<open>Line feeds\<close>

lemma universal_id: "CHR 0x0D \<notin> set s \<Longrightarrow> universal_newlines s = s"
  by (induction s rule: universal_newlines.induct) auto

lemma universal_no_cr: "CHR 0x0D \<notin> set (universal_newlines s)"
  by (induction s rule: universal_newlines.induct) (auto simp: newline_def)

lemma universal_append: "a = [] \<or> ends_line a \<Longrightarrow> universal_newlines (a @ b) = universal_newlines a @ universal_newlines b"
proof (induction a rule: universal_newlines.induct)
  case (2 c)
  then have "c = CHR 0x0A" by simp
  then show ?case by (cases b) simp_all
next
  case (3 c d s)
  then show ?case by (cases "s = []") (auto simp: newline_def)
qed simp

lemma universal_ends: "ends_line a \<Longrightarrow> ends_line (universal_newlines a)"
  by (induction a rule: universal_newlines.induct) (auto split: if_splits)

section \<open>Headers of entries\<close>

lemma stamp_length: "stamp_shape st \<Longrightarrow> length st = 20"
  by (auto simp: stamp_shape_def dest: list_all2_lengthD)

lemma newline_is_space: "is_space newline" "uchars newline = [newline]"
  by (simp_all add: newline_def is_space_single)

lemma newline_not_hex [simp]: "\<not> is_hex CHR 0x0A"
  by (simp add: is_hex_def)

lemma four_parts: "x = take a x @ take b (drop a x) @ take c (drop (a + b) x) @ drop (a + b + c) x"
proof -
  have "take c (drop (a + b) x) @ drop (a + b + c) x = drop (a + b) x"
    using append_take_drop_id [of c "drop (a + b) x"] by (simp add: add.commute)
  moreover have "take b (drop a x) @ drop (a + b) x = drop a x"
    using append_take_drop_id [of b "drop a x"] by (simp add: add.commute)
  ultimately show ?thesis by simp
qed

lemma entry_id_iff:
  "entry_id l = Some w \<longleftrightarrow> (\<exists>st sp. l = ''### '' @ st @ wakeup_mark @ w @ sp \<and> stamp_shape st \<and> w \<noteq> []
     \<and> list_all is_hex w \<and> (sp = [] \<or> \<not> is_hex (hd sp)) \<and> list_all is_space (uchars sp))"
proof
  assume e: "entry_id l = Some w"
  let ?st = "take 20 (drop 4 l)" and ?r = "drop (24 + length wakeup_mark) l"
  from e have h: "take 4 l = ''### ''" "stamp_shape ?st" "take (length wakeup_mark) (drop 24 l) = wakeup_mark"
    "w = takeWhile is_hex ?r" "w \<noteq> []" "list_all is_space (uchars (dropWhile is_hex ?r))"
    by (auto simp: entry_id_def Let_def split: if_splits)
  have "l = take 4 l @ take 20 (drop 4 l) @ take (length wakeup_mark) (drop 24 l) @ ?r"
    using four_parts [of l 4 20 "length wakeup_mark"] by simp
  then have "l = ''### '' @ ?st @ wakeup_mark @ w @ dropWhile is_hex ?r" using h by simp
  moreover have "list_all is_hex w" using h(4) by (metis list_all_iff set_takeWhileD)
  moreover have "dropWhile is_hex ?r = [] \<or> \<not> is_hex (hd (dropWhile is_hex ?r))" by (metis hd_dropWhile)
  ultimately show "\<exists>st sp. l = ''### '' @ st @ wakeup_mark @ w @ sp \<and> stamp_shape st \<and> w \<noteq> []
     \<and> list_all is_hex w \<and> (sp = [] \<or> \<not> is_hex (hd sp)) \<and> list_all is_space (uchars sp)"
    using h by blast
next
  assume "\<exists>st sp. l = ''### '' @ st @ wakeup_mark @ w @ sp \<and> stamp_shape st \<and> w \<noteq> []
     \<and> list_all is_hex w \<and> (sp = [] \<or> \<not> is_hex (hd sp)) \<and> list_all is_space (uchars sp)"
  then obtain st sp where l: "l = ''### '' @ st @ wakeup_mark @ w @ sp" "stamp_shape st" "w \<noteq> []" "list_all is_hex w"
    "sp = [] \<or> \<not> is_hex (hd sp)" "list_all is_space (uchars sp)" by blast
  have st: "length st = 20" using l(2) by (rule stamp_length)
  have "takeWhile is_hex (w @ sp) = w" "dropWhile is_hex (w @ sp) = sp"
    using l(4,5) by (cases sp; simp add: list_all_iff takeWhile_append dropWhile_append)+
  moreover have "take 4 l = ''### ''" "take 20 (drop 4 l) = st" "drop 24 l = wakeup_mark @ w @ sp"
    using st by (simp_all add: l(1))
  moreover have "drop (24 + length wakeup_mark) l = drop (length wakeup_mark) (drop 24 l)" by (simp add: add.commute)
  ultimately show "entry_id l = Some w" using l by (simp add: entry_id_def Let_def)
qed

lemma uchars_snoc_newline: "uchars (s @ newline) = uchars s @ [newline]"
proof (induction s)
  case (Cons c s)
  have "hd (hd (uchars s @ [newline])) = hd (s @ newline)"
    using hd_uchars [of "s @ newline"] Cons.IH by (simp add: newline_def)
  show ?case
  proof (cases "uchars s")
    case Nil
    then have "s = []" by simp
    then show ?thesis by (simp add: newline_def is_cont_def)
  next
    case (Cons u us)
    with \<open>uchars (s @ newline) = uchars s @ [newline]\<close> show ?thesis by simp
  qed
qed (simp add: newline_def)

lemma entry_id_newline: "entry_id (l @ newline) = entry_id l"
proof -
  have "entry_id (l @ newline) = Some w \<longleftrightarrow> entry_id l = Some w" for w
  proof
    assume "entry_id l = Some w"
    then obtain st sp where l: "l = ''### '' @ st @ wakeup_mark @ w @ sp" "stamp_shape st" "w \<noteq> []" "list_all is_hex w"
      "sp = [] \<or> \<not> is_hex (hd sp)" "list_all is_space (uchars sp)" unfolding entry_id_iff by blast
    have "\<not> is_hex (hd (sp @ newline))" using l(5) by (cases sp) (simp_all add: newline_def)
    moreover have "list_all is_space (uchars (sp @ newline))"
      using l(6) by (simp add: uchars_snoc_newline newline_is_space)
    ultimately show "entry_id (l @ newline) = Some w"
      unfolding entry_id_iff using l by (intro exI [of _ st] exI [of _ "sp @ newline"]) simp
  next
    assume "entry_id (l @ newline) = Some w"
    then obtain st sp where l: "l @ newline = ''### '' @ st @ wakeup_mark @ w @ sp" "stamp_shape st" "w \<noteq> []" "list_all is_hex w"
      "sp = [] \<or> \<not> is_hex (hd sp)" "list_all is_space (uchars sp)" unfolding entry_id_iff by blast
    have "last (l @ newline) = CHR 0x0A" by (simp add: newline_def)
    moreover have "last w \<noteq> CHR 0x0A" using l(3,4) by (metis last_in_set list_all_iff newline_not_hex)
    ultimately have "sp \<noteq> []" using l(1,3) by (metis append_Nil2 last_appendR append_is_Nil_conv)
    then obtain sp' c where sp: "sp = sp' @ [c]" by (metis rev_exhaust)
    with l(1) have "c = CHR 0x0A" and l': "l = ''### '' @ st @ wakeup_mark @ w @ sp'"
      by (simp_all add: newline_def)
    then have "sp = sp' @ newline" using sp by (simp add: newline_def)
    with l(5,6) have "sp' = [] \<or> \<not> is_hex (hd sp')" "list_all is_space (uchars sp')"
      by (auto simp: uchars_snoc_newline)
    then show "entry_id l = Some w" unfolding entry_id_iff using l l' by blast
  qed
  then show ?thesis by (metis not_None_eq)
qed

section \<open>Blocks\<close>

abbreviation no_header :: "string \<Rightarrow> bool" where
  "no_header l \<equiv> entry_id l = None"

lemma blocks_concat: "concat (takeWhile no_header ls) @ concat (map snd (blocks_of ls)) = concat ls"
proof (induction ls rule: blocks_of.induct)
  case (2 l ls)
  have no: "takeWhile no_header (dropWhile no_header ls) = []" by (induction ls) auto
  have "concat (takeWhile no_header ls) @ concat (dropWhile no_header ls) = concat ls"
    by (simp flip: concat_append)
  with 2 no show ?case by (cases "entry_id l") simp_all
qed simp

lemma blocks_ids: "map fst (blocks_of ls) = List.map_filter entry_id ls"
proof (induction ls rule: blocks_of.induct)
  case (2 l ls)
  have "List.map_filter entry_id ls = List.map_filter entry_id (dropWhile no_header ls)"
    by (induction ls) (auto simp: List.map_filter_simps)
  with 2 show ?case by (auto simp: List.map_filter_simps split: option.splits)
qed (simp add: List.map_filter_simps)

lemma entry_ids_body: "map fst (log_entries body) = entry_ids body"
  by (simp add: log_entries_def blocks_ids entry_ids_def)

text \<open>The first entries are the lines up to some line.\<close>

lemma first_blocks:
  "n < length (blocks_of ls) \<Longrightarrow> \<exists>m < length ls. concat (takeWhile no_header ls) @ concat (map snd (take n (blocks_of ls))) = concat (take m ls)
     \<and> map fst (take n (blocks_of ls)) = List.map_filter entry_id (take m ls)"
proof (induction ls arbitrary: n rule: blocks_of.induct)
  case (2 l ls)
  show ?case
  proof (cases "entry_id l")
    case None
    with 2(1) 2(3) obtain m where "m < length ls"
      "concat (takeWhile no_header ls) @ concat (map snd (take n (blocks_of ls))) = concat (take m ls)"
      "map fst (take n (blocks_of ls)) = List.map_filter entry_id (take m ls)" by auto
    with None show ?thesis by (intro exI [of _ "Suc m"]) (simp add: List.map_filter_simps)
  next
    case (Some w)
    let ?pre = "takeWhile no_header ls" and ?ls = "dropWhile no_header ls"
    show ?thesis
    proof (cases n)
      case 0
      with Some show ?thesis by (intro exI [of _ 0]) (simp add: List.map_filter_simps)
    next
      case (Suc n')
      with 2(3) Some have "n' < length (blocks_of ?ls)" by simp
      with 2(2) [OF Some, of n'] obtain m where m: "m < length ?ls"
        "concat (takeWhile no_header ?ls) @ concat (map snd (take n' (blocks_of ?ls))) = concat (take m ?ls)"
        "map fst (take n' (blocks_of ?ls)) = List.map_filter entry_id (take m ?ls)" by auto
      have no: "takeWhile no_header ?ls = []" by (induction ls) auto
      have "List.map_filter entry_id ?pre = []" by (induction ls) (auto simp: List.map_filter_simps)
      moreover have t: "take (length ?pre + m) ls = ?pre @ take m ?ls"
        using takeWhile_dropWhile_id [of no_header ls] by (metis take_add append_eq_conv_conj)
      moreover have "List.map_filter entry_id (?pre @ take m ?ls)
          = List.map_filter entry_id ?pre @ List.map_filter entry_id (take m ?ls)" by (simp add: List.map_filter_def)
      moreover have "length ls = length ?pre + length ?ls"
        by (metis length_append takeWhile_dropWhile_id)
      ultimately show ?thesis using m no Suc Some
        by (intro exI [of _ "Suc (length ?pre + m)"]) (simp add: List.map_filter_simps)
    qed
  qed
qed simp

text \<open>An entry: its header, and lines that are no header.\<close>

lemma block_shape:
  "(w, blk) \<in> set (blocks_of ls) \<Longrightarrow> \<exists>l xs. blk = l @ concat xs \<and> entry_id l = Some w \<and> list_all no_header xs
     \<and> (\<exists>a b. ls = a @ (l # xs) @ b)"
proof (induction ls rule: blocks_of.induct)
  case (2 l ls)
  show ?case
  proof (cases "entry_id l")
    case None
    with 2(1,3) obtain l' xs a b where "blk = l' @ concat xs" "entry_id l' = Some w" "list_all no_header xs" "ls = a @ (l' # xs) @ b"
      by auto
    then show ?thesis by (intro exI [of _ l'] exI [of _ xs] conjI exI [of _ "l # a"] exI [of _ b]) simp_all
  next
    case (Some v)
    show ?thesis
    proof (cases "(w, blk) \<in> set (blocks_of (dropWhile no_header ls))")
      case True
      with 2(2) [OF Some] obtain l' xs a b where b: "blk = l' @ concat xs" "entry_id l' = Some w" "list_all no_header xs"
        "dropWhile no_header ls = a @ (l' # xs) @ b" by auto
      have "ls = (takeWhile no_header ls @ a) @ (l' # xs) @ b" using b(4) takeWhile_dropWhile_id [of no_header ls] by simp
      with b(1-3) show ?thesis
        by (intro exI [of _ l'] exI [of _ xs] conjI exI [of _ "l # takeWhile no_header ls @ a"] exI [of _ b]) simp_all
    next
      case False
      with 2(3) Some have "w = v" "blk = l @ concat (takeWhile no_header ls)" by auto
      with Some show ?thesis
        by (intro exI [of _ l] exI [of _ "takeWhile no_header ls"] conjI exI [of _ "[]"] exI [of _ "dropWhile no_header ls"])
          (auto simp: list_all_iff dest: set_takeWhileD)
    qed
  qed
qed simp

lemma entry_ids_append: "a = [] \<or> ends_line a \<Longrightarrow> entry_ids (a @ b) = entry_ids a @ entry_ids b"
  by (simp add: entry_ids_def lines_append List.map_filter_def)

lemma ends_nl_ended [simp]: "ends_line (nl_ended s)"
  by (simp add: nl_ended_def newline_def)

lemma entry_ids_nl_ended: "entry_ids (nl_ended s) = entry_ids s"
proof (cases "s = [] \<or> ends_line s")
  case True
  then show ?thesis
  proof
    assume "s = []"
    moreover have "entry_id newline = None" using entry_id_newline [of "[]"] by (simp add: entry_id_def wakeup_mark_def Let_def)
    ultimately show ?thesis by (simp add: nl_ended_def entry_ids_def newline_def List.map_filter_simps)
  qed (simp add: nl_ended_def)
next
  case False
  obtain ls l where ls: "lines_of s = ls @ [l]" using False by (metis lines_Nil_iff rev_exhaust)
  have one: "list_all is_line (ls @ [l])" "list_all ends_line ls" using lines_are_lines [of s] lines_ended [of s] by (simp_all add: ls)
  have s: "s = concat ls @ l" using concat_lines [of s] by (simp add: ls)
  have "is_line (l @ newline)"
  proof -
    have "l \<noteq> []" "CHR 0x0A \<notin> set (butlast l)" using one(1) by (simp_all add: is_line_def)
    moreover have "last l \<noteq> CHR 0x0A" using False s \<open>l \<noteq> []\<close> by (simp add: ends_line_def)
    ultimately have "CHR 0x0A \<notin> set l" by (metis append_butlast_last_id in_set_conv_decomp_last rotate1.simps(2) set_rotate1 set_ConsD)
    then show ?thesis by (simp add: is_line_def newline_def)
  qed
  then have "lines_of (concat (ls @ [l @ newline])) = ls @ [l @ newline]"
    using one by (intro lines_concat) simp_all
  then have "lines_of (nl_ended s) = ls @ [l @ newline]" using False by (simp add: nl_ended_def s)
  then show ?thesis by (simp add: entry_ids_def ls List.map_filter_def entry_id_newline)
qed

lemma block_lines:
  assumes "(w, blk) \<in> set (log_entries body)"
  shows "\<exists>l xs. lines_of blk = l # xs \<and> entry_id l = Some w \<and> list_all no_header xs"
proof -
  from assms obtain l xs a b where b: "blk = l @ concat xs" "entry_id l = Some w" "list_all no_header xs"
    "lines_of body = a @ (l # xs) @ b" unfolding log_entries_def by (blast dest: block_shape)
  have "list_all is_line (l # xs)" using lines_are_lines [of body] by (simp add: b(4))
  moreover have "list_all ends_line (butlast (l # xs))"
  proof (cases "b = []")
    case True
    then show ?thesis using lines_ended [of body] by (simp add: b(4) butlast_append split: if_splits)
  next
    case False
    then have "list_all ends_line (l # xs)" using lines_ended [of body] by (simp add: b(4) butlast_append)
    then show ?thesis by (auto simp: list_all_iff dest: in_set_butlastD)
  qed
  ultimately have "lines_of blk = l # xs" using lines_concat [of "l # xs"] by (simp add: b(1))
  with b(2,3) show ?thesis by blast
qed

lemma block_ids:
  assumes "(w, blk) \<in> set (log_entries body)"
  shows "entry_ids (nl_ended blk) = [w]"
proof -
  from block_lines [OF assms] obtain l xs where b: "lines_of blk = l # xs" "entry_id l = Some w" "list_all no_header xs" by blast
  have "List.map_filter entry_id xs = []" using b(3) by (induction xs) (auto simp: List.map_filter_simps)
  then show ?thesis by (simp add: entry_ids_nl_ended) (simp add: entry_ids_def List.map_filter_simps b)
qed

text \<open>The log, described by its text: \<open>es\<close> are its entries, in their order, with all their lines.\<close>

definition entries_of :: "string \<Rightarrow> string \<Rightarrow> (string \<times> string) list \<Rightarrow> bool" where
  "entries_of body lead es \<longleftrightarrow> body = lead @ concat (map snd es) \<and> list_all no_header (lines_of lead)
     \<and> list_all (\<lambda>(w, blk). \<exists>l xs. lines_of blk = l # xs \<and> entry_id l = Some w \<and> list_all no_header xs) es"

lemma entries_of_log: "entries_of body (leading_text body) (log_entries body)"
proof -
  let ?p = "takeWhile no_header (lines_of body)"
  obtain q where q: "lines_of body = ?p @ q" by (metis takeWhile_dropWhile_id)
  have "list_all is_line ?p" using lines_are_lines [of body] by (auto simp: list_all_iff dest: set_takeWhileD)
  moreover have "list_all ends_line (butlast ?p)"
    using lines_ended [of body] by (subst (asm) q) (auto simp: list_all_iff butlast_append dest: in_set_butlastD split: if_splits)
  ultimately have "lines_of (leading_text body) = ?p" unfolding leading_text_def by (rule lines_concat)
  then have "list_all no_header (lines_of (leading_text body))" by (auto simp: list_all_iff dest: set_takeWhileD)
  moreover have "body = leading_text body @ concat (map snd (log_entries body))"
    using blocks_concat [of "lines_of body"] by (simp add: leading_text_def log_entries_def)
  ultimately show ?thesis
    unfolding entries_of_def by (auto simp: list_all_iff dest: block_lines)
qed

lemma archived_block_ids:
  "set es \<subseteq> set (log_entries body) \<Longrightarrow> entry_ids (concat (map (nl_ended \<circ> snd) es)) = map fst es"
proof (induction es)
  case (Cons e es)
  obtain w blk where e: "e = (w, blk)" by force
  have "entry_ids (nl_ended blk) = [w]" using Cons.prems e by (auto intro: block_ids)
  with Cons e show ?case by (simp add: entry_ids_append)
qed (simp add: entry_ids_def List.map_filter_simps)

section \<open>Rotation\<close>

definition sound_disk :: disk_faults where
  "sound_disk = \<lparr>df_read = (\<lambda>p. False), df_write = (\<lambda>p. False), df_unlink = (\<lambda>p. False)\<rparr>"

definition hot_ids :: "string \<Rightarrow> shelf \<Rightarrow> string list" where
  "hot_ids aid s =
     (case sh_memory s (agent_notes_rel_path aid) of
        None \<Rightarrow> []
      | Some raw \<Rightarrow> (case parse_notes (universal_newlines raw) of
          None \<Rightarrow> [] | Some (kept_part, body) \<Rightarrow> map fst (log_entries body)))"

definition cold_text :: "string \<Rightarrow> shelf \<Rightarrow> string" where
  "cold_text aid s = (case sh_store s (archive_path aid) of None \<Rightarrow> [] | Some a \<Rightarrow> a)"

definition cold_ids :: "string \<Rightarrow> shelf \<Rightarrow> string list" where
  "cold_ids aid s = entry_ids (universal_newlines (cold_text aid s))"

lemma find_newline: "find_text newline s = Some (a, b) \<Longrightarrow> CHR 0x0A \<notin> set a \<and> b = newline @ tl b"
proof (induction s arbitrary: a)
  case (Cons c s)
  then show ?case by (auto simp: newline_def split: if_splits)
qed (simp add: newline_def)

lemma find_newline_again: "CHR 0x0A \<notin> set a \<Longrightarrow> find_text newline (a @ newline @ b) = Some (a, newline @ b)"
  by (induction a) (auto simp: newline_def)

lemma parse_notes_again:
  assumes "parse_notes text = Some (kp, body)"
  shows "parse_notes (kp @ r) = Some (kp, strip_pointers r)" "ends_line kp" "\<exists>r0. text = kp @ r0 \<and> body = strip_pointers r0"
    "\<exists>top line. kp = top @ log_header @ line @ newline \<and> CHR 0x0A \<notin> set line"
proof -
  from assms obtain bf fh hd rest where f: "find_text log_header text = Some (bf, fh)"
      "find_text newline fh = Some (hd, rest)" "kp = bf @ hd @ newline" "body = strip_pointers (tl rest)"
    by (auto simp: parse_notes_def split: option.splits)
  have whole: "text = bf @ fh" "take (length log_header) fh = log_header" using find_text_Some [OF f(1)] by simp_all
  have fh: "fh = hd @ rest" "CHR 0x0A \<notin> set hd" "rest = newline @ tl rest"
    using find_text_Some [OF f(2)] find_newline [OF f(2)] by simp_all
  have len: "length log_header \<le> length hd"
  proof (rule ccontr)
    assume "\<not> length log_header \<le> length hd"
    then have "take (length log_header) fh = hd @ CHR 0x0A # take (length log_header - Suc (length hd)) (tl rest)"
      by (subst fh(1), subst fh(3)) (simp add: newline_def take_Cons' Suc_diff_Suc)
    then have "CHR 0x0A \<in> set log_header" using whole(2) by (metis in_set_conv_decomp)
    then show False by (simp add: log_header_def)
  qed
  have "find_text log_header (bf @ hd @ newline @ r) = Some (bf, hd @ newline @ r)"
  proof (rule find_text_again)
    show "find_text log_header (bf @ fh) = Some (bf, fh)" using f(1) whole(1) by simp
    show "take (length log_header) (hd @ newline @ r) = log_header" using whole(2) len by (simp add: fh(1))
    show "take n fh = take n (hd @ newline @ r)" if "n < length log_header" for n using that len by (simp add: fh(1))
  qed
  then show "parse_notes (kp @ r) = Some (kp, strip_pointers r)"
    using find_newline_again [OF fh(2), of r] by (simp add: parse_notes_def f(3)) (simp add: newline_def)
  show "ends_line kp" by (simp add: f(3) newline_def)
  have "text = kp @ tl rest" using whole(1) fh f(3) by simp
  with f(4) show "\<exists>r0. text = kp @ r0 \<and> body = strip_pointers r0" by blast
  have "take (length log_header) hd = log_header" using whole(2) len unfolding fh(1) by simp
  then have "hd = log_header @ drop (length log_header) hd" by (metis append_take_drop_id)
  then have "kp = bf @ log_header @ drop (length log_header) hd @ newline" using f(3) by (metis append_assoc)
  moreover have "CHR 0x0A \<notin> set (drop (length log_header) hd)" using fh(2) by (auto dest: in_set_dropD)
  ultimately show "\<exists>top line. kp = top @ log_header @ line @ newline \<and> CHR 0x0A \<notin> set line" by blast
qed

lemma butlast_filter: "list_all P (butlast xs) \<Longrightarrow> list_all P (butlast (filter Q xs))"
proof (induction xs)
  case (Cons x xs)
  show ?case
  proof (cases "filter Q xs = []")
    case False
    then have "xs \<noteq> []" by auto
    with Cons False show ?thesis by (auto simp: list_all_iff)
  qed simp
qed simp

lemma stripped_lines: "lines_of (strip_pointers r) = filter (\<lambda>l. \<not> is_pointer l) (lines_of r)"
  unfolding strip_pointers_def using lines_are_lines [of r] lines_ended [of r]
  by (intro lines_concat butlast_filter) (auto simp: list_all_iff)

lemma valid_id_no_newline:
  assumes "is_valid_agent_id aid"
  shows "CHR 0x0A \<notin> set aid" "CHR 0x0D \<notin> set aid"
proof -
  have "\<not> id_char CHR 0x0A" "\<not> id_char CHR 0x0D" by (simp_all add: id_char_def is_lower_def is_digit_def)
  with assms show "CHR 0x0A \<notin> set aid" "CHR 0x0D \<notin> set aid"
    by (cases rule: valid_cases; auto simp: list_all_iff dest: persona_seg_ids name_seg_ids)+
qed

lemma pointer_lines:
  assumes "CHR 0x0A \<notin> set aid"
  shows "\<exists>x. lines_of (pointer_line aid) = [newline, x] \<and> is_pointer x"
proof -
  let ?x = "pointer_start @ ''`notes_archive/agent-'' @ flat_id aid @ ''.md`._'' @ newline"
  have "CHR 0x0A \<notin> set (flat_id aid)" using assms by (auto simp: flat_id_def)
  then have "is_line ?x" by (auto simp: is_line_def newline_def pointer_start_def butlast_append)
  then have "lines_of (pointer_line aid) = [newline, ?x]"
    using lines_append [of newline ?x] by (simp add: pointer_line_def lines_of_line) (simp add: newline_def)
  moreover have "is_pointer ?x" by (simp add: is_pointer_def)
  ultimately show ?thesis by blast
qed

lemma newline_plain: "entry_id newline = None" "\<not> is_pointer newline"
  by (simp_all add: entry_id_def is_pointer_def newline_def pointer_start_def wakeup_mark_def Let_def)

lemma keep_recent_less: "0 < m \<Longrightarrow> m < int k \<Longrightarrow> keep_recent m < k"
  by (auto simp: keep_recent_def max_def)

text \<open>The log after a rotation, read again.\<close>

lemma kept_log:
  assumes "body = strip_pointers r0" "n < length (log_entries body)" "CHR 0x0A \<notin> set aid"
  shows "map fst (log_entries (strip_pointers (leading_text body @ concat (map snd (take n (log_entries body))) @ pointer_line aid)))
     = map fst (take n (log_entries body))"
proof -
  obtain m where m: "m < length (lines_of body)"
    "leading_text body @ concat (map snd (take n (log_entries body))) = concat (take m (lines_of body))"
    "map fst (take n (log_entries body)) = List.map_filter entry_id (take m (lines_of body))"
    using first_blocks [of n "lines_of body"] assms(2) by (auto simp: log_entries_def leading_text_def)
  let ?ls = "take m (lines_of body)"
  have l: "list_all is_line ?ls" using lines_are_lines [of body] by (auto simp: list_all_iff dest: in_set_takeD)
  have e: "list_all ends_line ?ls"
  proof -
    have "?ls = take m (butlast (lines_of body))" using m(1) by (simp add: take_butlast)
    then show ?thesis using lines_ended [of body] by (auto simp: list_all_iff dest: in_set_takeD)
  qed
  have lines: "lines_of (concat ?ls) = ?ls" using l e by (intro lines_concat) (auto simp: list_all_iff dest: in_set_butlastD)
  have end_: "concat ?ls = [] \<or> ends_line (concat ?ls)"
  proof (cases "?ls" rule: rev_cases)
    case (snoc ys y)
    with e have "ends_line y" "y \<noteq> []" by (auto simp: ends_line_def)
    with snoc show ?thesis by (metis concat.simps concat_append append_Nil2 ends_line_append)
  qed (simp only: concat.simps simp_thms)
  obtain x where x: "lines_of (pointer_line aid) = [newline, x]" "is_pointer x" using pointer_lines [OF assms(3)] by blast
  have "\<forall>y \<in> set ?ls. \<not> is_pointer y"
    using stripped_lines [of r0] by (auto simp: assms(1) dest: in_set_takeD)
  then have "lines_of (strip_pointers (concat ?ls @ pointer_line aid)) = ?ls @ [newline]"
    using end_ by (simp add: stripped_lines lines_append lines x newline_plain filter_id_conv)
  then have "map fst (log_entries (strip_pointers (concat ?ls @ pointer_line aid))) = List.map_filter entry_id (?ls @ [newline])"
    by (simp add: log_entries_def blocks_ids)
  also have "\<dots> = List.map_filter entry_id ?ls" by (simp add: List.map_filter_def newline_plain)
  finally show ?thesis unfolding m(2) [symmetric] m(3) by simp
qed

lemma append_states_end: "append_states path t s \<noteq> []"
  "last (append_states path t s)
     = s\<lparr>sh_store := (sh_store s)(path \<mapsto> (case sh_store s path of None \<Rightarrow> [] | Some a \<Rightarrow> a) @ t)\<rparr>"
  by (simp_all add: append_states_def last_map)

lemma set_log_entries_cr: "(w, blk) \<in> set (log_entries body) \<Longrightarrow> c \<in> set blk \<Longrightarrow> c \<in> set body"
proof -
  assume "(w, blk) \<in> set (log_entries body)" "c \<in> set blk"
  then have "c \<in> set (concat (map snd (log_entries body)))" by force
  then show "c \<in> set body" using blocks_concat [of "lines_of body"] by (metis Un_iff concat_lines log_entries_def set_append)
qed

text \<open>What a rotation writes.\<close>

lemma rotation_writes:
  assumes "sh_memory s (agent_notes_rel_path aid) = Some raw" "parse_notes (universal_newlines raw) = Some (kp, body)"
    and "0 < m" "m < int (length (log_entries body))"
  shows "sh_memory (last (rotate_notes sound_disk True m aid s)) = (sh_memory s)(agent_notes_rel_path aid
      \<mapsto> kp @ leading_text body @ concat (map snd (take (keep_recent m) (log_entries body))) @ pointer_line aid)
    \<and> cold_text aid (last (rotate_notes sound_disk True m aid s))
      = cold_text aid s @ concat (to_archive (cold_ids aid s) (drop (keep_recent m) (log_entries body)))
    \<and> (\<forall>p. p \<noteq> archive_path aid \<longrightarrow> sh_store (last (rotate_notes sound_disk True m aid s)) p = sh_store s p)"
proof -
  have seen: "archived_ids sound_disk aid s = cold_ids aid s"
    by (simp add: archived_ids_def cold_ids_def cold_text_def sound_disk_def entry_ids_def List.map_filter_simps split: option.split)
  let ?old = "concat (to_archive (cold_ids aid s) (drop (keep_recent m) (log_entries body)))"
  have "rotate_notes sound_disk True m aid s
      = (if ?old = [] then [s] else s # append_states (archive_path aid) ?old s)
        @ [put_memory (agent_notes_rel_path aid) (kp @ leading_text body
             @ concat (map snd (take (keep_recent m) (log_entries body))) @ pointer_line aid)
             (last (if ?old = [] then [s] else s # append_states (archive_path aid) ?old s))]"
    using assms seen by (simp add: rotate_notes_def Let_def sound_disk_def)
  then show ?thesis
    by (simp add: append_states_end put_memory_def cold_text_def split: option.split)
qed

lemma rotated:
  assumes "is_valid_agent_id aid" "sh_memory s (agent_notes_rel_path aid) = Some raw"
    and "parse_notes (universal_newlines raw) = Some (kp, body)"
    and "0 < m" "m < int (length (log_entries body))"
    and "cold_text aid s = [] \<or> ends_line (cold_text aid s)"
    and "t = last (rotate_notes sound_disk True m aid s)"
  shows "(\<exists>r. sh_memory t (agent_notes_rel_path aid) = Some (kp @ r))
    \<and> hot_ids aid t = take (keep_recent m) (hot_ids aid s)
    \<and> cold_ids aid t = cold_ids aid s
        @ rev (filter (\<lambda>w. w \<notin> set (cold_ids aid s)) (drop (keep_recent m) (hot_ids aid s)))"
proof -
  let ?n = "keep_recent m" and ?es = "log_entries body"
  let ?r = "leading_text body @ concat (map snd (take ?n ?es)) @ pointer_line aid"
  have w: "sh_memory t (agent_notes_rel_path aid) = Some (kp @ ?r)"
      "cold_text aid t = cold_text aid s @ concat (to_archive (cold_ids aid s) (drop ?n ?es))"
    using rotation_writes [OF assms(2-5)] assms(7) by simp_all
  have n: "?n < length ?es" using assms(4,5) by (rule keep_recent_less)
  obtain r0 where r0: "universal_newlines raw = kp @ r0" "body = strip_pointers r0"
    using parse_notes_again(3) [OF assms(3)] by blast
  have hot: "hot_ids aid s = map fst ?es" by (simp add: hot_ids_def assms(2,3))
  have cr_body: "CHR 0x0D \<notin> set body" and cr_kp: "CHR 0x0D \<notin> set kp"
  proof -
    have "CHR 0x0D \<notin> set (kp @ r0)" using universal_no_cr [of raw] by (simp add: r0(1))
    moreover have "set (strip_pointers r0) \<subseteq> set (concat (lines_of r0))" by (auto simp: strip_pointers_def simp del: concat_lines)
    ultimately show "CHR 0x0D \<notin> set body" "CHR 0x0D \<notin> set kp" by (auto simp: r0(2))
  qed
  have "CHR 0x0D \<notin> set ?r"
  proof -
    have "set (leading_text body) \<subseteq> set (concat (lines_of body))"
      by (auto simp: leading_text_def simp del: concat_lines dest: set_takeWhileD)
    moreover have "CHR 0x0D \<notin> set (concat (map snd (take ?n ?es)))"
      using cr_body by (auto dest!: in_set_takeD dest: set_log_entries_cr)
    moreover have "CHR 0x0D \<notin> set (pointer_line aid)"
      using valid_id_no_newline(2) [OF assms(1)] by (auto simp: pointer_line_def pointer_start_def newline_def flat_id_def)
    ultimately show ?thesis using cr_body by auto
  qed
  then have "universal_newlines (kp @ ?r) = kp @ ?r" using cr_kp by (intro universal_id) simp
  then have "hot_ids aid t = map fst (log_entries (strip_pointers ?r))"
    using parse_notes_again(1) [OF assms(3), of ?r] by (simp add: hot_ids_def w(1))
  also have "\<dots> = take ?n (hot_ids aid s)"
    using kept_log [OF r0(2) n valid_id_no_newline(1) [OF assms(1)]] by (simp add: hot take_map)
  finally have "hot_ids aid t = take ?n (hot_ids aid s)" .
  moreover have "cold_ids aid t = cold_ids aid s
      @ rev (filter (\<lambda>w. w \<notin> set (cold_ids aid s)) (drop ?n (hot_ids aid s)))"
  proof -
    let ?fs = "filter (\<lambda>e. fst e \<notin> set (cold_ids aid s)) (rev (drop ?n ?es))"
    let ?new = "concat (to_archive (cold_ids aid s) (drop ?n ?es))"
    have new: "?new = concat (map (nl_ended \<circ> snd) ?fs)" by (simp add: to_archive_def)
    have sub: "set ?fs \<subseteq> set ?es" by (auto dest: in_set_dropD)
    have "CHR 0x0D \<notin> set ?new"
    proof
      assume "CHR 0x0D \<in> set ?new"
      then obtain e where e: "e \<in> set ?fs" "CHR 0x0D \<in> set (nl_ended (snd e))" unfolding new by auto
      then have "CHR 0x0D \<in> set (snd e)" by (auto simp: nl_ended_def newline_def split: if_splits)
      moreover have "(fst e, snd e) \<in> set ?es" using e(1) sub by auto
      ultimately show False using cr_body set_log_entries_cr by blast
    qed
    then have "universal_newlines (cold_text aid s @ ?new) = universal_newlines (cold_text aid s) @ ?new"
      using universal_append [OF assms(6)] universal_id by simp
    moreover have "universal_newlines (cold_text aid s) = [] \<or> ends_line (universal_newlines (cold_text aid s))"
      using assms(6) universal_ends by auto
    ultimately have "cold_ids aid t = cold_ids aid s @ entry_ids ?new"
      by (simp add: cold_ids_def w(2) entry_ids_append)
    also have "entry_ids ?new = map fst ?fs" unfolding new using sub by (rule archived_block_ids)
    also have "\<dots> = rev (filter (\<lambda>w. w \<notin> set (cold_ids aid s)) (drop ?n (hot_ids aid s)))"
      by (simp add: hot drop_map filter_map rev_map rev_filter comp_def)
    finally show ?thesis .
  qed
  ultimately show ?thesis using w(1) by blast
qed

lemma archived_new:
  assumes "is_valid_agent_id aid" "sh_memory s (agent_notes_rel_path aid) = Some raw"
    and "parse_notes (universal_newlines raw) = Some (kp, body)"
    and "0 < m" "m < int (length (log_entries body))"
    and "cold_text aid s = [] \<or> ends_line (cold_text aid s)"
  shows "cold_ids aid (last (rotate_notes sound_disk True m aid s)) = cold_ids aid s
        @ rev (filter (\<lambda>w. w \<notin> set (cold_ids aid s)) (drop (keep_recent m) (hot_ids aid s)))"
  using rotated [OF assms refl] by blast

section \<open>A crash during a rotation\<close>

text \<open>Every state but the last has the old notebook and a longer archive, so nothing is lost; and once the
  append is complete, the rotation after the restart ends with the same files.\<close>

lemma rotation_states:
  assumes "u \<in> set (rotate_notes sound_disk True m aid s)"
  shows "u = last (rotate_notes sound_disk True m aid s) \<or> sh_memory u = sh_memory s \<and> (\<exists>x. cold_text aid u = cold_text aid s @ x)"
proof -
  have a: "sh_memory v = sh_memory s \<and> (\<exists>x. cold_text aid v = cold_text aid s @ x)"
    if "v \<in> set (append_states (archive_path aid) old s)" for v old
    using that by (auto simp: append_states_def cold_text_def split: option.split)
  show ?thesis
    using assms a by (auto simp: rotate_notes_def sound_disk_def Let_def split: option.splits prod.splits if_splits)
qed

lemma rotation_restarts:
  assumes "is_valid_agent_id aid" "sh_memory s (agent_notes_rel_path aid) = Some raw"
    and "parse_notes (universal_newlines raw) = Some (kp, body)"
    and "0 < m" "m < int (length (log_entries body))"
    and "cold_text aid s = [] \<or> ends_line (cold_text aid s)"
    and "sh_memory u = sh_memory s" "cold_text aid u = cold_text aid (last (rotate_notes sound_disk True m aid s))"
  shows "sh_memory (last (rotate_notes sound_disk True m aid u)) (agent_notes_rel_path aid)
      = sh_memory (last (rotate_notes sound_disk True m aid s)) (agent_notes_rel_path aid)
    \<and> cold_text aid (last (rotate_notes sound_disk True m aid u)) = cold_text aid (last (rotate_notes sound_disk True m aid s))"
proof -
  let ?n = "keep_recent m" and ?es = "log_entries body" and ?t = "last (rotate_notes sound_disk True m aid s)"
  have um: "sh_memory u (agent_notes_rel_path aid) = Some raw" using assms(2,7) by simp
  have hot: "hot_ids aid s = map fst ?es" by (simp add: hot_ids_def assms(2,3))
  have "cold_ids aid u = cold_ids aid ?t" by (simp add: cold_ids_def assms(8))
  also have "\<dots> = cold_ids aid s @ rev (filter (\<lambda>w. w \<notin> set (cold_ids aid s)) (drop ?n (hot_ids aid s)))"
    using rotation_writes [OF assms(2-5)] archived_new [OF assms(1-6)] by simp
  finally have "fst e \<in> set (cold_ids aid u)" if "e \<in> set (drop ?n ?es)" for e
    using that by (auto simp: hot drop_map)
  then have "to_archive (cold_ids aid u) (drop ?n ?es) = []"
    by (auto simp: to_archive_def filter_empty_conv)
  then show ?thesis
    using rotation_writes [OF um assms(3-5)] rotation_writes [OF assms(2-5)] assms(8) by simp
qed

end
