(* ===== verification/Notes_Flow.thy ===== *)
theory Notes_Flow
  imports Notes_Parse Uuid7
begin

text \<open>
  What adding and rotating do to a notebook: an addition leaves every text in place, a rotation
  moves the oldest entries to the archive and keeps the part written by hand, and what it drops
  are the entries whose id is already in the archive.
\<close>

section \<open>Rotations\<close>

text \<open>C35: A rotation is exact, text by text. When the log holds more than the configured number of
  entries: the notebook down to the header line of the log stays as it is, character by character;
  below it come the text before the first entry and the newest entries with all their lines, half
  the configured number (at least one), and the pointer to the archive. The archive keeps what it
  has and gains, oldest first, the full text of each overflowing entry whose id it does not hold
  yet. No other file changes. Read again, the log lists the ids of the kept entries and the archive
  those it had and those it gained; so nothing is lost if and only if no overflowing entry shares
  its id with an archived one.\<close>

theorem rotation_exact:
  assumes "is_valid_agent_id aid" "sh_memory s (agent_notes_rel_path aid) = Some raw"
    and "parse_notes (universal_newlines raw) = Some (kp, body)"
    and "0 < m" "m < int (length (log_entries body))"
    and "cold_text aid s = [] \<or> ends_line (cold_text aid s)"
    and "t = last (rotate_notes sound_disk True m aid s)"
  shows "\<exists>top line rest lead es. universal_newlines raw = kp @ rest
    \<and> kp = top @ log_header @ line @ newline \<and> CHR 0x0A \<notin> set line
    \<and> entries_of (concat (filter (\<lambda>l. \<not> is_pointer l) (lines_of rest))) lead es \<and> map fst es = hot_ids aid s
    \<and> sh_memory t = (sh_memory s)(agent_notes_rel_path aid
        \<mapsto> kp @ lead @ concat (map snd (take (keep_recent m) es)) @ pointer_line aid)
    \<and> cold_text aid t = cold_text aid s
        @ concat (map (nl_ended \<circ> snd) (rev (filter (\<lambda>e. fst e \<notin> set (cold_ids aid s)) (drop (keep_recent m) es))))
    \<and> (\<forall>p. p \<noteq> archive_path aid \<longrightarrow> sh_store t p = sh_store s p)
    \<and> hot_ids aid t = take (keep_recent m) (hot_ids aid s)
    \<and> cold_ids aid t = cold_ids aid s
        @ rev (filter (\<lambda>w. w \<notin> set (cold_ids aid s)) (drop (keep_recent m) (hot_ids aid s)))"
proof -
  obtain rest where rest: "universal_newlines raw = kp @ rest" "body = strip_pointers rest"
    using parse_notes_again(3) [OF assms(3)] by blast
  obtain top line where kp: "kp = top @ log_header @ line @ newline" "CHR 0x0A \<notin> set line"
    using parse_notes_again(4) [OF assms(3)] by blast
  have log: "entries_of (concat (filter (\<lambda>l. \<not> is_pointer l) (lines_of rest))) (leading_text body) (log_entries body)"
    using entries_of_log [of body] unfolding rest(2) strip_pointers_def .
  have hot: "map fst (log_entries body) = hot_ids aid s" by (simp add: hot_ids_def assms(2,3))
  note w = rotation_writes [OF assms(2-5), folded assms(7), unfolded to_archive_def rev_filter [symmetric]]
  note c = rotated [OF assms]
  show ?thesis
    by (rule exI [of _ top], rule exI [of _ line], rule exI [of _ rest], rule exI [of _ "leading_text body"],
        rule exI [of _ "log_entries body"]) (intro conjI rest(1) kp log hot w [THEN conjunct1] w [THEN conjunct2, THEN conjunct1]
        w [THEN conjunct2, THEN conjunct2] c [THEN conjunct2, THEN conjunct1] c [THEN conjunct2, THEN conjunct2])
qed

section \<open>Short ids\<close>

lemma uchars_plain:
  "list_all (\<lambda>c. \<not> is_cont c) p \<Longrightarrow> q = [] \<or> \<not> is_cont (hd q) \<Longrightarrow> uchars (p @ q) = map (\<lambda>c. [c]) p @ uchars q"
proof (induction p)
  case (Cons c p)
  have "\<not> is_cont (hd (hd (uchars (p @ q))))" if "p @ q \<noteq> []"
    using hd_uchars [OF that] Cons.prems that by (cases p) auto
  with Cons show ?case by (cases "p @ q = []") (auto split: list.split)
qed simp

lemma hex_digit_ascii: "n < 16 \<Longrightarrow> \<not> is_cont (hex_digit n)"
  by (auto simp: hex_digit_def is_cont_def Let_def)

lemma hex2_ascii: "list_all (\<lambda>c. \<not> is_cont c) (hex2 b)"
proof -
  have "unat b < 256" using unsigned_less [of b, where 'a = nat] by simp
  then show ?thesis by (simp add: hex2_def hex_digit_ascii div_less_iff_less_mult)
qed

definition window_text :: "int \<Rightarrow> string" where
  "window_text w = concat (map hex2 [byte_of (drop_bit 24 w), byte_of (drop_bit 16 w), byte_of (drop_bit 8 w), byte_of w])"

text \<open>The first eight digits of an identifier count windows of 65.536 seconds.\<close>

lemma short_id: "utake 8 (uuid7 ms rand) = window_text (ms div 65536)"
proof -
  have w: "ms div 65536 = drop_bit 16 ms" by (simp add: drop_bit_eq_div)
  have len: "length (window_text (ms div 65536)) = 8" by (simp add: window_text_def hex2_def)
  have "\<exists>r. uuid7 ms rand = window_text (ms div 65536) @ CHR ''-'' # r"
    by (simp add: uuid7_def dashed_def uuid7_bytes_def window_text_def w hex2_def)
  then obtain r where r: "uuid7 ms rand = window_text (ms div 65536) @ CHR ''-'' # r" by blast
  have "list_all (\<lambda>c. \<not> is_cont c) (window_text (ms div 65536))" by (simp add: window_text_def hex2_ascii)
  then have "uchars (uuid7 ms rand) = map (\<lambda>c. [c]) (window_text (ms div 65536)) @ uchars (CHR ''-'' # r)"
    unfolding r by (rule uchars_plain) (simp add: is_cont_def)
  then have "utake 8 (uuid7 ms rand) = concat (map (\<lambda>c. [c]) (window_text (ms div 65536)))"
    by (simp add: utake_def len)
  then show ?thesis by simp
qed

text \<open>Entries of one burst overwrite each other in the archive. Let a wakeup whose entry is archived
  and a wakeup whose entry overflows have been drawn in the same window of 65.536 seconds: the log
  knows both by the same eight digits, so the rotation drops the second entry, from the notebook
  and from the archive.\<close>

theorem burst_entry_lost:
  assumes "is_valid_agent_id aid" "sh_memory s (agent_notes_rel_path aid) = Some raw"
    and "parse_notes (universal_newlines raw) = Some (kp, body)"
    and "0 < m" "m < int (length (log_entries body))"
    and "cold_text aid s = [] \<or> ends_line (cold_text aid s)"
    and "ms div 65536 = ms' div 65536"
    and "utake 8 (uuid7 ms rand) \<in> set (cold_ids aid s)"
    and "utake 8 (uuid7 ms' rand') \<in> set (drop (keep_recent m) (hot_ids aid s))"
    and "t = last (rotate_notes sound_disk True m aid s)"
  shows "count (mset (hot_ids aid t @ cold_ids aid t)) (utake 8 (uuid7 ms' rand'))
    < count (mset (hot_ids aid s @ cold_ids aid s)) (utake 8 (uuid7 ms' rand'))"
proof -
  let ?w = "utake 8 (uuid7 ms' rand')" and ?n = "keep_recent m"
  have w: "?w = utake 8 (uuid7 ms rand)" by (simp add: short_id assms(7))
  have t: "hot_ids aid t = take ?n (hot_ids aid s)"
    "cold_ids aid t = cold_ids aid s @ rev (filter (\<lambda>v. v \<notin> set (cold_ids aid s)) (drop ?n (hot_ids aid s)))"
    using rotated [OF assms(1-6,10)] by simp_all
  have "count (mset (hot_ids aid s)) ?w
      = count (mset (take ?n (hot_ids aid s))) ?w + count (mset (drop ?n (hot_ids aid s))) ?w"
    by (metis append_take_drop_id count_union mset_append)
  moreover have "0 < count (mset (drop ?n (hot_ids aid s))) ?w" using assms(9) by simp
  moreover have "?w \<notin># mset (rev (filter (\<lambda>v. v \<notin> set (cold_ids aid s)) (drop ?n (hot_ids aid s))))"
    using assms(8) w by simp
  then have "count (mset (rev (filter (\<lambda>v. v \<notin> set (cold_ids aid s)) (drop ?n (hot_ids aid s))))) ?w = 0"
    by (simp only: not_in_iff)
  ultimately show ?thesis by (simp add: t)
qed

section \<open>An addition\<close>

definition contains :: "string \<Rightarrow> string \<Rightarrow> bool" where
  "contains p t \<longleftrightarrow> (\<exists>u v. t = u @ p @ v)"

text \<open>In place, possibly with something written in the middle of it.\<close>

definition kept_in :: "string \<Rightarrow> string \<Rightarrow> bool" where
  "kept_in p t \<longleftrightarrow> (\<exists>u a x b v. p = a @ b \<and> t = u @ a @ x @ b @ v)"

lemma insert_entry_splices:
  "\<exists>a b x. existing = a @ b \<and> insert_entry existing entry = a @ x @ entry @ b \<and> (b = [] \<or> ends_line a)"
proof -
  have whole: ?thesis if "insert_entry existing entry = existing @ x @ entry" for x
    using that by (metis append_Nil2)
  show ?thesis
  proof (cases "find_text log_header existing")
    case None
    then show ?thesis by (intro whole [of "sep_for existing @ newline @ log_header @ newline"]) (simp add: insert_entry_def)
  next
    case (Some p)
    then obtain bf fh where f: "find_text log_header existing = Some (bf, fh)" by (cases p) auto
    show ?thesis
    proof (cases "find_text newline fh")
      case None
      with f show ?thesis by (intro whole [of newline]) (simp add: insert_entry_def)
    next
      case (Some q)
      then obtain hd' rest where g: "find_text newline fh = Some (hd', rest)" by (cases q) auto
      have "existing = bf @ hd' @ rest" "rest = newline @ tl rest"
        using find_text_Some [OF f] find_text_Some [OF g] find_newline [OF g] by simp_all
      then have "existing = (bf @ hd' @ newline) @ tl rest" by simp
      moreover have "ends_line (bf @ hd' @ newline)" by (simp add: newline_def)
      moreover have "insert_entry existing entry = (bf @ hd' @ newline) @ [] @ entry @ tl rest"
        using f g by (simp add: insert_entry_def)
      ultimately show ?thesis by blast
    qed
  qed
qed

lemma insert_keeps:
  assumes "contains p existing"
  shows "kept_in p (insert_entry existing entry)"
proof -
  obtain a b x where s: "existing = a @ b" "insert_entry existing entry = a @ x @ entry @ b"
    using insert_entry_splices [of existing entry] by blast
  from assms obtain u v where "existing = u @ p @ v" by (auto simp: contains_def)
  with s(1) have "u @ p @ v = a @ b" by simp
  then consider c where "u = a @ c" "b = c @ p @ v" | c where "a = u @ c" "p @ v = c @ b"
    by (auto simp: append_eq_append_conv2)
  then show ?thesis
  proof cases
    case 1
    then have "insert_entry existing entry = (a @ x @ entry @ c) @ p @ [] @ [] @ v" using s(2) by simp
    then show ?thesis unfolding kept_in_def by (metis append_Nil2)
  next
    case 2
    then consider e where "c = p @ e" "v = e @ b" | e where "p = c @ e" "b = e @ v"
      by (auto simp: append_eq_append_conv2)
    then show ?thesis
    proof cases
      case 1
      then have "insert_entry existing entry = u @ p @ [] @ [] @ e @ x @ entry @ b" using s(2) 2(1) by simp
      then show ?thesis unfolding kept_in_def by (metis append_Nil2)
    next
      case e: 2
      then have "insert_entry existing entry = u @ c @ (x @ entry) @ e @ v" using s(2) 2(1) by simp
      then show ?thesis unfolding kept_in_def using e(1) by metis
    qed
  qed
qed

text \<open>A text within one line is not cut.\<close>

lemma insert_contains:
  assumes "contains p existing" "CHR 0x0A \<notin> set p"
  shows "contains p (insert_entry existing entry)"
proof -
  obtain a b x where s: "existing = a @ b" "insert_entry existing entry = a @ x @ entry @ b" "b = [] \<or> ends_line a"
    using insert_entry_splices [of existing entry] by blast
  from assms obtain u v where "existing = u @ p @ v" by (auto simp: contains_def)
  with s(1) have "u @ p @ v = a @ b" by simp
  then consider c where "u = a @ c" "b = c @ p @ v" | c where "a = u @ c" "p @ v = c @ b"
    by (auto simp: append_eq_append_conv2)
  then show ?thesis
  proof cases
    case 1
    then have "insert_entry existing entry = (a @ x @ entry @ c) @ p @ v" using s(2) by simp
    then show ?thesis unfolding contains_def by blast
  next
    case 2
    then consider e where "c = p @ e" "v = e @ b" | e where "p = c @ e" "b = e @ v"
      by (auto simp: append_eq_append_conv2)
    then show ?thesis
    proof cases
      case 1
      then have "insert_entry existing entry = u @ p @ e @ x @ entry @ b" using s(2) 2(1) by simp
      then show ?thesis unfolding contains_def by metis
    next
      case e: 2
      have "e = [] \<or> c = [] \<or> b = []"
      proof (rule ccontr)
        assume "\<not> (e = [] \<or> c = [] \<or> b = [])"
        with s(3) 2(1) have "c \<noteq> []" "last c = CHR 0x0A" by (auto simp: ends_line_def split: if_splits)
        then have "CHR 0x0A \<in> set p" using e(1) by (metis Un_iff last_in_set set_append)
        with assms(2) show False by simp
      qed
      then have "insert_entry existing entry = u @ p @ x @ entry @ v \<or> insert_entry existing entry = (u @ x @ entry) @ p @ v"
        using s(2) 2(1) e by auto
      then show ?thesis unfolding contains_def by metis
    qed
  qed
qed

lemma contains_here: "contains p (u @ p @ v)"
  unfolding contains_def by (intro exI) (rule refl)

lemma contains_find: "contains p t \<longleftrightarrow> find_text p t \<noteq> None"
proof
  assume "contains p t"
  then obtain u v where t: "t = u @ p @ v" by (auto simp: contains_def)
  have "find_text p (p @ v) \<noteq> None"
  proof (cases "p @ v")
    case (Cons c s)
    have "take (length p) (p @ v) = p" by simp
    then have "take (length p) (c # s) = p" unfolding Cons .
    with Cons show ?thesis by simp
  qed simp
  then have "find_text p (u @ p @ v) \<noteq> None" by (induction u) auto
  with t show "find_text p t \<noteq> None" by simp
next
  assume "find_text p t \<noteq> None"
  then obtain a b where "find_text p t = Some (a, b)" by auto
  from find_text_Some [OF this] have ab: "t = a @ b" "take (length p) b = p" by simp_all
  have "b = p @ drop (length p) b" using ab(2) append_take_drop_id [of "length p" b] by simp
  then have "t = a @ p @ drop (length p) b" using ab(1) by simp
  then show "contains p t" unfolding contains_def by blast
qed

lemma universal_append2:
  "x = [] \<or> hd x \<noteq> CHR 0x0A \<Longrightarrow> universal_newlines (u @ x) = universal_newlines u @ universal_newlines x"
proof (induction u rule: universal_newlines.induct)
  case (2 c)
  then show ?case by (cases x) (auto simp: newline_def)
next
  case (3 c d u)
  then show ?case by auto
qed simp

lemma universal_plain: "CHR 0x0D \<notin> set p \<Longrightarrow> universal_newlines (p @ v) = p @ universal_newlines v"
proof (induction p)
  case (Cons c p)
  then show ?case by (cases "p @ v") auto
qed simp

lemma universal_contains:
  assumes "contains p t" "CHR 0x0D \<notin> set p" "p \<noteq> []" "hd p \<noteq> CHR 0x0A"
  shows "contains p (universal_newlines t)"
proof -
  from assms(1) obtain u v where "t = u @ p @ v" by (auto simp: contains_def)
  moreover have "p @ v = [] \<or> hd (p @ v) \<noteq> CHR 0x0A" using assms(3,4) by simp
  ultimately have "universal_newlines t = universal_newlines u @ p @ universal_newlines v"
    by (simp add: universal_append2 universal_plain assms(2))
  then show ?thesis unfolding contains_def by blast
qed

definition notes_text :: "string \<Rightarrow> shelf \<Rightarrow> string" where
  "notes_text aid s = (case sh_memory s (agent_notes_rel_path aid) of None \<Rightarrow> [] | Some raw \<Rightarrow> universal_newlines raw)"

lemma flat_no_slash: "CHR ''/'' \<notin> set (flat_id aid)"
  by (auto simp: flat_id_def)

lemma stray_elsewhere: "CHR ''/'' \<in> set aid \<Longrightarrow> stray_path aid \<noteq> agent_notes_rel_path aid"
  using flat_no_slash [of aid] by (auto simp: stray_path_def agent_notes_rel_path_def)

lemma with_stray_cases:
  assumes "with_stray df aid old s = (nt, legacy)"
  shows "\<exists>z. nt = old @ z"
    and "legacy \<Longrightarrow> CHR ''/'' \<in> set aid \<and> (\<exists>raw. sh_memory s (stray_path aid) = Some raw \<and>
       (contains stray_marker old \<or> contains (strip (universal_newlines raw)) nt \<and> (strip (universal_newlines raw) = [] \<or> contains stray_marker nt)))"
proof -
  show "\<exists>z. nt = old @ z"
    using assms by (auto simp: with_stray_def Let_def split: option.splits if_splits)
  assume legacy
  with assms obtain raw where r: "CHR ''/'' \<in> set aid" "sh_memory s (stray_path aid) = Some raw"
    by (auto simp: with_stray_def split: option.splits if_splits)
  show "CHR ''/'' \<in> set aid \<and> (\<exists>raw. sh_memory s (stray_path aid) = Some raw \<and>
       (contains stray_marker old \<or> contains (strip (universal_newlines raw)) nt \<and> (strip (universal_newlines raw) = [] \<or> contains stray_marker nt)))"
  proof (cases "contains stray_marker old \<or> strip (universal_newlines raw) = []")
    case True
    have "contains [] nt" using contains_here [of "[]" "[]" nt] by simp
    with True r show ?thesis by auto
  next
    case False
    let ?z = "strip (universal_newlines raw)"
    have "find_text stray_marker old = None" using False contains_find by blast
    then have t: "nt = old @ sep_for old @ newline @ stray_marker @ newline @ ?z @ newline"
      using assms \<open>legacy\<close> r False by (auto simp: with_stray_def Let_def split: if_splits)
    have "nt = (old @ sep_for old @ newline @ stray_marker @ newline) @ ?z @ newline"
      "nt = (old @ sep_for old @ newline) @ stray_marker @ newline @ ?z @ newline" by (simp_all add: t)
    then have "contains ?z nt" "contains stray_marker nt" unfolding contains_def by blast+
    with r show ?thesis by blast
  qed
qed

lemma append_cases:
  assumes "append_to_notes df now aid wid summary s = (e, ss)"
    and "with_stray df aid (notes_text aid s) s = (nt, legacy)"
    and "s1 = put_memory (agent_notes_rel_path aid) (insert_entry nt (log_entry now wid summary)) s"
  shows "ss = [s] \<and> df \<noteq> sound_disk
    \<or> e = None \<and> ss = [s, s1] @ (if legacy \<and> \<not> df_unlink df (stray_path aid)
         then [s1\<lparr>sh_memory := (sh_memory s1)(stray_path aid := None)\<rparr>] else [])"
proof -
  have old: "(case sh_memory s (agent_notes_rel_path aid) of None \<Rightarrow> [] | Some raw \<Rightarrow> universal_newlines raw) = notes_text aid s"
    by (simp add: notes_text_def)
  have df: "df_read df p \<or> df_write df p \<Longrightarrow> df \<noteq> sound_disk" for p by (auto simp: sound_disk_def)
  show ?thesis
    using assms(1) df unfolding append_to_notes_def Let_def old assms(2) assms(3) [symmetric] prod.case
    by (auto split: if_splits)
qed

text \<open>C36: An addition loses nothing, wherever it is cut short. Every state it goes through has either the old
  files, or a notebook that holds all of the old text in place (at most with the new entry written
  into it) and the new entry as a whole; the stray notebook goes away only when its text is in the
  notebook, now or from an earlier merge; no other file and nothing in the archive changes. On a
  sound disk the entry is added.\<close>

theorem append_keeps:
  assumes "append_to_notes df now aid wid summary s = (e, ss)" "t \<in> set ss"
  shows "sh_store t = sh_store s
    \<and> (\<forall>p. p = agent_notes_rel_path aid \<or> p = stray_path aid \<or> sh_memory t p = sh_memory s p)
    \<and> (t = s \<or> (\<exists>nt. sh_memory t (agent_notes_rel_path aid) = Some nt
        \<and> kept_in (notes_text aid s) nt \<and> contains (log_entry now wid summary) nt
        \<and> (CHR ''/'' \<notin> set aid \<or> sh_memory t (stray_path aid) = sh_memory s (stray_path aid)
           \<or> (\<exists>raw. sh_memory s (stray_path aid) = Some raw
                \<and> (contains stray_marker (notes_text aid s) \<or> kept_in (strip (universal_newlines raw)) nt)))))
    \<and> (df = sound_disk \<longrightarrow> e = None \<and> (\<exists>nt. sh_memory (last ss) (agent_notes_rel_path aid) = Some nt
        \<and> contains (log_entry now wid summary) nt))"
proof -
  let ?path = "agent_notes_rel_path aid" and ?en = "log_entry now wid summary"
  obtain nt legacy where w: "with_stray df aid (notes_text aid s) s = (nt, legacy)" by force
  let ?s1 = "put_memory ?path (insert_entry nt ?en) s"
  let ?s2 = "?s1\<lparr>sh_memory := (sh_memory ?s1)(stray_path aid := None)\<rparr>"
  obtain z where z: "nt = notes_text aid s @ z" using with_stray_cases(1) [OF w] by blast
  have "contains (notes_text aid s) nt" unfolding z using contains_here [of _ "[]"] by simp
  then have keep: "kept_in (notes_text aid s) (insert_entry nt ?en)" by (rule insert_keeps)
  have entry: "contains ?en (insert_entry nt ?en)"
  proof -
    obtain a b x where "insert_entry nt ?en = (a @ x) @ ?en @ b" using insert_entry_splices [of nt ?en] by auto
    then show ?thesis by (simp only: contains_here)
  qed
  have m1: "sh_memory ?s1 ?path = Some (insert_entry nt ?en)" "sh_store ?s1 = sh_store s"
    "p \<noteq> ?path \<Longrightarrow> sh_memory ?s1 p = sh_memory s p" for p by (simp_all add: put_memory_def)
  from append_cases [OF assms(1) w refl] show ?thesis
  proof
    assume "ss = [s] \<and> df \<noteq> sound_disk"
    with assms(2) show ?thesis by simp
  next
    assume a: "e = None \<and> ss = [s, ?s1] @ (if legacy \<and> \<not> df_unlink df (stray_path aid) then [?s2] else [])"
    show ?thesis
    proof (cases "legacy \<and> \<not> df_unlink df (stray_path aid)")
      case True
      then have l: "CHR ''/'' \<in> set aid" "\<exists>raw. sh_memory s (stray_path aid) = Some raw \<and>
          (contains stray_marker (notes_text aid s) \<or> kept_in (strip (universal_newlines raw)) (insert_entry nt ?en))"
        using with_stray_cases(2) [OF w] insert_keeps [of _ nt ?en] by blast+
      have ne: "stray_path aid \<noteq> ?path" using l(1) by (rule stray_elsewhere)
      have "sh_memory ?s1 (stray_path aid) = sh_memory s (stray_path aid)" using m1(3) [OF ne] .
      moreover have "sh_memory ?s2 ?path = Some (insert_entry nt ?en)" "sh_store ?s2 = sh_store s" using m1(1,2) ne by simp_all
      moreover have "p = ?path \<or> p = stray_path aid \<or> sh_memory ?s2 p = sh_memory s p" for p by (simp add: put_memory_def)
      moreover have "p = ?path \<or> p = stray_path aid \<or> sh_memory ?s1 p = sh_memory s p" for p by (simp add: put_memory_def)
      moreover have "t = s \<or> t = ?s1 \<or> t = ?s2" "last ss = ?s2" "e = None" using a True assms(2) by auto
      ultimately show ?thesis using keep entry l(2) m1(1,2) by (elim disjE) simp_all
    next
      case False
      have "CHR ''/'' \<notin> set aid \<or> sh_memory ?s1 (stray_path aid) = sh_memory s (stray_path aid)"
        using m1(3) stray_elsewhere [of aid] by blast
      moreover have "p = ?path \<or> p = stray_path aid \<or> sh_memory ?s1 p = sh_memory s p" for p by (simp add: put_memory_def)
      moreover have "t = s \<or> t = ?s1" "last ss = ?s1" "e = None" using a False assms(2) by auto
      ultimately show ?thesis using keep entry m1(1,2) by (elim disjE) simp_all
    qed
  qed
qed

section \<open>The new entry\<close>

text \<open>A summary that looks like text: no carriage return, and no line that could be taken for the header
  of an entry or for a pointer to the archive.\<close>

definition tame :: "string \<Rightarrow> bool" where
  "tame summary \<longleftrightarrow> CHR 0x0D \<notin> set (strip summary)
     \<and> list_all (\<lambda>l. entry_id l = None \<and> \<not> is_pointer l) (lines_of (strip summary @ newline))"

lemma entry_header_line:
  assumes "stamp_shape st" "w \<noteq> []" "list_all is_hex w"
  shows "entry_id (''### '' @ st @ wakeup_mark @ w @ newline) = Some w"
  unfolding entry_id_iff
  using assms newline_not_hex by (intro exI [of _ st] exI [of _ newline]) (simp add: newline_is_space, simp add: newline_def)

lemma wakeup_mark_plain: "CHR 0x0A \<notin> set wakeup_mark" "CHR 0x0D \<notin> set wakeup_mark" "wakeup_mark \<noteq> []"
proof -
  have "CHR 0x0A \<noteq> char_of (194 :: nat)" "CHR 0x0A \<noteq> char_of (183 :: nat)" "CHR 0x0D \<noteq> char_of (194 :: nat)" "CHR 0x0D \<noteq> char_of (183 :: nat)"
    by (auto dest!: arg_cong [where f = "of_char :: char \<Rightarrow> nat"])
  then show "CHR 0x0A \<notin> set wakeup_mark" "CHR 0x0D \<notin> set wakeup_mark" "wakeup_mark \<noteq> []"
    by (simp_all add: wakeup_mark_def bytes_def)
qed

lemma stamp_plain: "stamp_shape st \<Longrightarrow> c \<in> {CHR 0x0A, CHR 0x0D} \<Longrightarrow> c \<notin> set st"
proof
  assume s: "stamp_shape st" and c: "c \<in> {CHR 0x0A, CHR 0x0D}" and "c \<in> set st"
  then obtain k where k: "k < length st" "st ! k = c" by (auto simp: in_set_conv_nth)
  let ?p = "''dddd-dd-ddTdd:dd:ddZ''"
  have "if ?p ! k = CHR ''d'' then is_digit c else ?p ! k = c"
    using s k unfolding stamp_shape_def by (auto simp: list_all2_conv_all_nth)
  moreover have "\<not> is_digit c" using c by (auto simp: is_digit_def)
  moreover have "k < length ?p" using s k by (simp add: stamp_length)
  then have "?p ! k \<in> set ?p" by (rule nth_mem)
  then have "?p ! k \<noteq> c" using c by auto
  ultimately show False by (auto split: if_splits)
qed

lemma hex_plain: "list_all is_hex w \<Longrightarrow> c \<in> {CHR 0x0A, CHR 0x0D} \<Longrightarrow> c \<notin> set w"
proof -
  have "\<not> is_hex CHR 0x0A" "\<not> is_hex CHR 0x0D" by (simp_all add: is_hex_def)
  then show "list_all is_hex w \<Longrightarrow> c \<in> {CHR 0x0A, CHR 0x0D} \<Longrightarrow> c \<notin> set w" by (auto simp: list_all_iff)
qed

lemma four_pieces:
  "ends_line h \<Longrightarrow> lines_of (newline @ h @ (q @ newline) @ r) = [newline] @ lines_of h @ lines_of (q @ newline) @ lines_of r"
proof -
  assume h: "ends_line h"
  have "lines_of newline = [newline]" by (simp add: newline_def)
  moreover have "ends_line (q @ newline)" by (simp add: newline_def)
  ultimately show ?thesis using h by (simp only: lines_append ends_newline simp_thms)
qed

lemma entry_lines:
  assumes "stamp_shape (iso_text now)" "utake 8 wid \<noteq> []" "list_all is_hex (utake 8 wid)" "tame summary"
  shows "lines_of (strip_pointers (log_entry now wid summary @ r))
      = [newline, ''### '' @ iso_text now @ wakeup_mark @ utake 8 wid @ newline] @ lines_of (strip summary @ newline)
        @ lines_of (strip_pointers r)"
    and "CHR 0x0D \<notin> set (log_entry now wid summary)"
proof -
  let ?h = "''### '' @ iso_text now @ wakeup_mark @ utake 8 wid @ newline"
  have inner: "CHR 0x0A \<notin> set (''### '' @ iso_text now @ wakeup_mark @ utake 8 wid)"
    using stamp_plain [OF assms(1)] hex_plain [OF assms(3)] wakeup_mark_plain by auto
  have line: "is_line ?h"
    using inner by (auto simp: is_line_def butlast_append newline_def)
  obtain h where h: "h = ?h" by blast
  have hl: "lines_of h = [h]" using line by (simp only: h lines_of_line)
  have hp: "\<not> is_pointer h" by (simp add: h is_pointer_def pointer_start_def)
  have he: "ends_line h" by (simp add: h newline_def)
  have "log_entry now wid summary @ r = newline @ h @ (strip summary @ newline) @ r" by (simp add: log_entry_def h)
  then have "lines_of (log_entry now wid summary @ r) = [newline] @ [h] @ lines_of (strip summary @ newline) @ lines_of r"
    using four_pieces [OF he, of "strip summary" r] by (simp only: hl)
  moreover have "filter (\<lambda>l. \<not> is_pointer l) (lines_of (strip summary @ newline)) = lines_of (strip summary @ newline)"
    using assms(4) by (simp add: tame_def list_all_iff filter_id_conv)
  ultimately show "lines_of (strip_pointers (log_entry now wid summary @ r)) = [newline, ?h] @ lines_of (strip summary @ newline)
        @ lines_of (strip_pointers r)"
    unfolding h [symmetric] by (simp add: stripped_lines newline_plain hp)
  show "CHR 0x0D \<notin> set (log_entry now wid summary)"
    using stamp_plain [OF assms(1)] hex_plain [OF assms(3)] wakeup_mark_plain assms(4)
    by (auto simp: log_entry_def newline_def tame_def)
qed

text \<open>The entry becomes the newest of the log.\<close>

lemma entry_is_newest:
  assumes "stamp_shape (iso_text now)" "utake 8 wid \<noteq> []" "list_all is_hex (utake 8 wid)" "tame summary"
    and "parse_notes old = Some (kp, body)" "CHR 0x0D \<notin> set old"
  shows "\<exists>body'. parse_notes (universal_newlines (insert_entry old (log_entry now wid summary))) = Some (kp, body')
    \<and> map fst (log_entries body') = utake 8 wid # map fst (log_entries body)"
proof -
  obtain r0 where r0: "old = kp @ r0" "body = strip_pointers r0" using parse_notes_again(3) [OF assms(5)] by blast
  have ins: "insert_entry old e = kp @ e @ r0" for e
  proof -
    obtain bf fh where f: "find_text log_header old = Some (bf, fh)" using assms(5) by (auto simp: parse_notes_def split: option.splits)
    then obtain h rest where g: "find_text newline fh = Some (h, rest)" "kp = bf @ h @ newline"
      using assms(5) by (auto simp: parse_notes_def split: option.splits)
    have "old = bf @ h @ rest" "rest = newline @ tl rest"
      using find_text_Some [OF f] find_text_Some [OF g(1)] find_newline [OF g(1)] by simp_all
    then have "old = kp @ tl rest" using g(2) by simp
    then have "tl rest = r0" using r0(1) by simp
    then show ?thesis using f g by (simp add: insert_entry_def)
  qed
  note e = entry_lines [OF assms(1-4)]
  have "universal_newlines (insert_entry old (log_entry now wid summary)) = kp @ log_entry now wid summary @ r0"
    unfolding ins using assms(6) e(2) by (intro universal_id) (simp add: r0(1))
  moreover have "map fst (log_entries (strip_pointers (log_entry now wid summary @ r0))) = utake 8 wid # map fst (log_entries body)"
  proof -
    have "List.map_filter entry_id (lines_of (strip summary @ newline)) = []"
      using assms(4) by (simp add: tame_def list_all_iff List.map_filter_def filter_empty_conv)
    moreover have "List.map_filter entry_id ([newline, h] @ a @ b) = w # List.map_filter entry_id b"
      if "List.map_filter entry_id a = []" "entry_id h = Some w" for h a b w
      using that by (simp add: List.map_filter_def newline_plain)
    ultimately show ?thesis
      unfolding log_entries_def blocks_ids e(1) r0(2) using entry_header_line [OF assms(1-3)] by blast
  qed
  ultimately show ?thesis using parse_notes_again(1) [OF assms(5)] by simp
qed

lemma entry_ids_entry:
  assumes "stamp_shape (iso_text now)" "utake 8 wid \<noteq> []" "list_all is_hex (utake 8 wid)" "tame summary"
  shows "entry_ids (universal_newlines (log_entry now wid summary)) = [utake 8 wid]"
proof -
  let ?h = "''### '' @ iso_text now @ wakeup_mark @ utake 8 wid @ newline"
  obtain h where h: "h = ?h" by blast
  have w: "entry_id h = Some (utake 8 wid)" unfolding h using entry_header_line [OF assms(1-3)] by simp
  have "lines_of h = [h]"
  proof -
    have "CHR 0x0A \<notin> set (''### '' @ iso_text now @ wakeup_mark @ utake 8 wid)"
      using stamp_plain [OF assms(1)] hex_plain [OF assms(3)] wakeup_mark_plain by auto
    then have "is_line ?h" by (auto simp: is_line_def butlast_append newline_def)
    then show ?thesis by (simp only: h lines_of_line)
  qed
  moreover have "ends_line h" by (simp add: h newline_def)
  moreover have "log_entry now wid summary = newline @ h @ (strip summary @ newline) @ []" by (simp add: log_entry_def h)
  ultimately have l: "lines_of (log_entry now wid summary) = [newline] @ [h] @ lines_of (strip summary @ newline)"
    using four_pieces [of h "strip summary" "[]"] by simp
  have "List.map_filter entry_id (lines_of (strip summary @ newline)) = []"
    using assms(4) by (simp add: tame_def list_all_iff List.map_filter_def filter_empty_conv)
  then have "entry_ids (log_entry now wid summary) = [utake 8 wid]"
    by (simp add: entry_ids_def l List.map_filter_def newline_plain w)
  then show ?thesis using entry_lines(2) [OF assms] by (simp add: universal_id)
qed

section \<open>A sample\<close>

lemma sample_codes:
  "char_of (48::nat) = CHR ''0''" "char_of (49::nat) = CHR ''1''" "char_of (55::nat) = CHR ''7''" "char_of (57::nat) = CHR ''9''"
  by (simp_all add: char_of_eq_iff)

lemma sample_stamp: "iso_text 0 = ''1970-01-01T00:00:00Z''"
proof -
  have "civil 0 = (1970, 1, 1)" by code_simp
  moreover have "digits_of 1970 = ''1970''" "digits_of (Suc 0) = ''1''" "digits_of 0 = ''0''"
    by (simp_all add: digits_of.simps [of 1970] digits_of.simps [of 197] digits_of.simps [of 19] digits_of.simps [of 1]
        digits_of.simps [of "Suc 0"] digits_of.simps [of 0] sample_codes)
  ultimately show ?thesis by (simp add: iso_text_def sec_text_def pad_def zero_pad_def Let_def)
qed

lemma sample_shape: "stamp_shape (iso_text 0)"
  by (simp add: sample_stamp stamp_shape_def is_digit_def)

lemma sample_tame: "tame ''- done''"
  by (simp add: tame_def strip_def is_cont_def is_space_single newline_def entry_id_def is_pointer_def
      pointer_start_def wakeup_mark_def Let_def)

lemma sample_short:
  "utake 8 ''00000000'' = ''00000000''" "utake 8 ''00000001'' = ''00000001''" "window_text 0 = ''00000000''"
  by (simp_all add: utake_def is_cont_def window_text_def hex2_def byte_of_def hex_digit_def sample_codes)

lemma sample_hex: "is_hex CHR ''0''" "is_hex CHR ''1''"
  by (simp_all add: is_hex_def)

lemma sample_valid: "is_valid_agent_id ''worker''"
  by (simp add: is_valid_agent_id_def is_lower_def id_char_def)

lemma empty_log: "parse_notes (log_header @ newline) = Some (log_header @ newline, [])" "CHR 0x0D \<notin> set (log_header @ newline)"
  by (simp_all add: parse_notes_def log_header_def newline_def strip_pointers_def)

definition one_entry :: string where
  "one_entry = universal_newlines (insert_entry (log_header @ newline) (log_entry 0 ''00000000'' ''- done''))"

definition two_entries :: string where
  "two_entries = universal_newlines (insert_entry one_entry (log_entry 0 ''00000001'' ''- done''))"

lemma two_entries_log:
  obtains body where "parse_notes (universal_newlines two_entries) = Some (log_header @ newline, body)"
    "map fst (log_entries body) = [''00000001'', ''00000000'']"
proof -
  have "log_entries [] = []" by (simp add: log_entries_def)
  then obtain b1 where b1: "parse_notes one_entry = Some (log_header @ newline, b1)" "map fst (log_entries b1) = [''00000000'']"
    using entry_is_newest [OF sample_shape _ _ sample_tame empty_log, of "''00000000''"]
    by (auto simp: sample_short sample_hex one_entry_def)
  have "CHR 0x0D \<notin> set one_entry" by (simp add: one_entry_def universal_no_cr)
  from entry_is_newest [OF sample_shape _ _ sample_tame b1(1) this, of "''00000001''"]
  obtain b2 where "parse_notes two_entries = Some (log_header @ newline, b2)"
    "map fst (log_entries b2) = ''00000001'' # map fst (log_entries b1)"
    by (auto simp: sample_short sample_hex two_entries_def)
  moreover have "universal_newlines two_entries = two_entries"
    by (intro universal_id) (simp add: two_entries_def universal_no_cr)
  ultimately show thesis using that b1(2) by simp
qed

definition crowded_shelf :: shelf where
  "crowded_shelf =
     \<lparr>sh_memory = [agent_notes_rel_path ''worker'' \<mapsto> two_entries],
      sh_store = [archive_path ''worker'' \<mapsto> log_entry 0 ''00000000'' ''- done'']\<rparr>"

lemma crowded_ids:
  "hot_ids ''worker'' crowded_shelf = [''00000001'', ''00000000'']" "cold_ids ''worker'' crowded_shelf = [''00000000'']"
  "ends_line (cold_text ''worker'' crowded_shelf)"
proof -
  obtain body where "parse_notes (universal_newlines two_entries) = Some (log_header @ newline, body)"
    "map fst (log_entries body) = [''00000001'', ''00000000'']" by (rule two_entries_log)
  then show "hot_ids ''worker'' crowded_shelf = [''00000001'', ''00000000'']" by (simp add: hot_ids_def crowded_shelf_def)
  show "cold_ids ''worker'' crowded_shelf = [''00000000'']"
    using entry_ids_entry [OF sample_shape _ _ sample_tame, of "''00000000''"]
    by (simp add: cold_ids_def cold_text_def crowded_shelf_def sample_short sample_hex)
  show "ends_line (cold_text ''worker'' crowded_shelf)"
    by (simp add: cold_text_def crowded_shelf_def log_entry_def newline_def)
qed

lemma rotation_exact_witness:
  "\<exists>lead blk. sh_memory (last (rotate_notes sound_disk True 1 ''worker'' crowded_shelf)) (agent_notes_rel_path ''worker'')
       = Some (log_header @ newline @ lead @ blk @ pointer_line ''worker'') \<and> entry_ids blk = [''00000001'']
   \<and> hot_ids ''worker'' (last (rotate_notes sound_disk True 1 ''worker'' crowded_shelf)) = [''00000001'']
   \<and> cold_text ''worker'' (last (rotate_notes sound_disk True 1 ''worker'' crowded_shelf)) = cold_text ''worker'' crowded_shelf"
proof -
  obtain body where b: "parse_notes (universal_newlines two_entries) = Some (log_header @ newline, body)"
    "map fst (log_entries body) = [''00000001'', ''00000000'']" by (rule two_entries_log)
  have m: "sh_memory crowded_shelf (agent_notes_rel_path ''worker'') = Some two_entries" by (simp add: crowded_shelf_def)
  have "length (log_entries body) = 2" using b(2) by (metis length_map length_Cons list.size(3) Suc_1 One_nat_def)
  then have l: "1 < int (length (log_entries body))" by simp
  let ?t = "last (rotate_notes sound_disk True 1 ''worker'' crowded_shelf)"
  have k: "keep_recent 1 = 1" by (simp add: keep_recent_def)
  obtain rest lead es where e: "entries_of rest lead es" "map fst es = [''00000001'', ''00000000'']"
    "sh_memory ?t = (sh_memory crowded_shelf)(agent_notes_rel_path ''worker''
        \<mapsto> (log_header @ newline) @ lead @ concat (map snd (take 1 es)) @ pointer_line ''worker'')"
    "cold_text ''worker'' ?t = cold_text ''worker'' crowded_shelf
        @ concat (map (nl_ended \<circ> snd) (rev (filter (\<lambda>e. fst e \<notin> set [''00000000'']) (drop 1 es))))"
    "hot_ids ''worker'' ?t = take 1 [''00000001'', ''00000000'']"
    using rotation_exact [OF sample_valid m b(1) zero_less_one l disjI2 [OF crowded_ids(3)] refl, unfolded k crowded_ids]
    by (elim exE conjE) (rule that; assumption)
  from e(2) obtain x y where es: "es = [(''00000001'', x), (''00000000'', y)]" by (cases es; cases "tl es") auto
  with e(1) obtain h xs where x: "lines_of x = h # xs" "entry_id h = Some ''00000001''" "list_all no_header xs"
    by (auto simp: entries_of_def)
  have "List.map_filter entry_id xs = []" using x(3) by (induction xs) (auto simp: List.map_filter_simps)
  then have "entry_ids x = [''00000001'']" by (simp add: entry_ids_def List.map_filter_simps x)
  moreover have "sh_memory ?t (agent_notes_rel_path ''worker'') = Some (log_header @ newline @ lead @ x @ pointer_line ''worker'')"
    by (simp add: e(3) es)
  moreover have "cold_text ''worker'' ?t = cold_text ''worker'' crowded_shelf" by (simp add: e(4) es)
  moreover have "hot_ids ''worker'' ?t = [''00000001'']" by (simp add: e(5))
  ultimately show ?thesis by (intro exI [of _ lead] exI [of _ x] conjI)
qed

lemma burst_entry_lost_witness:
  "count (mset (hot_ids ''worker'' (last (rotate_notes sound_disk True 1 ''worker'' crowded_shelf))
       @ cold_ids ''worker'' (last (rotate_notes sound_disk True 1 ''worker'' crowded_shelf)))) (utake 8 (uuid7 5 (replicate 10 0)))
   < count (mset (hot_ids ''worker'' crowded_shelf @ cold_ids ''worker'' crowded_shelf)) (utake 8 (uuid7 5 (replicate 10 0)))"
proof -
  obtain body where b: "parse_notes (universal_newlines two_entries) = Some (log_header @ newline, body)"
    "map fst (log_entries body) = [''00000001'', ''00000000'']" by (rule two_entries_log)
  have m: "sh_memory crowded_shelf (agent_notes_rel_path ''worker'') = Some two_entries" by (simp add: crowded_shelf_def)
  have "length (log_entries body) = 2" using b(2) by (metis length_map length_Cons list.size(3) Suc_1 One_nat_def)
  then have l: "1 < int (length (log_entries body))" by simp
  have w: "utake 8 (uuid7 0 (replicate 10 0)) = ''00000000''" "utake 8 (uuid7 5 (replicate 10 0)) = ''00000000''"
    by (simp_all add: short_id sample_short)
  show ?thesis
    by (rule burst_entry_lost [OF sample_valid m b(1) _ l disjI2 [OF crowded_ids(3)], of 0 5 "replicate 10 0"])
      (simp_all add: w crowded_ids keep_recent_def)
qed

lemma append_keeps_witness:
  "contains (log_entry 0 ''00000002'' ''- done'')
     (the (sh_memory (last (snd (append_to_notes sound_disk 0 ''worker'' ''00000002'' ''- done'' crowded_shelf)))
        (agent_notes_rel_path ''worker'')))"
proof -
  let ?a = "append_to_notes sound_disk 0 ''worker'' ''00000002'' ''- done'' crowded_shelf"
  have "?a = (fst ?a, snd ?a)" by simp
  moreover have "crowded_shelf \<in> set (snd ?a)" by (simp add: append_to_notes_def Let_def split: prod.split)
  ultimately show ?thesis using append_keeps [of sound_disk 0 "''worker''" "''00000002''" "''- done''" crowded_shelf "fst ?a" "snd ?a" crowded_shelf]
    by auto
qed

end
