(* ===== verification/Wakeup_Summary.thy ===== *)
theory Wakeup_Summary
  imports Notes_Flow Model_Router
begin

text \<open>
  The summary after a wakeup (\<open>runtime/wakeup_summary.py\<close>): one call of a cheap model condenses what
  the wakeup did, the result becomes an entry of the agent's notebook, and the log is rotated.
  Parameters (\<open>summary_env\<close>): the registry and the environment of the router, whether the adapter of
  an entry can be made, the stream of its call, the text of a float, and the disk.
\<close>

section \<open>The prompt\<close>

record summary_env =
  su_registry :: "model_entry list"
  su_environ :: env
  su_override :: "string option"
  su_clock :: rat
  su_adapter :: "model_entry \<Rightarrow> exn option"
  su_stream :: "model_entry \<Rightarrow> string \<Rightarrow> stream_event list \<times> exn option"
  su_float :: "rat \<Rightarrow> string"
  su_disk :: disk_faults
  su_store :: bool
  su_max :: int
  su_now :: usec

text \<open>What the wakeup hands over of its result.\<close>

record wakeup_result =
  wu_text :: string
  wu_calls :: "tool_use list"
  wu_stop :: "string option"
  wu_turns :: nat

definition truthy_or :: "json option \<Rightarrow> json \<Rightarrow> json" where
  "truthy_or v j = (if otruthy v then the v else j)"

text \<open>\<open>(inp.get("body") or "")[:300]\<close>: only texts and lists have a slice.\<close>

definition body_start :: "(rat \<Rightarrow> string) \<Rightarrow> dict \<Rightarrow> exn + string" where
  "body_start fl inp =
     (case truthy_or (dget inp ''body'') (JStr []) of
        JStr s \<Rightarrow> Inr (utake 300 s)
      | JArr xs \<Rightarrow> Inr (str_json fl (JArr (take 300 xs)))
      | _ \<Rightarrow> Inl not_subscriptable)"

definition send_line :: "(rat \<Rightarrow> string) \<Rightarrow> tool_use \<Rightarrow> exn + string" where
  "send_line fl tu =
     ebind (body_start fl (tu_input tu)) (\<lambda>body.
       Inr (''- to='' @ str_json fl (jopt (dget (tu_input tu) ''to'')) @ '' title=''
            @ str_json fl (truthy_or (dget (tu_input tu) ''title'') (JStr ''(no title)''))
            @ newline @ ''  body='' @ body))"

fun send_lines :: "(rat \<Rightarrow> string) \<Rightarrow> tool_use list \<Rightarrow> exn + string list" where
  "send_lines fl [] = Inr []"
| "send_lines fl (tu # tus) =
     ebind (send_line fl tu) (\<lambda>l. ebind (send_lines fl tus) (\<lambda>ls. Inr (l # ls)))"

definition tools_line :: "tool_use list \<Rightarrow> string list" where
  "tools_line tus =
     (let names = filter (\<lambda>n. n \<noteq> []) (map tu_name tus) in
      if names = [] then []
      else [newline @ ''Tools used: ''
            @ join '', '' (map (\<lambda>n. n @ ''x'' @ digits_of (count_list names n)) (sort (dedupe names)))])"

definition prompt_head :: "string \<Rightarrow> string" where
  "prompt_head persona =
     ''You are summarizing one wakeup of agent persona '' @ [CHR 0x27] @ persona @ [CHR 0x27] @ ''. ''
     @ ''Output ONLY 1-3 short bullet points (each a single line, <=120 chars). Capture (1) what the agent committed to / sent, ''
     @ ''(2) any open thread the agent left implied for next time. ''
     @ ''NO preamble, NO section headers, plain '' @ [CHR 0x27] @ ''- '' @ [CHR 0x27] @ '' bullets only.''"

definition build_prompt :: "(rat \<Rightarrow> string) \<Rightarrow> string \<Rightarrow> wakeup_result \<Rightarrow> exn + string option" where
  "build_prompt fl persona r =
     (let sends = filter (\<lambda>tu. tu_name tu = ''mailbox_send'') (wu_calls r);
          has_text = strip (wu_text r) \<noteq> [];
          stop = newline @ ''Stop: '' @ (case wu_stop r of None \<Rightarrow> ''None'' | Some x \<Rightarrow> x)
                 @ ''; turns: '' @ digits_of (wu_turns r) in
      if wu_calls r = [] \<and> \<not> has_text then Inr None
      else ebind (if sends \<noteq> []
              then ebind (send_lines fl (take 8 sends)) (\<lambda>ls. Inr ((newline @ ''Mail this wakeup sent:'') # ls))
              else Inr (tools_line (wu_calls r))) (\<lambda>ls.
           Inr (Some (join newline (prompt_head persona # ls
             @ (if has_text \<and> sends = [] then [newline @ ''Final text:'' @ newline @ utake 500 (wu_text r)] else [])
             @ [stop])))))"

section \<open>The call\<close>

definition stream_summary :: "stream_event list \<times> exn option \<Rightarrow> string" where
  "stream_summary st =
     (case summary_pieces (fst st) of (ts, fin) \<Rightarrow>
        (if \<not> fin \<and> snd st \<noteq> None then [] else strip (concat ts)))"

text \<open>The first candidate with something to say.\<close>

fun first_summary :: "summary_env \<Rightarrow> string \<Rightarrow> model_entry list \<Rightarrow> exn + string" where
  "first_summary env prompt [] = Inr []"
| "first_summary env prompt (e # es) =
     (case su_adapter env e of
        Some x \<Rightarrow> Inl x
      | None \<Rightarrow>
          (let t = stream_summary (su_stream env e prompt) in
           if t \<noteq> [] then Inr t else first_summary env prompt es))"

definition cheap_preference :: model_preference where
  "cheap_preference = \<lparr>mp_tier = Cheap, mp_requires = [''streaming''], mp_prefer = []\<rparr>"

text \<open>The text that is appended, \<open>None\<close> when there is nothing to say, no cheap model, or an exception.\<close>

definition summary_text ::
    "summary_env \<Rightarrow> string \<Rightarrow> wakeup_result \<Rightarrow> tracker \<Rightarrow> string option \<times> tracker" where
  "summary_text env persona r t =
     (case build_prompt (su_float env) persona r of
        Inl e \<Rightarrow> (None, t)
      | Inr None \<Rightarrow> (None, t)
      | Inr (Some prompt) \<Rightarrow>
          (case router_select (su_registry env) (su_environ env) (su_override env) cheap_preference (su_clock env) t of
             (Inl e, t') \<Rightarrow> (None, t')
           | (Inr es, t') \<Rightarrow>
               (case first_summary env prompt (filter (\<lambda>e. me_tier e = Cheap) es) of
                  Inl e \<Rightarrow> (None, t')
                | Inr s \<Rightarrow> (if s = [] then None else Some s, t'))))"

text \<open>The whole step: what it returns and the states of the files it goes through.\<close>

definition summarize_and_append ::
    "summary_env \<Rightarrow> string \<Rightarrow> string \<Rightarrow> string \<Rightarrow> wakeup_result \<Rightarrow> shelf \<Rightarrow> tracker
     \<Rightarrow> string option \<times> shelf list \<times> tracker" where
  "summarize_and_append env wid aid persona r s t =
     (case summary_text env persona r t of
        (None, t') \<Rightarrow> (None, [s], t')
      | (Some text, t') \<Rightarrow>
          (case append_to_notes (su_disk env) (su_now env) aid wid text s of
             (Some e, ss) \<Rightarrow> (None, ss, t')
           | (None, ss) \<Rightarrow>
               (Some text, ss @ rotate_notes (su_disk env) (su_store env) (su_max env) aid (last ss), t')))"

section \<open>Only cheap models\<close>

lemma first_summary_cong:
  "list_all (\<lambda>e. su_adapter env e = su_adapter env' e \<and> su_stream env e = su_stream env' e) es \<Longrightarrow>
     first_summary env prompt es = first_summary env' prompt es"
  by (induction es) (auto simp: Let_def split: option.split)

text \<open>What the other models would answer makes no difference: they are not asked.\<close>

lemma summary_cheap_only:
  assumes "\<And>e. me_tier e = Cheap \<Longrightarrow> adapters e = su_adapter env e \<and> streams e = su_stream env e"
  shows "summarize_and_append (env\<lparr>su_adapter := adapters, su_stream := streams\<rparr>) wid aid persona r s t
    = summarize_and_append env wid aid persona r s t"
proof -
  have "first_summary (env\<lparr>su_adapter := adapters, su_stream := streams\<rparr>) prompt (filter (\<lambda>e. me_tier e = Cheap) es)
      = first_summary env prompt (filter (\<lambda>e. me_tier e = Cheap) es)" for prompt es
    by (rule first_summary_cong) (auto simp: list_all_iff assms)
  then have "summary_text (env\<lparr>su_adapter := adapters, su_stream := streams\<rparr>) persona r t = summary_text env persona r t"
    by (simp add: summary_text_def cong: sum.case_cong option.case_cong prod.case_cong)
  then show ?thesis by (simp add: summarize_and_append_def cong: option.case_cong prod.case_cong)
qed

lemma summary_nothing: "wu_calls r = [] \<Longrightarrow> strip (wu_text r) = [] \<Longrightarrow> summarize_and_append env wid aid persona r s t = (None, [s], t)"
  by (simp add: summarize_and_append_def summary_text_def build_prompt_def Let_def)

section \<open>The log stays small\<close>

text \<open>C37: The log stays small and its newest entry is the last wakeup's. Let the notebook have a log and no stray
  twin, and let the disk be sound: when the summarizer returns a text that looks like text, the log afterwards
  begins with the entry of this wakeup, and with a ceiling configured (and an object store) it has
  at most that many entries, however many it had before.\<close>

theorem summary_bounds_log:
  assumes "is_valid_agent_id aid" "su_disk env = sound_disk" "su_store env" "0 < su_max env"
    and "parse_notes (notes_text aid s) = Some (kp, body)" "sh_memory s (stray_path aid) = None \<or> CHR ''/'' \<notin> set aid"
    and "cold_text aid s = [] \<or> ends_line (cold_text aid s)"
    and "stamp_shape (iso_text (su_now env))" "utake 8 wid \<noteq> []" "list_all is_hex (utake 8 wid)" "tame summary"
    and "summarize_and_append env wid aid persona r s t = (Some summary, ss, t')"
  shows "hot_ids aid (last ss) \<noteq> [] \<and> hd (hot_ids aid (last ss)) = utake 8 wid
    \<and> int (length (hot_ids aid (last ss))) \<le> su_max env"
proof -
  let ?path = "agent_notes_rel_path aid" and ?old = "notes_text aid s"
  let ?new = "insert_entry ?old (log_entry (su_now env) wid summary)"
  let ?s1 = "put_memory ?path ?new s" and ?rot = "rotate_notes sound_disk True (su_max env) aid"
  have w: "with_stray sound_disk aid ?old s = (?old, False)" using assms(6) by (auto simp: with_stray_def)
  have ap: "append_to_notes sound_disk (su_now env) aid wid summary s = (None, [s, ?s1])"
  proof -
    have old: "(case sh_memory s ?path of None \<Rightarrow> [] | Some raw \<Rightarrow> universal_newlines raw) = ?old"
      by (simp add: notes_text_def)
    show ?thesis unfolding append_to_notes_def Let_def old w prod.case by (simp add: sound_disk_def)
  qed
  have ss: "last ss = last (?rot ?s1)"
  proof -
    have "\<exists>x. summary_text env persona r t = (Some summary, x)"
      using assms(12) by (auto simp: summarize_and_append_def split: prod.splits option.splits)
    then have "ss = [s, ?s1] @ ?rot ?s1"
      using assms(12) by (auto simp: summarize_and_append_def assms(2,3) ap)
    moreover have "?rot ?s1 \<noteq> []" by (auto simp: rotate_notes_def Let_def split: option.split prod.split)
    ultimately show ?thesis by simp
  qed
  have cr: "CHR 0x0D \<notin> set ?old" by (simp add: notes_text_def universal_no_cr split: option.split)
  obtain body' where b: "parse_notes (universal_newlines ?new) = Some (kp, body')"
      "map fst (log_entries body') = utake 8 wid # map fst (log_entries body)"
    using entry_is_newest [OF assms(8-11,5) cr] by (elim exE conjE)
  have m1: "sh_memory ?s1 ?path = Some ?new" by (simp add: put_memory_def)
  have hot: "hot_ids aid ?s1 = utake 8 wid # map fst (log_entries body)" by (simp add: hot_ids_def m1 b)
  show ?thesis
  proof (cases "su_max env < int (length (log_entries body'))")
    case True
    have cold: "cold_text aid ?s1 = [] \<or> ends_line (cold_text aid ?s1)" using assms(7) by (simp add: cold_text_def put_memory_def)
    have "hot_ids aid (last ss) = take (keep_recent (su_max env)) (hot_ids aid ?s1)"
      using rotated [OF assms(1) m1 b(1) assms(4) True cold ss] by blast
    moreover have "0 < keep_recent (su_max env)" "int (keep_recent (su_max env)) \<le> su_max env"
      using assms(4) by (auto simp: keep_recent_def max_def)
    ultimately show ?thesis by (cases "keep_recent (su_max env)") (auto simp: hot)
  next
    case False
    then have "?rot ?s1 = [?s1]"
      using assms(4) by (simp add: rotate_notes_def Let_def m1 b(1))
    moreover have "length (log_entries body') = Suc (length (log_entries body))"
      using b(2) by (metis length_Cons length_map)
    ultimately show ?thesis using False by (simp add: ss hot)
  qed
qed

section \<open>A sample\<close>

definition cheap_entry :: model_entry where
  "cheap_entry = (sample_entry ''a.x'' Cheap ''K'')\<lparr>me_capabilities := [''streaming'']\<rparr>"

definition sample_summarizer :: summary_env where
  "sample_summarizer =
     \<lparr>su_registry = [cheap_entry], su_environ = (\<lambda>v. if v = ''K'' then Some ''secret'' else None), su_override = None,
      su_clock = 0, su_adapter = (\<lambda>e. None), su_stream = (\<lambda>e p. ([ContentDelta ''- done'', TurnComplete ''end_turn''], None)),
      su_float = (\<lambda>q. []), su_disk = sound_disk, su_store = True, su_max = 1, su_now = 0\<rparr>"

definition done_wakeup :: wakeup_result where
  "done_wakeup = \<lparr>wu_text = ''ok'', wu_calls = [], wu_stop = None, wu_turns = 1\<rparr>"

lemma sample_summary: "\<exists>t'. summary_text sample_summarizer ''worker'' done_wakeup default_tracker = (Some ''- done'', t')"
proof -
  have "strip ''ok'' = ''ok''" by (simp add: strip_def is_cont_def is_space_single)
  then have "\<exists>prompt. build_prompt (su_float sample_summarizer) ''worker'' done_wakeup = Inr (Some prompt)"
    by (simp add: build_prompt_def done_wakeup_def tools_line_def Let_def ebind_def)
  then obtain prompt where p: "build_prompt (su_float sample_summarizer) ''worker'' done_wakeup = Inr (Some prompt)" ..
  have c: "candidates [cheap_entry] cheap_preference = [cheap_entry]"
    by (simp add: candidates_def registry_enabled_def supports_def cheap_entry_def sample_entry_def cheap_preference_def)
  have "entry_reachable (\<lambda>v. if v = ''K'' then Some ''secret'' else None) cheap_entry"
    by (simp add: entry_reachable_def cheap_entry_def sample_entry_def nonempty_def)
  then obtain t' where "router_select [cheap_entry] (\<lambda>v. if v = ''K'' then Some ''secret'' else None) None cheap_preference 0 default_tracker
      = (Inr [cheap_entry], t')"
    by (simp add: router_select_def nonempty_def c)
  moreover have "me_tier cheap_entry = Cheap" by (simp add: cheap_entry_def sample_entry_def)
  moreover have "stream_summary ([ContentDelta ''- done'', TurnComplete ''end_turn''], None) = ''- done''"
    by (simp add: stream_summary_def strip_def is_cont_def is_space_single)
  ultimately show ?thesis
    unfolding summary_text_def p by (simp add: sample_summarizer_def)
qed

lemma summary_bounds_log_witness:
  "hd (hot_ids ''worker'' (last (fst (snd (summarize_and_append sample_summarizer ''00000002'' ''worker'' ''worker''
       done_wakeup crowded_shelf default_tracker))))) = ''00000002''
   \<and> length (hot_ids ''worker'' (last (fst (snd (summarize_and_append sample_summarizer ''00000002'' ''worker'' ''worker''
       done_wakeup crowded_shelf default_tracker))))) \<le> 1"
proof -
  let ?x = "summarize_and_append sample_summarizer ''00000002'' ''worker'' ''worker'' done_wakeup crowded_shelf default_tracker"
  obtain body where b: "parse_notes (universal_newlines two_entries) = Some (log_header @ newline, body)"
    by (rule two_entries_log)
  have env: "su_disk sample_summarizer = sound_disk" "su_store sample_summarizer" "0 < su_max sample_summarizer"
    "su_now sample_summarizer = 0" "su_max sample_summarizer = 1"
    by (simp_all add: sample_summarizer_def)
  have n: "parse_notes (notes_text ''worker'' crowded_shelf) = Some (log_header @ newline, body)"
    using b by (simp add: notes_text_def crowded_shelf_def)
  have u: "utake 8 ''00000002'' = ''00000002''" by (simp add: utake_def is_cont_def)
  obtain t' where t': "summary_text sample_summarizer ''worker'' done_wakeup default_tracker = (Some ''- done'', t')"
    using sample_summary by blast
  have ap: "fst (append_to_notes sound_disk 0 ''worker'' ''00000002'' ''- done'' crowded_shelf) = None"
    by (simp add: append_to_notes_def Let_def split: prod.split) (simp add: sound_disk_def)
  obtain ss where ss: "?x = (Some ''- done'', ss, t')"
  proof -
    obtain sx where "append_to_notes sound_disk 0 ''worker'' ''00000002'' ''- done'' crowded_shelf = (None, sx)"
      using ap by (metis prod.collapse)
    then have "?x = (Some ''- done'', sx @ rotate_notes sound_disk True 1 ''worker'' (last sx), t')"
      by (simp add: summarize_and_append_def t' env)
    with that show thesis by blast
  qed
  have "stamp_shape (iso_text (su_now sample_summarizer))" by (simp add: env sample_shape)
  moreover have "list_all is_hex (utake 8 ''00000002'')" by (simp add: u is_hex_def)
  ultimately have "hot_ids ''worker'' (last ss) \<noteq> [] \<and> hd (hot_ids ''worker'' (last ss)) = utake 8 ''00000002''
      \<and> int (length (hot_ids ''worker'' (last ss))) \<le> su_max sample_summarizer"
    by (intro summary_bounds_log [OF sample_valid env(1-3) n _ disjI2 [OF crowded_ids(3)] _ _ _ sample_tame ss]) (simp_all add: u)
  then show ?thesis by (simp add: ss u env)
qed

end
