(* ===== verification/Skills.thy ===== *)
theory Skills
  imports Notes_Log
begin

text \<open>
  The skills of an agent (\<open>runtime/skills.py\<close>): directories with a \<open>SKILL.md\<close> are read, checked, filtered by
  scope, made unique by name, and rendered as a menu for the system prompt. The directories are trees
  of files by name, a file that cannot be read carries the text of its \<open>OSError\<close>; \<open>yaml.safe_load\<close> is a
  parameter, its values are those of JSON.
\<close>

section \<open>Scopes\<close>

datatype skill_scope = ScopeGlobal | ScopePersona string | ScopeAgent string

definition parse_scope :: "string option \<Rightarrow> exn + skill_scope" where
  "parse_scope raw =
     (case raw of
        None \<Rightarrow> Inr ScopeGlobal
      | Some s \<Rightarrow>
          if s = [] \<or> s = ''global'' then Inr ScopeGlobal
          else (case find_text ''='' s of
            None \<Rightarrow> Inl (value_error (''scope '' @ py_repr s @ '': expected '' @ py_repr ''global'' @ '' or ''
                      @ py_repr ''persona=<name>'' @ '' or '' @ py_repr ''agent=<id>''))
          | Some (before, rest) \<Rightarrow>
              (let kind = strip before; target = strip (tl rest) in
               if kind \<noteq> ''persona'' \<and> kind \<noteq> ''agent''
               then Inl (value_error (''scope kind '' @ py_repr kind @ '': must be '' @ py_repr ''global'' @ '', ''
                      @ py_repr ''persona'' @ '', or '' @ py_repr ''agent''))
               else if target = []
               then Inl (value_error (''scope '' @ py_repr s @ '': empty target after '' @ py_repr ''=''))
               else Inr (if kind = ''persona'' then ScopePersona target else ScopeAgent target))))"

fun applies_to :: "skill_scope \<Rightarrow> string option \<Rightarrow> string option \<Rightarrow> bool" where
  "applies_to ScopeGlobal aid persona = True"
| "applies_to (ScopePersona t) aid persona = (persona = Some t)"
| "applies_to (ScopeAgent t) aid persona = (aid = Some t)"

section \<open>One skill\<close>

record skill =
  sk_name :: string
  sk_description :: string
  sk_path :: string
  sk_dir :: string
  sk_source :: string
  sk_scope :: skill_scope
  sk_hidden :: bool
  sk_front :: dict

datatype diag_level = DiagWarning | DiagCollision

record skill_diagnostic =
  sd_level :: diag_level
  sd_message :: string
  sd_path :: string

definition warning :: "string \<Rightarrow> string \<Rightarrow> skill_diagnostic" where
  "warning m p = \<lparr>sd_level = DiagWarning, sd_message = m, sd_path = p\<rparr>"

text \<open>The frontmatter, between the first line and the first line of dashes after it.\<close>

definition skill_front :: "(string \<Rightarrow> exn + json) \<Rightarrow> string \<Rightarrow> exn + dict" where
  "skill_front yaml text =
     (if take 4 text \<noteq> ''---'' @ newline then Inr []
      else (case find_text (newline @ ''---'' @ newline) (drop 4 text) of
        None \<Rightarrow> Inr []
      | Some (front, rest) \<Rightarrow>
          ebind (yaml front) (\<lambda>v. Inr (if truthy v then (case v of JObj d \<Rightarrow> d | _ \<Rightarrow> []) else []))))"

definition slug_char :: "char \<Rightarrow> bool" where
  "slug_char c \<longleftrightarrow> is_lower c \<or> is_digit c"

definition slug :: "string \<Rightarrow> bool" where
  "slug s \<longleftrightarrow> s \<noteq> [] \<and> list_all (\<lambda>c. slug_char c \<or> c = CHR ''-'') s \<and> slug_char (hd s) \<and> slug_char (last s)"

definition name_errors :: "string \<Rightarrow> string list" where
  "name_errors n =
     (if 64 < ulen n then [''name length > 64''] else [])
     @ (if slug n then [] else [''name must match [a-z0-9](?:[a-z0-9-]*[a-z0-9])?''])
     @ (if find_text ''--'' n \<noteq> None then [''name must not contain consecutive hyphens''] else [])"

definition description_errors :: "string \<Rightarrow> string list" where
  "description_errors s =
     (if s = [] \<or> strip s = [] then [''description is required (must be non-empty)'']
      else if 1024 < ulen s then [''description length > 1024''] else [])"

text \<open>\<open>(front.get(k) or other).strip()\<close>: only a text has \<open>strip\<close>.\<close>

definition stripped_field :: "dict \<Rightarrow> string \<Rightarrow> string \<Rightarrow> exn + string" where
  "stripped_field front k other =
     (case (if otruthy (dget front k) then the (dget front k) else JStr other) of
        JStr s \<Rightarrow> Inr (strip s)
      | _ \<Rightarrow> Inl (Exn ''AttributeError'' ''strip''))"

definition load_skill_file ::
    "(string \<Rightarrow> exn + json) \<Rightarrow> string \<Rightarrow> string \<Rightarrow> string \<Rightarrow> string + string \<Rightarrow> exn + skill option \<times> skill_diagnostic list" where
  "load_skill_file yaml source dir dirname content =
     (let path = dir @ ''/SKILL.md'' in
      case content of
        Inl err \<Rightarrow> Inr (None, [warning err path])
      | Inr raw \<Rightarrow>
          ebind (skill_front yaml (universal_newlines raw)) (\<lambda>front.
          ebind (stripped_field front ''name'' dirname) (\<lambda>name.
          ebind (stripped_field front ''description'' []) (\<lambda>description.
            if description_errors description \<noteq> []
            then Inr (None, map (\<lambda>e. warning e path) (description_errors description))
            else if name_errors name \<noteq> []
            then Inr (None, map (\<lambda>e. warning (''skill '' @ py_repr name @ '': '' @ e) path) (name_errors name))
            else (case parse_scope (case dget front ''scope'' of Some (JStr s) \<Rightarrow> Some s | _ \<Rightarrow> None) of
              Inl e \<Rightarrow> Inr (None, [warning (exn_msg e) path])
            | Inr sc \<Rightarrow>
                Inr (Some \<lparr>sk_name = name, sk_description = description, sk_path = path, sk_dir = dir, sk_source = source,
                       sk_scope = sc, sk_hidden = otruthy (dget front ''disable-model-invocation''), sk_front = front\<rparr>,
                     []))))))"

section \<open>A directory\<close>

datatype node = FileNode "string + string" | DirNode "(string \<times> node) list"

text \<open>One after the other; the first exception ends the scan.\<close>

fun joined :: "(exn + 'a list \<times> 'b list) list \<Rightarrow> exn + 'a list \<times> 'b list" where
  "joined [] = Inr ([], [])"
| "joined (r # rs) = ebind r (\<lambda>(as, bs). ebind (joined rs) (\<lambda>(as', bs'). Inr (as @ as', bs @ bs')))"

definition skill_md :: "(string \<times> node) list \<Rightarrow> (string + string) option" where
  "skill_md es = (case map_of es ''SKILL.md'' of Some (FileNode c) \<Rightarrow> Some c | _ \<Rightarrow> None)"

lemma child_size: "(n, x) \<in> set es \<Longrightarrow> size x < Suc (size_list (size_prod (\<lambda>n. 0) size) es)"
  by (induction es) auto

function scan_node ::
    "(string \<Rightarrow> exn + json) \<Rightarrow> string \<Rightarrow> string \<Rightarrow> string \<Rightarrow> node \<Rightarrow> exn + skill list \<times> skill_diagnostic list" where
  "scan_node yaml source dir dirname (FileNode c) = Inr ([], [])"
| "scan_node yaml source dir dirname (DirNode es) =
     (case skill_md es of
        Some c \<Rightarrow>
          ebind (load_skill_file yaml source dir dirname c) (\<lambda>(s, ds). Inr (case s of None \<Rightarrow> [] | Some x \<Rightarrow> [x], ds))
      | None \<Rightarrow>
          joined (map (\<lambda>(n, x). if take 1 n = ''.'' then Inr ([], []) else scan_node yaml source (dir @ ''/'' @ n) n x)
            (sort_key fst es)))"
  by pat_completeness auto
termination
  by (relation "measure (\<lambda>(y, s, d, n, x). size x)") (auto dest: child_size)

text \<open>The name of a root directory is the last part of its path.\<close>

definition scan_dir_for_skills ::
    "(string \<Rightarrow> exn + json) \<Rightarrow> string \<Rightarrow> string \<Rightarrow> string \<Rightarrow> node option \<Rightarrow> exn + skill list \<times> skill_diagnostic list" where
  "scan_dir_for_skills yaml source dir dirname root_node =
     (case root_node of None \<Rightarrow> Inr ([], []) | Some x \<Rightarrow> scan_node yaml source dir dirname x)"

section \<open>The skills of a context\<close>

text \<open>The first skill of a name is kept.\<close>

fun first_wins :: "skill list \<Rightarrow> skill list \<Rightarrow> skill list \<times> skill_diagnostic list" where
  "first_wins seen [] = (seen, [])"
| "first_wins seen (s # ss) =
     (case List.find (\<lambda>x. sk_name x = sk_name s) seen of
        None \<Rightarrow> first_wins (seen @ [s]) ss
      | Some x \<Rightarrow>
          (case first_wins seen ss of (kept, ds) \<Rightarrow>
             (kept, \<lparr>sd_level = DiagCollision,
                     sd_message = ''skill name '' @ py_repr (sk_name s) @ '' duplicated; first kept ('' @ sk_path x
                       @ ''), this one ignored'', sd_path = sk_path s\<rparr> # ds)))"

record skill_home =
  sh_root :: string
  sh_approved :: "node option"
  sh_shipped_root :: string
  sh_shipped :: "node option"

definition load_skills_for_context ::
    "(string \<Rightarrow> exn + json) \<Rightarrow> skill_home \<Rightarrow> string option \<Rightarrow> string option \<Rightarrow> bool
     \<Rightarrow> exn + skill list \<times> skill_diagnostic list" where
  "load_skills_for_context yaml h aid persona include_builtin =
     ebind (scan_dir_for_skills yaml ''approved'' (sh_root h @ ''/skills/approved'') ''approved'' (sh_approved h)) (\<lambda>(as, ad).
     ebind (if include_builtin then scan_dir_for_skills yaml ''builtin'' (sh_shipped_root h) ''skills'' (sh_shipped h)
            else Inr ([], [])) (\<lambda>(bs, bd).
       (case first_wins [] (filter (\<lambda>s. applies_to (sk_scope s) aid persona) (as @ bs)) of
          (kept, ds) \<Rightarrow> Inr (kept, ad @ bd @ ds))))"

section \<open>The menu\<close>

definition xml_char :: "char \<Rightarrow> string" where
  "xml_char c =
     (if c = CHR ''&'' then ''&amp;'' else if c = CHR ''<'' then ''&lt;'' else if c = CHR ''>'' then ''&gt;''
      else if c = CHR 0x22 then ''&quot;'' else if c = CHR 0x27 then ''&apos;'' else [c])"

definition xml :: "string \<Rightarrow> string" where
  "xml s = concat (map xml_char s)"

definition scope_line :: "skill_scope \<Rightarrow> string list" where
  "scope_line sc =
     (case sc of
        ScopeGlobal \<Rightarrow> []
      | ScopePersona t \<Rightarrow> [''    <scope>persona='' @ xml t @ ''</scope>'']
      | ScopeAgent t \<Rightarrow> [''    <scope>agent='' @ xml t @ ''</scope>''])"

definition skill_lines :: "skill \<Rightarrow> string list" where
  "skill_lines s =
     [''  <skill>'', ''    <name>'' @ xml (sk_name s) @ ''</name>'',
      ''    <description>'' @ xml (sk_description s) @ ''</description>'',
      ''    <location>'' @ xml (sk_path s) @ ''</location>''] @ scope_line (sk_scope s) @ [''  </skill>'']"

definition menu_head :: "string list" where
  "menu_head =
     [[], ''The following skills provide specialized instructions for specific tasks. Load a skill's file ''
      @ ''(read_memory / your file-read tool, depending on your allowlist) when the task matches its description. ''
      @ ''Paths inside a skill body are relative to the skill directory (parent of SKILL.md).'', [],
      ''<available_skills>'']"

definition format_skills_for_prompt :: "skill list \<Rightarrow> string" where
  "format_skills_for_prompt ss =
     (let visible = filter (\<lambda>s. \<not> sk_hidden s) ss in
      if visible = [] then []
      else join newline (menu_head @ concat (map skill_lines visible) @ [''</available_skills>'']))"

section \<open>The directories\<close>

definition skills_skeleton :: "string list" where
  "skills_skeleton = [''approved'', ''proposed'', ''archived'']"

definition ensure_skills_skeleton :: "string set \<Rightarrow> string list \<times> string set" where
  "ensure_skills_skeleton dirs = (filter (\<lambda>d. d \<notin> dirs) skills_skeleton, dirs \<union> set skills_skeleton)"

section \<open>What is loaded\<close>

text \<open>A skill that passed the checks.\<close>

definition checked_skill :: "skill \<Rightarrow> bool" where
  "checked_skill s \<longleftrightarrow>
     slug (sk_name s) \<and> ulen (sk_name s) \<le> 64 \<and> find_text ''--'' (sk_name s) = None
     \<and> strip (sk_description s) \<noteq> [] \<and> ulen (sk_description s) \<le> 1024"

lemma ebind_Inr: "ebind r f = Inr b \<Longrightarrow> \<exists>a. r = Inr a \<and> f a = Inr b"
  by (simp add: ebind_Inr_iff)

lemma ebind_pair:
  assumes "ebind r (\<lambda>(a, b). f a b) = Inr y"
  obtains a b where "r = Inr (a, b)" "f a b = Inr y"
  using assms by (auto simp: ebind_Inr_iff)

lemma loaded_checked:
  assumes "load_skill_file yaml source dir dirname c = Inr (Some s, ds)"
  shows "checked_skill s" "sk_source s = source"
proof -
  from assms obtain raw front name description where
    r: "c = Inr raw" "skill_front yaml (universal_newlines raw) = Inr front"
      "description_errors description = []" "name_errors name = []" and
    s: "sk_name s = name" "sk_description s = description" "sk_source s = source"
    by (auto simp: load_skill_file_def Let_def split: sum.splits if_splits dest!: ebind_Inr)
  show "checked_skill s"
    using r(3,4) by (auto simp: checked_skill_def s description_errors_def name_errors_def simp del: not_None_eq split: if_splits)
  show "sk_source s = source" by (rule s(3))
qed

lemma joined_all:
  "joined rs = Inr (xs, ds) \<Longrightarrow> (\<And>r ys es. r \<in> set rs \<Longrightarrow> r = Inr (ys, es) \<Longrightarrow> list_all P ys) \<Longrightarrow> list_all P xs"
proof (induction rs arbitrary: xs ds)
  case (Cons r rs)
  from Cons.prems(1) obtain ys es zs fs where "r = Inr (ys, es)" "joined rs = Inr (zs, fs)" "xs = ys @ zs"
    by (auto simp: ebind_Inr_iff)
  with Cons.IH [of zs fs] Cons.prems(2) show ?case by auto
qed simp

lemma scanned_checked:
  "scan_node yaml source dir dirname x = Inr (ss, ds) \<Longrightarrow> list_all (\<lambda>s. checked_skill s \<and> sk_source s = source) ss"
proof (induction yaml source dir dirname x arbitrary: ss ds rule: scan_node.induct)
  case (2 yaml source dir dirname es)
  let ?P = "\<lambda>s. checked_skill s \<and> sk_source s = source"
  show ?case
  proof (cases "skill_md es")
    case (Some c)
    with 2(2) obtain o' where "load_skill_file yaml source dir dirname c = Inr (o', ds)" "ss = (case o' of None \<Rightarrow> [] | Some x \<Rightarrow> [x])"
      by (auto simp: ebind_Inr_iff)
    then show ?thesis by (cases o') (auto dest: loaded_checked)
  next
    case None
    let ?f = "\<lambda>(n, x). if take 1 n = ''.'' then Inr ([], []) else scan_node yaml source (dir @ ''/'' @ n) n x"
    have j: "joined (map ?f (sort_key fst es)) = Inr (ss, ds)"
      using 2(2) None by simp
    show ?thesis
    proof (rule joined_all [OF j])
      fix r ys gs assume r: "r \<in> set (map ?f (sort_key fst es))" "r = Inr (ys, gs)"
      then obtain n x where nx: "(n, x) \<in> set (sort_key fst es)" "r = ?f (n, x)" by auto
      show "list_all ?P ys"
      proof (cases "take 1 n = ''.''")
        case True
        with nx r show ?thesis by simp
      next
        case no: False
        have "scan_node yaml source (dir @ ''/'' @ n) n x = Inr (ys, gs)" using nx(2) r(2) no by simp
        from 2(1) [OF None nx(1) refl no this] show ?thesis .
      qed
    qed
  qed
qed simp

lemma find_append: "List.find P (xs @ ys) = (case List.find P xs of Some x \<Rightarrow> Some x | None \<Rightarrow> List.find P ys)"
  by (induction xs) auto

lemma find_None_names: "List.find (\<lambda>x. sk_name x = n) xs = None \<longleftrightarrow> n \<notin> set (map sk_name xs)"
  by (auto simp: find_None_iff)

text \<open>The kept skills are those that are the first of their name.\<close>

lemma first_wins_exact:
  assumes "first_wins seen ss = (kept, ds)" "distinct (map sk_name seen)"
  shows "distinct (map sk_name kept)"
    and "\<And>s. s \<in> set kept \<longleftrightarrow> List.find (\<lambda>x. sk_name x = sk_name s) (seen @ ss) = Some s"
    and "length kept + length ds = length seen + length ss"
proof -
  have "distinct (map sk_name kept) \<and> (\<forall>s. s \<in> set kept \<longleftrightarrow> List.find (\<lambda>x. sk_name x = sk_name s) (seen @ ss) = Some s)
      \<and> length kept + length ds = length seen + length ss"
    using assms
  proof (induction seen ss arbitrary: kept ds rule: first_wins.induct)
    case (1 seen)
    have "s \<in> set seen \<longleftrightarrow> List.find (\<lambda>x. sk_name x = sk_name s) seen = Some s" for s
      using 1(2) by (induction seen) (auto simp: find_Some_iff)
    with 1 show ?case by simp
  next
    case (2 seen s ss)
    show ?case
    proof (cases "List.find (\<lambda>x. sk_name x = sk_name s) seen")
      case None
      then have "distinct (map sk_name (seen @ [s]))" using 2(4) by (simp add: find_None_names)
      from 2(1) [OF None _ this] 2(3) None show ?thesis by simp
    next
      case (Some x)
      from 2(3) Some obtain ds' where ds: "first_wins seen ss = (kept, ds')" "length ds = Suc (length ds')"
        by (auto split: prod.splits)
      have e: "List.find (\<lambda>y. sk_name y = sk_name t) (seen @ s # ss) = List.find (\<lambda>y. sk_name y = sk_name t) (seen @ ss)" for t
        using Some by (auto simp: find_append split: option.split)
      show ?thesis unfolding e using 2(2) [OF Some ds(1) 2(4)] ds(2) by simp
    qed
  qed
  then show "distinct (map sk_name kept)" "\<And>s. s \<in> set kept \<longleftrightarrow> List.find (\<lambda>x. sk_name x = sk_name s) (seen @ ss) = Some s"
    "length kept + length ds = length seen + length ss" by blast+
qed

text \<open>C38: The skills of a context are exact. They are the scanned skills whose scope applies, of each name the
  first: an approved skill in scope shadows the shipped one of its name, an approved skill out of
  scope shadows nothing. Names are unique, and every skill has passed the checks of its name and
  description.\<close>

theorem skills_selected:
  assumes "load_skills_for_context yaml h aid persona include_builtin = Inr (ss, ds)"
  shows "\<exists>as ad bs bd.
      scan_dir_for_skills yaml ''approved'' (sh_root h @ ''/skills/approved'') ''approved'' (sh_approved h) = Inr (as, ad)
    \<and> (if include_builtin then scan_dir_for_skills yaml ''builtin'' (sh_shipped_root h) ''skills'' (sh_shipped h)
       else Inr ([], [])) = Inr (bs, bd)
    \<and> (\<forall>s. s \<in> set ss \<longleftrightarrow> List.find (\<lambda>x. sk_name x = sk_name s)
         (filter (\<lambda>x. applies_to (sk_scope x) aid persona) (as @ bs)) = Some s)
    \<and> distinct (map sk_name ss) \<and> list_all checked_skill ss
    \<and> list_all (\<lambda>s. sk_source s = ''approved'' \<or> include_builtin \<and> sk_source s = ''builtin'') ss"
proof -
  let ?B = "if include_builtin then scan_dir_for_skills yaml ''builtin'' (sh_shipped_root h) ''skills'' (sh_shipped h) else Inr ([], [])"
  obtain as ad where a: "scan_dir_for_skills yaml ''approved'' (sh_root h @ ''/skills/approved'') ''approved'' (sh_approved h) = Inr (as, ad)"
    and r: "ebind ?B (\<lambda>(bs, bd). case first_wins [] (filter (\<lambda>s. applies_to (sk_scope s) aid persona) (as @ bs)) of
          (kept, ds) \<Rightarrow> Inr (kept, ad @ bd @ ds)) = Inr (ss, ds)"
    by (rule ebind_pair [OF assms [unfolded load_skills_for_context_def]])
  obtain bs bd where b: "?B = Inr (bs, bd)"
    and r': "(case first_wins [] (filter (\<lambda>s. applies_to (sk_scope s) aid persona) (as @ bs)) of
          (kept, ds) \<Rightarrow> Inr (kept, ad @ bd @ ds)) = (Inr (ss, ds) :: exn + _)"
    by (rule ebind_pair [OF r])
  obtain cs where f: "first_wins [] (filter (\<lambda>s. applies_to (sk_scope s) aid persona) (as @ bs)) = (ss, cs)"
    using r' by (cases "first_wins [] (filter (\<lambda>s. applies_to (sk_scope s) aid persona) (as @ bs))") simp
  have as: "list_all (\<lambda>s. checked_skill s \<and> sk_source s = ''approved'') as"
    using a by (auto simp: scan_dir_for_skills_def split: option.splits dest: scanned_checked)
  have bs: "list_all (\<lambda>s. checked_skill s \<and> include_builtin \<and> sk_source s = ''builtin'') bs"
    using b by (auto simp: scan_dir_for_skills_def split: option.splits if_splits dest: scanned_checked)
  have w: "distinct (map sk_name ss)"
    "\<And>s. s \<in> set ss \<longleftrightarrow> List.find (\<lambda>x. sk_name x = sk_name s)
       (filter (\<lambda>x. applies_to (sk_scope x) aid persona) (as @ bs)) = Some s"
    using first_wins_exact(1,2) [OF f] by simp_all
  have sub: "set ss \<subseteq> set (as @ bs)"
  proof
    fix s assume "s \<in> set ss"
    then have "s \<in> set (filter (\<lambda>x. applies_to (sk_scope x) aid persona) (as @ bs))"
      using w(2) [of s] by (metis find_Some_iff nth_mem)
    then show "s \<in> set (as @ bs)" by auto
  qed
  have "list_all checked_skill ss" "list_all (\<lambda>s. sk_source s = ''approved'' \<or> include_builtin \<and> sk_source s = ''builtin'') ss"
    using sub as bs by (auto simp: list_all_iff dest!: subsetD)
  then show ?thesis using a b w(1,2) by auto
qed

section \<open>Reading the menu\<close>

text \<open>What a reader of the menu sees: the texts between the tags, entry by entry.\<close>

definition between :: "string \<Rightarrow> string \<Rightarrow> string \<Rightarrow> (string \<times> string) option" where
  "between start stop t =
     (case find_text start t of
        None \<Rightarrow> None
      | Some (_, r) \<Rightarrow>
          (case find_text stop (drop (length start) r) of
             None \<Rightarrow> None | Some (v, r') \<Rightarrow> Some (v, drop (length stop) r')))"

definition read_skill :: "string \<Rightarrow> ((string \<times> string \<times> string) \<times> string) option" where
  "read_skill t =
     (case between ''<name>'' ''</name>'' t of None \<Rightarrow> None | Some (n, r1) \<Rightarrow>
       (case between ''<description>'' ''</description>'' r1 of None \<Rightarrow> None | Some (d, r2) \<Rightarrow>
         (case between ''<location>'' ''</location>'' r2 of None \<Rightarrow> None | Some (l, r3) \<Rightarrow> Some ((n, d, l), r3))))"

fun read_skills :: "nat \<Rightarrow> string \<Rightarrow> (string \<times> string \<times> string) list" where
  "read_skills 0 t = []"
| "read_skills (Suc k) t = (case read_skill t of None \<Rightarrow> [] | Some (e, r) \<Rightarrow> e # read_skills k r)"

definition read_menu :: "string \<Rightarrow> (string \<times> string \<times> string) list" where
  "read_menu t = read_skills (length t) t"

text \<open>No tag that starts with \<open><\<close> and \<open>d\<close> begins in the text.\<close>

fun no_tag :: "char \<Rightarrow> string \<Rightarrow> bool" where
  "no_tag d [] = True"
| "no_tag d (c # s) = ((c = CHR ''<'' \<longrightarrow> s \<noteq> [] \<and> hd s \<noteq> d) \<and> no_tag d s)"

lemma find_skips:
  "no_tag d a \<Longrightarrow> find_text (CHR ''<'' # d # p) (a @ s)
     = map_option (\<lambda>(x, y). (a @ x, y)) (find_text (CHR ''<'' # d # p) s)"
proof (induction a)
  case Nil
  show ?case by (cases "find_text (CHR ''<'' # d # p) s") auto
next
  case (Cons c a)
  have "take (length (CHR ''<'' # d # p)) ((c # a) @ s) \<noteq> CHR ''<'' # d # p"
    using Cons.prems by (cases a) auto
  with Cons show ?case by (cases "find_text (CHR ''<'' # d # p) s") auto
qed

lemma find_here: "find_text (c # p) ((c # p) @ s) = Some ([], (c # p) @ s)"
  by simp

lemma no_tag_append: "no_tag d a \<Longrightarrow> no_tag d b \<Longrightarrow> no_tag d (a @ b)"
  by (induction a) auto

lemma no_lt_no_tag: "CHR ''<'' \<notin> set a \<Longrightarrow> no_tag d a"
  by (induction a) auto

lemma xml_no_lt: "CHR ''<'' \<notin> set (xml s)"
  by (induction s) (auto simp: xml_def xml_char_def)

lemma xml_no_tag [simp]: "no_tag d (xml s)"
  by (rule no_lt_no_tag) (rule xml_no_lt)

lemma xml_inject: "xml s = xml t \<longleftrightarrow> s = t"
proof
  show "xml s = xml t \<Longrightarrow> s = t"
  proof (induction s arbitrary: t)
    case Nil
    then show ?case by (cases t) (auto simp: xml_def xml_char_def split: if_splits)
  next
    case (Cons c s)
    from Cons.prems obtain d u where t: "t = d # u" by (cases t) (auto simp: xml_def xml_char_def split: if_splits)
    have e: "xml_char c @ xml s = xml_char d @ xml u" using Cons.prems by (simp add: xml_def t)
    have "c = d" using e by (auto simp: xml_char_def split: if_splits)
    with e have "xml s = xml u" by simp
    with Cons.IH \<open>c = d\<close> t show ?case by simp
  qed
qed simp

lemma between_here:
  assumes "no_tag d a" "CHR ''<'' \<notin> set v"
  shows "between (CHR ''<'' # d # p) (CHR ''<'' # CHR ''/'' # q) (a @ (CHR ''<'' # d # p) @ v @ (CHR ''<'' # CHR ''/'' # q) @ r) = Some (v, r)"
proof -
  have "find_text (CHR ''<'' # CHR ''/'' # q) (v @ (CHR ''<'' # CHR ''/'' # q) @ r) = Some (v, (CHR ''<'' # CHR ''/'' # q) @ r)"
    using find_skips [OF no_lt_no_tag [OF assms(2)], of "CHR ''/''" q] by simp
  then show ?thesis
    using find_skips [OF assms(1), of p] by (simp add: between_def)
qed

definition after_location :: "skill \<Rightarrow> string" where
  "after_location s = newline @ concat (map (\<lambda>l. l @ newline) (scope_line (sk_scope s))) @ ''  </skill>'' @ newline"

definition skill_entry :: "skill \<Rightarrow> string" where
  "skill_entry s =
     (''  <skill>'' @ newline @ ''    '') @ ''<name>'' @ xml (sk_name s) @ ''</name>''
     @ (newline @ ''    '') @ ''<description>'' @ xml (sk_description s) @ ''</description>''
     @ (newline @ ''    '') @ ''<location>'' @ xml (sk_path s) @ ''</location>'' @ after_location s"

lemma skill_entry_lines: "concat (map (\<lambda>l. l @ newline) (skill_lines s)) = skill_entry s"
  by (simp add: skill_lines_def skill_entry_def after_location_def)

lemma read_skill_entry:
  assumes "no_tag CHR ''n'' a"
  shows "read_skill (a @ skill_entry s @ r) = Some ((xml (sk_name s), xml (sk_description s), xml (sk_path s)), after_location s @ r)"
proof -
  let ?nl = "newline @ ''    ''"
  have n: "no_tag d ?nl" for d by (simp add: newline_def)
  have "no_tag CHR ''n'' (a @ ''  <skill>'' @ newline @ ''    '')"
    using assms by (intro no_tag_append) (simp_all add: newline_def)
  from between_here [OF this xml_no_lt, of "''ame>''" "''name>''" "sk_name s"]
  have 1: "between ''<name>'' ''</name>'' (a @ skill_entry s @ r)
      = Some (xml (sk_name s), ?nl @ ''<description>'' @ xml (sk_description s) @ ''</description>''
          @ ?nl @ ''<location>'' @ xml (sk_path s) @ ''</location>'' @ after_location s @ r)"
    by (simp add: skill_entry_def)
  from between_here [OF n xml_no_lt, of "CHR ''d''" "''escription>''" "''description>''" "sk_description s"]
  have 2: "between ''<description>'' ''</description>'' (?nl @ ''<description>'' @ xml (sk_description s) @ ''</description>''
          @ ?nl @ ''<location>'' @ xml (sk_path s) @ ''</location>'' @ after_location s @ r)
      = Some (xml (sk_description s), ?nl @ ''<location>'' @ xml (sk_path s) @ ''</location>'' @ after_location s @ r)"
    by simp
  from between_here [OF n xml_no_lt, of "CHR ''l''" "''ocation>''" "''location>''" "sk_path s"]
  have 3: "between ''<location>'' ''</location>'' (?nl @ ''<location>'' @ xml (sk_path s) @ ''</location>'' @ after_location s @ r)
      = Some (xml (sk_path s), after_location s @ r)"
    by simp
  show ?thesis by (simp only: read_skill_def 1 2 3 option.case prod.case)
qed

lemma after_location_no_tag: "no_tag CHR ''n'' (after_location s)"
proof -
  have "no_tag CHR ''n'' (concat (map (\<lambda>l. l @ newline) (scope_line sc)))" for sc
    by (cases sc) (auto simp: scope_line_def newline_def intro!: no_tag_append)
  then show ?thesis by (auto simp: after_location_def newline_def intro!: no_tag_append)
qed

lemma read_skills_entries:
  assumes "no_tag CHR ''n'' a" "no_tag CHR ''n'' z" "length ss \<le> k"
  shows "read_skills k (a @ concat (map skill_entry ss) @ z)
    = map (\<lambda>s. (xml (sk_name s), xml (sk_description s), xml (sk_path s))) ss"
  using assms(1,3)
proof (induction ss arbitrary: a k)
  case Nil
  have "find_text ''<name>'' (a @ z) = None"
    using find_skips [OF no_tag_append [OF Nil(1) assms(2)], of "''ame>''" "[]"] by simp
  then have "read_skill (a @ z) = None" by (simp add: read_skill_def between_def)
  then show ?case by (cases k) simp_all
next
  case (Cons s ss)
  then obtain k' where k: "k = Suc k'" "length ss \<le> k'" by (cases k) auto
  have "read_skill (a @ concat (map skill_entry (s # ss)) @ z)
      = Some ((xml (sk_name s), xml (sk_description s), xml (sk_path s)), after_location s @ concat (map skill_entry ss) @ z)"
    using read_skill_entry [OF Cons.prems(1), of s "concat (map skill_entry ss) @ z"] by simp
  with Cons.IH [OF after_location_no_tag k(2)] k(1) show ?case by simp
qed

text \<open>C39: The menu tells the truth. Read back, the menu of any skills lists exactly the visible ones, in order,
  each with its own name, description and location (escaped, and escaping is injective): no
  description, name or path, whatever it contains, forges an entry, hides one or runs into another.\<close>

theorem menu_round_trip:
  "read_menu (format_skills_for_prompt ss)
     = map (\<lambda>s. (xml (sk_name s), xml (sk_description s), xml (sk_path s))) (filter (\<lambda>s. \<not> sk_hidden s) ss)
   \<and> (xml a = xml b \<longleftrightarrow> a = b)"
proof -
  let ?vs = "filter (\<lambda>s. \<not> sk_hidden s) ss" and ?h = "concat (map (\<lambda>l. l @ newline) menu_head)"
  show ?thesis
  proof (cases "?vs = []")
    case True
    then show ?thesis by (simp add: format_skills_for_prompt_def read_menu_def xml_inject)
  next
    case False
    have "concat (map (\<lambda>l. l @ newline) (concat (map skill_lines vs))) = concat (map skill_entry vs)" for vs
      by (induction vs) (simp_all add: skill_entry_lines)
    then have t: "format_skills_for_prompt ss = ?h @ concat (map skill_entry ?vs) @ ''</available_skills>''"
      using False join_snoc [of newline "menu_head @ concat (map skill_lines ?vs)" "''</available_skills>''"]
      by (simp add: format_skills_for_prompt_def Let_def)
    have "length vs \<le> length (concat (map skill_entry vs))" for vs
      by (induction vs) (auto simp: skill_entry_def)
    from this [of ?vs] have "length ?vs \<le> length (format_skills_for_prompt ss)" unfolding t by simp
    moreover have "no_tag CHR ''n'' ?h" by (simp add: menu_head_def newline_def)
    ultimately show ?thesis
      unfolding read_menu_def by (subst (2) t) (simp add: read_skills_entries xml_inject)
  qed
qed

section \<open>A sample\<close>

text \<open>The same skill approved and shipped.\<close>

definition sample_skill_md :: string where
  "sample_skill_md = ''---'' @ newline @ ''d'' @ newline @ ''---'' @ newline @ ''body''"

definition sample_tree :: node where
  "sample_tree = DirNode [(''tidy'', DirNode [(''SKILL.md'', FileNode (Inr sample_skill_md))])]"

definition sample_skill_home :: skill_home where
  "sample_skill_home = \<lparr>sh_root = ''/h'', sh_approved = Some sample_tree, sh_shipped_root = ''/s'', sh_shipped = Some sample_tree\<rparr>"

definition sample_yaml :: "string \<Rightarrow> exn + json" where
  "sample_yaml t = Inr (JObj [(''description'', JStr ''tidies'')])"

lemma sample_skill_file:
  "\<exists>s. load_skill_file sample_yaml source dir ''tidy'' (Inr sample_skill_md) = Inr (Some s, [])
     \<and> sk_name s = ''tidy'' \<and> sk_source s = source \<and> sk_scope s = ScopeGlobal"
proof -
  have "strip ''tidy'' = ''tidy''" "strip ''tidies'' = ''tidies''" by (simp_all add: strip_def is_cont_def is_space_single)
  moreover have "skill_front sample_yaml (universal_newlines sample_skill_md) = Inr [(''description'', JStr ''tidies'')]"
    by (simp add: skill_front_def sample_skill_md_def sample_yaml_def newline_def ebind_def)
  moreover have "description_errors ''tidies'' = []" "name_errors ''tidy'' = []"
    using calculation(1,2)
    by (simp_all add: description_errors_def name_errors_def ulen_def is_cont_def slug_def slug_char_def is_lower_def)
  ultimately show ?thesis
    by (simp add: load_skill_file_def Let_def stripped_field_def otruthy_def parse_scope_def ebind_def)
qed

lemma sample_scan:
  "\<exists>s. scan_node sample_yaml source dir dirname sample_tree = Inr ([s], [])
     \<and> sk_name s = ''tidy'' \<and> sk_source s = source \<and> sk_scope s = ScopeGlobal"
  using sample_skill_file [of source "dir @ ''/'' @ ''tidy''"]
  by (auto simp: sample_tree_def skill_md_def ebind_def)

lemma sample_load:
  "\<exists>ss ds. load_skills_for_context sample_yaml sample_skill_home None None True = Inr (ss, ds) \<and> length ss = 1"
proof -
  obtain a where a: "scan_node sample_yaml ''approved'' ''/h/skills/approved'' ''approved'' sample_tree = Inr ([a], [])"
    "sk_name a = ''tidy''" "sk_scope a = ScopeGlobal" using sample_scan by blast
  obtain b where b: "scan_node sample_yaml ''builtin'' ''/s'' ''skills'' sample_tree = Inr ([b], [])"
    "sk_name b = ''tidy''" "sk_scope b = ScopeGlobal" using sample_scan by blast
  show ?thesis
    using a b by (simp add: load_skills_for_context_def sample_skill_home_def scan_dir_for_skills_def ebind_def)
qed

lemma skills_selected_witness:
  "\<exists>ss ds. load_skills_for_context sample_yaml sample_skill_home None None True = Inr (ss, ds)
     \<and> length ss = 1 \<and> distinct (map sk_name ss) \<and> list_all checked_skill ss"
proof -
  obtain ss ds where l: "load_skills_for_context sample_yaml sample_skill_home None None True = Inr (ss, ds)" "length ss = 1"
    using sample_load by blast
  from skills_selected [OF l(1)] have "distinct (map sk_name ss) \<and> list_all checked_skill ss" by (elim exE conjE) simp
  with l show ?thesis by blast
qed

end
