(* ===== verification/Memory_Index.thy ===== *)
theory Memory_Index
  imports Skills
begin

text \<open>
  The index of the shared memory (\<open>runtime/memory.py\<close>): the facts under \<open>facts/\<close>, their frontmatter, their
  scope, and the section of the system prompt that lists them. As for the skills, \<open>yaml.safe_load\<close> is a
  parameter, and the text of a float.
\<close>

section \<open>Entries\<close>

record fact =
  fc_rel :: string
  fc_front :: dict

definition fact_description :: "fact \<Rightarrow> string" where
  "fact_description f = (case dget (fc_front f) ''description'' of Some (JStr s) \<Rightarrow> strip s | _ \<Rightarrow> [])"

definition fact_scope :: "(rat \<Rightarrow> string) \<Rightarrow> fact \<Rightarrow> string option" where
  "fact_scope fl f =
     (let v = dget (fc_front f) ''scope'' in if otruthy v then Some (str_json fl (the v)) else None)"

definition fact_type :: "(rat \<Rightarrow> string) \<Rightarrow> fact \<Rightarrow> string" where
  "fact_type fl f =
     (let v = dget (fc_front f) ''type'' in if otruthy v then strip (str_json fl (the v)) else [])"

text \<open>A scope outside the grammar is no scope.\<close>

definition fact_applies :: "(rat \<Rightarrow> string) \<Rightarrow> string option \<Rightarrow> string option \<Rightarrow> fact \<Rightarrow> bool" where
  "fact_applies fl aid persona f =
     (case parse_scope (fact_scope fl f) of Inl e \<Rightarrow> True | Inr sc \<Rightarrow> applies_to sc aid persona)"

definition is_dashes :: "string \<Rightarrow> bool" where
  "is_dashes l \<longleftrightarrow> strip l = ''---''"

definition yaml_error :: "exn \<Rightarrow> bool" where
  "yaml_error e \<longleftrightarrow> (case e of Exn t m \<Rightarrow> t = ''YAMLError'' | SimulatedKill k \<Rightarrow> False)"

text \<open>Only an error of the YAML parser is caught; a value it cannot build (a date with month 13) is a
  \<open>ValueError\<close>.\<close>

definition fact_frontmatter :: "(string \<Rightarrow> exn + json) \<Rightarrow> string \<Rightarrow> exn + dict" where
  "fact_frontmatter yaml text =
     (if take 3 text \<noteq> ''---'' then Inr []
      else (case splitlines text of
        [] \<Rightarrow> Inr []
      | l # ls \<Rightarrow>
          if \<not> is_dashes l \<or> takeWhile (\<lambda>x. \<not> is_dashes x) ls = ls then Inr []
          else (case yaml (join newline (takeWhile (\<lambda>x. \<not> is_dashes x) ls)) of
            Inl e \<Rightarrow> if yaml_error e then Inr [] else Inl e
          | Inr (JObj d) \<Rightarrow> Inr d
          | Inr v \<Rightarrow> Inr [])))"

section \<open>The scan\<close>

definition md_file :: "string \<Rightarrow> bool" where
  "md_file n \<longleftrightarrow> 3 < length n \<and> drop (length n - 3) n = ''.md''"

definition notebook_file :: "string \<Rightarrow> bool" where
  "notebook_file n \<longleftrightarrow> take 6 n = ''agent-'' \<and> 9 \<le> length n \<and> drop (length n - 9) n = ''-notes.md''"

definition listed_name :: "string \<Rightarrow> bool" where
  "listed_name n \<longleftrightarrow> md_file n \<and> take 1 n \<noteq> ''.'' \<and> \<not> notebook_file n"

definition read_fact :: "(string \<Rightarrow> exn + json) \<Rightarrow> string \<times> node \<Rightarrow> exn + fact list" where
  "read_fact yaml e =
     (case e of (n, FileNode (Inr raw)) \<Rightarrow>
        if listed_name n
        then ebind (fact_frontmatter yaml (universal_newlines raw)) (\<lambda>d. Inr [\<lparr>fc_rel = ''facts/'' @ n, fc_front = d\<rparr>])
        else Inr []
      | _ \<Rightarrow> Inr [])"

fun read_facts :: "(string \<Rightarrow> exn + json) \<Rightarrow> (string \<times> node) list \<Rightarrow> exn + fact list" where
  "read_facts yaml [] = Inr []"
| "read_facts yaml (e # es) = ebind (read_fact yaml e) (\<lambda>fs. ebind (read_facts yaml es) (\<lambda>gs. Inr (fs @ gs)))"

definition scan_memory_dir :: "(string \<Rightarrow> exn + json) \<Rightarrow> (string \<times> node) list \<Rightarrow> exn + fact list" where
  "scan_memory_dir yaml tree =
     (case map_of tree ''facts'' of
        Some (DirNode es) \<Rightarrow> read_facts yaml (sort_key fst es)
      | _ \<Rightarrow> Inr [])"

section \<open>The section of the prompt\<close>

definition dash_sep :: string where
  "dash_sep = '' '' @ bytes [226, 128, 148] @ '' ''"

definition fact_line :: "(rat \<Rightarrow> string) \<Rightarrow> fact \<Rightarrow> string" where
  "fact_line fl f =
     (let bits = (if fact_description f \<noteq> [] then [fact_description f] else [])
                 @ (case fact_scope fl f of Some (c # cs) \<Rightarrow> [''[scope: '' @ (c # cs) @ '']''] | _ \<Rightarrow> [])
      in ''- `'' @ fc_rel f @ ''`'' @ (if bits \<noteq> [] then dash_sep @ join ''  '' bits else []))"

definition of_type :: "(rat \<Rightarrow> string) \<Rightarrow> string \<Rightarrow> fact list \<Rightarrow> fact list" where
  "of_type fl t fs = filter (\<lambda>f. fact_type fl f = t) fs"

definition type_order :: "(rat \<Rightarrow> string) \<Rightarrow> fact list \<Rightarrow> string list" where
  "type_order fl fs =
     (let ts = dedupe (map (fact_type fl) fs) in
      sort (filter (\<lambda>t. t \<noteq> []) ts) @ (if [] \<in> set ts then [[]] else []))"

definition type_head :: "string \<Rightarrow> string" where
  "type_head t = ''**'' @ (if t = [] then ''other'' else t) @ ''**''"

definition fact_lines :: "(rat \<Rightarrow> string) \<Rightarrow> fact list \<Rightarrow> string list" where
  "fact_lines fl fs =
     (if length (dedupe (map (fact_type fl) fs)) \<le> 1 then map (fact_line fl) fs
      else concat (map (\<lambda>t. type_head t # map (fact_line fl) (of_type fl t fs)) (type_order fl fs)))"

definition proposals :: "string \<Rightarrow> string \<Rightarrow> string" where
  "proposals tool how = ''Write proposals (Tier-matrix permitting) with `'' @ tool @ ''` '' @ how"

definition read_write_hints :: "string list \<Rightarrow> string \<times> string option" where
  "read_write_hints allow =
     (let see = ''see your persona prompt for what you may write to'' in
      if ''read_memory'' \<in> set allow
      then (''Read the body of any entry with `read_memory(rel_path='' @ quote_mark @ ''<rel_path>'' @ quote_mark @ '')` ''
              @ bytes [226, 128, 148] @ '' sandboxed read-only access into ~/.lyre/memory/.'',
            if ''python_exec'' \<in> set allow then Some (proposals ''python_exec'' (''file writes; '' @ see @ ''.''))
            else if ''shell_exec'' \<in> set allow then Some (proposals ''shell_exec'' (''redirects; '' @ see @ ''.''))
            else None)
      else if ''python_exec'' \<in> set allow
      then (''Read the body of any entry with `python_exec` (e.g. `open(...).read()`) on `~/.lyre/memory/<rel_path>`.'',
            Some (proposals ''python_exec'' (''file writes; '' @ see @ '' and where.'')))
      else if ''shell_exec'' \<in> set allow
      then (''Read the body of any entry with `shell_exec cat ~/.lyre/memory/<rel_path>`.'',
            Some (proposals ''shell_exec'' (''redirects; '' @ see @ '' and where.'')))
      else (''You do not have a file-access tool. This index is informational; do not try to read these files directly ''
              @ bytes [226, 128, 148] @ '' dispatch a worker if the body is needed.'', None))"

definition format_memory_index :: "(rat \<Rightarrow> string) \<Rightarrow> string list \<Rightarrow> fact list \<Rightarrow> string" where
  "format_memory_index fl allow fs =
     (if fs = [] then []
      else (case read_write_hints allow of (r, w) \<Rightarrow>
        join newline ([''## Available global memory'', [], r] @ (case w of None \<Rightarrow> [] | Some x \<Rightarrow> [x])
          @ [[], ''### Facts''] @ fact_lines fl fs)))"

definition shown_facts :: "(rat \<Rightarrow> string) \<Rightarrow> string option \<Rightarrow> string option \<Rightarrow> fact list \<Rightarrow> fact list" where
  "shown_facts fl aid persona fs =
     (if aid \<noteq> None \<or> persona \<noteq> None then filter (fact_applies fl aid persona) fs else fs)"

definition build_memory_index_for_prompt ::
    "(string \<Rightarrow> exn + json) \<Rightarrow> (rat \<Rightarrow> string) \<Rightarrow> (string \<times> node) list \<Rightarrow> string list \<Rightarrow> string option \<Rightarrow> string option \<Rightarrow> exn + string" where
  "build_memory_index_for_prompt yaml fl tree allow aid persona =
     ebind (scan_memory_dir yaml tree) (\<lambda>fs. Inr (format_memory_index fl allow (shown_facts fl aid persona fs)))"

section \<open>The directories and the shipped facts\<close>

definition skeleton_subdirs :: "string list" where
  "skeleton_subdirs = [''facts'', ''facts/archive'']"

definition ensure_skeleton :: "string set \<Rightarrow> string list \<times> string set" where
  "ensure_skeleton dirs = (filter (\<lambda>r. r \<notin> dirs) skeleton_subdirs, dirs \<union> set skeleton_subdirs)"

fun copy_facts :: "(string \<times> string) list \<Rightarrow> (string \<rightharpoonup> string) \<Rightarrow> string list \<times> (string \<rightharpoonup> string)" where
  "copy_facts [] facts = ([], facts)"
| "copy_facts ((n, body) # srcs) facts =
     (if facts n \<noteq> None then copy_facts srcs facts
      else (case copy_facts srcs (facts(n \<mapsto> body)) of (ns, f) \<Rightarrow> (n # ns, f)))"

definition md_glob :: "string \<Rightarrow> bool" where
  "md_glob n \<longleftrightarrow> 3 \<le> length n \<and> drop (length n - 3) n = ''.md''"

definition ensure_shipped_facts ::
    "(string \<times> string) list option \<Rightarrow> (string \<rightharpoonup> string) \<Rightarrow> string list \<times> (string \<rightharpoonup> string)" where
  "ensure_shipped_facts shipped facts =
     (case shipped of None \<Rightarrow> ([], facts)
      | Some es \<Rightarrow> copy_facts (sort_key fst (filter (md_glob \<circ> fst) es)) facts)"

section \<open>What the index lists\<close>

lemma sort_types: "distinct (type_order fl fs)" "set (type_order fl fs) = fact_type fl ` set fs"
  by (auto simp: type_order_def Let_def intro: rev_image_eqI)

lemma mset_by_type:
  "distinct ts \<Longrightarrow> mset (concat (map (\<lambda>t. of_type fl t fs) ts)) = mset (filter (\<lambda>f. fact_type fl f \<in> set ts) fs)"
proof (induction ts)
  case (Cons t ts)
  have "mset (filter (\<lambda>f. fact_type fl f \<in> set (t # ts)) fs)
      = mset (of_type fl t fs) + mset (filter (\<lambda>f. fact_type fl f \<in> set ts) fs)"
    using Cons.prems by (induction fs) (auto simp: of_type_def)
  with Cons show ?case by simp
qed (simp add: of_type_def)

text \<open>The list of facts is complete and without repetition: grouped by type or flat, its lines are exactly one
  line per fact, and, when there is more than one type, one heading per type.\<close>

theorem facts_listed_once:
  "mset (fact_lines fl fs) = image_mset (fact_line fl) (mset fs)
     + (if length (dedupe (map (fact_type fl) fs)) \<le> 1 then {#} else image_mset type_head (mset_set (fact_type fl ` set fs)))"
proof (cases "length (dedupe (map (fact_type fl) fs)) \<le> 1")
  case True
  then show ?thesis by (simp add: fact_lines_def)
next
  case False
  let ?ts = "type_order fl fs"
  have "mset (concat (map (\<lambda>t. type_head t # map (fact_line fl) (of_type fl t fs)) ts))
      = image_mset type_head (mset ts) + image_mset (fact_line fl) (mset (concat (map (\<lambda>t. of_type fl t fs) ts)))" for ts
    by (induction ts) simp_all
  moreover have "mset (concat (map (\<lambda>t. of_type fl t fs) ?ts)) = mset fs"
    using mset_by_type [OF sort_types(1), of fl fs fl fs] by (simp add: sort_types(2) cong: filter_cong)
  moreover have "mset ?ts = mset_set (fact_type fl ` set fs)"
    using sort_types [of fl fs] by (metis mset_set_set)
  ultimately show ?thesis using False by (simp add: fact_lines_def)
qed

lemma read_facts_set:
  "read_facts yaml es = Inr fs \<Longrightarrow> f \<in> set fs \<longleftrightarrow> (\<exists>n raw d. (n, FileNode (Inr raw)) \<in> set es \<and> listed_name n
     \<and> fact_frontmatter yaml (universal_newlines raw) = Inr d \<and> f = \<lparr>fc_rel = ''facts/'' @ n, fc_front = d\<rparr>)"
proof (induction es arbitrary: fs)
  case (Cons e es)
  from Cons.prems obtain xs ys where r: "read_fact yaml e = Inr xs" "read_facts yaml es = Inr ys" "fs = xs @ ys"
    by (auto simp: ebind_Inr_iff)
  have "f \<in> set xs \<longleftrightarrow> (\<exists>n raw d. e = (n, FileNode (Inr raw)) \<and> listed_name n
     \<and> fact_frontmatter yaml (universal_newlines raw) = Inr d \<and> f = \<lparr>fc_rel = ''facts/'' @ n, fc_front = d\<rparr>)"
    using r(1) by (auto simp: read_fact_def ebind_Inr_iff split: prod.splits node.splits sum.splits if_splits)
  with Cons.IH [OF r(2)] r(3) show ?case by auto
qed simp

lemma notebook_name: "notebook_file (''agent-'' @ x @ ''-notes.md'')"
  by (simp add: notebook_file_def)

text \<open>C40: The index shows an agent exactly the facts that are meant for it: the readable Markdown files of
  \<open>facts/\<close> that are neither hidden nor the notebook of an agent and whose scope names everyone, the
  agent's persona or the agent itself; a scope that is not of this form counts as everyone. In
  particular no agent's notebook is in anybody's index.\<close>

theorem index_exact:
  assumes "map_of tree ''facts'' = Some (DirNode es)" "scan_memory_dir yaml tree = Inr fs"
  shows "(f \<in> set (shown_facts fl (Some aid) persona fs) \<longleftrightarrow>
      (\<exists>n raw d. (n, FileNode (Inr raw)) \<in> set es \<and> listed_name n \<and> fact_frontmatter yaml (universal_newlines raw) = Inr d
        \<and> f = \<lparr>fc_rel = ''facts/'' @ n, fc_front = d\<rparr>
        \<and> parse_scope (fact_scope fl f) \<notin> Inr ` ({ScopePersona t |t. persona \<noteq> Some t} \<union> {ScopeAgent t |t. t \<noteq> aid})))
    \<and> (\<forall>x. ''facts/agent-'' @ x @ ''-notes.md'' \<notin> fc_rel ` set fs)"
proof -
  have r: "read_facts yaml (sort_key fst es) = Inr fs" using assms by (simp add: scan_memory_dir_def)
  note s = read_facts_set [OF r]
  have app: "fact_applies fl (Some aid) persona f \<longleftrightarrow>
      parse_scope (fact_scope fl f) \<notin> Inr ` ({ScopePersona t |t. persona \<noteq> Some t} \<union> {ScopeAgent t |t. t \<noteq> aid})"
    by (cases "parse_scope (fact_scope fl f)")
      (auto simp: fact_applies_def image_iff, (case_tac b; auto)+)
  have "listed_name n \<Longrightarrow> ''facts/'' @ n \<noteq> ''facts/agent-'' @ x @ ''-notes.md''" for n x
    using notebook_name [of x] by (auto simp: listed_name_def)
  then have "\<forall>x. ''facts/agent-'' @ x @ ''-notes.md'' \<notin> fc_rel ` set fs" using s by fastforce
  then show ?thesis using s [of f] app by (auto simp: shown_facts_def)
qed

definition sample_facts :: "(string \<times> node) list" where
  "sample_facts =
     [(''agent-a-notes.md'', FileNode (Inr ''x'')), (''archive'', DirNode []), (''b.md'', FileNode (Inr ''p'')),
      (''c.md'', FileNode (Inr (''---'' @ newline @ ''s'' @ newline @ ''---'')))]"

definition scope_yaml :: "string \<Rightarrow> exn + json" where
  "scope_yaml t = Inr (JObj [(''scope'', JStr ''agent=b'')])"

definition fact_b :: fact where
  "fact_b = \<lparr>fc_rel = ''facts/b.md'', fc_front = []\<rparr>"

definition fact_c :: fact where
  "fact_c = \<lparr>fc_rel = ''facts/c.md'', fc_front = [(''scope'', JStr ''agent=b'')]\<rparr>"

lemma sample_facts_read: "scan_memory_dir scope_yaml [(''facts'', DirNode sample_facts)] = Inr [fact_b, fact_c]"
proof -
  have "sort_key fst sample_facts = sample_facts"
    by (rule sort_key_id_if_sorted) (simp add: sample_facts_def)
  moreover have "fact_frontmatter scope_yaml (universal_newlines ''p'') = Inr []"
    by (simp add: fact_frontmatter_def)
  moreover have "fact_frontmatter scope_yaml (universal_newlines (''---'' @ newline @ ''s'' @ newline @ ''---''))
      = Inr [(''scope'', JStr ''agent=b'')]"
  proof -
    have "splitlines (''---'' @ newline @ ''s'' @ newline @ ''---'') = [''---'', ''s'', ''---'']" by code_simp
    moreover have "is_dashes ''---'' \<and> \<not> is_dashes ''s''" by code_simp
    ultimately show ?thesis by (simp add: fact_frontmatter_def scope_yaml_def newline_def)
  qed
  moreover have "listed_name ''b.md'' \<and> listed_name ''c.md'' \<and> \<not> listed_name ''agent-a-notes.md''"
    by (simp add: listed_name_def md_file_def notebook_file_def)
  ultimately show ?thesis
    by (simp add: scan_memory_dir_def read_fact_def ebind_def sample_facts_def fact_b_def fact_c_def)
qed

lemma index_exact_witness:
  "\<exists>fs. scan_memory_dir scope_yaml [(''facts'', DirNode sample_facts)] = Inr fs
     \<and> fact_b \<in> set (shown_facts (\<lambda>q. []) (Some ''a'') None fs) \<and> fact_c \<in> set fs
     \<and> fact_c \<notin> set (shown_facts (\<lambda>q. []) (Some ''a'') None fs) \<and> ''facts/agent-'' @ ''a'' @ ''-notes.md'' \<notin> fc_rel ` set fs"
proof -
  have m: "map_of [(''facts'', DirNode sample_facts)] ''facts'' = Some (DirNode sample_facts)" by simp
  have b: "parse_scope (fact_scope (\<lambda>q. []) fact_b) = Inr ScopeGlobal"
    by (simp add: fact_scope_def fact_b_def otruthy_def parse_scope_def)
  have c: "parse_scope (fact_scope (\<lambda>q. []) fact_c) = Inr (ScopeAgent ''b'')"
  proof -
    have "find_text ''='' ''agent=b'' = Some (''agent'', ''=b'')" by code_simp
    moreover have "strip ''agent'' = ''agent''" "strip ''b'' = ''b''" by code_simp+
    ultimately have "parse_scope (Some ''agent=b'') = Inr (ScopeAgent ''b'')" by (simp add: parse_scope_def)
    then show ?thesis by (simp add: fact_scope_def fact_c_def otruthy_def str_json_def)
  qed
  note e = index_exact [OF m sample_facts_read, of _ "\<lambda>q. []" "''a''" None]
  have "fact_b \<in> set (shown_facts (\<lambda>q. []) (Some ''a'') None [fact_b, fact_c])"
    using b by (simp add: shown_facts_def fact_applies_def)
  moreover have "fact_c \<notin> set (shown_facts (\<lambda>q. []) (Some ''a'') None [fact_b, fact_c])"
    using e [of fact_c] c by auto
  moreover have "''facts/agent-'' @ ''a'' @ ''-notes.md'' \<notin> fc_rel ` set [fact_b, fact_c]"
    using conjunct2 [OF e [of fact_b]] by (rule spec)
  ultimately show ?thesis using sample_facts_read by auto
qed

section \<open>The shipped facts\<close>

lemma copy_facts_result:
  "copy_facts srcs facts = (ns, f) \<Longrightarrow>
     f = map_of srcs ++ facts \<and> distinct ns \<and> set ns = {n \<in> fst ` set srcs. facts n = None}"
proof (induction srcs facts arbitrary: ns f rule: copy_facts.induct)
  case (2 n body srcs facts)
  show ?case
  proof (cases "facts n")
    case None
    obtain ms where ms: "copy_facts srcs (facts(n \<mapsto> body)) = (ms, f)" "ns = n # ms"
      using 2(3) None by (auto split: prod.splits)
    show ?thesis using 2(2) [OF _ ms(1)] None ms(2) by (auto simp: map_add_def fun_eq_iff split: option.splits)
  next
    case (Some x)
    then show ?thesis using 2(1) [of ns f] 2(3) by (auto simp: map_add_def fun_eq_iff split: option.splits)
  qed
qed (simp add: map_add_def)

text \<open>A fact that is there is never overwritten, whoever wrote it; afterwards everything shipped is there;
  and the names returned are those of the files written.\<close>

lemma ensure_shipped_exact:
  assumes "ensure_shipped_facts (Some es) facts = (ns, f)" "distinct (map fst es)"
  shows "f n = (case facts n of Some x \<Rightarrow> Some x | None \<Rightarrow> if md_glob n then map_of es n else None)"
    and "n \<in> set ns \<longleftrightarrow> md_glob n \<and> n \<in> fst ` set es \<and> facts n = None"
proof -
  let ?srcs = "sort_key fst (filter (md_glob \<circ> fst) es)"
  have c: "f = map_of ?srcs ++ facts \<and> distinct ns \<and> set ns = {n \<in> fst ` set ?srcs. facts n = None}"
    using assms(1) by (intro copy_facts_result) (simp add: ensure_shipped_facts_def)
  have d: "distinct (map fst ?srcs)" using assms(2) by (simp add: distinct_map inj_on_def)
  have "map_of ?srcs n = Some y \<longleftrightarrow> (if md_glob n then map_of es n else None) = Some y" for y
    using d assms(2) by (auto simp: map_of_eq_Some_iff)
  then have "map_of ?srcs n = (if md_glob n then map_of es n else None)"
    by (metis not_Some_eq)
  then show "f n = (case facts n of Some x \<Rightarrow> Some x | None \<Rightarrow> if md_glob n then map_of es n else None)"
    using c by (auto simp: map_add_def split: option.splits)
  show "n \<in> set ns \<longleftrightarrow> md_glob n \<and> n \<in> fst ` set es \<and> facts n = None" using c by auto
qed

end
