(* ===== verification/Spec2Isabelle.thy ===== *)
theory Spec2Isabelle
  imports Lease Maintenance Identity Model_Router Transactions Uuid7 Blob_Store Tick Mail_Flow
    Tool_Mailbox Workflow_Flow Loop_Facts Agents_Flow Adapter_Flow Owner_Flow Wakeup_Summary
    Memory_Index
begin

text \<open>
  Lyre runs long-lived language-model agents: every agent has an id, a mailbox and tasks in one SQLite
  database, and a scheduler opens short wakeups in which a loop of model turns and tool calls does the
  work. This library is a model of that system (\<open>src/src/lyre/\<close>) and of what makes it correct.
  Everything is executable: a result of the code is a value here, an exception too.

  \<^bold>\<open>The parts and how they interact.\<close> The repositories read and write the database. A tick of the
  scheduler delivers due scheduled mail (Phase -1), wakes idle agents with new mail (Phase 0),
  resolves fan-in barriers (0.5), resumes parked tasks (0.7), reaps ephemeral agents (0.8), recovers
  expired leases (2) and starts claimed tasks. A started task runs the agent loop: it asks a model the
  router chose (guarded by the circuit breaker of the health tracker), dispatches the tool calls, and is
  interrupted by mail the watcher announces. Tools do not touch mailboxes: they queue rows in the outbox,
  and the dispatcher turns each row into a mail exactly once.

  \<^bold>\<open>The theories.\<close>
  \<^item> Shared: \<open>Lyre_Prelude\<close> (exceptions, the state monad with errors \<open>bnd\<close>, \<open>ret\<close>, \<open>query\<close>, \<open>upd\<close>, the
    collections), \<open>Py_Str\<close> (Python strings as bytes), \<open>Json\<close>, \<open>Stamps\<close> (times and their texts).
  \<^item> \<open>persistence/\<close>: \<open>Models\<close> (models.py), \<open>Database\<close> (the migrations' tables), \<open>Repo_Agents\<close>,
    \<open>Repo_Tasks\<close>, \<open>Repo_Wakeups\<close>, \<open>Repo_Mailbox\<close>, \<open>Repo_Scheduled\<close>, \<open>Repo_Outbox\<close>, \<open>Repo_FanIn\<close>,
    \<open>Transactions\<close>, \<open>Uuid7\<close> (sqlite_impl.py), \<open>Maintenance\<close> (maintenance.py), and over them \<open>Lease\<close>.
    A table is the list of its rows in rowid order; a record type is a row; a method is a state function.
  \<^item> \<open>runtime/\<close>: \<open>Identity\<close>, \<open>Future_Mail\<close>, \<open>Health_Tracker\<close>, \<open>Model_Router\<close> (with model_registry.py and
    adapter_factory.py), \<open>Mail_Watcher\<close> (with kill_switch.py), \<open>Blob_Store\<close>.
  \<^item> \<open>outbox/dispatcher.py\<close>: \<open>Outbox_Dispatcher\<close>.
  \<^item> \<open>scheduler/scheduler.py\<close>: \<open>Sched_State\<close> (the in-memory state of \<open>Scheduler\<close>), \<open>Sched_Mail\<close>,
    \<open>Fan_In_Barrier\<close>, \<open>Supervision\<close> and \<open>Restart_Limits\<close>, \<open>Auto_Wake\<close>, \<open>Wakeup_Run\<close>
    (\<open>_run_task_inline\<close>), \<open>Tick\<close> (\<open>_tick\<close>, dispatch).
  \<^item> \<open>runtime/tools/\<close>: \<open>Tool_Base\<close>, \<open>Tool_Send\<close> and \<open>Tool_Mailbox\<close> (mailbox.py), \<open>Tool_Workflow\<close> (tasks.py,
    fan_in.py, progress.py), \<open>Tool_Agents\<close> and \<open>Tool_Listing\<close> (introspect.py); their effects on the rest of
    the system are in \<open>Mail_Flow\<close>, \<open>Workflow_Flow\<close> and \<open>Agents_Flow\<close>.
  \<^item> \<open>runtime/agent_loop.py\<close> and \<open>runtime/compact.py\<close>: \<open>Loop_Messages\<close> (blocks, messages, texts),
    \<open>Loop_Turn\<close> (streaming, failover), \<open>Agent_Loop\<close> (\<open>run\<close>), \<open>Compact\<close>; proofs in \<open>Compact_Keeps\<close>,
    \<open>Loop_Safety\<close>, \<open>Loop_Facts\<close>, samples in \<open>Loop_Samples\<close>.
  \<^item> \<open>adapter/\<close>: \<open>Json_Parse\<close> (what the adapters use of Python's \<open>json.loads\<close>), \<open>Wire_Format\<close> (the contract
    of a translation, as a locale), \<open>Adapter_Chat\<close> (openai.py), \<open>Adapter_Responses\<close> (openai_responses.py),
    \<open>Adapter_Anthropic\<close> (anthropic.py), each interpreting the contract, and \<open>Adapter_Flow\<close> (the loop on top).
  \<^item> \<open>dashboard/sse.py\<close>, \<open>integrations/owner_mail_enqueuer.py\<close>: \<open>Owner_Channel\<close> (the broadcaster and the enqueuer
    as two tasks, one step from one \<open>await\<close> to the next) and \<open>Owner_Flow\<close> (their runs).
  \<^item> \<open>runtime/wakeup_summary.py\<close>: \<open>Notes_Log\<close> (the format of a notebook, adding an entry, rotation, each with the
    states a crash leaves), \<open>Notes_Parse\<close> (reading back what was written), \<open>Notes_Flow\<close> (what an addition and a
    rotation keep), \<open>Wakeup_Summary\<close> (the prompt, the model and the whole step).
  \<^item> \<open>runtime/skills.py\<close>: \<open>Skills\<close>; \<open>runtime/memory.py\<close>: \<open>Memory_Index\<close> (what an agent is told it can read).
  \<^item> \<open>Sample\<close>: the small database the witnesses run on.

  \<^bold>\<open>What the lemmas show.\<close> \<open>Lease\<close>: two processes never hold one task, and the statements refine a
  two-state automaton. \<open>Transactions\<close>: what every history of the shared connection makes
  durable; a group of writes is all or nothing, except for the unlocked commits of the maintenance run. \<open>Outbox_Dispatcher\<close>: every
  pending row is delivered once although any step may be repeated after a crash. \<open>Health_Tracker\<close>,
  \<open>Model_Router\<close>: the breaker refines its three-state specification; the router's list is ranked and
  complete. \<open>Sched_Mail\<close>, \<open>Fan_In_Barrier\<close>, \<open>Restart_Limits\<close>, \<open>Auto_Wake\<close>, \<open>Tick\<close>: each phase settles,
  wakes the coordinator of a resolved group exactly once, bounds restarts, and one failing phase does not
  stop the others; the number of running processes stays under the limit. \<open>Wakeup_Run\<close>: what a run leaves
  in the database, in every ending. \<open>Mail_Flow\<close>, \<open>Workflow_Flow\<close>, \<open>Agents_Flow\<close>: the exact effect of each
  tool (the mail a call describes is the mail queued, field by field) and which trust its checks establish. \<open>Loop_Safety\<close>, \<open>Loop_Facts\<close>, \<open>Compact_Keeps\<close>: requests stay
  well formed over all runs, a repeating model is stopped, the status tells how the run ended, a silent
  close apologises to everyone whose mail was read, mail is not lost by a compaction.
  \<open>Json_Parse\<close>, the adapters: what is written as JSON is read back, a streamed turn is what its pieces say
  however they are cut, every request of a run is one the endpoint accepts.
  \<open>Owner_Flow\<close>: calm runs lose no mail for the owner; \<open>Owner_Channel\<close>: the gap between the sweep and the
  subscription does.
  \<open>Notes_Flow\<close>, \<open>Wakeup_Summary\<close>: nothing in a notebook is lost by an addition or, ids being distinct, by a
  rotation, which moves whole entries; the log stays within its ceiling.
  \<open>Skills\<close>, \<open>Memory_Index\<close>: the menus of the prompt list what is in scope for the agent and nothing else. Where the code does not do what it says, the lemma states what it does;
  those are the findings of the manifest.

  \<^bold>\<open>Bounds and fuel.\<close> Integers are Python's, unbounded, except in \<open>Uuid7\<close>, whose fields are machine
  words. A loop over a list is a fold over it. The catch-up loop of recurring mail (\<open>Sched_Mail\<close>) and of
  \<open>next_fire\<close> carries a budget that a lemma shows to be enough; the agent loop ends because each turn
  lowers \<open>max_turns\<close>, the guard of the code.

  \<^bold>\<open>Abstractions.\<close> Parameters of the definitions are: the drawn random bits and the clock, the text of a
  float (\<open>fl\<close>), digests, the files and the resolution of paths, the model provider (a function from a request to
  the events it streams) and what other processes write between two awaits (explicit steps). Strings
  are their UTF-8 bytes. The result of \<open>json.dumps\<close> that is only handed on is kept symbolic (\<open>Dumped\<close>). A
  few error messages of the tools are abridged; which branch raises is not. Of the transcript only the results
  of the calls are kept; the temporary file of an atomic write is not a file of the model.

  \<^bold>\<open>Not modelled.\<close> Command line, onboarding and logging (\<open>main.py\<close>, \<open>onboard.py\<close>, \<open>logging_setup.py\<close>): input,
  output and prompts for the user. The dashboard (\<open>dashboard/\<close> but for \<open>sse.py\<close>):
  HTTP routes and HTML. The Lark channel
  (\<open>integrations/lark/\<close>): glue to a third-party package. Processes, files and git (\<open>runtime/shell.py\<close>,
  \<open>worktree.py\<close>, \<open>git_context.py\<close>, \<open>transcript.py\<close>, \<open>tools/shell.py\<close>, \<open>tools/python.py\<close>): they call the operating system.
  The abstract interfaces of \<open>persistence/repositories.py\<close>: signatures only. The manifest lists each with
  its reason.
\<close>

end
